(* ===== verification/Prelude.thy ===== *)
theory Prelude
  imports Main "HOL-Library.Word" "HOL-Library.Multiset" "HOL-Library.Char_ord"
    "HOL-Library.List_Lexorder" "HOL-Library.Code_Target_Numeral"
begin

text \<open>
  What every component of the model shares: results (a Go function that returns
  \<open>(value, error)\<close> returns \<open>Inr value\<close> or \<open>Inl error\<close>), loops that stop at the first
  error, lookup by the first matching index, tables built from slices, and the list and
  multiset facts the component proofs rest on.  Go strings are byte strings, compared bytewise:
  \<open>string\<close> with the orders of \<open>Char_ord\<close> and \<open>List_Lexorder\<close> is exactly that.
\<close>

named_theorems result_simps \<open>equations of the result combinators\<close>
named_theorems wf_intros \<open>preservation of well-formedness by the operations of the model\<close>

subsection \<open>Results\<close>

definition bind_result :: "'e + 'a \<Rightarrow> ('a \<Rightarrow> 'e + 'b) \<Rightarrow> 'e + 'b" where
  "bind_result r f = (case r of Inl e \<Rightarrow> Inl e | Inr x \<Rightarrow> f x)"

definition map_error :: "('e \<Rightarrow> 'f) \<Rightarrow> 'e + 'a \<Rightarrow> 'f + 'a" where
  "map_error g r = (case r of Inl e \<Rightarrow> Inl (g e) | Inr x \<Rightarrow> Inr x)"

fun is_ok :: "'e + 'a \<Rightarrow> bool" where
  "is_ok (Inl e) = False"
| "is_ok (Inr x) = True"

text \<open>A loop that threads a state and returns at the first error.\<close>

fun fold_result :: "('s \<Rightarrow> 'a \<Rightarrow> 'e + 's) \<Rightarrow> 's \<Rightarrow> 'a list \<Rightarrow> 'e + 's" where
  "fold_result f s [] = Inr s"
| "fold_result f s (x # xs) = bind_result (f s x) (\<lambda>s'. fold_result f s' xs)"

text \<open>A loop that only checks.\<close>

fun check_all :: "('a \<Rightarrow> 'e + unit) \<Rightarrow> 'a list \<Rightarrow> 'e + unit" where
  "check_all f [] = Inr ()"
| "check_all f (x # xs) = bind_result (f x) (\<lambda>_. check_all f xs)"

fun map_result :: "('a \<Rightarrow> 'e + 'b) \<Rightarrow> 'a list \<Rightarrow> 'e + 'b list" where
  "map_result f [] = Inr []"
| "map_result f (x # xs) =
     bind_result (f x) (\<lambda>y. bind_result (map_result f xs) (\<lambda>ys. Inr (y # ys)))"

lemma bind_result_simps [simp, result_simps]:
  "bind_result (Inl e) f = Inl e"
  "bind_result (Inr x) f = f x"
  by (simp_all add: bind_result_def)

lemma bind_result_Inr [result_simps]:
  "bind_result r f = Inr y \<longleftrightarrow> (\<exists>x. r = Inr x \<and> f x = Inr y)"
  by (cases r) auto

lemma bind_result_Inl:
  "bind_result r f = Inl e \<longleftrightarrow> r = Inl e \<or> (\<exists>x. r = Inr x \<and> f x = Inl e)"
  by (cases r) auto

lemma map_error_simps [simp, result_simps]:
  "map_error g (Inl e) = Inl (g e)"
  "map_error g (Inr x) = Inr x"
  by (simp_all add: map_error_def)

lemma map_error_Inr [simp, result_simps]: "map_error g r = Inr x \<longleftrightarrow> r = Inr x"
  by (cases r) auto

lemma if_result_Inr [result_simps]:
  "(if b then Inl e else r) = Inr x \<longleftrightarrow> \<not> b \<and> r = Inr x"
  "(if b then r else Inl e) = Inr x \<longleftrightarrow> b \<and> r = Inr x"
  by auto

lemma is_ok_iff: "is_ok r \<longleftrightarrow> (\<exists>x. r = Inr x)"
  by (cases r) auto

lemma unit_result_Inr [result_simps]: "(r :: 'e + unit) = Inr u \<longleftrightarrow> is_ok r"
  by (cases r) auto

lemma check_all_Inr: "check_all f xs = Inr u \<longleftrightarrow> (\<forall>x\<in>set xs. f x = Inr ())"
  by (induction xs) (auto simp: bind_result_Inr)

lemma fold_result_append:
  "fold_result f s (xs @ ys) = bind_result (fold_result f s xs) (\<lambda>s'. fold_result f s' ys)"
  by (induction xs arbitrary: s) (auto simp: bind_result_def split: sum.splits)

lemma fold_result_invariant:
  assumes "fold_result f s xs = Inr s'" and "P s"
    and "\<And>s x s'. x \<in> set xs \<Longrightarrow> P s \<Longrightarrow> f s x = Inr s' \<Longrightarrow> P s'"
  shows "P s'"
  using assms
proof (induction xs arbitrary: s)
  case Nil
  then show ?case by simp
next
  case (Cons x xs)
  from Cons.prems(1) obtain t where t: "f s x = Inr t" "fold_result f t xs = Inr s'"
    by (auto simp: bind_result_Inr)
  have "P t" by (rule Cons.prems(3)[OF _ Cons.prems(2) t(1)]) simp
  then show ?case by (rule Cons.IH[OF t(2)]) (rule Cons.prems(3), auto)
qed

lemma map_result_Inr:
  "map_result f xs = Inr ys \<longleftrightarrow> list_all2 (\<lambda>x y. f x = Inr y) xs ys"
proof (induction xs arbitrary: ys)
  case Nil
  show ?case by auto
next
  case (Cons x xs)
  show ?case
    by (cases ys) (auto simp: bind_result_Inr Cons.IH)
qed

lemma map_result_total: "(\<And>x. x \<in> set xs \<Longrightarrow> f x = Inr (g x)) \<Longrightarrow> map_result f xs = Inr (map g xs)"
  by (induction xs) simp_all

subsection \<open>Searching by index\<close>

text \<open>The index of the first element that satisfies a test, as the lookup loops return it.\<close>

fun find_index :: "('a \<Rightarrow> bool) \<Rightarrow> 'a list \<Rightarrow> nat option" where
  "find_index P [] = None"
| "find_index P (x # xs) = (if P x then Some 0 else map_option Suc (find_index P xs))"

lemma find_index_None: "find_index P xs = None \<longleftrightarrow> (\<forall>x\<in>set xs. \<not> P x)"
  by (induction xs) auto

lemma find_index_Some:
  "find_index P xs = Some i \<Longrightarrow> i < length xs \<and> P (xs ! i)"
  by (induction xs arbitrary: i) (auto split: if_splits)

lemma find_index_Some_iff:
  "find_index P xs = Some i \<longleftrightarrow> i < length xs \<and> P (xs ! i) \<and> (\<forall>j<i. \<not> P (xs ! j))"
proof (induction xs arbitrary: i)
  case Nil
  show ?case by simp
next
  case (Cons x xs)
  show ?case
    by (cases i) (auto simp: Cons.IH less_Suc_eq_0_disj)
qed

lemma find_index_append:
  "\<forall>x\<in>set xs. \<not> P x \<Longrightarrow> P y \<Longrightarrow> find_index P (xs @ y # ys) = Some (length xs)"
  by (induction xs) auto

text \<open>With distinct keys, updating at the found index is a map over the slice.\<close>

lemma list_update_find_index:
  assumes "find_index (\<lambda>x. f x = k) xs = Some i" and "distinct (map f xs)"
  shows "xs[i := g (xs ! i)] = map (\<lambda>x. if f x = k then g x else x) xs"
  using assms
proof (induction xs arbitrary: i)
  case Nil
  then show ?case by simp
next
  case (Cons x xs)
  show ?case
  proof (cases "f x = k")
    case True
    with Cons.prems(2) have "\<forall>y\<in>set xs. f y \<noteq> k"
      by (auto intro: rev_image_eqI)
    then have "map (\<lambda>y. if f y = k then g y else y) xs = xs"
      by (intro map_idI) auto
    with True Cons.prems(1) show ?thesis by simp
  next
    case False
    with Cons.prems(1) obtain j where "find_index (\<lambda>x. f x = k) xs = Some j" "i = Suc j"
      by auto
    with False Cons show ?thesis by simp
  qed
qed

subsection \<open>Tables built from slices\<close>

text \<open>\<open>for v in xs: m[key v] = v\<close>: the last value of a key wins.\<close>

definition index_by :: "('a \<Rightarrow> 'k) \<Rightarrow> 'a list \<Rightarrow> ('k \<rightharpoonup> 'a)" where
  "index_by key xs = map_of (rev (map (\<lambda>x. (key x, x)) xs))"

lemma index_by_Some_imp: "index_by key xs k = Some x \<Longrightarrow> x \<in> set xs \<and> key x = k"
  by (auto simp: index_by_def dest!: map_of_SomeD)

lemma index_by_Some:
  assumes "distinct (map key xs)"
  shows "index_by key xs k = Some x \<longleftrightarrow> x \<in> set xs \<and> key x = k"
proof -
  have "distinct (map fst (rev (map (\<lambda>x. (key x, x)) xs)))"
    using assms by (simp add: rev_map o_def flip: rev_map)
  then show ?thesis by (auto simp: index_by_def image_iff)
qed

lemma index_by_None: "index_by key xs k = None \<longleftrightarrow> k \<notin> key ` set xs"
  by (auto simp: index_by_def map_of_eq_None_iff image_iff)

subsection \<open>Sorting by key\<close>

text \<open>
  Two slices with the same elements and distinct keys sort to the same slice: the order in
  which a Go map was walked cannot be seen after sorting by a unique key.
\<close>

lemma sort_key_unique:
  assumes "mset xs = mset ys" and "distinct (map key xs)"
  shows "sort_key key xs = sort_key key ys"
proof (rule sort_key_inj_key_eq)
  show "mset xs = mset (sort_key key ys)" using assms(1) by simp
  show "inj_on key (set xs)" using assms(2) by (simp add: distinct_map)
  show "sorted (map key (sort_key key ys))" by simp
qed

lemma sort_key_id:
  assumes "sorted (map key xs)" and "distinct (map key xs)"
  shows "sort_key key xs = xs"
  using assms by (intro sort_key_inj_key_eq) (simp_all add: distinct_map)

lemma distinct_map_mset: "mset xs = mset ys \<Longrightarrow> distinct (map f xs) \<longleftrightarrow> distinct (map f ys)"
  by (metis mset_eq_imp_distinct_iff mset_map)

end
