(* ===== verification/Text_Utf8.thy ===== *)
theory Text_Utf8
  imports Prelude
begin

text \<open>
  The part of Go's \<open>unicode/utf8\<close>, \<open>unicode\<close>, \<open>strings\<close>, \<open>strconv\<close> and \<open>fmt\<close> packages that the
  modelled code calls: decoding runes from byte strings, the space and control classes, trimming
  and splitting, and decimal digits.  Nothing here models a file of the repository; the other
  theories use it where the code calls the standard library.
\<close>

subsection \<open>Runes\<close>

definition byte :: "char \<Rightarrow> nat" where
  "byte c = of_char c"

definition byte_in :: "nat \<Rightarrow> nat \<Rightarrow> char \<Rightarrow> bool" where
  "byte_in lo hi c \<longleftrightarrow> lo \<le> byte c \<and> byte c \<le> hi"

definition rune_error :: nat where
  "rune_error = 0xFFFD"

text \<open>The second byte a first byte admits, and the number of bytes of the sequence.\<close>

definition rune_shape :: "nat \<Rightarrow> (nat \<times> nat \<times> nat) option" where
  "rune_shape b =
     (if 0xC2 \<le> b \<and> b \<le> 0xDF then Some (2, 0x80, 0xBF)
      else if b = 0xE0 then Some (3, 0xA0, 0xBF)
      else if b = 0xED then Some (3, 0x80, 0x9F)
      else if 0xE1 \<le> b \<and> b \<le> 0xEF then Some (3, 0x80, 0xBF)
      else if b = 0xF0 then Some (4, 0x90, 0xBF)
      else if 0xF1 \<le> b \<and> b \<le> 0xF3 then Some (4, 0x80, 0xBF)
      else if b = 0xF4 then Some (4, 0x80, 0x8F)
      else None)"

definition tail_bits :: "char \<Rightarrow> nat" where
  "tail_bits c = byte c mod 64"

text \<open>\<open>utf8.DecodeRuneInString\<close>: the rune and its width; an invalid byte is U+FFFD of width 1.\<close>

fun decode_rune :: "string \<Rightarrow> nat \<times> nat" where
  "decode_rune [] = (rune_error, 0)"
| "decode_rune (c # cs) =
     (if byte c < 0x80 then (byte c, 1)
      else case rune_shape (byte c) of
        None \<Rightarrow> (rune_error, 1)
      | Some (n, lo, hi) \<Rightarrow>
          (case cs of
            [] \<Rightarrow> (rune_error, 1)
          | c1 # cs1 \<Rightarrow>
              if \<not> byte_in lo hi c1 then (rune_error, 1)
              else if n = 2 then ((byte c mod 32) * 64 + tail_bits c1, 2)
              else (case cs1 of
                [] \<Rightarrow> (rune_error, 1)
              | c2 # cs2 \<Rightarrow>
                  if \<not> byte_in 0x80 0xBF c2 then (rune_error, 1)
                  else if n = 3 then ((byte c mod 16) * 4096 + tail_bits c1 * 64 + tail_bits c2, 3)
                  else (case cs2 of
                    [] \<Rightarrow> (rune_error, 1)
                  | c3 # _ \<Rightarrow>
                      if \<not> byte_in 0x80 0xBF c3 then (rune_error, 1)
                      else ((byte c mod 8) * 262144 + tail_bits c1 * 4096
                              + tail_bits c2 * 64 + tail_bits c3, 4)))))"

lemma decode_rune_width_pos: "s \<noteq> [] \<Longrightarrow> 0 < snd (decode_rune s)"
  by (cases s) (auto split: option.splits list.splits)

text \<open>\<open>for _, r := range s\<close>, with the bytes each rune came from.\<close>

function rune_chunks :: "string \<Rightarrow> (nat \<times> string) list" where
  "rune_chunks s =
     (if s = [] then []
      else (fst (decode_rune s), take (snd (decode_rune s)) s)
             # rune_chunks (drop (snd (decode_rune s)) s))"
  by pat_completeness auto
termination
  by (relation "measure length") (auto simp: decode_rune_width_pos)

declare rune_chunks.simps [simp del]

definition runes :: "string \<Rightarrow> nat list" where
  "runes s = map fst (rune_chunks s)"

text \<open>\<open>utf8.ValidString\<close>: no rune of the string is an invalid byte.\<close>

definition valid_utf8 :: "string \<Rightarrow> bool" where
  "valid_utf8 s \<longleftrightarrow> (\<forall>(r, bs)\<in>set (rune_chunks s). \<not> (r = rune_error \<and> length bs = 1))"

text \<open>\<open>utf8.DecodeLastRuneInString\<close>: back up over at most three continuation bytes.\<close>

definition rune_start :: "char \<Rightarrow> bool" where
  "rune_start c \<longleftrightarrow> \<not> byte_in 0x80 0xBF c"

fun last_rune_from :: "string \<Rightarrow> nat \<Rightarrow> nat \<Rightarrow> nat" where
  "last_rune_from s 0 i = i"
| "last_rune_from s (Suc n) i =
     (if i = 0 then 0 else if rune_start (s ! (i - 1)) then i - 1 else last_rune_from s n (i - 1))"

definition decode_last_rune :: "string \<Rightarrow> nat \<times> nat" where
  "decode_last_rune s =
     (if s = [] then (rune_error, 0)
      else if byte (last s) < 0x80 then (byte (last s), 1)
      else let start = last_rune_from s 3 (length s - 1);
               (r, n) = decode_rune (drop start s)
           in if start + n \<noteq> length s then (rune_error, 1) else (r, n))"

lemma decode_last_rune_width_pos:
  assumes "s \<noteq> []"
  shows "0 < snd (decode_last_rune s)"
proof -
  have le: "last_rune_from s n i \<le> i" for n i
  proof (induction n arbitrary: i)
    case 0
    show ?case by simp
  next
    case (Suc n)
    have "last_rune_from s n (i - 1) \<le> i"
      using Suc.IH[of "i - 1"] by simp
    then show ?case by simp
  qed
  have "last_rune_from s 3 (length s - 1) < length s"
    using le[of 3 "length s - 1"] assms by (cases s) auto
  then have "drop (last_rune_from s 3 (length s - 1)) s \<noteq> []" by simp
  from decode_rune_width_pos[OF this] assms show ?thesis
    by (auto simp: decode_last_rune_def Let_def split: prod.splits)
qed

subsection \<open>Classes of runes\<close>

definition is_control :: "nat \<Rightarrow> bool" where
  "is_control r \<longleftrightarrow> r \<le> 0x1F \<or> (0x7F \<le> r \<and> r \<le> 0x9F)"

definition is_space :: "nat \<Rightarrow> bool" where
  "is_space r \<longleftrightarrow> (9 \<le> r \<and> r \<le> 13) \<or> r = 0x20 \<or> r = 0x85 \<or> r = 0xA0 \<or> r = 0x1680
     \<or> (0x2000 \<le> r \<and> r \<le> 0x200A) \<or> r = 0x2028 \<or> r = 0x2029 \<or> r = 0x202F \<or> r = 0x205F
     \<or> r = 0x3000"

subsection \<open>Trimming and splitting\<close>

function trim_left_func :: "(nat \<Rightarrow> bool) \<Rightarrow> string \<Rightarrow> string" where
  "trim_left_func f s =
     (if s \<noteq> [] \<and> f (fst (decode_rune s))
      then trim_left_func f (drop (snd (decode_rune s)) s) else s)"
  by pat_completeness auto
termination
  by (relation "measure (\<lambda>(f, s). length s)") (auto simp: decode_rune_width_pos)

function trim_right_func :: "(nat \<Rightarrow> bool) \<Rightarrow> string \<Rightarrow> string" where
  "trim_right_func f s =
     (if s \<noteq> [] \<and> f (fst (decode_last_rune s))
      then trim_right_func f (take (length s - snd (decode_last_rune s)) s) else s)"
  by pat_completeness auto
termination
  by (relation "measure (\<lambda>(f, s). length s)")
    (use decode_last_rune_width_pos in \<open>auto simp: min_def not_le intro!: diff_less\<close>)

declare trim_left_func.simps [simp del] trim_right_func.simps [simp del]

definition trim_func :: "(nat \<Rightarrow> bool) \<Rightarrow> string \<Rightarrow> string" where
  "trim_func f s = trim_right_func f (trim_left_func f s)"

abbreviation trim_space :: "string \<Rightarrow> string" where
  "trim_space \<equiv> trim_func is_space"

text \<open>\<open>strings.FieldsFunc\<close> and \<open>strings.Join\<close>.\<close>

fun fields_chunks :: "(nat \<Rightarrow> bool) \<Rightarrow> (nat \<times> string) list \<Rightarrow> string \<Rightarrow> string list" where
  "fields_chunks f [] cur = (if cur = [] then [] else [cur])"
| "fields_chunks f ((r, bs) # rest) cur =
     (if f r then (if cur = [] then fields_chunks f rest [] else cur # fields_chunks f rest [])
      else fields_chunks f rest (cur @ bs))"

definition fields_func :: "(nat \<Rightarrow> bool) \<Rightarrow> string \<Rightarrow> string list" where
  "fields_func f s = fields_chunks f (rune_chunks s) []"

fun join :: "string \<Rightarrow> string list \<Rightarrow> string" where
  "join sep [] = []"
| "join sep [x] = x"
| "join sep (x # y # rest) = x @ sep @ join sep (y # rest)"

text \<open>A string whose first and last bytes are printable ASCII has nothing to trim.\<close>

lemma trim_left_ascii:
  "s \<noteq> [] \<Longrightarrow> byte (hd s) < 0x80 \<Longrightarrow> \<not> f (byte (hd s)) \<Longrightarrow> trim_left_func f s = s"
  by (subst trim_left_func.simps, cases s) auto

lemma trim_right_ascii:
  "s \<noteq> [] \<Longrightarrow> byte (last s) < 0x80 \<Longrightarrow> \<not> f (byte (last s)) \<Longrightarrow> trim_right_func f s = s"
  by (auto simp: trim_right_func.simps[of f s] decode_last_rune_def)

lemma trim_func_ascii:
  assumes "s \<noteq> []" and "byte (hd s) < 0x80" and "\<not> f (byte (hd s))"
    and "byte (last s) < 0x80" and "\<not> f (byte (last s))"
  shows "trim_func f s = s"
  using assms by (simp add: trim_func_def trim_left_ascii trim_right_ascii)

subsection \<open>Decimal digits\<close>

definition digit_char :: "nat \<Rightarrow> char" where
  "digit_char d = char_of (48 + d)"

definition is_digit :: "char \<Rightarrow> bool" where
  "is_digit c \<longleftrightarrow> 48 \<le> byte c \<and> byte c \<le> 57"

definition digit_value :: "char \<Rightarrow> nat" where
  "digit_value c = byte c - 48"

fun decimal_digits :: "nat \<Rightarrow> string" where
  "decimal_digits n =
     (if n < 10 then [digit_char n] else decimal_digits (n div 10) @ [digit_char (n mod 10)])"

declare decimal_digits.simps [simp del]

definition digits_value :: "string \<Rightarrow> nat" where
  "digits_value s = foldl (\<lambda>v c. v * 10 + digit_value c) 0 s"

text \<open>\<open>strconv.FormatInt(v, 10)\<close> and \<open>fmt.Sprintf\<close> with a zero-padded width.\<close>

definition format_int :: "int \<Rightarrow> string" where
  "format_int v = (if v < 0 then CHR ''-'' # decimal_digits (nat (- v)) else decimal_digits (nat v))"

definition zero_pad :: "nat \<Rightarrow> string \<Rightarrow> string" where
  "zero_pad w s = replicate (w - length s) CHR ''0'' @ s"

definition format_padded :: "nat \<Rightarrow> int \<Rightarrow> string" where
  "format_padded w v =
     (if v < 0 then CHR ''-'' # zero_pad (w - 1) (decimal_digits (nat (- v)))
      else zero_pad w (decimal_digits (nat v)))"

lemma byte_digit_char [simp]: "d < 10 \<Longrightarrow> byte (digit_char d) = 48 + d"
  by (simp add: byte_def digit_char_def)

lemma is_digit_digit_char [simp]: "d < 10 \<Longrightarrow> is_digit (digit_char d)"
  by (simp add: is_digit_def)

lemma digit_value_digit_char [simp]: "d < 10 \<Longrightarrow> digit_value (digit_char d) = d"
  by (simp add: digit_value_def)

lemma digit_char_inverse: "is_digit c \<Longrightarrow> digit_char (digit_value c) = c"
  by (simp add: is_digit_def digit_value_def digit_char_def byte_def)

lemma digit_value_less: "is_digit c \<Longrightarrow> digit_value c < 10"
  unfolding is_digit_def digit_value_def by linarith

lemma is_digit_zero [simp]: "is_digit CHR ''0''"
  by (simp add: is_digit_def byte_def)

lemma digit_value_zero [simp]: "digit_value CHR ''0'' = 0"
  by (simp add: digit_value_def byte_def)

lemma digits_value_Nil [simp]: "digits_value [] = 0"
  by (simp add: digits_value_def)

lemma digits_value_snoc [simp]: "digits_value (s @ [c]) = digits_value s * 10 + digit_value c"
  by (simp add: digits_value_def)

lemma digits_value_append: "digits_value (s @ t) = digits_value s * 10 ^ length t + digits_value t"
proof (induction t rule: rev_induct)
  case Nil
  show ?case by simp
next
  case (snoc c t)
  have "digits_value (s @ t @ [c]) = digits_value (s @ t) * 10 + digit_value c"
    using digits_value_snoc[of "s @ t" c] by simp
  with snoc show ?case by (simp add: algebra_simps)
qed

lemma digits_value_Cons:
  "digits_value (c # s) = digit_value c * 10 ^ length s + digits_value s"
  using digits_value_append[of "[c]" s] digits_value_snoc[of "[]" c] by simp

lemma digits_value_zeros [simp]: "digits_value (replicate n CHR ''0'') = 0"
proof (induction n)
  case 0
  show ?case by simp
next
  case (Suc n)
  then show ?case using digits_value_snoc[of "replicate n CHR ''0''" "CHR ''0''"]
    by (simp add: replicate_append_same)
qed

lemma digits_value_zero_pad [simp]: "digits_value (zero_pad w s) = digits_value s"
  by (simp add: zero_pad_def digits_value_append)

lemma decimal_digits_not_Nil [simp]: "decimal_digits n \<noteq> []"
  by (subst decimal_digits.simps) simp

lemma decimal_digits_digits: "c \<in> set (decimal_digits n) \<Longrightarrow> is_digit c"
proof (induction n rule: decimal_digits.induct)
  case (1 n)
  then show ?case
    by (cases "n < 10") (auto simp: decimal_digits.simps[of n])
qed

lemma digits_value_decimal_digits [simp]: "digits_value (decimal_digits n) = n"
proof (induction n rule: decimal_digits.induct)
  case (1 n)
  show ?case
  proof (cases "n < 10")
    case True
    then show ?thesis
      using digits_value_snoc[of "[]" "digit_char n"] by (simp add: decimal_digits.simps[of n])
  next
    case False
    then show ?thesis using 1 by (simp add: decimal_digits.simps[of n])
  qed
qed

lemma length_decimal_digits: "n < 10 ^ k \<Longrightarrow> 0 < k \<Longrightarrow> length (decimal_digits n) \<le> k"
proof (induction k arbitrary: n)
  case 0
  then show ?case by simp
next
  case (Suc k)
  show ?case
  proof (cases "n < 10")
    case True
    then show ?thesis by (simp add: decimal_digits.simps[of n])
  next
    case False
    then have "n div 10 < 10 ^ k" using Suc.prems(1) by (simp add: div_less_iff_less_mult mult.commute)
    moreover from this False have "0 < k" by (cases k) auto
    ultimately have "length (decimal_digits (n div 10)) \<le> k" by (rule Suc.IH)
    with False show ?thesis by (simp add: decimal_digits.simps[of n])
  qed
qed

lemma length_zero_pad: "length (zero_pad w s) = max w (length s)"
  by (simp add: zero_pad_def)

end
