(* ===== verification/Machine_Ints.thy ===== *)
theory Machine_Ints
  imports Text_Utf8
begin

text \<open>
  Go's \<open>int64\<close> and \<open>uint64\<close> as 64-bit words.  \<open>int64\<close> values are read with \<open>sint\<close>,
  \<open>uint64\<close> values with \<open>unat\<close>; additions wrap, and the checks the code makes before or after an
  addition are stated on words and proved here to decide the mathematical range.
\<close>

type_synonym int64 = "64 word"
type_synonym uint64 = "64 word"
type_synonym uint8 = "8 word"

definition max_int64 :: int64 where
  "max_int64 = 0x7FFFFFFFFFFFFFFF"

definition min_int64 :: int64 where
  "min_int64 = 0x8000000000000000"

definition max_uint64 :: uint64 where
  "max_uint64 = 0xFFFFFFFFFFFFFFFF"

definition in_int64 :: "int \<Rightarrow> bool" where
  "in_int64 v \<longleftrightarrow> - (2 ^ 63) \<le> v \<and> v < 2 ^ 63"

lemma sint_max_int64 [simp]: "sint max_int64 = 2 ^ 63 - 1"
  by (simp add: max_int64_def)

lemma sint_min_int64 [simp]: "sint min_int64 = - (2 ^ 63)"
  by (simp add: min_int64_def)

lemma unat_max_uint64 [simp]: "unat max_uint64 = 2 ^ 64 - 1"
  by (simp add: max_uint64_def)

lemma sint_in_int64 [simp]: "in_int64 (sint (w :: int64))"
proof -
  have "- (2 ^ (64 - 1)) \<le> sint w" using sint_ge[of w] by simp
  moreover have "sint w < 2 ^ (64 - 1)" using sint_less[of w] by simp
  ultimately show ?thesis by (simp add: in_int64_def)
qed

lemma sint_lower: "- (2 ^ 63) \<le> sint (w :: int64)"
  using sint_in_int64[of w] by (simp add: in_int64_def)

lemma sint_upper: "sint (w :: int64) < 2 ^ 63"
  using sint_in_int64[of w] by (simp add: in_int64_def)

lemma sint_of_int: "in_int64 v \<Longrightarrow> sint (word_of_int v :: int64) = v"
  by (simp add: in_int64_def sint_sbintrunc' signed_take_bit_int_eq_self)

lemma unat_upper: "unat (w :: uint64) < 2 ^ 64"
  using unsigned_less[where ?'b = 64 and ?'a = nat, of w] by simp

lemma sint_inject: "sint a = sint b \<longleftrightarrow> a = (b :: int64)"
  by (metis of_int_sint scast_id)

lemma sint_plus: "in_int64 (sint a + sint b) \<Longrightarrow> sint (a + b :: int64) = sint a + sint b"
  by (simp add: in_int64_def sint_word_ariths signed_take_bit_int_eq_self)

lemma sint_minus: "in_int64 (sint a - sint b) \<Longrightarrow> sint (a - b :: int64) = sint a - sint b"
  by (simp add: in_int64_def sint_word_ariths signed_take_bit_int_eq_self)

lemma sint_neg: "a \<noteq> min_int64 \<Longrightarrow> sint (- a :: int64) = - sint a"
proof -
  assume "a \<noteq> min_int64"
  then have "sint a \<noteq> - (2 ^ 63)" by (metis sint_min_int64 sint_inject)
  then have "in_int64 (- sint a)"
    using sint_lower[of a] sint_upper[of a] by (simp add: in_int64_def)
  then show ?thesis
    by (simp add: in_int64_def sint_word_ariths signed_take_bit_int_eq_self)
qed

lemma word_of_sint_plus: "(a + b :: int64) = word_of_int (sint a + sint b)"
  by simp

lemma word_of_sint_minus: "(a - b :: int64) = word_of_int (sint a - sint b)"
  by simp

text \<open>The two overflow tests of the code, made before the operation.\<close>

definition add_overflows :: "int64 \<Rightarrow> int64 \<Rightarrow> bool" where
  "add_overflows a b \<longleftrightarrow>
     (0 <s b \<and> max_int64 - b <s a) \<or> (b <s 0 \<and> a <s min_int64 - b)"

definition sub_overflows :: "int64 \<Rightarrow> int64 \<Rightarrow> bool" where
  "sub_overflows a b \<longleftrightarrow>
     (0 <s b \<and> a <s min_int64 + b) \<or> (b <s 0 \<and> max_int64 + b <s a)"

lemma add_overflows_iff: "add_overflows a b \<longleftrightarrow> \<not> in_int64 (sint a + sint b)"
proof -
  have pos: "0 < sint b \<Longrightarrow> sint (max_int64 - b) = 2 ^ 63 - 1 - sint b"
    using sint_upper[of b] by (subst sint_minus) (simp_all add: in_int64_def)
  have neg: "sint b < 0 \<Longrightarrow> sint (min_int64 - b) = - (2 ^ 63) - sint b"
    using sint_lower[of b] by (subst sint_minus) (simp_all add: in_int64_def)
  show ?thesis
    using pos neg sint_lower[of a] sint_upper[of a]
    unfolding add_overflows_def word_sless_alt in_int64_def by auto
qed

lemma sub_overflows_iff: "sub_overflows a b \<longleftrightarrow> \<not> in_int64 (sint a - sint b)"
proof -
  have pos: "0 < sint b \<Longrightarrow> sint (min_int64 + b) = - (2 ^ 63) + sint b"
    using sint_upper[of b] by (subst sint_plus) (simp_all add: in_int64_def)
  have neg: "sint b < 0 \<Longrightarrow> sint (max_int64 + b) = 2 ^ 63 - 1 + sint b"
    using sint_lower[of b] by (subst sint_plus) (simp_all add: in_int64_def)
  show ?thesis
    using pos neg sint_lower[of a] sint_upper[of a]
    unfolding sub_overflows_def word_sless_alt in_int64_def by auto
qed

text \<open>Unsigned addition that does not reach \<open>2 ^ 64\<close>, and the code's test for it.\<close>

lemma unat_plus_no_overflow:
  "unat a + unat b < 2 ^ 64 \<Longrightarrow> unat (a + b :: uint64) = unat a + unat b"
  by (simp add: unat_word_ariths)

lemma uint64_room: "max_uint64 - a < (b :: uint64) \<longleftrightarrow> 2 ^ 64 \<le> unat a + unat b"
proof -
  have "a \<le> max_uint64"
    using unat_upper[of a] by (simp add: word_le_nat_alt)
  then have "unat (max_uint64 - a) = 2 ^ 64 - 1 - unat a"
    by (subst unat_sub) simp_all
  then show ?thesis
    using unat_upper[of a] by (auto simp: word_less_nat_alt)
qed

text \<open>A non-negative \<open>int64\<close> keeps its value as \<open>uint64\<close>.\<close>

lemma unat_nonneg: "0 \<le> sint (w :: int64) \<Longrightarrow> int (unat w) = sint w"
proof -
  assume w: "0 \<le> sint w"
  have "uint w = take_bit 64 (sint w)" using uint_sint[of w] by simp
  also have "\<dots> = sint w"
    using w sint_upper[of w] by (intro take_bit_int_eq_self) simp_all
  finally show ?thesis by simp
qed

end
