(* ===== verification/Money.thy ===== *)
theory Money
  imports Machine_Ints
begin

text \<open>
  \<open>internal/domain/money.go\<close>: exact signed minor-unit money.  Amounts are 64-bit words read with
  \<open>sint\<close>; every operation returns the exact result or an error, and printing then parsing gives
  the amount back.
\<close>

datatype money_error =
    CurrencyEmpty
  | InvalidDecimal
  | MissingDigits
  | InvalidDecimalPoint
  | PrecisionExceedsScale uint8
  | NonDecimalCharacter
  | MoneyMismatch
  | MoneyOverflow

record money =
  minor :: int64
  currency :: string
  scale :: uint8

subsection \<open>Currencies\<close>

definition nonCentScales :: "string \<Rightarrow> uint8 option" where
  "nonCentScales c =
     (if c \<in> set [''BIF'', ''CLP'', ''DJF'', ''GNF'', ''ISK'', ''JPY'', ''KMF'', ''KRW'', ''PYG'',
         ''RWF'', ''UGX'', ''UYI'', ''VND'', ''VUV'', ''XAF'', ''XOF'', ''XPF''] then Some 0
      else if c \<in> set [''BHD'', ''IQD'', ''JOD'', ''KWD'', ''LYD'', ''OMR'', ''TND''] then Some 3
      else if c \<in> set [''CLF'', ''UYW''] then Some 4
      else None)"

definition StandardScale :: "string \<Rightarrow> uint8" where
  "StandardScale c = (case nonCentScales c of Some s \<Rightarrow> s | None \<Rightarrow> 2)"

subsection \<open>Parsing\<close>

definition last_index_byte :: "char \<Rightarrow> string \<Rightarrow> nat option" where
  "last_index_byte c s = map_option (\<lambda>i. length s - 1 - i) (find_index (\<lambda>x. x = c) (rev s))"

definition TrimExactZeroPrecision :: "string \<Rightarrow> uint8 \<Rightarrow> string" where
  "TrimExactZeroPrecision decimal sc =
     (case find_index (\<lambda>x. x = CHR ''.'') decimal of
       None \<Rightarrow> decimal
     | Some point \<Rightarrow>
         if last_index_byte CHR ''.'' decimal \<noteq> Some point then decimal
         else let fraction = drop (point + 1) decimal in
           if length fraction \<le> unat sc \<or> (\<exists>c\<in>set (drop (unat sc) fraction). c \<noteq> CHR ''0'')
           then decimal
           else if sc = 0 then take point decimal
           else take (point + 1 + unat sc) decimal)"

text \<open>\<open>strings.Split\<close> at a one-byte separator.\<close>

fun split_byte :: "char \<Rightarrow> string \<Rightarrow> string list" where
  "split_byte sep [] = [[]]"
| "split_byte sep (c # cs) =
     (if c = sep then [] # split_byte sep cs
      else case split_byte sep cs of [] \<Rightarrow> [[c]] | p # ps \<Rightarrow> (c # p) # ps)"

text \<open>The digit loop: the magnitude stays within the limit or the parse stops.\<close>

fun parse_magnitude :: "uint64 \<Rightarrow> string \<Rightarrow> uint64 \<Rightarrow> money_error + uint64" where
  "parse_magnitude limit [] magnitude = Inr magnitude"
| "parse_magnitude limit (c # cs) magnitude =
     (if \<not> is_digit c then Inl NonDecimalCharacter
      else let value = of_nat (digit_value c) in
        if (limit - value) div 10 < magnitude then Inl MoneyOverflow
        else parse_magnitude limit cs (magnitude * 10 + value))"

definition ParseMoney :: "string \<Rightarrow> string \<Rightarrow> uint8 \<Rightarrow> money_error + money" where
  "ParseMoney decimal cur sc =
     (if cur = [] then Inl CurrencyEmpty
      else if decimal = [] \<or> trim_space decimal \<noteq> decimal then Inl InvalidDecimal
      else let signed = (hd decimal = CHR ''+'' \<or> hd decimal = CHR ''-'');
               negative = (hd decimal = CHR ''-'');
               digits = (if signed then tl decimal else decimal)
      in if digits = [] then Inl MissingDigits
      else let parts = split_byte CHR ''.'' digits in
         if length parts > 2 \<or> parts ! 0 = [] \<or> (length parts = 2 \<and> parts ! 1 = [])
         then Inl InvalidDecimalPoint
      else let fraction = (if length parts = 2 then parts ! 1 else []) in
         if length fraction > unat sc then Inl (PrecisionExceedsScale sc)
      else let allDigits = parts ! 0 @ fraction @ replicate (unat sc - length fraction) CHR ''0'';
               limit = (if negative then max_int64 + 1 else max_int64)
      in bind_result (parse_magnitude limit allDigits 0) (\<lambda>magnitude.
           let m = (if negative then (if magnitude = max_int64 + 1 then min_int64 else - magnitude)
                    else magnitude)
           in Inr \<lparr>minor = m, currency = cur, scale = sc\<rparr>))"

subsection \<open>Arithmetic\<close>

definition compatible :: "money \<Rightarrow> money \<Rightarrow> bool" where
  "compatible m other \<longleftrightarrow> \<not> (currency m \<noteq> currency other \<or> scale m \<noteq> scale other)"

definition money_add :: "money \<Rightarrow> money \<Rightarrow> money_error + money" where
  "money_add m other =
     (if \<not> compatible m other then Inl MoneyMismatch
      else if add_overflows (minor m) (minor other) then Inl MoneyOverflow
      else Inr (m\<lparr>minor := minor m + minor other\<rparr>))"

definition money_sub :: "money \<Rightarrow> money \<Rightarrow> money_error + money" where
  "money_sub m other =
     (if \<not> compatible m other then Inl MoneyMismatch
      else if sub_overflows (minor m) (minor other) then Inl MoneyOverflow
      else Inr (m\<lparr>minor := minor m - minor other\<rparr>))"

definition money_abs :: "money \<Rightarrow> money_error + money" where
  "money_abs m =
     (if minor m = min_int64 then Inl MoneyOverflow
      else if minor m <s 0 then Inr (m\<lparr>minor := - minor m\<rparr>)
      else Inr m)"

definition money_cmp :: "money \<Rightarrow> money \<Rightarrow> money_error + int" where
  "money_cmp m other =
     (if \<not> compatible m other then Inl MoneyMismatch
      else if minor m <s minor other then Inr (- 1)
      else if minor other <s minor m then Inr 1
      else Inr 0)"

subsection \<open>Printing\<close>

definition trim_prefix :: "string \<Rightarrow> string \<Rightarrow> string" where
  "trim_prefix p s = (if take (length p) s = p then drop (length p) s else s)"

definition DecimalString :: "money \<Rightarrow> string" where
  "DecimalString m =
     (let negative = minor m <s 0;
          digits0 = trim_prefix ''-'' (format_int (sint (minor m)));
          digits = (if 0 < scale m
            then let minimum = unat (scale m) + 1;
                     padded = (if length digits0 < minimum
                       then replicate (minimum - length digits0) CHR ''0'' @ digits0 else digits0);
                     point = length padded - unat (scale m)
                 in take point padded @ ''.'' @ drop point padded
            else digits0)
      in if negative then ''-'' @ digits else digits)"

subsection \<open>Exactness of the arithmetic\<close>

text \<open>What an operation on two compatible amounts returns for the exact integer result.\<close>

definition exact_result :: "money \<Rightarrow> int \<Rightarrow> money_error + money" where
  "exact_result m v = (if in_int64 v then Inr (m\<lparr>minor := word_of_int v\<rparr>) else Inl MoneyOverflow)"

lemma exact_result_Inr:
  "exact_result m v = Inr r \<longleftrightarrow> in_int64 v \<and> r = m\<lparr>minor := word_of_int v\<rparr>"
  by (auto simp: exact_result_def)

lemma money_add_eq:
  "money_add m n = (if compatible m n then exact_result m (sint (minor m) + sint (minor n))
     else Inl MoneyMismatch)"
  by (simp add: money_add_def exact_result_def add_overflows_iff)

lemma money_sub_eq:
  "money_sub m n = (if compatible m n then exact_result m (sint (minor m) - sint (minor n))
     else Inl MoneyMismatch)"
  by (simp add: money_sub_def exact_result_def sub_overflows_iff)

lemma money_add_Inr:
  "money_add m n = Inr r \<longleftrightarrow> compatible m n \<and> in_int64 (sint (minor m) + sint (minor n))
     \<and> r = m\<lparr>minor := minor m + minor n\<rparr>"
  by (auto simp: money_add_def add_overflows_iff)

lemma compatible_refl [simp]: "compatible m m"
  by (simp add: compatible_def)

subsection \<open>Parsing and printing decimals\<close>

text \<open>
  \<open>decimal_text negative ip fp\<close> is the decimal with integer digits \<open>ip\<close> and fraction digits
  \<open>fp\<close>; parsing one returns its exact value in minor units, or the error of the check it fails.
\<close>

lemma parse_magnitude_digits:
  assumes "\<forall>c\<in>set s. is_digit c" and "9 \<le> unat limit" and "unat m \<le> unat limit"
  shows "parse_magnitude limit s m =
    (if unat m * 10 ^ length s + digits_value s \<le> unat limit
     then Inr (of_nat (unat m * 10 ^ length s + digits_value s)) else Inl MoneyOverflow)"
  using assms(1,3)
proof (induction s arbitrary: m)
  case Nil
  then show ?case by simp
next
  case (Cons c s)
  let ?d = "digit_value c"
  have d: "is_digit c" "?d < 10" using Cons.prems(1) digit_value_less by auto
  then have ud: "unat (of_nat ?d :: uint64) = ?d"
    by (simp add: unat_of_nat take_bit_eq_mod)
  have "unat (limit - of_nat ?d) = unat limit - ?d"
    using assms(2) d(2) ud by (subst unat_sub) (simp_all add: word_le_nat_alt)
  then have test: "(limit - of_nat ?d) div 10 < m \<longleftrightarrow> unat limit < unat m * 10 + ?d"
    using assms(2) d(2) by (auto simp: word_less_nat_alt unat_div)
  have value_eq: "unat m * 10 ^ length (c # s) + digits_value (c # s) =
      (unat m * 10 + ?d) * 10 ^ length s + digits_value s"
    by (simp add: digits_value_Cons algebra_simps)
  show ?case
  proof (cases "unat limit < unat m * 10 + ?d")
    case True
    have "unat m * 10 + ?d \<le> (unat m * 10 + ?d) * 10 ^ length s" by simp
    then have "\<not> (unat m * 10 + ?d) * 10 ^ length s + digits_value s \<le> unat limit"
      using True by linarith
    with True d(1) test show ?thesis
      unfolding value_eq by (simp add: Let_def)
  next
    case False
    have nowrap: "unat (m * 10 + of_nat ?d) = unat m * 10 + ?d"
      using False unat_upper[of limit] ud by (simp add: unat_word_ariths)
    from False d(1) test
    have "parse_magnitude limit (c # s) m = parse_magnitude limit s (m * 10 + of_nat ?d)"
      by (simp add: Let_def)
    also have "\<dots> = (if unat (m * 10 + of_nat ?d) * 10 ^ length s + digits_value s \<le> unat limit
       then Inr (of_nat (unat (m * 10 + of_nat ?d) * 10 ^ length s + digits_value s))
       else Inl MoneyOverflow)"
      using Cons.prems(1) False nowrap by (intro Cons.IH) simp_all
    finally show ?thesis unfolding nowrap value_eq .
  qed
qed

lemma split_byte_none: "sep \<notin> set s \<Longrightarrow> split_byte sep s = [s]"
  by (induction s) auto

lemma split_byte_one:
  "sep \<notin> set s \<Longrightarrow> sep \<notin> set t \<Longrightarrow> split_byte sep (s @ sep # t) = [s, t]"
  by (induction s) (auto simp: split_byte_none)

lemma digit_not_dot: "\<forall>c\<in>set s. is_digit c \<Longrightarrow> CHR ''.'' \<notin> set s"
  by (auto simp: is_digit_def byte_def)

lemma trim_space_id:
  assumes "s \<noteq> []" and "hd s = CHR ''+'' \<or> hd s = CHR ''-'' \<or> is_digit (hd s)" and "is_digit (last s)"
  shows "trim_space s = s"
proof (rule trim_func_ascii)
  show "byte (last s) < 0x80" "\<not> is_space (byte (last s))"
    using assms(3) by (auto simp: is_digit_def is_space_def)
  show "byte (hd s) < 0x80" "\<not> is_space (byte (hd s))"
    using assms(2) by (auto simp: is_digit_def is_space_def byte_def)
qed (rule assms(1))

definition decimal_text :: "bool \<Rightarrow> string \<Rightarrow> string \<Rightarrow> string" where
  "decimal_text negative ip fp =
     (if negative then ''-'' else []) @ ip @ (if fp = [] then [] else CHR ''.'' # fp)"

lemma limit_magnitude:
  "unat (if negative then max_int64 + 1 else max_int64 :: uint64) = 2 ^ 63 - 1 + of_bool negative"
  by (simp add: max_int64_def)

lemma signed_magnitude:
  assumes "n \<le> 2 ^ 63 - 1 + of_bool negative"
  shows "(if negative then (if of_nat n = max_int64 + 1 then min_int64 else - of_nat n)
      else of_nat n :: int64) = word_of_int ((if negative then - 1 else 1) * int n)"
  by (auto simp: max_int64_def min_int64_def)

lemma ParseMoney_decimal_text:
  assumes cur: "cur \<noteq> []" and ip: "ip \<noteq> []" "\<forall>c\<in>set ip. is_digit c"
    and fp: "\<forall>c\<in>set fp. is_digit c"
  shows "ParseMoney (decimal_text negative ip fp) cur sc =
    (if unat sc < length fp then Inl (PrecisionExceedsScale sc)
     else exact_result \<lparr>minor = 0, currency = cur, scale = sc\<rparr>
       ((if negative then - 1 else 1) * int (digits_value (ip @ fp) * 10 ^ (unat sc - length fp))))"
proof -
  let ?s = "decimal_text negative ip fp"
  let ?body = "ip @ (if fp = [] then [] else CHR ''.'' # fp)"
  have hd_ip: "is_digit (hd ip)" using ip by (cases ip) auto
  then have hd_body: "is_digit (hd ?body)" using ip(1) by simp
  have signs: "\<not> is_digit CHR ''+''" "\<not> is_digit CHR ''-''" by (simp_all add: is_digit_def byte_def)
  have ne: "?s \<noteq> []" using ip(1) by (simp add: decimal_text_def)
  have last_s: "is_digit (last ?s)"
    using ip fp by (auto simp: decimal_text_def)
  have hd_s: "hd ?s = (if negative then CHR ''-'' else hd ip)"
    using ip(1) by (simp add: decimal_text_def)
  have trim: "trim_space ?s = ?s"
    using ne last_s hd_ip by (intro trim_space_id) (simp_all add: hd_s)
  have digits: "(if hd ?s = CHR ''+'' \<or> hd ?s = CHR ''-'' then tl ?s else ?s) = ?body"
    using hd_ip signs by (auto simp: hd_s) (auto simp: decimal_text_def)
  have neg: "(hd ?s = CHR ''-'') = negative" using hd_ip signs by (auto simp: hd_s)
  have parts: "split_byte CHR ''.'' ?body = (if fp = [] then [ip] else [ip, fp])"
    using digit_not_dot[OF ip(2)] digit_not_dot[OF fp]
    by (simp add: split_byte_none split_byte_one)
  let ?all = "ip @ fp @ replicate (unat sc - length fp) CHR ''0''"
  let ?n = "digits_value (ip @ fp) * 10 ^ (unat sc - length fp)"
  have all_val: "digits_value ?all = ?n"
    using digits_value_append[of "ip @ fp" "replicate (unat sc - length fp) CHR ''0''"] by simp
  have all_digits: "\<forall>c\<in>set ?all. is_digit c" using ip(2) fp by auto
  let ?limit = "if negative then max_int64 + 1 else max_int64 :: uint64"
  have mag: "parse_magnitude ?limit ?all 0 =
     (if ?n \<le> 2 ^ 63 - 1 + of_bool negative then Inr (of_nat ?n) else Inl MoneyOverflow)"
    using parse_magnitude_digits[OF all_digits, of ?limit 0] all_val
    by (simp add: limit_magnitude del: of_nat_mult)
  have range: "?n \<le> 2 ^ 63 - 1 + of_bool negative
      \<longleftrightarrow> in_int64 ((if negative then - 1 else 1) * int ?n)"
    by (cases negative) (auto simp: in_int64_def simp del: of_nat_mult)
  define parts where "parts = (if fp = [] then [ip] else [ip, fp])"
  have parts_facts: "split_byte CHR ''.'' ?body = parts" "parts ! 0 = ip"
    "(if length parts = 2 then parts ! 1 else []) = fp" "?body \<noteq> []"
    "\<not> (length parts > 2 \<or> parts ! 0 = [] \<or> (length parts = 2 \<and> parts ! 1 = []))"
    using parts ip(1) by (simp_all add: parts_def)
  have unfolded: "ParseMoney ?s cur sc =
    (if unat sc < length fp then Inl (PrecisionExceedsScale sc)
     else bind_result (parse_magnitude ?limit ?all 0) (\<lambda>m. Inr \<lparr>minor =
       (if negative then (if m = max_int64 + 1 then min_int64 else - m) else m),
       currency = cur, scale = sc\<rparr>))"
    unfolding ParseMoney_def Let_def unfolding digits unfolding neg
    unfolding parts_facts(1) unfolding parts_facts(3)
    using cur ne trim parts_facts(2,4,5) by (simp only: if_False simp_thms)
  show ?thesis
  proof (cases "in_int64 ((if negative then - 1 else 1) * int ?n)")
    case True
    then have small: "?n \<le> 2 ^ 63 - 1 + of_bool negative" using range by blast
    show ?thesis
      unfolding unfolded mag exact_result_def if_P[OF True] if_P[OF small] bind_result_simps
        signed_magnitude[OF small] by simp
  next
    case False
    then have big: "\<not> ?n \<le> 2 ^ 63 - 1 + of_bool negative" using range by blast
    show ?thesis
      unfolding unfolded mag exact_result_def if_not_P[OF False] if_not_P[OF big]
        bind_result_simps by simp
  qed
qed

lemma last_index_byte_unique:
  assumes "c \<notin> set xs" and "c \<notin> set ys"
  shows "last_index_byte c (xs @ c # ys) = Some (length xs)"
proof -
  have "\<forall>x\<in>set (rev ys). x \<noteq> c" using assms(2) by auto
  then have "find_index (\<lambda>x. x = c) (rev ys @ c # rev xs) = Some (length (rev ys))"
    by (rule find_index_append) simp
  then show ?thesis by (simp add: last_index_byte_def)
qed

lemma TrimExactZeroPrecision_decimal_text:
  assumes "\<forall>c\<in>set ip. is_digit c" and "\<forall>c\<in>set fp. is_digit c"
  shows "TrimExactZeroPrecision (decimal_text negative ip fp) sc =
    (if length fp \<le> unat sc \<or> (\<exists>c\<in>set (drop (unat sc) fp). c \<noteq> CHR ''0'')
     then decimal_text negative ip fp else decimal_text negative ip (take (unat sc) fp))"
proof -
  let ?pre = "(if negative then ''-'' else []) @ ip"
  have pre: "CHR ''.'' \<notin> set ?pre" and fp: "CHR ''.'' \<notin> set fp"
    using digit_not_dot assms by auto
  show ?thesis
  proof (cases "fp = []")
    case True
    have "find_index (\<lambda>x. x = CHR ''.'') ?pre = None"
      using pre by (simp only: find_index_None) auto
    with True show ?thesis by (simp add: TrimExactZeroPrecision_def decimal_text_def)
  next
    case False
    then have text_eq: "decimal_text negative ip fp = ?pre @ CHR ''.'' # fp"
      by (simp add: decimal_text_def)
    have found: "find_index (\<lambda>x. x = CHR ''.'') (?pre @ CHR ''.'' # fp) = Some (length ?pre)"
      using pre by (intro find_index_append) auto
    have zero: "sc = 0 \<longleftrightarrow> unat sc = 0" by (simp add: unat_eq_zero)
    show ?thesis
      unfolding TrimExactZeroPrecision_def text_eq found last_index_byte_unique[OF pre fp]
      using False by (auto simp: decimal_text_def zero Let_def take_Cons' split: if_splits)
  qed
qed

text \<open>
  C9.  Printing an amount and parsing the text with the amount's currency and scale gives the
  amount back, for every 64-bit amount (the most negative one included) and every scale.
\<close>

theorem ParseMoney_DecimalString:
  assumes "currency m \<noteq> []"
  shows "ParseMoney (DecimalString m) (currency m) (scale m) = Inr m"
proof -
  let ?negative = "minor m <s 0" and ?n = "nat \<bar>sint (minor m)\<bar>" and ?k = "unat (scale m)"
  let ?padded = "zero_pad (?k + 1) (decimal_digits ?n)"
  let ?ip = "take (length ?padded - ?k) ?padded" and ?fp = "drop (length ?padded - ?k) ?padded"
  have neg: "?negative \<longleftrightarrow> sint (minor m) < 0" by (simp add: word_sless_alt)
  have digits: "\<forall>c\<in>set (decimal_digits ?n). is_digit c" using decimal_digits_digits by blast
  then have pad_digits: "\<forall>c\<in>set ?padded. is_digit c" by (auto simp: zero_pad_def)
  have not_minus: "hd (decimal_digits ?n) \<noteq> CHR ''-''"
    using digits by (cases "decimal_digits ?n") (auto simp: is_digit_def byte_def)
  have stripped: "trim_prefix ''-'' (format_int (sint (minor m))) = decimal_digits ?n"
    using not_minus by (cases "decimal_digits (nat (sint (minor m)))")
      (auto simp: format_int_def trim_prefix_def)
  have pos: "0 < scale m \<longleftrightarrow> 0 < ?k" by (simp add: word_less_nat_alt)
  have len: "?k + 1 \<le> length ?padded" by (simp add: length_zero_pad)
  have pad: "(if length (decimal_digits ?n) < ?k + 1
       then replicate (?k + 1 - length (decimal_digits ?n)) CHR ''0'' @ decimal_digits ?n
       else decimal_digits ?n) = ?padded"
    by (simp add: zero_pad_def)
  have len_fp: "length ?fp = ?k" and ip_ne: "?ip \<noteq> []" using len by auto
  have text_eq: "DecimalString m = decimal_text ?negative ?ip ?fp"
  proof (cases "0 < scale m")
    case True
    then have "?fp \<noteq> []" using pos len_fp by auto
    with True show ?thesis
      unfolding DecimalString_def stripped Let_def pad decimal_text_def by simp
  next
    case False
    then have "?k = 0" using pos by simp
    moreover from this have "?padded = decimal_digits ?n"
      by (simp add: zero_pad_def Suc_le_eq)
    ultimately show ?thesis
      unfolding DecimalString_def stripped Let_def decimal_text_def using False by simp
  qed
  obtain ip fp where parts: "ip = ?ip" "fp = ?fp" by blast
  have ip_fp: "ip \<noteq> []" "\<forall>c\<in>set ip. is_digit c" "\<forall>c\<in>set fp. is_digit c"
      "length fp = unat (scale m)" "digits_value (ip @ fp) = ?n"
    using ip_ne pad_digits len_fp unfolding parts
    by (auto dest: in_set_takeD in_set_dropD)
  have sign: "(if ?negative then - 1 else 1) * int ?n = sint (minor m)"
    using neg by auto
  have "ParseMoney (DecimalString m) (currency m) (scale m) =
      exact_result \<lparr>minor = 0, currency = currency m, scale = scale m\<rparr> (sint (minor m))"
    using ParseMoney_decimal_text[OF assms ip_fp(1-3), of ?negative "scale m"]
    unfolding text_eq parts[symmetric] ip_fp(4,5) using neg by auto
  then show ?thesis by (simp add: exact_result_def)
qed

theorem ParseMoney_DecimalString_witness:
  "DecimalString \<lparr>minor = - 1205, currency = ''USD'', scale = 2\<rparr> = ''-12.05''
   \<and> ParseMoney ''-12.05'' ''USD'' 2 = Inr \<lparr>minor = - 1205, currency = ''USD'', scale = 2\<rparr>"
proof -
  have printed: "DecimalString \<lparr>minor = - 1205, currency = ''USD'', scale = 2\<rparr> = ''-12.05''"
    by code_simp
  show ?thesis
    using ParseMoney_DecimalString[of "\<lparr>minor = - 1205, currency = ''USD'', scale = 2\<rparr>"]
    by (simp add: printed)
qed

text \<open>
   A provider's decimal, cut to the currency's scale and parsed, is exact: zeros beyond the
  scale are dropped, a nonzero digit beyond it is refused, and otherwise the result is the exact
  value in minor units, or an overflow error when that value is not a 64-bit integer.
\<close>

theorem ParseMoney_TrimExactZeroPrecision:
  assumes "cur \<noteq> []" and "ip \<noteq> []" "\<forall>c\<in>set ip. is_digit c" and "\<forall>c\<in>set fp. is_digit c"
  shows "ParseMoney (TrimExactZeroPrecision (decimal_text negative ip fp) sc) cur sc =
    (if \<exists>c\<in>set (drop (unat sc) fp). c \<noteq> CHR ''0'' then Inl (PrecisionExceedsScale sc)
     else exact_result \<lparr>minor = 0, currency = cur, scale = sc\<rparr>
       ((if negative then - 1 else 1) *
        int (digits_value (ip @ take (unat sc) fp) * 10 ^ (unat sc - length fp))))"
proof -
  have short: "\<forall>c\<in>set (take (unat sc) fp). is_digit c" using assms(4) by (auto dest: in_set_takeD)
  have "length fp \<le> unat sc \<Longrightarrow> \<not> (\<exists>c\<in>set (drop (unat sc) fp). c \<noteq> CHR ''0'')" by simp
  then show ?thesis
    unfolding TrimExactZeroPrecision_decimal_text[OF assms(3,4)]
    using ParseMoney_decimal_text[OF assms, of negative sc]
      ParseMoney_decimal_text[OF assms(1-3) short, of negative sc]
    by (cases "length fp \<le> unat sc") auto
qed

theorem ParseMoney_TrimExactZeroPrecision_witness:
  "ParseMoney (TrimExactZeroPrecision (decimal_text True ''100'' ''00'') 0) ''JPY'' 0 =
     Inr \<lparr>minor = - 100, currency = ''JPY'', scale = 0\<rparr>"
proof -
  have digits: "\<forall>c\<in>set ''100''. is_digit c" "\<forall>c\<in>set ''00''. is_digit c"
    by (simp_all add: is_digit_def byte_def)
  have n: "digits_value (''100'' @ take (unat (0 :: uint8)) ''00'') = 100"
    by (simp add: digits_value_def digit_value_def byte_def)
  have zeros: "\<not> (\<exists>c\<in>set (drop (unat (0 :: uint8)) ''00''). c \<noteq> CHR ''0'')" by simp
  have "''JPY'' \<noteq> []" "''100'' \<noteq> []" by simp_all
  from ParseMoney_TrimExactZeroPrecision[OF this digits, of True 0] show ?thesis
    unfolding n if_not_P[OF zeros] by (simp add: exact_result_def in_int64_def)
qed

text \<open>
  C10.  Addition, subtraction and negation of amounts never wrap: compatible amounts give the exact
  sum, difference or magnitude as a 64-bit integer, or \<open>MoneyOverflow\<close> exactly when it is out of
  range; amounts of different currency or scale give \<open>MoneyMismatch\<close>.
\<close>

theorem money_arithmetic_exact:
  "money_add m n = (if compatible m n then exact_result m (sint (minor m) + sint (minor n))
     else Inl MoneyMismatch)
   \<and> money_sub m n = (if compatible m n then exact_result m (sint (minor m) - sint (minor n))
     else Inl MoneyMismatch)
   \<and> money_abs m = exact_result m \<bar>sint (minor m)\<bar>"
proof -
  have abs: "money_abs m = exact_result m \<bar>sint (minor m)\<bar>"
  proof (cases "minor m = min_int64")
    case True
    then show ?thesis by (simp add: money_abs_def exact_result_def in_int64_def)
  next
    case False
    then have "sint (minor m) \<noteq> - (2 ^ 63)" by (metis sint_min_int64 sint_inject)
    then have "in_int64 \<bar>sint (minor m)\<bar>"
      using sint_lower[of "minor m"] sint_upper[of "minor m"] by (auto simp: in_int64_def)
    with False show ?thesis
      by (auto simp: money_abs_def exact_result_def word_sless_alt)
  qed
  show ?thesis by (simp add: money_add_eq money_sub_eq abs)
qed

end
