(* ===== verification/Dates.thy ===== *)
theory Dates
  imports Machine_Ints
begin

text \<open>
  \<open>internal/domain/date.go\<close>: calendar dates.  The first part is the piece of Go's \<open>time\<close> package the
  file calls (\<open>time.Date\<close> with its normalisation of out-of-range months and days, \<open>AddDate\<close>,
  \<open>Unix\<close>, \<open>Parse\<close> and \<open>Format\<close> for the ISO layout), on the proleptic Gregorian calendar.
\<close>

subsection \<open>The calendar of package time\<close>

definition leap :: "int \<Rightarrow> bool" where
  "leap y \<longleftrightarrow> (4 dvd y \<and> \<not> 100 dvd y) \<or> 400 dvd y"

definition days_in :: "int \<Rightarrow> int \<Rightarrow> int" where
  "days_in y m =
     (if m = 2 then (if leap y then 29 else 28)
      else if m = 4 \<or> m = 6 \<or> m = 9 \<or> m = 11 then 30 else 31)"

text \<open>Days before January 1 of a year, and before the first of a month; day 0 is 0001-01-01.\<close>

definition days_before_year :: "int \<Rightarrow> int" where
  "days_before_year y = 365 * (y - 1) + (y - 1) div 4 - (y - 1) div 100 + (y - 1) div 400"

definition days_before_month :: "int \<Rightarrow> int \<Rightarrow> int" where
  "days_before_month y m =
     [0, 31, 59, 90, 120, 151, 181, 212, 243, 273, 304, 334] ! nat (m - 1)
       + (if leap y \<and> 2 < m then 1 else 0)"

definition day_number :: "int \<Rightarrow> int \<Rightarrow> int \<Rightarrow> int" where
  "day_number y m d = days_before_year y + days_before_month y m + d - 1"

text \<open>The date of a day number: its 400-year era, then the year, then the month.\<close>

function search_year :: "int \<Rightarrow> int \<Rightarrow> int" where
  "search_year r y = (if y < 400 \<and> days_before_year (y + 1) \<le> r then search_year r (y + 1) else y)"
  by pat_completeness auto
termination
  by (relation "measure (\<lambda>(r, y). nat (400 - y))") auto

function search_month :: "int \<Rightarrow> int \<Rightarrow> int \<Rightarrow> int \<times> int" where
  "search_month y r m =
     (if m < 12 \<and> days_in y m \<le> r then search_month y (r - days_in y m) (m + 1) else (m, r + 1))"
  by pat_completeness auto
termination
  by (relation "measure (\<lambda>(y, r, m). nat (12 - m))") auto

declare search_year.simps [simp del] search_month.simps [simp del]

definition civil :: "int \<Rightarrow> int \<times> int \<times> int" where
  "civil n =
     (let era = n div 146097; r = n mod 146097; y = search_year r (r div 366 + 1);
          (m, d) = search_month y (r - days_before_year y) 1
      in (400 * era + y, m, d))"

text \<open>\<open>time.Date(y, m, d, 0, 0, 0, 0, time.UTC)\<close> as the date it denotes, and its \<open>Unix()\<close>.\<close>

definition time_date :: "int \<Rightarrow> int \<Rightarrow> int \<Rightarrow> int \<times> int \<times> int" where
  "time_date y m d = civil (day_number (y + (m - 1) div 12) ((m - 1) mod 12 + 1) d)"

definition unix_time :: "int \<times> int \<times> int \<Rightarrow> int" where
  "unix_time t = (case t of (y, m, d) \<Rightarrow> 86400 * (day_number y m d - 719162))"

text \<open>Go's integer division and remainder truncate towards zero.\<close>

definition go_div :: "int \<Rightarrow> int \<Rightarrow> int" where
  "go_div a b = sgn a * sgn b * (\<bar>a\<bar> div \<bar>b\<bar>)"

definition go_mod :: "int \<Rightarrow> int \<Rightarrow> int" where
  "go_mod a b = a - b * go_div a b"

text \<open>\<open>time.Parse("2006-01-02", s)\<close>: four, two and two digits, a month and a day in range.\<close>

definition time_parse_iso :: "string \<Rightarrow> (int \<times> int \<times> int) option" where
  "time_parse_iso s =
     (let y = take 4 s; m = take 2 (drop 5 s); d = drop 8 s in
      if length s = 10 \<and> s ! 4 = CHR ''-'' \<and> s ! 7 = CHR ''-''
         \<and> list_all is_digit y \<and> list_all is_digit m \<and> list_all is_digit d
         \<and> 1 \<le> digits_value m \<and> digits_value m \<le> 12
         \<and> 1 \<le> digits_value d
         \<and> int (digits_value d) \<le> days_in (int (digits_value y)) (int (digits_value m))
      then Some (int (digits_value y), int (digits_value m), int (digits_value d)) else None)"

definition format_iso :: "int \<times> int \<times> int \<Rightarrow> string" where
  "format_iso t = (case t of (y, m, d) \<Rightarrow>
     format_padded 4 y @ ''-'' @ format_padded 2 m @ ''-'' @ format_padded 2 d)"

subsection \<open>date.go\<close>

datatype date_error =
    YearOutOfRange
  | InvalidCalendarDate
  | ExpectedIsoLayout
  | InvalidIsoDate
  | AddDaysOutOfRange
  | AddMonthsOutOfRange

datatype date = Date (year: int) (month: int) (day: int)

definition NewDate :: "int \<Rightarrow> int \<Rightarrow> int \<Rightarrow> date_error + date" where
  "NewDate y m d =
     (if y < 1 \<or> y > 9999 then Inl YearOutOfRange
      else if time_date y m d \<noteq> (y, m, d) then Inl InvalidCalendarDate
      else Inr (Date y m d))"

definition ParseDate :: "string \<Rightarrow> date_error + date" where
  "ParseDate isodate =
     (if length isodate \<noteq> length ''2006-01-02'' then Inl ExpectedIsoLayout
      else case time_parse_iso isodate of
        None \<Rightarrow> Inl InvalidIsoDate
      | Some (y, m, d) \<Rightarrow>
          if format_iso (y, m, d) \<noteq> isodate then Inl InvalidIsoDate else NewDate y m d)"

definition date_ordinal :: "date \<Rightarrow> int" where
  "date_ordinal d = year d * 10000 + month d * 100 + day d"

definition date_compare :: "date \<Rightarrow> date \<Rightarrow> int" where
  "date_compare d other =
     (if date_ordinal d < date_ordinal other then - 1
      else if date_ordinal d > date_ordinal other then 1 else 0)"

definition AddDays :: "date \<Rightarrow> int \<Rightarrow> date_error + date" where
  "AddDays d delta =
     (case time_date (year d) (month d) (day d) of (y, m, dd) \<Rightarrow>
      case time_date y m (dd + delta) of (y', m', d') \<Rightarrow>
        if y' < 1 \<or> y' > 9999 then Inl AddDaysOutOfRange else NewDate y' m' d')"

definition date_string :: "date \<Rightarrow> string" where
  "date_string d = format_iso (year d, month d, day d)"

definition daysInMonth :: "int \<Rightarrow> int \<Rightarrow> int" where
  "daysInMonth y m = (case time_date y (m + 1) 0 of (_, _, d) \<Rightarrow> d)"

definition MonthStart :: "date \<Rightarrow> date" where
  "MonthStart d = Date (year d) (month d) 1"

definition MonthEnd :: "date \<Rightarrow> date" where
  "MonthEnd d = Date (year d) (month d) (daysInMonth (year d) (month d))"

definition YearStart :: "date \<Rightarrow> date" where
  "YearStart d = Date (year d) 1 1"

definition YearEnd :: "date \<Rightarrow> date" where
  "YearEnd d = Date (year d) 12 31"

definition AddMonthsClamped :: "date \<Rightarrow> int \<Rightarrow> date_error + date" where
  "AddMonthsClamped d delta =
     (let months = year d * 12 + month d - 1 + delta;
          y = go_div months 12; m = go_mod months 12 + 1
      in if months < 0 \<or> y < 1 \<or> y > 9999 then Inl AddMonthsOutOfRange
         else Inr (Date y m (min (day d) (daysInMonth y m))))"

definition DaysBetween :: "date \<Rightarrow> date \<Rightarrow> int" where
  "DaysBetween start stop =
     go_div (unix_time (time_date (year stop) (month stop) (day stop))
             - unix_time (time_date (year start) (month start) (day start))) (24 * 60 * 60)"

definition date_is_zero :: "date \<Rightarrow> bool" where
  "date_is_zero d \<longleftrightarrow> d = Date 0 0 0"

text \<open>The dates \<open>NewDate\<close> accepts, by the calendar.\<close>

definition valid_date :: "date \<Rightarrow> bool" where
  "valid_date d \<longleftrightarrow> 1 \<le> year d \<and> year d \<le> 9999 \<and> 1 \<le> month d \<and> month d \<le> 12
     \<and> 1 \<le> day d \<and> day d \<le> days_in (year d) (month d)"

subsection \<open>The calendar\<close>

lemma leap_era: "leap (400 * k + y) \<longleftrightarrow> leap y"
proof -
  have "n dvd 400 * k + y \<longleftrightarrow> n dvd y" if "n dvd 400" for n :: int
    using that by (simp add: dvd_add_right_iff)
  then show ?thesis by (simp add: leap_def)
qed

lemma days_in_era: "days_in (400 * k + y) m = days_in y m"
  by (simp add: days_in_def leap_era)

lemma days_before_year_era: "days_before_year (400 * k + y) = 146097 * k + days_before_year y"
proof -
  have "(400 * k + y - 1) div 4 = 100 * k + (y - 1) div 4"
    using div_mult_self1[of "4 :: int" "y - 1" "100 * k"] by (simp add: algebra_simps)
  moreover have "(400 * k + y - 1) div 100 = 4 * k + (y - 1) div 100"
    using div_mult_self1[of "100 :: int" "y - 1" "4 * k"] by (simp add: algebra_simps)
  moreover have "(400 * k + y - 1) div 400 = k + (y - 1) div 400"
    using div_mult_self1[of "400 :: int" "y - 1" k] by (simp add: algebra_simps)
  ultimately show ?thesis by (simp add: days_before_year_def)
qed

lemma days_before_month_era: "days_before_month (400 * k + y) m = days_before_month y m"
  by (simp add: days_before_month_def leap_era)

lemma div_step:
  assumes "0 < (k :: int)"
  shows "y div k = (y - 1) div k + (if k dvd y then 1 else 0)"
proof (cases "k dvd y")
  case True
  then obtain q where q: "y = k * q" by (rule dvdE)
  have "(y - 1) div k = q - 1"
    by (rule int_div_pos_eq[of _ _ _ "k - 1"]) (use assms q in \<open>auto simp: algebra_simps\<close>)
  with q assms True show ?thesis by simp
next
  case False
  have "y mod k \<noteq> 0" using False by (simp add: dvd_eq_mod_eq_0)
  moreover have "0 \<le> y mod k" "y mod k < k" using assms by simp_all
  ultimately have r: "0 \<le> y mod k - 1" "y mod k - 1 < k" by linarith+
  have "(y - 1) div k = y div k"
    by (rule int_div_pos_eq[of _ _ _ "y mod k - 1"])
      (use r in \<open>simp_all add: algebra_simps minus_mod_eq_mult_div[symmetric]\<close>)
  with False show ?thesis by simp
qed

lemma days_before_year_Suc: "days_before_year (y + 1) = days_before_year y + (if leap y then 366 else 365)"
proof -
  have dvd: "100 dvd y \<Longrightarrow> 4 dvd y" "400 dvd y \<Longrightarrow> 100 dvd y"
    by (auto intro: dvd_trans[of 4 100 y] dvd_trans[of 100 400 y])
  have steps: "y div 4 = (y - 1) div 4 + (if 4 dvd y then 1 else 0)"
    "y div 100 = (y - 1) div 100 + (if 100 dvd y then 1 else 0)"
    "y div 400 = (y - 1) div 400 + (if 400 dvd y then 1 else 0)"
    by (intro div_step, simp)+
  have unfold: "days_before_year (y + 1) = 365 * y + y div 4 - y div 100 + y div 400"
    by (simp add: days_before_year_def)
  show ?thesis
    unfolding unfold steps unfolding days_before_year_def leap_def
    using dvd by (cases "4 dvd y"; cases "100 dvd y"; cases "400 dvd y") simp_all
qed

lemma month_cases:
  assumes "1 \<le> m" and "m \<le> 12"
  shows "m = 1 \<or> m = 2 \<or> m = 3 \<or> m = 4 \<or> m = 5 \<or> m = 6 \<or> m = 7 \<or> m = 8
     \<or> m = 9 \<or> m = 10 \<or> m = 11 \<or> m = (12 :: int)"
proof -
  consider "m \<le> 3" | "4 \<le> m" "m \<le> 6" | "7 \<le> m" "m \<le> 9" | "10 \<le> m" by linarith
  then show ?thesis
  proof cases
    case 1
    with assms have "m = 1 \<or> m = 2 \<or> m = 3" by linarith
    then show ?thesis by blast
  next
    case 2
    then have "m = 4 \<or> m = 5 \<or> m = 6" by linarith
    then show ?thesis by blast
  next
    case 3
    then have "m = 7 \<or> m = 8 \<or> m = 9" by linarith
    then show ?thesis by blast
  next
    case 4
    with assms have "m = 10 \<or> m = 11 \<or> m = 12" by linarith
    then show ?thesis by blast
  qed
qed

lemma days_before_month_Suc:
  "1 \<le> m \<Longrightarrow> m \<le> 11 \<Longrightarrow> days_before_month y (m + 1) = days_before_month y m + days_in y m"
  using month_cases[of m] by (auto simp: days_before_month_def days_in_def)

lemma days_before_month_1: "days_before_month y 1 = 0"
  by (simp add: days_before_month_def)

lemma days_before_month_12: "days_before_month y 12 + days_in y 12 = (if leap y then 366 else 365)"
  by (simp add: days_before_month_def days_in_def)

lemma days_in_bounds: "28 \<le> days_in y m" "days_in y m \<le> 31"
  by (simp_all add: days_in_def)

text \<open>The month loop: it keeps the day number and stops at a day of its month.\<close>

lemma search_month:
  assumes "1 \<le> m" "m \<le> 12" "0 \<le> r"
    and "days_before_month y m + r < (if leap y then 366 else 365)"
  shows "case search_month y r m of (m', d) \<Rightarrow> 1 \<le> m' \<and> m' \<le> 12 \<and> 1 \<le> d \<and> d \<le> days_in y m'
     \<and> days_before_month y m' + d - 1 = days_before_month y m + r"
  using assms
proof (induction y r m rule: search_month.induct)
  case (1 y r m)
  show ?case
  proof (cases "m < 12 \<and> days_in y m \<le> r")
    case True
    have step: "days_before_month y (m + 1) = days_before_month y m + days_in y m"
      using True "1.prems"(1) by (intro days_before_month_Suc) auto
    have "case search_month y (r - days_in y m) (m + 1) of (m', d) \<Rightarrow> 1 \<le> m' \<and> m' \<le> 12 \<and> 1 \<le> d
      \<and> d \<le> days_in y m' \<and> days_before_month y m' + d - 1 = days_before_month y (m + 1) + (r - days_in y m)"
      using "1.prems" True step by (intro "1.IH") auto
    with True step show ?thesis by (simp add: search_month.simps[of y r m])
  next
    case False
    then have "r < days_in y m"
      using "1.prems" days_before_month_12[of y] by (cases "m = 12") auto
    with "1.prems" False show ?thesis by (auto simp: search_month.simps[of y r m])
  qed
qed

lemma search_year:
  assumes "1 \<le> y" "y \<le> 400" "days_before_year y \<le> r" "r < 146097"
  shows "1 \<le> search_year r y \<and> search_year r y \<le> 400 \<and> days_before_year (search_year r y) \<le> r
     \<and> r < days_before_year (search_year r y + 1)"
  using assms
proof (induction r y rule: search_year.induct)
  case (1 r y)
  show ?case
  proof (cases "y < 400 \<and> days_before_year (y + 1) \<le> r")
    case True
    with "1.prems" have "1 \<le> search_year r (y + 1) \<and> search_year r (y + 1) \<le> 400
        \<and> days_before_year (search_year r (y + 1)) \<le> r
        \<and> r < days_before_year (search_year r (y + 1) + 1)"
      by (intro "1.IH") auto
    with True show ?thesis by (simp add: search_year.simps[of r y])
  next
    case False
    have "days_before_year 401 = 146097" by (simp add: days_before_year_def)
    with False "1.prems" have "r < days_before_year (y + 1)" by (cases "y = 400") auto
    with False "1.prems" show ?thesis by (simp add: search_year.simps[of r y])
  qed
qed

lemma search_year_start:
  assumes "0 \<le> r" "r < 146097"
  shows "1 \<le> r div 366 + 1" "r div 366 + 1 \<le> 400" "days_before_year (r div 366 + 1) \<le> r"
proof -
  define q where "q = r div 366"
  have "r div 366 \<le> 146096 div 366" using assms by (intro zdiv_mono1) auto
  then have q: "0 \<le> q" "366 * q \<le> r" "q \<le> 399"
    using assms unfolding q_def by auto
  show "1 \<le> r div 366 + 1" "r div 366 + 1 \<le> 400" using q by (auto simp: q_def)
  have "q div 400 \<le> q div 100" using q(1) by (intro zdiv_mono2) auto
  moreover have "q div 4 \<le> q" using q(1) by simp
  ultimately have "q div 4 + q div 400 \<le> q + q div 100" by simp
  then have "days_before_year (q + 1) \<le> 366 * q" by (simp add: days_before_year_def)
  with q(2) show "days_before_year (r div 366 + 1) \<le> r" by (simp add: q_def)
qed

definition calendar_date :: "int \<times> int \<times> int \<Rightarrow> bool" where
  "calendar_date t \<longleftrightarrow> (case t of (y, m, d) \<Rightarrow> 1 \<le> m \<and> m \<le> 12 \<and> 1 \<le> d \<and> d \<le> days_in y m)"

abbreviation triple_day :: "int \<times> int \<times> int \<Rightarrow> int" where
  "triple_day t \<equiv> (case t of (y, m, d) \<Rightarrow> day_number y m d)"

lemma civil_correct: "calendar_date (civil n) \<and> triple_day (civil n) = n"
proof -
  define era r where "era = n div 146097" and "r = n mod 146097"
  have n: "n = 146097 * era + r" and r: "0 \<le> r" "r < 146097"
    by (simp_all add: era_def r_def)
  define y where "y = search_year r (r div 366 + 1)"
  have y: "days_before_year y \<le> r" "r < days_before_year (y + 1)"
    using search_year[OF search_year_start[OF r] r(2)] by (simp_all add: y_def)
  obtain m d where md: "search_month y (r - days_before_year y) 1 = (m, d)"
    by (cases "search_month y (r - days_before_year y) 1") auto
  have "days_before_month y 1 + (r - days_before_year y) < (if leap y then 366 else 365)"
    using y by (simp add: days_before_month_1 days_before_year_Suc split: if_splits)
  from search_month[OF _ _ _ this] md y(1)
  have month: "1 \<le> m" "m \<le> 12" "1 \<le> d" "d \<le> days_in y m"
      "days_before_month y m + d - 1 = r - days_before_year y"
    by (simp_all add: days_before_month_1)
  have "civil n = (400 * era + y, m, d)"
    using md by (simp add: civil_def era_def[symmetric] r_def[symmetric] y_def[symmetric])
  with month n show ?thesis
    by (simp add: calendar_date_def day_number_def days_before_year_era days_before_month_era days_in_era)
qed

text \<open>Day numbers are strictly increasing in the date.\<close>

lemma days_before_month_mono:
  assumes "1 \<le> m" "m < m'" "m' \<le> 12"
  shows "days_before_month y m + days_in y m \<le> days_before_month y m'"
proof -
  have "m + 1 \<le> m'" using assms(2) by simp
  then have "m' \<le> 12 \<longrightarrow> days_before_month y m + days_in y m \<le> days_before_month y m'"
  proof (induction m' rule: int_ge_induct)
    case base
    show ?case using assms(1) by (simp add: days_before_month_Suc)
  next
    case (step n)
    then show ?case
      using assms(1) days_before_month_Suc[of n y] days_in_bounds[of y n] by auto
  qed
  with assms(3) show ?thesis by blast
qed

lemma days_before_year_mono: "y \<le> z \<Longrightarrow> days_before_year y \<le> days_before_year z"
proof (induction z rule: int_ge_induct)
  case base
  show ?case by simp
next
  case (step z)
  then show ?case using days_before_year_Suc[of z] by (simp split: if_splits)
qed

lemma day_of_year_bound:
  assumes "1 \<le> m" "m \<le> 12" "d \<le> days_in y m"
  shows "days_before_month y m + d \<le> (if leap y then 366 else 365)"
proof (cases "m = 12")
  case True
  then show ?thesis using assms days_before_month_12[of y] by simp
next
  case False
  then have "days_before_month y m + days_in y m \<le> days_before_month y 12"
    using assms by (intro days_before_month_mono) auto
  then show ?thesis using assms days_before_month_12[of y] days_in_bounds[of y 12] by linarith
qed

lemma days_before_month_nonneg: "1 \<le> m \<Longrightarrow> m \<le> 12 \<Longrightarrow> 0 \<le> days_before_month y m"
  using days_before_month_mono[of 1 m y] days_in_bounds[of y 1]
  by (cases "m = 1") (auto simp: days_before_month_1)

lemma day_number_less:
  assumes "calendar_date (y, m, d)" "calendar_date (y', m', d')"
    and "y < y' \<or> (y = y' \<and> (m < m' \<or> (m = m' \<and> d < d')))"
  shows "day_number y m d < day_number y' m' d'"
proof -
  have md: "1 \<le> m" "m \<le> 12" "1 \<le> d" "d \<le> days_in y m" "1 \<le> m'" "m' \<le> 12" "1 \<le> d'" "d' \<le> days_in y' m'"
    using assms(1,2) by (simp_all add: calendar_date_def)
  consider "y < y'" | "y = y'" "m < m'" | "y = y'" "m = m'" "d < d'" using assms(3) by blast
  then show ?thesis
  proof cases
    case 1
    then have "days_before_year (y + 1) \<le> days_before_year y'" by (intro days_before_year_mono) simp
    then show ?thesis
      using day_of_year_bound[OF md(1,2,4)] days_before_month_nonneg[OF md(5,6), of y'] md(7)
      by (simp add: day_number_def days_before_year_Suc)
  next
    case 2
    then show ?thesis
      using days_before_month_mono[OF md(1) _ md(6), of y] md(4,7) by (simp add: day_number_def)
  next
    case 3
    then show ?thesis by (simp add: day_number_def)
  qed
qed

lemma day_number_inject:
  assumes "calendar_date (y, m, d)" "calendar_date (y', m', d')"
    and "day_number y m d = day_number y' m' d'"
  shows "(y, m, d) = (y', m', d')"
proof -
  have "\<not> (y < y' \<or> (y = y' \<and> (m < m' \<or> (m = m' \<and> d < d'))))"
    using day_number_less[OF assms(1,2)] assms(3) by auto
  moreover have "\<not> (y' < y \<or> (y' = y \<and> (m' < m \<or> (m' = m \<and> d' < d))))"
    using day_number_less[OF assms(2,1)] assms(3) by auto
  ultimately show ?thesis by auto
qed

lemma civil_day_number: "calendar_date (y, m, d) \<Longrightarrow> civil (day_number y m d) = (y, m, d)"
  using civil_correct[of "day_number y m d"] day_number_inject[of _ _ _ y m d]
  by (cases "civil (day_number y m d)") auto

subsection \<open>Constructing and moving dates\<close>

lemma time_date_calendar: "1 \<le> m \<Longrightarrow> m \<le> 12 \<Longrightarrow> time_date y m d = civil (day_number y m d)"
proof -
  assume m: "1 \<le> m" "m \<le> 12"
  then have "(m - 1) div 12 = 0" "(m - 1) mod 12 = m - 1" by simp_all
  then show ?thesis by (simp add: time_date_def)
qed

lemma time_date_id: "calendar_date (y, m, d) \<Longrightarrow> time_date y m d = (y, m, d)"
  by (subst time_date_calendar) (auto simp: calendar_date_def civil_day_number)

lemma time_date_fixed_iff: "time_date y m d = (y, m, d) \<longleftrightarrow> calendar_date (y, m, d)"
  using civil_correct time_date_id unfolding time_date_def by metis

lemma NewDate_Inr:
  "NewDate y m d = Inr r \<longleftrightarrow> r = Date y m d \<and> valid_date (Date y m d)"
  by (auto simp: NewDate_def time_date_fixed_iff calendar_date_def valid_date_def)

lemma valid_calendar_date: "valid_date d \<Longrightarrow> calendar_date (year d, month d, day d)"
  by (simp add: valid_date_def calendar_date_def)

lemma time_date_valid: "valid_date d \<Longrightarrow> time_date (year d) (month d) (day d) = (year d, month d, day d)"
  by (intro time_date_id valid_calendar_date)

abbreviation date_number :: "date \<Rightarrow> int" where
  "date_number d \<equiv> day_number (year d) (month d) (day d)"

lemma date_number_inject:
  "valid_date d \<Longrightarrow> valid_date e \<Longrightarrow> date_number d = date_number e \<longleftrightarrow> d = e"
  using day_number_inject[OF valid_calendar_date valid_calendar_date, of d e]
  by (auto intro: date.expand)

lemma year_range_iff:
  assumes "calendar_date (y, m, d)"
  shows "1 \<le> y \<and> y \<le> 9999 \<longleftrightarrow> 0 \<le> day_number y m d \<and> day_number y m d \<le> day_number 9999 12 31"
proof -
  have ends: "calendar_date (9999, 12, 31)" "calendar_date (1, 1, 1)" "day_number 1 1 1 = 0"
    by (simp_all add: calendar_date_def days_in_def day_number_def days_before_year_def days_before_month_def)
  have lo: "1 \<le> y \<longleftrightarrow> 0 \<le> day_number y m d"
  proof
    assume "1 \<le> y"
    then have "(1, 1, 1) = (y, m, d) \<or> 1 < y \<or> (1 = y \<and> (1 < m \<or> (1 = m \<and> 1 < d)))"
      using assms by (auto simp: calendar_date_def)
    then show "0 \<le> day_number y m d"
      using day_number_less[OF ends(2) assms] ends(3) by auto
  next
    assume "0 \<le> day_number y m d"
    then show "1 \<le> y" using day_number_less[OF assms ends(2)] ends(3) by force
  qed
  have hi: "y \<le> 9999 \<longleftrightarrow> day_number y m d \<le> day_number 9999 12 31"
  proof
    assume y: "y \<le> 9999"
    have "m = 12 \<Longrightarrow> d \<le> 31" using assms by (auto simp: calendar_date_def days_in_def)
    then have "(9999, 12, 31) = (y, m, d) \<or> y < 9999 \<or> (y = 9999 \<and> (m < 12 \<or> (m = 12 \<and> d < 31)))"
      using y assms by (auto simp: calendar_date_def)
    then show "day_number y m d \<le> day_number 9999 12 31"
      using day_number_less[OF assms ends(1)] by auto
  next
    assume "day_number y m d \<le> day_number 9999 12 31"
    then show "y \<le> 9999" using day_number_less[OF ends(1) assms] by force
  qed
  show ?thesis using lo hi by blast
qed

lemma AddDays_eq:
  assumes "valid_date d"
  shows "AddDays d k =
    (if 0 \<le> date_number d + k \<and> date_number d + k \<le> day_number 9999 12 31
     then (case civil (date_number d + k) of (y, m, dd) \<Rightarrow> Inr (Date y m dd))
     else Inl AddDaysOutOfRange)"
proof -
  obtain y m dd where c: "civil (date_number d + k) = (y, m, dd)"
    by (cases "civil (date_number d + k)") auto
  have "time_date (year d) (month d) (day d + k) = civil (date_number d + k)"
    using assms by (subst time_date_calendar) (auto simp: valid_date_def day_number_def algebra_simps)
  moreover have cal: "calendar_date (y, m, dd)" "day_number y m dd = date_number d + k"
    using civil_correct[of "date_number d + k"] c by simp_all
  ultimately show ?thesis
    using year_range_iff[OF cal(1)] time_date_id[OF cal(1)] cal(2)
    unfolding AddDays_def time_date_valid[OF assms] by (auto simp: c NewDate_def)
qed

lemma AddDays_Inr:
  assumes "valid_date d" and "AddDays d k = Inr e"
  shows "valid_date e \<and> date_number e = date_number d + k"
proof -
  obtain y m dd where c: "civil (date_number d + k) = (y, m, dd)"
    by (cases "civil (date_number d + k)") auto
  have cal: "calendar_date (y, m, dd)" "day_number y m dd = date_number d + k"
    using civil_correct[of "date_number d + k"] c by simp_all
  have "e = Date y m dd" and "0 \<le> day_number y m dd \<and> day_number y m dd \<le> day_number 9999 12 31"
    using assms(2) c cal(2) by (auto simp: AddDays_eq[OF assms(1)] split: if_splits)
  then show ?thesis
    using year_range_iff[OF cal(1)] cal by (simp add: valid_date_def calendar_date_def)
qed

lemma go_div_mult: "0 < b \<Longrightarrow> go_div (a * b) b = a"
  by (simp add: go_div_def abs_mult sgn_mult sgn_mult_abs)

lemma DaysBetween_eq:
  assumes "valid_date d" and "valid_date e"
  shows "DaysBetween d e = date_number e - date_number d"
proof -
  have seconds: "unix_time (time_date (year e) (month e) (day e)) - unix_time (time_date (year d) (month d) (day d))
      = (date_number e - date_number d) * 86400"
    unfolding time_date_valid[OF assms(1)] time_date_valid[OF assms(2)] by (simp add: unix_time_def)
  have day: "(24 * 60 * 60 :: int) = 86400" by simp
  show ?thesis
    unfolding DaysBetween_def seconds day by (rule go_div_mult) simp
qed

lemma AddDays_DaysBetween:
  assumes "valid_date d" and "valid_date e"
  shows "AddDays d (DaysBetween d e) = Inr e"
proof -
  have range: "0 \<le> date_number e" "date_number e \<le> day_number 9999 12 31"
    using year_range_iff[OF valid_calendar_date[OF assms(2)]] assms(2) by (auto simp: valid_date_def)
  show ?thesis
    using range civil_day_number[OF valid_calendar_date[OF assms(2)]]
    by (simp add: AddDays_eq[OF assms(1)] DaysBetween_eq[OF assms])
qed

lemma daysInMonth_eq: "1 \<le> m \<Longrightarrow> m \<le> 12 \<Longrightarrow> daysInMonth y m = days_in y m"
proof -
  assume m: "1 \<le> m" "m \<le> 12"
  have target: "calendar_date (y, m, days_in y m)"
    using m days_in_bounds[of y m] by (simp add: calendar_date_def)
  have "time_date y (m + 1) 0 = civil (day_number y m (days_in y m))"
  proof (cases "m = 12")
    case True
    then show ?thesis
      by (simp add: time_date_def day_number_def days_before_year_Suc days_before_month_1
          days_before_month_def days_in_def)
  next
    case False
    then have "m \<le> 11" using m(2) by simp
    with m(1) False show ?thesis
      by (subst time_date_calendar) (auto simp: day_number_def days_before_month_Suc add.assoc)
  qed
  then show ?thesis by (simp add: daysInMonth_def civil_day_number[OF target])
qed

lemma go_div_pos: "0 \<le> a \<Longrightarrow> 0 < b \<Longrightarrow> go_div a b = a div b"
  by (cases "a = 0") (simp_all add: go_div_def)

lemma go_mod_pos: "0 \<le> a \<Longrightarrow> 0 < b \<Longrightarrow> go_mod a b = a mod b"
  by (simp add: go_mod_def go_div_pos minus_mult_div_eq_mod)

definition month_index :: "date \<Rightarrow> int" where
  "month_index d = year d * 12 + month d - 1"

lemma AddMonthsClamped_Inr:
  assumes "valid_date d" and "AddMonthsClamped d k = Inr e"
  shows "valid_date e \<and> month_index e = month_index d + k
    \<and> day e = min (day d) (days_in (year e) (month e))"
proof -
  let ?n = "month_index d + k"
  have n: "0 \<le> ?n" and y: "1 \<le> ?n div 12" "?n div 12 \<le> 9999"
    and e: "e = Date (?n div 12) (?n mod 12 + 1) (min (day d) (daysInMonth (?n div 12) (?n mod 12 + 1)))"
    using assms(2)
    by (auto simp: AddMonthsClamped_def Let_def month_index_def go_div_pos go_mod_pos split: if_splits)
  have "0 \<le> ?n mod 12" "?n mod 12 < 12" by simp_all
  then have m: "1 \<le> ?n mod 12 + 1" "?n mod 12 + 1 \<le> 12" by linarith+
  have "12 * (?n div 12) + ?n mod 12 = ?n" by simp
  moreover have "1 \<le> day d" using assms(1) by (simp add: valid_date_def)
  ultimately show ?thesis
    using y m days_in_bounds[of "?n div 12" "?n mod 12 + 1"]
    by (simp add: e valid_date_def month_index_def daysInMonth_eq min_le_iff_disj)
qed

subsection \<open>Order\<close>

lemma valid_date_bounds:
  "valid_date d \<Longrightarrow> 1 \<le> month d \<and> month d \<le> 12 \<and> 1 \<le> day d \<and> day d \<le> 31"
  using days_in_bounds[of "year d" "month d"] by (auto simp: valid_date_def)

instantiation date :: linorder
begin

definition less_date :: "date \<Rightarrow> date \<Rightarrow> bool" where
  "less_date d e \<longleftrightarrow> year d < year e \<or> (year d = year e \<and> (month d < month e
     \<or> (month d = month e \<and> day d < day e)))"

definition less_eq_date :: "date \<Rightarrow> date \<Rightarrow> bool" where
  "less_eq_date d e \<longleftrightarrow> d < e \<or> d = (e :: date)"

instance
  by standard (auto simp: less_date_def less_eq_date_def intro: date.expand)

end

lemma date_ordinal_less:
  assumes "valid_date d" and "valid_date e"
  shows "date_ordinal d < date_ordinal e \<longleftrightarrow> d < e"
  using valid_date_bounds[OF assms(1)] valid_date_bounds[OF assms(2)]
  unfolding date_ordinal_def less_date_def by auto

lemma date_number_less:
  assumes "valid_date d" and "valid_date e"
  shows "date_number d < date_number e \<longleftrightarrow> d < e"
proof
  assume "d < e"
  then show "date_number d < date_number e"
    using day_number_less[OF valid_calendar_date[OF assms(1)] valid_calendar_date[OF assms(2)]]
    by (simp add: less_date_def)
next
  assume lt: "date_number d < date_number e"
  show "d < e"
  proof (rule ccontr)
    assume "\<not> d < e"
    then have "e < d \<or> d = e" by auto
    then show False
      using day_number_less[OF valid_calendar_date[OF assms(2)] valid_calendar_date[OF assms(1)]] lt
      by (auto simp: less_date_def)
  qed
qed

lemma date_compare_valid:
  assumes "valid_date d" and "valid_date e"
  shows "date_compare d e = (if d < e then - 1 else if e < d then 1 else 0)"
  using date_ordinal_less[OF assms] date_ordinal_less[OF assms(2,1)]
  by (simp add: date_compare_def)

subsection \<open>ISO text\<close>

lemma format_padded_digits:
  assumes "0 \<le> v" and "nat v < 10 ^ w" and "0 < w"
  shows "length (format_padded w v) = w" "list_all is_digit (format_padded w v)"
    "digits_value (format_padded w v) = nat v"
  using assms length_decimal_digits[OF assms(2,3)] decimal_digits_digits
  by (auto simp: format_padded_def length_zero_pad list_all_iff zero_pad_def digits_value_append)

lemma time_parse_format:
  assumes "valid_date d"
  shows "time_parse_iso (date_string d) = Some (year d, month d, day d)"
proof -
  have range: "0 \<le> year d" "nat (year d) < 10 ^ 4" "0 \<le> month d" "nat (month d) < 10 ^ 2"
      "0 \<le> day d" "nat (day d) < 10 ^ 2" "1 \<le> month d" "month d \<le> 12" "1 \<le> day d"
      "day d \<le> days_in (year d) (month d)"
    using assms valid_date_bounds[OF assms] by (auto simp: valid_date_def)
  obtain y m dd where parts: "y = format_padded 4 (year d)" "m = format_padded 2 (month d)"
    "dd = format_padded 2 (day d)" by blast
  have Y: "length y = 4" "list_all is_digit y" "digits_value y = nat (year d)"
    unfolding parts using range by (intro format_padded_digits; simp)+
  have M: "length m = 2" "list_all is_digit m" "digits_value m = nat (month d)"
    unfolding parts using range by (intro format_padded_digits; simp)+
  have D: "length dd = 2" "list_all is_digit dd" "digits_value dd = nat (day d)"
    unfolding parts using range by (intro format_padded_digits; simp)+
  have s: "date_string d = y @ CHR ''-'' # m @ CHR ''-'' # dd"
    by (simp add: date_string_def format_iso_def parts)
  have cut: "take 4 (date_string d) = y" "take 2 (drop 5 (date_string d)) = m" "drop 8 (date_string d) = dd"
    "length (date_string d) = 10" "date_string d ! 4 = CHR ''-''" "date_string d ! 7 = CHR ''-''"
    unfolding s using Y(1) M(1) D(1) by (simp_all add: nth_append)
  show ?thesis
    unfolding time_parse_iso_def Let_def cut using Y M D range by (simp add: nat_le_iff le_nat_iff)
qed

text \<open>
  ISO dates round-trip both ways: \<open>ParseDate\<close> accepts exactly the texts \<open>String\<close> prints for
  valid calendar dates, and returns the date that prints as the text.
\<close>

lemma ParseDate_iff: "ParseDate s = Inr d \<longleftrightarrow> valid_date d \<and> date_string d = s"
proof
  assume "ParseDate s = Inr d"
  then show "valid_date d \<and> date_string d = s"
    by (auto simp: ParseDate_def NewDate_Inr date_string_def split: if_splits option.splits)
next
  assume d: "valid_date d \<and> date_string d = s"
  then have p: "time_parse_iso s = Some (year d, month d, day d)" using time_parse_format by blast
  then have "length s = 10" by (auto simp: time_parse_iso_def Let_def split: if_splits)
  with p d show "ParseDate s = Inr d"
    by (auto simp: ParseDate_def NewDate_Inr date_string_def)
qed

lemma ParseDate_date_string: "valid_date d \<Longrightarrow> ParseDate (date_string d) = Inr d"
  by (simp add: ParseDate_iff)

text \<open>
  Day arithmetic, day differences and comparison agree: adding the difference of two dates to
  the first gives the second, no other number of days does, and \<open>Compare\<close> is the sign of the
  difference.
\<close>

lemma date_arithmetic:
  assumes "valid_date d" and "valid_date e"
  shows "AddDays d (DaysBetween d e) = Inr e \<and> date_compare d e = - sgn (DaysBetween d e)
    \<and> (AddDays d k = Inr e \<longleftrightarrow> k = DaysBetween d e)"
  using AddDays_DaysBetween[OF assms] AddDays_Inr[OF assms(1), of k e] date_number_less[OF assms]
    date_number_less[OF assms(2,1)] date_number_inject[OF assms]
  by (auto simp: DaysBetween_eq[OF assms] date_compare_valid[OF assms])

lemma date_arithmetic_witness:
  "AddDays (Date 2024 2 28) 2 = Inr (Date 2024 3 1) \<and> DaysBetween (Date 2024 2 28) (Date 2024 3 1) = 2"
proof -
  have "valid_date (Date 2024 2 28)" "valid_date (Date 2024 3 1)"
    by (simp_all add: valid_date_def days_in_def leap_def)
  moreover have "DaysBetween (Date 2024 2 28) (Date 2024 3 1) = 2" by code_simp
  ultimately show ?thesis using date_arithmetic[of "Date 2024 2 28" "Date 2024 3 1" 2] by simp
qed

text \<open>
  Moving by whole months counts months exactly and only clamps the day to the target month's
  length; it fails only outside years 1 to 9999 (months 12 to 119999).
\<close>

lemma AddMonthsClamped_exact:
  assumes "valid_date d"
  shows "case AddMonthsClamped d k of
      Inr e \<Rightarrow> valid_date e \<and> month_index e = month_index d + k
        \<and> day e = min (day d) (days_in (year e) (month e))
    | Inl err \<Rightarrow> err = AddMonthsOutOfRange \<and> (month_index d + k < 12 \<or> 120000 \<le> month_index d + k)"
proof (cases "AddMonthsClamped d k")
  case (Inr e)
  then show ?thesis using AddMonthsClamped_Inr[OF assms] by simp
next
  case (Inl err)
  have "month_index d + k < 12 \<or> 120000 \<le> month_index d + k"
  proof (rule ccontr)
    assume "\<not> ?thesis"
    then have "0 \<le> month_index d + k" "1 \<le> (month_index d + k) div 12" "(month_index d + k) div 12 \<le> 9999"
      by auto
    with Inl show False
      by (auto simp: AddMonthsClamped_def Let_def month_index_def go_div_pos)
  qed
  with Inl show ?thesis by (auto simp: AddMonthsClamped_def Let_def split: if_splits)
qed

lemma AddMonthsClamped_exact_witness:
  "AddMonthsClamped (Date 2024 1 31) 1 = Inr (Date 2024 2 29) \<and> day (Date 2024 2 29) = min 31 (days_in 2024 2)"
proof -
  have v: "valid_date (Date 2024 1 31)" by (simp add: valid_date_def days_in_def)
  have "AddMonthsClamped (Date 2024 1 31) 1 = Inr (Date 2024 2 29)" by code_simp
  with AddMonthsClamped_exact[OF v, of 1] show ?thesis by simp
qed

end
