(* ===== verification/Entities.thy ===== *)
theory Entities
  imports Text_Utf8 Money Dates
begin

text \<open>
  \<open>internal/domain/labels.go\<close>, \<open>entities.go\<close> and \<open>transaction.go\<close>: labels and their collision
  keys, opaque identities, the entity tables of a profile and its transactions.

  The case folding and compatibility normalization of \<open>golang.org/x/text\<close> is not part of the
  repository: it is the argument \<open>casefold\<close> of every definition that uses it and stands for
  \<open>cases.Fold().String(norm.NFKC.String(label))\<close>.  Go's nil pointers are \<open>None\<close>.  The metadata
  map of a transaction is carried as its list of entries; the modelled code only copies it.
\<close>

subsection \<open>Labels\<close>

datatype label_error =
    LabelInvalidUtf8
  | LabelControlCharacter
  | LabelEmpty
  | CollisionKeyEmpty

definition NormalizeDisplayLabel :: "string \<Rightarrow> label_error + string" where
  "NormalizeDisplayLabel label =
     (if \<not> valid_utf8 label then Inl LabelInvalidUtf8
      else if \<exists>character\<in>set (runes label). is_control character then Inl LabelControlCharacter
      else let trimmed = trim_func is_space label in
        if trimmed = '''' then Inl LabelEmpty else Inr trimmed)"

definition ValidateDisplayLabel :: "string \<Rightarrow> label_error + unit" where
  "ValidateDisplayLabel label = bind_result (NormalizeDisplayLabel label) (\<lambda>_. Inr ())"

definition CollisionKey :: "(string \<Rightarrow> string) \<Rightarrow> string \<Rightarrow> label_error + string" where
  "CollisionKey casefold label =
     bind_result (NormalizeDisplayLabel label) (\<lambda>normalized.
       let fields = fields_func is_space (casefold normalized) in
       if fields = [] then Inl CollisionKeyEmpty else Inr (join '' '' fields))"

subsection \<open>Identities\<close>

type_synonym entity_id = string

datatype entity_kind =
    EntityKindAccount
  | EntityKindMerchant
  | EntityKindGroup
  | EntityKindCategory
  | EntityKindTransaction
  | EntityKindUnknown string

definition entity_kind_string :: "entity_kind \<Rightarrow> string" where
  "entity_kind_string kind =
     (case kind of
        EntityKindAccount \<Rightarrow> ''account''
      | EntityKindMerchant \<Rightarrow> ''merchant''
      | EntityKindGroup \<Rightarrow> ''group''
      | EntityKindCategory \<Rightarrow> ''category''
      | EntityKindTransaction \<Rightarrow> ''transaction''
      | EntityKindUnknown s \<Rightarrow> s)"

definition UncategorizedGroupID :: entity_id where
  "UncategorizedGroupID = ''group_system_uncategorized''"

definition UncategorizedCategoryID :: entity_id where
  "UncategorizedCategoryID = ''category_system_uncategorized''"

definition SplitCategoryID :: entity_id where
  "SplitCategoryID = ''category_system_split''"

definition SplitLabel :: string where "SplitLabel = ''Split''"
definition SplitCollisionKey :: string where "SplitCollisionKey = ''split''"
definition UncategorizedLabel :: string where "UncategorizedLabel = ''Uncategorized''"
definition UncategorizedCollisionKey :: string where
  "UncategorizedCollisionKey = ''uncategorized''"

text \<open>
  A reader of randomness is \<open>None\<close> when nil, and otherwise the bytes it will deliver before it
  fails.  \<open>base32\<close> is the unpadded lower-case encoding of the standard library: five bits per
  character, most significant first, the last group filled with zero bits.
\<close>

datatype id_error = RandomSourceNil | ReadRandomness | InvalidEntityKind

definition randomIDBytes :: nat where
  "randomIDBytes = 16"

definition base32_alphabet :: string where
  "base32_alphabet = ''abcdefghijklmnopqrstuvwxyz234567''"

definition byte_bits :: "char \<Rightarrow> bool list" where
  "byte_bits c = map (\<lambda>i. odd (byte c div 2 ^ i)) (rev [0..<8])"

definition bits_value :: "bool list \<Rightarrow> nat" where
  "bits_value bs = foldl (\<lambda>v b. 2 * v + (if b then 1 else 0)) 0 bs"

fun base32_groups :: "bool list \<Rightarrow> bool list list" where
  "base32_groups [] = []"
| "base32_groups (a # b # c # d # e # rest) = [a, b, c, d, e] # base32_groups rest"
| "base32_groups bs = [bs @ replicate (5 - length bs) False]"

definition base32_encode :: "string \<Rightarrow> string" where
  "base32_encode buffer =
     map (\<lambda>g. base32_alphabet ! bits_value g) (base32_groups (concat (map byte_bits buffer)))"

definition randomID :: "string \<Rightarrow> string option \<Rightarrow> id_error + string" where
  "randomID prefix random =
     (case random of
        None \<Rightarrow> Inl RandomSourceNil
      | Some available \<Rightarrow>
          if length available < randomIDBytes then Inl ReadRandomness
          else Inr (prefix @ base32_encode (take randomIDBytes available)))"

definition NewEntityID :: "entity_kind \<Rightarrow> string option \<Rightarrow> id_error + entity_id" where
  "NewEntityID kind random =
     (case kind of
        EntityKindUnknown _ \<Rightarrow> Inl InvalidEntityKind
      | _ \<Rightarrow> randomID (entity_kind_string kind @ ''_'') random)"

definition NewOperationID :: "string option \<Rightarrow> id_error + string" where
  "NewOperationID random = randomID ''operation_'' random"

definition NewAmazonSourceIdentity :: "string option \<Rightarrow> id_error + string" where
  "NewAmazonSourceIdentity random = randomID ''amazon_item_'' random"

subsection \<open>Entity tables\<close>

record account =
  account_id :: entity_id
  account_label :: string
  account_key :: string
  account_retired :: bool

record merchant =
  merchant_id :: entity_id
  merchant_label :: string
  merchant_key :: string
  merchant_retired :: bool
  merchant_merged :: "entity_id option"

record category_group =
  group_id :: entity_id
  group_label :: string
  group_key :: string
  group_protected :: bool
  group_retired :: bool
  group_merged :: "entity_id option"

record category =
  category_id :: entity_id
  category_group_id :: entity_id
  category_label :: string
  category_key :: string
  category_protected :: bool
  category_retired :: bool
  category_merged :: "entity_id option"

definition ProtectedCategories :: "category list" where
  "ProtectedCategories =
     [\<lparr>category_id = UncategorizedCategoryID, category_group_id = UncategorizedGroupID,
       category_label = UncategorizedLabel, category_key = UncategorizedCollisionKey,
       category_protected = True, category_retired = False, category_merged = None\<rparr>,
      \<lparr>category_id = SplitCategoryID, category_group_id = UncategorizedGroupID,
       category_label = SplitLabel, category_key = SplitCollisionKey,
       category_protected = True, category_retired = False, category_merged = None\<rparr>]"

record transaction_record =
  record_id :: entity_id
  record_provider_id :: string
  record_provider :: string
  record_account :: entity_id
  record_merchant :: entity_id
  record_category :: entity_id
  record_date :: date
  record_amount :: money
  record_notes :: string
  record_hidden :: bool
  record_pending :: bool
  record_metadata :: "(string \<times> string) list"

record external_identity =
  identity_kind :: entity_kind
  identity_entity :: entity_id
  identity_namespace :: string
  identity_external :: string

subsection \<open>Normalized transactions\<close>

record entity_ref =
  ref_id :: string
  ref_name :: string

record category_ref =
  cref_id :: string
  cref_name :: string
  cref_group_id :: string
  cref_group :: string

record transaction =
  trans_id :: string
  trans_provider_id :: string
  trans_provider :: string
  trans_account :: entity_ref
  trans_date :: date
  trans_merchant :: entity_ref
  trans_category :: category_ref
  trans_amount :: money
  trans_notes :: string
  trans_hidden :: bool
  trans_pending :: bool
  trans_metadata :: "(string \<times> string) list"

datatype transaction_error =
    FieldEmpty string
  | TransactionDateInvalid
  | TransactionCurrencyInvalid

definition IsValidCurrency :: "string \<Rightarrow> bool" where
  "IsValidCurrency c \<longleftrightarrow>
     length c = 3 \<and> (\<forall>character\<in>set (runes c). \<not> (character < 65 \<or> character > 90))"

definition required_fields :: "transaction \<Rightarrow> (string \<times> string) list" where
  "required_fields t =
     [(''id'', trans_id t),
      (''provider_id'', trans_provider_id t),
      (''provider'', trans_provider t),
      (''account.id'', ref_id (trans_account t)),
      (''account.name'', ref_name (trans_account t)),
      (''merchant.id'', ref_id (trans_merchant t)),
      (''merchant.name'', ref_name (trans_merchant t)),
      (''category.id'', cref_id (trans_category t)),
      (''category.name'', cref_name (trans_category t)),
      (''category.group_id'', cref_group_id (trans_category t)),
      (''category.group'', cref_group (trans_category t))]"

definition NewTransaction :: "transaction \<Rightarrow> transaction_error + transaction" where
  "NewTransaction t =
     bind_result
       (check_all (\<lambda>(name, value). if value = '''' then Inl (FieldEmpty name) else Inr ())
          (required_fields t))
       (\<lambda>_. if year (trans_date t) = 0 then Inl TransactionDateInvalid
            else if \<not> IsValidCurrency (currency (trans_amount t))
            then Inl TransactionCurrencyInvalid
            else Inr t)"

subsection \<open>Facts about labels\<close>

lemma trim_func_Nil [simp]: "trim_func f [] = []"
  by (simp add: trim_func_def trim_left_func.simps[of f "[]"] trim_right_func.simps[of f "[]"])

lemma NormalizeDisplayLabel_Inr:
  "NormalizeDisplayLabel label = Inr t \<Longrightarrow>
     t = trim_func is_space label \<and> t \<noteq> [] \<and> valid_utf8 label
     \<and> (\<forall>r\<in>set (runes label). \<not> is_control r)"
  by (auto simp: NormalizeDisplayLabel_def Let_def split: if_splits)

lemma CollisionKey_label_not_Nil:
  assumes "CollisionKey casefold label = Inr key"
  shows "label \<noteq> []"
proof
  assume "label = []"
  with assms have "NormalizeDisplayLabel [] \<noteq> Inl LabelEmpty"
    by (auto simp: CollisionKey_def)
  then show False
    by (simp add: NormalizeDisplayLabel_def valid_utf8_def runes_def rune_chunks.simps)
qed

lemma fields_chunks_nonempty:
  "x \<in> set (fields_chunks f cs cur) \<Longrightarrow> x \<noteq> []"
  by (induction f cs cur rule: fields_chunks.induct) (auto split: if_splits)

lemma join_not_Nil: "xs \<noteq> [] \<Longrightarrow> (\<And>x. x \<in> set xs \<Longrightarrow> x \<noteq> []) \<Longrightarrow> join sep xs \<noteq> []"
  by (induction sep xs rule: join.induct) auto

lemma CollisionKey_not_Nil:
  assumes "CollisionKey casefold label = Inr key"
  shows "key \<noteq> []"
proof -
  from assms obtain x where "fields_func is_space (casefold x) \<noteq> []"
    and "key = join '' '' (fields_func is_space (casefold x))"
    by (auto simp: CollisionKey_def bind_result_Inr Let_def split: if_splits)
  then show ?thesis
    using join_not_Nil[of "fields_func is_space (casefold x)"]
    by (auto simp: fields_func_def dest: fields_chunks_nonempty)
qed

lemma NewTransaction_Inr:
  "NewTransaction t = Inr u \<longleftrightarrow> u = t \<and> (\<forall>(name, value)\<in>set (required_fields t). value \<noteq> [])
     \<and> year (trans_date t) \<noteq> 0 \<and> IsValidCurrency (currency (trans_amount t))"
  by (auto simp: NewTransaction_def bind_result_Inr check_all_Inr split: prod.splits)

end
