(* ===== verification/Profile.thy ===== *)
theory Profile
  imports Entities
begin

text \<open>
  The committed profile of \<open>internal/domain/profile.go\<close>: its tables, the validation that every
  load, every operation and every replay runs, and the join of stable references into
  transactions.  The main lemma states that the chain of checks, maps and early returns of
  \<open>Validate\<close> accepts exactly the profiles that satisfy the invariant \<open>profile_wf\<close>, which reads
  the tables as multisets.
\<close>

datatype profile_error =
    EntityIDEmpty entity_kind
  | EntityLabelInvalid entity_kind entity_id label_error
  | EntityKeyMismatch entity_kind entity_id
  | EntityIDDuplicate entity_id entity_kind entity_kind
  | ProtectedGroupRetired entity_id
  | ProtectedCategoryRetired entity_id
  | UncategorizedGroupInvalid
  | UncategorizedCategoryInvalid
  | SplitCategoryInvalid
  | ActiveKeyDuplicate entity_kind string
  | ActiveWithMergeDestination entity_kind entity_id
  | MergeDestinationInvalid entity_kind entity_id entity_id
  | CategoryGroupMissing entity_id entity_id
  | TransactionIDEmpty
  | TransactionAccountMissing entity_id entity_id
  | TransactionMerchantMissing entity_id entity_id
  | TransactionCategoryMissing entity_id entity_id
  | TransactionInvalid entity_id transaction_error
  | IdentityIncomplete
  | IdentityUnknown entity_kind entity_id
  | IdentityDuplicate string
  | IdentityLocalDuplicate entity_kind entity_id

record profile =
  accounts :: "account list"
  merchants :: "merchant list"
  groups :: "category_group list"
  categories :: "category list"
  transactions :: "transaction_record list"
  identities :: "external_identity list"

subsection \<open>Validation\<close>

definition validateEntityLabel ::
    "(string \<Rightarrow> string) \<Rightarrow> entity_kind \<Rightarrow> entity_id \<Rightarrow> string \<Rightarrow> string \<Rightarrow> profile_error + unit" where
  "validateEntityLabel casefold kind ident label storedKey =
     (if ident = '''' then Inl (EntityIDEmpty kind)
      else case CollisionKey casefold label of
        Inl e \<Rightarrow> Inl (EntityLabelInvalid kind ident e)
      | Inr key \<Rightarrow> if key \<noteq> storedKey then Inl (EntityKeyMismatch kind ident) else Inr ())"

definition addEntityID ::
    "(entity_id \<rightharpoonup> entity_kind) \<Rightarrow> entity_id \<Rightarrow> entity_kind \<Rightarrow>
     profile_error + (entity_id \<rightharpoonup> entity_kind)" where
  "addEntityID ids ident kind =
     (if ident = '''' then Inl (EntityIDEmpty kind)
      else case ids ident of
        Some previous \<Rightarrow> Inl (EntityIDDuplicate ident previous kind)
      | None \<Rightarrow> Inr (ids(ident \<mapsto> kind)))"

definition validateAccount ::
    "(string \<Rightarrow> string) \<Rightarrow> (entity_id \<rightharpoonup> entity_kind) \<Rightarrow> account \<Rightarrow>
     profile_error + (entity_id \<rightharpoonup> entity_kind)" where
  "validateAccount casefold ids a =
     bind_result (validateEntityLabel casefold EntityKindAccount
                    (account_id a) (account_label a) (account_key a))
       (\<lambda>_. addEntityID ids (account_id a) EntityKindAccount)"

definition validateMerchant ::
    "(string \<Rightarrow> string) \<Rightarrow> (entity_id \<rightharpoonup> entity_kind) \<Rightarrow> merchant \<Rightarrow>
     profile_error + (entity_id \<rightharpoonup> entity_kind)" where
  "validateMerchant casefold ids m =
     bind_result (validateEntityLabel casefold EntityKindMerchant
                    (merchant_id m) (merchant_label m) (merchant_key m))
       (\<lambda>_. addEntityID ids (merchant_id m) EntityKindMerchant)"

definition validateGroup ::
    "(string \<Rightarrow> string) \<Rightarrow> (entity_id \<rightharpoonup> entity_kind) \<Rightarrow> category_group \<Rightarrow>
     profile_error + (entity_id \<rightharpoonup> entity_kind)" where
  "validateGroup casefold ids g =
     bind_result (validateEntityLabel casefold EntityKindGroup
                    (group_id g) (group_label g) (group_key g))
       (\<lambda>_. bind_result (addEntityID ids (group_id g) EntityKindGroup)
       (\<lambda>ids'. if group_protected g \<and> (group_retired g \<or> group_merged g \<noteq> None)
               then Inl (ProtectedGroupRetired (group_id g)) else Inr ids'))"

definition validateCategory ::
    "(string \<Rightarrow> string) \<Rightarrow> (entity_id \<rightharpoonup> entity_kind) \<Rightarrow> category \<Rightarrow>
     profile_error + (entity_id \<rightharpoonup> entity_kind)" where
  "validateCategory casefold ids c =
     bind_result (validateEntityLabel casefold EntityKindCategory
                    (category_id c) (category_label c) (category_key c))
       (\<lambda>_. bind_result (addEntityID ids (category_id c) EntityKindCategory)
       (\<lambda>ids'. if category_protected c \<and> (category_retired c \<or> category_merged c \<noteq> None)
               then Inl (ProtectedCategoryRetired (category_id c)) else Inr ids'))"

definition uncategorized_group_ok :: "category_group option \<Rightarrow> bool" where
  "uncategorized_group_ok found =
     (case found of None \<Rightarrow> False
      | Some g \<Rightarrow> group_protected g \<and> \<not> group_retired g \<and> group_label g = UncategorizedLabel
          \<and> group_key g = UncategorizedCollisionKey)"

definition protected_category_ok :: "string \<Rightarrow> string \<Rightarrow> category option \<Rightarrow> bool" where
  "protected_category_ok label key found =
     (case found of None \<Rightarrow> False
      | Some c \<Rightarrow> category_protected c \<and> \<not> category_retired c
          \<and> category_group_id c = UncategorizedGroupID
          \<and> category_label c = label \<and> category_key c = key)"

fun validateActiveCollisions ::
    "entity_kind \<Rightarrow> ('a \<Rightarrow> string \<times> bool) \<Rightarrow> string set \<Rightarrow> 'a list \<Rightarrow> profile_error + unit" where
  "validateActiveCollisions kind entry seen [] = Inr ()"
| "validateActiveCollisions kind entry seen (v # vs) =
     (let (key, retired) = entry v in
      if retired then validateActiveCollisions kind entry seen vs
      else if key \<in> seen then Inl (ActiveKeyDuplicate kind key)
      else validateActiveCollisions kind entry (insert key seen) vs)"

definition validateMergeDestination ::
    "entity_kind \<Rightarrow> entity_id \<Rightarrow> bool \<Rightarrow> entity_id option \<Rightarrow> (entity_id \<rightharpoonup> 'a) \<Rightarrow> ('a \<Rightarrow> bool) \<Rightarrow>
     profile_error + unit" where
  "validateMergeDestination kind ident retired destination values isRetired =
     (if destination \<noteq> None \<and> \<not> retired then Inl (ActiveWithMergeDestination kind ident)
      else case destination of
        None \<Rightarrow> Inr ()
      | Some d \<Rightarrow>
          (case values d of
             None \<Rightarrow> Inl (MergeDestinationInvalid kind ident d)
           | Some v \<Rightarrow> if isRetired v \<or> d = ident then Inl (MergeDestinationInvalid kind ident d)
                      else Inr ()))"

text \<open>The transaction a record denotes, given the entities it refers to.\<close>

definition join_record ::
    "account \<Rightarrow> merchant \<Rightarrow> category \<Rightarrow> category_group \<Rightarrow> transaction_record \<Rightarrow> transaction" where
  "join_record a m c g r =
     \<lparr>trans_id = record_id r, trans_provider_id = record_provider_id r,
      trans_provider = record_provider r,
      trans_account = \<lparr>ref_id = account_id a, ref_name = account_label a\<rparr>,
      trans_date = record_date r,
      trans_merchant = \<lparr>ref_id = merchant_id m, ref_name = merchant_label m\<rparr>,
      trans_category = \<lparr>cref_id = category_id c, cref_name = category_label c,
        cref_group_id = group_id g, cref_group = group_label g\<rparr>,
      trans_amount = record_amount r, trans_notes = record_notes r,
      trans_hidden = record_hidden r, trans_pending = record_pending r,
      trans_metadata = record_metadata r\<rparr>"

text \<open>Reading a missing key of a Go map gives the zero value.\<close>

definition zero_account :: account where
  "zero_account = \<lparr>account_id = '''', account_label = '''', account_key = '''', account_retired = False\<rparr>"

definition zero_merchant :: merchant where
  "zero_merchant = \<lparr>merchant_id = '''', merchant_label = '''', merchant_key = '''',
     merchant_retired = False, merchant_merged = None\<rparr>"

definition zero_group :: category_group where
  "zero_group = \<lparr>group_id = '''', group_label = '''', group_key = '''', group_protected = False,
     group_retired = False, group_merged = None\<rparr>"

definition zero_category :: category where
  "zero_category = \<lparr>category_id = '''', category_group_id = '''', category_label = '''',
     category_key = '''', category_protected = False, category_retired = False,
     category_merged = None\<rparr>"

definition go_lookup :: "'a \<Rightarrow> ('k \<rightharpoonup> 'a) \<Rightarrow> 'k \<Rightarrow> 'a" where
  "go_lookup zero table k = (case table k of Some v \<Rightarrow> v | None \<Rightarrow> zero)"

definition materialize_record ::
    "(entity_id \<rightharpoonup> account) \<Rightarrow> (entity_id \<rightharpoonup> merchant) \<Rightarrow> (entity_id \<rightharpoonup> category_group) \<Rightarrow>
     (entity_id \<rightharpoonup> category) \<Rightarrow> transaction_record \<Rightarrow> transaction_error + transaction" where
  "materialize_record as ms gs cs r =
     (let a = go_lookup zero_account as (record_account r);
          m = go_lookup zero_merchant ms (record_merchant r);
          c = go_lookup zero_category cs (record_category r);
          g = go_lookup zero_group gs (category_group_id c)
      in NewTransaction (join_record a m c g r))"

definition active_in :: "('a \<Rightarrow> bool) \<Rightarrow> (entity_id \<rightharpoonup> 'a) \<Rightarrow> entity_id \<Rightarrow> bool" where
  "active_in isRetired table k = (case table k of Some v \<Rightarrow> \<not> isRetired v | None \<Rightarrow> False)"

definition validateTransaction ::
    "(entity_id \<rightharpoonup> account) \<Rightarrow> (entity_id \<rightharpoonup> merchant) \<Rightarrow> (entity_id \<rightharpoonup> category_group) \<Rightarrow>
     (entity_id \<rightharpoonup> category) \<Rightarrow> (entity_id \<rightharpoonup> entity_kind) \<Rightarrow> transaction_record \<Rightarrow>
     profile_error + (entity_id \<rightharpoonup> entity_kind)" where
  "validateTransaction as ms gs cs ids r =
     (if record_id r = '''' then Inl TransactionIDEmpty
      else bind_result (addEntityID ids (record_id r) EntityKindTransaction) (\<lambda>ids'.
        if \<not> active_in account_retired as (record_account r)
        then Inl (TransactionAccountMissing (record_id r) (record_account r))
        else if \<not> active_in merchant_retired ms (record_merchant r)
        then Inl (TransactionMerchantMissing (record_id r) (record_merchant r))
        else if \<not> active_in category_retired cs (record_category r)
        then Inl (TransactionCategoryMissing (record_id r) (record_category r))
        else case materialize_record as ms gs cs r of
          Inl e \<Rightarrow> Inl (TransactionInvalid (record_id r) e)
        | Inr _ \<Rightarrow> Inr ids'))"

fun validateIdentities ::
    "(entity_id \<rightharpoonup> entity_kind) \<Rightarrow> (string \<times> string) set \<Rightarrow> (entity_id \<times> string) set \<Rightarrow>
     external_identity list \<Rightarrow> profile_error + unit" where
  "validateIdentities ids seenExternal seenLocal [] = Inr ()"
| "validateIdentities ids seenExternal seenLocal (i # is) =
     (if identity_namespace i = '''' \<or> identity_external i = '''' then Inl IdentityIncomplete
      else if identity_entity i = ''''
      then Inl (IdentityUnknown (identity_kind i) (identity_entity i))
      else let transactionTombstone = ids (identity_entity i) = None
                 \<and> identity_kind i = EntityKindTransaction in
        if (ids (identity_entity i) = None \<and> \<not> transactionTombstone)
           \<or> (ids (identity_entity i) \<noteq> None \<and> ids (identity_entity i) \<noteq> Some (identity_kind i))
        then Inl (IdentityUnknown (identity_kind i) (identity_entity i))
        else if (identity_namespace i, identity_external i) \<in> seenExternal
        then Inl (IdentityDuplicate (identity_external i))
        else if (identity_entity i, identity_namespace i) \<in> seenLocal
        then Inl (IdentityLocalDuplicate (identity_kind i) (identity_entity i))
        else validateIdentities ids
               (insert (identity_namespace i, identity_external i) seenExternal)
               (insert (identity_entity i, identity_namespace i) seenLocal) is)"

definition ValidateProfile :: "(string \<Rightarrow> string) \<Rightarrow> profile \<Rightarrow> profile_error + unit" where
  "ValidateProfile casefold p =
     (let as = index_by account_id (accounts p);
          ms = index_by merchant_id (merchants p);
          gs = index_by group_id (groups p);
          cs = index_by category_id (categories p)
      in
      bind_result (fold_result (validateAccount casefold) Map.empty (accounts p)) (\<lambda>ids1.
      bind_result (fold_result (validateMerchant casefold) ids1 (merchants p)) (\<lambda>ids2.
      bind_result (fold_result (validateGroup casefold) ids2 (groups p)) (\<lambda>ids3.
      bind_result (fold_result (validateCategory casefold) ids3 (categories p)) (\<lambda>ids4.
      if \<not> uncategorized_group_ok (gs UncategorizedGroupID) then Inl UncategorizedGroupInvalid
      else if \<not> protected_category_ok UncategorizedLabel UncategorizedCollisionKey
                 (cs UncategorizedCategoryID) then Inl UncategorizedCategoryInvalid
      else if \<not> protected_category_ok SplitLabel SplitCollisionKey (cs SplitCategoryID)
      then Inl SplitCategoryInvalid
      else
      bind_result (validateActiveCollisions EntityKindAccount
        (\<lambda>a. (account_key a, account_retired a)) {} (accounts p)) (\<lambda>_.
      bind_result (validateActiveCollisions EntityKindMerchant
        (\<lambda>m. (merchant_key m, merchant_retired m)) {} (merchants p)) (\<lambda>_.
      bind_result (validateActiveCollisions EntityKindGroup
        (\<lambda>g. (group_key g, group_retired g)) {} (groups p)) (\<lambda>_.
      bind_result (validateActiveCollisions EntityKindCategory
        (\<lambda>c. (category_key c, category_retired c)) {} (categories p)) (\<lambda>_.
      bind_result (check_all (\<lambda>m. validateMergeDestination EntityKindMerchant (merchant_id m)
        (merchant_retired m) (merchant_merged m) ms merchant_retired) (merchants p)) (\<lambda>_.
      bind_result (check_all (\<lambda>g. validateMergeDestination EntityKindGroup (group_id g)
        (group_retired g) (group_merged g) gs group_retired) (groups p)) (\<lambda>_.
      bind_result (check_all (\<lambda>c.
          if \<not> active_in group_retired gs (category_group_id c)
          then Inl (CategoryGroupMissing (category_id c) (category_group_id c))
          else validateMergeDestination EntityKindCategory (category_id c)
            (category_retired c) (category_merged c) cs category_retired) (categories p)) (\<lambda>_.
      bind_result (fold_result (validateTransaction as ms gs cs) ids4 (transactions p)) (\<lambda>ids5.
      validateIdentities ids5 {} {} (identities p))))))))))))))"

subsection \<open>Materialization\<close>

datatype materialize_error =
    MaterializeInvalidProfile profile_error
  | MaterializeRecord entity_id transaction_error

definition MaterializeTransactions ::
    "(string \<Rightarrow> string) \<Rightarrow> profile \<Rightarrow> materialize_error + transaction list" where
  "MaterializeTransactions casefold p =
     bind_result (map_error MaterializeInvalidProfile (ValidateProfile casefold p)) (\<lambda>_.
       let as = index_by account_id (accounts p);
           ms = index_by merchant_id (merchants p);
           gs = index_by group_id (groups p);
           cs = index_by category_id (categories p)
       in map_result (\<lambda>r. map_error (MaterializeRecord (record_id r))
            (materialize_record as ms gs cs r)) (transactions p))"

subsection \<open>The invariant of a committed profile\<close>

definition label_ok :: "(string \<Rightarrow> string) \<Rightarrow> entity_id \<Rightarrow> string \<Rightarrow> string \<Rightarrow> bool" where
  "label_ok casefold ident label key \<longleftrightarrow> ident \<noteq> '''' \<and> CollisionKey casefold label = Inr key"

definition has_active :: "('a \<Rightarrow> entity_id) \<Rightarrow> ('a \<Rightarrow> bool) \<Rightarrow> 'a list \<Rightarrow> entity_id \<Rightarrow> bool" where
  "has_active ident retired xs k \<longleftrightarrow> (\<exists>x\<in>set xs. ident x = k \<and> \<not> retired x)"

definition active_keys :: "('a \<Rightarrow> string) \<Rightarrow> ('a \<Rightarrow> bool) \<Rightarrow> 'a list \<Rightarrow> string list" where
  "active_keys key retired xs = map key (filter (\<lambda>x. \<not> retired x) xs)"

definition merge_ok ::
    "('a \<Rightarrow> entity_id) \<Rightarrow> ('a \<Rightarrow> bool) \<Rightarrow> ('a \<Rightarrow> entity_id option) \<Rightarrow> 'a list \<Rightarrow> 'a \<Rightarrow> bool" where
  "merge_ok ident retired merged xs x \<longleftrightarrow>
     (case merged x of None \<Rightarrow> True
      | Some d \<Rightarrow> retired x \<and> d \<noteq> ident x \<and> has_active ident retired xs d)"

definition entity_kinds :: "profile \<Rightarrow> (entity_id \<times> entity_kind) list" where
  "entity_kinds p =
     map (\<lambda>a. (account_id a, EntityKindAccount)) (accounts p)
     @ map (\<lambda>m. (merchant_id m, EntityKindMerchant)) (merchants p)
     @ map (\<lambda>g. (group_id g, EntityKindGroup)) (groups p)
     @ map (\<lambda>c. (category_id c, EntityKindCategory)) (categories p)
     @ map (\<lambda>r. (record_id r, EntityKindTransaction)) (transactions p)"

definition labels_wf :: "(string \<Rightarrow> string) \<Rightarrow> profile \<Rightarrow> bool" where
  "labels_wf casefold p \<longleftrightarrow>
     (\<forall>a\<in>set (accounts p). label_ok casefold (account_id a) (account_label a) (account_key a))
     \<and> (\<forall>m\<in>set (merchants p). label_ok casefold (merchant_id m) (merchant_label m) (merchant_key m))
     \<and> (\<forall>g\<in>set (groups p). label_ok casefold (group_id g) (group_label g) (group_key g))
     \<and> (\<forall>c\<in>set (categories p). label_ok casefold (category_id c) (category_label c) (category_key c))"

definition ids_wf :: "profile \<Rightarrow> bool" where
  "ids_wf p \<longleftrightarrow> distinct (map fst (entity_kinds p)) \<and> (\<forall>r\<in>set (transactions p). record_id r \<noteq> '''')"

definition protection_wf :: "profile \<Rightarrow> bool" where
  "protection_wf p \<longleftrightarrow>
     (\<forall>g\<in>set (groups p). group_protected g \<longrightarrow> \<not> group_retired g \<and> group_merged g = None)
     \<and> (\<forall>c\<in>set (categories p). category_protected c \<longrightarrow> \<not> category_retired c \<and> category_merged c = None)
     \<and> (\<exists>g\<in>set (groups p). group_id g = UncategorizedGroupID \<and> uncategorized_group_ok (Some g))
     \<and> (\<exists>c\<in>set (categories p). category_id c = UncategorizedCategoryID
          \<and> protected_category_ok UncategorizedLabel UncategorizedCollisionKey (Some c))
     \<and> (\<exists>c\<in>set (categories p). category_id c = SplitCategoryID
          \<and> protected_category_ok SplitLabel SplitCollisionKey (Some c))"

definition collisions_wf :: "profile \<Rightarrow> bool" where
  "collisions_wf p \<longleftrightarrow>
     distinct (active_keys account_key account_retired (accounts p))
     \<and> distinct (active_keys merchant_key merchant_retired (merchants p))
     \<and> distinct (active_keys group_key group_retired (groups p))
     \<and> distinct (active_keys category_key category_retired (categories p))"

definition references_wf :: "profile \<Rightarrow> bool" where
  "references_wf p \<longleftrightarrow>
     (\<forall>m\<in>set (merchants p). merge_ok merchant_id merchant_retired merchant_merged (merchants p) m)
     \<and> (\<forall>g\<in>set (groups p). merge_ok group_id group_retired group_merged (groups p) g)
     \<and> (\<forall>c\<in>set (categories p). has_active group_id group_retired (groups p) (category_group_id c)
          \<and> merge_ok category_id category_retired category_merged (categories p) c)"

definition record_wf :: "profile \<Rightarrow> transaction_record \<Rightarrow> bool" where
  "record_wf p r \<longleftrightarrow>
     has_active account_id account_retired (accounts p) (record_account r)
     \<and> has_active merchant_id merchant_retired (merchants p) (record_merchant r)
     \<and> has_active category_id category_retired (categories p) (record_category r)
     \<and> record_provider_id r \<noteq> '''' \<and> record_provider r \<noteq> '''' \<and> year (record_date r) \<noteq> 0
     \<and> IsValidCurrency (currency (record_amount r))"

definition identity_wf :: "profile \<Rightarrow> external_identity \<Rightarrow> bool" where
  "identity_wf p i \<longleftrightarrow>
     identity_namespace i \<noteq> '''' \<and> identity_external i \<noteq> '''' \<and> identity_entity i \<noteq> ''''
     \<and> ((identity_entity i, identity_kind i) \<in> set (entity_kinds p)
        \<or> identity_entity i \<notin> fst ` set (entity_kinds p) \<and> identity_kind i = EntityKindTransaction)"

definition identities_wf :: "profile \<Rightarrow> bool" where
  "identities_wf p \<longleftrightarrow>
     (\<forall>i\<in>set (identities p). identity_wf p i)
     \<and> distinct (map (\<lambda>i. (identity_namespace i, identity_external i)) (identities p))
     \<and> distinct (map (\<lambda>i. (identity_entity i, identity_namespace i)) (identities p))"

definition profile_wf :: "(string \<Rightarrow> string) \<Rightarrow> profile \<Rightarrow> bool" where
  "profile_wf casefold p \<longleftrightarrow> labels_wf casefold p \<and> ids_wf p \<and> protection_wf p \<and> collisions_wf p
     \<and> references_wf p \<and> (\<forall>r\<in>set (transactions p). record_wf p r) \<and> identities_wf p"

subsection \<open>Validation decides the invariant\<close>

lemma validateEntityLabel_Inr:
  "validateEntityLabel casefold kind ident label key = Inr u \<longleftrightarrow> label_ok casefold ident label key"
  by (auto simp: validateEntityLabel_def label_ok_def split: sum.splits)

lemma addEntityID_Inr:
  "addEntityID ids ident kind = Inr ids' \<longleftrightarrow>
     ident \<noteq> '''' \<and> ids ident = None \<and> ids' = ids(ident \<mapsto> kind)"
  by (auto simp: addEntityID_def split: option.splits)

lemma fold_result_register:
  assumes step: "\<And>ids x ids'. x \<in> set xs \<Longrightarrow>
      f ids x = Inr ids' \<longleftrightarrow> good x \<and> ids (key x) = None \<and> ids' = ids(key x \<mapsto> kind)"
  shows "fold_result f ids xs = Inr ids' \<longleftrightarrow>
     (\<forall>x\<in>set xs. good x) \<and> distinct (map key xs) \<and> (\<forall>x\<in>set xs. ids (key x) = None)
     \<and> ids' = (\<lambda>k. if k \<in> key ` set xs then Some kind else ids k)"
  using step
proof (induction xs arbitrary: ids)
  case Nil
  show ?case by auto
next
  case (Cons x xs)
  have IH: "fold_result f (ids(key x \<mapsto> kind)) xs = Inr ids' \<longleftrightarrow>
     (\<forall>y\<in>set xs. good y) \<and> distinct (map key xs)
     \<and> (\<forall>y\<in>set xs. (ids(key x \<mapsto> kind)) (key y) = None)
     \<and> ids' = (\<lambda>k. if k \<in> key ` set xs then Some kind else (ids(key x \<mapsto> kind)) k)"
    by (rule Cons.IH) (simp add: Cons.prems)
  have eq: "(\<lambda>k. if k \<in> key ` set xs then Some kind else (ids(key x \<mapsto> kind)) k)
      = (\<lambda>k. if k \<in> key ` set (x # xs) then Some kind else ids k)"
    by (rule ext) simp
  have fresh: "(\<forall>y\<in>set xs. (ids(key x \<mapsto> kind)) (key y) = None) \<longleftrightarrow>
      key x \<notin> key ` set xs \<and> (\<forall>y\<in>set xs. ids (key y) = None)"
    by (simp add: image_iff) metis
  have "fold_result f ids (x # xs) = Inr ids' \<longleftrightarrow>
      good x \<and> ids (key x) = None \<and> fold_result f (ids(key x \<mapsto> kind)) xs = Inr ids'"
    unfolding fold_result.simps bind_result_Inr Cons.prems[OF list.set_intros(1)] by blast
  then show ?case unfolding IH eq fresh by auto
qed

lemma validateActiveCollisions_Inr:
  "validateActiveCollisions kind (\<lambda>x. (key x, retired x)) seen xs = Inr u \<longleftrightarrow>
     distinct (active_keys key retired xs) \<and> set (active_keys key retired xs) \<inter> seen = {}"
  by (induction xs arbitrary: seen) (auto simp: active_keys_def)

lemma index_by_cases:
  assumes "distinct (map ident xs)"
  obtains (missing) "index_by ident xs k = None" and "\<forall>x\<in>set xs. ident x \<noteq> k"
    | (found) v where "index_by ident xs k = Some v" and "v \<in> set xs" and "ident v = k"
      and "\<forall>x\<in>set xs. ident x = k \<longrightarrow> x = v"
proof (cases "index_by ident xs k")
  case None
  then show ?thesis using missing by (auto simp: index_by_None)
next
  case (Some v)
  then have "v \<in> set xs" "ident v = k" by (simp_all add: index_by_Some[OF assms])
  moreover from this assms have "\<forall>x\<in>set xs. ident x = k \<longrightarrow> x = v"
    by (auto simp: distinct_map dest: inj_onD)
  ultimately show ?thesis using found Some by blast
qed

lemma has_active_index_by:
  assumes "distinct (map ident xs)"
  shows "has_active ident retired xs k \<longleftrightarrow>
    (case index_by ident xs k of None \<Rightarrow> False | Some v \<Rightarrow> \<not> retired v)"
proof (cases rule: index_by_cases[OF assms, of k])
  case 1
  then show ?thesis by (simp add: has_active_def)
next
  case (2 v)
  then have "has_active ident retired xs k \<longleftrightarrow> \<not> retired v"
    unfolding has_active_def by blast
  with 2(1) show ?thesis by simp
qed

lemma active_in_index_by:
  "distinct (map ident xs) \<Longrightarrow>
     active_in retired (index_by ident xs) k \<longleftrightarrow> has_active ident retired xs k"
  by (simp add: has_active_index_by active_in_def split: option.split)

lemma validateMergeDestination_Inr:
  assumes "distinct (map ident xs)"
  shows "validateMergeDestination kind (ident x) (retired x) (merged x) (index_by ident xs) retired
           = Inr u \<longleftrightarrow> merge_ok ident retired merged xs x"
  by (simp add: validateMergeDestination_def merge_ok_def has_active_index_by[OF assms]
      split: option.split)

lemma validateIdentities_Inr:
  "validateIdentities ids seenE seenL is = Inr () \<longleftrightarrow>
     (\<forall>i\<in>set is. identity_namespace i \<noteq> '''' \<and> identity_external i \<noteq> '''' \<and> identity_entity i \<noteq> ''''
        \<and> (ids (identity_entity i) = Some (identity_kind i)
            \<or> ids (identity_entity i) = None \<and> identity_kind i = EntityKindTransaction))
     \<and> distinct (map (\<lambda>i. (identity_namespace i, identity_external i)) is)
     \<and> distinct (map (\<lambda>i. (identity_entity i, identity_namespace i)) is)
     \<and> (\<lambda>i. (identity_namespace i, identity_external i)) ` set is \<inter> seenE = {}
     \<and> (\<lambda>i. (identity_entity i, identity_namespace i)) ` set is \<inter> seenL = {}"
proof (induction "is" arbitrary: seenE seenL)
  case Nil
  show ?case by simp
next
  case (Cons i "is")
  show ?case
    by (cases "ids (identity_entity i)") (auto simp: Let_def Cons.IH)
qed

lemma validate_steps:
  "validateAccount casefold ids a = Inr ids' \<longleftrightarrow>
     label_ok casefold (account_id a) (account_label a) (account_key a)
     \<and> ids (account_id a) = None \<and> ids' = ids(account_id a \<mapsto> EntityKindAccount)"
  "validateMerchant casefold ids m = Inr ids' \<longleftrightarrow>
     label_ok casefold (merchant_id m) (merchant_label m) (merchant_key m)
     \<and> ids (merchant_id m) = None \<and> ids' = ids(merchant_id m \<mapsto> EntityKindMerchant)"
  "validateGroup casefold ids g = Inr ids' \<longleftrightarrow>
     (label_ok casefold (group_id g) (group_label g) (group_key g)
      \<and> (group_protected g \<longrightarrow> \<not> group_retired g \<and> group_merged g = None))
     \<and> ids (group_id g) = None \<and> ids' = ids(group_id g \<mapsto> EntityKindGroup)"
  "validateCategory casefold ids c = Inr ids' \<longleftrightarrow>
     (label_ok casefold (category_id c) (category_label c) (category_key c)
      \<and> (category_protected c \<longrightarrow> \<not> category_retired c \<and> category_merged c = None))
     \<and> ids (category_id c) = None \<and> ids' = ids(category_id c \<mapsto> EntityKindCategory)"
  unfolding validateAccount_def validateMerchant_def validateGroup_def validateCategory_def
    bind_result_Inr validateEntityLabel_Inr addEntityID_Inr label_ok_def
  by auto

lemma materialize_record_Inr:
  assumes "distinct (map account_id (accounts p))" and "distinct (map merchant_id (merchants p))"
    and "distinct (map group_id (groups p))" and "distinct (map category_id (categories p))"
    and "labels_wf casefold p" and "references_wf p" and "record_id r \<noteq> ''''"
    and "has_active account_id account_retired (accounts p) (record_account r)"
    and "has_active merchant_id merchant_retired (merchants p) (record_merchant r)"
    and "has_active category_id category_retired (categories p) (record_category r)"
  shows "\<exists>a\<in>set (accounts p). \<exists>m\<in>set (merchants p). \<exists>c\<in>set (categories p). \<exists>g\<in>set (groups p).
    account_id a = record_account r \<and> merchant_id m = record_merchant r
    \<and> category_id c = record_category r \<and> group_id g = category_group_id c \<and>
    materialize_record (index_by account_id (accounts p)) (index_by merchant_id (merchants p))
      (index_by group_id (groups p)) (index_by category_id (categories p)) r
    = (if record_provider_id r = '''' then Inl (FieldEmpty ''provider_id'')
       else if record_provider r = '''' then Inl (FieldEmpty ''provider'')
       else if year (record_date r) = 0 then Inl TransactionDateInvalid
       else if \<not> IsValidCurrency (currency (record_amount r)) then Inl TransactionCurrencyInvalid
       else Inr (join_record a m c g r))"
proof -
  from assms(8) obtain a where a: "a \<in> set (accounts p)" "account_id a = record_account r"
    by (auto simp: has_active_def)
  from assms(9) obtain m where m: "m \<in> set (merchants p)" "merchant_id m = record_merchant r"
    by (auto simp: has_active_def)
  from assms(10) obtain c where c: "c \<in> set (categories p)" "category_id c = record_category r"
    by (auto simp: has_active_def)
  from assms(6) c(1) obtain g where g: "g \<in> set (groups p)" "group_id g = category_group_id c"
    unfolding references_wf_def has_active_def by blast
  have found: "index_by account_id (accounts p) (record_account r) = Some a"
      "index_by merchant_id (merchants p) (record_merchant r) = Some m"
      "index_by category_id (categories p) (record_category r) = Some c"
      "index_by group_id (groups p) (category_group_id c) = Some g"
    using a m c g by (simp_all add: index_by_Some[OF assms(1)] index_by_Some[OF assms(2)]
        index_by_Some[OF assms(3)] index_by_Some[OF assms(4)])
  have "account_id a \<noteq> []" "account_label a \<noteq> []" "merchant_id m \<noteq> []" "merchant_label m \<noteq> []"
      "category_id c \<noteq> []" "category_label c \<noteq> []" "group_id g \<noteq> []" "group_label g \<noteq> []"
    using assms(5) a(1) m(1) c(1) g(1)
    by (auto simp: labels_wf_def label_ok_def dest: CollisionKey_label_not_Nil)
  then have "materialize_record (index_by account_id (accounts p)) (index_by merchant_id (merchants p))
      (index_by group_id (groups p)) (index_by category_id (categories p)) r
    = (if record_provider_id r = '''' then Inl (FieldEmpty ''provider_id'')
       else if record_provider r = '''' then Inl (FieldEmpty ''provider'')
       else if year (record_date r) = 0 then Inl TransactionDateInvalid
       else if \<not> IsValidCurrency (currency (record_amount r)) then Inl TransactionCurrencyInvalid
       else Inr (join_record a m c g r))"
    using assms(7) by (simp add: materialize_record_def go_lookup_def found NewTransaction_def
        required_fields_def join_record_def)
  with a m c g show ?thesis by blast
qed

lemma validateTransaction_Inr:
  assumes "distinct (map account_id (accounts p))" and "distinct (map merchant_id (merchants p))"
    and "distinct (map group_id (groups p))" and "distinct (map category_id (categories p))"
    and "labels_wf casefold p" and "references_wf p"
  shows "validateTransaction (index_by account_id (accounts p)) (index_by merchant_id (merchants p))
      (index_by group_id (groups p)) (index_by category_id (categories p)) ids r = Inr ids' \<longleftrightarrow>
     (record_id r \<noteq> '''' \<and> record_wf p r) \<and> ids (record_id r) = None
     \<and> ids' = ids(record_id r \<mapsto> EntityKindTransaction)"
proof (cases "record_id r \<noteq> ''''
    \<and> has_active account_id account_retired (accounts p) (record_account r)
    \<and> has_active merchant_id merchant_retired (merchants p) (record_merchant r)
    \<and> has_active category_id category_retired (categories p) (record_category r)")
  case True
  from materialize_record_Inr[OF assms, of r] True obtain a m c g where
    "materialize_record (index_by account_id (accounts p)) (index_by merchant_id (merchants p))
      (index_by group_id (groups p)) (index_by category_id (categories p)) r
    = (if record_provider_id r = '''' then Inl (FieldEmpty ''provider_id'')
       else if record_provider r = '''' then Inl (FieldEmpty ''provider'')
       else if year (record_date r) = 0 then Inl TransactionDateInvalid
       else if \<not> IsValidCurrency (currency (record_amount r)) then Inl TransactionCurrencyInvalid
       else Inr (join_record a m c g r))" by auto
  with True show ?thesis
    by (simp add: validateTransaction_def bind_result_Inr addEntityID_Inr record_wf_def
        active_in_index_by assms(1-4)) blast
next
  case False
  then show ?thesis
    by (auto simp: validateTransaction_def bind_result_Inr addEntityID_Inr record_wf_def
        active_in_index_by assms(1-4))
qed

definition register :: "entity_kind \<Rightarrow> entity_id set \<Rightarrow> (entity_id \<rightharpoonup> entity_kind) \<Rightarrow>
    (entity_id \<rightharpoonup> entity_kind)" where
  "register kind A ids = (\<lambda>k. if k \<in> A then Some kind else ids k)"

lemma fold_validate:
  "fold_result (validateAccount casefold) ids as = Inr ids' \<longleftrightarrow>
     (\<forall>a\<in>set as. label_ok casefold (account_id a) (account_label a) (account_key a))
     \<and> distinct (map account_id as) \<and> (\<forall>a\<in>set as. ids (account_id a) = None)
     \<and> ids' = register EntityKindAccount (account_id ` set as) ids"
  "fold_result (validateMerchant casefold) ids ms = Inr ids' \<longleftrightarrow>
     (\<forall>m\<in>set ms. label_ok casefold (merchant_id m) (merchant_label m) (merchant_key m))
     \<and> distinct (map merchant_id ms) \<and> (\<forall>m\<in>set ms. ids (merchant_id m) = None)
     \<and> ids' = register EntityKindMerchant (merchant_id ` set ms) ids"
  "fold_result (validateGroup casefold) ids gs = Inr ids' \<longleftrightarrow>
     (\<forall>g\<in>set gs. label_ok casefold (group_id g) (group_label g) (group_key g)
        \<and> (group_protected g \<longrightarrow> \<not> group_retired g \<and> group_merged g = None))
     \<and> distinct (map group_id gs) \<and> (\<forall>g\<in>set gs. ids (group_id g) = None)
     \<and> ids' = register EntityKindGroup (group_id ` set gs) ids"
  "fold_result (validateCategory casefold) ids cs = Inr ids' \<longleftrightarrow>
     (\<forall>c\<in>set cs. label_ok casefold (category_id c) (category_label c) (category_key c)
        \<and> (category_protected c \<longrightarrow> \<not> category_retired c \<and> category_merged c = None))
     \<and> distinct (map category_id cs) \<and> (\<forall>c\<in>set cs. ids (category_id c) = None)
     \<and> ids' = register EntityKindCategory (category_id ` set cs) ids"
  unfolding register_def
  by (rule fold_result_register, simp only: validate_steps)+

lemma fold_validateTransaction:
  assumes "distinct (map account_id (accounts p))" and "distinct (map merchant_id (merchants p))"
    and "distinct (map group_id (groups p))" and "distinct (map category_id (categories p))"
    and "labels_wf casefold p" and "references_wf p"
  shows "fold_result (validateTransaction (index_by account_id (accounts p))
        (index_by merchant_id (merchants p)) (index_by group_id (groups p))
        (index_by category_id (categories p))) ids rs = Inr ids' \<longleftrightarrow>
     (\<forall>r\<in>set rs. record_id r \<noteq> '''' \<and> record_wf p r)
     \<and> distinct (map record_id rs) \<and> (\<forall>r\<in>set rs. ids (record_id r) = None)
     \<and> ids' = register EntityKindTransaction (record_id ` set rs) ids"
  unfolding register_def
  by (rule fold_result_register, rule validateTransaction_Inr[OF assms])

text \<open>The identity table after all five loops.\<close>

definition all_ids :: "profile \<Rightarrow> (entity_id \<rightharpoonup> entity_kind)" where
  "all_ids p =
     register EntityKindTransaction (record_id ` set (transactions p))
     (register EntityKindCategory (category_id ` set (categories p))
     (register EntityKindGroup (group_id ` set (groups p))
     (register EntityKindMerchant (merchant_id ` set (merchants p))
     (register EntityKindAccount (account_id ` set (accounts p)) Map.empty))))"

lemma register_None: "register kind A ids k = None \<longleftrightarrow> k \<notin> A \<and> ids k = None"
  by (simp add: register_def)

lemma distinct_entity_kinds:
  "distinct (map fst (entity_kinds p)) \<longleftrightarrow>
     distinct (map account_id (accounts p))
     \<and> distinct (map merchant_id (merchants p))
     \<and> (\<forall>m\<in>set (merchants p). merchant_id m \<notin> account_id ` set (accounts p))
     \<and> distinct (map group_id (groups p))
     \<and> (\<forall>g\<in>set (groups p). group_id g \<notin> merchant_id ` set (merchants p)
          \<and> group_id g \<notin> account_id ` set (accounts p))
     \<and> distinct (map category_id (categories p))
     \<and> (\<forall>c\<in>set (categories p). category_id c \<notin> group_id ` set (groups p)
          \<and> category_id c \<notin> merchant_id ` set (merchants p)
          \<and> category_id c \<notin> account_id ` set (accounts p))
     \<and> distinct (map record_id (transactions p))
     \<and> (\<forall>r\<in>set (transactions p). record_id r \<notin> category_id ` set (categories p)
          \<and> record_id r \<notin> group_id ` set (groups p) \<and> record_id r \<notin> merchant_id ` set (merchants p)
          \<and> record_id r \<notin> account_id ` set (accounts p))"
proof -
  have "map fst (entity_kinds p) = map account_id (accounts p) @ map merchant_id (merchants p)
      @ map group_id (groups p) @ map category_id (categories p) @ map record_id (transactions p)"
    by (simp add: entity_kinds_def)
  moreover have disjoint: "A \<inter> B = {} \<longleftrightarrow> (\<forall>b\<in>B. b \<notin> A)" for A B :: "entity_id set" by auto
  ultimately show ?thesis
    by (simp add: disjoint ball_Un image_Un) blast
qed

lemma register_map_of:
  "register kind (key ` set xs) ids = ids ++ map_of (map (\<lambda>x. (key x, kind)) xs)"
proof
  fix k
  show "register kind (key ` set xs) ids k = (ids ++ map_of (map (\<lambda>x. (key x, kind)) xs)) k"
    by (induction xs) (auto simp: register_def map_add_def)
qed

lemma all_ids_kinds:
  assumes "distinct (map fst (entity_kinds p))"
  shows "all_ids p k = Some kind \<longleftrightarrow> (k, kind) \<in> set (entity_kinds p)"
    and "all_ids p k = None \<longleftrightarrow> k \<notin> fst ` set (entity_kinds p)"
proof -
  define parts where "parts =
    [map (\<lambda>r. (record_id r, EntityKindTransaction)) (transactions p),
     map (\<lambda>c. (category_id c, EntityKindCategory)) (categories p),
     map (\<lambda>g. (group_id g, EntityKindGroup)) (groups p),
     map (\<lambda>m. (merchant_id m, EntityKindMerchant)) (merchants p),
     map (\<lambda>a. (account_id a, EntityKindAccount)) (accounts p)]"
  have all: "all_ids p = map_of (concat parts)"
    by (simp add: all_ids_def register_map_of parts_def)
  have kinds: "mset (concat parts) = mset (entity_kinds p)"
    by (simp add: parts_def entity_kinds_def)
  then have "distinct (map fst (concat parts))"
    using assms distinct_map_mset by blast
  then show "all_ids p k = Some kind \<longleftrightarrow> (k, kind) \<in> set (entity_kinds p)"
    unfolding all by (simp only: map_of_eq_Some_iff mset_eq_setD[OF kinds])
  show "all_ids p k = None \<longleftrightarrow> k \<notin> fst ` set (entity_kinds p)"
    unfolding all by (simp only: map_of_eq_None_iff mset_eq_setD[OF kinds])
qed

lemma validateIdentities_wf:
  assumes "distinct (map fst (entity_kinds p))"
  shows "validateIdentities (all_ids p) {} {} (identities p) = Inr () \<longleftrightarrow> identities_wf p"
  unfolding validateIdentities_Inr all_ids_kinds[OF assms] identities_wf_def identity_wf_def
  by simp

lemma sentinel_index_by:
  assumes "distinct (map ident xs)" and "\<not> ok None"
  shows "ok (index_by ident xs k) \<longleftrightarrow> (\<exists>x\<in>set xs. ident x = k \<and> ok (Some x))"
proof (cases rule: index_by_cases[OF assms(1), of k])
  case 1
  with assms(2) show ?thesis by simp
next
  case (2 v)
  then have "(\<exists>x\<in>set xs. ident x = k \<and> ok (Some x)) \<longleftrightarrow> ok (Some v)" by blast
  with 2(1) show ?thesis by simp
qed

lemma sentinel_None: "\<not> uncategorized_group_ok None" "\<not> protected_category_ok l k None"
  by (simp_all add: uncategorized_group_ok_def protected_category_ok_def)

text \<open>The five loops over the entities and the sentinels, without the transactions.\<close>

definition entities_wf :: "(string \<Rightarrow> string) \<Rightarrow> profile \<Rightarrow> bool" where
  "entities_wf casefold p \<longleftrightarrow> labels_wf casefold p \<and> protection_wf p \<and> collisions_wf p \<and> references_wf p
     \<and> distinct (map fst (entity_kinds (p\<lparr>transactions := []\<rparr>)))"

lemma profile_wf_entities:
  "profile_wf casefold p \<longleftrightarrow> entities_wf casefold p
     \<and> (\<forall>r\<in>set (transactions p). record_id r \<noteq> [] \<and> record_wf p r)
     \<and> distinct (map record_id (transactions p))
     \<and> (\<forall>r\<in>set (transactions p). record_id r \<notin> category_id ` set (categories p)
          \<and> record_id r \<notin> group_id ` set (groups p) \<and> record_id r \<notin> merchant_id ` set (merchants p)
          \<and> record_id r \<notin> account_id ` set (accounts p))
     \<and> identities_wf p"
  unfolding profile_wf_def entities_wf_def ids_wf_def distinct_entity_kinds
  by (simp add: ball_conj_distrib conj_ac)

lemma unit_result_ex: "(\<exists>u. r = Inr u \<and> P) \<longleftrightarrow> r = Inr () \<and> P"
  by auto

lemma entities_wf_iff:
  "entities_wf casefold p \<longleftrightarrow>
     (\<forall>a\<in>set (accounts p). label_ok casefold (account_id a) (account_label a) (account_key a))
     \<and> distinct (map account_id (accounts p))
     \<and> (\<forall>m\<in>set (merchants p). label_ok casefold (merchant_id m) (merchant_label m) (merchant_key m))
     \<and> distinct (map merchant_id (merchants p))
     \<and> (\<forall>m\<in>set (merchants p). merchant_id m \<notin> account_id ` set (accounts p))
     \<and> (\<forall>g\<in>set (groups p). label_ok casefold (group_id g) (group_label g) (group_key g)
        \<and> (group_protected g \<longrightarrow> \<not> group_retired g \<and> group_merged g = None))
     \<and> distinct (map group_id (groups p))
     \<and> (\<forall>g\<in>set (groups p). group_id g \<notin> merchant_id ` set (merchants p)
          \<and> group_id g \<notin> account_id ` set (accounts p))
     \<and> (\<forall>c\<in>set (categories p). label_ok casefold (category_id c) (category_label c) (category_key c)
        \<and> (category_protected c \<longrightarrow> \<not> category_retired c \<and> category_merged c = None))
     \<and> distinct (map category_id (categories p))
     \<and> (\<forall>c\<in>set (categories p). category_id c \<notin> group_id ` set (groups p)
          \<and> category_id c \<notin> merchant_id ` set (merchants p)
          \<and> category_id c \<notin> account_id ` set (accounts p))
     \<and> (\<exists>g\<in>set (groups p). group_id g = UncategorizedGroupID \<and> uncategorized_group_ok (Some g))
     \<and> (\<exists>c\<in>set (categories p). category_id c = UncategorizedCategoryID
          \<and> protected_category_ok UncategorizedLabel UncategorizedCollisionKey (Some c))
     \<and> (\<exists>c\<in>set (categories p). category_id c = SplitCategoryID
          \<and> protected_category_ok SplitLabel SplitCollisionKey (Some c))
     \<and> collisions_wf p \<and> references_wf p"
  unfolding entities_wf_def distinct_entity_kinds labels_wf_def protection_wf_def
  by (simp add: ball_conj_distrib conj_ac)

lemma ValidateProfile_stages:
  assumes d: "distinct (map account_id (accounts p))" "distinct (map merchant_id (merchants p))"
    "distinct (map group_id (groups p))" "distinct (map category_id (categories p))"
  shows "ValidateProfile casefold p = Inr () \<longleftrightarrow> entities_wf casefold p \<and>
    (\<exists>ids. fold_result (validateTransaction (index_by account_id (accounts p))
        (index_by merchant_id (merchants p)) (index_by group_id (groups p))
        (index_by category_id (categories p))) (all_ids (p\<lparr>transactions := []\<rparr>)) (transactions p)
        = Inr ids \<and> validateIdentities ids {} {} (identities p) = Inr ())"
proof -
  have ids: "all_ids (p\<lparr>transactions := []\<rparr>) =
     register EntityKindCategory (category_id ` set (categories p))
     (register EntityKindGroup (group_id ` set (groups p))
     (register EntityKindMerchant (merchant_id ` set (merchants p))
     (register EntityKindAccount (account_id ` set (accounts p)) Map.empty)))"
    by (simp add: all_ids_def register_def)
  show ?thesis
    unfolding ValidateProfile_def Let_def bind_result_Inr fold_validate if_result_Inr not_not
      validateActiveCollisions_Inr check_all_Inr unit_result_ex
      validateMergeDestination_Inr[OF d(2)] validateMergeDestination_Inr[OF d(3)]
      validateMergeDestination_Inr[OF d(4)] active_in_index_by[OF d(3)]
      sentinel_index_by[OF d(3), of uncategorized_group_ok, OF sentinel_None(1)]
      sentinel_index_by[OF d(4), of "protected_category_ok l k" for l k, OF sentinel_None(2)]
      entities_wf_iff collisions_wf_def references_wf_def ids
    by (simp add: ball_conj_distrib register_None)
qed

lemma ValidateProfile_Inr: "ValidateProfile casefold p = Inr () \<longleftrightarrow> profile_wf casefold p"
proof (cases "distinct (map account_id (accounts p)) \<and> distinct (map merchant_id (merchants p))
    \<and> distinct (map group_id (groups p)) \<and> distinct (map category_id (categories p))")
  case True
  then have d: "distinct (map account_id (accounts p))" "distinct (map merchant_id (merchants p))"
      "distinct (map group_id (groups p))" "distinct (map category_id (categories p))"
    by simp_all
  show ?thesis
  proof (cases "entities_wf casefold p")
    case True
    then have wf: "labels_wf casefold p" "references_wf p" by (simp_all add: entities_wf_def)
    have fresh: "(\<forall>r\<in>set (transactions p). all_ids (p\<lparr>transactions := []\<rparr>) (record_id r) = None) \<longleftrightarrow>
       (\<forall>r\<in>set (transactions p). record_id r \<notin> category_id ` set (categories p)
          \<and> record_id r \<notin> group_id ` set (groups p) \<and> record_id r \<notin> merchant_id ` set (merchants p)
          \<and> record_id r \<notin> account_id ` set (accounts p))"
      by (auto simp: all_ids_def register_None)
    have all: "all_ids p = register EntityKindTransaction (record_id ` set (transactions p))
        (all_ids (p\<lparr>transactions := []\<rparr>))"
      by (simp add: all_ids_def register_def)
    have dist: "distinct (map fst (entity_kinds p))"
      if "distinct (map record_id (transactions p))"
        and "\<forall>r\<in>set (transactions p). record_id r \<notin> category_id ` set (categories p)
          \<and> record_id r \<notin> group_id ` set (groups p) \<and> record_id r \<notin> merchant_id ` set (merchants p)
          \<and> record_id r \<notin> account_id ` set (accounts p)"
      using True that unfolding entities_wf_def distinct_entity_kinds by simp
    show ?thesis
      unfolding ValidateProfile_stages[OF d] fold_validateTransaction[OF d wf] fresh
        profile_wf_entities all[symmetric]
      using dist validateIdentities_wf[of p] by (simp add: all[symmetric]) blast
  next
    case False
    then show ?thesis
      unfolding ValidateProfile_stages[OF d] profile_wf_entities by simp
  qed
next
  case False
  then have "\<not> profile_wf casefold p"
    by (auto simp: profile_wf_def ids_wf_def distinct_entity_kinds)
  moreover have "ValidateProfile casefold p \<noteq> Inr ()"
    using False unfolding ValidateProfile_def Let_def bind_result_Inr fold_validate by blast
  ultimately show ?thesis by simp
qed

subsection \<open>Order of the tables\<close>

text \<open>Two profiles whose tables hold the same rows in any order are valid together.\<close>

definition same_rows :: "profile \<Rightarrow> profile \<Rightarrow> bool" where
  "same_rows p q \<longleftrightarrow>
     mset (accounts p) = mset (accounts q) \<and> mset (merchants p) = mset (merchants q)
     \<and> mset (groups p) = mset (groups q) \<and> mset (categories p) = mset (categories q)
     \<and> mset (transactions p) = mset (transactions q) \<and> mset (identities p) = mset (identities q)"

lemma same_rows_refl [simp]: "same_rows p p"
  by (simp add: same_rows_def)

lemma same_rows_sym: "same_rows p q \<Longrightarrow> same_rows q p"
  by (simp add: same_rows_def)

lemma same_rows_trans: "same_rows p q \<Longrightarrow> same_rows q r \<Longrightarrow> same_rows p r"
  by (simp add: same_rows_def)

lemma same_rows_sets:
  assumes "same_rows p q"
  shows "set (accounts p) = set (accounts q)" "set (merchants p) = set (merchants q)"
    "set (groups p) = set (groups q)" "set (categories p) = set (categories q)"
    "set (transactions p) = set (transactions q)" "set (identities p) = set (identities q)"
  using assms by (auto simp: same_rows_def dest: mset_eq_setD)

lemma has_active_set: "set xs = set ys \<Longrightarrow> has_active ident retired xs = has_active ident retired ys"
  by (simp add: has_active_def fun_eq_iff)

lemma merge_ok_set: "set xs = set ys \<Longrightarrow> merge_ok ident retired merged xs = merge_ok ident retired merged ys"
  by (simp add: merge_ok_def fun_eq_iff has_active_set[of xs ys] split: option.split)

lemma distinct_active_keys_mset:
  "mset xs = mset ys \<Longrightarrow> distinct (active_keys key retired xs) \<longleftrightarrow> distinct (active_keys key retired ys)"
  unfolding active_keys_def by (rule distinct_map_mset) (simp add: mset_filter)

lemma entity_kinds_same_rows: "same_rows p q \<Longrightarrow> mset (entity_kinds p) = mset (entity_kinds q)"
  by (simp add: entity_kinds_def same_rows_def)

lemma profile_wf_same_rows:
  assumes "same_rows p q"
  shows "profile_wf casefold p \<longleftrightarrow> profile_wf casefold q"
proof -
  note sets = same_rows_sets[OF assms]
  note kinds = mset_eq_setD[OF entity_kinds_same_rows[OF assms]]
  have "labels_wf casefold p \<longleftrightarrow> labels_wf casefold q" by (simp add: labels_wf_def sets)
  moreover have "ids_wf p \<longleftrightarrow> ids_wf q"
    using distinct_map_mset[OF entity_kinds_same_rows[OF assms], of fst]
    by (simp add: ids_wf_def sets)
  moreover have "protection_wf p \<longleftrightarrow> protection_wf q" by (simp add: protection_wf_def sets)
  moreover have "collisions_wf p \<longleftrightarrow> collisions_wf q"
    using assms by (simp add: collisions_wf_def same_rows_def
        distinct_active_keys_mset[of "accounts p" "accounts q"]
        distinct_active_keys_mset[of "merchants p" "merchants q"]
        distinct_active_keys_mset[of "groups p" "groups q"]
        distinct_active_keys_mset[of "categories p" "categories q"])
  moreover have "references_wf p \<longleftrightarrow> references_wf q"
    by (simp add: references_wf_def sets merge_ok_set[OF sets(2)] merge_ok_set[OF sets(3)]
        merge_ok_set[OF sets(4)] has_active_set[OF sets(3)])
  moreover have "(\<forall>r\<in>set (transactions p). record_wf p r) \<longleftrightarrow> (\<forall>r\<in>set (transactions q). record_wf q r)"
    by (simp add: record_wf_def sets has_active_set[OF sets(1)] has_active_set[OF sets(2)]
        has_active_set[OF sets(4)])
  moreover have "identities_wf p \<longleftrightarrow> identities_wf q"
    using assms
    by (simp add: identities_wf_def identity_wf_def sets kinds same_rows_def
        distinct_map_mset[of "identities p" "identities q"])
  ultimately show ?thesis by (simp add: profile_wf_def)
qed

lemma profile_wf_distinct:
  assumes "profile_wf casefold p"
  shows "distinct (map account_id (accounts p))" "distinct (map merchant_id (merchants p))"
    "distinct (map group_id (groups p))" "distinct (map category_id (categories p))"
    "distinct (map record_id (transactions p))"
  using assms by (simp_all add: profile_wf_def ids_wf_def distinct_entity_kinds)

subsection \<open>Properties\<close>

text \<open>
  C7. \<open>CommittedProfile.Validate\<close> decides the profile invariant: its eleven loops over maps of
  identities, labels and keys return no error exactly when the labels and collision keys agree,
  the identities are globally unique and not empty, the protected sentinels are there, active
  collision keys are unique per table, merge destinations and references name active entities,
  transactions are complete and external identities resolve and are unique both ways.
\<close>

theorem ValidateProfile_exact:
  "ValidateProfile casefold p = Inr () \<longleftrightarrow> profile_wf casefold p"
  by (rule ValidateProfile_Inr)

text \<open>
  Materialization of a valid profile never fails, keeps the order and number of its
  transactions, and joins each record with the account, merchant, category and group whose
  identities it refers to.
\<close>

theorem MaterializeTransactions_total:
  assumes "ValidateProfile casefold p = Inr ()"
  shows "\<exists>ts. MaterializeTransactions casefold p = Inr ts
    \<and> list_all2 (\<lambda>r t. \<exists>a\<in>set (accounts p). \<exists>m\<in>set (merchants p). \<exists>c\<in>set (categories p).
         \<exists>g\<in>set (groups p). account_id a = record_account r \<and> merchant_id m = record_merchant r
           \<and> category_id c = record_category r \<and> group_id g = category_group_id c
           \<and> t = join_record a m c g r) (transactions p) ts"
proof -
  let ?as = "index_by account_id (accounts p)" and ?ms = "index_by merchant_id (merchants p)"
    and ?gs = "index_by group_id (groups p)" and ?cs = "index_by category_id (categories p)"
  let ?joined = "\<lambda>r t. \<exists>a\<in>set (accounts p). \<exists>m\<in>set (merchants p). \<exists>c\<in>set (categories p).
         \<exists>g\<in>set (groups p). account_id a = record_account r \<and> merchant_id m = record_merchant r
           \<and> category_id c = record_category r \<and> group_id g = category_group_id c
           \<and> t = join_record a m c g r"
  from assms have wf: "profile_wf casefold p" by (simp add: ValidateProfile_Inr)
  have each: "\<exists>t. materialize_record ?as ?ms ?gs ?cs r = Inr t \<and> ?joined r t"
    if r: "r \<in> set (transactions p)" for r
  proof -
    from wf r have "record_wf p r" "record_id r \<noteq> []" "labels_wf casefold p" "references_wf p"
      by (simp_all add: profile_wf_def ids_wf_def)
    then show ?thesis
      using materialize_record_Inr[OF profile_wf_distinct(1-4)[OF wf], of casefold r]
      unfolding record_wf_def by fastforce
  qed
  then obtain f where f: "\<And>r. r \<in> set (transactions p) \<Longrightarrow>
      materialize_record ?as ?ms ?gs ?cs r = Inr (f r) \<and> ?joined r (f r)"
    by metis
  have "MaterializeTransactions casefold p = Inr (map f (transactions p))"
    unfolding MaterializeTransactions_def assms Let_def map_error_simps bind_result_simps
    by (rule map_result_total) (simp add: f)
  moreover have "list_all2 ?joined (transactions p) (map f (transactions p))"
    unfolding list.rel_map list_all2_same using f by blast
  ultimately show ?thesis by blast
qed

text \<open>A profile with the sentinels, one account, two merchants and two transactions.\<close>

definition ascii_fold :: "string \<Rightarrow> string" where
  "ascii_fold = map (\<lambda>c. if 65 \<le> byte c \<and> byte c \<le> 90 then char_of (byte c + 32) else c)"

definition example_group :: category_group where
  "example_group = \<lparr>group_id = UncategorizedGroupID, group_label = UncategorizedLabel,
     group_key = UncategorizedCollisionKey, group_protected = True, group_retired = False,
     group_merged = None\<rparr>"

definition example_record :: "string \<Rightarrow> string \<Rightarrow> transaction_record" where
  "example_record ident merch =
     \<lparr>record_id = ident, record_provider_id = ident @ ''p'', record_provider = ''demo'',
      record_account = ''a1'', record_merchant = merch, record_category = UncategorizedCategoryID,
      record_date = Date 2024 2 29, record_amount = \<lparr>minor = - 1250, currency = ''USD'', scale = 2\<rparr>,
      record_notes = '''', record_hidden = False, record_pending = False, record_metadata = []\<rparr>"

definition example_profile :: profile where
  "example_profile =
     \<lparr>accounts = [\<lparr>account_id = ''a1'', account_label = ''Checking'', account_key = ''checking'',
                   account_retired = False\<rparr>],
      merchants = [\<lparr>merchant_id = ''m1'', merchant_label = ''Cafe'', merchant_key = ''cafe'',
                    merchant_retired = False, merchant_merged = None\<rparr>,
                   \<lparr>merchant_id = ''m2'', merchant_label = ''Bar'', merchant_key = ''bar'',
                    merchant_retired = False, merchant_merged = None\<rparr>],
      groups = [example_group], categories = ProtectedCategories,
      transactions = [example_record ''t1'' ''m1'', example_record ''t2'' ''m2''],
      identities = []\<rparr>"

lemma example_profile_valid: "ValidateProfile ascii_fold example_profile = Inr ()"
  by code_simp

theorem MaterializeTransactions_total_witness:
  "\<exists>ts. MaterializeTransactions ascii_fold example_profile = Inr ts \<and> length ts = 2"
proof -
  have "ValidateProfile ascii_fold example_profile = Inr ()" by code_simp
  from MaterializeTransactions_total[OF this] show ?thesis
    by (auto simp: example_profile_def dest: list_all2_lengthD)
qed

end
