(* ===== verification/Operations.thy ===== *)
theory Operations
  imports Profile
begin

text \<open>
  \<open>internal/domain/operations.go\<close>: the journal's operations, their typed payloads and the
  validation of a stored operation.  A payload pointer is an option; the creation time is the
  number of nanoseconds since the zero time, so that \<open>IsZero\<close> is equality with 0.
\<close>

datatype operation_type =
    OperationMerchantLabel
  | OperationMerchantMerge
  | OperationMerchantReassign
  | OperationCategoryAssign
  | OperationCategoryCreate
  | OperationCategoryLabel
  | OperationCategoryMove
  | OperationCategoryMerge
  | OperationCategoryDelete
  | OperationGroupCreate
  | OperationGroupLabel
  | OperationGroupMerge
  | OperationGroupDelete
  | OperationTransactionHide
  | OperationTransactionDelete
  | OperationUnknown string

record label_payload =
  label_entity :: entity_id
  label_text :: string
  label_collision :: string

record create_payload =
  create_type :: string
  create_entity :: entity_id
  create_label :: string
  create_collision :: string
  create_parent :: entity_id

record move_payload =
  move_entity :: entity_id
  move_destination :: entity_id

record merge_payload =
  merge_source :: entity_id
  merge_destination :: entity_id

record reassign_payload =
  reassign_destination :: entity_id
  reassign_created :: "merchant option"

record delete_payload =
  delete_source :: entity_id
  delete_replacement :: entity_id

text \<open>
  \<open>time.Time\<close>: the nanoseconds since the zero time, and whether the value has the one representation
  that \<open>time.UnixMilli(ms).UTC()\<close> has, with no location and no monotonic clock reading.  Values are
  compared with \<open>==\<close>, which compares the representations.
\<close>

record go_time =
  instant :: int
  in_utc :: bool

record operation =
  op_id :: string
  op_sequence :: int
  op_type :: operation_type
  op_version :: "16 word"
  op_revision :: uint64
  op_created_at :: go_time
  op_targets :: "entity_id list"
  op_label :: "label_payload option"
  op_create :: "create_payload option"
  op_move :: "move_payload option"
  op_merge :: "merge_payload option"
  op_reassign :: "reassign_payload option"
  op_delete :: "delete_payload option"
  op_hide :: "unit option"
  op_remove :: "unit option"

datatype operation_error =
    DraftSequenceNotZero
  | StoredSequenceNotPositive
  | OperationIDEmpty
  | PayloadVersionUnsupported "16 word"
  | CreationTimeEmpty
  | TargetsEmpty
  | TargetIDEmpty
  | TargetsNotSorted
  | PayloadCount nat
  | LabelWrongPayload
  | LabelEntityIDEmpty
  | LabelInvalid label_error
  | LabelKeyMismatch
  | LabelTargetMismatch
  | MergeWrongPayload
  | MergeIncomplete
  | OperationTargetMismatch
  | ReassignIncomplete
  | AssignmentCreatesMerchant
  | CreatedMerchantInconsistent
  | CreatedMerchantInvalid profile_error
  | CreateWrongPayload
  | CreatedEntityInconsistent
  | CreatedParentEmpty
  | CreatedGroupHasParent
  | MoveIncomplete
  | DeleteIncomplete
  | HideWrongPayload
  | RemoveWrongPayload
  | TypeUnknown operation_type

subsection \<open>Validation\<close>

fun validateTargets :: "entity_id option \<Rightarrow> entity_id list \<Rightarrow> operation_error + unit" where
  "validateTargets previous [] = Inr ()"
| "validateTargets previous (target # rest) =
     (if target = '''' then Inl TargetIDEmpty
      else if (case previous of None \<Rightarrow> False | Some p \<Rightarrow> \<not> p < target) then Inl TargetsNotSorted
      else validateTargets (Some target) rest)"

definition boolInt :: "bool \<Rightarrow> nat" where
  "boolInt b = (if b then 1 else 0)"

definition countPayloads :: "operation \<Rightarrow> nat" where
  "countPayloads oper =
     boolInt (op_label oper \<noteq> None) + boolInt (op_create oper \<noteq> None)
     + boolInt (op_move oper \<noteq> None) + boolInt (op_merge oper \<noteq> None)
     + boolInt (op_reassign oper \<noteq> None) + boolInt (op_delete oper \<noteq> None)
     + boolInt (op_hide oper \<noteq> None) + boolInt (op_remove oper \<noteq> None)"

definition validateOnlyTarget :: "entity_id list \<Rightarrow> entity_id \<Rightarrow> operation_error + unit" where
  "validateOnlyTarget targets expected =
     (if length targets \<noteq> 1 \<or> targets ! 0 \<noteq> expected then Inl OperationTargetMismatch else Inr ())"

definition validateLabelPayload :: "(string \<Rightarrow> string) \<Rightarrow> label_payload \<Rightarrow> operation_error + unit" where
  "validateLabelPayload casefold payload =
     (if label_entity payload = '''' then Inl LabelEntityIDEmpty
      else case CollisionKey casefold (label_text payload) of
        Inl e \<Rightarrow> Inl (LabelInvalid e)
      | Inr key \<Rightarrow> if key \<noteq> label_collision payload then Inl LabelKeyMismatch else Inr ())"

definition validateCreatePayload ::
    "(string \<Rightarrow> string) \<Rightarrow> operation_type \<Rightarrow> create_payload \<Rightarrow> operation_error + unit" where
  "validateCreatePayload casefold kind payload =
     (let wantType = (if kind = OperationGroupCreate then entity_kind_string EntityKindGroup
                      else entity_kind_string EntityKindCategory) in
      if create_type payload \<noteq> wantType \<or> create_entity payload = ''''
      then Inl CreatedEntityInconsistent
      else if kind = OperationCategoryCreate \<and> create_parent payload = ''''
      then Inl CreatedParentEmpty
      else if kind = OperationGroupCreate \<and> create_parent payload \<noteq> ''''
      then Inl CreatedGroupHasParent
      else validateLabelPayload casefold
             \<lparr>label_entity = create_entity payload, label_text = create_label payload,
              label_collision = create_collision payload\<rparr>)"

definition validateLabelOperation :: "(string \<Rightarrow> string) \<Rightarrow> operation \<Rightarrow> operation_error + unit" where
  "validateLabelOperation casefold oper =
     (case op_label oper of
        None \<Rightarrow> Inl LabelWrongPayload
      | Some payload \<Rightarrow> bind_result (validateLabelPayload casefold payload) (\<lambda>_.
          if length (op_targets oper) \<noteq> 1 \<or> op_targets oper ! 0 \<noteq> label_entity payload
          then Inl LabelTargetMismatch else Inr ()))"

definition validateMergeOperation :: "operation \<Rightarrow> operation_error + unit" where
  "validateMergeOperation oper =
     (case op_merge oper of
        None \<Rightarrow> Inl MergeWrongPayload
      | Some payload \<Rightarrow>
          if merge_source payload = '''' \<or> merge_destination payload = ''''
             \<or> merge_source payload = merge_destination payload
          then Inl MergeIncomplete
          else validateOnlyTarget (op_targets oper) (merge_source payload))"

definition validateReassignOperation ::
    "(string \<Rightarrow> string) \<Rightarrow> operation \<Rightarrow> operation_error + unit" where
  "validateReassignOperation casefold oper =
     (case op_reassign oper of
        None \<Rightarrow> Inl ReassignIncomplete
      | Some payload \<Rightarrow>
          if reassign_destination payload = '''' then Inl ReassignIncomplete
          else if op_type oper = OperationCategoryAssign \<and> reassign_created payload \<noteq> None
          then Inl AssignmentCreatesMerchant
          else case reassign_created payload of
            None \<Rightarrow> Inr ()
          | Some m \<Rightarrow>
              if merchant_id m \<noteq> reassign_destination payload \<or> merchant_retired m
                 \<or> merchant_merged m \<noteq> None
              then Inl CreatedMerchantInconsistent
              else map_error CreatedMerchantInvalid
                (validateEntityLabel casefold EntityKindMerchant (merchant_id m)
                   (merchant_label m) (merchant_key m)))"

definition validateCreateOperation :: "(string \<Rightarrow> string) \<Rightarrow> operation \<Rightarrow> operation_error + unit" where
  "validateCreateOperation casefold oper =
     (case op_create oper of
        None \<Rightarrow> Inl CreateWrongPayload
      | Some payload \<Rightarrow>
          bind_result (validateCreatePayload casefold (op_type oper) payload) (\<lambda>_.
            if op_type oper = OperationGroupCreate
            then validateOnlyTarget (op_targets oper) (create_entity payload) else Inr ()))"

definition validateMoveOperation :: "operation \<Rightarrow> operation_error + unit" where
  "validateMoveOperation oper =
     (case op_move oper of
        None \<Rightarrow> Inl MoveIncomplete
      | Some payload \<Rightarrow>
          if move_entity payload = '''' \<or> move_destination payload = '''' then Inl MoveIncomplete
          else validateOnlyTarget (op_targets oper) (move_entity payload))"

definition validateDeleteOperation :: "operation \<Rightarrow> operation_error + unit" where
  "validateDeleteOperation oper =
     (case op_delete oper of
        None \<Rightarrow> Inl DeleteIncomplete
      | Some payload \<Rightarrow>
          if delete_source payload = '''' \<or> delete_replacement payload = ''''
             \<or> delete_source payload = delete_replacement payload
          then Inl DeleteIncomplete
          else validateOnlyTarget (op_targets oper) (delete_source payload))"

definition validatePayload :: "(string \<Rightarrow> string) \<Rightarrow> operation \<Rightarrow> operation_error + unit" where
  "validatePayload casefold oper =
     (case op_type oper of
        OperationMerchantLabel \<Rightarrow> validateLabelOperation casefold oper
      | OperationCategoryLabel \<Rightarrow> validateLabelOperation casefold oper
      | OperationGroupLabel \<Rightarrow> validateLabelOperation casefold oper
      | OperationMerchantMerge \<Rightarrow> validateMergeOperation oper
      | OperationCategoryMerge \<Rightarrow> validateMergeOperation oper
      | OperationGroupMerge \<Rightarrow> validateMergeOperation oper
      | OperationMerchantReassign \<Rightarrow> validateReassignOperation casefold oper
      | OperationCategoryAssign \<Rightarrow> validateReassignOperation casefold oper
      | OperationCategoryCreate \<Rightarrow> validateCreateOperation casefold oper
      | OperationGroupCreate \<Rightarrow> validateCreateOperation casefold oper
      | OperationCategoryMove \<Rightarrow> validateMoveOperation oper
      | OperationCategoryDelete \<Rightarrow> validateDeleteOperation oper
      | OperationGroupDelete \<Rightarrow> validateDeleteOperation oper
      | OperationTransactionHide \<Rightarrow>
          if op_hide oper = None then Inl HideWrongPayload else Inr ()
      | OperationTransactionDelete \<Rightarrow>
          if op_remove oper = None then Inl RemoveWrongPayload else Inr ()
      | OperationUnknown s \<Rightarrow> Inl (TypeUnknown (OperationUnknown s)))"

definition validateOperation :: "(string \<Rightarrow> string) \<Rightarrow> operation \<Rightarrow> operation_error + unit" where
  "validateOperation casefold oper =
     (if op_id oper = '''' then Inl OperationIDEmpty
      else if op_version oper \<noteq> 1 then Inl (PayloadVersionUnsupported (op_version oper))
      else if instant (op_created_at oper) = 0 then Inl CreationTimeEmpty
      else if op_targets oper = [] then Inl TargetsEmpty
      else bind_result (validateTargets None (op_targets oper)) (\<lambda>_.
        if countPayloads oper \<noteq> 1 then Inl (PayloadCount (countPayloads oper))
        else validatePayload casefold oper))"

definition ValidateDraft :: "(string \<Rightarrow> string) \<Rightarrow> operation \<Rightarrow> operation_error + unit" where
  "ValidateDraft casefold oper =
     (if op_sequence oper \<noteq> 0 then Inl DraftSequenceNotZero else validateOperation casefold oper)"

definition ValidateStored :: "(string \<Rightarrow> string) \<Rightarrow> operation \<Rightarrow> operation_error + unit" where
  "ValidateStored casefold oper =
     (if op_sequence oper \<le> 0 then Inl StoredSequenceNotPositive
      else validateOperation casefold oper)"

subsection \<open>What a valid operation carries\<close>

lemma validateTargets_Inr:
  "validateTargets previous targets = Inr () \<longleftrightarrow>
     '''' \<notin> set targets \<and> sorted_wrt (<) targets
     \<and> (\<forall>p. previous = Some p \<longrightarrow> (\<forall>t\<in>set targets. p < t))"
proof (induction targets arbitrary: previous)
  case Nil
  show ?case by simp
next
  case (Cons target rest)
  show ?case
    by (cases previous) (auto simp: Cons.IH)
qed

lemma validateOnlyTarget_Inr: "validateOnlyTarget targets e = Inr u \<longleftrightarrow> targets = [e]"
  by (cases targets) (auto simp: validateOnlyTarget_def)

lemma validateLabelPayload_Inr:
  "validateLabelPayload casefold payload = Inr u \<longleftrightarrow>
     label_ok casefold (label_entity payload) (label_text payload) (label_collision payload)"
  by (auto simp: validateLabelPayload_def label_ok_def split: sum.splits)

lemma validateLabelOperation_Inr:
  "validateLabelOperation casefold oper = Inr u \<longleftrightarrow>
     (\<exists>l. op_label oper = Some l \<and> op_targets oper = [label_entity l]
        \<and> label_ok casefold (label_entity l) (label_text l) (label_collision l))"
  by (cases "op_targets oper")
    (auto simp: validateLabelOperation_def bind_result_Inr validateLabelPayload_Inr split: option.splits)

lemma validateMergeOperation_Inr:
  "validateMergeOperation oper = Inr u \<longleftrightarrow>
     (\<exists>m. op_merge oper = Some m \<and> op_targets oper = [merge_source m]
        \<and> merge_source m \<noteq> '''' \<and> merge_destination m \<noteq> ''''
        \<and> merge_source m \<noteq> merge_destination m)"
  by (auto simp: validateMergeOperation_def validateOnlyTarget_Inr split: option.splits)

lemma validateReassignOperation_Inr:
  "validateReassignOperation casefold oper = Inr u \<longleftrightarrow>
     (\<exists>r. op_reassign oper = Some r \<and> reassign_destination r \<noteq> ''''
        \<and> (op_type oper = OperationCategoryAssign \<longrightarrow> reassign_created r = None)
        \<and> (\<forall>m. reassign_created r = Some m \<longrightarrow> merchant_id m = reassign_destination r
            \<and> \<not> merchant_retired m \<and> merchant_merged m = None
            \<and> label_ok casefold (merchant_id m) (merchant_label m) (merchant_key m)))"
  by (auto simp: validateReassignOperation_def validateEntityLabel_Inr split: option.splits)

lemma validateCreateOperation_Inr:
  "validateCreateOperation casefold oper = Inr u \<longleftrightarrow>
     (\<exists>c. op_create oper = Some c
        \<and> label_ok casefold (create_entity c) (create_label c) (create_collision c)
        \<and> (op_type oper = OperationGroupCreate \<longrightarrow>
             create_type c = ''group'' \<and> create_parent c = '''' \<and> op_targets oper = [create_entity c])
        \<and> (op_type oper \<noteq> OperationGroupCreate \<longrightarrow> create_type c = ''category'')
        \<and> (op_type oper = OperationCategoryCreate \<longrightarrow> create_parent c \<noteq> ''''))"
  by (auto simp: validateCreateOperation_def validateCreatePayload_def Let_def bind_result_Inr
      validateLabelPayload_Inr validateOnlyTarget_Inr entity_kind_string_def label_ok_def
      split: option.splits if_splits)

lemma validateMoveOperation_Inr:
  "validateMoveOperation oper = Inr u \<longleftrightarrow>
     (\<exists>m. op_move oper = Some m \<and> op_targets oper = [move_entity m]
        \<and> move_entity m \<noteq> '''' \<and> move_destination m \<noteq> '''')"
  by (auto simp: validateMoveOperation_def validateOnlyTarget_Inr split: option.splits)

lemma validateDeleteOperation_Inr:
  "validateDeleteOperation oper = Inr u \<longleftrightarrow>
     (\<exists>d. op_delete oper = Some d \<and> op_targets oper = [delete_source d]
        \<and> delete_source d \<noteq> '''' \<and> delete_replacement d \<noteq> ''''
        \<and> delete_source d \<noteq> delete_replacement d)"
  by (auto simp: validateDeleteOperation_def validateOnlyTarget_Inr split: option.splits)

lemmas validate_operation_Inr =
  validateLabelOperation_Inr validateMergeOperation_Inr validateReassignOperation_Inr
  validateCreateOperation_Inr validateMoveOperation_Inr validateDeleteOperation_Inr

lemma ValidateStored_payload:
  "ValidateStored casefold oper = Inr u \<Longrightarrow> validatePayload casefold oper = Inr ()"
  by (auto simp: ValidateStored_def validateOperation_def bind_result_Inr split: if_splits)

lemma ValidateStored_targets:
  "ValidateStored casefold oper = Inr u \<Longrightarrow>
     op_targets oper \<noteq> [] \<and> '''' \<notin> set (op_targets oper) \<and> sorted_wrt (<) (op_targets oper)
     \<and> distinct (op_targets oper)"
  by (auto simp: ValidateStored_def validateOperation_def bind_result_Inr validateTargets_Inr
      strict_sorted_iff split: if_splits)



lemma ValidateStored_sequence: "ValidateStored casefold oper = Inr u \<Longrightarrow> 0 < op_sequence oper"
  by (simp add: ValidateStored_def split: if_splits)

end
