(* ===== verification/Query_Spec.thy ===== *)
theory Query_Spec
  imports Entities
begin

text \<open>
  \<open>internal/domain/query.go\<close>: the renderer-neutral query and its result.  The string enums are
  datatypes with one constructor for every value the code names and one for any other string;
  the empty dimension of a detail query is \<open>DimensionUnknown ''''\<close>.
\<close>

datatype dimension =
    DimensionMerchant
  | DimensionCategory
  | DimensionGroup
  | DimensionAccount
  | DimensionTime
  | DimensionUnknown string

datatype result_mode = ResultModeDetail | ResultModeAggregate | ResultModeUnknown string

datatype time_granularity =
    TimeGranularityYear
  | TimeGranularityMonth
  | TimeGranularityDay
  | TimeGranularityUnknown string

datatype sort_field =
    SortFieldCount
  | SortFieldAmount
  | SortFieldDate
  | SortFieldMerchant
  | SortFieldCategory
  | SortFieldGroup
  | SortFieldAccount
  | SortFieldTimePeriod
  | SortFieldUnknown string

datatype sort_direction = SortDirectionDesc | SortDirectionAsc | SortDirectionUnknown string

definition dimension_string :: "dimension \<Rightarrow> string" where
  "dimension_string d =
     (case d of
        DimensionMerchant \<Rightarrow> ''merchant''
      | DimensionCategory \<Rightarrow> ''category''
      | DimensionGroup \<Rightarrow> ''group''
      | DimensionAccount \<Rightarrow> ''account''
      | DimensionTime \<Rightarrow> ''time''
      | DimensionUnknown s \<Rightarrow> s)"

record date_range =
  range_start :: date
  range_end :: date

record period =
  period_granularity :: time_granularity
  period_year :: int
  period_month :: int
  period_day :: int

record drilldown =
  drill_dimension :: dimension
  drill_currency :: string
  drill_scale :: uint8
  drill_key :: string
  drill_label :: string
  drill_period :: "period option"

record currency_scope =
  scope_currency :: string
  scope_scale :: uint8

record currency_count =
  cc_currency :: string
  cc_scale :: uint8
  cc_count :: int
  cc_first :: date
  cc_latest :: date

record sort_spec =
  sort_by :: sort_field
  sort_order :: sort_direction

record query_spec =
  query_range :: "date_range option"
  query_search :: string
  query_show_hidden :: bool
  query_show_transfers :: bool
  query_currency :: "currency_scope option"
  query_drilldowns :: "drilldown list"
  query_mode :: result_mode
  query_group_by :: dimension
  query_granularity :: time_granularity
  query_sort :: sort_spec

record row_flags =
  flag_selected :: bool
  flag_hidden :: bool
  flag_pending :: bool

record detail_row =
  detail_transaction :: transaction
  detail_flags :: row_flags

record aggregate_row =
  row_dimension :: dimension
  row_key :: string
  row_label :: string
  row_group :: string
  row_count :: int
  row_in :: money
  row_out :: money
  row_total :: money
  row_period :: "period option"
  row_top_category :: string
  row_top_percent :: int
  row_share_tenths :: int
  row_flags :: row_flags

record currency_stats =
  stats_currency :: string
  stats_scale :: uint8
  stats_count :: int
  stats_in :: money
  stats_out :: money
  stats_net :: money

record query_result =
  result_details :: "detail_row list"
  result_aggregates :: "aggregate_row list"
  result_statistics :: "currency_stats list"
  result_filtered :: int
  result_range :: "date_range option"

datatype query_error =
    ModeInvalid
  | GranularityInvalid
  | DirectionInvalid
  | DateRangeInvalid
  | DateRangeReversed
  | DrillDimensionInvalid
  | DrillDimensionDuplicate
  | DrillCurrencyInvalid
  | DrillTimeNeedsPeriod
  | PeriodInvalid
  | YearPeriodHasMonth
  | MonthPeriodInvalid
  | DayPeriodInvalid
  | DrillInvalid
  | ScopeCurrencyInvalid
  | ScopeMismatch
  | GroupByInvalid
  | AggregateDimensionInvalid
  | AggregateSortInvalid
  | DetailSortInvalid

subsection \<open>Valid values\<close>

definition dimension_valid :: "dimension \<Rightarrow> bool" where
  "dimension_valid d = (case d of DimensionUnknown _ \<Rightarrow> False | _ \<Rightarrow> True)"

definition mode_valid :: "result_mode \<Rightarrow> bool" where
  "mode_valid m \<longleftrightarrow> m = ResultModeDetail \<or> m = ResultModeAggregate"

definition granularity_valid :: "time_granularity \<Rightarrow> bool" where
  "granularity_valid g \<longleftrightarrow>
     g = TimeGranularityYear \<or> g = TimeGranularityMonth \<or> g = TimeGranularityDay"

definition sort_field_valid :: "sort_field \<Rightarrow> bool" where
  "sort_field_valid f = (case f of SortFieldUnknown _ \<Rightarrow> False | _ \<Rightarrow> True)"

definition direction_valid :: "sort_direction \<Rightarrow> bool" where
  "direction_valid d \<longleftrightarrow> d = SortDirectionDesc \<or> d = SortDirectionAsc"

definition ValidatePeriod :: "period \<Rightarrow> query_error + unit" where
  "ValidatePeriod p =
     (if \<not> granularity_valid (period_granularity p) \<or> period_year p < 1 \<or> period_year p > 9999
      then Inl PeriodInvalid
      else case period_granularity p of
        TimeGranularityYear \<Rightarrow>
          if period_month p \<noteq> 0 \<or> period_day p \<noteq> 0 then Inl YearPeriodHasMonth else Inr ()
      | TimeGranularityMonth \<Rightarrow>
          if period_month p < 1 \<or> period_month p > 12 \<or> period_day p \<noteq> 0
          then Inl MonthPeriodInvalid else Inr ()
      | TimeGranularityDay \<Rightarrow>
          (case NewDate (period_year p) (period_month p) (period_day p) of
             Inl _ \<Rightarrow> Inl DayPeriodInvalid | Inr _ \<Rightarrow> Inr ())
      | TimeGranularityUnknown _ \<Rightarrow> Inr ())"

fun validateDrilldowns :: "dimension set \<Rightarrow> drilldown list \<Rightarrow> query_error + unit" where
  "validateDrilldowns seen [] = Inr ()"
| "validateDrilldowns seen (d # ds) =
     (if \<not> dimension_valid (drill_dimension d) then Inl DrillDimensionInvalid
      else if drill_dimension d \<in> seen then Inl DrillDimensionDuplicate
      else if \<not> IsValidCurrency (drill_currency d) then Inl DrillCurrencyInvalid
      else bind_result
        (if drill_dimension d = DimensionTime
         then (case drill_period d of
                 None \<Rightarrow> Inl DrillTimeNeedsPeriod
               | Some p \<Rightarrow>
                   if drill_key d \<noteq> '''' \<or> drill_label d \<noteq> '''' then Inl DrillTimeNeedsPeriod
                   else ValidatePeriod p)
         else if drill_period d \<noteq> None \<or> drill_key d = '''' then Inl DrillInvalid else Inr ())
        (\<lambda>_. validateDrilldowns (insert (drill_dimension d) seen) ds))"

definition validateCurrencyScope :: "currency_scope option \<Rightarrow> drilldown list \<Rightarrow> query_error + unit" where
  "validateCurrencyScope scope drilldowns =
     (case scope of
        None \<Rightarrow> Inr ()
      | Some s \<Rightarrow>
          if \<not> IsValidCurrency (scope_currency s) then Inl ScopeCurrencyInvalid
          else check_all (\<lambda>d.
            if drill_currency d \<noteq> scope_currency s \<or> drill_scale d \<noteq> scope_scale s
            then Inl ScopeMismatch else Inr ()) drilldowns)"

definition aggregate_sort_of :: "dimension \<Rightarrow> sort_field" where
  "aggregate_sort_of d =
     (case d of
        DimensionMerchant \<Rightarrow> SortFieldMerchant
      | DimensionCategory \<Rightarrow> SortFieldCategory
      | DimensionGroup \<Rightarrow> SortFieldGroup
      | DimensionAccount \<Rightarrow> SortFieldAccount
      | DimensionTime \<Rightarrow> SortFieldTimePeriod
      | DimensionUnknown _ \<Rightarrow> SortFieldUnknown '''')"

definition validAggregateSort :: "dimension \<Rightarrow> sort_field \<Rightarrow> bool" where
  "validAggregateSort d f \<longleftrightarrow>
     f = SortFieldCount \<or> f = SortFieldAmount \<or> f = aggregate_sort_of d"

definition validDetailSort :: "sort_field \<Rightarrow> bool" where
  "validDetailSort f \<longleftrightarrow> f \<in> set [SortFieldDate, SortFieldMerchant, SortFieldCategory,
     SortFieldAccount, SortFieldAmount]"

definition ValidateQuery :: "query_spec \<Rightarrow> query_error + unit" where
  "ValidateQuery q =
     (if \<not> mode_valid (query_mode q) then Inl ModeInvalid
      else if \<not> granularity_valid (query_granularity q) then Inl GranularityInvalid
      else if \<not> direction_valid (sort_order (query_sort q)) then Inl DirectionInvalid
      else bind_result
        (case query_range q of
           None \<Rightarrow> Inr ()
         | Some r \<Rightarrow>
             if year (range_start r) = 0 \<or> year (range_end r) = 0 then Inl DateRangeInvalid
             else if date_compare (range_start r) (range_end r) > 0 then Inl DateRangeReversed
             else Inr ()) (\<lambda>_.
      bind_result (validateDrilldowns {} (query_drilldowns q)) (\<lambda>_.
      bind_result (validateCurrencyScope (query_currency q) (query_drilldowns q)) (\<lambda>_.
      if query_group_by q \<noteq> DimensionUnknown '''' \<and> \<not> dimension_valid (query_group_by q)
      then Inl GroupByInvalid
      else if query_mode q = ResultModeAggregate then
        (if \<not> dimension_valid (query_group_by q) then Inl AggregateDimensionInvalid
         else if \<not> validAggregateSort (query_group_by q) (sort_by (query_sort q))
         then Inl AggregateSortInvalid else Inr ())
      else if \<not> validDetailSort (sort_by (query_sort q)) then Inl DetailSortInvalid
      else Inr ()))))"

lemma ValidatePeriod_Inr:
  "ValidatePeriod p = Inr u \<Longrightarrow>
     granularity_valid (period_granularity p) \<and> 1 \<le> period_year p \<and> period_year p \<le> 9999"
  by (auto simp: ValidatePeriod_def split: if_splits)

lemma validateDrilldowns_distinct:
  "validateDrilldowns seen ds = Inr () \<Longrightarrow>
     distinct (map drill_dimension ds) \<and> drill_dimension ` set ds \<inter> seen = {}
     \<and> (\<forall>d\<in>set ds. dimension_valid (drill_dimension d))"
  by (induction seen ds rule: validateDrilldowns.induct)
    (auto simp: bind_result_Inr split: if_splits)

lemma validateDrilldowns_time:
  "validateDrilldowns seen ds = Inr () \<Longrightarrow> d \<in> set ds \<Longrightarrow>
     (drill_dimension d = DimensionTime) = (drill_period d \<noteq> None)
     \<and> (\<forall>p. drill_period d = Some p \<longrightarrow> ValidatePeriod p = Inr ())"
  by (induction seen ds rule: validateDrilldowns.induct)
    (auto simp: bind_result_Inr split: if_splits option.splits)

end
