(* ===== verification/Snapshot.thy ===== *)
theory Snapshot
  imports Operations Query_Spec
begin

text \<open>
  The snapshot of \<open>internal/domain/profile.go\<close>: a committed profile, the journal of pending
  operations with its cursor, and the registry of known drill identities.  The revision of the
  store is a 64-bit counter.
\<close>

record drill_identity =
  drill_id_dimension :: dimension
  drill_id_currency :: string
  drill_id_scale :: uint8
  drill_id_key :: string

datatype drill_error = AnalyticalIdentityInvalid | MoneyPartitionInvalid

text \<open>The zero byte that separates the fields of a canonical key.\<close>

definition nul :: string where
  "nul = [char_of (0 :: nat)]"

definition CanonicalKey :: "drill_identity \<Rightarrow> drill_error + string" where
  "CanonicalKey i =
     (if drill_id_dimension i = DimensionTime \<or> \<not> dimension_valid (drill_id_dimension i)
         \<or> drill_id_key i = ''''
      then Inl AnalyticalIdentityInvalid
      else if \<not> IsValidCurrency (drill_id_currency i) \<or> drill_id_scale i > 9
      then Inl MoneyPartitionInvalid
      else Inr (dimension_string (drill_id_dimension i) @ nul @ drill_id_currency i @ nul
             @ zero_pad 3 (decimal_digits (unat (drill_id_scale i))) @ nul @ drill_id_key i))"

record profile_snapshot =
  snap_revision :: uint64
  snap_cursor :: int
  snap_committed :: profile
  snap_journal :: "operation list"
  snap_drills :: "drill_identity list"

datatype snapshot_error =
    CursorOutsideJournal
  | SnapshotProfile profile_error
  | SnapshotOperation nat operation_error
  | JournalNotIncreasing
  | SnapshotDrill nat drill_error
  | DrillsNotSorted

fun validateJournal ::
    "(string \<Rightarrow> string) \<Rightarrow> nat \<Rightarrow> int \<Rightarrow> operation list \<Rightarrow> snapshot_error + unit" where
  "validateJournal casefold index previousSequence [] = Inr ()"
| "validateJournal casefold index previousSequence (oper # rest) =
     (case ValidateStored casefold oper of
        Inl e \<Rightarrow> Inl (SnapshotOperation index e)
      | Inr _ \<Rightarrow>
          if index > 0 \<and> op_sequence oper \<le> previousSequence then Inl JournalNotIncreasing
          else validateJournal casefold (index + 1) (op_sequence oper) rest)"

fun validateDrills :: "nat \<Rightarrow> string \<Rightarrow> drill_identity list \<Rightarrow> snapshot_error + unit" where
  "validateDrills index previous [] = Inr ()"
| "validateDrills index previous (identity # rest) =
     (case CanonicalKey identity of
        Inl e \<Rightarrow> Inl (SnapshotDrill index e)
      | Inr canonical \<Rightarrow>
          if index > 0 \<and> canonical \<le> previous then Inl DrillsNotSorted
          else validateDrills (index + 1) canonical rest)"

definition ValidateSnapshot :: "(string \<Rightarrow> string) \<Rightarrow> profile_snapshot \<Rightarrow> snapshot_error + unit" where
  "ValidateSnapshot casefold s =
     (if snap_cursor s < 0 \<or> snap_cursor s > int (length (snap_journal s))
      then Inl CursorOutsideJournal
      else bind_result (map_error SnapshotProfile (ValidateProfile casefold (snap_committed s))) (\<lambda>_.
           bind_result (validateJournal casefold 0 0 (snap_journal s)) (\<lambda>_.
           validateDrills 0 '''' (snap_drills s))))"

subsection \<open>Canonical keys\<close>

definition key_of :: "drill_identity \<Rightarrow> string" where
  "key_of i = (case CanonicalKey i of Inr k \<Rightarrow> k | Inl _ \<Rightarrow> '''')"

lemma CanonicalKey_key_of: "CanonicalKey i = Inr k \<Longrightarrow> key_of i = k"
  by (simp add: key_of_def)

lemma validateJournal_Inr:
  "validateJournal casefold index previous journal = Inr () \<longleftrightarrow>
     (\<forall>oper\<in>set journal. ValidateStored casefold oper = Inr ())
     \<and> sorted_wrt (<) (map op_sequence journal)
     \<and> (index > 0 \<longrightarrow> (\<forall>oper\<in>set journal. previous < op_sequence oper))"
proof (induction journal arbitrary: index previous)
  case Nil
  show ?case by simp
next
  case (Cons oper rest)
  show ?case
    by (cases "ValidateStored casefold oper") (auto simp: Cons.IH)
qed

lemma validateDrills_Inr:
  "validateDrills index previous drills = Inr () \<longleftrightarrow>
     (\<forall>i\<in>set drills. is_ok (CanonicalKey i)) \<and> sorted_wrt (<) (map key_of drills)
     \<and> (index > 0 \<longrightarrow> (\<forall>i\<in>set drills. previous < key_of i))"
proof (induction drills arbitrary: index previous)
  case Nil
  show ?case by simp
next
  case (Cons i rest)
  show ?case
    by (cases "CanonicalKey i") (auto simp: Cons.IH key_of_def not_le)
qed

lemma ValidateSnapshot_Inr:
  "ValidateSnapshot casefold s = Inr () \<longleftrightarrow>
     0 \<le> snap_cursor s \<and> snap_cursor s \<le> int (length (snap_journal s))
     \<and> profile_wf casefold (snap_committed s)
     \<and> (\<forall>oper\<in>set (snap_journal s). ValidateStored casefold oper = Inr ())
     \<and> sorted_wrt (<) (map op_sequence (snap_journal s))
     \<and> (\<forall>i\<in>set (snap_drills s). is_ok (CanonicalKey i))
     \<and> sorted_wrt (<) (map key_of (snap_drills s))"
  by (auto simp: ValidateSnapshot_def bind_result_Inr ValidateProfile_Inr validateJournal_Inr
      validateDrills_Inr)

end
