(* ===== verification/Apply_Operation.thy ===== *)
theory Apply_Operation
  imports Snapshot
begin

text \<open>
  The reference transition of \<open>internal/replay/replay.go\<close>: \<open>ApplyOperation\<close> validates the profile,
  applies one stored operation, sorts every table and validates the result.  Mutation through the
  profile pointer is state passing.  Following a nil payload pointer is the error \<open>NilPayload\<close>
  and an index out of range the error \<open>IndexOutOfRange\<close>: where Go panics the model fails, and the
  theorems show that neither happens.  Every \<open>xs[i]\<close> of the code is \<open>read_at\<close> or \<open>update_at\<close>, which
  fail where the code would panic, and the allocation of a slice with a negative capacity is
  \<open>SliceCapacity\<close>.

  The abstract specification is \<open>op_guard\<close>, when an operation applies, and \<open>op_effect\<close>, what it
  does to the tables as a whole.
\<close>

datatype apply_error =
    NilPayload
  | IndexOutOfRange
  | SliceCapacity
  | TargetNotPayload
  | MerchantMissing
  | CategoryMissing
  | GroupMissing
  | CreatedMerchantExists
  | CreatedCategoryExists
  | CreatedGroupExists
  | ProtectedCategoryRelabeled
  | ProtectedCategoryMoved
  | ProtectedCategoryMerged
  | ProtectedCategoryDeleted
  | ProtectedGroupRelabeled
  | ProtectedGroupRetirement
  | TransactionTargetMissing
  | OperationUnsupported

datatype replay_error =
    CommittedProfileInvalid profile_error
  | OperationInvalid operation_error
  | ApplyFailed operation_type apply_error
  | ResultInvalid operation_type profile_error
  | CollisionDuplicated operation_type entity_kind string
  | SnapshotInvalid snapshot_error
  | ReplayFailed nat replay_error
  | ReplayResultInvalid profile_error

subsection \<open>Indexing a slice\<close>

text \<open>Reading \<open>xs[i]\<close> and writing \<open>xs[i] = f(xs[i])\<close>; both panic out of range.\<close>

definition read_at :: "'a list \<Rightarrow> nat \<Rightarrow> apply_error + 'a" where
  "read_at xs i = (if i < length xs then Inr (xs ! i) else Inl IndexOutOfRange)"

definition update_at :: "'a list \<Rightarrow> nat \<Rightarrow> ('a \<Rightarrow> 'a) \<Rightarrow> apply_error + 'a list" where
  "update_at xs i f = bind_result (read_at xs i) (\<lambda>x. Inr (xs[i := f x]))"

lemma read_at_ok [simp]: "i < length xs \<Longrightarrow> read_at xs i = Inr (xs ! i)"
  by (simp add: read_at_def)

lemma update_at_ok [simp]: "i < length xs \<Longrightarrow> update_at xs i f = Inr (xs[i := f (xs ! i)])"
  by (simp add: update_at_def)

lemma read_at_Inr: "read_at xs i = Inr x \<longleftrightarrow> i < length xs \<and> x = xs ! i"
  by (auto simp: read_at_def)

subsection \<open>Lookups\<close>

text \<open>\<open>len(Targets) == 1 && Targets[0] == expected\<close>: the index follows the length test.\<close>

definition only_target :: "operation \<Rightarrow> entity_id \<Rightarrow> apply_error + bool" where
  "only_target oper expected =
     (if length (op_targets oper) \<noteq> 1 then Inr False
      else bind_result (read_at (op_targets oper) 0) (\<lambda>target. Inr (target = expected)))"

lemma only_target_eq [simp]: "only_target oper e = Inr (op_targets oper = [e])"
  by (cases "op_targets oper") (auto simp: only_target_def)

definition requireOnlyTarget :: "operation \<Rightarrow> entity_id \<Rightarrow> apply_error + unit" where
  "requireOnlyTarget oper expected =
     bind_result (only_target oper expected) (\<lambda>only.
     if only then Inr () else Inl TargetNotPayload)"

definition merchantIndex :: "profile \<Rightarrow> entity_id \<Rightarrow> nat option" where
  "merchantIndex p ident = find_index (\<lambda>m. merchant_id m = ident) (merchants p)"

definition activeMerchant :: "profile \<Rightarrow> entity_id \<Rightarrow> apply_error + nat" where
  "activeMerchant p ident =
     (case merchantIndex p ident of
        None \<Rightarrow> Inl MerchantMissing
      | Some i \<Rightarrow> bind_result (read_at (merchants p) i) (\<lambda>m.
          if merchant_retired m then Inl MerchantMissing else Inr i))"

definition categoryIndex :: "profile \<Rightarrow> entity_id \<Rightarrow> nat option" where
  "categoryIndex p ident = find_index (\<lambda>c. category_id c = ident) (categories p)"

definition activeCategory :: "profile \<Rightarrow> entity_id \<Rightarrow> apply_error + nat" where
  "activeCategory p ident =
     (case categoryIndex p ident of
        None \<Rightarrow> Inl CategoryMissing
      | Some i \<Rightarrow> bind_result (read_at (categories p) i) (\<lambda>c.
          if category_retired c then Inl CategoryMissing else Inr i))"

definition groupIndex :: "profile \<Rightarrow> entity_id \<Rightarrow> nat option" where
  "groupIndex p ident = find_index (\<lambda>g. group_id g = ident) (groups p)"

definition activeGroup :: "profile \<Rightarrow> entity_id \<Rightarrow> apply_error + nat" where
  "activeGroup p ident =
     (case groupIndex p ident of
        None \<Rightarrow> Inl GroupMissing
      | Some i \<Rightarrow> bind_result (read_at (groups p) i) (\<lambda>g.
          if group_retired g then Inl GroupMissing else Inr i))"

text \<open>The table from transaction identity to position, built by a loop over the slice.\<close>

definition transaction_positions :: "transaction_record list \<Rightarrow> (entity_id \<rightharpoonup> nat)" where
  "transaction_positions ts = index_by (\<lambda>i. record_id (ts ! i)) [0..<length ts]"

definition lookup_positions :: "(entity_id \<rightharpoonup> nat) \<Rightarrow> entity_id list \<Rightarrow> apply_error + nat list" where
  "lookup_positions table targets =
     map_result (\<lambda>target. case table target of None \<Rightarrow> Inl TransactionTargetMissing | Some i \<Rightarrow> Inr i)
       targets"

definition targetTransactionIndexes :: "profile \<Rightarrow> entity_id list \<Rightarrow> apply_error + nat list" where
  "targetTransactionIndexes p targets =
     lookup_positions (transaction_positions (transactions p)) targets"

text \<open>\<open>for _, index := range indexes { Transactions[index] = f(Transactions[index]) }\<close>\<close>

definition update_positions ::
    "(transaction_record \<Rightarrow> transaction_record) \<Rightarrow> transaction_record list \<Rightarrow> nat list \<Rightarrow>
     apply_error + transaction_record list" where
  "update_positions f ts positions = fold_result (\<lambda>ts i. update_at ts i f) ts positions"

definition the_payload :: "'a option \<Rightarrow> apply_error + 'a" where
  "the_payload pointer = (case pointer of None \<Rightarrow> Inl NilPayload | Some v \<Rightarrow> Inr v)"

subsection \<open>Merchants\<close>

definition applyMerchantLabel :: "profile \<Rightarrow> operation \<Rightarrow> apply_error + profile" where
  "applyMerchantLabel p oper =
     bind_result (the_payload (op_label oper)) (\<lambda>payload.
     bind_result (requireOnlyTarget oper (label_entity payload)) (\<lambda>_.
     bind_result (activeMerchant p (label_entity payload)) (\<lambda>i.
     bind_result (update_at (merchants p) i
       (\<lambda>m. m\<lparr>merchant_label := label_text payload, merchant_key := label_collision payload\<rparr>)) (\<lambda>ms.
     Inr (p\<lparr>merchants := ms\<rparr>)))))"

definition redirect_merchant :: "entity_id \<Rightarrow> entity_id \<Rightarrow> merchant \<Rightarrow> merchant" where
  "redirect_merchant source destination m =
     (if merchant_merged m = Some source then m\<lparr>merchant_merged := Some destination\<rparr> else m)"

definition redirect_record_merchant ::
    "entity_id \<Rightarrow> entity_id \<Rightarrow> transaction_record \<Rightarrow> transaction_record" where
  "redirect_record_merchant source destination r =
     (if record_merchant r = source then r\<lparr>record_merchant := destination\<rparr> else r)"

definition applyMerchantMerge :: "profile \<Rightarrow> operation \<Rightarrow> apply_error + profile" where
  "applyMerchantMerge p oper =
     bind_result (the_payload (op_merge oper)) (\<lambda>payload.
     bind_result (requireOnlyTarget oper (merge_source payload)) (\<lambda>_.
     bind_result (activeMerchant p (merge_source payload)) (\<lambda>source.
     bind_result (activeMerchant p (merge_destination payload)) (\<lambda>_.
     bind_result (update_at (merchants p) source
       (\<lambda>m. m\<lparr>merchant_retired := True, merchant_merged := Some (merge_destination payload)\<rparr>)) (\<lambda>ms.
     Inr (p\<lparr>merchants := map (redirect_merchant (merge_source payload) (merge_destination payload)) ms,
            transactions := map
             (redirect_record_merchant (merge_source payload) (merge_destination payload))
             (transactions p)\<rparr>))))))"

definition add_created_merchant :: "profile \<Rightarrow> merchant option \<Rightarrow> apply_error + profile" where
  "add_created_merchant p created =
     (case created of
        None \<Rightarrow> Inr p
      | Some m \<Rightarrow>
          if merchantIndex p (merchant_id m) \<noteq> None then Inl CreatedMerchantExists
          else Inr (p\<lparr>merchants := merchants p @ [m]\<rparr>))"

definition applyMerchantReassign :: "profile \<Rightarrow> operation \<Rightarrow> apply_error + profile" where
  "applyMerchantReassign p oper =
     bind_result (the_payload (op_reassign oper)) (\<lambda>payload.
     bind_result (add_created_merchant p (reassign_created payload)) (\<lambda>q.
     bind_result (activeMerchant q (reassign_destination payload)) (\<lambda>_.
     bind_result (targetTransactionIndexes q (op_targets oper)) (\<lambda>indexes.
     bind_result (update_positions (\<lambda>r. r\<lparr>record_merchant := reassign_destination payload\<rparr>)
       (transactions q) indexes) (\<lambda>ts.
     Inr (q\<lparr>transactions := ts\<rparr>))))))"

subsection \<open>Categories\<close>

definition applyCategoryAssign :: "profile \<Rightarrow> operation \<Rightarrow> apply_error + profile" where
  "applyCategoryAssign p oper =
     bind_result (the_payload (op_reassign oper)) (\<lambda>payload.
     bind_result (activeCategory p (reassign_destination payload)) (\<lambda>_.
     bind_result (targetTransactionIndexes p (op_targets oper)) (\<lambda>indexes.
     bind_result (update_positions (\<lambda>r. r\<lparr>record_category := reassign_destination payload\<rparr>)
       (transactions p) indexes) (\<lambda>ts.
     Inr (p\<lparr>transactions := ts\<rparr>)))))"

definition created_category :: "create_payload \<Rightarrow> category" where
  "created_category payload =
     \<lparr>category_id = create_entity payload, category_group_id = create_parent payload,
      category_label = create_label payload, category_key = create_collision payload,
      category_protected = False, category_retired = False, category_merged = None\<rparr>"

definition applyCategoryCreate :: "profile \<Rightarrow> operation \<Rightarrow> apply_error + profile" where
  "applyCategoryCreate p oper =
     bind_result (the_payload (op_create oper)) (\<lambda>payload.
     if categoryIndex p (create_entity payload) \<noteq> None then Inl CreatedCategoryExists else
     bind_result (activeGroup p (create_parent payload)) (\<lambda>_.
     let q = p\<lparr>categories := categories p @ [created_category payload]\<rparr> in
     bind_result (only_target oper (create_entity payload)) (\<lambda>own.
     if own then Inr q else
     bind_result (targetTransactionIndexes q (op_targets oper)) (\<lambda>indexes.
     bind_result (update_positions (\<lambda>r. r\<lparr>record_category := create_entity payload\<rparr>)
       (transactions q) indexes) (\<lambda>ts.
     Inr (q\<lparr>transactions := ts\<rparr>))))))"

definition applyCategoryLabel :: "profile \<Rightarrow> operation \<Rightarrow> apply_error + profile" where
  "applyCategoryLabel p oper =
     bind_result (the_payload (op_label oper)) (\<lambda>payload.
     bind_result (requireOnlyTarget oper (label_entity payload)) (\<lambda>_.
     bind_result (activeCategory p (label_entity payload)) (\<lambda>i.
     bind_result (read_at (categories p) i) (\<lambda>c.
     if category_protected c then Inl ProtectedCategoryRelabeled else
     bind_result (update_at (categories p) i
       (\<lambda>c. c\<lparr>category_label := label_text payload, category_key := label_collision payload\<rparr>)) (\<lambda>cs.
     Inr (p\<lparr>categories := cs\<rparr>))))))"

definition applyCategoryMove :: "profile \<Rightarrow> operation \<Rightarrow> apply_error + profile" where
  "applyCategoryMove p oper =
     bind_result (the_payload (op_move oper)) (\<lambda>payload.
     bind_result (requireOnlyTarget oper (move_entity payload)) (\<lambda>_.
     bind_result (activeCategory p (move_entity payload)) (\<lambda>i.
     bind_result (read_at (categories p) i) (\<lambda>c.
     if category_protected c then Inl ProtectedCategoryMoved else
     bind_result (activeGroup p (move_destination payload)) (\<lambda>_.
     bind_result (update_at (categories p) i
       (\<lambda>c. c\<lparr>category_group_id := move_destination payload\<rparr>)) (\<lambda>cs.
     Inr (p\<lparr>categories := cs\<rparr>)))))))"

definition redirect_category :: "entity_id \<Rightarrow> entity_id \<Rightarrow> category \<Rightarrow> category" where
  "redirect_category source destination c =
     (if category_merged c = Some source then c\<lparr>category_merged := Some destination\<rparr> else c)"

definition redirect_record_category ::
    "entity_id \<Rightarrow> entity_id \<Rightarrow> transaction_record \<Rightarrow> transaction_record" where
  "redirect_record_category source destination r =
     (if record_category r = source then r\<lparr>record_category := destination\<rparr> else r)"

definition retireCategory ::
    "profile \<Rightarrow> nat \<Rightarrow> entity_id \<Rightarrow> entity_id \<Rightarrow> apply_error + profile" where
  "retireCategory p sourceIndex source destination =
     bind_result (update_at (categories p) sourceIndex
       (\<lambda>c. c\<lparr>category_retired := True, category_merged := Some destination\<rparr>)) (\<lambda>cs.
     Inr (p\<lparr>categories := map (redirect_category source destination) cs,
            transactions := map (redirect_record_category source destination) (transactions p)\<rparr>))"

definition applyCategoryMerge :: "profile \<Rightarrow> operation \<Rightarrow> apply_error + profile" where
  "applyCategoryMerge p oper =
     bind_result (the_payload (op_merge oper)) (\<lambda>payload.
     bind_result (requireOnlyTarget oper (merge_source payload)) (\<lambda>_.
     bind_result (activeCategory p (merge_source payload)) (\<lambda>source.
     bind_result (read_at (categories p) source) (\<lambda>c.
     if category_protected c then Inl ProtectedCategoryMerged else
     bind_result (activeCategory p (merge_destination payload)) (\<lambda>_.
     retireCategory p source (merge_source payload) (merge_destination payload))))))"

definition applyCategoryDelete :: "profile \<Rightarrow> operation \<Rightarrow> apply_error + profile" where
  "applyCategoryDelete p oper =
     bind_result (the_payload (op_delete oper)) (\<lambda>payload.
     bind_result (requireOnlyTarget oper (delete_source payload)) (\<lambda>_.
     bind_result (activeCategory p (delete_source payload)) (\<lambda>source.
     bind_result (read_at (categories p) source) (\<lambda>c.
     if category_protected c then Inl ProtectedCategoryDeleted else
     bind_result (activeCategory p (delete_replacement payload)) (\<lambda>_.
     retireCategory p source (delete_source payload) (delete_replacement payload))))))"

subsection \<open>Groups\<close>

definition created_group :: "create_payload \<Rightarrow> category_group" where
  "created_group payload =
     \<lparr>group_id = create_entity payload, group_label = create_label payload,
      group_key = create_collision payload, group_protected = False, group_retired = False,
      group_merged = None\<rparr>"

definition applyGroupCreate :: "profile \<Rightarrow> operation \<Rightarrow> apply_error + profile" where
  "applyGroupCreate p oper =
     bind_result (the_payload (op_create oper)) (\<lambda>payload.
     bind_result (requireOnlyTarget oper (create_entity payload)) (\<lambda>_.
     if groupIndex p (create_entity payload) \<noteq> None then Inl CreatedGroupExists else
     Inr (p\<lparr>groups := groups p @ [created_group payload]\<rparr>)))"

definition applyGroupLabel :: "profile \<Rightarrow> operation \<Rightarrow> apply_error + profile" where
  "applyGroupLabel p oper =
     bind_result (the_payload (op_label oper)) (\<lambda>payload.
     bind_result (requireOnlyTarget oper (label_entity payload)) (\<lambda>_.
     bind_result (activeGroup p (label_entity payload)) (\<lambda>i.
     bind_result (read_at (groups p) i) (\<lambda>g.
     if group_protected g then Inl ProtectedGroupRelabeled else
     bind_result (update_at (groups p) i
       (\<lambda>g. g\<lparr>group_label := label_text payload, group_key := label_collision payload\<rparr>)) (\<lambda>gs.
     Inr (p\<lparr>groups := gs\<rparr>))))))"

definition redirect_group :: "entity_id \<Rightarrow> entity_id \<Rightarrow> category_group \<Rightarrow> category_group" where
  "redirect_group source destination g =
     (if group_merged g = Some source then g\<lparr>group_merged := Some destination\<rparr> else g)"

definition redirect_category_group :: "entity_id \<Rightarrow> entity_id \<Rightarrow> category \<Rightarrow> category" where
  "redirect_category_group source destination c =
     (if category_group_id c = source then c\<lparr>category_group_id := destination\<rparr> else c)"

definition applyGroupRetirement ::
    "profile \<Rightarrow> operation \<Rightarrow> entity_id \<Rightarrow> entity_id \<Rightarrow> apply_error + profile" where
  "applyGroupRetirement p oper sourceID destinationID =
     bind_result (requireOnlyTarget oper sourceID) (\<lambda>_.
     bind_result (activeGroup p sourceID) (\<lambda>source.
     bind_result (read_at (groups p) source) (\<lambda>g.
     if group_protected g then Inl ProtectedGroupRetirement else
     bind_result (activeGroup p destinationID) (\<lambda>_.
     bind_result (update_at (groups p) source
       (\<lambda>g. g\<lparr>group_retired := True, group_merged := Some destinationID\<rparr>)) (\<lambda>gs.
     Inr (p\<lparr>groups := map (redirect_group sourceID destinationID) gs,
            categories := map (redirect_category_group sourceID destinationID) (categories p)\<rparr>))))))"

definition applyGroupMerge :: "profile \<Rightarrow> operation \<Rightarrow> apply_error + profile" where
  "applyGroupMerge p oper =
     bind_result (the_payload (op_merge oper)) (\<lambda>payload.
     applyGroupRetirement p oper (merge_source payload) (merge_destination payload))"

definition applyGroupDelete :: "profile \<Rightarrow> operation \<Rightarrow> apply_error + profile" where
  "applyGroupDelete p oper =
     bind_result (the_payload (op_delete oper)) (\<lambda>payload.
     applyGroupRetirement p oper (delete_source payload) (delete_replacement payload))"

subsection \<open>Transactions\<close>

definition toggle_hidden :: "transaction_record \<Rightarrow> transaction_record" where
  "toggle_hidden r = r\<lparr>record_hidden := \<not> record_hidden r\<rparr>"

definition applyHideToggle :: "profile \<Rightarrow> operation \<Rightarrow> apply_error + profile" where
  "applyHideToggle p oper =
     bind_result (targetTransactionIndexes p (op_targets oper)) (\<lambda>indexes.
     bind_result (update_positions toggle_hidden (transactions p) indexes) (\<lambda>ts.
     Inr (p\<lparr>transactions := ts\<rparr>)))"

definition deleteTransactionRecords :: "profile \<Rightarrow> entity_id list \<Rightarrow> apply_error + profile" where
  "deleteTransactionRecords p targets =
     (if length (transactions p) < length targets then Inl SliceCapacity
      else Inr (p\<lparr>transactions := filter (\<lambda>r. record_id r \<notin> set targets) (transactions p)\<rparr>))"

definition applyTransactionDelete :: "profile \<Rightarrow> operation \<Rightarrow> apply_error + profile" where
  "applyTransactionDelete p oper =
     bind_result (targetTransactionIndexes p (op_targets oper)) (\<lambda>_.
     deleteTransactionRecords p (op_targets oper))"

subsection \<open>Dispatch\<close>

definition dispatchOperation :: "profile \<Rightarrow> operation \<Rightarrow> apply_error + profile" where
  "dispatchOperation p oper =
     (case op_type oper of
        OperationMerchantLabel \<Rightarrow> applyMerchantLabel p oper
      | OperationMerchantMerge \<Rightarrow> applyMerchantMerge p oper
      | OperationMerchantReassign \<Rightarrow> applyMerchantReassign p oper
      | OperationCategoryAssign \<Rightarrow> applyCategoryAssign p oper
      | OperationCategoryCreate \<Rightarrow> applyCategoryCreate p oper
      | OperationCategoryLabel \<Rightarrow> applyCategoryLabel p oper
      | OperationCategoryMove \<Rightarrow> applyCategoryMove p oper
      | OperationCategoryMerge \<Rightarrow> applyCategoryMerge p oper
      | OperationCategoryDelete \<Rightarrow> applyCategoryDelete p oper
      | OperationGroupCreate \<Rightarrow> applyGroupCreate p oper
      | OperationGroupLabel \<Rightarrow> applyGroupLabel p oper
      | OperationGroupMerge \<Rightarrow> applyGroupMerge p oper
      | OperationGroupDelete \<Rightarrow> applyGroupDelete p oper
      | OperationTransactionHide \<Rightarrow> applyHideToggle p oper
      | OperationTransactionDelete \<Rightarrow> applyTransactionDelete p oper
      | OperationUnknown _ \<Rightarrow> Inl OperationUnsupported)"

text \<open>\<open>slices.SortFunc\<close> by identity; identities are unique, so any sort gives this slice.\<close>

definition sortCommittedProfile :: "profile \<Rightarrow> profile" where
  "sortCommittedProfile p =
     \<lparr>accounts = sort_key account_id (accounts p), merchants = sort_key merchant_id (merchants p),
      groups = sort_key group_id (groups p), categories = sort_key category_id (categories p),
      transactions = sort_key record_id (transactions p),
      identities = sort_key (\<lambda>i. [identity_namespace i, identity_external i]) (identities p)\<rparr>"

definition applyOperation ::
    "(string \<Rightarrow> string) \<Rightarrow> profile \<Rightarrow> operation \<Rightarrow> replay_error + profile" where
  "applyOperation casefold p oper =
     bind_result (map_error OperationInvalid (ValidateStored casefold oper)) (\<lambda>_.
     bind_result (map_error (ApplyFailed (op_type oper)) (dispatchOperation p oper)) (\<lambda>q.
     let sorted = sortCommittedProfile q in
     bind_result (map_error (ResultInvalid (op_type oper)) (ValidateProfile casefold sorted)) (\<lambda>_.
     Inr sorted)))"

definition ApplyOperation ::
    "(string \<Rightarrow> string) \<Rightarrow> profile \<Rightarrow> operation \<Rightarrow> replay_error + profile" where
  "ApplyOperation casefold committed oper =
     bind_result (map_error CommittedProfileInvalid (ValidateProfile casefold committed)) (\<lambda>_.
     applyOperation casefold committed oper)"

subsection \<open>The lookup interface\<close>

text \<open>
  Merchants, categories and groups are looked up by three pairs of functions with one contract:
  the index function returns the first row with the identity, the active function refuses a
  missing or retired row.  What the operations need of a lookup is proved once.
\<close>

locale entity_lookup =
  fixes rows :: "'p \<Rightarrow> 'a list"
    and ident :: "'a \<Rightarrow> entity_id"
    and retired :: "'a \<Rightarrow> bool"
    and index_of :: "'p \<Rightarrow> entity_id \<Rightarrow> nat option"
    and active_at :: "'p \<Rightarrow> entity_id \<Rightarrow> apply_error + nat"
  assumes index_of_Some: "index_of p k = Some i \<Longrightarrow>
      i < length (rows p) \<and> ident (rows p ! i) = k \<and> (\<forall>j<i. ident (rows p ! j) \<noteq> k)"
    and index_of_None: "index_of p k = None \<longleftrightarrow> (\<forall>x\<in>set (rows p). ident x \<noteq> k)"
    and active_at_Inr: "active_at p k = Inr i \<longleftrightarrow> index_of p k = Some i \<and> \<not> retired (rows p ! i)"
begin

lemma index_of_find_index: "index_of p k = find_index (\<lambda>x. ident x = k) (rows p)"
proof (cases "index_of p k")
  case None
  then have "find_index (\<lambda>x. ident x = k) (rows p) = None"
    unfolding find_index_None index_of_None by blast
  with None show ?thesis by simp
next
  case (Some i)
  then have "find_index (\<lambda>x. ident x = k) (rows p) = Some i"
    unfolding find_index_Some_iff by (blast dest: index_of_Some)
  with Some show ?thesis by simp
qed

lemma index_of_fresh: "index_of p k = None \<longleftrightarrow> k \<notin> ident ` set (rows p)"
  unfolding index_of_None by force

lemma active_at_has_active:
  "active_at p k = Inr i \<Longrightarrow> has_active ident retired (rows p) k"
  unfolding active_at_Inr has_active_def by (metis index_of_Some nth_mem)

lemma index_of_unique:
  assumes "distinct (map ident (rows p))" and "x \<in> set (rows p)" and "ident x = k"
  obtains i where "index_of p k = Some i" and "rows p ! i = x"
proof -
  from assms(2,3) have "index_of p k \<noteq> None" by (auto simp: index_of_None)
  then obtain i where i: "index_of p k = Some i" by auto
  with index_of_Some[OF i] assms have "rows p ! i = x"
    by (auto simp: distinct_map dest: inj_onD)
  with i that show ?thesis by blast
qed

lemma active_at_iff:
  assumes "distinct (map ident (rows p))"
  shows "(\<exists>i. active_at p k = Inr i) \<longleftrightarrow> has_active ident retired (rows p) k"
proof
  assume "has_active ident retired (rows p) k"
  then obtain x where x: "x \<in> set (rows p)" "ident x = k" "\<not> retired x"
    by (auto simp: has_active_def)
  from index_of_unique[OF assms x(1,2)] x(3) show "\<exists>i. active_at p k = Inr i"
    by (auto simp: active_at_Inr)
qed (auto dest: active_at_has_active)

lemma active_at_row:
  assumes "distinct (map ident (rows p))" and "active_at p k = Inr i"
  shows "P (rows p ! i) \<longleftrightarrow> (\<exists>x\<in>set (rows p). ident x = k \<and> P x)"
proof -
  from assms(2) have i: "index_of p k = Some i" by (simp add: active_at_Inr)
  have "x = rows p ! i" if "x \<in> set (rows p)" "ident x = k" for x
    using index_of_unique[OF assms(1) that] i by auto
  moreover have "rows p ! i \<in> set (rows p)" "ident (rows p ! i) = k"
    using index_of_Some[OF i] by auto
  ultimately show ?thesis by blast
qed

lemma active_at_update:
  assumes "distinct (map ident (rows p))" and "active_at p k = Inr i"
  shows "(rows p)[i := f (rows p ! i)] = map (\<lambda>x. if ident x = k then f x else x) (rows p)"
  using assms by (intro list_update_find_index) (auto simp: active_at_Inr index_of_find_index)

text \<open>The three ways in which the operations use a lookup.\<close>

lemma bind_active_check:
  assumes "distinct (map ident (rows p))"
  shows "bind_result (active_at p k) (\<lambda>_. r) = Inr q \<longleftrightarrow>
    has_active ident retired (rows p) k \<and> r = Inr q"
  by (auto simp: bind_result_Inr active_at_iff[OF assms, symmetric])

lemma active_at_bound: "active_at p k = Inr i \<Longrightarrow> i < length (rows p)"
  by (auto simp: active_at_Inr dest: index_of_Some)

lemma bind_active_open:
  assumes d: "distinct (map ident (rows p))"
  shows "bind_result (active_at p k) (\<lambda>i. bind_result (read_at (rows p) i) (\<lambda>x.
      if P x then Inl e
      else bind_result c (\<lambda>_. bind_result (update_at (rows p) i f) h))) = Inr q \<longleftrightarrow>
    has_active ident retired (rows p) k \<and> \<not> (\<exists>x\<in>set (rows p). ident x = k \<and> P x)
    \<and> (\<exists>u. c = Inr u) \<and> h (map (\<lambda>x. if ident x = k then f x else x) (rows p)) = Inr q"
proof (cases "has_active ident retired (rows p) k")
  case True
  then obtain i where i: "active_at p k = Inr i" by (auto simp: active_at_iff[OF d, symmetric])
  then show ?thesis
    using True active_at_bound[OF i]
    by (cases c) (simp_all add: active_at_update[OF d i] active_at_row[OF d i, of P, symmetric])
next
  case False
  then show ?thesis by (auto simp: bind_result_Inr active_at_iff[OF d, symmetric])
qed

lemma bind_active_update:
  assumes d: "distinct (map ident (rows p))"
  shows "bind_result (active_at p k) (\<lambda>i.
      bind_result c (\<lambda>_. bind_result (update_at (rows p) i f) h)) = Inr q \<longleftrightarrow>
    has_active ident retired (rows p) k
    \<and> (\<exists>u. c = Inr u) \<and> h (map (\<lambda>x. if ident x = k then f x else x) (rows p)) = Inr q"
proof (cases "has_active ident retired (rows p) k")
  case True
  then obtain i where i: "active_at p k = Inr i" by (auto simp: active_at_iff[OF d, symmetric])
  then show ?thesis
    using True active_at_bound[OF i] by (cases c) (simp_all add: active_at_update[OF d i])
next
  case False
  then show ?thesis by (auto simp: bind_result_Inr active_at_iff[OF d, symmetric])
qed

end

lemma find_index_table:
  "find_index (\<lambda>x. f x = k) xs = Some i \<Longrightarrow>
     i < length xs \<and> f (xs ! i) = k \<and> xs ! i \<in> set xs \<and> (\<forall>j<i. f (xs ! j) \<noteq> k)"
  by (simp add: find_index_Some_iff)

interpretation merchant_table:
  entity_lookup merchants merchant_id merchant_retired merchantIndex activeMerchant
  by unfold_locales
    (auto simp: merchantIndex_def activeMerchant_def find_index_None read_at_def
      dest: find_index_table split: option.splits if_splits)

interpretation category_table:
  entity_lookup categories category_id category_retired categoryIndex activeCategory
  by unfold_locales
    (auto simp: categoryIndex_def activeCategory_def find_index_None read_at_def
      dest: find_index_table split: option.splits if_splits)

interpretation group_table:
  entity_lookup groups group_id group_retired groupIndex activeGroup
  by unfold_locales
    (auto simp: groupIndex_def activeGroup_def find_index_None read_at_def
      dest: find_index_table split: option.splits if_splits)

subsection \<open>Positions of transactions\<close>

lemma transaction_positions_Some:
  assumes "distinct (map record_id ts)"
  shows "transaction_positions ts k = Some i \<longleftrightarrow> i < length ts \<and> record_id (ts ! i) = k"
proof -
  have "map (\<lambda>i. record_id (ts ! i)) [0..<length ts] = map record_id ts"
    by (rule nth_equalityI) simp_all
  with assms have "distinct (map (\<lambda>i. record_id (ts ! i)) [0..<length ts])" by simp
  from index_by_Some[OF this] show ?thesis
    by (simp add: transaction_positions_def)
qed

lemma transaction_positions_None:
  "transaction_positions ts k = None \<longleftrightarrow> k \<notin> record_id ` set ts"
  by (auto simp: transaction_positions_def index_by_None set_conv_nth image_iff)

lemma lookup_positions_Inr:
  "lookup_positions table targets = Inr positions \<longleftrightarrow>
     list_all2 (\<lambda>target i. table target = Some i) targets positions"
  unfolding lookup_positions_def map_result_Inr
  by (rule list.rel_cong) (auto split: option.splits)

lemma lookup_positions_ok:
  "(\<exists>positions. lookup_positions table targets = Inr positions) \<longleftrightarrow> set targets \<subseteq> dom table"
proof
  assume "set targets \<subseteq> dom table"
  then have "list_all2 (\<lambda>target i. table target = Some i) targets (map (the \<circ> table) targets)"
    by (auto simp: list.rel_map list_all2_same)
  then show "\<exists>positions. lookup_positions table targets = Inr positions"
    by (auto simp: lookup_positions_Inr)
qed (auto simp: lookup_positions_Inr list_all2_conv_all_nth in_set_conv_nth)

lemma update_positions_map:
  assumes "list_all2 (\<lambda>target i. i < length ts \<and> record_id (ts ! i) = target) targets positions"
    and "distinct (map record_id ts)" and "distinct targets"
    and "\<And>r. record_id (f r) = record_id r"
  shows "update_positions f ts positions =
    Inr (map (\<lambda>r. if record_id r \<in> set targets then f r else r) ts)"
  using assms
proof (induction targets arbitrary: ts positions)
  case Nil
  then show ?case by (simp add: update_positions_def)
next
  case (Cons target targets)
  from Cons.prems(1) obtain i positions' where pos: "positions = i # positions'"
      and i: "i < length ts" "record_id (ts ! i) = target"
      and rest: "list_all2 (\<lambda>target i. i < length ts \<and> record_id (ts ! i) = target) targets positions'"
    by (auto simp: list_all2_Cons1)
  define ts' where "ts' = ts[i := f (ts ! i)]"
  have ids: "map record_id ts' = map record_id ts"
    by (rule nth_equalityI) (auto simp: ts'_def nth_list_update i(1) Cons.prems(4))
  have len: "length ts' = length ts" by (simp add: ts'_def)
  have same: "record_id (ts' ! j) = record_id (ts ! j)" if "j < length ts" for j
    using that ids by (metis length_map nth_map ts'_def length_list_update)
  have "list_all2 (\<lambda>target i. i < length ts' \<and> record_id (ts' ! i) = target) targets positions'"
    using rest by (rule list_all2_mono) (simp add: same len)
  moreover have "distinct (map record_id ts')" using Cons.prems(2) ids by simp
  ultimately have IH: "update_positions f ts' positions' =
      Inr (map (\<lambda>r. if record_id r \<in> set targets then f r else r) ts')"
    using Cons.IH Cons.prems(3,4) by simp
  have "find_index (\<lambda>r. record_id r = target) ts = Some i"
    using i Cons.prems(2) by (auto simp: find_index_Some_iff distinct_conv_nth)
  from list_update_find_index[OF this Cons.prems(2)]
  have "ts' = map (\<lambda>r. if record_id r = target then f r else r) ts" by (simp add: ts'_def)
  then have "update_positions f ts' positions' =
      Inr (map (\<lambda>r. if record_id r \<in> set (target # targets) then f r else r) ts)"
    using IH Cons.prems(3,4) by auto
  then show ?case using i(1) by (simp add: pos ts'_def update_positions_def)
qed

lemma targetTransactionIndexes_ok:
  "(\<exists>is. targetTransactionIndexes p targets = Inr is) \<longleftrightarrow>
     set targets \<subseteq> record_id ` set (transactions p)"
proof -
  have "dom (transaction_positions (transactions p)) = record_id ` set (transactions p)"
    using transaction_positions_None by (auto simp: dom_def)
  then show ?thesis by (simp add: targetTransactionIndexes_def lookup_positions_ok)
qed

lemma targetTransactionIndexes_update:
  assumes "targetTransactionIndexes p targets = Inr positions"
    and "distinct (map record_id (transactions p))" and "distinct targets"
    and "\<And>r. record_id (f r) = record_id r"
  shows "update_positions f (transactions p) positions =
    Inr (map (\<lambda>r. if record_id r \<in> set targets then f r else r) (transactions p))"
proof (rule update_positions_map[OF _ assms(2-4)])
  show "list_all2 (\<lambda>target i. i < length (transactions p) \<and> record_id (transactions p ! i) = target)
      targets positions"
    using assms(1) unfolding targetTransactionIndexes_def lookup_positions_Inr
    by (rule list_all2_mono) (simp add: transaction_positions_Some[OF assms(2)])
qed

lemma map_result_Inl: "map_result f xs = Inl e \<Longrightarrow> \<exists>x\<in>set xs. f x = Inl e"
  by (induction xs) (auto simp: bind_result_Inl)

lemma targetTransactionIndexes_Inl:
  "targetTransactionIndexes p targets = Inl e \<Longrightarrow> e = TransactionTargetMissing"
  by (auto simp: targetTransactionIndexes_def lookup_positions_def dest!: map_result_Inl
      split: option.splits)

subsection \<open>The specification of the operations\<close>

definition on_targets ::
    "entity_id list \<Rightarrow> (transaction_record \<Rightarrow> transaction_record) \<Rightarrow> transaction_record list \<Rightarrow>
     transaction_record list" where
  "on_targets targets f ts = map (\<lambda>r. if record_id r \<in> set targets then f r else r) ts"

definition known_targets :: "profile \<Rightarrow> operation \<Rightarrow> bool" where
  "known_targets p oper \<longleftrightarrow> set (op_targets oper) \<subseteq> record_id ` set (transactions p)"

abbreviation active_merchant :: "profile \<Rightarrow> entity_id \<Rightarrow> bool" where
  "active_merchant p \<equiv> has_active merchant_id merchant_retired (merchants p)"

abbreviation active_category :: "profile \<Rightarrow> entity_id \<Rightarrow> bool" where
  "active_category p \<equiv> has_active category_id category_retired (categories p)"

abbreviation active_group :: "profile \<Rightarrow> entity_id \<Rightarrow> bool" where
  "active_group p \<equiv> has_active group_id group_retired (groups p)"

definition open_category :: "profile \<Rightarrow> entity_id \<Rightarrow> bool" where
  "open_category p k \<longleftrightarrow> active_category p k
     \<and> \<not> (\<exists>c\<in>set (categories p). category_id c = k \<and> category_protected c)"

definition open_group :: "profile \<Rightarrow> entity_id \<Rightarrow> bool" where
  "open_group p k \<longleftrightarrow> active_group p k
     \<and> \<not> (\<exists>g\<in>set (groups p). group_id g = k \<and> group_protected g)"

fun with_payload :: "'a option \<Rightarrow> ('a \<Rightarrow> bool) \<Rightarrow> bool" where
  "with_payload None P = False"
| "with_payload (Some x) P = P x"

definition op_guard :: "profile \<Rightarrow> operation \<Rightarrow> bool" where
  "op_guard p oper =
     (case op_type oper of
        OperationMerchantLabel \<Rightarrow>
          with_payload (op_label oper) (\<lambda>l. active_merchant p (label_entity l))
      | OperationMerchantMerge \<Rightarrow> with_payload (op_merge oper) (\<lambda>m.
          active_merchant p (merge_source m) \<and> active_merchant p (merge_destination m))
      | OperationMerchantReassign \<Rightarrow> with_payload (op_reassign oper) (\<lambda>r.
          (case reassign_created r of
             None \<Rightarrow> active_merchant p (reassign_destination r)
           | Some m \<Rightarrow> merchant_id m \<notin> merchant_id ` set (merchants p))
          \<and> known_targets p oper)
      | OperationCategoryAssign \<Rightarrow> with_payload (op_reassign oper) (\<lambda>r.
          active_category p (reassign_destination r) \<and> known_targets p oper)
      | OperationCategoryCreate \<Rightarrow> with_payload (op_create oper) (\<lambda>c.
          create_entity c \<notin> category_id ` set (categories p) \<and> active_group p (create_parent c)
          \<and> (op_targets oper = [create_entity c] \<or> known_targets p oper))
      | OperationCategoryLabel \<Rightarrow>
          with_payload (op_label oper) (\<lambda>l. open_category p (label_entity l))
      | OperationCategoryMove \<Rightarrow> with_payload (op_move oper) (\<lambda>m.
          open_category p (move_entity m) \<and> active_group p (move_destination m))
      | OperationCategoryMerge \<Rightarrow> with_payload (op_merge oper) (\<lambda>m.
          open_category p (merge_source m) \<and> active_category p (merge_destination m))
      | OperationCategoryDelete \<Rightarrow> with_payload (op_delete oper) (\<lambda>d.
          open_category p (delete_source d) \<and> active_category p (delete_replacement d))
      | OperationGroupCreate \<Rightarrow>
          with_payload (op_create oper) (\<lambda>c. create_entity c \<notin> group_id ` set (groups p))
      | OperationGroupLabel \<Rightarrow>
          with_payload (op_label oper) (\<lambda>l. open_group p (label_entity l))
      | OperationGroupMerge \<Rightarrow> with_payload (op_merge oper) (\<lambda>m.
          open_group p (merge_source m) \<and> active_group p (merge_destination m))
      | OperationGroupDelete \<Rightarrow> with_payload (op_delete oper) (\<lambda>d.
          open_group p (delete_source d) \<and> active_group p (delete_replacement d))
      | OperationTransactionHide \<Rightarrow> known_targets p oper
      | OperationTransactionDelete \<Rightarrow> known_targets p oper
      | OperationUnknown _ \<Rightarrow> False)"

definition label_merchants :: "label_payload \<Rightarrow> merchant list \<Rightarrow> merchant list" where
  "label_merchants l = map (\<lambda>m. if merchant_id m = label_entity l
     then m\<lparr>merchant_label := label_text l, merchant_key := label_collision l\<rparr> else m)"

definition retire_merchants :: "entity_id \<Rightarrow> entity_id \<Rightarrow> merchant list \<Rightarrow> merchant list" where
  "retire_merchants s d = map (\<lambda>m. redirect_merchant s d (if merchant_id m = s
     then m\<lparr>merchant_retired := True, merchant_merged := Some d\<rparr> else m))"

definition label_categories :: "label_payload \<Rightarrow> category list \<Rightarrow> category list" where
  "label_categories l = map (\<lambda>c. if category_id c = label_entity l
     then c\<lparr>category_label := label_text l, category_key := label_collision l\<rparr> else c)"

definition move_categories :: "move_payload \<Rightarrow> category list \<Rightarrow> category list" where
  "move_categories m = map (\<lambda>c. if category_id c = move_entity m
     then c\<lparr>category_group_id := move_destination m\<rparr> else c)"

definition retire_categories :: "entity_id \<Rightarrow> entity_id \<Rightarrow> category list \<Rightarrow> category list" where
  "retire_categories s d = map (\<lambda>c. redirect_category s d (if category_id c = s
     then c\<lparr>category_retired := True, category_merged := Some d\<rparr> else c))"

definition label_groups :: "label_payload \<Rightarrow> category_group list \<Rightarrow> category_group list" where
  "label_groups l = map (\<lambda>g. if group_id g = label_entity l
     then g\<lparr>group_label := label_text l, group_key := label_collision l\<rparr> else g)"

definition retire_groups :: "entity_id \<Rightarrow> entity_id \<Rightarrow> category_group list \<Rightarrow> category_group list" where
  "retire_groups s d = map (\<lambda>g. redirect_group s d (if group_id g = s
     then g\<lparr>group_retired := True, group_merged := Some d\<rparr> else g))"

definition merge_merchants_effect :: "entity_id \<Rightarrow> entity_id \<Rightarrow> profile \<Rightarrow> profile" where
  "merge_merchants_effect s d p = p\<lparr>merchants := retire_merchants s d (merchants p),
     transactions := map (redirect_record_merchant s d) (transactions p)\<rparr>"

definition merge_categories_effect :: "entity_id \<Rightarrow> entity_id \<Rightarrow> profile \<Rightarrow> profile" where
  "merge_categories_effect s d p = p\<lparr>categories := retire_categories s d (categories p),
     transactions := map (redirect_record_category s d) (transactions p)\<rparr>"

definition merge_groups_effect :: "entity_id \<Rightarrow> entity_id \<Rightarrow> profile \<Rightarrow> profile" where
  "merge_groups_effect s d p = p\<lparr>groups := retire_groups s d (groups p),
     categories := map (redirect_category_group s d) (categories p)\<rparr>"

fun on_payload :: "'a option \<Rightarrow> ('a \<Rightarrow> profile \<Rightarrow> profile) \<Rightarrow> profile \<Rightarrow> profile" where
  "on_payload None f p = p"
| "on_payload (Some x) f p = f x p"

definition op_effect :: "operation \<Rightarrow> profile \<Rightarrow> profile" where
  "op_effect oper =
     (case op_type oper of
        OperationMerchantLabel \<Rightarrow> on_payload (op_label oper) (\<lambda>l p.
          p\<lparr>merchants := label_merchants l (merchants p)\<rparr>)
      | OperationMerchantMerge \<Rightarrow> on_payload (op_merge oper) (\<lambda>m.
          merge_merchants_effect (merge_source m) (merge_destination m))
      | OperationMerchantReassign \<Rightarrow> on_payload (op_reassign oper) (\<lambda>r p.
          p\<lparr>merchants := merchants p @ (case reassign_created r of None \<Rightarrow> [] | Some m \<Rightarrow> [m]),
            transactions := on_targets (op_targets oper)
              (\<lambda>t. t\<lparr>record_merchant := reassign_destination r\<rparr>) (transactions p)\<rparr>)
      | OperationCategoryAssign \<Rightarrow> on_payload (op_reassign oper) (\<lambda>r p.
          p\<lparr>transactions := on_targets (op_targets oper)
              (\<lambda>t. t\<lparr>record_category := reassign_destination r\<rparr>) (transactions p)\<rparr>)
      | OperationCategoryCreate \<Rightarrow> on_payload (op_create oper) (\<lambda>c p.
          p\<lparr>categories := categories p @ [created_category c],
            transactions := on_targets (if op_targets oper = [create_entity c] then [] else op_targets oper)
              (\<lambda>t. t\<lparr>record_category := create_entity c\<rparr>) (transactions p)\<rparr>)
      | OperationCategoryLabel \<Rightarrow> on_payload (op_label oper) (\<lambda>l p.
          p\<lparr>categories := label_categories l (categories p)\<rparr>)
      | OperationCategoryMove \<Rightarrow> on_payload (op_move oper) (\<lambda>m p.
          p\<lparr>categories := move_categories m (categories p)\<rparr>)
      | OperationCategoryMerge \<Rightarrow> on_payload (op_merge oper) (\<lambda>m.
          merge_categories_effect (merge_source m) (merge_destination m))
      | OperationCategoryDelete \<Rightarrow> on_payload (op_delete oper) (\<lambda>d.
          merge_categories_effect (delete_source d) (delete_replacement d))
      | OperationGroupCreate \<Rightarrow> on_payload (op_create oper) (\<lambda>c p.
          p\<lparr>groups := groups p @ [created_group c]\<rparr>)
      | OperationGroupLabel \<Rightarrow> on_payload (op_label oper) (\<lambda>l p.
          p\<lparr>groups := label_groups l (groups p)\<rparr>)
      | OperationGroupMerge \<Rightarrow> on_payload (op_merge oper) (\<lambda>m.
          merge_groups_effect (merge_source m) (merge_destination m))
      | OperationGroupDelete \<Rightarrow> on_payload (op_delete oper) (\<lambda>d.
          merge_groups_effect (delete_source d) (delete_replacement d))
      | OperationTransactionHide \<Rightarrow> (\<lambda>p.
          p\<lparr>transactions := on_targets (op_targets oper) toggle_hidden (transactions p)\<rparr>)
      | OperationTransactionDelete \<Rightarrow> (\<lambda>p.
          p\<lparr>transactions := filter (\<lambda>r. record_id r \<notin> set (op_targets oper)) (transactions p)\<rparr>)
      | OperationUnknown _ \<Rightarrow> (\<lambda>p. p))"

text \<open>What the lookups need of a profile, and what validity of the operation gives.\<close>

definition tables_distinct :: "profile \<Rightarrow> bool" where
  "tables_distinct p \<longleftrightarrow>
     distinct (map merchant_id (merchants p)) \<and> distinct (map group_id (groups p))
     \<and> distinct (map category_id (categories p)) \<and> distinct (map record_id (transactions p))"

lemma requireOnlyTarget_Inr: "requireOnlyTarget oper e = Inr u \<longleftrightarrow> op_targets oper = [e]"
  by (simp add: requireOnlyTarget_def)

lemma the_payload_Inr: "the_payload x = Inr y \<longleftrightarrow> x = Some y"
  by (simp add: the_payload_def split: option.split)

lemma with_payload_iff: "with_payload x P \<longleftrightarrow> (\<exists>y. x = Some y \<and> P y)"
  by (cases x) auto

lemma bind_targets:
  assumes "distinct (map record_id (transactions p))" and "distinct targets"
    and "\<And>r. record_id (f r) = record_id r"
  shows "bind_result (targetTransactionIndexes p targets)
      (\<lambda>is. bind_result (update_positions f (transactions p) is) (\<lambda>ts. Inr (g ts))) = Inr q \<longleftrightarrow>
    set targets \<subseteq> record_id ` set (transactions p) \<and> q = g (on_targets targets f (transactions p))"
proof -
  have "update_positions f (transactions p) is = Inr (on_targets targets f (transactions p))"
    if "targetTransactionIndexes p targets = Inr is" for "is"
    unfolding on_targets_def using that assms by (rule targetTransactionIndexes_update)
  then show ?thesis
    unfolding bind_result_Inr targetTransactionIndexes_ok[of p targets, symmetric] by fastforce
qed

lemma applyMerchantLabel_spec:
  assumes "tables_distinct p" and "op_type oper = OperationMerchantLabel"
    and "op_label oper = Some l" and "op_targets oper = [label_entity l]"
  shows "applyMerchantLabel p oper = Inr q \<longleftrightarrow> op_guard p oper \<and> q = op_effect oper p"
proof -
  from assms(1) have d: "distinct (map merchant_id (merchants p))" by (simp add: tables_distinct_def)
  from merchant_table.bind_active_update[OF d, where c = "Inr ()" and
        h = "\<lambda>ms. Inr (p\<lparr>merchants := ms\<rparr>)" and f = "\<lambda>m. m\<lparr>merchant_label := label_text l, merchant_key := label_collision l\<rparr>"
        and k = "label_entity l" and q = q]
  show ?thesis
    using assms(2-4) by (auto simp: applyMerchantLabel_def the_payload_def requireOnlyTarget_def
        op_guard_def op_effect_def label_merchants_def)
qed

lemma applyMerchantMerge_spec:
  assumes "tables_distinct p" and "op_type oper = OperationMerchantMerge"
    and "op_merge oper = Some m" and "op_targets oper = [merge_source m]"
  shows "applyMerchantMerge p oper = Inr q \<longleftrightarrow> op_guard p oper \<and> q = op_effect oper p"
proof -
  from assms(1) have d: "distinct (map merchant_id (merchants p))" by (simp add: tables_distinct_def)
  let ?s = "merge_source m" and ?d = "merge_destination m"
  let ?out = "\<lambda>ms. p\<lparr>merchants := map (redirect_merchant ?s ?d) ms,
      transactions := map (redirect_record_merchant ?s ?d) (transactions p)\<rparr>"
  have "applyMerchantMerge p oper = bind_result (activeMerchant p ?s) (\<lambda>i.
      bind_result (activeMerchant p ?d) (\<lambda>_. bind_result (update_at (merchants p) i
        (\<lambda>m. m\<lparr>merchant_retired := True, merchant_merged := Some ?d\<rparr>)) (\<lambda>ms. Inr (?out ms))))"
    using assms(3,4) by (simp add: applyMerchantMerge_def the_payload_def requireOnlyTarget_def)
  also have "\<dots> = Inr q \<longleftrightarrow> active_merchant p ?s \<and> active_merchant p ?d
      \<and> q = ?out (map (\<lambda>x. if merchant_id x = ?s
          then x\<lparr>merchant_retired := True, merchant_merged := Some ?d\<rparr> else x) (merchants p))"
    by (auto simp: merchant_table.bind_active_update[OF d] merchant_table.active_at_iff[OF d])
  finally show ?thesis
    using assms(2,3) by (simp add: op_guard_def op_effect_def merge_merchants_effect_def
        retire_merchants_def comp_def)
qed

lemma applyMerchantReassign_spec:
  assumes "tables_distinct p" and "op_type oper = OperationMerchantReassign"
    and "op_reassign oper = Some r" and "distinct (op_targets oper)"
    and created: "\<And>m. reassign_created r = Some m \<Longrightarrow>
      merchant_id m = reassign_destination r \<and> \<not> merchant_retired m"
  shows "applyMerchantReassign p oper = Inr q \<longleftrightarrow> op_guard p oper \<and> q = op_effect oper p"
proof -
  let ?f = "\<lambda>t. t\<lparr>record_merchant := reassign_destination r\<rparr>"
  have step: "bind_result (activeMerchant p' (reassign_destination r)) (\<lambda>_.
      bind_result (targetTransactionIndexes p' (op_targets oper)) (\<lambda>is.
      bind_result (update_positions ?f (transactions p') is) (\<lambda>ts.
      Inr (p'\<lparr>transactions := ts\<rparr>)))) = Inr q \<longleftrightarrow>
      active_merchant p' (reassign_destination r) \<and> known_targets p' oper
      \<and> q = p'\<lparr>transactions := on_targets (op_targets oper) ?f (transactions p')\<rparr>"
    if "distinct (map merchant_id (merchants p'))" "distinct (map record_id (transactions p'))"
    for p' :: profile
    using bind_targets[OF that(2) assms(4), where f = ?f and q = q and
        g = "\<lambda>ts. p'\<lparr>transactions := ts\<rparr>"]
    by (simp add: merchant_table.bind_active_check[OF that(1)] known_targets_def)
  show ?thesis
  proof (cases "reassign_created r")
    case None
    then show ?thesis
      using assms(1-3) step[of p]
      by (auto simp: applyMerchantReassign_def the_payload_def add_created_merchant_def
          tables_distinct_def op_guard_def op_effect_def)
  next
    case (Some m)
    note m = created[OF Some]
    show ?thesis
    proof (cases "merchant_id m \<in> merchant_id ` set (merchants p)")
      case True
      then have "merchantIndex p (merchant_id m) \<noteq> None" by (simp add: merchant_table.index_of_fresh)
      then have "\<not> applyMerchantReassign p oper = Inr q"
        using assms(3) Some by (simp add: applyMerchantReassign_def the_payload_def
            add_created_merchant_def)
      with True Some assms(2,3) show ?thesis by (simp add: op_guard_def)
    next
      case False
      then have none: "merchantIndex p (merchant_id m) = None"
        by (simp add: merchant_table.index_of_fresh)
      have "active_merchant (p\<lparr>merchants := merchants p @ [m]\<rparr>) (reassign_destination r)"
        using m by (simp add: has_active_def)
      moreover have "distinct (map merchant_id (merchants p @ [m]))"
        using False assms(1) by (simp add: tables_distinct_def)
      ultimately show ?thesis
        using assms(1-3) Some False none step[of "p\<lparr>merchants := merchants p @ [m]\<rparr>"]
        by (auto simp: applyMerchantReassign_def the_payload_def add_created_merchant_def
            tables_distinct_def op_guard_def op_effect_def known_targets_def)
    qed
  qed
qed

lemma applyCategoryAssign_spec:
  assumes "tables_distinct p" and "op_type oper = OperationCategoryAssign"
    and "op_reassign oper = Some r" and "distinct (op_targets oper)"
  shows "applyCategoryAssign p oper = Inr q \<longleftrightarrow> op_guard p oper \<and> q = op_effect oper p"
proof -
  from assms(1) have d: "distinct (map category_id (categories p))"
      "distinct (map record_id (transactions p))" by (simp_all add: tables_distinct_def)
  show ?thesis
    using assms(2,3) bind_targets[OF d(2) assms(4), where q = q and
        f = "\<lambda>t. t\<lparr>record_category := reassign_destination r\<rparr>" and
        g = "\<lambda>ts. p\<lparr>transactions := ts\<rparr>"]
    by (simp add: applyCategoryAssign_def the_payload_def category_table.bind_active_check[OF d(1)]
        known_targets_def op_guard_def op_effect_def)
qed

lemma applyCategoryCreate_spec:
  assumes "tables_distinct p" and "op_type oper = OperationCategoryCreate"
    and "op_create oper = Some c" and "distinct (op_targets oper)"
  shows "applyCategoryCreate p oper = Inr q \<longleftrightarrow> op_guard p oper \<and> q = op_effect oper p"
proof -
  from assms(1) have d: "distinct (map group_id (groups p))"
      "distinct (map record_id (transactions p))" by (simp_all add: tables_distinct_def)
  let ?q = "p\<lparr>categories := categories p @ [created_category c]\<rparr>"
  have some: "categoryIndex p (create_entity c) = None \<longleftrightarrow>
      create_entity c \<notin> category_id ` set (categories p)"
    by (rule category_table.index_of_fresh)
  have "applyCategoryCreate p oper = Inr q \<longleftrightarrow> create_entity c \<notin> category_id ` set (categories p)
      \<and> active_group p (create_parent c)
      \<and> (if op_targets oper = [create_entity c] then Inr ?q else
          bind_result (targetTransactionIndexes ?q (op_targets oper)) (\<lambda>is.
          bind_result (update_positions (\<lambda>t. t\<lparr>record_category := create_entity c\<rparr>)
            (transactions ?q) is) (\<lambda>ts. Inr (?q\<lparr>transactions := ts\<rparr>)))) = Inr q"
    unfolding applyCategoryCreate_def only_target_eq some Let_def assms(3) the_payload_def
      option.case bind_result_simps if_result_Inr group_table.bind_active_check[OF d(1)]
      not_not by (rule refl)
  also have "\<dots> \<longleftrightarrow> op_guard p oper \<and> q = op_effect oper p"
  proof (cases "op_targets oper = [create_entity c]")
    case True
    have "p\<lparr>categories := categories p @ [created_category c], transactions := transactions p\<rparr> = ?q"
      by (cases p) simp
    then show ?thesis
      using True assms(2,3) by (auto simp: op_guard_def op_effect_def on_targets_def)
  next
    case False
    then show ?thesis
      using assms(2,3) bind_targets[of ?q, OF _ assms(4), where q = q and
        f = "\<lambda>t. t\<lparr>record_category := create_entity c\<rparr>" and
        g = "\<lambda>ts. ?q\<lparr>transactions := ts\<rparr>"] d(2)
      by (simp add: op_guard_def op_effect_def known_targets_def)
  qed
  finally show ?thesis .
qed

lemma applyCategoryLabel_spec:
  assumes "tables_distinct p" and "op_type oper = OperationCategoryLabel"
    and "op_label oper = Some l" and "op_targets oper = [label_entity l]"
  shows "applyCategoryLabel p oper = Inr q \<longleftrightarrow> op_guard p oper \<and> q = op_effect oper p"
proof -
  from assms(1) have d: "distinct (map category_id (categories p))" by (simp add: tables_distinct_def)
  from category_table.bind_active_open[OF d, where c = "Inr ()" and
        h = "\<lambda>cs. Inr (p\<lparr>categories := cs\<rparr>)" and f = "\<lambda>c. c\<lparr>category_label := label_text l, category_key := label_collision l\<rparr>"
        and k = "label_entity l" and q = q and P = category_protected
        and e = ProtectedCategoryRelabeled, unfolded bind_result_simps]
  show ?thesis
    using assms(2-4) by (auto simp: applyCategoryLabel_def the_payload_def requireOnlyTarget_def
        op_guard_def op_effect_def label_categories_def open_category_def)
qed

lemma applyCategoryMove_spec:
  assumes "tables_distinct p" and "op_type oper = OperationCategoryMove"
    and "op_move oper = Some m" and "op_targets oper = [move_entity m]"
  shows "applyCategoryMove p oper = Inr q \<longleftrightarrow> op_guard p oper \<and> q = op_effect oper p"
proof -
  from assms(1) have d: "distinct (map category_id (categories p))" "distinct (map group_id (groups p))"
    by (simp_all add: tables_distinct_def)
  from category_table.bind_active_open[OF d(1),
        where c = "activeGroup p (move_destination m)" and h = "\<lambda>cs. Inr (p\<lparr>categories := cs\<rparr>)"
        and f = "\<lambda>c. c\<lparr>category_group_id := move_destination m\<rparr>"
        and k = "move_entity m" and q = q and P = category_protected and e = ProtectedCategoryMoved]
  show ?thesis
    using assms(2-4) by (auto simp: applyCategoryMove_def the_payload_def requireOnlyTarget_def
        op_guard_def op_effect_def move_categories_def open_category_def
        group_table.active_at_iff[OF d(2)])
qed

lemma retireCategory_spec:
  assumes "distinct (map category_id (categories p))"
  shows "bind_result (activeCategory p s) (\<lambda>i. bind_result (read_at (categories p) i) (\<lambda>c.
      if category_protected c then Inl e else
      bind_result (activeCategory p d) (\<lambda>_. retireCategory p i s d))) = Inr q \<longleftrightarrow>
    open_category p s \<and> active_category p d \<and> q = merge_categories_effect s d p"
proof -
  from category_table.bind_active_open[OF assms,
        where c = "activeCategory p d" and h = "\<lambda>cs. Inr (p\<lparr>
          categories := map (redirect_category s d) cs,
          transactions := map (redirect_record_category s d) (transactions p)\<rparr>)"
        and f = "\<lambda>c. c\<lparr>category_retired := True, category_merged := Some d\<rparr>"
        and k = s and q = q and P = category_protected and e = e]
  show ?thesis
    unfolding retireCategory_def
    by (auto simp: merge_categories_effect_def retire_categories_def comp_def
        open_category_def category_table.active_at_iff[OF assms])
qed

lemma applyCategoryMerge_spec:
  assumes "tables_distinct p" and "op_type oper = OperationCategoryMerge"
    and "op_merge oper = Some m" and "op_targets oper = [merge_source m]"
  shows "applyCategoryMerge p oper = Inr q \<longleftrightarrow> op_guard p oper \<and> q = op_effect oper p"
  using assms by (auto simp: applyCategoryMerge_def the_payload_def requireOnlyTarget_def
      op_guard_def op_effect_def retireCategory_spec tables_distinct_def)

lemma applyCategoryDelete_spec:
  assumes "tables_distinct p" and "op_type oper = OperationCategoryDelete"
    and "op_delete oper = Some m" and "op_targets oper = [delete_source m]"
  shows "applyCategoryDelete p oper = Inr q \<longleftrightarrow> op_guard p oper \<and> q = op_effect oper p"
  using assms by (auto simp: applyCategoryDelete_def the_payload_def requireOnlyTarget_def
      op_guard_def op_effect_def retireCategory_spec tables_distinct_def)

lemma applyGroupCreate_spec:
  assumes "op_type oper = OperationGroupCreate"
    and "op_create oper = Some c" and "op_targets oper = [create_entity c]"
  shows "applyGroupCreate p oper = Inr q \<longleftrightarrow> op_guard p oper \<and> q = op_effect oper p"
proof -
  have "groupIndex p (create_entity c) = None \<longleftrightarrow> create_entity c \<notin> group_id ` set (groups p)"
    by (rule group_table.index_of_fresh)
  with assms show ?thesis
    by (auto simp: applyGroupCreate_def the_payload_def requireOnlyTarget_def op_guard_def op_effect_def)
qed

lemma applyGroupLabel_spec:
  assumes "tables_distinct p" and "op_type oper = OperationGroupLabel"
    and "op_label oper = Some l" and "op_targets oper = [label_entity l]"
  shows "applyGroupLabel p oper = Inr q \<longleftrightarrow> op_guard p oper \<and> q = op_effect oper p"
proof -
  from assms(1) have d: "distinct (map group_id (groups p))" by (simp add: tables_distinct_def)
  from group_table.bind_active_open[OF d, where c = "Inr ()" and
        h = "\<lambda>gs. Inr (p\<lparr>groups := gs\<rparr>)" and f = "\<lambda>g. g\<lparr>group_label := label_text l, group_key := label_collision l\<rparr>"
        and k = "label_entity l" and q = q and P = group_protected and e = ProtectedGroupRelabeled,
        unfolded bind_result_simps]
  show ?thesis
    using assms(2-4) by (auto simp: applyGroupLabel_def the_payload_def requireOnlyTarget_def
        op_guard_def op_effect_def label_groups_def open_group_def)
qed

lemma applyGroupRetirement_spec:
  assumes "tables_distinct p" and "op_targets oper = [s]"
  shows "applyGroupRetirement p oper s d = Inr q \<longleftrightarrow>
    open_group p s \<and> active_group p d \<and> q = merge_groups_effect s d p"
proof -
  from assms(1) have dist: "distinct (map group_id (groups p))" by (simp add: tables_distinct_def)
  from group_table.bind_active_open[OF dist,
        where c = "activeGroup p d" and h = "\<lambda>gs. Inr (p\<lparr>
          groups := map (redirect_group s d) gs,
          categories := map (redirect_category_group s d) (categories p)\<rparr>)"
        and f = "\<lambda>g. g\<lparr>group_retired := True, group_merged := Some d\<rparr>"
        and k = s and q = q and P = group_protected and e = ProtectedGroupRetirement]
  show ?thesis
    using assms(2) by (auto simp: applyGroupRetirement_def merge_groups_effect_def retire_groups_def
        comp_def open_group_def requireOnlyTarget_def group_table.active_at_iff[OF dist])
qed

lemma applyGroupMerge_spec:
  assumes "tables_distinct p" and "op_type oper = OperationGroupMerge"
    and "op_merge oper = Some m" and "op_targets oper = [merge_source m]"
  shows "applyGroupMerge p oper = Inr q \<longleftrightarrow> op_guard p oper \<and> q = op_effect oper p"
  using assms by (auto simp: applyGroupMerge_def the_payload_def op_guard_def op_effect_def
      applyGroupRetirement_spec)

lemma applyGroupDelete_spec:
  assumes "tables_distinct p" and "op_type oper = OperationGroupDelete"
    and "op_delete oper = Some m" and "op_targets oper = [delete_source m]"
  shows "applyGroupDelete p oper = Inr q \<longleftrightarrow> op_guard p oper \<and> q = op_effect oper p"
  using assms by (auto simp: applyGroupDelete_def the_payload_def op_guard_def op_effect_def
      applyGroupRetirement_spec)

lemma applyHideToggle_spec:
  assumes "tables_distinct p" and "op_type oper = OperationTransactionHide"
    and "distinct (op_targets oper)"
  shows "applyHideToggle p oper = Inr q \<longleftrightarrow> op_guard p oper \<and> q = op_effect oper p"
  using assms bind_targets[of p "op_targets oper" toggle_hidden "\<lambda>ts. p\<lparr>transactions := ts\<rparr>" q]
  by (simp add: applyHideToggle_def op_guard_def op_effect_def known_targets_def tables_distinct_def
      toggle_hidden_def)

lemma known_targets_length:
  assumes "set targets \<subseteq> record_id ` set ts" and "distinct targets"
  shows "length targets \<le> length ts"
proof -
  have "length targets = card (set targets)" using assms(2) by (simp add: distinct_card)
  also have "\<dots> \<le> card (record_id ` set ts)" using assms(1) by (simp add: card_mono)
  also have "\<dots> \<le> length ts" by (metis card_image_le card_length finite_set le_trans)
  finally show ?thesis .
qed

lemma applyTransactionDelete_eq:
  assumes "distinct (op_targets oper)"
  shows "applyTransactionDelete p oper =
    (if known_targets p oper
     then Inr (p\<lparr>transactions := filter (\<lambda>r. record_id r \<notin> set (op_targets oper)) (transactions p)\<rparr>)
     else Inl TransactionTargetMissing)"
proof (cases "targetTransactionIndexes p (op_targets oper)")
  case (Inl e)
  then have "\<not> known_targets p oper"
    using targetTransactionIndexes_ok[of p "op_targets oper"] by (simp add: known_targets_def)
  then show ?thesis
    using Inl targetTransactionIndexes_Inl[OF Inl] by (simp add: applyTransactionDelete_def)
next
  case (Inr positions)
  then have k: "known_targets p oper"
    using targetTransactionIndexes_ok[of p "op_targets oper"] by (auto simp: known_targets_def)
  then show ?thesis
    using Inr known_targets_length[OF _ assms, of "transactions p"]
    by (simp add: applyTransactionDelete_def deleteTransactionRecords_def known_targets_def)
qed

lemma applyTransactionDelete_spec:
  assumes "op_type oper = OperationTransactionDelete" and "distinct (op_targets oper)"
  shows "applyTransactionDelete p oper = Inr q \<longleftrightarrow> op_guard p oper \<and> q = op_effect oper p"
  using assms(1) by (auto simp: applyTransactionDelete_eq[OF assms(2)] op_guard_def op_effect_def)

lemma dispatchOperation_spec:
  assumes "tables_distinct p" and "ValidateStored casefold oper = Inr ()"
  shows "dispatchOperation p oper = Inr q \<longleftrightarrow> op_guard p oper \<and> q = op_effect oper p"
proof -
  note valid = ValidateStored_payload[OF assms(2), unfolded validatePayload_def]
  from ValidateStored_targets[OF assms(2)] have d: "distinct (op_targets oper)" by simp
  show ?thesis
  proof (cases "op_type oper")
    case OperationMerchantReassign
    with valid obtain r where r: "op_reassign oper = Some r" and
        created: "\<And>m. reassign_created r = Some m \<Longrightarrow>
          merchant_id m = reassign_destination r \<and> \<not> merchant_retired m"
      by (auto simp: validateReassignOperation_Inr)
    from applyMerchantReassign_spec[OF assms(1) OperationMerchantReassign r d created]
    show ?thesis by (simp add: dispatchOperation_def OperationMerchantReassign)
  qed (use assms(1) valid d in \<open>auto simp: dispatchOperation_def validate_operation_Inr
      applyMerchantLabel_spec applyMerchantMerge_spec applyCategoryAssign_spec
      applyCategoryCreate_spec applyCategoryLabel_spec applyCategoryMove_spec
      applyCategoryMerge_spec applyCategoryDelete_spec applyGroupCreate_spec applyGroupLabel_spec
      applyGroupMerge_spec applyGroupDelete_spec applyHideToggle_spec applyTransactionDelete_spec\<close>)
qed

subsection \<open>Sorting keeps the rows\<close>

lemma sortCommittedProfile_same_rows: "same_rows (sortCommittedProfile p) p"
  by (simp add: same_rows_def sortCommittedProfile_def)

lemma profile_wf_sort [simp]:
  "profile_wf casefold (sortCommittedProfile p) \<longleftrightarrow> profile_wf casefold p"
  by (rule profile_wf_same_rows[OF sortCommittedProfile_same_rows])

lemma profile_wf_tables_distinct: "profile_wf casefold p \<Longrightarrow> tables_distinct p"
  using profile_wf_distinct[of casefold p] by (simp add: tables_distinct_def)

lemma profile_wf_identities_distinct:
  "profile_wf casefold p \<Longrightarrow>
     distinct (map (\<lambda>i. [identity_namespace i, identity_external i]) (identities p))"
  by (auto simp: profile_wf_def identities_wf_def distinct_map inj_on_def)

text \<open>Profiles with the same rows and unique keys sort to the same profile.\<close>

lemma sortCommittedProfile_eq:
  assumes "same_rows p q" and "profile_wf casefold p"
  shows "sortCommittedProfile p = sortCommittedProfile q"
  using assms(1) profile_wf_distinct[OF assms(2)] profile_wf_identities_distinct[OF assms(2)]
  unfolding sortCommittedProfile_def same_rows_def
  by (intro profile.equality) (simp_all add: sort_key_unique)

lemma applyOperation_Inr:
  assumes "tables_distinct p"
  shows "applyOperation casefold p oper = Inr q \<longleftrightarrow> ValidateStored casefold oper = Inr ()
    \<and> op_guard p oper \<and> q = sortCommittedProfile (op_effect oper p) \<and> profile_wf casefold q"
  by (auto simp: applyOperation_def bind_result_Inr Let_def ValidateProfile_Inr
      dispatchOperation_spec[OF assms])

lemma ApplyOperation_Inr:
  "ApplyOperation casefold p oper = Inr q \<longleftrightarrow> profile_wf casefold p
    \<and> ValidateStored casefold oper = Inr () \<and> op_guard p oper
    \<and> q = sortCommittedProfile (op_effect oper p) \<and> profile_wf casefold q"
  by (auto simp: ApplyOperation_def bind_result_Inr ValidateProfile_Inr
      applyOperation_Inr[OF profile_wf_tables_distinct])

lemma add_created_merchant_Inl:
  "add_created_merchant p created = Inl e \<Longrightarrow> e = CreatedMerchantExists"
  by (auto simp: add_created_merchant_def split: option.splits if_splits)

lemma active_Inl:
  "activeMerchant p k = Inl e \<Longrightarrow> e = MerchantMissing"
  "activeCategory p k = Inl e \<Longrightarrow> e = CategoryMissing"
  "activeGroup p k = Inl e \<Longrightarrow> e = GroupMissing"
  by (auto simp: activeMerchant_def merchantIndex_def activeCategory_def categoryIndex_def
      activeGroup_def groupIndex_def find_index_Some_iff bind_result_Inl
      split: option.splits if_splits)

lemma update_positions_bounds:
  "list_all (\<lambda>i. i < length ts) positions \<Longrightarrow> \<exists>ts'. update_positions f ts positions = Inr ts'"
  unfolding update_positions_def by (induction positions arbitrary: ts) auto

lemma transaction_positions_bound: "transaction_positions ts k = Some i \<Longrightarrow> i < length ts"
  unfolding transaction_positions_def by (drule index_by_Some_imp) simp

lemma targetTransactionIndexes_bounds:
  "targetTransactionIndexes p targets = Inr positions \<Longrightarrow>
     list_all (\<lambda>i. i < length (transactions p)) positions"
  unfolding targetTransactionIndexes_def lookup_positions_Inr list_all_length list_all2_conv_all_nth
  by (auto dest: transaction_positions_bound)

text \<open>A loop over the positions of known targets stays inside the slice.\<close>

lemma positions_no_panic:
  "targetTransactionIndexes p targets = Inr positions \<Longrightarrow> update_positions f ts positions = Inl e \<Longrightarrow>
     ts \<noteq> transactions p"
  using update_positions_bounds[OF targetTransactionIndexes_bounds, of p targets positions f] by auto

definition panic_errors :: "apply_error list" where
  "panic_errors = [NilPayload, IndexOutOfRange, SliceCapacity, TargetNotPayload, OperationUnsupported]"

lemma dispatchOperation_no_panic:
  assumes "ValidateStored casefold oper = Inr ()" and "dispatchOperation p oper = Inl e"
  shows "e \<notin> set panic_errors"
proof -
  note valid = ValidateStored_payload[OF assms(1), unfolded validatePayload_def]
  from ValidateStored_targets[OF assms(1)] have d: "distinct (op_targets oper)" by simp
  have if_Inl: "(if b then Inl x else r) = Inl e \<longleftrightarrow> b \<and> e = x \<or> \<not> b \<and> r = Inl e"
    for b x and r :: "apply_error + 'b" by auto
  show ?thesis
    using assms(2) valid d
    by (cases "op_type oper") (auto simp: dispatchOperation_def validate_operation_Inr
        applyMerchantLabel_def applyMerchantMerge_def applyMerchantReassign_def
        applyCategoryAssign_def applyCategoryCreate_def applyCategoryLabel_def
        applyCategoryMove_def applyCategoryMerge_def applyCategoryDelete_def retireCategory_def
        applyGroupCreate_def applyGroupLabel_def applyGroupMerge_def applyGroupDelete_def
        applyGroupRetirement_def applyHideToggle_def applyTransactionDelete_eq the_payload_def
        requireOnlyTarget_def bind_result_Inl if_Inl Let_def panic_errors_def
        dest!: active_Inl targetTransactionIndexes_Inl add_created_merchant_Inl
        dest: merchant_table.active_at_bound category_table.active_at_bound
          group_table.active_at_bound positions_no_panic
        split: if_splits)
qed

subsection \<open>Properties\<close>

text \<open>
  C4. \<open>ApplyOperation\<close> refines the specification of the operations: it returns a profile exactly
  when the committed profile is valid, the stored operation is valid, the operation's guard holds
  on the tables and the resulting profile is valid, and then the result is the sorted effect of
  the operation on the tables.
\<close>

theorem ApplyOperation_refines:
  "ApplyOperation casefold p oper = Inr q \<longleftrightarrow> profile_wf casefold p
    \<and> ValidateStored casefold oper = Inr () \<and> op_guard p oper
    \<and> q = sortCommittedProfile (op_effect oper p) \<and> profile_wf casefold q"
  by (rule ApplyOperation_Inr)

text \<open>
  C8. Applying a stored operation to a profile, whatever the operation and the profile, never
  panics: it never follows a nil payload, never indexes a slice out of its range and never
  allocates a slice of negative capacity.  Nor does it report a target that differs from its
  payload or an unsupported type: validation of stored operations has excluded both.
\<close>

theorem ApplyOperation_no_panic:
  "ApplyOperation casefold p oper \<noteq> Inl (ApplyFailed kind NilPayload)
   \<and> ApplyOperation casefold p oper \<noteq> Inl (ApplyFailed kind IndexOutOfRange)
   \<and> ApplyOperation casefold p oper \<noteq> Inl (ApplyFailed kind SliceCapacity)
   \<and> ApplyOperation casefold p oper \<noteq> Inl (ApplyFailed kind TargetNotPayload)
   \<and> ApplyOperation casefold p oper \<noteq> Inl (ApplyFailed kind OperationUnsupported)"
proof -
  have "e \<notin> set panic_errors" if failed: "ApplyOperation casefold p oper = Inl (ApplyFailed kind e)" for e
  proof -
    from failed have "ValidateStored casefold oper = Inr ()" "dispatchOperation p oper = Inl e"
      by (auto simp: ApplyOperation_def applyOperation_def bind_result_Inl map_error_def Let_def
          split: sum.splits)
    then show ?thesis by (rule dispatchOperation_no_panic)
  qed
  then show ?thesis by (auto simp: panic_errors_def)
qed

end
