(* ===== verification/Apply_Preserves.thy ===== *)
theory Apply_Preserves
  imports Apply_Operation
begin

text \<open>
  Every operation preserves the profile invariant.  The only thing the final validation of
  \<open>ApplyOperation\<close> can still refuse is a created identity that is already taken or an active label
  that collides: \<open>op_fresh\<close>.  The journal can rely on this when it replays without validating in
  between.
\<close>

subsection \<open>Rows that change in place\<close>

lemma active_keys_relabel:
  assumes "distinct (map ident xs)" and "distinct (active_keys key retired xs)"
    and "\<forall>x\<in>set xs. ident x \<noteq> e \<and> \<not> retired x \<longrightarrow> key x \<noteq> k"
    and "\<And>x. retired (f x) = retired x" and "\<And>x. key (f x) = k"
  shows "distinct (active_keys key retired (map (\<lambda>x. if ident x = e then f x else x) xs))"
  using assms(1-3)
proof (induction xs)
  case Nil
  show ?case by (simp add: active_keys_def)
next
  case (Cons x xs)
  have tail: "distinct (active_keys key retired (map (\<lambda>x. if ident x = e then f x else x) xs))"
  proof (rule Cons.IH)
    show "distinct (active_keys key retired xs)"
      using Cons.prems(2) by (cases "retired x") (simp_all add: active_keys_def)
  qed (use Cons.prems in auto)
  have keys: "set (active_keys key retired (map (\<lambda>x. if ident x = e then f x else x) xs))
      \<subseteq> {key y |y. y \<in> set xs \<and> \<not> retired y \<and> ident y \<noteq> e} \<union> {k |y. y \<in> set xs \<and> ident y = e}"
    by (auto simp: active_keys_def assms(4,5) split: if_splits)
  show ?case
  proof (cases "ident x = e")
    case True
    with Cons.prems(1) have "\<forall>y\<in>set xs. ident y \<noteq> e" by (simp add: image_iff) metis
    then have "k \<notin> set (active_keys key retired (map (\<lambda>x. if ident x = e then f x else x) xs))"
      using Cons.prems(3) by (auto simp: active_keys_def)
    with tail True show ?thesis by (simp add: active_keys_def assms(4,5))
  next
    case False
    with Cons.prems(2,3) have "\<not> retired x \<Longrightarrow>
        key x \<notin> set (active_keys key retired (map (\<lambda>x. if ident x = e then f x else x) xs))"
      using keys by (auto simp: active_keys_def)
    with tail False show ?thesis by (simp add: active_keys_def)
  qed
qed

lemma active_keys_retire:
  assumes "distinct (active_keys key retired xs)"
    and "\<And>x. key (g x) = key x" and "\<And>x. retired x \<Longrightarrow> retired (g x)"
  shows "distinct (active_keys key retired (map g xs))"
proof -
  have "filter (\<lambda>x. \<not> retired (g x)) xs = filter (\<lambda>x. \<not> retired (g x)) (filter (\<lambda>x. \<not> retired x) xs)"
    using assms(3) by (induction xs) auto
  then have "active_keys key retired (map g xs)
      = map key (filter (\<lambda>x. \<not> retired (g x)) (filter (\<lambda>x. \<not> retired x) xs))"
    by (simp add: active_keys_def filter_map comp_def assms(2))
  with distinct_map_filter[OF assms(1)[unfolded active_keys_def]] show ?thesis by (simp only:)
qed

lemma active_keys_snoc:
  "distinct (active_keys key retired (xs @ [x])) \<longleftrightarrow>
     distinct (active_keys key retired xs) \<and> (\<not> retired x \<longrightarrow> key x \<notin> set (active_keys key retired xs))"
  by (simp add: active_keys_def)

lemma has_active_map:
  assumes "\<And>x. x \<in> set xs \<Longrightarrow> ident (g x) = ident x"
    and "\<And>x. x \<in> set xs \<Longrightarrow> retired (g x) \<longleftrightarrow> retired x \<or> ident x = s"
  shows "has_active ident retired (map g xs) k \<longleftrightarrow> has_active ident retired xs k \<and> k \<noteq> s"
  using assms by (auto simp: has_active_def)

lemma has_active_map_same:
  assumes "\<And>x. ident (g x) = ident x" and "\<And>x. retired (g x) = retired x"
  shows "has_active ident retired (map g xs) = has_active ident retired xs"
  using assms by (simp add: has_active_def fun_eq_iff)

lemma merge_ok_map_same:
  assumes "\<And>x. ident (g x) = ident x" and "\<And>x. retired (g x) = retired x"
    and "\<And>x. merged (g x) = merged x"
  shows "merge_ok ident retired merged (map g xs) (g x) \<longleftrightarrow> merge_ok ident retired merged xs x"
  using assms by (simp add: merge_ok_def has_active_map_same split: option.split)

lemma has_active_append: "has_active ident retired xs k \<Longrightarrow> has_active ident retired (xs @ ys) k"
  by (auto simp: has_active_def)

lemma merge_ok_append:
  "merge_ok ident retired merged xs x \<Longrightarrow> merge_ok ident retired merged (xs @ ys) x"
  by (auto simp: merge_ok_def has_active_append split: option.splits)

lemma merge_ok_None: "merged x = None \<Longrightarrow> merge_ok ident retired merged xs x"
  by (simp add: merge_ok_def)

text \<open>Retiring a row in favour of an active one keeps every merge destination active.\<close>

lemma merge_ok_retire:
  assumes "distinct (map ident xs)" and "\<forall>x\<in>set xs. merge_ok ident retired merged xs x"
    and "has_active ident retired xs d" and "s \<noteq> d"
    and "\<And>x. ident (g x) = ident x" and "\<And>x. retired (g x) \<longleftrightarrow> retired x \<or> ident x = s"
    and "\<And>x. merged (g x) = (if ident x = s \<or> merged x = Some s then Some d else merged x)"
    and x: "x \<in> set xs"
  shows "merge_ok ident retired merged (map g xs) (g x)"
proof -
  have active: "has_active ident retired (map g xs) k \<longleftrightarrow> has_active ident retired xs k \<and> k \<noteq> s" for k
    by (rule has_active_map) (simp_all add: assms)
  from assms(3) obtain y where y: "y \<in> set xs" "ident y = d" "\<not> retired y"
    by (auto simp: has_active_def)
  from assms(2) x have ok: "merge_ok ident retired merged xs x" by blast
  show ?thesis
  proof (cases "ident x = s \<or> merged x = Some s")
    case True
    have "retired (g x)" using True ok by (auto simp: assms(6) merge_ok_def)
    moreover have "ident x \<noteq> d"
    proof
      assume "ident x = d"
      with x y assms(1) have "x = y" by (auto simp: distinct_map dest: inj_onD)
      with True y(2,3) ok assms(4) show False by (auto simp: merge_ok_def)
    qed
    ultimately show ?thesis using True assms(3,4) by (simp add: merge_ok_def assms(5,7) active)
  next
    case False
    with ok show ?thesis
      by (auto simp: merge_ok_def assms(5-7) active split: option.splits)
  qed
qed

subsection \<open>Invariant of a changed profile\<close>

lemma profile_wf_change:
  assumes wf: "profile_wf casefold p"
    and "accounts q = accounts p" and "identities q = identities p"
    and "map merchant_id (merchants q) = map merchant_id (merchants p)"
    and "map group_id (groups q) = map group_id (groups p)"
    and "map category_id (categories q) = map category_id (categories p)"
    and "distinct (map record_id (transactions q))"
    and "record_id ` set (transactions q) \<subseteq> record_id ` set (transactions p)"
    and "labels_wf casefold q" and "protection_wf q" and "collisions_wf q" and "references_wf q"
    and "\<forall>r\<in>set (transactions q). record_wf q r"
  shows "profile_wf casefold q"
proof -
  define ids where "ids a m g c = map (\<lambda>i. (i, EntityKindAccount)) a @ map (\<lambda>i. (i, EntityKindMerchant)) m
     @ map (\<lambda>i. (i, EntityKindGroup)) g @ map (\<lambda>i. (i, EntityKindCategory)) c" for a m g c :: "entity_id list"
  define old where "old p' = ids (map account_id (accounts p')) (map merchant_id (merchants p'))
     (map group_id (groups p')) (map category_id (categories p'))" for p' :: profile
  have old: "old q = old p"
    by (simp add: old_def assms(2,4-6))
  have kinds: "entity_kinds p' = old p' @ map (\<lambda>i. (i, EntityKindTransaction)) (map record_id (transactions p'))"
    for p' by (simp add: entity_kinds_def old_def ids_def comp_def)
  have dist: "distinct (map fst (old p))" "fst ` set (old p) \<inter> record_id ` set (transactions p) = {}"
    "[] \<notin> record_id ` set (transactions p)"
    using wf unfolding profile_wf_def ids_wf_def kinds by (auto simp: comp_def)
  have "fst ` set (old p) \<inter> record_id ` set (transactions q) = {}"
      "[] \<notin> record_id ` set (transactions q)"
    using dist(2,3) assms(8) by blast+
  moreover from this(2) have "\<forall>r\<in>set (transactions q). record_id r \<noteq> []" by (metis imageI)
  ultimately have "ids_wf q"
    using assms(7) dist(1) unfolding ids_wf_def kinds old by (auto simp: comp_def)
  moreover have "identities_wf q"
  proof -
    have "identity_wf q i" if "identity_wf p i" for i
      using that dist assms(8) unfolding identity_wf_def kinds old
      by (auto simp: image_Un image_image)
    with wf show ?thesis by (simp add: profile_wf_def identities_wf_def assms(3))
  qed
  ultimately show ?thesis using assms by (simp add: profile_wf_def)
qed

text \<open>A created row has an identity no table and no external identity uses.\<close>

definition fresh_id :: "profile \<Rightarrow> entity_id \<Rightarrow> bool" where
  "fresh_id p k \<longleftrightarrow> k \<notin> fst ` set (entity_kinds p) \<and> (\<forall>i\<in>set (identities p). identity_entity i \<noteq> k)"

lemma profile_wf_add:
  assumes wf: "profile_wf casefold p" and "fresh_id p k"
    and "mset (entity_kinds q) = add_mset (k, kind) (mset (entity_kinds p))"
    and "transactions q = transactions p" and "identities q = identities p"
    and "labels_wf casefold q" and "protection_wf q" and "collisions_wf q" and "references_wf q"
    and "\<forall>r\<in>set (transactions q). record_wf q r"
  shows "profile_wf casefold q"
proof -
  have m: "mset (entity_kinds q) = mset ((k, kind) # entity_kinds p)" using assms(3) by simp
  have "distinct (map fst (entity_kinds q))"
    using distinct_map_mset[OF m, of fst] assms(2) wf
    by (simp add: fresh_id_def profile_wf_def ids_wf_def)
  then have "ids_wf q" using wf by (simp add: ids_wf_def profile_wf_def assms(4))
  moreover have "identities_wf q"
    using wf assms(2) mset_eq_setD[OF m]
    by (auto simp: profile_wf_def identities_wf_def identity_wf_def assms(5) fresh_id_def)
  ultimately show ?thesis using assms by (simp add: profile_wf_def)
qed

lemma profile_wf_transactions:
  assumes wf: "profile_wf casefold p" and "distinct (map record_id ts)"
    and "record_id ` set ts \<subseteq> record_id ` set (transactions p)"
    and "\<forall>r\<in>set ts. record_wf p r"
  shows "profile_wf casefold (p\<lparr>transactions := ts\<rparr>)"
proof (rule profile_wf_change[OF wf])
  show "\<forall>r\<in>set (transactions (p\<lparr>transactions := ts\<rparr>)). record_wf (p\<lparr>transactions := ts\<rparr>) r"
    using assms(4) by (simp add: record_wf_def)
qed (use assms in \<open>simp_all add: profile_wf_def labels_wf_def protection_wf_def collisions_wf_def
      references_wf_def\<close>)

lemma record_ids_on_targets:
  "(\<And>r. record_id (f r) = record_id r) \<Longrightarrow> map record_id (on_targets targets f ts) = map record_id ts"
  by (simp add: on_targets_def)

lemma on_targets_cases:
  "r \<in> set (on_targets targets f ts) \<Longrightarrow> \<exists>t\<in>set ts. r = t \<or> r = f t"
  by (auto simp: on_targets_def)

lemma profile_wf_on_targets:
  assumes wf: "profile_wf casefold p" and ids: "\<And>r. record_id (f r) = record_id r"
    and "\<And>r. r \<in> set (transactions p) \<Longrightarrow> record_wf p r \<Longrightarrow> record_wf p (f r)"
  shows "profile_wf casefold (p\<lparr>transactions := on_targets targets f (transactions p)\<rparr>)"
proof (rule profile_wf_transactions[OF wf])
  note same = record_ids_on_targets[OF ids, of targets "transactions p"]
  show "distinct (map record_id (on_targets targets f (transactions p)))"
    unfolding same by (rule profile_wf_distinct(5)[OF wf])
  show "record_id ` set (on_targets targets f (transactions p)) \<subseteq> record_id ` set (transactions p)"
    using same by (metis list.set_map order_refl)
  show "\<forall>r\<in>set (on_targets targets f (transactions p)). record_wf p r"
    using wf assms(3) by (auto simp: profile_wf_def dest!: on_targets_cases)
qed

subsection \<open>Each effect keeps the invariant\<close>

definition key_free :: "('a \<Rightarrow> entity_id) \<Rightarrow> ('a \<Rightarrow> string) \<Rightarrow> ('a \<Rightarrow> bool) \<Rightarrow> 'a list \<Rightarrow> entity_id \<Rightarrow>
    string \<Rightarrow> bool" where
  "key_free ident key retired xs e k \<longleftrightarrow> (\<forall>x\<in>set xs. ident x \<noteq> e \<and> \<not> retired x \<longrightarrow> key x \<noteq> k)"

lemma profile_wf_parts:
  assumes "profile_wf casefold p"
  shows "labels_wf casefold p" "ids_wf p" "protection_wf p" "collisions_wf p" "references_wf p"
    "\<forall>r\<in>set (transactions p). record_wf p r" "identities_wf p"
  using assms by (simp_all add: profile_wf_def)

lemma fresh_id_tables:
  assumes "fresh_id p k"
  shows "\<forall>x\<in>set (merchants p). merchant_id x \<noteq> k" "\<forall>x\<in>set (groups p). group_id x \<noteq> k"
    "\<forall>x\<in>set (categories p). category_id x \<noteq> k"
proof -
  from assms have "k \<notin> merchant_id ` set (merchants p)" "k \<notin> group_id ` set (groups p)"
      "k \<notin> category_id ` set (categories p)"
    by (simp_all add: fresh_id_def entity_kinds_def image_Un image_image)
  then show "\<forall>x\<in>set (merchants p). merchant_id x \<noteq> k" "\<forall>x\<in>set (groups p). group_id x \<noteq> k"
    "\<forall>x\<in>set (categories p). category_id x \<noteq> k" by (metis imageI)+
qed

lemma wf_label_merchants:
  assumes wf: "profile_wf casefold p"
    and label: "label_ok casefold (label_entity l) (label_text l) (label_collision l)"
    and free: "key_free merchant_id merchant_key merchant_retired (merchants p)
      (label_entity l) (label_collision l)"
  shows "profile_wf casefold (p\<lparr>merchants := label_merchants l (merchants p)\<rparr>)"
proof -
  define g where "g m = (if merchant_id m = label_entity l
     then m\<lparr>merchant_label := label_text l, merchant_key := label_collision l\<rparr> else m)" for m :: merchant
  let ?q = "p\<lparr>merchants := map g (merchants p)\<rparr>"
  note parts = profile_wf_parts[OF wf]
  have same: "merchant_id (g m) = merchant_id m" "merchant_retired (g m) = merchant_retired m"
    "merchant_merged (g m) = merchant_merged m" for m by (simp_all add: g_def)
  have "profile_wf casefold ?q"
  proof (rule profile_wf_change[OF wf])
    show "map merchant_id (merchants ?q) = map merchant_id (merchants p)" by (simp add: same)
    show "labels_wf casefold ?q" using parts(1) label by (auto simp: labels_wf_def g_def)
    show "protection_wf ?q" using parts(3) by (simp add: protection_wf_def)
    have "distinct (active_keys merchant_key merchant_retired (map g (merchants p)))"
      unfolding g_def by (rule active_keys_relabel[OF profile_wf_distinct(2)[OF wf]])
        (use parts(4) free in \<open>simp_all add: collisions_wf_def key_free_def\<close>)
    with parts(4) show "collisions_wf ?q" by (simp add: collisions_wf_def)
    show "references_wf ?q"
      using parts(5) merge_ok_map_same[where g = g and ident = merchant_id
          and retired = merchant_retired and merged = merchant_merged, OF same]
      by (simp add: references_wf_def)
    show "\<forall>r\<in>set (transactions ?q). record_wf ?q r"
      using parts(6) by (simp add: record_wf_def has_active_map_same[where g = g and ident = merchant_id
            and retired = merchant_retired, OF same(1,2)])
  qed (use wf profile_wf_distinct(5)[OF wf] in simp_all)
  then show ?thesis by (simp add: label_merchants_def g_def[abs_def])
qed

lemma wf_merge_merchants:
  assumes wf: "profile_wf casefold p" and d: "active_merchant p d" and "s \<noteq> d"
  shows "profile_wf casefold (merge_merchants_effect s d p)"
proof -
  let ?g = "\<lambda>m. redirect_merchant s d (if merchant_id m = s
     then m\<lparr>merchant_retired := True, merchant_merged := Some d\<rparr> else m)"
  let ?q = "merge_merchants_effect s d p"
  note parts = profile_wf_parts[OF wf]
  have ms: "merchants ?q = map ?g (merchants p)" and others: "accounts ?q = accounts p"
    "groups ?q = groups p" "categories ?q = categories p" "identities ?q = identities p"
    and ts: "transactions ?q = map (redirect_record_merchant s d) (transactions p)"
    by (simp_all add: merge_merchants_effect_def retire_merchants_def)
  have g: "merchant_id (?g m) = merchant_id m" "merchant_key (?g m) = merchant_key m"
    "merchant_label (?g m) = merchant_label m"
    "merchant_retired (?g m) \<longleftrightarrow> merchant_retired m \<or> merchant_id m = s"
    "merchant_merged (?g m) =
       (if merchant_id m = s \<or> merchant_merged m = Some s then Some d else merchant_merged m)"
    for m using assms(3) by (simp_all add: redirect_merchant_def)
  have active: "has_active merchant_id merchant_retired (map ?g (merchants p)) k
      \<longleftrightarrow> active_merchant p k \<and> k \<noteq> s" for k
    by (rule has_active_map) (simp_all add: g)
  have rid: "record_id (redirect_record_merchant s d r) = record_id r" for r
    by (simp add: redirect_record_merchant_def)
  show ?thesis
  proof (rule profile_wf_change[OF wf])
    show "map merchant_id (merchants ?q) = map merchant_id (merchants p)" by (simp add: ms g(1))
    show "labels_wf casefold ?q" using parts(1) by (simp add: labels_wf_def ms others g)
    show "protection_wf ?q" using parts(3) by (simp add: protection_wf_def others)
    have "distinct (active_keys merchant_key merchant_retired (map ?g (merchants p)))"
      by (rule active_keys_retire) (use parts(4) in \<open>simp_all add: collisions_wf_def g\<close>)
    with parts(4) show "collisions_wf ?q" by (simp add: collisions_wf_def ms others)
    have "\<forall>m\<in>set (merchants p). merge_ok merchant_id merchant_retired merchant_merged
        (map ?g (merchants p)) (?g m)"
      using merge_ok_retire[OF profile_wf_distinct(2)[OF wf] _ d assms(3), where g = ?g, OF _ g(1,4,5)]
        parts(5) by (simp add: references_wf_def)
    with parts(5) show "references_wf ?q" by (simp add: references_wf_def ms others)
    show "\<forall>r\<in>set (transactions ?q). record_wf ?q r"
      using parts(6) d assms(3)
      by (auto simp: record_wf_def ms ts others active redirect_record_merchant_def)
    show "distinct (map record_id (transactions ?q))"
      using profile_wf_distinct(5)[OF wf] by (simp add: ts rid comp_def)
    show "record_id ` set (transactions ?q) \<subseteq> record_id ` set (transactions p)"
      by (auto simp: ts rid)
  qed (simp_all add: others)
qed

lemma wf_add_merchant:
  assumes wf: "profile_wf casefold p" and "fresh_id p (merchant_id m)"
    and "label_ok casefold (merchant_id m) (merchant_label m) (merchant_key m)"
    and "\<not> merchant_retired m" and "merchant_merged m = None"
    and "key_free merchant_id merchant_key merchant_retired (merchants p) (merchant_id m) (merchant_key m)"
  shows "profile_wf casefold (p\<lparr>merchants := merchants p @ [m]\<rparr>)"
proof -
  let ?q = "p\<lparr>merchants := merchants p @ [m]\<rparr>"
  note parts = profile_wf_parts[OF wf]
  have unused: "\<forall>x\<in>set (merchants p). merchant_id x \<noteq> merchant_id m"
    by (rule fresh_id_tables(1)[OF assms(2)])
  show ?thesis
  proof (rule profile_wf_add[OF wf assms(2), where kind = EntityKindMerchant])
    show "labels_wf casefold ?q" using parts(1) assms(3) by (simp add: labels_wf_def)
    show "protection_wf ?q" using parts(3) by (simp add: protection_wf_def)
    have "merchant_key m \<notin> set (active_keys merchant_key merchant_retired (merchants p))"
      using assms(6) unused by (auto simp: active_keys_def key_free_def)
    with parts(4) show "collisions_wf ?q" by (simp add: collisions_wf_def active_keys_snoc)
    show "references_wf ?q"
      using parts(5) assms(5) by (auto simp: references_wf_def merge_ok_append merge_ok_None)
    show "\<forall>r\<in>set (transactions ?q). record_wf ?q r"
      using parts(6) by (auto simp: record_wf_def has_active_append)
  qed (simp_all add: entity_kinds_def)
qed

lemma wf_reassign_merchants:
  assumes "profile_wf casefold p" and "active_merchant p d"
  shows "profile_wf casefold (p\<lparr>transactions :=
    on_targets targets (\<lambda>t. t\<lparr>record_merchant := d\<rparr>) (transactions p)\<rparr>)"
  by (rule profile_wf_on_targets[OF assms(1)]) (use assms(2) in \<open>simp_all add: record_wf_def\<close>)

lemma wf_assign_category:
  assumes "profile_wf casefold p" and "active_category p d"
  shows "profile_wf casefold (p\<lparr>transactions :=
    on_targets targets (\<lambda>t. t\<lparr>record_category := d\<rparr>) (transactions p)\<rparr>)"
  by (rule profile_wf_on_targets[OF assms(1)]) (use assms(2) in \<open>simp_all add: record_wf_def\<close>)

lemma wf_toggle_hidden:
  assumes "profile_wf casefold p"
  shows "profile_wf casefold (p\<lparr>transactions := on_targets targets toggle_hidden (transactions p)\<rparr>)"
  by (rule profile_wf_on_targets[OF assms]) (simp_all add: record_wf_def toggle_hidden_def)

lemma wf_filter_transactions:
  assumes wf: "profile_wf casefold p"
  shows "profile_wf casefold (p\<lparr>transactions := filter P (transactions p)\<rparr>)"
  by (rule profile_wf_transactions[OF wf])
    (use profile_wf_distinct(5)[OF wf] profile_wf_parts(6)[OF wf] in \<open>auto simp: distinct_map_filter\<close>)

lemma protected_category_okD: "protected_category_ok l k (Some c) \<Longrightarrow> category_protected c"
  by (simp add: protected_category_ok_def)

lemma uncategorized_group_okD: "uncategorized_group_ok (Some g) \<Longrightarrow> group_protected g"
  by (simp add: uncategorized_group_ok_def)

text \<open>A change of the categories that leaves the protected ones as they are.\<close>

lemma wf_categories_change:
  assumes wf: "profile_wf casefold p"
    and g: "\<And>c. category_id (g c) = category_id c" "\<And>c. category_protected (g c) = category_protected c"
    and prot: "\<And>c. c \<in> set (categories p) \<Longrightarrow> category_protected c \<Longrightarrow> g c = c"
    and labels: "\<And>c. c \<in> set (categories p) \<Longrightarrow>
      label_ok casefold (category_id c) (category_label (g c)) (category_key (g c))"
    and keys: "distinct (active_keys category_key category_retired (map g (categories p)))"
    and refs: "\<And>c. c \<in> set (categories p) \<Longrightarrow> active_group p (category_group_id (g c))
      \<and> merge_ok category_id category_retired category_merged (map g (categories p)) (g c)"
    and rid: "\<And>r. record_id (h r) = record_id r"
    and records: "\<And>r. r \<in> set (transactions p) \<Longrightarrow> record_wf p r \<Longrightarrow>
      record_wf (p\<lparr>categories := map g (categories p)\<rparr>) (h r)"
  shows "profile_wf casefold (p\<lparr>categories := map g (categories p), transactions := map h (transactions p)\<rparr>)"
proof -
  let ?q = "p\<lparr>categories := map g (categories p), transactions := map h (transactions p)\<rparr>"
  note parts = profile_wf_parts[OF wf]
  show ?thesis
  proof (rule profile_wf_change[OF wf])
    show "map category_id (categories ?q) = map category_id (categories p)" by (simp add: g)
    show "labels_wf casefold ?q" using parts(1) labels by (simp add: labels_wf_def g)
    have sentinel: "\<exists>c\<in>set (categories ?q). category_id c = k \<and> protected_category_ok l key (Some c)"
      if "\<exists>c\<in>set (categories p). category_id c = k \<and> protected_category_ok l key (Some c)" for k l key
    proof -
      from that obtain c where c: "c \<in> set (categories p)" "category_id c = k"
          "protected_category_ok l key (Some c)" by blast
      then have "g c = c" using prot protected_category_okD by blast
      with c show ?thesis by (auto intro!: bexI[of _ c])
    qed
    have "\<forall>c\<in>set (categories ?q). category_protected c \<longrightarrow> \<not> category_retired c \<and> category_merged c = None"
      using parts(3) prot by (auto simp: protection_wf_def g)
    with parts(3) sentinel show "protection_wf ?q" unfolding protection_wf_def by simp
    show "collisions_wf ?q" using parts(4) keys by (simp add: collisions_wf_def)
    show "references_wf ?q" using parts(5) refs by (simp add: references_wf_def)
    show "\<forall>r\<in>set (transactions ?q). record_wf ?q r"
      using parts(6) records by (auto simp: record_wf_def)
    show "distinct (map record_id (transactions ?q))"
      using profile_wf_distinct(5)[OF wf] by (simp add: rid comp_def)
    show "record_id ` set (transactions ?q) \<subseteq> record_id ` set (transactions p)"
      by (auto simp: rid)
  qed simp_all
qed

lemma wf_categories_same:
  assumes wf: "profile_wf casefold p"
    and g: "\<And>c. category_id (g c) = category_id c" "\<And>c. category_protected (g c) = category_protected c"
      "\<And>c. category_retired (g c) = category_retired c" "\<And>c. category_merged (g c) = category_merged c"
    and prot: "\<And>c. c \<in> set (categories p) \<Longrightarrow> category_protected c \<Longrightarrow> g c = c"
    and labels: "\<And>c. c \<in> set (categories p) \<Longrightarrow>
      label_ok casefold (category_id c) (category_label (g c)) (category_key (g c))"
    and keys: "distinct (active_keys category_key category_retired (map g (categories p)))"
    and group: "\<And>c. c \<in> set (categories p) \<Longrightarrow> active_group p (category_group_id (g c))"
  shows "profile_wf casefold (p\<lparr>categories := map g (categories p)\<rparr>)"
proof -
  have "profile_wf casefold (p\<lparr>categories := map g (categories p),
      transactions := map (\<lambda>r. r) (transactions p)\<rparr>)"
  proof (rule wf_categories_change[OF wf g(1,2) prot labels keys])
    fix c assume "c \<in> set (categories p)"
    with group profile_wf_parts(5)[OF wf] show "active_group p (category_group_id (g c)) \<and>
        merge_ok category_id category_retired category_merged (map g (categories p)) (g c)"
      by (simp add: references_wf_def merge_ok_map_same[where g = g and ident = category_id
            and retired = category_retired and merged = category_merged, OF g(1,3,4)])
  next
    fix r assume "record_wf p r"
    then show "record_wf (p\<lparr>categories := map g (categories p)\<rparr>) r"
      by (simp add: record_wf_def has_active_map_same[where g = g and ident = category_id
            and retired = category_retired, OF g(1,3)])
  qed simp_all
  moreover have "p\<lparr>categories := map g (categories p), transactions := map (\<lambda>r. r) (transactions p)\<rparr>
      = p\<lparr>categories := map g (categories p)\<rparr>"
    by (cases p) simp
  ultimately show ?thesis by simp
qed

lemma wf_label_categories:
  assumes wf: "profile_wf casefold p" and op: "open_category p (label_entity l)"
    and label: "label_ok casefold (label_entity l) (label_text l) (label_collision l)"
    and free: "key_free category_id category_key category_retired (categories p)
      (label_entity l) (label_collision l)"
  shows "profile_wf casefold (p\<lparr>categories := label_categories l (categories p)\<rparr>)"
  unfolding label_categories_def
proof (rule wf_categories_same[OF wf])
  show "distinct (active_keys category_key category_retired (map (\<lambda>c. if category_id c = label_entity l
     then c\<lparr>category_label := label_text l, category_key := label_collision l\<rparr> else c) (categories p)))"
    by (rule active_keys_relabel[OF profile_wf_distinct(4)[OF wf]])
      (use profile_wf_parts(4)[OF wf] free in \<open>simp_all add: collisions_wf_def key_free_def\<close>)
qed (use op label profile_wf_parts(1,5)[OF wf] in
    \<open>auto simp: open_category_def labels_wf_def references_wf_def\<close>)

lemma wf_move_categories:
  assumes wf: "profile_wf casefold p" and op: "open_category p (move_entity m)"
    and group: "active_group p (move_destination m)"
  shows "profile_wf casefold (p\<lparr>categories := move_categories m (categories p)\<rparr>)"
  unfolding move_categories_def
proof (rule wf_categories_same[OF wf])
  show "distinct (active_keys category_key category_retired (map (\<lambda>c. if category_id c = move_entity m
     then c\<lparr>category_group_id := move_destination m\<rparr> else c) (categories p)))"
    by (rule active_keys_retire)
      (use profile_wf_parts(4)[OF wf] in \<open>simp_all add: collisions_wf_def\<close>)
qed (use op group profile_wf_parts(1,5)[OF wf] in
    \<open>auto simp: open_category_def labels_wf_def references_wf_def\<close>)

lemma wf_merge_categories:
  assumes wf: "profile_wf casefold p" and op: "open_category p s" and d: "active_category p d"
    and sd: "s \<noteq> d"
  shows "profile_wf casefold (merge_categories_effect s d p)"
proof -
  define g where "g c = redirect_category s d (if category_id c = s
     then c\<lparr>category_retired := True, category_merged := Some d\<rparr> else c)" for c :: category
  note parts = profile_wf_parts[OF wf]
  have g: "category_id (g c) = category_id c" "category_protected (g c) = category_protected c"
    "category_retired (g c) \<longleftrightarrow> category_retired c \<or> category_id c = s"
    "category_merged (g c) =
       (if category_id c = s \<or> category_merged c = Some s then Some d else category_merged c)"
    "category_key (g c) = category_key c" "category_label (g c) = category_label c"
    "category_group_id (g c) = category_group_id c" for c
    using sd by (simp_all add: g_def redirect_category_def)
  have active: "has_active category_id category_retired (map g (categories p)) k
      \<longleftrightarrow> active_category p k \<and> k \<noteq> s" for k
    by (rule has_active_map) (simp_all add: g)
  have "profile_wf casefold (p\<lparr>categories := map g (categories p),
      transactions := map (redirect_record_category s d) (transactions p)\<rparr>)"
  proof (rule wf_categories_change[OF wf g(1,2)])
    fix c assume c: "c \<in> set (categories p)"
    from c show "label_ok casefold (category_id c) (category_label (g c)) (category_key (g c))"
      using parts(1) by (simp add: g labels_wf_def)
    show "g c = c" if "category_protected c"
    proof -
      have "category_id c \<noteq> s" "category_merged c = None"
        using that c op parts(3) by (auto simp: open_category_def protection_wf_def)
      then show ?thesis by (simp add: g_def redirect_category_def)
    qed
    have "merge_ok category_id category_retired category_merged (map g (categories p)) (g c)"
      by (rule merge_ok_retire[OF profile_wf_distinct(4)[OF wf] _ d sd g(1,3,4) c])
        (use parts(5) in \<open>simp add: references_wf_def\<close>)
    with c parts(5) show "active_group p (category_group_id (g c))
        \<and> merge_ok category_id category_retired category_merged (map g (categories p)) (g c)"
      by (simp add: references_wf_def g(7))
  next
    show "distinct (active_keys category_key category_retired (map g (categories p)))"
      by (rule active_keys_retire) (use parts(4) in \<open>simp_all add: collisions_wf_def g\<close>)
  next
    fix r assume "record_wf p r"
    then show "record_wf (p\<lparr>categories := map g (categories p)\<rparr>) (redirect_record_category s d r)"
      using d sd by (auto simp: record_wf_def active redirect_record_category_def)
  qed (simp add: redirect_record_category_def)
  then show ?thesis
    by (simp add: merge_categories_effect_def retire_categories_def g_def[abs_def])
qed

lemma wf_add_category:
  assumes wf: "profile_wf casefold p" and "fresh_id p (create_entity c)"
    and "label_ok casefold (create_entity c) (create_label c) (create_collision c)"
    and "active_group p (create_parent c)"
    and "key_free category_id category_key category_retired (categories p)
      (create_entity c) (create_collision c)"
  shows "profile_wf casefold (p\<lparr>categories := categories p @ [created_category c]\<rparr>)"
proof -
  let ?q = "p\<lparr>categories := categories p @ [created_category c]\<rparr>"
  note parts = profile_wf_parts[OF wf]
  note unused = fresh_id_tables(3)[OF assms(2)]
  have k: "category_id (created_category c) = create_entity c"
    "category_key (created_category c) = create_collision c" "\<not> category_protected (created_category c)"
    "category_merged (created_category c) = None" "\<not> category_retired (created_category c)"
    "category_label (created_category c) = create_label c"
    "category_group_id (created_category c) = create_parent c"
    by (simp_all add: created_category_def)
  show ?thesis
  proof (rule profile_wf_add[OF wf assms(2), where kind = EntityKindCategory])
    show "labels_wf casefold ?q" using parts(1) assms(3) by (simp add: labels_wf_def k)
    show "protection_wf ?q" using parts(3) by (auto simp: protection_wf_def k)
    have "create_collision c \<notin> set (active_keys category_key category_retired (categories p))"
      using assms(5) unused by (auto simp: active_keys_def key_free_def)
    with parts(4) show "collisions_wf ?q" by (simp add: collisions_wf_def active_keys_snoc k)
    show "references_wf ?q"
      using parts(5) assms(4) by (auto simp: references_wf_def merge_ok_append merge_ok_None k)
    show "\<forall>r\<in>set (transactions ?q). record_wf ?q r"
      using parts(6) by (auto simp: record_wf_def has_active_append)
  qed (simp_all add: entity_kinds_def k)
qed

lemma wf_add_group:
  assumes wf: "profile_wf casefold p" and "fresh_id p (create_entity c)"
    and "label_ok casefold (create_entity c) (create_label c) (create_collision c)"
    and "key_free group_id group_key group_retired (groups p) (create_entity c) (create_collision c)"
  shows "profile_wf casefold (p\<lparr>groups := groups p @ [created_group c]\<rparr>)"
proof -
  let ?q = "p\<lparr>groups := groups p @ [created_group c]\<rparr>"
  note parts = profile_wf_parts[OF wf]
  note unused = fresh_id_tables(2)[OF assms(2)]
  have k: "group_id (created_group c) = create_entity c" "group_label (created_group c) = create_label c"
    "group_key (created_group c) = create_collision c" "\<not> group_protected (created_group c)"
    "group_merged (created_group c) = None" "\<not> group_retired (created_group c)"
    by (simp_all add: created_group_def)
  show ?thesis
  proof (rule profile_wf_add[OF wf assms(2), where kind = EntityKindGroup])
    show "labels_wf casefold ?q" using parts(1) assms(3) by (simp add: labels_wf_def k)
    show "protection_wf ?q" using parts(3) by (auto simp: protection_wf_def k)
    have "create_collision c \<notin> set (active_keys group_key group_retired (groups p))"
      using assms(4) unused by (auto simp: active_keys_def key_free_def)
    with parts(4) show "collisions_wf ?q" by (simp add: collisions_wf_def active_keys_snoc k)
    show "references_wf ?q"
      using parts(5) by (auto simp: references_wf_def merge_ok_append merge_ok_None k has_active_append)
    show "\<forall>r\<in>set (transactions ?q). record_wf ?q r"
      using parts(6) by (auto simp: record_wf_def)
  qed (simp_all add: entity_kinds_def k)
qed

text \<open>A change of the groups that leaves the protected ones, with the categories that follow.\<close>

lemma wf_groups_change:
  assumes wf: "profile_wf casefold p"
    and g: "\<And>x. group_id (g x) = group_id x" "\<And>x. group_protected (g x) = group_protected x"
    and prot: "\<And>x. x \<in> set (groups p) \<Longrightarrow> group_protected x \<Longrightarrow> g x = x"
    and labels: "\<And>x. x \<in> set (groups p) \<Longrightarrow>
      label_ok casefold (group_id x) (group_label (g x)) (group_key (g x))"
    and keys: "distinct (active_keys group_key group_retired (map g (groups p)))"
    and refs: "\<And>x. x \<in> set (groups p) \<Longrightarrow>
      merge_ok group_id group_retired group_merged (map g (groups p)) (g x)"
    and h: "\<And>c. h c = c\<lparr>category_group_id := category_group_id (h c)\<rparr>"
    and hprot: "\<And>c. c \<in> set (categories p) \<Longrightarrow> category_group_id c = UncategorizedGroupID \<Longrightarrow> h c = c"
    and hgroup: "\<And>c. c \<in> set (categories p) \<Longrightarrow>
      has_active group_id group_retired (map g (groups p)) (category_group_id (h c))"
  shows "profile_wf casefold (p\<lparr>groups := map g (groups p), categories := map h (categories p)\<rparr>)"
proof -
  let ?q = "p\<lparr>groups := map g (groups p), categories := map h (categories p)\<rparr>"
  note parts = profile_wf_parts[OF wf]
  have same: "category_id (h c) = category_id c" "category_label (h c) = category_label c"
    "category_key (h c) = category_key c" "category_protected (h c) = category_protected c"
    "category_retired (h c) = category_retired c" "category_merged (h c) = category_merged c" for c
    by (subst h, simp)+
  have keys_same: "active_keys category_key category_retired (map h (categories p))
      = active_keys category_key category_retired (categories p)"
    by (simp add: active_keys_def filter_map comp_def same)
  show ?thesis
  proof (rule profile_wf_change[OF wf])
    show "map group_id (groups ?q) = map group_id (groups p)" by (simp add: g)
    show "map category_id (categories ?q) = map category_id (categories p)" by (simp add: same)
    show "labels_wf casefold ?q" using parts(1) labels by (simp add: labels_wf_def g same)
    have cats: "\<exists>c\<in>set (categories ?q). category_id c = k \<and> protected_category_ok l key (Some c)"
      if "\<exists>c\<in>set (categories p). category_id c = k \<and> protected_category_ok l key (Some c)" for k l key
    proof -
      from that obtain c where c: "c \<in> set (categories p)" "category_id c = k"
          "protected_category_ok l key (Some c)" by blast
      then have "h c = c" using hprot by (simp add: protected_category_ok_def)
      with c show ?thesis by (auto intro!: bexI[of _ c])
    qed
    have grp: "\<exists>x\<in>set (groups ?q). group_id x = UncategorizedGroupID \<and> uncategorized_group_ok (Some x)"
    proof -
      from parts(3) obtain x where x: "x \<in> set (groups p)" "group_id x = UncategorizedGroupID"
          "uncategorized_group_ok (Some x)" unfolding protection_wf_def by blast
      then have "g x = x" using prot uncategorized_group_okD by blast
      with x show ?thesis by (auto intro!: bexI[of _ x])
    qed
    have "\<forall>x\<in>set (groups ?q). group_protected x \<longrightarrow> \<not> group_retired x \<and> group_merged x = None"
      using parts(3) prot by (auto simp: protection_wf_def g)
    moreover have "\<forall>c\<in>set (categories ?q). category_protected c \<longrightarrow>
        \<not> category_retired c \<and> category_merged c = None"
      using parts(3) by (auto simp: protection_wf_def same)
    ultimately show "protection_wf ?q"
      using parts(3) cats grp unfolding protection_wf_def by blast
    show "collisions_wf ?q" using parts(4) keys by (simp add: collisions_wf_def keys_same)
    show "references_wf ?q"
      using parts(5) refs hgroup
      by (simp add: references_wf_def merge_ok_map_same[where g = h and ident = category_id
            and retired = category_retired and merged = category_merged, OF same(1,5,6)])
    show "\<forall>r\<in>set (transactions ?q). record_wf ?q r"
      using parts(6) by (simp add: record_wf_def has_active_map_same[where g = h and
            ident = category_id and retired = category_retired, OF same(1,5)])
  qed (use profile_wf_distinct(5)[OF wf] in simp_all)
qed

lemma protected_group_id:
  assumes "profile_wf casefold p" and "open_group p s"
  shows "s \<noteq> UncategorizedGroupID"
  using assms uncategorized_group_okD by (auto simp: profile_wf_def protection_wf_def open_group_def)

lemma wf_label_groups:
  assumes wf: "profile_wf casefold p" and op: "open_group p (label_entity l)"
    and label: "label_ok casefold (label_entity l) (label_text l) (label_collision l)"
    and free: "key_free group_id group_key group_retired (groups p) (label_entity l) (label_collision l)"
  shows "profile_wf casefold (p\<lparr>groups := label_groups l (groups p)\<rparr>)"
proof -
  define g where "g x = (if group_id x = label_entity l
     then x\<lparr>group_label := label_text l, group_key := label_collision l\<rparr> else x)" for x :: category_group
  note parts = profile_wf_parts[OF wf]
  have same: "group_id (g x) = group_id x" "group_protected (g x) = group_protected x"
    "group_retired (g x) = group_retired x" "group_merged (g x) = group_merged x" for x
    by (simp_all add: g_def)
  have "profile_wf casefold (p\<lparr>groups := map g (groups p), categories := map (\<lambda>c. c) (categories p)\<rparr>)"
  proof (rule wf_groups_change[OF wf same(1,2)])
    show "distinct (active_keys group_key group_retired (map g (groups p)))"
      unfolding g_def by (rule active_keys_relabel[OF profile_wf_distinct(3)[OF wf]])
        (use parts(4) free in \<open>simp_all add: collisions_wf_def key_free_def\<close>)
    fix x assume x: "x \<in> set (groups p)"
    show "label_ok casefold (group_id x) (group_label (g x)) (group_key (g x))"
      using x parts(1) label by (auto simp: labels_wf_def g_def)
    show "merge_ok group_id group_retired group_merged (map g (groups p)) (g x)"
      using x parts(5) by (simp add: references_wf_def merge_ok_map_same[where g = g and
            ident = group_id and retired = group_retired and merged = group_merged, OF same(1,3,4)])
    show "g x = x" if "group_protected x"
      using that x op by (auto simp: open_group_def g_def)
  next
    fix c assume "c \<in> set (categories p)"
    with parts(5) show "has_active group_id group_retired (map g (groups p)) (category_group_id c)"
      by (simp add: references_wf_def has_active_map_same[where g = g and ident = group_id
            and retired = group_retired, OF same(1,3)])
  qed simp_all
  moreover have "p\<lparr>groups := map g (groups p), categories := map (\<lambda>c. c) (categories p)\<rparr>
      = p\<lparr>groups := map g (groups p)\<rparr>" by (cases p) simp
  ultimately show ?thesis by (simp add: label_groups_def g_def[abs_def])
qed

lemma wf_merge_groups:
  assumes wf: "profile_wf casefold p" and op: "open_group p s" and d: "active_group p d"
    and sd: "s \<noteq> d"
  shows "profile_wf casefold (merge_groups_effect s d p)"
proof -
  define g where "g x = redirect_group s d (if group_id x = s
     then x\<lparr>group_retired := True, group_merged := Some d\<rparr> else x)" for x :: category_group
  note parts = profile_wf_parts[OF wf]
  have g: "group_id (g x) = group_id x" "group_protected (g x) = group_protected x"
    "group_retired (g x) \<longleftrightarrow> group_retired x \<or> group_id x = s"
    "group_merged (g x) = (if group_id x = s \<or> group_merged x = Some s then Some d else group_merged x)"
    "group_key (g x) = group_key x" "group_label (g x) = group_label x" for x
    using sd by (simp_all add: g_def redirect_group_def)
  have active: "has_active group_id group_retired (map g (groups p)) k \<longleftrightarrow> active_group p k \<and> k \<noteq> s" for k
    by (rule has_active_map) (simp_all add: g)
  have "profile_wf casefold (p\<lparr>groups := map g (groups p),
      categories := map (redirect_category_group s d) (categories p)\<rparr>)"
  proof (rule wf_groups_change[OF wf g(1,2)])
    show "distinct (active_keys group_key group_retired (map g (groups p)))"
      by (rule active_keys_retire) (use parts(4) in \<open>simp_all add: collisions_wf_def g\<close>)
    fix x assume x: "x \<in> set (groups p)"
    show "label_ok casefold (group_id x) (group_label (g x)) (group_key (g x))"
      using x parts(1) by (simp add: labels_wf_def g)
    show "merge_ok group_id group_retired group_merged (map g (groups p)) (g x)"
      by (rule merge_ok_retire[OF profile_wf_distinct(3)[OF wf] _ d sd g(1,3,4) x])
        (use parts(5) in \<open>simp add: references_wf_def\<close>)
    show "g x = x" if "group_protected x"
    proof -
      have "group_id x \<noteq> s" "group_merged x = None"
        using that x op parts(3) by (auto simp: open_group_def protection_wf_def)
      then show ?thesis by (simp add: g_def redirect_group_def)
    qed
  next
    fix c assume c: "c \<in> set (categories p)"
    then show "has_active group_id group_retired (map g (groups p))
        (category_group_id (redirect_category_group s d c))"
      using parts(5) d sd by (auto simp: references_wf_def active redirect_category_group_def)
    show "redirect_category_group s d c = c" if "category_group_id c = UncategorizedGroupID"
      using that protected_group_id[OF wf op] by (simp add: redirect_category_group_def)
  next
    fix c :: category
    show "redirect_category_group s d c
        = c\<lparr>category_group_id := category_group_id (redirect_category_group s d c)\<rparr>"
      by (simp add: redirect_category_group_def)
  qed
  then show ?thesis
    by (simp add: merge_groups_effect_def retire_groups_def g_def[abs_def])
qed

subsection \<open>When the result of an operation is valid\<close>

definition op_fresh :: "profile \<Rightarrow> operation \<Rightarrow> bool" where
  "op_fresh p oper =
     (case op_type oper of
        OperationMerchantLabel \<Rightarrow> with_payload (op_label oper) (\<lambda>l.
          key_free merchant_id merchant_key merchant_retired (merchants p)
            (label_entity l) (label_collision l))
      | OperationMerchantReassign \<Rightarrow> with_payload (op_reassign oper) (\<lambda>r.
          case reassign_created r of None \<Rightarrow> True
          | Some m \<Rightarrow> fresh_id p (merchant_id m) \<and>
              key_free merchant_id merchant_key merchant_retired (merchants p)
                (merchant_id m) (merchant_key m))
      | OperationCategoryCreate \<Rightarrow> with_payload (op_create oper) (\<lambda>c.
          fresh_id p (create_entity c) \<and>
          key_free category_id category_key category_retired (categories p)
            (create_entity c) (create_collision c))
      | OperationCategoryLabel \<Rightarrow> with_payload (op_label oper) (\<lambda>l.
          key_free category_id category_key category_retired (categories p)
            (label_entity l) (label_collision l))
      | OperationGroupCreate \<Rightarrow> with_payload (op_create oper) (\<lambda>c.
          fresh_id p (create_entity c) \<and>
          key_free group_id group_key group_retired (groups p)
            (create_entity c) (create_collision c))
      | OperationGroupLabel \<Rightarrow> with_payload (op_label oper) (\<lambda>l.
          key_free group_id group_key group_retired (groups p)
            (label_entity l) (label_collision l))
      | _ \<Rightarrow> True)"

lemma profile_update_same: "p\<lparr>merchants := merchants p @ [], transactions := ts\<rparr> = p\<lparr>transactions := ts\<rparr>"
  by (cases p) simp

lemma op_effect_wf:
  assumes wf: "profile_wf casefold p" and stored: "ValidateStored casefold oper = Inr ()"
    and guard: "op_guard p oper" and fresh: "op_fresh p oper"
  shows "profile_wf casefold (op_effect oper p)"
proof -
  note valid = ValidateStored_payload[OF stored, unfolded validatePayload_def]
  show ?thesis
  proof (cases "op_type oper")
    case OperationMerchantLabel
    with valid guard fresh show ?thesis
      by (auto simp: validateLabelOperation_Inr op_guard_def op_fresh_def op_effect_def
          intro: wf_label_merchants[OF wf])
  next
    case OperationMerchantMerge
    with valid guard show ?thesis
      by (auto simp: validateMergeOperation_Inr op_guard_def op_effect_def
          intro: wf_merge_merchants[OF wf])
  next
    case OperationMerchantReassign
    with valid obtain r where r: "op_reassign oper = Some r" and
        created: "\<And>m. reassign_created r = Some m \<Longrightarrow> merchant_id m = reassign_destination r
            \<and> \<not> merchant_retired m \<and> merchant_merged m = None
            \<and> label_ok casefold (merchant_id m) (merchant_label m) (merchant_key m)"
      by (auto simp: validateReassignOperation_Inr)
    show ?thesis
    proof (cases "reassign_created r")
      case None
      with OperationMerchantReassign r guard show ?thesis
        using profile_update_same wf_reassign_merchants[OF wf]
        by (auto simp: op_guard_def op_effect_def)
    next
      case (Some m)
      note m = created[OF Some]
      have "profile_wf casefold (p\<lparr>merchants := merchants p @ [m]\<rparr>)"
        using OperationMerchantReassign r Some fresh m
        by (intro wf_add_merchant[OF wf]) (auto simp: op_fresh_def)
      moreover have "active_merchant (p\<lparr>merchants := merchants p @ [m]\<rparr>) (reassign_destination r)"
        using m by (simp add: has_active_def)
      ultimately show ?thesis
        using OperationMerchantReassign r Some
          wf_reassign_merchants[of casefold "p\<lparr>merchants := merchants p @ [m]\<rparr>"]
        by (auto simp: op_effect_def)
    qed
  next
    case OperationCategoryAssign
    with valid guard show ?thesis
      by (auto simp: validateReassignOperation_Inr op_guard_def op_effect_def
          intro: wf_assign_category[OF wf])
  next
    case OperationCategoryCreate
    with valid obtain c where c: "op_create oper = Some c"
        "label_ok casefold (create_entity c) (create_label c) (create_collision c)"
      by (auto simp: validateCreateOperation_Inr)
    let ?q = "p\<lparr>categories := categories p @ [created_category c]\<rparr>"
    have "profile_wf casefold ?q"
      using OperationCategoryCreate c guard fresh
      by (intro wf_add_category[OF wf]) (auto simp: op_guard_def op_fresh_def)
    moreover have "active_category ?q (create_entity c)"
      by (simp add: has_active_def created_category_def)
    ultimately show ?thesis
      using OperationCategoryCreate c(1) wf_assign_category[of casefold ?q] by (simp add: op_effect_def)
  next
    case OperationCategoryLabel
    with valid guard fresh show ?thesis
      by (auto simp: validateLabelOperation_Inr op_guard_def op_fresh_def op_effect_def
          intro: wf_label_categories[OF wf])
  next
    case OperationCategoryMove
    with valid guard show ?thesis
      by (auto simp: validateMoveOperation_Inr op_guard_def op_effect_def
          intro: wf_move_categories[OF wf])
  next
    case OperationCategoryMerge
    with valid guard show ?thesis
      by (auto simp: validateMergeOperation_Inr op_guard_def op_effect_def
          intro: wf_merge_categories[OF wf])
  next
    case OperationCategoryDelete
    with valid guard show ?thesis
      by (auto simp: validateDeleteOperation_Inr op_guard_def op_effect_def
          intro: wf_merge_categories[OF wf])
  next
    case OperationGroupCreate
    with valid fresh show ?thesis
      by (auto simp: validateCreateOperation_Inr op_fresh_def op_effect_def
          intro: wf_add_group[OF wf])
  next
    case OperationGroupLabel
    with valid guard fresh show ?thesis
      by (auto simp: validateLabelOperation_Inr op_guard_def op_fresh_def op_effect_def
          intro: wf_label_groups[OF wf])
  next
    case OperationGroupMerge
    with valid guard show ?thesis
      by (auto simp: validateMergeOperation_Inr op_guard_def op_effect_def
          intro: wf_merge_groups[OF wf])
  next
    case OperationGroupDelete
    with valid guard show ?thesis
      by (auto simp: validateDeleteOperation_Inr op_guard_def op_effect_def
          intro: wf_merge_groups[OF wf])
  next
    case OperationTransactionHide
    with wf_toggle_hidden[OF wf] show ?thesis by (simp add: op_effect_def)
  next
    case OperationTransactionDelete
    with wf_filter_transactions[OF wf] show ?thesis by (simp add: op_effect_def)
  next
    case (OperationUnknown s)
    with valid show ?thesis by simp
  qed
qed

lemma key_free_relabel:
  assumes "distinct (active_keys key retired (map (\<lambda>x. if ident x = e then f x else x) xs))"
    and "has_active ident retired xs e"
    and "\<And>x. ident (f x) = ident x" "\<And>x. retired (f x) = retired x" "\<And>x. key (f x) = k"
  shows "key_free ident key retired xs e k"
  unfolding key_free_def
proof (intro ballI impI notI)
  fix x assume x: "x \<in> set xs" "ident x \<noteq> e \<and> \<not> retired x" "key x = k"
  from assms(2) obtain y where y: "y \<in> set xs" "ident y = e" "\<not> retired y"
    by (auto simp: has_active_def)
  let ?ys = "filter (\<lambda>x. \<not> retired x) (map (\<lambda>x. if ident x = e then f x else x) xs)"
  have "x \<in> set ?ys" "f y \<in> set ?ys" using x y by (auto simp: assms(4) image_iff intro!: bexI)
  moreover have "inj_on key (set ?ys)" using assms(1) by (simp add: active_keys_def distinct_map)
  ultimately have "x = f y" by (intro inj_onD[of key "set ?ys"]) (simp_all only: x(3) assms(5))
  with x(2) y(2) show False by (simp add: assms(3))
qed

lemma key_free_snoc:
  assumes "distinct (active_keys key retired (xs @ [m]))" and "\<not> retired m" and "key m = k"
  shows "key_free ident key retired xs e k"
proof -
  have "k \<notin> key ` {x \<in> set xs. \<not> retired x}"
    using assms by (simp add: active_keys_snoc active_keys_def)
  then show ?thesis unfolding key_free_def by blast
qed

lemma map_record_pairs:
  "map record_id xs = map record_id ys \<Longrightarrow> map (\<lambda>t. (record_id t, kind)) xs = map (\<lambda>t. (record_id t, kind)) ys"
  by (drule arg_cong[where f = "map (\<lambda>i. (i, kind))"]) (simp add: comp_def)

lemma fresh_id_added:
  assumes wf: "profile_wf casefold p" and wf': "profile_wf casefold q"
    and "mset (entity_kinds q) = add_mset (k, kind) (mset (entity_kinds p))"
    and "identities q = identities p" and "kind \<noteq> EntityKindTransaction"
  shows "fresh_id p k"
proof -
  have m: "mset (entity_kinds q) = mset ((k, kind) # entity_kinds p)" using assms(3) by simp
  have k: "k \<notin> fst ` set (entity_kinds p)"
    using distinct_map_mset[OF m, of fst] wf' by (simp add: profile_wf_def ids_wf_def)
  moreover have "identity_entity i \<noteq> k" if i: "i \<in> set (identities p)" for i
  proof
    assume e: "identity_entity i = k"
    have "identity_wf p i" "identity_wf q i"
      using wf wf' i assms(4) by (simp_all add: profile_wf_def identities_wf_def)
    have kinds: "set (entity_kinds q) = insert (k, kind) (set (entity_kinds p))"
      using mset_eq_setD[OF m] by simp
    have not_in: "(k, kd) \<notin> set (entity_kinds p)" for kd
      using k by (metis fst_conv imageI)
    from \<open>identity_wf p i\<close> not_in have "identity_kind i = EntityKindTransaction"
      by (simp add: identity_wf_def e)
    moreover from \<open>identity_wf q i\<close> not_in have "identity_kind i = kind"
      by (simp add: identity_wf_def e kinds)
    ultimately show False using assms(5) by simp
  qed
  ultimately show ?thesis by (simp add: fresh_id_def)
qed

lemma op_effect_wf_fresh:
  assumes wf: "profile_wf casefold p" and stored: "ValidateStored casefold oper = Inr ()"
    and guard: "op_guard p oper" and wf': "profile_wf casefold (op_effect oper p)"
  shows "op_fresh p oper"
proof -
  note valid = ValidateStored_payload[OF stored, unfolded validatePayload_def]
  note keys = profile_wf_parts(4)[OF wf', unfolded collisions_wf_def]
  show ?thesis
  proof (cases "op_type oper")
    case OperationMerchantLabel
    with valid guard obtain l where l: "op_label oper = Some l" "active_merchant p (label_entity l)"
      by (auto simp: validateLabelOperation_Inr op_guard_def)
    with OperationMerchantLabel keys
    have "key_free merchant_id merchant_key merchant_retired (merchants p) (label_entity l) (label_collision l)"
      by (intro key_free_relabel[where f = "\<lambda>m. m\<lparr>merchant_label := label_text l,
            merchant_key := label_collision l\<rparr>"]) (simp_all add: op_effect_def label_merchants_def)
    with OperationMerchantLabel l show ?thesis by (simp add: op_fresh_def)
  next
    case OperationCategoryLabel
    with valid guard obtain l where l: "op_label oper = Some l" "active_category p (label_entity l)"
      by (auto simp: validateLabelOperation_Inr op_guard_def open_category_def)
    with OperationCategoryLabel keys
    have "key_free category_id category_key category_retired (categories p) (label_entity l) (label_collision l)"
      by (intro key_free_relabel[where f = "\<lambda>m. m\<lparr>category_label := label_text l,
            category_key := label_collision l\<rparr>"]) (simp_all add: op_effect_def label_categories_def)
    with OperationCategoryLabel l show ?thesis by (simp add: op_fresh_def)
  next
    case OperationGroupLabel
    with valid guard obtain l where l: "op_label oper = Some l" "active_group p (label_entity l)"
      by (auto simp: validateLabelOperation_Inr op_guard_def open_group_def)
    with OperationGroupLabel keys
    have "key_free group_id group_key group_retired (groups p) (label_entity l) (label_collision l)"
      by (intro key_free_relabel[where f = "\<lambda>m. m\<lparr>group_label := label_text l,
            group_key := label_collision l\<rparr>"]) (simp_all add: op_effect_def label_groups_def)
    with OperationGroupLabel l show ?thesis by (simp add: op_fresh_def)
  next
    case OperationMerchantReassign
    with valid obtain r where r: "op_reassign oper = Some r" and
        created: "\<And>m. reassign_created r = Some m \<Longrightarrow> merchant_id m = reassign_destination r
            \<and> \<not> merchant_retired m"
      by (auto simp: validateReassignOperation_Inr)
    show ?thesis
    proof (cases "reassign_created r")
      case None
      with OperationMerchantReassign r show ?thesis by (simp add: op_fresh_def)
    next
      case (Some m)
      let ?ts = "on_targets (op_targets oper) (\<lambda>t. t\<lparr>record_merchant := reassign_destination r\<rparr>)
          (transactions p)"
      have q: "op_effect oper p = p\<lparr>merchants := merchants p @ [m], transactions := ?ts\<rparr>"
        using OperationMerchantReassign r Some by (simp add: op_effect_def)
      have ids: "map record_id ?ts = map record_id (transactions p)"
        by (rule record_ids_on_targets) simp
      then have kinds: "map (\<lambda>t. (record_id t, EntityKindTransaction)) ?ts
          = map (\<lambda>t. (record_id t, EntityKindTransaction)) (transactions p)"
        by (rule map_record_pairs)
      have "fresh_id p (merchant_id m)"
        by (rule fresh_id_added[OF wf wf', where kind = EntityKindMerchant])
          (simp_all add: q entity_kinds_def kinds)
      moreover have "key_free merchant_id merchant_key merchant_retired (merchants p)
          (merchant_id m) (merchant_key m)"
        by (rule key_free_snoc[where m = m]) (use keys created[OF Some] q in simp_all)
      ultimately show ?thesis
        using OperationMerchantReassign r Some by (simp add: op_fresh_def)
    qed
  next
    case OperationCategoryCreate
    with valid obtain c where c: "op_create oper = Some c"
      by (auto simp: validateCreateOperation_Inr)
    let ?ts = "on_targets (if op_targets oper = [create_entity c] then [] else op_targets oper)
        (\<lambda>t. t\<lparr>record_category := create_entity c\<rparr>) (transactions p)"
    have q: "op_effect oper p = p\<lparr>categories := categories p @ [created_category c], transactions := ?ts\<rparr>"
      using OperationCategoryCreate c by (simp add: op_effect_def)
    have ids: "map record_id ?ts = map record_id (transactions p)"
      by (rule record_ids_on_targets) simp
    then have kinds: "map (\<lambda>t. (record_id t, EntityKindTransaction)) ?ts
        = map (\<lambda>t. (record_id t, EntityKindTransaction)) (transactions p)"
      by (rule map_record_pairs)
    have "fresh_id p (create_entity c)"
      by (rule fresh_id_added[OF wf wf', where kind = EntityKindCategory])
        (simp_all add: q entity_kinds_def kinds created_category_def)
    moreover have "key_free category_id category_key category_retired (categories p)
        (create_entity c) (create_collision c)"
      by (rule key_free_snoc[where m = "created_category c"])
        (use keys q in \<open>simp_all add: created_category_def\<close>)
    ultimately show ?thesis using OperationCategoryCreate c by (simp add: op_fresh_def)
  next
    case OperationGroupCreate
    with valid obtain c where c: "op_create oper = Some c"
      by (auto simp: validateCreateOperation_Inr)
    have q: "op_effect oper p = p\<lparr>groups := groups p @ [created_group c]\<rparr>"
      using OperationGroupCreate c by (simp add: op_effect_def)
    have "fresh_id p (create_entity c)"
      by (rule fresh_id_added[OF wf wf', where kind = EntityKindGroup])
        (simp_all add: q entity_kinds_def created_group_def)
    moreover have "key_free group_id group_key group_retired (groups p)
        (create_entity c) (create_collision c)"
      by (rule key_free_snoc[where m = "created_group c"])
        (use keys q in \<open>simp_all add: created_group_def\<close>)
    ultimately show ?thesis using OperationGroupCreate c by (simp add: op_fresh_def)
  qed (use valid in \<open>simp_all add: op_fresh_def\<close>)
qed

lemma ApplyOperation_accepts:
  "(\<exists>q. ApplyOperation casefold p oper = Inr q) \<longleftrightarrow> profile_wf casefold p
     \<and> ValidateStored casefold oper = Inr () \<and> op_guard p oper \<and> op_fresh p oper"
proof -
  have "profile_wf casefold (op_effect oper p) \<longleftrightarrow> op_fresh p oper"
    if "profile_wf casefold p" "ValidateStored casefold oper = Inr ()" "op_guard p oper"
    using op_effect_wf[OF that] op_effect_wf_fresh[OF that] by blast
  then show ?thesis by (auto simp: ApplyOperation_Inr)
qed

subsection \<open>Properties\<close>

text \<open>
  C5. An operation is accepted on a valid profile exactly when it is a valid stored operation, its
  guard holds and what it creates is fresh: the created identity is used by no entity and no
  external identity, and the new collision key by no other active entity of its table.  The result
  of an accepted operation satisfies all parts of the profile invariant again.
\<close>

theorem ApplyOperation_accepts_iff:
  "((\<exists>q. ApplyOperation casefold p oper = Inr q) \<longleftrightarrow>
      profile_wf casefold p \<and> ValidateStored casefold oper = Inr () \<and> op_guard p oper
      \<and> op_fresh p oper)
   \<and> (case ApplyOperation casefold p oper of Inl _ \<Rightarrow> True | Inr q \<Rightarrow> profile_wf casefold q)"
proof
  show "(\<exists>q. ApplyOperation casefold p oper = Inr q) \<longleftrightarrow>
      profile_wf casefold p \<and> ValidateStored casefold oper = Inr () \<and> op_guard p oper
      \<and> op_fresh p oper"
    by (rule ApplyOperation_accepts)
next
  show "case ApplyOperation casefold p oper of Inl _ \<Rightarrow> True | Inr q \<Rightarrow> profile_wf casefold q"
    by (auto simp: ApplyOperation_Inr split: sum.split)
qed

end
