(* ===== verification/Replay.thy ===== *)
theory Replay
  imports Apply_Preserves
begin

text \<open>
  The indexed replay of \<open>internal/replay/replay.go\<close>.  \<open>Replay\<close> does not sort or validate between
  operations: it keeps the positions of the transactions, defers the deletion of transactions to
  the end and watches active collision keys in an index per table.  The maps of the index are
  functions, updated in place as the code updates them.

  The main lemma is a simulation.  While the reference \<open>ApplyOperation\<close> sorts, deletes and
  validates after every operation, the indexed state holds the same rows in another order, with
  the deleted transactions still in place.
\<close>

subsection \<open>The indexes\<close>

record collision_index =
  by_key :: "string \<rightharpoonup> entity_id"
  by_id :: "entity_id \<rightharpoonup> string"

definition newCollisionIndex :: collision_index where
  "newCollisionIndex = \<lparr>by_key = Map.empty, by_id = Map.empty\<rparr>"

definition addKnown :: "collision_index \<Rightarrow> entity_id \<Rightarrow> string \<Rightarrow> bool \<Rightarrow> collision_index" where
  "addKnown index ident key active =
     (if \<not> active then index
      else index\<lparr>by_key := (by_key index)(key \<mapsto> ident), by_id := (by_id index)(ident \<mapsto> key)\<rparr>)"

definition removeKnown :: "collision_index \<Rightarrow> entity_id \<Rightarrow> collision_index" where
  "removeKnown index ident =
     (case by_id index ident of
        None \<Rightarrow> index
      | Some previous \<Rightarrow>
          index\<lparr>by_key := (by_key index)(previous := None), by_id := (by_id index)(ident := None)\<rparr>)"

text \<open>\<open>None\<close> is the duplicate error.\<close>

definition updateCollision ::
    "collision_index \<Rightarrow> entity_id \<Rightarrow> string \<Rightarrow> bool \<Rightarrow> collision_index option" where
  "updateCollision index ident key active =
     (let removed = removeKnown index ident in
      if \<not> active then Some removed
      else case by_key removed key of
        Some other \<Rightarrow> if other \<noteq> ident then None else Some (addKnown removed ident key True)
      | None \<Rightarrow> Some (addKnown removed ident key True))"

record replay_indexes =
  idx_transactions :: "entity_id \<rightharpoonup> nat"
  idx_deleted :: "entity_id set"
  idx_merchants :: collision_index
  idx_categories :: collision_index
  idx_groups :: collision_index

definition newReplayIndexes :: "profile \<Rightarrow> replay_indexes" where
  "newReplayIndexes p =
     \<lparr>idx_transactions = transaction_positions (transactions p), idx_deleted = {},
      idx_merchants = foldl (\<lambda>index m.
        addKnown index (merchant_id m) (merchant_key m) (\<not> merchant_retired m))
        newCollisionIndex (merchants p),
      idx_categories = foldl (\<lambda>index c.
        addKnown index (category_id c) (category_key c) (\<not> category_retired c))
        newCollisionIndex (categories p),
      idx_groups = foldl (\<lambda>index g.
        addKnown index (group_id g) (group_key g) (\<not> group_retired g))
        newCollisionIndex (groups p)\<rparr>"

definition indexedTransactionPositions ::
    "replay_indexes \<Rightarrow> entity_id list \<Rightarrow> apply_error + nat list" where
  "indexedTransactionPositions indexes targets = lookup_positions (idx_transactions indexes) targets"

subsection \<open>Operations on the indexed state\<close>

definition applyMerchantReassignIndexed ::
    "profile \<Rightarrow> operation \<Rightarrow> replay_indexes \<Rightarrow> apply_error + profile" where
  "applyMerchantReassignIndexed p oper indexes =
     bind_result (the_payload (op_reassign oper)) (\<lambda>payload.
     bind_result (add_created_merchant p (reassign_created payload)) (\<lambda>q.
     bind_result (activeMerchant q (reassign_destination payload)) (\<lambda>_.
     bind_result (indexedTransactionPositions indexes (op_targets oper)) (\<lambda>positions.
     bind_result (update_positions (\<lambda>r. r\<lparr>record_merchant := reassign_destination payload\<rparr>)
       (transactions q) positions) (\<lambda>ts.
     Inr (q\<lparr>transactions := ts\<rparr>))))))"

definition applyCategoryAssignIndexed ::
    "profile \<Rightarrow> operation \<Rightarrow> replay_indexes \<Rightarrow> apply_error + profile" where
  "applyCategoryAssignIndexed p oper indexes =
     bind_result (the_payload (op_reassign oper)) (\<lambda>payload.
     bind_result (activeCategory p (reassign_destination payload)) (\<lambda>_.
     bind_result (indexedTransactionPositions indexes (op_targets oper)) (\<lambda>positions.
     bind_result (update_positions (\<lambda>r. r\<lparr>record_category := reassign_destination payload\<rparr>)
       (transactions p) positions) (\<lambda>ts.
     Inr (p\<lparr>transactions := ts\<rparr>)))))"

definition applyCategoryCreateIndexed ::
    "profile \<Rightarrow> operation \<Rightarrow> replay_indexes \<Rightarrow> apply_error + profile" where
  "applyCategoryCreateIndexed p oper indexes =
     bind_result (the_payload (op_create oper)) (\<lambda>payload.
     if categoryIndex p (create_entity payload) \<noteq> None then Inl CreatedCategoryExists else
     bind_result (activeGroup p (create_parent payload)) (\<lambda>_.
     let q = p\<lparr>categories := categories p @ [created_category payload]\<rparr> in
     bind_result (only_target oper (create_entity payload)) (\<lambda>own.
     if own then Inr q else
     bind_result (indexedTransactionPositions indexes (op_targets oper)) (\<lambda>positions.
     bind_result (update_positions (\<lambda>r. r\<lparr>record_category := create_entity payload\<rparr>)
       (transactions q) positions) (\<lambda>ts.
     Inr (q\<lparr>transactions := ts\<rparr>))))))"

definition applyHideToggleIndexed ::
    "profile \<Rightarrow> operation \<Rightarrow> replay_indexes \<Rightarrow> apply_error + profile" where
  "applyHideToggleIndexed p oper indexes =
     bind_result (indexedTransactionPositions indexes (op_targets oper)) (\<lambda>positions.
     bind_result (update_positions toggle_hidden (transactions p) positions) (\<lambda>ts.
     Inr (p\<lparr>transactions := ts\<rparr>)))"

definition applyTransactionDeleteIndexed ::
    "operation \<Rightarrow> replay_indexes \<Rightarrow> apply_error + replay_indexes" where
  "applyTransactionDeleteIndexed oper indexes =
     bind_result (indexedTransactionPositions indexes (op_targets oper)) (\<lambda>_.
     Inr (foldl (\<lambda>idx target. idx\<lparr>idx_transactions := (idx_transactions idx)(target := None),
            idx_deleted := insert target (idx_deleted idx)\<rparr>) indexes (op_targets oper)))"

text \<open>Indexing a slice with the result of a failed search reads element 0, or panics.\<close>

definition row_at :: "'a list \<Rightarrow> nat option \<Rightarrow> apply_error + 'a" where
  "row_at rows found =
     read_at rows (case found of Some i \<Rightarrow> i | None \<Rightarrow> 0)"

definition checkCollision ::
    "operation \<Rightarrow> entity_kind \<Rightarrow> string \<Rightarrow> collision_index option \<Rightarrow>
     (collision_index \<Rightarrow> replay_indexes) \<Rightarrow> replay_error + replay_indexes" where
  "checkCollision oper kind key updated store =
     (case updated of
        None \<Rightarrow> Inl (CollisionDuplicated (op_type oper) kind key)
      | Some index \<Rightarrow> Inr (store index))"

definition updateReplayCollisionIndexes ::
    "profile \<Rightarrow> operation \<Rightarrow> replay_indexes \<Rightarrow> replay_error + replay_indexes" where
  "updateReplayCollisionIndexes p oper idx =
     (let failed = ApplyFailed (op_type oper);
          merchant_update = (\<lambda>ident key active. checkCollision oper EntityKindMerchant key
            (updateCollision (idx_merchants idx) ident key active) (\<lambda>i. idx\<lparr>idx_merchants := i\<rparr>));
          category_update = (\<lambda>ident key active. checkCollision oper EntityKindCategory key
            (updateCollision (idx_categories idx) ident key active) (\<lambda>i. idx\<lparr>idx_categories := i\<rparr>));
          group_update = (\<lambda>ident key active. checkCollision oper EntityKindGroup key
            (updateCollision (idx_groups idx) ident key active) (\<lambda>i. idx\<lparr>idx_groups := i\<rparr>))
      in case op_type oper of
        OperationMerchantLabel \<Rightarrow>
          bind_result (map_error failed (the_payload (op_label oper))) (\<lambda>payload.
          bind_result (map_error failed (row_at (merchants p) (merchantIndex p (label_entity payload))))
            (\<lambda>value. merchant_update (merchant_id value) (merchant_key value) True))
      | OperationMerchantReassign \<Rightarrow>
          bind_result (map_error failed (the_payload (op_reassign oper))) (\<lambda>payload.
          case reassign_created payload of
            None \<Rightarrow> Inr idx
          | Some value \<Rightarrow> merchant_update (merchant_id value) (merchant_key value) True)
      | OperationMerchantMerge \<Rightarrow>
          bind_result (map_error failed (the_payload (op_merge oper))) (\<lambda>payload.
          merchant_update (merge_source payload) '''' False)
      | OperationCategoryCreate \<Rightarrow>
          bind_result (map_error failed (the_payload (op_create oper))) (\<lambda>payload.
          bind_result (map_error failed (row_at (categories p) (categoryIndex p (create_entity payload))))
            (\<lambda>value. category_update (category_id value) (category_key value) True))
      | OperationCategoryLabel \<Rightarrow>
          bind_result (map_error failed (the_payload (op_label oper))) (\<lambda>payload.
          bind_result (map_error failed (row_at (categories p) (categoryIndex p (label_entity payload))))
            (\<lambda>value. category_update (category_id value) (category_key value) True))
      | OperationCategoryMerge \<Rightarrow>
          bind_result (map_error failed (the_payload (op_merge oper))) (\<lambda>payload.
          category_update (merge_source payload) '''' False)
      | OperationCategoryDelete \<Rightarrow>
          bind_result (map_error failed (the_payload (op_delete oper))) (\<lambda>payload.
          category_update (delete_source payload) '''' False)
      | OperationGroupCreate \<Rightarrow>
          bind_result (map_error failed (the_payload (op_create oper))) (\<lambda>payload.
          bind_result (map_error failed (row_at (groups p) (groupIndex p (create_entity payload))))
            (\<lambda>value. group_update (group_id value) (group_key value) True))
      | OperationGroupLabel \<Rightarrow>
          bind_result (map_error failed (the_payload (op_label oper))) (\<lambda>payload.
          bind_result (map_error failed (row_at (groups p) (groupIndex p (label_entity payload))))
            (\<lambda>value. group_update (group_id value) (group_key value) True))
      | OperationGroupMerge \<Rightarrow>
          bind_result (map_error failed (the_payload (op_merge oper))) (\<lambda>payload.
          group_update (merge_source payload) '''' False)
      | OperationGroupDelete \<Rightarrow>
          bind_result (map_error failed (the_payload (op_delete oper))) (\<lambda>payload.
          group_update (delete_source payload) '''' False)
      | _ \<Rightarrow> Inr idx)"

definition dispatchIndexed ::
    "profile \<Rightarrow> operation \<Rightarrow> replay_indexes \<Rightarrow> apply_error + profile \<times> replay_indexes" where
  "dispatchIndexed p oper idx =
     (let keep = (\<lambda>r. bind_result r (\<lambda>q. Inr (q, idx))) in
      case op_type oper of
        OperationMerchantReassign \<Rightarrow> keep (applyMerchantReassignIndexed p oper idx)
      | OperationCategoryAssign \<Rightarrow> keep (applyCategoryAssignIndexed p oper idx)
      | OperationCategoryCreate \<Rightarrow> keep (applyCategoryCreateIndexed p oper idx)
      | OperationTransactionHide \<Rightarrow> keep (applyHideToggleIndexed p oper idx)
      | OperationTransactionDelete \<Rightarrow>
          bind_result (applyTransactionDeleteIndexed oper idx) (\<lambda>idx'. Inr (p, idx'))
      | _ \<Rightarrow> keep (dispatchOperation p oper))"

definition applyOperationForReplay ::
    "(string \<Rightarrow> string) \<Rightarrow> profile \<times> replay_indexes \<Rightarrow> operation \<Rightarrow>
     replay_error + profile \<times> replay_indexes" where
  "applyOperationForReplay casefold state oper =
     bind_result (map_error OperationInvalid (ValidateStored casefold oper)) (\<lambda>_.
     bind_result (map_error (ApplyFailed (op_type oper)) (dispatchIndexed (fst state) oper (snd state)))
       (\<lambda>(q, idx).
     bind_result (updateReplayCollisionIndexes q oper idx) (\<lambda>idx'. Inr (q, idx'))))"

definition compactDeletedTransactions :: "profile \<Rightarrow> entity_id set \<Rightarrow> profile" where
  "compactDeletedTransactions p deleted =
     (if deleted = {} then p
      else p\<lparr>transactions := filter (\<lambda>r. record_id r \<notin> deleted) (transactions p)\<rparr>)"

fun replayOperations ::
    "(string \<Rightarrow> string) \<Rightarrow> nat \<Rightarrow> profile \<times> replay_indexes \<Rightarrow> operation list \<Rightarrow>
     replay_error + profile \<times> replay_indexes" where
  "replayOperations casefold index state [] = Inr state"
| "replayOperations casefold index state (oper # rest) =
     bind_result (map_error (ReplayFailed index) (applyOperationForReplay casefold state oper))
       (\<lambda>state'. replayOperations casefold (index + 1) state' rest)"

record effective_snapshot =
  eff_revision :: uint64
  eff_cursor :: int
  eff_committed :: profile
  eff_effective :: profile
  eff_journal :: "operation list"
  eff_drills :: "drill_identity list"

definition replay_effective ::
    "(string \<Rightarrow> string) \<Rightarrow> profile_snapshot \<Rightarrow> replay_error + profile" where
  "replay_effective casefold s =
     (if snap_cursor s > 0 then
        bind_result (replayOperations casefold 0
            (snap_committed s, newReplayIndexes (snap_committed s))
            (take (nat (snap_cursor s)) (snap_journal s))) (\<lambda>(p, idx).
        let compacted = compactDeletedTransactions p (idx_deleted idx) in
        bind_result (map_error ReplayResultInvalid (ValidateProfile casefold compacted))
          (\<lambda>_. Inr compacted))
      else Inr (snap_committed s))"

definition Replay ::
    "(string \<Rightarrow> string) \<Rightarrow> profile_snapshot \<Rightarrow> replay_error + effective_snapshot" where
  "Replay casefold s =
     bind_result (map_error SnapshotInvalid (ValidateSnapshot casefold s)) (\<lambda>_.
     bind_result (replay_effective casefold s) (\<lambda>effective.
     Inr \<lparr>eff_revision = snap_revision s, eff_cursor = snap_cursor s,
          eff_committed = snap_committed s, eff_effective = sortCommittedProfile effective,
          eff_journal = snap_journal s, eff_drills = snap_drills s\<rparr>))"

subsection \<open>The collision index as a set of pairs\<close>

text \<open>
  What replay relies on: an index stands for the set of pairs of identity and key of the active
  rows; an update is refused exactly when another identity has the key.
\<close>

definition active_pairs ::
    "('a \<Rightarrow> entity_id) \<Rightarrow> ('a \<Rightarrow> string) \<Rightarrow> ('a \<Rightarrow> bool) \<Rightarrow> 'a list \<Rightarrow> (entity_id \<times> string) set" where
  "active_pairs ident key retired xs = {(ident x, key x) |x. x \<in> set xs \<and> \<not> retired x}"

locale key_index =
  fixes rep :: "'i \<Rightarrow> (entity_id \<times> string) set \<Rightarrow> bool"
    and init :: 'i
    and add :: "'i \<Rightarrow> entity_id \<Rightarrow> string \<Rightarrow> bool \<Rightarrow> 'i"
    and update :: "'i \<Rightarrow> entity_id \<Rightarrow> string \<Rightarrow> bool \<Rightarrow> 'i option"
  assumes rep_init: "rep init {}"
    and rep_add: "rep i S \<Longrightarrow> \<forall>(a, k)\<in>S. a \<noteq> ident \<and> k \<noteq> key \<Longrightarrow>
      rep (add i ident key True) (insert (ident, key) S)"
    and add_inactive: "add i ident key False = i"
    and update_inactive: "rep i S \<Longrightarrow>
      \<exists>j. update i ident key False = Some j \<and> rep j {x \<in> S. fst x \<noteq> ident}"
    and update_active: "rep i S \<Longrightarrow> \<forall>(a, k)\<in>S. a \<noteq> ident \<longrightarrow> k \<noteq> key \<Longrightarrow>
      \<exists>j. update i ident key True = Some j \<and> rep j (insert (ident, key) {x \<in> S. fst x \<noteq> ident})"
    and update_conflict: "rep i S \<Longrightarrow> (a, key) \<in> S \<Longrightarrow> a \<noteq> ident \<Longrightarrow> update i ident key True = None"
begin

lemma tracks_build:
  assumes "distinct (map ident xs)" and "distinct (active_keys key retired xs)"
  shows "rep (foldl (\<lambda>i x. add i (ident x) (key x) (\<not> retired x)) init xs) (active_pairs ident key retired xs)"
  using assms
proof (induction xs rule: rev_induct)
  case Nil
  show ?case by (simp add: active_pairs_def rep_init)
next
  case (snoc x xs)
  let ?i = "foldl (\<lambda>i x. add i (ident x) (key x) (\<not> retired x)) init xs"
  from snoc have IH: "rep ?i (active_pairs ident key retired xs)" by (simp add: active_keys_snoc)
  show ?case
  proof (cases "retired x")
    case True
    then have "{(ident y, key y) |y. y \<in> set (xs @ [x]) \<and> \<not> retired y}
        = {(ident y, key y) |y. y \<in> set xs \<and> \<not> retired y}" by auto
    with True IH show ?thesis by (simp add: active_pairs_def add_inactive)
  next
    case False
    have new: "{(ident y, key y) |y. y \<in> set (xs @ [x]) \<and> \<not> retired y}
        = insert (ident x, key x) {(ident y, key y) |y. y \<in> set xs \<and> \<not> retired y}"
      using False by auto
    let ?S = "{(ident y, key y) |y. y \<in> set xs \<and> \<not> retired y}"
    have ids: "\<forall>y\<in>set xs. ident y \<noteq> ident x" using snoc.prems(1) by (simp add: image_iff) metis
    have keys: "\<forall>y\<in>set xs. \<not> retired y \<longrightarrow> key y \<noteq> key x"
    proof -
      have "key x \<notin> key ` {y \<in> set xs. \<not> retired y}"
        using snoc.prems(2) False by (simp add: active_keys_def)
      then show ?thesis by (metis (mono_tags, lifting) imageI mem_Collect_eq)
    qed
    have fresh: "a \<noteq> ident x \<and> k \<noteq> key x" if "(a, k) \<in> ?S" for a k
    proof -
      from that obtain y where "y \<in> set xs" "\<not> retired y" "a = ident y" "k = key y" by blast
      with ids keys show ?thesis by simp
    qed
    have "rep ?i ?S" using IH by (simp only: active_pairs_def)
    then have "rep (add ?i (ident x) (key x) True) (insert (ident x, key x) ?S)"
      by (rule rep_add) (use fresh in blast)
    with False show ?thesis unfolding active_pairs_def new by simp
  qed
qed

lemma tracks_relabel:
  assumes "rep i (active_pairs ident key retired xs)" and "has_active ident retired xs e"
    and "\<And>x. ident (f x) = ident x" "\<And>x. retired (f x) = retired x" "\<And>x. key (f x) = k"
    and "distinct (map ident xs)"
  shows "key_free ident key retired xs e k \<longleftrightarrow> update i e k True \<noteq> None"
    and "update i e k True = Some j \<Longrightarrow>
      rep j (active_pairs ident key retired (map (\<lambda>x. if ident x = e then f x else x) xs))"
proof -
  let ?S = "{(ident x, key x) |x. x \<in> set xs \<and> \<not> retired x}"
  have new: "{(ident x, key x) |x. x \<in> set (map (\<lambda>x. if ident x = e then f x else x) xs) \<and> \<not> retired x}
      = insert (e, k) {x \<in> ?S. fst x \<noteq> e}"
  proof -
    from assms(2) obtain y where y: "y \<in> set xs" "ident y = e" "\<not> retired y"
      by (auto simp: has_active_def)
    have "(e, k) \<in> {(ident x, key x) |x. x \<in> set (map (\<lambda>x. if ident x = e then f x else x) xs) \<and> \<not> retired x}"
      using y assms(3-5) by (intro CollectI exI[of _ "f y"]) (auto simp: image_iff intro!: bexI[of _ y])
    moreover have "{(ident x, key x) |x. x \<in> set (map (\<lambda>x. if ident x = e then f x else x) xs) \<and> \<not> retired x}
        \<subseteq> insert (e, k) {x \<in> ?S. fst x \<noteq> e}"
      using assms(3-5) by (auto split: if_splits)
    moreover have "{x \<in> ?S. fst x \<noteq> e}
        \<subseteq> {(ident x, key x) |x. x \<in> set (map (\<lambda>x. if ident x = e then f x else x) xs) \<and> \<not> retired x}"
      by (auto simp: image_iff)
    ultimately show ?thesis by blast
  qed
  have free: "key_free ident key retired xs e k \<longleftrightarrow> (\<forall>(a, k')\<in>?S. a \<noteq> e \<longrightarrow> k' \<noteq> k)"
    by (auto simp: key_free_def)
  have S: "rep i ?S" using assms(1) by (simp add: active_pairs_def)
  show iff: "key_free ident key retired xs e k \<longleftrightarrow> update i e k True \<noteq> None"
    unfolding free using update_active[OF S, of e k] update_conflict[OF S, of _ k e] by fastforce
  assume "update i e k True = Some j"
  with iff free have "\<forall>(a, k')\<in>?S. a \<noteq> e \<longrightarrow> k' \<noteq> k" by blast
  from update_active[OF S this] \<open>update i e k True = Some j\<close>
  show "rep j (active_pairs ident key retired (map (\<lambda>x. if ident x = e then f x else x) xs))"
    unfolding active_pairs_def new by auto
qed

lemma tracks_retire:
  assumes "rep i (active_pairs ident key retired xs)"
    and "\<And>x. ident (g x) = ident x" "\<And>x. retired (g x) \<longleftrightarrow> retired x \<or> ident x = s"
    and "\<And>x. key (g x) = key x"
  shows "\<exists>j. update i s k False = Some j \<and> rep j (active_pairs ident key retired (map g xs))"
proof -
  let ?S = "{(ident x, key x) |x. x \<in> set xs \<and> \<not> retired x}"
  have new: "{(ident x, key x) |x. x \<in> set (map g xs) \<and> \<not> retired x} = {x \<in> ?S. fst x \<noteq> s}"
    by (auto simp: assms(2-4)) (metis assms(2-4) imageI)
  from assms(1) have "rep i ?S" by (simp add: active_pairs_def)
  from update_inactive[OF this] show ?thesis unfolding active_pairs_def new by auto
qed

lemma tracks_add:
  assumes "rep i (active_pairs ident key retired xs)" and "\<forall>x\<in>set xs. ident x \<noteq> ident m" and "\<not> retired m"
  shows "key_free ident key retired xs (ident m) (key m) \<longleftrightarrow> update i (ident m) (key m) True \<noteq> None"
    and "update i (ident m) (key m) True = Some j \<Longrightarrow> rep j (active_pairs ident key retired (xs @ [m]))"
proof -
  let ?S = "{(ident x, key x) |x. x \<in> set xs \<and> \<not> retired x}"
  have old: "{x \<in> ?S. fst x \<noteq> ident m} = ?S" using assms(2) by auto
  have new: "{(ident x, key x) |x. x \<in> set (xs @ [m]) \<and> \<not> retired x} = insert (ident m, key m) ?S"
    using assms(3) by auto
  have free: "key_free ident key retired xs (ident m) (key m)
      \<longleftrightarrow> (\<forall>(a, k')\<in>?S. a \<noteq> ident m \<longrightarrow> k' \<noteq> key m)"
    by (auto simp: key_free_def)
  have S: "rep i ?S" using assms(1) by (simp add: active_pairs_def)
  show iff: "key_free ident key retired xs (ident m) (key m) \<longleftrightarrow> update i (ident m) (key m) True \<noteq> None"
    unfolding free using update_active[OF S, of "ident m" "key m"]
      update_conflict[OF S, of _ "key m" "ident m"] by fastforce
  assume "update i (ident m) (key m) True = Some j"
  with iff free have "\<forall>(a, k')\<in>?S. a \<noteq> ident m \<longrightarrow> k' \<noteq> key m" by blast
  from update_active[OF S this] \<open>update i (ident m) (key m) True = Some j\<close>
  show "rep j (active_pairs ident key retired (xs @ [m]))"
    unfolding active_pairs_def new old by auto
qed

end

definition index_rep :: "collision_index \<Rightarrow> (entity_id \<times> string) set \<Rightarrow> bool" where
  "index_rep index S \<longleftrightarrow> (\<forall>i k. by_id index i = Some k \<longleftrightarrow> (i, k) \<in> S)
     \<and> (\<forall>i k. by_key index k = Some i \<longleftrightarrow> (i, k) \<in> S)"

lemma index_rep_remove:
  assumes "index_rep index S"
  shows "index_rep (removeKnown index ident) {x \<in> S. fst x \<noteq> ident}"
proof (cases "by_id index ident")
  case None
  with assms have "\<forall>k. (ident, k) \<notin> S" unfolding index_rep_def by (metis option.distinct(1))
  then have "{x \<in> S. fst x \<noteq> ident} = S" by auto
  with assms None show ?thesis by (simp add: removeKnown_def)
next
  case (Some previous)
  note by_id = assms[unfolded index_rep_def, THEN conjunct1, rule_format]
    and by_key = assms[unfolded index_rep_def, THEN conjunct2, rule_format]
  from Some have mem: "(ident, previous) \<in> S" by (simp only: by_id)
  have one: "k = previous" if "(ident, k) \<in> S" for k
    using that Some by (simp only: by_id[symmetric] option.inject)
  have other: "i = ident" if "(i, previous) \<in> S" for i
    using that mem by (simp only: by_key[symmetric] option.inject)
  have "(by_id (removeKnown index ident) i = Some k) = ((i, k) \<in> {x \<in> S. fst x \<noteq> ident})" for i k
    by (simp add: removeKnown_def Some by_id)
  moreover have "(by_key (removeKnown index ident) k = Some i) = ((i, k) \<in> {x \<in> S. fst x \<noteq> ident})" for i k
  proof (cases "k = previous")
    case True
    with other show ?thesis by (auto simp: removeKnown_def Some)
  next
    case False
    with one show ?thesis by (auto simp: removeKnown_def Some by_key)
  qed
  ultimately show ?thesis by (simp only: index_rep_def) blast
qed

lemma index_rep_add:
  assumes "index_rep index S" and "\<forall>(a, k)\<in>S. a \<noteq> ident \<and> k \<noteq> key"
  shows "index_rep (addKnown index ident key True) (insert (ident, key) S)"
  using assms by (auto simp: index_rep_def addKnown_def)

interpretation active_index: key_index index_rep newCollisionIndex addKnown updateCollision
proof
  show "index_rep newCollisionIndex {}" by (simp add: index_rep_def newCollisionIndex_def)
next
  fix i S ident key
  assume "index_rep i S" and "\<forall>(a, k)\<in>S. a \<noteq> ident \<and> k \<noteq> key"
  then show "index_rep (addKnown i ident key True) (insert (ident, key) S)" by (rule index_rep_add)
next
  fix i ident key show "addKnown i ident key False = i" by (simp add: addKnown_def)
next
  fix i S ident key
  assume "index_rep i S"
  then show "\<exists>j. updateCollision i ident key False = Some j \<and> index_rep j {x \<in> S. fst x \<noteq> ident}"
    by (simp add: updateCollision_def Let_def index_rep_remove)
next
  fix i S ident key
  assume rep: "index_rep i S" and free: "\<forall>(a, k)\<in>S. a \<noteq> ident \<longrightarrow> k \<noteq> key"
  let ?S = "{x \<in> S. fst x \<noteq> ident}"
  note removed = index_rep_remove[OF rep, of ident]
  have none: "by_key (removeKnown i ident) key = None"
  proof (cases "by_key (removeKnown i ident) key")
    case (Some other)
    with removed have "(other, key) \<in> ?S" by (simp add: index_rep_def)
    with free show ?thesis by auto
  qed
  have "index_rep (addKnown (removeKnown i ident) ident key True) (insert (ident, key) ?S)"
    by (rule index_rep_add[OF removed]) (use free in auto)
  with none show "\<exists>j. updateCollision i ident key True = Some j
      \<and> index_rep j (insert (ident, key) {x \<in> S. fst x \<noteq> ident})"
    by (simp add: updateCollision_def Let_def)
next
  fix i S a key ident
  assume "index_rep i S" and "(a, key) \<in> S" and "a \<noteq> ident"
  with index_rep_remove[of i S ident] have "by_key (removeKnown i ident) key = Some a"
    by (simp add: index_rep_def)
  with \<open>a \<noteq> ident\<close> show "updateCollision i ident key True = None"
    by (simp add: updateCollision_def Let_def)
qed

subsection \<open>Operations do not see the order of the rows\<close>

lemma op_guard_same_rows:
  assumes "same_rows p q"
  shows "op_guard p oper \<longleftrightarrow> op_guard q oper"
proof -
  note sets = same_rows_sets[OF assms]
  have "active_merchant p = active_merchant q" "active_category p = active_category q"
      "active_group p = active_group q"
    by (rule has_active_set, rule sets)+
  then show ?thesis
    by (simp add: op_guard_def sets known_targets_def open_category_def open_group_def
        split: operation_type.split cong: option.case_cong)
qed

lemma op_fresh_same_rows:
  assumes "same_rows p q"
  shows "op_fresh p oper \<longleftrightarrow> op_fresh q oper"
proof -
  note sets = same_rows_sets[OF assms]
  note kinds = mset_eq_setD[OF entity_kinds_same_rows[OF assms]]
  show ?thesis
    by (simp add: op_fresh_def sets key_free_def fresh_id_def kinds
        split: operation_type.split cong: option.case_cong)
qed

lemma op_effect_same_rows:
  assumes "same_rows p q"
  shows "same_rows (op_effect oper p) (op_effect oper q)"
proof -
  have rows: "mset (accounts p) = mset (accounts q)" "mset (merchants p) = mset (merchants q)"
    "mset (groups p) = mset (groups q)" "mset (categories p) = mset (categories q)"
    "mset (transactions p) = mset (transactions q)" "mset (identities p) = mset (identities q)"
    using assms by (simp_all add: same_rows_def)
  have payload: "same_rows (on_payload x f p) (on_payload x f q)"
    if "\<And>y. same_rows (f y p) (f y q)" for x :: "'b option" and f
    using that assms by (cases x) simp_all
  show ?thesis
    by (cases "op_type oper")
      (auto simp: op_effect_def same_rows_def rows label_merchants_def label_categories_def
        label_groups_def move_categories_def merge_merchants_effect_def merge_categories_effect_def
        merge_groups_effect_def retire_merchants_def retire_categories_def retire_groups_def
        on_targets_def mset_filter intro!: payload[unfolded same_rows_def])
qed

subsection \<open>Deferred deletion\<close>

definition live :: "profile \<Rightarrow> entity_id set \<Rightarrow> profile" where
  "live p deleted = p\<lparr>transactions := filter (\<lambda>r. record_id r \<notin> deleted) (transactions p)\<rparr>"

lemma compactDeletedTransactions_live: "compactDeletedTransactions p deleted = live p deleted"
  by (cases p) (simp add: compactDeletedTransactions_def live_def)

lemma live_fields [simp]:
  "accounts (live p D) = accounts p" "merchants (live p D) = merchants p" "groups (live p D) = groups p"
  "categories (live p D) = categories p" "identities (live p D) = identities p"
  "transactions (live p D) = filter (\<lambda>r. record_id r \<notin> D) (transactions p)"
  by (simp_all add: live_def)

lemma on_payload_cases:
  assumes "\<And>x. payload = Some x \<Longrightarrow> P (f x p)" and "payload = None \<Longrightarrow> P p"
  shows "P (on_payload payload f p)"
  using assms by (cases payload) auto

lemma filter_map_ids:
  "(\<And>r. record_id (h r) = record_id r) \<Longrightarrow>
     filter (\<lambda>r. record_id r \<notin> D) (map h ts) = map h (filter (\<lambda>r. record_id r \<notin> D) ts)"
  by (simp add: filter_map comp_def)

lemma filter_on_targets:
  "(\<And>r. record_id (h r) = record_id r) \<Longrightarrow>
     filter (\<lambda>r. record_id r \<notin> D) (on_targets targets h ts)
     = on_targets targets h (filter (\<lambda>r. record_id r \<notin> D) ts)"
  unfolding on_targets_def by (rule filter_map_ids) simp

lemma record_id_redirect [simp]:
  "record_id (redirect_record_merchant s d r) = record_id r"
  "record_id (redirect_record_category s d r) = record_id r"
  "record_id (toggle_hidden r) = record_id r"
  by (simp_all add: redirect_record_merchant_def redirect_record_category_def toggle_hidden_def)

lemma live_op_effect:
  assumes "op_type oper \<noteq> OperationTransactionDelete"
  shows "live (op_effect oper q) D = op_effect oper (live q D)"
proof -
  have payload: "live (on_payload x f q) D = on_payload x f (live q D)"
    if "\<And>y. live (f y q) D = f y (live q D)" for x :: "'b option" and f
    using that by (cases x) simp_all
  show ?thesis
    using assms by (cases "op_type oper")
      (auto simp: op_effect_def live_def merge_merchants_effect_def merge_categories_effect_def
        merge_groups_effect_def filter_map_ids filter_on_targets intro!: payload[unfolded live_def])
qed

lemma op_effect_delete:
  assumes "op_type oper = OperationTransactionDelete"
  shows "live q (D \<union> set (op_targets oper)) = op_effect oper (live q D)"
proof -
  have "filter (\<lambda>r. record_id r \<notin> D \<union> set (op_targets oper)) ts
      = filter (\<lambda>r. record_id r \<notin> set (op_targets oper)) (filter (\<lambda>r. record_id r \<notin> D) ts)" for ts
    by (induction ts) auto
  with assms show ?thesis by (simp add: op_effect_def live_def)
qed

lemma op_effect_record_ids:
  assumes "op_type oper \<noteq> OperationTransactionDelete"
  shows "map record_id (transactions (op_effect oper q)) = map record_id (transactions q)"
proof -
  have "map (record_id \<circ> redirect_record_merchant s d) ts = map record_id ts"
      "map (record_id \<circ> redirect_record_category s d) ts = map record_id ts" for s d ts
    by simp_all
  moreover have payload: "map record_id (transactions (on_payload x f q)) = map record_id (transactions q)"
    if "\<And>y. map record_id (transactions (f y q)) = map record_id (transactions q)"
    for x :: "'b option" and f
    using that by (cases x) simp_all
  ultimately show ?thesis
    using assms by (cases "op_type oper")
      (auto simp: op_effect_def merge_merchants_effect_def merge_categories_effect_def
        merge_groups_effect_def record_ids_on_targets intro!: payload)
qed

subsection \<open>The state of the indexed replay\<close>

definition replay_inv :: "profile \<Rightarrow> replay_indexes \<Rightarrow> bool" where
  "replay_inv q idx \<longleftrightarrow>
     distinct (map record_id (transactions q))
     \<and> (\<forall>k i. idx_transactions idx k = Some i \<longleftrightarrow>
          i < length (transactions q) \<and> record_id (transactions q ! i) = k \<and> k \<notin> idx_deleted idx)
     \<and> index_rep (idx_merchants idx)
          (active_pairs merchant_id merchant_key merchant_retired (merchants q))
     \<and> index_rep (idx_categories idx)
          (active_pairs category_id category_key category_retired (categories q))
     \<and> index_rep (idx_groups idx) (active_pairs group_id group_key group_retired (groups q))"

lemma replay_inv_init:
  assumes "profile_wf casefold p"
  shows "replay_inv p (newReplayIndexes p)"
  using assms profile_wf_distinct[OF assms]
  by (simp add: replay_inv_def newReplayIndexes_def transaction_positions_Some
      active_index.tracks_build profile_wf_def collisions_wf_def)

lemma replay_inv_dom:
  assumes "replay_inv q idx"
  shows "dom (idx_transactions idx) = record_id ` set (transactions (live q (idx_deleted idx)))"
  using assms by (auto simp: replay_inv_def dom_def image_iff in_set_conv_nth)

lemma bind_positions:
  assumes inv: "replay_inv q idx" and "distinct targets" and "\<And>r. record_id (f r) = record_id r"
  shows "bind_result (indexedTransactionPositions idx targets)
      (\<lambda>is. bind_result (update_positions f (transactions q) is) (\<lambda>ts. Inr (g ts))) = Inr r \<longleftrightarrow>
    set targets \<subseteq> record_id ` set (transactions (live q (idx_deleted idx)))
    \<and> r = g (on_targets targets f (transactions q))"
proof -
  have found: "idx_transactions idx k = Some i \<longleftrightarrow>
      i < length (transactions q) \<and> record_id (transactions q ! i) = k \<and> k \<notin> idx_deleted idx" for k i
    using inv by (simp add: replay_inv_def)
  have "update_positions f (transactions q) is = Inr (on_targets targets f (transactions q))"
    if "indexedTransactionPositions idx targets = Inr is" for "is"
    unfolding on_targets_def
  proof (rule update_positions_map[OF _ _ assms(2,3)])
    show "list_all2 (\<lambda>target i. i < length (transactions q) \<and> record_id (transactions q ! i) = target)
        targets is"
      using that unfolding indexedTransactionPositions_def lookup_positions_Inr
      by (rule list_all2_mono) (simp add: found)
    show "distinct (map record_id (transactions q))" using inv by (simp add: replay_inv_def)
  qed
  then show ?thesis
    unfolding bind_result_Inr replay_inv_dom[OF inv, symmetric] lookup_positions_ok[symmetric]
      indexedTransactionPositions_def by fastforce
qed

lemma indexedTransactionPositions_ok:
  "replay_inv q idx \<Longrightarrow> (\<exists>is. indexedTransactionPositions idx targets = Inr is) \<longleftrightarrow>
     set targets \<subseteq> record_id ` set (transactions (live q (idx_deleted idx)))"
  by (simp only: indexedTransactionPositions_def lookup_positions_ok replay_inv_dom)

definition index_delete :: "entity_id list \<Rightarrow> replay_indexes \<Rightarrow> replay_indexes" where
  "index_delete targets indexes =
     foldl (\<lambda>idx target. idx\<lparr>idx_transactions := (idx_transactions idx)(target := None),
       idx_deleted := insert target (idx_deleted idx)\<rparr>) indexes targets"

lemma index_delete_simps:
  "idx_deleted (index_delete targets idx) = idx_deleted idx \<union> set targets"
  "idx_transactions (index_delete targets idx) k = (if k \<in> set targets then None else idx_transactions idx k)"
  "idx_merchants (index_delete targets idx) = idx_merchants idx"
  "idx_categories (index_delete targets idx) = idx_categories idx"
  "idx_groups (index_delete targets idx) = idx_groups idx"
  unfolding index_delete_def by (induction targets arbitrary: idx) auto

lemma keep_Inr: "bind_result r (\<lambda>q. Inr (q, idx)) = Inr (q', idx') \<longleftrightarrow> r = Inr q' \<and> idx' = idx"
  by (auto simp: bind_result_Inr)

lemma reassignIndexed_spec:
  assumes inv: "replay_inv q idx" and d: "tables_distinct q"
    and "op_type oper = OperationMerchantReassign"
    and "op_reassign oper = Some r" and "distinct (op_targets oper)"
    and created: "\<And>m. reassign_created r = Some m \<Longrightarrow>
      merchant_id m = reassign_destination r \<and> \<not> merchant_retired m"
  shows "applyMerchantReassignIndexed q oper idx = Inr q' \<longleftrightarrow>
    op_guard (live q (idx_deleted idx)) oper \<and> q' = op_effect oper q"
proof -
  let ?f = "\<lambda>t. t\<lparr>record_merchant := reassign_destination r\<rparr>"
  let ?L = "live q (idx_deleted idx)"
  have step: "bind_result (activeMerchant p' (reassign_destination r)) (\<lambda>_.
      bind_result (indexedTransactionPositions idx (op_targets oper)) (\<lambda>is.
      bind_result (update_positions ?f (transactions p') is) (\<lambda>ts.
      Inr (p'\<lparr>transactions := ts\<rparr>)))) = Inr q' \<longleftrightarrow>
      active_merchant p' (reassign_destination r) \<and> known_targets ?L oper
      \<and> q' = p'\<lparr>transactions := on_targets (op_targets oper) ?f (transactions q)\<rparr>"
    if "distinct (map merchant_id (merchants p'))" "transactions p' = transactions q"
    for p' :: profile
    using bind_positions[OF inv assms(5), where f = ?f and r = q' and
        g = "\<lambda>ts. p'\<lparr>transactions := ts\<rparr>"] that(2)
    by (simp add: merchant_table.bind_active_check[OF that(1)] known_targets_def)
  have dm: "distinct (map merchant_id (merchants q))" using d by (simp add: tables_distinct_def)
  show ?thesis
  proof (cases "reassign_created r")
    case None
    have "q\<lparr>merchants := merchants q, transactions := ts\<rparr> = q\<lparr>transactions := ts\<rparr>" for ts
      by (cases q) simp
    then show ?thesis
      using assms(3,4) None step[OF dm]
      by (simp add: applyMerchantReassignIndexed_def the_payload_def add_created_merchant_def
          op_guard_def op_effect_def)
  next
    case (Some m)
    note m = created[OF Some]
    show ?thesis
    proof (cases "merchant_id m \<in> merchant_id ` set (merchants q)")
      case True
      then have "merchantIndex q (merchant_id m) \<noteq> None" by (simp add: merchant_table.index_of_fresh)
      then have "\<not> applyMerchantReassignIndexed q oper idx = Inr q'"
        using assms(4) Some by (simp add: applyMerchantReassignIndexed_def the_payload_def
            add_created_merchant_def)
      with True Some assms(3,4) show ?thesis by (simp add: op_guard_def)
    next
      case False
      then have none: "merchantIndex q (merchant_id m) = None"
        by (simp add: merchant_table.index_of_fresh)
      have "active_merchant (q\<lparr>merchants := merchants q @ [m]\<rparr>) (reassign_destination r)"
        using m by (simp add: has_active_def)
      moreover have "distinct (map merchant_id (merchants q @ [m]))"
        using False dm by simp
      ultimately show ?thesis
        using assms(3,4) Some False none step[of "q\<lparr>merchants := merchants q @ [m]\<rparr>"]
        by (simp add: applyMerchantReassignIndexed_def the_payload_def add_created_merchant_def
            op_guard_def op_effect_def)
    qed
  qed
qed

lemma assignIndexed_spec:
  assumes inv: "replay_inv q idx" and d: "tables_distinct q"
    and "op_type oper = OperationCategoryAssign"
    and "op_reassign oper = Some r" and "distinct (op_targets oper)"
  shows "applyCategoryAssignIndexed q oper idx = Inr q' \<longleftrightarrow>
    op_guard (live q (idx_deleted idx)) oper \<and> q' = op_effect oper q"
proof -
  have dc: "distinct (map category_id (categories q))" using d by (simp add: tables_distinct_def)
  show ?thesis
    using assms(3,4) bind_positions[OF inv assms(5), where r = q' and
        f = "\<lambda>t. t\<lparr>record_category := reassign_destination r\<rparr>" and
        g = "\<lambda>ts. q\<lparr>transactions := ts\<rparr>"]
    by (simp add: applyCategoryAssignIndexed_def the_payload_def
        category_table.bind_active_check[OF dc] known_targets_def op_guard_def op_effect_def)
qed

lemma createIndexed_spec:
  assumes inv: "replay_inv q idx" and d: "tables_distinct q"
    and "op_type oper = OperationCategoryCreate"
    and "op_create oper = Some c" and "distinct (op_targets oper)"
  shows "applyCategoryCreateIndexed q oper idx = Inr q' \<longleftrightarrow>
    op_guard (live q (idx_deleted idx)) oper \<and> q' = op_effect oper q"
proof -
  have dg: "distinct (map group_id (groups q))" using d by (simp add: tables_distinct_def)
  let ?q = "q\<lparr>categories := categories q @ [created_category c]\<rparr>"
  have some: "categoryIndex q (create_entity c) = None \<longleftrightarrow>
      create_entity c \<notin> category_id ` set (categories q)"
    by (rule category_table.index_of_fresh)
  have "applyCategoryCreateIndexed q oper idx = Inr q' \<longleftrightarrow>
      create_entity c \<notin> category_id ` set (categories q) \<and> active_group q (create_parent c)
      \<and> (if op_targets oper = [create_entity c] then Inr ?q else
          bind_result (indexedTransactionPositions idx (op_targets oper)) (\<lambda>is.
          bind_result (update_positions (\<lambda>t. t\<lparr>record_category := create_entity c\<rparr>)
            (transactions ?q) is) (\<lambda>ts. Inr (?q\<lparr>transactions := ts\<rparr>)))) = Inr q'"
    unfolding applyCategoryCreateIndexed_def only_target_eq some Let_def assms(4) the_payload_def
      option.case bind_result_simps if_result_Inr group_table.bind_active_check[OF dg]
      not_not by (rule refl)
  also have "\<dots> \<longleftrightarrow> op_guard (live q (idx_deleted idx)) oper \<and> q' = op_effect oper q"
  proof (cases "op_targets oper = [create_entity c]")
    case True
    have "q\<lparr>categories := categories q @ [created_category c], transactions := transactions q\<rparr> = ?q"
      by (cases q) simp
    then show ?thesis
      using True assms(3,4) by (auto simp: op_guard_def op_effect_def on_targets_def)
  next
    case False
    then show ?thesis
      using assms(3,4) bind_positions[OF inv assms(5), where r = q' and
        f = "\<lambda>t. t\<lparr>record_category := create_entity c\<rparr>" and
        g = "\<lambda>ts. ?q\<lparr>transactions := ts\<rparr>"]
      by (simp add: op_guard_def op_effect_def known_targets_def)
  qed
  finally show ?thesis .
qed

lemma op_guard_live:
  assumes "op_type oper \<notin> {OperationMerchantReassign, OperationCategoryAssign,
    OperationCategoryCreate, OperationTransactionHide, OperationTransactionDelete}"
  shows "op_guard (live q D) oper = op_guard q oper"
  using assms by (simp add: op_guard_def open_category_def open_group_def split: operation_type.split)

lemma dispatchIndexed_spec:
  assumes inv: "replay_inv q idx" and d: "tables_distinct q"
    and stored: "ValidateStored casefold oper = Inr ()"
  shows "dispatchIndexed q oper idx = Inr (q', idx') \<longleftrightarrow> op_guard (live q (idx_deleted idx)) oper
    \<and> (if op_type oper = OperationTransactionDelete
       then q' = q \<and> idx' = index_delete (op_targets oper) idx
       else q' = op_effect oper q \<and> idx' = idx)"
proof -
  note valid = ValidateStored_payload[OF stored, unfolded validatePayload_def]
  from ValidateStored_targets[OF stored] have dt: "distinct (op_targets oper)" by simp
  note whole = dispatchOperation_spec[OF d stored]
  show ?thesis
  proof (cases "op_type oper")
    case OperationMerchantReassign
    with valid obtain r where r: "op_reassign oper = Some r" and
        created: "\<And>m. reassign_created r = Some m \<Longrightarrow>
          merchant_id m = reassign_destination r \<and> \<not> merchant_retired m"
      by (auto simp: validateReassignOperation_Inr)
    from reassignIndexed_spec[OF inv d OperationMerchantReassign r dt created]
    show ?thesis by (auto simp: dispatchIndexed_def OperationMerchantReassign keep_Inr)
  next
    case OperationCategoryAssign
    with valid obtain r where r: "op_reassign oper = Some r"
      by (auto simp: validateReassignOperation_Inr)
    from assignIndexed_spec[OF inv d OperationCategoryAssign r dt]
    show ?thesis by (auto simp: dispatchIndexed_def OperationCategoryAssign keep_Inr)
  next
    case OperationCategoryCreate
    with valid obtain c where c: "op_create oper = Some c"
      by (auto simp: validateCreateOperation_Inr)
    from createIndexed_spec[OF inv d OperationCategoryCreate c dt]
    show ?thesis by (auto simp: dispatchIndexed_def OperationCategoryCreate keep_Inr)
  next
    case OperationTransactionHide
    have hide: "applyHideToggleIndexed q oper idx = Inr q' \<longleftrightarrow>
        op_guard (live q (idx_deleted idx)) oper \<and> q' = op_effect oper q"
      using OperationTransactionHide bind_positions[OF inv dt, where r = q' and f = toggle_hidden
          and g = "\<lambda>ts. q\<lparr>transactions := ts\<rparr>"]
      by (simp add: applyHideToggleIndexed_def op_guard_def op_effect_def known_targets_def)
    then show ?thesis by (auto simp: dispatchIndexed_def OperationTransactionHide keep_Inr)
  next
    case OperationTransactionDelete
    have "applyTransactionDeleteIndexed oper idx = Inr idx' \<longleftrightarrow>
        op_guard (live q (idx_deleted idx)) oper \<and> idx' = index_delete (op_targets oper) idx"
      using OperationTransactionDelete indexedTransactionPositions_ok[OF inv, of "op_targets oper"]
      by (auto simp: applyTransactionDeleteIndexed_def bind_result_Inr op_guard_def known_targets_def
          index_delete_def)
    then show ?thesis
      by (auto simp: dispatchIndexed_def OperationTransactionDelete bind_result_Inr)
  qed (use whole op_guard_live[of oper q "idx_deleted idx"] in
      \<open>auto simp: dispatchIndexed_def keep_Inr\<close>)
qed

context entity_lookup
begin

lemma row_at_index:
  assumes "distinct (map ident (rows p))" and "x \<in> set (rows p)" and "ident x = k"
  shows "row_at (rows p) (index_of p k) = Inr x"
proof -
  from index_of_unique[OF assms] obtain i where "index_of p k = Some i" "rows p ! i = x" .
  moreover from this have "i < length (rows p)" using index_of_Some by blast
  ultimately show ?thesis by (simp add: row_at_def)
qed

end

text \<open>What the collision indexes check of an operation: the key part of \<open>op_fresh\<close>.\<close>

definition op_keys :: "profile \<Rightarrow> operation \<Rightarrow> bool" where
  "op_keys p oper =
     (case op_type oper of
        OperationMerchantLabel \<Rightarrow> with_payload (op_label oper) (\<lambda>l.
          key_free merchant_id merchant_key merchant_retired (merchants p)
            (label_entity l) (label_collision l))
      | OperationMerchantReassign \<Rightarrow> with_payload (op_reassign oper) (\<lambda>r.
          case reassign_created r of None \<Rightarrow> True
          | Some m \<Rightarrow> key_free merchant_id merchant_key merchant_retired (merchants p)
                (merchant_id m) (merchant_key m))
      | OperationCategoryCreate \<Rightarrow> with_payload (op_create oper) (\<lambda>c.
          key_free category_id category_key category_retired (categories p)
            (create_entity c) (create_collision c))
      | OperationCategoryLabel \<Rightarrow> with_payload (op_label oper) (\<lambda>l.
          key_free category_id category_key category_retired (categories p)
            (label_entity l) (label_collision l))
      | OperationGroupCreate \<Rightarrow> with_payload (op_create oper) (\<lambda>c.
          key_free group_id group_key group_retired (groups p)
            (create_entity c) (create_collision c))
      | OperationGroupLabel \<Rightarrow> with_payload (op_label oper) (\<lambda>l.
          key_free group_id group_key group_retired (groups p)
            (label_entity l) (label_collision l))
      | _ \<Rightarrow> True)"

lemma op_keys_live [simp]: "op_keys (live q D) oper = op_keys q oper"
  by (simp add: op_keys_def split: operation_type.split cong: option.case_cong)

lemma checkCollision_Inr:
  "checkCollision oper kind key updated store = Inr idx' \<longleftrightarrow> (\<exists>j. updated = Some j \<and> idx' = store j)"
  by (auto simp: checkCollision_def split: option.splits)

lemma active_pairs_map_same:
  assumes "\<And>x. ident (g x) = ident x" "\<And>x. key (g x) = key x" "\<And>x. retired (g x) = retired x"
  shows "active_pairs ident key retired (map g xs) = active_pairs ident key retired xs"
proof -
  have image: "active_pairs ident key retired ys = (\<lambda>x. (ident x, key x)) ` set (filter (\<lambda>x. \<not> retired x) ys)"
    for ys by (auto simp: active_pairs_def)
  show ?thesis
    unfolding image by (simp add: filter_map comp_def image_image assms del: set_filter)
qed

lemma replay_inv_change:
  assumes "replay_inv q idx" and "map record_id (transactions q') = map record_id (transactions q)"
    and "idx_transactions idx' = idx_transactions idx" and "idx_deleted idx' = idx_deleted idx"
    and "index_rep (idx_merchants idx')
          (active_pairs merchant_id merchant_key merchant_retired (merchants q'))"
    and "index_rep (idx_categories idx')
          (active_pairs category_id category_key category_retired (categories q'))"
    and "index_rep (idx_groups idx') (active_pairs group_id group_key group_retired (groups q'))"
  shows "replay_inv q' idx'"
proof -
  have "length (transactions q') = length (transactions q)"
    using assms(2) by (metis length_map)
  moreover have "record_id (transactions q' ! i) = record_id (transactions q ! i)"
    if "i < length (transactions q)" for i
    using that assms(2) calculation by (metis nth_map)
  ultimately show ?thesis
    using assms unfolding replay_inv_def by (simp cong: conj_cong)
qed

lemma replay_inv_reps:
  assumes "replay_inv q idx"
  shows "index_rep (idx_merchants idx) (active_pairs merchant_id merchant_key merchant_retired (merchants q))"
    "index_rep (idx_categories idx) (active_pairs category_id category_key category_retired (categories q))"
    "index_rep (idx_groups idx) (active_pairs group_id group_key group_retired (groups q))"
  using assms by (simp_all add: replay_inv_def)

lemma merchant_label_index:
  assumes inv: "replay_inv q idx" and d: "tables_distinct q"
    and ty: "op_type oper = OperationMerchantLabel" and l: "op_label oper = Some l"
    and act: "active_merchant q (label_entity l)"
  shows "updateReplayCollisionIndexes (op_effect oper q) oper idx = Inr idx' \<longleftrightarrow>
      (\<exists>j. updateCollision (idx_merchants idx) (label_entity l) (label_collision l) True = Some j
         \<and> idx' = idx\<lparr>idx_merchants := j\<rparr>)"
proof -
  let ?f = "\<lambda>m. m\<lparr>merchant_label := label_text l, merchant_key := label_collision l\<rparr>"
  from act obtain x where x: "x \<in> set (merchants q)" "merchant_id x = label_entity l"
    by (auto simp: has_active_def)
  have ms: "merchants (op_effect oper q)
      = map (\<lambda>m. if merchant_id m = label_entity l then ?f m else m) (merchants q)"
    by (simp add: op_effect_def ty l label_merchants_def)
  have "row_at (merchants (op_effect oper q)) (merchantIndex (op_effect oper q) (label_entity l))
      = Inr (?f x)"
  proof (rule merchant_table.row_at_index)
    have "map merchant_id (merchants (op_effect oper q)) = map merchant_id (merchants q)"
      by (simp add: ms)
    then show "distinct (map merchant_id (merchants (op_effect oper q)))"
      using d by (simp add: tables_distinct_def)
    show "?f x \<in> set (merchants (op_effect oper q))"
      unfolding ms set_map by (rule rev_image_eqI[OF x(1)]) (simp add: x(2))
  qed (simp add: x(2))
  then show ?thesis
    by (simp add: updateReplayCollisionIndexes_def ty l the_payload_def checkCollision_Inr x(2))
qed

lemma category_row_index:
  assumes d: "tables_distinct q" and ids: "map category_id (categories q') = map category_id (categories q) @ extra"
    and "distinct (map category_id (categories q) @ extra)"
    and "x \<in> set (categories q')" and "category_id x = k" and "category_key x = key"
    and row: "op_type oper = OperationCategoryLabel \<and> op_label oper = Some l \<and> label_entity l = k
      \<or> op_type oper = OperationCategoryCreate \<and> op_create oper = Some c \<and> create_entity c = k"
  shows "updateReplayCollisionIndexes q' oper idx = Inr idx' \<longleftrightarrow>
      (\<exists>j. updateCollision (idx_categories idx) k key True = Some j \<and> idx' = idx\<lparr>idx_categories := j\<rparr>)"
proof -
  have "row_at (categories q') (categoryIndex q' k) = Inr x"
    by (rule category_table.row_at_index) (use assms in simp_all)
  with row show ?thesis
    by (elim disjE) (simp_all add: updateReplayCollisionIndexes_def the_payload_def checkCollision_Inr
        assms(5,6))
qed

lemma group_row_index:
  assumes d: "tables_distinct q" and ids: "map group_id (groups q') = map group_id (groups q) @ extra"
    and "distinct (map group_id (groups q) @ extra)"
    and "x \<in> set (groups q')" and "group_id x = k" and "group_key x = key"
    and row: "op_type oper = OperationGroupLabel \<and> op_label oper = Some l \<and> label_entity l = k
      \<or> op_type oper = OperationGroupCreate \<and> op_create oper = Some c \<and> create_entity c = k"
  shows "updateReplayCollisionIndexes q' oper idx = Inr idx' \<longleftrightarrow>
      (\<exists>j. updateCollision (idx_groups idx) k key True = Some j \<and> idx' = idx\<lparr>idx_groups := j\<rparr>)"
proof -
  have "row_at (groups q') (groupIndex q' k) = Inr x"
    by (rule group_table.row_at_index) (use assms in simp_all)
  with row show ?thesis
    by (elim disjE) (simp_all add: updateReplayCollisionIndexes_def the_payload_def checkCollision_Inr
        assms(5,6))
qed

lemma relabelled_row:
  assumes "has_active ident retired xs e"
  obtains x where "x \<in> set xs" and "ident x = e"
    and "f x \<in> set (map (\<lambda>x. if ident x = e then f x else x) xs)"
proof -
  from assms obtain x where x: "x \<in> set xs" "ident x = e" by (auto simp: has_active_def)
  then have "f x \<in> set (map (\<lambda>x. if ident x = e then f x else x) xs)"
    unfolding set_map by (intro rev_image_eqI[of x]) simp_all
  with x that show ?thesis by blast
qed

text \<open>One operation's update of the indexes: it succeeds exactly on free keys and keeps the invariant.\<close>

definition collision_step :: "profile \<Rightarrow> operation \<Rightarrow> replay_indexes \<Rightarrow> bool" where
  "collision_step q oper idx \<longleftrightarrow>
     ((\<exists>idx'. updateReplayCollisionIndexes (op_effect oper q) oper idx = Inr idx') \<longleftrightarrow> op_keys q oper)
     \<and> (\<forall>idx'. updateReplayCollisionIndexes (op_effect oper q) oper idx = Inr idx' \<longrightarrow>
        replay_inv (op_effect oper q) idx' \<and> idx_deleted idx' = idx_deleted idx)"

lemma collision_merchant_label:
  assumes inv: "replay_inv q idx" and d: "tables_distinct q"
    and valid: "validatePayload casefold oper = Inr ()" and guard: "op_guard q oper"
    and t: "op_type oper = OperationMerchantLabel"
  shows "collision_step q oper idx"
proof -
  note reps = replay_inv_reps[OF inv]
  note dist = d[unfolded tables_distinct_def]
  from valid guard t obtain l where l: "op_label oper = Some l" "active_merchant q (label_entity l)"
    by (auto simp: validatePayload_def validateLabelOperation_Inr op_guard_def)
  note spec = merchant_label_index[OF inv d t l]
  note tr = active_index.tracks_relabel[OF reps(1) l(2), where k = "label_collision l" and
      f = "\<lambda>m. m\<lparr>merchant_label := label_text l, merchant_key := label_collision l\<rparr>"]
  have eff: "op_effect oper q = q\<lparr>merchants := map (\<lambda>m. if merchant_id m = label_entity l
      then m\<lparr>merchant_label := label_text l, merchant_key := label_collision l\<rparr> else m) (merchants q)\<rparr>"
    by (simp add: op_effect_def t l label_merchants_def)
  have "op_keys q oper \<longleftrightarrow> updateCollision (idx_merchants idx) (label_entity l) (label_collision l) True \<noteq> None"
    using tr(1) dist by (simp add: op_keys_def t l)
  moreover have "replay_inv (op_effect oper q) (idx\<lparr>idx_merchants := j\<rparr>)"
    if "updateCollision (idx_merchants idx) (label_entity l) (label_collision l) True = Some j" for j
    by (rule replay_inv_change[OF inv]) (use tr(2)[OF _ _ _ _ that] dist reps in \<open>simp_all add: eff\<close>)
  ultimately show ?thesis by (auto simp: spec collision_step_def)
qed

lemma collision_category_label:
  assumes inv: "replay_inv q idx" and d: "tables_distinct q"
    and valid: "validatePayload casefold oper = Inr ()" and guard: "op_guard q oper"
    and t: "op_type oper = OperationCategoryLabel"
  shows "collision_step q oper idx"
proof -
  note reps = replay_inv_reps[OF inv]
  note dist = d[unfolded tables_distinct_def]
  from valid guard t obtain l where l: "op_label oper = Some l" "active_category q (label_entity l)"
    by (auto simp: validatePayload_def validateLabelOperation_Inr op_guard_def open_category_def)
  let ?f = "\<lambda>m. m\<lparr>category_label := label_text l, category_key := label_collision l\<rparr>"
  note tr = active_index.tracks_relabel[OF reps(2) l(2), where k = "label_collision l" and f = ?f]
  have eff: "op_effect oper q = q\<lparr>categories := map (\<lambda>m. if category_id m = label_entity l
      then ?f m else m) (categories q)\<rparr>"
    by (simp add: op_effect_def t l label_categories_def)
  from relabelled_row[OF l(2), where f = ?f] obtain x where x: "x \<in> set (categories q)"
      "category_id x = label_entity l" "?f x \<in> set (categories (op_effect oper q))"
    unfolding eff by auto
  have spec: "updateReplayCollisionIndexes (op_effect oper q) oper idx = Inr idx' \<longleftrightarrow>
    (\<exists>j. updateCollision (idx_categories idx) (label_entity l) (label_collision l) True = Some j
      \<and> idx' = idx\<lparr>idx_categories := j\<rparr>)" for idx'
    by (rule category_row_index[OF d, where extra = "[]" and x = "?f x" and l = l])
      (use x t l dist in \<open>simp_all add: eff\<close>)
  have "op_keys q oper \<longleftrightarrow> updateCollision (idx_categories idx) (label_entity l) (label_collision l) True \<noteq> None"
    using tr(1) dist by (simp add: op_keys_def t l)
  moreover have "replay_inv (op_effect oper q) (idx\<lparr>idx_categories := j\<rparr>)"
    if "updateCollision (idx_categories idx) (label_entity l) (label_collision l) True = Some j" for j
    by (rule replay_inv_change[OF inv]) (use tr(2)[OF _ _ _ _ that] dist reps in \<open>simp_all add: eff\<close>)
  ultimately show ?thesis by (auto simp: spec collision_step_def)
qed

lemma collision_group_label:
  assumes inv: "replay_inv q idx" and d: "tables_distinct q"
    and valid: "validatePayload casefold oper = Inr ()" and guard: "op_guard q oper"
    and t: "op_type oper = OperationGroupLabel"
  shows "collision_step q oper idx"
proof -
  note reps = replay_inv_reps[OF inv]
  note dist = d[unfolded tables_distinct_def]
  from valid guard t obtain l where l: "op_label oper = Some l" "active_group q (label_entity l)"
    by (auto simp: validatePayload_def validateLabelOperation_Inr op_guard_def open_group_def)
  let ?f = "\<lambda>m. m\<lparr>group_label := label_text l, group_key := label_collision l\<rparr>"
  note tr = active_index.tracks_relabel[OF reps(3) l(2), where k = "label_collision l" and f = ?f]
  have eff: "op_effect oper q = q\<lparr>groups := map (\<lambda>m. if group_id m = label_entity l
      then ?f m else m) (groups q)\<rparr>"
    by (simp add: op_effect_def t l label_groups_def)
  from relabelled_row[OF l(2), where f = ?f] obtain x where x: "x \<in> set (groups q)"
      "group_id x = label_entity l" "?f x \<in> set (groups (op_effect oper q))"
    unfolding eff by auto
  have spec: "updateReplayCollisionIndexes (op_effect oper q) oper idx = Inr idx' \<longleftrightarrow>
    (\<exists>j. updateCollision (idx_groups idx) (label_entity l) (label_collision l) True = Some j
      \<and> idx' = idx\<lparr>idx_groups := j\<rparr>)" for idx'
    by (rule group_row_index[OF d, where extra = "[]" and x = "?f x" and l = l])
      (use x t l dist in \<open>simp_all add: eff\<close>)
  have "op_keys q oper \<longleftrightarrow> updateCollision (idx_groups idx) (label_entity l) (label_collision l) True \<noteq> None"
    using tr(1) dist by (simp add: op_keys_def t l)
  moreover have "replay_inv (op_effect oper q) (idx\<lparr>idx_groups := j\<rparr>)"
    if "updateCollision (idx_groups idx) (label_entity l) (label_collision l) True = Some j" for j
    by (rule replay_inv_change[OF inv]) (use tr(2)[OF _ _ _ _ that] dist reps in \<open>simp_all add: eff\<close>)
  ultimately show ?thesis by (auto simp: spec collision_step_def)
qed

lemma collision_retire:
  assumes inv: "replay_inv q idx"
    and valid: "validatePayload casefold oper = Inr ()"
    and t: "op_type oper \<in> {OperationMerchantMerge, OperationCategoryMerge, OperationCategoryDelete,
      OperationGroupMerge, OperationGroupDelete}"
  shows "collision_step q oper idx"
proof -
  note reps = replay_inv_reps[OF inv]
  have ids: "map record_id (transactions (op_effect oper q)) = map record_id (transactions q)"
    by (rule op_effect_record_ids) (use t in auto)
  have merchants_tr: "\<exists>j. updateCollision (idx_merchants idx) s k False = Some j
      \<and> index_rep j (active_pairs merchant_id merchant_key merchant_retired (retire_merchants s d (merchants q)))"
    for s d k unfolding retire_merchants_def
    by (rule active_index.tracks_retire[OF reps(1)]) (simp_all add: redirect_merchant_def)
  have categories_tr: "\<exists>j. updateCollision (idx_categories idx) s k False = Some j
      \<and> index_rep j (active_pairs category_id category_key category_retired (retire_categories s d (categories q)))"
    for s d k unfolding retire_categories_def
    by (rule active_index.tracks_retire[OF reps(2)]) (simp_all add: redirect_category_def)
  have groups_tr: "\<exists>j. updateCollision (idx_groups idx) s k False = Some j
      \<and> index_rep j (active_pairs group_id group_key group_retired (retire_groups s d (groups q)))"
    for s d k unfolding retire_groups_def
    by (rule active_index.tracks_retire[OF reps(3)]) (simp_all add: redirect_group_def)
  have same: "active_pairs category_id category_key category_retired (map (redirect_category_group s d) cs)
      = active_pairs category_id category_key category_retired cs" for s d cs
    by (rule active_pairs_map_same) (simp_all add: redirect_category_group_def)
  note change = replay_inv_change[OF inv ids]
  consider m where "op_merge oper = Some m" "op_type oper = OperationMerchantMerge"
    | m where "op_merge oper = Some m" "op_type oper = OperationCategoryMerge"
    | m where "op_merge oper = Some m" "op_type oper = OperationGroupMerge"
    | d where "op_delete oper = Some d" "op_type oper = OperationCategoryDelete"
    | d where "op_delete oper = Some d" "op_type oper = OperationGroupDelete"
    using t valid by (auto simp: validatePayload_def validateMergeOperation_Inr validateDeleteOperation_Inr)
  then show ?thesis
  proof cases
    case (1 m)
    from merchants_tr[of "merge_source m" "[]" "merge_destination m"] obtain j where
      j: "updateCollision (idx_merchants idx) (merge_source m) [] False = Some j"
        "index_rep j (active_pairs merchant_id merchant_key merchant_retired
          (retire_merchants (merge_source m) (merge_destination m) (merchants q)))" by blast
    have "replay_inv (op_effect oper q) (idx\<lparr>idx_merchants := j\<rparr>)"
      by (rule change) (use 1 j(2) reps in \<open>simp_all add: op_effect_def merge_merchants_effect_def\<close>)
    with 1 j(1) show ?thesis
      by (simp add: collision_step_def updateReplayCollisionIndexes_def the_payload_def checkCollision_def
          op_keys_def)
  next
    case (2 m)
    from categories_tr[of "merge_source m" "[]" "merge_destination m"] obtain j where
      j: "updateCollision (idx_categories idx) (merge_source m) [] False = Some j"
        "index_rep j (active_pairs category_id category_key category_retired
          (retire_categories (merge_source m) (merge_destination m) (categories q)))" by blast
    have "replay_inv (op_effect oper q) (idx\<lparr>idx_categories := j\<rparr>)"
      by (rule change) (use 2 j(2) reps in \<open>simp_all add: op_effect_def merge_categories_effect_def\<close>)
    with 2 j(1) show ?thesis
      by (simp add: collision_step_def updateReplayCollisionIndexes_def the_payload_def checkCollision_def
          op_keys_def)
  next
    case (3 m)
    from groups_tr[of "merge_source m" "[]" "merge_destination m"] obtain j where
      j: "updateCollision (idx_groups idx) (merge_source m) [] False = Some j"
        "index_rep j (active_pairs group_id group_key group_retired
          (retire_groups (merge_source m) (merge_destination m) (groups q)))" by blast
    have "replay_inv (op_effect oper q) (idx\<lparr>idx_groups := j\<rparr>)"
      by (rule change) (use 3 j(2) reps in \<open>simp_all add: op_effect_def merge_groups_effect_def same\<close>)
    with 3 j(1) show ?thesis
      by (simp add: collision_step_def updateReplayCollisionIndexes_def the_payload_def checkCollision_def
          op_keys_def)
  next
    case (4 d)
    from categories_tr[of "delete_source d" "[]" "delete_replacement d"] obtain j where
      j: "updateCollision (idx_categories idx) (delete_source d) [] False = Some j"
        "index_rep j (active_pairs category_id category_key category_retired
          (retire_categories (delete_source d) (delete_replacement d) (categories q)))" by blast
    have "replay_inv (op_effect oper q) (idx\<lparr>idx_categories := j\<rparr>)"
      by (rule change) (use 4 j(2) reps in \<open>simp_all add: op_effect_def merge_categories_effect_def\<close>)
    with 4 j(1) show ?thesis
      by (simp add: collision_step_def updateReplayCollisionIndexes_def the_payload_def checkCollision_def
          op_keys_def)
  next
    case (5 d)
    from groups_tr[of "delete_source d" "[]" "delete_replacement d"] obtain j where
      j: "updateCollision (idx_groups idx) (delete_source d) [] False = Some j"
        "index_rep j (active_pairs group_id group_key group_retired
          (retire_groups (delete_source d) (delete_replacement d) (groups q)))" by blast
    have "replay_inv (op_effect oper q) (idx\<lparr>idx_groups := j\<rparr>)"
      by (rule change) (use 5 j(2) reps in \<open>simp_all add: op_effect_def merge_groups_effect_def same\<close>)
    with 5 j(1) show ?thesis
      by (simp add: collision_step_def updateReplayCollisionIndexes_def the_payload_def checkCollision_def
          op_keys_def)
  qed
qed

lemma collision_reassign:
  assumes inv: "replay_inv q idx" and valid: "validatePayload casefold oper = Inr ()"
    and guard: "op_guard (live q D) oper" and t: "op_type oper = OperationMerchantReassign"
  shows "collision_step q oper idx"
proof -
  note reps = replay_inv_reps[OF inv]
  have ids: "map record_id (transactions (op_effect oper q)) = map record_id (transactions q)"
    by (rule op_effect_record_ids) (simp add: t)
  from valid t obtain r where r: "op_reassign oper = Some r" and created:
      "\<And>m. reassign_created r = Some m \<Longrightarrow> \<not> merchant_retired m"
    by (auto simp: validatePayload_def validateReassignOperation_Inr)
  show ?thesis
  proof (cases "reassign_created r")
    case None
    have "replay_inv (op_effect oper q) idx"
      by (rule replay_inv_change[OF inv ids]) (use reps None in \<open>simp_all add: op_effect_def t r\<close>)
    with None show ?thesis
      by (simp add: collision_step_def updateReplayCollisionIndexes_def t r the_payload_def op_keys_def)
  next
    case (Some m)
    from guard Some r have "merchant_id m \<notin> merchant_id ` set (merchants q)" by (simp add: op_guard_def t)
    then have fresh: "\<forall>x\<in>set (merchants q). merchant_id x \<noteq> merchant_id m" by (metis imageI)
    note tr = active_index.tracks_add[OF reps(1) fresh created[OF Some]]
    have "replay_inv (op_effect oper q) (idx\<lparr>idx_merchants := j\<rparr>)"
      if "updateCollision (idx_merchants idx) (merchant_id m) (merchant_key m) True = Some j" for j
      by (rule replay_inv_change[OF inv ids])
        (use tr(2)[OF that] reps Some in \<open>simp_all add: op_effect_def t r\<close>)
    with tr(1) Some show ?thesis
      by (auto simp: collision_step_def updateReplayCollisionIndexes_def t r the_payload_def
          op_keys_def checkCollision_Inr)
  qed
qed

lemma collision_category_create:
  assumes inv: "replay_inv q idx" and d: "tables_distinct q"
    and valid: "validatePayload casefold oper = Inr ()"
    and guard: "op_guard (live q D) oper" and t: "op_type oper = OperationCategoryCreate"
  shows "collision_step q oper idx"
proof -
  note reps = replay_inv_reps[OF inv]
  have ids: "map record_id (transactions (op_effect oper q)) = map record_id (transactions q)"
    by (rule op_effect_record_ids) (simp add: t)
  from valid t obtain c where c: "op_create oper = Some c"
    by (auto simp: validatePayload_def validateCreateOperation_Inr)
  from guard c have new: "create_entity c \<notin> category_id ` set (categories q)" by (simp add: op_guard_def t)
  let ?m = "created_category c"
  have m: "category_id ?m = create_entity c" "category_key ?m = create_collision c" "\<not> category_retired ?m"
    by (simp_all add: created_category_def)
  have fresh: "\<forall>x\<in>set (categories q). category_id x \<noteq> category_id ?m" using new m(1) by (metis imageI)
  note tr = active_index.tracks_add[OF reps(2) fresh m(3), unfolded m]
  have eff: "categories (op_effect oper q) = categories q @ [?m]" by (simp add: op_effect_def t c)
  have spec: "updateReplayCollisionIndexes (op_effect oper q) oper idx = Inr idx' \<longleftrightarrow>
    (\<exists>j. updateCollision (idx_categories idx) (create_entity c) (create_collision c) True = Some j
      \<and> idx' = idx\<lparr>idx_categories := j\<rparr>)" for idx'
    by (rule category_row_index[OF d, where extra = "[create_entity c]" and x = ?m and c = c])
      (use t c d new in \<open>simp_all add: eff m tables_distinct_def\<close>)
  have "replay_inv (op_effect oper q) (idx\<lparr>idx_categories := j\<rparr>)"
    if "updateCollision (idx_categories idx) (create_entity c) (create_collision c) True = Some j" for j
    by (rule replay_inv_change[OF inv ids]) (use tr(2)[OF that] reps eff in \<open>simp_all add: op_effect_def t c\<close>)
  with tr(1) show ?thesis by (auto simp: collision_step_def spec op_keys_def t c)
qed

lemma collision_group_create:
  assumes inv: "replay_inv q idx" and d: "tables_distinct q"
    and valid: "validatePayload casefold oper = Inr ()"
    and guard: "op_guard (live q D) oper" and t: "op_type oper = OperationGroupCreate"
  shows "collision_step q oper idx"
proof -
  note reps = replay_inv_reps[OF inv]
  from valid t obtain c where c: "op_create oper = Some c"
    by (auto simp: validatePayload_def validateCreateOperation_Inr)
  from guard c have new: "create_entity c \<notin> group_id ` set (groups q)" by (simp add: op_guard_def t)
  let ?m = "created_group c"
  have m: "group_id ?m = create_entity c" "group_key ?m = create_collision c" "\<not> group_retired ?m"
    by (simp_all add: created_group_def)
  have fresh: "\<forall>x\<in>set (groups q). group_id x \<noteq> group_id ?m" using new m(1) by (metis imageI)
  note tr = active_index.tracks_add[OF reps(3) fresh m(3), unfolded m]
  have eff: "op_effect oper q = q\<lparr>groups := groups q @ [?m]\<rparr>" by (simp add: op_effect_def t c)
  have spec: "updateReplayCollisionIndexes (op_effect oper q) oper idx = Inr idx' \<longleftrightarrow>
    (\<exists>j. updateCollision (idx_groups idx) (create_entity c) (create_collision c) True = Some j
      \<and> idx' = idx\<lparr>idx_groups := j\<rparr>)" for idx'
    by (rule group_row_index[OF d, where extra = "[create_entity c]" and x = ?m and c = c])
      (use t c d new in \<open>simp_all add: eff m tables_distinct_def\<close>)
  have "replay_inv (op_effect oper q) (idx\<lparr>idx_groups := j\<rparr>)"
    if "updateCollision (idx_groups idx) (create_entity c) (create_collision c) True = Some j" for j
    by (rule replay_inv_change[OF inv]) (use tr(2)[OF that] reps in \<open>simp_all add: eff\<close>)
  with tr(1) show ?thesis by (auto simp: collision_step_def spec op_keys_def t c)
qed

lemma collision_unchanged:
  assumes inv: "replay_inv q idx"
    and t: "op_type oper \<in> {OperationCategoryAssign, OperationCategoryMove, OperationTransactionHide}"
  shows "collision_step q oper idx"
proof -
  note reps = replay_inv_reps[OF inv]
  have ids: "map record_id (transactions (op_effect oper q)) = map record_id (transactions q)"
    by (rule op_effect_record_ids) (use t in auto)
  have moved: "active_pairs category_id category_key category_retired (move_categories m cs)
      = active_pairs category_id category_key category_retired cs" for m cs
    unfolding move_categories_def by (rule active_pairs_map_same) simp_all
  have tables: "merchants (op_effect oper q) = merchants q" "groups (op_effect oper q) = groups q"
    "active_pairs category_id category_key category_retired (categories (op_effect oper q))
      = active_pairs category_id category_key category_retired (categories q)"
    using t by (cases "op_reassign oper"; cases "op_move oper"; auto simp: op_effect_def moved)+
  have "replay_inv (op_effect oper q) idx"
    by (rule replay_inv_change[OF inv ids]) (simp_all add: tables reps)
  with t show ?thesis
    by (auto simp: collision_step_def updateReplayCollisionIndexes_def op_keys_def)
qed

text \<open>The identities and kinds of the tables that replay never shrinks.\<close>

definition entity_pairs :: "profile \<Rightarrow> (entity_id \<times> entity_kind) set" where
  "entity_pairs p =
     (\<lambda>m. (m, EntityKindMerchant)) ` merchant_id ` set (merchants p)
     \<union> (\<lambda>g. (g, EntityKindGroup)) ` group_id ` set (groups p)
     \<union> (\<lambda>c. (c, EntityKindCategory)) ` category_id ` set (categories p)"

lemma entity_kinds_pairs:
  "set (entity_kinds p) = entity_pairs p
     \<union> (\<lambda>a. (account_id a, EntityKindAccount)) ` set (accounts p)
     \<union> (\<lambda>r. (record_id r, EntityKindTransaction)) ` set (transactions p)"
  by (auto simp: entity_kinds_def entity_pairs_def)

lemma effect_ids:
  "map merchant_id (label_merchants l ms) = map merchant_id ms"
  "map merchant_id (retire_merchants s d ms) = map merchant_id ms"
  "map category_id (label_categories l cs) = map category_id cs"
  "map category_id (move_categories mv cs) = map category_id cs"
  "map category_id (retire_categories s d cs) = map category_id cs"
  "map category_id (map (redirect_category_group s d) cs) = map category_id cs"
  "map group_id (label_groups l gs) = map group_id gs"
  "map group_id (retire_groups s d gs) = map group_id gs"
  by (simp_all add: label_merchants_def retire_merchants_def label_categories_def
      move_categories_def retire_categories_def label_groups_def retire_groups_def
      redirect_merchant_def redirect_category_def redirect_group_def redirect_category_group_def)

lemma op_effect_tables:
  "accounts (op_effect oper p) = accounts p"
  "identities (op_effect oper p) = identities p"
  "entity_pairs p \<subseteq> entity_pairs (op_effect oper p)"
proof -
  note ids = effect_ids[THEN arg_cong[where f = set], unfolded list.set_map]
  define ok where "ok q \<longleftrightarrow> accounts q = accounts p \<and> identities q = identities p
      \<and> entity_pairs p \<subseteq> entity_pairs q" for q
  have payload: "ok (on_payload x f p)" if "\<And>y. ok (f y p)" for x :: "'b option" and f
    using that by (cases x) (simp_all add: ok_def)
  have "ok (op_effect oper p)"
    by (cases "op_type oper")
      (auto simp: op_effect_def intro!: payload,
       auto simp: ok_def merge_merchants_effect_def merge_categories_effect_def
         merge_groups_effect_def entity_pairs_def ids simp del: list.set_map)
  then have "accounts (op_effect oper p) = accounts p \<and> identities (op_effect oper p) = identities p
      \<and> entity_pairs p \<subseteq> entity_pairs (op_effect oper p)" by (simp add: ok_def)
  then show "accounts (op_effect oper p) = accounts p" "identities (op_effect oper p) = identities p"
    "entity_pairs p \<subseteq> entity_pairs (op_effect oper p)" by simp_all
qed

lemma tables_distinct_op_effect:
  assumes "tables_distinct q" and "op_guard (live q D) oper"
  shows "tables_distinct (op_effect oper q)"
proof -
  have m: "map record_id (map (redirect_record_merchant s d) ts) = map record_id ts"
    "map record_id (map (redirect_record_category s d) ts) = map record_id ts" for s d ts
    by simp_all
  show ?thesis
    using assms
    by (cases "op_type oper")
      (auto simp: op_guard_def with_payload_iff op_effect_def tables_distinct_def effect_ids m
        merge_merchants_effect_def merge_categories_effect_def merge_groups_effect_def
        record_ids_on_targets created_category_def created_group_def distinct_map_filter
        simp del: map_map split: option.splits)
qed

lemma collision_step_holds:
  assumes inv: "replay_inv q idx" and d: "tables_distinct q"
    and stored: "ValidateStored casefold oper = Inr ()" and guard: "op_guard (live q D) oper"
    and nd: "op_type oper \<noteq> OperationTransactionDelete"
  shows "collision_step q oper idx"
proof -
  note valid = ValidateStored_payload[OF stored]
  have live_guard: "op_guard q oper"
    if "op_type oper \<in> {OperationMerchantLabel, OperationCategoryLabel, OperationGroupLabel}"
    using that guard op_guard_live[of oper q D] by auto
  show ?thesis
  proof (cases "op_type oper")
    case OperationMerchantLabel
    then show ?thesis by (intro collision_merchant_label[OF inv d valid live_guard]) simp_all
  next
    case OperationCategoryLabel
    then show ?thesis by (intro collision_category_label[OF inv d valid live_guard]) simp_all
  next
    case OperationGroupLabel
    then show ?thesis by (intro collision_group_label[OF inv d valid live_guard]) simp_all
  next
    case OperationMerchantReassign
    then show ?thesis by (rule collision_reassign[OF inv valid guard])
  next
    case OperationCategoryCreate
    then show ?thesis by (rule collision_category_create[OF inv d valid guard])
  next
    case OperationGroupCreate
    then show ?thesis by (rule collision_group_create[OF inv d valid guard])
  next
    case (OperationUnknown s)
    with valid show ?thesis by (simp add: validatePayload_def)
  qed (use nd collision_retire[OF inv valid] collision_unchanged[OF inv] in simp_all)
qed

lemma replay_inv_delete:
  assumes "replay_inv q idx"
  shows "replay_inv q (index_delete targets idx)"
  using assms by (auto simp: replay_inv_def index_delete_simps)

lemma replay_step:
  assumes inv: "replay_inv q idx" and d: "tables_distinct q"
  shows "(\<exists>s. applyOperationForReplay casefold (q, idx) oper = Inr s) \<longleftrightarrow>
      ValidateStored casefold oper = Inr () \<and> op_guard (live q (idx_deleted idx)) oper \<and> op_keys q oper"
      (is "?ok \<longleftrightarrow> ?cond")
    and "applyOperationForReplay casefold (q, idx) oper = Inr (q', idx') \<Longrightarrow>
      replay_inv q' idx'
      \<and> live q' (idx_deleted idx') = op_effect oper (live q (idx_deleted idx))
      \<and> tables_distinct q'"
proof -
  note id = tables_distinct_op_effect[OF d]
  have run: "applyOperationForReplay casefold (q, idx) oper = Inr (q', idx') \<longleftrightarrow>
      ValidateStored casefold oper = Inr () \<and> (\<exists>idx1. dispatchIndexed q oper idx = Inr (q', idx1)
      \<and> updateReplayCollisionIndexes q' oper idx1 = Inr idx')" for q' idx'
    by (auto simp: applyOperationForReplay_def bind_result_Inr)
  have both: "(?ok \<longleftrightarrow> ?cond) \<and> (\<forall>q' idx'. applyOperationForReplay casefold (q, idx) oper = Inr (q', idx') \<longrightarrow>
      replay_inv q' idx' \<and> live q' (idx_deleted idx') = op_effect oper (live q (idx_deleted idx))
      \<and> tables_distinct q')"
  proof (cases "ValidateStored casefold oper = Inr () \<and> op_guard (live q (idx_deleted idx)) oper")
    case False
    then have "applyOperationForReplay casefold (q, idx) oper \<noteq> Inr s" for s
      using dispatchIndexed_spec[OF inv d] by (cases s) (auto simp: run)
    with False show ?thesis by blast
  next
    case True
    then have stored: "ValidateStored casefold oper = Inr ()"
      and guard: "op_guard (live q (idx_deleted idx)) oper" by simp_all
    note disp = dispatchIndexed_spec[OF inv d stored]
    show ?thesis
    proof (cases "op_type oper = OperationTransactionDelete")
      case True
      then have "applyOperationForReplay casefold (q, idx) oper = Inr (q', idx') \<longleftrightarrow>
          q' = q \<and> idx' = index_delete (op_targets oper) idx" for q' idx'
        using guard stored by (auto simp: run disp updateReplayCollisionIndexes_def)
      moreover have "op_keys q oper" using True by (simp add: op_keys_def)
      ultimately show ?thesis
        using stored guard replay_inv_delete[OF inv] op_effect_delete[OF True, of q "idx_deleted idx"]
        d by (auto simp: index_delete_simps)
    next
      case False
      then have eq: "applyOperationForReplay casefold (q, idx) oper = Inr (q', idx') \<longleftrightarrow>
          q' = op_effect oper q \<and> updateReplayCollisionIndexes (op_effect oper q) oper idx = Inr idx'" for q' idx'
        using guard stored by (auto simp: run disp)
      with collision_step_holds[OF inv d stored guard False, unfolded collision_step_def]
        stored guard live_op_effect[OF False] id
      show ?thesis by auto
    qed
  qed
  then show "?ok \<longleftrightarrow> ?cond" by blast
  assume "applyOperationForReplay casefold (q, idx) oper = Inr (q', idx')"
  with both show "replay_inv q' idx' \<and> live q' (idx_deleted idx') = op_effect oper (live q (idx_deleted idx))
      \<and> tables_distinct q'" by blast
qed

subsection \<open>Replay and the reference\<close>

definition reference_replay ::
    "(string \<Rightarrow> string) \<Rightarrow> profile \<Rightarrow> operation list \<Rightarrow> replay_error + profile" where
  "reference_replay casefold p opers = fold_result (ApplyOperation casefold) p opers"

lemma op_fresh_keys: "op_fresh p oper \<Longrightarrow> op_keys p oper"
  by (cases "op_label oper"; cases "op_reassign oper"; cases "op_create oper")
    (auto simp: op_fresh_def op_keys_def split: operation_type.splits option.splits)

lemma ApplyOperation_live:
  assumes "same_rows p (live q D)" and "profile_wf casefold (live q D)"
    and "ApplyOperation casefold p oper = Inr p'"
  shows "ValidateStored casefold oper = Inr () \<and> op_guard (live q D) oper \<and> op_fresh (live q D) oper
    \<and> profile_wf casefold p' \<and> same_rows p' (op_effect oper (live q D))"
proof -
  note ok = assms(3)[unfolded ApplyOperation_Inr]
  from assms(3) have "op_fresh p oper" using ApplyOperation_accepts by blast
  moreover have "same_rows p' (op_effect oper (live q D))"
    using ok op_effect_same_rows[OF assms(1)] sortCommittedProfile_same_rows same_rows_trans by blast
  ultimately show ?thesis
    using ok op_guard_same_rows[OF assms(1)] op_fresh_same_rows[OF assms(1)] by blast
qed

lemma replayOperations_simulates:
  assumes "replay_inv q idx" and "profile_wf casefold (live q (idx_deleted idx))"
    and "same_rows p (live q (idx_deleted idx))"
    and "reference_replay casefold p opers = Inr p'"
  shows "\<exists>q' idx'. replayOperations casefold n (q, idx) opers = Inr (q', idx')
    \<and> profile_wf casefold (live q' (idx_deleted idx')) \<and> same_rows p' (live q' (idx_deleted idx'))"
  using assms
proof (induction opers arbitrary: p q idx n)
  case Nil
  then show ?case by (simp add: reference_replay_def)
next
  case (Cons oper opers)
  from Cons.prems(4) obtain p1 where p1: "ApplyOperation casefold p oper = Inr p1"
      "reference_replay casefold p1 opers = Inr p'"
    by (auto simp: reference_replay_def bind_result_Inr)
  note live = ApplyOperation_live[OF Cons.prems(3,2) p1(1)]
  then have "op_keys q oper" using op_fresh_keys by fastforce
  have d: "tables_distinct q"
    using profile_wf_distinct[OF Cons.prems(2)] Cons.prems(1) by (simp add: tables_distinct_def replay_inv_def)
  with live \<open>op_keys q oper\<close> replay_step(1)[OF Cons.prems(1) d, of casefold oper]
  obtain q1 idx1 where step: "applyOperationForReplay casefold (q, idx) oper = Inr (q1, idx1)" by auto
  note after = replay_step(2)[OF Cons.prems(1) d step]
  have "same_rows p1 (live q1 (idx_deleted idx1))" using live after by simp
  moreover from this live have "profile_wf casefold (live q1 (idx_deleted idx1))"
    using profile_wf_same_rows by blast
  ultimately obtain q' idx' where
      "replayOperations casefold (n + 1) (q1, idx1) opers = Inr (q', idx')"
      "profile_wf casefold (live q' (idx_deleted idx'))" "same_rows p' (live q' (idx_deleted idx'))"
    using Cons.IH[OF _ _ _ p1(2)] after by blast
  then show ?case by (simp add: step)
qed

lemma live_init: "live p (idx_deleted (newReplayIndexes p)) = p"
  by (cases p) (simp add: live_def newReplayIndexes_def)

lemma Replay_reference:
  assumes valid: "ValidateSnapshot casefold s = Inr ()"
    and ref: "reference_replay casefold (snap_committed s)
      (take (nat (snap_cursor s)) (snap_journal s)) = Inr p"
  shows "Replay casefold s = Inr \<lparr>eff_revision = snap_revision s, eff_cursor = snap_cursor s,
          eff_committed = snap_committed s, eff_effective = sortCommittedProfile p,
          eff_journal = snap_journal s, eff_drills = snap_drills s\<rparr>"
proof (cases "snap_cursor s > 0")
  case False
  with ref have "p = snap_committed s" by (simp add: reference_replay_def)
  with False valid show ?thesis by (simp add: Replay_def replay_effective_def)
next
  case True
  from valid have wf: "profile_wf casefold (snap_committed s)" by (simp add: ValidateSnapshot_Inr)
  obtain q idx where run: "replayOperations casefold 0
      (snap_committed s, newReplayIndexes (snap_committed s))
      (take (nat (snap_cursor s)) (snap_journal s)) = Inr (q, idx)"
    and wf': "profile_wf casefold (live q (idx_deleted idx))"
    and rows: "same_rows p (live q (idx_deleted idx))"
    using replayOperations_simulates[OF replay_inv_init[OF wf] _ _ ref, of 0] wf
    by (auto simp: live_init)
  have "sortCommittedProfile (live q (idx_deleted idx)) = sortCommittedProfile p"
    by (rule sortCommittedProfile_eq[OF same_rows_sym[OF rows] wf'])
  moreover from wf' have "ValidateProfile casefold (live q (idx_deleted idx)) = Inr ()"
    by (simp add: ValidateProfile_Inr)
  ultimately show ?thesis
    using True valid run
    by (simp add: Replay_def replay_effective_def compactDeletedTransactions_live Let_def)
qed

subsection \<open>The reference from replay\<close>

definition created_id :: "operation \<Rightarrow> entity_id option" where
  "created_id oper =
     (case op_type oper of
        OperationMerchantReassign \<Rightarrow>
          (case op_reassign oper of None \<Rightarrow> None
           | Some r \<Rightarrow> map_option merchant_id (reassign_created r))
      | OperationCategoryCreate \<Rightarrow> map_option create_entity (op_create oper)
      | OperationGroupCreate \<Rightarrow> map_option create_entity (op_create oper)
      | _ \<Rightarrow> None)"

lemma created_pair:
  assumes "op_guard p oper" and "created_id oper = Some k"
  shows "\<exists>kind. kind \<noteq> EntityKindTransaction \<and> kind \<noteq> EntityKindAccount
    \<and> (k, kind) \<in> entity_pairs (op_effect oper p) \<and> (k, kind) \<notin> entity_pairs p
    \<and> (op_fresh p oper \<longleftrightarrow> fresh_id p k \<and> op_keys p oper)"
proof (cases "op_type oper")
  case OperationMerchantReassign
  with assms obtain r m where r: "op_reassign oper = Some r" "reassign_created r = Some m" "k = merchant_id m"
    by (auto simp: created_id_def split: option.splits)
  with OperationMerchantReassign assms(1) show ?thesis
    by (intro exI[of _ EntityKindMerchant])
      (auto simp: op_guard_def op_effect_def entity_pairs_def op_fresh_def op_keys_def)
next
  case OperationCategoryCreate
  with assms obtain c where c: "op_create oper = Some c" "k = create_entity c"
    by (auto simp: created_id_def)
  with OperationCategoryCreate assms(1) show ?thesis
    by (intro exI[of _ EntityKindCategory])
      (auto simp: op_guard_def op_effect_def entity_pairs_def op_fresh_def op_keys_def created_category_def)
next
  case OperationGroupCreate
  with assms obtain c where c: "op_create oper = Some c" "k = create_entity c"
    by (auto simp: created_id_def)
  with OperationGroupCreate assms(1) show ?thesis
    by (intro exI[of _ EntityKindGroup])
      (auto simp: op_guard_def op_effect_def entity_pairs_def op_fresh_def op_keys_def created_group_def)
qed (use assms(2) in \<open>simp_all add: created_id_def\<close>)

lemma op_fresh_not_created:
  assumes "created_id oper = None" and "op_guard p oper" and "op_keys p oper"
  shows "op_fresh p oper"
  using assms
  by (cases "op_type oper")
    (auto simp: created_id_def op_fresh_def op_keys_def op_guard_def with_payload_iff split: option.splits)

text \<open>What a valid end of the replay says of the profile before a creating operation.\<close>

lemma created_is_fresh:
  assumes wf: "profile_wf casefold L" and wf': "profile_wf casefold F"
    and pairs: "entity_pairs (op_effect oper L) \<subseteq> entity_pairs F"
    and same: "accounts F = accounts L" "identities F = identities L"
    and guard: "op_guard L oper" and k: "created_id oper = Some k"
    and unused: "k \<notin> record_id ` set (transactions L)"
  shows "fresh_id L k"
proof -
  from created_pair[OF guard k] obtain kind where kind: "kind \<noteq> EntityKindTransaction"
      "kind \<noteq> EntityKindAccount" "(k, kind) \<in> entity_pairs (op_effect oper L)" "(k, kind) \<notin> entity_pairs L"
    by blast
  have dist: "distinct (map fst (entity_kinds F))" using wf' by (simp add: profile_wf_def ids_wf_def)
  have inF: "(k, kind) \<in> set (entity_kinds F)" using kind(3) pairs by (auto simp: entity_kinds_pairs)
  have only: "kd = kind" if "(k, kd) \<in> set (entity_kinds F)" for kd
    using dist that inF by (rule eq_key_imp_eq_value)
  have mono: "entity_pairs L \<subseteq> entity_pairs F" using op_effect_tables(3) pairs by blast
  have none: "(k, kd) \<notin> set (entity_kinds L)" for kd
  proof
    assume "(k, kd) \<in> set (entity_kinds L)"
    then consider "(k, kd) \<in> entity_pairs L" | "kd = EntityKindAccount" "k \<in> account_id ` set (accounts L)"
      using unused by (auto simp: entity_kinds_pairs)
    then show False
    proof cases
      case 1
      with mono only have "kd = kind" by (auto simp: entity_kinds_pairs)
      with 1 kind(4) show False by simp
    next
      case 2
      with same(1) have "(k, EntityKindAccount) \<in> set (entity_kinds F)" by (auto simp: entity_kinds_pairs)
      with only kind(2) show False by blast
    qed
  qed
  have "identity_entity i \<noteq> k" if i: "i \<in> set (identities L)" for i
  proof
    assume e: "identity_entity i = k"
    have wi: "identity_wf L i" "identity_wf F i"
      using wf wf' i same(2) by (simp_all add: profile_wf_def identities_wf_def)
    from wi(1) none have "identity_kind i = EntityKindTransaction" by (simp add: identity_wf_def e)
    moreover have "k \<in> fst ` set (entity_kinds F)" using inF by (metis fst_conv imageI)
    then have "(k, identity_kind i) \<in> set (entity_kinds F)" using wi(2) by (simp add: identity_wf_def e)
    ultimately show False using only kind(1) by blast
  qed
  with none show ?thesis by (auto simp: fresh_id_def)
qed

lemma record_ids_op_effect:
  "record_id ` set (transactions (op_effect oper p)) \<subseteq> record_id ` set (transactions p)"
proof (cases "op_type oper = OperationTransactionDelete")
  case True
  then show ?thesis by (auto simp: op_effect_def)
next
  case False
  from op_effect_record_ids[OF this, THEN arg_cong[where f = set]] show ?thesis by simp
qed

lemma replayOperations_tables:
  assumes "replay_inv q idx" and "tables_distinct q"
    and "replayOperations casefold n (q, idx) opers = Inr (q', idx')"
  shows "entity_pairs (live q (idx_deleted idx)) \<subseteq> entity_pairs (live q' (idx_deleted idx'))
    \<and> accounts q' = accounts q \<and> identities q' = identities q"
  using assms
proof (induction opers arbitrary: q idx n)
  case Nil
  then show ?case by simp
next
  case (Cons oper opers)
  from Cons.prems(3) obtain q1 idx1 where
      step: "applyOperationForReplay casefold (q, idx) oper = Inr (q1, idx1)"
      and rest: "replayOperations casefold (n + 1) (q1, idx1) opers = Inr (q', idx')"
    by (auto simp: bind_result_Inr)
  note after = replay_step(2)[OF Cons.prems(1,2) step]
  from after have "live q1 (idx_deleted idx1) = op_effect oper (live q (idx_deleted idx))" by blast
  from this[symmetric] op_effect_tables[where oper = oper and p = "live q (idx_deleted idx)"]
  have "entity_pairs (live q (idx_deleted idx)) \<subseteq> entity_pairs (live q1 (idx_deleted idx1))"
      "accounts q1 = accounts q" "identities q1 = identities q" by simp_all
  with Cons.IH[OF _ _ rest] after show ?case by auto
qed

lemma replayOperations_reference:
  assumes "replay_inv q idx" and "tables_distinct q"
    and "profile_wf casefold (live q (idx_deleted idx))"
    and "same_rows p (live q (idx_deleted idx))"
    and "replayOperations casefold n (q, idx) opers = Inr (q', idx')"
    and "profile_wf casefold (live q' (idx_deleted idx'))"
    and "\<forall>oper\<in>set opers. \<forall>k. created_id oper = Some k \<longrightarrow>
      k \<notin> record_id ` set (transactions (live q (idx_deleted idx)))"
  shows "\<exists>p'. reference_replay casefold p opers = Inr p' \<and> same_rows p' (live q' (idx_deleted idx'))"
  using assms
proof (induction opers arbitrary: p q idx n)
  case Nil
  then show ?case by (simp add: reference_replay_def)
next
  case (Cons oper opers)
  let ?L = "live q (idx_deleted idx)"
  from Cons.prems(5) obtain q1 idx1 where
      step: "applyOperationForReplay casefold (q, idx) oper = Inr (q1, idx1)"
      and rest: "replayOperations casefold (n + 1) (q1, idx1) opers = Inr (q', idx')"
    by (auto simp: bind_result_Inr)
  note after = replay_step(2)[OF Cons.prems(1,2) step]
  from replay_step(1)[OF Cons.prems(1,2), of casefold oper] step
  have cond: "ValidateStored casefold oper = Inr ()" "op_guard ?L oper" "op_keys ?L oper" by auto
  from after have L1: "live q1 (idx_deleted idx1) = op_effect oper ?L" by blast
  note tables = replayOperations_tables[OF _ _ rest]
  have "op_fresh ?L oper"
  proof (cases "created_id oper")
    case None
    with cond show ?thesis by (intro op_fresh_not_created)
  next
    case (Some k)
    have "fresh_id ?L k"
    proof (rule created_is_fresh[OF Cons.prems(3,6) _ _ _ cond(2) Some])
      show "entity_pairs (op_effect oper ?L) \<subseteq> entity_pairs (live q' (idx_deleted idx'))"
        using tables after L1 by simp
      have "accounts q1 = accounts q" "identities q1 = identities q"
        using arg_cong[OF L1, of accounts] arg_cong[OF L1, of identities]
        by (simp_all add: op_effect_tables)
      moreover have "accounts q' = accounts q1" "identities q' = identities q1"
        using tables after by blast+
      ultimately show "accounts (live q' (idx_deleted idx')) = accounts ?L"
          "identities (live q' (idx_deleted idx')) = identities ?L" by simp_all
      show "k \<notin> record_id ` set (transactions ?L)" using Cons.prems(7) Some by simp
    qed
    with created_pair[OF cond(2) Some] cond(3) show ?thesis by blast
  qed
  with cond Cons.prems(3) have "\<exists>p1. ApplyOperation casefold p oper = Inr p1"
    using ApplyOperation_accepts[of casefold p oper] profile_wf_same_rows[OF Cons.prems(4)]
      op_guard_same_rows[OF Cons.prems(4)] op_fresh_same_rows[OF Cons.prems(4)] by blast
  then obtain p1 where p1: "ApplyOperation casefold p oper = Inr p1" by blast
  note live = ApplyOperation_live[OF Cons.prems(4,3) p1]
  then have rows: "same_rows p1 (live q1 (idx_deleted idx1))" using L1 by simp
  with live have "profile_wf casefold (live q1 (idx_deleted idx1))"
    using profile_wf_same_rows by blast
  moreover have "\<forall>oper\<in>set opers. \<forall>k. created_id oper = Some k \<longrightarrow>
      k \<notin> record_id ` set (transactions (live q1 (idx_deleted idx1)))"
    using Cons.prems(7) record_ids_op_effect[of oper ?L] unfolding L1 by (meson list.set_intros(2) subsetD)
  ultimately obtain p' where "reference_replay casefold p1 opers = Inr p'"
      "same_rows p' (live q' (idx_deleted idx'))"
    using Cons.IH[OF _ _ _ rows rest Cons.prems(6)] after by blast
  then show ?case by (auto simp: reference_replay_def p1)
qed

lemma Replay_complete:
  assumes replay: "Replay casefold s = Inr e"
    and unused: "\<forall>oper\<in>set (take (nat (snap_cursor s)) (snap_journal s)). \<forall>k.
      created_id oper = Some k \<longrightarrow> k \<notin> record_id ` set (transactions (snap_committed s))"
  shows "\<exists>p. reference_replay casefold (snap_committed s)
      (take (nat (snap_cursor s)) (snap_journal s)) = Inr p \<and> eff_effective e = sortCommittedProfile p"
proof (cases "snap_cursor s > 0")
  case False
  with replay show ?thesis
    by (auto simp: Replay_def replay_effective_def bind_result_Inr reference_replay_def)
next
  case True
  from replay have wf: "profile_wf casefold (snap_committed s)"
    by (auto simp: Replay_def bind_result_Inr ValidateSnapshot_Inr)
  from replay True obtain q idx where run: "replayOperations casefold 0
      (snap_committed s, newReplayIndexes (snap_committed s))
      (take (nat (snap_cursor s)) (snap_journal s)) = Inr (q, idx)"
    and wf': "profile_wf casefold (live q (idx_deleted idx))"
    and eff: "eff_effective e = sortCommittedProfile (live q (idx_deleted idx))"
    by (auto simp: Replay_def replay_effective_def bind_result_Inr Let_def ValidateProfile_Inr
        compactDeletedTransactions_live)
  obtain p where p: "reference_replay casefold (snap_committed s)
      (take (nat (snap_cursor s)) (snap_journal s)) = Inr p"
    and rows: "same_rows p (live q (idx_deleted idx))"
    using replayOperations_reference[OF replay_inv_init[OF wf] profile_wf_tables_distinct[OF wf]
        _ _ run wf', of "snap_committed s"] wf unused by (auto simp: live_init)
  have "sortCommittedProfile (live q (idx_deleted idx)) = sortCommittedProfile p"
    by (rule sortCommittedProfile_eq[OF same_rows_sym[OF rows] wf'])
  with p eff show ?thesis by simp
qed

subsection \<open>Properties\<close>

text \<open>
  C2. \<open>Replay\<close> refines the reference: whenever applying the active operations one by one with
  \<open>ApplyOperation\<close>, which sorts, deletes and validates after each, gives a profile, the indexed
  replay with its deferred deletion and its collision indexes succeeds too and returns that
  profile, sorted, with the revision, cursor, committed base, journal and drills unchanged.
\<close>

theorem Replay_refines_reference:
  assumes "ValidateSnapshot casefold s = Inr ()"
    and "reference_replay casefold (snap_committed s)
      (take (nat (snap_cursor s)) (snap_journal s)) = Inr p"
  shows "Replay casefold s = Inr \<lparr>eff_revision = snap_revision s, eff_cursor = snap_cursor s,
          eff_committed = snap_committed s, eff_effective = sortCommittedProfile p,
          eff_journal = snap_journal s, eff_drills = snap_drills s\<rparr>"
  using assms by (rule Replay_reference)

text \<open>
  C6. Conversely, if no active operation creates an entity under the identity of a committed
  transaction, \<open>Replay\<close> accepts only what the reference accepts: the single validation at the
  end loses nothing against validating after every operation.
\<close>

theorem Replay_only_reference:
  assumes "Replay casefold s = Inr e"
    and "\<forall>oper\<in>set (take (nat (snap_cursor s)) (snap_journal s)). \<forall>k.
      created_id oper = Some k \<longrightarrow> k \<notin> record_id ` set (transactions (snap_committed s))"
  shows "\<exists>p. reference_replay casefold (snap_committed s)
      (take (nat (snap_cursor s)) (snap_journal s)) = Inr p \<and> eff_effective e = sortCommittedProfile p"
  using assms by (rule Replay_complete)

subsection \<open>Examples\<close>

definition example_operation :: "int \<Rightarrow> operation_type \<Rightarrow> entity_id list \<Rightarrow> operation" where
  "example_operation sequence kind targets =
     \<lparr>op_id = ''operation'', op_sequence = sequence, op_type = kind, op_version = 1, op_revision = 1,
      op_created_at = \<lparr>instant = 1, in_utc = True\<rparr>, op_targets = targets, op_label = None, op_create = None, op_move = None,
      op_merge = None, op_reassign = None, op_delete = None, op_hide = None, op_remove = None\<rparr>"

definition example_journal :: "operation list" where
  "example_journal =
     [(example_operation 1 OperationTransactionHide [''t1'', ''t2''])\<lparr>op_hide := Some ()\<rparr>,
      (example_operation 2 OperationMerchantReassign [''t1''])\<lparr>op_reassign := Some
        \<lparr>reassign_destination = ''m3'', reassign_created = Some \<lparr>merchant_id = ''m3'',
          merchant_label = ''Diner'', merchant_key = ''diner'', merchant_retired = False,
          merchant_merged = None\<rparr>\<rparr>\<rparr>,
      (example_operation 4 OperationTransactionDelete [''t2''])\<lparr>op_remove := Some ()\<rparr>,
      (example_operation 7 OperationMerchantMerge [''m2''])\<lparr>op_merge := Some
        \<lparr>merge_source = ''m2'', merge_destination = ''m1''\<rparr>\<rparr>]"

definition example_snapshot :: profile_snapshot where
  "example_snapshot = \<lparr>snap_revision = 9, snap_cursor = 3, snap_committed = example_profile,
     snap_journal = example_journal, snap_drills = []\<rparr>"

text \<open>A check of a journal that evaluates quickly: the guards along the run of the specification.\<close>

fun accepts :: "(string \<Rightarrow> string) \<Rightarrow> profile \<Rightarrow> operation list \<Rightarrow> bool" where
  "accepts casefold p [] = True"
| "accepts casefold p (oper # opers) \<longleftrightarrow> is_ok (ValidateStored casefold oper) \<and> op_guard p oper
     \<and> op_fresh p oper \<and> accepts casefold (sortCommittedProfile (op_effect oper p)) opers"

lemma reference_replay_accepts:
  "profile_wf casefold p \<Longrightarrow> accepts casefold p opers \<Longrightarrow>
     \<exists>q. reference_replay casefold p opers = Inr q \<and> profile_wf casefold q"
proof (induction opers arbitrary: p)
  case Nil
  then show ?case by (simp add: reference_replay_def)
next
  case (Cons oper opers)
  then have stored: "ValidateStored casefold oper = Inr ()" by (auto simp: is_ok_iff)
  have wf: "profile_wf casefold (op_effect oper p)"
    by (rule op_effect_wf[OF Cons.prems(1) stored]) (use Cons.prems(2) in simp_all)
  then have "ApplyOperation casefold p oper = Inr (sortCommittedProfile (op_effect oper p))"
    using Cons.prems stored by (simp add: ApplyOperation_Inr)
  with Cons.IH[of "sortCommittedProfile (op_effect oper p)"] Cons.prems(2) wf show ?case
    by (simp add: reference_replay_def)
qed

lemma example_snapshot_valid: "ValidateSnapshot ascii_fold example_snapshot = Inr ()"
proof -
  have "profile_wf ascii_fold example_profile" using example_profile_valid by (simp add: ValidateProfile_Inr)
  moreover have "list_all (\<lambda>oper. is_ok (ValidateStored ascii_fold oper)) example_journal" by code_simp
  moreover have "sorted_wrt (<) (map op_sequence example_journal)" "length example_journal = 4"
    by code_simp+
  ultimately show ?thesis
    by (auto simp: ValidateSnapshot_Inr example_snapshot_def list_all_iff is_ok_iff)
qed

lemma example_reference:
  "\<exists>p. reference_replay ascii_fold (snap_committed example_snapshot)
      (take (nat (snap_cursor example_snapshot)) (snap_journal example_snapshot)) = Inr p"
proof -
  have "accepts ascii_fold (snap_committed example_snapshot)
      (take (nat (snap_cursor example_snapshot)) (snap_journal example_snapshot))" by code_simp
  moreover have "profile_wf ascii_fold (snap_committed example_snapshot)"
    using example_profile_valid by (simp add: ValidateProfile_Inr example_snapshot_def)
  ultimately show ?thesis using reference_replay_accepts by blast
qed

theorem Replay_refines_reference_witness:
  "\<exists>p. reference_replay ascii_fold example_profile (take 3 example_journal) = Inr p
    \<and> Replay ascii_fold example_snapshot = Inr \<lparr>eff_revision = 9, eff_cursor = 3,
          eff_committed = example_profile, eff_effective = sortCommittedProfile p,
          eff_journal = example_journal, eff_drills = []\<rparr>"
proof -
  from example_reference obtain p where p: "reference_replay ascii_fold (snap_committed example_snapshot)
      (take (nat (snap_cursor example_snapshot)) (snap_journal example_snapshot)) = Inr p" by blast
  from p Replay_refines_reference[OF example_snapshot_valid p] show ?thesis
    by (simp add: example_snapshot_def)
qed

theorem Replay_only_reference_witness:
  "\<exists>e p. Replay ascii_fold example_snapshot = Inr e
    \<and> reference_replay ascii_fold example_profile (take 3 example_journal) = Inr p
    \<and> eff_effective e = sortCommittedProfile p"
proof -
  from example_reference Replay_reference[OF example_snapshot_valid]
  obtain e where e: "Replay ascii_fold example_snapshot = Inr e" by blast
  have "\<forall>oper\<in>set (take (nat (snap_cursor example_snapshot)) (snap_journal example_snapshot)). \<forall>k.
      created_id oper = Some k \<longrightarrow> k \<notin> record_id ` set (transactions (snap_committed example_snapshot))"
    by (simp add: example_snapshot_def example_journal_def example_operation_def created_id_def
        example_profile_def example_record_def)
  from e Replay_only_reference[OF e this] show ?thesis by (simp add: example_snapshot_def)
qed

text \<open>
  The condition on created identities cannot be dropped: a merchant created under the identity of
  a transaction that a later operation deletes passes the replay and fails the reference.
\<close>

definition reuse_journal :: "operation list" where
  "reuse_journal =
     [(example_operation 1 OperationMerchantReassign [''t1''])\<lparr>op_reassign := Some
        \<lparr>reassign_destination = ''t2'', reassign_created = Some \<lparr>merchant_id = ''t2'',
          merchant_label = ''Diner'', merchant_key = ''diner'', merchant_retired = False,
          merchant_merged = None\<rparr>\<rparr>\<rparr>,
      (example_operation 2 OperationTransactionDelete [''t2''])\<lparr>op_remove := Some ()\<rparr>]"

lemma reuse_separates:
  "is_ok (Replay ascii_fold (example_snapshot\<lparr>snap_cursor := 2, snap_journal := reuse_journal\<rparr>))"
  "\<not> is_ok (reference_replay ascii_fold example_profile reuse_journal)"
  by code_simp+

end
