(* ===== verification/Accumulate.thy ===== *)
theory Accumulate
  imports Prelude "HOL-Library.AList"
begin

text \<open>
  The accumulation loops of \<open>internal/analytics\<close>: one pass over the transactions that keeps one
  accumulator per key in a Go map.  The map is an association list in insertion order; what the
  code does with it afterwards must not depend on that order, since Go walks a map in any order.
  The locale \<open>accumulation\<close> is the contract of such a loop: if the accumulator of a bucket is a
  function of the multiset of its transactions, then the whole table is a function of the
  multiset of all transactions, up to the order of its entries.
\<close>

definition accumulate ::
    "('t \<Rightarrow> 'k) \<Rightarrow> ('t \<Rightarrow> 'v) \<Rightarrow> ('v \<Rightarrow> 't \<Rightarrow> 'v) \<Rightarrow> ('v \<Rightarrow> 't \<Rightarrow> 'e + 'v) \<Rightarrow>
     ('k \<times> 'v) list \<Rightarrow> 't \<Rightarrow> 'e + ('k \<times> 'v) list" where
  "accumulate key create revisit step table t =
     (let value = (case map_of table (key t) of None \<Rightarrow> create t | Some v \<Rightarrow> revisit v t) in
      bind_result (step value t) (\<lambda>v. Inr (AList.update (key t) v table)))"

text \<open>The accumulator of one key: the first transaction creates it, the others revisit it.\<close>

definition bucket ::
    "('t \<Rightarrow> 'v) \<Rightarrow> ('v \<Rightarrow> 't \<Rightarrow> 'v) \<Rightarrow> ('v \<Rightarrow> 't \<Rightarrow> 'e + 'v) \<Rightarrow> 't \<Rightarrow> 't list \<Rightarrow> 'e + 'v" where
  "bucket create revisit step t ts =
     bind_result (step (create t) t) (\<lambda>v. fold_result (\<lambda>v u. step (revisit v u) u) v ts)"

definition bucket_of ::
    "('t \<Rightarrow> 'k) \<Rightarrow> ('t \<Rightarrow> 'v) \<Rightarrow> ('v \<Rightarrow> 't \<Rightarrow> 'v) \<Rightarrow> ('v \<Rightarrow> 't \<Rightarrow> 'e + 'v) \<Rightarrow> 't list \<Rightarrow> 'k \<Rightarrow>
     ('e + 'v) option" where
  "bucket_of key create revisit step ts k =
     (case filter (\<lambda>t. key t = k) ts of [] \<Rightarrow> None | t # us \<Rightarrow> Some (bucket create revisit step t us))"

lemma bind_result_assoc: "bind_result (bind_result r f) g = bind_result r (\<lambda>x. bind_result (f x) g)"
  by (cases r) simp_all

lemma bucket_snoc:
  "bucket create revisit step t (us @ [u]) =
     bind_result (bucket create revisit step t us) (\<lambda>v. step (revisit v u) u)"
  by (cases "step (create t) t")
    (auto simp: bucket_def fold_result_append bind_result_def split: sum.splits)

lemma bucket_of_snoc:
  "bucket_of key create revisit step (ts @ [u]) k =
     (if key u = k then Some (case bucket_of key create revisit step ts k of
          None \<Rightarrow> step (create u) u
        | Some r \<Rightarrow> bind_result r (\<lambda>v. step (revisit v u) u))
      else bucket_of key create revisit step ts k)"
proof (cases "filter (\<lambda>t. key t = k) ts")
  case Nil
  have "bind_result (step (create u) u) Inr = step (create u) u"
    by (cases "step (create u) u") simp_all
  with Nil show ?thesis by (simp add: bucket_of_def bucket_def)
next
  case (Cons t us)
  then show ?thesis by (simp add: bucket_of_def bucket_snoc)
qed

lemma bucket_of_None: "bucket_of key create revisit step ts k = None \<longleftrightarrow> k \<notin> key ` set ts"
proof -
  have "bucket_of key create revisit step ts k = None \<longleftrightarrow> filter (\<lambda>t. key t = k) ts = []"
    by (simp add: bucket_of_def split: list.split)
  then show ?thesis by (auto simp: filter_empty_conv)
qed

lemma accumulate_table:
  "(is_ok (fold_result (accumulate key create revisit step) [] ts) \<longleftrightarrow>
      (\<forall>k r. bucket_of key create revisit step ts k = Some r \<longrightarrow> is_ok r))
   \<and> (\<forall>m. fold_result (accumulate key create revisit step) [] ts = Inr m \<longrightarrow>
       distinct (map fst m)
       \<and> (\<forall>k. bucket_of key create revisit step ts k = map_option Inr (map_of m k)))"
proof (induction ts rule: rev_induct)
  case Nil
  show ?case by (simp add: bucket_of_def)
next
  case (snoc u us)
  let ?all = "fold_result (accumulate key create revisit step) []"
  let ?b = "bucket_of key create revisit step"
  have run: "?all (us @ [u]) = bind_result (?all us) (\<lambda>m. accumulate key create revisit step m u)"
    by (cases "?all us")
      (auto simp: fold_result_append bind_result_def split: sum.splits)
  show ?case
  proof (cases "?all us")
    case (Inl e)
    then obtain k r where b: "?b us k = Some r" "\<not> is_ok r" using snoc.IH by auto
    then have "\<exists>r. ?b (us @ [u]) k = Some r \<and> \<not> is_ok r"
      by (cases r) (auto simp: bucket_of_snoc)
    then show ?thesis using Inl run by auto
  next
    case (Inr m)
    then have m: "distinct (map fst m)" "\<And>k. ?b us k = map_option Inr (map_of m k)"
      using snoc.IH by auto
    define v where "v = (case map_of m (key u) of None \<Rightarrow> create u | Some v \<Rightarrow> revisit v u)"
    have bu: "?b (us @ [u]) (key u) = Some (step v u)"
      by (simp add: bucket_of_snoc m v_def split: option.split)
    have bo: "k \<noteq> key u \<Longrightarrow> ?b (us @ [u]) k = map_option Inr (map_of m k)" for k
      by (simp add: bucket_of_snoc m)
    show ?thesis
    proof (cases "step v u")
      case (Inl e)
      then have "?all (us @ [u]) = Inl e"
        using run Inr by (simp add: accumulate_def v_def)
      moreover have "\<exists>k r. ?b (us @ [u]) k = Some r \<and> \<not> is_ok r"
        using bu Inl by (metis is_ok.simps(1))
      ultimately show ?thesis by auto
    next
      case (Inr w)
      then have r: "?all (us @ [u]) = Inr (AList.update (key u) w m)"
        using run \<open>?all us = Inr m\<close> by (simp add: accumulate_def v_def)
      have "\<forall>k r. ?b (us @ [u]) k = Some r \<longrightarrow> is_ok r"
        using bu bo Inr by (metis is_ok.simps(2) map_option_eq_Some option.inject)
      moreover have "?b (us @ [u]) k = map_option Inr (map_of (AList.update (key u) w m) k)" for k
        using bu bo[of k] Inr by (cases "k = key u") (simp_all add: update_conv')
      ultimately show ?thesis using r m(1) by (simp add: distinct_update)
    qed
  qed
qed

fun result_option :: "'e + 'a \<Rightarrow> 'a option" where
  "result_option (Inl e) = None"
| "result_option (Inr x) = Some x"

lemma result_option_Some [simp]: "result_option r = Some x \<longleftrightarrow> r = Inr x"
  by (cases r) auto

lemma is_ok_result_option: "is_ok r \<longleftrightarrow> result_option r \<noteq> None"
  by (cases r) auto

locale accumulation =
  fixes key :: "'t \<Rightarrow> 'k" and create :: "'t \<Rightarrow> 'v" and revisit :: "'v \<Rightarrow> 't \<Rightarrow> 'v"
    and step :: "'v \<Rightarrow> 't \<Rightarrow> 'e + 'v" and admissible :: "'t \<Rightarrow> bool"
    and meaning :: "'k \<Rightarrow> 't multiset \<Rightarrow> 'v option"
  assumes bucket_meaning:
    "\<forall>u\<in>set (t # ts). admissible u \<and> key u = k \<Longrightarrow>
     result_option (bucket create revisit step t ts) = meaning k (mset (t # ts))"
begin

definition run :: "'t list \<Rightarrow> 'e + ('k \<times> 'v) list" where
  "run ts = fold_result (accumulate key create revisit step) [] ts"

lemma bucket_of_meaning:
  assumes "\<forall>t\<in>set ts. admissible t" and "k \<in> key ` set ts"
  obtains r where "bucket_of key create revisit step ts k = Some r"
    and "result_option r = meaning k (mset (filter (\<lambda>t. key t = k) ts))"
proof (cases "filter (\<lambda>t. key t = k) ts")
  case Nil
  with assms(2) show ?thesis by (auto simp: filter_empty_conv)
next
  case (Cons t us)
  have "\<forall>u\<in>set (filter (\<lambda>t. key t = k) ts). admissible u \<and> key u = k" using assms(1) by simp
  then have "result_option (bucket create revisit step t us) = meaning k (mset (t # us))"
    unfolding Cons by (rule bucket_meaning)
  with Cons that show ?thesis by (simp add: bucket_of_def)
qed

text \<open>The loop succeeds exactly when every bucket has a meaning.\<close>

lemma run_ok:
  assumes "\<forall>t\<in>set ts. admissible t"
  shows "is_ok (run ts) \<longleftrightarrow>
    (\<forall>k\<in>key ` set ts. meaning k (mset (filter (\<lambda>t. key t = k) ts)) \<noteq> None)"
proof -
  have "(\<forall>k r. bucket_of key create revisit step ts k = Some r \<longrightarrow> is_ok r) \<longleftrightarrow>
    (\<forall>k\<in>key ` set ts. meaning k (mset (filter (\<lambda>t. key t = k) ts)) \<noteq> None)"
    (is "?L \<longleftrightarrow> ?R")
  proof
    assume L: ?L
    show ?R
    proof
      fix k assume "k \<in> key ` set ts"
      then obtain r where "bucket_of key create revisit step ts k = Some r"
        "result_option r = meaning k (mset (filter (\<lambda>t. key t = k) ts))"
        using bucket_of_meaning[OF assms] by blast
      with L show "meaning k (mset (filter (\<lambda>t. key t = k) ts)) \<noteq> None"
        using is_ok_result_option by metis
    qed
  next
    assume R: ?R
    show ?L
    proof (intro allI impI)
      fix k r assume b: "bucket_of key create revisit step ts k = Some r"
      then have k: "k \<in> key ` set ts" using bucket_of_None[of key create revisit step ts k] by auto
      obtain r' where "bucket_of key create revisit step ts k = Some r'"
        "result_option r' = meaning k (mset (filter (\<lambda>t. key t = k) ts))"
        using bucket_of_meaning[OF assms k] .
      with b R k show "is_ok r" using is_ok_result_option by (metis option.inject)
    qed
  qed
  with accumulate_table[of key create revisit step ts] show ?thesis unfolding run_def by blast
qed

text \<open>Its table has one entry per key, the meaning of the key's transactions.\<close>

lemma run_entries:
  assumes "\<forall>t\<in>set ts. admissible t" and "run ts = Inr m"
  shows "distinct (map fst m)"
    and "set m = {(k, v). k \<in> key ` set ts \<and> meaning k (mset (filter (\<lambda>t. key t = k) ts)) = Some v}"
proof -
  have d: "distinct (map fst m)"
    and b: "\<And>k. bucket_of key create revisit step ts k = map_option Inr (map_of m k)"
    using accumulate_table[of key create revisit step ts] assms(2) unfolding run_def by blast+
  show "distinct (map fst m)" by (rule d)
  have "(k, v) \<in> set m \<longleftrightarrow> k \<in> key ` set ts \<and> meaning k (mset (filter (\<lambda>t. key t = k) ts)) = Some v" for k v
  proof (cases "k \<in> key ` set ts")
    case False
    then have "map_of m k = None" using b[of k] bucket_of_None[of key create revisit step ts k] by simp
    with False show ?thesis using d by (auto simp: map_of_eq_None_iff image_iff)
  next
    case True
    then obtain r where "bucket_of key create revisit step ts k = Some r"
      "result_option r = meaning k (mset (filter (\<lambda>t. key t = k) ts))"
      using bucket_of_meaning[OF assms(1)] by blast
    with b[of k] True d show ?thesis by (cases "map_of m k") (auto simp: map_of_eq_None_iff image_iff)
  qed
  then show "set m = {(k, v). k \<in> key ` set ts \<and> meaning k (mset (filter (\<lambda>t. key t = k) ts)) = Some v}"
    by auto
qed

lemma run_keys:
  assumes "\<forall>t\<in>set ts. admissible t" and "run ts = Inr m"
  shows "fst ` set m = key ` set ts"
proof -
  have "is_ok (run ts)" using assms(2) by simp
  then have "\<forall>k\<in>key ` set ts. \<exists>v. meaning k (mset (filter (\<lambda>t. key t = k) ts)) = Some v"
    using run_ok[OF assms(1)] by auto
  then show ?thesis unfolding run_entries(2)[OF assms] by force
qed

text \<open>The order of the transactions changes neither success nor the entries.\<close>

lemma run_permuted:
  assumes "\<forall>t\<in>set ts. admissible t" and "mset ts = mset us"
  shows "is_ok (run ts) \<longleftrightarrow> is_ok (run us)"
    and "run ts = Inr m \<Longrightarrow> run us = Inr n \<Longrightarrow> mset m = mset n"
proof -
  have s: "set ts = set us" using assms(2) by (rule mset_eq_setD)
  with assms(1) have adm: "\<forall>t\<in>set us. admissible t" by simp
  have f: "mset (filter (\<lambda>t. key t = k) ts) = mset (filter (\<lambda>t. key t = k) us)" for k
    by (simp add: assms(2))
  show "is_ok (run ts) \<longleftrightarrow> is_ok (run us)"
    unfolding run_ok[OF assms(1)] run_ok[OF adm] by (simp only: s f)
  assume m: "run ts = Inr m" and n: "run us = Inr n"
  have "set m = set n"
    unfolding run_entries(2)[OF assms(1) m] run_entries(2)[OF adm n] by (simp only: s f)
  moreover have "distinct m" "distinct n"
    using run_entries(1)[OF assms(1) m] run_entries(1)[OF adm n] by (simp_all add: distinct_map)
  ultimately show "mset m = mset n" by (simp add: set_eq_iff_mset_eq_distinct)
qed

end

text \<open>
  The usual way to meet the contract: the accumulator after the transactions \<open>M\<close> of key \<open>k\<close> is
  \<open>val k M\<close> as long as they \<open>fit\<close>, and one more transaction leads from one such value to the next
  or fails.
\<close>

locale incremental_accumulation =
  fixes key :: "'t \<Rightarrow> 'k" and create :: "'t \<Rightarrow> 'v" and revisit :: "'v \<Rightarrow> 't \<Rightarrow> 'v"
    and step :: "'v \<Rightarrow> 't \<Rightarrow> 'e + 'v" and admissible :: "'t \<Rightarrow> bool"
    and fits :: "'k \<Rightarrow> 't multiset \<Rightarrow> bool" and val :: "'k \<Rightarrow> 't multiset \<Rightarrow> 'v"
  assumes first: "admissible t \<Longrightarrow> key t = k \<Longrightarrow>
      result_option (step (create t) t) = (if fits k {#t#} then Some (val k {#t#}) else None)"
    and more: "admissible t \<Longrightarrow> key t = k \<Longrightarrow> M \<noteq> {#} \<Longrightarrow> \<forall>u\<in>#M. admissible u \<and> key u = k \<Longrightarrow> fits k M \<Longrightarrow>
      result_option (step (revisit (val k M) t) t) =
        (if fits k (add_mset t M) then Some (val k (add_mset t M)) else None)"
    and shrink: "fits k (add_mset t M) \<Longrightarrow> M \<noteq> {#} \<Longrightarrow> fits k M"
begin

lemma shrink_add: "fits k (M + mset ts) \<Longrightarrow> M \<noteq> {#} \<Longrightarrow> fits k M"
proof (induction ts)
  case (Cons t ts)
  have "fits k (M + mset ts)" by (rule shrink[of k t]) (use Cons.prems in simp_all)
  with Cons show ?case by simp
qed simp

lemma fold_val:
  assumes "\<forall>t\<in>set ts. admissible t \<and> key t = k" and "M \<noteq> {#}"
    and "\<forall>u\<in>#M. admissible u \<and> key u = k" and "fits k M"
  shows "result_option (fold_result (\<lambda>v u. step (revisit v u) u) (val k M) ts) =
    (if fits k (M + mset ts) then Some (val k (M + mset ts)) else None)"
  using assms
proof (induction ts arbitrary: M)
  case Nil
  then show ?case by simp
next
  case (Cons t ts)
  have t: "admissible t" "key t = k" using Cons.prems(1) by simp_all
  note step = more[OF t Cons.prems(2-4)]
  show ?case
  proof (cases "fits k (add_mset t M)")
    case True
    with step have "step (revisit (val k M) t) t = Inr (val k (add_mset t M))" by simp
    moreover have "result_option (fold_result (\<lambda>v u. step (revisit v u) u) (val k (add_mset t M)) ts) =
      (if fits k (add_mset t M + mset ts) then Some (val k (add_mset t M + mset ts)) else None)"
      using Cons.prems t True by (intro Cons.IH) auto
    ultimately show ?thesis by simp
  next
    case False
    with step have "result_option (step (revisit (val k M) t) t) = None" by simp
    moreover have "\<not> fits k (add_mset t M + mset ts)" using False shrink_add[of k "add_mset t M" ts] by auto
    ultimately show ?thesis by (cases "step (revisit (val k M) t) t") simp_all
  qed
qed

lemma bucket_val:
  assumes "\<forall>u\<in>set (t # ts). admissible u \<and> key u = k"
  shows "result_option (bucket create revisit step t ts) =
    (if fits k (mset (t # ts)) then Some (val k (mset (t # ts))) else None)"
proof -
  have t: "admissible t" "key t = k" using assms by simp_all
  show ?thesis
  proof (cases "fits k {#t#}")
    case True
    with first[OF t] have "step (create t) t = Inr (val k {#t#})" by simp
    with fold_val[of ts k "{#t#}"] assms True show ?thesis by (simp add: bucket_def)
  next
    case False
    with first[OF t] have "result_option (step (create t) t) = None" by simp
    moreover have "\<not> fits k (mset (t # ts))" using False shrink_add[of k "{#t#}" ts] by auto
    ultimately show ?thesis by (cases "step (create t) t") (simp_all add: bucket_def)
  qed
qed

end

sublocale incremental_accumulation \<subseteq> accumulation key create revisit step admissible
    "\<lambda>k M. if fits k M then Some (val k M) else None"
  by unfold_locales (rule bucket_val)

end
