(* ===== verification/Ordering.thy ===== *)
theory Ordering
  imports Money Dates
begin

text \<open>
  Comparators and the sorts of Go's \<open>sort\<close> and \<open>slices\<close> packages.  A comparator returns a
  negative, zero or positive \<open>int\<close>; the locale \<open>comparison\<close> states what a sort needs of it, is
  closed under composition by key and by tie-break, and gives the locale \<open>weak_order\<close> of the
  corresponding less-than test.  \<open>stable_sort\<close> is the stable sort of a less-than test; the locale
  shows that its result is a sorted permutation, and that it is the only one when elements that
  compare equal are equal, so then also an unstable sort returns it.
\<close>

subsection \<open>Comparators\<close>

definition compare_values :: "'a::linorder \<Rightarrow> 'a \<Rightarrow> int" where
  "compare_values left right = (if left < right then - 1 else if right < left then 1 else 0)"

definition then_compare :: "('a \<Rightarrow> 'a \<Rightarrow> int) \<Rightarrow> ('a \<Rightarrow> 'a \<Rightarrow> int) \<Rightarrow> 'a \<Rightarrow> 'a \<Rightarrow> int" where
  "then_compare first tie left right =
     (if first left right \<noteq> 0 then first left right else tie left right)"

lemma compare_values_zero [simp]: "compare_values x y = 0 \<longleftrightarrow> x = y"
  by (auto simp: compare_values_def)

lemma compare_values_neg [simp]: "compare_values x y < 0 \<longleftrightarrow> x < y"
  by (auto simp: compare_values_def)

lemma compare_values_pos [simp]: "0 < compare_values x y \<longleftrightarrow> y < x"
  by (auto simp: compare_values_def)

lemma compare_values_le [simp]: "compare_values x y \<le> 0 \<longleftrightarrow> x \<le> y"
  by (auto simp: compare_values_def)

locale comparison =
  fixes cmp :: "'a \<Rightarrow> 'a \<Rightarrow> int"
  assumes swap: "cmp y x = - cmp x y"
    and le_trans: "cmp x y \<le> 0 \<Longrightarrow> cmp y z \<le> 0 \<Longrightarrow> cmp x z \<le> 0"
begin

lemma self [simp]: "cmp x x = 0"
  using swap[of x x] by simp

lemma eq_cong: "cmp x y = 0 \<Longrightarrow> sgn (cmp x z) = sgn (cmp y z)"
proof -
  assume eq: "cmp x y = 0"
  have xy: "cmp x y \<le> 0" "cmp y x \<le> 0" using eq swap[of y x] by simp_all
  have le: "cmp x z \<le> 0 \<longleftrightarrow> cmp y z \<le> 0" using le_trans xy by blast
  have ge: "cmp z x \<le> 0 \<longleftrightarrow> cmp z y \<le> 0" using le_trans xy by blast
  have "cmp x z \<ge> 0 \<longleftrightarrow> cmp y z \<ge> 0" using ge swap[of z x] swap[of z y] by simp
  with le show ?thesis by (auto simp: sgn_if)
qed

end

lemma comparison_values [simp, intro]: "comparison (\<lambda>x y. compare_values (f x) (f y))"
  by unfold_locales (auto simp: compare_values_def split: if_splits)

lemma comparison_key: "comparison c \<Longrightarrow> comparison (\<lambda>x y. c (f x) (f y))"
  unfolding comparison_def by blast

lemma comparison_minus: "comparison c \<Longrightarrow> comparison (\<lambda>x y. - c x y)"
  unfolding comparison_def by (metis neg_le_0_iff_le neg_equal_iff_equal minus_minus)

lemma comparison_then:
  assumes "comparison c" and "comparison d"
  shows "comparison (then_compare c d)"
proof -
  note c_swap = comparison.swap[OF assms(1)] and d_swap = comparison.swap[OF assms(2)]
  note c_trans = comparison.le_trans[OF assms(1)] and d_trans = comparison.le_trans[OF assms(2)]
  show ?thesis
  proof
    fix x y
    show "then_compare c d y x = - then_compare c d x y"
      using c_swap[of y x] d_swap[of y x] by (auto simp: then_compare_def)
  next
    fix x y z
    assume xy: "then_compare c d x y \<le> 0" and yz: "then_compare c d y z \<le> 0"
    have "c x y \<le> 0" "c y z \<le> 0" using xy yz by (auto simp: then_compare_def split: if_splits)
    then have xz: "c x z \<le> 0" by (rule c_trans)
    show "then_compare c d x z \<le> 0"
    proof (cases "c x z = 0")
      case False
      with xz show ?thesis by (simp add: then_compare_def)
    next
      case True
      then have zx: "c z x \<le> 0" using c_swap[of z x] by simp
      have "c y x \<le> 0" using c_trans[OF \<open>c y z \<le> 0\<close> zx] .
      then have "c x y = 0" using \<open>c x y \<le> 0\<close> c_swap[of y x] by simp
      moreover have "c z y \<le> 0" using c_trans[OF zx \<open>c x y \<le> 0\<close>] .
      then have "c y z = 0" using \<open>c y z \<le> 0\<close> c_swap[of z y] by simp
      ultimately show ?thesis using True xy yz d_trans[of x y z] by (simp add: then_compare_def)
    qed
  qed
qed

lemma then_compare_zero [simp]: "then_compare c d x y = 0 \<longleftrightarrow> c x y = 0 \<and> d x y = 0"
  by (simp add: then_compare_def)

subsection \<open>Sorting\<close>

fun insert_by :: "('a \<Rightarrow> 'a \<Rightarrow> bool) \<Rightarrow> 'a \<Rightarrow> 'a list \<Rightarrow> 'a list" where
  "insert_by lt x [] = [x]"
| "insert_by lt x (y # ys) = (if lt y x then y # insert_by lt x ys else x # y # ys)"

definition stable_sort :: "('a \<Rightarrow> 'a \<Rightarrow> bool) \<Rightarrow> 'a list \<Rightarrow> 'a list" where
  "stable_sort lt xs = foldr (insert_by lt) xs []"

lemma mset_insert_by [simp]: "mset (insert_by lt x ys) = add_mset x (mset ys)"
  by (induction ys) auto

lemma mset_stable_sort [simp]: "mset (stable_sort lt xs) = mset xs"
  by (induction xs) (simp_all add: stable_sort_def)

lemma set_stable_sort [simp]: "set (stable_sort lt xs) = set xs"
  by (metis mset_stable_sort set_mset_mset)

lemma length_stable_sort [simp]: "length (stable_sort lt xs) = length xs"
  by (metis mset_stable_sort size_mset)

lemma stable_sort_simps [simp]:
  "stable_sort lt [] = []"
  "stable_sort lt (x # xs) = insert_by lt x (stable_sort lt xs)"
  by (simp_all add: stable_sort_def)

lemma insert_by_cong:
  "(\<And>y. y \<in> set ys \<Longrightarrow> lt y x = lt' y x) \<Longrightarrow> insert_by lt x ys = insert_by lt' x ys"
  by (induction ys) auto

lemma stable_sort_cong:
  assumes "\<And>x y. x \<in> set xs \<Longrightarrow> y \<in> set xs \<Longrightarrow> lt x y = lt' x y"
  shows "stable_sort lt xs = stable_sort lt' xs"
  using assms
proof (induction xs)
  case (Cons x xs)
  then have "stable_sort lt xs = stable_sort lt' xs" by simp
  then show ?case using Cons.prems by (auto intro!: insert_by_cong)
qed simp

text \<open>Sorting the images is the image of sorting by the composed test: DetailRows sorts indexes.\<close>

lemma insert_by_map: "insert_by lt (f x) (map f ys) = map f (insert_by (\<lambda>a b. lt (f a) (f b)) x ys)"
  by (induction ys) auto

lemma stable_sort_map: "stable_sort lt (map f xs) = map f (stable_sort (\<lambda>a b. lt (f a) (f b)) xs)"
  by (induction xs) (simp_all add: insert_by_map)

locale weak_order =
  fixes lt :: "'a \<Rightarrow> 'a \<Rightarrow> bool"
  assumes asym: "lt x y \<Longrightarrow> \<not> lt y x"
    and neg_trans: "lt x z \<Longrightarrow> lt x y \<or> lt y z"
begin

lemma not_less_trans: "\<not> lt y x \<Longrightarrow> \<not> lt z y \<Longrightarrow> \<not> lt z x"
  using neg_trans by blast

lemma sorted_insert_by:
  "sorted_wrt (\<lambda>a b. \<not> lt b a) ys \<Longrightarrow> sorted_wrt (\<lambda>a b. \<not> lt b a) (insert_by lt x ys)"
proof (induction ys)
  case (Cons y ys)
  have set: "set (insert_by lt x ys) = insert x (set ys)"
    by (metis mset_insert_by set_mset_add_mset_insert set_mset_mset)
  show ?case
  proof (cases "lt y x")
    case True
    then show ?thesis using Cons asym[OF True] by (auto simp: set)
  next
    case False
    then show ?thesis using Cons.prems not_less_trans[OF False] by auto
  qed
qed simp

lemma sorted_stable_sort: "sorted_wrt (\<lambda>a b. \<not> lt b a) (stable_sort lt xs)"
  by (induction xs) (simp_all add: sorted_insert_by)

text \<open>The sort keeps the order of elements that compare equal.\<close>

lemma filter_insert_by:
  assumes "sorted_wrt (\<lambda>a b. \<not> lt b a) ys"
  shows "filter (\<lambda>y. \<not> lt y z \<and> \<not> lt z y) (insert_by lt x ys)
    = filter (\<lambda>y. \<not> lt y z \<and> \<not> lt z y) (x # ys)"
  using assms
proof (induction ys)
  case (Cons y ys)
  show ?case
  proof (cases "lt y x")
    case False
    then show ?thesis by simp
  next
    case True
    have "(\<not> lt x z \<and> \<not> lt z x) \<longrightarrow> \<not> (\<not> lt y z \<and> \<not> lt z y)"
      using True neg_trans[OF True, of z] by blast
    with True Cons show ?thesis by auto
  qed
qed simp

lemma stable: "filter (\<lambda>y. \<not> lt y z \<and> \<not> lt z y) (stable_sort lt xs)
  = filter (\<lambda>y. \<not> lt y z \<and> \<not> lt z y) xs"
  by (induction xs) (simp_all add: filter_insert_by sorted_stable_sort)

text \<open>Sorted permutations are unique when no two different elements compare equal.\<close>

lemma sorted_unique:
  assumes "mset xs = mset ys"
    and "sorted_wrt (\<lambda>a b. \<not> lt b a) xs" and "sorted_wrt (\<lambda>a b. \<not> lt b a) ys"
    and "\<And>a b. a \<in> set xs \<Longrightarrow> b \<in> set xs \<Longrightarrow> \<not> lt a b \<Longrightarrow> \<not> lt b a \<Longrightarrow> a = b"
  shows "xs = ys"
  using assms
proof (induction xs arbitrary: ys)
  case Nil
  then show ?case by simp
next
  case (Cons x xs)
  obtain y zs where ys: "ys = y # zs" using Cons.prems(1) by (cases ys) auto
  have y: "y \<in> set (x # xs)" and x: "x \<in> set ys"
    using mset_eq_setD[OF Cons.prems(1)] ys by auto
  have "x = y"
  proof (rule ccontr)
    assume ne: "x \<noteq> y"
    with y have "y \<in> set xs" by simp
    then have a: "\<not> lt y x" using Cons.prems(2) by simp
    from ne x ys have "x \<in> set zs" by simp
    then have b: "\<not> lt x y" using Cons.prems(3) ys by simp
    show False using Cons.prems(4)[OF _ y b a] ne by simp
  qed
  moreover have "xs = zs"
  proof (rule Cons.IH)
    show "mset xs = mset zs" using Cons.prems(1) ys \<open>x = y\<close> by simp
    show "sorted_wrt (\<lambda>a b. \<not> lt b a) xs" using Cons.prems(2) by simp
    show "sorted_wrt (\<lambda>a b. \<not> lt b a) zs" using Cons.prems(3) ys by simp
    show "\<And>a b. a \<in> set xs \<Longrightarrow> b \<in> set xs \<Longrightarrow> \<not> lt a b \<Longrightarrow> \<not> lt b a \<Longrightarrow> a = b"
      using Cons.prems(4) by simp
  qed
  ultimately show ?case using ys by simp
qed

lemma stable_sort_unique:
  assumes "mset xs = mset ys"
    and "\<And>a b. a \<in> set xs \<Longrightarrow> b \<in> set xs \<Longrightarrow> \<not> lt a b \<Longrightarrow> \<not> lt b a \<Longrightarrow> a = b"
  shows "stable_sort lt xs = stable_sort lt ys"
  using assms by (intro sorted_unique) (simp_all add: sorted_stable_sort)

end

sublocale comparison \<subseteq> asc: weak_order "\<lambda>x y. cmp x y < 0"
proof
  fix x y
  show "cmp x y < 0 \<Longrightarrow> \<not> cmp y x < 0" using swap[of y x] by simp
next
  fix x y z
  show "cmp x z < 0 \<Longrightarrow> cmp x y < 0 \<or> cmp y z < 0"
    using le_trans[of z y x] swap[of z y] swap[of y x] swap[of z x] by linarith
qed

text \<open>The comparators of dates and of texts.\<close>

lemma date_compare_values: "date_compare d e = compare_values (date_ordinal d) (date_ordinal e)"
  by (simp add: date_compare_def compare_values_def)

interpretation date_order: comparison date_compare
  unfolding date_compare_values by (rule comparison_values)

interpretation value_order: comparison "compare_values :: 'a::linorder \<Rightarrow> 'a \<Rightarrow> int"
  using comparison_values[of "\<lambda>x. x"] by simp

end
