(* ===== verification/Analytics_Ratio.thy ===== *)
theory Analytics_Ratio
  imports Ordering Query_Spec
begin

text \<open>
  Exact magnitudes and ratios of \<open>internal/analytics\<close>: \<open>absMinor\<close> and \<open>ratioHalfUp\<close> of
  \<open>aggregate.go\<close>, and the period comparisons of \<open>change.go\<close>.  Minor units are \<open>int64\<close>, magnitudes
  \<open>uint64\<close>; the 128-bit product and quot of \<open>math/bits\<close> are written out on natural numbers,
  with the panic of \<open>bits.Div64\<close> as \<open>None\<close>.  The conversion \<open>int(quotient)\<close> of a \<open>uint64\<close> is \<open>sint\<close>: it
  would wrap without the guard before it.
\<close>

subsection \<open>Magnitudes and ratios\<close>

definition absMinor :: "int64 \<Rightarrow> uint64" where
  "absMinor value = (if 0 \<le>s value then value else - (value + 1) + 1)"

definition mul64 :: "uint64 \<Rightarrow> uint64 \<Rightarrow> uint64 \<times> uint64" where
  "mul64 x y = (of_nat (unat x * unat y div 2 ^ 64), of_nat (unat x * unat y mod 2 ^ 64))"

definition div64 :: "uint64 \<Rightarrow> uint64 \<Rightarrow> uint64 \<Rightarrow> (uint64 \<times> uint64) option" where
  "div64 high low y =
     (if y \<le> high then None
      else Some (of_nat ((unat high * 2 ^ 64 + unat low) div unat y),
                 of_nat ((unat high * 2 ^ 64 + unat low) mod unat y)))"

datatype ratio_error = RatioDenominatorZero | RatioOverflow | RatioPanic

definition ratioHalfUp :: "uint64 \<Rightarrow> uint64 \<Rightarrow> uint64 \<Rightarrow> ratio_error + int" where
  "ratioHalfUp numerator denominator multiplier =
     (if denominator = 0 then Inl RatioDenominatorZero
      else case mul64 numerator multiplier of (high, low) \<Rightarrow>
        if denominator \<le> high then Inl RatioOverflow
        else case div64 high low denominator of
          None \<Rightarrow> Inl RatioPanic
        | Some (quot, rest) \<Rightarrow>
            let halfUpThreshold = denominator div 2 + denominator mod 2 in
            bind_result (if halfUpThreshold \<le> rest
                         then if quot = max_uint64 then Inl RatioOverflow else Inr (quot + 1)
                         else Inr quot) (\<lambda>quotient.
            if max_int64 < quotient then Inl RatioOverflow else Inr (sint quotient)))"

text \<open>The rational number \<open>n * m / d\<close>, rounded half up.\<close>

definition half_up :: "nat \<Rightarrow> nat \<Rightarrow> nat \<Rightarrow> nat" where
  "half_up n d m = (2 * (n * m) + d) div (2 * d)"

lemma unat_absMinor: "unat (absMinor v) = nat \<bar>sint v\<bar>"
proof (cases "0 \<le> sint v")
  case True
  then have "unat v = nat (sint v)" by (metis nat_int unat_nonneg)
  with True show ?thesis by (simp add: absMinor_def word_sle_eq)
next
  case False
  have one: "sint (v + 1) = sint v + 1"
    using False sint_lower[of v] by (subst sint_plus) (simp_all add: in_int64_def)
  have "v + 1 \<noteq> min_int64"
  proof
    assume "v + 1 = min_int64"
    then have "sint v + 1 = - (2 ^ 63)" using one by simp
    with sint_lower[of v] show False by simp
  qed
  then have "sint (- (v + 1)) = - sint (v + 1)" by (rule sint_neg)
  then have neg: "sint (- (v + 1)) = - sint v - 1" using one by linarith
  then have nat: "int (unat (- (v + 1))) = - sint v - 1"
    using False by (subst unat_nonneg) simp_all
  moreover have "- sint v \<le> 9223372036854775808" using sint_lower[of v] by simp
  ultimately have "unat (- (v + 1)) + 1 < 18446744073709551616" by linarith
  moreover have "(2 :: nat) ^ 64 = 18446744073709551616" by simp
  ultimately have "unat (- (v + 1)) + 1 < 2 ^ 64" by (simp only:)
  then have "unat (- (v + 1)) + unat (1 :: uint64) < 2 ^ 64" by (simp only: unat_1)
  then have "unat (- (v + 1) + 1) = unat (- (v + 1)) + 1"
    by (simp only: unat_plus_no_overflow unat_1)
  with nat have "int (unat (- (v + 1) + 1)) = - sint v" by linarith
  with False have "unat (- (v + 1) + 1) = nat \<bar>sint v\<bar>" by linarith
  with False show ?thesis unfolding absMinor_def word_sle_eq by simp
qed

lemma absMinor_bound: "unat (absMinor v) \<le> 2 ^ 63"
  using sint_lower[of v] sint_upper[of v] by (simp add: unat_absMinor)

lemma unat_of_nat_small: "n < 2 ^ 64 \<Longrightarrow> unat (of_nat n :: uint64) = n"
  by (simp add: unat_of_nat take_bit_nat_eq_self)

lemma half_up_quotient:
  assumes "0 < d"
  shows "half_up n d m = n * m div d + (if d \<le> 2 * (n * m mod d) then 1 else 0)"
proof -
  let ?p = "n * m"
  have p: "?p = d * (?p div d) + ?p mod d" by simp
  have r: "?p mod d < d" using assms by simp
  have "2 * ?p + d = 2 * (?p mod d) + d + (?p div d) * (2 * d)"
    using p by (metis (no_types, opaque_lifting) add.assoc add.commute distrib_left mult.assoc mult.commute)
  then have "half_up n d m = (2 * (?p mod d) + d + (?p div d) * (2 * d)) div (2 * d)"
    by (simp only: half_up_def)
  also have "\<dots> = (2 * (?p mod d) + d) div (2 * d) + ?p div d"
    using assms by (simp del: mult_Suc_right)
  also have "(2 * (?p mod d) + d) div (2 * d) = (if d \<le> 2 * (?p mod d) then 1 else 0)"
    using r by (auto simp: div_nat_eqI)
  finally show ?thesis by simp
qed

lemma halfUpThreshold: "unat (d div 2 + d mod 2 :: uint64) = (unat d + 1) div 2"
proof -
  have "unat d div 2 + unat d mod 2 < 2 ^ 64" using unat_upper[of d] by linarith
  then have "unat (d div 2 + d mod 2) = unat d div 2 + unat d mod 2"
    by (simp add: unat_word_ariths unat_div unat_mod)
  also have "\<dots> = (unat d + 1) div 2" by presburger
  finally show ?thesis .
qed

lemma sint_quotient:
  "(if max_int64 < q then r else Inr (sint (q :: uint64)))
   = (if max_int64 < q then r else Inr (int (unat q)))"
proof (cases "max_int64 < q")
  case False
  have "unat max_int64 = 2 ^ 63 - 1" by (simp add: max_int64_def)
  with False have "unat q < 2 ^ 63" by (simp add: word_less_nat_alt)
  then have "int (unat q) < int (2 ^ 63)" by (simp only: of_nat_less_iff)
  then have "uint q < 2 ^ 63" by (simp only: uint_nat of_nat_power of_nat_numeral)
  moreover have "- (2 ^ 63) \<le> uint q" by (rule order_trans[OF _ uint_ge_0]) simp
  ultimately have "sint q = uint q" by (simp add: sint_uint signed_take_bit_int_eq_self)
  with False show ?thesis by simp
qed simp

text \<open>\<open>ratioHalfUp\<close> is the half-up rounding whenever that fits an \<open>int\<close>, and an error otherwise.\<close>

lemma ratioHalfUp_eq:
  "ratioHalfUp n d m =
     (if d = 0 then Inl RatioDenominatorZero
      else if half_up (unat n) (unat d) (unat m) < 2 ^ 63
      then Inr (int (half_up (unat n) (unat d) (unat m))) else Inl RatioOverflow)"
proof (cases "d = 0")
  case True
  then show ?thesis by (simp add: ratioHalfUp_def)
next
  case False
  define P where "P = unat n * unat m"
  define D where "D = unat d"
  have D: "0 < D" "D < 2 ^ 64" using False unat_upper[of d] by (simp_all add: D_def unat_gt_0)
  have "P < 2 ^ 64 * 2 ^ 64"
    unfolding P_def using unat_upper[of n] unat_upper[of m] by (intro mult_strict_mono) simp_all
  then have hi: "P div 2 ^ 64 < 2 ^ 64" by (simp add: less_mult_imp_div_less)
  have H: "unat (of_nat (P div 2 ^ 64) :: uint64) = P div 2 ^ 64" by (rule unat_of_nat_small[OF hi])
  have L: "unat (of_nat (P mod 2 ^ 64) :: uint64) = P mod 2 ^ 64" by (rule unat_of_nat_small) simp
  have le: "d \<le> of_nat (P div 2 ^ 64) \<longleftrightarrow> D \<le> P div 2 ^ 64"
    by (simp only: word_le_nat_alt H D_def)
  have half: "half_up (unat n) (unat d) (unat m) = P div D + (if D \<le> 2 * (P mod D) then 1 else 0)"
    using half_up_quotient[OF D(1)] by (simp add: P_def D_def)
  have whole: "unat (of_nat (P div 2 ^ 64) :: uint64) * 2 ^ 64 + unat (of_nat (P mod 2 ^ 64) :: uint64) = P"
    unfolding H L by simp
  show ?thesis
  proof (cases "D \<le> P div 2 ^ 64")
    case True
    then have "2 ^ 64 * D \<le> P" using D(1) by (metis div_le_mono div_mult_self1_is_m less_eq_div_iff_mult_less_eq mult.commute zero_less_numeral zero_less_power)
    then have "2 ^ 64 \<le> P div D" using D(1) by (simp add: less_eq_div_iff_mult_less_eq)
    then have big: "\<not> half_up (unat n) (unat d) (unat m) < 2 ^ 63" unfolding half by simp
    have "ratioHalfUp n d m = Inl RatioOverflow"
      using False True le by (simp add: ratioHalfUp_def mul64_def flip: P_def)
    with big False show ?thesis by simp
  next
    case small: False
    then have "P div 2 ^ 64 < D" by simp
    then have "P < D * 2 ^ 64" by (simp add: div_less_iff_less_mult)
    then have q: "P div D < 2 ^ 64" using D(1) by (simp add: div_less_iff_less_mult mult.commute)
    have r: "P mod D < 2 ^ 64" using D mod_less_divisor[OF D(1), of P] by linarith
    define Q where "Q = (of_nat (P div D) :: uint64)"
    define R where "R = (of_nat (P mod D) :: uint64)"
    have Q: "unat Q = P div D" unfolding Q_def by (rule unat_of_nat_small[OF q])
    have R: "unat R = P mod D" unfolding R_def by (rule unat_of_nat_small[OF r])
    have thr: "d div 2 + d mod 2 \<le> R \<longleftrightarrow> D \<le> 2 * (P mod D)"
      unfolding word_le_nat_alt halfUpThreshold R D_def by linarith
    have "ratioHalfUp n d m =
       bind_result (if d div 2 + d mod 2 \<le> R
                    then if Q = max_uint64 then Inl RatioOverflow else Inr (Q + 1) else Inr Q)
         (\<lambda>q. if max_int64 < q then Inl RatioOverflow else Inr (sint q))"
      using False small le
      by (simp only: ratioHalfUp_def mul64_def div64_def P_def[symmetric] D_def[symmetric] Q_def[symmetric]
          R_def[symmetric] whole Let_def prod.case option.case le if_False)
    then have code: "ratioHalfUp n d m =
       (if d div 2 + d mod 2 \<le> R then
          (if Q = max_uint64 then Inl RatioOverflow
           else if max_int64 < Q + 1 then Inl RatioOverflow else Inr (int (unat (Q + 1))))
        else if max_int64 < Q then Inl RatioOverflow else Inr (int (unat Q)))"
      by (cases "d div 2 + d mod 2 \<le> R"; cases "Q = max_uint64") (simp_all add: sint_quotient)
    have maxint: "unat max_int64 = 2 ^ 63 - 1" by (simp add: max_int64_def)
    have maxq: "Q = max_uint64 \<longleftrightarrow> P div D = 2 ^ 64 - 1"
      unfolding Q[symmetric] unat_max_uint64[symmetric] by (simp only: word_unat_eq_iff)
    have suc: "Q \<noteq> max_uint64 \<Longrightarrow> unat (Q + 1) = P div D + 1"
      using q maxq Q by (subst unat_plus_no_overflow) auto
    show ?thesis
    proof (cases "D \<le> 2 * (P mod D)")
      case True
      then show ?thesis
        using code thr half suc maxq maxint False by (auto simp: word_less_nat_alt)
    next
      case False
      then show ?thesis
        using code thr half Q maxint \<open>d \<noteq> 0\<close> by (auto simp: word_less_nat_alt)
    qed
  qed
qed

lemma half_up_le: "n \<le> d \<Longrightarrow> 0 < d \<Longrightarrow> half_up n d m \<le> m"
proof -
  assume "n \<le> d" "0 < d"
  then have "n * m \<le> d * m" by simp
  moreover have "(m + 1) * (2 * d) = 2 * (d * m) + 2 * d" by (simp add: algebra_simps)
  ultimately have "2 * (n * m) + d < (m + 1) * (2 * d)" using \<open>0 < d\<close> by linarith
  then have "half_up n d m < m + 1" unfolding half_up_def by (rule less_mult_imp_div_less)
  then show ?thesis by simp
qed

text \<open>A share of a whole never overflows and never exceeds the multiplier.\<close>

lemma ratioHalfUp_share:
  assumes "n \<le> d" and "d \<noteq> 0" and "unat m < 2 ^ 63"
  shows "ratioHalfUp n d m = Inr (int (half_up (unat n) (unat d) (unat m)))
    \<and> half_up (unat n) (unat d) (unat m) \<le> unat m"
proof -
  have "half_up (unat n) (unat d) (unat m) \<le> unat m"
    using assms by (intro half_up_le) (simp_all add: word_le_nat_alt unat_gt_0)
  with assms show ?thesis by (simp add: ratioHalfUp_eq)
qed

subsection \<open>Period comparisons\<close>

datatype change_kind = ChangeNone | ChangeNew | ChangePercent | ChangeAmount

record change =
  change_kind :: change_kind
  change_tenths :: int
  change_grew :: bool
  change_favorable :: bool
  change_amount :: int64

datatype change_error = ChangeOverflow | ChangeRatio ratio_error

definition zero_change :: change where
  "zero_change = \<lparr>change_kind = ChangeNone, change_tenths = 0, change_grew = False,
     change_favorable = False, change_amount = 0\<rparr>"

definition magnitudeChange :: "uint64 \<Rightarrow> uint64 \<Rightarrow> bool \<Rightarrow> change_error + change" where
  "magnitudeChange current prior growthFavorable =
     (let difference = (if current < prior then prior - current else current - prior) in
      bind_result (map_error ChangeRatio (ratioHalfUp difference prior 1000)) (\<lambda>tenths.
        let grew = prior < current; shrank = current < prior;
            favorable = (growthFavorable \<and> \<not> shrank) \<or> (\<not> growthFavorable \<and> \<not> grew)
        in Inr (zero_change\<lparr>change_kind := ChangePercent, change_tenths := tenths,
             change_grew := grew, change_favorable := favorable\<rparr>)))"

definition signChange :: "int64 \<Rightarrow> int64 \<Rightarrow> change_error + change" where
  "signChange current prior =
     (if (prior <s 0 \<and> max_int64 + prior <s current) \<or> (0 <s prior \<and> current <s min_int64 + prior)
      then Inl ChangeOverflow
      else let amount = current - prior in
        Inr (zero_change\<lparr>change_kind := ChangeAmount, change_amount := amount,
          change_favorable := 0 <s amount\<rparr>))"

definition NetChange :: "int64 \<Rightarrow> int64 \<Rightarrow> change_error + change" where
  "NetChange current prior =
     (if current = 0 \<and> prior = 0
      then Inr (zero_change\<lparr>change_kind := ChangeNone, change_favorable := True\<rparr>)
      else if prior = 0
      then Inr (zero_change\<lparr>change_kind := ChangeNew, change_favorable := 0 <s current\<rparr>)
      else if current \<noteq> 0 \<and> (0 <s current) \<noteq> (0 <s prior) then signChange current prior
      else magnitudeChange (absMinor current) (absMinor prior) (0 <s prior))"

definition totalChange :: "uint64 \<Rightarrow> uint64 \<Rightarrow> bool \<Rightarrow> change_error + change" where
  "totalChange current prior growthFavorable =
     (if current = 0 \<and> prior = 0
      then Inr (zero_change\<lparr>change_kind := ChangeNone, change_favorable := True\<rparr>)
      else if prior = 0
      then Inr (zero_change\<lparr>change_kind := ChangeNew, change_favorable := growthFavorable\<rparr>)
      else magnitudeChange current prior growthFavorable)"

definition IncomeChange :: "int64 \<Rightarrow> int64 \<Rightarrow> change_error + change" where
  "IncomeChange current prior = totalChange (absMinor current) (absMinor prior) True"

definition SpendingChange :: "int64 \<Rightarrow> int64 \<Rightarrow> change_error + change" where
  "SpendingChange current prior = totalChange (absMinor current) (absMinor prior) False"

text \<open>The change in magnitude in tenths of a percent of the prior magnitude, half up.\<close>

definition percent_tenths :: "int \<Rightarrow> int \<Rightarrow> int" where
  "percent_tenths current prior =
     int (half_up (nat \<bar>\<bar>current\<bar> - \<bar>prior\<bar>\<bar>) (nat \<bar>prior\<bar>) 1000)"

lemma magnitudeChange_eq:
  assumes "p \<noteq> 0"
  shows "magnitudeChange (absMinor c) (absMinor p) g =
    (if percent_tenths (sint c) (sint p) < 2 ^ 63
     then Inr (zero_change\<lparr>change_kind := ChangePercent,
       change_tenths := percent_tenths (sint c) (sint p),
       change_grew := \<bar>sint p\<bar> < \<bar>sint c\<bar>,
       change_favorable := (if g then \<bar>sint p\<bar> \<le> \<bar>sint c\<bar> else \<bar>sint c\<bar> \<le> \<bar>sint p\<bar>)\<rparr>)
     else Inl (ChangeRatio RatioOverflow))"
proof -
  let ?c = "absMinor c" and ?p = "absMinor p"
  have nz: "?p \<noteq> 0"
  proof
    assume "?p = 0"
    then have "nat \<bar>sint p\<bar> = 0" using unat_absMinor[of p] by simp
    then have "sint p = sint (0 :: int64)" by simp
    then show False using assms by (simp only: sint_inject)
  qed
  have less: "?c < ?p \<longleftrightarrow> \<bar>sint c\<bar> < \<bar>sint p\<bar>" "?p < ?c \<longleftrightarrow> \<bar>sint p\<bar> < \<bar>sint c\<bar>"
    unfolding word_less_nat_alt unat_absMinor by linarith+
  have "unat (if ?c < ?p then ?p - ?c else ?c - ?p) = nat \<bar>\<bar>sint c\<bar> - \<bar>sint p\<bar>\<bar>"
    using unat_sub[of ?c ?p] unat_sub[of ?p ?c] by (auto simp: unat_absMinor word_le_nat_alt less nat_diff_distrib)
  then have "ratioHalfUp (if ?c < ?p then ?p - ?c else ?c - ?p) ?p 1000 =
    (if percent_tenths (sint c) (sint p) < 2 ^ 63
     then Inr (percent_tenths (sint c) (sint p)) else Inl RatioOverflow)"
    using nz by (simp add: ratioHalfUp_eq percent_tenths_def unat_absMinor)
  then show ?thesis
    by (auto simp: magnitudeChange_def Let_def less not_less)
qed

lemma signChange_eq:
  assumes "(0 < sint c) \<noteq> (0 < sint p)"
  shows "signChange c p =
    (if in_int64 (sint c - sint p)
     then Inr (zero_change\<lparr>change_kind := ChangeAmount, change_amount := c - p,
       change_favorable := sint p < sint c\<rparr>)
     else Inl ChangeOverflow)"
proof -
  have "(p <s 0 \<and> max_int64 + p <s c) \<or> (0 <s p \<and> c <s min_int64 + p) \<longleftrightarrow> \<not> in_int64 (sint c - sint p)"
    using sub_overflows_iff[of c p] unfolding sub_overflows_def by blast
  moreover have "in_int64 (sint c - sint p) \<Longrightarrow> 0 <s c - p \<longleftrightarrow> sint p < sint c"
    by (simp add: word_sless_alt sint_minus)
  ultimately show ?thesis by (simp add: signChange_def Let_def)
qed

lemma sint_eq_0: "sint (w :: int64) = 0 \<longleftrightarrow> w = 0"
  using sint_inject[of w 0] by simp

lemma NetChange_exact:
  "case NetChange current prior of
     Inr c \<Rightarrow> (change_favorable c \<longleftrightarrow> sint prior \<le> sint current)
       \<and> (change_kind c = ChangeNone \<longleftrightarrow> current = 0 \<and> prior = 0)
       \<and> (change_kind c = ChangeNew \<longleftrightarrow> current \<noteq> 0 \<and> prior = 0)
       \<and> (change_kind c = ChangeAmount \<longleftrightarrow> sint current * sint prior < 0)
       \<and> (change_kind c = ChangeAmount \<longrightarrow> sint (change_amount c) = sint current - sint prior)
       \<and> (change_kind c = ChangePercent \<longrightarrow>
            change_tenths c = percent_tenths (sint current) (sint prior)
            \<and> (change_grew c \<longleftrightarrow> \<bar>sint prior\<bar> < \<bar>sint current\<bar>))
   | Inl e \<Rightarrow> (sint current * sint prior < 0 \<and> \<not> in_int64 (sint current - sint prior))
       \<or> (0 \<le> sint current * sint prior \<and> 2 ^ 63 \<le> percent_tenths (sint current) (sint prior))"
proof -
  let ?c = "sint current" and ?p = "sint prior"
  have zero: "current = 0 \<longleftrightarrow> ?c = 0" "prior = 0 \<longleftrightarrow> ?p = 0" by (simp_all only: sint_eq_0)
  consider "?p = 0" | "?p \<noteq> 0" "?c \<noteq> 0" "(0 < ?c) \<noteq> (0 < ?p)" | "?p \<noteq> 0" "?c = 0 \<or> (0 < ?c) = (0 < ?p)"
    by blast
  then show ?thesis
  proof cases
    case 1
    then show ?thesis by (auto simp: NetChange_def zero_change_def zero word_sless_alt)
  next
    case 2
    then have "NetChange current prior = signChange current prior"
      by (simp add: NetChange_def zero word_sless_alt)
    moreover have "?c * ?p < 0" using 2 by (auto simp: mult_less_0_iff)
    ultimately show ?thesis
      using signChange_eq[OF 2(3)] 2(3) by (auto simp: zero zero_change_def sint_minus)
  next
    case 3
    then have "NetChange current prior = magnitudeChange (absMinor current) (absMinor prior) (0 < ?p)"
      by (auto simp: NetChange_def zero word_sless_alt)
    moreover have "\<not> ?c * ?p < 0" using 3 by (auto simp: mult_less_0_iff)
    ultimately show ?thesis
      using magnitudeChange_eq[of prior current "0 < ?p"] 3 by (auto simp: zero zero_change_def)
  qed
qed

lemma absMinor_eq_0: "absMinor v = 0 \<longleftrightarrow> sint v = 0"
  by (metis absMinor_def add_0 diff_0 neg_equal_0_iff_equal sint_0 sint_eq_0 unat_0 unat_absMinor
      unat_eq_zero nat_0_iff abs_le_zero_iff)

lemma totalChange_eq:
  "totalChange (absMinor c) (absMinor p) g =
    (if p = 0 then Inr (zero_change\<lparr>change_kind := if c = 0 then ChangeNone else ChangeNew,
       change_favorable := g \<or> c = 0\<rparr>)
     else magnitudeChange (absMinor c) (absMinor p) g)"
  by (simp add: totalChange_def absMinor_eq_0 sint_eq_0)

text \<open>
  C14. The comparisons of two periods are exact.  A net that changed sign shows the exact
  difference; every other change from a nonzero prior is the change in magnitude as a percent of
  the prior magnitude, in tenths rounded half up, with the flag of growth.  The colour follows the
  values whatever the display kind: \<open>NetChange\<close> is favorable exactly when the current net is at
  least the prior net, \<open>IncomeChange\<close> when the magnitude did not shrink, and \<open>SpendingChange\<close> when
  the magnitude did not grow.  The only errors are a difference outside \<open>int64\<close> and a percentage
  outside \<open>int\<close>.
\<close>

theorem NetChange_spec:
  "(case NetChange current prior of
     Inr c \<Rightarrow> (change_favorable c \<longleftrightarrow> sint prior \<le> sint current)
       \<and> (change_kind c = ChangeNone \<longleftrightarrow> current = 0 \<and> prior = 0)
       \<and> (change_kind c = ChangeNew \<longleftrightarrow> current \<noteq> 0 \<and> prior = 0)
       \<and> (change_kind c = ChangeAmount \<longleftrightarrow> sint current * sint prior < 0)
       \<and> (change_kind c = ChangeAmount \<longrightarrow> sint (change_amount c) = sint current - sint prior)
       \<and> (change_kind c = ChangePercent \<longrightarrow>
            change_tenths c = percent_tenths (sint current) (sint prior)
            \<and> (change_grew c \<longleftrightarrow> \<bar>sint prior\<bar> < \<bar>sint current\<bar>))
   | Inl e \<Rightarrow> (sint current * sint prior < 0 \<and> \<not> in_int64 (sint current - sint prior))
       \<or> (0 \<le> sint current * sint prior \<and> 2 ^ 63 \<le> percent_tenths (sint current) (sint prior)))
   \<and> (case IncomeChange current prior of
     Inr c \<Rightarrow> (change_favorable c \<longleftrightarrow> \<bar>sint prior\<bar> \<le> \<bar>sint current\<bar>)
       \<and> change_kind c = (if prior \<noteq> 0 then ChangePercent
            else if current \<noteq> 0 then ChangeNew else ChangeNone)
       \<and> (prior \<noteq> 0 \<longrightarrow> change_tenths c = percent_tenths (sint current) (sint prior)
            \<and> (change_grew c \<longleftrightarrow> \<bar>sint prior\<bar> < \<bar>sint current\<bar>))
   | Inl e \<Rightarrow> 2 ^ 63 \<le> percent_tenths (sint current) (sint prior))
   \<and> (case SpendingChange current prior of
     Inr c \<Rightarrow> (change_favorable c \<longleftrightarrow> \<bar>sint current\<bar> \<le> \<bar>sint prior\<bar>)
       \<and> change_kind c = (if prior \<noteq> 0 then ChangePercent
            else if current \<noteq> 0 then ChangeNew else ChangeNone)
       \<and> (prior \<noteq> 0 \<longrightarrow> change_tenths c = percent_tenths (sint current) (sint prior)
            \<and> (change_grew c \<longleftrightarrow> \<bar>sint prior\<bar> < \<bar>sint current\<bar>))
   | Inl e \<Rightarrow> 2 ^ 63 \<le> percent_tenths (sint current) (sint prior))"
proof (intro conjI)
  show "case IncomeChange current prior of
     Inr c \<Rightarrow> (change_favorable c \<longleftrightarrow> \<bar>sint prior\<bar> \<le> \<bar>sint current\<bar>)
       \<and> change_kind c = (if prior \<noteq> 0 then ChangePercent
            else if current \<noteq> 0 then ChangeNew else ChangeNone)
       \<and> (prior \<noteq> 0 \<longrightarrow> change_tenths c = percent_tenths (sint current) (sint prior)
            \<and> (change_grew c \<longleftrightarrow> \<bar>sint prior\<bar> < \<bar>sint current\<bar>))
   | Inl e \<Rightarrow> 2 ^ 63 \<le> percent_tenths (sint current) (sint prior)"
    using sint_eq_0[of current] sint_eq_0[of prior]
    by (auto simp: IncomeChange_def totalChange_eq magnitudeChange_eq zero_change_def)
  show "case SpendingChange current prior of
     Inr c \<Rightarrow> (change_favorable c \<longleftrightarrow> \<bar>sint current\<bar> \<le> \<bar>sint prior\<bar>)
       \<and> change_kind c = (if prior \<noteq> 0 then ChangePercent
            else if current \<noteq> 0 then ChangeNew else ChangeNone)
       \<and> (prior \<noteq> 0 \<longrightarrow> change_tenths c = percent_tenths (sint current) (sint prior)
            \<and> (change_grew c \<longleftrightarrow> \<bar>sint prior\<bar> < \<bar>sint current\<bar>))
   | Inl e \<Rightarrow> 2 ^ 63 \<le> percent_tenths (sint current) (sint prior)"
    using sint_eq_0[of current] sint_eq_0[of prior]
    by (auto simp: SpendingChange_def totalChange_eq magnitudeChange_eq zero_change_def)
qed (rule NetChange_exact)

theorem NetChange_spec_witness:
  "NetChange (- 1500) (- 1000) = Inr (zero_change\<lparr>change_kind := ChangePercent, change_tenths := 500,
     change_grew := True, change_favorable := False\<rparr>)
   \<and> \<not> sint (- 1000 :: int64) \<le> sint (- 1500 :: int64)"
proof -
  have "NetChange (- 1500) (- 1000) = Inr (zero_change\<lparr>change_kind := ChangePercent,
     change_tenths := 500, change_grew := True, change_favorable := False\<rparr>)"
    by code_simp
  with NetChange_spec[of "- 1500" "- 1000"] show ?thesis by simp
qed

end
