(* ===== verification/Analytics_Totals.thy ===== *)
theory Analytics_Totals
  imports Accumulate Analytics_Ratio Query_Spec
begin

text \<open>
  The visible view of \<open>internal/analytics\<close> (\<open>filter.go\<close>), its totals per currency and scale
  (\<open>statistics.go\<close>) and the list of currencies (\<open>currencies.go\<close>).  Go's \<open>regexp\<close> is the
  parameter \<open>compile\<close>: an expression is rejected or gives its match test.
\<close>

subsection \<open>Filtering\<close>

definition matchesPeriod :: "transaction \<Rightarrow> period \<Rightarrow> bool" where
  "matchesPeriod t p =
     (if year (trans_date t) \<noteq> period_year p then False
      else if period_granularity p = TimeGranularityYear then True
      else if month (trans_date t) \<noteq> period_month p then False
      else period_granularity p = TimeGranularityMonth \<or> day (trans_date t) = period_day p)"

definition matchesDrilldown :: "transaction \<Rightarrow> drilldown \<Rightarrow> bool" where
  "matchesDrilldown t d =
     (if currency (trans_amount t) \<noteq> drill_currency d \<or> scale (trans_amount t) \<noteq> drill_scale d
      then False
      else case drill_dimension d of
        DimensionMerchant \<Rightarrow> ref_id (trans_merchant t) = drill_key d
      | DimensionCategory \<Rightarrow> cref_id (trans_category t) = drill_key d
      | DimensionGroup \<Rightarrow> cref_group_id (trans_category t) = drill_key d
      | DimensionAccount \<Rightarrow> ref_id (trans_account t) = drill_key d
      | DimensionTime \<Rightarrow> (case drill_period d of None \<Rightarrow> False | Some p \<Rightarrow> matchesPeriod t p)
      | DimensionUnknown _ \<Rightarrow> False)"

definition matchesCurrency :: "transaction \<Rightarrow> currency_scope option \<Rightarrow> bool" where
  "matchesCurrency t scope =
     (case scope of None \<Rightarrow> True
      | Some s \<Rightarrow> currency (trans_amount t) = scope_currency s \<and> scale (trans_amount t) = scope_scale s)"

definition matches :: "transaction \<Rightarrow> query_spec \<Rightarrow> (string \<Rightarrow> bool) option \<Rightarrow> bool" where
  "matches t spec search =
     (if (case query_range spec of None \<Rightarrow> False
          | Some r \<Rightarrow> date_compare (trans_date t) (range_start r) < 0
                    \<or> date_compare (trans_date t) (range_end r) > 0) then False
      else if \<not> matchesCurrency t (query_currency spec) then False
      else if (case search of None \<Rightarrow> False
          | Some m \<Rightarrow> \<not> m (ref_name (trans_merchant t)) \<and> \<not> m (cref_name (trans_category t))) then False
      else if \<not> query_show_transfers spec \<and> cref_group (trans_category t) = ''Transfers'' then False
      else if \<not> query_show_hidden spec \<and> query_mode spec = ResultModeAggregate \<and> trans_hidden t
      then False
      else list_all (matchesDrilldown t) (query_drilldowns spec))"

datatype analytics_error =
    SearchInvalid
  | StatisticsTotal string uint8 money_error
  | StatisticsNet string uint8 money_error

definition filterTransactions ::
    "(string \<Rightarrow> (string \<Rightarrow> bool) option) \<Rightarrow> transaction list \<Rightarrow> query_spec \<Rightarrow>
     analytics_error + transaction list" where
  "filterTransactions compile ts spec =
     (if query_search spec \<noteq> '''' then
        (case compile (''(?i:'' @ query_search spec @ '')'') of
           None \<Rightarrow> Inl SearchInvalid
         | Some m \<Rightarrow> Inr (filter (\<lambda>t. matches t spec (Some m)) ts))
      else Inr (filter (\<lambda>t. matches t spec None) ts))"

definition FilterTransactions ::
    "(string \<Rightarrow> (string \<Rightarrow> bool) option) \<Rightarrow> transaction list \<Rightarrow> query_spec \<Rightarrow>
     analytics_error + transaction list" where
  "FilterTransactions compile ts spec = filterTransactions compile ts spec"

subsection \<open>Partitions by currency and scale\<close>

type_synonym money_partition = "string \<times> uint8"

definition part_of :: "transaction \<Rightarrow> money_partition" where
  "part_of t = (currency (trans_amount t), scale (trans_amount t))"

definition partition_less :: "money_partition \<Rightarrow> money_partition \<Rightarrow> bool" where
  "partition_less left right =
     (if fst left \<noteq> fst right then fst left < fst right else snd left < snd right)"

definition sortedPartitions :: "money_partition list \<Rightarrow> money_partition list" where
  "sortedPartitions input = stable_sort partition_less input"

definition partition_compare :: "money_partition \<Rightarrow> money_partition \<Rightarrow> int" where
  "partition_compare = then_compare (\<lambda>l r. compare_values (fst l) (fst r)) (\<lambda>l r. compare_values (snd l) (snd r))"

lemma partition_less_compare: "partition_less l r \<longleftrightarrow> partition_compare l r < 0"
  by (auto simp: partition_less_def partition_compare_def then_compare_def)

interpretation partitions: comparison partition_compare
  unfolding partition_compare_def by (intro comparison_then comparison_values)

lemma sortedPartitions_unique:
  assumes "set ps = set qs" and "distinct ps" and "distinct qs"
  shows "sortedPartitions ps = sortedPartitions qs"
proof -
  have m: "mset ps = mset qs" using assms by (simp add: set_eq_iff_mset_eq_distinct)
  show ?thesis
    unfolding sortedPartitions_def partition_less_compare
  proof (rule partitions.asc.stable_sort_unique[OF m])
    fix a b :: money_partition
    assume "\<not> partition_compare a b < 0" "\<not> partition_compare b a < 0"
    then have "partition_compare a b = 0" using partitions.swap[of b a] by simp
    then show "a = b" by (auto simp: partition_compare_def intro: prod_eqI)
  qed
qed

lemma sortedPartitions_props [simp]:
  "set (sortedPartitions ps) = set ps" "distinct (sortedPartitions ps) = distinct ps"
  by (simp_all add: sortedPartitions_def) (metis mset_eq_imp_distinct_iff mset_stable_sort)

text \<open>Amounts of a partition as integers.\<close>

definition amount_of :: "money_partition \<Rightarrow> int \<Rightarrow> money" where
  "amount_of p v = \<lparr>minor = word_of_int v, currency = fst p, scale = snd p\<rparr>"

lemma amount_of_0: "amount_of p 0 = \<lparr>minor = 0, currency = fst p, scale = snd p\<rparr>"
  by (simp add: amount_of_def)

lemma money_add_amount:
  assumes "(currency m, scale m) = p" and "in_int64 v"
  shows "money_add (amount_of p v) m =
    (if in_int64 (v + sint (minor m)) then Inr (amount_of p (v + sint (minor m))) else Inl MoneyOverflow)"
  using assms by (auto simp: money_add_eq compatible_def amount_of_def exact_result_def sint_of_int)

text \<open>What a visible transaction adds to In and to Out.\<close>

definition tx_in :: "transaction \<Rightarrow> int" where
  "tx_in t = (if trans_hidden t then 0 else max 0 (sint (minor (trans_amount t))))"

definition tx_out :: "transaction \<Rightarrow> int" where
  "tx_out t = (if trans_hidden t then 0 else min 0 (sint (minor (trans_amount t))))"

definition total_in :: "transaction multiset \<Rightarrow> int" where
  "total_in M = (\<Sum>t\<in>#M. tx_in t)"

definition total_out :: "transaction multiset \<Rightarrow> int" where
  "total_out M = (\<Sum>t\<in>#M. tx_out t)"

definition totals_fit :: "int \<Rightarrow> int \<Rightarrow> bool" where
  "totals_fit a b \<longleftrightarrow> a < 2 ^ 63 \<and> - (2 ^ 63) \<le> b"

lemma tx_bounds: "0 \<le> tx_in t" "tx_out t \<le> 0"
  by (simp_all add: tx_in_def tx_out_def)

lemma total_simps [simp]:
  "total_in {#} = 0" "total_out {#} = 0"
  "total_in (add_mset t M) = tx_in t + total_in M" "total_out (add_mset t M) = tx_out t + total_out M"
  "total_in (M + N) = total_in M + total_in N" "total_out (M + N) = total_out M + total_out N"
  by (simp_all add: total_in_def total_out_def)

lemma total_bounds [simp]: "0 \<le> total_in M" "total_out M \<le> 0"
  using tx_bounds by (induction M) (auto intro: add_nonneg_nonneg add_nonpos_nonpos)

lemma totals_fit_sum:
  assumes "0 \<le> a" and "b \<le> 0" and "totals_fit a b"
  shows "in_int64 a" "in_int64 b" "in_int64 (a + b)"
  using assms by (auto simp: totals_fit_def in_int64_def)

subsection \<open>Statistics\<close>

definition stats_zero :: "money_partition \<Rightarrow> currency_stats" where
  "stats_zero p = (let zero = \<lparr>minor = 0, currency = fst p, scale = snd p\<rparr> in
     \<lparr>stats_currency = fst p, stats_scale = snd p, stats_count = 0, stats_in = zero,
      stats_out = zero, stats_net = zero\<rparr>)"

definition stats_step :: "currency_stats \<Rightarrow> transaction \<Rightarrow> analytics_error + currency_stats" where
  "stats_step v t =
     (let value = v\<lparr>stats_count := stats_count v + 1\<rparr>;
          failed = StatisticsTotal (currency (trans_amount t)) (scale (trans_amount t)) in
      if trans_hidden t then Inr value
      else if 0 <s minor (trans_amount t) then
        bind_result (map_error failed (money_add (stats_in value) (trans_amount t)))
          (\<lambda>m. Inr (value\<lparr>stats_in := m\<rparr>))
      else if minor (trans_amount t) <s 0 then
        bind_result (map_error failed (money_add (stats_out value) (trans_amount t)))
          (\<lambda>m. Inr (value\<lparr>stats_out := m\<rparr>))
      else Inr value)"

definition stats_table :: "transaction list \<Rightarrow> analytics_error + (money_partition \<times> currency_stats) list" where
  "stats_table ts = fold_result (accumulate part_of (\<lambda>t. stats_zero (part_of t)) (\<lambda>v _. v) stats_step) [] ts"

definition stats_net_row ::
    "(money_partition \<times> currency_stats) list \<Rightarrow> money_partition \<Rightarrow> analytics_error + currency_stats" where
  "stats_net_row table p =
     (let value = (case map_of table p of Some v \<Rightarrow> v | None \<Rightarrow> stats_zero ([], 0)) in
      bind_result (map_error (StatisticsNet (fst p) (snd p)) (money_add (stats_in value) (stats_out value)))
        (\<lambda>net. Inr (value\<lparr>stats_net := net\<rparr>)))"

definition Statistics :: "transaction list \<Rightarrow> analytics_error + currency_stats list" where
  "Statistics filtered =
     bind_result (stats_table filtered) (\<lambda>table.
       map_result (stats_net_row table) (stable_sort partition_less (map fst table)))"

text \<open>The accumulator of a partition after transactions with the given count and totals.\<close>

definition stats_value :: "money_partition \<Rightarrow> int \<Rightarrow> int \<Rightarrow> int \<Rightarrow> currency_stats" where
  "stats_value p n a b = \<lparr>stats_currency = fst p, stats_scale = snd p, stats_count = n,
     stats_in = amount_of p a, stats_out = amount_of p b, stats_net = amount_of p 0\<rparr>"

lemma stats_step_value:
  assumes "part_of t = p" and "0 \<le> a" and "b \<le> 0" and "totals_fit a b"
  shows "result_option (stats_step (stats_value p n a b) t) =
    (if totals_fit (a + tx_in t) (b + tx_out t)
     then Some (stats_value p (n + 1) (a + tx_in t) (b + tx_out t)) else None)"
proof -
  let ?v = "sint (minor (trans_amount t))"
  have p: "(currency (trans_amount t), scale (trans_amount t)) = p" using assms(1) by (simp add: part_of_def)
  note fit = totals_fit_sum[OF assms(2-4)]
  consider "trans_hidden t" | "\<not> trans_hidden t" "0 < ?v" | "\<not> trans_hidden t" "?v < 0"
    | "\<not> trans_hidden t" "?v = 0" by fastforce
  then show ?thesis
  proof cases
    case 1
    then show ?thesis using assms(4) by (simp add: stats_step_def stats_value_def tx_in_def tx_out_def)
  next
    case 2
    have "totals_fit (a + ?v) b \<longleftrightarrow> in_int64 (a + ?v)"
      using 2 assms(2-4) by (auto simp: totals_fit_def in_int64_def)
    with 2 show ?thesis
      by (auto simp: stats_step_def stats_value_def word_sless_alt tx_in_def tx_out_def Let_def
          money_add_amount[OF p fit(1)])
  next
    case 3
    have "totals_fit a (b + ?v) \<longleftrightarrow> in_int64 (b + ?v)"
      using 3 assms(2-4) by (auto simp: totals_fit_def in_int64_def)
    with 3 show ?thesis
      by (auto simp: stats_step_def stats_value_def word_sless_alt tx_in_def tx_out_def Let_def
          money_add_amount[OF p fit(2)])
  next
    case 4
    then show ?thesis using assms(4)
      by (simp add: stats_step_def stats_value_def word_sless_alt tx_in_def tx_out_def Let_def)
  qed
qed

interpretation stats: incremental_accumulation part_of "\<lambda>t. stats_zero (part_of t)" "\<lambda>v _. v" stats_step
  "\<lambda>_. True" "\<lambda>p M. totals_fit (total_in M) (total_out M)"
  "\<lambda>p M. stats_value p (int (size M)) (total_in M) (total_out M)"
proof
  fix t k
  assume t: "part_of t = k"
  have "stats_zero (part_of t) = stats_value k 0 0 0"
    using t by (simp add: stats_zero_def stats_value_def amount_of_0 Let_def)
  then show "result_option (stats_step (stats_zero (part_of t)) t) =
      (if totals_fit (total_in {#t#}) (total_out {#t#})
       then Some (stats_value k (int (size {#t#})) (total_in {#t#}) (total_out {#t#})) else None)"
    using stats_step_value[OF t, of 0 0 0] by (simp add: totals_fit_def)
next
  fix t k and M :: "transaction multiset"
  assume "part_of t = k" and "totals_fit (total_in M) (total_out M)"
  then show "result_option (stats_step (stats_value k (int (size M)) (total_in M) (total_out M)) t) =
      (if totals_fit (total_in (add_mset t M)) (total_out (add_mset t M))
       then Some (stats_value k (int (size (add_mset t M))) (total_in (add_mset t M)) (total_out (add_mset t M)))
       else None)"
    using stats_step_value[of t k "total_in M" "total_out M" "int (size M)"] by (simp add: add.commute)
next
  fix t and M :: "transaction multiset"
  assume "totals_fit (total_in (add_mset t M)) (total_out (add_mset t M))"
  then show "totals_fit (total_in M) (total_out M)"
    using tx_bounds[of t] by (auto simp: totals_fit_def)
qed

lemma stats_table_run: "stats_table ts = stats.run ts"
  by (simp add: stats_table_def stats.run_def)

text \<open>The specification: the partitions in order, with the exact totals of each.\<close>

definition in_partition :: "money_partition \<Rightarrow> transaction list \<Rightarrow> transaction multiset" where
  "in_partition p ts = mset (filter (\<lambda>t. part_of t = p) ts)"

definition partitions_of :: "transaction list \<Rightarrow> money_partition list" where
  "partitions_of ts = sortedPartitions (remdups (map part_of ts))"

definition stats_spec :: "transaction list \<Rightarrow> money_partition \<Rightarrow> currency_stats" where
  "stats_spec ts p = (let M = in_partition p ts in
     \<lparr>stats_currency = fst p, stats_scale = snd p, stats_count = int (size M),
      stats_in = amount_of p (total_in M), stats_out = amount_of p (total_out M),
      stats_net = amount_of p (total_in M + total_out M)\<rparr>)"

definition partitions_fit :: "transaction list \<Rightarrow> bool" where
  "partitions_fit ts \<longleftrightarrow>
     (\<forall>p\<in>part_of ` set ts. totals_fit (total_in (in_partition p ts)) (total_out (in_partition p ts)))"

lemma stats_net_row_spec:
  assumes "map_of table p = Some (stats_value p n a b)" and "0 \<le> a" and "b \<le> 0" and "totals_fit a b"
  shows "stats_net_row table p = Inr ((stats_value p n a b)\<lparr>stats_net := amount_of p (a + b)\<rparr>)"
proof -
  note fit = totals_fit_sum[OF assms(2-4)]
  have b: "sint (minor (amount_of p b)) = b" using fit(2) by (simp add: amount_of_def sint_of_int)
  have "money_add (amount_of p a) (amount_of p b) = Inr (amount_of p (a + b))"
    using fit(3) by (subst money_add_amount[OF _ fit(1)]) (simp_all add: b, simp add: amount_of_def)
  then show ?thesis using assms(1) by (simp add: stats_net_row_def stats_value_def)
qed

lemma Statistics_Inr:
  "Statistics ts = Inr rows \<longleftrightarrow> partitions_fit ts \<and> rows = map (stats_spec ts) (partitions_of ts)"
proof (cases "stats_table ts")
  case (Inl e)
  then have "\<not> is_ok (stats.run ts)" by (simp add: stats_table_run)
  then have "\<not> partitions_fit ts"
    by (auto simp: stats.run_ok partitions_fit_def in_partition_def split: if_splits)
  with Inl show ?thesis by (simp add: Statistics_def)
next
  case (Inr m)
  then have run: "stats.run ts = Inr m" by (simp add: stats_table_run)
  then have "is_ok (stats.run ts)" by simp
  then have fit: "partitions_fit ts"
    by (auto simp: stats.run_ok partitions_fit_def in_partition_def split: if_splits)
  note d = stats.run_entries(1)[OF _ run, simplified]
  note e = stats.run_entries(2)[OF _ run, simplified]
  have keys: "set (map fst m) = set (remdups (map part_of ts))"
    using stats.run_keys[OF _ run] by simp
  have sorted: "stable_sort partition_less (map fst m) = partitions_of ts"
    using sortedPartitions_unique[OF keys d] by (simp add: sortedPartitions_def partitions_of_def)
  have row: "stats_net_row m p = Inr (stats_spec ts p)" if p: "p \<in> set (partitions_of ts)" for p
  proof -
    let ?M = "in_partition p ts"
    have p': "p \<in> part_of ` set ts" using p by (simp add: partitions_of_def)
    then have t: "totals_fit (total_in ?M) (total_out ?M)" using fit unfolding partitions_fit_def by blast
    have "(p, stats_value p (int (size ?M)) (total_in ?M) (total_out ?M)) \<in> set m"
      unfolding e using p' t by (simp add: in_partition_def)
    then have "map_of m p = Some (stats_value p (int (size ?M)) (total_in ?M) (total_out ?M))"
      using d by simp
    from stats_net_row_spec[OF this _ _ t] show ?thesis
      by (simp add: stats_spec_def stats_value_def Let_def)
  qed
  have "Statistics ts = Inr (map (stats_spec ts) (partitions_of ts))"
    using Inr row by (simp add: Statistics_def sorted map_result_total)
  with fit show ?thesis by auto
qed

text \<open>
  C13. \<open>Statistics\<close> is exact: it succeeds exactly when in every currency and scale the income and the
  expense total of the visible transactions fit an \<open>int64\<close>, and then lists each partition once, in
  order of currency and scale, with the number of its transactions, hidden ones included, and the
  exact sums of its visible ones. In particular the order of the transactions does not matter and
  the net of two totals never overflows.
\<close>

theorem Statistics_exact:
  "Statistics ts = Inr rows \<longleftrightarrow> partitions_fit ts \<and> rows = map (stats_spec ts) (partitions_of ts)"
  by (rule Statistics_Inr)

subsection \<open>The list of currencies\<close>

definition laterDate :: "date \<Rightarrow> date \<Rightarrow> date" where
  "laterDate left right = (if date_compare left right \<ge> 0 then left else right)"

definition earlierDate :: "date \<Rightarrow> date \<Rightarrow> date" where
  "earlierDate left right = (if date_compare left right \<le> 0 then left else right)"

definition currency_first :: "transaction \<Rightarrow> currency_count" where
  "currency_first t =
     \<lparr>cc_currency = currency (trans_amount t), cc_scale = scale (trans_amount t), cc_count = 0,
      cc_first = trans_date t, cc_latest = trans_date t\<rparr>"

definition currency_step :: "currency_count \<Rightarrow> transaction \<Rightarrow> unit + currency_count" where
  "currency_step v t =
     Inr (v\<lparr>cc_count := cc_count v + 1, cc_first := earlierDate (cc_first v) (trans_date t),
            cc_latest := laterDate (cc_latest v) (trans_date t)\<rparr>)"

definition currencies_less :: "currency_count \<Rightarrow> currency_count \<Rightarrow> bool" where
  "currencies_less left right =
     (if cc_count left \<noteq> cc_count right then cc_count right < cc_count left
      else if cc_currency left \<noteq> cc_currency right then cc_currency left < cc_currency right
      else cc_scale left < cc_scale right)"

definition currencies_table :: "transaction list \<Rightarrow> (money_partition \<times> currency_count) list" where
  "currencies_table ts =
     (case fold_result (accumulate part_of currency_first (\<lambda>v _. v) currency_step) [] ts of
        Inl _ \<Rightarrow> [] | Inr table \<Rightarrow> table)"

definition Currencies :: "transaction list \<Rightarrow> currency_count list" where
  "Currencies ts = stable_sort currencies_less (map snd (currencies_table ts))"

definition currency_spec :: "money_partition \<Rightarrow> transaction multiset \<Rightarrow> currency_count" where
  "currency_spec p M =
     \<lparr>cc_currency = fst p, cc_scale = snd p, cc_count = int (size M),
      cc_first = Min (trans_date ` set_mset M), cc_latest = Max (trans_date ` set_mset M)\<rparr>"

lemma earlierDate_min: "valid_date d \<Longrightarrow> valid_date e \<Longrightarrow> earlierDate d e = min d e"
  by (auto simp: earlierDate_def date_compare_valid min_def)

lemma laterDate_max: "valid_date d \<Longrightarrow> valid_date e \<Longrightarrow> laterDate d e = max d e"
  by (auto simp: laterDate_def date_compare_valid max_def)

interpretation currency_lists: incremental_accumulation part_of currency_first "\<lambda>v _. v" currency_step
  "\<lambda>t. valid_date (trans_date t)" "\<lambda>_ _. True" currency_spec
proof
  fix t :: transaction and k
  assume "valid_date (trans_date t)" "part_of t = k"
  then show "result_option (currency_step (currency_first t) t) =
      (if True then Some (currency_spec k {#t#}) else None)"
    by (auto simp: currency_step_def currency_first_def currency_spec_def part_of_def
        earlierDate_min laterDate_max)
next
  fix t :: transaction and k and M :: "transaction multiset"
  assume v: "valid_date (trans_date t)" and M: "M \<noteq> {#}" "\<forall>u\<in>#M. valid_date (trans_date u) \<and> part_of u = k"
  let ?D = "trans_date ` set_mset M"
  have D: "finite ?D" "?D \<noteq> {}" "\<forall>d\<in>?D. valid_date d" using M by auto
  have valid: "valid_date (Min ?D)" "valid_date (Max ?D)"
    by (rule bspec[OF D(3) Min_in[OF D(1,2)]], rule bspec[OF D(3) Max_in[OF D(1,2)]])
  have "earlierDate (Min ?D) (trans_date t) = Min (insert (trans_date t) ?D)"
    unfolding earlierDate_min[OF valid(1) v] Min_insert[OF D(1,2)] by (rule min.commute)
  moreover have "laterDate (Max ?D) (trans_date t) = Max (insert (trans_date t) ?D)"
    unfolding laterDate_max[OF valid(2) v] Max_insert[OF D(1,2)] by (rule max.commute)
  ultimately show "result_option (currency_step (currency_spec k M) t) =
      (if True then Some (currency_spec k (add_mset t M)) else None)"
    unfolding currency_step_def currency_spec_def by (simp del: Min_insert Max_insert)
qed simp

lemma currencies_table_run:
  assumes "\<forall>t\<in>set ts. valid_date (trans_date t)"
  shows "currency_lists.run ts = Inr (currencies_table ts)"
proof -
  have "is_ok (currency_lists.run ts)" using assms by (simp add: currency_lists.run_ok)
  then show ?thesis by (auto simp: currencies_table_def currency_lists.run_def is_ok_iff)
qed

definition currencies_compare :: "currency_count \<Rightarrow> currency_count \<Rightarrow> int" where
  "currencies_compare = then_compare (\<lambda>l r. compare_values (- cc_count l) (- cc_count r))
     (then_compare (\<lambda>l r. compare_values (cc_currency l) (cc_currency r))
       (\<lambda>l r. compare_values (cc_scale l) (cc_scale r)))"

lemma currencies_less_compare: "currencies_less l r \<longleftrightarrow> currencies_compare l r < 0"
  by (auto simp: currencies_less_def currencies_compare_def then_compare_def)

interpretation currencies: comparison currencies_compare
  unfolding currencies_compare_def by (intro comparison_then comparison_values)

lemma currencies_compare_total:
  assumes "\<not> currencies_less a b" and "\<not> currencies_less b a"
  shows "cc_currency a = cc_currency b \<and> cc_scale a = cc_scale b"
  using assms by (auto simp: currencies_less_def split: if_splits)

lemma currencies_entries:
  assumes "\<forall>t\<in>set ts. valid_date (trans_date t)"
  shows "set (currencies_table ts) = (\<lambda>p. (p, currency_spec p (in_partition p ts))) ` part_of ` set ts"
    and "distinct (map fst (currencies_table ts))"
  using currency_lists.run_entries[OF assms currencies_table_run[OF assms]]
  by (auto simp: in_partition_def)

lemma Currencies_set:
  assumes "\<forall>t\<in>set ts. valid_date (trans_date t)"
  shows "set (Currencies ts) = (\<lambda>p. currency_spec p (in_partition p ts)) ` part_of ` set ts"
  unfolding Currencies_def by (simp add: currencies_entries[OF assms] image_image)

lemma Currencies_any_order:
  assumes "\<forall>t\<in>set ts. valid_date (trans_date t)" and "mset entries = mset (currencies_table ts)"
  shows "stable_sort currencies_less (map snd entries) = Currencies ts"
  unfolding Currencies_def currencies_less_compare
proof (rule currencies.asc.stable_sort_unique)
  show "mset (map snd entries) = mset (map snd (currencies_table ts))" using assms(2) by simp
  fix a b assume ab: "a \<in> set (map snd entries)" "b \<in> set (map snd entries)"
    and n: "\<not> currencies_compare a b < 0" "\<not> currencies_compare b a < 0"
  have s: "set entries = set (currencies_table ts)" using assms(2) by (rule mset_eq_setD)
  have entry: "\<exists>p. x = currency_spec p (in_partition p ts)" if "x \<in> set (map snd entries)" for x
    using that unfolding set_map s currencies_entries(1)[OF assms(1)] image_image snd_conv by blast
  obtain p q where pq: "a = currency_spec p (in_partition p ts)" "b = currency_spec q (in_partition q ts)"
    using entry[OF ab(1)] entry[OF ab(2)] by blast
  have "cc_currency a = cc_currency b \<and> cc_scale a = cc_scale b"
    using n unfolding currencies_less_compare[symmetric] by (rule currencies_compare_total)
  then have "p = q" by (simp add: pq currency_spec_def prod_eq_iff)
  with pq show "a = b" by simp
qed

lemma Currencies_permuted:
  assumes "\<forall>t\<in>set ts. valid_date (trans_date t)" and "mset us = mset ts"
  shows "Currencies us = Currencies ts"
proof -
  have v: "\<forall>t\<in>set us. valid_date (trans_date t)" using assms by (metis mset_eq_setD)
  have "mset (currencies_table us) = mset (currencies_table ts)"
    by (rule currency_lists.run_permuted(2)[OF v assms(2) currencies_table_run[OF v]
          currencies_table_run[OF assms(1)]])
  from Currencies_any_order[OF assms(1) this] show ?thesis by (simp add: Currencies_def)
qed

text \<open>
  \<open>Currencies\<close> lists every currency and scale of the transactions exactly once, with the exact
  number of its transactions and the first and last of their dates, most transactions first and
  ties by currency and scale; the order in which the transactions come and in which Go walks its
  map cannot be seen in the result.
\<close>

theorem Currencies_exact:
  assumes "\<forall>t\<in>set ts. valid_date (trans_date t)"
  shows "set (Currencies ts) = (\<lambda>p. currency_spec p (in_partition p ts)) ` part_of ` set ts
    \<and> length (Currencies ts) = card (part_of ` set ts)
    \<and> sorted_wrt (\<lambda>a b. \<not> currencies_less b a) (Currencies ts)
    \<and> (\<forall>us. mset us = mset ts \<longrightarrow> Currencies us = Currencies ts)
    \<and> (\<forall>entries. mset entries = mset (currencies_table ts) \<longrightarrow>
         stable_sort currencies_less (map snd entries) = Currencies ts)"
proof -
  have "length (Currencies ts) = length (map fst (currencies_table ts))" by (simp add: Currencies_def)
  also have "\<dots> = card (set (map fst (currencies_table ts)))"
    using currencies_entries(2)[OF assms] by (simp only: distinct_card)
  also have "set (map fst (currencies_table ts)) = part_of ` set ts"
    by (simp add: currencies_entries(1)[OF assms] image_image)
  finally have "length (Currencies ts) = card (part_of ` set ts)" .
  moreover have "sorted_wrt (\<lambda>a b. \<not> currencies_less b a) (Currencies ts)"
    unfolding Currencies_def currencies_less_compare by (rule currencies.asc.sorted_stable_sort)
  ultimately show ?thesis
    using Currencies_set[OF assms] Currencies_permuted[OF assms] Currencies_any_order[OF assms] by blast
qed

definition example_tx :: "string \<Rightarrow> int64 \<Rightarrow> date \<Rightarrow> bool \<Rightarrow> transaction" where
  "example_tx ident v d hidden =
     \<lparr>trans_id = ident, trans_provider_id = ''p'', trans_provider = ''local'',
      trans_account = \<lparr>ref_id = ''a1'', ref_name = ''Checking''\<rparr>, trans_date = d,
      trans_merchant = \<lparr>ref_id = ''m1'', ref_name = ''Cafe''\<rparr>,
      trans_category = \<lparr>cref_id = ''c1'', cref_name = ''Dining'', cref_group_id = ''g1'', cref_group = ''Food''\<rparr>,
      trans_amount = \<lparr>minor = v, currency = ''USD'', scale = 2\<rparr>, trans_notes = '''',
      trans_hidden = hidden, trans_pending = False, trans_metadata = []\<rparr>"

definition example_txs :: "transaction list" where
  "example_txs = [example_tx ''t1'' 1500 (Date 2024 3 5) False, example_tx ''t2'' (- 700) (Date 2024 1 31) False,
     example_tx ''t3'' (- 50) (Date 2024 2 1) True]"

lemma example_txs_valid: "\<forall>t\<in>set example_txs. valid_date (trans_date t)"
  by (simp add: example_txs_def example_tx_def valid_date_def days_in_def)

theorem Currencies_exact_witness:
  "Currencies example_txs = [\<lparr>cc_currency = ''USD'', cc_scale = 2, cc_count = 3,
     cc_first = Date 2024 1 31, cc_latest = Date 2024 3 5\<rparr>]
   \<and> Currencies (rev example_txs) = Currencies example_txs"
proof -
  have "Currencies example_txs = [\<lparr>cc_currency = ''USD'', cc_scale = 2, cc_count = 3,
     cc_first = Date 2024 1 31, cc_latest = Date 2024 3 5\<rparr>]"
    by code_simp
  moreover have "mset (rev example_txs) = mset example_txs" by simp
  ultimately show ?thesis using Currencies_exact[OF example_txs_valid] by blast
qed

end
