(* ===== verification/Analytics_Periods.thy ===== *)
theory Analytics_Periods
  imports Ordering Query_Spec
begin

text \<open>
  Calendar periods of \<open>internal/analytics\<close>: \<open>comparePeriods\<close> and \<open>comparePeriodPointers\<close> of
  \<open>sort.go\<close>, \<open>periodForDate\<close>, \<open>nextPeriod\<close>, \<open>periodsBetween\<close>, \<open>periodKey\<close> and \<open>periodLabel\<close> of
  \<open>aggregate.go\<close>, and \<open>periodBounds\<close> of \<open>ranges.go\<close>.  The lemmas number the periods of a
  granularity, so that the loop of \<open>periodsBetween\<close> is an integer interval, and show that a
  date lies within the bounds of exactly its own period.
\<close>

definition compareInt :: "int \<Rightarrow> int \<Rightarrow> int" where
  "compareInt left right = (if left < right then - 1 else if left > right then 1 else 0)"

definition comparePeriods :: "period \<Rightarrow> period \<Rightarrow> int" where
  "comparePeriods left right =
     (if compareInt (period_year left) (period_year right) \<noteq> 0
      then compareInt (period_year left) (period_year right)
      else if compareInt (period_month left) (period_month right) \<noteq> 0
      then compareInt (period_month left) (period_month right)
      else compareInt (period_day left) (period_day right))"

definition comparePeriodPointers :: "period option \<Rightarrow> period option \<Rightarrow> int" where
  "comparePeriodPointers left right =
     (case (left, right) of
        (None, None) \<Rightarrow> 0
      | (None, Some _) \<Rightarrow> - 1
      | (Some _, None) \<Rightarrow> 1
      | (Some l, Some r) \<Rightarrow> comparePeriods l r)"

definition periodForDate :: "date \<Rightarrow> time_granularity \<Rightarrow> period" where
  "periodForDate d g =
     \<lparr>period_granularity = g, period_year = year d,
      period_month = (if g = TimeGranularityMonth \<or> g = TimeGranularityDay then month d else 0),
      period_day = (if g = TimeGranularityDay then day d else 0)\<rparr>"

datatype period_error =
    YearExceedsRange
  | MonthExceedsRange
  | PeriodGranularityInvalid
  | PeriodDate date_error

definition nextPeriod :: "period \<Rightarrow> period_error + period" where
  "nextPeriod p =
     (case period_granularity p of
        TimeGranularityYear \<Rightarrow>
          if period_year p = 9999 then Inl YearExceedsRange
          else Inr (p\<lparr>period_year := period_year p + 1\<rparr>)
      | TimeGranularityMonth \<Rightarrow>
          bind_result (map_error PeriodDate (NewDate (period_year p) (period_month p) 1)) (\<lambda>d.
            let (y, m) = (if month d + 1 > 12 then (year d + 1, 1) else (year d, month d + 1)) in
            if y > 9999 then Inl MonthExceedsRange
            else Inr \<lparr>period_granularity = period_granularity p, period_year = y,
                      period_month = m, period_day = 0\<rparr>)
      | TimeGranularityDay \<Rightarrow>
          bind_result (map_error PeriodDate (NewDate (period_year p) (period_month p) (period_day p))) (\<lambda>d.
          bind_result (map_error PeriodDate (AddDays d 1)) (\<lambda>next.
            Inr (periodForDate next (period_granularity p))))
      | TimeGranularityUnknown _ \<Rightarrow> Inl PeriodGranularityInvalid)"

text \<open>The number of a period among those of its granularity.\<close>

definition period_index :: "period \<Rightarrow> int" where
  "period_index p =
     (case period_granularity p of
        TimeGranularityYear \<Rightarrow> period_year p
      | TimeGranularityMonth \<Rightarrow> period_year p * 12 + period_month p - 1
      | _ \<Rightarrow> day_number (period_year p) (period_month p) (period_day p))"

lemma nextPeriod_index:
  assumes "nextPeriod p = Inr q"
  shows "period_index q = period_index p + 1 \<and> period_granularity q = period_granularity p
    \<and> (period_granularity p = TimeGranularityYear \<or> period_index p < 4000000)"
proof (cases "period_granularity p")
  case TimeGranularityYear
  then show ?thesis using assms by (auto simp: nextPeriod_def period_index_def split: if_splits)
next
  case TimeGranularityMonth
  then have v: "valid_date (Date (period_year p) (period_month p) 1)"
    using assms by (auto simp: nextPeriod_def bind_result_Inr NewDate_Inr)
  with assms TimeGranularityMonth have "q = \<lparr>period_granularity = TimeGranularityMonth,
      period_year = (if period_month p + 1 > 12 then period_year p + 1 else period_year p),
      period_month = (if period_month p + 1 > 12 then 1 else period_month p + 1), period_day = 0\<rparr>"
    by (auto simp: nextPeriod_def bind_result_Inr NewDate_Inr split: if_splits)
  with v TimeGranularityMonth show ?thesis
    by (auto simp: period_index_def valid_date_def)
next
  case TimeGranularityDay
  then obtain d e where d: "NewDate (period_year p) (period_month p) (period_day p) = Inr d"
    and e: "AddDays d 1 = Inr e" and q: "q = periodForDate e TimeGranularityDay"
    using assms by (auto simp: nextPeriod_def bind_result_Inr)
  have d': "d = Date (period_year p) (period_month p) (period_day p)" "valid_date d"
    using d by (auto simp: NewDate_Inr)
  have "date_number e = date_number d + 1" using AddDays_Inr[OF d'(2), of 1 e] e by simp
  moreover have "date_number d < day_number 10000 1 1"
    using d' day_number_less[of "year d" "month d" "day d" 10000 1 1] valid_calendar_date[OF d'(2)]
    by (simp add: valid_date_def calendar_date_def days_in_def)
  moreover have "day_number 10000 1 1 < 4000000"
    by (simp add: day_number_def days_before_year_def days_before_month_def)
  ultimately show ?thesis using TimeGranularityDay d'(1) by (simp add: period_index_def q periodForDate_def)
next
  case (TimeGranularityUnknown x)
  then show ?thesis using assms by (simp add: nextPeriod_def)
qed

definition periods_left :: "period \<times> period \<Rightarrow> nat" where
  "periods_left s = (case s of (current, stop) \<Rightarrow>
     if period_granularity current = TimeGranularityYear
     then nat (period_year stop + 1 - period_year current)
     else nat (4000000 - period_index current))"

text \<open>The loop of \<open>periodsBetween\<close> from the current period to the last one.\<close>

function periods_from :: "period \<Rightarrow> period \<Rightarrow> period_error + period list" where
  "periods_from current stop =
     (if comparePeriods current stop > 0 then Inr []
      else if comparePeriods current stop = 0 then Inr [current]
      else case nextPeriod current of
        Inl e \<Rightarrow> Inl e
      | Inr next \<Rightarrow> bind_result (periods_from next stop) (\<lambda>ps. Inr (current # ps)))"
  by pat_completeness auto

termination
proof (relation "measure periods_left")
  fix current stop follower
  assume le: "\<not> 0 < comparePeriods current stop" and ne: "comparePeriods current stop \<noteq> 0"
    and n: "nextPeriod current = Inr follower"
  note i = nextPeriod_index[OF n]
  show "((follower, stop), (current, stop)) \<in> measure periods_left"
  proof (cases "period_granularity current = TimeGranularityYear")
    case True
    then have "period_year follower = period_year current + 1"
      using n by (auto simp: nextPeriod_def split: if_splits)
    moreover have "period_year current \<le> period_year stop"
      using le by (auto simp: comparePeriods_def compareInt_def split: if_splits)
    ultimately show ?thesis using True i by (simp add: periods_left_def)
  next
    case False
    with i show ?thesis by (simp add: periods_left_def)
  qed
qed simp

declare periods_from.simps [simp del]

definition periodsBetween :: "date \<Rightarrow> date \<Rightarrow> time_granularity \<Rightarrow> period_error + period list" where
  "periodsBetween minimum maximum g =
     periods_from (periodForDate minimum g) (periodForDate maximum g)"

definition periodKey :: "period \<Rightarrow> string" where
  "periodKey p =
     (case period_granularity p of
        TimeGranularityYear \<Rightarrow> format_padded 4 (period_year p)
      | TimeGranularityMonth \<Rightarrow> format_padded 4 (period_year p) @ ''-'' @ format_padded 2 (period_month p)
      | _ \<Rightarrow> format_padded 4 (period_year p) @ ''-'' @ format_padded 2 (period_month p) @ ''-''
            @ format_padded 2 (period_day p))"

definition month_name :: "int \<Rightarrow> string" where
  "month_name m =
     (if 1 \<le> m \<and> m \<le> 12
      then [''January'', ''February'', ''March'', ''April'', ''May'', ''June'', ''July'', ''August'',
            ''September'', ''October'', ''November'', ''December''] ! nat (m - 1)
      else ''%!Month('' @ format_int m @ '')'')"

definition periodLabel :: "period \<Rightarrow> string" where
  "periodLabel p =
     (if period_granularity p = TimeGranularityMonth
      then take 3 (month_name (period_month p)) @ '' '' @ format_padded 4 (period_year p)
      else periodKey p)"

definition periodBounds :: "period \<Rightarrow> date_error + date \<times> date" where
  "periodBounds p =
     bind_result (NewDate (period_year p) (max (period_month p) 1) (max (period_day p) 1)) (\<lambda>start.
       Inr (case period_granularity p of
              TimeGranularityYear \<Rightarrow> (YearStart start, YearEnd start)
            | TimeGranularityMonth \<Rightarrow> (start, MonthEnd start)
            | _ \<Rightarrow> (start, start)))"

subsection \<open>Orders\<close>

lemma date_le:
  "d \<le> e \<longleftrightarrow> year d < year e \<or> (year d = year e \<and>
     (month d < month e \<or> (month d = month e \<and> day d \<le> day e)))"
  by (cases d; cases e) (auto simp: less_eq_date_def less_date_def)

lemma compare_values_ge [simp]: "0 \<le> compare_values x y \<longleftrightarrow> y \<le> x"
  by (auto simp: compare_values_def)

lemma compareInt_values: "compareInt = compare_values"
  by (auto simp: compareInt_def compare_values_def fun_eq_iff)

lemma comparePeriods_then:
  "comparePeriods = then_compare (\<lambda>l r. compare_values (period_year l) (period_year r))
     (then_compare (\<lambda>l r. compare_values (period_month l) (period_month r))
       (\<lambda>l r. compare_values (period_day l) (period_day r)))"
  by (simp add: fun_eq_iff comparePeriods_def then_compare_def compareInt_values)

interpretation period_order: comparison comparePeriods
  unfolding comparePeriods_then by (intro comparison_then comparison_values)

interpretation period_pointers: comparison comparePeriodPointers
proof
  fix x y :: "period option"
  show "comparePeriodPointers y x = - comparePeriodPointers x y"
    by (auto simp: comparePeriodPointers_def intro: period_order.swap split: option.split)
next
  fix x y z :: "period option"
  assume "comparePeriodPointers x y \<le> 0" "comparePeriodPointers y z \<le> 0"
  then show "comparePeriodPointers x z \<le> 0"
    by (auto simp: comparePeriodPointers_def intro: period_order.le_trans split: option.splits)
qed

lemma comparePeriods_zero:
  "comparePeriods p q = 0 \<longleftrightarrow>
     period_year p = period_year q \<and> period_month p = period_month q \<and> period_day p = period_day q"
  by (simp add: comparePeriods_then)

subsection \<open>Valid periods\<close>

text \<open>A period is the canonical one of some date: the zero fields are those finer than its granularity.\<close>

definition canonical :: "time_granularity \<Rightarrow> period \<Rightarrow> bool" where
  "canonical g p \<longleftrightarrow> (\<exists>d. valid_date d \<and> p = periodForDate d g)"

lemma canonical_periodForDate: "valid_date d \<Longrightarrow> canonical g (periodForDate d g)"
  by (auto simp: canonical_def)

lemma granularity_cases:
  assumes "granularity_valid g"
  obtains "g = TimeGranularityYear" | "g = TimeGranularityMonth" | "g = TimeGranularityDay"
  using assms by (auto simp: granularity_valid_def)

lemma period_index_less:
  assumes "granularity_valid g" and "valid_date d" and "valid_date e"
  shows "period_index (periodForDate d g) < period_index (periodForDate e g)
    \<longleftrightarrow> comparePeriods (periodForDate d g) (periodForDate e g) < 0"
  using assms(1)
proof (cases rule: granularity_cases)
  case 1
  then show ?thesis by (auto simp: period_index_def periodForDate_def comparePeriods_then then_compare_def)
next
  case 2
  then show ?thesis
    using valid_date_bounds[OF assms(2)] valid_date_bounds[OF assms(3)]
    by (auto simp: period_index_def periodForDate_def comparePeriods_then then_compare_def)
next
  case 3
  then show ?thesis
    using date_number_less[OF assms(2,3)]
    by (auto simp: period_index_def periodForDate_def comparePeriods_then then_compare_def less_date_def)
qed

lemma period_index_eq:
  assumes "granularity_valid g" and "canonical g p" and "canonical g q"
  shows "period_index p = period_index q \<longleftrightarrow> p = q"
proof
  assume eq: "period_index p = period_index q"
  obtain d e where d: "valid_date d" "p = periodForDate d g" and e: "valid_date e" "q = periodForDate e g"
    using assms(2,3) by (auto simp: canonical_def)
  have "comparePeriods p q = 0"
    using period_index_less[OF assms(1) d(1) e(1)] period_index_less[OF assms(1) e(1) d(1)] eq
      period_order.swap[of q p] by (simp add: d(2) e(2))
  then show "p = q" by (simp add: comparePeriods_zero d(2) e(2) periodForDate_def)
qed simp

text \<open>Before a later period of the same granularity there is always a next one.\<close>

lemma nextPeriod_canonical:
  assumes "granularity_valid g" and "canonical g p" and "canonical g q" and "period_index p < period_index q"
  shows "\<exists>r. nextPeriod p = Inr r \<and> canonical g r"
proof -
  obtain d where d: "valid_date d" "p = periodForDate d g" using assms(2) by (auto simp: canonical_def)
  obtain e where e: "valid_date e" "q = periodForDate e g" using assms(3) by (auto simp: canonical_def)
  note ye = e(1)[unfolded valid_date_def]
  show ?thesis
    using assms(1)
  proof (cases rule: granularity_cases)
    case 1
    then have "year d < year e" using assms(4) by (simp add: d e period_index_def periodForDate_def)
    then have "valid_date (Date (year d + 1) 1 1)"
      using d(1) ye by (simp add: valid_date_def days_in_def)
    then have "canonical g (periodForDate (Date (year d + 1) 1 1) g)" by (rule canonical_periodForDate)
    moreover have "nextPeriod p = Inr (periodForDate (Date (year d + 1) 1 1) g)"
      using 1 \<open>year d < year e\<close> ye by (simp add: d nextPeriod_def periodForDate_def)
    ultimately show ?thesis by blast
  next
    case 2
    then have lt: "year d * 12 + month d < year e * 12 + month e"
      using assms(4) by (simp add: d e period_index_def periodForDate_def)
    define n where "n = (if month d + 1 > 12 then Date (year d + 1) 1 1 else Date (year d) (month d + 1) 1)"
    have "valid_date n" using d(1) lt ye
      by (auto simp: n_def valid_date_def intro: order_trans[OF _ days_in_bounds(1)])
    moreover have "NewDate (year d) (month d) 1 = Inr (Date (year d) (month d) 1)"
      using d(1) days_in_bounds(1)[of "year d" "month d"] by (simp add: NewDate_Inr valid_date_def)
    then have "nextPeriod p = Inr (periodForDate n g)"
      using 2 lt ye \<open>valid_date n\<close>
      by (auto simp: d nextPeriod_def periodForDate_def n_def valid_date_def Let_def)
    ultimately show ?thesis using canonical_periodForDate by blast
  next
    case 3
    then have "date_number d < date_number e"
      using assms(4) by (simp add: d e period_index_def periodForDate_def)
    moreover have "NewDate (year d) (month d) (day d) = Inr d"
      using d(1) by (simp add: NewDate_Inr)
    moreover obtain n where n: "AddDays d 1 = Inr n" "valid_date n"
    proof -
      have "0 \<le> date_number d" "date_number e \<le> day_number 9999 12 31"
        using year_range_iff[OF valid_calendar_date[OF d(1)]] year_range_iff[OF valid_calendar_date[OF e(1)]]
          d(1) ye by (simp_all add: valid_date_def)
      with \<open>date_number d < date_number e\<close> have "\<exists>n. AddDays d 1 = Inr n"
        by (simp add: AddDays_eq[OF d(1)] split: prod.split)
      then show ?thesis using AddDays_Inr[OF d(1)] that by blast
    qed
    ultimately have "nextPeriod p = Inr (periodForDate n g)"
      using 3 by (simp add: d nextPeriod_def periodForDate_def)
    with canonical_periodForDate[OF n(2)] show ?thesis by blast
  qed
qed

lemma period_index_compare:
  assumes "granularity_valid g" and "canonical g p" and "canonical g q"
  shows "period_index p < period_index q \<longleftrightarrow> comparePeriods p q < 0"
  using assms(2,3) period_index_less[OF assms(1)] unfolding canonical_def by blast

lemma period_index_mono:
  assumes "granularity_valid g" and "valid_date d" and "valid_date e" and "d \<le> e"
  shows "period_index (periodForDate d g) \<le> period_index (periodForDate e g)"
proof -
  have "0 \<le> comparePeriods (periodForDate e g) (periodForDate d g)"
    using assms(4) unfolding date_le by (auto simp: periodForDate_def comparePeriods_then then_compare_def)
  then show ?thesis using period_index_less[OF assms(1,3,2)] by linarith
qed

lemma periods_from_interval:
  assumes "granularity_valid g" and "canonical g p" and "canonical g q" and "period_index p \<le> period_index q"
  shows "\<exists>ps. periods_from p q = Inr ps \<and> map period_index ps = [period_index p..period_index q]
    \<and> (\<forall>r\<in>set ps. canonical g r)"
  using assms(2,4)
proof (induction "nat (period_index q - period_index p)" arbitrary: p)
  case 0
  then have "period_index p = period_index q" by simp
  then have "p = q" using period_index_eq[OF assms(1) 0(2) assms(3)] by blast
  with 0 show ?case by (subst periods_from.simps) simp
next
  case (Suc n)
  then have lt: "period_index p < period_index q" by linarith
  then have neg: "comparePeriods p q < 0" using period_index_compare[OF assms(1) Suc.prems(1) assms(3)] by simp
  obtain r where r: "nextPeriod p = Inr r" "canonical g r"
    using nextPeriod_canonical[OF assms(1) Suc.prems(1) assms(3) lt] by blast
  have i: "period_index r = period_index p + 1" using nextPeriod_index[OF r(1)] by blast
  obtain ps where "periods_from r q = Inr ps" "map period_index ps = [period_index r..period_index q]"
    "\<forall>r\<in>set ps. canonical g r"
    using Suc.hyps(1)[of r] Suc.hyps(2) r(2) i lt by force
  then show ?case
    using neg r(1) i lt Suc.prems(1) by (subst periods_from.simps) (simp add: upto_rec1[of "period_index p"])
qed

lemma periodsBetween_interval:
  assumes "granularity_valid g" and "valid_date a" and "valid_date b" and "a \<le> b"
  obtains ps where "periodsBetween a b g = Inr ps"
    and "map period_index ps = [period_index (periodForDate a g)..period_index (periodForDate b g)]"
    and "\<forall>p\<in>set ps. canonical g p"
    and "\<And>d. valid_date d \<Longrightarrow> a \<le> d \<Longrightarrow> d \<le> b \<Longrightarrow> periodForDate d g \<in> set ps"
proof -
  obtain ps where ps: "periodsBetween a b g = Inr ps"
    "map period_index ps = [period_index (periodForDate a g)..period_index (periodForDate b g)]"
    "\<forall>p\<in>set ps. canonical g p"
    using periods_from_interval[OF assms(1) canonical_periodForDate[OF assms(2)]
        canonical_periodForDate[OF assms(3)] period_index_mono[OF assms]]
    unfolding periodsBetween_def by blast
  have "periodForDate d g \<in> set ps" if d: "valid_date d" "a \<le> d" "d \<le> b" for d
  proof -
    have "period_index (periodForDate d g) \<in> set (map period_index ps)"
      using period_index_mono[OF assms(1,2) d(1,2)] period_index_mono[OF assms(1) d(1) assms(3) d(3)]
      by (simp add: ps(2))
    then obtain p where p: "p \<in> set ps" "period_index (periodForDate d g) = period_index p" by auto
    then have "periodForDate d g = p"
      using period_index_eq[OF assms(1) canonical_periodForDate[OF d(1)]] ps(3) by blast
    with p(1) show ?thesis by simp
  qed
  with ps that show ?thesis by blast
qed

text \<open>
  \<open>periodsBetween\<close> never fails on valid dates and lists every period from the first date's to
  the last date's exactly once, in order and without gaps; every date in between has its period in
  the list.
\<close>

lemma periodsBetween_contiguous:
  assumes "granularity_valid g" and "valid_date a" and "valid_date b" and "a \<le> b"
  shows "\<exists>ps. periodsBetween a b g = Inr ps
    \<and> map period_index ps = [period_index (periodForDate a g)..period_index (periodForDate b g)]
    \<and> (\<forall>p\<in>set ps. canonical g p)
    \<and> (\<forall>d. valid_date d \<and> a \<le> d \<and> d \<le> b \<longrightarrow> periodForDate d g \<in> set ps)"
  using periodsBetween_interval[OF assms] by metis

lemma periodsBetween_contiguous_witness:
  "is_ok (periodsBetween (Date 2023 12 30) (Date 2024 2 1) TimeGranularityMonth)
   \<and> length (case periodsBetween (Date 2023 12 30) (Date 2024 2 1) TimeGranularityMonth of Inr ps \<Rightarrow> ps) = 3"
proof -
  have v: "valid_date (Date 2023 12 30)" "valid_date (Date 2024 2 1)" "Date 2023 12 30 \<le> Date 2024 2 1"
    "granularity_valid TimeGranularityMonth"
    by (simp_all add: valid_date_def days_in_def less_eq_date_def less_date_def granularity_valid_def)
  from periodsBetween_contiguous[OF v(4,1,2,3)] obtain ps where
    "periodsBetween (Date 2023 12 30) (Date 2024 2 1) TimeGranularityMonth = Inr ps"
    "map period_index ps = [24287..24289]"
    by (auto simp: periodForDate_def period_index_def)
  moreover from this(2) have "length ps = length [24287..(24289::int)]" by (metis length_map)
  ultimately show ?thesis by (simp add: upto_rec1)
qed

subsection \<open>Bounds and keys\<close>

lemma valid_MonthEnd:
  assumes "valid_date d"
  shows "valid_date (MonthEnd d)"
    and "valid_date (MonthStart d)" and "valid_date (YearStart d)" and "valid_date (YearEnd d)"
  using assms days_in_bounds[of "year d" "month d"]
  by (auto simp: MonthEnd_def MonthStart_def YearStart_def YearEnd_def valid_date_def daysInMonth_eq days_in_def)

lemma periodBounds_date:
  assumes "granularity_valid g" and "valid_date d"
  shows "periodBounds (periodForDate d g) = Inr (case g of
      TimeGranularityYear \<Rightarrow> (YearStart d, YearEnd d)
    | TimeGranularityMonth \<Rightarrow> (MonthStart d, MonthEnd d)
    | _ \<Rightarrow> (d, d))"
  using assms(1)
proof (cases rule: granularity_cases)
  case 1
  have "NewDate (year d) 1 1 = Inr (Date (year d) 1 1)"
    using assms(2) by (simp add: NewDate_Inr valid_date_def days_in_def)
  with 1 show ?thesis by (simp add: periodBounds_def periodForDate_def YearStart_def YearEnd_def)
next
  case 2
  have "NewDate (year d) (month d) 1 = Inr (Date (year d) (month d) 1)"
    using valid_MonthEnd(2)[OF assms(2)] by (simp add: NewDate_Inr MonthStart_def)
  moreover have "max (month d) 1 = month d" using assms(2) by (simp add: valid_date_def)
  ultimately show ?thesis using 2 by (simp add: periodBounds_def periodForDate_def MonthStart_def MonthEnd_def)
next
  case 3
  have "NewDate (year d) (month d) (day d) = Inr d" using assms(2) by (simp add: NewDate_Inr)
  moreover have "max (month d) 1 = month d" "max (day d) 1 = day d" using assms(2) by (simp_all add: valid_date_def)
  ultimately show ?thesis using 3 by (simp add: periodBounds_def periodForDate_def)
qed

lemma periodBounds_covers:
  assumes "granularity_valid g" and "valid_date d" and "periodBounds (periodForDate d g) = Inr (s, e)"
  shows "valid_date s" and "valid_date e" and "s \<le> d" and "d \<le> e"
    and "valid_date x \<Longrightarrow> s \<le> x \<and> x \<le> e \<longleftrightarrow> periodForDate x g = periodForDate d g"
proof -
  note b = periodBounds_date[OF assms(1,2)]
  note vd = valid_date_bounds[OF assms(2)] assms(2)[unfolded valid_date_def]
  have se: "s = (case g of TimeGranularityYear \<Rightarrow> YearStart d | TimeGranularityMonth \<Rightarrow> MonthStart d | _ \<Rightarrow> d)"
    "e = (case g of TimeGranularityYear \<Rightarrow> YearEnd d | TimeGranularityMonth \<Rightarrow> MonthEnd d | _ \<Rightarrow> d)"
    using b assms(3) by (auto split: time_granularity.splits)
  show "valid_date s" "valid_date e"
    using valid_MonthEnd[OF assms(2)] assms(2) by (auto simp: se split: time_granularity.split)
  have iff: "s \<le> x \<and> x \<le> e \<longleftrightarrow> periodForDate x g = periodForDate d g" if x: "valid_date x" for x
  proof -
    note vx = valid_date_bounds[OF x] x[unfolded valid_date_def]
    show ?thesis
      using assms(1)
    proof (cases rule: granularity_cases)
      case 1
      then show ?thesis using vx vd
        by (auto simp: se periodForDate_def date_le YearStart_def YearEnd_def)
    next
      case 2
      have "daysInMonth (year d) (month d) = days_in (year d) (month d)" using vd by (simp add: daysInMonth_eq)
      with 2 have "s \<le> x \<and> x \<le> e \<longleftrightarrow>
          (year d < year x \<or> year d = year x \<and> (month d < month x \<or> month d = month x \<and> 1 \<le> day x))
          \<and> (year x < year d \<or> year x = year d \<and>
              (month x < month d \<or> month x = month d \<and> day x \<le> days_in (year d) (month d)))"
        by (simp add: se date_le MonthStart_def MonthEnd_def)
      also have "\<dots> \<longleftrightarrow> year x = year d \<and> month x = month d"
        using vx by (metis order_less_asym order_less_irrefl)
      finally show ?thesis using 2 by (auto simp: periodForDate_def)
    next
      case 3
      then show ?thesis by (auto simp: se periodForDate_def date_le)
    qed
  qed
  show "s \<le> d" "d \<le> e" using iff[OF assms(2)] by simp_all
  show "valid_date x \<Longrightarrow> s \<le> x \<and> x \<le> e \<longleftrightarrow> periodForDate x g = periodForDate d g" by (rule iff)
qed

lemma format_padded_inject:
  assumes "0 \<le> v" "nat v < 10 ^ w" "0 \<le> u" "nat u < 10 ^ w" "0 < w" "format_padded w v = format_padded w u"
  shows "v = u"
  using format_padded_digits(3)[OF assms(1,2,5)] format_padded_digits(3)[OF assms(3,4,5)] assms(1,3,6) by simp

lemma periodKey_inject:
  assumes "granularity_valid g" and "canonical g p" and "canonical g q" and "periodKey p = periodKey q"
  shows "p = q"
proof -
  obtain d e where d: "valid_date d" "p = periodForDate d g" and e: "valid_date e" "q = periodForDate e g"
    using assms(2,3) by (auto simp: canonical_def)
  note vd = valid_date_bounds[OF d(1)] d(1)[unfolded valid_date_def]
  note ve = valid_date_bounds[OF e(1)] e(1)[unfolded valid_date_def]
  have len: "length (format_padded 4 (year d)) = 4" "length (format_padded 4 (year e)) = 4"
    "length (format_padded 2 (month d)) = 2" "length (format_padded 2 (month e)) = 2"
    using vd ve by (intro format_padded_digits(1); simp add: nat_less_iff)+
  have y: "format_padded 4 (year d) = format_padded 4 (year e) \<Longrightarrow> year d = year e"
    using vd ve by (intro format_padded_inject[of "year d" 4 "year e"]) (simp_all add: nat_less_iff)
  have m: "format_padded 2 (month d) = format_padded 2 (month e) \<Longrightarrow> month d = month e"
    using vd ve by (intro format_padded_inject[of "month d" 2 "month e"]) (simp_all add: nat_less_iff)
  have dd: "format_padded 2 (day d) = format_padded 2 (day e) \<Longrightarrow> day d = day e"
    using vd ve by (intro format_padded_inject[of "day d" 2 "day e"]) (simp_all add: nat_less_iff)
  show ?thesis
    using assms(1)
  proof (cases rule: granularity_cases)
    case 1
    with assms(4) have "year d = year e" by (intro y) (simp add: d e periodKey_def periodForDate_def)
    with 1 show ?thesis by (simp add: d e periodForDate_def)
  next
    case 2
    with assms(4) len have "year d = year e" "month d = month e"
      by (auto simp: d e periodKey_def periodForDate_def intro: y m)
    with 2 show ?thesis by (simp add: d e periodForDate_def)
  next
    case 3
    with assms(4) len have "year d = year e" "month d = month e" "day d = day e"
      by (auto simp: d e periodKey_def periodForDate_def intro: y m dd)
    with 3 show ?thesis by (simp add: d e periodForDate_def)
  qed
qed

text \<open>
  A period's bounds are exact: for the period of a valid date \<open>periodBounds\<close> succeeds, and a
  date lies within the bounds if and only if it has that period. Periods of one granularity have
  different keys.
\<close>

lemma periodBounds_exact:
  assumes "granularity_valid g" and "canonical g p"
  shows "\<exists>s e. periodBounds p = Inr (s, e) \<and> valid_date s \<and> valid_date e
    \<and> (\<forall>d. valid_date d \<longrightarrow> (s \<le> d \<and> d \<le> e \<longleftrightarrow> periodForDate d g = p))
    \<and> (\<forall>q. canonical g q \<and> periodKey q = periodKey p \<longrightarrow> q = p)"
proof -
  obtain d where d: "valid_date d" "p = periodForDate d g" using assms(2) by (auto simp: canonical_def)
  obtain s e where b: "periodBounds (periodForDate d g) = Inr (s, e)"
    using periodBounds_date[OF assms(1) d(1)] by (auto split: time_granularity.splits)
  note cov = periodBounds_covers[OF assms(1) d(1) b]
  have "\<forall>q. canonical g q \<and> periodKey q = periodKey p \<longrightarrow> q = p"
    using periodKey_inject[OF assms(1)] assms(2) by blast
  with b cov show ?thesis unfolding d(2) by blast
qed

lemma periodBounds_exact_witness:
  "periodForDate (Date 2024 2 29) TimeGranularityMonth = periodForDate (Date 2024 2 1) TimeGranularityMonth
   \<and> (\<exists>s e. periodBounds (periodForDate (Date 2024 2 1) TimeGranularityMonth) = Inr (s, e)
        \<and> s \<le> Date 2024 2 29 \<and> Date 2024 2 29 \<le> e)"
proof -
  have v: "valid_date (Date 2024 2 29)" "valid_date (Date 2024 2 1)"
    by (simp_all add: valid_date_def days_in_def leap_def)
  have g: "granularity_valid TimeGranularityMonth" by (simp add: granularity_valid_def)
  have eq: "periodForDate (Date 2024 2 29) TimeGranularityMonth = periodForDate (Date 2024 2 1) TimeGranularityMonth"
    by (simp add: periodForDate_def)
  from periodBounds_exact[OF g canonical_periodForDate[OF v(2)]] v(1) eq show ?thesis by blast
qed

end
