(* ===== verification/Analytics_Sort.thy ===== *)
theory Analytics_Sort
  imports Analytics_Periods
begin

text \<open>
  Display order of \<open>internal/analytics\<close>: the comparators and \<open>SortAggregateRows\<close> of \<open>sort.go\<close>, and
  the detail rows of \<open>detail.go\<close>.  Amounts of different scales are compared exactly, as
  \<open>math/big\<close> integers.
\<close>

definition compareInt64 :: "int64 \<Rightarrow> int64 \<Rightarrow> int" where
  "compareInt64 left right = (if left <s right then - 1 else if right <s left then 1 else 0)"

definition compareScaledMinor :: "int64 \<Rightarrow> uint8 \<Rightarrow> int64 \<Rightarrow> uint8 \<Rightarrow> int" where
  "compareScaledMinor left leftScale right rightScale =
     (if leftScale = rightScale then compareInt64 left right
      else if leftScale < rightScale
      then compare_values (sint left * 10 ^ unat (rightScale - leftScale)) (sint right)
      else compare_values (sint left) (sint right * 10 ^ unat (leftScale - rightScale)))"

definition compareAggregatePrimary :: "aggregate_row \<Rightarrow> aggregate_row \<Rightarrow> sort_field \<Rightarrow> int" where
  "compareAggregatePrimary left right f =
     (case f of
        SortFieldCount \<Rightarrow> compareInt (row_count left) (row_count right)
      | SortFieldAmount \<Rightarrow> compareScaledMinor (minor (row_total left)) (scale (row_total left))
          (minor (row_total right)) (scale (row_total right))
      | SortFieldTimePeriod \<Rightarrow> comparePeriodPointers (row_period left) (row_period right)
      | SortFieldMerchant \<Rightarrow> compare_values (row_label left) (row_label right)
      | SortFieldCategory \<Rightarrow> compare_values (row_label left) (row_label right)
      | SortFieldGroup \<Rightarrow> compare_values (row_label left) (row_label right)
      | SortFieldAccount \<Rightarrow> compare_values (row_label left) (row_label right)
      | _ \<Rightarrow> 0)"

definition compareAggregateTie :: "aggregate_row \<Rightarrow> aggregate_row \<Rightarrow> int" where
  "compareAggregateTie left right =
     (let c = compare_values (currency (row_total left)) (currency (row_total right)) in
      if c \<noteq> 0 then c else
      let c = compareInt (int (unat (scale (row_total left)))) (int (unat (scale (row_total right)))) in
      if c \<noteq> 0 then c else
      let c = comparePeriodPointers (row_period left) (row_period right) in
      if c \<noteq> 0 then c else
      let c = compare_values (row_label left) (row_label right) in
      if c \<noteq> 0 then c else compare_values (row_key left) (row_key right))"

definition aggregate_less :: "sort_spec \<Rightarrow> aggregate_row \<Rightarrow> aggregate_row \<Rightarrow> bool" where
  "aggregate_less spec left right =
     (let comparison = compareAggregatePrimary left right (sort_by spec) in
      if comparison \<noteq> 0 then
        let ascending = (sort_order spec = SortDirectionAsc);
            ascending = (if sort_by spec = SortFieldAmount then \<not> ascending else ascending)
        in if ascending then comparison < 0 else comparison > 0
      else compareAggregateTie left right < 0)"

definition SortAggregateRows :: "aggregate_row list \<Rightarrow> sort_spec \<Rightarrow> aggregate_row list" where
  "SortAggregateRows rows spec = stable_sort (aggregate_less spec) rows"

definition sortBaseRows :: "aggregate_row list \<Rightarrow> aggregate_row list" where
  "sortBaseRows rows =
     SortAggregateRows rows \<lparr>sort_by = SortFieldMerchant, sort_order = SortDirectionAsc\<rparr>"

definition compareDetail :: "transaction \<Rightarrow> transaction \<Rightarrow> sort_field \<Rightarrow> int" where
  "compareDetail left right f =
     (case f of
        SortFieldDate \<Rightarrow> date_compare (trans_date left) (trans_date right)
      | SortFieldMerchant \<Rightarrow> compare_values (ref_name (trans_merchant left)) (ref_name (trans_merchant right))
      | SortFieldCategory \<Rightarrow> compare_values (cref_name (trans_category left)) (cref_name (trans_category right))
      | SortFieldAccount \<Rightarrow> compare_values (ref_name (trans_account left)) (ref_name (trans_account right))
      | SortFieldAmount \<Rightarrow> compareScaledMinor (minor (trans_amount left)) (scale (trans_amount left))
          (minor (trans_amount right)) (scale (trans_amount right))
      | _ \<Rightarrow> 0)"

definition detail_compare :: "sort_spec \<Rightarrow> transaction \<Rightarrow> transaction \<Rightarrow> int" where
  "detail_compare spec left right =
     (let ascending = (sort_order spec = SortDirectionAsc);
          ascending = (if sort_by spec = SortFieldAmount then \<not> ascending else ascending);
          comparison = compareDetail left right (sort_by spec)
      in if comparison = 0 then compare_values (trans_id left) (trans_id right)
         else if ascending then comparison else - comparison)"

definition DetailRows :: "transaction list \<Rightarrow> sort_spec \<Rightarrow> detail_row list" where
  "DetailRows filtered spec =
     (let order = stable_sort (\<lambda>l r. detail_compare spec (filtered ! l) (filtered ! r) < 0)
            [0..<length filtered]
      in map (\<lambda>index. \<lparr>detail_transaction = filtered ! index,
            detail_flags = \<lparr>flag_selected = False, flag_hidden = trans_hidden (filtered ! index),
              flag_pending = trans_pending (filtered ! index)\<rparr>\<rparr>) order)"

definition DecorateDetailRows :: "detail_row list \<Rightarrow> (string \<Rightarrow> bool) \<Rightarrow> detail_row list" where
  "DecorateDetailRows rows selected =
     map (\<lambda>row. row\<lparr>detail_flags :=
       (detail_flags row)\<lparr>flag_selected := selected (trans_id (detail_transaction row))\<rparr>\<rparr>) rows"

subsection \<open>The comparators are comparisons\<close>

text \<open>The value of an amount in units of \<open>10 ^ - 255\<close>, the finest scale of an \<open>uint8\<close>.\<close>

definition scaled_value :: "int64 \<Rightarrow> uint8 \<Rightarrow> int" where
  "scaled_value v s = sint v * 10 ^ (255 - unat s)"

lemma scale_bound: "unat (s :: uint8) \<le> 255"
  using unsigned_less[where ?'b = 8 and ?'a = nat, of s] by simp

lemma compare_values_mult: "0 < k \<Longrightarrow> compare_values (a * k) (b * k) = compare_values a (b :: int)"
  by (auto simp: compare_values_def)

lemma scaled_shift:
  assumes "s < (t :: uint8)"
  shows "scaled_value v s = sint v * 10 ^ unat (t - s) * 10 ^ (255 - unat t)"
proof -
  have "unat (t - s) = unat t - unat s" using assms by (intro unat_sub) simp
  then have "255 - unat s = unat (t - s) + (255 - unat t)"
    using assms scale_bound[of t] by (simp add: word_less_nat_alt)
  then show ?thesis by (simp add: scaled_value_def power_add mult.assoc)
qed

lemma compareScaledMinor_value:
  "compareScaledMinor a s b t = compare_values (scaled_value a s) (scaled_value b t)"
proof -
  consider "s = t" | "s < t" | "t < s" by fastforce
  then show ?thesis
  proof cases
    case 1
    then show ?thesis
      unfolding compareScaledMinor_def scaled_value_def
      by (simp add: compare_values_mult compareInt64_def compare_values_def word_sless_alt)
  next
    case 2
    then have "s \<noteq> t" by auto
    with 2 show ?thesis
      by (simp add: compareScaledMinor_def scaled_shift[OF 2] scaled_value_def[of b] compare_values_mult)
  next
    case 3
    then have "\<not> s < t" "s \<noteq> t" by auto
    then show ?thesis
      by (simp add: compareScaledMinor_def scaled_shift[OF 3] scaled_value_def[of a] compare_values_mult)
  qed
qed

text \<open>The comparators are built from simpler ones.\<close>

lemma comparison_zero: "comparison (\<lambda>x y. 0)"
  by unfold_locales simp_all

lemma comparison_if:
  "comparison c \<Longrightarrow> comparison d \<Longrightarrow> comparison (\<lambda>l r. if b then c l r else d l r)"
  by (cases b) simp_all

lemma comparison_primary: "comparison (\<lambda>l r. compareAggregatePrimary l r f)"
  unfolding compareAggregatePrimary_def compareScaledMinor_value compareInt_values
  by (cases f) (auto intro!: comparison_zero comparison_values
      comparison_key[OF period_pointers.comparison_axioms, of row_period])

lemma compareAggregateTie_then:
  "compareAggregateTie = then_compare (\<lambda>l r. compare_values (currency (row_total l)) (currency (row_total r)))
     (then_compare (\<lambda>l r. compare_values (int (unat (scale (row_total l)))) (int (unat (scale (row_total r)))))
     (then_compare (\<lambda>l r. comparePeriodPointers (row_period l) (row_period r))
     (then_compare (\<lambda>l r. compare_values (row_label l) (row_label r))
       (\<lambda>l r. compare_values (row_key l) (row_key r)))))"
  by (simp add: fun_eq_iff compareAggregateTie_def then_compare_def Let_def compareInt_values)

lemma comparison_tie: "comparison compareAggregateTie"
  unfolding compareAggregateTie_then
  by (intro comparison_then comparison_values comparison_key[OF period_pointers.comparison_axioms])

text \<open>The display order as one comparator.\<close>

definition aggregate_compare :: "sort_spec \<Rightarrow> aggregate_row \<Rightarrow> aggregate_row \<Rightarrow> int" where
  "aggregate_compare spec = then_compare
     (\<lambda>l r. if (sort_order spec = SortDirectionAsc) \<noteq> (sort_by spec = SortFieldAmount)
            then compareAggregatePrimary l r (sort_by spec) else - compareAggregatePrimary l r (sort_by spec))
     compareAggregateTie"

lemma aggregate_less_compare: "aggregate_less spec l r \<longleftrightarrow> aggregate_compare spec l r < 0"
  by (auto simp: aggregate_less_def aggregate_compare_def then_compare_def Let_def)

lemma comparison_aggregate: "comparison (aggregate_compare spec)"
  unfolding aggregate_compare_def
  by (intro comparison_then comparison_tie comparison_if comparison_primary
      comparison_minus[OF comparison_primary])

interpretation aggregate_order: comparison "aggregate_compare spec" for spec
  by (rule comparison_aggregate)

lemma aggregate_compare_total:
  assumes "\<not> aggregate_less spec a b" and "\<not> aggregate_less spec b a"
  shows "currency (row_total a) = currency (row_total b) \<and> scale (row_total a) = scale (row_total b)
    \<and> row_key a = row_key b"
proof -
  have "aggregate_compare spec a b = 0"
    using assms aggregate_order.swap[of spec b a] by (simp add: aggregate_less_compare)
  then have "compareAggregateTie a b = 0" by (simp add: aggregate_compare_def)
  then show ?thesis by (simp add: compareAggregateTie_then word_uint_eq_iff)
qed

text \<open>The identity of a row: at most one row per currency, scale and key.\<close>

definition row_identity :: "aggregate_row \<Rightarrow> (string \<times> uint8) \<times> string" where
  "row_identity row = ((currency (row_total row), scale (row_total row)), row_key row)"

lemma SortAggregateRows_unique:
  assumes "mset rows = mset others" and "distinct (map row_identity rows)"
  shows "SortAggregateRows rows spec = SortAggregateRows others spec"
  unfolding SortAggregateRows_def aggregate_less_compare
proof (rule aggregate_order.asc.stable_sort_unique[OF assms(1)])
  fix a b assume ab: "a \<in> set rows" "b \<in> set rows"
    and "\<not> aggregate_compare spec a b < 0" "\<not> aggregate_compare spec b a < 0"
  then have "row_identity a = row_identity b"
    using aggregate_compare_total[of spec a b] by (simp add: aggregate_less_compare row_identity_def)
  with assms(2) ab show "a = b" by (auto simp: distinct_map dest: inj_onD)
qed

text \<open>
  \<open>SortAggregateRows\<close> is a sort: its result is a permutation of the rows, ordered by the
  requested field and direction with ties broken by currency, scale, period, label and key, and
  when no two rows share currency, scale and key it does not depend on the order of its input.
\<close>

lemma SortAggregateRows_sorts:
  "mset (SortAggregateRows rows spec) = mset rows
   \<and> sorted_wrt (\<lambda>a b. \<not> aggregate_less spec b a) (SortAggregateRows rows spec)
   \<and> (\<forall>others. mset others = mset rows \<and> distinct (map row_identity rows)
        \<longrightarrow> SortAggregateRows others spec = SortAggregateRows rows spec)"
proof -
  have "sorted_wrt (\<lambda>a b. \<not> aggregate_less spec b a) (SortAggregateRows rows spec)"
    unfolding SortAggregateRows_def aggregate_less_compare by (rule aggregate_order.asc.sorted_stable_sort)
  moreover have "mset (SortAggregateRows rows spec) = mset rows" by (simp add: SortAggregateRows_def)
  ultimately show ?thesis by (metis SortAggregateRows_unique)
qed

definition example_row :: "string \<Rightarrow> int64 \<Rightarrow> uint8 \<Rightarrow> aggregate_row" where
  "example_row k v s =
     (let m = \<lparr>minor = v, currency = ''USD'', scale = s\<rparr> in
      \<lparr>row_dimension = DimensionMerchant, row_key = k, row_label = k, row_group = '''', row_count = 1,
       row_in = m, row_out = m, row_total = m, row_period = None, row_top_category = '''',
       row_top_percent = 0, row_share_tenths = 0,
       row_flags = \<lparr>flag_selected = False, flag_hidden = False, flag_pending = False\<rparr>\<rparr>)"

lemma SortAggregateRows_sorts_witness:
  "SortAggregateRows [example_row ''a'' 15 1, example_row ''b'' 200 2]
     \<lparr>sort_by = SortFieldAmount, sort_order = SortDirectionDesc\<rparr>
   = SortAggregateRows [example_row ''b'' 200 2, example_row ''a'' 15 1]
     \<lparr>sort_by = SortFieldAmount, sort_order = SortDirectionDesc\<rparr>"
proof -
  have "distinct (map row_identity [example_row ''b'' 200 2, example_row ''a'' 15 1])"
    by (simp add: row_identity_def example_row_def Let_def)
  moreover have "mset [example_row ''a'' 15 1, example_row ''b'' 200 2]
      = mset [example_row ''b'' 200 2, example_row ''a'' 15 1]" by simp
  ultimately show ?thesis using SortAggregateRows_sorts by blast
qed

subsection \<open>Detail rows\<close>

definition detail_row_of :: "transaction \<Rightarrow> detail_row" where
  "detail_row_of t = \<lparr>detail_transaction = t, detail_flags = \<lparr>flag_selected = False,
     flag_hidden = trans_hidden t, flag_pending = trans_pending t\<rparr>\<rparr>"

lemma DetailRows_sort:
  "DetailRows ts spec = map detail_row_of (stable_sort (\<lambda>l r. detail_compare spec l r < 0) ts)"
proof -
  have "stable_sort (\<lambda>l r. detail_compare spec l r < 0) (map ((!) ts) [0..<length ts])
      = map ((!) ts) (stable_sort (\<lambda>l r. detail_compare spec (ts ! l) (ts ! r) < 0) [0..<length ts])"
    by (rule stable_sort_map)
  then show ?thesis by (simp add: DetailRows_def detail_row_of_def map_nth o_def Let_def)
qed

lemma comparison_detail: "comparison (\<lambda>l r. compareDetail l r f)"
  unfolding compareDetail_def compareScaledMinor_value
  by (cases f) (auto intro!: comparison_zero comparison_values
      comparison_key[OF date_order.comparison_axioms, of trans_date])

lemma detail_compare_then:
  "detail_compare spec = then_compare
     (\<lambda>l r. if (sort_order spec = SortDirectionAsc) \<noteq> (sort_by spec = SortFieldAmount)
            then compareDetail l r (sort_by spec) else - compareDetail l r (sort_by spec))
     (\<lambda>l r. compare_values (trans_id l) (trans_id r))"
  by (auto simp: fun_eq_iff detail_compare_def then_compare_def Let_def)

interpretation detail_order: comparison "detail_compare spec" for spec
  unfolding detail_compare_then
  by (intro comparison_then comparison_values comparison_if comparison_detail
      comparison_minus[OF comparison_detail])

lemma DetailRows_unique:
  assumes "mset us = mset ts" and "distinct (map trans_id ts)"
  shows "DetailRows us spec = DetailRows ts spec"
proof -
  have "stable_sort (\<lambda>l r. detail_compare spec l r < 0) us = stable_sort (\<lambda>l r. detail_compare spec l r < 0) ts"
  proof (rule detail_order.asc.stable_sort_unique[OF assms(1)])
    fix a b assume "a \<in> set us" "b \<in> set us"
      and n: "\<not> detail_compare spec a b < 0" "\<not> detail_compare spec b a < 0"
    then have ab: "a \<in> set ts" "b \<in> set ts" using mset_eq_setD[OF assms(1)] by simp_all
    have "detail_compare spec a b = 0" using n detail_order.swap[of spec b a] by simp
    then have "trans_id a = trans_id b" by (simp add: detail_compare_then)
    with assms(2) ab show "a = b" by (auto simp: distinct_map dest: inj_onD)
  qed
  then show ?thesis by (simp add: DetailRows_sort)
qed

text \<open>
  \<open>DetailRows\<close>, which sorts row indexes, lists every filtered transaction once with its own
  flags, ordered by the requested field and direction and then by identity; with distinct
  identities the order of the input does not matter.
\<close>

theorem DetailRows_sorts:
  "mset (DetailRows ts spec) = mset (map detail_row_of ts)
   \<and> sorted_wrt (\<lambda>a b. detail_compare spec (detail_transaction a) (detail_transaction b) \<le> 0) (DetailRows ts spec)
   \<and> (\<forall>us. mset us = mset ts \<and> distinct (map trans_id ts) \<longrightarrow> DetailRows us spec = DetailRows ts spec)"
proof -
  have "sorted_wrt (\<lambda>a b. \<not> detail_compare spec b a < 0) (stable_sort (\<lambda>l r. detail_compare spec l r < 0) ts)"
    by (rule detail_order.asc.sorted_stable_sort)
  moreover have "detail_compare spec b a < 0 \<longleftrightarrow> \<not> detail_compare spec a b \<le> 0" for a b
    using detail_order.swap[of spec b a] by auto
  ultimately have "sorted_wrt (\<lambda>a b. detail_compare spec (detail_transaction a) (detail_transaction b) \<le> 0)
      (DetailRows ts spec)"
    by (simp add: DetailRows_sort sorted_wrt_map detail_row_of_def)
  moreover have "DetailRows us spec = DetailRows ts spec"
    if "mset us = mset ts" "distinct (map trans_id ts)" for us
    using that by (rule DetailRows_unique)
  moreover have "mset (DetailRows ts spec) = mset (map detail_row_of ts)" by (simp add: DetailRows_sort)
  ultimately show ?thesis by blast
qed

theorem DetailRows_sorts_witness:
  "\<exists>a b spec. a \<noteq> b \<and> DetailRows [a, b] spec = DetailRows [b, a] spec
     \<and> mset (DetailRows [a, b] spec) = {#detail_row_of a, detail_row_of b#}"
proof -
  define a :: transaction where "a =
     \<lparr>trans_id = ''t1'', trans_provider_id = '''', trans_provider = ''local'',
      trans_account = \<lparr>ref_id = ''a'', ref_name = ''A''\<rparr>, trans_date = Date 2024 3 5,
      trans_merchant = \<lparr>ref_id = ''m'', ref_name = ''M''\<rparr>,
      trans_category = \<lparr>cref_id = ''c'', cref_name = ''C'', cref_group_id = ''g'', cref_group = ''G''\<rparr>,
      trans_amount = \<lparr>minor = 5, currency = ''USD'', scale = 2\<rparr>, trans_notes = '''',
      trans_hidden = False, trans_pending = False, trans_metadata = []\<rparr>"
  define b where "b = a\<lparr>trans_id := ''t2''\<rparr>"
  define spec where "spec = \<lparr>sort_by = SortFieldDate, sort_order = SortDirectionDesc\<rparr>"
  note rows = DetailRows_sorts[of "[a, b]" spec]
  have ab: "trans_id a \<noteq> trans_id b" "a \<noteq> b" by (auto simp: a_def b_def)
  have "mset [b, a] = mset [a, b] \<and> distinct (map trans_id [a, b])" using ab by simp
  then have "DetailRows [b, a] spec = DetailRows [a, b] spec" using rows by blast
  moreover have "mset (DetailRows [a, b] spec) = {#detail_row_of a, detail_row_of b#}" using rows by simp
  ultimately show ?thesis using ab(2) by (intro exI[of _ a] exI[of _ b] exI[of _ spec]) simp
qed

end
