(* ===== verification/Analytics_Shares.thy ===== *)
theory Analytics_Shares
  imports Accumulate Analytics_Ratio Analytics_Sort
begin

text \<open>
  \<open>applyShares\<close> of \<open>internal/analytics/aggregate.go\<close>: the share of every row in the income or the
  expenses of its currency and scale, in tenths of a percent.  The denominators are \<open>uint64\<close> sums of
  magnitudes with an explicit overflow check.
\<close>

datatype aggregate_error =
    AggregateDimension
  | AggregateGranularity
  | AggregateTotal string money_error
  | AggregateActivity string
  | AggregateTotalActivity string
  | AggregateTopCategory string ratio_error
  | AggregatePeriods period_error
  | IncomeDenominator string uint8
  | ExpenseDenominator string uint8
  | AggregateShare string ratio_error

definition row_part :: "aggregate_row \<Rightarrow> string \<times> uint8" where
  "row_part row = (currency (row_total row), scale (row_total row))"

definition shares_step ::
    "uint64 \<times> uint64 \<Rightarrow> aggregate_row \<Rightarrow> aggregate_error + uint64 \<times> uint64" where
  "shares_step value row =
     (case value of (income, expenses) \<Rightarrow>
      let total = minor (row_total row) in
      if 0 <s total then
        (if max_uint64 - income < total
         then Inl (IncomeDenominator (currency (row_total row)) (scale (row_total row)))
         else Inr (income + total, expenses))
      else if total <s 0 then
        (if max_uint64 - expenses < absMinor total
         then Inl (ExpenseDenominator (currency (row_total row)) (scale (row_total row)))
         else Inr (income, expenses + absMinor total))
      else Inr (income, expenses))"

definition share_table ::
    "aggregate_row list \<Rightarrow> aggregate_error + ((string \<times> uint8) \<times> uint64 \<times> uint64) list" where
  "share_table rows = fold_result (accumulate row_part (\<lambda>_. (0, 0)) (\<lambda>v _. v) shares_step) [] rows"

definition set_share ::
    "((string \<times> uint8) \<times> uint64 \<times> uint64) list \<Rightarrow> aggregate_row \<Rightarrow> aggregate_error + aggregate_row" where
  "set_share table row =
     (let value = (case map_of table (row_part row) of Some v \<Rightarrow> v | None \<Rightarrow> (0, 0));
          total = minor (row_total row);
          denominator = (if 0 <s total then fst value else snd value)
      in if total = 0 \<or> denominator = 0 then Inr row
         else bind_result (map_error (AggregateShare (row_label row)) (ratioHalfUp (absMinor total) denominator 1000))
           (\<lambda>share. Inr (row\<lparr>row_share_tenths := share\<rparr>)))"

definition applyShares :: "aggregate_row list \<Rightarrow> aggregate_error + aggregate_row list" where
  "applyShares rows = bind_result (share_table rows) (\<lambda>table. map_result (set_share table) rows)"

subsection \<open>Denominators\<close>

definition row_value :: "aggregate_row \<Rightarrow> int" where
  "row_value row = sint (minor (row_total row))"

definition income_total :: "aggregate_row multiset \<Rightarrow> nat" where
  "income_total M = (\<Sum>row\<in>#M. nat (row_value row))"

definition expense_total :: "aggregate_row multiset \<Rightarrow> nat" where
  "expense_total M = (\<Sum>row\<in>#M. nat (- row_value row))"

lemma denominator_simps [simp]:
  "income_total {#} = 0" "expense_total {#} = 0"
  "income_total (add_mset row M) = nat (row_value row) + income_total M"
  "expense_total (add_mset row M) = nat (- row_value row) + expense_total M"
  by (simp_all add: income_total_def expense_total_def)

definition share_value :: "nat \<Rightarrow> nat \<Rightarrow> uint64 \<times> uint64" where
  "share_value a b = (of_nat a, of_nat b)"

lemma shares_step_value:
  assumes "a < 2 ^ 64" and "b < 2 ^ 64"
  shows "result_option (shares_step (share_value a b) row) =
    (if a + nat (row_value row) < 2 ^ 64 \<and> b + nat (- row_value row) < 2 ^ 64
     then Some (share_value (a + nat (row_value row)) (b + nat (- row_value row))) else None)"
proof -
  let ?t = "minor (row_total row)"
  have a: "unat (of_nat a :: uint64) = a" and b: "unat (of_nat b :: uint64) = b"
    using assms by (simp_all only: unat_of_nat_small)
  have abs: "of_nat (nat \<bar>sint ?t\<bar>) = absMinor ?t"
    unfolding unat_absMinor[symmetric] by simp
  consider "0 < sint ?t" | "sint ?t < 0" | "sint ?t = 0" by linarith
  then show ?thesis
  proof cases
    case 1
    then have t: "unat ?t = nat (sint ?t)" by (metis nat_int unat_nonneg less_imp_le)
    then have "of_nat (nat (sint ?t)) = ?t" by (metis unat_of_nat_small unat_upper word_unat_eq_iff)
    with 1 t assms(2) show ?thesis
      by (auto simp: shares_step_def share_value_def row_value_def word_sless_alt Let_def uint64_room a)
  next
    case 2
    then have "of_nat (nat (- sint ?t)) = absMinor ?t" using abs by simp
    with 2 assms(1) show ?thesis
      by (auto simp: shares_step_def share_value_def row_value_def word_sless_alt Let_def uint64_room b
          unat_absMinor)
  next
    case 3
    then show ?thesis using assms
      by (simp add: shares_step_def share_value_def row_value_def word_sless_alt)
  qed
qed

interpretation shares: incremental_accumulation row_part "\<lambda>_. (0, 0)" "\<lambda>v _. v" shares_step
  "\<lambda>_. True" "\<lambda>_ M. income_total M < 2 ^ 64 \<and> expense_total M < 2 ^ 64"
  "\<lambda>_ M. share_value (income_total M) (expense_total M)"
proof
  fix row :: aggregate_row
  show "result_option (shares_step (0, 0) row) =
      (if income_total {#row#} < 2 ^ 64 \<and> expense_total {#row#} < 2 ^ 64
       then Some (share_value (income_total {#row#}) (expense_total {#row#})) else None)"
    using shares_step_value[of 0 0 row] by (simp add: share_value_def)
next
  fix row :: aggregate_row and M
  assume "income_total M < 2 ^ 64 \<and> expense_total M < 2 ^ 64"
  then show "result_option (shares_step (share_value (income_total M) (expense_total M)) row) =
      (if income_total (add_mset row M) < 2 ^ 64 \<and> expense_total (add_mset row M) < 2 ^ 64
       then Some (share_value (income_total (add_mset row M)) (expense_total (add_mset row M))) else None)"
    using shares_step_value[of "income_total M" "expense_total M" row] by (simp add: add.commute)
qed auto

definition rows_of :: "string \<times> uint8 \<Rightarrow> aggregate_row multiset \<Rightarrow> aggregate_row multiset" where
  "rows_of p M = filter_mset (\<lambda>row. row_part row = p) M"

definition shares_fit :: "aggregate_row multiset \<Rightarrow> bool" where
  "shares_fit M \<longleftrightarrow> (\<forall>p\<in>row_part ` set_mset M.
     income_total (rows_of p M) < 2 ^ 64 \<and> expense_total (rows_of p M) < 2 ^ 64)"

text \<open>The row with its exact share in the income or the expenses of its partition.\<close>

definition with_share :: "aggregate_row multiset \<Rightarrow> aggregate_row \<Rightarrow> aggregate_row" where
  "with_share M row =
     (let denominator = (if 0 < row_value row then income_total (rows_of (row_part row) M)
                         else expense_total (rows_of (row_part row) M))
      in if row_value row = 0 then row
         else row\<lparr>row_share_tenths := int (half_up (nat \<bar>row_value row\<bar>) denominator 1000)\<rparr>)"

lemma total_member:
  assumes "row \<in># M"
  shows "nat (row_value row) \<le> income_total M" "nat (- row_value row) \<le> expense_total M"
proof -
  obtain N where "M = add_mset row N" using assms by (metis mset_add)
  then show "nat (row_value row) \<le> income_total M" "nat (- row_value row) \<le> expense_total M" by simp_all
qed

lemma set_share_spec:
  assumes "row \<in># M"
    and "map_of table (row_part row) = Some (share_value (income_total (rows_of (row_part row) M))
           (expense_total (rows_of (row_part row) M)))"
    and "income_total (rows_of (row_part row) M) < 2 ^ 64"
    and "expense_total (rows_of (row_part row) M) < 2 ^ 64"
  shows "set_share table row = Inr (with_share M row)"
proof -
  let ?v = "row_value row"
  define d where "d = (if 0 < ?v then income_total (rows_of (row_part row) M)
                       else expense_total (rows_of (row_part row) M))"
  have zero: "minor (row_total row) = 0 \<longleftrightarrow> ?v = 0"
    unfolding row_value_def by (rule sint_eq_0[symmetric])
  have "row \<in># rows_of (row_part row) M" using assms(1) by (simp add: rows_of_def)
  then have le: "nat \<bar>?v\<bar> \<le> d" using total_member[of row "rows_of (row_part row) M"]
    by (auto simp: d_def)
  have d: "d < 2 ^ 64" using assms(3,4) by (simp add: d_def)
  have un: "unat (of_nat d :: uint64) = d" by (rule unat_of_nat_small[OF d])
  show ?thesis
  proof (cases "?v = 0")
    case True
    then show ?thesis by (simp add: set_share_def with_share_def zero)
  next
    case False
    then have "d \<noteq> 0" using le by auto
    then have nz: "(of_nat d :: uint64) \<noteq> 0" using un by (metis unat_0)
    have "absMinor (minor (row_total row)) \<le> of_nat d"
      using le by (simp only: word_le_nat_alt un unat_absMinor row_value_def)
    from ratioHalfUp_share[OF this nz, of 1000]
    have "ratioHalfUp (absMinor (minor (row_total row))) (of_nat d) 1000
        = Inr (int (half_up (nat \<bar>?v\<bar>) d 1000))"
      by (simp add: un unat_absMinor row_value_def)
    moreover have "0 <s minor (row_total row) \<longleftrightarrow> 0 < ?v"
      by (simp add: row_value_def word_sless_alt)
    ultimately show ?thesis using False nz
      by (cases "0 < ?v")
        (simp_all add: set_share_def assms(2) share_value_def with_share_def zero Let_def d_def)
  qed
qed

lemma applyShares_Inr:
  "applyShares rows = Inr result \<longleftrightarrow>
     shares_fit (mset rows) \<and> result = map (with_share (mset rows)) rows"
proof -
  have run: "share_table rows = shares.run rows" by (simp add: share_table_def shares.run_def)
  have ok: "is_ok (shares.run rows) \<longleftrightarrow> shares_fit (mset rows)"
    by (auto simp: shares.run_ok shares_fit_def rows_of_def)
  show ?thesis
  proof (cases "shares.run rows")
    case (Inl e)
    with ok show ?thesis by (simp add: applyShares_def run)
  next
    case (Inr table)
    with ok have fit: "shares_fit (mset rows)" by simp
    note d = shares.run_entries(1)[OF _ Inr, simplified] and e = shares.run_entries(2)[OF _ Inr, simplified]
    have "set_share table row = Inr (with_share (mset rows) row)" if row: "row \<in> set rows" for row
    proof (rule set_share_spec)
      show "row \<in># mset rows" using row by simp
      have p: "row_part row \<in> row_part ` set_mset (mset rows)" using row by simp
      have f: "income_total (rows_of (row_part row) (mset rows)) < 2 ^ 64
          \<and> expense_total (rows_of (row_part row) (mset rows)) < 2 ^ 64"
        using fit p unfolding shares_fit_def by blast
      then show "income_total (rows_of (row_part row) (mset rows)) < 2 ^ 64"
        "expense_total (rows_of (row_part row) (mset rows)) < 2 ^ 64" by simp_all
      have "(row_part row, share_value (income_total (rows_of (row_part row) (mset rows)))
          (expense_total (rows_of (row_part row) (mset rows)))) \<in> set table"
        unfolding e using row f by (simp add: rows_of_def)
      then show "map_of table (row_part row) = Some (share_value
          (income_total (rows_of (row_part row) (mset rows)))
          (expense_total (rows_of (row_part row) (mset rows))))"
        using d by simp
    qed
    then have "applyShares rows = Inr (map (with_share (mset rows)) rows)"
      by (simp add: applyShares_def run Inr map_result_total)
    with fit show ?thesis by auto
  qed
qed

text \<open>
  \<open>applyShares\<close> gives every row its exact share of the income or the expenses of its currency
  and scale, in tenths of a percent rounded half up; the share is between 0 and 1000, and the only
  error is a denominator that exceeds an \<open>uint64\<close>: the ratio itself never fails.
\<close>

lemma applyShares_exact:
  assumes "applyShares rows = Inr result"
  shows "length result = length rows
    \<and> (\<forall>i<length rows. result ! i = with_share (mset rows) (rows ! i)
        \<and> (row_share_tenths (rows ! i) = 0 \<longrightarrow>
             0 \<le> row_share_tenths (result ! i) \<and> row_share_tenths (result ! i) \<le> 1000))"
proof -
  have r: "result = map (with_share (mset rows)) rows" using assms by (simp add: applyShares_Inr)
  have "0 \<le> row_share_tenths (with_share (mset rows) row) \<and> row_share_tenths (with_share (mset rows) row) \<le> 1000"
    if row: "row \<in> set rows" "row_share_tenths row = 0" for row
  proof -
    have "row \<in># rows_of (row_part row) (mset rows)" using row(1) by (simp add: rows_of_def)
    note m = total_member[OF this]
    have "row_value row \<noteq> 0 \<Longrightarrow> half_up (nat \<bar>row_value row\<bar>)
        (if 0 < row_value row then income_total (rows_of (row_part row) (mset rows))
         else expense_total (rows_of (row_part row) (mset rows))) 1000 \<le> 1000"
      using m by (intro half_up_le) auto
    then show ?thesis using row(2) by (simp add: with_share_def Let_def)
  qed
  then have "\<forall>row\<in>set rows. row_share_tenths row = 0 \<longrightarrow> 0 \<le> row_share_tenths (with_share (mset rows) row)
      \<and> row_share_tenths (with_share (mset rows) row) \<le> 1000" by blast
  then have "0 \<le> row_share_tenths (result ! i) \<and> row_share_tenths (result ! i) \<le> 1000"
    if "i < length rows" "row_share_tenths (rows ! i) = 0" for i
    using nth_mem[OF that(1)] that unfolding r by (metis nth_map)
  moreover have "length result = length rows" "\<forall>i<length rows. result ! i = with_share (mset rows) (rows ! i)"
    unfolding r by simp_all
  ultimately show ?thesis by (intro conjI allI impI) simp_all
qed

lemma applyShares_exact_witness:
  "\<exists>result. applyShares [example_row ''a'' 200 2, example_row ''b'' 100 2] = Inr result
     \<and> length result = 2 \<and> row_share_tenths (result ! 0) = 667"
proof -
  let ?rows = "[example_row ''a'' 200 2, example_row ''b'' 100 2]"
  have "shares_fit (mset ?rows)"
    by (simp add: shares_fit_def rows_of_def row_part_def example_row_def row_value_def Let_def)
  then obtain result where r: "applyShares ?rows = Inr result" by (simp add: applyShares_Inr)
  have "row_share_tenths (with_share (mset ?rows) (example_row ''a'' 200 2)) = 667"
    by (simp add: with_share_def rows_of_def row_part_def example_row_def row_value_def half_up_def Let_def)
  with applyShares_exact[OF r] r show ?thesis by auto
qed

end
