(* ===== verification/Analytics_Aggregate.thy ===== *)
theory Analytics_Aggregate
  imports Analytics_Totals Analytics_Shares "HOL-Library.Finite_Map"
begin

text \<open>
  \<open>Aggregate\<close> of \<open>internal/analytics/aggregate.go\<close> for the dimensions merchant, category, group and
  account: one accumulator per currency, scale and key, with totals, label, group label, flags and
  the merchant's activity per category.  The activities of an accumulator are a finite map, whose
  order of iteration the code hides by sorting the category names.
\<close>

subsection \<open>Accumulators\<close>

record accumulator =
  acc_row :: aggregate_row
  acc_activities :: "(string, uint64) fmap"
  acc_hidden :: int

definition countTransaction :: "accumulator \<Rightarrow> transaction \<Rightarrow> bool \<Rightarrow> accumulator" where
  "countTransaction v t includePending =
     (let row = acc_row v; flags = row_flags row in
      v\<lparr>acc_row := row\<lparr>row_count := row_count row + 1,
          row_flags := (if includePending
            then flags\<lparr>flag_pending := flag_pending flags \<or> trans_pending t\<rparr> else flags)\<rparr>,
        acc_hidden := (if trans_hidden t then acc_hidden v + 1 else acc_hidden v)\<rparr>)"

definition finishedRow :: "accumulator \<Rightarrow> aggregate_row" where
  "finishedRow v =
     (let row = acc_row v in
      row\<lparr>row_flags := (row_flags row)\<lparr>flag_hidden := row_count row > 0 \<and> acc_hidden v = row_count row\<rparr>\<rparr>)"

definition noteGroup :: "accumulator \<Rightarrow> dimension \<Rightarrow> string \<Rightarrow> accumulator" where
  "noteGroup v dim name =
     (if dim \<noteq> DimensionCategory \<or> name = '''' then v
      else if row_group (acc_row v) = '''' \<or> name < row_group (acc_row v)
      then v\<lparr>acc_row := (acc_row v)\<lparr>row_group := name\<rparr>\<rparr> else v)"

definition addAmount :: "accumulator \<Rightarrow> money \<Rightarrow> money_error + accumulator" where
  "addAmount v amount =
     bind_result
       (if 0 <s minor amount then
          bind_result (money_add (row_in (acc_row v)) amount)
            (\<lambda>m. Inr (v\<lparr>acc_row := (acc_row v)\<lparr>row_in := m\<rparr>\<rparr>))
        else if minor amount <s 0 then
          bind_result (money_add (row_out (acc_row v)) amount)
            (\<lambda>m. Inr (v\<lparr>acc_row := (acc_row v)\<lparr>row_out := m\<rparr>\<rparr>))
        else Inr v) (\<lambda>w.
     bind_result (money_add (row_total (acc_row w)) amount)
       (\<lambda>m. Inr (w\<lparr>acc_row := (acc_row w)\<lparr>row_total := m\<rparr>\<rparr>)))"

definition dimensionValue :: "transaction \<Rightarrow> dimension \<Rightarrow> string \<times> string" where
  "dimensionValue t dim =
     (case dim of
        DimensionMerchant \<Rightarrow> (ref_id (trans_merchant t), ref_name (trans_merchant t))
      | DimensionCategory \<Rightarrow> (cref_id (trans_category t), cref_name (trans_category t))
      | DimensionGroup \<Rightarrow> (cref_group_id (trans_category t), cref_group (trans_category t))
      | DimensionAccount \<Rightarrow> (ref_id (trans_account t), ref_name (trans_account t))
      | _ \<Rightarrow> ('''', ''''))"

type_synonym aggregate_key = "money_partition \<times> string"

definition aggregate_key :: "dimension \<Rightarrow> transaction \<Rightarrow> aggregate_key" where
  "aggregate_key dim t = (part_of t, fst (dimensionValue t dim))"

definition no_flags :: row_flags where
  "no_flags = \<lparr>flag_selected = False, flag_hidden = False, flag_pending = False\<rparr>"

definition new_accumulator :: "dimension \<Rightarrow> transaction \<Rightarrow> accumulator" where
  "new_accumulator dim t =
     (let zero = \<lparr>minor = 0, currency = currency (trans_amount t), scale = scale (trans_amount t)\<rparr> in
      \<lparr>acc_row = \<lparr>row_dimension = dim, row_key = fst (dimensionValue t dim),
         row_label = snd (dimensionValue t dim), row_group = '''', row_count = 0,
         row_in = zero, row_out = zero, row_total = zero, row_period = None, row_top_category = '''',
         row_top_percent = 0, row_share_tenths = 0, row_flags = no_flags\<rparr>,
       acc_activities = fmempty, acc_hidden = 0\<rparr>)"

definition note_label :: "dimension \<Rightarrow> accumulator \<Rightarrow> transaction \<Rightarrow> accumulator" where
  "note_label dim v t =
     (let label = snd (dimensionValue t dim) in
      if label < row_label (acc_row v) then v\<lparr>acc_row := (acc_row v)\<lparr>row_label := label\<rparr>\<rparr> else v)"

definition activity_of :: "(string, uint64) fmap \<Rightarrow> string \<Rightarrow> uint64" where
  "activity_of m c = (case fmlookup m c of Some a \<Rightarrow> a | None \<Rightarrow> 0)"

definition aggregate_step ::
    "dimension \<Rightarrow> bool \<Rightarrow> accumulator \<Rightarrow> transaction \<Rightarrow> aggregate_error + accumulator" where
  "aggregate_step dim includePending v t =
     (let label = snd (dimensionValue t dim);
          w = noteGroup (countTransaction v t includePending) dim (cref_group (trans_category t)) in
      if trans_hidden t then Inr w
      else bind_result (map_error (AggregateTotal label) (addAmount w (trans_amount t))) (\<lambda>w.
        if dim = DimensionMerchant then
          let activity = absMinor (minor (trans_amount t));
              current = activity_of (acc_activities w) (cref_name (trans_category t)) in
          if max_uint64 - current < activity then Inl (AggregateActivity label)
          else Inr (w\<lparr>acc_activities := fmupd (cref_name (trans_category t)) (current + activity)
                 (acc_activities w)\<rparr>)
        else Inr w))"

definition setTopCategory :: "accumulator \<Rightarrow> aggregate_error + accumulator" where
  "setTopCategory v =
     (let row = acc_row v; m = acc_activities v; categories = sorted_list_of_fset (fmdom m) in
      bind_result (fold_result (\<lambda>total c. if max_uint64 - total < activity_of m c
          then Inl (AggregateTotalActivity (row_label row)) else Inr (total + activity_of m c)) 0 categories)
      (\<lambda>totalActivity.
        if totalActivity = 0 then Inr v
        else let top = foldl (\<lambda>top c. if top = '''' \<or> activity_of m top < activity_of m c then c else top)
                 (row_top_category row) categories in
          bind_result (map_error (AggregateTopCategory (row_label row))
            (ratioHalfUp (activity_of m top) totalActivity 100))
          (\<lambda>percentage. Inr (v\<lparr>acc_row := row\<lparr>row_top_category := top, row_top_percent := percentage\<rparr>\<rparr>))))"

definition aggregate_table ::
    "dimension \<Rightarrow> bool \<Rightarrow> transaction list \<Rightarrow> aggregate_error + (aggregate_key \<times> accumulator) list" where
  "aggregate_table dim includePending ts =
     fold_result (accumulate (aggregate_key dim) (new_accumulator dim) (note_label dim)
       (aggregate_step dim includePending)) [] ts"

definition finish_accumulator :: "dimension \<Rightarrow> accumulator \<Rightarrow> aggregate_error + aggregate_row" where
  "finish_accumulator dim v =
     bind_result (if dim = DimensionMerchant then setTopCategory v else Inr v) (\<lambda>w. Inr (finishedRow w))"

definition aggregate_rows ::
    "dimension \<Rightarrow> bool \<Rightarrow> transaction list \<Rightarrow> aggregate_error + aggregate_row list" where
  "aggregate_rows dim includePending filtered =
     bind_result (aggregate_table dim includePending filtered) (\<lambda>table.
     bind_result (map_result (finish_accumulator dim) (map snd table)) (\<lambda>rows.
     bind_result (applyShares rows) (\<lambda>rows. Inr (sortBaseRows rows))))"

subsection \<open>The value of an accumulator\<close>

definition activity_total :: "transaction multiset \<Rightarrow> string \<Rightarrow> nat" where
  "activity_total M c = (\<Sum>t\<in>#M. if \<not> trans_hidden t \<and> cref_name (trans_category t) = c
     then nat \<bar>sint (minor (trans_amount t))\<bar> else 0)"

definition active_categories :: "transaction multiset \<Rightarrow> string set" where
  "active_categories M = (\<lambda>t. cref_name (trans_category t)) ` {t \<in> set_mset M. \<not> trans_hidden t}"

definition activities :: "dimension \<Rightarrow> transaction multiset \<Rightarrow> (string, uint64) fmap" where
  "activities dim M = (if dim = DimensionMerchant
     then fmap_of_list (map (\<lambda>c. (c, of_nat (activity_total M c))) (sorted_list_of_set (active_categories M)))
     else fmempty)"

definition group_label :: "dimension \<Rightarrow> transaction multiset \<Rightarrow> string" where
  "group_label dim M =
     (let names = {cref_group (trans_category t) |t. t \<in># M \<and> cref_group (trans_category t) \<noteq> ''''} in
      if dim = DimensionCategory \<and> names \<noteq> {} then Min names else '''')"

definition aggregate_value :: "dimension \<Rightarrow> bool \<Rightarrow> aggregate_key \<Rightarrow> transaction multiset \<Rightarrow> accumulator" where
  "aggregate_value dim includePending k M =
     \<lparr>acc_row = \<lparr>row_dimension = dim, row_key = snd k,
        row_label = Min ((\<lambda>t. snd (dimensionValue t dim)) ` set_mset M), row_group = group_label dim M,
        row_count = int (size M), row_in = amount_of (fst k) (total_in M),
        row_out = amount_of (fst k) (total_out M), row_total = amount_of (fst k) (total_in M + total_out M),
        row_period = None, row_top_category = '''', row_top_percent = 0, row_share_tenths = 0,
        row_flags = \<lparr>flag_selected = False, flag_hidden = False,
          flag_pending = includePending \<and> (\<exists>t\<in>#M. trans_pending t)\<rparr>\<rparr>,
      acc_activities = activities dim M, acc_hidden = int (size (filter_mset trans_hidden M))\<rparr>"

definition aggregate_fits :: "dimension \<Rightarrow> transaction multiset \<Rightarrow> bool" where
  "aggregate_fits dim M \<longleftrightarrow> totals_fit (total_in M) (total_out M)
     \<and> (dim = DimensionMerchant \<longrightarrow> (\<forall>c\<in>active_categories M. activity_total M c < 2 ^ 64))"

lemma active_categories_finite [simp]: "finite (active_categories M)"
  by (simp add: active_categories_def)

lemma activity_total_add [simp]:
  "activity_total {#} c = 0"
  "activity_total (add_mset t M) c = (if \<not> trans_hidden t \<and> cref_name (trans_category t) = c
     then nat \<bar>sint (minor (trans_amount t))\<bar> else 0) + activity_total M c"
  by (simp_all add: activity_total_def)

lemma active_categories_add [simp]:
  "active_categories {#} = {}"
  "active_categories (add_mset t M) = (if trans_hidden t then active_categories M
     else insert (cref_name (trans_category t)) (active_categories M))"
  by (auto simp: active_categories_def)

lemma activity_total_outside: "c \<notin> active_categories M \<Longrightarrow> activity_total M c = 0"
  by (induction M) (auto split: if_splits)

lemma fmlookup_activities:
  "fmlookup (activities DimensionMerchant M) c =
     (if c \<in> active_categories M then Some (of_nat (activity_total M c)) else None)"
  by (auto simp: activities_def fmlookup_of_list map_of_map_restrict restrict_map_def)

lemma activity_of_activities:
  "activity_of (activities DimensionMerchant M) c = of_nat (activity_total M c)"
  by (simp add: activity_of_def fmlookup_activities activity_total_outside)

lemma activities_add:
  assumes "\<not> trans_hidden t"
  shows "activities DimensionMerchant (add_mset t M) =
    fmupd (cref_name (trans_category t))
      (of_nat (activity_total M (cref_name (trans_category t)) + nat \<bar>sint (minor (trans_amount t))\<bar>))
      (activities DimensionMerchant M)"
  using assms by (intro fmap_ext) (auto simp: fmlookup_activities)

lemma activities_hidden: "trans_hidden t \<Longrightarrow> activities dim (add_mset t M) = activities dim M"
proof (cases "dim = DimensionMerchant")
  case True
  assume "trans_hidden t"
  with True show ?thesis by (auto intro: fmap_ext simp: fmlookup_activities)
qed (simp add: activities_def)

lemma group_label_add:
  "group_label dim (add_mset t M) =
     (let g = cref_group (trans_category t) in
      if dim \<noteq> DimensionCategory \<or> g = '''' then group_label dim M
      else if group_label dim M = '''' \<or> g < group_label dim M then g else group_label dim M)"
proof -
  let ?g = "cref_group (trans_category t)"
  define N where "N = {cref_group (trans_category u) |u. u \<in># M \<and> cref_group (trans_category u) \<noteq> ''''}"
  have fin: "finite N" unfolding N_def by simp
  have add: "{cref_group (trans_category u) |u. u \<in># add_mset t M \<and> cref_group (trans_category u) \<noteq> ''''}
      = (if ?g = '''' then N else insert ?g N)"
    by (auto simp: N_def)
  have ne: "N \<noteq> {} \<Longrightarrow> Min N \<noteq> ''''" using Min_in[OF fin] by (auto simp: N_def)
  show ?thesis
  proof (cases "dim = DimensionCategory \<and> ?g \<noteq> ''''")
    case False
    then show ?thesis unfolding group_label_def Let_def add N_def[symmetric] by auto
  next
    case True
    then have gl: "group_label dim (add_mset t M) = Min (insert ?g N)"
      "group_label dim M = (if N \<noteq> {} then Min N else '''')"
      unfolding group_label_def Let_def add N_def[symmetric] by simp_all
    show ?thesis
    proof (cases "N = {}")
      case True
      with \<open>dim = DimensionCategory \<and> ?g \<noteq> ''''\<close> gl show ?thesis by simp
    next
      case False
      then have "Min (insert ?g N) = min ?g (Min N)" using fin by simp
      with False True gl ne show ?thesis by (auto simp: min_def Let_def)
    qed
  qed
qed

text \<open>Adding the amount of one more visible transaction.\<close>

lemma addAmount_value:
  assumes "(currency m, scale m) = p" and "row_in (acc_row v) = amount_of p a"
    and "row_out (acc_row v) = amount_of p b" and "row_total (acc_row v) = amount_of p (a + b)"
    and "0 \<le> a" and "b \<le> 0" and "totals_fit a b"
  shows "result_option (addAmount v m) =
    (let x = a + max 0 (sint (minor m)); y = b + min 0 (sint (minor m)) in
     if totals_fit x y then Some (v\<lparr>acc_row := (acc_row v)\<lparr>row_in := amount_of p x, row_out := amount_of p y,
       row_total := amount_of p (x + y)\<rparr>\<rparr>) else None)"
proof -
  let ?v = "sint (minor m)"
  note fit = totals_fit_sum[OF assms(5-7)]
  note add = money_add_amount[OF assms(1)]
  consider "0 < ?v" | "?v < 0" | "?v = 0" by linarith
  then show ?thesis
  proof cases
    case 1
    have "totals_fit (a + ?v) b \<longleftrightarrow> in_int64 (a + ?v)"
      using 1 assms(5-7) by (auto simp: totals_fit_def in_int64_def)
    moreover have "totals_fit (a + ?v) b \<Longrightarrow> in_int64 (a + b + ?v)"
      using 1 assms(5,6) by (auto simp: totals_fit_def in_int64_def)
    ultimately show ?thesis
      using 1 assms(2-4) by (auto simp: addAmount_def word_sless_alt add fit Let_def algebra_simps)
  next
    case 2
    have "totals_fit a (b + ?v) \<longleftrightarrow> in_int64 (b + ?v)"
      using 2 assms(5-7) by (auto simp: totals_fit_def in_int64_def)
    moreover have "totals_fit a (b + ?v) \<Longrightarrow> in_int64 (a + b + ?v)"
      using 2 assms(5,6) by (auto simp: totals_fit_def in_int64_def)
    ultimately show ?thesis
      using 2 assms(2-4) by (auto simp: addAmount_def word_sless_alt add fit Let_def algebra_simps)
  next
    case 3
    then show ?thesis
      using assms(2-4,7) by (simp add: addAmount_def word_sless_alt add fit)
  qed
qed

text \<open>One step of the loop, from the value of some transactions to the value of one more.\<close>

lemma step_core:
  assumes "aggregate_key dim t = k"
    and "row_in (acc_row v) = amount_of (fst k) a" and "row_out (acc_row v) = amount_of (fst k) b"
    and "row_total (acc_row v) = amount_of (fst k) (a + b)"
    and "0 \<le> a" and "b \<le> 0" and "totals_fit a b"
    and "dim = DimensionMerchant \<Longrightarrow>
      activity_of (acc_activities v) (cref_name (trans_category t)) = of_nat n \<and> n < 2 ^ 64"
    and w_def: "w = noteGroup (countTransaction v t pend) dim (cref_group (trans_category t))"
  shows "result_option (aggregate_step dim pend v t) =
    (if trans_hidden t then Some w
     else if totals_fit (a + tx_in t) (b + tx_out t)
       \<and> (dim = DimensionMerchant \<longrightarrow> n + nat \<bar>sint (minor (trans_amount t))\<bar> < 2 ^ 64)
     then Some (w\<lparr>acc_row := (acc_row w)\<lparr>row_in := amount_of (fst k) (a + tx_in t),
         row_out := amount_of (fst k) (b + tx_out t),
         row_total := amount_of (fst k) (a + tx_in t + (b + tx_out t))\<rparr>,
       acc_activities := (if dim = DimensionMerchant
         then fmupd (cref_name (trans_category t)) (of_nat (n + nat \<bar>sint (minor (trans_amount t))\<bar>))
           (acc_activities w) else acc_activities w)\<rparr>)
     else None)"
proof (cases "trans_hidden t")
  case True
  then show ?thesis by (simp add: aggregate_step_def w_def Let_def)
next
  case False
  have w: "row_in (acc_row w) = amount_of (fst k) a" "row_out (acc_row w) = amount_of (fst k) b"
    "row_total (acc_row w) = amount_of (fst k) (a + b)" "acc_activities w = acc_activities v"
    using assms(2-4) by (simp_all add: w_def noteGroup_def countTransaction_def Let_def)
  have p: "(currency (trans_amount t), scale (trans_amount t)) = fst k"
    using assms(1) by (auto simp: aggregate_key_def part_of_def)
  note add = addAmount_value[OF p w(1-3) assms(5-7), unfolded Let_def]
  let ?x = "a + tx_in t" and ?y = "b + tx_out t"
  have tx: "tx_in t = max 0 (sint (minor (trans_amount t)))" "tx_out t = min 0 (sint (minor (trans_amount t)))"
    using False by (simp_all add: tx_in_def tx_out_def)
  show ?thesis
  proof (cases "totals_fit ?x ?y")
    case no: False
    then have "result_option (addAmount w (trans_amount t)) = None" using add by (simp add: tx)
    then obtain e where "addAmount w (trans_amount t) = Inl e" by (cases "addAmount w (trans_amount t)") auto
    with no False show ?thesis by (simp add: aggregate_step_def Let_def flip: w_def)
  next
    case True
    then have ok: "addAmount w (trans_amount t) = Inr (w\<lparr>acc_row := (acc_row w)\<lparr>row_in := amount_of (fst k) ?x,
        row_out := amount_of (fst k) ?y, row_total := amount_of (fst k) (?x + ?y)\<rparr>\<rparr>)"
      using add by (simp add: tx)
    have room: "max_uint64 - of_nat n < absMinor (minor (trans_amount t)) \<longleftrightarrow>
        \<not> n + nat \<bar>sint (minor (trans_amount t))\<bar> < 2 ^ 64" if "dim = DimensionMerchant"
      using assms(8)[OF that] unat_of_nat_small[of n] by (simp add: uint64_room unat_absMinor not_less)
    have sum: "of_nat n + absMinor (minor (trans_amount t)) =
        of_nat (n + nat \<bar>sint (minor (trans_amount t))\<bar>)"
      unfolding unat_absMinor[symmetric] by simp
    show ?thesis
      using True False ok room sum assms(8) w(4)
      by (auto simp: aggregate_step_def Let_def simp flip: w_def)
  qed
qed

lemma note_label_value:
  assumes "M \<noteq> {#}"
  shows "note_label dim (aggregate_value dim pend k M) t =
    (aggregate_value dim pend k M)\<lparr>acc_row := (acc_row (aggregate_value dim pend k M))\<lparr>row_label :=
      Min ((\<lambda>t. snd (dimensionValue t dim)) ` set_mset (add_mset t M))\<rparr>\<rparr>"
proof -
  let ?L = "(\<lambda>t. snd (dimensionValue t dim)) ` set_mset M"
  have "Min (insert (snd (dimensionValue t dim)) ?L) = min (snd (dimensionValue t dim)) (Min ?L)"
    using assms by (intro Min_insert) auto
  then show ?thesis by (auto simp: note_label_def aggregate_value_def Let_def min_def)
qed

text \<open>Both a new accumulator and a revisited one are the value of \<open>M\<close> with the label of one more.\<close>

definition labelled_value ::
    "dimension \<Rightarrow> bool \<Rightarrow> aggregate_key \<Rightarrow> transaction multiset \<Rightarrow> transaction \<Rightarrow> accumulator" where
  "labelled_value dim pend k M t =
     (aggregate_value dim pend k M)\<lparr>acc_row := (acc_row (aggregate_value dim pend k M))\<lparr>row_label :=
       Min ((\<lambda>t. snd (dimensionValue t dim)) ` set_mset (add_mset t M))\<rparr>\<rparr>"

lemma new_accumulator_labelled:
  assumes "aggregate_key dim t = k"
  shows "new_accumulator dim t = labelled_value dim pend k {#} t"
proof -
  have "fst k = (currency (trans_amount t), scale (trans_amount t))" "snd k = fst (dimensionValue t dim)"
    using assms by (auto simp: aggregate_key_def part_of_def)
  moreover have "activities dim {#} = fmempty"
    by (auto intro: fmap_ext simp: activities_def)
  ultimately show ?thesis
    by (simp add: new_accumulator_def labelled_value_def aggregate_value_def amount_of_0 group_label_def
        no_flags_def Let_def)
qed

lemma aggregate_step_value:
  assumes "aggregate_key dim t = k" and "aggregate_fits dim M"
  shows "result_option (aggregate_step dim pend (labelled_value dim pend k M t) t) =
    (if aggregate_fits dim (add_mset t M) then Some (aggregate_value dim pend k (add_mset t M)) else None)"
proof -
  let ?c = "cref_name (trans_category t)"
  define v where "v = labelled_value dim pend k M t"
  define w where "w = noteGroup (countTransaction v t pend) dim (cref_group (trans_category t))"
  note v = v_def[unfolded labelled_value_def]
  have fit: "totals_fit (total_in M) (total_out M)"
    and act: "dim = DimensionMerchant \<Longrightarrow> c \<in> active_categories M \<Longrightarrow> activity_total M c < 2 ^ 64" for c
    using assms(2) by (auto simp: aggregate_fits_def)
  have n: "dim = DimensionMerchant \<Longrightarrow> activity_total M c < 2 ^ 64" for c
    using act[of c] activity_total_outside[of c M] by (cases "c \<in> active_categories M") auto
  have acts: "acc_activities v = activities dim M" by (simp add: v aggregate_value_def)
  have vrow: "row_in (acc_row v) = amount_of (fst k) (total_in M)"
    "row_out (acc_row v) = amount_of (fst k) (total_out M)"
    "row_total (acc_row v) = amount_of (fst k) (total_in M + total_out M)"
    by (simp_all add: v aggregate_value_def)
  have known: "activity_of (acc_activities v) ?c = of_nat (activity_total M ?c) \<and> activity_total M ?c < 2 ^ 64"
    if "dim = DimensionMerchant"
    using n[OF that] that by (simp add: acts activity_of_activities)
  have wv: "w = v\<lparr>acc_row := (acc_row v)\<lparr>row_group := group_label dim (add_mset t M),
      row_count := int (size (add_mset t M)),
      row_flags := \<lparr>flag_selected = False, flag_hidden = False,
        flag_pending = pend \<and> (\<exists>t\<in>#add_mset t M. trans_pending t)\<rparr>\<rparr>,
      acc_hidden := int (size (filter_mset trans_hidden (add_mset t M)))\<rparr>"
    by (auto simp: w_def v noteGroup_def countTransaction_def aggregate_value_def group_label_add Let_def)
  have fits: "aggregate_fits dim (add_mset t M) \<longleftrightarrow> (if trans_hidden t then True
      else totals_fit (total_in M + tx_in t) (total_out M + tx_out t) \<and> (dim = DimensionMerchant \<longrightarrow>
        activity_total M ?c + nat \<bar>sint (minor (trans_amount t))\<bar> < 2 ^ 64))"
    using fit n by (auto simp: aggregate_fits_def add.commute tx_in_def tx_out_def)
  have step: "result_option (aggregate_step dim pend v t) =
    (if trans_hidden t then Some w
     else if totals_fit (total_in M + tx_in t) (total_out M + tx_out t)
       \<and> (dim = DimensionMerchant \<longrightarrow> activity_total M ?c + nat \<bar>sint (minor (trans_amount t))\<bar> < 2 ^ 64)
     then Some (w\<lparr>acc_row := (acc_row w)\<lparr>row_in := amount_of (fst k) (total_in M + tx_in t),
         row_out := amount_of (fst k) (total_out M + tx_out t),
         row_total := amount_of (fst k) (total_in M + tx_in t + (total_out M + tx_out t))\<rparr>,
       acc_activities := (if dim = DimensionMerchant
         then fmupd ?c (of_nat (activity_total M ?c + nat \<bar>sint (minor (trans_amount t))\<bar>))
           (acc_activities w) else acc_activities w)\<rparr>)
     else None)"
    by (rule step_core[OF assms(1) vrow total_bounds fit known w_def])
  show ?thesis
  proof (cases "trans_hidden t")
    case True
    then have "w = aggregate_value dim pend k (add_mset t M)"
      by (simp add: wv v aggregate_value_def activities_hidden tx_in_def tx_out_def)
    with True step fits show ?thesis by (simp add: v_def)
  next
    case False
    have "activities dim (add_mset t M) = (if dim = DimensionMerchant
         then fmupd ?c (of_nat (activity_total M ?c + nat \<bar>sint (minor (trans_amount t))\<bar>)) (activities dim M)
         else activities dim M)"
      using activities_add[OF False] by (auto simp: activities_def)
    then have "w\<lparr>acc_row := (acc_row w)\<lparr>row_in := amount_of (fst k) (total_in M + tx_in t),
         row_out := amount_of (fst k) (total_out M + tx_out t),
         row_total := amount_of (fst k) (total_in M + tx_in t + (total_out M + tx_out t))\<rparr>,
       acc_activities := (if dim = DimensionMerchant
         then fmupd ?c (of_nat (activity_total M ?c + nat \<bar>sint (minor (trans_amount t))\<bar>))
           (acc_activities w) else acc_activities w)\<rparr> = aggregate_value dim pend k (add_mset t M)"
      using False by (simp add: wv v aggregate_value_def algebra_simps)
    with False step fits show ?thesis by (simp add: v_def)
  qed
qed

interpretation aggregates: incremental_accumulation "aggregate_key dim" "new_accumulator dim" "note_label dim"
  "aggregate_step dim pend" "\<lambda>_. True" "\<lambda>_. aggregate_fits dim" "aggregate_value dim pend" for dim pend
proof
  fix t k
  assume "aggregate_key dim t = k"
  moreover have "aggregate_fits dim {#}" by (simp add: aggregate_fits_def totals_fit_def)
  ultimately show "result_option (aggregate_step dim pend (new_accumulator dim t) t) =
      (if aggregate_fits dim {#t#} then Some (aggregate_value dim pend k {#t#}) else None)"
    using aggregate_step_value[of dim t k "{#}" pend] new_accumulator_labelled[of dim t k pend] by simp
next
  fix t k M
  assume "aggregate_key dim t = k" "M \<noteq> {#}" "aggregate_fits dim M"
  then show "result_option (aggregate_step dim pend (note_label dim (aggregate_value dim pend k M) t) t) =
      (if aggregate_fits dim (add_mset t M) then Some (aggregate_value dim pend k (add_mset t M)) else None)"
    using aggregate_step_value[of dim t k M pend]
    by (simp only: note_label_value labelled_value_def simp_thms)
next
  fix k t M
  assume fits: "aggregate_fits dim (add_mset t M)"
  then have "totals_fit (total_in M) (total_out M)"
    using tx_bounds[of t] unfolding aggregate_fits_def totals_fit_def total_simps by linarith
  moreover have "activity_total M c < 2 ^ 64" if "dim = DimensionMerchant" "c \<in> active_categories M" for c
  proof -
    have "activity_total M c \<le> activity_total (add_mset t M) c" by simp
    moreover have "activity_total (add_mset t M) c < 2 ^ 64"
      using fits that unfolding aggregate_fits_def active_categories_add by auto
    ultimately show ?thesis by (rule le_less_trans)
  qed
  ultimately show "aggregate_fits dim M" by (simp only: aggregate_fits_def) blast
qed

subsection \<open>The top category of a merchant\<close>

lemma fold_activity_total:
  "fold_result (\<lambda>total c. if max_uint64 - total < activity_of m c then Inl e else Inr (total + activity_of m c)) s cs =
    (if unat s + (\<Sum>c\<leftarrow>cs. unat (activity_of m c)) < 2 ^ 64
     then Inr (s + of_nat (\<Sum>c\<leftarrow>cs. unat (activity_of m c))) else Inl e)"
proof (induction cs arbitrary: s)
  case Nil
  then show ?case using unat_upper[of s] by simp
next
  case (Cons c cs)
  let ?a = "activity_of m c"
  show ?case
  proof (cases "unat s + unat ?a < 2 ^ 64")
    case True
    then have "unat (s + ?a) = unat s + unat ?a" by (rule unat_plus_no_overflow)
    with True Cons.IH[of "s + ?a"] show ?thesis
      unfolding fold_result.simps uint64_room by (simp add: not_le add.assoc)
  next
    case False
    then show ?thesis unfolding fold_result.simps uint64_room by simp
  qed
qed

definition pick_top :: "(string \<Rightarrow> uint64) \<Rightarrow> string \<Rightarrow> string \<Rightarrow> string" where
  "pick_top f best c = (if best = '''' \<or> f best < f c then c else best)"

lemma pick_top_max:
  assumes "sorted_wrt (<) cs" and "'''' \<notin> set cs" and "cs \<noteq> []"
  shows "foldl (pick_top f) '''' cs \<in> set cs
    \<and> (\<forall>c\<in>set cs. f c \<le> f (foldl (pick_top f) '''' cs)
        \<and> (f c = f (foldl (pick_top f) '''' cs) \<longrightarrow> foldl (pick_top f) '''' cs \<le> c))"
  using assms
proof (induction cs rule: rev_induct)
  case Nil
  then show ?case by simp
next
  case (snoc c cs)
  show ?case
  proof (cases "cs = []")
    case True
    with snoc.prems show ?thesis by (simp add: pick_top_def)
  next
    case False
    define best where "best = foldl (pick_top f) '''' cs"
    have IH: "best \<in> set cs" "\<And>d. d \<in> set cs \<Longrightarrow> f d \<le> f best" "\<And>d. d \<in> set cs \<Longrightarrow> f d = f best \<Longrightarrow> best \<le> d"
      using snoc False by (auto simp: sorted_wrt_append best_def)
    have ne: "best \<noteq> ''''" using IH(1) snoc.prems(2) by auto
    have lt: "d < c" if "d \<in> set cs" for d using snoc.prems(1) that by (simp add: sorted_wrt_append)
    have fold: "foldl (pick_top f) '''' (cs @ [c]) = (if f best < f c then c else best)"
      using ne by (simp add: pick_top_def best_def)
    show ?thesis
    proof (cases "f best < f c")
      case True
      then have "d \<in> set cs \<Longrightarrow> f d < f c" for d using IH(2)[of d] by simp
      then have "d \<in> set cs \<Longrightarrow> f d \<le> f c \<and> f d \<noteq> f c" for d by (simp add: order_less_le)
      with True fold show ?thesis by simp
    next
      case False
      then show ?thesis using fold IH lt[OF IH(1)] by (auto simp: not_less)
    qed
  qed
qed

lemma setTopCategory_cases:
  assumes "setTopCategory v = Inr w"
  obtains x y where "w = v\<lparr>acc_row := (acc_row v)\<lparr>row_top_category := x, row_top_percent := y\<rparr>\<rparr>"
proof (cases "w = v")
  case True
  then show thesis by (intro that[where x = "row_top_category (acc_row v)" and y = "row_top_percent (acc_row v)"]) simp
next
  case False
  with assms that show thesis by (auto simp: setTopCategory_def Let_def bind_result_Inr split: if_splits)
qed

definition activity_sum :: "accumulator \<Rightarrow> nat" where
  "activity_sum v = (\<Sum>c\<leftarrow>sorted_list_of_fset (fmdom (acc_activities v)). unat (activity_of (acc_activities v) c))"

text \<open>
  The top category among the categories with activity: the one with the greatest activity and the
  first by name among equals.  The empty name, which no valid profile has, loses to any other.
\<close>

definition top_choice :: "(string \<Rightarrow> nat) \<Rightarrow> string set \<Rightarrow> string \<Rightarrow> bool" where
  "top_choice activity names best \<longleftrightarrow>
     (if names \<subseteq> {''''} then best = ''''
      else best \<in> names - {''''} \<and> (\<forall>c\<in>names - {''''}. activity c \<le> activity best
        \<and> (activity c = activity best \<longrightarrow> best \<le> c)))"

lemma pick_top_choice:
  assumes "sorted_wrt (<) cs" and "cs \<noteq> []"
  shows "foldl (pick_top f) '''' cs \<in> set cs \<and> top_choice (\<lambda>c. unat (f c)) (set cs) (foldl (pick_top f) '''' cs)"
proof (cases "hd cs = ''''")
  case False
  then have "'''' \<notin> set cs" using assms by (cases cs) auto
  moreover from this have "\<not> set cs \<subseteq> {''''}" using assms(2) by (cases cs) auto
  ultimately show ?thesis
    using pick_top_max[OF assms(1), of f] assms(2) by (auto simp: top_choice_def word_le_nat_alt word_unat_eq_iff)
next
  case True
  then obtain ds where cs: "cs = '''' # ds" using assms(2) by (cases cs) auto
  have ds: "sorted_wrt (<) ds" "'''' \<notin> set ds" using assms(1) by (auto simp: cs)
  have fold: "foldl (pick_top f) '''' cs = foldl (pick_top f) '''' ds" by (simp add: cs pick_top_def)
  show ?thesis
  proof (cases "ds = []")
    case True
    then show ?thesis by (simp add: cs pick_top_def top_choice_def)
  next
    case False
    then have "\<not> set cs \<subseteq> {''''}" using ds(2) by (cases ds) (auto simp: cs)
    moreover have "set cs - {''''} = set ds" using ds(2) by (auto simp: cs)
    ultimately show ?thesis
      using pick_top_max[OF ds False, of f] ds(2) unfolding fold
      by (auto simp: top_choice_def word_le_nat_alt word_unat_eq_iff cs)
  qed
qed

text \<open>
  For every merchant the top category is that choice, and its percentage is its exact share in the
  merchant's activity, rounded half up and at most 100; \<open>setTopCategory\<close> fails only when the
  activity of all categories together exceeds an \<open>uint64\<close>.
\<close>

lemma setTopCategory_exact:
  assumes "row_top_category (acc_row v) = ''''"
  shows "case setTopCategory v of
      Inl _ \<Rightarrow> 2 ^ 64 \<le> activity_sum v
    | Inr w \<Rightarrow> activity_sum v < 2 ^ 64 \<and> (if activity_sum v = 0 then w = v else
        let best = row_top_category (acc_row w) in
        top_choice (\<lambda>c. unat (activity_of (acc_activities v) c)) (fset (fmdom (acc_activities v))) best
        \<and> row_top_percent (acc_row w) = int (half_up (unat (activity_of (acc_activities v) best)) (activity_sum v) 100)
        \<and> row_top_percent (acc_row w) \<le> 100)"
proof -
  let ?m = "acc_activities v" and ?cs = "sorted_list_of_fset (fmdom (acc_activities v))"
  define f where "f = activity_of ?m"
  define best where "best = foldl (pick_top f) '''' ?cs"
  have sorted: "sorted_wrt (<) ?cs"
    by (simp add: sorted_list_of_fset.rep_eq strict_sorted_list_of_set)
  have set: "set ?cs = fset (fmdom ?m)" by simp
  have code: "setTopCategory v = (if activity_sum v < 2 ^ 64 then
      (if (of_nat (activity_sum v) :: uint64) = 0 then Inr v
       else bind_result (map_error (AggregateTopCategory (row_label (acc_row v)))
          (ratioHalfUp (f best) (of_nat (activity_sum v)) 100))
          (\<lambda>percentage. Inr (v\<lparr>acc_row := (acc_row v)\<lparr>row_top_category := best, row_top_percent := percentage\<rparr>\<rparr>)))
     else Inl (AggregateTotalActivity (row_label (acc_row v))))"
    unfolding setTopCategory_def Let_def fold_activity_total assms f_def best_def pick_top_def activity_sum_def
    by simp
  show ?thesis
  proof (cases "activity_sum v < 2 ^ 64")
    case False
    with code show ?thesis by simp
  next
    case True
    then have un: "unat (of_nat (activity_sum v) :: uint64) = activity_sum v" by (rule unat_of_nat_small)
    then have zero: "(of_nat (activity_sum v) :: uint64) = 0 \<longleftrightarrow> activity_sum v = 0" by (metis unat_0 unat_eq_zero)
    show ?thesis
    proof (cases "activity_sum v = 0")
      case True
      with code zero show ?thesis by simp
    next
      case False
      then have "?cs \<noteq> []" unfolding activity_sum_def by (metis list.map(1) sum_list.Nil)
      then have T: "best \<in> set ?cs" "top_choice (\<lambda>c. unat (f c)) (fset (fmdom ?m)) best"
        using pick_top_choice[OF sorted, of f] unfolding set best_def by simp_all
      have "unat (f best) \<le> activity_sum v"
        unfolding activity_sum_def f_def[symmetric] using T(1) by (intro member_le_sum_list) auto
      then have "f best \<le> of_nat (activity_sum v)" by (simp only: word_le_nat_alt un)
      moreover have "(of_nat (activity_sum v) :: uint64) \<noteq> 0" using zero False by simp
      ultimately have ratio: "ratioHalfUp (f best) (of_nat (activity_sum v)) 100 = Inr (int (half_up (unat (f best)) (activity_sum v) 100))
          \<and> half_up (unat (f best)) (activity_sum v) 100 \<le> 100"
        using ratioHalfUp_share[of "f best" "of_nat (activity_sum v)" 100] by (simp add: un)
      show ?thesis
        using code True False zero ratio T(2) by (simp add: f_def Let_def)
    qed
  qed
qed

subsection \<open>The rows\<close>

lemma map_result_Inr_mset:
  assumes "map_result f xs = Inr rs" and "mset xs = mset ys"
  shows "\<exists>ss. map_result f ys = Inr ss \<and> mset ss = mset rs"
proof -
  define g where "g x = (case f x of Inr r \<Rightarrow> r)" for x
  have "list_all2 (\<lambda>x r. f x = Inr r) xs rs" using assms(1) by (simp add: map_result_Inr)
  then have g: "\<forall>x\<in>set xs. f x = Inr (g x)"
    by (induction rule: list_all2_induct) (simp_all add: g_def)
  have "map_result f xs = Inr (map g xs)" using g by (intro map_result_total) auto
  moreover have "map_result f ys = Inr (map g ys)"
    using g mset_eq_setD[OF assms(2)] by (intro map_result_total) auto
  ultimately show ?thesis using assms by auto
qed

text \<open>The columns of a row that shares and top categories leave alone.\<close>

definition row_core :: "aggregate_row \<Rightarrow> aggregate_row" where
  "row_core row = row\<lparr>row_top_category := '''', row_top_percent := 0, row_share_tenths := 0\<rparr>"

lemma row_core_sel [simp]:
  "row_identity (row_core a) = row_identity a" "row_count (row_core a) = row_count a"
  "row_in (row_core a) = row_in a" "row_out (row_core a) = row_out a" "row_total (row_core a) = row_total a"
  "row_label (row_core a) = row_label a" "row_group (row_core a) = row_group a"
  "row_flags (row_core a) = row_flags a" "row_key (row_core a) = row_key a"
  by (simp_all add: row_core_def row_identity_def)

lemma row_core_with_share [simp]: "row_core (with_share M row) = row_core row"
  by (simp add: row_core_def with_share_def Let_def)

lemma finish_accumulator_core:
  assumes "finish_accumulator dim v = Inr row"
  shows "row_core row = row_core (finishedRow v)"
proof (cases "dim = DimensionMerchant")
  case True
  then obtain w where w: "setTopCategory v = Inr w" "row = finishedRow w"
    using assms by (auto simp: finish_accumulator_def bind_result_Inr)
  obtain x y where "w = v\<lparr>acc_row := (acc_row v)\<lparr>row_top_category := x, row_top_percent := y\<rparr>\<rparr>"
    by (rule setTopCategory_cases[OF w(1)])
  with w(2) show ?thesis by (simp add: row_core_def finishedRow_def Let_def)
next
  case False
  with assms show ?thesis by (simp add: finish_accumulator_def)
qed

lemma finish_accumulator_share:
  assumes "finish_accumulator dim v = Inr row"
  shows "row_share_tenths row = row_share_tenths (acc_row v)"
proof (cases "dim = DimensionMerchant")
  case True
  then obtain w where w: "setTopCategory v = Inr w" "row = finishedRow w"
    using assms by (auto simp: finish_accumulator_def bind_result_Inr)
  obtain x y where "w = v\<lparr>acc_row := (acc_row v)\<lparr>row_top_category := x, row_top_percent := y\<rparr>\<rparr>"
    by (rule setTopCategory_cases[OF w(1)])
  with w(2) show ?thesis by (simp add: finishedRow_def Let_def)
next
  case False
  with assms show ?thesis by (auto simp: finish_accumulator_def finishedRow_def Let_def)
qed

text \<open>The row of a key: the exact figures of the transactions with that key.\<close>

definition with_key :: "dimension \<Rightarrow> aggregate_key \<Rightarrow> transaction list \<Rightarrow> transaction multiset" where
  "with_key dim k ts = mset (filter (\<lambda>t. aggregate_key dim t = k) ts)"

definition aggregate_spec :: "dimension \<Rightarrow> bool \<Rightarrow> transaction list \<Rightarrow> aggregate_key \<Rightarrow> aggregate_row" where
  "aggregate_spec dim pend ts k =
     (let M = with_key dim k ts in
      \<lparr>row_dimension = dim, row_key = snd k,
       row_label = Min ((\<lambda>t. snd (dimensionValue t dim)) ` set_mset M), row_group = group_label dim M,
       row_count = int (size M), row_in = amount_of (fst k) (total_in M),
       row_out = amount_of (fst k) (total_out M), row_total = amount_of (fst k) (total_in M + total_out M),
       row_period = None, row_top_category = '''', row_top_percent = 0, row_share_tenths = 0,
       row_flags = \<lparr>flag_selected = False, flag_hidden = M \<noteq> {#} \<and> (\<forall>t\<in>#M. trans_hidden t),
         flag_pending = pend \<and> (\<exists>t\<in>#M. trans_pending t)\<rparr>\<rparr>)"

text \<open>
  The share of a row: its net total in the income or in the expenses of its currency and scale, in
  tenths of a percent.  The function \<open>nat\<close> is zero on negative numbers.
\<close>

definition key_net :: "dimension \<Rightarrow> transaction list \<Rightarrow> aggregate_key \<Rightarrow> int" where
  "key_net dim ts k = total_in (with_key dim k ts) + total_out (with_key dim k ts)"

definition share_spec :: "dimension \<Rightarrow> transaction list \<Rightarrow> aggregate_key \<Rightarrow> int" where
  "share_spec dim ts k =
     (let net = key_net dim ts k;
          keys = {j \<in> aggregate_key dim ` set ts. fst j = fst k};
          whole = (if 0 < net then \<Sum>j\<in>keys. nat (key_net dim ts j) else \<Sum>j\<in>keys. nat (- key_net dim ts j))
      in if net = 0 then 0 else int (half_up (nat \<bar>net\<bar>) whole 1000))"

text \<open>The top category of a merchant and its percentage, from the activity of the visible transactions.\<close>

definition top_spec :: "dimension \<Rightarrow> transaction multiset \<Rightarrow> string \<Rightarrow> int \<Rightarrow> bool" where
  "top_spec dim M best percent \<longleftrightarrow>
     (let total = \<Sum>c\<in>active_categories M. activity_total M c in
      if dim \<noteq> DimensionMerchant \<or> total = 0 then best = '''' \<and> percent = 0
      else top_choice (activity_total M) (active_categories M) best
        \<and> percent = int (half_up (activity_total M best) total 100))"

lemma finish_accumulator_top:
  assumes "finish_accumulator dim (aggregate_value dim pend k M) = Inr row" and "aggregate_fits dim M"
  shows "top_spec dim M (row_top_category row) (row_top_percent row)"
proof (cases "dim = DimensionMerchant")
  case False
  with assms(1) show ?thesis
    by (auto simp: top_spec_def finish_accumulator_def finishedRow_def aggregate_value_def Let_def)
next
  case True
  let ?v = "aggregate_value dim pend k M"
  obtain w where w: "setTopCategory ?v = Inr w" and row: "row = finishedRow w"
    using assms(1) True by (auto simp: finish_accumulator_def bind_result_Inr)
  have acts: "acc_activities ?v = activities DimensionMerchant M" by (simp add: aggregate_value_def True)
  have "activity_total M c < 2 ^ 64" for c
    using assms(2) True activity_total_outside[of c M] by (cases "c \<in> active_categories M") (auto simp: aggregate_fits_def)
  then have un: "unat (activity_of (acc_activities ?v) c) = activity_total M c" for c
    unfolding acts activity_of_activities by (rule unat_of_nat_small)
  have dom: "fset (fmdom (acc_activities ?v)) = active_categories M"
    unfolding acts by (auto simp: fmdom'.rep_eq[symmetric] fmdom'_alt_def[symmetric] fmlookup_dom'_iff fmlookup_activities split: if_splits)
  have sum: "activity_sum ?v = (\<Sum>c\<in>active_categories M. activity_total M c)"
    unfolding activity_sum_def un sorted_list_of_fset.rep_eq dom
    by (simp add: sum_list_distinct_conv_sum_set)
  have top: "row_top_category row = row_top_category (acc_row w)" "row_top_percent row = row_top_percent (acc_row w)"
    by (simp_all add: row finishedRow_def Let_def)
  have start: "row_top_category (acc_row ?v) = ''''" "row_top_percent (acc_row ?v) = 0"
    by (simp_all add: aggregate_value_def)
  show ?thesis
    using setTopCategory_exact[OF start(1)] start True
    unfolding w sum.case top top_spec_def un dom sum Let_def by (auto split: if_splits)
qed

lemma size_filter_all: "size (filter_mset P M) = size M \<longleftrightarrow> (\<forall>x\<in>#M. P x)"
proof -
  have "size M = size (filter_mset P M) + size (filter_mset (\<lambda>x. \<not> P x) M)"
    by (metis multiset_partition size_union)
  then have "size (filter_mset P M) = size M \<longleftrightarrow> filter_mset (\<lambda>x. \<not> P x) M = {#}" by auto
  then show ?thesis by (simp add: filter_mset_eq_mempty_iff Ball_def)
qed

lemma finishedRow_value:
  "row_core (finishedRow (aggregate_value dim pend k (with_key dim k ts))) = aggregate_spec dim pend ts k"
  by (simp add: finishedRow_def aggregate_value_def aggregate_spec_def row_core_def Let_def size_filter_all
      nonempty_has_size conj_commute)

lemma aggregate_spec_identity [simp]: "row_identity (aggregate_spec dim pend ts k) = k"
  by (simp add: row_identity_def aggregate_spec_def amount_of_def Let_def)

lemma aggregate_table_run: "aggregate_table dim pend ts = aggregates.run dim pend ts"
  by (simp add: aggregate_table_def aggregates.run_def)

lemma base_rows:
  assumes "aggregate_table dim pend ts = Inr m" and "map_result (finish_accumulator dim) (map snd m) = Inr base"
  shows "map row_identity base = map fst m"
    and "\<forall>row\<in>set base. row_core row = aggregate_spec dim pend ts (row_identity row)"
    and "\<forall>row\<in>set base. row_share_tenths row = 0
      \<and> sint (minor (row_total row)) = key_net dim ts (row_identity row)
      \<and> top_spec dim (with_key dim (row_identity row) ts) (row_top_category row) (row_top_percent row)"
proof -
  note e = aggregates.run_entries(2)[OF _ assms(1)[unfolded aggregate_table_run], simplified]
  have "list_all2 (\<lambda>v r. finish_accumulator dim v = Inr r) (map snd m) base"
    using assms(2) by (simp add: map_result_Inr)
  then have len: "length base = length m"
    and fin: "i < length m \<Longrightarrow> finish_accumulator dim (snd (m ! i)) = Inr (base ! i)" for i
    by (auto simp: list_all2_conv_all_nth)
  have core: "row_core (base ! i) = aggregate_spec dim pend ts (fst (m ! i))" if i: "i < length m" for i
  proof -
    have "(fst (m ! i), snd (m ! i)) \<in> set m" using i by simp
    then have "snd (m ! i) = aggregate_value dim pend (fst (m ! i)) (with_key dim (fst (m ! i)) ts)"
      unfolding e by (auto simp: with_key_def split: if_splits)
    then show ?thesis using finish_accumulator_core[OF fin[OF i]] finishedRow_value by metis
  qed
  have ident: "row_identity (base ! i) = fst (m ! i)" if "i < length m" for i
    using arg_cong[OF core[OF that], of row_identity] by simp
  have entry: "snd (m ! i) = aggregate_value dim pend (fst (m ! i)) (with_key dim (fst (m ! i)) ts)
      \<and> aggregate_fits dim (with_key dim (fst (m ! i)) ts)" if i: "i < length m" for i
  proof -
    have "(fst (m ! i), snd (m ! i)) \<in> set m" using i by simp
    then show ?thesis unfolding e by (auto simp: with_key_def split: if_splits)
  qed
  have rest: "row_share_tenths (base ! i) = 0
      \<and> sint (minor (row_total (base ! i))) = key_net dim ts (fst (m ! i))
      \<and> top_spec dim (with_key dim (fst (m ! i)) ts) (row_top_category (base ! i)) (row_top_percent (base ! i))"
    if i: "i < length m" for i
  proof (intro conjI)
    note v = entry[OF i] and f = fin[OF i]
    show "row_share_tenths (base ! i) = 0"
      using finish_accumulator_share[OF f] v by (simp add: aggregate_value_def)
    show "top_spec dim (with_key dim (fst (m ! i)) ts) (row_top_category (base ! i)) (row_top_percent (base ! i))"
      by (rule finish_accumulator_top) (use v f in auto)
    have "row_total (base ! i) = amount_of (fst (fst (m ! i))) (key_net dim ts (fst (m ! i)))"
      using arg_cong[OF core[OF i], of row_total] by (simp add: aggregate_spec_def key_net_def Let_def)
    moreover have "in_int64 (key_net dim ts (fst (m ! i)))"
      using v unfolding aggregate_fits_def key_net_def by (intro totals_fit_sum) simp_all
    ultimately show "sint (minor (row_total (base ! i))) = key_net dim ts (fst (m ! i))"
      by (simp add: amount_of_def sint_of_int)
  qed
  show "\<forall>row\<in>set base. row_share_tenths row = 0
      \<and> sint (minor (row_total row)) = key_net dim ts (row_identity row)
      \<and> top_spec dim (with_key dim (row_identity row) ts) (row_top_category row) (row_top_percent row)"
  proof
    fix row assume "row \<in> set base"
    then obtain i where "i < length m" "row = base ! i" using len by (auto simp: in_set_conv_nth)
    then show "row_share_tenths row = 0 \<and> sint (minor (row_total row)) = key_net dim ts (row_identity row)
      \<and> top_spec dim (with_key dim (row_identity row) ts) (row_top_category row) (row_top_percent row)"
      using rest ident by simp
  qed
  show "map row_identity base = map fst m" using len ident by (intro nth_equalityI) simp_all
  show "\<forall>row\<in>set base. row_core row = aggregate_spec dim pend ts (row_identity row)"
  proof
    fix row assume "row \<in> set base"
    then obtain i where "i < length m" "row = base ! i" using len by (auto simp: in_set_conv_nth)
    then show "row_core row = aggregate_spec dim pend ts (row_identity row)" using core ident by simp
  qed
qed

lemma aggregate_rows_Inr:
  assumes "aggregate_rows dim pend ts = Inr rows"
  obtains m base where "aggregate_table dim pend ts = Inr m"
    and "map_result (finish_accumulator dim) (map snd m) = Inr base" and "shares_fit (mset base)"
    and "rows = sortBaseRows (map (with_share (mset base)) base)"
  using assms by (auto simp: aggregate_rows_def bind_result_Inr applyShares_Inr)

lemma map_identity_core: "map row_identity (map (with_share M) base) = map row_identity base"
proof -
  have "row_identity (with_share M row) = row_identity row" for row
    by (metis row_core_sel(1) row_core_with_share)
  then show ?thesis by simp
qed

lemma partition_sums:
  assumes "distinct (map row_identity base)" and "\<forall>row\<in>set base. row_value row = h (row_identity row)"
  shows "income_total (rows_of p (mset base)) = (\<Sum>j\<in>{j \<in> row_identity ` set base. fst j = p}. nat (h j))"
    and "expense_total (rows_of p (mset base)) = (\<Sum>j\<in>{j \<in> row_identity ` set base. fst j = p}. nat (- h j))"
  using assms
proof (induction base)
  case Nil
  case 1 show ?case by (simp add: rows_of_def)
  case 2 show ?case by (simp add: rows_of_def)
next
  case (Cons row base)
  let ?J = "{j \<in> row_identity ` set base. fst j = p}"
  have part: "row_part row = fst (row_identity row)" by (simp add: row_part_def row_identity_def)
  have J: "{j \<in> row_identity ` set (row # base). fst j = p}
      = (if row_part row = p then insert (row_identity row) ?J else ?J)"
    unfolding part by auto
  have new: "row_identity row \<notin> ?J" if "distinct (map row_identity (row # base))" using that by auto
  case 1
  then show ?case using Cons.IH(1) new unfolding J by (simp add: rows_of_def)
  case 2
  then show ?case using Cons.IH(2) new unfolding J by (simp add: rows_of_def)
qed

lemma with_share_spec:
  assumes "distinct (map row_identity base)" and "row_identity ` set base = aggregate_key dim ` set ts"
    and rows: "\<forall>row\<in>set base. row_share_tenths row = 0 \<and> sint (minor (row_total row)) = key_net dim ts (row_identity row)"
    and x: "x \<in> set base"
  shows "row_share_tenths (with_share (mset base) x) = share_spec dim ts (row_identity x)"
proof -
  have net: "\<forall>row\<in>set base. row_value row = key_net dim ts (row_identity row)" using rows by (simp add: row_value_def)
  have part: "row_part x = fst (row_identity x)" by (simp add: row_part_def row_identity_def)
  show ?thesis
    unfolding with_share_def share_spec_def Let_def partition_sums[OF assms(1) net] assms(2) part
    using net rows x by simp
qed

lemma aggregate_rows_spec:
  assumes "aggregate_rows dim pend ts = Inr rows"
  shows "distinct (map row_identity rows)"
    and "row_identity ` set rows = aggregate_key dim ` set ts"
    and "\<forall>row\<in>set rows. row_core row = aggregate_spec dim pend ts (row_identity row)"
    and "\<forall>row\<in>set rows. row_share_tenths row = share_spec dim ts (row_identity row)
      \<and> top_spec dim (with_key dim (row_identity row) ts) (row_top_category row) (row_top_percent row)"
proof -
  obtain m base where t: "aggregate_table dim pend ts = Inr m"
    and b: "map_result (finish_accumulator dim) (map snd m) = Inr base"
    and r: "rows = sortBaseRows (map (with_share (mset base)) base)"
    using aggregate_rows_Inr[OF assms] by blast
  note run = t[unfolded aggregate_table_run]
  note base = base_rows[OF t b]
  have set: "set rows = with_share (mset base) ` set base" by (simp add: r sortBaseRows_def SortAggregateRows_def)
  have mr: "mset rows = mset (map (with_share (mset base)) base)"
    by (simp add: r sortBaseRows_def SortAggregateRows_def)
  have "mset (map row_identity rows) = mset (map row_identity (map (with_share (mset base)) base))"
    by (simp only: mset_map mr)
  then have "mset (map row_identity rows) = mset (map fst m)" by (simp only: map_identity_core base(1))
  moreover have "distinct (map fst m)" by (rule aggregates.run_entries(1)[OF _ run]) simp
  ultimately show "distinct (map row_identity rows)" by (metis mset_eq_imp_distinct_iff)
  have "row_identity ` set rows = set (map row_identity (map (with_share (mset base)) base))"
    by (simp only: set set_map)
  also have "\<dots> = fst ` set m" unfolding map_identity_core base(1) by simp
  also have "\<dots> = aggregate_key dim ` set ts" by (rule aggregates.run_keys[OF _ run]) simp
  finally show "row_identity ` set rows = aggregate_key dim ` set ts" .
  show "\<forall>row\<in>set rows. row_core row = aggregate_spec dim pend ts (row_identity row)"
  proof
    fix row assume "row \<in> set rows"
    then obtain x where x: "x \<in> set base" "row = with_share (mset base) x" using set by auto
    have c: "row_core row = row_core x" by (simp add: x)
    have "row_identity row = row_identity x" using arg_cong[OF c, of row_identity] by simp
    with c base(2) x(1) show "row_core row = aggregate_spec dim pend ts (row_identity row)" by simp
  qed
  have d: "distinct (map row_identity base)" unfolding base(1) by (rule aggregates.run_entries(1)[OF _ run]) simp
  have ids: "row_identity ` set base = aggregate_key dim ` set ts"
  proof -
    have "row_identity ` set base = fst ` set m" by (simp only: set_map[symmetric] base(1))
    also have "\<dots> = aggregate_key dim ` set ts" by (rule aggregates.run_keys[OF _ run]) simp
    finally show ?thesis .
  qed
  show "\<forall>row\<in>set rows. row_share_tenths row = share_spec dim ts (row_identity row)
      \<and> top_spec dim (with_key dim (row_identity row) ts) (row_top_category row) (row_top_percent row)"
  proof
    fix row assume "row \<in> set rows"
    then obtain x where x: "x \<in> set base" "row = with_share (mset base) x" using set by auto
    have same: "row_identity row = row_identity x" "row_top_category row = row_top_category x"
      "row_top_percent row = row_top_percent x"
      by (simp_all add: x(2) with_share_def row_identity_def Let_def)
    show "row_share_tenths row = share_spec dim ts (row_identity row)
      \<and> top_spec dim (with_key dim (row_identity row) ts) (row_top_category row) (row_top_percent row)"
      unfolding same using with_share_spec[OF d ids _ x(1)] base(3) x by simp
  qed
qed

lemma aggregate_rows_permuted:
  assumes "aggregate_rows dim pend ts = Inr rows" and "mset us = mset ts"
  shows "aggregate_rows dim pend us = Inr rows"
proof -
  obtain m base where t: "aggregate_table dim pend ts = Inr m"
    and b: "map_result (finish_accumulator dim) (map snd m) = Inr base" and f: "shares_fit (mset base)"
    and r: "rows = sortBaseRows (map (with_share (mset base)) base)"
    using aggregate_rows_Inr[OF assms(1)] by blast
  have "is_ok (aggregates.run dim pend us)"
    using aggregates.run_permuted(1)[of ts us dim pend] assms(2) t by (simp add: aggregate_table_run)
  then obtain n where n: "aggregate_table dim pend us = Inr n" by (auto simp: is_ok_iff aggregate_table_run)
  have "mset m = mset n"
    using aggregates.run_permuted(2)[of ts us dim pend m n] assms(2) t n by (simp add: aggregate_table_run)
  then have "mset (map snd m) = mset (map snd n)" by simp
  from map_result_Inr_mset[OF b this] obtain base' where b': "map_result (finish_accumulator dim) (map snd n) = Inr base'"
    and mb: "mset base' = mset base" by blast
  have "sortBaseRows (map (with_share (mset base')) base') = rows"
    unfolding r mb sortBaseRows_def
  proof (rule SortAggregateRows_unique)
    show "mset (map (with_share (mset base)) base') = mset (map (with_share (mset base)) base)"
      using mb by simp
    have "distinct (map row_identity base')"
      using base_rows(1)[OF n b'] aggregates.run_entries(1)[of us dim pend n] n by (simp add: aggregate_table_run)
    then show "distinct (map row_identity (map (with_share (mset base)) base'))"
      by (simp only: map_identity_core)
  qed
  with f mb show ?thesis by (simp add: aggregate_rows_def n b' applyShares_Inr bind_result_Inr)
qed

text \<open>
  C11. \<open>Aggregate\<close> over merchants, categories, groups or accounts returns exactly one row for every
  currency, scale and key of the transactions.  Each row has the number of its transactions, the
  exact income, expense and net totals of the visible ones, the least of their labels and group
  labels, and its hidden and pending flags.  Its share is its net total in the income or the
  expenses of its currency and scale, in tenths of a percent rounded half up.  A merchant's top
  category is the one with the greatest visible activity, the first by name among equals, with its
  percentage of the merchant's activity rounded half up; other rows have none.  The rows do not
  depend on the order of the transactions, nor on the order in which the map of accumulators is
  walked.
\<close>

theorem Aggregate_exact:
  assumes "aggregate_rows dim pend ts = Inr rows"
  shows "distinct (map row_identity rows)
    \<and> row_identity ` set rows = aggregate_key dim ` set ts
    \<and> (\<forall>row\<in>set rows. row_core row = aggregate_spec dim pend ts (row_identity row)
        \<and> row_share_tenths row = share_spec dim ts (row_identity row)
        \<and> top_spec dim (with_key dim (row_identity row) ts) (row_top_category row) (row_top_percent row))
    \<and> (\<forall>us. mset us = mset ts \<longrightarrow> aggregate_rows dim pend us = Inr rows)"
  using aggregate_rows_spec[OF assms] aggregate_rows_permuted[OF assms] by blast

theorem Aggregate_exact_witness:
  "\<exists>rows. aggregate_rows DimensionCategory False example_txs = Inr rows
     \<and> aggregate_rows DimensionCategory False (rev example_txs) = Inr rows
     \<and> row_identity ` set rows = {((''USD'', 2), ''c1'')}"
proof -
  have "is_ok (aggregate_rows DimensionCategory False example_txs)"
    by (simp add: aggregate_rows_def aggregate_table_def accumulate_def aggregate_step_def countTransaction_def
        noteGroup_def addAmount_def money_add_def compatible_def add_overflows_def note_label_def
        new_accumulator_def aggregate_key_def part_of_def dimensionValue_def finish_accumulator_def
        finishedRow_def applyShares_def share_table_def shares_step_def set_share_def ratioHalfUp_eq half_up_def
        absMinor_def row_part_def word_sless_alt word_sle_eq max_int64_def min_int64_def max_uint64_def
        example_txs_def example_tx_def Let_def)
  then obtain rows where r: "aggregate_rows DimensionCategory False example_txs = Inr rows"
    by (auto simp: is_ok_iff)
  have "aggregate_key DimensionCategory ` set example_txs = {((''USD'', 2), ''c1'')}"
    by (simp add: example_txs_def example_tx_def aggregate_key_def part_of_def dimensionValue_def)
  with Aggregate_exact[OF r] r show ?thesis by (metis mset_rev)
qed

end
