(* ===== verification/Analytics_Time.thy ===== *)
theory Analytics_Time
  imports Analytics_Aggregate
begin

text \<open>
  \<open>aggregateTime\<close> of \<open>internal/analytics/aggregate.go\<close>: one row per period and partition from the
  first to the last transaction date, with the periods without transactions filled in unless the
  granularity is the day.
\<close>

definition ListsEmptyPeriods :: "time_granularity \<Rightarrow> bool" where
  "ListsEmptyPeriods g \<longleftrightarrow> g \<noteq> TimeGranularityDay"

definition EmptyTimeRow :: "period \<Rightarrow> money_partition \<Rightarrow> aggregate_row" where
  "EmptyTimeRow p scope =
     (let zero = \<lparr>minor = 0, currency = fst scope, scale = snd scope\<rparr> in
      \<lparr>row_dimension = DimensionTime, row_key = periodKey p, row_label = periodLabel p, row_group = '''',
       row_count = 0, row_in = zero, row_out = zero, row_total = zero, row_period = Some p,
       row_top_category = '''', row_top_percent = 0, row_share_tenths = 0, row_flags = no_flags\<rparr>)"

definition time_key :: "time_granularity \<Rightarrow> transaction \<Rightarrow> aggregate_key" where
  "time_key g t = (part_of t, periodKey (periodForDate (trans_date t) g))"

definition new_time_accumulator :: "time_granularity \<Rightarrow> transaction \<Rightarrow> accumulator" where
  "new_time_accumulator g t =
     \<lparr>acc_row = EmptyTimeRow (periodForDate (trans_date t) g) (part_of t), acc_activities = fmempty,
      acc_hidden = 0\<rparr>"

definition time_step ::
    "time_granularity \<Rightarrow> bool \<Rightarrow> accumulator \<Rightarrow> transaction \<Rightarrow> aggregate_error + accumulator" where
  "time_step g includePending v t =
     (let w = countTransaction v t includePending in
      if trans_hidden t then Inr w
      else map_error (AggregateTotal (periodKey (periodForDate (trans_date t) g))) (addAmount w (trans_amount t)))"

definition time_table ::
    "time_granularity \<Rightarrow> bool \<Rightarrow> transaction list \<Rightarrow> aggregate_error + (aggregate_key \<times> accumulator) list" where
  "time_table g includePending ts =
     fold_result (accumulate (time_key g) (new_time_accumulator g) (\<lambda>v _. v) (time_step g includePending)) [] ts"

definition earliest :: "date \<Rightarrow> date \<Rightarrow> date" where
  "earliest minimum d = (if date_compare d minimum < 0 then d else minimum)"

definition latest :: "date \<Rightarrow> date \<Rightarrow> date" where
  "latest maximum d = (if date_compare d maximum > 0 then d else maximum)"

definition time_rows ::
    "time_granularity \<Rightarrow> (aggregate_key \<times> accumulator) list \<Rightarrow> period list \<Rightarrow> money_partition list \<Rightarrow>
     aggregate_row list" where
  "time_rows g actual periods partitions =
     concat (map (\<lambda>p. concat (map (\<lambda>q. case map_of actual (q, periodKey p) of
         Some v \<Rightarrow> [finishedRow v]
       | None \<Rightarrow> if \<not> ListsEmptyPeriods g then [] else [EmptyTimeRow p q]) partitions)) periods)"

definition aggregateTime ::
    "transaction list \<Rightarrow> time_granularity \<Rightarrow> bool \<Rightarrow> aggregate_error + aggregate_row list" where
  "aggregateTime filtered g includePending =
     (case filtered of
        [] \<Rightarrow> Inr []
      | t # _ \<Rightarrow>
          let minimum = foldl (\<lambda>d t. earliest d (trans_date t)) (trans_date t) filtered;
              maximum = foldl (\<lambda>d t. latest d (trans_date t)) (trans_date t) filtered in
          bind_result (time_table g includePending filtered) (\<lambda>actual.
          bind_result (map_error AggregatePeriods (periodsBetween minimum maximum g)) (\<lambda>periods.
          applyShares (time_rows g actual periods (sortedPartitions (remdups (map part_of filtered)))))))"

subsection \<open>Accumulators of periods\<close>

definition period_of :: "time_granularity \<Rightarrow> transaction multiset \<Rightarrow> period" where
  "period_of g M = periodForDate (Min (trans_date ` set_mset M)) g"

definition time_value :: "time_granularity \<Rightarrow> bool \<Rightarrow> aggregate_key \<Rightarrow> period \<Rightarrow> transaction multiset \<Rightarrow> accumulator" where
  "time_value g pend k p M =
     \<lparr>acc_row = (EmptyTimeRow p (fst k))\<lparr>row_count := int (size M),
        row_in := amount_of (fst k) (total_in M), row_out := amount_of (fst k) (total_out M),
        row_total := amount_of (fst k) (total_in M + total_out M),
        row_flags := \<lparr>flag_selected = False, flag_hidden = False,
          flag_pending = pend \<and> (\<exists>t\<in>#M. trans_pending t)\<rparr>\<rparr>,
      acc_activities = fmempty, acc_hidden = int (size (filter_mset trans_hidden M))\<rparr>"

lemma time_step_value:
  assumes "part_of t = fst k" and "totals_fit (total_in M) (total_out M)"
  shows "result_option (time_step g pend (time_value g pend k p M) t) =
    (if totals_fit (total_in (add_mset t M)) (total_out (add_mset t M))
     then Some (time_value g pend k p (add_mset t M)) else None)"
proof -
  define w where "w = countTransaction (time_value g pend k p M) t pend"
  have wv: "w = (time_value g pend k p M)\<lparr>acc_row := (acc_row (time_value g pend k p M))\<lparr>
      row_count := int (size (add_mset t M)),
      row_flags := \<lparr>flag_selected = False, flag_hidden = False,
        flag_pending = pend \<and> (\<exists>t\<in>#add_mset t M. trans_pending t)\<rparr>\<rparr>,
      acc_hidden := int (size (filter_mset trans_hidden (add_mset t M)))\<rparr>"
    by (auto simp: w_def countTransaction_def time_value_def EmptyTimeRow_def Let_def)
  have rows: "row_in (acc_row w) = amount_of (fst k) (total_in M)"
    "row_out (acc_row w) = amount_of (fst k) (total_out M)"
    "row_total (acc_row w) = amount_of (fst k) (total_in M + total_out M)"
    by (simp_all add: wv time_value_def)
  show ?thesis
  proof (cases "trans_hidden t")
    case True
    then have "w = time_value g pend k p (add_mset t M)"
      by (simp add: wv time_value_def tx_in_def tx_out_def)
    moreover have "totals_fit (total_in (add_mset t M)) (total_out (add_mset t M))"
      using True assms(2) by (simp add: tx_in_def tx_out_def)
    ultimately show ?thesis using True by (simp add: time_step_def flip: w_def)
  next
    case False
    have tx: "total_in (add_mset t M) = total_in M + max 0 (sint (minor (trans_amount t)))"
      "total_out (add_mset t M) = total_out M + min 0 (sint (minor (trans_amount t)))"
      using False by (simp_all add: tx_in_def tx_out_def)
    have p: "(currency (trans_amount t), scale (trans_amount t)) = fst k"
      using assms(1) by (simp add: part_of_def)
    note add = addAmount_value[OF p rows total_bounds assms(2), unfolded Let_def, folded tx]
    have mapped: "result_option (map_error h r) = result_option r" for h and r :: "'e + accumulator"
      by (cases r) simp_all
    have val: "w\<lparr>acc_row := (acc_row w)\<lparr>row_in := amount_of (fst k) (total_in (add_mset t M)),
        row_out := amount_of (fst k) (total_out (add_mset t M)),
        row_total := amount_of (fst k) (total_in (add_mset t M) + total_out (add_mset t M))\<rparr>\<rparr>
        = time_value g pend k p (add_mset t M)"
      by (simp add: wv time_value_def)
    show ?thesis
      using False add by (simp add: time_step_def mapped val flip: w_def del: total_simps)
  qed
qed

lemma time_key_period:
  assumes "granularity_valid g" and "valid_date (trans_date t)" and "valid_date (trans_date u)"
    and "time_key g t = time_key g u"
  shows "periodForDate (trans_date t) g = periodForDate (trans_date u) g"
  using assms periodKey_inject[OF assms(1) canonical_periodForDate canonical_periodForDate]
  by (simp add: time_key_def)

lemma period_of_same:
  assumes "granularity_valid g" and "M \<noteq> {#}"
    and "\<forall>u\<in>#M. valid_date (trans_date u) \<and> time_key g u = k" and "t \<in># M"
  shows "period_of g M = periodForDate (trans_date t) g"
proof -
  have "finite (trans_date ` set_mset M)" "trans_date ` set_mset M \<noteq> {}" using assms(2) by auto
  then have "Min (trans_date ` set_mset M) \<in> trans_date ` set_mset M" by (rule Min_in)
  then obtain u where u: "u \<in># M" "Min (trans_date ` set_mset M) = trans_date u" by auto
  have "periodForDate (trans_date u) g = periodForDate (trans_date t) g"
    using assms u(1) by (intro time_key_period[OF assms(1)]) auto
  with u(2) show ?thesis by (simp add: period_of_def)
qed

lemma new_time_accumulator_value:
  "new_time_accumulator g t = time_value g pend (time_key g t) (periodForDate (trans_date t) g) {#}"
  by (simp add: new_time_accumulator_def time_value_def EmptyTimeRow_def time_key_def part_of_def
      amount_of_0 no_flags_def Let_def)

lemma time_key_eqs:
  assumes "time_key g t = k"
  shows "part_of t = fst k" and "periodKey (periodForDate (trans_date t) g) = snd k"
  using assms by (auto simp: time_key_def)

definition time_admissible :: "time_granularity \<Rightarrow> transaction \<Rightarrow> bool" where
  "time_admissible g t \<longleftrightarrow> granularity_valid g \<and> valid_date (trans_date t)"

interpretation times: incremental_accumulation "time_key g" "new_time_accumulator g" "\<lambda>v _. v"
  "time_step g pend" "time_admissible g" "\<lambda>_ M. totals_fit (total_in M) (total_out M)"
  "\<lambda>k M. time_value g pend k (period_of g M) M" for g pend
proof
  fix t k
  assume t: "time_admissible g t" "time_key g t = k"
  have p: "period_of g {#t#} = periodForDate (trans_date t) g" by (simp add: period_of_def)
  have "totals_fit (total_in {#}) (total_out {#})" by (simp add: totals_fit_def)
  from time_step_value[OF time_key_eqs(1)[OF t(2)] this, of g pend "periodForDate (trans_date t) g"]
  show "result_option (time_step g pend (new_time_accumulator g t) t) =
      (if totals_fit (total_in {#t#}) (total_out {#t#})
       then Some (time_value g pend k (period_of g {#t#}) {#t#}) else None)"
    unfolding p new_time_accumulator_value[of g t pend] t(2) .
next
  fix t k M
  assume t: "time_admissible g t" "time_key g t = k" and M: "M \<noteq> {#}"
    "\<forall>u\<in>#M. time_admissible g u \<and> time_key g u = k" and f: "totals_fit (total_in M) (total_out M)"
  obtain u where u: "u \<in># M" using M(1) by blast
  have "period_of g M = periodForDate (trans_date u) g"
    using M t u by (intro period_of_same[of g M k]) (auto simp: time_admissible_def)
  moreover have "period_of g (add_mset t M) = periodForDate (trans_date u) g"
    using M t u by (intro period_of_same[of g "add_mset t M" k]) (auto simp: time_admissible_def)
  ultimately have "period_of g (add_mset t M) = period_of g M" by simp
  with time_step_value[OF time_key_eqs(1)[OF t(2)] f, of g pend "period_of g M"]
  show "result_option (time_step g pend (time_value g pend k (period_of g M) M) t) =
      (if totals_fit (total_in (add_mset t M)) (total_out (add_mset t M))
       then Some (time_value g pend k (period_of g (add_mset t M)) (add_mset t M)) else None)"
    by (simp only:)
next
  fix t M
  assume "totals_fit (total_in (add_mset t M)) (total_out (add_mset t M))"
  then show "totals_fit (total_in M) (total_out M)"
    using tx_bounds[of t] unfolding totals_fit_def total_simps by linarith
qed

subsection \<open>The rows\<close>

definition first_date :: "transaction list \<Rightarrow> date" where
  "first_date ts = Min (trans_date ` set ts)"

definition last_date :: "transaction list \<Rightarrow> date" where
  "last_date ts = Max (trans_date ` set ts)"

lemma foldl_earliest:
  assumes "valid_date d" and "\<forall>t\<in>set ts. valid_date (trans_date t)"
  shows "foldl (\<lambda>d t. earliest d (trans_date t)) d ts = Min (insert d (trans_date ` set ts))"
  using assms
proof (induction ts arbitrary: d)
  case (Cons t ts)
  have t: "valid_date (trans_date t)" using Cons.prems(2) by simp
  have e: "earliest d (trans_date t) = min d (trans_date t)"
    using Cons.prems(1) t by (auto simp: earliest_def date_compare_valid min_def)
  have v: "valid_date (min d (trans_date t))" using Cons.prems(1) t by (simp add: min_def)
  have "foldl (\<lambda>d t. earliest d (trans_date t)) (min d (trans_date t)) ts
      = Min (insert (min d (trans_date t)) (trans_date ` set ts))"
    using Cons.IH[OF v] Cons.prems(2) by simp
  also have "\<dots> = Min (insert d (insert (trans_date t) (trans_date ` set ts)))"
    by (cases "trans_date ` set ts = {}") (simp_all add: min.assoc)
  finally show ?case by (simp add: e)
qed simp

lemma foldl_latest:
  assumes "valid_date d" and "\<forall>t\<in>set ts. valid_date (trans_date t)"
  shows "foldl (\<lambda>d t. latest d (trans_date t)) d ts = Max (insert d (trans_date ` set ts))"
  using assms
proof (induction ts arbitrary: d)
  case (Cons t ts)
  have t: "valid_date (trans_date t)" using Cons.prems(2) by simp
  have e: "latest d (trans_date t) = max d (trans_date t)"
    using Cons.prems(1) t by (auto simp: latest_def date_compare_valid max_def)
  have v: "valid_date (max d (trans_date t))" using Cons.prems(1) t by (simp add: max_def)
  have "foldl (\<lambda>d t. latest d (trans_date t)) (max d (trans_date t)) ts
      = Max (insert (max d (trans_date t)) (trans_date ` set ts))"
    using Cons.IH[OF v] Cons.prems(2) by simp
  also have "\<dots> = Max (insert d (insert (trans_date t) (trans_date ` set ts)))"
    by (cases "trans_date ` set ts = {}") (simp_all add: max.assoc)
  finally show ?case by (simp add: e)
qed simp

definition with_time_key :: "time_granularity \<Rightarrow> aggregate_key \<Rightarrow> transaction list \<Rightarrow> transaction multiset" where
  "with_time_key g k ts = mset (filter (\<lambda>t. time_key g t = k) ts)"

definition time_spec ::
    "time_granularity \<Rightarrow> bool \<Rightarrow> transaction list \<Rightarrow> period \<Rightarrow> money_partition \<Rightarrow> aggregate_row" where
  "time_spec g pend ts p q =
     (let M = with_time_key g (q, periodKey p) ts in
      \<lparr>row_dimension = DimensionTime, row_key = periodKey p, row_label = periodLabel p, row_group = '''',
       row_count = int (size M), row_in = amount_of q (total_in M), row_out = amount_of q (total_out M),
       row_total = amount_of q (total_in M + total_out M), row_period = Some p, row_top_category = '''',
       row_top_percent = 0, row_share_tenths = 0,
       row_flags = \<lparr>flag_selected = False, flag_hidden = M \<noteq> {#} \<and> (\<forall>t\<in>#M. trans_hidden t),
         flag_pending = pend \<and> (\<exists>t\<in>#M. trans_pending t)\<rparr>\<rparr>)"

definition time_grid ::
    "time_granularity \<Rightarrow> bool \<Rightarrow> transaction list \<Rightarrow> period list \<Rightarrow> aggregate_row list" where
  "time_grid g pend ts periods =
     concat (map (\<lambda>p. map (time_spec g pend ts p)
       (filter (\<lambda>q. ListsEmptyPeriods g \<or> (q, periodKey p) \<in> time_key g ` set ts) (partitions_of ts))) periods)"

lemma EmptyTimeRow_spec:
  assumes "(q, periodKey p) \<notin> time_key g ` set ts"
  shows "EmptyTimeRow p q = time_spec g pend ts p q"
proof -
  have "with_time_key g (q, periodKey p) ts = {#}"
    using assms by (force simp: with_time_key_def filter_empty_conv)
  then show ?thesis by (simp add: EmptyTimeRow_def time_spec_def no_flags_def amount_of_0 Let_def)
qed

lemma finished_time_row:
  "finishedRow (time_value g pend (q, periodKey p) p (with_time_key g (q, periodKey p) ts)) = time_spec g pend ts p q"
  by (simp add: finishedRow_def time_value_def time_spec_def EmptyTimeRow_def Let_def size_filter_all
      nonempty_has_size conj_commute)

lemma time_rows_spec:
  assumes "granularity_valid g" and "\<forall>t\<in>set ts. valid_date (trans_date t)"
    and "time_table g pend ts = Inr actual" and "\<forall>p\<in>set periods. canonical g p"
  shows "time_rows g actual periods (partitions_of ts) = time_grid g pend ts periods"
proof -
  have adm: "\<forall>t\<in>set ts. time_admissible g t" using assms(1,2) by (simp add: time_admissible_def)
  have run: "times.run g pend ts = Inr actual" using assms(3) by (simp add: time_table_def times.run_def)
  note d = times.run_entries(1)[OF adm run] and e = times.run_entries(2)[OF adm run]
  have cell: "(case map_of actual (q, periodKey p) of
        Some v \<Rightarrow> [finishedRow v] | None \<Rightarrow> if \<not> ListsEmptyPeriods g then [] else [EmptyTimeRow p q])
      = (if ListsEmptyPeriods g \<or> (q, periodKey p) \<in> time_key g ` set ts then [time_spec g pend ts p q] else [])"
    if p: "p \<in> set periods" for p q
  proof (cases "map_of actual (q, periodKey p)")
    case None
    then have "(q, periodKey p) \<notin> fst ` set actual" by (simp add: map_of_eq_None_iff)
    then have "(q, periodKey p) \<notin> time_key g ` set ts" using times.run_keys[OF adm run] by simp
    with None show ?thesis using EmptyTimeRow_spec by auto
  next
    case (Some v)
    then have "((q, periodKey p), v) \<in> set actual" by (rule map_of_SomeD)
    then have k: "(q, periodKey p) \<in> time_key g ` set ts"
      and v: "v = time_value g pend (q, periodKey p) (period_of g (with_time_key g (q, periodKey p) ts))
        (with_time_key g (q, periodKey p) ts)"
      unfolding e by (auto simp: with_time_key_def split: if_splits)
    obtain t where t: "t \<in> set ts" "time_key g t = (q, periodKey p)" using k by auto
    have "period_of g (with_time_key g (q, periodKey p) ts) = periodForDate (trans_date t) g"
      using assms(1,2) t by (intro period_of_same[of g _ "(q, periodKey p)"]) (auto simp: with_time_key_def filter_empty_conv)
    also have "\<dots> = p"
      using assms(4) p t(2) assms(2) t(1)
      by (intro periodKey_inject[OF assms(1)] canonical_periodForDate) (auto simp: time_key_def)
    finally show ?thesis using Some v k finished_time_row by simp
  qed
  have filt: "concat (map (\<lambda>q. if P q then [f q] else []) qs) = map f (filter P qs)" for P f and qs :: "money_partition list"
    by (induction qs) auto
  show ?thesis
    unfolding time_rows_def time_grid_def using cell by (simp add: filt cong: map_cong)
qed

lemma shares_fit_single: "shares_fit {#row#}"
  using sint_lower[of "minor (row_total row)"] sint_upper[of "minor (row_total row)"]
  by (simp add: shares_fit_def rows_of_def row_value_def) arith

text \<open>The two date loops, and the periods they span.\<close>

lemma date_loops:
  assumes "\<forall>t\<in>set ts. valid_date (trans_date t)" and "ts = t # us"
  shows "foldl (\<lambda>d t. earliest d (trans_date t)) (trans_date t) ts = first_date ts"
    and "foldl (\<lambda>d t. latest d (trans_date t)) (trans_date t) ts = last_date ts"
    and "foldl (\<lambda>d t. earliest d (trans_date t)) (trans_date t) us = first_date ts"
    and "foldl (\<lambda>d t. latest d (trans_date t)) (trans_date t) us = last_date ts"
proof -
  have v: "valid_date (trans_date t)" "\<forall>t\<in>set us. valid_date (trans_date t)" using assms by simp_all
  show "foldl (\<lambda>d t. earliest d (trans_date t)) (trans_date t) ts = first_date ts"
    "foldl (\<lambda>d t. latest d (trans_date t)) (trans_date t) ts = last_date ts"
    using foldl_earliest[OF v(1) assms(1)] foldl_latest[OF v(1) assms(1)]
    by (simp_all add: first_date_def last_date_def assms(2))
  show "foldl (\<lambda>d t. earliest d (trans_date t)) (trans_date t) us = first_date ts"
    "foldl (\<lambda>d t. latest d (trans_date t)) (trans_date t) us = last_date ts"
    using foldl_earliest[OF v] foldl_latest[OF v]
    by (simp_all add: first_date_def last_date_def assms(2))
qed

lemma date_bounds:
  assumes "\<forall>t\<in>set ts. valid_date (trans_date t)" and "ts \<noteq> []"
  shows "valid_date (first_date ts)" "valid_date (last_date ts)" "first_date ts \<le> last_date ts"
    and "u \<in> set ts \<Longrightarrow> first_date ts \<le> trans_date u" "u \<in> set ts \<Longrightarrow> trans_date u \<le> last_date ts"
proof -
  have fin: "finite (trans_date ` set ts)" "trans_date ` set ts \<noteq> {}" using assms(2) by simp_all
  show "valid_date (first_date ts)" "valid_date (last_date ts)"
    using Min_in[OF fin] Max_in[OF fin] assms(1) unfolding first_date_def last_date_def by (auto simp: image_iff)
  show le: "u \<in> set ts \<Longrightarrow> first_date ts \<le> trans_date u" "u \<in> set ts \<Longrightarrow> trans_date u \<le> last_date ts" for u
    by (simp_all add: first_date_def last_date_def)
  show "first_date ts \<le> last_date ts" using le[of "hd ts"] assms(2) by force
qed

lemma periods_of_dates:
  assumes "granularity_valid g" and "\<forall>t\<in>set ts. valid_date (trans_date t)" and "ts \<noteq> []"
  obtains ps where "periodsBetween (first_date ts) (last_date ts) g = Inr ps"
    and "\<forall>p\<in>set ps. canonical g p" and "distinct ps"
    and "\<forall>t\<in>set ts. periodForDate (trans_date t) g \<in> set ps"
proof -
  note b = date_bounds[OF assms(2,3)]
  obtain ps where ps: "periodsBetween (first_date ts) (last_date ts) g = Inr ps"
    "map period_index ps = [period_index (periodForDate (first_date ts) g)..period_index (periodForDate (last_date ts) g)]"
    "\<forall>p\<in>set ps. canonical g p"
    "\<And>d. valid_date d \<Longrightarrow> first_date ts \<le> d \<Longrightarrow> d \<le> last_date ts \<Longrightarrow> periodForDate d g \<in> set ps"
    by (rule periodsBetween_interval[OF assms(1) b(1,2,3)]) blast
  have "distinct (map period_index ps)" unfolding ps(2) by simp
  then have "distinct ps" by (simp add: distinct_map)
  with ps b(4,5) assms(2) show thesis by (intro that) auto
qed

lemma aggregateTime_Inr:
  assumes "granularity_valid g" and "\<forall>t\<in>set ts. valid_date (trans_date t)" and "ts \<noteq> []"
    and "aggregateTime ts g pend = Inr rows"
  obtains periods where "periodsBetween (first_date ts) (last_date ts) g = Inr periods"
    and "shares_fit (mset (time_grid g pend ts periods))"
    and "rows = map (with_share (mset (time_grid g pend ts periods))) (time_grid g pend ts periods)"
    and "\<forall>t\<in>set ts. periodForDate (trans_date t) g \<in> set periods" and "\<forall>p\<in>set periods. canonical g p"
    and "distinct periods"
proof -
  obtain t us where ts: "ts = t # us" using assms(3) by (cases ts) auto
  obtain actual periods where table: "time_table g pend ts = Inr actual"
    and periods: "periodsBetween (first_date ts) (last_date ts) g = Inr periods"
    and rows: "applyShares (time_rows g actual periods (partitions_of ts)) = Inr rows"
    using assms(4) date_loops(1,2)[OF assms(2) ts]
    by (auto simp: aggregateTime_def ts Let_def bind_result_Inr partitions_of_def)
  obtain ps where ps: "periodsBetween (first_date ts) (last_date ts) g = Inr ps" "\<forall>p\<in>set ps. canonical g p"
    "distinct ps" "\<forall>t\<in>set ts. periodForDate (trans_date t) g \<in> set ps"
    by (rule periods_of_dates[OF assms(1-3)])
  have pp: "periods = ps" using ps(1) periods by simp
  have "time_rows g actual periods (partitions_of ts) = time_grid g pend ts periods"
    using time_rows_spec[OF assms(1,2) table] ps(2) pp by simp
  then show thesis using that[OF periods] rows ps(2-4) pp by (simp add: applyShares_Inr)
qed

text \<open>
  C12. Grouping by time is complete and in order: the rows are exactly the grid of the periods from
  the first to the last transaction date by the partitions, chronologically, without the empty
  cells when the unit is the day; each cell has the exact count, totals and flags of its
  transactions, and no period between two transactions is missing.
\<close>

theorem aggregateTime_grid:
  assumes "granularity_valid g" and "\<forall>t\<in>set ts. valid_date (trans_date t)" and "ts \<noteq> []"
    and "aggregateTime ts g pend = Inr rows"
  shows "\<exists>periods. periodsBetween (first_date ts) (last_date ts) g = Inr periods
    \<and> map row_core rows = time_grid g pend ts periods
    \<and> (\<forall>t\<in>set ts. periodForDate (trans_date t) g \<in> set periods)"
proof -
  obtain periods where p: "periodsBetween (first_date ts) (last_date ts) g = Inr periods"
    and r: "rows = map (with_share (mset (time_grid g pend ts periods))) (time_grid g pend ts periods)"
    and c: "\<forall>t\<in>set ts. periodForDate (trans_date t) g \<in> set periods"
    using aggregateTime_Inr[OF assms] by metis
  have "row_core (time_spec g pend ts p q) = time_spec g pend ts p q" for p q
    by (simp add: row_core_def time_spec_def Let_def)
  then have "map row_core (time_grid g pend ts periods) = time_grid g pend ts periods"
    by (intro map_idI) (auto simp: time_grid_def)
  then have "map row_core rows = time_grid g pend ts periods" by (simp add: r o_def)
  with p c show ?thesis by blast
qed

theorem aggregateTime_grid_witness:
  "\<exists>rows periods. aggregateTime [example_tx ''t1'' 1500 (Date 2024 3 5) False] TimeGranularityYear False = Inr rows
     \<and> map row_core rows = time_grid TimeGranularityYear False [example_tx ''t1'' 1500 (Date 2024 3 5) False] periods
     \<and> periodForDate (Date 2024 3 5) TimeGranularityYear \<in> set periods"
proof -
  let ?ts = "[example_tx ''t1'' 1500 (Date 2024 3 5) False]" and ?p = "periodForDate (Date 2024 3 5) TimeGranularityYear"
  have v: "granularity_valid TimeGranularityYear" "?ts \<noteq> []" "\<forall>t\<in>set ?ts. valid_date (trans_date t)"
    by (simp_all add: granularity_valid_def example_tx_def valid_date_def days_in_def)
  have "is_ok (time_table TimeGranularityYear False ?ts)"
    by (simp add: time_table_def accumulate_def time_step_def countTransaction_def
        addAmount_def money_add_def compatible_def add_overflows_def time_key_def new_time_accumulator_def part_of_def
        word_sless_alt word_sle_eq max_int64_def min_int64_def
        example_tx_def Let_def EmptyTimeRow_def)
  then obtain actual where table: "time_table TimeGranularityYear False ?ts = Inr actual"
    by (auto simp: is_ok_iff)
  have periods: "periodsBetween (Date 2024 3 5) (Date 2024 3 5) TimeGranularityYear = Inr [?p]"
    by (simp add: periodsBetween_def periods_from.simps comparePeriods_def compareInt_def)
  have "canonical TimeGranularityYear ?p"
    by (rule canonical_periodForDate) (simp add: valid_date_def days_in_def)
  then have rows: "time_rows TimeGranularityYear actual [?p] (partitions_of ?ts)
      = time_grid TimeGranularityYear False ?ts [?p]"
    using time_rows_spec[OF v(1,3) table, of "[?p]"] by simp
  have "time_grid TimeGranularityYear False ?ts [?p]
      = [time_spec TimeGranularityYear False ?ts ?p (''USD'', 2)]"
    by (simp add: time_grid_def partitions_of_def ListsEmptyPeriods_def example_tx_def part_of_def sortedPartitions_def)
  then have "shares_fit (mset (time_grid TimeGranularityYear False ?ts [?p]))"
    by (simp add: shares_fit_single)
  then obtain rows where r: "aggregateTime ?ts TimeGranularityYear False = Inr rows"
    using table periods rows
    by (simp add: aggregateTime_def earliest_def latest_def date_compare_def example_tx_def applyShares_Inr partitions_of_def Let_def)
  from aggregateTime_grid[OF v(1,3,2) r] r show ?thesis by (auto simp: example_tx_def)
qed

end
