(* ===== verification/Analytics_Query.thy ===== *)
theory Analytics_Query
  imports Analytics_Time
begin

text \<open>
  \<open>internal/analytics/query.go\<close> and the dispatch of \<open>aggregate\<close>: a validated query is filtered,
  totalled and listed or grouped.  The last sections show that the rows account for every filtered
  transaction and that a query with totals in range cannot fail.
\<close>

datatype query_failure =
    QueryInvalid query_error
  | QueryFilter analytics_error
  | QueryAggregate aggregate_error

definition aggregate ::
    "transaction list \<Rightarrow> dimension \<Rightarrow> time_granularity \<Rightarrow> bool \<Rightarrow> aggregate_error + aggregate_row list" where
  "aggregate filtered dim g includePending =
     (if \<not> dimension_valid dim then Inl AggregateDimension
      else if \<not> granularity_valid g then Inl AggregateGranularity
      else if dim = DimensionTime then aggregateTime filtered g includePending
      else aggregate_rows dim includePending filtered)"

definition Aggregate ::
    "transaction list \<Rightarrow> dimension \<Rightarrow> time_granularity \<Rightarrow> aggregate_error + aggregate_row list" where
  "Aggregate filtered dim g = aggregate filtered dim g False"

definition filteredDateRange :: "transaction list \<Rightarrow> date_range option" where
  "filteredDateRange filtered =
     (case filtered of
        [] \<Rightarrow> None
      | t # ts \<Rightarrow> Some \<lparr>range_start = foldl (\<lambda>d t. earliest d (trans_date t)) (trans_date t) ts,
                        range_end = foldl (\<lambda>d t. latest d (trans_date t)) (trans_date t) ts\<rparr>)"

definition query ::
    "(string \<Rightarrow> (string \<Rightarrow> bool) option) \<Rightarrow> transaction list \<Rightarrow> query_spec \<Rightarrow> bool \<Rightarrow>
     query_failure + query_result" where
  "query compile ts spec includePending =
     bind_result (map_error QueryInvalid (ValidateQuery spec)) (\<lambda>_.
     bind_result (map_error QueryFilter (filterTransactions compile ts spec)) (\<lambda>filtered.
     bind_result (map_error QueryFilter (Statistics filtered)) (\<lambda>statistics.
       let result = \<lparr>result_details = [], result_aggregates = [], result_statistics = statistics,
             result_filtered = int (length filtered), result_range = filteredDateRange filtered\<rparr> in
       if query_mode spec = ResultModeDetail
       then Inr (result\<lparr>result_details := DetailRows filtered (query_sort spec)\<rparr>)
       else bind_result (map_error QueryAggregate
           (aggregate filtered (query_group_by spec) (query_granularity spec) includePending)) (\<lambda>rows.
         Inr (result\<lparr>result_aggregates := SortAggregateRows rows (query_sort spec)\<rparr>)))))"

definition Query ::
    "(string \<Rightarrow> (string \<Rightarrow> bool) option) \<Rightarrow> transaction list \<Rightarrow> query_spec \<Rightarrow> query_failure + query_result" where
  "Query compile ts spec = query compile ts spec False"

definition QueryWithPending ::
    "(string \<Rightarrow> (string \<Rightarrow> bool) option) \<Rightarrow> transaction list \<Rightarrow> query_spec \<Rightarrow> query_failure + query_result" where
  "QueryWithPending compile ts spec = query compile ts spec True"

subsection \<open>Rows that account for transactions\<close>

definition with_code :: "(transaction \<Rightarrow> aggregate_key) \<Rightarrow> aggregate_key \<Rightarrow> transaction list \<Rightarrow> transaction multiset" where
  "with_code K k ts = mset (filter (\<lambda>t. K t = k) ts)"

definition row_holds :: "aggregate_row \<Rightarrow> transaction multiset \<Rightarrow> bool" where
  "row_holds row M \<longleftrightarrow> row_count row = int (size M) \<and> row_in row = amount_of (row_part row) (total_in M)
     \<and> row_out row = amount_of (row_part row) (total_out M)
     \<and> row_total row = amount_of (row_part row) (total_in M + total_out M)"

definition rows_hold :: "(transaction \<Rightarrow> aggregate_key) \<Rightarrow> transaction list \<Rightarrow> aggregate_row list \<Rightarrow> bool" where
  "rows_hold K ts rows \<longleftrightarrow> (\<forall>t\<in>set ts. fst (K t) = part_of t) \<and> distinct (map row_identity rows)
     \<and> K ` set ts \<subseteq> row_identity ` set rows
     \<and> (\<forall>row\<in>set rows. row_holds row (with_code K (row_identity row) ts))"

lemma row_identity_part: "fst (row_identity row) = row_part row"
  by (simp add: row_identity_def row_part_def)

lemma sum_by_code:
  fixes f :: "transaction \<Rightarrow> int"
  assumes "distinct ks" and "K ` set ts \<subseteq> set ks"
  shows "(\<Sum>k\<leftarrow>ks. \<Sum>t\<in>#mset (filter (\<lambda>t. K t = k) ts). f t) = (\<Sum>t\<leftarrow>ts. f t)"
  using assms(2)
proof (induction ts)
  case Nil
  then show ?case by simp
next
  case (Cons t ts)
  have "(\<Sum>k\<leftarrow>ks. \<Sum>u\<in>#mset (filter (\<lambda>u. K u = k) (t # ts)). f u)
      = (\<Sum>k\<leftarrow>ks. (if K t = k then f t else 0) + (\<Sum>u\<in>#mset (filter (\<lambda>u. K u = k) ts). f u))"
    by (rule arg_cong[where f = sum_list], rule map_cong) auto
  also have "\<dots> = (\<Sum>k\<leftarrow>ks. if K t = k then f t else 0) + (\<Sum>u\<leftarrow>ts. f u)"
    using Cons by (simp add: sum_list_addf)
  also have "(\<Sum>k\<leftarrow>ks. if K t = k then f t else 0) = f t"
    using Cons.prems assms(1) by (simp add: sum_list_distinct_conv_sum_set)
  finally show ?case by simp
qed

text \<open>The sum of a weight over the rows of a partition is its sum over the partition.\<close>

lemma sum_of_rows:
  fixes f :: "transaction \<Rightarrow> int"
  assumes "rows_hold K ts rows"
  shows "(\<Sum>row\<leftarrow>filter (\<lambda>row. row_part row = p) rows. \<Sum>t\<in>#with_code K (row_identity row) ts. f t)
    = (\<Sum>t\<in>#in_partition p ts. f t)"
proof -
  define rs us where "rs = filter (\<lambda>row. row_part row = p) rows" and "us = filter (\<lambda>t. part_of t = p) ts"
  have K: "\<forall>t\<in>set ts. fst (K t) = part_of t" and sub: "K ` set ts \<subseteq> row_identity ` set rows"
    and d: "distinct (map row_identity rows)" using assms by (auto simp: rows_hold_def)
  have same: "with_code K (row_identity row) ts = mset (filter (\<lambda>t. K t = row_identity row) us)"
    if "row \<in> set rs" for row
  proof -
    have "fst (row_identity row) = p" using that by (simp add: rs_def row_identity_part)
    then have "filter (\<lambda>t. K t = row_identity row) ts = filter (\<lambda>t. K t = row_identity row) us"
      unfolding us_def filter_filter using K by (intro filter_cong) auto
    then show ?thesis by (simp only: with_code_def)
  qed
  have "K ` set us \<subseteq> set (map row_identity rs)"
  proof
    fix k assume "k \<in> K ` set us"
    then obtain t where t: "t \<in> set ts" "part_of t = p" "k = K t" by (auto simp: us_def)
    then obtain row where row: "row \<in> set rows" "row_identity row = k" using sub by auto
    then have "row_part row = p" using t K row_identity_part[of row] by simp
    with row show "k \<in> set (map row_identity rs)" by (auto simp: rs_def)
  qed
  moreover have "distinct (map row_identity rs)" using d by (simp add: rs_def distinct_map_filter)
  ultimately have "(\<Sum>k\<leftarrow>map row_identity rs. \<Sum>t\<in>#mset (filter (\<lambda>t. K t = k) us). f t) = (\<Sum>t\<leftarrow>us. f t)"
    by (intro sum_by_code)
  moreover have "(\<Sum>row\<leftarrow>rs. \<Sum>t\<in>#with_code K (row_identity row) ts. f t)
      = (\<Sum>k\<leftarrow>map row_identity rs. \<Sum>t\<in>#mset (filter (\<lambda>t. K t = k) us). f t)"
    using same by (simp add: o_def cong: map_cong)
  moreover have "(\<Sum>t\<in>#in_partition p ts. f t) = (\<Sum>t\<leftarrow>us. f t)"
    by (simp only: in_partition_def us_def mset_map[symmetric] sum_mset_sum_list)
  ultimately show ?thesis by (simp add: rs_def)
qed

lemma total_mono:
  assumes "M \<subseteq># N"
  shows "total_in M \<le> total_in N" "total_out N \<le> total_out M"
proof -
  obtain D where "N = M + D" using assms by (auto simp: mset_subset_eq_exists_conv)
  then have "total_in N = total_in M + total_in D" "total_out N = total_out M + total_out D"
    by (simp_all add: total_in_def total_out_def)
  then show "total_in M \<le> total_in N" "total_out N \<le> total_out M" using total_bounds[of D] by simp_all
qed

lemma fits_bucket:
  assumes "partitions_fit ts" and "\<forall>t\<in>set ts. fst (K t) = part_of t"
  shows "totals_fit (total_in (with_code K k ts)) (total_out (with_code K k ts))"
proof (cases "with_code K k ts = {#}")
  case True
  then show ?thesis by (simp add: totals_fit_def)
next
  case False
  then obtain t where t: "t \<in> set ts" "K t = k" by (auto simp: with_code_def filter_empty_conv)
  have "filter (\<lambda>t. K t = k) ts = filter (\<lambda>t. K t = k) (filter (\<lambda>t. part_of t = fst k) ts)"
    using assms(2) by (auto intro: filter_cong)
  then have "with_code K k ts \<subseteq># in_partition (fst k) ts"
    unfolding with_code_def in_partition_def by (metis mset_filter multiset_filter_subset)
  moreover have "totals_fit (total_in (in_partition (fst k) ts)) (total_out (in_partition (fst k) ts))"
    using assms t unfolding partitions_fit_def by force
  ultimately show ?thesis using total_mono unfolding totals_fit_def by fastforce
qed

subsection \<open>The rows of both groupings\<close>

lemma spec_rows_hold:
  assumes "distinct (map row_identity rows)" and "row_identity ` set rows = aggregate_key dim ` set ts"
    and "\<forall>row\<in>set rows. row_core row = aggregate_spec dim pend ts (row_identity row)"
  shows "rows_hold (aggregate_key dim) ts rows"
proof -
  have "row_holds row (with_code (aggregate_key dim) (row_identity row) ts)" if "row \<in> set rows" for row
  proof -
    have "row_core row = aggregate_spec dim pend ts (row_identity row)" using assms(3) that by blast
    then have "row_count (row_core row) = row_count (aggregate_spec dim pend ts (row_identity row))"
      "row_in (row_core row) = row_in (aggregate_spec dim pend ts (row_identity row))"
      "row_out (row_core row) = row_out (aggregate_spec dim pend ts (row_identity row))"
      "row_total (row_core row) = row_total (aggregate_spec dim pend ts (row_identity row))" by simp_all
    then show ?thesis
      by (simp add: row_holds_def aggregate_spec_def with_key_def with_code_def row_identity_part Let_def)
  qed
  then show ?thesis using assms by (simp add: rows_hold_def aggregate_key_def)
qed

lemma aggregate_rows_hold: "aggregate_rows dim pend ts = Inr rows \<Longrightarrow> rows_hold (aggregate_key dim) ts rows"
  using spec_rows_hold aggregate_rows_spec by blast

lemma time_spec_identity: "row_identity (time_spec g pend ts p q) = (q, periodKey p)"
  by (simp add: row_identity_def time_spec_def amount_of_def Let_def)

lemma time_spec_holds:
  "row_holds (time_spec g pend ts p q) (with_code (time_key g) (row_identity (time_spec g pend ts p q)) ts)"
proof -
  have "row_part (time_spec g pend ts p q) = q" by (simp add: row_identity_part[symmetric] time_spec_identity)
  then show ?thesis
    by (simp add: row_holds_def time_spec_identity) (simp add: time_spec_def with_time_key_def with_code_def Let_def)
qed

lemma distinct_grid:
  assumes "granularity_valid g" and "distinct ps" and "\<forall>p\<in>set ps. canonical g p" and "distinct qs"
  shows "distinct (concat (map (\<lambda>p. map (\<lambda>q. (q, periodKey p)) (filter (P p) qs)) ps))"
  using assms(2,3)
proof (induction ps)
  case (Cons p ps)
  have "periodKey p \<noteq> periodKey r" if "r \<in> set ps" for r
    using periodKey_inject[OF assms(1), of p r] Cons.prems that by auto
  moreover have "distinct (map (\<lambda>q. (q, periodKey p)) (filter (P p) qs))"
    using assms(4) by (simp add: distinct_map inj_on_def)
  ultimately show ?case using Cons by auto
qed simp

lemma grid_hold:
  assumes "granularity_valid g" and "distinct periods" and "\<forall>p\<in>set periods. canonical g p"
    and "\<forall>t\<in>set ts. periodForDate (trans_date t) g \<in> set periods"
    and "map row_core rows = map row_core (time_grid g pend ts periods)"
  shows "rows_hold (time_key g) ts rows"
proof -
  have "map row_identity rows = map row_identity (map row_core rows)" by simp
  also have "\<dots> = map row_identity (time_grid g pend ts periods)" unfolding assms(5) by simp
  finally have ids: "map row_identity rows = map row_identity (time_grid g pend ts periods)" .
  have grid: "map row_identity (time_grid g pend ts periods) = concat (map (\<lambda>p. map (\<lambda>q. (q, periodKey p))
      (filter (\<lambda>q. ListsEmptyPeriods g \<or> (q, periodKey p) \<in> time_key g ` set ts) (partitions_of ts))) periods)"
    by (simp add: time_grid_def map_concat o_def time_spec_identity)
  have parts: "set (partitions_of ts) = part_of ` set ts" "distinct (partitions_of ts)"
    by (simp_all add: partitions_of_def)
  have "distinct (map row_identity rows)"
    unfolding ids grid by (rule distinct_grid[OF assms(1,2,3) parts(2)])
  moreover have "K \<in> row_identity ` set rows" if K: "K \<in> time_key g ` set ts" for K
  proof -
    obtain t where t: "t \<in> set ts" "K = time_key g t" using K by blast
    then have "K \<in> set (map row_identity (time_grid g pend ts periods))"
      unfolding grid using assms(4) parts(1) by (auto simp: time_key_def)
    then show ?thesis unfolding ids[symmetric] by simp
  qed
  moreover have "row_holds row (with_code (time_key g) (row_identity row) ts)" if row: "row \<in> set rows" for row
  proof -
    have "row_core row \<in> set (map row_core (time_grid g pend ts periods))"
      unfolding assms(5)[symmetric] using row by simp
    then obtain p q where "row_core row = row_core (time_spec g pend ts p q)" by (auto simp: time_grid_def)
    then have "row_count row = row_count (time_spec g pend ts p q)" "row_in row = row_in (time_spec g pend ts p q)"
      "row_out row = row_out (time_spec g pend ts p q)" "row_total row = row_total (time_spec g pend ts p q)"
      "row_identity row = row_identity (time_spec g pend ts p q)"
      by (metis row_core_sel)+
    with time_spec_holds[of g pend ts p q] show ?thesis
      by (simp add: row_holds_def row_part_def)
  qed
  moreover have "\<forall>t\<in>set ts. fst (time_key g t) = part_of t" by (simp add: time_key_def)
  ultimately show ?thesis unfolding rows_hold_def by blast
qed

lemma time_rows_hold:
  assumes "granularity_valid g" and "\<forall>t\<in>set ts. valid_date (trans_date t)"
    and "aggregateTime ts g pend = Inr rows"
  shows "rows_hold (time_key g) ts rows"
proof (cases "ts = []")
  case True
  then show ?thesis using assms(3) by (simp add: aggregateTime_def rows_hold_def)
next
  case False
  obtain periods where ps: "rows = map (with_share (mset (time_grid g pend ts periods))) (time_grid g pend ts periods)"
    "\<forall>t\<in>set ts. periodForDate (trans_date t) g \<in> set periods" "\<forall>p\<in>set periods. canonical g p"
    "distinct periods"
    by (rule aggregateTime_Inr[OF assms(1,2) False assms(3)]) blast
  then have "map row_core rows = map row_core (time_grid g pend ts periods)" by simp
  from grid_hold[OF assms(1) ps(4,3,2) this] show ?thesis .
qed

lemma aggregate_hold:
  assumes "\<forall>t\<in>set ts. valid_date (trans_date t)" and "aggregate ts dim g pend = Inr rows"
  shows "\<exists>K. rows_hold K ts rows"
proof (cases "dim = DimensionTime")
  case True
  then have "granularity_valid g" "aggregateTime ts g pend = Inr rows"
    using assms(2) by (simp_all add: aggregate_def split: if_splits)
  from time_rows_hold[OF this(1) assms(1) this(2)] show ?thesis by blast
next
  case False
  then have "aggregate_rows dim pend ts = Inr rows"
    using assms(2) by (simp add: aggregate_def split: if_splits)
  from aggregate_rows_hold[OF this] show ?thesis by blast
qed

text \<open>The totals of the rows of a partition.\<close>

lemma rows_hold_totals:
  assumes "rows_hold K ts rows" and "partitions_fit ts"
  shows "(\<Sum>row\<leftarrow>filter (\<lambda>row. row_part row = p) rows. row_count row) = int (size (in_partition p ts))"
    and "(\<Sum>row\<leftarrow>filter (\<lambda>row. row_part row = p) rows. sint (minor (row_in row))) = total_in (in_partition p ts)"
    and "(\<Sum>row\<leftarrow>filter (\<lambda>row. row_part row = p) rows. sint (minor (row_out row))) = total_out (in_partition p ts)"
    and "(\<Sum>row\<leftarrow>filter (\<lambda>row. row_part row = p) rows. row_value row)
      = total_in (in_partition p ts) + total_out (in_partition p ts)"
    and "row \<in> set rows \<Longrightarrow> row_value row = sint (minor (row_in row)) + sint (minor (row_out row))
      \<and> 0 \<le> sint (minor (row_in row)) \<and> sint (minor (row_out row)) \<le> 0"
proof -
  have K: "\<forall>t\<in>set ts. fst (K t) = part_of t" using assms(1) by (simp add: rows_hold_def)
  have r: "row_count row = (\<Sum>t\<in>#with_code K (row_identity row) ts. 1)
      \<and> sint (minor (row_in row)) = (\<Sum>t\<in>#with_code K (row_identity row) ts. tx_in t)
      \<and> sint (minor (row_out row)) = (\<Sum>t\<in>#with_code K (row_identity row) ts. tx_out t)
      \<and> row_value row = (\<Sum>t\<in>#with_code K (row_identity row) ts. tx_in t + tx_out t)"
    if row: "row \<in> set rows" for row
  proof -
    define M where "M = with_code K (row_identity row) ts"
    have h: "row_holds row M" using assms(1) row unfolding rows_hold_def M_def by blast
    have f: "totals_fit (total_in M) (total_out M)" unfolding M_def by (rule fits_bucket[OF assms(2) K])
    note fit = totals_fit_sum[OF total_bounds f]
    have "row_value row = total_in M + total_out M"
      using h sint_of_int[OF fit(3)] by (simp add: row_holds_def row_value_def amount_of_def del: of_int_add)
    moreover have "sint (minor (row_in row)) = total_in M"
      "sint (minor (row_out row)) = total_out M" "row_count row = int (size M)"
      using h fit by (simp_all add: row_holds_def amount_of_def sint_of_int)
    ultimately show ?thesis unfolding M_def[symmetric]
      by (simp add: total_in_def total_out_def sum_mset.distrib)
  qed
  let ?rs = "filter (\<lambda>row. row_part row = p) rows"
  have eq: "(\<Sum>row\<leftarrow>?rs. v row) = (\<Sum>t\<in>#in_partition p ts. f t)"
    if "\<And>row. row \<in> set rows \<Longrightarrow> v row = (\<Sum>t\<in>#with_code K (row_identity row) ts. f t)" for v and f :: "transaction \<Rightarrow> int"
  proof -
    have "map v ?rs = map (\<lambda>row. \<Sum>t\<in>#with_code K (row_identity row) ts. f t) ?rs"
      using that by (intro map_cong) auto
    then show ?thesis by (simp only: sum_of_rows[OF assms(1)])
  qed
  show "(\<Sum>row\<leftarrow>?rs. row_count row) = int (size (in_partition p ts))"
    using eq[of row_count "\<lambda>_. 1"] r by simp
  show "(\<Sum>row\<leftarrow>?rs. sint (minor (row_in row))) = total_in (in_partition p ts)"
    unfolding total_in_def using r by (intro eq) blast
  show "(\<Sum>row\<leftarrow>?rs. sint (minor (row_out row))) = total_out (in_partition p ts)"
    unfolding total_out_def using r by (intro eq) blast
  show "(\<Sum>row\<leftarrow>?rs. row_value row) = total_in (in_partition p ts) + total_out (in_partition p ts)"
    unfolding total_in_def total_out_def sum_mset.distrib[symmetric] using r by (intro eq) blast
  show "row \<in> set rows \<Longrightarrow> row_value row = sint (minor (row_in row)) + sint (minor (row_out row))
      \<and> 0 \<le> sint (minor (row_in row)) \<and> sint (minor (row_out row)) \<le> 0"
    using r[of row] total_bounds unfolding total_in_def total_out_def by (simp add: sum_mset.distrib)
qed

subsection \<open>Grouping cannot fail when the totals are in range\<close>

lemma sum_nat_le:
  assumes "\<forall>row\<in>set rs. v row \<le> w row \<and> 0 \<le> w row"
  shows "int (\<Sum>row\<leftarrow>rs. nat (v row)) \<le> (\<Sum>row\<leftarrow>rs. w row)"
  using assms by (induction rs) auto

lemma rows_hold_shares:
  assumes "rows_hold K ts rows" and "partitions_fit ts" and "\<forall>row\<in>set rows. row_part row \<in> part_of ` set ts"
  shows "shares_fit (mset rows)"
  unfolding shares_fit_def
proof
  fix p assume p: "p \<in> row_part ` set_mset (mset rows)"
  let ?rs = "filter (\<lambda>row. row_part row = p) rows"
  note tot = rows_hold_totals[OF assms(1,2)]
  have "p \<in> part_of ` set ts" using p assms(3) by auto
  then have f: "totals_fit (total_in (in_partition p ts)) (total_out (in_partition p ts))"
    using assms(2) unfolding partitions_fit_def by blast
  have "income_total (rows_of p (mset rows)) = (\<Sum>row\<leftarrow>?rs. nat (row_value row))"
    unfolding income_total_def rows_of_def by (simp only: mset_filter[symmetric] mset_map[symmetric] sum_mset_sum_list)
  moreover have "int (\<Sum>row\<leftarrow>?rs. nat (row_value row)) \<le> (\<Sum>row\<leftarrow>?rs. sint (minor (row_in row)))"
    using tot(5) by (intro sum_nat_le) auto
  moreover have "expense_total (rows_of p (mset rows)) = (\<Sum>row\<leftarrow>?rs. nat (- row_value row))"
    unfolding expense_total_def rows_of_def by (simp only: mset_filter[symmetric] mset_map[symmetric] sum_mset_sum_list)
  moreover have "int (\<Sum>row\<leftarrow>?rs. nat (- row_value row)) \<le> (\<Sum>row\<leftarrow>?rs. - sint (minor (row_out row)))"
    using tot(5) by (intro sum_nat_le) auto
  moreover have "(\<Sum>row\<leftarrow>?rs. - sint (minor (row_out row))) = - total_out (in_partition p ts)"
    by (simp add: uminus_sum_list_map o_def flip: tot(3))
  moreover have "(2 :: int) ^ 64 = 2 * 2 ^ 63" by simp
  moreover have "total_in (in_partition p ts) < 2 ^ 63" "- (2 ^ 63) \<le> total_out (in_partition p ts)"
    using f by (simp_all add: totals_fit_def)
  ultimately have "int (income_total (rows_of p (mset rows))) < 2 ^ 64" "int (expense_total (rows_of p (mset rows))) < 2 ^ 64"
    using tot(2)[of p] by linarith+
  then show "income_total (rows_of p (mset rows)) < 2 ^ 64 \<and> expense_total (rows_of p (mset rows)) < 2 ^ 64"
    by simp
qed

lemma activity_le_totals:
  assumes "finite C"
  shows "(\<Sum>c\<in>C. int (activity_total M c)) \<le> total_in M - total_out M"
proof (induction M)
  case empty
  then show ?case by simp
next
  case (add t M)
  let ?a = "int (nat \<bar>sint (minor (trans_amount t))\<bar>)"
  have "(\<Sum>c\<in>C. int (activity_total (add_mset t M) c))
      = (\<Sum>c\<in>C. if \<not> trans_hidden t \<and> cref_name (trans_category t) = c then ?a else 0) + (\<Sum>c\<in>C. int (activity_total M c))"
    unfolding sum.distrib[symmetric] by (rule sum.cong) auto
  moreover have "(\<Sum>c\<in>C. if \<not> trans_hidden t \<and> cref_name (trans_category t) = c then ?a else 0) \<le> tx_in t - tx_out t"
    using assms by (cases "trans_hidden t") (auto simp: tx_in_def tx_out_def)
  ultimately show ?case using add.IH by simp
qed

lemma setTopCategory_ok:
  assumes "row_top_category (acc_row v) = ''''" and "activity_sum v < 2 ^ 64"
  shows "is_ok (setTopCategory v)"
proof -
  let ?m = "acc_activities v"
  define cs where "cs = sorted_list_of_fset (fmdom (acc_activities v))"
  define best where "best = foldl (pick_top (activity_of ?m)) '''' cs"
  let ?total = "of_nat (activity_sum v) :: uint64"
  have total: "unat ?total = activity_sum v" using assms(2) by (rule unat_of_nat_small)
  have code: "setTopCategory v = (if ?total = 0 then Inr v
      else bind_result (map_error (AggregateTopCategory (row_label (acc_row v)))
          (ratioHalfUp (activity_of ?m best) ?total 100))
          (\<lambda>percentage. Inr (v\<lparr>acc_row := (acc_row v)\<lparr>row_top_category := best, row_top_percent := percentage\<rparr>\<rparr>)))"
    using assms(2)
    unfolding setTopCategory_def Let_def fold_activity_total assms(1) best_def pick_top_def activity_sum_def cs_def
    by simp
  show ?thesis
  proof (cases "?total = 0")
    case True
    then show ?thesis by (simp add: code)
  next
    case False
    then have "cs \<noteq> []" by (auto simp: activity_sum_def cs_def)
    moreover have "xs \<noteq> [] \<Longrightarrow> foldl (pick_top f) '''' xs \<in> set xs" for xs and f :: "string \<Rightarrow> uint64"
    proof (induction xs rule: rev_induct)
      case (snoc x xs)
      then show ?case by (cases "xs = []") (auto simp: pick_top_def)
    qed simp
    ultimately have "best \<in> set cs" by (simp add: best_def)
    then have "unat (activity_of ?m best) \<le> activity_sum v"
      unfolding activity_sum_def cs_def[symmetric] by (intro member_le_sum_list) auto
    then have "activity_of ?m best \<le> ?total" by (simp only: word_le_nat_alt total)
    from ratioHalfUp_share[OF this False, of 100] show ?thesis by (simp add: code False)
  qed
qed

lemma fits_merchant:
  assumes "totals_fit (total_in M) (total_out M)"
  shows "aggregate_fits dim M" and "activity_sum (aggregate_value dim pend k M) < 2 ^ 64"
proof -
  have bound: "(\<Sum>c\<in>C. activity_total M c) < 2 ^ 64" if "finite C" for C
  proof -
    have "total_in M < 2 ^ 63" "- (2 ^ 63) \<le> total_out M" using assms by (simp_all add: totals_fit_def)
    moreover have "(2 :: int) ^ 64 = 2 * 2 ^ 63" by simp
    ultimately have "int (\<Sum>c\<in>C. activity_total M c) < 2 ^ 64"
      using activity_le_totals[OF that, of M] unfolding of_nat_sum[symmetric] by linarith
    then show ?thesis by (simp del: of_nat_sum)
  qed
  have each: "activity_total M c < 2 ^ 64" for c using bound[of "{c}"] by simp
  then show "aggregate_fits dim M" using assms by (simp add: aggregate_fits_def)
  show "activity_sum (aggregate_value dim pend k M) < 2 ^ 64"
  proof (cases "dim = DimensionMerchant")
    case True
    have acts: "acc_activities (aggregate_value dim pend k M) = activities DimensionMerchant M"
      by (simp add: aggregate_value_def True)
    have un: "unat (activity_of (activities DimensionMerchant M) c) = activity_total M c" for c
      unfolding activity_of_activities by (rule unat_of_nat_small[OF each])
    show ?thesis
      using bound[of "fset (fmdom (activities DimensionMerchant M))"]
      unfolding activity_sum_def acts un
      by (simp add: sorted_list_of_fset.rep_eq sum_list_distinct_conv_sum_set)
  next
    case False
    then have "fmdom (acc_activities (aggregate_value dim pend k M)) = {||}"
      by (simp add: aggregate_value_def activities_def)
    then show ?thesis by (simp add: activity_sum_def sorted_list_of_fset.rep_eq)
  qed
qed

lemma aggregate_rows_ok:
  assumes "partitions_fit ts"
  shows "is_ok (aggregate_rows dim pend ts)"
proof -
  have key: "\<forall>t\<in>set ts. fst (aggregate_key dim t) = part_of t" by (simp add: aggregate_key_def)
  have fits: "totals_fit (total_in (with_key dim k ts)) (total_out (with_key dim k ts))" for k
    using fits_bucket[OF assms key, of k] by (simp add: with_code_def with_key_def)
  note fits' = fits[unfolded with_key_def]
  have "is_ok (aggregates.run dim pend ts)"
    using fits_merchant(1)[OF fits'] by (simp add: aggregates.run_ok)
  then obtain m where m: "aggregate_table dim pend ts = Inr m" by (auto simp: is_ok_iff aggregate_table_run)
  note run = m[unfolded aggregate_table_run]
  note e = aggregates.run_entries(2)[OF _ run, simplified]
  have each: "is_ok (finish_accumulator dim v)" if v: "v \<in> set (map snd m)" for v
  proof -
    obtain k where "(k, v) \<in> set m" using v by auto
    then have v: "v = aggregate_value dim pend k (with_key dim k ts)"
      unfolding e by (auto simp: with_key_def split: if_splits)
    have "is_ok (setTopCategory v)"
      unfolding v by (rule setTopCategory_ok[OF _ fits_merchant(2)[OF fits]]) (simp add: aggregate_value_def)
    then show ?thesis by (auto simp: finish_accumulator_def is_ok_iff)
  qed
  have "finish_accumulator dim v = Inr (projr (finish_accumulator dim v))" if v: "v \<in> set (map snd m)" for v
    using each[OF v] by (auto simp: is_ok_iff)
  then have base: "map_result (finish_accumulator dim) (map snd m)
      = Inr (map (\<lambda>v. projr (finish_accumulator dim v)) (map snd m))" (is "_ = Inr ?base")
    by (rule map_result_total)
  define base where "base = ?base"
  note base = base[folded base_def]
  note b = base_rows[OF m base]
  have "distinct (map row_identity base)"
    unfolding b(1) by (rule aggregates.run_entries(1)[OF _ run]) simp
  moreover have ids: "row_identity ` set base = aggregate_key dim ` set ts"
  proof -
    have "row_identity ` set base = fst ` set m" by (simp only: set_map[symmetric] b(1))
    also have "\<dots> = aggregate_key dim ` set ts" by (rule aggregates.run_keys[OF _ run]) simp
    finally show ?thesis .
  qed
  ultimately have "rows_hold (aggregate_key dim) ts base" using b(2) by (rule spec_rows_hold)
  moreover have "\<forall>row\<in>set base. row_part row \<in> part_of ` set ts"
  proof
    fix row assume "row \<in> set base"
    then obtain t where "t \<in> set ts" "row_identity row = aggregate_key dim t" using ids by blast
    then show "row_part row \<in> part_of ` set ts" by (auto simp: row_identity_part[symmetric] aggregate_key_def)
  qed
  ultimately have "shares_fit (mset base)" using assms by (intro rows_hold_shares)
  with m base show ?thesis by (simp add: aggregate_rows_def applyShares_Inr bind_result_Inr is_ok_iff)
qed

lemma aggregateTime_ok:
  assumes "partitions_fit ts" and "granularity_valid g" and "\<forall>t\<in>set ts. valid_date (trans_date t)"
  shows "is_ok (aggregateTime ts g pend)"
proof (cases ts)
  case Nil
  then show ?thesis by (simp add: aggregateTime_def)
next
  case (Cons t us)
  have key: "\<forall>t\<in>set ts. fst (time_key g t) = part_of t" by (simp add: time_key_def)
  have adm: "\<forall>t\<in>set ts. time_admissible g t" using assms(2,3) by (simp add: time_admissible_def)
  have fits: "totals_fit (total_in (mset (filter (\<lambda>t. time_key g t = k) ts))) (total_out (mset (filter (\<lambda>t. time_key g t = k) ts)))" for k
    using fits_bucket[OF assms(1) key, of k] unfolding with_code_def .
  have "is_ok (times.run g pend ts)" using fits by (simp add: times.run_ok[OF adm])
  then obtain actual where table: "time_table g pend ts = Inr actual"
    by (auto simp: is_ok_iff time_table_def times.run_def)
  obtain periods where ps: "periodsBetween (first_date ts) (last_date ts) g = Inr periods"
    "\<forall>p\<in>set periods. canonical g p" "distinct periods" "\<forall>t\<in>set ts. periodForDate (trans_date t) g \<in> set periods"
    by (rule periods_of_dates[OF assms(2,3)]) (simp_all add: Cons)
  have grid: "time_rows g actual periods (partitions_of ts) = time_grid g pend ts periods"
    by (rule time_rows_spec[OF assms(2,3) table ps(2)])
  have "rows_hold (time_key g) ts (time_grid g pend ts periods)"
    by (rule grid_hold[OF assms(2) ps(3,2,4) refl])
  moreover have "\<forall>row\<in>set (time_grid g pend ts periods). row_part row \<in> part_of ` set ts"
    by (auto simp: time_grid_def row_identity_part[symmetric] time_spec_identity partitions_of_def)
  ultimately have "shares_fit (mset (time_grid g pend ts periods))" using assms(1) by (intro rows_hold_shares)
  then show ?thesis
    using table ps(1) grid date_loops[OF assms(3) Cons]
    by (simp add: aggregateTime_def Cons Let_def applyShares_Inr partitions_of_def is_ok_iff)
qed

lemma aggregate_ok:
  assumes "partitions_fit ts" and "dimension_valid dim" and "granularity_valid g"
    and "\<forall>t\<in>set ts. valid_date (trans_date t)"
  shows "is_ok (aggregate ts dim g pend)"
  using assms by (simp add: aggregate_def aggregate_rows_ok aggregateTime_ok)

subsection \<open>Queries\<close>

lemma filterTransactions_filter:
  assumes "filterTransactions compile ts spec = Inr vis"
  obtains P where "\<And>us. filterTransactions compile us spec = Inr (filter P us)"
proof (cases "query_search spec = ''''")
  case True
  then show thesis by (intro that[of "\<lambda>t. matches t spec None"]) (simp add: filterTransactions_def)
next
  case False
  then obtain m where "compile (''(?i:'' @ query_search spec @ '')'') = Some m"
    using assms by (auto simp: filterTransactions_def split: option.splits)
  with False show thesis by (intro that[of "\<lambda>t. matches t spec (Some m)"]) (simp add: filterTransactions_def)
qed

lemma filterTransactions_subset:
  assumes "filterTransactions compile ts spec = Inr vis" and "\<forall>t\<in>set ts. Q t"
  shows "\<forall>t\<in>set vis. Q t"
proof -
  obtain P where P: "\<And>us. filterTransactions compile us spec = Inr (filter P us)"
    by (rule filterTransactions_filter[OF assms(1)]) blast
  then have "vis = filter P ts" using assms(1) by simp
  with assms(2) show ?thesis by simp
qed

lemma ValidateQuery_Inr:
  assumes "ValidateQuery spec = Inr ()"
  shows "granularity_valid (query_granularity spec)" and "mode_valid (query_mode spec)"
    and "query_mode spec = ResultModeAggregate \<Longrightarrow> dimension_valid (query_group_by spec)"
  using assms by (auto simp: ValidateQuery_def bind_result_Inr split: if_splits)

lemma filteredDateRange_bounds:
  assumes "\<forall>t\<in>set ts. valid_date (trans_date t)"
  shows "filteredDateRange ts = (if ts = [] then None
    else Some \<lparr>range_start = first_date ts, range_end = last_date ts\<rparr>)"
  using date_loops(3,4)[OF assms] by (cases ts) (simp_all add: filteredDateRange_def)

lemma query_Inr:
  assumes "query compile ts spec pend = Inr result"
  obtains vis where "ValidateQuery spec = Inr ()" and "filterTransactions compile ts spec = Inr vis"
    and "partitions_fit vis" and "result_statistics result = map (stats_spec vis) (partitions_of vis)"
    and "result_filtered result = int (length vis)" and "result_range result = filteredDateRange vis"
    and "query_mode spec = ResultModeDetail \<Longrightarrow>
      result_details result = DetailRows vis (query_sort spec) \<and> result_aggregates result = []"
    and "query_mode spec \<noteq> ResultModeDetail \<Longrightarrow> result_details result = [] \<and>
      (\<exists>rows. aggregate vis (query_group_by spec) (query_granularity spec) pend = Inr rows
        \<and> result_aggregates result = SortAggregateRows rows (query_sort spec))"
proof -
  obtain vis where v: "ValidateQuery spec = Inr ()" "filterTransactions compile ts spec = Inr vis"
    using assms by (auto simp: query_def bind_result_Inr)
  obtain statistics where st: "Statistics vis = Inr statistics"
    using assms v by (auto simp: query_def bind_result_Inr)
  have s: "partitions_fit vis" "statistics = map (stats_spec vis) (partitions_of vis)"
    using st by (simp_all add: Statistics_Inr)
  show thesis
  proof (cases "query_mode spec = ResultModeDetail")
    case True
    with assms v st s show thesis by (intro that[OF v s(1)]) (auto simp: query_def)
  next
    case False
    with assms v st s show thesis
      by (intro that[OF v s(1)]) (auto simp: query_def bind_result_Inr)
  qed
qed

text \<open>
  C16. A query on valid dates fails only for an invalid specification, a search expression that does
  not compile or visible totals out of range: once the statistics of the filtered transactions fit,
  grouping and its shares, activities and percentages never overflow, in either mode.
\<close>

theorem query_fails_only:
  assumes "\<forall>t\<in>set ts. valid_date (trans_date t)"
  shows "case query compile ts spec pend of
      Inr _ \<Rightarrow> is_ok (ValidateQuery spec)
        \<and> (\<exists>vis. filterTransactions compile ts spec = Inr vis \<and> partitions_fit vis)
    | Inl e \<Rightarrow> (\<exists>q. ValidateQuery spec = Inl q \<and> e = QueryInvalid q)
        \<or> query_search spec \<noteq> '''' \<and> compile (''(?i:'' @ query_search spec @ '')'') = None
          \<and> e = QueryFilter SearchInvalid
        \<or> (\<exists>vis. filterTransactions compile ts spec = Inr vis \<and> \<not> partitions_fit vis
             \<and> (\<exists>f. Statistics vis = Inl f \<and> e = QueryFilter f))"
proof (cases "ValidateQuery spec")
  case (Inl q)
  then show ?thesis by (simp add: query_def)
next
  case (Inr u)
  then have spec: "ValidateQuery spec = Inr ()" by simp
  note valid = ValidateQuery_Inr[OF spec]
  show ?thesis
  proof (cases "filterTransactions compile ts spec")
    case (Inl e)
    then have "query_search spec \<noteq> '''' \<and> compile (''(?i:'' @ query_search spec @ '')'') = None \<and> e = SearchInvalid"
      by (auto simp: filterTransactions_def split: if_splits option.splits)
    with Inl spec show ?thesis by (simp add: query_def)
  next
    case (Inr vis)
    have dates: "\<forall>t\<in>set vis. valid_date (trans_date t)" by (rule filterTransactions_subset[OF Inr assms])
    show ?thesis
    proof (cases "Statistics vis")
      case (Inl e)
      then have "\<not> partitions_fit vis" using Statistics_Inr[of vis] by auto
      with Inl Inr spec show ?thesis by (simp add: query_def)
    next
      case st: (Inr statistics)
      then have fit: "partitions_fit vis" by (simp add: Statistics_Inr)
      have "is_ok (query compile ts spec pend)"
      proof (cases "query_mode spec = ResultModeDetail")
        case True
        with spec Inr st show ?thesis by (simp add: query_def)
      next
        case False
        then have "dimension_valid (query_group_by spec)" using valid(2,3) by (auto simp: mode_valid_def)
        from aggregate_ok[OF fit this valid(1) dates, of pend] False spec Inr st
        show ?thesis by (auto simp: query_def is_ok_iff)
      qed
      with fit spec Inr show ?thesis by (auto simp: is_ok_iff)
    qed
  qed
qed

definition example_query :: query_spec where
  "example_query = \<lparr>query_range = None, query_search = '''', query_show_hidden = True, query_show_transfers = True,
     query_currency = None, query_drilldowns = [], query_mode = ResultModeAggregate,
     query_group_by = DimensionCategory, query_granularity = TimeGranularityMonth,
     query_sort = \<lparr>sort_by = SortFieldAmount, sort_order = SortDirectionDesc\<rparr>\<rparr>"

lemma example_query_parts:
  "ValidateQuery example_query = Inr ()" "filterTransactions compile example_txs example_query = Inr example_txs"
  "partitions_fit example_txs"
  by (simp_all add: example_query_def ValidateQuery_def mode_valid_def granularity_valid_def direction_valid_def
      validateCurrencyScope_def dimension_valid_def validAggregateSort_def filterTransactions_def matches_def
      matchesCurrency_def partitions_fit_def in_partition_def totals_fit_def example_txs_def example_tx_def
      part_of_def tx_in_def tx_out_def)

theorem query_fails_only_witness:
  "\<exists>result. query (\<lambda>_. None) example_txs example_query False = Inr result"
  using query_fails_only[OF example_txs_valid, where compile = "\<lambda>_. None" and spec = example_query and pend = False]
    example_query_parts
  by (auto split: sum.splits) (simp add: example_query_def)

text \<open>The rows of a grouped query, in whatever order, account for the filtered transactions.\<close>

lemma rows_hold_mset:
  assumes "rows_hold K ts rows" and "mset others = mset rows"
  shows "rows_hold K ts others"
proof -
  have "set others = set rows" using assms(2) by (rule mset_eq_setD)
  moreover have "distinct (map row_identity others) \<longleftrightarrow> distinct (map row_identity rows)"
    using assms(2) by (intro mset_eq_imp_distinct_iff) simp
  ultimately show ?thesis using assms(1) by (simp add: rows_hold_def)
qed

lemma sorted_rows_hold:
  assumes "rows_hold K ts rows"
  shows "rows_hold K ts (SortAggregateRows rows spec)"
  using assms by (rule rows_hold_mset) (simp add: SortAggregateRows_def)

lemma sum_rows_count:
  assumes "rows_hold K ts rows"
  shows "(\<Sum>row\<leftarrow>rows. row_count row) = int (length ts)"
proof -
  have "map row_count rows = map (\<lambda>row. \<Sum>t\<in>#with_code K (row_identity row) ts. 1) rows"
    using assms by (intro map_cong) (simp_all add: rows_hold_def row_holds_def)
  also have "\<dots> = map (\<lambda>k. \<Sum>t\<in>#mset (filter (\<lambda>t. K t = k) ts). 1) (map row_identity rows)"
    by (simp add: with_code_def)
  finally have "(\<Sum>row\<leftarrow>rows. row_count row)
      = (\<Sum>k\<leftarrow>map row_identity rows. \<Sum>t\<in>#mset (filter (\<lambda>t. K t = k) ts). 1)"
    by (simp only:)
  also have "\<dots> = (\<Sum>t\<leftarrow>ts. 1)"
    using assms by (intro sum_by_code) (simp_all add: rows_hold_def)
  finally show ?thesis by (simp add: sum_list_triv)
qed

definition rows_of_stats :: "query_result \<Rightarrow> currency_stats \<Rightarrow> aggregate_row list" where
  "rows_of_stats result s =
     filter (\<lambda>row. row_part row = (stats_currency s, stats_scale s)) (result_aggregates result)"

text \<open>
  C15. A query adds up. In aggregate mode the counts of the rows sum to the number of filtered
  transactions, and for every currency and scale of the statistics the counts, the income, the
  expenses and the net totals of its rows sum exactly to the statistics; in detail mode the rows are
  the filtered transactions. The range reported is the first and last filtered date.
\<close>

theorem query_adds_up:
  assumes "\<forall>t\<in>set ts. valid_date (trans_date t)" and "query compile ts spec pend = Inr result"
  shows "\<exists>vis. filterTransactions compile ts spec = Inr vis
    \<and> result_filtered result = int (length vis)
    \<and> result_range result = (if vis = [] then None
        else Some \<lparr>range_start = Min (trans_date ` set vis), range_end = Max (trans_date ` set vis)\<rparr>)
    \<and> (if query_mode spec = ResultModeDetail
       then mset (map detail_transaction (result_details result)) = mset vis
       else (\<Sum>row\<leftarrow>result_aggregates result. row_count row) = result_filtered result
         \<and> (\<forall>s\<in>set (result_statistics result).
              (\<Sum>row\<leftarrow>rows_of_stats result s. row_count row) = stats_count s
              \<and> (\<Sum>row\<leftarrow>rows_of_stats result s. sint (minor (row_in row))) = sint (minor (stats_in s))
              \<and> (\<Sum>row\<leftarrow>rows_of_stats result s. sint (minor (row_out row))) = sint (minor (stats_out s))
              \<and> (\<Sum>row\<leftarrow>rows_of_stats result s. sint (minor (row_total row))) = sint (minor (stats_net s))))"
proof -
  obtain vis where v: "filterTransactions compile ts spec = Inr vis" "partitions_fit vis"
    "result_statistics result = map (stats_spec vis) (partitions_of vis)"
    "result_filtered result = int (length vis)" "result_range result = filteredDateRange vis"
    and d: "query_mode spec = ResultModeDetail \<Longrightarrow> result_details result = DetailRows vis (query_sort spec)"
    and a: "query_mode spec \<noteq> ResultModeDetail \<Longrightarrow>
      \<exists>rows. aggregate vis (query_group_by spec) (query_granularity spec) pend = Inr rows
        \<and> result_aggregates result = SortAggregateRows rows (query_sort spec)"
    by (rule query_Inr[OF assms(2)]) blast
  have dates: "\<forall>t\<in>set vis. valid_date (trans_date t)" by (rule filterTransactions_subset[OF v(1) assms(1)])
  have detail: "mset (map detail_transaction (result_details result)) = mset vis"
    if "query_mode spec = ResultModeDetail"
    using d[OF that] by (simp add: DetailRows_sort detail_row_of_def o_def)
  have sums: "(\<Sum>row\<leftarrow>result_aggregates result. row_count row) = int (length vis)
      \<and> (\<forall>s\<in>set (result_statistics result).
          (\<Sum>row\<leftarrow>rows_of_stats result s. row_count row) = stats_count s
          \<and> (\<Sum>row\<leftarrow>rows_of_stats result s. sint (minor (row_in row))) = sint (minor (stats_in s))
          \<and> (\<Sum>row\<leftarrow>rows_of_stats result s. sint (minor (row_out row))) = sint (minor (stats_out s))
          \<and> (\<Sum>row\<leftarrow>rows_of_stats result s. sint (minor (row_total row))) = sint (minor (stats_net s)))"
    if mode: "query_mode spec \<noteq> ResultModeDetail"
  proof -
    obtain rows where rows: "aggregate vis (query_group_by spec) (query_granularity spec) pend = Inr rows"
      "result_aggregates result = SortAggregateRows rows (query_sort spec)" using a[OF mode] by blast
    obtain K where "rows_hold K vis rows" using aggregate_hold[OF dates rows(1)] by blast
    then have hold: "rows_hold K vis (result_aggregates result)" unfolding rows(2) by (rule sorted_rows_hold)
    note tot = rows_hold_totals[OF hold v(2)]
    have each: "(\<Sum>row\<leftarrow>rows_of_stats result s. row_count row) = stats_count s
          \<and> (\<Sum>row\<leftarrow>rows_of_stats result s. sint (minor (row_in row))) = sint (minor (stats_in s))
          \<and> (\<Sum>row\<leftarrow>rows_of_stats result s. sint (minor (row_out row))) = sint (minor (stats_out s))
          \<and> (\<Sum>row\<leftarrow>rows_of_stats result s. sint (minor (row_total row))) = sint (minor (stats_net s))"
      if s: "s \<in> set (result_statistics result)" for s
    proof -
      obtain p where p: "p \<in> part_of ` set vis" "s = stats_spec vis p" using s by (auto simp: v(3) partitions_of_def)
      have "totals_fit (total_in (in_partition p vis)) (total_out (in_partition p vis))"
        using v(2) p(1) unfolding partitions_fit_def by blast
      note fit = totals_fit_sum[OF total_bounds this]
      have part: "(stats_currency s, stats_scale s) = p" by (simp add: p(2) stats_spec_def Let_def)
      have s: "stats_count s = int (size (in_partition p vis))" "sint (minor (stats_in s)) = total_in (in_partition p vis)"
        "sint (minor (stats_out s)) = total_out (in_partition p vis)"
        using fit by (simp_all add: p(2) stats_spec_def amount_of_def sint_of_int Let_def)
      have "sint (minor (stats_net s)) = total_in (in_partition p vis) + total_out (in_partition p vis)"
        using sint_of_int[OF fit(3)] by (simp add: p(2) stats_spec_def amount_of_def Let_def del: of_int_add)
      with s show ?thesis
        using tot(1-4)[of p] unfolding rows_of_stats_def part row_value_def by simp
    qed
    show ?thesis using sum_rows_count[OF hold] each by blast
  qed
  show ?thesis
    using v(1,4,5) filteredDateRange_bounds[OF dates] detail sums
    by (simp add: first_date_def last_date_def)
qed

theorem query_adds_up_witness:
  "\<exists>result. query (\<lambda>_. None) example_txs example_query False = Inr result
     \<and> (\<Sum>row\<leftarrow>result_aggregates result. row_count row) = 3"
proof -
  have valid: "granularity_valid (query_granularity example_query)" "dimension_valid (query_group_by example_query)"
    "query_mode example_query \<noteq> ResultModeDetail"
    by (simp_all add: example_query_def granularity_valid_def dimension_valid_def)
  obtain statistics where "Statistics example_txs = Inr statistics"
    using example_query_parts(3) by (auto simp: Statistics_Inr)
  moreover obtain rows where "aggregate example_txs (query_group_by example_query) (query_granularity example_query) False = Inr rows"
    using aggregate_ok[OF example_query_parts(3) valid(2,1) example_txs_valid, of False] by (auto simp: is_ok_iff)
  ultimately obtain result where r: "query (\<lambda>_. None) example_txs example_query False = Inr result"
    using valid(3) example_query_parts(1,2) by (auto simp: query_def)
  have "length example_txs = 3" by (simp add: example_txs_def)
  with query_adds_up[OF example_txs_valid r] example_query_parts(2) valid(3) r show ?thesis by auto
qed

subsection \<open>The order of the transactions\<close>

lemma in_partition_mset: "mset us = mset ts \<Longrightarrow> in_partition p us = in_partition p ts"
  by (simp add: in_partition_def)

lemma partitions_of_set: "set us = set ts \<Longrightarrow> partitions_of us = partitions_of ts"
  unfolding partitions_of_def by (rule sortedPartitions_unique) simp_all

lemma partitions_fit_mset: "mset us = mset ts \<Longrightarrow> partitions_fit us \<longleftrightarrow> partitions_fit ts"
  using mset_eq_setD[of us ts] by (simp add: partitions_fit_def in_partition_mset[of us ts])

lemma time_grid_mset:
  assumes "mset us = mset ts"
  shows "time_grid g pend us periods = time_grid g pend ts periods"
proof -
  have set: "set us = set ts" using assms by (rule mset_eq_setD)
  have "time_spec g pend us p = time_spec g pend ts p" for p
    by (rule ext) (simp add: time_spec_def with_time_key_def assms)
  then show ?thesis by (simp add: time_grid_def set partitions_of_set[OF set])
qed

lemma aggregateTime_permuted:
  assumes "granularity_valid g" and "\<forall>t\<in>set ts. valid_date (trans_date t)" and "partitions_fit ts"
    and "mset us = mset ts" and "aggregateTime ts g pend = Inr rows"
  shows "aggregateTime us g pend = Inr rows"
proof (cases "ts = []")
  case True
  then show ?thesis using assms(4,5) by simp
next
  case False
  have set: "set us = set ts" using assms(4) by (rule mset_eq_setD)
  have dates: "first_date us = first_date ts" "last_date us = last_date ts"
    by (simp_all add: first_date_def last_date_def set)
  have us: "\<forall>t\<in>set us. valid_date (trans_date t)" "us \<noteq> []" "partitions_fit us"
    using assms(2,3) False set by (auto simp: partitions_fit_mset[OF assms(4)])
  obtain others where o: "aggregateTime us g pend = Inr others"
    using aggregateTime_ok[OF us(3) assms(1) us(1)] by (auto simp: is_ok_iff)
  obtain ps where ps: "periodsBetween (first_date ts) (last_date ts) g = Inr ps"
    "rows = map (with_share (mset (time_grid g pend ts ps))) (time_grid g pend ts ps)"
    by (rule aggregateTime_Inr[OF assms(1,2) False assms(5)]) blast
  obtain qs where "periodsBetween (first_date us) (last_date us) g = Inr qs"
    "others = map (with_share (mset (time_grid g pend us qs))) (time_grid g pend us qs)"
    by (rule aggregateTime_Inr[OF assms(1) us(1,2) o]) blast
  then have "others = rows" using ps by (simp add: dates time_grid_mset[OF assms(4)])
  with o show ?thesis by simp
qed

lemma aggregate_permuted:
  assumes "\<forall>t\<in>set ts. valid_date (trans_date t)" and "partitions_fit ts" and "mset us = mset ts"
    and "aggregate ts dim g pend = Inr rows"
  shows "aggregate us dim g pend = Inr rows"
proof (cases "dim = DimensionTime")
  case True
  then have g: "dimension_valid dim" "granularity_valid g" "aggregateTime ts g pend = Inr rows"
    using assms(4) by (simp_all add: aggregate_def split: if_splits)
  with True aggregateTime_permuted[OF g(2) assms(1-3) g(3)] show ?thesis by (simp add: aggregate_def)
next
  case False
  then have d: "dimension_valid dim" "granularity_valid g" "aggregate_rows dim pend ts = Inr rows"
    using assms(4) by (simp_all add: aggregate_def split: if_splits)
  with False aggregate_rows_permuted[OF d(3) assms(3)] show ?thesis by (simp add: aggregate_def)
qed

text \<open>
  C17. The result of a query does not depend on the order in which the store returns the
  transactions: with distinct identities, any permutation of them gives the same rows, statistics,
  count and range.
\<close>

theorem query_order_independent:
  assumes "\<forall>t\<in>set ts. valid_date (trans_date t)" and "distinct (map trans_id ts)" and "mset us = mset ts"
  shows "query compile us spec pend = Inr result \<longleftrightarrow> query compile ts spec pend = Inr result"
proof -
  have step: "query compile vs spec pend = Inr result"
    if q: "query compile ws spec pend = Inr result" and m: "mset vs = mset ws"
      and dates: "\<forall>t\<in>set ws. valid_date (trans_date t)" and d: "distinct (map trans_id ws)" for vs ws
  proof -
    obtain vis where v: "ValidateQuery spec = Inr ()" "filterTransactions compile ws spec = Inr vis" "partitions_fit vis"
      "result_statistics result = map (stats_spec vis) (partitions_of vis)"
      "result_filtered result = int (length vis)" "result_range result = filteredDateRange vis"
      and det: "query_mode spec = ResultModeDetail \<Longrightarrow>
        result_details result = DetailRows vis (query_sort spec) \<and> result_aggregates result = []"
      and agg: "query_mode spec \<noteq> ResultModeDetail \<Longrightarrow> result_details result = [] \<and>
        (\<exists>rows. aggregate vis (query_group_by spec) (query_granularity spec) pend = Inr rows
          \<and> result_aggregates result = SortAggregateRows rows (query_sort spec))"
      by (rule query_Inr[OF q]) blast
    obtain P where P: "\<And>us. filterTransactions compile us spec = Inr (filter P us)"
      by (rule filterTransactions_filter[OF v(2)]) blast
    define seen where "seen = filter P vs"
    have vis: "vis = filter P ws" using P v(2) by simp
    have ms: "mset seen = mset vis" by (simp add: seen_def vis m)
    then have set: "set seen = set vis" by (rule mset_eq_setD)
    have vd: "\<forall>t\<in>set vis. valid_date (trans_date t)" using dates by (simp add: vis)
    have dv: "distinct (map trans_id vis)" using d by (simp add: vis distinct_map_filter)
    have "Statistics seen = Inr (result_statistics result)"
      using v(3) by (simp add: Statistics_Inr v(4) partitions_fit_mset[OF ms] partitions_of_set[OF set]
          stats_spec_def in_partition_mset[OF ms])
    moreover have "filteredDateRange seen = result_range result"
      using vd set v(6) filteredDateRange_bounds[of seen] filteredDateRange_bounds[OF vd]
      by (auto simp: first_date_def last_date_def)
    moreover have "length seen = length vis" using ms by (rule mset_eq_length)
    moreover have "query_mode spec = ResultModeDetail \<Longrightarrow> DetailRows seen (query_sort spec) = DetailRows vis (query_sort spec)"
      by (rule DetailRows_unique[OF ms dv])
    ultimately show ?thesis
      using v(1,5) det agg aggregate_permuted[OF vd v(3) ms, of "query_group_by spec" "query_granularity spec" pend]
      by (cases "query_mode spec = ResultModeDetail") (auto simp: query_def P simp flip: seen_def)
  qed
  have "\<forall>t\<in>set us. valid_date (trans_date t)" using assms(1) mset_eq_setD[OF assms(3)] by simp
  moreover have "distinct (map trans_id us)"
    using assms(2,3) by (metis mset_eq_imp_distinct_iff mset_map)
  ultimately show ?thesis using step[of us ts] step[of ts us] assms by metis
qed

theorem query_order_independent_witness:
  "\<forall>result. query (\<lambda>_. None) (rev example_txs) example_query True = Inr result
     \<longleftrightarrow> query (\<lambda>_. None) example_txs example_query True = Inr result"
proof -
  have "distinct (map trans_id example_txs)" by (simp add: example_txs_def example_tx_def)
  moreover have "mset (rev example_txs) = mset example_txs" by simp
  ultimately show ?thesis using query_order_independent[OF example_txs_valid] by blast
qed

end
