(* ===== verification/Analytics_Ranges.thy ===== *)
theory Analytics_Ranges
  imports Analytics_Totals Analytics_Periods
begin

text \<open>
  \<open>internal/analytics/ranges.go\<close>: the scope a user chose, the periods a chart or a Time grouping
  lists for it, the trend, the comparison range and the heatmap.  The lemmas show that enumerated
  and clipped periods tile an interval of days without gaps or overlaps.
\<close>

datatype scope_kind = ScopeDay | ScopeMonth | ScopeYear | ScopeCustom | ScopeAll

datatype heatmap_layout = HeatmapMonths | HeatmapWeeks

record period_range =
  pr_period :: period
  pr_start :: date
  pr_end :: date
  pr_partial :: bool
  pr_absent :: bool

record heatmap =
  heat_layout :: heatmap_layout
  heat_start :: date
  heat_end :: date

record range_input =
  in_scope :: "date_range option"
  in_today :: date
  in_first :: date
  in_latest :: date
  in_time_grouping :: bool
  in_time_unit :: time_granularity

record ranges =
  rs_kind :: scope_kind
  rs_scope :: "date_range option"
  rs_context_granularity :: time_granularity
  rs_context :: "period_range list"
  rs_trend :: "period_range list"
  rs_comparison :: "date_range option"
  rs_comparison_label :: string
  rs_heatmap :: "heatmap option"

datatype range_error =
    ScopeReversed
  | ScopeNil
  | RangePeriods period_error
  | RangeDate date_error

text \<open>Following the pointer \<open>input.Scope\<close> panics where it is nil.\<close>

definition deref_scope :: "range_input \<Rightarrow> (date_range \<Rightarrow> range_error + 'a) \<Rightarrow> range_error + 'a" where
  "deref_scope input f = (case in_scope input of None \<Rightarrow> Inl ScopeNil | Some s \<Rightarrow> f s)"

lemma deref_scope_Some [simp]: "in_scope input = Some s \<Longrightarrow> deref_scope input f = f s"
  by (simp add: deref_scope_def)

definition no_unit :: time_granularity where
  "no_unit = TimeGranularityUnknown ''''"

definition ClassifyScope :: "date_range option \<Rightarrow> scope_kind" where
  "ClassifyScope scope =
     (case scope of
        None \<Rightarrow> ScopeAll
      | Some s \<Rightarrow>
          if range_start s = range_end s then ScopeDay
          else if range_start s = MonthStart (range_start s) \<and> range_end s = MonthEnd (range_start s)
          then ScopeMonth
          else if range_start s = YearStart (range_start s) \<and> range_end s = YearEnd (range_start s)
          then ScopeYear
          else ScopeCustom)"

definition contains_date :: "date_range \<Rightarrow> date \<Rightarrow> bool" where
  "contains_date bounds d \<longleftrightarrow> date_compare (range_start bounds) d \<le> 0 \<and> date_compare d (range_end bounds) \<le> 0"

definition copyScope :: "date_range option \<Rightarrow> range_error + date_range option" where
  "copyScope scope =
     (case scope of
        None \<Rightarrow> Inr None
      | Some s \<Rightarrow> if date_compare (range_start s) (range_end s) > 0 then Inl ScopeReversed else Inr (Some s))"

definition throughToday :: "date_range \<Rightarrow> date \<Rightarrow> date_range" where
  "throughToday scope today = (if contains_date scope today then scope\<lparr>range_end := today\<rparr> else scope)"

definition monthsSpanned :: "date_range \<Rightarrow> int" where
  "monthsSpanned b =
     (year (range_end b) - year (range_start b)) * 12 + month (range_end b) - month (range_start b) + 1"

definition customGranularity :: "date_range \<Rightarrow> time_granularity" where
  "customGranularity scope =
     (if DaysBetween (range_start scope) (range_end scope) + 1 \<le> 62 then TimeGranularityDay
      else if monthsSpanned scope \<le> 36 then TimeGranularityMonth
      else TimeGranularityYear)"

definition clipPeriod :: "period_range \<Rightarrow> date_range \<Rightarrow> period_range" where
  "clipPeriod p bounds =
     (if date_compare (pr_start p) (range_start bounds) \<ge> 0 \<and> date_compare (pr_end p) (range_end bounds) \<le> 0
      then p
      else p\<lparr>pr_start := laterDate (pr_start p) (range_start bounds),
             pr_end := earlierDate (pr_end p) (range_end bounds), pr_partial := True\<rparr>)"

definition period_range_of :: "date_range \<Rightarrow> date \<Rightarrow> bool \<Rightarrow> period \<Rightarrow> range_error + period_range" where
  "period_range_of bounds today clip p =
     bind_result (map_error RangeDate (periodBounds p)) (\<lambda>(start, stop).
       let value = \<lparr>pr_period = p, pr_start = start, pr_end = stop,
             pr_partial = contains_date \<lparr>range_start = start, range_end = stop\<rparr> today \<and> today \<noteq> stop,
             pr_absent = False\<rparr>
       in Inr (if clip then clipPeriod value bounds else value))"

definition enumeratePeriods ::
    "date_range \<Rightarrow> time_granularity \<Rightarrow> date \<Rightarrow> bool \<Rightarrow> range_error + period_range list" where
  "enumeratePeriods bounds g today clip =
     bind_result (map_error RangePeriods (periodsBetween (range_start bounds) (range_end bounds) g))
       (map_result (period_range_of bounds today clip))"

definition timeRowBounds ::
    "scope_kind \<Rightarrow> range_input \<Rightarrow> range_error + date_range option \<times> time_granularity \<times> bool" where
  "timeRowBounds kind input =
     (case kind of
        ScopeDay \<Rightarrow> deref_scope input (\<lambda>s. Inr (Some (throughToday s (in_today input)), TimeGranularityDay, False))
      | ScopeMonth \<Rightarrow> deref_scope input (\<lambda>s. Inr (Some (throughToday s (in_today input)), TimeGranularityDay, False))
      | ScopeYear \<Rightarrow> deref_scope input (\<lambda>s. Inr (Some (throughToday s (in_today input)), TimeGranularityMonth, False))
      | ScopeCustom \<Rightarrow> deref_scope input (\<lambda>s. Inr (Some s, customGranularity s, True))
      | ScopeAll \<Rightarrow>
          if date_is_zero (in_first input) \<or> date_is_zero (in_latest input)
          then Inr (None, TimeGranularityMonth, False)
          else let bounds = \<lparr>range_start = in_first input, range_end = in_latest input\<rparr> in
            Inr (Some bounds, if monthsSpanned bounds > 60 then TimeGranularityYear else TimeGranularityMonth, False))"

definition timeRowPeriods ::
    "scope_kind \<Rightarrow> range_input \<Rightarrow> range_error + time_granularity \<times> period_range list" where
  "timeRowPeriods kind input =
     bind_result (timeRowBounds kind input) (\<lambda>(bounds, unit, clip).
        let g = (if in_time_unit input \<noteq> no_unit then in_time_unit input else unit) in
        case bounds of
          None \<Rightarrow> Inr (g, [])
        | Some b \<Rightarrow>
            bind_result (enumeratePeriods b g (in_today input) clip) (\<lambda>periods.
              if in_time_unit input = no_unit then Inr (g, periods)
              else case in_scope input of
                None \<Rightarrow> Inr (g, periods)
              | Some s \<Rightarrow> Inr (g, map (\<lambda>p. clipPeriod p s) periods)))"

definition TimeRowPeriods :: "range_input \<Rightarrow> range_error + time_granularity \<times> period_range list" where
  "TimeRowPeriods input =
     bind_result (copyScope (in_scope input)) (\<lambda>_. timeRowPeriods (ClassifyScope (in_scope input)) input)"

definition yearContextPeriods :: "date_range \<Rightarrow> range_input \<Rightarrow> range_error + period_range list" where
  "yearContextPeriods scope input =
     (let scopeYear = year (range_start scope);
          firstYear = (if \<not> date_is_zero (in_first input)
            then max (min (year (in_first input)) scopeYear) (scopeYear - 10 + 1) else scopeYear) in
      bind_result (map_error RangeDate (NewDate firstYear 1 1)) (\<lambda>start.
        enumeratePeriods \<lparr>range_start = start, range_end = range_end scope\<rparr> TimeGranularityYear
          (in_today input) False))"

definition contextPeriods ::
    "scope_kind \<Rightarrow> range_input \<Rightarrow> range_error + time_granularity \<times> period_range list" where
  "contextPeriods kind input =
     (if in_time_grouping input then timeRowPeriods kind input
      else case kind of
        ScopeDay \<Rightarrow> deref_scope input (\<lambda>s.
          bind_result (enumeratePeriods \<lparr>range_start = MonthStart (range_start s), range_end = MonthEnd (range_start s)\<rparr>
              TimeGranularityDay (in_today input) False)
            (\<lambda>ps. Inr (TimeGranularityDay, ps)))
      | ScopeMonth \<Rightarrow> deref_scope input (\<lambda>s.
          bind_result (map_error RangeDate (AddMonthsClamped (range_start s) (1 - 13))) (\<lambda>first.
          bind_result (enumeratePeriods \<lparr>range_start = first, range_end = range_end s\<rparr>
              TimeGranularityMonth (in_today input) False)
            (\<lambda>ps. Inr (TimeGranularityMonth, ps))))
      | ScopeYear \<Rightarrow> deref_scope input (\<lambda>s.
          bind_result (yearContextPeriods s input) (\<lambda>ps. Inr (TimeGranularityYear, ps)))
      | ScopeCustom \<Rightarrow> deref_scope input (\<lambda>s.
          bind_result (enumeratePeriods s (customGranularity s) (in_today input) True)
            (\<lambda>ps. Inr (customGranularity s, ps)))
      | ScopeAll \<Rightarrow> timeRowPeriods kind (input\<lparr>in_time_unit := no_unit\<rparr>))"

definition trendLastDay :: "range_input \<Rightarrow> date option" where
  "trendLastDay input =
     (case in_scope input of
        None \<Rightarrow> if date_is_zero (in_latest input) then None else Some (in_latest input)
      | Some s \<Rightarrow>
          if contains_date s (in_today input) \<and> in_today input \<noteq> range_end s then Some (in_today input)
          else Some (range_end s))"

definition trendPeriods :: "range_input \<Rightarrow> range_error + period_range list" where
  "trendPeriods input =
     (case trendLastDay input of
        None \<Rightarrow> Inr []
      | Some last_day \<Rightarrow>
          bind_result (map_error RangeDate (AddMonthsClamped (MonthStart last_day) (1 - 12))) (\<lambda>first.
          bind_result (enumeratePeriods \<lparr>range_start = first, range_end = MonthEnd last_day\<rparr>
              TimeGranularityMonth (in_today input) False) (\<lambda>periods.
            Inr (map (\<lambda>p. p\<lparr>pr_absent := date_is_zero (in_first input)
                \<or> date_compare (pr_end p) (in_first input) < 0\<rparr>) periods))))"

text \<open>The two layouts \<open>Jan 2\<close> and \<open>Jan 2, 2006\<close> of \<open>time.Format\<close>.\<close>

datatype comparison_layout = ComparisonDayLayout | ComparisonYearLayout

definition formatComparisonDate :: "date \<Rightarrow> comparison_layout \<Rightarrow> string" where
  "formatComparisonDate d layout =
     (case time_date (year d) (month d) (day d) of (y, m, dd) \<Rightarrow>
        take 3 (month_name m) @ '' '' @ format_int dd
        @ (case layout of ComparisonDayLayout \<Rightarrow> '''' | ComparisonYearLayout \<Rightarrow> '', '' @ format_padded 4 y))"

definition en_dash :: string where
  "en_dash = [CHR 0xE2, CHR 0x80, CHR 0x93]"

definition monthComparison :: "date_range \<Rightarrow> date \<Rightarrow> range_error + date_range option \<times> string" where
  "monthComparison scope today =
     bind_result (map_error RangeDate (AddMonthsClamped (range_start scope) (- 1))) (\<lambda>start.
       let name = take 3 (month_name (month start)) in
       if \<not> contains_date scope today \<or> today = range_end scope
       then Inr (Some \<lparr>range_start = start, range_end = MonthEnd start\<rparr>, ''vs '' @ name)
       else let last_day = min (day today) (day (MonthEnd start)) in
         bind_result (map_error RangeDate (AddDays start (last_day - 1))) (\<lambda>stop.
           let label = (if last_day = 1 then ''vs '' @ name @ '' 1''
             else ''vs '' @ name @ '' 1'' @ en_dash @ format_int last_day)
           in Inr (Some \<lparr>range_start = start, range_end = stop\<rparr>, label)))"

definition yearComparison :: "date_range \<Rightarrow> date \<Rightarrow> range_error + date_range option \<times> string" where
  "yearComparison scope today =
     bind_result (map_error RangeDate (AddMonthsClamped (range_start scope) (- 12))) (\<lambda>start.
       let label = ''vs '' @ format_padded 4 (year start) in
       if \<not> contains_date scope today \<or> today = range_end scope
       then Inr (Some \<lparr>range_start = start, range_end = YearEnd start\<rparr>, label)
       else bind_result (map_error RangeDate (AddMonthsClamped today (- 12))) (\<lambda>stop.
         Inr (Some \<lparr>range_start = start, range_end = stop\<rparr>, label @ '' to date'')))"

definition customComparison :: "date_range \<Rightarrow> range_error + date_range option \<times> string" where
  "customComparison scope =
     (let days = DaysBetween (range_start scope) (range_end scope) + 1 in
      bind_result (map_error RangeDate (AddDays (range_start scope) (- 1))) (\<lambda>stop.
      bind_result (map_error RangeDate (AddDays stop (1 - days))) (\<lambda>start.
        let layout = (if year start \<noteq> year stop then ComparisonYearLayout else ComparisonDayLayout) in
        Inr (Some \<lparr>range_start = start, range_end = stop\<rparr>,
          ''vs '' @ formatComparisonDate start layout @ '' '' @ en_dash @ '' '' @ formatComparisonDate stop layout))))"

definition comparisonRange :: "scope_kind \<Rightarrow> range_input \<Rightarrow> range_error + date_range option \<times> string" where
  "comparisonRange kind input =
     (case kind of
        ScopeDay \<Rightarrow> deref_scope input (\<lambda>s.
          bind_result (map_error RangeDate (AddDays (range_start s) (- 1))) (\<lambda>previous.
            Inr (Some \<lparr>range_start = previous, range_end = previous\<rparr>,
              ''vs '' @ formatComparisonDate previous ComparisonDayLayout)))
      | ScopeMonth \<Rightarrow> deref_scope input (\<lambda>s. monthComparison s (in_today input))
      | ScopeYear \<Rightarrow> deref_scope input (\<lambda>s. yearComparison s (in_today input))
      | ScopeCustom \<Rightarrow> deref_scope input (\<lambda>s. customComparison s)
      | ScopeAll \<Rightarrow> Inr (None, ''''))"

definition weekStrip :: "date \<Rightarrow> range_error + heatmap option" where
  "weekStrip stop =
     bind_result (map_error RangeDate (AddDays stop (1 - 53 * 7))) (\<lambda>start.
       Inr (Some \<lparr>heat_layout = HeatmapWeeks, heat_start = start, heat_end = stop\<rparr>))"

definition heatmapRange :: "scope_kind \<Rightarrow> range_input \<Rightarrow> range_error + heatmap option" where
  "heatmapRange kind input =
     (case kind of
        ScopeDay \<Rightarrow> deref_scope input (\<lambda>s. Inr (Some \<lparr>heat_layout = HeatmapMonths, heat_start = MonthStart (range_start s),
          heat_end = MonthEnd (range_start s)\<rparr>))
      | ScopeMonth \<Rightarrow> deref_scope input (\<lambda>s. Inr (Some \<lparr>heat_layout = HeatmapMonths, heat_start = MonthStart (range_start s),
          heat_end = MonthEnd (range_start s)\<rparr>))
      | ScopeYear \<Rightarrow> deref_scope input (\<lambda>s. Inr (Some \<lparr>heat_layout = HeatmapWeeks, heat_start = range_start s,
          heat_end = range_end s\<rparr>))
      | ScopeCustom \<Rightarrow> deref_scope input (\<lambda>s.
          if DaysBetween (range_start s) (range_end s) + 1 \<le> 62
          then Inr (Some \<lparr>heat_layout = HeatmapMonths, heat_start = MonthStart (range_start s),
            heat_end = MonthEnd (range_end s)\<rparr>)
          else weekStrip (range_end s))
      | ScopeAll \<Rightarrow> if date_is_zero (in_latest input) then Inr None else weekStrip (in_latest input))"

definition ResolveRanges :: "range_input \<Rightarrow> range_error + ranges" where
  "ResolveRanges input =
     (let kind = ClassifyScope (in_scope input) in
      bind_result (copyScope (in_scope input)) (\<lambda>scope.
      bind_result (contextPeriods kind input) (\<lambda>(g, context).
      bind_result (if in_time_grouping input then Inr [] else trendPeriods input) (\<lambda>trend.
      bind_result (comparisonRange kind input) (\<lambda>(comparison, label).
      bind_result (heatmapRange kind input) (\<lambda>heat.
        Inr \<lparr>rs_kind = kind, rs_scope = scope, rs_context_granularity = g, rs_context = context,
          rs_trend = trend, rs_comparison = comparison, rs_comparison_label = label,
          rs_heatmap = heat\<rparr>))))))"

subsection \<open>Tilings\<close>

definition adjacent :: "date \<Rightarrow> date \<Rightarrow> bool" where
  "adjacent d e \<longleftrightarrow> date_number e = date_number d + 1"

fun tiles :: "date \<Rightarrow> date \<Rightarrow> period_range list \<Rightarrow> bool" where
  "tiles a b [] \<longleftrightarrow> False"
| "tiles a b [r] \<longleftrightarrow> pr_start r = a \<and> pr_end r = b \<and> a \<le> b \<and> valid_date a \<and> valid_date b"
| "tiles a b (r # q # rs) \<longleftrightarrow> pr_start r = a \<and> a \<le> pr_end r \<and> valid_date a \<and> valid_date (pr_end r)
     \<and> adjacent (pr_end r) (pr_start q) \<and> tiles (pr_start q) b (q # rs)"

lemma tiles_start: "tiles a b (r # rs) \<Longrightarrow> pr_start r = a \<and> a \<le> pr_end r \<and> valid_date a \<and> valid_date (pr_end r)"
  by (cases rs) auto

lemma adjacent_less: "valid_date d \<Longrightarrow> valid_date e \<Longrightarrow> adjacent d e \<Longrightarrow> d < e"
  using date_number_less[of d e] by (simp add: adjacent_def)

lemma tiles_bounds: "tiles a b rs \<Longrightarrow> a \<le> b \<and> valid_date b \<and> (\<forall>r\<in>set rs. a \<le> pr_start r \<and> pr_start r \<le> pr_end r \<and> pr_end r \<le> b
    \<and> valid_date (pr_start r) \<and> valid_date (pr_end r))"
proof (induction a b rs rule: tiles.induct)
  case (3 a b r q rs)
  then have v: "a \<le> pr_end r" "pr_end r < pr_start q"
    using tiles_start[of "pr_start q" b q rs] adjacent_less[of "pr_end r" "pr_start q"] by auto
  show ?case using 3 v by (auto intro: order_trans[OF order_less_imp_le])
qed auto

text \<open>The periods of an interval of indexes tile the days from the first start to the last end.\<close>

lemma period_bounds_adjacent:
  assumes "granularity_valid g" and "canonical g p" and "canonical g q"
    and "period_index q = period_index p + 1"
    and "periodBounds p = Inr (s, e)" and "periodBounds q = Inr (s', e')"
  shows "adjacent e s'"
proof -
  obtain d where d: "valid_date d" "p = periodForDate d g" using assms(2) by (auto simp: canonical_def)
  obtain d' where d': "valid_date d'" "q = periodForDate d' g" using assms(3) by (auto simp: canonical_def)
  note cov = periodBounds_covers[OF assms(1) d(1) assms(5)[unfolded d(2)], folded d(2)]
  note cov' = periodBounds_covers[OF assms(1) d'(1) assms(6)[unfolded d'(2)], folded d'(2)]
  have "s \<le> e" "s' \<le> e'" using order_trans[OF cov(3,4)] order_trans[OF cov'(3,4)] by simp_all
  then have pe: "periodForDate e g = p" "periodForDate s' g = q"
    using cov(5)[OF cov(2)] cov'(5)[OF cov'(1)] by simp_all
  have "e < s'"
  proof (rule ccontr)
    assume "\<not> e < s'"
    then have "period_index q \<le> period_index p"
      using period_index_mono[OF assms(1) cov'(1) cov(2)] pe by auto
    with assms(4) show False by simp
  qed
  then have lt: "date_number e < date_number s'" using date_number_less[OF cov(2) cov'(1)] by simp
  have "date_number s' = date_number e + 1"
  proof (rule ccontr)
    assume ne: "date_number s' \<noteq> date_number e + 1"
    have "0 \<le> date_number e" "date_number s' \<le> day_number 9999 12 31"
      using year_range_iff[OF valid_calendar_date[OF cov(2)]] year_range_iff[OF valid_calendar_date[OF cov'(1)]]
        cov(2) cov'(1) by (simp_all add: valid_date_def)
    then have "\<exists>x. AddDays e 1 = Inr x"
      using lt by (simp add: AddDays_eq[OF cov(2)] split: prod.split)
    then obtain x where "AddDays e 1 = Inr x" by blast
    then have x: "valid_date x" "date_number x = date_number e + 1" using AddDays_Inr[OF cov(2)] by simp_all
    then have o: "e < x" "x < s'"
      using date_number_less[OF cov(2) x(1)] date_number_less[OF x(1) cov'(1)] lt ne by simp_all
    have "period_index p \<le> period_index (periodForDate x g)" "period_index (periodForDate x g) \<le> period_index q"
      using period_index_mono[OF assms(1) cov(2) x(1)] period_index_mono[OF assms(1) x(1) cov'(1)] o pe by auto
    then consider "period_index (periodForDate x g) = period_index p" | "period_index (periodForDate x g) = period_index q"
      using assms(4) by linarith
    then show False
    proof cases
      case 1
      then have "periodForDate x g = p"
        using period_index_eq[OF assms(1) canonical_periodForDate[OF x(1)] assms(2)] by simp
      then have "x \<le> e" using cov(5)[OF x(1)] by simp
      with o(1) show False by simp
    next
      case 2
      then have "periodForDate x g = q"
        using period_index_eq[OF assms(1) canonical_periodForDate[OF x(1)] assms(3)] by simp
      then have "s' \<le> x" using cov'(5)[OF x(1)] by simp
      with o(2) show False by simp
    qed
  qed
  then show ?thesis by (simp add: adjacent_def)
qed

lemma plain_tiles:
  assumes "granularity_valid g" and "ps \<noteq> []" and "\<forall>p\<in>set ps. canonical g p"
    and "map period_index ps = [period_index (hd ps)..period_index (last ps)]"
  obtains rs where "map_result (period_range_of bounds today False) ps = Inr rs"
    and "map pr_period rs = ps"
    and "tiles (fst (projr (periodBounds (hd ps)))) (snd (projr (periodBounds (last ps)))) rs"
proof -
  have each: "\<exists>s e. periodBounds p = Inr (s, e) \<and> s \<le> e \<and> valid_date s \<and> valid_date e" if "p \<in> set ps" for p
  proof -
    obtain d where d: "valid_date d" "p = periodForDate d g" using assms(3) \<open>p \<in> set ps\<close> by (auto simp: canonical_def)
    obtain s e where b: "periodBounds (periodForDate d g) = Inr (s, e)"
      using periodBounds_date[OF assms(1) d(1)] by (auto split: time_granularity.splits)
    note cov = periodBounds_covers[OF assms(1) d(1) b]
    show ?thesis using b cov(1,2) order_trans[OF cov(3,4)] d(2) by blast
  qed
  define f where "f p = projr (period_range_of bounds today False p)" for p
  have f: "period_range_of bounds today False p = Inr (f p) \<and> pr_period (f p) = p
      \<and> periodBounds p = Inr (pr_start (f p), pr_end (f p))" if p: "p \<in> set ps" for p
    using each[OF p] by (auto simp: f_def period_range_of_def Let_def)
  have "tiles (pr_start (f (hd qs))) (pr_end (f (last qs))) (map f qs)"
    if "qs \<noteq> []" "set qs \<subseteq> set ps" "map period_index qs = [period_index (hd qs)..period_index (last qs)]" for qs
    using that
  proof (induction qs rule: induct_list012)
    case (2 p)
    then show ?case using each[of p] f[of p] by auto
  next
    case (3 p q qs)
    have pq: "p \<in> set ps" "q \<in> set ps" using 3 by auto
    have le: "period_index p \<le> period_index (last (q # qs))"
      using "3.prems"(3) by (metis length_map list.distinct(1) list.size(3) map_is_Nil_conv upto_empty not_le list.sel(1) last_ConsR)
    then have eq: "period_index q # map period_index qs = [period_index p + 1..period_index (last (q # qs))]"
      using "3.prems"(3) by (simp add: upto_rec1)
    then have q: "period_index q = period_index p + 1"
      by (metis list.distinct(1) list.sel(1) not_le upto_empty upto_rec1)
    have "tiles (pr_start (f q)) (pr_end (f (last (q # qs)))) (map f (q # qs))"
      using "3.IH"(2) "3.prems"(2) eq q by simp
    moreover have "adjacent (pr_end (f p)) (pr_start (f q))"
      using period_bounds_adjacent[OF assms(1) _ _ q] assms(3) pq f[OF pq(1)] f[OF pq(2)] by blast
    ultimately show ?case using each[OF pq(1)] f[OF pq(1)] by auto
  qed simp
  from this[OF assms(2) order_refl assms(4)]
  have "tiles (pr_start (f (hd ps))) (pr_end (f (last ps))) (map f ps)" .
  moreover have "periodBounds (hd ps) = Inr (pr_start (f (hd ps)), pr_end (f (hd ps)))"
    "periodBounds (last ps) = Inr (pr_start (f (last ps)), pr_end (f (last ps)))"
    using f[of "hd ps"] f[of "last ps"] assms(2) by simp_all
  moreover have "map_result (period_range_of bounds today False) ps = Inr (map f ps)"
    using f by (intro map_result_total) blast
  moreover have "map pr_period (map f ps) = ps" using f by (simp add: map_idI)
  ultimately show thesis by (intro that) simp_all
qed

lemma clipPeriod_ends:
  assumes "valid_date (pr_start r)" and "valid_date (pr_end r)"
    and "valid_date (range_start b)" and "valid_date (range_end b)"
  shows "pr_start (clipPeriod r b) = max (pr_start r) (range_start b)"
    and "pr_end (clipPeriod r b) = min (pr_end r) (range_end b)"
    and "pr_period (clipPeriod r b) = pr_period r"
  using assms by (auto simp: clipPeriod_def laterDate_max earlierDate_min date_compare_valid max_def min_def)

lemma clip_tiles:
  assumes "tiles a b rs" and "valid_date (range_start s)" and "valid_date (range_end s)"
    and "range_start s \<le> range_end s" and "range_start s \<le> pr_end (hd rs)" and "pr_start (last rs) \<le> range_end s"
  shows "tiles (max a (range_start s)) (min b (range_end s)) (map (\<lambda>r. clipPeriod r s) rs)"
  using assms(1,5,6)
proof (induction a b rs rule: tiles.induct)
  case (2 a b r)
  then show ?case
    using clipPeriod_ends[of r s] assms(2-4) by (auto simp: max_def min_def)
next
  case (3 a b r q rs)
  have q: "pr_start q \<le> pr_end q" "valid_date (pr_start q)" "valid_date (pr_end q)" "tiles (pr_start q) b (q # rs)"
    using "3.prems"(1) tiles_start[of "pr_start q" b q rs] by auto
  have r: "pr_start r = a" "valid_date a" "valid_date (pr_end r)" "a \<le> pr_end r" using "3.prems"(1) by auto
  have lt: "pr_end r < pr_start q" using "3.prems"(1) adjacent_less[of "pr_end r" "pr_start q"] q(2) r(3) by auto
  have "pr_start q \<le> pr_start (last (q # rs))" using tiles_bounds[OF q(4)] last_in_set[of "q # rs"] by blast
  then have hi: "pr_end r \<le> range_end s" "pr_start q \<le> range_end s" using lt "3.prems"(3) by auto
  have lo: "range_start s \<le> pr_end r" "range_start s \<le> pr_start q" "range_start s \<le> pr_end q"
    using "3.prems"(2) lt q(1) by auto
  have IH: "tiles (max (pr_start q) (range_start s)) (min b (range_end s)) (map (\<lambda>r. clipPeriod r s) (q # rs))"
    using "3.IH" q(4) lo "3.prems"(3) by simp
  note cr = clipPeriod_ends[of r s] and cq = clipPeriod_ends[of q s]
  have "pr_start (clipPeriod r s) = max a (range_start s)" "pr_end (clipPeriod r s) = pr_end r"
    "pr_start (clipPeriod q s) = pr_start q"
    using cr cq r q assms(2,3) hi lo by (auto simp: max_def min_def)
  moreover have "valid_date (max a (range_start s))" using r(2) assms(2) by (simp add: max_def)
  ultimately show ?case using IH "3.prems"(1) r lo by (auto simp: max_def)
qed simp

lemma enumeratePeriods_tiles:
  assumes "granularity_valid g" and "valid_date (range_start b)" and "valid_date (range_end b)"
    and "range_start b \<le> range_end b"
  obtains rs s e where "enumeratePeriods b g today clip = Inr rs"
    and "periodBounds (periodForDate (range_start b) g) = Inr s" and "periodBounds (periodForDate (range_end b) g) = Inr e"
    and "tiles (if clip then range_start b else fst s) (if clip then range_end b else snd e) rs"
    and "fst s \<le> range_start b" and "range_end b \<le> snd e"
    and "range_start b \<le> pr_end (hd rs)" and "pr_start (last rs) \<le> range_end b"
    and "map pr_period rs = projr (periodsBetween (range_start b) (range_end b) g)"
proof -
  let ?a = "range_start b" and ?b = "range_end b"
  obtain ps where ps: "periodsBetween ?a ?b g = Inr ps"
    "map period_index ps = [period_index (periodForDate ?a g)..period_index (periodForDate ?b g)]"
    "\<forall>p\<in>set ps. canonical g p"
    by (rule periodsBetween_interval[OF assms]) blast
  have le: "period_index (periodForDate ?a g) \<le> period_index (periodForDate ?b g)"
    by (rule period_index_mono[OF assms])
  then have ne: "ps \<noteq> []" using ps(2) by auto
  have ends: "hd (map period_index ps) = period_index (periodForDate ?a g)"
    "last (map period_index ps) = period_index (periodForDate ?b g)"
    unfolding ps(2) by (simp add: upto_rec1[OF le], simp add: upto_rec2[OF le])
  have hd: "hd ps = periodForDate ?a g" and last: "last ps = periodForDate ?b g"
    using ends ne ps(3) period_index_eq[OF assms(1) _ canonical_periodForDate[OF assms(2)]]
      period_index_eq[OF assms(1) _ canonical_periodForDate[OF assms(3)]]
    by (simp_all add: hd_map last_map)
  obtain rs where rs: "map_result (period_range_of b today False) ps = Inr rs" "map pr_period rs = ps"
    "tiles (fst (projr (periodBounds (hd ps)))) (snd (projr (periodBounds (last ps)))) rs"
    by (rule plain_tiles[OF assms(1) ne ps(3)]) (simp_all add: hd last ps(2))
  obtain s e where s: "periodBounds (periodForDate ?a g) = Inr s" and e: "periodBounds (periodForDate ?b g) = Inr e"
    using periodBounds_date[OF assms(1,2)] periodBounds_date[OF assms(1,3)] by blast
  have "fst s \<le> ?a \<and> ?a \<le> snd s" "fst e \<le> ?b \<and> ?b \<le> snd e"
    using periodBounds_covers(3,4)[OF assms(1,2), of "fst s" "snd s"] s
      periodBounds_covers(3,4)[OF assms(1,3), of "fst e" "snd e"] e by simp_all
  moreover have "rs \<noteq> []" using rs(2) ne by auto
  moreover have "pr_end (hd rs) = snd s" "pr_start (last rs) = fst e"
  proof -
    have bounds: "periodBounds (pr_period r) = Inr (pr_start r, pr_end r)" if r: "r \<in> set rs" for r
    proof -
      have "list_all2 (\<lambda>p r. period_range_of b today False p = Inr r) ps rs" using rs(1) by (simp add: map_result_Inr)
      then obtain p where "period_range_of b today False p = Inr r" using r by (auto simp: list_all2_conv_all_nth in_set_conv_nth)
      then show ?thesis by (auto simp: period_range_of_def bind_result_Inr Let_def)
    qed
    have "pr_period (hd rs) = hd ps" "pr_period (last rs) = last ps"
      using rs(2) \<open>rs \<noteq> []\<close> by (auto simp: hd_map last_map)
    with bounds[of "hd rs"] bounds[of "last rs"] \<open>rs \<noteq> []\<close> s e hd last
    show "pr_end (hd rs) = snd s" "pr_start (last rs) = fst e" by simp_all
  qed
  ultimately have b1: "fst s \<le> ?a" "?b \<le> snd e" "?a \<le> pr_end (hd rs)" "pr_start (last rs) \<le> ?b" "rs \<noteq> []" by simp_all
  have t: "tiles (fst s) (snd e) rs" using rs(3) by (simp add: hd last s e)
  show thesis
  proof (cases clip)
    case False
    show thesis
      by (rule that[of rs s e, OF _ s e])
        (simp_all add: enumeratePeriods_def ps(1) rs(1) rs(2) False t b1)
  next
    case True
    let ?cs = "map (\<lambda>r. clipPeriod r b) rs"
    have c: "tiles (max (fst s) ?a) (min (snd e) ?b) ?cs"
      by (rule clip_tiles[OF t assms(2-4) b1(3,4)])
    have m: "max (fst s) ?a = ?a" "min (snd e) ?b = ?b" using b1 by (auto simp: max_def min_def)
    have "period_range_of b today True p = map_sum id (\<lambda>r. clipPeriod r b) (period_range_of b today False p)" for p
      by (cases "periodBounds p") (auto simp: period_range_of_def Let_def split: prod.split)
    then have "map_result (period_range_of b today True) ps = Inr ?cs"
      using rs(1) by (auto simp: map_result_Inr list_all2_map2 elim!: list_all2_mono)
    moreover have v: "\<forall>r\<in>set rs. valid_date (pr_start r) \<and> valid_date (pr_end r)" using tiles_bounds[OF t] by blast
    moreover have "map pr_period ?cs = ps"
      using v rs(2) clipPeriod_ends(3) assms(2,3) by (auto simp: o_def cong: map_cong)
    moreover have "?a \<le> pr_end (hd ?cs)" "pr_start (last ?cs) \<le> ?b"
      using v b1 assms clipPeriod_ends[of "hd rs" b] clipPeriod_ends[of "last rs" b]
      by (simp_all add: hd_map last_map)
    ultimately show thesis
      using True by (intro that[of ?cs s e, OF _ s e]) (simp_all add: enumeratePeriods_def ps(1) c[unfolded m] b1)
  qed
qed

subsection \<open>The rows of a Time grouping\<close>

definition range_input_ok :: "range_input \<Rightarrow> bool" where
  "range_input_ok input \<longleftrightarrow>
     (\<forall>s. in_scope input = Some s \<longrightarrow> valid_date (range_start s) \<and> valid_date (range_end s) \<and> range_start s \<le> range_end s)
     \<and> valid_date (in_today input)
     \<and> (in_time_unit input = no_unit \<or> granularity_valid (in_time_unit input))
     \<and> (date_is_zero (in_first input) \<or> valid_date (in_first input))
     \<and> (date_is_zero (in_latest input) \<or> valid_date (in_latest input))
     \<and> (\<not> date_is_zero (in_first input) \<and> \<not> date_is_zero (in_latest input) \<longrightarrow> in_first input \<le> in_latest input)"

lemma contains_date_iff:
  "valid_date (range_start s) \<Longrightarrow> valid_date (range_end s) \<Longrightarrow> valid_date d \<Longrightarrow>
    contains_date s d \<longleftrightarrow> range_start s \<le> d \<and> d \<le> range_end s"
  by (auto simp: contains_date_def date_compare_valid)

lemma throughToday_within:
  assumes "valid_date (range_start s)" and "valid_date (range_end s)" and "range_start s \<le> range_end s"
    and "valid_date today"
  shows "range_start (throughToday s today) = range_start s" "valid_date (range_end (throughToday s today))"
    "range_start s \<le> range_end (throughToday s today)" "range_end (throughToday s today) \<le> range_end s"
  using assms contains_date_iff[OF assms(1,2,4)] by (auto simp: throughToday_def)

lemma customGranularity_valid: "granularity_valid (customGranularity s)"
  by (simp add: customGranularity_def granularity_valid_def)

lemma year_months:
  assumes "valid_date d" and "e = YearEnd (YearStart d)" and "valid_date t" and "YearStart d \<le> t" and "t \<le> e"
  shows "MonthStart (YearStart d) = YearStart d" and "MonthEnd t \<le> e"
proof -
  show "MonthStart (YearStart d) = YearStart d" by (simp add: MonthStart_def YearStart_def)
  have "year t = year d" using assms(2,4,5) by (auto simp: date_le YearStart_def YearEnd_def)
  moreover have "day (MonthEnd t) \<le> 31"
    using days_in_bounds[of "year t" "month t"] assms(3) by (simp add: MonthEnd_def daysInMonth_eq valid_date_def)
  ultimately show "MonthEnd t \<le> e"
    using assms(2,3) by (auto simp: date_le YearStart_def YearEnd_def MonthEnd_def valid_date_def)
qed

lemma timeRowPeriods_scope:
  assumes "range_input_ok input" and "in_scope input = Some s"
  shows "\<exists>g rows b. timeRowPeriods (ClassifyScope (Some s)) input = Inr (g, rows) \<and> granularity_valid g
    \<and> tiles (range_start s) b rows \<and> range_end (throughToday s (in_today input)) \<le> b \<and> b \<le> range_end s"
proof -
  have v: "valid_date (range_start s)" "valid_date (range_end s)" "range_start s \<le> range_end s"
    and today: "valid_date (in_today input)"
    and unit: "in_time_unit input = no_unit \<or> granularity_valid (in_time_unit input)"
    using assms by (auto simp: range_input_ok_def)
  define k where "k = ClassifyScope (Some s)"
  obtain b u clip where b: "timeRowBounds k input = Inr (Some b, u, clip)"
    and u: "granularity_valid u" and bs: "b = s \<or> b = throughToday s (in_today input)"
    and kinds: "k = ScopeCustom \<and> clip \<and> b = s \<or> (k = ScopeDay \<or> k = ScopeMonth) \<and> \<not> clip \<and> u = TimeGranularityDay
      \<or> k = ScopeYear \<and> \<not> clip \<and> u = TimeGranularityMonth"
    using assms(2) customGranularity_valid[of s]
    by (cases k) (auto simp: timeRowBounds_def deref_scope_def granularity_valid_def k_def ClassifyScope_def split: if_splits)
  note th = throughToday_within[OF v today]
  have vb: "range_start b = range_start s" "valid_date (range_end b)" "range_start b \<le> range_end b"
    "range_end b \<le> range_end s" "range_end (throughToday s (in_today input)) \<le> range_end b"
    using bs v th by auto
  define g where "g = (if in_time_unit input \<noteq> no_unit then in_time_unit input else u)"
  have g: "granularity_valid g" using unit u by (auto simp: g_def)
  have vs: "valid_date (range_start b)" using v(1) vb(1) by simp
  obtain rs p q where rs: "enumeratePeriods b g (in_today input) clip = Inr rs"
    and p: "periodBounds (periodForDate (range_start b) g) = Inr p" and q: "periodBounds (periodForDate (range_end b) g) = Inr q"
    and t: "tiles (if clip then range_start b else fst p) (if clip then range_end b else snd q) rs"
    and pq: "fst p \<le> range_start b" "range_end b \<le> snd q"
    and ends: "range_start b \<le> pr_end (hd rs)" "pr_start (last rs) \<le> range_end b"
    by (rule enumeratePeriods_tiles[OF g vs vb(2,3)])
  show ?thesis
  proof (cases "in_time_unit input = no_unit")
    case False
    let ?a = "if clip then range_start b else fst p" and ?e = "if clip then range_end b else snd q"
    have "tiles (max ?a (range_start s)) (min ?e (range_end s)) (map (\<lambda>r. clipPeriod r s) rs)"
      using ends vb by (intro clip_tiles[OF t v]) auto
    moreover have "max ?a (range_start s) = range_start s" using pq vb(1) by (auto simp: max_def)
    moreover have "range_end (throughToday s (in_today input)) \<le> min ?e (range_end s)" "min ?e (range_end s) \<le> range_end s"
      using pq vb by auto
    moreover have "timeRowPeriods k input = Inr (g, map (\<lambda>r. clipPeriod r s) rs)"
      using rs False by (simp add: timeRowPeriods_def b assms(2) g_def)
    ultimately show ?thesis using g unfolding k_def by metis
  next
    case True
    then have gu: "g = u" by (simp add: g_def)
    have "timeRowPeriods k input = Inr (g, rs)" using rs True by (simp add: timeRowPeriods_def b g_def)
    moreover have "\<exists>e. tiles (range_start s) e rs \<and> range_end b \<le> e \<and> e \<le> range_end s"
    proof -
      consider "clip" "b = s" | "\<not> clip" "u = TimeGranularityDay" | "\<not> clip" "u = TimeGranularityMonth" "k = ScopeYear"
        using kinds by blast
      then show ?thesis
      proof cases
        case 1
        then show ?thesis using t vb by auto
      next
        case 2
        then have "p = (range_start b, range_start b)" "q = (range_end b, range_end b)"
          using p q periodBounds_date[OF g] vs vb(2) gu by auto
        then show ?thesis using 2 t vb by auto
      next
        case 3
        then have y: "range_start s = YearStart (range_start s)" "range_end s = YearEnd (range_start s)"
          unfolding k_def ClassifyScope_def by (auto split: if_splits)
        have "p = (MonthStart (range_start b), MonthEnd (range_start b))" "q = (MonthStart (range_end b), MonthEnd (range_end b))"
          using p q periodBounds_date[OF g] vs vb(2) gu 3 by auto
        moreover have "MonthStart (range_start s) = range_start s" "MonthEnd (range_end b) \<le> range_end s"
          using year_months[OF v(1) _ vb(2), of "range_end s"] y vb by simp_all
        ultimately show ?thesis using 3 t pq(2) vb(1) by auto
      qed
    qed
    ultimately show ?thesis using g vb(5) unfolding k_def by (metis order_trans)
  qed
qed

lemma timeRowPeriods_all:
  assumes "range_input_ok input" and "in_scope input = None"
  shows "\<exists>g rows. timeRowPeriods ScopeAll input = Inr (g, rows) \<and>
    (if date_is_zero (in_first input) \<or> date_is_zero (in_latest input) then rows = []
     else granularity_valid g \<and> (\<exists>a b. tiles a b rows \<and> a \<le> in_first input \<and> in_latest input \<le> b
       \<and> pr_start (last rows) \<le> in_latest input \<and> in_first input \<le> pr_end (hd rows)))"
proof (cases "date_is_zero (in_first input) \<or> date_is_zero (in_latest input)")
  case True
  then show ?thesis by (simp add: timeRowPeriods_def timeRowBounds_def)
next
  case False
  let ?b = "\<lparr>range_start = in_first input, range_end = in_latest input\<rparr>"
  have v: "valid_date (range_start ?b)" "valid_date (range_end ?b)" "range_start ?b \<le> range_end ?b"
    using assms(1) False by (auto simp: range_input_ok_def)
  define u where "u = (if monthsSpanned ?b > 60 then TimeGranularityYear else TimeGranularityMonth)"
  define g where "g = (if in_time_unit input \<noteq> no_unit then in_time_unit input else u)"
  have g: "granularity_valid g" using assms(1) by (auto simp: g_def u_def range_input_ok_def granularity_valid_def)
  have b: "timeRowBounds ScopeAll input = Inr (Some ?b, u, False)" using False by (simp add: timeRowBounds_def u_def Let_def)
  obtain rs p q where rs: "enumeratePeriods ?b g (in_today input) False = Inr rs"
    and t: "tiles (fst p) (snd q) rs" "fst p \<le> in_first input" "in_latest input \<le> snd q"
    "in_first input \<le> pr_end (hd rs)" "pr_start (last rs) \<le> in_latest input"
    by (rule enumeratePeriods_tiles[OF g v, where today = "in_today input" and clip = False]) auto
  then have "timeRowPeriods ScopeAll input = Inr (g, rs)"
    by (simp add: timeRowPeriods_def b assms(2) g_def)
  with False g t show ?thesis by auto
qed

text \<open>
  C18. The rows of a Time grouping can always be listed, whatever the calendar: for any scope of
  valid dates \<open>TimeRowPeriods\<close> succeeds and its periods tile the days from the start of the scope
  without gaps or overlaps, through today when the scope contains it, and never past its end, even
  when a coarser unit is chosen. For All they tile from the period of the first transaction to that
  of the latest, and there are none when there are no transactions.
\<close>

theorem TimeRowPeriods_tile:
  assumes "range_input_ok input"
  shows "\<exists>g rows. TimeRowPeriods input = Inr (g, rows) \<and>
    (case in_scope input of
       Some s \<Rightarrow> \<exists>b. tiles (range_start s) b rows \<and> range_end (throughToday s (in_today input)) \<le> b
         \<and> b \<le> range_end s
     | None \<Rightarrow> if date_is_zero (in_first input) \<or> date_is_zero (in_latest input) then rows = []
         else \<exists>a b. tiles a b rows \<and> a \<le> in_first input \<and> in_latest input \<le> b
           \<and> in_first input \<le> pr_end (hd rows) \<and> pr_start (last rows) \<le> in_latest input)"
proof (cases "in_scope input")
  case None
  then have "TimeRowPeriods input = timeRowPeriods ScopeAll input"
    by (simp add: TimeRowPeriods_def copyScope_def ClassifyScope_def)
  with timeRowPeriods_all[OF assms None] None show ?thesis by (auto split: if_splits)
next
  case (Some s)
  then have v: "valid_date (range_start s)" "valid_date (range_end s)" "range_start s \<le> range_end s"
    using assms by (auto simp: range_input_ok_def)
  then have "\<not> 0 < date_compare (range_start s) (range_end s)" by (simp add: date_compare_valid)
  then have "TimeRowPeriods input = timeRowPeriods (ClassifyScope (Some s)) input"
    using Some by (simp add: TimeRowPeriods_def copyScope_def)
  with timeRowPeriods_scope[OF assms Some] Some show ?thesis by auto
qed

definition example_range_input :: range_input where
  "example_range_input =
     \<lparr>in_scope = Some \<lparr>range_start = Date 2024 2 1, range_end = Date 2024 2 29\<rparr>, in_today = Date 2024 2 10,
      in_first = Date 2023 1 5, in_latest = Date 2024 2 9, in_time_grouping = True, in_time_unit = TimeGranularityYear\<rparr>"

lemma example_range_input_ok: "range_input_ok example_range_input"
  by (simp add: range_input_ok_def example_range_input_def valid_date_def days_in_def leap_def
      granularity_valid_def date_is_zero_def less_eq_date_def less_date_def)

theorem TimeRowPeriods_tile_witness:
  "\<exists>g rows b. TimeRowPeriods example_range_input = Inr (g, rows) \<and> tiles (Date 2024 2 1) b rows
     \<and> Date 2024 2 10 \<le> b \<and> b \<le> Date 2024 2 29"
proof -
  have "throughToday \<lparr>range_start = Date 2024 2 1, range_end = Date 2024 2 29\<rparr> (Date 2024 2 10)
      = \<lparr>range_start = Date 2024 2 1, range_end = Date 2024 2 10\<rparr>"
    by (simp add: throughToday_def contains_date_def date_compare_def date_ordinal_def)
  then show ?thesis
    using TimeRowPeriods_tile[OF example_range_input_ok] by (simp add: example_range_input_def)
qed

subsection \<open>The comparison range\<close>

lemma AddMonths_first:
  assumes "valid_date d" and "day d = 1" and "AddMonthsClamped d k = Inr e"
  shows "valid_date e" and "day e = 1" and "month_index e = month_index d + k"
proof -
  note e = AddMonthsClamped_Inr[OF assms(1,3)]
  show "valid_date e" "month_index e = month_index d + k" using e by auto
  have "1 \<le> days_in (year e) (month e)"
    using days_in_bounds[of "year e" "month e"] e by (auto simp: valid_date_def)
  then show "day e = 1" using e assms(2) by auto
qed

lemma month_index_less:
  assumes "valid_date d" and "valid_date e" and "month_index d < month_index e"
  shows "d < e"
  using assms by (auto simp: month_index_def less_date_def valid_date_def)

lemma month_index_eq:
  assumes "valid_date d" and "valid_date e"
  shows "month_index d = month_index e \<longleftrightarrow> year d = year e \<and> month d = month e"
proof -
  have "1 \<le> month d" "month d \<le> 12" "1 \<le> month e" "month e \<le> 12" using assms by (simp_all add: valid_date_def)
  then show ?thesis unfolding month_index_def by presburger
qed

lemma AddDays_in_month:
  assumes "valid_date d" and "day d = 1" and "1 \<le> n" and "n \<le> days_in (year d) (month d)"
    and "AddDays d (n - 1) = Inr e"
  shows "e = Date (year d) (month d) n"
proof -
  have v: "valid_date (Date (year d) (month d) n)" using assms(1,3,4) by (simp add: valid_date_def)
  have "date_number e = date_number d + (n - 1)" "valid_date e" using AddDays_Inr[OF assms(1,5)] by auto
  moreover have "date_number (Date (year d) (month d) n) = date_number d + (n - 1)"
    using assms(2) by (simp add: day_number_def)
  ultimately show ?thesis using date_number_inject[OF _ v] by simp
qed

definition follows_comparison :: "date_range \<Rightarrow> date \<Rightarrow> scope_kind \<Rightarrow> date_range \<Rightarrow> bool" where
  "follows_comparison s today kind r \<longleftrightarrow>
     (let partway = contains_date s today \<and> today \<noteq> range_end s in
      case kind of
        ScopeMonth \<Rightarrow> month_index (range_start r) = month_index (range_start s) - 1 \<and> day (range_start r) = 1
          \<and> month_index (range_end r) = month_index (range_start r)
          \<and> day (range_end r) = (if partway then min (day today) (days_in (year (range_start r)) (month (range_start r)))
               else days_in (year (range_start r)) (month (range_start r)))
      | ScopeYear \<Rightarrow> range_start r = Date (year (range_start s) - 1) 1 1
          \<and> (if partway then year (range_end r) = year today - 1 \<and> month (range_end r) = month today
               \<and> day (range_end r) = min (day today) (days_in (year (range_end r)) (month today))
             else range_end r = Date (year (range_start s) - 1) 12 31)
      | _ \<Rightarrow> adjacent (range_end r) (range_start s)
          \<and> DaysBetween (range_start r) (range_end r) = DaysBetween (range_start s) (range_end s))"

lemma monthComparison_spec:
  assumes "valid_date (range_start s)" and "day (range_start s) = 1" and "valid_date (range_end s)" and "valid_date today"
    and "monthComparison s today = Inr (c, label)"
  shows "\<exists>r. c = Some r \<and> valid_date (range_start r) \<and> valid_date (range_end r) \<and> range_start r \<le> range_end r
    \<and> range_end r < range_start s \<and> follows_comparison s today ScopeMonth r"
proof -
  obtain start where start: "AddMonthsClamped (range_start s) (- 1) = Inr start"
    using assms(5) by (auto simp: monthComparison_def bind_result_Inr)
  note st = AddMonths_first[OF assms(1,2) start]
  note md = days_in_bounds[of "year start" "month start"]
  have dm: "day (MonthEnd start) = days_in (year start) (month start)" "year (MonthEnd start) = year start"
    "month (MonthEnd start) = month start"
    using st(1) by (simp_all add: MonthEnd_def daysInMonth_eq valid_date_def)
  obtain r where r: "c = Some r" "range_start r = start" "year (range_end r) = year start" "month (range_end r) = month start"
    "day (range_end r) = (if contains_date s today \<and> today \<noteq> range_end s
      then min (day today) (days_in (year start) (month start)) else days_in (year start) (month start))"
  proof (cases "contains_date s today \<and> today \<noteq> range_end s")
    case False
    then have "c = Some \<lparr>range_start = start, range_end = MonthEnd start\<rparr>"
      using assms(5) start by (auto simp: monthComparison_def Let_def)
    with False dm show thesis by (intro that) auto
  next
    case True
    let ?n = "min (day today) (days_in (year start) (month start))"
    obtain stop where stop: "AddDays start (?n - 1) = Inr stop" "c = Some \<lparr>range_start = start, range_end = stop\<rparr>"
      using assms(5) start True dm by (auto simp: monthComparison_def Let_def bind_result_Inr)
    have "1 \<le> ?n" "?n \<le> days_in (year start) (month start)" using assms(4) md by (auto simp: valid_date_def)
    then have "stop = Date (year start) (month start) ?n" using AddDays_in_month[OF st(1,2)] stop(1) by blast
    with True stop(2) show thesis by (intro that) auto
  qed
  have ve: "valid_date (range_end r)"
    using r(3-5) st(1) assms(4) md by (auto simp: valid_date_def)
  have "range_start r \<le> range_end r"
    using r(2-5) st(2) ve by (auto simp: date_le valid_date_def)
  moreover have "month_index (range_end r) = month_index start" using r(3,4) by (simp add: month_index_def)
  moreover from this have "range_end r < range_start s"
    using month_index_less[OF ve assms(1)] st(3) by simp
  ultimately show ?thesis using r st ve by (auto simp: follows_comparison_def Let_def)
qed

lemma yearComparison_spec:
  assumes "valid_date (range_start s)" and "range_start s = YearStart (range_start s)"
    and "range_end s = YearEnd (range_start s)" and "valid_date today" and "yearComparison s today = Inr (c, label)"
  shows "\<exists>r. c = Some r \<and> valid_date (range_start r) \<and> valid_date (range_end r) \<and> range_start r \<le> range_end r
    \<and> range_end r < range_start s \<and> follows_comparison s today ScopeYear r"
proof -
  have s1: "day (range_start s) = 1" "month (range_start s) = 1"
    using assms(2) by (metis YearStart_def date.sel(3), metis YearStart_def date.sel(2))
  obtain start where start: "AddMonthsClamped (range_start s) (- 12) = Inr start"
    using assms(5) by (auto simp: yearComparison_def bind_result_Inr)
  note st = AddMonths_first[OF assms(1) s1(1) start]
  have "1 \<le> month start" "month start \<le> 12" using st(1) by (simp_all add: valid_date_def)
  moreover have "year start * 12 + month start = (year (range_start s) - 1) * 12 + 1"
    using st(3) s1 by (simp add: month_index_def)
  ultimately have "year start = year (range_start s) - 1" "month start = 1" by presburger+
  then have "start = Date (year (range_start s) - 1) 1 1" using st(2) by (intro date.expand) simp
  then have sd: "year start = year (range_start s) - 1" "month start = 1" "day start = 1" by simp_all
  obtain r where r: "c = Some r" "range_start r = start" "valid_date (range_end r)" "year (range_end r) = year start"
    "if contains_date s today \<and> today \<noteq> range_end s
     then year (range_end r) = year today - 1 \<and> month (range_end r) = month today
       \<and> day (range_end r) = min (day today) (days_in (year (range_end r)) (month today))
     else range_end r = Date (year (range_start s) - 1) 12 31"
  proof (cases "contains_date s today \<and> today \<noteq> range_end s")
    case False
    then have "c = Some \<lparr>range_start = start, range_end = YearEnd start\<rparr>"
      using assms(5) start by (auto simp: yearComparison_def Let_def)
    with False sd st(1) valid_MonthEnd(4)[OF st(1)] show thesis by (intro that) (auto simp: YearEnd_def)
  next
    case True
    obtain stop where stop: "AddMonthsClamped today (- 12) = Inr stop" "c = Some \<lparr>range_start = start, range_end = stop\<rparr>"
      using assms(5) start True by (auto simp: yearComparison_def Let_def bind_result_Inr)
    note e = AddMonthsClamped_Inr[OF assms(4) stop(1)]
    have "valid_date (range_end s)" using valid_MonthEnd(4)[OF assms(1)] assms(3) by simp
    then have "range_start s \<le> today \<and> today \<le> range_end s"
      using True contains_date_iff[OF assms(1) _ assms(4)] by simp
    then have "year today = year (range_start s)"
      using assms(2,3) by (auto simp: date_le YearStart_def YearEnd_def)
    moreover have "month_index stop = month_index today - 12" "valid_date stop" using e by auto
    then have "year stop = year today - 1 \<and> month stop = month today"
    proof -
      assume m: "month_index stop = month_index today - 12" "valid_date stop"
      then have "1 \<le> month stop" "month stop \<le> 12" "1 \<le> month today" "month today \<le> 12"
        using assms(4) by (simp_all add: valid_date_def)
      with m(1) show ?thesis unfolding month_index_def by presburger
    qed
    ultimately show thesis using True stop(2) e sd by (intro that[of "\<lparr>range_start = start, range_end = stop\<rparr>"]) auto
  qed
  have "range_start r \<le> range_end r"
    using r(2,3,4) sd by (auto simp: date_le valid_date_def)
  moreover have "range_end r < range_start s"
    using r(4) sd by (auto simp: less_date_def)
  ultimately show ?thesis using r st sd \<open>start = _\<close> by (auto simp: follows_comparison_def Let_def)
qed

lemma customComparison_spec:
  assumes "valid_date (range_start s)" and "valid_date (range_end s)" and "range_start s \<le> range_end s"
    and "customComparison s = Inr (c, label)"
  shows "\<exists>r. c = Some r \<and> valid_date (range_start r) \<and> valid_date (range_end r) \<and> range_start r \<le> range_end r
    \<and> range_end r < range_start s \<and> follows_comparison s today ScopeCustom r"
proof -
  let ?n = "DaysBetween (range_start s) (range_end s)"
  obtain stop start where stop: "AddDays (range_start s) (- 1) = Inr stop" and start: "AddDays stop (- ?n) = Inr start"
    and c: "c = Some \<lparr>range_start = start, range_end = stop\<rparr>"
    using assms(4) by (auto simp: customComparison_def Let_def bind_result_Inr)
  have e: "valid_date stop" "date_number stop = date_number (range_start s) - 1"
    using AddDays_Inr[OF assms(1) stop] by auto
  have b: "valid_date start" "date_number start = date_number stop - ?n" using AddDays_Inr[OF e(1) start] by auto
  have n: "?n = date_number (range_end s) - date_number (range_start s)" by (rule DaysBetween_eq[OF assms(1,2)])
  have "0 \<le> ?n" using n assms(3) date_number_less[OF assms(2,1)] by (auto simp: not_less[symmetric])
  then have "start \<le> stop" using b e date_number_less[OF e(1) b(1)] by (auto simp: not_less[symmetric])
  moreover have "stop < range_start s" using e date_number_less[OF e(1) assms(1)] by simp
  moreover have "DaysBetween start stop = ?n" using DaysBetween_eq[OF b(1) e(1)] b(2) by simp
  ultimately show ?thesis using c b(1) e by (auto simp: follows_comparison_def adjacent_def Let_def)
qed

lemma ClassifyScope_Some:
  "ClassifyScope (Some s) = ScopeDay \<Longrightarrow> range_start s = range_end s"
  "ClassifyScope (Some s) = ScopeMonth \<Longrightarrow> range_start s = MonthStart (range_start s) \<and> range_end s = MonthEnd (range_start s)"
  "ClassifyScope (Some s) = ScopeYear \<Longrightarrow> range_start s = YearStart (range_start s) \<and> range_end s = YearEnd (range_start s)"
  "ClassifyScope (Some s) \<noteq> ScopeAll"
  unfolding ClassifyScope_def by (auto split: if_splits)

lemma comparison_spec:
  assumes "range_input_ok input" and "in_scope input = Some s"
    and "comparisonRange (ClassifyScope (Some s)) input = Inr (c, label)"
  shows "\<exists>r. c = Some r \<and> valid_date (range_start r) \<and> valid_date (range_end r) \<and> range_start r \<le> range_end r
    \<and> range_end r < range_start s \<and> follows_comparison s (in_today input) (ClassifyScope (Some s)) r"
proof -
  have v: "valid_date (range_start s)" "valid_date (range_end s)" "range_start s \<le> range_end s" "valid_date (in_today input)"
    using assms(1,2) by (auto simp: range_input_ok_def)
  consider "ClassifyScope (Some s) = ScopeDay" | "ClassifyScope (Some s) = ScopeMonth"
    | "ClassifyScope (Some s) = ScopeYear" | "ClassifyScope (Some s) = ScopeCustom"
    using ClassifyScope_Some(4) scope_kind.exhaust by blast
  then show ?thesis
  proof cases
    case 1
    then obtain p where p: "AddDays (range_start s) (- 1) = Inr p" "c = Some \<lparr>range_start = p, range_end = p\<rparr>"
      using assms(2,3) by (auto simp: comparisonRange_def bind_result_Inr)
    have "valid_date p" "date_number p = date_number (range_start s) - 1" using AddDays_Inr[OF v(1) p(1)] by auto
    moreover from this have "p < range_start s" using date_number_less[of p "range_start s"] v(1) by simp
    ultimately show ?thesis
      using p(2) 1 ClassifyScope_Some(1)[OF 1] DaysBetween_eq[of p p] DaysBetween_eq[OF v(1,1)]
      by (auto simp: follows_comparison_def adjacent_def Let_def)
  next
    case 2
    then have "day (range_start s) = 1" using ClassifyScope_Some(2) by (metis MonthStart_def date.sel(3))
    with 2 show ?thesis
      using monthComparison_spec[OF v(1) _ v(2,4)] assms(2,3) by (simp add: comparisonRange_def)
  next
    case 3
    with ClassifyScope_Some(3)[OF 3] yearComparison_spec[OF v(1) _ _ v(4)] show ?thesis using assms(2,3) by (simp add: comparisonRange_def)
  next
    case 4
    with customComparison_spec[OF v(1-3)] show ?thesis using assms(2,3) by (simp add: comparisonRange_def)
  qed
qed

text \<open>
  The range a scope is compared with lies entirely before it and is the right one: the day or
  the equally long range that ends the day before the scope; for a month the previous month and for
  a year the previous year, up to the same day when the scope contains today.
\<close>

lemma comparisonRange_precedes:
  assumes "range_input_ok input" and "in_scope input = Some s"
    and "comparisonRange (ClassifyScope (Some s)) input = Inr (c, label)"
  shows "\<exists>r. c = Some r \<and> valid_date (range_start r) \<and> valid_date (range_end r) \<and> range_start r \<le> range_end r
    \<and> range_end r < range_start s \<and> follows_comparison s (in_today input) (ClassifyScope (Some s)) r"
  using assms by (rule comparison_spec)

lemma comparisonRange_precedes_witness:
  "\<exists>r label. comparisonRange ScopeMonth example_range_input = Inr (Some r, label)
     \<and> range_start r = Date 2024 1 1 \<and> range_end r < Date 2024 2 1"
proof -
  let ?s = "\<lparr>range_start = Date 2024 2 1, range_end = Date 2024 2 29\<rparr>"
  have s: "in_scope example_range_input = Some ?s" by (simp add: example_range_input_def)
  have k: "ClassifyScope (Some ?s) = ScopeMonth"
    by (simp add: ClassifyScope_def MonthStart_def MonthEnd_def daysInMonth_eq days_in_def leap_def)
  have a: "AddMonthsClamped (Date 2024 2 1) (- 1) = Inr (Date 2024 1 1)"
    by (simp add: AddMonthsClamped_def go_div_def go_mod_def daysInMonth_eq days_in_def Let_def)
  have m: "MonthEnd (Date 2024 1 1) = Date 2024 1 31" by (simp add: MonthEnd_def daysInMonth_eq days_in_def)
  have "AddDays (Date 2024 1 1) (DaysBetween (Date 2024 1 1) (Date 2024 1 10)) = Inr (Date 2024 1 10)"
    by (rule AddDays_DaysBetween) (simp_all add: valid_date_def days_in_def)
  moreover have "DaysBetween (Date 2024 1 1) (Date 2024 1 10) = 9"
    by (subst DaysBetween_eq) (simp_all add: valid_date_def days_in_def day_number_def)
  ultimately have "AddDays (Date 2024 1 1) 9 = Inr (Date 2024 1 10)" by simp
  then have "\<exists>label. comparisonRange ScopeMonth example_range_input
      = Inr (Some \<lparr>range_start = Date 2024 1 1, range_end = Date 2024 1 10\<rparr>, label)"
    by (simp add: comparisonRange_def monthComparison_def example_range_input_def a m contains_date_def
        date_compare_def date_ordinal_def Let_def)
  then show ?thesis using comparisonRange_precedes[OF example_range_input_ok s] unfolding k by fastforce
qed

text \<open>The trend lists the twelve months that end with the month of its last day.\<close>

lemma trendPeriods_months:
  assumes "trendLastDay input = Some d" and "valid_date d" and "trendPeriods input = Inr rows"
  shows "map (\<lambda>r. period_index (pr_period r)) rows
    = [period_index (periodForDate d TimeGranularityMonth) - 11..period_index (periodForDate d TimeGranularityMonth)]"
proof -
  obtain first ps where first: "AddMonthsClamped (MonthStart d) (- 11) = Inr first"
    and ps: "enumeratePeriods \<lparr>range_start = first, range_end = MonthEnd d\<rparr> TimeGranularityMonth (in_today input) False = Inr ps"
    and rows: "map pr_period rows = map pr_period ps"
    using assms(1,3) by (auto simp: trendPeriods_def bind_result_Inr o_def)
  have g: "granularity_valid TimeGranularityMonth" by (simp add: granularity_valid_def)
  have f: "valid_date first" "month_index first = month_index d - 11"
    using AddMonths_first[OF valid_MonthEnd(2)[OF assms(2)] _ first] by (auto simp: MonthStart_def month_index_def)
  have e: "valid_date (MonthEnd d)" "month_index (MonthEnd d) = month_index d"
    using valid_MonthEnd(1)[OF assms(2)] by (simp_all add: MonthEnd_def month_index_def)
  have le: "first \<le> MonthEnd d" using month_index_less[OF f(1) e(1)] f(2) e(2) by auto
  let ?b = "\<lparr>range_start = first, range_end = MonthEnd d\<rparr>"
  have v: "valid_date (range_start ?b)" "valid_date (range_end ?b)" "range_start ?b \<le> range_end ?b" using f(1) e(1) le by simp_all
  obtain qs where qs: "periodsBetween first (MonthEnd d) TimeGranularityMonth = Inr qs"
    "map period_index qs = [period_index (periodForDate first TimeGranularityMonth)..period_index (periodForDate (MonthEnd d) TimeGranularityMonth)]"
    by (rule periodsBetween_interval[OF g f(1) e(1) le]) blast
  obtain rs where "enumeratePeriods ?b TimeGranularityMonth (in_today input) False = Inr rs"
    "map pr_period rs = projr (periodsBetween (range_start ?b) (range_end ?b) TimeGranularityMonth)"
    by (rule enumeratePeriods_tiles[OF g v, where today = "in_today input" and clip = False]) blast
  then have "map pr_period ps = qs" using ps qs(1) by simp
  moreover have "period_index (periodForDate x TimeGranularityMonth) = month_index x" for x
    by (simp add: period_index_def periodForDate_def month_index_def)
  ultimately have "map period_index (map pr_period rows) = [month_index d - 11..month_index d]"
    using rows qs(2) f(2) e(2) by simp
  then show ?thesis by (simp add: o_def period_index_def periodForDate_def month_index_def)
qed

end
