(* ===== verification/Analytics_CrossTab.thy ===== *)
theory Analytics_CrossTab
  imports Analytics_Query Analytics_Ranges
begin

text \<open>
  \<open>internal/analytics/crosstab.go\<close>: one pass over the transactions of a currency and scale that
  fills a cell per frame, period and key.  Go maps are functions to options; \<open>sort.Search\<close> is the
  binary search of the standard library.
\<close>

record cross_tab_cell =
  cell_count :: int
  cell_hidden :: int
  cell_pending :: int
  cell_in :: int64
  cell_out :: int64

record cross_tab_frame_spec =
  frame_periods :: "period_range list"
  frame_series :: bool

record cross_tab_spec =
  cross_dimension :: dimension
  cross_keys :: "string list option"
  cross_frames :: "cross_tab_frame_spec list"

record cross_tab_frame =
  frame_totals :: "cross_tab_cell list"
  frame_cells :: "string \<Rightarrow> cross_tab_cell list option"

record cross_tab =
  tab_frames :: "cross_tab_frame list"
  tab_labels :: "string \<Rightarrow> string option"

datatype cross_error =
    CrossDimension
  | CrossKeys
  | CrossPeriodReversed nat nat
  | CrossPeriodsOverlap nat
  | CrossPartitions
  | CrossTotalOverflow nat
  | CrossSeriesOverflow nat string

definition empty_cell :: cross_tab_cell where
  "empty_cell = \<lparr>cell_count = 0, cell_hidden = 0, cell_pending = 0, cell_in = 0, cell_out = 0\<rparr>"

definition Net :: "cross_tab_cell \<Rightarrow> int64" where
  "Net cell = cell_in cell + cell_out cell"

definition addMinor :: "int64 \<Rightarrow> int64 \<Rightarrow> unit + int64" where
  "addMinor sum_before amount =
     (let s = sum_before + amount in
      if (0 <s amount \<and> s <s sum_before) \<or> (amount <s 0 \<and> sum_before <s s) then Inl () else Inr s)"

definition addToCell :: "cross_tab_cell \<Rightarrow> transaction \<Rightarrow> unit + cross_tab_cell" where
  "addToCell cell t =
     (let cell = cell\<lparr>cell_count := cell_count cell + 1\<rparr>;
          cell = (if trans_pending t then cell\<lparr>cell_pending := cell_pending cell + 1\<rparr> else cell);
          amount = minor (trans_amount t) in
      if trans_hidden t then Inr (cell\<lparr>cell_hidden := cell_hidden cell + 1\<rparr>)
      else if 0 <s amount then bind_result (addMinor (cell_in cell) amount) (\<lambda>s. Inr (cell\<lparr>cell_in := s\<rparr>))
      else if amount <s 0 then bind_result (addMinor (cell_out cell) amount) (\<lambda>s. Inr (cell\<lparr>cell_out := s\<rparr>))
      else Inr cell)"

text \<open>\<open>sort.Search\<close> of the standard library.\<close>

function go_search :: "(nat \<Rightarrow> bool) \<Rightarrow> nat \<Rightarrow> nat \<Rightarrow> nat" where
  "go_search f i j =
     (if i < j then
        let h = (i + j) div 2 in
        if \<not> f h then go_search f (h + 1) j else go_search f i h
      else i)"
  by pat_completeness auto
termination by (relation "measure (\<lambda>(_, i, j). j - i)") auto

declare go_search.simps [simp del]

text \<open>The index of the period that contains the date; \<open>None\<close> stands for the code's \<open>-1\<close>.\<close>

definition periodIndex :: "period_range list \<Rightarrow> date \<Rightarrow> nat option" where
  "periodIndex periods d =
     (let index = go_search (\<lambda>i. date_compare (pr_end (periods ! i)) d \<ge> 0) 0 (length periods) in
      if index = length periods \<or> date_compare (pr_start (periods ! index)) d > 0 then None else Some index)"

fun validatePeriods_from :: "nat \<Rightarrow> nat \<Rightarrow> period_range option \<Rightarrow> period_range list \<Rightarrow> cross_error + unit" where
  "validatePeriods_from frame index previous [] = Inr ()"
| "validatePeriods_from frame index previous (p # ps) =
     (if date_compare (pr_start p) (pr_end p) > 0 then Inl (CrossPeriodReversed frame index)
      else if (case previous of None \<Rightarrow> False | Some q \<Rightarrow> date_compare (pr_end q) (pr_start p) \<ge> 0)
      then Inl (CrossPeriodsOverlap frame)
      else validatePeriods_from frame (index + 1) (Some p) ps)"

definition validatePeriods :: "nat \<Rightarrow> period_range list \<Rightarrow> cross_error + unit" where
  "validatePeriods frame periods = validatePeriods_from frame 0 None periods"

definition validateCrossTabSpec :: "cross_tab_spec \<Rightarrow> cross_error + unit" where
  "validateCrossTabSpec spec =
     (if \<not> dimension_valid (cross_dimension spec) \<or> cross_dimension spec = DimensionTime then Inl CrossDimension
      else if length (case cross_keys spec of None \<Rightarrow> [] | Some ks \<Rightarrow> ks) > 200 then Inl CrossKeys
      else check_all (\<lambda>(index, frame). validatePeriods index (frame_periods frame))
        (enumerate 0 (cross_frames spec)))"

definition newFrame :: "cross_tab_spec \<Rightarrow> cross_tab_frame_spec \<Rightarrow> cross_tab_frame" where
  "newFrame spec frame =
     (let zero = replicate (length (frame_periods frame)) empty_cell in
      \<lparr>frame_totals = zero,
        frame_cells = (\<lambda>k. if frame_series frame \<and> k \<in> set (case cross_keys spec of None \<Rightarrow> [] | Some ks \<Rightarrow> ks)
          then Some zero else None)\<rparr>)"

definition newCrossTab :: "cross_tab_spec \<Rightarrow> cross_tab" where
  "newCrossTab spec = \<lparr>tab_frames = map (newFrame spec) (cross_frames spec), tab_labels = (\<lambda>_. None)\<rparr>"

definition noteLabel :: "(string \<Rightarrow> string option) \<Rightarrow> string \<Rightarrow> string \<Rightarrow> string \<Rightarrow> string option" where
  "noteLabel labels key label =
     (case labels key of
        None \<Rightarrow> labels(key \<mapsto> label)
      | Some existing \<Rightarrow> if label < existing then labels(key \<mapsto> label) else labels)"

definition seriesCells :: "cross_tab_frame \<Rightarrow> string \<Rightarrow> nat \<Rightarrow> cross_tab_cell list" where
  "seriesCells state key periods =
     (case frame_cells state key of Some cells \<Rightarrow> cells | None \<Rightarrow> replicate periods empty_cell)"

definition addToFrame ::
    "nat \<Rightarrow> transaction \<Rightarrow> string \<Rightarrow> string \<Rightarrow> bool \<Rightarrow> cross_tab_frame_spec \<Rightarrow>
     cross_tab_frame \<times> (string \<Rightarrow> string option) \<Rightarrow> cross_error + cross_tab_frame \<times> (string \<Rightarrow> string option)" where
  "addToFrame index t key label collect frame = (\<lambda>(state, labels).
     case periodIndex (frame_periods frame) (trans_date t) of
       None \<Rightarrow> Inr (state, labels)
     | Some p \<Rightarrow>
         bind_result (map_error (\<lambda>_. CrossTotalOverflow index) (addToCell (frame_totals state ! p) t)) (\<lambda>cell.
         let state = state\<lparr>frame_totals := (frame_totals state)[p := cell]\<rparr> in
         if \<not> frame_series frame \<or> \<not> collect then Inr (state, labels)
         else
           let cells = seriesCells state key (length (frame_periods frame)) in
           bind_result (map_error (\<lambda>_. CrossSeriesOverflow index label) (addToCell (cells ! p) t)) (\<lambda>cell.
             Inr (state\<lparr>frame_cells := (frame_cells state)(key \<mapsto> cells[p := cell])\<rparr>,
               noteLabel labels key label))))"

fun addToFrames ::
    "nat \<Rightarrow> transaction \<Rightarrow> string \<Rightarrow> string \<Rightarrow> bool \<Rightarrow> cross_tab_frame_spec list \<Rightarrow> cross_tab_frame list \<Rightarrow>
     (string \<Rightarrow> string option) \<Rightarrow> cross_error + cross_tab" where
  "addToFrames index t key label collect (frame # frames) (state # states) labels =
     bind_result (addToFrame index t key label collect frame (state, labels)) (\<lambda>(state, labels).
     bind_result (addToFrames (index + 1) t key label collect frames states labels) (\<lambda>tab.
       Inr (tab\<lparr>tab_frames := state # tab_frames tab\<rparr>)))"
| "addToFrames index t key label collect _ states labels = Inr \<lparr>tab_frames = states, tab_labels = labels\<rparr>"

definition addTransaction :: "cross_tab_spec \<Rightarrow> cross_tab \<Rightarrow> transaction \<Rightarrow> cross_error + cross_tab" where
  "addTransaction spec tab t =
     (case dimensionValue t (cross_dimension spec) of (key, label) \<Rightarrow>
        let collect = (case cross_keys spec of None \<Rightarrow> True | Some ks \<Rightarrow> key \<in> set ks) in
        addToFrames 0 t key label collect (cross_frames spec) (tab_frames tab) (tab_labels tab))"

definition cross_step ::
    "cross_tab_spec \<Rightarrow> money_partition option \<times> cross_tab \<Rightarrow> transaction \<Rightarrow>
     cross_error + money_partition option \<times> cross_tab" where
  "cross_step spec = (\<lambda>(partition, tab) t.
     let current = part_of t in
     if partition \<noteq> None \<and> partition \<noteq> Some current then Inl CrossPartitions
     else bind_result (addTransaction spec tab t) (\<lambda>tab. Inr (Some current, tab)))"

definition ComputeCrossTab :: "transaction list \<Rightarrow> cross_tab_spec \<Rightarrow> cross_error + cross_tab" where
  "ComputeCrossTab ts spec =
     bind_result (validateCrossTabSpec spec) (\<lambda>_.
     bind_result (fold_result (cross_step spec) (None, newCrossTab spec) ts) (\<lambda>(_, tab). Inr tab))"

subsection \<open>The search\<close>

lemma go_search_least:
  assumes "i \<le> j" and "\<forall>a b. i \<le> a \<and> a \<le> b \<and> b < j \<and> f a \<longrightarrow> f b"
  shows "i \<le> go_search f i j \<and> go_search f i j \<le> j \<and> (\<forall>a. i \<le> a \<and> a < go_search f i j \<longrightarrow> \<not> f a)
    \<and> (go_search f i j < j \<longrightarrow> f (go_search f i j))"
  using assms
proof (induction f i j rule: go_search.induct)
  case (1 f i j)
  show ?case
  proof (cases "i < j")
    case False
    then have "go_search f i j = i" by (subst go_search.simps) simp
    with False 1(3) show ?thesis by auto
  next
    case True
    define h where "h = (i + j) div 2"
    have h: "i \<le> h" "h < j" using True by (auto simp: h_def)
    show ?thesis
    proof (cases "f h")
      case False
      have eq: "go_search f i j = go_search f (h + 1) j"
        using True False by (subst go_search.simps) (simp add: h_def Let_def)
      have "\<not> f a" if "i \<le> a" "a \<le> h" for a using 1(4) False h that by blast
      moreover have "h + 1 \<le> j" using h by simp
      moreover have "\<forall>a b. h + 1 \<le> a \<and> a \<le> b \<and> b < j \<and> f a \<longrightarrow> f b"
      proof (intro allI impI)
        fix a b assume ab: "h + 1 \<le> a \<and> a \<le> b \<and> b < j \<and> f a"
        then have "i \<le> a" using h by simp
        with ab 1(4) show "f b" by blast
      qed
      note IH = "1.IH"(1)[OF True h_def False \<open>h + 1 \<le> j\<close> this]
      ultimately show ?thesis using IH h unfolding eq by (metis Suc_eq_plus1 not_less_eq_eq order_trans le_add1)
    next
      case f: True
      have eq: "go_search f i j = go_search f i h"
        using True f by (subst go_search.simps) (simp add: h_def Let_def)
      have "\<forall>a b. i \<le> a \<and> a \<le> b \<and> b < h \<and> f a \<longrightarrow> f b"
      proof (intro allI impI)
        fix a b assume ab: "i \<le> a \<and> a \<le> b \<and> b < h \<and> f a"
        then have "b < j" using h by simp
        with ab 1(4) show "f b" by blast
      qed
      from "1.IH"(2)[OF True h_def _ h(1) this] f
      have IH: "i \<le> go_search f i h \<and> go_search f i h \<le> h \<and> (\<forall>a. i \<le> a \<and> a < go_search f i h \<longrightarrow> \<not> f a)
        \<and> (go_search f i h < h \<longrightarrow> f (go_search f i h))" by simp
      then show ?thesis using IH h f unfolding eq by (metis le_neq_implies_less less_imp_le_nat order_trans)
    qed
  qed
qed

definition in_period :: "period_range \<Rightarrow> date \<Rightarrow> bool" where
  "in_period p d \<longleftrightarrow> date_compare (pr_start p) d \<le> 0 \<and> date_compare d (pr_end p) \<le> 0"

definition periods_ordered :: "period_range list \<Rightarrow> bool" where
  "periods_ordered ps \<longleftrightarrow> sorted_wrt (\<lambda>p q. date_compare (pr_end p) (pr_start q) < 0) ps
     \<and> (\<forall>p\<in>set ps. date_compare (pr_start p) (pr_end p) \<le> 0)"

lemma date_compare_ordinal:
  "date_compare a b < 0 \<longleftrightarrow> date_ordinal a < date_ordinal b"
  "0 < date_compare a b \<longleftrightarrow> date_ordinal b < date_ordinal a"
  "date_compare a b \<le> 0 \<longleftrightarrow> date_ordinal a \<le> date_ordinal b"
  "0 \<le> date_compare a b \<longleftrightarrow> date_ordinal b \<le> date_ordinal a"
  by (auto simp: date_compare_def)

lemma validatePeriods_from_ok:
  "is_ok (validatePeriods_from frame index previous ps) \<longleftrightarrow> periods_ordered ps
    \<and> (\<forall>q. previous = Some q \<longrightarrow> (\<forall>p\<in>set ps. date_compare (pr_end q) (pr_start p) < 0))"
proof (induction frame index previous ps rule: validatePeriods_from.induct)
  case (2 frame index previous p ps)
  then show ?case
    by (auto simp: periods_ordered_def date_compare_ordinal not_less not_le split: option.splits
        dest: order.strict_trans order.strict_trans1 order.strict_trans2)
qed (simp add: periods_ordered_def)

lemma validatePeriods_ok: "is_ok (validatePeriods frame ps) \<longleftrightarrow> periods_ordered ps"
  by (simp add: validatePeriods_def validatePeriods_from_ok)

lemma periods_ordered_nth:
  assumes "periods_ordered ps" and "i < j" and "j < length ps"
  shows "date_ordinal (pr_end (ps ! i)) < date_ordinal (pr_start (ps ! j))"
  using assms by (auto simp: periods_ordered_def date_compare_ordinal sorted_wrt_iff_nth_less)

lemma periods_ordered_ends:
  assumes "periods_ordered ps" and "i \<le> j" and "j < length ps"
  shows "date_ordinal (pr_end (ps ! i)) \<le> date_ordinal (pr_end (ps ! j))"
proof (cases "i = j")
  case False
  then have "date_ordinal (pr_end (ps ! i)) < date_ordinal (pr_start (ps ! j))"
    using periods_ordered_nth[OF assms(1) _ assms(3)] assms(2) by simp
  moreover have "date_ordinal (pr_start (ps ! j)) \<le> date_ordinal (pr_end (ps ! j))"
    using assms(1,3) by (auto simp: periods_ordered_def date_compare_ordinal)
  ultimately show ?thesis by simp
qed simp

text \<open>The binary search returns the one period that contains the date, or none.\<close>

lemma periodIndex_search:
  assumes "periods_ordered ps"
  shows "periodIndex ps d = Some i \<longleftrightarrow> i < length ps \<and> in_period (ps ! i) d"
proof -
  let ?f = "\<lambda>i. date_compare (pr_end (ps ! i)) d \<ge> 0"
  define n where "n = go_search ?f 0 (length ps)"
  have mono: "\<forall>a b. 0 \<le> a \<and> a \<le> b \<and> b < length ps \<and> ?f a \<longrightarrow> ?f b"
    using periods_ordered_ends[OF assms] by (auto simp: date_compare_ordinal intro: order_trans)
  have n: "n \<le> length ps" "\<forall>a<n. \<not> ?f a" "n < length ps \<Longrightarrow> ?f n"
    using go_search_least[OF _ mono] by (simp_all add: n_def)
  have px: "periodIndex ps d = (if n = length ps \<or> date_compare (pr_start (ps ! n)) d > 0 then None else Some n)"
    by (simp add: periodIndex_def n_def Let_def)
  have only: "i = n" if "i < length ps" "in_period (ps ! i) d" for i
  proof (rule linorder_cases[of i n])
    assume "i < n"
    with n(2) that(2) show ?thesis by (auto simp: in_period_def date_compare_ordinal)
  next
    assume lt: "n < i"
    then have "date_ordinal (pr_end (ps ! n)) < date_ordinal (pr_start (ps ! i))"
      using periods_ordered_nth[OF assms lt that(1)] by simp
    moreover have "date_ordinal d \<le> date_ordinal (pr_end (ps ! n))"
      using n(3) lt that(1) by (simp add: date_compare_ordinal)
    ultimately show ?thesis using that(2) by (simp add: in_period_def date_compare_ordinal)
  qed
  have "in_period (ps ! n) d" if "n < length ps" "\<not> date_compare (pr_start (ps ! n)) d > 0"
    using n(3)[OF that(1)] that(2) by (simp add: in_period_def date_compare_ordinal)
  show ?thesis
  proof
    assume "periodIndex ps d = Some i"
    then have "n < length ps" "\<not> date_compare (pr_start (ps ! n)) d > 0" "i = n"
      using n(1) unfolding px by (auto split: if_splits)
    with \<open>n < length ps \<Longrightarrow> \<not> 0 < date_compare (pr_start (ps ! n)) d \<Longrightarrow> in_period (ps ! n) d\<close>
    show "i < length ps \<and> in_period (ps ! i) d" by simp
  next
    assume i: "i < length ps \<and> in_period (ps ! i) d"
    then have "i = n" using only by blast
    moreover have "\<not> date_compare (pr_start (ps ! n)) d > 0"
      using i \<open>i = n\<close> by (simp add: in_period_def)
    ultimately show "periodIndex ps d = Some i" using i by (simp add: px)
  qed
qed

lemma periodIndex_None:
  assumes "periods_ordered ps"
  shows "periodIndex ps d = None \<longleftrightarrow> (\<forall>p\<in>set ps. \<not> in_period p d)"
  using periodIndex_search[OF assms, of d] by (metis in_set_conv_nth not_None_eq)

text \<open>
  The binary search of the cross-tabulation is exact: when \<open>validatePeriods\<close> accepts the periods
  of a frame, \<open>periodIndex\<close> returns the index of the one period that contains the date, and \<open>-1\<close>
  exactly when no period does.
\<close>

lemma periodIndex_exact:
  assumes "is_ok (validatePeriods frame ps)"
  shows "case periodIndex ps d of
      Some i \<Rightarrow> i < length ps \<and> in_period (ps ! i) d \<and> (\<forall>j<length ps. in_period (ps ! j) d \<longrightarrow> j = i)
    | None \<Rightarrow> \<forall>p\<in>set ps. \<not> in_period p d"
proof -
  have o: "periods_ordered ps" using assms by (simp add: validatePeriods_ok)
  show ?thesis
  proof (cases "periodIndex ps d")
    case None
    then show ?thesis using periodIndex_None[OF o, of d] by simp
  next
    case (Some i)
    have "j = i" if "j < length ps" "in_period (ps ! j) d" for j
      using that Some periodIndex_search[OF o, of d j] by simp
    with Some periodIndex_search[OF o, of d i] show ?thesis by simp
  qed
qed

definition example_periods :: "period_range list" where
  "example_periods = map (\<lambda>m. \<lparr>pr_period = periodForDate (Date 2024 m 1) TimeGranularityMonth,
     pr_start = Date 2024 m 1, pr_end = Date 2024 m 28, pr_partial = False, pr_absent = False\<rparr>) [1, 2, 3]"

lemma periodIndex_exact_witness:
  "is_ok (validatePeriods 0 example_periods) \<and> in_period (example_periods ! 1) (Date 2024 2 14)
   \<and> periodIndex example_periods (Date 2024 2 14) = Some 1"
proof -
  have v: "is_ok (validatePeriods 0 example_periods)" and d: "in_period (example_periods ! 1) (Date 2024 2 14)"
    by (simp_all add: validatePeriods_def example_periods_def date_compare_def date_ordinal_def in_period_def)
  have "length example_periods = 3" by (simp add: example_periods_def)
  then have "example_periods ! 1 \<in> set example_periods" "1 < length example_periods" by (simp_all del: One_nat_def)
  with periodIndex_exact[OF v, of "Date 2024 2 14"] d v show ?thesis
    by (cases "periodIndex example_periods (Date 2024 2 14)") auto
qed

subsection \<open>Cells\<close>

lemma sint_plus_mod: "sint (a + b :: int64) = (sint a + sint b + 2 ^ 63) mod 2 ^ 64 - 2 ^ 63"
  by (simp add: sint_word_ariths signed_take_bit_eq_take_bit_shift take_bit_eq_mod)

lemma addMinor_eq:
  "addMinor s amount = (if in_int64 (sint s + sint amount) then Inr (s + amount) else Inl ())"
proof (cases "in_int64 (sint s + sint amount)")
  case True
  then have "sint (s + amount) = sint s + sint amount" by (rule sint_plus)
  with True show ?thesis by (auto simp: addMinor_def word_sless_alt Let_def)
next
  case False
  have b: "- (2 ^ 63) \<le> sint s" "sint s < 2 ^ 63" "- (2 ^ 63) \<le> sint amount" "sint amount < 2 ^ 63"
    by (simp_all only: sint_lower sint_upper)
  let ?x = "sint s + sint amount"
  consider "2 ^ 63 \<le> ?x" | "?x < - (2 ^ 63)" using False by (auto simp: in_int64_def)
  then have "(0 < sint amount \<and> sint (s + amount) < sint s) \<or> (sint amount < 0 \<and> sint s < sint (s + amount))"
  proof cases
    case 1
    have "(?x + 2 ^ 63) mod 2 ^ 64 = (?x - 2 ^ 63) mod 2 ^ 64"
      using mod_add_self2[of "?x - 2 ^ 63" "2 ^ 64"] by (simp add: algebra_simps)
    also have "\<dots> = ?x - 2 ^ 63" using 1 b by (intro mod_pos_pos_trivial) simp_all
    finally have "sint (s + amount) = ?x - 2 ^ 63 - 2 ^ 63" unfolding sint_plus_mod by simp
    with 1 b show ?thesis by linarith
  next
    case 2
    have "(?x + 2 ^ 63) mod 2 ^ 64 = (?x + 2 ^ 63 + 2 ^ 64) mod 2 ^ 64" by (rule mod_add_self2[symmetric])
    also have "\<dots> = ?x + 2 ^ 63 + 2 ^ 64" using 2 b by (intro mod_pos_pos_trivial) simp_all
    finally have "sint (s + amount) = ?x + 2 ^ 63 + 2 ^ 64 - 2 ^ 63" unfolding sint_plus_mod by simp
    moreover have "(2 :: int) ^ 64 = 2 * 2 ^ 63" by simp
    ultimately have "sint amount < 0" "sint s < sint (s + amount)" using 2 b by linarith+
    then show ?thesis by simp
  qed
  with False show ?thesis by (simp add: addMinor_def word_sless_alt Let_def)
qed

definition cell_of :: "transaction multiset \<Rightarrow> cross_tab_cell" where
  "cell_of M = \<lparr>cell_count = int (size M), cell_hidden = int (size (filter_mset trans_hidden M)),
     cell_pending = int (size (filter_mset trans_pending M)), cell_in = word_of_int (total_in M),
     cell_out = word_of_int (total_out M)\<rparr>"

definition cell_fits :: "transaction multiset \<Rightarrow> bool" where
  "cell_fits M \<longleftrightarrow> totals_fit (total_in M) (total_out M)"

lemma cell_fits_empty [simp]: "cell_fits {#}"
  by (simp add: cell_fits_def totals_fit_def)

lemma cell_fits_mono: "M \<subseteq># N \<Longrightarrow> cell_fits N \<Longrightarrow> cell_fits M"
  using total_mono[of M N] by (auto simp: cell_fits_def totals_fit_def)

lemma cell_of_empty [simp]: "cell_of {#} = empty_cell"
  by (simp add: cell_of_def empty_cell_def)

lemma addToCell_cell:
  assumes "cell_fits M"
  shows "addToCell (cell_of M) t = (if cell_fits (add_mset t M) then Inr (cell_of (add_mset t M)) else Inl ())"
proof -
  let ?v = "sint (minor (trans_amount t))"
  have f: "totals_fit (total_in M) (total_out M)" using assms by (simp add: cell_fits_def)
  note fit = totals_fit_sum[OF total_bounds f]
  have s: "sint (word_of_int (total_in M) :: int64) = total_in M" "sint (word_of_int (total_out M) :: int64) = total_out M"
    using fit by (simp_all add: sint_of_int)
  have w: "word_of_int (total_in M) + minor (trans_amount t) = (word_of_int (total_in M + ?v) :: int64)"
    "word_of_int (total_out M) + minor (trans_amount t) = (word_of_int (total_out M + ?v) :: int64)"
    by simp_all
  consider "trans_hidden t" | "\<not> trans_hidden t" "0 < ?v" | "\<not> trans_hidden t" "?v < 0" | "\<not> trans_hidden t" "?v = 0"
    by fastforce
  then show ?thesis
  proof cases
    case 1
    then have "cell_fits (add_mset t M)" using f by (simp add: cell_fits_def tx_in_def tx_out_def)
    with 1 show ?thesis by (auto simp: addToCell_def cell_of_def tx_in_def tx_out_def Let_def)
  next
    case 2
    have "cell_fits (add_mset t M) \<longleftrightarrow> in_int64 (total_in M + ?v)"
      using 2 f total_bounds(1)[of M] by (auto simp: cell_fits_def totals_fit_def in_int64_def tx_in_def tx_out_def
          simp del: total_bounds)
    with 2 show ?thesis
      by (auto simp: addToCell_def cell_of_def word_sless_alt addMinor_eq s w tx_in_def tx_out_def Let_def
          simp del: of_int_add intro: arg_cong[where f = word_of_int])
  next
    case 3
    have "cell_fits (add_mset t M) \<longleftrightarrow> in_int64 (total_out M + ?v)"
      using 3 f total_bounds(2)[of M] by (auto simp: cell_fits_def totals_fit_def in_int64_def tx_in_def tx_out_def
          simp del: total_bounds)
    with 3 show ?thesis
      by (auto simp: addToCell_def cell_of_def word_sless_alt addMinor_eq s w tx_in_def tx_out_def Let_def
          simp del: of_int_add intro: arg_cong[where f = word_of_int])
  next
    case 4
    then have "cell_fits (add_mset t M)" using f by (simp add: cell_fits_def tx_in_def tx_out_def)
    with 4 show ?thesis
      by (auto simp: addToCell_def cell_of_def word_sless_alt tx_in_def tx_out_def Let_def)
  qed
qed

lemma Net_exact:
  assumes "cell_fits M"
  shows "sint (Net (cell_of M)) = total_in M + total_out M"
proof -
  have f: "totals_fit (total_in M) (total_out M)" using assms by (simp add: cell_fits_def)
  note fit = totals_fit_sum[OF total_bounds f]
  have "Net (cell_of M) = word_of_int (total_in M + total_out M)" by (simp add: Net_def cell_of_def)
  then show ?thesis using fit(3) by (simp add: sint_of_int del: of_int_add)
qed

subsection \<open>The table of a list of transactions\<close>

definition wanted :: "cross_tab_spec \<Rightarrow> string \<Rightarrow> bool" where
  "wanted spec k \<longleftrightarrow> (case cross_keys spec of None \<Rightarrow> True | Some ks \<Rightarrow> k \<in> set ks)"

definition cross_key :: "cross_tab_spec \<Rightarrow> transaction \<Rightarrow> string" where
  "cross_key spec t = fst (dimensionValue t (cross_dimension spec))"

definition cross_label :: "cross_tab_spec \<Rightarrow> transaction \<Rightarrow> string" where
  "cross_label spec t = snd (dimensionValue t (cross_dimension spec))"

definition in_frame :: "cross_tab_frame_spec \<Rightarrow> transaction \<Rightarrow> bool" where
  "in_frame frame t \<longleftrightarrow> (\<exists>p\<in>set (frame_periods frame). in_period p (trans_date t))"

definition cell_for :: "(transaction \<Rightarrow> bool) \<Rightarrow> transaction list \<Rightarrow> period_range \<Rightarrow> cross_tab_cell" where
  "cell_for P ts p = cell_of (mset (filter (\<lambda>t. in_period p (trans_date t) \<and> P t) ts))"

definition frame_spec :: "cross_tab_spec \<Rightarrow> transaction list \<Rightarrow> cross_tab_frame_spec \<Rightarrow> cross_tab_frame" where
  "frame_spec spec ts frame =
     \<lparr>frame_totals = map (cell_for (\<lambda>_. True) ts) (frame_periods frame),
      frame_cells = (\<lambda>k. if frame_series frame \<and> wanted spec k
          \<and> (cross_keys spec \<noteq> None \<or> (\<exists>t\<in>set ts. cross_key spec t = k \<and> in_frame frame t))
        then Some (map (cell_for (\<lambda>t. cross_key spec t = k) ts) (frame_periods frame)) else None)\<rparr>"

definition labelled :: "cross_tab_spec \<Rightarrow> transaction \<Rightarrow> bool" where
  "labelled spec t \<longleftrightarrow> wanted spec (cross_key spec t)
     \<and> (\<exists>frame\<in>set (cross_frames spec). frame_series frame \<and> in_frame frame t)"

definition labels_spec :: "cross_tab_spec \<Rightarrow> transaction list \<Rightarrow> string \<Rightarrow> string option" where
  "labels_spec spec ts k =
     (let names = cross_label spec ` {t \<in> set ts. cross_key spec t = k \<and> labelled spec t} in
      if names = {} then None else Some (Min names))"

definition frame_fits :: "transaction list \<Rightarrow> cross_tab_frame_spec \<Rightarrow> bool" where
  "frame_fits ts frame \<longleftrightarrow>
     (\<forall>p\<in>set (frame_periods frame). cell_fits (mset (filter (\<lambda>t. in_period p (trans_date t)) ts)))"

lemma frame_fits_append: "frame_fits (ts @ us) frame \<Longrightarrow> frame_fits ts frame"
  unfolding frame_fits_def by (auto elim!: cell_fits_mono[rotated])

lemma cell_for_append:
  "cell_for P (ts @ [t]) p = (if in_period p (trans_date t) \<and> P t
     then cell_of (add_mset t (mset (filter (\<lambda>t. in_period p (trans_date t) \<and> P t) ts))) else cell_for P ts p)"
  by (simp add: cell_for_def)

lemma frame_fits_key:
  assumes "frame_fits ts frame" and "p \<in> set (frame_periods frame)"
  shows "cell_fits (mset (filter (\<lambda>t. in_period p (trans_date t) \<and> P t) ts))"
proof (rule cell_fits_mono)
  have e: "mset (filter (\<lambda>t. in_period p (trans_date t) \<and> P t) ts) = filter_mset P (mset (filter (\<lambda>t. in_period p (trans_date t)) ts))"
    by (simp add: filter_filter_mset conj_commute)
  show "mset (filter (\<lambda>t. in_period p (trans_date t) \<and> P t) ts) \<subseteq># mset (filter (\<lambda>t. in_period p (trans_date t)) ts)"
    unfolding e by (rule multiset_filter_subset)
  show "cell_fits (mset (filter (\<lambda>t. in_period p (trans_date t)) ts))" using assms by (simp add: frame_fits_def)
qed

text \<open>Adding a transaction to the cells of the one period that contains it.\<close>

lemma cells_update:
  assumes "i < length ps" and "in_period (ps ! i) (trans_date t)" and "P t"
    and "\<forall>j<length ps. in_period (ps ! j) (trans_date t) \<longrightarrow> j = i"
  shows "(map (cell_for P ts) ps)[i := cell_for P (ts @ [t]) (ps ! i)] = map (cell_for P (ts @ [t])) ps"
proof (intro nth_equalityI)
  fix j assume "j < length ((map (cell_for P ts) ps)[i := cell_for P (ts @ [t]) (ps ! i)])"
  then have j: "j < length ps" by simp
  show "(map (cell_for P ts) ps)[i := cell_for P (ts @ [t]) (ps ! i)] ! j = map (cell_for P (ts @ [t])) ps ! j"
  proof (cases "j = i")
    case False
    then have "\<not> in_period (ps ! j) (trans_date t)" using assms(4) j by blast
    with False j show ?thesis by (simp add: cell_for_append)
  qed (use j in simp)
qed simp

lemma seriesCells_spec:
  assumes "frame_series frame" and "wanted spec k"
  shows "seriesCells (frame_spec spec ts frame) k (length (frame_periods frame))
    = map (cell_for (\<lambda>t. cross_key spec t = k) ts) (frame_periods frame)"
proof (cases "cross_keys spec \<noteq> None \<or> (\<exists>t\<in>set ts. cross_key spec t = k \<and> in_frame frame t)")
  case True
  with assms show ?thesis by (simp add: seriesCells_def frame_spec_def)
next
  case False
  then have "cell_for (\<lambda>t. cross_key spec t = k) ts p = empty_cell" if "p \<in> set (frame_periods frame)" for p
  proof -
    have "filter (\<lambda>t. in_period p (trans_date t) \<and> cross_key spec t = k) ts = []"
      using False that by (auto simp: filter_empty_conv in_frame_def)
    then show ?thesis by (simp add: cell_for_def)
  qed
  then have "map (cell_for (\<lambda>t. cross_key spec t = k) ts) (frame_periods frame) = map (\<lambda>_. empty_cell) (frame_periods frame)"
    by simp
  moreover have "frame_cells (frame_spec spec ts frame) k = None" using False by (simp add: frame_spec_def)
  ultimately show ?thesis by (simp add: seriesCells_def map_replicate_const)
qed

definition note_if :: "bool \<Rightarrow> string \<Rightarrow> string \<Rightarrow> (string \<Rightarrow> string option) \<Rightarrow> string \<Rightarrow> string option" where
  "note_if b key label labels = (if b then noteLabel labels key label else labels)"

lemma addToFrame_spec:
  assumes "periods_ordered (frame_periods frame)" and "frame_fits ts frame"
  shows "result_option (addToFrame index t (cross_key spec t) (cross_label spec t) (wanted spec (cross_key spec t)) frame
      (frame_spec spec ts frame, labels)) =
    (if frame_fits (ts @ [t]) frame
     then Some (frame_spec spec (ts @ [t]) frame,
       note_if (frame_series frame \<and> wanted spec (cross_key spec t) \<and> in_frame frame t)
         (cross_key spec t) (cross_label spec t) labels)
     else None)"
proof (cases "periodIndex (frame_periods frame) (trans_date t)")
  case None
  then have out: "\<forall>p\<in>set (frame_periods frame). \<not> in_period p (trans_date t)"
    using periodIndex_None[OF assms(1)] by simp
  then have "frame_fits (ts @ [t]) frame" using assms(2) by (simp add: frame_fits_def)
  moreover have nf: "\<not> in_frame frame t" using out by (simp add: in_frame_def)
  moreover have cells: "map (cell_for P (ts @ [t])) (frame_periods frame) = map (cell_for P ts) (frame_periods frame)" for P
    using out by (simp add: cell_for_append)
  moreover have "(\<exists>u\<in>set (ts @ [t]). cross_key spec u = k \<and> in_frame frame u) \<longleftrightarrow> (\<exists>u\<in>set ts. cross_key spec u = k \<and> in_frame frame u)" for k
    using nf by auto
  ultimately have "frame_spec spec (ts @ [t]) frame = frame_spec spec ts frame"
    unfolding frame_spec_def by (simp only: cells)
  with None nf \<open>frame_fits (ts @ [t]) frame\<close> show ?thesis by (simp add: addToFrame_def note_if_def)
next
  case (Some i)
  let ?ps = "frame_periods frame" and ?k = "cross_key spec t"
  let ?in = "mset (filter (\<lambda>u. in_period (?ps ! i) (trans_date u)) ts)"
  have i: "i < length ?ps" "in_period (?ps ! i) (trans_date t)"
    using Some periodIndex_search[OF assms(1)] by simp_all
  have only: "\<forall>j<length ?ps. in_period (?ps ! j) (trans_date t) \<longrightarrow> j = i"
  proof (intro allI impI)
    fix j assume "j < length ?ps" "in_period (?ps ! j) (trans_date t)"
    then have "periodIndex ?ps (trans_date t) = Some j" using periodIndex_search[OF assms(1)] by blast
    with Some show "j = i" by simp
  qed
  have f: "in_frame frame t" using i by (auto simp: in_frame_def)
  have out: "\<not> in_period p (trans_date t)" if "p \<in> set ?ps" "p \<noteq> ?ps ! i" for p
    using that only by (metis in_set_conv_nth)
  have fits: "frame_fits (ts @ [t]) frame \<longleftrightarrow> cell_fits (add_mset t ?in)"
  proof
    assume "frame_fits (ts @ [t]) frame"
    then have "cell_fits (mset (filter (\<lambda>u. in_period (?ps ! i) (trans_date u)) (ts @ [t])))"
      using i(1) by (simp only: frame_fits_def nth_mem)
    then show "cell_fits (add_mset t ?in)" using i(2) by simp
  next
    assume c: "cell_fits (add_mset t ?in)"
    have "cell_fits (mset (filter (\<lambda>u. in_period p (trans_date u)) (ts @ [t])))" if p: "p \<in> set ?ps" for p
    proof (cases "p = ?ps ! i")
      case True
      then show ?thesis using c i(2) by simp
    next
      case False
      then show ?thesis using out[OF p] assms(2) p by (simp add: frame_fits_def)
    qed
    then show "frame_fits (ts @ [t]) frame" by (simp add: frame_fits_def)
  qed
  have in0: "cell_fits ?in" using assms(2) i(1) by (simp add: frame_fits_def)
  have first: "addToCell (frame_totals (frame_spec spec ts frame) ! i) t
      = (if cell_fits (add_mset t ?in) then Inr (cell_for (\<lambda>_. True) (ts @ [t]) (?ps ! i)) else Inl ())"
    using addToCell_cell[OF in0, of t] i by (simp add: frame_spec_def cell_for_def)
  have totals: "(map (cell_for (\<lambda>_. True) ts) ?ps)[i := cell_for (\<lambda>_. True) (ts @ [t]) (?ps ! i)]
      = map (cell_for (\<lambda>_. True) (ts @ [t])) ?ps"
    by (rule cells_update[OF i _ only]) simp
  show ?thesis
  proof (cases "cell_fits (add_mset t ?in)")
    case False
    then show ?thesis using Some by (simp add: addToFrame_def first fits)
  next
    case True
    let ?collect = "frame_series frame \<and> wanted spec ?k"
    have same: "frame_cells (frame_spec spec (ts @ [t]) frame) k = frame_cells (frame_spec spec ts frame) k"
      if "\<not> (?collect \<and> k = ?k)" for k
      using that by (auto simp: frame_spec_def cell_for_append)
    show ?thesis
    proof (cases ?collect)
      case False
      then have "frame_spec spec (ts @ [t]) frame = frame_spec spec ts frame\<lparr>frame_totals := map (cell_for (\<lambda>_. True) (ts @ [t])) ?ps\<rparr>"
        using same by (intro cross_tab_frame.equality) (auto simp: frame_spec_def)
      moreover have "(frame_totals (frame_spec spec ts frame))[i := cell_for (\<lambda>_. True) (ts @ [t]) (?ps ! i)]
          = map (cell_for (\<lambda>_. True) (ts @ [t])) ?ps"
        using totals by (simp add: frame_spec_def)
      ultimately show ?thesis
        using Some True False fits f by (auto simp: addToFrame_def first note_if_def Let_def)
    next
      case collect: True
      let ?P = "\<lambda>u. cross_key spec u = ?k"
      have cells: "seriesCells (frame_spec spec ts frame) ?k (length ?ps) = map (cell_for ?P ts) ?ps"
        using collect by (intro seriesCells_spec) simp_all
      have kf: "cell_fits (add_mset t (mset (filter (\<lambda>u. in_period (?ps ! i) (trans_date u) \<and> ?P u) ts)))"
        using frame_fits_key[of "ts @ [t]" frame "?ps ! i" ?P] fits True i by simp
      have kf0: "cell_fits (mset (filter (\<lambda>u. in_period (?ps ! i) (trans_date u) \<and> ?P u) ts))"
        using frame_fits_key[OF assms(2), of "?ps ! i" ?P] i(1) by simp
      have second: "addToCell (map (cell_for ?P ts) ?ps ! i) t = Inr (cell_for ?P (ts @ [t]) (?ps ! i))"
        using addToCell_cell[OF kf0, of t] kf i by (simp add: cell_for_def)
      have series: "(map (cell_for ?P ts) ?ps)[i := cell_for ?P (ts @ [t]) (?ps ! i)] = map (cell_for ?P (ts @ [t])) ?ps"
        by (rule cells_update[OF i _ only]) simp
      have "frame_cells (frame_spec spec (ts @ [t]) frame) ?k = Some (map (cell_for ?P (ts @ [t])) ?ps)"
        using collect f by (auto simp: frame_spec_def)
      then have new: "frame_spec spec (ts @ [t]) frame = frame_spec spec ts frame
          \<lparr>frame_totals := map (cell_for (\<lambda>_. True) (ts @ [t])) ?ps,
           frame_cells := (frame_cells (frame_spec spec ts frame))(?k \<mapsto> map (cell_for ?P (ts @ [t])) ?ps)\<rparr>"
      proof (intro cross_tab_frame.equality)
        assume k: "frame_cells (frame_spec spec (ts @ [t]) frame) ?k = Some (map (cell_for ?P (ts @ [t])) ?ps)"
        show "frame_cells (frame_spec spec (ts @ [t]) frame) = frame_cells (frame_spec spec ts frame
          \<lparr>frame_totals := map (cell_for (\<lambda>_. True) (ts @ [t])) ?ps,
           frame_cells := (frame_cells (frame_spec spec ts frame))(?k \<mapsto> map (cell_for ?P (ts @ [t])) ?ps)\<rparr>)"
          using k same by (intro ext) simp
      qed (simp_all add: frame_spec_def)
      have old: "(frame_totals (frame_spec spec ts frame))[i := cell_for (\<lambda>_. True) (ts @ [t]) (?ps ! i)]
          = map (cell_for (\<lambda>_. True) (ts @ [t])) ?ps"
        using totals by (simp add: frame_spec_def)
      define st where "st = frame_spec spec ts frame"
      have fresh: "seriesCells (st\<lparr>frame_totals := x\<rparr>) ?k (length ?ps) = map (cell_for ?P ts) ?ps" for x
        using cells unfolding st_def by (simp add: seriesCells_def)
      have "addToFrame index t ?k (cross_label spec t) (wanted spec ?k) frame (st, labels)
          = Inr (frame_spec spec (ts @ [t]) frame, noteLabel labels ?k (cross_label spec t))"
        unfolding new
        using Some True collect first[folded st_def] old[folded st_def] second series
        by (simp add: addToFrame_def fresh Let_def flip: st_def)
      then show ?thesis using True collect fits f by (simp add: st_def note_if_def)
    qed
  qed
qed

lemma result_option_bind:
  "result_option (bind_result r f) = (case result_option r of None \<Rightarrow> None | Some x \<Rightarrow> result_option (f x))"
  by (cases r) simp_all

lemma note_if_twice: "note_if a k l (note_if b k l labels) = note_if (a \<or> b) k l labels"
  by (auto simp: note_if_def noteLabel_def split: option.splits)

lemma addToFrames_spec:
  assumes "\<forall>frame\<in>set frames. periods_ordered (frame_periods frame) \<and> frame_fits ts frame"
  shows "result_option (addToFrames index t (cross_key spec t) (cross_label spec t) (wanted spec (cross_key spec t))
      frames (map (frame_spec spec ts) frames) labels) =
    (if \<forall>frame\<in>set frames. frame_fits (ts @ [t]) frame
     then Some \<lparr>tab_frames = map (frame_spec spec (ts @ [t])) frames,
       tab_labels = note_if (\<exists>frame\<in>set frames. frame_series frame \<and> wanted spec (cross_key spec t) \<and> in_frame frame t)
         (cross_key spec t) (cross_label spec t) labels\<rparr>
     else None)"
  using assms
proof (induction frames arbitrary: index labels)
  case Nil
  then show ?case by (simp add: note_if_def)
next
  case (Cons frame frames)
  have o: "periods_ordered (frame_periods frame)" "frame_fits ts frame" using Cons.prems by simp_all
  have rest: "\<forall>frame\<in>set frames. periods_ordered (frame_periods frame) \<and> frame_fits ts frame" using Cons.prems by simp
  show ?case
    by (simp add: result_option_bind addToFrame_spec[OF o] Cons.IH[OF rest] note_if_twice disj_commute)
qed

definition tab_spec :: "cross_tab_spec \<Rightarrow> transaction list \<Rightarrow> cross_tab" where
  "tab_spec spec ts = \<lparr>tab_frames = map (frame_spec spec ts) (cross_frames spec), tab_labels = labels_spec spec ts\<rparr>"

definition tab_fits :: "cross_tab_spec \<Rightarrow> transaction list \<Rightarrow> bool" where
  "tab_fits spec ts \<longleftrightarrow> (\<forall>frame\<in>set (cross_frames spec). frame_fits ts frame)"

lemma labels_spec_append:
  "labels_spec spec (ts @ [t]) = note_if (labelled spec t) (cross_key spec t) (cross_label spec t) (labels_spec spec ts)"
proof
  fix k
  define N where "N = cross_label spec ` {u \<in> set ts. cross_key spec u = k \<and> labelled spec u}"
  have old: "labels_spec spec ts k = (if N = {} then None else Some (Min N))" by (simp add: labels_spec_def N_def Let_def)
  have fin: "finite N" by (simp add: N_def)
  show "labels_spec spec (ts @ [t]) k
      = note_if (labelled spec t) (cross_key spec t) (cross_label spec t) (labels_spec spec ts) k"
  proof (cases "labelled spec t \<and> cross_key spec t = k")
    case False
    then have "{u \<in> set (ts @ [t]). cross_key spec u = k \<and> labelled spec u} = {u \<in> set ts. cross_key spec u = k \<and> labelled spec u}"
      by auto
    then have "labels_spec spec (ts @ [t]) k = labels_spec spec ts k" by (simp add: labels_spec_def)
    with False show ?thesis by (auto simp: note_if_def noteLabel_def split: option.splits)
  next
    case True
    then have "cross_label spec ` {u \<in> set (ts @ [t]). cross_key spec u = k \<and> labelled spec u} = insert (cross_label spec t) N"
      by (auto simp: N_def)
    then have "labels_spec spec (ts @ [t]) k = Some (Min (insert (cross_label spec t) N))" by (simp add: labels_spec_def Let_def)
    moreover have "Min (insert (cross_label spec t) N) = (if N = {} then cross_label spec t else min (cross_label spec t) (Min N))"
      using fin by simp
    ultimately show ?thesis using True old
      by (auto simp: note_if_def noteLabel_def min_def split: option.splits if_splits)
  qed
qed

lemma addTransaction_spec:
  assumes "\<forall>frame\<in>set (cross_frames spec). periods_ordered (frame_periods frame)" and "tab_fits spec ts"
  shows "result_option (addTransaction spec (tab_spec spec ts) t) =
    (if tab_fits spec (ts @ [t]) then Some (tab_spec spec (ts @ [t])) else None)"
proof -
  have f: "\<forall>frame\<in>set (cross_frames spec). periods_ordered (frame_periods frame) \<and> frame_fits ts frame"
    using assms by (auto simp: tab_fits_def)
  have "labelled spec t \<longleftrightarrow> (\<exists>frame\<in>set (cross_frames spec). frame_series frame \<and> wanted spec (cross_key spec t) \<and> in_frame frame t)"
    by (auto simp: labelled_def)
  then show ?thesis
    using addToFrames_spec[OF f, of 0 t spec "labels_spec spec ts"]
    by (simp add: addTransaction_def tab_spec_def tab_fits_def labels_spec_append cross_key_def cross_label_def
        wanted_def split_beta Let_def)
qed

definition single_partition :: "transaction list \<Rightarrow> bool" where
  "single_partition ts \<longleftrightarrow> (\<forall>t\<in>set ts. \<forall>u\<in>set ts. part_of t = part_of u)"

lemma map_cell_for_Nil [simp]: "map (cell_for P []) ps = replicate (length ps) empty_cell"
  by (induction ps) (simp_all add: cell_for_def)

lemma cross_fold:
  assumes "\<forall>frame\<in>set (cross_frames spec). periods_ordered (frame_periods frame)"
  shows "result_option (fold_result (cross_step spec) (None, newCrossTab spec) ts) =
    (if single_partition ts \<and> tab_fits spec ts
     then Some (if ts = [] then None else Some (part_of (hd ts)), tab_spec spec ts) else None)"
proof (induction ts rule: rev_induct)
  case Nil
  have "newFrame spec = frame_spec spec []"
    by (intro ext, cases "cross_keys spec") (simp_all add: newFrame_def frame_spec_def wanted_def Let_def cong: if_cong)
  then have "newCrossTab spec = tab_spec spec []"
    by (auto simp: newCrossTab_def tab_spec_def labels_spec_def)
  then show ?case by (simp add: single_partition_def tab_fits_def frame_fits_def)
next
  case (snoc t ts)
  have fewer: "tab_fits spec (ts @ [t]) \<Longrightarrow> tab_fits spec ts"
    by (auto simp: tab_fits_def dest: frame_fits_append)
  have sp: "single_partition (ts @ [t]) \<longleftrightarrow> single_partition ts \<and> (ts = [] \<or> part_of (hd ts) = part_of t)"
    by (cases ts) (auto simp: single_partition_def)
  show ?case
  proof (cases "single_partition ts \<and> tab_fits spec ts")
    case False
    then have "result_option (fold_result (cross_step spec) (None, newCrossTab spec) (ts @ [t])) = None"
      using snoc by (auto simp: fold_result_append result_option_bind)
    with False fewer sp show ?thesis by auto
  next
    case True
    have "result_option (fold_result (cross_step spec) (None, newCrossTab spec) (ts @ [t]))
        = result_option (cross_step spec (if ts = [] then None else Some (part_of (hd ts)), tab_spec spec ts) t)"
      using snoc True by (simp add: fold_result_append result_option_bind split: option.split)
    also have "\<dots> = (if single_partition (ts @ [t]) \<and> tab_fits spec (ts @ [t])
        then Some (Some (part_of t), tab_spec spec (ts @ [t])) else None)"
      using True addTransaction_spec[OF assms, of ts t]
      by (auto simp: cross_step_def result_option_bind sp Let_def)
    finally have step: "result_option (fold_result (cross_step spec) (None, newCrossTab spec) (ts @ [t]))
        = (if single_partition (ts @ [t]) \<and> tab_fits spec (ts @ [t])
        then Some (Some (part_of t), tab_spec spec (ts @ [t])) else None)" .
    have "part_of (hd (ts @ [t])) = part_of t" if "single_partition (ts @ [t])"
      using that sp by (cases ts) simp_all
    with step show ?thesis by simp
  qed
qed

text \<open>
  C19. The cross-tabulation is exact. It succeeds exactly when the specification is valid (an entity
  dimension, at most 200 keys, ordered disjoint periods in every frame), the transactions share one
  currency and scale and no cell's income or expenses leave \<open>int64\<close>; then every total and series
  cell holds the exact counts and sums of the transactions of its period and key, series exist for
  exactly the requested keys (or, with no request, the keys seen in the frame), and the label of a
  key is its least label among the collected transactions.
\<close>

theorem ComputeCrossTab_exact:
  "ComputeCrossTab ts spec = Inr tab \<longleftrightarrow>
     is_ok (validateCrossTabSpec spec) \<and> single_partition ts \<and> tab_fits spec ts \<and> tab = tab_spec spec ts"
proof (cases "is_ok (validateCrossTabSpec spec)")
  case False
  then show ?thesis by (cases "validateCrossTabSpec spec") (simp_all add: ComputeCrossTab_def)
next
  case True
  then have "is_ok (check_all (\<lambda>(index, frame). validatePeriods index (frame_periods frame)) (enumerate 0 (cross_frames spec)))"
    by (simp add: validateCrossTabSpec_def split: if_splits)
  then have "\<forall>x\<in>set (enumerate 0 (cross_frames spec)). is_ok (validatePeriods (fst x) (frame_periods (snd x)))"
    by (auto simp: is_ok_iff check_all_Inr split_beta)
  then have "\<forall>x\<in>set (enumerate 0 (cross_frames spec)). periods_ordered (frame_periods (snd x))"
    by (simp only: validatePeriods_ok)
  then have "\<forall>frame\<in>snd ` set (enumerate 0 (cross_frames spec)). periods_ordered (frame_periods frame)" by blast
  then have o: "\<forall>frame\<in>set (cross_frames spec). periods_ordered (frame_periods frame)"
    by (simp only: set_map[symmetric] map_snd_enumerate)
  obtain u where v: "validateCrossTabSpec spec = Inr u" using True by (auto simp: is_ok_iff)
  have "result_option (ComputeCrossTab ts spec) =
      (if single_partition ts \<and> tab_fits spec ts then Some (tab_spec spec ts) else None)"
    by (simp add: ComputeCrossTab_def v result_option_bind cross_fold[OF o])
  then show ?thesis using True result_option_Some by (metis option.distinct(1) option.inject)
qed

subsection \<open>The periods that ranges produce\<close>

lemma tiles_ordered: "tiles a b rs \<Longrightarrow> periods_ordered rs"
proof (induction a b rs rule: tiles.induct)
  case (2 a b r)
  then show ?case by (auto simp: periods_ordered_def date_compare_valid)
next
  case (3 a b r q rs)
  then have t: "tiles (pr_start q) b (q # rs)" and r: "pr_start r = a" "a \<le> pr_end r" "valid_date a" "valid_date (pr_end r)"
    and adj: "adjacent (pr_end r) (pr_start q)" by auto
  note q = tiles_bounds[OF t]
  have v: "valid_date (pr_start q)" using tiles_start[OF t] by simp
  have lt: "pr_end r < pr_start q" using adjacent_less[OF r(4) v adj] .
  have "date_compare (pr_end r) (pr_start x) < 0" if x: "x \<in> set (q # rs)" for x
  proof -
    have "pr_start q \<le> pr_start x" "valid_date (pr_start x)" using q x by auto
    moreover have "pr_end r < pr_start x" using lt calculation(1) by (rule order.strict_trans2)
    ultimately show ?thesis using r(4) by (simp add: date_compare_valid)
  qed
  moreover have "date_compare (pr_start r) (pr_end r) \<le> 0" using r by (simp add: date_compare_valid)
  moreover have "periods_ordered (q # rs)" using 3 by simp
  ultimately show ?case by (simp add: periods_ordered_def)
qed simp

text \<open>
  Time rows can always be cross-tabulated: the periods that \<open>TimeRowPeriods\<close> returns for a valid
  input pass the cross-tabulation's check that periods are ordered and disjoint, so no day is counted
  twice.
\<close>

lemma TimeRowPeriods_validate:
  assumes "range_input_ok input" and "TimeRowPeriods input = Inr (g, rows)"
  shows "is_ok (validatePeriods frame rows)"
proof -
  have "rows = [] \<or> (\<exists>a b. tiles a b rows)"
  proof (cases "in_scope input")
    case None
    then have "timeRowPeriods ScopeAll input = Inr (g, rows)"
      using assms(2) by (simp add: TimeRowPeriods_def copyScope_def ClassifyScope_def)
    with timeRowPeriods_all[OF assms(1) None] show ?thesis by (auto split: if_splits)
  next
    case (Some s)
    then have "timeRowPeriods (ClassifyScope (Some s)) input = Inr (g, rows)"
      using assms(2) by (auto simp: TimeRowPeriods_def bind_result_Inr)
    with timeRowPeriods_scope[OF assms(1) Some] show ?thesis by auto
  qed
  then show ?thesis using tiles_ordered by (auto simp: validatePeriods_ok periods_ordered_def)
qed

lemma TimeRowPeriods_validate_witness:
  "\<exists>g rows. TimeRowPeriods example_range_input = Inr (g, rows) \<and> is_ok (validatePeriods 0 rows)"
proof -
  obtain s where s: "in_scope example_range_input = Some s" by (simp add: example_range_input_def)
  have "\<not> 0 < date_compare (range_start s) (range_end s)"
    using s by (auto simp: example_range_input_def date_compare_def date_ordinal_def)
  then obtain g rows where "TimeRowPeriods example_range_input = Inr (g, rows)"
    using timeRowPeriods_scope[OF example_range_input_ok s] s by (auto simp: TimeRowPeriods_def copyScope_def)
  with TimeRowPeriods_validate[OF example_range_input_ok this] show ?thesis by blast
qed

end
