(* ===== verification/Rebase.thy ===== *)
theory Rebase
  imports Replay "HOL-Library.Sublist"
begin

text \<open>
  \<open>internal/replay/provider_rebase.go\<close>: when a provider refresh replaces the committed base, the
  active journal is rewritten so that it applies to the new base.  Targets that are gone are
  dropped, a hide is kept only where it still changes the row, operations whose dependencies are
  gone are removed, and what stays is applied with \<open>ApplyOperation\<close>, one operation at a time.
  A Go map from identities to flags is a partial function; the payload of an operation is a pointer,
  so that reading it may fail with \<open>NilPayload\<close>.
\<close>

record rebase_summary =
  removed_operations :: nat
  removed_targets :: int
  retained_operations :: nat
  rebased_hide_targets :: nat
  discarded_redo :: int

record rebase_detail =
  detail_operation :: string
  detail_type :: operation_type
  detail_removed_targets :: int
  detail_removed :: bool

record rebase_result =
  rebase_journal :: "operation list"
  rebase_cursor :: nat
  rebase_summary :: rebase_summary
  rebase_details :: "rebase_detail list"

datatype rebase_error =
    RebaseOldJournal replay_error
  | RebaseNewBase profile_error
  | RebaseOperation string replay_error
  | RebasePanic apply_error

subsection \<open>Targets and dependencies\<close>

definition providerTransactionScoped :: "operation \<Rightarrow> bool" where
  "providerTransactionScoped oper =
     (case op_type oper of
        OperationMerchantReassign \<Rightarrow> True
      | OperationCategoryAssign \<Rightarrow> True
      | OperationTransactionHide \<Rightarrow> True
      | OperationTransactionDelete \<Rightarrow> True
      | OperationCategoryCreate \<Rightarrow> length (op_targets oper) \<noteq> 1
          \<or> (case op_create oper of None \<Rightarrow> True | Some c \<Rightarrow> op_targets oper ! 0 \<noteq> create_entity c)
      | _ \<Rightarrow> False)"

definition providerSurvivingTransactionTargets ::
    "profile \<Rightarrow> entity_id list \<Rightarrow> entity_id list \<times> int" where
  "providerSurvivingTransactionTargets p targets =
     (let present = set (map record_id (transactions p));
          result = filter (\<lambda>t. t \<in> present) targets
      in (result, int (length targets) - int (length result)))"

definition providerHiddenStateByTransaction :: "profile \<Rightarrow> entity_id \<rightharpoonup> bool" where
  "providerHiddenStateByTransaction p =
     foldl (\<lambda>values r. values(record_id r \<mapsto> record_hidden r)) Map.empty (transactions p)"

fun rebase_hide_targets ::
    "(entity_id \<rightharpoonup> bool) \<Rightarrow> (entity_id \<rightharpoonup> bool) \<Rightarrow> entity_id list \<times> int \<Rightarrow> entity_id \<Rightarrow>
     entity_id list \<times> int" where
  "rebase_hide_targets current oldHidden (result, removed) target =
     (case oldHidden target of
        None \<Rightarrow> (result, removed + 1)
      | Some intended \<Rightarrow>
          (case current target of
             None \<Rightarrow> (result, removed + 1)
           | Some baseHidden \<Rightarrow> if baseHidden = intended then (result, removed + 1)
                else (result @ [target], removed)))"

definition providerRebaseHideTargets ::
    "profile \<Rightarrow> (entity_id \<rightharpoonup> bool) \<Rightarrow> entity_id list \<Rightarrow> int \<Rightarrow> entity_id list \<times> int" where
  "providerRebaseHideTargets p oldHidden targets removed =
     foldl (rebase_hide_targets (providerHiddenStateByTransaction p) oldHidden) ([], removed) targets"

definition providerActiveMerchantExists :: "profile \<Rightarrow> entity_id \<Rightarrow> bool" where
  "providerActiveMerchantExists p ident =
     (case List.find (\<lambda>m. merchant_id m = ident) (merchants p) of
        Some m \<Rightarrow> \<not> merchant_retired m | None \<Rightarrow> False)"

definition providerActiveGroupExists :: "profile \<Rightarrow> entity_id \<Rightarrow> bool" where
  "providerActiveGroupExists p ident =
     (case List.find (\<lambda>g. group_id g = ident) (groups p) of
        Some g \<Rightarrow> \<not> group_retired g | None \<Rightarrow> False)"

definition providerActiveCategoryExists :: "profile \<Rightarrow> entity_id \<Rightarrow> bool" where
  "providerActiveCategoryExists p ident =
     (case List.find (\<lambda>c. category_id c = ident) (categories p) of
        Some c \<Rightarrow> \<not> category_retired c | None \<Rightarrow> False)"

definition providerOperationDependenciesExist :: "profile \<Rightarrow> operation \<Rightarrow> apply_error + bool" where
  "providerOperationDependenciesExist p oper =
     (case op_type oper of
        OperationMerchantLabel \<Rightarrow> bind_result (the_payload (op_label oper)) (\<lambda>l.
          Inr (providerActiveMerchantExists p (label_entity l)))
      | OperationMerchantMerge \<Rightarrow> bind_result (the_payload (op_merge oper)) (\<lambda>m.
          Inr (providerActiveMerchantExists p (merge_source m)
            \<and> providerActiveMerchantExists p (merge_destination m)))
      | OperationMerchantReassign \<Rightarrow> bind_result (the_payload (op_reassign oper)) (\<lambda>r.
          Inr (reassign_created r \<noteq> None \<or> providerActiveMerchantExists p (reassign_destination r)))
      | OperationCategoryAssign \<Rightarrow> bind_result (the_payload (op_reassign oper)) (\<lambda>r.
          Inr (providerActiveCategoryExists p (reassign_destination r)))
      | OperationCategoryCreate \<Rightarrow> bind_result (the_payload (op_create oper)) (\<lambda>c.
          Inr (providerActiveGroupExists p (create_parent c)))
      | OperationCategoryLabel \<Rightarrow> bind_result (the_payload (op_label oper)) (\<lambda>l.
          Inr (providerActiveCategoryExists p (label_entity l)))
      | OperationCategoryMove \<Rightarrow> bind_result (the_payload (op_move oper)) (\<lambda>m.
          Inr (providerActiveCategoryExists p (move_entity m)
            \<and> providerActiveGroupExists p (move_destination m)))
      | OperationCategoryMerge \<Rightarrow> bind_result (the_payload (op_merge oper)) (\<lambda>m.
          Inr (providerActiveCategoryExists p (merge_source m)
            \<and> providerActiveCategoryExists p (merge_destination m)))
      | OperationCategoryDelete \<Rightarrow> bind_result (the_payload (op_delete oper)) (\<lambda>d.
          Inr (providerActiveCategoryExists p (delete_source d)
            \<and> providerActiveCategoryExists p (delete_replacement d)))
      | OperationGroupCreate \<Rightarrow> Inr True
      | OperationGroupLabel \<Rightarrow> bind_result (the_payload (op_label oper)) (\<lambda>l.
          Inr (providerActiveGroupExists p (label_entity l)))
      | OperationGroupMerge \<Rightarrow> bind_result (the_payload (op_merge oper)) (\<lambda>m.
          Inr (providerActiveGroupExists p (merge_source m)
            \<and> providerActiveGroupExists p (merge_destination m)))
      | OperationGroupDelete \<Rightarrow> bind_result (the_payload (op_delete oper)) (\<lambda>d.
          Inr (providerActiveGroupExists p (delete_source d)
            \<and> providerActiveGroupExists p (delete_replacement d)))
      | OperationTransactionHide \<Rightarrow> Inr True
      | OperationTransactionDelete \<Rightarrow> Inr True
      | OperationUnknown _ \<Rightarrow> Inr False)"

subsection \<open>The rebase\<close>

text \<open>The operation with the targets it keeps, and how many targets it loses.\<close>

definition rebase_targets ::
    "(entity_id \<rightharpoonup> bool) \<Rightarrow> profile \<Rightarrow> operation \<Rightarrow> operation \<times> int" where
  "rebase_targets oldHidden effective original =
     (let (targets, removed) =
        (if providerTransactionScoped original
         then providerSurvivingTransactionTargets effective (op_targets original)
         else (op_targets original, 0));
      (targets, removed) =
        (if op_type original = OperationTransactionHide
         then providerRebaseHideTargets effective oldHidden targets removed
         else (targets, removed))
      in (original\<lparr>op_targets := targets\<rparr>, removed))"

definition count_hides :: "operation \<Rightarrow> rebase_summary \<Rightarrow> rebase_summary" where
  "count_hides oper s =
     (if op_type oper = OperationTransactionHide
      then s\<lparr>rebased_hide_targets := rebased_hide_targets s + length (op_targets oper)\<rparr> else s)"

definition note_removed ::
    "operation \<Rightarrow> operation \<Rightarrow> int \<Rightarrow> rebase_result \<Rightarrow> rebase_result" where
  "note_removed original oper removed r =
     (let removed = (if length (op_targets oper) > 0 then removed + int (length (op_targets oper))
                     else removed);
          s = rebase_summary r
      in r\<lparr>rebase_summary := s\<lparr>removed_operations := removed_operations s + 1,
             removed_targets := removed_targets s + removed\<rparr>,
           rebase_details := rebase_details r @
             [\<lparr>detail_operation = op_id original, detail_type = op_type original,
               detail_removed_targets = removed, detail_removed = True\<rparr>]\<rparr>)"

definition note_retained ::
    "operation \<Rightarrow> operation \<Rightarrow> int \<Rightarrow> rebase_result \<Rightarrow> rebase_result" where
  "note_retained original oper removed r =
     (let s = rebase_summary r
      in r\<lparr>rebase_journal := rebase_journal r @ [oper],
           rebase_summary := s\<lparr>retained_operations := retained_operations s + 1,
             removed_targets := removed_targets s + removed\<rparr>,
           rebase_details := (if removed > 0 then rebase_details r @
             [\<lparr>detail_operation = op_id original, detail_type = op_type original,
               detail_removed_targets = removed, detail_removed = False\<rparr>]
             else rebase_details r)\<rparr>)"

definition rebase_step ::
    "(string \<Rightarrow> string) \<Rightarrow> (entity_id \<rightharpoonup> bool) \<Rightarrow> profile \<times> rebase_result \<Rightarrow> operation \<Rightarrow>
     rebase_error + profile \<times> rebase_result" where
  "rebase_step casefold oldHidden state original =
     (let (effective, result) = state;
          (oper, removed) = rebase_targets oldHidden effective original;
          result = result\<lparr>rebase_summary := count_hides oper (rebase_summary result)\<rparr>
      in bind_result (if length (op_targets oper) = 0 then Inr False
             else map_error RebasePanic (providerOperationDependenciesExist effective oper)) (\<lambda>kept.
         if \<not> kept then Inr (effective, note_removed original oper removed result)
         else bind_result (map_error (RebaseOperation (op_id oper))
             (ApplyOperation casefold effective oper)) (\<lambda>q.
           Inr (q, note_retained original oper removed result))))"

definition RebaseProviderJournal ::
    "(string \<Rightarrow> string) \<Rightarrow> profile \<Rightarrow> profile \<Rightarrow> operation list \<Rightarrow> int \<Rightarrow> rebase_error + rebase_result" where
  "RebaseProviderJournal casefold oldBase newBase journal cursor =
     bind_result (map_error RebaseOldJournal (Replay casefold
       \<lparr>snap_revision = 0, snap_cursor = cursor, snap_committed = oldBase, snap_journal = journal,
        snap_drills = []\<rparr>)) (\<lambda>oldEffective.
     bind_result (map_error RebaseNewBase (ValidateProfile casefold newBase)) (\<lambda>_.
     bind_result (fold_result
       (rebase_step casefold (providerHiddenStateByTransaction (eff_effective oldEffective)))
       (newBase, \<lparr>rebase_journal = [], rebase_cursor = 0,
          rebase_summary = \<lparr>removed_operations = 0, removed_targets = 0, retained_operations = 0,
            rebased_hide_targets = 0, discarded_redo = int (length journal) - cursor\<rparr>,
          rebase_details = []\<rparr>)
       (take (nat cursor) journal)) (\<lambda>(effective, result).
     Inr (result\<lparr>rebase_cursor := length (rebase_journal result)\<rparr>))))"

subsection \<open>What the target filters keep\<close>

text \<open>The hidden flag of a row, as a relation: identities are unique in a valid profile.\<close>

definition has_hidden :: "profile \<Rightarrow> entity_id \<Rightarrow> bool \<Rightarrow> bool" where
  "has_hidden p t h \<longleftrightarrow> (\<exists>r\<in>set (transactions p). record_id r = t \<and> record_hidden r = h)"

lemma has_hidden_known: "has_hidden p t h \<Longrightarrow> t \<in> record_id ` set (transactions p)"
  by (auto simp: has_hidden_def)

lemma known_has_hidden: "t \<in> record_id ` set (transactions p) \<Longrightarrow> \<exists>h. has_hidden p t h"
  by (auto simp: has_hidden_def)

lemma hidden_fold:
  "distinct (map record_id rs) \<Longrightarrow>
     foldl (\<lambda>values r. values(record_id r \<mapsto> record_hidden r)) m rs t = Some h \<longleftrightarrow>
       (\<exists>r\<in>set rs. record_id r = t \<and> record_hidden r = h)
       \<or> (t \<notin> record_id ` set rs \<and> m t = Some h)"
  by (induction rs arbitrary: m) (auto simp: image_iff)

lemma hidden_state:
  assumes "distinct (map record_id (transactions p))"
  shows "providerHiddenStateByTransaction p t = Some h \<longleftrightarrow> has_hidden p t h"
  using hidden_fold[OF assms, of Map.empty t h]
  by (simp add: providerHiddenStateByTransaction_def has_hidden_def)

lemma has_hidden_unique:
  "distinct (map record_id (transactions p)) \<Longrightarrow> has_hidden p t h \<Longrightarrow> has_hidden p t i \<Longrightarrow> h = i"
  by (metis hidden_state option.inject)

definition hide_needed :: "(entity_id \<rightharpoonup> bool) \<Rightarrow> (entity_id \<rightharpoonup> bool) \<Rightarrow> entity_id \<Rightarrow> bool" where
  "hide_needed current old t \<longleftrightarrow> old t \<noteq> None \<and> current t \<noteq> None \<and> current t \<noteq> old t"

lemma providerRebaseHideTargets_filter:
  "providerRebaseHideTargets p old targets removed =
     (let kept = filter (hide_needed (providerHiddenStateByTransaction p) old) targets
      in (kept, removed + (int (length targets) - int (length kept))))"
proof -
  have "foldl (rebase_hide_targets current old) (res, n) targets =
      (res @ filter (hide_needed current old) targets,
       n + (int (length targets) - int (length (filter (hide_needed current old) targets))))"
    for current res n
    by (induction targets arbitrary: res n) (auto simp: hide_needed_def split: option.splits)
  then show ?thesis by (simp add: providerRebaseHideTargets_def Let_def)
qed

definition keeps_target :: "(entity_id \<rightharpoonup> bool) \<Rightarrow> profile \<Rightarrow> operation \<Rightarrow> entity_id \<Rightarrow> bool" where
  "keeps_target old p oper t \<longleftrightarrow>
     (providerTransactionScoped oper \<longrightarrow> t \<in> record_id ` set (transactions p))
     \<and> (op_type oper = OperationTransactionHide \<longrightarrow>
          hide_needed (providerHiddenStateByTransaction p) old t)"

lemma rebase_targets_filter:
  "rebase_targets old p oper =
     (let kept = filter (keeps_target old p oper) (op_targets oper)
      in (oper\<lparr>op_targets := kept\<rparr>, int (length (op_targets oper)) - int (length kept)))"
proof -
  have hide: "providerTransactionScoped oper" if "op_type oper = OperationTransactionHide"
    using that by (simp add: providerTransactionScoped_def)
  have both: "filter (keeps_target old p oper) ts =
      filter (hide_needed (providerHiddenStateByTransaction p) old)
        (filter (\<lambda>t. t \<in> record_id ` set (transactions p)) ts)"
    if "op_type oper = OperationTransactionHide" for ts
    using that hide by (auto simp: keeps_target_def intro!: filter_cong)
  have scoped: "filter (keeps_target old p oper) ts =
      (if providerTransactionScoped oper
       then filter (\<lambda>t. t \<in> record_id ` set (transactions p)) ts else ts)"
    if "op_type oper \<noteq> OperationTransactionHide" for ts
    using that by (auto simp: keeps_target_def intro!: filter_cong)
  show ?thesis
    using both scoped hide
    by (cases "op_type oper = OperationTransactionHide")
      (auto simp: rebase_targets_def Let_def providerRebaseHideTargets_filter
        providerSurvivingTransactionTargets_def)
qed

subsection \<open>One step and the whole run\<close>

definition rebased_from :: "operation \<Rightarrow> operation \<Rightarrow> bool" where
  "rebased_from kept original \<longleftrightarrow> kept = original\<lparr>op_targets := op_targets kept\<rparr>
     \<and> op_targets kept \<noteq> [] \<and> subseq (op_targets kept) (op_targets original)"

definition target_count :: "operation list \<Rightarrow> int" where
  "target_count opers = (\<Sum>oper\<leftarrow>opers. int (length (op_targets oper)))"

definition hide_count :: "operation list \<Rightarrow> nat" where
  "hide_count opers = (\<Sum>oper\<leftarrow>opers. if op_type oper = OperationTransactionHide
     then length (op_targets oper) else 0)"

lemma target_count_simps [simp]:
  "target_count [] = 0"
  "target_count (oper # opers) = int (length (op_targets oper)) + target_count opers"
  "target_count (opers @ opers') = target_count opers + target_count opers'"
  by (simp_all add: target_count_def)

lemma hide_count_simps [simp]:
  "hide_count [] = 0"
  "hide_count (opers @ opers') = hide_count opers + hide_count opers'"
  "hide_count [oper] =
     (if op_type oper = OperationTransactionHide then length (op_targets oper) else 0)"
  by (simp_all add: hide_count_def)

text \<open>What the counters of a result say about the journal kept so far.\<close>

definition counted :: "rebase_result \<Rightarrow> operation list \<Rightarrow> bool" where
  "counted r opers \<longleftrightarrow>
     retained_operations (rebase_summary r) = length (rebase_journal r)
     \<and> removed_operations (rebase_summary r) + length (rebase_journal r) = length opers
     \<and> removed_targets (rebase_summary r) + target_count (rebase_journal r) = target_count opers
     \<and> rebased_hide_targets (rebase_summary r) = hide_count (rebase_journal r)
     \<and> removed_targets (rebase_summary r) = (\<Sum>d\<leftarrow>rebase_details r. detail_removed_targets d)
     \<and> list_all (\<lambda>d. detail_removed d \<or> detail_removed_targets d > 0) (rebase_details r)"

lemma rebase_step_cases:
  assumes "rebase_step casefold old (p, r) original = Inr (p', r')"
  defines "kept \<equiv> original\<lparr>op_targets := filter (keeps_target old p original) (op_targets original)\<rparr>"
    and "gone \<equiv> int (length (op_targets original))
      - int (length (filter (keeps_target old p original) (op_targets original)))"
  defines "r1 \<equiv> r\<lparr>rebase_summary := count_hides kept (rebase_summary r)\<rparr>"
  obtains (removed) "p' = p" "r' = note_removed original kept gone r1"
      "op_targets kept = [] \<or> providerOperationDependenciesExist p kept = Inr False"
  | (retained) "ApplyOperation casefold p kept = Inr p'" "op_targets kept \<noteq> []"
      "r' = note_retained original kept gone r1"
  using assms
  by (auto simp: rebase_step_def rebase_targets_filter Let_def bind_result_Inr
      split: if_splits prod.splits)

lemma hide_dependencies [simp]:
  "op_type oper = OperationTransactionHide \<Longrightarrow> providerOperationDependenciesExist p oper = Inr True"
  by (simp add: providerOperationDependenciesExist_def)

lemma filter_rebased: "filter P (op_targets oper) \<noteq> [] \<Longrightarrow>
    rebased_from (oper\<lparr>op_targets := filter P (op_targets oper)\<rparr>) oper"
  by (simp add: rebased_from_def)

lemma rebase_step_counted:
  assumes "rebase_step casefold old (p, r) original = Inr (p', r')" and "counted r opers"
  shows "counted r' (opers @ [original])"
  using assms(1)
proof (cases rule: rebase_step_cases)
  case removed
  then show ?thesis using assms(2)
    by (cases "op_type original = OperationTransactionHide")
      (auto simp: counted_def note_removed_def count_hides_def Let_def)
next
  case retained
  have "\<not> length (filter P xs) < length xs \<longleftrightarrow> length (filter P xs) = length xs"
    for P and xs :: "entity_id list"
    using length_filter_le[of P xs] by linarith
  with retained show ?thesis using assms(2)
    by (cases "op_type original = OperationTransactionHide")
      (auto simp: counted_def note_retained_def count_hides_def Let_def)
qed

lemma rebase_step_journal:
  assumes "rebase_step casefold old (p, r) original = Inr (p', r')"
  obtains kept where "rebase_journal r' = rebase_journal r @ kept"
    "reference_replay casefold p kept = Inr p'" "list_emb rebased_from kept [original]"
  using assms
proof (cases rule: rebase_step_cases)
  case removed
  with that[of "[]"] show ?thesis by (simp add: note_removed_def Let_def reference_replay_def)
next
  case retained
  let ?oper = "original\<lparr>op_targets := filter (keeps_target old p original) (op_targets original)\<rparr>"
  have "rebased_from ?oper original" using retained(2) by (intro filter_rebased) simp
  with that[of "[?oper]"] retained show ?thesis
    by (simp add: note_retained_def Let_def reference_replay_def)
qed

lemma rebase_run:
  assumes "fold_result (rebase_step casefold old) (p, r) opers = Inr (p', r')"
  obtains kept where "rebase_journal r' = rebase_journal r @ kept"
    "reference_replay casefold p kept = Inr p'" "list_emb rebased_from kept opers"
    "\<And>earlier. counted r earlier \<Longrightarrow> counted r' (earlier @ opers)"
  using assms
proof (induction opers arbitrary: p r thesis)
  case Nil
  from Nil.prems(1)[of "[]"] Nil.prems(2) show ?case by (simp add: reference_replay_def)
next
  case (Cons oper opers)
  from Cons.prems(2) obtain p1 r1 where step: "rebase_step casefold old (p, r) oper = Inr (p1, r1)"
      and rest: "fold_result (rebase_step casefold old) (p1, r1) opers = Inr (p', r')"
    by (auto simp: bind_result_Inr)
  obtain k1 where k1: "rebase_journal r1 = rebase_journal r @ k1"
      "reference_replay casefold p k1 = Inr p1" "list_emb rebased_from k1 [oper]"
    using rebase_step_journal[OF step] by blast
  obtain k2 where k2: "rebase_journal r' = rebase_journal r1 @ k2"
      "reference_replay casefold p1 k2 = Inr p'" "list_emb rebased_from k2 opers"
      "\<And>earlier. counted r1 earlier \<Longrightarrow> counted r' (earlier @ opers)"
    using Cons.IH[OF _ rest] by blast
  have "counted r' (earlier @ oper # opers)" if "counted r earlier" for earlier
    using k2(4)[OF rebase_step_counted[OF step that]] by simp
  moreover have "list_emb rebased_from (k1 @ k2) (oper # opers)"
    using list_emb_append_mono[OF k1(3) k2(3)] by simp
  ultimately show ?case
    using Cons.prems(1)[of "k1 @ k2"] k1 k2
    by (simp add: reference_replay_def fold_result_append)
qed

subsection \<open>Hidden flags along a run\<close>

definition hide_targets :: "operation list \<Rightarrow> entity_id set" where
  "hide_targets opers =
     (\<Union>oper\<in>{x \<in> set opers. op_type x = OperationTransactionHide}. set (op_targets oper))"

lemma hide_targets_simps [simp]:
  "hide_targets [] = {}"
  "hide_targets (oper # opers) =
     (if op_type oper = OperationTransactionHide then set (op_targets oper) else {}) \<union> hide_targets opers"
  by (auto simp: hide_targets_def)

lemma has_hidden_sort [simp]: "has_hidden (sortCommittedProfile p) = has_hidden p"
  by (simp add: fun_eq_iff has_hidden_def sortCommittedProfile_def)

lemma has_hidden_map:
  assumes "\<And>r. r \<in> set (transactions p) \<Longrightarrow> record_id (f r) = record_id r"
    and "\<And>r. r \<in> set (transactions p) \<Longrightarrow> record_hidden (f r) = (record_hidden r \<noteq> (record_id r \<in> T))"
    and "transactions q = map f (transactions p)"
  shows "has_hidden q t h \<longleftrightarrow> has_hidden p t (h \<noteq> (t \<in> T))"
  using assms by (auto simp: has_hidden_def image_iff)

lemma record_hidden_redirect [simp]:
  "record_hidden (redirect_record_merchant s d r) = record_hidden r"
  "record_hidden (redirect_record_category s d r) = record_hidden r"
  by (simp_all add: redirect_record_merchant_def redirect_record_category_def)

lemma on_payload_option: "on_payload x f p = (case x of None \<Rightarrow> p | Some y \<Rightarrow> f y p)"
  by (cases x) simp_all

text \<open>An operation flips the flags of the targets of a hide and changes no other flag.\<close>

lemma has_hidden_effect:
  assumes "has_hidden (op_effect oper p) t h"
  shows "has_hidden p t (h \<noteq> (t \<in> hide_targets [oper]))"
proof (cases "op_type oper")
  case OperationTransactionHide
  with assms show ?thesis
    by (auto simp: op_effect_def has_hidden_def on_targets_def toggle_hidden_def split: if_splits)
qed (use assms in \<open>auto simp: op_effect_def on_payload_option has_hidden_def on_targets_def
    merge_merchants_effect_def merge_categories_effect_def merge_groups_effect_def
    split: if_splits option.splits\<close>)

lemma rebase_step_hidden:
  assumes step: "rebase_step casefold old (p, r) oper = Inr (p', r')"
    and d: "distinct (map record_id (transactions p))" and h: "has_hidden p' t h"
  shows "\<exists>h0. has_hidden p t h0
    \<and> h = (if t \<in> hide_targets [oper] then (case old t of Some i \<Rightarrow> i | None \<Rightarrow> h0) else h0)"
  using step
proof (cases rule: rebase_step_cases)
  case removed
  from h removed(1) have p: "has_hidden p t h" by simp
  show ?thesis
  proof (cases "t \<in> hide_targets [oper]")
    case True
    then have hide: "op_type oper = OperationTransactionHide" "t \<in> set (op_targets oper)"
      by (auto split: if_splits)
    with removed(3) have "\<not> keeps_target old p oper t" by (auto simp: filter_empty_conv)
    with hide has_hidden_known[OF p] hidden_state[OF d, of t h] p True show ?thesis
      by (cases "old t") (auto simp: keeps_target_def hide_needed_def)
  qed (use p in auto)
next
  case retained
  let ?oper = "oper\<lparr>op_targets := filter (keeps_target old p oper) (op_targets oper)\<rparr>"
  from retained(1) h have "has_hidden (op_effect ?oper p) t h" by (simp add: ApplyOperation_Inr)
  from has_hidden_effect[OF this] have p: "has_hidden p t (h \<noteq> (t \<in> hide_targets [?oper]))" .
  show ?thesis
  proof (cases "t \<in> hide_targets [oper]")
    case True
    then have hide: "op_type oper = OperationTransactionHide" "t \<in> set (op_targets oper)"
      by (auto split: if_splits)
    then have "t \<in> hide_targets [?oper] \<longleftrightarrow> keeps_target old p oper t" by simp
    with p have q: "has_hidden p t (h \<noteq> keeps_target old p oper t)" by simp
    then have "providerHiddenStateByTransaction p t = Some (h \<noteq> keeps_target old p oper t)"
      by (simp add: hidden_state[OF d])
    with hide has_hidden_known[OF p] have "keeps_target old p oper t \<longleftrightarrow>
        (\<exists>i. old t = Some i \<and> i \<noteq> (h \<noteq> keeps_target old p oper t))"
      by (auto simp: keeps_target_def hide_needed_def)
    with q True show ?thesis
      by (cases "keeps_target old p oper t"; cases "old t") auto
  next
    case False
    then have "t \<notin> hide_targets [?oper]" by (auto split: if_splits)
    with p False show ?thesis by auto
  qed
qed

lemma rebase_step_wf:
  assumes "rebase_step casefold old (p, r) oper = Inr (p', r')" and "profile_wf casefold p"
  shows "profile_wf casefold p'"
  using assms(1)
  by (cases rule: rebase_step_cases) (use assms(2) in \<open>auto simp: ApplyOperation_Inr\<close>)

lemma profile_wf_records: "profile_wf casefold p \<Longrightarrow> distinct (map record_id (transactions p))"
  by (drule profile_wf_tables_distinct) (simp add: tables_distinct_def)

lemma rebase_run_hidden:
  assumes "fold_result (rebase_step casefold old) (p, r) opers = Inr (p', r')"
    and "profile_wf casefold p" and "has_hidden p' t h"
  shows "profile_wf casefold p' \<and> (\<exists>h0. has_hidden p t h0
    \<and> h = (if t \<in> hide_targets opers then (case old t of Some i \<Rightarrow> i | None \<Rightarrow> h0) else h0))"
  using assms
proof (induction opers arbitrary: p r)
  case Nil
  then show ?case by auto
next
  case (Cons oper opers)
  from Cons.prems(1) obtain p1 r1 where step: "rebase_step casefold old (p, r) oper = Inr (p1, r1)"
      and rest: "fold_result (rebase_step casefold old) (p1, r1) opers = Inr (p', r')"
    by (auto simp: bind_result_Inr)
  from Cons.IH[OF rest rebase_step_wf[OF step Cons.prems(2)] Cons.prems(3)]
  obtain h1 where wf: "profile_wf casefold p'" and h1: "has_hidden p1 t h1"
      "h = (if t \<in> hide_targets opers then (case old t of Some i \<Rightarrow> i | None \<Rightarrow> h1) else h1)"
    by blast
  from rebase_step_hidden[OF step profile_wf_records[OF Cons.prems(2)] h1(1)]
  obtain h0 where h0: "has_hidden p t h0"
      "h1 = (if t \<in> hide_targets [oper] then (case old t of Some i \<Rightarrow> i | None \<Rightarrow> h0) else h0)"
    by blast
  have mem: "t \<in> hide_targets (oper # opers) \<longleftrightarrow> t \<in> hide_targets [oper] \<or> t \<in> hide_targets opers"
    by simp
  have "h = (if t \<in> hide_targets (oper # opers) then (case old t of Some i \<Rightarrow> i | None \<Rightarrow> h0) else h0)"
    unfolding mem h1(2) h0(2) by (simp split: option.split)
  with wf h0(1) show ?case by blast
qed

subsection \<open>The rebased journal as a snapshot\<close>

lemma rebased_sequences:
  "list_emb rebased_from kept opers \<Longrightarrow> subseq (map op_sequence kept) (map op_sequence opers)"
  by (induction rule: list_emb.induct)
    (auto simp: rebased_from_def intro: list_emb.intros dest: arg_cong[of _ _ op_sequence])

lemma sorted_subseq:
  assumes "subseq xs ys" and "sorted_wrt (<) ys"
  shows "sorted_wrt (<) xs"
  using assms
  by (induction rule: list_emb.induct) (auto dest: list_emb_set)

lemma reference_replay_stored:
  "reference_replay casefold p opers = Inr q \<Longrightarrow> \<forall>oper\<in>set opers. ValidateStored casefold oper = Inr ()"
  by (induction opers arbitrary: p) (auto simp: reference_replay_def bind_result_Inr ApplyOperation_Inr)

abbreviation journal_snapshot :: "uint64 \<Rightarrow> profile \<Rightarrow> operation list \<Rightarrow> int \<Rightarrow> profile_snapshot" where
  "journal_snapshot revision p journal cursor \<equiv>
     \<lparr>snap_revision = revision, snap_cursor = cursor, snap_committed = p, snap_journal = journal,
      snap_drills = []\<rparr>"

lemma rebase_step_same:
  assumes "rebase_step casefold old s oper = Inr s'"
  shows "rebase_cursor (snd s') = rebase_cursor (snd s)"
    and "discarded_redo (rebase_summary (snd s')) = discarded_redo (rebase_summary (snd s))"
  using assms
  by (cases s; cases s'; auto elim!: rebase_step_cases
      simp: note_removed_def note_retained_def count_hides_def Let_def)+

lemma rebase_run_same:
  assumes "fold_result (rebase_step casefold old) (p, r) opers = Inr (p', r')"
  shows "rebase_cursor r' = rebase_cursor r"
    and "discarded_redo (rebase_summary r') = discarded_redo (rebase_summary r)"
proof -
  have "rebase_cursor (snd (p', r')) = rebase_cursor r
      \<and> discarded_redo (rebase_summary (snd (p', r'))) = discarded_redo (rebase_summary r)"
  proof (rule fold_result_invariant[OF assms])
    fix s oper s'
    assume inv: "rebase_cursor (snd s) = rebase_cursor r
        \<and> discarded_redo (rebase_summary (snd s)) = discarded_redo (rebase_summary r)"
      and step: "rebase_step casefold old s oper = Inr s'"
    show "rebase_cursor (snd s') = rebase_cursor r
        \<and> discarded_redo (rebase_summary (snd s')) = discarded_redo (rebase_summary r)"
      unfolding rebase_step_same[OF step] by (rule inv)
  qed simp
  then show "rebase_cursor r' = rebase_cursor r"
      "discarded_redo (rebase_summary r') = discarded_redo (rebase_summary r)"
    unfolding snd_conv by blast+
qed

lemma RebaseProviderJournal_Inr:
  assumes "RebaseProviderJournal casefold oldBase newBase journal cursor = Inr r"
  obtains e q r0 where "Replay casefold (journal_snapshot 0 oldBase journal cursor) = Inr e"
    "profile_wf casefold newBase"
    "fold_result (rebase_step casefold (providerHiddenStateByTransaction (eff_effective e)))
       (newBase, r0) (take (nat cursor) journal) = Inr (q, r\<lparr>rebase_cursor := rebase_cursor r0\<rparr>)"
    "counted r0 []" "discarded_redo (rebase_summary r0) = int (length journal) - cursor"
    "rebase_journal r0 = []" "rebase_cursor r = length (rebase_journal r)"
proof -
  from assms obtain e q r1 where e: "Replay casefold (journal_snapshot 0 oldBase journal cursor) = Inr e"
      and wf: "profile_wf casefold newBase"
      and run: "fold_result (rebase_step casefold (providerHiddenStateByTransaction (eff_effective e)))
       (newBase, \<lparr>rebase_journal = [], rebase_cursor = 0,
          rebase_summary = \<lparr>removed_operations = 0, removed_targets = 0, retained_operations = 0,
            rebased_hide_targets = 0, discarded_redo = int (length journal) - cursor\<rparr>,
          rebase_details = []\<rparr>) (take (nat cursor) journal) = Inr (q, r1)"
      and r: "r = r1\<lparr>rebase_cursor := length (rebase_journal r1)\<rparr>"
    by (auto simp: RebaseProviderJournal_def bind_result_Inr ValidateProfile_Inr)
  let ?r0 = "\<lparr>rebase_journal = [], rebase_cursor = 0,
          rebase_summary = \<lparr>removed_operations = 0, removed_targets = 0, retained_operations = 0,
            rebased_hide_targets = 0, discarded_redo = int (length journal) - cursor\<rparr>,
          rebase_details = []\<rparr>"
  have "rebase_cursor r1 = rebase_cursor ?r0"
    by (rule rebase_run_same[OF run])
  then have r1: "r1 = r\<lparr>rebase_cursor := rebase_cursor ?r0\<rparr>" unfolding r by (cases r1) simp
  show ?thesis
    by (rule that[OF e wf run[unfolded r1]]) (simp_all add: counted_def r)
qed

lemma rebased_Replay:
  assumes "Replay casefold (journal_snapshot 0 oldBase journal cursor) = Inr e"
    and "profile_wf casefold newBase" and "list_emb rebased_from kept (take (nat cursor) journal)"
    and "reference_replay casefold newBase kept = Inr q"
  shows "Replay casefold (journal_snapshot revision newBase kept (int (length kept))) = Inr
    \<lparr>eff_revision = revision, eff_cursor = int (length kept), eff_committed = newBase,
     eff_effective = sortCommittedProfile q, eff_journal = kept, eff_drills = []\<rparr>"
proof -
  from assms(1) have "sorted_wrt (<) (map op_sequence journal)"
    by (auto simp: Replay_def bind_result_Inr ValidateSnapshot_Inr)
  then have "sorted_wrt (<) (map op_sequence (take (nat cursor) journal))"
    by (simp add: take_map[symmetric] sorted_wrt_take)
  from sorted_subseq[OF rebased_sequences[OF assms(3)] this] reference_replay_stored[OF assms(4)]
  have "ValidateSnapshot casefold (journal_snapshot revision newBase kept (int (length kept))) = Inr ()"
    using assms(2) by (simp add: ValidateSnapshot_Inr)
  from Replay_reference[OF this] assms(4) show ?thesis by simp
qed

lemma replay_effective_wf:
  assumes "Replay casefold s = Inr e"
  shows "profile_wf casefold (eff_effective e)"
  using assms
  by (auto simp: Replay_def replay_effective_def bind_result_Inr ValidateSnapshot_Inr Let_def
      ValidateProfile_Inr split: if_splits)

lemma Replay_records:
  "Replay casefold s = Inr e \<Longrightarrow> distinct (map record_id (transactions (eff_effective e)))"
  by (rule profile_wf_records) (rule replay_effective_wf)

subsection \<open>Rebasing onto the unchanged base\<close>

text \<open>
  Hides that cancel out are dropped, so the two runs differ only in hidden flags; a profile with
  all flags cleared is what they share.
\<close>

definition blind :: "profile \<Rightarrow> profile" where
  "blind p = p\<lparr>transactions := map (record_hidden_update (\<lambda>_. False)) (transactions p)\<rparr>"

lemma blind_fields [simp]:
  "accounts (blind p) = accounts p" "merchants (blind p) = merchants p"
  "groups (blind p) = groups p" "categories (blind p) = categories p"
  "identities (blind p) = identities p"
  "map record_id (transactions (blind p)) = map record_id (transactions p)"
  "record_id ` set (transactions (blind p)) = record_id ` set (transactions p)"
  by (simp_all add: blind_def image_image)

lemma blind_kinds [simp]: "entity_kinds (blind p) = entity_kinds p"
  by (simp add: entity_kinds_def blind_def)

lemma profile_wf_blind [simp]: "profile_wf casefold (blind p) \<longleftrightarrow> profile_wf casefold p"
proof -
  have "(\<forall>r\<in>set (transactions (blind p)). record_wf (blind p) r) \<longleftrightarrow>
      (\<forall>r\<in>set (transactions p). record_wf p r)"
    by (simp add: blind_def record_wf_def)
  moreover have "ids_wf (blind p) \<longleftrightarrow> ids_wf p"
    by (simp add: ids_wf_def) (simp add: blind_def)
  ultimately show ?thesis
    by (simp add: profile_wf_def labels_wf_def protection_wf_def collisions_wf_def references_wf_def
        identities_wf_def identity_wf_def)
qed

lemma op_guard_blind [simp]: "op_guard (blind p) oper \<longleftrightarrow> op_guard p oper"
  by (simp add: op_guard_def known_targets_def open_category_def open_group_def
      split: operation_type.split cong: option.case_cong)

lemma op_fresh_blind [simp]: "op_fresh (blind p) oper \<longleftrightarrow> op_fresh p oper"
  by (simp add: op_fresh_def fresh_id_def split: operation_type.split cong: option.case_cong)

lemma blind_same_rows: "same_rows p q \<Longrightarrow> same_rows (blind p) (blind q)"
  by (simp add: same_rows_def blind_def)

lemma blind_idem [simp]: "blind (blind p) = blind p"
  by (simp add: blind_def)

lemma blind_effect:
  "blind (op_effect oper p) = (if op_type oper = OperationTransactionHide then blind p
     else op_effect oper (blind p))"
proof (cases "op_type oper = OperationTransactionHide")
  case True
  then show ?thesis
    by (auto simp: op_effect_def blind_def on_targets_def toggle_hidden_def)
next
  case False
  then show ?thesis
    by (cases "op_type oper")
      (simp_all add: op_effect_def blind_def on_targets_def filter_map o_def on_payload_option
        merge_merchants_effect_def merge_categories_effect_def merge_groups_effect_def
        redirect_record_merchant_def redirect_record_category_def split: option.split)
qed

lemma op_effect_hide:
  "op_type oper = OperationTransactionHide \<Longrightarrow> blind (op_effect oper p) = blind p"
  "op_type oper \<noteq> OperationTransactionHide \<Longrightarrow> blind (op_effect oper p) = op_effect oper (blind p)"
  by (simp_all add: blind_effect)

lemma blind_applied:
  assumes "ApplyOperation casefold p oper = Inr q"
  shows "same_rows (blind q) (blind (op_effect oper p))"
  using assms blind_same_rows[OF sortCommittedProfile_same_rows] by (simp add: ApplyOperation_Inr)

lemma active_exists:
  assumes "tables_distinct p"
  shows "providerActiveMerchantExists p k \<longleftrightarrow> active_merchant p k"
    and "providerActiveCategoryExists p k \<longleftrightarrow> active_category p k"
    and "providerActiveGroupExists p k \<longleftrightarrow> active_group p k"
proof -
  have first: "(case List.find (\<lambda>x. ident x = k) xs of Some x \<Rightarrow> \<not> retired x | None \<Rightarrow> False)
      \<longleftrightarrow> has_active ident retired xs k"
    if "distinct (map ident xs)" for ident :: "'x \<Rightarrow> entity_id" and retired xs
    using that by (induction xs) (auto simp: has_active_def image_iff)
  from assms show "providerActiveMerchantExists p k \<longleftrightarrow> active_merchant p k"
    "providerActiveCategoryExists p k \<longleftrightarrow> active_category p k"
    "providerActiveGroupExists p k \<longleftrightarrow> active_group p k"
    by (simp_all add: tables_distinct_def providerActiveMerchantExists_def first
        providerActiveCategoryExists_def providerActiveGroupExists_def)
qed

text \<open>An operation the transition would accept loses no target and no dependency.\<close>

lemma guard_dependencies:
  assumes "tables_distinct p" and "op_guard p oper"
  shows "providerOperationDependenciesExist p oper = Inr True"
  using assms(2)
  by (cases "op_type oper")
    (auto simp: op_guard_def providerOperationDependenciesExist_def with_payload_iff the_payload_def
      active_exists[OF assms(1)] open_category_def open_group_def split: option.splits)

lemma guard_keeps_targets:
  assumes "op_guard p oper" and "op_type oper \<noteq> OperationTransactionHide"
    and "t \<in> set (op_targets oper)"
  shows "keeps_target old p oper t"
proof -
  have "known_targets p oper" if "providerTransactionScoped oper"
    using assms(1) that
    by (cases "op_type oper"; cases "op_create oper")
      (auto simp: op_guard_def providerTransactionScoped_def with_payload_iff)
  with assms(2,3) show ?thesis by (auto simp: keeps_target_def known_targets_def)
qed

lemma ValidateStored_fewer_targets:
  assumes "ValidateStored casefold oper = Inr ()" and "op_type oper = OperationTransactionHide"
    and "filter P (op_targets oper) \<noteq> []"
  shows "ValidateStored casefold (oper\<lparr>op_targets := filter P (op_targets oper)\<rparr>) = Inr ()"
  using assms
  by (auto simp: ValidateStored_def validateOperation_def bind_result_Inr validateTargets_Inr
      validatePayload_def countPayloads_def sorted_wrt_filter split: if_splits)

lemma rebase_step_blind:
  assumes rows: "same_rows (blind p) (blind q)" and wf: "profile_wf casefold q"
    and ok: "ApplyOperation casefold p oper = Inr p'"
  shows "\<exists>q' r'. rebase_step casefold old (q, r) oper = Inr (q', r')
    \<and> same_rows (blind p') (blind q') \<and> profile_wf casefold q'"
proof -
  let ?kept = "filter (keeps_target old q oper) (op_targets oper)"
  let ?oper = "oper\<lparr>op_targets := ?kept\<rparr>"
  from ok ApplyOperation_accepts[of casefold p oper]
  have stored: "ValidateStored casefold oper = Inr ()" and "op_guard p oper" and "op_fresh p oper"
    by auto
  then have guard: "op_guard q oper" and fresh: "op_fresh q oper"
    using op_guard_same_rows[OF rows, of oper] op_fresh_same_rows[OF rows, of oper] by simp_all
  note p' = blind_applied[OF ok]
  have step: "\<exists>r'. rebase_step casefold old (q, r) oper = Inr (q', r')"
    if "ApplyOperation casefold q ?oper = Inr q'" "?kept \<noteq> []"
      "providerOperationDependenciesExist q ?oper = Inr True" for q'
    using that by (simp add: rebase_step_def rebase_targets_filter Let_def)
  show ?thesis
  proof (cases "op_type oper = OperationTransactionHide")
    case False
    then have all: "?kept = op_targets oper" using guard_keeps_targets[OF guard] by (simp add: filter_id_conv)
    then have same: "?oper = oper" by simp
    from wf stored guard fresh obtain q' where q': "ApplyOperation casefold q oper = Inr q'"
      using ApplyOperation_accepts by blast
    have "?kept \<noteq> []" using all ValidateStored_targets[OF stored] by simp
    moreover have "providerOperationDependenciesExist q ?oper = Inr True"
      unfolding same by (rule guard_dependencies[OF profile_wf_tables_distinct[OF wf] guard])
    ultimately obtain r' where "rebase_step casefold old (q, r) oper = Inr (q', r')"
      using step q' same by auto
    moreover have "same_rows (blind p') (blind q')"
    proof -
      have "same_rows (op_effect oper (blind p)) (op_effect oper (blind q))"
        by (rule op_effect_same_rows[OF rows])
      with p' blind_applied[OF q'] False show ?thesis
        by (simp add: op_effect_hide) (meson same_rows_sym same_rows_trans)
    qed
    moreover have "profile_wf casefold q'" using q' ApplyOperation_Inr by blast
    ultimately show ?thesis by blast
  next
    case True
    with p' have pp: "same_rows (blind p') (blind p)" by (simp add: op_effect_hide)
    show ?thesis
    proof (cases "?kept = []")
      case empty: True
      then have "\<exists>r'. rebase_step casefold old (q, r) oper = Inr (q, r')"
        by (simp add: rebase_step_def rebase_targets_filter Let_def)
      with wf same_rows_trans[OF pp rows] show ?thesis by blast
    next
      case False
      have "op_guard q ?oper" "op_fresh q ?oper"
        using True guard by (auto simp: op_guard_def op_fresh_def known_targets_def)
      with wf ValidateStored_fewer_targets[OF stored True False]
      obtain q' where q': "ApplyOperation casefold q ?oper = Inr q'"
        using ApplyOperation_accepts by blast
      with step False True obtain r' where "rebase_step casefold old (q, r) oper = Inr (q', r')" by auto
      moreover have "same_rows (blind q') (blind q)" using blind_applied[OF q'] True by (simp add: op_effect_hide)
      moreover have "profile_wf casefold q'" using q' ApplyOperation_Inr by blast
      ultimately show ?thesis using same_rows_trans[OF pp rows] same_rows_sym same_rows_trans by blast
    qed
  qed
qed

lemma rebase_run_blind:
  assumes "same_rows (blind p) (blind q)" and "profile_wf casefold q"
    and "reference_replay casefold p opers = Inr p'"
  shows "\<exists>q' r'. fold_result (rebase_step casefold old) (q, r) opers = Inr (q', r')
    \<and> same_rows (blind p') (blind q')"
  using assms
proof (induction opers arbitrary: p q r)
  case Nil
  then show ?case by (simp add: reference_replay_def)
next
  case (Cons oper opers)
  from Cons.prems(3) obtain p1 where p1: "ApplyOperation casefold p oper = Inr p1"
      "reference_replay casefold p1 opers = Inr p'"
    by (auto simp: reference_replay_def bind_result_Inr)
  from rebase_step_blind[OF Cons.prems(1,2) p1(1)] obtain q1 r1 where
      "rebase_step casefold old (q, r) oper = Inr (q1, r1)" "same_rows (blind p1) (blind q1)"
      "profile_wf casefold q1" by blast
  with Cons.IH[OF _ _ p1(2)] show ?case by simp
qed

lemma has_hidden_replay:
  assumes "reference_replay casefold p opers = Inr p'" and "has_hidden p' t h"
    and "t \<notin> hide_targets opers"
  shows "has_hidden p t h"
  using assms
proof (induction opers arbitrary: p)
  case Nil
  then show ?case by (simp add: reference_replay_def)
next
  case (Cons oper opers)
  from Cons.prems(1) obtain p1 where p1: "ApplyOperation casefold p oper = Inr p1"
      "reference_replay casefold p1 opers = Inr p'"
    by (auto simp: reference_replay_def bind_result_Inr)
  from Cons.IH[OF p1(2) Cons.prems(2)] Cons.prems(3) have "has_hidden p1 t h" by simp
  with p1(1) have "has_hidden (op_effect oper p) t h" by (simp add: ApplyOperation_Inr)
  from has_hidden_effect[OF this] Cons.prems(3) show ?case by (simp split: if_splits)
qed

lemma blind_record:
  "record_hidden_update (\<lambda>_. False) r = record_hidden_update (\<lambda>_. False) x \<Longrightarrow>
     record_hidden r = record_hidden x \<Longrightarrow> x = (r :: transaction_record)"
  by (cases x; cases r) simp

lemma blind_determines:
  assumes "same_rows (blind p) (blind q)" and "distinct (map record_id (transactions p))"
    and "\<And>t h. has_hidden q t h \<Longrightarrow> has_hidden p t h"
  shows "same_rows p q"
proof -
  let ?f = "record_hidden_update (\<lambda>_. False)"
  have ms: "mset (map ?f (transactions p)) = mset (map ?f (transactions q))"
    using assms(1) by (simp add: same_rows_def blind_def)
  have ids: "mset (map record_id (transactions p)) = mset (map record_id (transactions q))"
    using arg_cong[OF ms, of "image_mset record_id"] by (simp add: image_mset.compositionality o_def)
  then have dq: "distinct (map record_id (transactions q))"
    using assms(2) mset_eq_imp_distinct_iff by blast
  have "r \<in> set (transactions p)" if r: "r \<in> set (transactions q)" for r
  proof -
    from r have "?f r \<in> set (map ?f (transactions p))" using mset_eq_setD[OF ms] by auto
    then obtain x where x: "x \<in> set (transactions p)" "?f r = ?f x" by auto
    from r assms(3)[of "record_id r" "record_hidden r"] obtain y where
      y: "y \<in> set (transactions p)" "record_id y = record_id r" "record_hidden y = record_hidden r"
      by (auto simp: has_hidden_def)
    have "record_id x = record_id r" using arg_cong[OF x(2), of record_id] by simp
    with x(1) y assms(2) have "x = y" unfolding distinct_map by (metis inj_onD)
    with y(3) have "record_hidden r = record_hidden x" by simp
    with x(2) have "x = r" by (rule blind_record)
    with x(1) show ?thesis by simp
  qed
  then have "set (transactions q) \<subseteq> set (transactions p)" by blast
  moreover have "card (set (transactions q)) = card (set (transactions p))"
    using arg_cong[OF ids, of size] dq assms(2) by (simp add: distinct_card distinct_map)
  ultimately have "set (transactions p) = set (transactions q)"
    by (metis List.finite_set card_subset_eq)
  with dq assms(2) have "mset (transactions p) = mset (transactions q)"
    by (simp add: set_eq_iff_mset_eq_distinct[symmetric] distinct_map)
  with assms(1) show ?thesis by (simp add: same_rows_def)
qed

lemma rebase_same_base:
  assumes valid: "ValidateSnapshot casefold (journal_snapshot 0 base journal cursor) = Inr ()"
    and ref: "reference_replay casefold base (take (nat cursor) journal) = Inr p"
  shows "\<exists>r q. RebaseProviderJournal casefold base base journal cursor = Inr r
    \<and> reference_replay casefold base (rebase_journal r) = Inr q
    \<and> sortCommittedProfile q = sortCommittedProfile p"
proof -
  let ?opers = "take (nat cursor) journal"
  obtain e where replay: "Replay casefold (journal_snapshot 0 base journal cursor) = Inr e"
      and eff: "eff_effective e = sortCommittedProfile p"
    using Replay_reference[OF valid] ref by fastforce
  let ?old = "providerHiddenStateByTransaction (eff_effective e)"
  let ?r0 = "\<lparr>rebase_journal = [], rebase_cursor = 0,
          rebase_summary = \<lparr>removed_operations = 0, removed_targets = 0, retained_operations = 0,
            rebased_hide_targets = 0, discarded_redo = int (length journal) - cursor\<rparr>,
          rebase_details = []\<rparr>"
  from valid have wf: "profile_wf casefold base" by (simp add: ValidateSnapshot_Inr)
  then have v: "ValidateProfile casefold base = Inr ()" by (simp add: ValidateProfile_Inr)
  from rebase_run_blind[OF same_rows_refl wf ref, of ?old ?r0] obtain q r where
      run: "fold_result (rebase_step casefold ?old) (base, ?r0) ?opers = Inr (q, r)"
      and rows: "same_rows (blind p) (blind q)" by blast
  from run wf have ok: "RebaseProviderJournal casefold base base journal cursor =
      Inr (r\<lparr>rebase_cursor := length (rebase_journal r)\<rparr>)"
    by (simp add: RebaseProviderJournal_def replay v)
  obtain kept where kept: "rebase_journal r = kept" "reference_replay casefold base kept = Inr q"
    using rebase_run[OF run] by (metis append_Nil rebase_result.select_convs(1))
  have wfp: "profile_wf casefold p"
    using replay_effective_wf[OF replay] by (simp add: eff)
  note dp = profile_wf_records[OF wfp]
  have "same_rows p q"
  proof (rule blind_determines[OF rows dp])
    fix t h
    assume q: "has_hidden q t h"
    from rows have "mset (map record_id (transactions p)) = mset (map record_id (transactions q))"
      unfolding same_rows_def using blind_fields(6) mset_map by metis
    then have ids: "record_id ` set (transactions p) = record_id ` set (transactions q)"
      by (metis image_set mset_eq_setD)
    with has_hidden_known[OF q] known_has_hidden obtain i where i: "has_hidden p t i" by metis
    have state: "?old t = Some i"
      using i hidden_state[OF profile_wf_records[OF replay_effective_wf[OF replay]], of t i]
      by (simp add: eff)
    from rebase_run_hidden[OF run wf q] obtain h0 where h0: "has_hidden base t h0"
        "h = (if t \<in> hide_targets ?opers then (case ?old t of Some i \<Rightarrow> i | None \<Rightarrow> h0) else h0)"
      by blast
    have "h = i"
    proof (cases "t \<in> hide_targets ?opers")
      case False
      with has_hidden_unique[OF profile_wf_records[OF wf] h0(1)] has_hidden_replay[OF ref i] h0(2)
      show ?thesis by simp
    qed (simp add: h0(2) state)
    with i show "has_hidden p t h" by simp
  qed
  then have "sortCommittedProfile q = sortCommittedProfile p"
    by (metis sortCommittedProfile_eq same_rows_sym profile_wf_same_rows wfp)
  with ok kept show ?thesis by auto
qed

subsection \<open>Properties\<close>

text \<open>
  C20. The rebased journal is valid over the new base: replaying it succeeds, and the effective
  profile is the one the rebase computed operation by operation.  Every operation of it is an
  active operation of the old journal, in the old order, with a non-empty part of its targets;
  nothing else is kept, and the summary and the details account for every operation and target.
\<close>

theorem RebaseProviderJournal_replays:
  assumes "RebaseProviderJournal casefold oldBase newBase journal cursor = Inr r"
  shows "\<exists>q. reference_replay casefold newBase (rebase_journal r) = Inr q
    \<and> Replay casefold \<lparr>snap_revision = revision, snap_cursor = int (rebase_cursor r),
        snap_committed = newBase, snap_journal = rebase_journal r, snap_drills = []\<rparr> =
        Inr \<lparr>eff_revision = revision, eff_cursor = int (rebase_cursor r), eff_committed = newBase,
          eff_effective = sortCommittedProfile q, eff_journal = rebase_journal r, eff_drills = []\<rparr>
    \<and> rebase_cursor r = length (rebase_journal r)
    \<and> list_emb rebased_from (rebase_journal r) (take (nat cursor) journal)
    \<and> counted r (take (nat cursor) journal)
    \<and> discarded_redo (rebase_summary r) = int (length journal) - cursor"
proof -
  from RebaseProviderJournal_Inr[OF assms]
  obtain e q r0 where replay: "Replay casefold (journal_snapshot 0 oldBase journal cursor) = Inr e"
    and wf: "profile_wf casefold newBase"
    and run: "fold_result (rebase_step casefold (providerHiddenStateByTransaction (eff_effective e)))
       (newBase, r0) (take (nat cursor) journal) = Inr (q, r\<lparr>rebase_cursor := rebase_cursor r0\<rparr>)"
    and r0: "counted r0 []" "discarded_redo (rebase_summary r0) = int (length journal) - cursor"
      "rebase_journal r0 = []" "rebase_cursor r = length (rebase_journal r)" .
  from rebase_run[OF run] obtain kept where kept: "rebase_journal r = rebase_journal r0 @ kept"
      "reference_replay casefold newBase kept = Inr q"
      "list_emb rebased_from kept (take (nat cursor) journal)"
      "\<And>earlier. counted r0 earlier \<Longrightarrow>
         counted (r\<lparr>rebase_cursor := rebase_cursor r0\<rparr>) (earlier @ take (nat cursor) journal)"
    by (metis (no_types, lifting) rebase_result.select_convs(1) rebase_result.surjective
        rebase_result.update_convs(2))
  have "counted r (take (nat cursor) journal)" using kept(4)[OF r0(1)] by (simp add: counted_def)
  moreover have "discarded_redo (rebase_summary r) = int (length journal) - cursor"
    using rebase_run_same(2)[OF run] r0(2) by simp
  ultimately show ?thesis
    using kept rebased_Replay[OF replay wf kept(3,2), of revision] r0 by simp
qed

text \<open>
  C21. A hide keeps its intent: after the rebased journal is replayed over the new base, a
  transaction that some active hide had targeted and that the old effective profile still had is
  hidden exactly when it was hidden there, whatever the provider now says, and every other
  transaction keeps the flag of the new base.
\<close>

theorem RebaseProviderJournal_keeps_hides:
  assumes "RebaseProviderJournal casefold oldBase newBase journal cursor = Inr r"
    and "Replay casefold \<lparr>snap_revision = 0, snap_cursor = cursor, snap_committed = oldBase,
        snap_journal = journal, snap_drills = []\<rparr> = Inr before"
    and "Replay casefold \<lparr>snap_revision = revision, snap_cursor = int (rebase_cursor r),
        snap_committed = newBase, snap_journal = rebase_journal r, snap_drills = []\<rparr> = Inr after"
    and "has_hidden (eff_effective after) t h"
  shows "if t \<in> hide_targets (take (nat cursor) journal)
           \<and> t \<in> record_id ` set (transactions (eff_effective before))
         then has_hidden (eff_effective before) t h else has_hidden newBase t h"
proof -
  from RebaseProviderJournal_Inr[OF assms(1)]
  obtain e q r0 where replay: "Replay casefold (journal_snapshot 0 oldBase journal cursor) = Inr e"
    and wf: "profile_wf casefold newBase"
    and run: "fold_result (rebase_step casefold (providerHiddenStateByTransaction (eff_effective e)))
       (newBase, r0) (take (nat cursor) journal) = Inr (q, r\<lparr>rebase_cursor := rebase_cursor r0\<rparr>)"
    and r0: "rebase_journal r0 = []" "rebase_cursor r = length (rebase_journal r)" .
  have e: "e = before" using replay assms(2) by simp
  obtain kept where "rebase_journal r = kept" "reference_replay casefold newBase kept = Inr q"
      "list_emb rebased_from kept (take (nat cursor) journal)"
    using rebase_run[OF run] r0(1)
    by (metis append_Nil rebase_result.select_convs(1) rebase_result.surjective
        rebase_result.update_convs(2))
  with rebased_Replay[OF replay wf, of "rebase_journal r" q revision] assms(3) r0(2)
  have "eff_effective after = sortCommittedProfile q" by auto
  with assms(4) have "has_hidden q t h" by simp
  from rebase_run_hidden[OF run wf this] obtain h0 where h0: "has_hidden newBase t h0"
      "h = (if t \<in> hide_targets (take (nat cursor) journal) then
        (case providerHiddenStateByTransaction (eff_effective before) t of
           Some i \<Rightarrow> i | None \<Rightarrow> h0) else h0)"
    unfolding e by blast
  from assms(2) have "distinct (map record_id (transactions (eff_effective before)))"
    by (rule Replay_records)
  note state = hidden_state[OF this, of t]
  show ?thesis
  proof (cases "t \<in> record_id ` set (transactions (eff_effective before))")
    case True
    with known_has_hidden obtain i where "has_hidden (eff_effective before) t i" by blast
    with state[of i] h0 True show ?thesis by simp
  next
    case False
    have "providerHiddenStateByTransaction (eff_effective before) t = None"
      using has_hidden_known False state by (metis option.exhaust)
    with False h0 show ?thesis by (auto split: if_splits)
  qed
qed

text \<open>
  Rebasing onto the unchanged base changes nothing: whenever the active operations apply one by
  one, the rebase succeeds, and the journal it keeps, from which hides that cancel out are gone,
  gives the same effective profile.
\<close>

lemma RebaseProviderJournal_same_base:
  assumes "ValidateSnapshot casefold \<lparr>snap_revision = 0, snap_cursor = cursor,
      snap_committed = base, snap_journal = journal, snap_drills = []\<rparr> = Inr ()"
    and "reference_replay casefold base (take (nat cursor) journal) = Inr p"
  shows "\<exists>r q. RebaseProviderJournal casefold base base journal cursor = Inr r
    \<and> reference_replay casefold base (rebase_journal r) = Inr q
    \<and> sortCommittedProfile q = sortCommittedProfile p"
  using assms by (rule rebase_same_base)

subsection \<open>Examples\<close>

lemma example_base_valid:
  "ValidateSnapshot ascii_fold (journal_snapshot 0 example_profile example_journal 3) = Inr ()"
  using example_snapshot_valid by (simp add: ValidateSnapshot_Inr example_snapshot_def)

lemma example_base_reference:
  "\<exists>p. reference_replay ascii_fold example_profile (take (nat 3) example_journal) = Inr p"
  using example_reference by (simp add: example_snapshot_def)

lemma example_rebase:
  "\<exists>r. RebaseProviderJournal ascii_fold example_profile example_profile example_journal 3 = Inr r"
  using rebase_same_base[OF example_base_valid] example_base_reference by blast

lemma RebaseProviderJournal_same_base_witness:
  "\<exists>p r q. reference_replay ascii_fold example_profile (take 3 example_journal) = Inr p
    \<and> RebaseProviderJournal ascii_fold example_profile example_profile example_journal 3 = Inr r
    \<and> reference_replay ascii_fold example_profile (rebase_journal r) = Inr q
    \<and> sortCommittedProfile q = sortCommittedProfile p"
proof -
  from example_base_reference obtain p where
      p: "reference_replay ascii_fold example_profile (take (nat 3) example_journal) = Inr p" by blast
  from p RebaseProviderJournal_same_base[OF example_base_valid p] show ?thesis by auto
qed

theorem RebaseProviderJournal_replays_witness:
  "\<exists>r q. RebaseProviderJournal ascii_fold example_profile example_profile example_journal 3 = Inr r
    \<and> reference_replay ascii_fold example_profile (rebase_journal r) = Inr q
    \<and> counted r (take 3 example_journal) \<and> discarded_redo (rebase_summary r) = 1"
proof -
  from example_rebase obtain r where
    r: "RebaseProviderJournal ascii_fold example_profile example_profile example_journal 3 = Inr r" ..
  have "length example_journal = 4" by code_simp
  with r RebaseProviderJournal_replays[OF r] show ?thesis by auto
qed

theorem RebaseProviderJournal_keeps_hides_witness:
  "\<exists>r before after h. RebaseProviderJournal ascii_fold example_profile example_profile
      example_journal 3 = Inr r
    \<and> Replay ascii_fold (journal_snapshot 0 example_profile example_journal 3) = Inr before
    \<and> Replay ascii_fold (journal_snapshot 1 example_profile (rebase_journal r) (int (rebase_cursor r)))
        = Inr after
    \<and> has_hidden (eff_effective after) ''t1'' h \<and> has_hidden (eff_effective before) ''t1'' h"
proof -
  from example_base_reference obtain p where
      p: "reference_replay ascii_fold example_profile (take (nat 3) example_journal) = Inr p" by blast
  from rebase_same_base[OF example_base_valid p] obtain r q where
      r: "RebaseProviderJournal ascii_fold example_profile example_profile example_journal 3 = Inr r"
      "reference_replay ascii_fold example_profile (rebase_journal r) = Inr q"
      "sortCommittedProfile q = sortCommittedProfile p" by blast
  from Replay_reference[OF example_base_valid] p obtain before where
      before: "Replay ascii_fold (journal_snapshot 0 example_profile example_journal 3) = Inr before"
        "eff_effective before = sortCommittedProfile p" by fastforce
  from RebaseProviderJournal_Inr[OF r(1)] obtain e q' r0 where
      run: "Replay ascii_fold (journal_snapshot 0 example_profile example_journal 3) = Inr e"
      "profile_wf ascii_fold example_profile"
      "fold_result (rebase_step ascii_fold (providerHiddenStateByTransaction (eff_effective e)))
       (example_profile, r0) (take (nat 3) example_journal) = Inr (q', r\<lparr>rebase_cursor := rebase_cursor r0\<rparr>)"
      "rebase_journal r0 = []" "rebase_cursor r = length (rebase_journal r)" .
  have emb: "list_emb rebased_from (rebase_journal r) (take (nat 3) example_journal)"
    using rebase_run[OF run(3)] run(4)
    by (metis append_Nil rebase_result.select_convs(1) rebase_result.surjective
        rebase_result.update_convs(2))
  from rebased_Replay[OF run(1,2) emb r(2), of 1] run(5) obtain after where
      after: "Replay ascii_fold (journal_snapshot 1 example_profile (rebase_journal r)
        (int (rebase_cursor r))) = Inr after" "eff_effective after = sortCommittedProfile q" by fastforce
  have "(case Replay ascii_fold (journal_snapshot 0 example_profile example_journal 3) of
      Inr e \<Rightarrow> ''t1'' \<in> set (map record_id (transactions (eff_effective e))) | Inl _ \<Rightarrow> False)"
    by code_simp
  then have t1: "''t1'' \<in> record_id ` set (transactions (eff_effective before))" by (simp add: before)
  then obtain h where h: "has_hidden (eff_effective after) ''t1'' h"
    using known_has_hidden before(2) after(2) r(3) by metis
  have "''t1'' \<in> hide_targets (take (nat 3) example_journal)"
    by (simp add: example_journal_def example_operation_def)
  with RebaseProviderJournal_keeps_hides[OF r(1) before(1) after(1) h] t1
  have "has_hidden (eff_effective before) ''t1'' h" by simp
  with r(1) before(1) after(1) h show ?thesis by blast
qed

end
