(* ===== verification/Journal_Codec.thy ===== *)
theory Journal_Codec
  imports Replay
begin

text \<open>
  \<open>internal/store/sqlite/codec.go\<close>: the payload of a journal operation as the JSON text of its
  column.  A JSON text written by \<open>encoding/json\<close> is modelled by its tree, with the fields of an
  object in the order of the text; the trees of two structs are equal exactly when the texts are.
  Decoding accepts only the text that encoding would write, so what the decoder makes of any other
  text does not matter: it is refused there or by the comparison that follows.

  A Go string is a string of bytes, a JSON string is not: \<open>json.Marshal\<close> writes each byte that is
  no part of a UTF-8 sequence as the escape \<open>\ufffd\<close>, which \<open>JReplacement\<close> stands for, and every
  other byte so that it can be read back, which \<open>JChar\<close> stands for.  The decoder reads the escape
  as the three bytes of U+FFFD, and would read a raw invalid byte as the same three.
\<close>

datatype json_char = JChar char | JReplacement

datatype json = JString "json_char list" | JObject "(string \<times> json) list"

definition invalid_chunk :: "nat \<times> string \<Rightarrow> bool" where
  "invalid_chunk c \<longleftrightarrow> fst c = rune_error \<and> length (snd c) = 1"

definition replacement_bytes :: string where
  "replacement_bytes = map char_of [0xEF, 0xBF, 0xBD :: nat]"

definition to_valid_utf8 :: "string \<Rightarrow> string" where
  "to_valid_utf8 s =
     concat (map (\<lambda>c. if invalid_chunk c then replacement_bytes else snd c) (rune_chunks s))"

definition json_string :: "string \<Rightarrow> json_char list" where
  "json_string s =
     concat (map (\<lambda>c. if invalid_chunk c then [JReplacement] else map JChar (snd c)) (rune_chunks s))"

fun json_bytes :: "json_char \<Rightarrow> string" where
  "json_bytes (JChar c) = [c]"
| "json_bytes JReplacement = replacement_bytes"

definition unjson :: "json_char list \<Rightarrow> string" where
  "unjson cs = to_valid_utf8 (concat (map json_bytes cs))"

datatype merchantV1 = MerchantV1 entity_id string string

datatype wire_payload =
    LabelPayloadV1 entity_id string string
  | CreatePayloadV1 string entity_id string string entity_id
  | MovePayloadV1 entity_id entity_id
  | MergePayloadV1 entity_id entity_id
  | ReassignPayloadV1 entity_id "merchantV1 option"
  | DeletePayloadV1 entity_id entity_id
  | HideTogglePayloadV1
  | TransactionDeletePayloadV1

datatype codec_error =
    CodecInvalid operation_error
  | CodecUnsupported operation_type
  | CodecNilPayload
  | CodecBaseHasPayload
  | CodecDecode
  | CodecNotCanonical
  | CodecPanic

definition supportedOperationType :: "operation_type \<Rightarrow> bool" where
  "supportedOperationType kind = (case kind of OperationUnknown _ \<Rightarrow> False | _ \<Rightarrow> True)"

definition hasOperationPayload :: "operation \<Rightarrow> bool" where
  "hasOperationPayload oper \<longleftrightarrow> op_label oper \<noteq> None \<or> op_create oper \<noteq> None \<or> op_move oper \<noteq> None
     \<or> op_merge oper \<noteq> None \<or> op_reassign oper \<noteq> None \<or> op_delete oper \<noteq> None
     \<or> op_hide oper \<noteq> None \<or> op_remove oper \<noteq> None"

text \<open>A payload that the type calls for is dereferenced: a nil pointer panics.\<close>

definition wire_of :: "'a option \<Rightarrow> ('a \<Rightarrow> wire_payload) \<Rightarrow> codec_error + wire_payload" where
  "wire_of payload f = (case payload of None \<Rightarrow> Inl CodecNilPayload | Some x \<Rightarrow> Inr (f x))"

definition payloadToWire :: "operation \<Rightarrow> codec_error + wire_payload" where
  "payloadToWire oper =
     (let label = wire_of (op_label oper) (\<lambda>p.
            LabelPayloadV1 (label_entity p) (label_text p) (label_collision p));
          create = wire_of (op_create oper) (\<lambda>p. CreatePayloadV1 (create_type p) (create_entity p)
            (create_label p) (create_collision p) (create_parent p));
          merge = wire_of (op_merge oper) (\<lambda>p. MergePayloadV1 (merge_source p) (merge_destination p));
          reassign = wire_of (op_reassign oper) (\<lambda>p. ReassignPayloadV1 (reassign_destination p)
            (map_option (\<lambda>m. MerchantV1 (merchant_id m) (merchant_label m) (merchant_key m))
              (reassign_created p)));
          delete = wire_of (op_delete oper) (\<lambda>p. DeletePayloadV1 (delete_source p) (delete_replacement p))
      in case op_type oper of
        OperationMerchantLabel \<Rightarrow> label
      | OperationCategoryLabel \<Rightarrow> label
      | OperationGroupLabel \<Rightarrow> label
      | OperationCategoryCreate \<Rightarrow> create
      | OperationGroupCreate \<Rightarrow> create
      | OperationCategoryMove \<Rightarrow>
          wire_of (op_move oper) (\<lambda>p. MovePayloadV1 (move_entity p) (move_destination p))
      | OperationMerchantMerge \<Rightarrow> merge
      | OperationCategoryMerge \<Rightarrow> merge
      | OperationGroupMerge \<Rightarrow> merge
      | OperationMerchantReassign \<Rightarrow> reassign
      | OperationCategoryAssign \<Rightarrow> reassign
      | OperationCategoryDelete \<Rightarrow> delete
      | OperationGroupDelete \<Rightarrow> delete
      | OperationTransactionHide \<Rightarrow> Inr HideTogglePayloadV1
      | OperationTransactionDelete \<Rightarrow> Inr TransactionDeletePayloadV1
      | OperationUnknown s \<Rightarrow> Inl (CodecUnsupported (OperationUnknown s)))"

definition newWirePayload :: "operation_type \<Rightarrow> codec_error + wire_payload" where
  "newWirePayload kind =
     (if kind \<in> {OperationMerchantLabel, OperationCategoryLabel, OperationGroupLabel}
      then Inr (LabelPayloadV1 '''' '''' '''')
      else if kind \<in> {OperationCategoryCreate, OperationGroupCreate}
      then Inr (CreatePayloadV1 '''' '''' '''' '''' '''')
      else if kind = OperationCategoryMove then Inr (MovePayloadV1 '''' '''')
      else if kind \<in> {OperationMerchantMerge, OperationCategoryMerge, OperationGroupMerge}
      then Inr (MergePayloadV1 '''' '''')
      else if kind \<in> {OperationMerchantReassign, OperationCategoryAssign}
      then Inr (ReassignPayloadV1 '''' None)
      else if kind \<in> {OperationCategoryDelete, OperationGroupDelete}
      then Inr (DeletePayloadV1 '''' '''')
      else if kind = OperationTransactionHide then Inr HideTogglePayloadV1
      else if kind = OperationTransactionDelete then Inr TransactionDeletePayloadV1
      else Inl CodecPanic)"

fun attachWirePayload :: "operation \<Rightarrow> wire_payload \<Rightarrow> operation" where
  "attachWirePayload oper (LabelPayloadV1 e l k) =
     oper\<lparr>op_label := Some \<lparr>label_entity = e, label_text = l, label_collision = k\<rparr>\<rparr>"
| "attachWirePayload oper (CreatePayloadV1 t e l k p) =
     oper\<lparr>op_create := Some \<lparr>create_type = t, create_entity = e, create_label = l,
       create_collision = k, create_parent = p\<rparr>\<rparr>"
| "attachWirePayload oper (MovePayloadV1 e d) =
     oper\<lparr>op_move := Some \<lparr>move_entity = e, move_destination = d\<rparr>\<rparr>"
| "attachWirePayload oper (MergePayloadV1 s d) =
     oper\<lparr>op_merge := Some \<lparr>merge_source = s, merge_destination = d\<rparr>\<rparr>"
| "attachWirePayload oper (ReassignPayloadV1 d None) =
     oper\<lparr>op_reassign := Some \<lparr>reassign_destination = d, reassign_created = None\<rparr>\<rparr>"
| "attachWirePayload oper (ReassignPayloadV1 d (Some (MerchantV1 i l k))) =
     oper\<lparr>op_reassign := Some \<lparr>reassign_destination = d, reassign_created = Some
       \<lparr>merchant_id = i, merchant_label = l, merchant_key = k, merchant_retired = False,
        merchant_merged = None\<rparr>\<rparr>\<rparr>"
| "attachWirePayload oper (DeletePayloadV1 s r) =
     oper\<lparr>op_delete := Some \<lparr>delete_source = s, delete_replacement = r\<rparr>\<rparr>"
| "attachWirePayload oper HideTogglePayloadV1 = oper\<lparr>op_hide := Some ()\<rparr>"
| "attachWirePayload oper TransactionDeletePayloadV1 = oper\<lparr>op_remove := Some ()\<rparr>"

subsection \<open>JSON\<close>

text \<open>\<open>json.Marshal\<close> of the structs, with their field tags and \<open>omitempty\<close>.\<close>

fun marshal :: "wire_payload \<Rightarrow> json" where
  "marshal (LabelPayloadV1 e l k) =
     JObject [(''entity_id'', JString (json_string e)), (''label'', JString (json_string l)), (''collision_key'', JString (json_string k))]"
| "marshal (CreatePayloadV1 t e l k p) =
     JObject [(''entity_type'', JString (json_string t)), (''entity_id'', JString (json_string e)), (''label'', JString (json_string l)),
       (''collision_key'', JString (json_string k)), (''parent_id'', JString (json_string p))]"
| "marshal (MovePayloadV1 e d) = JObject [(''entity_id'', JString (json_string e)), (''destination_id'', JString (json_string d))]"
| "marshal (MergePayloadV1 s d) = JObject [(''source_id'', JString (json_string s)), (''destination_id'', JString (json_string d))]"
| "marshal (ReassignPayloadV1 d None) = JObject [(''destination_id'', JString (json_string d))]"
| "marshal (ReassignPayloadV1 d (Some (MerchantV1 i l k))) =
     JObject [(''destination_id'', JString (json_string d)), (''created_merchant'',
       JObject [(''id'', JString (json_string i)), (''label'', JString (json_string l)), (''collision_key'', JString (json_string k))])]"
| "marshal (DeletePayloadV1 s r) = JObject [(''source_id'', JString (json_string s)), (''replacement_id'', JString (json_string r))]"
| "marshal HideTogglePayloadV1 = JObject []"
| "marshal TransactionDeletePayloadV1 = JObject []"

text \<open>
  \<open>Decoder.Decode\<close> into a struct with \<open>DisallowUnknownFields\<close>: unknown names and values of another
  type are refused, missing fields keep their zero value.
\<close>

definition string_field :: "(string \<times> json) list \<Rightarrow> string \<Rightarrow> string option" where
  "string_field members name =
     (case map_of members name of
        None \<Rightarrow> Some '''' | Some (JString s) \<Rightarrow> Some (unjson s) | Some (JObject _) \<Rightarrow> None)"

definition known_fields :: "string list \<Rightarrow> json \<Rightarrow> (string \<times> json) list option" where
  "known_fields names j =
     (case j of
        JString _ \<Rightarrow> None
      | JObject members \<Rightarrow> if list_all (\<lambda>f. fst f \<in> set names) members then Some members else None)"

definition fields2 :: "json \<Rightarrow> string \<Rightarrow> string \<Rightarrow> (string \<times> string) option" where
  "fields2 j a b = Option.bind (known_fields [a, b] j) (\<lambda>fs.
     Option.bind (string_field fs a) (\<lambda>x. Option.bind (string_field fs b) (\<lambda>y. Some (x, y))))"

definition fields3 :: "json \<Rightarrow> string \<Rightarrow> string \<Rightarrow> string \<Rightarrow> (string \<times> string \<times> string) option" where
  "fields3 j a b c = Option.bind (known_fields [a, b, c] j) (\<lambda>fs.
     Option.bind (string_field fs a) (\<lambda>x. Option.bind (string_field fs b) (\<lambda>y.
     Option.bind (string_field fs c) (\<lambda>z. Some (x, y, z)))))"

fun decode_json :: "wire_payload \<Rightarrow> json \<Rightarrow> wire_payload option" where
  "decode_json (LabelPayloadV1 _ _ _) j = map_option (\<lambda>(e, l, k). LabelPayloadV1 e l k)
     (fields3 j ''entity_id'' ''label'' ''collision_key'')"
| "decode_json (CreatePayloadV1 _ _ _ _ _) j = Option.bind
     (known_fields [''entity_type'', ''entity_id'', ''label'', ''collision_key'', ''parent_id''] j) (\<lambda>fs.
     Option.bind (string_field fs ''entity_type'') (\<lambda>t. Option.bind (string_field fs ''entity_id'') (\<lambda>e.
     Option.bind (string_field fs ''label'') (\<lambda>l. Option.bind (string_field fs ''collision_key'') (\<lambda>k.
     Option.bind (string_field fs ''parent_id'') (\<lambda>p. Some (CreatePayloadV1 t e l k p)))))))"
| "decode_json (MovePayloadV1 _ _) j =
     map_option (\<lambda>(e, d). MovePayloadV1 e d) (fields2 j ''entity_id'' ''destination_id'')"
| "decode_json (MergePayloadV1 _ _) j =
     map_option (\<lambda>(s, d). MergePayloadV1 s d) (fields2 j ''source_id'' ''destination_id'')"
| "decode_json (ReassignPayloadV1 _ _) j = Option.bind
     (known_fields [''destination_id'', ''created_merchant''] j) (\<lambda>fs.
     Option.bind (string_field fs ''destination_id'') (\<lambda>d.
     case map_of fs ''created_merchant'' of
       None \<Rightarrow> Some (ReassignPayloadV1 d None)
     | Some m \<Rightarrow> map_option (\<lambda>(i, l, k). ReassignPayloadV1 d (Some (MerchantV1 i l k)))
         (fields3 m ''id'' ''label'' ''collision_key'')))"
| "decode_json (DeletePayloadV1 _ _) j =
     map_option (\<lambda>(s, r). DeletePayloadV1 s r) (fields2 j ''source_id'' ''replacement_id'')"
| "decode_json HideTogglePayloadV1 j = map_option (\<lambda>_. HideTogglePayloadV1) (known_fields [] j)"
| "decode_json TransactionDeletePayloadV1 j =
     map_option (\<lambda>_. TransactionDeletePayloadV1) (known_fields [] j)"

subsection \<open>Encoding and decoding\<close>

definition validateOperationForCodec ::
    "(string \<Rightarrow> string) \<Rightarrow> operation \<Rightarrow> operation_error + unit" where
  "validateOperationForCodec casefold oper =
     (if op_sequence oper = 0 then ValidateDraft casefold oper else ValidateStored casefold oper)"

definition encodeOperationPayload :: "(string \<Rightarrow> string) \<Rightarrow> operation \<Rightarrow> codec_error + json" where
  "encodeOperationPayload casefold oper =
     bind_result (map_error CodecInvalid (validateOperationForCodec casefold oper)) (\<lambda>_.
     bind_result (payloadToWire oper) (\<lambda>payload. Inr (marshal payload)))"

definition decodeOperationPayload ::
    "(string \<Rightarrow> string) \<Rightarrow> operation \<Rightarrow> json \<Rightarrow> codec_error + operation" where
  "decodeOperationPayload casefold oper encoded =
     (if op_version oper \<noteq> 1 \<or> \<not> supportedOperationType (op_type oper)
      then Inl (CodecUnsupported (op_type oper))
      else if hasOperationPayload oper then Inl CodecBaseHasPayload
      else bind_result (newWirePayload (op_type oper)) (\<lambda>empty.
        case decode_json empty encoded of
          None \<Rightarrow> Inl CodecDecode
        | Some payload \<Rightarrow>
            if marshal payload \<noteq> encoded then Inl CodecNotCanonical
            else let decoded = attachWirePayload oper payload in
              bind_result (map_error CodecInvalid (ValidateStored casefold decoded)) (\<lambda>_. Inr decoded)))"

subsection \<open>Strings through JSON\<close>

lemma decode_rune_le: "s \<noteq> [] \<Longrightarrow> snd (decode_rune s) \<le> length s"
  by (cases s) (auto split: option.splits list.splits)

lemma decode_rune_prefix:
  assumes "s \<noteq> []" and "\<not> (fst (decode_rune s) = rune_error \<and> snd (decode_rune s) = 1)"
  shows "decode_rune (take (snd (decode_rune s)) s @ rest) = decode_rune s"
proof -
  obtain c cs where s: "s = c # cs" using assms(1) by (cases s) auto
  show ?thesis
  proof (cases "byte c < 0x80")
    case True
    then show ?thesis by (simp add: s)
  next
    case False
    with assms obtain n lo hi where n: "rune_shape (byte c) = Some (n, lo, hi)"
      by (cases "rune_shape (byte c)") (auto simp: s)
    from assms False n obtain c1 cs1 where c1: "cs = c1 # cs1" "byte_in lo hi c1"
      by (cases cs) (auto simp: s split: if_splits)
    show ?thesis
    proof (cases "n = 2")
      case True
      then show ?thesis using False n c1 by (simp add: s)
    next
      case two: False
      from assms False n c1 two obtain c2 cs2 where c2: "cs1 = c2 # cs2" "byte_in 0x80 0xBF c2"
        by (cases cs1) (auto simp: s split: if_splits)
      show ?thesis
      proof (cases "n = 3")
        case True
        then show ?thesis using False n c1 c2 by (simp add: s)
      next
        case three: False
        from assms False n c1 two c2 three obtain c3 cs3 where "cs2 = c3 # cs3" "byte_in 0x80 0xBF c3"
          by (cases cs2) (auto simp: s split: if_splits)
        then show ?thesis using False n c1 two c2 three by (simp add: s)
      qed
    qed
  qed
qed

lemma rune_chunks_append:
  assumes "u \<noteq> []" and "snd (decode_rune (u @ rest)) = length u"
  shows "rune_chunks (u @ rest) = (fst (decode_rune (u @ rest)), u) # rune_chunks rest"
  using assms by (subst rune_chunks.simps) simp

definition repair_chunk :: "nat \<times> string \<Rightarrow> string" where
  "repair_chunk c = (if invalid_chunk c then replacement_bytes else snd c)"

lemma decode_replacement: "decode_rune (replacement_bytes @ rest) = (rune_error, 3)"
  by (simp add: replacement_bytes_def byte_def rune_shape_def byte_in_def tail_bits_def rune_error_def)

lemma replacement_length: "length replacement_bytes = 3"
  by (simp add: replacement_bytes_def)

lemma rune_chunks_repair:
  assumes "s \<noteq> []"
  shows "\<exists>r. rune_chunks (repair_chunk (fst (decode_rune s), take (snd (decode_rune s)) s) @ rest)
    = (r, repair_chunk (fst (decode_rune s), take (snd (decode_rune s)) s)) # rune_chunks rest
    \<and> \<not> invalid_chunk (r, repair_chunk (fst (decode_rune s), take (snd (decode_rune s)) s))"
proof (cases "fst (decode_rune s) = rune_error \<and> snd (decode_rune s) = 1")
  case True
  with decode_rune_le[OF assms] have "repair_chunk (fst (decode_rune s), take (snd (decode_rune s)) s)
      = replacement_bytes"
    by (auto simp: repair_chunk_def invalid_chunk_def)
  moreover have "replacement_bytes \<noteq> []" using replacement_length by fastforce
  ultimately show ?thesis
    using rune_chunks_append[of replacement_bytes rest]
    by (simp add: decode_replacement replacement_length invalid_chunk_def)
next
  case False
  define u where "u = take (snd (decode_rune s)) s"
  have len: "length u = snd (decode_rune s)" using decode_rune_le[OF assms] by (simp add: u_def)
  with False have valid: "\<not> invalid_chunk (fst (decode_rune s), u)"
    by (auto simp: invalid_chunk_def)
  have "u \<noteq> []" using len decode_rune_width_pos[OF assms] by fastforce
  moreover have "decode_rune (u @ rest) = decode_rune s"
    unfolding u_def by (rule decode_rune_prefix[OF assms False])
  ultimately have "rune_chunks (u @ rest) = (fst (decode_rune s), u) # rune_chunks rest"
    using rune_chunks_append[of u rest] len by simp
  moreover have "repair_chunk (fst (decode_rune s), u) = u"
    by (simp add: repair_chunk_def valid)
  ultimately show ?thesis
    unfolding u_def[symmetric] using valid by simp
qed

lemma to_valid_chunks: "to_valid_utf8 s = concat (map repair_chunk (rune_chunks s))"
  by (simp add: to_valid_utf8_def repair_chunk_def[abs_def])

lemma valid_utf8_chunks: "valid_utf8 s \<longleftrightarrow> (\<forall>c\<in>set (rune_chunks s). \<not> invalid_chunk c)"
  by (auto simp: valid_utf8_def invalid_chunk_def)

lemma valid_to_valid: "valid_utf8 (to_valid_utf8 s)"
proof (induction s rule: rune_chunks.induct)
  case (1 s)
  show ?case
  proof (cases "s = []")
    case True
    then show ?thesis by (simp add: to_valid_utf8_def valid_utf8_def rune_chunks.simps)
  next
    case False
    let ?u = "repair_chunk (fst (decode_rune s), take (snd (decode_rune s)) s)"
    have "to_valid_utf8 s = ?u @ to_valid_utf8 (drop (snd (decode_rune s)) s)"
      by (simp add: to_valid_chunks rune_chunks.simps[of s] False)
    with 1[OF False] rune_chunks_repair[OF False, of "to_valid_utf8 (drop (snd (decode_rune s)) s)"]
    show ?thesis by (auto simp: valid_utf8_chunks)
  qed
qed

lemma concat_chunks: "concat (map snd (rune_chunks s)) = s"
proof (induction s rule: rune_chunks.induct)
  case (1 s)
  then show ?case
    by (cases "s = []") (simp add: rune_chunks.simps, simp add: rune_chunks.simps[of s])
qed

lemma to_valid_id: "valid_utf8 s \<Longrightarrow> to_valid_utf8 s = s"
proof -
  assume "valid_utf8 s"
  then have "map repair_chunk (rune_chunks s) = map snd (rune_chunks s)"
    by (simp add: valid_utf8_chunks repair_chunk_def)
  then show ?thesis by (simp only: to_valid_chunks concat_chunks)
qed

lemma unjson_json_string: "unjson (json_string s) = to_valid_utf8 s"
proof -
  have "concat (map json_bytes (map JChar bs)) = bs" for bs
    by (induction bs) simp_all
  then have "concat (map json_bytes (concat (map (\<lambda>c. if invalid_chunk c then [JReplacement]
      else map JChar (snd c)) cs))) = concat (map repair_chunk cs)" for cs
    by (induction cs) (simp_all add: repair_chunk_def)
  then have "concat (map json_bytes (json_string s)) = to_valid_utf8 s"
    by (simp add: json_string_def to_valid_chunks)
  then show ?thesis by (simp add: unjson_def to_valid_id valid_to_valid)
qed

lemma json_string_replacement: "JReplacement \<in> set (json_string s) \<longleftrightarrow> \<not> valid_utf8 s"
  by (auto simp: json_string_def valid_utf8_chunks split: if_splits)

lemma json_string_repaired: "json_string (to_valid_utf8 s) = json_string s \<longleftrightarrow> valid_utf8 s"
  using json_string_replacement[of s] json_string_replacement[of "to_valid_utf8 s"] valid_to_valid[of s]
  by (metis to_valid_id)

subsection \<open>The round trip\<close>

definition without_payload :: "operation \<Rightarrow> operation" where
  "without_payload oper = oper\<lparr>op_label := None, op_create := None, op_move := None, op_merge := None,
     op_reassign := None, op_delete := None, op_hide := None, op_remove := None\<rparr>"

text \<open>The payload type of an operation type.\<close>

fun wire_shape :: "wire_payload \<Rightarrow> wire_payload" where
  "wire_shape (LabelPayloadV1 _ _ _) = LabelPayloadV1 '''' '''' ''''"
| "wire_shape (CreatePayloadV1 _ _ _ _ _) = CreatePayloadV1 '''' '''' '''' '''' ''''"
| "wire_shape (MovePayloadV1 _ _) = MovePayloadV1 '''' ''''"
| "wire_shape (MergePayloadV1 _ _) = MergePayloadV1 '''' ''''"
| "wire_shape (ReassignPayloadV1 _ _) = ReassignPayloadV1 '''' None"
| "wire_shape (DeletePayloadV1 _ _) = DeletePayloadV1 '''' ''''"
| "wire_shape HideTogglePayloadV1 = HideTogglePayloadV1"
| "wire_shape TransactionDeletePayloadV1 = TransactionDeletePayloadV1"

text \<open>The strings of a payload, and the payload that is read back from its text.\<close>

fun wire_strings :: "wire_payload \<Rightarrow> string list" where
  "wire_strings (LabelPayloadV1 e l k) = [e, l, k]"
| "wire_strings (CreatePayloadV1 t e l k p) = [t, e, l, k, p]"
| "wire_strings (MovePayloadV1 e d) = [e, d]"
| "wire_strings (MergePayloadV1 s d) = [s, d]"
| "wire_strings (ReassignPayloadV1 d None) = [d]"
| "wire_strings (ReassignPayloadV1 d (Some (MerchantV1 i l k))) = [d, i, l, k]"
| "wire_strings (DeletePayloadV1 s r) = [s, r]"
| "wire_strings HideTogglePayloadV1 = []"
| "wire_strings TransactionDeletePayloadV1 = []"

fun repair_merchant :: "merchantV1 \<Rightarrow> merchantV1" where
  "repair_merchant (MerchantV1 i l k) =
     MerchantV1 (to_valid_utf8 i) (to_valid_utf8 l) (to_valid_utf8 k)"

fun repair_wire :: "wire_payload \<Rightarrow> wire_payload" where
  "repair_wire (LabelPayloadV1 e l k) =
     LabelPayloadV1 (to_valid_utf8 e) (to_valid_utf8 l) (to_valid_utf8 k)"
| "repair_wire (CreatePayloadV1 t e l k p) = CreatePayloadV1 (to_valid_utf8 t) (to_valid_utf8 e)
     (to_valid_utf8 l) (to_valid_utf8 k) (to_valid_utf8 p)"
| "repair_wire (MovePayloadV1 e d) = MovePayloadV1 (to_valid_utf8 e) (to_valid_utf8 d)"
| "repair_wire (MergePayloadV1 s d) = MergePayloadV1 (to_valid_utf8 s) (to_valid_utf8 d)"
| "repair_wire (ReassignPayloadV1 d m) =
     ReassignPayloadV1 (to_valid_utf8 d) (map_option repair_merchant m)"
| "repair_wire (DeletePayloadV1 s r) = DeletePayloadV1 (to_valid_utf8 s) (to_valid_utf8 r)"
| "repair_wire HideTogglePayloadV1 = HideTogglePayloadV1"
| "repair_wire TransactionDeletePayloadV1 = TransactionDeletePayloadV1"

definition payload_utf8 :: "operation \<Rightarrow> bool" where
  "payload_utf8 oper =
     (case payloadToWire oper of Inl _ \<Rightarrow> True | Inr w \<Rightarrow> list_all valid_utf8 (wire_strings w))"

lemma decode_marshal: "decode_json (wire_shape w) (marshal w) = Some (repair_wire w)"
proof (cases w)
  case (ReassignPayloadV1 d m)
  then show ?thesis
    by (cases m; cases "the m")
      (auto simp: known_fields_def string_field_def fields3_def unjson_json_string)
qed (simp_all add: known_fields_def string_field_def fields2_def fields3_def unjson_json_string)

lemma marshal_repaired:
  "marshal (repair_wire w) = marshal w \<longleftrightarrow> list_all valid_utf8 (wire_strings w)"
proof (cases w)
  case (ReassignPayloadV1 d m)
  then show ?thesis
    by (cases m; cases "the m") (auto simp: json_string_repaired)
qed (simp_all add: json_string_repaired)

lemma repair_valid: "list_all valid_utf8 (wire_strings w) \<Longrightarrow> repair_wire w = w"
proof (cases w)
  case (ReassignPayloadV1 d m)
  assume "list_all valid_utf8 (wire_strings w)"
  with ReassignPayloadV1 show ?thesis
    by (cases m; cases "the m") (auto simp: to_valid_id)
qed (simp_all add: to_valid_id)

lemma decode_json_shape: "decode_json (wire_shape w) j = Some v \<Longrightarrow> wire_shape v = wire_shape w"
  by (cases w) (auto split: option.splits bind_splits)

lemma validate_one_payload:
  assumes "ValidateStored casefold oper = Inr ()"
  shows "countPayloads oper = 1" and "validatePayload casefold oper = Inr ()" and "op_version oper = 1"
  using assms
  by (auto simp: ValidateStored_def validateOperation_def bind_result_Inr split: if_splits)

lemma unit_option_None: "x \<noteq> Some () \<longleftrightarrow> x = None"
  by (cases x) simp_all

lemma lone_payload:
  assumes "countPayloads oper = 1"
  shows "op_label oper = Some l \<Longrightarrow> (without_payload oper)\<lparr>op_label := Some l\<rparr> = oper"
    and "op_create oper = Some c \<Longrightarrow> (without_payload oper)\<lparr>op_create := Some c\<rparr> = oper"
    and "op_move oper = Some v \<Longrightarrow> (without_payload oper)\<lparr>op_move := Some v\<rparr> = oper"
    and "op_merge oper = Some m \<Longrightarrow> (without_payload oper)\<lparr>op_merge := Some m\<rparr> = oper"
    and "op_reassign oper = Some r \<Longrightarrow> (without_payload oper)\<lparr>op_reassign := Some r\<rparr> = oper"
    and "op_delete oper = Some d \<Longrightarrow> (without_payload oper)\<lparr>op_delete := Some d\<rparr> = oper"
    and "op_hide oper \<noteq> None \<Longrightarrow> (without_payload oper)\<lparr>op_hide := Some ()\<rparr> = oper"
    and "op_remove oper \<noteq> None \<Longrightarrow> (without_payload oper)\<lparr>op_remove := Some ()\<rparr> = oper"
  using assms
  by (cases oper; simp add: countPayloads_def boolInt_def without_payload_def unit_option_None
      split: if_splits)+

lemma payload_wire:
  assumes "ValidateStored casefold oper = Inr ()"
  shows "\<exists>w. payloadToWire oper = Inr w \<and> newWirePayload (op_type oper) = Inr (wire_shape w)
    \<and> attachWirePayload (without_payload oper) w = oper"
proof -
  note lone = lone_payload[OF validate_one_payload(1)[OF assms]]
  note valid = validate_one_payload(2)[OF assms, unfolded validatePayload_def]
  have created: "attachWirePayload p (ReassignPayloadV1 (reassign_destination r)
      (map_option (\<lambda>m. MerchantV1 (merchant_id m) (merchant_label m) (merchant_key m))
        (reassign_created r))) = p\<lparr>op_reassign := Some r\<rparr>"
    if "\<forall>m. reassign_created r = Some m \<longrightarrow> \<not> merchant_retired m \<and> merchant_merged m = None" for p r
    using that by (cases r; cases "reassign_created r"; cases "the (reassign_created r)") auto
  show ?thesis
    using valid
    by (cases "op_type oper")
      (auto simp: payloadToWire_def wire_of_def newWirePayload_def validate_operation_Inr lone created
        intro: lone split: if_splits)
qed

lemma without_payload_none: "\<not> hasOperationPayload (without_payload oper)"
  by (simp add: hasOperationPayload_def without_payload_def)

lemma supported_valid: "ValidateStored casefold oper = Inr () \<Longrightarrow> supportedOperationType (op_type oper)"
  by (drule validate_one_payload(2))
    (simp add: validatePayload_def supportedOperationType_def split: operation_type.splits)

lemma decode_encoded_exact:
  assumes valid: "ValidateStored casefold oper = Inr ()" and wire: "payloadToWire oper = Inr w"
  shows "decodeOperationPayload casefold (without_payload oper) (marshal w)
    = (if payload_utf8 oper then Inr oper else Inl CodecNotCanonical)"
proof -
  from payload_wire[OF valid] wire have w: "newWirePayload (op_type oper) = Inr (wire_shape w)"
    "attachWirePayload (without_payload oper) w = oper" by auto
  have "op_type (without_payload oper) = op_type oper" "op_version (without_payload oper) = op_version oper"
    by (simp_all add: without_payload_def)
  moreover have "payload_utf8 oper \<longleftrightarrow> list_all valid_utf8 (wire_strings w)"
    by (simp add: payload_utf8_def wire)
  ultimately show ?thesis
    using w supported_valid[OF valid] validate_one_payload(3)[OF valid] decode_marshal[of w] valid
      repair_valid[of w] marshal_repaired[of w]
    by (simp add: decodeOperationPayload_def without_payload_none)
qed

lemma decode_encoded:
  assumes "ValidateStored casefold oper = Inr ()" and "payloadToWire oper = Inr w"
    and "payload_utf8 oper"
  shows "decodeOperationPayload casefold (without_payload oper) (marshal w) = Inr oper"
  using decode_encoded_exact[OF assms(1,2)] assms(3) by simp

lemma encode_stored:
  assumes "ValidateStored casefold oper = Inr ()" and "payloadToWire oper = Inr w"
  shows "encodeOperationPayload casefold oper = Inr (marshal w)"
  using assms ValidateStored_sequence[OF assms(1)]
  by (simp add: encodeOperationPayload_def validateOperationForCodec_def)

subsection \<open>Properties\<close>

text \<open>
  C22. The payload codec loses nothing that it accepts back: a valid stored operation can be encoded,
  and decoding the text into the operation without its payload gives the operation back when every
  string of its payload is valid UTF-8.  Otherwise, and only then, the decoder refuses the text that
  the encoder has just written as not canonical.
\<close>

theorem decodeOperationPayload_roundtrip:
  assumes "ValidateStored casefold oper = Inr ()"
  shows "\<exists>encoded. encodeOperationPayload casefold oper = Inr encoded
    \<and> decodeOperationPayload casefold (without_payload oper) encoded
        = (if payload_utf8 oper then Inr oper else Inl CodecNotCanonical)"
  using payload_wire[OF assms] encode_stored[OF assms] decode_encoded_exact[OF assms] by blast

text \<open>A merge of a merchant whose identity is a single byte 0xFF, as validation accepts it.\<close>

definition invalid_merge :: operation where
  "invalid_merge = (example_operation 1 OperationMerchantMerge [[char_of (0xFF :: nat)]])\<lparr>
     op_merge := Some \<lparr>merge_source = [char_of (0xFF :: nat)], merge_destination = ''m''\<rparr>\<rparr>"

theorem decodeOperationPayload_roundtrip_witness:
  "(\<exists>encoded. encodeOperationPayload ascii_fold (example_journal ! 1) = Inr encoded
    \<and> decodeOperationPayload ascii_fold (without_payload (example_journal ! 1)) encoded
        = Inr (example_journal ! 1))
   \<and> (\<exists>encoded. encodeOperationPayload ascii_fold invalid_merge = Inr encoded
    \<and> decodeOperationPayload ascii_fold (without_payload invalid_merge) encoded
        = Inl CodecNotCanonical)"
proof -
  have "is_ok (ValidateStored ascii_fold (example_journal ! 1))"
      "is_ok (ValidateStored ascii_fold invalid_merge)" by code_simp+
  then have valid: "ValidateStored ascii_fold (example_journal ! 1) = Inr ()"
      "ValidateStored ascii_fold invalid_merge = Inr ()"
    by (auto simp: is_ok_iff)
  have "payload_utf8 (example_journal ! 1)" "\<not> payload_utf8 invalid_merge"
    by code_simp+
  then show ?thesis
    using decodeOperationPayload_roundtrip[OF valid(1)] decodeOperationPayload_roundtrip[OF valid(2)]
    by simp
qed

end
