(* ===== verification/Journal_Store.thy ===== *)
theory Journal_Store
  imports Journal_Codec Rebase
begin

text \<open>
  \<open>internal/store/sqlite/journal.go\<close>, \<open>cancel_hide.go\<close> and the journal part of \<open>load.go\<close>: the
  pending operations in their SQLite tables.  A table of \<open>schema/profile.sql\<close> is the list of its
  rows; a statement is the function on tables its SQL text denotes, with the table's constraints.
  The driver may refuse any call, for any reason: it is an argument of the handlers.  A connection
  holds the tables that are committed and those of its open transaction, and a handler that fails
  leaves there whatever the statements before the failure made of them.
\<close>

subsection \<open>Errors\<close>

datatype error_code =
    CodeRevisionConflict
  | CodeInvalidOperation
  | CodeInvalidTarget
  | CodeStoreBusy
  | CodeStoreError
  | CodeSchemaNewer
  | CodeSchemaIncompatible
  | CodeStoreCorrupt
  | CodeJournalFull

datatype store_error =
    StoreError error_code
  | RevisionError error_code uint64 uint64

datatype driver_error =
    ExistingError store_error
  | CodedError nat
  | ContextEnded
  | OtherError

definition mapDriverError :: "driver_error \<Rightarrow> error_code \<Rightarrow> store_error" where
  "mapDriverError err fallback =
     (case err of
        ExistingError e \<Rightarrow> e
      | CodedError code \<Rightarrow>
          (let primary = code mod 256 in
           if primary = 5 \<or> primary = 6 then StoreError CodeStoreBusy
           else if primary = 11 \<or> primary = 26 then StoreError CodeStoreCorrupt
           else if primary = 10 \<or> primary = 13 then StoreError CodeStoreError
           else StoreError fallback)
      | ContextEnded \<Rightarrow> StoreError CodeStoreError
      | OtherError \<Rightarrow> StoreError fallback)"

definition loadFailure :: "driver_error \<Rightarrow> store_error" where
  "loadFailure err = mapDriverError err CodeStoreCorrupt"

text \<open>\<open>SQLITE_CONSTRAINT\<close>, the code of a statement that violates a constraint of the schema.\<close>

definition constraint_failed :: driver_error where
  "constraint_failed = CodedError 19"

datatype db_call =
    CallConn | CallBegin | CallCommit | CallRollback | CallClose | CallLoadState | CallTruncate | CallCountTargets
  | CallMaxSequence | CallInsertOperation | CallInsertPayload | CallInsertTarget nat
  | CallUpdateState | CallCountCovered | CallDeleteCovered | CallResequence nat | CallDeleteEmpty
  | CallQueryJournal | CallQueryTargets

type_synonym driver = "db_call \<Rightarrow> driver_error option"

definition exec :: "driver \<Rightarrow> db_call \<Rightarrow> error_code \<Rightarrow> store_error + 'a \<Rightarrow> store_error + 'a" where
  "exec driver c fallback r =
     (case driver c of Some err \<Rightarrow> Inl (mapDriverError err fallback) | None \<Rightarrow> r)"

subsection \<open>Tables\<close>

record journal_row =
  row_id :: string
  row_sequence :: int
  row_type :: operation_type
  row_version :: int
  row_revision :: int64
  row_created_ms :: int

record payload_row =
  payload_operation :: string
  payload_version :: int
  payload_json :: json

record target_row =
  target_operation :: string
  target_ordinal :: int
  target_entity :: entity_id

record journal_tables =
  revision_column :: int64
  cursor_column :: int
  journal_operations :: "journal_row list"
  operation_payloads :: "payload_row list"
  operation_targets :: "target_row list"

text \<open>
  \<open>DELETE FROM journal_operations\<close>: the rows that reference a deleted operation go with it.
\<close>

definition delete_operations :: "(string \<Rightarrow> bool) \<Rightarrow> journal_tables \<Rightarrow> journal_tables" where
  "delete_operations gone db = db\<lparr>
     journal_operations := filter (\<lambda>r. \<not> gone (row_id r)) (journal_operations db),
     operation_payloads := filter (\<lambda>r. \<not> gone (payload_operation r)) (operation_payloads db),
     operation_targets := filter (\<lambda>r. \<not> gone (target_operation r)) (operation_targets db)\<rparr>"

subsection \<open>Transactions\<close>

text \<open>
  A connection: the committed tables, and the tables as its open transaction sees them.  A refused
  \<open>COMMIT\<close> has not committed, and a refused \<open>ROLLBACK\<close> leaves the transaction open.
\<close>

record 'db connection =
  durable :: 'db
  uncommitted :: "'db option"

abbreviation idle :: "'db \<Rightarrow> 'db connection" where
  "idle db \<equiv> \<lparr>durable = db, uncommitted = None\<rparr>"

definition run_commit :: "driver \<Rightarrow> 'db connection \<Rightarrow> driver_error option \<times> 'db connection" where
  "run_commit driver c =
     (case driver CallCommit of
        Some err \<Rightarrow> (Some err, c)
      | None \<Rightarrow> (None, idle (case uncommitted c of None \<Rightarrow> durable c | Some db \<Rightarrow> db)))"

definition run_rollback :: "driver \<Rightarrow> 'db connection \<Rightarrow> driver_error option \<times> 'db connection" where
  "run_rollback driver c =
     (case driver CallRollback of
        Some err \<Rightarrow> (Some err, c)
      | None \<Rightarrow> (None, idle (durable c)))"

text \<open>The two results of \<open>beginImmediate\<close>: the connection in its transaction, and \<open>finish\<close>.\<close>

definition beginImmediate :: "driver \<Rightarrow> 'db \<Rightarrow> store_error + 'db connection" where
  "beginImmediate driver db =
     exec driver CallConn CodeStoreError (exec driver CallBegin CodeStoreError
       (Inr \<lparr>durable = db, uncommitted = Some db\<rparr>))"

definition finish :: "driver \<Rightarrow> bool \<Rightarrow> 'db connection \<Rightarrow> (store_error + unit) \<times> 'db connection" where
  "finish driver commit c =
     (case (if commit
            then (case run_commit driver c of
                    (None, c) \<Rightarrow> (None, c)
                  | (Some err, c) \<Rightarrow> (Some err, snd (run_rollback driver c)))
            else run_rollback driver c) of
        (Some err, c) \<Rightarrow> (Inl (mapDriverError err CodeStoreError), c)
      | (None, c) \<Rightarrow> (exec driver CallClose CodeStoreError (Inr ()), c))"

text \<open>
  A handler between the two.  When its body fails, the transaction holds what the statements before
  the failure left, which is the argument \<open>torn\<close>, and the deferred \<open>finish(false)\<close> runs with its
  result ignored; when it succeeds, the transaction holds the tables of the body, \<open>finish(true)\<close>
  runs, and the deferred call does nothing.  The errors of the body may be of another type, into
  which \<open>lift\<close> takes those of the transaction.
\<close>

definition immediate_with ::
    "(store_error \<Rightarrow> 'e) \<Rightarrow> driver \<Rightarrow> 'db \<Rightarrow> ('db \<Rightarrow> 'e + 'a \<times> 'db) \<Rightarrow> 'db \<Rightarrow>
     ('e + 'a) \<times> 'db connection" where
  "immediate_with lift driver torn body db =
     (case beginImmediate driver db of
        Inl e \<Rightarrow> (Inl (lift e), idle db)
      | Inr c \<Rightarrow>
          (case body db of
             Inl e \<Rightarrow> (Inl e, snd (finish driver False (c\<lparr>uncommitted := Some torn\<rparr>)))
           | Inr (v, db') \<Rightarrow>
               (case finish driver True (c\<lparr>uncommitted := Some db'\<rparr>) of
                  (Inl e, c) \<Rightarrow> (Inl (lift e), c)
                | (Inr _, c) \<Rightarrow> (Inr v, c))))"

definition immediate ::
    "driver \<Rightarrow> journal_tables \<Rightarrow> (journal_tables \<Rightarrow> store_error + 'a \<times> journal_tables) \<Rightarrow>
     journal_tables \<Rightarrow> (store_error + 'a) \<times> journal_tables connection" where
  "immediate = immediate_with (\<lambda>e. e)"

lemma finish_rolled_back:
  "durable (snd (finish driver False c)) = durable c
   \<and> (uncommitted (snd (finish driver False c)) = None \<or> driver CallRollback \<noteq> None)"
  by (cases "driver CallRollback") (simp_all add: finish_def run_rollback_def)

lemma finish_committed:
  "finish driver True \<lparr>durable = db, uncommitted = Some db'\<rparr> =
    (case driver CallCommit of
       None \<Rightarrow> (exec driver CallClose CodeStoreError (Inr ()), idle db')
     | Some err \<Rightarrow> (Inl (mapDriverError err CodeStoreError),
         case driver CallRollback of None \<Rightarrow> idle db
         | Some _ \<Rightarrow> \<lparr>durable = db, uncommitted = Some db'\<rparr>))"
  by (simp add: finish_def run_commit_def run_rollback_def split: option.split)

lemma beginImmediate_Inr:
  "beginImmediate driver db = Inr c \<longleftrightarrow>
     driver CallConn = None \<and> driver CallBegin = None \<and> c = \<lparr>durable = db, uncommitted = Some db\<rparr>"
  by (auto simp: beginImmediate_def exec_def split: option.split)

lemma immediate_with_cases:
  assumes "immediate_with lift driver torn body db = (res, c)"
  obtains (failed) e where "res = Inl e" "durable c = db"
      "uncommitted c = None \<or> driver CallRollback \<noteq> None"
  | (committed) v db' where "body db = Inr (v, db')" "c = idle db'" "driver CallCommit = None"
      "res = (case driver CallClose of None \<Rightarrow> Inr v
         | Some err \<Rightarrow> Inl (lift (mapDriverError err CodeStoreError)))"
proof (cases "beginImmediate driver db")
  case (Inl e)
  with assms show ?thesis by (intro that(1)[of "lift e"]) (auto simp: immediate_with_def)
next
  case (Inr c0)
  then have c0: "c0 = \<lparr>durable = db, uncommitted = Some db\<rparr>" by (simp add: beginImmediate_Inr)
  show ?thesis
  proof (cases "body db")
    case (Inl e)
    with Inr assms show ?thesis
      using finish_rolled_back[of driver "c0\<lparr>uncommitted := Some torn\<rparr>"]
      by (intro that(1)[of e]) (auto simp: immediate_with_def c0)
  next
    case body: (Inr r)
    obtain v db' where r: "r = (v, db')" by fastforce
    show ?thesis
    proof (cases "driver CallCommit")
      case None
      with Inr body assms show ?thesis
        by (intro that(2)[of v db']) (auto simp: immediate_with_def c0 r finish_committed exec_def split: option.splits)
    next
      case (Some err)
      with Inr body assms show ?thesis
        by (intro that(1)[of "lift (mapDriverError err CodeStoreError)"])
          (auto simp: immediate_with_def c0 r finish_committed split: option.splits)
    qed
  qed
qed

definition sqliteInteger :: "uint64 \<Rightarrow> store_error + int64" where
  "sqliteInteger value = (if value > max_int64 then Inl (StoreError CodeInvalidOperation) else Inr value)"

definition incrementRevision :: "uint64 \<Rightarrow> store_error + uint64" where
  "incrementRevision current =
     (if current \<ge> max_int64 then Inl (StoreError CodeStoreCorrupt) else Inr (current + 1))"

definition revisionConflict :: "uint64 \<Rightarrow> uint64 \<Rightarrow> store_error" where
  "revisionConflict observed current = RevisionError CodeRevisionConflict observed current"

text \<open>A negative column does not convert to the revision's type, which the driver reports.\<close>

definition loadJournalState :: "driver \<Rightarrow> journal_tables \<Rightarrow> store_error + uint64 \<times> int \<times> int" where
  "loadJournalState driver db =
     exec driver CallLoadState CodeStoreError
       (if sint (revision_column db) < 0 then Inl (mapDriverError OtherError CodeStoreError)
        else let cursor = cursor_column db; rowCount = int (length (journal_operations db)) in
          if cursor < 0 \<or> cursor > rowCount then Inl (StoreError CodeStoreCorrupt)
          else Inr (revision_column db, cursor, rowCount))"

definition updateJournalState ::
    "driver \<Rightarrow> uint64 \<Rightarrow> uint64 \<Rightarrow> int \<Rightarrow> journal_tables \<Rightarrow> store_error + journal_tables" where
  "updateJournalState driver current advanced cursor db =
     bind_result (sqliteInteger current) (\<lambda>currentInteger.
     bind_result (sqliteInteger advanced) (\<lambda>nextInteger.
     exec driver CallUpdateState CodeStoreError
       (if revision_column db \<noteq> currentInteger then Inl (StoreError CodeStoreCorrupt)
        else if cursor < 0 then Inl (mapDriverError constraint_failed CodeStoreError)
        else Inr (db\<lparr>revision_column := nextInteger, cursor_column := cursor\<rparr>))))"

definition maxJournalOperations :: int where
  "maxJournalOperations = 10000"

definition maxJournalTargets :: int where
  "maxJournalTargets = 1000000"

datatype capacity_error = CountsNegative | JournalFull

definition validateJournalCapacity :: "int \<Rightarrow> int \<Rightarrow> int \<Rightarrow> capacity_error + unit" where
  "validateJournalCapacity operationCount targetCount newTargetCount =
     (if operationCount < 0 \<or> targetCount < 0 \<or> newTargetCount < 0 then Inl CountsNegative
      else if operationCount \<ge> maxJournalOperations \<or> newTargetCount > maxJournalTargets
        \<or> targetCount > maxJournalTargets - newTargetCount then Inl JournalFull
      else Inr ())"

definition sorted_rows :: "journal_tables \<Rightarrow> journal_row list" where
  "sorted_rows db = sort_key row_sequence (journal_operations db)"

definition truncateRedoTail ::
    "driver \<Rightarrow> int \<Rightarrow> int \<Rightarrow> journal_tables \<Rightarrow> store_error + journal_tables" where
  "truncateRedoTail driver cursor rowCount db =
     (if cursor \<ge> rowCount then Inr db
      else let tail = map row_id (drop (nat cursor) (sorted_rows db)) in
        exec driver CallTruncate CodeStoreError
          (Inr (delete_operations (\<lambda>ident. ident \<in> set tail) db)))"

subsection \<open>Appending an operation\<close>

text \<open>Instants count nanoseconds from year 1, milliseconds from 1970.\<close>

definition unix_epoch :: int where
  "unix_epoch = 62135596800 * 10 ^ 9"

definition unix_milli :: "go_time \<Rightarrow> int" where
  "unix_milli t = (instant t - unix_epoch) div 10 ^ 6"

text \<open>\<open>time.UnixMilli(ms).UTC()\<close>\<close>

definition from_unix_milli :: "int \<Rightarrow> go_time" where
  "from_unix_milli ms = \<lparr>instant = unix_epoch + ms * 10 ^ 6, in_utc = True\<rparr>"

fun insert_targets ::
    "driver \<Rightarrow> string \<Rightarrow> nat \<Rightarrow> entity_id list \<Rightarrow> journal_tables \<Rightarrow> store_error + journal_tables" where
  "insert_targets driver ident ordinal [] db = Inr db"
| "insert_targets driver ident ordinal (target # rest) db =
     exec driver (CallInsertTarget ordinal) CodeInvalidOperation
       (if target = '''' \<or> (\<exists>r\<in>set (operation_targets db). target_operation r = ident
              \<and> (target_ordinal r = int ordinal \<or> target_entity r = target))
        then Inl (mapDriverError constraint_failed CodeInvalidOperation)
        else insert_targets driver ident (ordinal + 1) rest
          (db\<lparr>operation_targets := operation_targets db @
            [\<lparr>target_operation = ident, target_ordinal = int ordinal, target_entity = target\<rparr>]\<rparr>))"

definition insertOperation ::
    "driver \<Rightarrow> operation \<Rightarrow> json \<Rightarrow> journal_tables \<Rightarrow> store_error + journal_tables" where
  "insertOperation driver oper payload db =
     bind_result (sqliteInteger (op_revision oper)) (\<lambda>createdRevision.
     bind_result (exec driver CallInsertOperation CodeInvalidOperation
       (if op_id oper = '''' \<or> op_id oper \<in> row_id ` set (journal_operations db)
           \<or> op_sequence oper \<le> 0 \<or> op_sequence oper \<in> row_sequence ` set (journal_operations db)
           \<or> \<not> supportedOperationType (op_type oper) \<or> uint (op_version oper) \<le> 0
           \<or> sint createdRevision < 0 \<or> unix_milli (op_created_at oper) < 0
        then Inl (mapDriverError constraint_failed CodeInvalidOperation)
        else Inr (db\<lparr>journal_operations := journal_operations db @
          [\<lparr>row_id = op_id oper, row_sequence = op_sequence oper, row_type = op_type oper,
            row_version = uint (op_version oper), row_revision = createdRevision,
            row_created_ms = unix_milli (op_created_at oper)\<rparr>]\<rparr>))) (\<lambda>db.
     bind_result (exec driver CallInsertPayload CodeInvalidOperation
       (if op_id oper \<in> payload_operation ` set (operation_payloads db)
        then Inl (mapDriverError constraint_failed CodeInvalidOperation)
        else Inr (db\<lparr>operation_payloads := operation_payloads db @
          [\<lparr>payload_operation = op_id oper, payload_version = uint (op_version oper),
            payload_json = payload\<rparr>]\<rparr>))) (\<lambda>db.
     insert_targets driver (op_id oper) 0 (op_targets oper) db)))"

definition append_body ::
    "driver \<Rightarrow> uint64 \<Rightarrow> operation \<Rightarrow> json \<Rightarrow> journal_tables \<Rightarrow>
     store_error + uint64 \<times> journal_tables" where
  "append_body driver expected oper payload db =
     bind_result (loadJournalState driver db) (\<lambda>(current, cursor, rowCount).
     if current \<noteq> expected then Inl (revisionConflict expected current)
     else bind_result (truncateRedoTail driver cursor rowCount db) (\<lambda>db.
     bind_result (exec driver CallCountTargets CodeStoreError
       (Inr (int (length (operation_targets db))))) (\<lambda>targetCount.
     bind_result (map_error (\<lambda>_. StoreError CodeJournalFull)
       (validateJournalCapacity cursor targetCount (int (length (op_targets oper))))) (\<lambda>_.
     bind_result (exec driver CallMaxSequence CodeStoreError
       (Inr (Max (set (0 # map row_sequence (journal_operations db))) + 1))) (\<lambda>sequence.
     bind_result (insertOperation driver (oper\<lparr>op_sequence := sequence\<rparr>) payload db) (\<lambda>db.
     bind_result (incrementRevision current) (\<lambda>advanced.
     bind_result (updateJournalState driver current advanced (cursor + 1) db) (\<lambda>db.
     Inr (advanced, db)))))))))"

definition Append ::
    "(string \<Rightarrow> string) \<Rightarrow> driver \<Rightarrow> journal_tables \<Rightarrow> uint64 \<Rightarrow> operation \<Rightarrow> journal_tables \<Rightarrow>
     (store_error + uint64) \<times> journal_tables connection" where
  "Append casefold driver torn expected oper db =
     (if int (length (op_targets oper)) > maxJournalTargets then (Inl (StoreError CodeJournalFull), idle db)
      else case ValidateDraft casefold oper of
        Inl _ \<Rightarrow> (Inl (StoreError CodeInvalidOperation), idle db)
      | Inr _ \<Rightarrow>
     (case validateJournalCapacity 0 0 (int (length (op_targets oper))) of
        Inl _ \<Rightarrow> (Inl (StoreError CodeJournalFull), idle db)
      | Inr _ \<Rightarrow>
      if op_revision oper \<noteq> expected then (Inl (StoreError CodeInvalidOperation), idle db)
      else if op_created_at oper \<noteq> from_unix_milli (unix_milli (op_created_at oper))
      then (Inl (StoreError CodeInvalidOperation), idle db)
      else case encodeOperationPayload casefold oper of
        Inl _ \<Rightarrow> (Inl (StoreError CodeInvalidOperation), idle db)
      | Inr payload \<Rightarrow> immediate driver torn (append_body driver expected oper payload) db))"

subsection \<open>Undo and redo\<close>

definition move_body ::
    "driver \<Rightarrow> uint64 \<Rightarrow> int \<Rightarrow> journal_tables \<Rightarrow> store_error + uint64 \<times> journal_tables" where
  "move_body driver expected direction db =
     bind_result (loadJournalState driver db) (\<lambda>(current, cursor, rowCount).
     if current \<noteq> expected then Inl (revisionConflict expected current)
     else let moved = cursor + direction in
       if moved < 0 \<or> moved > rowCount then Inl (StoreError CodeInvalidOperation)
       else bind_result (incrementRevision current) (\<lambda>advanced.
         bind_result (updateJournalState driver current advanced moved db) (\<lambda>db.
         Inr (advanced, db))))"

definition MoveCursor ::
    "driver \<Rightarrow> journal_tables \<Rightarrow> uint64 \<Rightarrow> int \<Rightarrow> journal_tables \<Rightarrow>
     (store_error + uint64) \<times> journal_tables connection" where
  "MoveCursor driver torn expected direction db =
     (if direction \<noteq> - 1 \<and> direction \<noteq> 1 then (Inl (StoreError CodeInvalidOperation), idle db)
      else immediate driver torn (move_body driver expected direction) db)"

subsection \<open>Cancelling hides\<close>

fun hide_cancellation_targets :: "entity_id option \<Rightarrow> entity_id list \<Rightarrow> bool" where
  "hide_cancellation_targets previous [] = True"
| "hide_cancellation_targets previous (target # rest) =
     (target \<noteq> '''' \<and> (case previous of None \<Rightarrow> True | Some p \<Rightarrow> \<not> p \<ge> target)
      \<and> hide_cancellation_targets (Some target) rest)"

definition validateHideCancellationTargets :: "entity_id list \<Rightarrow> bool" where
  "validateHideCancellationTargets targets \<longleftrightarrow>
     targets \<noteq> [] \<and> hide_cancellation_targets None targets"

definition hide_ids :: "journal_tables \<Rightarrow> string list" where
  "hide_ids db = map row_id
     (filter (\<lambda>r. row_type r = OperationTransactionHide) (journal_operations db))"

text \<open>
  The targets reach both statements as the JSON text of their list, which \<open>json_each\<close> reads back, as
  any JSON reader does.
\<close>

definition json_each :: "entity_id list \<Rightarrow> entity_id list" where
  "json_each targets = map (unjson \<circ> json_string) targets"

definition countCoveredHideTargets ::
    "driver \<Rightarrow> entity_id list \<Rightarrow> journal_tables \<Rightarrow> store_error + int" where
  "countCoveredHideTargets driver targets db =
     exec driver CallCountCovered CodeStoreError (Inr (int (length (remdups (map target_entity
       (filter (\<lambda>r. target_operation r \<in> set (hide_ids db) \<and> target_entity r \<in> set (json_each targets))
         (operation_targets db)))))))"

definition deleteCoveredHideTargets ::
    "driver \<Rightarrow> entity_id list \<Rightarrow> journal_tables \<Rightarrow> store_error + journal_tables" where
  "deleteCoveredHideTargets driver targets db =
     exec driver CallDeleteCovered CodeStoreError (Inr (db\<lparr>operation_targets :=
       filter (\<lambda>r. \<not> (target_entity r \<in> set (json_each targets) \<and> target_operation r \<in> set (hide_ids db)))
         (operation_targets db)\<rparr>))"

text \<open>The rows of one operation in the order of their ordinals, and the same numbered from zero.\<close>

definition targets_of :: "journal_tables \<Rightarrow> string \<Rightarrow> target_row list" where
  "targets_of db ident =
     sort_key target_ordinal (filter (\<lambda>r. target_operation r = ident) (operation_targets db))"

definition numbered :: "string \<Rightarrow> entity_id list \<Rightarrow> target_row list" where
  "numbered ident es = map (\<lambda>(i, e). \<lparr>target_operation = ident, target_ordinal = int i, target_entity = e\<rparr>)
     (enumerate 0 es)"

text \<open>
  The five statements of \<open>resequenceHideTargets\<close>: the temporary table, filled with the rows of the
  hides numbered by \<open>row_number\<close>, the deletion of those rows, their insertion from the temporary
  table in the order of operation and ordinal, and the drop of the table.
\<close>

definition resequenceHideTargets :: "driver \<Rightarrow> journal_tables \<Rightarrow> store_error + journal_tables" where
  "resequenceHideTargets driver db =
     bind_result (exec driver (CallResequence 0) CodeStoreError (Inr ())) (\<lambda>_.
     bind_result (exec driver (CallResequence 1) CodeStoreError (Inr (concat (map (\<lambda>ident.
         numbered ident (map target_entity (targets_of db ident))) (sort (hide_ids db)))))) (\<lambda>remaining.
     bind_result (exec driver (CallResequence 2) CodeStoreError (Inr (db\<lparr>operation_targets :=
         filter (\<lambda>r. target_operation r \<notin> set (hide_ids db)) (operation_targets db)\<rparr>))) (\<lambda>db.
     bind_result (exec driver (CallResequence 3) CodeStoreError (Inr (db\<lparr>operation_targets :=
         operation_targets db @ remaining\<rparr>))) (\<lambda>db.
     exec driver (CallResequence 4) CodeStoreError (Inr db)))))"

definition deleteEmptyHideOperations ::
    "driver \<Rightarrow> journal_tables \<Rightarrow> store_error + int \<times> journal_tables" where
  "deleteEmptyHideOperations driver db =
     (let gone = filter (\<lambda>ident. ident \<notin> target_operation ` set (operation_targets db)) (hide_ids db)
      in exec driver CallDeleteEmpty CodeStoreError
        (Inr (int (length gone), delete_operations (\<lambda>ident. ident \<in> set gone) db)))"

definition cancel_body ::
    "driver \<Rightarrow> uint64 \<Rightarrow> entity_id list \<Rightarrow> journal_tables \<Rightarrow> store_error + uint64 \<times> journal_tables" where
  "cancel_body driver expected targets db =
     bind_result (loadJournalState driver db) (\<lambda>(current, cursor, rowCount).
     if current \<noteq> expected then Inl (revisionConflict expected current)
     else bind_result (truncateRedoTail driver cursor rowCount db) (\<lambda>db.
     bind_result (countCoveredHideTargets driver targets db) (\<lambda>covered.
     if covered \<noteq> int (length targets) then Inl (StoreError CodeInvalidOperation)
     else bind_result (deleteCoveredHideTargets driver targets db) (\<lambda>db.
     bind_result (resequenceHideTargets driver db) (\<lambda>db.
     bind_result (deleteEmptyHideOperations driver db) (\<lambda>(removed, db).
     if removed > cursor then Inl (StoreError CodeStoreCorrupt)
     else bind_result (incrementRevision current) (\<lambda>advanced.
     bind_result (updateJournalState driver current advanced (cursor - removed) db) (\<lambda>db.
     Inr (advanced, db)))))))))"

definition CancelHide ::
    "driver \<Rightarrow> journal_tables \<Rightarrow> uint64 \<Rightarrow> entity_id list \<Rightarrow> journal_tables \<Rightarrow>
     (store_error + uint64) \<times> journal_tables connection" where
  "CancelHide driver torn expected targets db =
     (if \<not> validateHideCancellationTargets targets then (Inl (StoreError CodeInvalidOperation), idle db)
      else immediate driver torn (cancel_body driver expected targets) db)"

subsection \<open>Loading the journal\<close>

definition load_failed :: "driver \<Rightarrow> db_call \<Rightarrow> store_error + 'a \<Rightarrow> store_error + 'a" where
  "load_failed driver c r = (case driver c of Some err \<Rightarrow> Inl (loadFailure err) | None \<Rightarrow> r)"

text \<open>One row of the join with its payload; a missing payload is a NULL of the left join.\<close>

definition load_row :: "journal_tables \<Rightarrow> journal_row \<Rightarrow> store_error + operation \<times> json" where
  "load_row db r =
     (case List.find (\<lambda>p. payload_operation p = row_id r) (operation_payloads db) of
        None \<Rightarrow> Inl (StoreError CodeStoreCorrupt)
      | Some p \<Rightarrow>
          if row_version r \<noteq> payload_version p then Inl (StoreError CodeStoreCorrupt)
          else if row_version r \<noteq> 1 then Inl (StoreError CodeSchemaIncompatible)
          else if sint (row_revision r) < 0 \<or> row_created_ms r < 0 then Inl (StoreError CodeStoreCorrupt)
          else Inr (\<lparr>op_id = row_id r, op_sequence = row_sequence r, op_type = row_type r,
            op_version = word_of_int (row_version r), op_revision = row_revision r,
            op_created_at = from_unix_milli (row_created_ms r), op_targets = [], op_label = None,
            op_create = None, op_move = None, op_merge = None, op_reassign = None,
            op_delete = None, op_hide = None, op_remove = None\<rparr>, payload_json p))"

definition load_target ::
    "(string \<rightharpoonup> nat) \<Rightarrow> operation list \<Rightarrow> target_row \<Rightarrow> store_error + operation list" where
  "load_target positions stored t =
     (case positions (target_operation t) of
        None \<Rightarrow> Inl (StoreError CodeStoreCorrupt)
      | Some i \<Rightarrow>
          if target_ordinal t \<noteq> int (length (op_targets (stored ! i)))
          then Inl (StoreError CodeStoreCorrupt)
          else Inr (stored[i := (stored ! i)\<lparr>op_targets := op_targets (stored ! i) @ [target_entity t]\<rparr>]))"

definition load_decode ::
    "(string \<Rightarrow> string) \<Rightarrow> operation \<times> json \<Rightarrow> store_error + operation" where
  "load_decode casefold s =
     (case decodeOperationPayload casefold (fst s) (snd s) of
        Inr oper \<Rightarrow> Inr oper
      | Inl (CodecUnsupported _) \<Rightarrow> Inl (StoreError CodeSchemaIncompatible)
      | Inl _ \<Rightarrow> Inl (StoreError CodeStoreCorrupt))"

definition loadJournal ::
    "(string \<Rightarrow> string) \<Rightarrow> driver \<Rightarrow> journal_tables \<Rightarrow> store_error + operation list" where
  "loadJournal casefold driver db =
     bind_result (load_failed driver CallQueryJournal (map_result (load_row db) (sorted_rows db))) (\<lambda>stored.
     let positions = map_of (rev (zip (map (op_id \<circ> fst) stored) [0 ..< length stored])) in
     bind_result (load_failed driver CallQueryTargets (fold_result (load_target positions)
       (map fst stored) (concat (map (\<lambda>r. targets_of db (row_id r)) (sorted_rows db))))) (\<lambda>opers.
     map_result (load_decode casefold) (zip opers (map snd stored))))"

subsection \<open>The operations the tables stand for\<close>

definition row_for :: "operation \<Rightarrow> journal_row" where
  "row_for oper = \<lparr>row_id = op_id oper, row_sequence = op_sequence oper, row_type = op_type oper,
     row_version = uint (op_version oper), row_revision = op_revision oper,
     row_created_ms = unix_milli (op_created_at oper)\<rparr>"

definition wire_json :: "operation \<Rightarrow> json" where
  "wire_json oper = (case payloadToWire oper of Inr w \<Rightarrow> marshal w | Inl _ \<Rightarrow> JObject [])"

definition payload_for :: "operation \<Rightarrow> payload_row" where
  "payload_for oper = \<lparr>payload_operation = op_id oper, payload_version = uint (op_version oper),
     payload_json = wire_json oper\<rparr>"

abbreviation targets_for :: "operation \<Rightarrow> target_row list" where
  "targets_for oper \<equiv> numbered (op_id oper) (op_targets oper)"

definition rows_match :: "journal_tables \<Rightarrow> operation list \<Rightarrow> bool" where
  "rows_match db opers \<longleftrightarrow> distinct (map op_id opers)
     \<and> mset (journal_operations db) = mset (map row_for opers)
     \<and> mset (operation_payloads db) = mset (map payload_for opers)
     \<and> mset (operation_targets db) = mset (concat (map targets_for opers))"

lemma row_for_simps [simp]:
  "row_id (row_for oper) = op_id oper" "row_sequence (row_for oper) = op_sequence oper"
  "row_type (row_for oper) = op_type oper" "payload_operation (payload_for oper) = op_id oper"
  by (simp_all add: row_for_def payload_for_def)

lemma numbered_simps [simp]:
  "numbered ident [] = []"
  "numbered ident (es @ [e]) = numbered ident es
     @ [\<lparr>target_operation = ident, target_ordinal = int (length es), target_entity = e\<rparr>]"
  "map target_entity (numbered ident es) = es"
  "length (numbered ident es) = length es"
  by (simp_all add: numbered_def enumerate_append_eq o_def case_prod_beta)

lemma numbered_operation: "r \<in> set (numbered ident es) \<Longrightarrow> target_operation r = ident"
  by (auto simp: numbered_def)

lemma filter_numbered:
  "filter (\<lambda>r. P (target_operation r)) (numbered ident es) = (if P ident then numbered ident es else [])"
proof -
  have "filter (\<lambda>r. P (target_operation r)) (numbered ident es) = filter (\<lambda>_. P ident) (numbered ident es)"
    by (rule filter_cong[OF refl]) (drule numbered_operation, simp)
  also have "\<dots> = (if P ident then numbered ident es else [])"
    by (cases "P ident") simp_all
  finally show ?thesis .
qed

lemma numbered_ordinals: "map target_ordinal (numbered ident es) = map int [0 ..< length es]"
proof -
  have "map target_ordinal (numbered ident es) = map (\<lambda>x. int (fst x)) (enumerate 0 es)"
    by (simp add: numbered_def o_def case_prod_beta)
  also have "\<dots> = map int (map fst (enumerate 0 es))" by (simp only: map_map o_def)
  finally have "map target_ordinal (numbered ident es) = map int (map fst (enumerate 0 es))" .
  then show ?thesis by (simp only: map_fst_enumerate add_0)
qed

lemma numbered_sorted: "sorted (map target_ordinal (numbered ident es))"
    and numbered_distinct: "distinct (map target_ordinal (numbered ident es))"
  by (simp_all add: numbered_ordinals distinct_map sorted_map)

lemma sort_key_mset:
  "mset xs = mset ys \<Longrightarrow> sorted (map f ys) \<Longrightarrow> distinct (map f ys) \<Longrightarrow> sort_key f xs = ys"
  using sort_key_unique[of ys xs f] sort_key_id[of f ys] by simp

lemma rows_match_sorted:
  assumes "rows_match db opers" and "sorted_wrt (<) (map op_sequence opers)"
  shows "sorted_rows db = map row_for opers"
  unfolding sorted_rows_def
  by (rule sort_key_mset)
    (use assms in \<open>simp_all add: rows_match_def o_def strict_sorted_iff\<close>)

lemma filter_one_operation:
  assumes "distinct (map op_id opers)" and "oper \<in> set opers"
    and "\<And>x r. r \<in> set (f x) \<Longrightarrow> target_operation r = op_id x"
  shows "filter (\<lambda>r. target_operation r = op_id oper) (concat (map f opers)) = f oper"
  using assms(1,2)
proof (induction opers)
  case (Cons x opers)
  have same: "filter (\<lambda>r. target_operation r = op_id oper) (f x) = (if op_id x = op_id oper then f x else [])"
    using assms(3) by (auto simp: filter_empty_conv filter_id_conv)
  have none: "filter (\<lambda>r. target_operation r = op_id oper) (concat (map f opers)) = []"
    if "op_id oper \<notin> op_id ` set opers"
    using that by (auto simp: filter_empty_conv dest!: assms(3))
  show ?case
  proof (cases "oper = x")
    case True
    with none same Cons.prems show ?thesis by simp
  next
    case False
    with Cons.prems have "oper \<in> set opers" "op_id x \<noteq> op_id oper" by force+
    with Cons same show ?thesis by simp
  qed
qed simp

lemma filter_targets:
  "distinct (map op_id opers) \<Longrightarrow> oper \<in> set opers \<Longrightarrow>
     filter (\<lambda>r. target_operation r = op_id oper) (concat (map targets_for opers)) = targets_for oper"
  by (rule filter_one_operation) (auto dest: numbered_operation)

lemma rows_match_targets:
  assumes "rows_match db opers" and "oper \<in> set opers"
  shows "targets_of db (op_id oper) = targets_for oper"
  unfolding targets_of_def
proof (rule sort_key_mset[OF _ numbered_sorted numbered_distinct])
  have "mset (filter (\<lambda>r. target_operation r = op_id oper) (operation_targets db)) =
      mset (filter (\<lambda>r. target_operation r = op_id oper) (concat (map targets_for opers)))"
    using assms(1) unfolding rows_match_def mset_filter by simp
  then show "mset (filter (\<lambda>r. target_operation r = op_id oper) (operation_targets db)) =
      mset (targets_for oper)"
    using filter_targets[of opers oper] assms unfolding rows_match_def by metis
qed

lemma filter_concat_targets:
  "filter (\<lambda>r. \<not> gone (target_operation r)) (concat (map targets_for opers)) =
     concat (map targets_for (filter (\<lambda>oper. \<not> gone (op_id oper)) opers))"
proof (induction opers)
  case (Cons oper opers)
  then show ?case by (simp add: filter_numbered[where P = "\<lambda>i. \<not> gone i"])
qed simp

lemma rows_match_delete:
  assumes "rows_match db opers"
  shows "rows_match (delete_operations gone db) (filter (\<lambda>oper. \<not> gone (op_id oper)) opers)"
proof -
  let ?keep = "filter (\<lambda>oper. \<not> gone (op_id oper)) opers"
  have "mset (journal_operations (delete_operations gone db)) = mset (map row_for ?keep)"
    using assms by (simp add: rows_match_def delete_operations_def filter_mset_image_mset)
  moreover have "mset (operation_payloads (delete_operations gone db)) = mset (map payload_for ?keep)"
    using assms by (simp add: rows_match_def delete_operations_def filter_mset_image_mset)
  moreover have "mset (operation_targets (delete_operations gone db)) = mset (concat (map targets_for ?keep))"
    using assms unfolding filter_concat_targets[symmetric] mset_filter
    by (simp add: rows_match_def delete_operations_def)
  ultimately show ?thesis using assms by (simp add: rows_match_def distinct_map_filter)
qed

subsection \<open>What the statements do to the operations\<close>

lemma exec_Inr [simp]: "exec driver c fallback r = Inr x \<longleftrightarrow> driver c = None \<and> r = Inr x"
  by (simp add: exec_def split: option.split)

lemma filter_take_ids:
  assumes "distinct (map op_id opers)"
  shows "filter (\<lambda>oper. op_id oper \<notin> set (map op_id (drop n opers))) opers = take n opers"
proof -
  have split: "opers = take n opers @ drop n opers" by simp
  have keep: "op_id oper \<notin> set (map op_id (drop n opers))" if "oper \<in> set (take n opers)" for oper
  proof -
    have "distinct (map op_id (take n opers) @ map op_id (drop n opers))"
      using assms by (metis append_take_drop_id map_append)
    with that show ?thesis by auto
  qed
  have "filter (\<lambda>oper. op_id oper \<notin> set (map op_id (drop n opers))) (take n opers @ drop n opers)
      = take n opers"
    using keep unfolding filter_append by (simp add: filter_id_conv filter_empty_conv)
  then show ?thesis by simp
qed

lemma truncateRedoTail_rows:
  assumes "truncateRedoTail driver cursor rowCount db = Inr db'" and "rows_match db opers"
    and "sorted_wrt (<) (map op_sequence opers)" and "0 \<le> cursor" and "rowCount = int (length opers)"
  shows "rows_match db' (take (nat cursor) opers) \<and> revision_column db' = revision_column db
    \<and> cursor_column db' = cursor_column db"
proof (cases "cursor \<ge> rowCount")
  case True
  with assms show ?thesis by (simp add: truncateRedoTail_def)
next
  case False
  have "map row_id (drop (nat cursor) (sorted_rows db)) = map op_id (drop (nat cursor) opers)"
    by (simp add: rows_match_sorted[OF assms(2,3)] drop_map o_def)
  with False assms(1) have db': "db' = delete_operations
      (\<lambda>ident. ident \<in> set (map op_id (drop (nat cursor) opers))) db"
    by (auto simp: truncateRedoTail_def)
  show ?thesis
    using rows_match_delete[OF assms(2), of "\<lambda>ident. ident \<in> set (map op_id (drop (nat cursor) opers))"]
      filter_take_ids[of opers "nat cursor"] assms(2)
    by (simp add: db' rows_match_def[of db]) (simp add: delete_operations_def)
qed

lemma insert_targets_rows:
  "insert_targets driver ident n es db = Inr db' \<Longrightarrow>
     operation_targets db' = operation_targets db @ map (\<lambda>(i, e). \<lparr>target_operation = ident,
       target_ordinal = int i, target_entity = e\<rparr>) (enumerate n es)
     \<and> journal_operations db' = journal_operations db \<and> operation_payloads db' = operation_payloads db
     \<and> revision_column db' = revision_column db \<and> cursor_column db' = cursor_column db"
  by (induction es arbitrary: n db) (auto split: if_splits)

lemma insertOperation_rows:
  assumes "insertOperation driver oper (wire_json oper) db = Inr db'" and "rows_match db opers"
  shows "rows_match db' (opers @ [oper]) \<and> revision_column db' = revision_column db
    \<and> cursor_column db' = cursor_column db
    \<and> op_id oper \<notin> op_id ` set opers \<and> 0 \<le> unix_milli (op_created_at oper)
    \<and> op_revision oper \<le> max_int64"
proof -
  from assms(1) obtain db1 where rev: "op_revision oper \<le> max_int64"
      and fresh: "op_id oper \<notin> row_id ` set (journal_operations db)"
      and ms: "0 \<le> unix_milli (op_created_at oper)"
      and db1: "db1 = db\<lparr>journal_operations := journal_operations db @ [row_for oper],
        operation_payloads := operation_payloads db @ [payload_for oper]\<rparr>"
      and ins: "insert_targets driver (op_id oper) 0 (op_targets oper) db1 = Inr db'"
    by (auto simp: insertOperation_def bind_result_Inr sqliteInteger_def row_for_def payload_for_def
        not_less split: if_splits)
  have "set (journal_operations db) = row_for ` set opers"
    using assms(2) by (metis rows_match_def mset_eq_setD set_map)
  with fresh have new: "op_id oper \<notin> op_id ` set opers" by (simp add: image_image)
  from insert_targets_rows[OF ins] assms(2) new rev ms show ?thesis
    by (simp add: rows_match_def db1 numbered_def)
qed

lemma rows_match_count:
  assumes "rows_match db opers"
  shows "length (journal_operations db) = length opers"
    and "int (length (operation_targets db)) = target_count opers"
    and "set (map row_sequence (journal_operations db)) = op_sequence ` set opers"
proof -
  show "length (journal_operations db) = length opers"
    using assms by (metis length_map rows_match_def size_mset)
  have "length (operation_targets db) = length (concat (map targets_for opers))"
    using assms by (metis rows_match_def size_mset)
  also have "int \<dots> = target_count opers" by (induction opers) simp_all
  finally show "int (length (operation_targets db)) = target_count opers" .
  have "set (journal_operations db) = row_for ` set opers"
    using assms by (metis rows_match_def mset_eq_setD set_map)
  then show "set (map row_sequence (journal_operations db)) = op_sequence ` set opers"
    by (simp add: image_image)
qed

subsection \<open>The journal as operations, cursor and revision\<close>

definition storable :: "(string \<Rightarrow> string) \<Rightarrow> operation \<Rightarrow> bool" where
  "storable casefold oper \<longleftrightarrow> ValidateStored casefold oper = Inr () \<and> op_revision oper \<le> max_int64
     \<and> 0 \<le> unix_milli (op_created_at oper)
     \<and> op_created_at oper = from_unix_milli (unix_milli (op_created_at oper))"

text \<open>
  The state of the journal: its operations in order, within the capacity, with sequences that grow
  and that the revision bounds, so that none of the counters can overflow.
\<close>

definition journal_state :: "(string \<Rightarrow> string) \<Rightarrow> journal_tables \<Rightarrow> operation list \<Rightarrow> nat \<Rightarrow> bool" where
  "journal_state casefold db opers cursor \<longleftrightarrow> rows_match db opers
     \<and> (\<forall>oper\<in>set opers. storable casefold oper \<and> op_sequence oper \<le> sint (revision_column db))
     \<and> sorted_wrt (<) (map op_sequence opers)
     \<and> cursor_column db = int cursor \<and> cursor \<le> length opers \<and> 0 \<le> sint (revision_column db)
     \<and> int (length opers) \<le> maxJournalOperations \<and> target_count opers \<le> maxJournalTargets"

definition appended :: "operation list \<Rightarrow> nat \<Rightarrow> operation \<Rightarrow> operation list" where
  "appended opers cursor oper = take cursor opers @
     [oper\<lparr>op_sequence := (if cursor = 0 then 1 else op_sequence (opers ! (cursor - 1)) + 1)\<rparr>]"

lemma loadJournalState_Inr:
  assumes "journal_state casefold db opers cursor"
  shows "loadJournalState driver db = Inr s \<longleftrightarrow> driver CallLoadState = None
    \<and> s = (revision_column db, int cursor, int (length opers))"
  using assms rows_match_count(1)[of db opers]
  by (auto simp: journal_state_def loadJournalState_def Let_def)

lemma sint_small:
  assumes "unat (w :: int64) < 2 ^ 63"
  shows "sint w = int (unat w)"
proof -
  from assms have "int (unat w) < 2 ^ 63" by (metis of_nat_less_iff of_nat_numeral of_nat_power)
  moreover have "- (2 ^ 63) \<le> int (unat w)" by (rule order_trans[of _ 0]) simp_all
  ultimately have "in_int64 (int (unat w))" unfolding in_int64_def by blast
  then have "sint (word_of_int (int (unat w)) :: int64) = int (unat w)" by (rule sint_of_int)
  then show ?thesis by simp
qed

lemma word_max_int64: "(w :: int64) \<le> max_int64 \<longleftrightarrow> 0 \<le> sint w"
proof
  assume "w \<le> max_int64"
  then have "unat w < 2 ^ 63" by (simp add: word_le_nat_alt max_int64_def)
  then show "0 \<le> sint w" by (simp add: sint_small)
next
  assume "0 \<le> sint w"
  then have "unat w = nat (sint w)" by (metis nat_int unat_nonneg)
  with sint_upper[of w] show "w \<le> max_int64" by (simp add: word_le_nat_alt max_int64_def nat_le_iff)
qed

lemma incrementRevision_Inr:
  assumes "0 \<le> sint (w :: int64)"
  shows "incrementRevision w = Inr v \<longleftrightarrow> sint w < 2 ^ 63 - 1 \<and> v = w + 1"
proof -
  have "unat w = nat (sint w)" using assms by (metis nat_int unat_nonneg)
  then have "max_int64 \<le> w \<longleftrightarrow> 2 ^ 63 - 1 \<le> sint w"
    by (simp add: word_le_nat_alt max_int64_def) linarith
  then show ?thesis by (auto simp: incrementRevision_def)
qed

lemma sint_increment: "0 \<le> sint (w :: int64) \<Longrightarrow> sint w < 2 ^ 63 - 1 \<Longrightarrow> sint (w + 1) = sint w + 1"
  by (subst sint_plus) (simp_all add: in_int64_def)

lemma updateJournalState_Inr:
  assumes "0 \<le> sint (revision_column db)"
  shows "updateJournalState driver (revision_column db) v c db = Inr db' \<longleftrightarrow>
    driver CallUpdateState = None \<and> 0 \<le> sint v \<and> 0 \<le> c
    \<and> db' = db\<lparr>revision_column := v, cursor_column := c\<rparr>"
  using assms
  by (auto simp: updateJournalState_def bind_result_Inr sqliteInteger_def word_max_int64[symmetric] not_less
      split: if_splits)

lemma rows_match_columns [simp]:
  "rows_match (db\<lparr>revision_column := v, cursor_column := c\<rparr>) opers \<longleftrightarrow> rows_match db opers"
  by (simp add: rows_match_def)

lemma journal_state_prefix:
  assumes "journal_state casefold db opers cursor"
  shows "\<forall>oper\<in>set (take n opers). storable casefold oper \<and> op_sequence oper \<le> sint (revision_column db)"
    and "sorted_wrt (<) (map op_sequence (take n opers))"
    and "distinct (map op_id (take n opers))"
  using assms unfolding journal_state_def
  by (auto simp: take_map[symmetric] sorted_wrt_take rows_match_def distinct_map
      dest: in_set_takeD intro: inj_on_subset[OF _ set_take_subset])

subsection \<open>The handlers on the journal state\<close>

lemma move_body_spec:
  assumes st: "journal_state casefold db opers cursor"
  shows "move_body driver expected direction db = Inr (v, db') \<longleftrightarrow>
    driver CallLoadState = None \<and> driver CallUpdateState = None \<and> expected = revision_column db
    \<and> 0 \<le> int cursor + direction \<and> int cursor + direction \<le> int (length opers)
    \<and> sint (revision_column db) < 2 ^ 63 - 1 \<and> v = revision_column db + 1
    \<and> db' = db\<lparr>revision_column := v, cursor_column := int cursor + direction\<rparr>"
proof -
  have rev: "0 \<le> sint (revision_column db)" using st by (simp add: journal_state_def)
  show ?thesis
    using sint_increment[OF rev] rev
    by (auto simp: move_body_def bind_result_Inr loadJournalState_Inr[OF st] Let_def not_less
        incrementRevision_Inr[OF rev] updateJournalState_Inr[OF rev] split: if_splits)
qed

lemma move_state:
  assumes st: "journal_state casefold db opers cursor"
    and ok: "move_body driver expected direction db = Inr (v, db')"
  shows "journal_state casefold db' opers (nat (int cursor + direction)) \<and> sint v = sint (revision_column db) + 1"
proof -
  have rev: "0 \<le> sint (revision_column db)" using st by (simp add: journal_state_def)
  note spec = ok[unfolded move_body_spec[OF st]]
  then have inc: "sint v = sint (revision_column db) + 1" using sint_increment[OF rev] by simp
  with st spec show ?thesis by (fastforce simp: journal_state_def)
qed

lemma validate_payload_sequence:
  "validateLabelOperation casefold (oper\<lparr>op_sequence := s\<rparr>) = validateLabelOperation casefold oper"
  "validateMergeOperation (oper\<lparr>op_sequence := s\<rparr>) = validateMergeOperation oper"
  "validateReassignOperation casefold (oper\<lparr>op_sequence := s\<rparr>) = validateReassignOperation casefold oper"
  "validateCreateOperation casefold (oper\<lparr>op_sequence := s\<rparr>) = validateCreateOperation casefold oper"
  "validateMoveOperation (oper\<lparr>op_sequence := s\<rparr>) = validateMoveOperation oper"
  "validateDeleteOperation (oper\<lparr>op_sequence := s\<rparr>) = validateDeleteOperation oper"
  by (simp_all add: validateLabelOperation_def validateMergeOperation_def validateReassignOperation_def
      validateCreateOperation_def validateMoveOperation_def validateDeleteOperation_def
      cong: if_cong split: option.split)

lemma validate_sequence [simp]:
  "validateOperation casefold (oper\<lparr>op_sequence := s\<rparr>) = validateOperation casefold oper"
  by (cases "op_type oper")
    (simp_all add: validateOperation_def countPayloads_def validatePayload_def validate_payload_sequence
      cong: if_cong)

lemma draft_stored:
  "ValidateDraft casefold oper = Inr u \<Longrightarrow> 0 < s \<Longrightarrow>
     ValidateStored casefold (oper\<lparr>op_sequence := s\<rparr>) = Inr ()"
  by (simp add: ValidateDraft_def ValidateStored_def split: if_splits)

lemma wire_json_sequence [simp]: "wire_json (oper\<lparr>op_sequence := s\<rparr>) = wire_json oper"
  by (simp add: wire_json_def payloadToWire_def Let_def cong: operation_type.case_cong)

lemma encode_draft:
  "encodeOperationPayload casefold oper = Inr payload \<Longrightarrow> payload = wire_json oper"
  by (auto simp: encodeOperationPayload_def bind_result_Inr wire_json_def)

lemma max_sequence:
  assumes "sorted_wrt (<) (map op_sequence opers)" and "\<forall>oper\<in>set opers. 0 < op_sequence oper"
  shows "Max (insert 0 (op_sequence ` set opers)) =
    (if opers = [] then 0 else op_sequence (last opers))"
proof (cases "opers = []")
  case False
  then have split: "opers = butlast opers @ [last opers]" by simp
  have "op_sequence oper \<le> op_sequence (last opers)" if "oper \<in> set opers" for oper
  proof -
    from that have "oper \<in> set (butlast opers) \<or> oper = last opers"
      by (subst (asm) split) auto
    moreover have "sorted_wrt (<) (map op_sequence (butlast opers) @ [op_sequence (last opers)])"
      using assms(1) split by (metis list.simps(8,9) map_append)
    ultimately show ?thesis by (auto simp: sorted_wrt_append)
  qed
  with False assms(2) show ?thesis
    by (intro Max_eqI) (auto simp: less_imp_le)
qed simp

definition new_sequence :: "operation list \<Rightarrow> nat \<Rightarrow> int" where
  "new_sequence opers cursor = (if cursor = 0 then 1 else op_sequence (opers ! (cursor - 1)) + 1)"

lemma prefix_sequence:
  assumes st: "journal_state casefold db opers cursor"
  shows "Max (insert 0 (op_sequence ` set (take cursor opers))) + 1 = new_sequence opers cursor"
    and "0 < new_sequence opers cursor"
    and "new_sequence opers cursor \<le> sint (revision_column db) + 1"
    and "\<forall>oper\<in>set (take cursor opers). op_sequence oper < new_sequence opers cursor"
proof -
  note pre = journal_state_prefix[OF st, of cursor]
  have pos: "\<forall>oper\<in>set (take cursor opers). 0 < op_sequence oper"
    using pre(1) ValidateStored_sequence by (fastforce simp: storable_def)
  have last: "take cursor opers \<noteq> [] \<Longrightarrow> last (take cursor opers) = opers ! (cursor - 1)"
    using st by (auto simp: journal_state_def last_conv_nth min_def)
  have empty: "take cursor opers = [] \<longleftrightarrow> cursor = 0"
    using st by (auto simp: journal_state_def)
  show max: "Max (insert 0 (op_sequence ` set (take cursor opers))) + 1 = new_sequence opers cursor"
    using max_sequence[OF pre(2) pos] last empty unfolding new_sequence_def
    by (cases "cursor = 0") (simp_all only: if_True if_False, simp_all)
  have fin: "finite (insert 0 (op_sequence ` set (take cursor opers)))" by simp
  show "0 < new_sequence opers cursor"
    using Max_ge[OF fin insertI1] max by linarith
  show "\<forall>oper\<in>set (take cursor opers). op_sequence oper < new_sequence opers cursor"
  proof
    fix oper
    assume "oper \<in> set (take cursor opers)"
    then have "op_sequence oper \<le> Max (insert 0 (op_sequence ` set (take cursor opers)))"
      by (intro Max_ge[OF fin]) simp
    with max show "op_sequence oper < new_sequence opers cursor" by linarith
  qed
  have rev: "0 \<le> sint (revision_column db)" using st by (simp add: journal_state_def)
  have "Max (insert 0 (op_sequence ` set (take cursor opers))) \<le> sint (revision_column db)"
    using pre(1) rev by (intro Max.boundedI) auto
  with max show "new_sequence opers cursor \<le> sint (revision_column db) + 1" by linarith
qed

lemma sequence_update [simp]: "oper\<lparr>op_sequence := op_sequence oper\<rparr> = oper"
  by (cases oper) simp

lemma append_body_spec:
  assumes st: "journal_state casefold db opers cursor"
    and ok: "append_body driver expected oper (wire_json oper) db = Inr (v, db')"
  shows "expected = revision_column db \<and> int cursor < maxJournalOperations
    \<and> target_count (take cursor opers) + int (length (op_targets oper)) \<le> maxJournalTargets
    \<and> op_id oper \<notin> op_id ` set (take cursor opers) \<and> 0 \<le> unix_milli (op_created_at oper)
    \<and> sint (revision_column db) < 2 ^ 63 - 1 \<and> v = revision_column db + 1
    \<and> revision_column db' = v \<and> cursor_column db' = int cursor + 1
    \<and> rows_match db' (take cursor opers @ [oper\<lparr>op_sequence := new_sequence opers cursor\<rparr>])"
proof -
  have rev: "0 \<le> sint (revision_column db)" using st by (simp add: journal_state_def)
  from ok obtain db1 db2 where e: "expected = revision_column db"
      and t: "truncateRedoTail driver (int cursor) (int (length opers)) db = Inr db1"
      and c: "validateJournalCapacity (int cursor) (int (length (operation_targets db1)))
        (int (length (op_targets oper))) = Inr ()"
      and i: "insertOperation driver (oper\<lparr>op_sequence :=
          Max (set (0 # map row_sequence (journal_operations db1))) + 1\<rparr>) (wire_json oper) db1 = Inr db2"
      and r: "incrementRevision (revision_column db) = Inr v"
      and u: "updateJournalState driver (revision_column db) v (int cursor + 1) db2 = Inr db'"
    by (auto simp: append_body_def bind_result_Inr loadJournalState_Inr[OF st] split: if_splits)
  have "rows_match db1 (take cursor opers) \<and> revision_column db1 = revision_column db
      \<and> cursor_column db1 = cursor_column db"
    using truncateRedoTail_rows[OF t _ _ _ refl] st by (simp add: journal_state_def)
  then have db1: "rows_match db1 (take cursor opers)" "revision_column db1 = revision_column db" by auto
  have seq: "Max (set (0 # map row_sequence (journal_operations db1))) + 1 = new_sequence opers cursor"
    using rows_match_count(3)[OF db1(1)] prefix_sequence(1)[OF st] by simp
  let ?oper = "oper\<lparr>op_sequence := new_sequence opers cursor\<rparr>"
  have "insertOperation driver ?oper (wire_json ?oper) db1 = Inr db2" using i seq by simp
  note ins = insertOperation_rows[OF this db1(1)]
  have "revision_column db2 = revision_column db" using ins db1(2) by simp
  with u have db': "db' = db2\<lparr>revision_column := v, cursor_column := int cursor + 1\<rparr>"
    using updateJournalState_Inr[of db2 driver v "int cursor + 1" db'] rev by simp
  have "int cursor < maxJournalOperations"
      "target_count (take cursor opers) + int (length (op_targets oper)) \<le> maxJournalTargets"
    using c rows_match_count(2)[OF db1(1)] by (auto simp: validateJournalCapacity_def split: if_splits)
  moreover have "sint (revision_column db) < 2 ^ 63 - 1" "v = revision_column db + 1"
    using r incrementRevision_Inr[OF rev] by auto
  ultimately show ?thesis using e ins db' by simp
qed

lemma target_count_take: "target_count (take n opers) \<le> target_count opers"
proof -
  have "0 \<le> target_count xs" for xs by (induction xs) simp_all
  then have "target_count (take n opers) \<le> target_count (take n opers @ drop n opers)"
    unfolding target_count_simps by simp
  then show ?thesis by simp
qed

lemma append_state:
  assumes st: "journal_state casefold db opers cursor"
    and draft: "ValidateDraft casefold oper = Inr ()" and rev: "op_revision oper = expected"
    and time: "op_created_at oper = from_unix_milli (unix_milli (op_created_at oper))"
    and ok: "append_body driver expected oper (wire_json oper) db = Inr (v, db')"
  shows "journal_state casefold db' (appended opers cursor oper) (cursor + 1)"
proof -
  note spec = append_body_spec[OF st ok]
  have r0: "0 \<le> sint (revision_column db)" using st by (simp add: journal_state_def)
  have inc: "sint (revision_column db') = sint (revision_column db) + 1"
    using spec sint_increment[OF r0] by simp
  have cl: "cursor \<le> length opers" using st by (simp add: journal_state_def)
  let ?oper = "oper\<lparr>op_sequence := new_sequence opers cursor\<rparr>"
  note seq = prefix_sequence[OF st]
  have "storable casefold ?oper"
    using draft_stored[OF draft seq(2)] spec time rev r0 by (simp add: storable_def word_max_int64)
  moreover have "\<forall>o'\<in>set (take cursor opers). storable casefold o' \<and> op_sequence o' \<le> sint (revision_column db')"
    using journal_state_prefix(1)[OF st, of cursor] inc by fastforce
  moreover have "sorted_wrt (<) (map op_sequence (take cursor opers) @ [new_sequence opers cursor])"
    using journal_state_prefix(2)[OF st, of cursor] seq(4) by (auto simp: sorted_wrt_append)
  ultimately show ?thesis
    using spec inc seq(3) r0 cl
    by (auto simp: journal_state_def appended_def new_sequence_def[symmetric])
qed

text \<open>A driver that refuses nothing.\<close>

definition calm :: driver where
  "calm c = None"

lemma exec_calm [simp]: "exec calm c fallback r = r"
  by (simp add: exec_def calm_def)

lemma calm_calls [simp]:
  "calm CallLoadState = None" "calm CallUpdateState = None" "calm CallConn = None"
  "calm CallBegin = None" "calm CallCommit = None" "calm CallRollback = None" "calm CallClose = None"
  "calm CallQueryJournal = None" "calm CallQueryTargets = None"
  by (simp_all add: calm_def)

lemma insert_targets_calm:
  assumes "distinct es" and "'''' \<notin> set es"
    and "\<forall>r\<in>set (operation_targets db). target_operation r = ident \<longrightarrow>
      target_ordinal r < int n \<and> target_entity r \<notin> set es"
  shows "\<exists>db'. insert_targets calm ident n es db = Inr db'"
  using assms
proof (induction es arbitrary: n db)
  case (Cons e es)
  let ?db = "db\<lparr>operation_targets := operation_targets db @
      [\<lparr>target_operation = ident, target_ordinal = int n, target_entity = e\<rparr>]\<rparr>"
  have "\<exists>db'. insert_targets calm ident (n + 1) es ?db = Inr db'"
    by (rule Cons.IH) (use Cons.prems in auto)
  moreover have "\<not> (\<exists>r\<in>set (operation_targets db). target_operation r = ident
      \<and> (target_ordinal r = int n \<or> target_entity r = e))"
    using Cons.prems(3) by auto
  ultimately show ?case using Cons.prems(2) by auto
qed simp

lemma insertOperation_calm:
  assumes m: "rows_match db opers" and stored: "ValidateStored casefold oper = Inr ()"
    and new: "op_id oper \<notin> op_id ` set opers" "op_sequence oper \<notin> op_sequence ` set opers"
    and rev: "op_revision oper \<le> max_int64" and ms: "0 \<le> unix_milli (op_created_at oper)"
  shows "\<exists>db'. insertOperation calm oper payload db = Inr db'"
proof -
  have rows: "set (journal_operations db) = row_for ` set opers"
      "set (operation_payloads db) = payload_for ` set opers"
      "set (operation_targets db) = (\<Union>oper\<in>set opers. set (targets_for oper))"
    using m[unfolded rows_match_def, THEN conjunct2, THEN conjunct1, THEN mset_eq_setD]
      m[unfolded rows_match_def, THEN conjunct2, THEN conjunct2, THEN conjunct1, THEN mset_eq_setD]
      m[unfolded rows_match_def, THEN conjunct2, THEN conjunct2, THEN conjunct2, THEN mset_eq_setD]
    by simp_all
  have "op_id oper \<noteq> ''''" "op_version oper = 1" "0 < op_sequence oper"
    using stored by (auto simp: ValidateStored_def validateOperation_def split: if_splits)
  note targets = ValidateStored_targets[OF stored]
  let ?row = "\<lparr>row_id = op_id oper, row_sequence = op_sequence oper, row_type = op_type oper,
    row_version = uint (op_version oper), row_revision = op_revision oper,
    row_created_ms = unix_milli (op_created_at oper)\<rparr>"
  let ?db = "db\<lparr>journal_operations := journal_operations db @ [?row],
    operation_payloads := operation_payloads db @ [\<lparr>payload_operation = op_id oper,
      payload_version = uint (op_version oper), payload_json = payload\<rparr>]\<rparr>"
  have "\<exists>db'. insert_targets calm (op_id oper) 0 (op_targets oper) ?db = Inr db'"
    by (rule insert_targets_calm)
      (use targets new(1) in \<open>auto simp: rows dest!: numbered_operation\<close>)
  then show ?thesis
    using new rev ms stored \<open>op_id oper \<noteq> ''''\<close> \<open>op_version oper = 1\<close> \<open>0 < op_sequence oper\<close>
      supported_valid[OF stored]
    by (simp add: insertOperation_def sqliteInteger_def not_less rows image_image
        word_max_int64[THEN iffD1])
qed

lemma append_calm:
  assumes st: "journal_state casefold db opers cursor" 
    and draft: "ValidateDraft casefold oper = Inr ()"
    and rev: "expected = revision_column db" "op_revision oper = expected"
    and ms: "0 \<le> unix_milli (op_created_at oper)" and new: "op_id oper \<notin> op_id ` set (take cursor opers)"
    and cap: "int cursor < maxJournalOperations"
      "target_count (take cursor opers) + int (length (op_targets oper)) \<le> maxJournalTargets"
    and room: "sint (revision_column db) < 2 ^ 63 - 1"
  shows "\<exists>v db'. append_body calm expected oper (wire_json oper) db = Inr (v, db')"
proof -
  have r0: "0 \<le> sint (revision_column db)" using st by (simp add: journal_state_def)
  obtain db1 where t: "truncateRedoTail calm (int cursor) (int (length opers)) db = Inr db1"
    by (cases "int cursor \<ge> int (length opers)") (auto simp: truncateRedoTail_def Let_def)
  have "rows_match db1 (take cursor opers) \<and> revision_column db1 = revision_column db
      \<and> cursor_column db1 = cursor_column db"
    using truncateRedoTail_rows[OF t _ _ _ refl] st by (simp add: journal_state_def)
  then have db1: "rows_match db1 (take cursor opers)" "revision_column db1 = revision_column db" by auto
  have seq: "Max (set (0 # map row_sequence (journal_operations db1))) + 1 = new_sequence opers cursor"
    using rows_match_count(3)[OF db1(1)] prefix_sequence(1)[OF st] by simp
  let ?oper = "oper\<lparr>op_sequence := new_sequence opers cursor\<rparr>"
  have "\<exists>db'. insertOperation calm ?oper (wire_json oper) db1 = Inr db'"
    by (rule insertOperation_calm[OF db1(1) draft_stored[OF draft prefix_sequence(2)[OF st]]])
      (use prefix_sequence(4)[OF st] new rev r0 ms in \<open>auto simp: word_max_int64\<close>)
  then obtain db2 where i: "insertOperation calm ?oper (wire_json oper) db1 = Inr db2" by blast
  then have "revision_column db2 = revision_column db"
    using insertOperation_rows[OF _ db1(1), of calm ?oper db2] db1(2) by simp
  then have "\<exists>db3. updateJournalState calm (revision_column db) (revision_column db + 1)
      (int cursor + 1) db2 = Inr db3"
    using updateJournalState_Inr[of db2 calm "revision_column db + 1" "int cursor + 1"] r0 room
      sint_increment[OF r0] by simp
  moreover have "validateJournalCapacity (int cursor) (int (length (operation_targets db1)))
      (int (length (op_targets oper))) = Inr ()"
    using cap rows_match_count(2)[OF db1(1)] by (simp add: validateJournalCapacity_def)
  moreover have "incrementRevision (revision_column db) = Inr (revision_column db + 1)"
    using room incrementRevision_Inr[OF r0] by simp
  moreover have "loadJournalState calm db = Inr (revision_column db, int cursor, int (length opers))"
    using loadJournalState_Inr[OF st] by simp
  ultimately show ?thesis using t i seq rev by (auto simp: append_body_def)
qed

subsection \<open>Cancelling hides on the journal state\<close>

abbreviation is_hide :: "operation \<Rightarrow> bool" where
  "is_hide oper \<equiv> op_type oper = OperationTransactionHide"

definition cut_hide :: "entity_id list \<Rightarrow> operation \<Rightarrow> operation" where
  "cut_hide targets oper = (if is_hide oper
     then oper\<lparr>op_targets := filter (\<lambda>t. t \<notin> set targets) (op_targets oper)\<rparr> else oper)"

definition cancelled :: "entity_id list \<Rightarrow> operation list \<Rightarrow> operation list" where
  "cancelled targets opers = filter (\<lambda>oper. op_targets oper \<noteq> []) (map (cut_hide targets) opers)"

lemma cut_hide_simps [simp]:
  "op_id (cut_hide targets oper) = op_id oper" "op_type (cut_hide targets oper) = op_type oper"
  "op_sequence (cut_hide targets oper) = op_sequence oper"
  "row_for (cut_hide targets oper) = row_for oper"
  "is_hide oper \<Longrightarrow> op_targets (cut_hide targets oper) = filter (\<lambda>t. t \<notin> set targets) (op_targets oper)"
  "\<not> is_hide oper \<Longrightarrow> cut_hide targets oper = oper"
  by (simp_all add: cut_hide_def row_for_def)

lemma payload_cut [simp]: "payload_for (cut_hide targets oper) = payload_for oper"
  by (simp add: cut_hide_def payload_for_def wire_json_def payloadToWire_def Let_def
      cong: operation_type.case_cong)

lemma hide_ids_mset:
  assumes "rows_match db opers"
  shows "mset (hide_ids db) = mset (map op_id (filter is_hide opers))"
proof -
  have "mset (filter (\<lambda>r. row_type r = OperationTransactionHide) (journal_operations db)) =
      mset (filter (\<lambda>r. row_type r = OperationTransactionHide) (map row_for opers))"
    using assms unfolding mset_filter rows_match_def by simp
  then show ?thesis by (simp add: hide_ids_def filter_map o_def image_mset.compositionality)
qed

lemma hide_ids_member:
  assumes m: "rows_match db opers" and "oper \<in> set opers"
  shows "op_id oper \<in> set (hide_ids db) \<longleftrightarrow> is_hide oper"
proof -
  have "set (hide_ids db) = op_id ` {x \<in> set opers. is_hide x}"
    using mset_eq_setD[OF hide_ids_mset[OF m]] by simp
  moreover have "inj_on op_id (set opers)" using m by (simp add: rows_match_def distinct_map)
  ultimately show ?thesis using assms(2) by (auto dest: inj_onD)
qed

lemma mset_concat_map:
  assumes "mset xs = mset ys"
  shows "mset (concat (map f xs)) = mset (concat (map f ys))"
proof -
  have "mset (concat (map f zs)) = \<Sum>\<^sub># (image_mset (\<lambda>x. mset (f x)) (mset zs))" for zs
    by (induction zs) simp_all
  with assms show ?thesis by simp
qed

lemma mset_concat_partition:
  "mset (concat (map f xs)) = mset (concat (map f (filter P xs))) + mset (concat (map f (filter (\<lambda>x. \<not> P x) xs)))"
  by (induction xs) simp_all

lemma filter_targets_for:
  assumes "rows_match db opers" and "set xs \<subseteq> set opers"
  shows "filter (\<lambda>r. \<not> (target_entity r \<in> T \<and> target_operation r \<in> set (hide_ids db)))
      (concat (map targets_for xs)) =
    concat (map (\<lambda>oper. if is_hide oper then filter (\<lambda>r. target_entity r \<notin> T) (targets_for oper)
      else targets_for oper) xs)"
  using assms(2)
proof (induction xs)
  case (Cons x xs)
  have "filter (\<lambda>r. \<not> (target_entity r \<in> T \<and> target_operation r \<in> set (hide_ids db))) (targets_for x)
      = (if is_hide x then filter (\<lambda>r. target_entity r \<notin> T) (targets_for x) else targets_for x)"
    using hide_ids_member[OF assms(1), of x] Cons.prems
    by (auto simp: filter_id_conv dest!: numbered_operation intro!: filter_cong)
  with Cons show ?case by simp
qed simp

lemma deleteCovered_targets:
  assumes m: "rows_match db opers"
    and ok: "deleteCoveredHideTargets driver raw db = Inr db'" and targets: "targets = json_each raw"
  shows "mset (operation_targets db') = mset (concat (map (\<lambda>oper. if is_hide oper
      then filter (\<lambda>r. target_entity r \<notin> set targets) (targets_for oper) else targets_for oper) opers))"
    and "journal_operations db' = journal_operations db" "operation_payloads db' = operation_payloads db"
      "revision_column db' = revision_column db" "cursor_column db' = cursor_column db"
proof -
  from ok have db': "db' = db\<lparr>operation_targets := filter (\<lambda>r. \<not> (target_entity r \<in> set targets
      \<and> target_operation r \<in> set (hide_ids db))) (operation_targets db)\<rparr>"
    by (simp add: deleteCoveredHideTargets_def targets)
  have "mset (operation_targets db') = mset (filter (\<lambda>r. \<not> (target_entity r \<in> set targets
      \<and> target_operation r \<in> set (hide_ids db))) (concat (map targets_for opers)))"
    using m unfolding db' mset_filter rows_match_def by simp
  then show "mset (operation_targets db') = mset (concat (map (\<lambda>oper. if is_hide oper
      then filter (\<lambda>r. target_entity r \<notin> set targets) (targets_for oper) else targets_for oper) opers))"
    unfolding filter_targets_for[OF m order_refl] .
  show "journal_operations db' = journal_operations db" "operation_payloads db' = operation_payloads db"
      "revision_column db' = revision_column db" "cursor_column db' = cursor_column db"
    by (simp_all add: db')
qed

lemma cut_targets_of:
  assumes d: "distinct (map op_id opers)" and o: "oper \<in> set opers" "is_hide oper"
    and m: "mset (operation_targets db) = mset (concat (map (\<lambda>oper. if is_hide oper
      then filter (\<lambda>r. target_entity r \<notin> set targets) (targets_for oper) else targets_for oper) opers))"
  shows "map target_entity (targets_of db (op_id oper)) = op_targets (cut_hide targets oper)"
proof -
  let ?f = "\<lambda>oper. if is_hide oper
      then filter (\<lambda>r. target_entity r \<notin> set targets) (targets_for oper) else targets_for oper"
  have "mset (filter (\<lambda>r. target_operation r = op_id oper) (operation_targets db)) =
      mset (filter (\<lambda>r. target_operation r = op_id oper) (concat (map ?f opers)))"
    using m unfolding mset_filter by simp
  also have "filter (\<lambda>r. target_operation r = op_id oper) (concat (map ?f opers)) = ?f oper"
    by (rule filter_one_operation[OF d o(1)]) (auto split: if_splits dest: numbered_operation)
  finally have "mset (filter (\<lambda>r. target_operation r = op_id oper) (operation_targets db)) =
      mset (filter (\<lambda>r. target_entity r \<notin> set targets) (targets_for oper))"
    using o(2) by simp
  then have "targets_of db (op_id oper) = filter (\<lambda>r. target_entity r \<notin> set targets) (targets_for oper)"
    unfolding targets_of_def
    by (rule sort_key_mset) (simp_all add: sorted_filter numbered_sorted distinct_map_filter numbered_distinct)
  moreover have "map target_entity (filter (\<lambda>r. target_entity r \<notin> set targets) (targets_for oper)) =
      filter (\<lambda>t. t \<notin> set targets) (map target_entity (targets_for oper))"
    by (simp only: filter_map o_def)
  ultimately show ?thesis
    using o(2) by (simp only: numbered_simps(3) cut_hide_simps(5))
qed

lemma rows_match_cong:
  assumes "rows_match db opers" and "journal_operations db' = journal_operations db"
    and "operation_payloads db' = operation_payloads db"
    and "map op_id opers' = map op_id opers" and "map row_for opers' = map row_for opers"
    and "map payload_for opers' = map payload_for opers"
    and "mset (operation_targets db') = mset (concat (map targets_for opers'))"
  shows "rows_match db' opers'"
  using assms unfolding rows_match_def by simp

lemma resequence_rows:
  assumes m: "rows_match db opers"
    and del: "deleteCoveredHideTargets driver raw db = Inr db1" and targets: "targets = json_each raw"
    and ok: "resequenceHideTargets driver db1 = Inr db2"
  shows "rows_match db2 (map (cut_hide targets) opers) \<and> revision_column db2 = revision_column db"
proof -
  let ?cut = "cut_hide targets"
  note d1 = deleteCovered_targets[OF m del targets]
  have ids: "hide_ids db1 = hide_ids db" by (simp add: hide_ids_def d1(2))
  have d: "distinct (map op_id opers)" using m by (simp add: rows_match_def)
  let ?new = "\<lambda>ident. numbered ident (map target_entity (targets_of db1 ident))"
  from ok have db2: "db2 = db1\<lparr>operation_targets :=
      filter (\<lambda>r. target_operation r \<notin> set (hide_ids db)) (operation_targets db1)
      @ concat (map ?new (sort (hide_ids db)))\<rparr>"
    by (auto simp: resequenceHideTargets_def bind_result_Inr hide_ids_def d1(2))
  have "mset (concat (map ?new (sort (hide_ids db)))) =
      mset (concat (map ?new (map op_id (filter is_hide opers))))"
    by (rule mset_concat_map) (simp add: hide_ids_mset[OF m])
  also have "map ?new (map op_id (filter is_hide opers)) = map targets_for (map ?cut (filter is_hide opers))"
    using cut_targets_of[OF d _ _ d1(1)] by simp
  finally have hides: "mset (concat (map ?new (sort (hide_ids db)))) =
      mset (concat (map targets_for (map ?cut (filter is_hide opers))))" .
  let ?f = "\<lambda>oper. if is_hide oper
      then filter (\<lambda>r. target_entity r \<notin> set targets) (targets_for oper) else targets_for oper"
  have part: "filter (\<lambda>r. target_operation r \<notin> set (hide_ids db)) (concat (map ?f xs)) =
      concat (map targets_for (map ?cut (filter (\<lambda>oper. \<not> is_hide oper) xs)))"
    if "set xs \<subseteq> set opers" for xs
    using that
  proof (induction xs)
    case (Cons x xs)
    have "filter (\<lambda>r. target_operation r \<notin> set (hide_ids db)) (?f x) =
        (if is_hide x then [] else targets_for x)"
      using hide_ids_member[OF m, of x] Cons.prems
      by (auto simp: filter_empty_conv filter_id_conv dest!: numbered_operation)
    with Cons show ?case by simp
  qed simp
  have "mset (filter (\<lambda>r. target_operation r \<notin> set (hide_ids db)) (operation_targets db1)) =
      mset (filter (\<lambda>r. target_operation r \<notin> set (hide_ids db)) (concat (map ?f opers)))"
    unfolding mset_filter d1(1) ..
  then have others: "mset (filter (\<lambda>r. target_operation r \<notin> set (hide_ids db)) (operation_targets db1)) =
      mset (concat (map targets_for (map ?cut (filter (\<lambda>oper. \<not> is_hide oper) opers))))"
    unfolding part[OF order_refl] .
  have "mset (operation_targets db2) = mset (concat (map targets_for (map ?cut opers)))"
    using hides others mset_concat_partition[of "\<lambda>oper. targets_for (?cut oper)" opers is_hide]
    by (simp add: db2 o_def)
  then have "rows_match db2 (map ?cut opers)"
    by (intro rows_match_cong[OF m]) (simp_all add: db2 d1)
  moreover have "revision_column db2 = revision_column db" by (simp add: db2 d1)
  ultimately show ?thesis by simp
qed

lemma deleteEmpty_rows:
  assumes m: "rows_match db opers" and full: "\<forall>oper\<in>set opers. \<not> is_hide oper \<longrightarrow> op_targets oper \<noteq> []"
    and ok: "deleteEmptyHideOperations driver db = Inr (removed, db')"
  shows "rows_match db' (filter (\<lambda>oper. op_targets oper \<noteq> []) opers)
    \<and> revision_column db' = revision_column db
    \<and> removed = int (length opers) - int (length (filter (\<lambda>oper. op_targets oper \<noteq> []) opers))"
proof -
  let ?gone = "filter (\<lambda>ident. ident \<notin> target_operation ` set (operation_targets db)) (hide_ids db)"
  have d: "distinct (map op_id opers)" using m by (simp add: rows_match_def)
  have "set (operation_targets db) = (\<Union>oper\<in>set opers. set (targets_for oper))"
    using m[unfolded rows_match_def, THEN conjunct2, THEN conjunct2, THEN conjunct2, THEN mset_eq_setD]
    by simp
  then have used: "op_id oper \<in> target_operation ` set (operation_targets db) \<longleftrightarrow> op_targets oper \<noteq> []"
    if "oper \<in> set opers" for oper
  proof -
    have "op_id oper \<in> target_operation ` set (operation_targets db) \<longleftrightarrow>
        filter (\<lambda>r. target_operation r = op_id oper) (concat (map targets_for opers)) \<noteq> []"
      using \<open>set (operation_targets db) = _\<close> by (force simp: filter_empty_conv)
    also have "\<dots> \<longleftrightarrow> targets_for oper \<noteq> []" by (simp only: filter_targets[OF d that])
    also have "\<dots> \<longleftrightarrow> op_targets oper \<noteq> []" by (metis length_0_conv numbered_simps(4))
    finally show ?thesis .
  qed
  have gone: "op_id oper \<in> set ?gone \<longleftrightarrow> op_targets oper = []" if "oper \<in> set opers" for oper
    using used[OF that] hide_ids_member[OF m that] full that by auto
  from ok have r: "removed = int (length ?gone)" and db': "db' = delete_operations (\<lambda>ident. ident \<in> set ?gone) db"
    by (auto simp: deleteEmptyHideOperations_def Let_def)
  have keep: "filter (\<lambda>oper. op_id oper \<notin> set ?gone) opers = filter (\<lambda>oper. op_targets oper \<noteq> []) opers"
    using gone by (intro filter_cong) simp_all
  have "length ?gone = size (filter_mset (\<lambda>ident. ident \<notin> target_operation ` set (operation_targets db))
      (mset (map op_id (filter is_hide opers))))"
    unfolding hide_ids_mset[OF m, symmetric] by (metis mset_filter size_mset)
  also have "\<dots> = length (filter (\<lambda>oper. op_targets oper = []) opers)"
  proof -
    have "filter (\<lambda>ident. ident \<notin> target_operation ` set (operation_targets db))
        (map op_id (filter is_hide opers)) = map op_id (filter (\<lambda>oper. op_targets oper = []) opers)"
      using used full by (auto simp: filter_map o_def intro!: arg_cong[of _ _ "map op_id"] filter_cong)
    then show ?thesis by (metis length_map mset_filter size_mset)
  qed
  finally have "int (length ?gone) = int (length opers) - int (length (filter (\<lambda>oper. op_targets oper \<noteq> []) opers))"
    using sum_length_filter_compl[of "\<lambda>oper. op_targets oper = []" opers] by simp
  moreover have "rows_match db' (filter (\<lambda>oper. op_targets oper \<noteq> []) opers)"
    using rows_match_delete[OF m, of "\<lambda>ident. ident \<in> set ?gone"] unfolding keep db' .
  ultimately show ?thesis by (simp add: r) (simp add: db' delete_operations_def)
qed

lemma hide_cancellation_targets_sorted:
  "hide_cancellation_targets previous targets \<longleftrightarrow> '''' \<notin> set targets \<and> sorted_wrt (<) targets
     \<and> (\<forall>p. previous = Some p \<longrightarrow> (\<forall>t\<in>set targets. p < t))"
proof (induction targets arbitrary: previous)
  case (Cons target rest)
  show ?case by (cases previous) (auto simp: Cons.IH not_le)
qed simp

lemma covered_targets:
  assumes m: "rows_match db opers" and targets: "targets = json_each raw"
    and ok: "countCoveredHideTargets driver raw db = Inr (int (length raw))"
  shows "set targets \<subseteq> hide_targets opers" and "distinct targets"
proof -
  have len: "length targets = length raw" by (simp add: targets json_each_def)
  let ?rows = "filter (\<lambda>r. target_operation r \<in> set (hide_ids db) \<and> target_entity r \<in> set targets)
    (operation_targets db)"
  from ok have "length (remdups (map target_entity ?rows)) = length targets"
    by (simp add: countCoveredHideTargets_def targets len[unfolded targets])
  then have covered: "card (target_entity ` set ?rows) = length targets"
    by (metis length_remdups_card_conv set_map)
  have sub: "target_entity ` set ?rows \<subseteq> set targets" by auto
  then have "length targets \<le> card (set targets)"
    unfolding covered[symmetric] by (rule card_mono[OF List.finite_set])
  then have size: "card (set targets) = length targets" using card_length[of targets] by linarith
  then show "distinct targets" by (rule card_distinct)
  from size covered sub have all: "set targets = target_entity ` set ?rows"
    by (metis List.finite_set card_subset_eq)
  have rows: "set (operation_targets db) = (\<Union>oper\<in>set opers. set (targets_for oper))"
    using m[unfolded rows_match_def, THEN conjunct2, THEN conjunct2, THEN conjunct2, THEN mset_eq_setD]
    by simp
  have "target_entity r \<in> hide_targets opers" if "r \<in> set ?rows" for r
  proof -
    from that rows obtain oper where o: "oper \<in> set opers" "r \<in> set (targets_for oper)" by auto
    with that have "is_hide oper" using hide_ids_member[OF m o(1)] numbered_operation[OF o(2)] by simp
    moreover have "target_entity r \<in> set (op_targets oper)"
      using o(2) by (metis image_eqI numbered_simps(3) set_map)
    ultimately show ?thesis using o(1) by (auto simp: hide_targets_def)
  qed
  then have "target_entity ` set ?rows \<subseteq> hide_targets opers" by blast
  with all show "set targets \<subseteq> hide_targets opers" by (rule ord_eq_le_trans)
qed

lemma cancelled_full:
  "\<forall>oper\<in>set opers. ValidateStored casefold oper = Inr () \<Longrightarrow>
     \<forall>oper\<in>set (map (cut_hide targets) opers). \<not> is_hide oper \<longrightarrow> op_targets oper \<noteq> []"
  using ValidateStored_targets by fastforce

lemma cancel_body_spec:
  assumes st: "journal_state casefold db opers cursor"
    and targets: "targets = json_each raw"
    and ok: "cancel_body driver expected raw db = Inr (v, db')"
  shows "expected = revision_column db \<and> set targets \<subseteq> hide_targets (take cursor opers) \<and> distinct targets
    \<and> sint (revision_column db) < 2 ^ 63 - 1 \<and> v = revision_column db + 1
    \<and> revision_column db' = v
    \<and> cursor_column db' = int (length (cancelled targets (take cursor opers)))
    \<and> rows_match db' (cancelled targets (take cursor opers))"
proof -
  have rev: "0 \<le> sint (revision_column db)" and cl: "cursor \<le> length opers"
    using st by (simp_all add: journal_state_def)
  from ok obtain db1 db2 db3 removed db4 where e: "expected = revision_column db"
      and t: "truncateRedoTail driver (int cursor) (int (length opers)) db = Inr db1"
      and c: "countCoveredHideTargets driver raw db1 = Inr (int (length raw))"
      and del: "deleteCoveredHideTargets driver raw db1 = Inr db2"
      and re: "resequenceHideTargets driver db2 = Inr db3"
      and em: "deleteEmptyHideOperations driver db3 = Inr (removed, db4)"
      and r: "incrementRevision (revision_column db) = Inr v"
      and u: "updateJournalState driver (revision_column db) v (int cursor - removed) db4 = Inr db'"
    by (auto simp: cancel_body_def bind_result_Inr loadJournalState_Inr[OF st] split: if_splits)
  have m1: "rows_match db1 (take cursor opers) \<and> revision_column db1 = revision_column db
      \<and> cursor_column db1 = cursor_column db"
    using truncateRedoTail_rows[OF t _ _ _ refl] st by (simp add: journal_state_def)
  note m3 = resequence_rows[OF conjunct1[OF m1] del targets re]
  have full: "\<forall>oper\<in>set (map (cut_hide targets) (take cursor opers)). \<not> is_hide oper \<longrightarrow> op_targets oper \<noteq> []"
    by (rule cancelled_full) (use journal_state_prefix(1)[OF st, of cursor] in \<open>auto simp: storable_def\<close>)
  note m4 = deleteEmpty_rows[OF conjunct1[OF m3] full em, folded cancelled_def]
  have "revision_column db4 = revision_column db" using m4 m3 m1 by simp
  with u have db': "db' = db4\<lparr>revision_column := v, cursor_column := int cursor - removed\<rparr>"
    using updateJournalState_Inr[of db4 driver v "int cursor - removed" db'] rev by simp
  have "int cursor - removed = int (length (cancelled targets (take cursor opers)))"
    using m4 cl by simp
  moreover have "sint (revision_column db) < 2 ^ 63 - 1" "v = revision_column db + 1"
    using r incrementRevision_Inr[OF rev] by auto
  moreover note covered_targets[OF conjunct1[OF m1] targets c]
  ultimately show ?thesis using e m4 db' by simp
qed

lemma storable_cut:
  assumes "storable casefold oper" and "op_targets (cut_hide targets oper) \<noteq> []"
  shows "storable casefold (cut_hide targets oper)"
  using assms ValidateStored_fewer_targets[of casefold oper "\<lambda>t. t \<notin> set targets"]
  by (auto simp: storable_def cut_hide_def split: if_splits)

lemma cancelled_count: "target_count (cancelled targets opers) \<le> target_count opers"
    and cancelled_length: "length (cancelled targets opers) \<le> length opers"
proof -
  have "int (length (op_targets (cut_hide targets oper))) \<le> int (length (op_targets oper))" for oper
    by (simp add: cut_hide_def)
  then show "target_count (cancelled targets opers) \<le> target_count opers"
    by (induction opers) (auto simp: cancelled_def intro: add_mono)
  show "length (cancelled targets opers) \<le> length opers"
    by (simp add: cancelled_def order_trans[OF length_filter_le])
qed

lemma cancel_state:
  assumes st: "journal_state casefold db opers cursor"
    and targets: "targets = json_each raw"
    and ok: "cancel_body driver expected raw db = Inr (v, db')"
  shows "journal_state casefold db' (cancelled targets (take cursor opers))
    (length (cancelled targets (take cursor opers)))"
proof -
  note spec = cancel_body_spec[OF st targets ok]
  have r0: "0 \<le> sint (revision_column db)" using st by (simp add: journal_state_def)
  have inc: "sint (revision_column db') = sint (revision_column db) + 1"
    using spec sint_increment[OF r0] by simp
  note pre = journal_state_prefix[OF st, of cursor]
  have "map op_sequence (cancelled targets xs) =
      map op_sequence (filter (\<lambda>oper. op_targets (cut_hide targets oper) \<noteq> []) xs)" for xs
    by (simp add: cancelled_def filter_map o_def)
  then have "sorted_wrt (<) (map op_sequence (cancelled targets (take cursor opers)))"
    using pre(2) sorted_subseq[OF subseq_map[OF subseq_filter_left]] by metis
  moreover have "\<forall>oper\<in>set (cancelled targets (take cursor opers)). storable casefold oper
      \<and> op_sequence oper \<le> sint (revision_column db')"
    using pre(1) inc by (fastforce simp: cancelled_def intro: storable_cut)
  moreover have "int (length (cancelled targets (take cursor opers))) \<le> maxJournalOperations"
    using cancelled_length[of targets "take cursor opers"] st by (simp add: journal_state_def)
  moreover have "target_count (cancelled targets (take cursor opers)) \<le> maxJournalTargets"
    using cancelled_count[of targets "take cursor opers"] target_count_take[of cursor opers] st
    by (simp add: journal_state_def)
  ultimately show ?thesis using spec inc r0 by (simp add: journal_state_def)
qed

end
