(* ===== verification/Journal_Steps.thy ===== *)
theory Journal_Steps
  imports Journal_Store
begin

text \<open>
  The journal of the store as a state machine: what loading it gives, what each handler does to the
  operations and the cursor, the invariant of every reachable state, and that undo and redo can
  always reach every position of the cursor.
\<close>

subsection \<open>Loading\<close>

lemma find_payload:
  assumes m: "rows_match db opers" and o: "oper \<in> set opers"
  shows "List.find (\<lambda>p. payload_operation p = op_id oper) (operation_payloads db) = Some (payload_for oper)"
proof -
  have rows: "set (operation_payloads db) = payload_for ` set opers"
    using m[unfolded rows_match_def, THEN conjunct2, THEN conjunct2, THEN conjunct1, THEN mset_eq_setD]
    by simp
  have inj: "inj_on op_id (set opers)" using m by (simp add: rows_match_def distinct_map)
  have some: "\<exists>p. List.find (\<lambda>p. payload_operation p = op_id oper) (operation_payloads db) = Some p"
    using rows o by (cases "List.find (\<lambda>p. payload_operation p = op_id oper) (operation_payloads db)")
      (auto simp: find_None_iff)
  then obtain p where p: "List.find (\<lambda>p. payload_operation p = op_id oper) (operation_payloads db) = Some p" ..
  then have "p \<in> set (operation_payloads db)" "payload_operation p = op_id oper"
    by (auto simp: find_Some_iff)
  with rows inj o have "p = payload_for oper" by (auto dest: inj_onD)
  with p show ?thesis by simp
qed

definition bare :: "operation \<Rightarrow> operation" where
  "bare oper = (without_payload oper)\<lparr>op_targets := []\<rparr>"

lemma load_row_for:
  assumes m: "rows_match db opers" and o: "oper \<in> set opers" and ok: "storable casefold oper"
  shows "load_row db (row_for oper) = Inr (bare oper, wire_json oper)"
proof -
  have "op_version oper = 1" using ok validate_one_payload(3) by (auto simp: storable_def)
  moreover have "0 \<le> sint (op_revision oper)" using ok by (simp add: storable_def word_max_int64)
  ultimately show ?thesis
    using find_payload[OF m o] ok
    by (cases oper) (simp add: load_row_def row_for_def payload_for_def bare_def without_payload_def
        storable_def)
qed

lemma load_rows:
  assumes "rows_match db opers" and "\<forall>oper\<in>set opers. storable casefold oper" and "set xs \<subseteq> set opers"
  shows "map_result (load_row db) (map row_for xs) = Inr (map (\<lambda>oper. (bare oper, wire_json oper)) xs)"
  using assms(3)
proof (induction xs)
  case (Cons x xs)
  then show ?case using load_row_for[OF assms(1), of x casefold] assms(2) by simp
qed simp

lemma load_group:
  assumes "positions ident = Some i" and "i < length stored"
  shows "fold_result (load_target positions) stored
      (map (\<lambda>(j, e). \<lparr>target_operation = ident, target_ordinal = int j, target_entity = e\<rparr>)
        (enumerate (length (op_targets (stored ! i))) es)) =
    Inr (stored[i := (stored ! i)\<lparr>op_targets := op_targets (stored ! i) @ es\<rparr>])"
  using assms(2)
proof (induction es arbitrary: stored)
  case Nil
  then show ?case by simp
next
  case (Cons e es)
  let ?s = "stored[i := (stored ! i)\<lparr>op_targets := op_targets (stored ! i) @ [e]\<rparr>]"
  have "i < length ?s" "op_targets (?s ! i) = op_targets (stored ! i) @ [e]" using Cons.prems by simp_all
  with Cons.IH[of ?s] Cons.prems show ?case by (simp add: load_target_def assms(1))
qed

lemma bare_targets: "(bare oper)\<lparr>op_targets := op_targets oper\<rparr> = without_payload oper"
  by (cases oper) (simp add: bare_def without_payload_def)

lemma load_targets:
  assumes pos: "\<And>i. i < length opers \<Longrightarrow> positions (op_id (opers ! i)) = Some i"
    and "n \<le> length opers"
  shows "fold_result (load_target positions) (map bare opers) (concat (map targets_for (take n opers)))
    = Inr (map without_payload (take n opers) @ map bare (drop n opers))"
  using assms(2)
proof (induction n)
  case 0
  then show ?case by simp
next
  case (Suc n)
  then have n: "n < length opers" by simp
  let ?s = "map without_payload (take n opers) @ map bare (drop n opers)"
  have at: "?s ! n = bare (opers ! n)" "n < length ?s" using n by (simp_all add: nth_append)
  have "targets_for (opers ! n) = map (\<lambda>(j, e). \<lparr>target_operation = op_id (opers ! n),
      target_ordinal = int j, target_entity = e\<rparr>)
      (enumerate (length (op_targets (?s ! n))) (op_targets (opers ! n)))"
    unfolding at by (simp add: numbered_def bare_def)
  then have group: "fold_result (load_target positions) ?s (targets_for (opers ! n)) =
      Inr (?s[n := without_payload (opers ! n)])"
    using load_group[of positions "op_id (opers ! n)" n ?s "op_targets (opers ! n)"] pos[OF n] at
      bare_targets[of "opers ! n"]
    by (simp add: bare_def)
  have "?s[n := without_payload (opers ! n)] =
      map without_payload (take (Suc n) opers) @ map bare (drop (Suc n) opers)"
    using n by (simp add: take_Suc_conv_app_nth list_update_append Cons_nth_drop_Suc[symmetric])
  with Suc.IH group n show ?case
    by (simp add: take_Suc_conv_app_nth fold_result_append)
qed

text \<open>
  What loading gives for stored operations: one whose payload is not valid UTF-8 is no longer what
  the encoder would write for it, and the whole journal is reported as corrupt.
\<close>

definition load_result :: "operation list \<Rightarrow> store_error + operation list" where
  "load_result opers = (if list_all payload_utf8 opers then Inr opers else Inl (StoreError CodeStoreCorrupt))"

lemma load_result_Inr: "load_result opers = Inr opers' \<longleftrightarrow> list_all payload_utf8 opers \<and> opers' = opers"
  by (auto simp: load_result_def)

lemma load_decode_for:
  assumes "storable casefold oper"
  shows "load_decode casefold (without_payload oper, wire_json oper)
    = (if payload_utf8 oper then Inr oper else Inl (StoreError CodeStoreCorrupt))"
proof -
  have valid: "ValidateStored casefold oper = Inr ()" using assms by (simp add: storable_def)
  from payload_wire[OF valid] obtain w where "payloadToWire oper = Inr w" by blast
  with decode_encoded_exact[OF valid this] show ?thesis by (simp add: load_decode_def wire_json_def)
qed

lemma load_decodes:
  "\<forall>oper\<in>set opers. storable casefold oper \<Longrightarrow>
     map_result (load_decode casefold) (zip (map without_payload opers) (map wire_json opers)) = load_result opers"
proof (induction opers)
  case (Cons oper opers)
  then show ?case by (simp add: load_decode_for load_result_def)
qed (simp add: load_result_def)

lemma loadJournal_state:
  assumes st: "journal_state casefold db opers cursor"
  shows "loadJournal casefold calm db = load_result opers"
proof -
  have m: "rows_match db opers" and ok: "\<forall>oper\<in>set opers. storable casefold oper"
    and sorted: "sorted_wrt (<) (map op_sequence opers)"
    using st by (auto simp: journal_state_def)
  let ?stored = "map (\<lambda>oper. (bare oper, wire_json oper)) opers"
  let ?pos = "map_of (rev (zip (map (op_id \<circ> fst) ?stored) [0 ..< length ?stored]))"
  have d: "distinct (map op_id opers)" using m by (simp add: rows_match_def)
  have ids: "map (op_id \<circ> fst) ?stored = map op_id opers"
    by (simp add: bare_def without_payload_def)
  have "?pos (op_id (opers ! i)) = Some i" if "i < length opers" for i
  proof -
    have "map_of (rev (zip (map op_id opers) [0 ..< length opers])) (op_id (opers ! i)) = Some i"
      using that d
      by (intro map_of_is_SomeI) (auto simp: set_zip rev_map[symmetric] intro!: exI[of _ i])
    then show ?thesis unfolding ids by simp
  qed
  from load_targets[of opers ?pos "length opers", OF this]
  have targets: "fold_result (load_target ?pos) (map bare opers) (concat (map targets_for opers)) =
      Inr (map without_payload opers)" by simp
  have rows: "map (\<lambda>oper. targets_of db (op_id oper)) opers = map targets_for opers"
    using rows_match_targets[OF m] by simp
  show ?thesis
    using load_decodes[OF ok] load_rows[OF m ok order_refl] targets
    by (simp add: loadJournal_def load_failed_def rows rows_match_sorted[OF m sorted] o_def)
qed

subsection \<open>The handlers, whole\<close>

text \<open>
  What each handler asks for and does, over the operations, the cursor and the revision that the
  tables stand for.
\<close>

datatype journal_request =
    AppendRequest operation
  | MoveRequest int
  | CancelRequest "entity_id list"

definition handle ::
    "(string \<Rightarrow> string) \<Rightarrow> driver \<Rightarrow> journal_tables \<Rightarrow> uint64 \<Rightarrow> journal_request \<Rightarrow>
     journal_tables \<Rightarrow> (store_error + uint64) \<times> journal_tables connection" where
  "handle casefold driver torn expected request db =
     (case request of
        AppendRequest oper \<Rightarrow> Append casefold driver torn expected oper db
      | MoveRequest direction \<Rightarrow> MoveCursor driver torn expected direction db
      | CancelRequest targets \<Rightarrow> CancelHide driver torn expected targets db)"

fun accepted :: "(string \<Rightarrow> string) \<Rightarrow> operation list \<Rightarrow> nat \<Rightarrow> uint64 \<Rightarrow> journal_request \<Rightarrow> bool" where
  "accepted casefold opers cursor revision (AppendRequest oper) \<longleftrightarrow>
     ValidateDraft casefold oper = Inr () \<and> op_revision oper = revision
     \<and> 0 \<le> unix_milli (op_created_at oper)
     \<and> op_created_at oper = from_unix_milli (unix_milli (op_created_at oper))
     \<and> op_id oper \<notin> op_id ` set (take cursor opers) \<and> int cursor < maxJournalOperations
     \<and> target_count (take cursor opers) + int (length (op_targets oper)) \<le> maxJournalTargets"
| "accepted casefold opers cursor revision (MoveRequest direction) \<longleftrightarrow>
     (direction = - 1 \<and> 0 < cursor) \<or> (direction = 1 \<and> cursor < length opers)"
| "accepted casefold opers cursor revision (CancelRequest targets) \<longleftrightarrow>
     targets \<noteq> [] \<and> '''' \<notin> set targets \<and> sorted_wrt (<) targets
     \<and> distinct (map to_valid_utf8 targets)
     \<and> set (map to_valid_utf8 targets) \<subseteq> hide_targets (take cursor opers)"

fun new_operations :: "operation list \<Rightarrow> nat \<Rightarrow> journal_request \<Rightarrow> operation list" where
  "new_operations opers cursor (AppendRequest oper) = appended opers cursor oper"
| "new_operations opers cursor (MoveRequest direction) = opers"
| "new_operations opers cursor (CancelRequest targets) =
     cancelled (map to_valid_utf8 targets) (take cursor opers)"

fun new_cursor :: "operation list \<Rightarrow> nat \<Rightarrow> journal_request \<Rightarrow> nat" where
  "new_cursor opers cursor (AppendRequest oper) = cursor + 1"
| "new_cursor opers cursor (MoveRequest direction) = nat (int cursor + direction)"
| "new_cursor opers cursor (CancelRequest targets) =
     length (cancelled (map to_valid_utf8 targets) (take cursor opers))"

lemma json_each_repaired: "json_each targets = map to_valid_utf8 targets"
  by (simp add: json_each_def unjson_json_string)

definition handler_body ::
    "(string \<Rightarrow> string) \<Rightarrow> driver \<Rightarrow> uint64 \<Rightarrow> journal_request \<Rightarrow> journal_tables \<Rightarrow>
     store_error + uint64 \<times> journal_tables" where
  "handler_body casefold driver expected request =
     (case request of
        AppendRequest oper \<Rightarrow> append_body driver expected oper (wire_json oper)
      | MoveRequest direction \<Rightarrow> move_body driver expected direction
      | CancelRequest targets \<Rightarrow> cancel_body driver expected targets)"

text \<open>What is checked before the transaction begins.\<close>

fun well_formed :: "(string \<Rightarrow> string) \<Rightarrow> uint64 \<Rightarrow> journal_request \<Rightarrow> bool" where
  "well_formed casefold expected (AppendRequest oper) \<longleftrightarrow>
     int (length (op_targets oper)) \<le> maxJournalTargets \<and> ValidateDraft casefold oper = Inr ()
     \<and> op_revision oper = expected
     \<and> op_created_at oper = from_unix_milli (unix_milli (op_created_at oper))"
| "well_formed casefold expected (MoveRequest direction) \<longleftrightarrow> direction = - 1 \<or> direction = 1"
| "well_formed casefold expected (CancelRequest targets) \<longleftrightarrow> validateHideCancellationTargets targets"

lemma draft_encodes:
  assumes "ValidateDraft casefold oper = Inr ()"
  shows "encodeOperationPayload casefold oper = Inr (wire_json oper)"
proof -
  have s: "ValidateStored casefold (oper\<lparr>op_sequence := 1\<rparr>) = Inr ()" by (rule draft_stored[OF assms]) simp
  from payload_wire[OF s] obtain w where "payloadToWire (oper\<lparr>op_sequence := 1\<rparr>) = Inr w" by blast
  then have "payloadToWire oper = Inr w" by (simp add: payloadToWire_def Let_def cong: operation_type.case_cong)
  moreover have "op_sequence oper = 0" using assms by (simp add: ValidateDraft_def split: if_splits)
  ultimately show ?thesis
    using assms by (simp add: encodeOperationPayload_def validateOperationForCodec_def wire_json_def)
qed

lemma handle_refused:
  assumes "\<not> well_formed casefold expected request"
  shows "\<exists>e. handle casefold driver torn expected request db = (Inl e, idle db)"
  using assms
  by (cases request; cases "ValidateDraft casefold (case request of AppendRequest oper \<Rightarrow> oper)")
    (auto simp: handle_def Append_def MoveCursor_def CancelHide_def not_le draft_encodes
      split: sum.splits)

lemma handle_immediate:
  assumes "well_formed casefold expected request"
  shows "handle casefold driver torn expected request db =
    immediate driver torn (handler_body casefold driver expected request) db"
proof -
  have "validateJournalCapacity 0 0 n = Inr ()" if "0 \<le> n" "n \<le> maxJournalTargets" for n
    using that by (simp add: validateJournalCapacity_def maxJournalOperations_def)
  with assms show ?thesis
    by (cases request) (auto simp: handle_def handler_body_def Append_def MoveCursor_def CancelHide_def
        draft_encodes)
qed

lemma handler_body_state:
  assumes st: "journal_state casefold db opers cursor" and wf: "well_formed casefold expected request"
    and ok: "handler_body casefold driver expected request db = Inr (v, db')"
  shows "journal_state casefold db' (new_operations opers cursor request) (new_cursor opers cursor request)
    \<and> revision_column db' = v \<and> v = revision_column db + 1 \<and> sint v = sint (revision_column db) + 1
    \<and> expected = revision_column db \<and> accepted casefold opers cursor (revision_column db) request"
proof -
  have r0: "0 \<le> sint (revision_column db)" using st by (simp add: journal_state_def)
  show ?thesis
  proof (cases request)
    case (AppendRequest oper)
    with ok have body: "append_body driver expected oper (wire_json oper) db = Inr (v, db')"
      by (simp add: handler_body_def)
    note spec = append_body_spec[OF st body]
    have "journal_state casefold db' (appended opers cursor oper) (cursor + 1)"
      by (rule append_state[OF st _ _ _ body]) (use wf AppendRequest in simp_all)
    with spec sint_increment[OF r0] wf AppendRequest show ?thesis by simp
  next
    case (MoveRequest direction)
    with ok have body: "move_body driver expected direction db = Inr (v, db')"
      by (simp add: handler_body_def)
    note spec = body[unfolded move_body_spec[OF st]]
    with move_state[OF st body] wf MoveRequest show ?thesis by auto
  next
    case (CancelRequest targets)
    with ok have body: "cancel_body driver expected targets db = Inr (v, db')"
      by (simp add: handler_body_def)
    from wf CancelRequest have valid: "validateHideCancellationTargets targets" by simp
    note repaired = json_each_repaired[of targets, symmetric]
    note spec = cancel_body_spec[OF st repaired body]
    with cancel_state[OF st repaired body] sint_increment[OF r0] valid CancelRequest show ?thesis
      by (simp add: validateHideCancellationTargets_def hide_cancellation_targets_sorted)
  qed
qed

lemma covered_calm:
  assumes m: "rows_match db opers" and raw: "targets = json_each raw" and d: "distinct targets"
    and sub: "set targets \<subseteq> hide_targets opers"
  shows "countCoveredHideTargets calm raw db = Inr (int (length raw))"
proof -
  let ?rows = "filter (\<lambda>r. target_operation r \<in> set (hide_ids db) \<and> target_entity r \<in> set targets)
    (operation_targets db)"
  have rows: "set (operation_targets db) = (\<Union>oper\<in>set opers. set (targets_for oper))"
    using m[unfolded rows_match_def, THEN conjunct2, THEN conjunct2, THEN conjunct2, THEN mset_eq_setD]
    by simp
  have "set targets \<subseteq> target_entity ` set ?rows"
  proof
    fix t
    assume t: "t \<in> set targets"
    with sub obtain oper where o: "oper \<in> set opers" "is_hide oper" "t \<in> set (op_targets oper)"
      by (auto simp: hide_targets_def)
    from o(3) have "t \<in> target_entity ` set (targets_for oper)" by (metis numbered_simps(3) set_map)
    then obtain r where r: "r \<in> set (targets_for oper)" "target_entity r = t" by blast
    have "r \<in> set ?rows"
      using r o t rows hide_ids_member[OF m o(1)] numbered_operation[OF r(1)] by auto
    with r(2) show "t \<in> target_entity ` set ?rows" by blast
  qed
  then have "target_entity ` set ?rows = set targets" by auto
  then have "length (remdups (map target_entity ?rows)) = length targets"
    using d by (simp add: length_remdups_card_conv distinct_card)
  moreover have "length targets = length raw" by (simp add: raw json_each_def)
  ultimately show ?thesis by (simp add: countCoveredHideTargets_def raw)
qed

lemma cancel_calm:
  assumes st: "journal_state casefold db opers cursor"
    and raw: "targets = json_each raw" and e: "expected = revision_column db"
    and d: "distinct targets" and sub: "set targets \<subseteq> hide_targets (take cursor opers)"
    and room: "sint (revision_column db) < 2 ^ 63 - 1"
  shows "\<exists>v db'. cancel_body calm expected raw db = Inr (v, db')"
proof -
  have r0: "0 \<le> sint (revision_column db)" and cl: "cursor \<le> length opers"
    using st by (simp_all add: journal_state_def)
  obtain db1 where t: "truncateRedoTail calm (int cursor) (int (length opers)) db = Inr db1"
    by (cases "int cursor \<ge> int (length opers)") (auto simp: truncateRedoTail_def Let_def)
  have m1: "rows_match db1 (take cursor opers) \<and> revision_column db1 = revision_column db
      \<and> cursor_column db1 = cursor_column db"
    using truncateRedoTail_rows[OF t _ _ _ refl] st by (simp add: journal_state_def)
  obtain db2 where del: "deleteCoveredHideTargets calm raw db1 = Inr db2"
    by (simp add: deleteCoveredHideTargets_def)
  obtain db3 where re: "resequenceHideTargets calm db2 = Inr db3"
    by (simp add: resequenceHideTargets_def)
  obtain removed db4 where em: "deleteEmptyHideOperations calm db3 = Inr (removed, db4)"
    by (simp add: deleteEmptyHideOperations_def Let_def)
  note m3 = resequence_rows[OF conjunct1[OF m1] del raw re]
  have full: "\<forall>oper\<in>set (map (cut_hide targets) (take cursor opers)). \<not> is_hide oper \<longrightarrow> op_targets oper \<noteq> []"
    by (rule cancelled_full) (use journal_state_prefix(1)[OF st, of cursor] in \<open>auto simp: storable_def\<close>)
  note m4 = deleteEmpty_rows[OF conjunct1[OF m3] full em]
  have "removed \<le> int cursor" using m4 cl by simp
  moreover have "revision_column db4 = revision_column db" using m4 m3 m1 by simp
  ultimately have "\<exists>db5. updateJournalState calm (revision_column db) (revision_column db + 1)
      (int cursor - removed) db4 = Inr db5"
    using updateJournalState_Inr[of db4 calm "revision_column db + 1" "int cursor - removed"] r0
      room sint_increment[OF r0] by simp
  moreover have "incrementRevision (revision_column db) = Inr (revision_column db + 1)"
    using room incrementRevision_Inr[OF r0] by simp
  moreover have "loadJournalState calm db = Inr (revision_column db, int cursor, int (length opers))"
    using loadJournalState_Inr[OF st] by simp
  ultimately show ?thesis
    using t del re em e \<open>removed \<le> int cursor\<close> covered_calm[OF conjunct1[OF m1] raw d sub]
    by (auto simp: cancel_body_def)
qed

lemma handler_body_calm:
  assumes st: "journal_state casefold db opers cursor" and wf: "well_formed casefold expected request"
    and e: "expected = revision_column db"
    and acc: "accepted casefold opers cursor (revision_column db) request"
    and room: "sint (revision_column db) < 2 ^ 63 - 1"
  shows "\<exists>v db'. handler_body casefold calm expected request db = Inr (v, db')"
proof (cases request)
  case (AppendRequest oper)
  then show ?thesis
    unfolding handler_body_def journal_request.case
    by (simp only: journal_request.case) (rule append_calm[OF st]; use acc e room AppendRequest in simp)
next
  case (MoveRequest direction)
  have "int cursor \<le> int (length opers)" "0 \<le> sint (revision_column db)"
    using st by (simp_all add: journal_state_def)
  with MoveRequest acc e room show ?thesis
    by (auto simp: handler_body_def move_body_spec[OF st])
next
  case (CancelRequest targets)
  with cancel_calm[OF st json_each_repaired[of targets, symmetric] e _ _ room] acc
  show ?thesis by (simp add: handler_body_def)
qed

lemma target_count_nonneg: "0 \<le> target_count opers"
  by (induction opers) simp_all

lemma accepted_well_formed:
  "accepted casefold opers cursor expected request \<Longrightarrow> well_formed casefold expected request"
  using target_count_nonneg[of "take cursor opers"]
  by (cases request)
    (auto simp: validateHideCancellationTargets_def hide_cancellation_targets_sorted)

lemma handle_state:
  assumes st: "journal_state casefold db opers cursor"
    and run: "handle casefold driver torn expected request db = (res, c)"
  obtains (refused) e where "res = Inl e" "durable c = db"
      "uncommitted c = None \<or> driver CallRollback \<noteq> None"
  | (applied) db' where "c = idle db'" "res = exec driver CallClose CodeStoreError (Inr (revision_column db + 1))"
      "journal_state casefold db' (new_operations opers cursor request) (new_cursor opers cursor request)"
      "revision_column db' = revision_column db + 1"
      "sint (revision_column db') = sint (revision_column db) + 1"
      "expected = revision_column db" "accepted casefold opers cursor (revision_column db) request"
proof (cases "well_formed casefold expected request")
  case False
  with handle_refused[OF False, of driver torn db] run that(1) show ?thesis by auto
next
  case True
  with run have "immediate_with (\<lambda>e. e) driver torn (handler_body casefold driver expected request) db = (res, c)"
    by (simp add: handle_immediate immediate_def)
  then show ?thesis
  proof (cases rule: immediate_with_cases)
    case failed
    then show ?thesis by (rule that(1))
  next
    case (committed v db')
    note spec = handler_body_state[OF st True committed(1)]
    then show ?thesis
      using committed(2,4) by (intro that(2)[of db']) (auto simp: exec_def split: option.splits)
  qed
qed

lemma handle_calm_fails:
  assumes "journal_state casefold db opers cursor"
    and "\<not> (expected = revision_column db \<and> accepted casefold opers cursor (revision_column db) request
      \<and> sint (revision_column db) < 2 ^ 63 - 1)"
  shows "\<exists>e. handle casefold calm torn expected request db = (Inl e, idle db)"
proof -
  obtain res c where run: "handle casefold calm torn expected request db = (res, c)" by fastforce
  show ?thesis
    using assms(1) run
  proof (cases rule: handle_state)
    case refused
    with run show ?thesis by (cases c) simp
  next
    case (applied db')
    then have "sint (revision_column db) < 2 ^ 63 - 1" using sint_upper[of "revision_column db'"] by simp
    with applied assms(2) show ?thesis by simp
  qed
qed

lemma handle_calm_succeeds:
  assumes st: "journal_state casefold db opers cursor"
    and acc: "accepted casefold opers cursor (revision_column db) request"
    and room: "sint (revision_column db) < 2 ^ 63 - 1"
  obtains db' where
    "handle casefold calm torn (revision_column db) request db = (Inr (revision_column db + 1), idle db')"
    "journal_state casefold db' (new_operations opers cursor request) (new_cursor opers cursor request)"
    "revision_column db' = revision_column db + 1"
    "sint (revision_column db') = sint (revision_column db) + 1"
proof -
  note wf = accepted_well_formed[OF acc]
  obtain v db' where body: "handler_body casefold calm (revision_column db) request db = Inr (v, db')"
    using handler_body_calm[OF st wf refl acc room] by blast
  note spec = handler_body_state[OF st wf body]
  have "handle casefold calm torn (revision_column db) request db = (Inr v, idle db')"
    using body
    by (simp add: handle_immediate[OF wf] immediate_def immediate_with_def beginImmediate_def finish_committed)
  with spec show ?thesis by (intro that[of db']) auto
qed

subsection \<open>Reachable states\<close>

inductive journal_reach :: "(string \<Rightarrow> string) \<Rightarrow> journal_tables \<Rightarrow> bool" for casefold where
  created: "0 \<le> sint revision \<Longrightarrow> journal_reach casefold \<lparr>revision_column = revision, cursor_column = 0,
     journal_operations = [], operation_payloads = [], operation_targets = []\<rparr>"
| handled: "journal_reach casefold db \<Longrightarrow> handle casefold driver torn expected request db = (res, c) \<Longrightarrow>
     journal_reach casefold (durable c)"

inductive_cases journal_reachE: "journal_reach casefold db"

lemma reach_state: "journal_reach casefold db \<Longrightarrow> \<exists>opers cursor. journal_state casefold db opers cursor"
proof (induction rule: journal_reach.induct)
  case (created revision)
  then have "journal_state casefold \<lparr>revision_column = revision, cursor_column = 0,
     journal_operations = [], operation_payloads = [], operation_targets = []\<rparr> [] 0"
    by (simp add: journal_state_def rows_match_def maxJournalOperations_def maxJournalTargets_def)
  then show ?case by blast
next
  case (handled db driver torn expected request res c)
  then obtain opers cursor where st: "journal_state casefold db opers cursor" by blast
  from st handled(2) show ?case
    by (cases rule: handle_state) (use st in auto)
qed

text \<open>The same, where every appended operation has a payload of valid UTF-8.\<close>

fun request_utf8 :: "journal_request \<Rightarrow> bool" where
  "request_utf8 (AppendRequest oper) = payload_utf8 oper"
| "request_utf8 (MoveRequest _) = True"
| "request_utf8 (CancelRequest _) = True"

inductive utf8_reach :: "(string \<Rightarrow> string) \<Rightarrow> journal_tables \<Rightarrow> bool" for casefold where
  utf8_created: "0 \<le> sint revision \<Longrightarrow> utf8_reach casefold \<lparr>revision_column = revision, cursor_column = 0,
     journal_operations = [], operation_payloads = [], operation_targets = []\<rparr>"
| utf8_handled: "utf8_reach casefold db \<Longrightarrow> request_utf8 request \<Longrightarrow>
     handle casefold driver torn expected request db = (res, c) \<Longrightarrow> utf8_reach casefold (durable c)"

lemma payload_utf8_sequence [simp]: "payload_utf8 (oper\<lparr>op_sequence := s\<rparr>) = payload_utf8 oper"
  by (simp add: payload_utf8_def payloadToWire_def Let_def cong: operation_type.case_cong)

lemma payload_utf8_cut [simp]: "payload_utf8 (cut_hide targets oper) = payload_utf8 oper"
  by (simp add: cut_hide_def payload_utf8_def payloadToWire_def Let_def cong: operation_type.case_cong)

lemma new_operations_utf8:
  assumes "list_all payload_utf8 opers" and "request_utf8 request"
  shows "list_all payload_utf8 (new_operations opers cursor request)"
  using assms
  by (cases request) (auto simp: list_all_iff appended_def cancelled_def dest: in_set_takeD)

lemma utf8_state:
  "utf8_reach casefold db \<Longrightarrow>
     \<exists>opers cursor. journal_state casefold db opers cursor \<and> list_all payload_utf8 opers"
proof (induction rule: utf8_reach.induct)
  case (utf8_created revision)
  with reach_state[OF journal_reach.created[OF utf8_created]] show ?case
    by (fastforce simp: journal_state_def rows_match_def)
next
  case (utf8_handled db request driver torn expected res c)
  then obtain opers cursor where st: "journal_state casefold db opers cursor" "list_all payload_utf8 opers"
    by blast
  from st(1) utf8_handled(3) show ?case
    by (cases rule: handle_state) (use st new_operations_utf8[OF st(2) utf8_handled(2)] in auto)
qed

text \<open>Steps of the cursor that are not refused.\<close>

inductive undo_redo :: "(string \<Rightarrow> string) \<Rightarrow> journal_tables \<Rightarrow> journal_tables \<Rightarrow> bool" for casefold where
  stay: "undo_redo casefold db db"
| move: "undo_redo casefold db db' \<Longrightarrow>
     handle casefold calm torn (revision_column db') (MoveRequest direction) db' = (Inr v, c) \<Longrightarrow>
     undo_redo casefold db (durable c)"

lemma undo_redo_reaches:
  assumes "journal_state casefold db opers cursor" and "k \<le> length opers"
    and "sint (revision_column db) + \<bar>int k - int cursor\<bar> < 2 ^ 63"
  shows "\<exists>db'. undo_redo casefold db db' \<and> journal_state casefold db' opers k
    \<and> sint (revision_column db') = sint (revision_column db) + \<bar>int k - int cursor\<bar>"
  using assms(2,3)
proof (induction "nat \<bar>int k - int cursor\<bar>" arbitrary: k)
  case 0
  then have "k = cursor" by simp
  with assms(1) show ?case using undo_redo.stay[of casefold db] by auto
next
  case (Suc n)
  define d :: int where "d = (if k > cursor then 1 else - 1)"
  define j where "j = nat (int k - d)"
  have cl: "cursor \<le> length opers" using assms(1) by (simp add: journal_state_def)
  have ne: "k \<noteq> cursor" using Suc.hyps(2) by auto
  have j: "int j = int k - d" using ne by (auto simp: j_def d_def)
  have dist: "\<bar>int k - int cursor\<bar> = \<bar>int j - int cursor\<bar> + 1" using ne unfolding j by (auto simp: d_def)
  have jl: "j \<le> length opers" using j ne cl Suc.prems(1) by (auto simp: d_def split: if_splits)
  have near: "n = nat \<bar>int j - int cursor\<bar>" using Suc.hyps(2) dist by simp
  obtain db1 where db1: "undo_redo casefold db db1" "journal_state casefold db1 opers j"
      "sint (revision_column db1) = sint (revision_column db) + \<bar>int j - int cursor\<bar>"
    using Suc.hyps(1)[OF near jl] Suc.prems(2) dist by auto
  have room: "sint (revision_column db1) < 2 ^ 63 - 1" using db1(3) Suc.prems(2) dist by linarith
  have acc: "accepted casefold opers j (revision_column db1) (MoveRequest d)"
    using j ne cl Suc.prems(1) by (auto simp: d_def split: if_splits)
  obtain db2 where db2: "handle casefold calm db1 (revision_column db1) (MoveRequest d) db1 =
        (Inr (revision_column db1 + 1), idle db2)"
      "journal_state casefold db2 (new_operations opers j (MoveRequest d)) (new_cursor opers j (MoveRequest d))"
      "sint (revision_column db2) = sint (revision_column db1) + 1"
    using handle_calm_succeeds[OF db1(2) acc room] by blast
  have "nat (int j + d) = k" using j by simp
  with db2(2) have "journal_state casefold db2 opers k" by simp
  moreover have "sint (revision_column db2) = sint (revision_column db) + \<bar>int k - int cursor\<bar>"
    using db2(3) db1(3) dist by linarith
  ultimately show ?case using undo_redo.move[OF db1(1) db2(1)] by auto
qed

subsection \<open>Properties\<close>

text \<open>
  C23. The tables implement the journal: on a driver that refuses nothing, a request on a journal
  with operations \<open>opers\<close> and cursor \<open>cursor\<close> succeeds exactly when it is acceptable on the current
  revision and the revision is not exhausted.  Then the revision has grown by one, the redo tail is
  cut by an append and by a cancellation, and loading the committed tables gives the new operations,
  unless one of them has a payload that is not valid UTF-8: such an operation is accepted, and the
  journal that holds it loads as corrupt.  A refused request leaves the tables as they are, and no
  transaction is left open.
\<close>

theorem journal_requests_refine:
  assumes "journal_state casefold db opers cursor"
    and "handle casefold calm torn expected request db = (res, c)"
  shows "uncommitted c = None \<and>
   (if expected = revision_column db \<and> accepted casefold opers cursor (revision_column db) request
      \<and> sint (revision_column db) < 2 ^ 63 - 1
    then res = Inr (revision_column db + 1)
      \<and> sint (revision_column (durable c)) = sint (revision_column db) + 1
      \<and> loadJournal casefold calm (durable c) =
          (if list_all payload_utf8 (new_operations opers cursor request)
           then Inr (new_operations opers cursor request) else Inl (StoreError CodeStoreCorrupt))
      \<and> cursor_column (durable c) = int (new_cursor opers cursor request)
    else (\<exists>e. res = Inl e) \<and> durable c = db)"
proof (cases "expected = revision_column db \<and> accepted casefold opers cursor (revision_column db) request
      \<and> sint (revision_column db) < 2 ^ 63 - 1")
  case True
  then obtain db1 where ok:
      "handle casefold calm torn (revision_column db) request db = (Inr (revision_column db + 1), idle db1)"
      "journal_state casefold db1 (new_operations opers cursor request) (new_cursor opers cursor request)"
      "sint (revision_column db1) = sint (revision_column db) + 1"
    using handle_calm_succeeds[OF assms(1)] by blast
  with True assms(2) have "res = Inr (revision_column db + 1)" "c = idle db1" by auto
  moreover have "cursor_column db1 = int (new_cursor opers cursor request)"
    using ok(2) by (simp add: journal_state_def)
  ultimately show ?thesis using True ok loadJournal_state[OF ok(2)] by (simp add: load_result_def)
next
  case False
  with handle_calm_fails[OF assms(1) False, of torn] assms(2) show ?thesis by auto
qed

text \<open>
  C24. A request is atomic whatever the driver refuses, and whatever the statements before a failure
  have done to the open transaction: either it reports an error, the committed tables have not
  changed and no transaction is left open unless the rollback itself was refused, or the whole
  request is committed, and an error is then reported only when closing the connection after the
  commit failed.
\<close>

theorem journal_requests_atomic:
  assumes "journal_state casefold db opers cursor"
    and "handle casefold driver torn expected request db = (res, c)"
  shows "(\<exists>e. res = Inl e) \<and> durable c = db \<and> (uncommitted c = None \<or> driver CallRollback \<noteq> None)
    \<or> rows_match (durable c) (new_operations opers cursor request)
      \<and> loadJournal casefold calm (durable c) =
          (if list_all payload_utf8 (new_operations opers cursor request)
           then Inr (new_operations opers cursor request) else Inl (StoreError CodeStoreCorrupt))
      \<and> cursor_column (durable c) = int (new_cursor opers cursor request)
      \<and> revision_column (durable c) = revision_column db + 1 \<and> uncommitted c = None
      \<and> (case driver CallClose of None \<Rightarrow> res = Inr (revision_column db + 1)
         | Some err \<Rightarrow> res = Inl (mapDriverError err CodeStoreError))"
  using assms
proof (cases rule: handle_state)
  case refused
  then show ?thesis by simp
next
  case (applied db')
  then show ?thesis
    using loadJournal_state[OF applied(3)]
    by (auto simp: journal_state_def exec_def load_result_def split: option.split)
qed

text \<open>
  C25. Every reachable journal is sound: whatever requests were made, with whatever failures, its
  rows are those of operations that pass the snapshot's validation, with their sequences growing and
  bounded by the revision, the cursor lies within it, and it is within its capacity of 10,000
  operations and 1,000,000 targets.  It loads exactly when every payload is valid UTF-8, which is so
  when every operation that was appended had such a payload; otherwise it loads as corrupt.
\<close>

theorem reachable_journal_sound:
  assumes "journal_reach casefold db"
  shows "\<exists>opers. rows_match db opers
    \<and> loadJournal casefold calm db =
        (if list_all payload_utf8 opers then Inr opers else Inl (StoreError CodeStoreCorrupt))
    \<and> (utf8_reach casefold db \<longrightarrow> list_all payload_utf8 opers)
    \<and> validateJournal casefold 0 0 opers = Inr ()
    \<and> (\<forall>oper\<in>set opers. op_sequence oper \<le> sint (revision_column db))
    \<and> 0 \<le> cursor_column db \<and> cursor_column db \<le> int (length opers)
    \<and> int (length opers) \<le> 10000 \<and> target_count opers \<le> 1000000"
proof -
  obtain opers cursor where st: "journal_state casefold db opers cursor"
      and utf8: "utf8_reach casefold db \<longrightarrow> list_all payload_utf8 opers"
    using reach_state[OF assms] utf8_state[of casefold db] by blast
  then show ?thesis
    using loadJournal_state[OF st]
    by (auto simp: journal_state_def storable_def validateJournal_Inr maxJournalOperations_def
        maxJournalTargets_def load_result_def intro!: exI[of _ opers])
qed

text \<open>
  C26. Undo and redo can always reach every position: from every reachable journal, for every
  position up to the number of operations, single steps of the cursor that all succeed lead to that
  position with the operations unchanged, as long as the revisions they use up exist.
\<close>

theorem undo_redo_live:
  assumes "journal_reach casefold db" and "loadJournal casefold calm db = Inr opers"
    and "k \<le> length opers"
    and "sint (revision_column db) + \<bar>int k - cursor_column db\<bar> < 2 ^ 63"
  shows "\<exists>db'. undo_redo casefold db db' \<and> loadJournal casefold calm db' = Inr opers
    \<and> cursor_column db' = int k"
proof -
  from reach_state[OF assms(1)] obtain opers' cursor where st: "journal_state casefold db opers' cursor"
    by blast
  with loadJournal_state[OF st] assms(2) have "load_result opers' = Inr opers" by simp
  then have "opers' = opers" "load_result opers = Inr opers" by (auto simp: load_result_Inr)
  moreover have "cursor_column db = int cursor" using st by (simp add: journal_state_def)
  ultimately have "opers' = opers" "cursor_column db = int cursor" "load_result opers = Inr opers"
    by simp_all
  with undo_redo_reaches[OF st, of k] assms(3,4) obtain db' where
      "undo_redo casefold db db'" "journal_state casefold db' opers k" by auto
  then show ?thesis
    using loadJournal_state[of casefold db' opers k] \<open>load_result opers = Inr opers\<close>
    by (auto simp: journal_state_def)
qed

subsection \<open>Examples\<close>

definition empty_journal :: journal_tables where
  "empty_journal = \<lparr>revision_column = 1, cursor_column = 0, journal_operations = [],
     operation_payloads = [], operation_targets = []\<rparr>"

definition hide_draft :: operation where
  "hide_draft = (example_operation 0 OperationTransactionHide [''t1'', ''t2''])\<lparr>op_hide := Some (),
     op_created_at := from_unix_milli 0\<rparr>"

text \<open>The merge with an identity that is no UTF-8, as a draft.\<close>

definition invalid_draft :: operation where
  "invalid_draft = invalid_merge\<lparr>op_sequence := 0, op_created_at := from_unix_milli 0\<rparr>"

lemma empty_journal_state: "journal_state ascii_fold empty_journal [] 0"
  by (simp add: journal_state_def rows_match_def maxJournalOperations_def maxJournalTargets_def
      empty_journal_def)

lemma drafts_accepted:
  "accepted ascii_fold [] 0 1 (AppendRequest hide_draft)"
  "accepted ascii_fold [] 0 1 (AppendRequest invalid_draft)"
proof -
  have "is_ok (ValidateDraft ascii_fold hide_draft)" "is_ok (ValidateDraft ascii_fold invalid_draft)"
    by code_simp+
  then show "accepted ascii_fold [] 0 1 (AppendRequest hide_draft)"
      "accepted ascii_fold [] 0 1 (AppendRequest invalid_draft)"
    by (auto simp: is_ok_iff hide_draft_def invalid_draft_def invalid_merge_def example_operation_def
        unix_milli_def from_unix_milli_def maxJournalOperations_def maxJournalTargets_def)
qed

abbreviation stored_hide :: operation where
  "stored_hide \<equiv> hide_draft\<lparr>op_sequence := 1\<rparr>"

lemma draft_utf8: "payload_utf8 hide_draft" "\<not> payload_utf8 invalid_draft"
  by code_simp+

lemma append_hide:
  obtains db' where
    "handle ascii_fold calm empty_journal 1 (AppendRequest hide_draft) empty_journal = (Inr 2, idle db')"
    "journal_state ascii_fold db' [stored_hide] 1" "revision_column db' = 2"
proof -
  have one: "revision_column empty_journal = 1" by (simp add: empty_journal_def)
  obtain db' where "handle ascii_fold calm empty_journal (revision_column empty_journal)
        (AppendRequest hide_draft) empty_journal = (Inr (revision_column empty_journal + 1), idle db')"
      "journal_state ascii_fold db' (new_operations [] 0 (AppendRequest hide_draft))
        (new_cursor [] 0 (AppendRequest hide_draft))"
      "revision_column db' = revision_column empty_journal + 1"
    using handle_calm_succeeds[OF empty_journal_state, of "AppendRequest hide_draft" empty_journal]
      drafts_accepted one by auto
  then show ?thesis using that[of db'] one by (simp add: appended_def)
qed

lemma hide_loads: "journal_state ascii_fold db [stored_hide] 1 \<Longrightarrow> loadJournal ascii_fold calm db = Inr [stored_hide]"
  by (simp add: loadJournal_state load_result_def draft_utf8)

theorem journal_requests_refine_witness:
  "(\<exists>c. handle ascii_fold calm empty_journal 1 (AppendRequest hide_draft) empty_journal = (Inr 2, c)
    \<and> loadJournal ascii_fold calm (durable c) = Inr [stored_hide] \<and> cursor_column (durable c) = 1)
   \<and> (\<exists>c. handle ascii_fold calm empty_journal 1 (AppendRequest invalid_draft) empty_journal = (Inr 2, c)
    \<and> loadJournal ascii_fold calm (durable c) = Inl (StoreError CodeStoreCorrupt))"
proof -
  have one: "revision_column empty_journal = 1" by (simp add: empty_journal_def)
  obtain res c where run:
      "handle ascii_fold calm empty_journal 1 (AppendRequest hide_draft) empty_journal = (res, c)"
    by fastforce
  obtain res' c' where run':
      "handle ascii_fold calm empty_journal 1 (AppendRequest invalid_draft) empty_journal = (res', c')"
    by fastforce
  from journal_requests_refine[OF empty_journal_state run] journal_requests_refine[OF empty_journal_state run']
    drafts_accepted run run' one show ?thesis
    by (simp add: appended_def draft_utf8)
qed

theorem journal_requests_atomic_witness:
  "\<exists>c. handle ascii_fold calm empty_journal 1 (AppendRequest hide_draft) empty_journal = (Inr 2, c)
    \<and> loadJournal ascii_fold calm (durable c) = Inr [stored_hide] \<and> revision_column (durable c) = 2"
proof -
  obtain c where run:
      "handle ascii_fold calm empty_journal 1 (AppendRequest hide_draft) empty_journal = (Inr 2, c)"
    using append_hide by blast
  have "revision_column empty_journal = 1" by (simp add: empty_journal_def)
  with journal_requests_atomic[OF empty_journal_state run] run show ?thesis
    by (simp add: appended_def draft_utf8)
qed

lemma append_hide_reach:
  obtains db where "journal_reach ascii_fold db" "utf8_reach ascii_fold db"
    "journal_state ascii_fold db [stored_hide] 1" "revision_column db = 2"
proof -
  obtain db where db:
      "handle ascii_fold calm empty_journal 1 (AppendRequest hide_draft) empty_journal = (Inr 2, idle db)"
      "journal_state ascii_fold db [stored_hide] 1" "revision_column db = 2"
    by (rule append_hide)
  have "journal_reach ascii_fold empty_journal" "utf8_reach ascii_fold empty_journal"
    unfolding empty_journal_def by (simp_all add: journal_reach.created utf8_reach.utf8_created)
  from journal_reach.handled[OF this(1) db(1)] utf8_reach.utf8_handled[OF this(2) _ db(1)] db(2,3) that
  show ?thesis by (simp add: draft_utf8)
qed

theorem reachable_journal_sound_witness:
  "\<exists>db opers. journal_reach ascii_fold db \<and> utf8_reach ascii_fold db
    \<and> loadJournal ascii_fold calm db = Inr opers
    \<and> validateJournal ascii_fold 0 0 opers = Inr () \<and> opers = [stored_hide]"
proof -
  obtain db where db: "journal_reach ascii_fold db" "utf8_reach ascii_fold db"
      "journal_state ascii_fold db [stored_hide] 1"
    using append_hide_reach by blast
  from reachable_journal_sound[OF db(1)] obtain opers where opers: "loadJournal ascii_fold calm db =
      (if list_all payload_utf8 opers then Inr opers else Inl (StoreError CodeStoreCorrupt))"
      "utf8_reach ascii_fold db \<longrightarrow> list_all payload_utf8 opers"
      "validateJournal ascii_fold 0 0 opers = Inr ()"
    by blast
  with db(2) hide_loads[OF db(3)] have "opers = [stored_hide]" "loadJournal ascii_fold calm db = Inr opers"
    by auto
  with db(1,2) opers(3) show ?thesis by blast
qed

theorem undo_redo_live_witness:
  "\<exists>db db'. journal_reach ascii_fold db \<and> cursor_column db = 1 \<and> undo_redo ascii_fold db db'
    \<and> loadJournal ascii_fold calm db' = Inr [stored_hide] \<and> cursor_column db' = 0"
proof -
  obtain db where db: "journal_reach ascii_fold db" "journal_state ascii_fold db [stored_hide] 1"
      "revision_column db = 2"
    using append_hide_reach by blast
  have cursor: "cursor_column db = 1" using db(2) by (simp add: journal_state_def)
  have "\<exists>db'. undo_redo ascii_fold db db' \<and> loadJournal ascii_fold calm db' = Inr [stored_hide]
      \<and> cursor_column db' = int 0"
    by (rule undo_redo_live[OF db(1) hide_loads[OF db(2)]]) (simp_all add: db(3) cursor)
  with db(1) cursor show ?thesis by auto
qed

end
