(* ===== verification/Affected.thy ===== *)
theory Affected
  imports Replay
begin

text \<open>
  The transactions an operation touches (\<open>internal/replay/affected.go\<close>): the visit that decides which
  imported rows keep a local override.
\<close>

subsection \<open>The visit\<close>

text \<open>
  A visitor is a function on its own state that also says whether to go on; a missing first target
  or payload is a panic, written \<open>None\<close>.
\<close>

type_synonym 's visitor = "entity_id \<Rightarrow> 's \<Rightarrow> bool \<times> 's"

fun visitEntityIDs :: "entity_id list \<Rightarrow> 's visitor \<Rightarrow> 's \<Rightarrow> 's" where
  "visitEntityIDs [] visit s = s"
| "visitEntityIDs (i # is) visit s =
     (case visit i s of (True, s') \<Rightarrow> visitEntityIDs is visit s' | (False, s') \<Rightarrow> s')"

fun visitTransactions ::
    "transaction_record list \<Rightarrow> 's visitor \<Rightarrow> (transaction_record \<Rightarrow> bool option) \<Rightarrow> 's \<Rightarrow> 's option" where
  "visitTransactions [] visit matches s = Some s"
| "visitTransactions (t # ts) visit matches s =
     (case matches t of None \<Rightarrow> None
      | Some False \<Rightarrow> visitTransactions ts visit matches s
      | Some True \<Rightarrow> (case visit (record_id t) s of
          (True, s') \<Rightarrow> visitTransactions ts visit matches s' | (False, s') \<Rightarrow> Some s'))"

definition first_target :: "operation \<Rightarrow> entity_id option" where
  "first_target oper = (case op_targets oper of [] \<Rightarrow> None | t # _ \<Rightarrow> Some t)"

text \<open>The set of categories of the first target, a Go map.\<close>

fun categories_of :: "operation \<Rightarrow> category list \<Rightarrow> entity_id set option" where
  "categories_of oper [] = Some {}"
| "categories_of oper (c # cs) =
     (case first_target oper of None \<Rightarrow> None
      | Some g \<Rightarrow> map_option (\<lambda>ids. if category_group_id c = g then insert (category_id c) ids else ids)
          (categories_of oper cs))"

definition VisitAffectedByOperation :: "profile \<Rightarrow> operation \<Rightarrow> 's visitor \<Rightarrow> 's \<Rightarrow> 's option" where
  "VisitAffectedByOperation p oper visit s =
     (case op_type oper of
        OperationMerchantReassign \<Rightarrow> Some (visitEntityIDs (op_targets oper) visit s)
      | OperationCategoryAssign \<Rightarrow> Some (visitEntityIDs (op_targets oper) visit s)
      | OperationTransactionHide \<Rightarrow> Some (visitEntityIDs (op_targets oper) visit s)
      | OperationTransactionDelete \<Rightarrow> Some (visitEntityIDs (op_targets oper) visit s)
      | OperationCategoryCreate \<Rightarrow>
          (if length (op_targets oper) = 1
           then (case op_create oper of None \<Rightarrow> None
             | Some c \<Rightarrow> if op_targets oper ! 0 = create_entity c then Some s
                 else Some (visitEntityIDs (op_targets oper) visit s))
           else Some (visitEntityIDs (op_targets oper) visit s))
      | OperationMerchantLabel \<Rightarrow>
          visitTransactions (transactions p) visit (\<lambda>t. map_option ((=) (record_merchant t)) (first_target oper)) s
      | OperationMerchantMerge \<Rightarrow>
          visitTransactions (transactions p) visit (\<lambda>t. map_option ((=) (record_merchant t)) (first_target oper)) s
      | OperationCategoryLabel \<Rightarrow>
          visitTransactions (transactions p) visit (\<lambda>t. map_option ((=) (record_category t)) (first_target oper)) s
      | OperationCategoryMove \<Rightarrow>
          visitTransactions (transactions p) visit (\<lambda>t. map_option ((=) (record_category t)) (first_target oper)) s
      | OperationCategoryMerge \<Rightarrow>
          visitTransactions (transactions p) visit (\<lambda>t. map_option ((=) (record_category t)) (first_target oper)) s
      | OperationCategoryDelete \<Rightarrow>
          visitTransactions (transactions p) visit (\<lambda>t. map_option ((=) (record_category t)) (first_target oper)) s
      | OperationGroupLabel \<Rightarrow> Option.bind (categories_of oper (categories p)) (\<lambda>ids.
          visitTransactions (transactions p) visit (\<lambda>t. Some (record_category t \<in> ids)) s)
      | OperationGroupMerge \<Rightarrow> Option.bind (categories_of oper (categories p)) (\<lambda>ids.
          visitTransactions (transactions p) visit (\<lambda>t. Some (record_category t \<in> ids)) s)
      | OperationGroupDelete \<Rightarrow> Option.bind (categories_of oper (categories p)) (\<lambda>ids.
          visitTransactions (transactions p) visit (\<lambda>t. Some (record_category t \<in> ids)) s)
      | OperationGroupCreate \<Rightarrow> Some s
      | OperationUnknown _ \<Rightarrow> Some s)"

subsection \<open>The transactions visited\<close>

text \<open>A visitor that never stops sees all of them, in order.\<close>

definition affected_ids :: "profile \<Rightarrow> operation \<Rightarrow> entity_id list option" where
  "affected_ids p oper = VisitAffectedByOperation p oper (\<lambda>i is. (True, is @ [i])) []"

lemma visitEntityIDs_all: "visitEntityIDs ids (\<lambda>i s. (True, f i s)) s = fold f ids s"
  by (induction ids arbitrary: s) simp_all

lemma visitTransactions_all:
  "visitTransactions ts (\<lambda>i s. (True, f i s)) (\<lambda>t. Some (P t)) s =
     Some (fold f (map record_id (filter P ts)) s)"
  by (induction ts arbitrary: s) simp_all

lemma categories_of_first:
  "first_target oper = Some g \<Longrightarrow>
     categories_of oper cs = Some (category_id ` {c \<in> set cs. category_group_id c = g})"
  by (induction cs) auto

text \<open>What a visit covers, for an operation with targets and payload.\<close>

definition covered :: "profile \<Rightarrow> operation \<Rightarrow> transaction_record \<Rightarrow> bool" where
  "covered p oper r \<longleftrightarrow>
     (case op_type oper of
        OperationMerchantReassign \<Rightarrow> record_id r \<in> set (op_targets oper)
      | OperationCategoryAssign \<Rightarrow> record_id r \<in> set (op_targets oper)
      | OperationTransactionHide \<Rightarrow> record_id r \<in> set (op_targets oper)
      | OperationTransactionDelete \<Rightarrow> record_id r \<in> set (op_targets oper)
      | OperationCategoryCreate \<Rightarrow> record_id r \<in> set (op_targets oper)
          \<and> (\<forall>c. op_create oper = Some c \<longrightarrow> op_targets oper \<noteq> [create_entity c])
      | OperationMerchantLabel \<Rightarrow> record_merchant r = hd (op_targets oper)
      | OperationMerchantMerge \<Rightarrow> record_merchant r = hd (op_targets oper)
      | OperationCategoryLabel \<Rightarrow> record_category r = hd (op_targets oper)
      | OperationCategoryMove \<Rightarrow> record_category r = hd (op_targets oper)
      | OperationCategoryMerge \<Rightarrow> record_category r = hd (op_targets oper)
      | OperationCategoryDelete \<Rightarrow> record_category r = hd (op_targets oper)
      | OperationGroupLabel \<Rightarrow> \<exists>c\<in>set (categories p). category_id c = record_category r
          \<and> category_group_id c = hd (op_targets oper)
      | OperationGroupMerge \<Rightarrow> \<exists>c\<in>set (categories p). category_id c = record_category r
          \<and> category_group_id c = hd (op_targets oper)
      | OperationGroupDelete \<Rightarrow> \<exists>c\<in>set (categories p). category_id c = record_category r
          \<and> category_group_id c = hd (op_targets oper)
      | OperationGroupCreate \<Rightarrow> False
      | OperationUnknown _ \<Rightarrow> False)"

text \<open>A visit that is never stopped folds the visitor over the identities of the covered transactions.\<close>

lemma single_target: "length ts = 1 \<and> ts ! 0 = e \<longleftrightarrow> ts = [e]"
  by (cases ts) auto

lemma Visit_covers:
  assumes stored: "ValidateStored casefold oper = Inr ()" and guard: "op_guard p oper"
  shows "\<exists>ids. VisitAffectedByOperation p oper (\<lambda>i s. (True, f i s)) s = Some (fold f ids s)
    \<and> set ids = record_id ` {r \<in> set (transactions p). covered p oper r}"
proof -
  let ?visit = "VisitAffectedByOperation p oper (\<lambda>i s. (True, f i s)) s"
  from ValidateStored_targets[OF stored] have first: "first_target oper = Some (hd (op_targets oper))"
    by (cases "op_targets oper") (auto simp: first_target_def)
  have listed: "?thesis" if "?visit = Some (visitEntityIDs (op_targets oper) (\<lambda>i s. (True, f i s)) s)"
      "known_targets p oper" "\<And>r. covered p oper r \<longleftrightarrow> record_id r \<in> set (op_targets oper)"
    using that by (intro exI[of _ "op_targets oper"]) (auto simp: visitEntityIDs_all known_targets_def)
  have matched: "?thesis" if "?visit = visitTransactions (transactions p) (\<lambda>i s. (True, f i s)) (\<lambda>t. Some (P t)) s"
      "\<And>r. covered p oper r \<longleftrightarrow> P r" for P
    using that by (intro exI[of _ "map record_id (filter P (transactions p))"]) (auto simp: visitTransactions_all)
  have unvisited: "?thesis" if "?visit = Some s" "\<And>r. \<not> covered p oper r"
    using that by (intro exI[of _ "[]"]) auto
  note defs = VisitAffectedByOperation_def covered_def first
  show ?thesis
  proof (cases "op_type oper")
    case OperationCategoryCreate
    with guard obtain c where c: "op_create oper = Some c"
        "op_targets oper = [create_entity c] \<or> known_targets p oper"
      by (cases "op_create oper") (auto simp: op_guard_def)
    show ?thesis
    proof (cases "op_targets oper = [create_entity c]")
      case True
      then have "?visit = Some s" "\<And>r. \<not> covered p oper r"
        by (simp_all add: VisitAffectedByOperation_def covered_def OperationCategoryCreate c(1))
      then show ?thesis by (rule unvisited)
    next
      case False
      then have "\<not> (length (op_targets oper) = 1 \<and> op_targets oper ! 0 = create_entity c)"
        by (simp only: single_target not_False_eq_True)
      then show ?thesis using c False
        by (intro listed) (auto simp: VisitAffectedByOperation_def covered_def OperationCategoryCreate)
    qed
  next
    case OperationMerchantReassign
    then show ?thesis using guard
      by (intro listed; cases "op_reassign oper")
        (auto simp: VisitAffectedByOperation_def covered_def op_guard_def)
  next
    case OperationCategoryAssign
    then show ?thesis using guard
      by (intro listed; cases "op_reassign oper")
        (auto simp: VisitAffectedByOperation_def covered_def op_guard_def)
  next
    case OperationGroupLabel
    then show ?thesis
      by (intro matched[of "\<lambda>r. record_category r \<in> category_id `
          {c \<in> set (categories p). category_group_id c = hd (op_targets oper)}"])
        (auto simp: VisitAffectedByOperation_def covered_def categories_of_first[OF first] image_iff)
  next
    case OperationGroupMerge
    then show ?thesis
      by (intro matched[of "\<lambda>r. record_category r \<in> category_id `
          {c \<in> set (categories p). category_group_id c = hd (op_targets oper)}"])
        (auto simp: VisitAffectedByOperation_def covered_def categories_of_first[OF first] image_iff)
  next
    case OperationGroupDelete
    then show ?thesis
      by (intro matched[of "\<lambda>r. record_category r \<in> category_id `
          {c \<in> set (categories p). category_group_id c = hd (op_targets oper)}"])
        (auto simp: VisitAffectedByOperation_def covered_def categories_of_first[OF first] image_iff)
  next
    case OperationMerchantLabel
    then show ?thesis
      by (intro matched[of "\<lambda>r. record_merchant r = hd (op_targets oper)"]) (simp_all add: defs)
  next
    case OperationMerchantMerge
    then show ?thesis
      by (intro matched[of "\<lambda>r. record_merchant r = hd (op_targets oper)"]) (simp_all add: defs)
  next
    case OperationCategoryLabel
    then show ?thesis
      by (intro matched[of "\<lambda>r. record_category r = hd (op_targets oper)"]) (simp_all add: defs)
  next
    case OperationCategoryMove
    then show ?thesis
      by (intro matched[of "\<lambda>r. record_category r = hd (op_targets oper)"]) (simp_all add: defs)
  next
    case OperationCategoryMerge
    then show ?thesis
      by (intro matched[of "\<lambda>r. record_category r = hd (op_targets oper)"]) (simp_all add: defs)
  next
    case OperationCategoryDelete
    then show ?thesis
      by (intro matched[of "\<lambda>r. record_category r = hd (op_targets oper)"]) (simp_all add: defs)
  next
    case OperationTransactionHide
    then show ?thesis using guard by (intro listed) (simp_all add: defs op_guard_def)
  next
    case OperationTransactionDelete
    then show ?thesis using guard by (intro listed) (simp_all add: defs op_guard_def)
  qed (intro unvisited; simp add: defs)+
qed

subsection \<open>What is not visited does not change\<close>

definition joined :: "profile \<Rightarrow> transaction_record \<Rightarrow> transaction \<Rightarrow> bool" where
  "joined p r t \<longleftrightarrow> (\<exists>a\<in>set (accounts p). \<exists>m\<in>set (merchants p). \<exists>c\<in>set (categories p). \<exists>g\<in>set (groups p).
     account_id a = record_account r \<and> merchant_id m = record_merchant r
     \<and> category_id c = record_category r \<and> group_id g = category_group_id c \<and> t = join_record a m c g r)"

lemma joined_unique:
  assumes "profile_wf casefold p" and "joined p r t" "joined p r u"
  shows "t = u"
proof -
  have one: "x = y" if "distinct (map ident rows)" "x \<in> set rows" "y \<in> set rows" "ident x = ident y"
    for ident :: "'x \<Rightarrow> entity_id" and rows x y
    using that by (auto simp: distinct_map dest: inj_onD)
  from assms(2) obtain a m c g where x: "a \<in> set (accounts p)" "m \<in> set (merchants p)" "c \<in> set (categories p)"
      "g \<in> set (groups p)" "account_id a = record_account r" "merchant_id m = record_merchant r"
      "category_id c = record_category r" "group_id g = category_group_id c" "t = join_record a m c g r"
    by (auto simp: joined_def)
  from assms(3) obtain a' m' c' g' where y: "a' \<in> set (accounts p)" "m' \<in> set (merchants p)" "c' \<in> set (categories p)"
      "g' \<in> set (groups p)" "account_id a' = record_account r" "merchant_id m' = record_merchant r"
      "category_id c' = record_category r" "group_id g' = category_group_id c'" "u = join_record a' m' c' g' r"
    by (auto simp: joined_def)
  note ids = profile_wf_distinct(1-4)[OF assms(1)]
  have "a = a'" by (rule one[OF ids(1) x(1) y(1)]) (simp add: x(5) y(5))
  moreover have "m = m'" by (rule one[OF ids(2) x(2) y(2)]) (simp add: x(6) y(6))
  moreover have c: "c = c'" by (rule one[OF ids(4) x(3) y(3)]) (simp add: x(7) y(7))
  moreover have "g = g'" by (rule one[OF ids(3) x(4) y(4)]) (simp add: x(8) y(8) c)
  ultimately show ?thesis using x(9) y(9) by simp
qed

lemma materialized_joined:
  assumes "MaterializeTransactions casefold p = Inr ts"
  shows "profile_wf casefold p" and "list_all2 (joined p) (transactions p) ts"
proof -
  let ?m = "materialize_record (index_by account_id (accounts p)) (index_by merchant_id (merchants p))
    (index_by group_id (groups p)) (index_by category_id (categories p))"
  show wf: "profile_wf casefold p"
    using assms by (auto simp: MaterializeTransactions_def bind_result_Inr ValidateProfile_Inr)
  have each: "joined p r t" if r: "r \<in> set (transactions p)" and t: "?m r = Inr t" for r t
  proof -
    from wf r have "record_wf p r" "record_id r \<noteq> []" "labels_wf casefold p" "references_wf p"
      by (simp_all add: profile_wf_def ids_wf_def)
    then show ?thesis
      using materialize_record_Inr[OF profile_wf_distinct(1-4)[OF wf], of casefold r] t
      unfolding record_wf_def joined_def by fastforce
  qed
  have "list_all2 (\<lambda>r t. map_error (MaterializeRecord (record_id r)) (?m r) = Inr t) (transactions p) ts"
    using assms by (auto simp: MaterializeTransactions_def bind_result_Inr Let_def map_result_Inr)
  then show "list_all2 (joined p) (transactions p) ts"
    by (rule list.rel_mono_strong) (use each in auto)
qed

text \<open>The rows a record is joined with keep their identity and what a transaction shows of them.\<close>

lemma joined_kept:
  assumes "joined p r t" and "accounts q = accounts p"
    and "\<And>m. m \<in> set (merchants p) \<Longrightarrow> merchant_id m = record_merchant r \<Longrightarrow>
      \<exists>m'\<in>set (merchants q). merchant_id m' = merchant_id m \<and> merchant_label m' = merchant_label m"
    and "\<And>c. c \<in> set (categories p) \<Longrightarrow> category_id c = record_category r \<Longrightarrow>
      \<exists>c'\<in>set (categories q). category_id c' = category_id c \<and> category_label c' = category_label c
        \<and> category_group_id c' = category_group_id c"
    and "\<And>c g. c \<in> set (categories p) \<Longrightarrow> category_id c = record_category r \<Longrightarrow>
      g \<in> set (groups p) \<Longrightarrow> group_id g = category_group_id c \<Longrightarrow>
      \<exists>g'\<in>set (groups q). group_id g' = group_id g \<and> group_label g' = group_label g"
  shows "joined q r t"
proof -
  from assms(1) obtain a m c g where x: "a \<in> set (accounts p)" "m \<in> set (merchants p)" "c \<in> set (categories p)"
      "g \<in> set (groups p)" "account_id a = record_account r" "merchant_id m = record_merchant r"
      "category_id c = record_category r" "group_id g = category_group_id c" "t = join_record a m c g r"
    by (auto simp: joined_def)
  from assms(3)[OF x(2,6)] obtain m' where m: "m' \<in> set (merchants q)" "merchant_id m' = merchant_id m"
      "merchant_label m' = merchant_label m" by blast
  from assms(4)[OF x(3,7)] obtain c' where c: "c' \<in> set (categories q)" "category_id c' = category_id c"
      "category_label c' = category_label c" "category_group_id c' = category_group_id c" by blast
  from assms(5)[OF x(3,7,4,8)] obtain g' where g: "g' \<in> set (groups q)" "group_id g' = group_id g"
      "group_label g' = group_label g" by blast
  have "t = join_record a m' c' g' r" using x(9) m c g by (simp add: join_record_def)
  then show ?thesis unfolding joined_def using x assms(2) m c g by metis
qed

text \<open>The rows that an operation leaves as far as a transaction shows them.\<close>

lemma untouched_rows:
  "m \<in> set ms \<Longrightarrow> merchant_id m \<noteq> label_entity l \<Longrightarrow> m \<in> set (label_merchants l ms)"
  "c \<in> set cs \<Longrightarrow> category_id c \<noteq> label_entity l \<Longrightarrow> c \<in> set (label_categories l cs)"
  "g \<in> set gs \<Longrightarrow> group_id g \<noteq> label_entity l \<Longrightarrow> g \<in> set (label_groups l gs)"
  "c \<in> set cs \<Longrightarrow> category_id c \<noteq> move_entity mv \<Longrightarrow> c \<in> set (move_categories mv cs)"
  "c \<in> set cs \<Longrightarrow> category_group_id c \<noteq> s \<Longrightarrow> c \<in> set (map (redirect_category_group s d) cs)"
  by (force simp: label_merchants_def label_categories_def label_groups_def move_categories_def
      redirect_category_group_def image_iff)+

lemma untouched_group:
  "g \<in> set gs \<Longrightarrow> group_id g = k \<Longrightarrow> k \<noteq> label_entity l \<Longrightarrow>
     \<exists>g'\<in>set (label_groups l gs). group_id g' = k \<and> group_label g' = group_label g"
  using untouched_rows(3) by blast

lemma retired_rows:
  "m \<in> set ms \<Longrightarrow> merchant_id m = k \<Longrightarrow> \<exists>m'\<in>set (retire_merchants s d ms). merchant_id m' = k
     \<and> merchant_label m' = merchant_label m"
  "c \<in> set cs \<Longrightarrow> category_id c = k \<Longrightarrow> \<exists>c'\<in>set (retire_categories s d cs). category_id c' = k
     \<and> category_label c' = category_label c \<and> category_group_id c' = category_group_id c"
  "g \<in> set gs \<Longrightarrow> group_id g = k \<Longrightarrow> \<exists>g'\<in>set (retire_groups s d gs). group_id g' = k
     \<and> group_label g' = group_label g"
proof -
  have image: "\<exists>y\<in>set (map f xs). P y" if "x \<in> set xs" "P (f x)" for f :: "'x \<Rightarrow> 'x" and P x xs
    using that by auto
  show "m \<in> set ms \<Longrightarrow> merchant_id m = k \<Longrightarrow> \<exists>m'\<in>set (retire_merchants s d ms). merchant_id m' = k
     \<and> merchant_label m' = merchant_label m"
    unfolding retire_merchants_def by (rule image) (auto simp: redirect_merchant_def)
  show "c \<in> set cs \<Longrightarrow> category_id c = k \<Longrightarrow> \<exists>c'\<in>set (retire_categories s d cs). category_id c' = k
     \<and> category_label c' = category_label c \<and> category_group_id c' = category_group_id c"
    unfolding retire_categories_def by (rule image) (auto simp: redirect_category_def)
  show "g \<in> set gs \<Longrightarrow> group_id g = k \<Longrightarrow> \<exists>g'\<in>set (retire_groups s d gs). group_id g' = k
     \<and> group_label g' = group_label g"
    unfolding retire_groups_def by (rule image) (auto simp: redirect_group_def)
qed

lemma untouched_records:
  "r \<in> set ts \<Longrightarrow> record_id r \<notin> set targets \<Longrightarrow> r \<in> set (on_targets targets f ts)"
  "r \<in> set ts \<Longrightarrow> record_merchant r \<noteq> s \<Longrightarrow> r \<in> set (map (redirect_record_merchant s d) ts)"
  "r \<in> set ts \<Longrightarrow> record_category r \<noteq> s \<Longrightarrow> r \<in> set (map (redirect_record_category s d) ts)"
  by (force simp: on_targets_def redirect_record_merchant_def redirect_record_category_def)+

lemma not_covered_kept:
  assumes stored: "ValidateStored casefold oper = Inr ()" and guard: "op_guard p oper"
    and r: "r \<in> set (transactions p)" "\<not> covered p oper r" and t: "joined p r t"
  shows "r \<in> set (transactions (op_effect oper p)) \<and> joined (op_effect oper p) r t"
proof -
  note payload = ValidateStored_payload[OF stored, unfolded validatePayload_def]
  note effects = op_effect_def merge_merchants_effect_def merge_categories_effect_def merge_groups_effect_def
  show ?thesis
  proof (cases "op_type oper")
    case OperationMerchantLabel
    with payload obtain l where l: "op_label oper = Some l" "op_targets oper = [label_entity l]"
      by (auto simp: validate_operation_Inr)
    with OperationMerchantLabel r show ?thesis
      by (auto simp: effects covered_def intro!: joined_kept[OF t] bexI[OF _ untouched_rows(1)])
  next
    case OperationMerchantMerge
    with payload obtain m where m: "op_merge oper = Some m" "op_targets oper = [merge_source m]"
      by (auto simp: validate_operation_Inr)
    with OperationMerchantMerge r show ?thesis
      by (auto simp: effects covered_def simp del: set_map intro!: joined_kept[OF t] retired_rows untouched_records)
  next
    case OperationMerchantReassign
    with payload obtain d where "op_reassign oper = Some d" by (auto simp: validate_operation_Inr)
    with OperationMerchantReassign r show ?thesis
      by (auto simp: effects covered_def intro!: joined_kept[OF t] untouched_records)
  next
    case OperationCategoryAssign
    with payload obtain d where "op_reassign oper = Some d" by (auto simp: validate_operation_Inr)
    with OperationCategoryAssign r show ?thesis
      by (auto simp: effects covered_def intro!: joined_kept[OF t] untouched_records)
  next
    case OperationCategoryCreate
    with payload obtain c where "op_create oper = Some c" by (auto simp: validate_operation_Inr)
    with OperationCategoryCreate r show ?thesis
      by (auto simp: effects covered_def intro!: joined_kept[OF t] untouched_records)
  next
    case OperationCategoryLabel
    with payload obtain l where l: "op_label oper = Some l" "op_targets oper = [label_entity l]"
      by (auto simp: validate_operation_Inr)
    with OperationCategoryLabel r show ?thesis
      by (auto simp: effects covered_def intro!: joined_kept[OF t] bexI[OF _ untouched_rows(2)])
  next
    case OperationCategoryMove
    with payload obtain m where m: "op_move oper = Some m" "op_targets oper = [move_entity m]"
      by (auto simp: validate_operation_Inr)
    with OperationCategoryMove r show ?thesis
      by (auto simp: effects covered_def intro!: joined_kept[OF t] bexI[OF _ untouched_rows(4)])
  next
    case OperationCategoryMerge
    with payload obtain m where m: "op_merge oper = Some m" "op_targets oper = [merge_source m]"
      by (auto simp: validate_operation_Inr)
    with OperationCategoryMerge r show ?thesis
      by (auto simp: effects covered_def simp del: set_map intro!: joined_kept[OF t] retired_rows untouched_records)
  next
    case OperationCategoryDelete
    with payload obtain d where d: "op_delete oper = Some d" "op_targets oper = [delete_source d]"
      by (auto simp: validate_operation_Inr)
    with OperationCategoryDelete r show ?thesis
      by (auto simp: effects covered_def simp del: set_map intro!: joined_kept[OF t] retired_rows untouched_records)
  next
    case OperationGroupCreate
    with payload obtain c where "op_create oper = Some c" by (auto simp: validate_operation_Inr)
    with OperationGroupCreate r show ?thesis
      by (auto simp: effects covered_def intro!: joined_kept[OF t])
  next
    case OperationGroupLabel
    with payload obtain l where l: "op_label oper = Some l" "op_targets oper = [label_entity l]"
      by (auto simp: validate_operation_Inr)
    with OperationGroupLabel r show ?thesis
      by (auto simp: effects covered_def intro!: joined_kept[OF t] untouched_group)
  next
    case OperationGroupMerge
    with payload obtain m where m: "op_merge oper = Some m" "op_targets oper = [merge_source m]"
      by (auto simp: validate_operation_Inr)
    with OperationGroupMerge r show ?thesis
      by (auto simp: effects covered_def simp del: set_map intro!: joined_kept[OF t] retired_rows
          bexI[OF _ untouched_rows(5)])
  next
    case OperationGroupDelete
    with payload obtain d where d: "op_delete oper = Some d" "op_targets oper = [delete_source d]"
      by (auto simp: validate_operation_Inr)
    with OperationGroupDelete r show ?thesis
      by (auto simp: effects covered_def simp del: set_map intro!: joined_kept[OF t] retired_rows
          bexI[OF _ untouched_rows(5)])
  next
    case OperationTransactionHide
    with r show ?thesis
      by (auto simp: effects covered_def intro!: joined_kept[OF t] untouched_records)
  next
    case OperationTransactionDelete
    with r show ?thesis by (auto simp: effects covered_def intro!: joined_kept[OF t])
  next
    case (OperationUnknown x)
    with payload show ?thesis by simp
  qed
qed

lemma joined_same_rows: "same_rows p q \<Longrightarrow> joined p = joined q"
  by (simp add: joined_def fun_eq_iff same_rows_sets[of p q])

lemma affected_covered:
  assumes "ValidateStored casefold oper = Inr ()" and "op_guard p oper"
  shows "\<exists>ids. affected_ids p oper = Some ids \<and> set ids = record_id ` {r \<in> set (transactions p). covered p oper r}"
proof -
  have append: "fold (\<lambda>i is. is @ [i]) ids is = is @ ids" for ids "is" :: "entity_id list"
    by (induction ids arbitrary: "is") simp_all
  from Visit_covers[OF assms, of "\<lambda>i is. is @ [i]" "[]"] show ?thesis
    by (simp add: affected_ids_def append)
qed

lemma affected_sound:
  assumes applied: "ApplyOperation casefold p oper = Inr q"
    and ts: "MaterializeTransactions casefold p = Inr ts" and us: "MaterializeTransactions casefold q = Inr us"
  shows "\<exists>ids. affected_ids p oper = Some ids \<and> set ids \<subseteq> record_id ` set (transactions p)
    \<and> (\<forall>t\<in>set ts. trans_id t \<notin> set ids \<longrightarrow> t \<in> set us)"
proof -
  from applied have p: "ValidateStored casefold oper = Inr ()" "op_guard p oper" "profile_wf casefold q"
      "q = sortCommittedProfile (op_effect oper p)" unfolding ApplyOperation_Inr by blast+
  have rows: "same_rows q (op_effect oper p)" unfolding p(4) by (rule sortCommittedProfile_same_rows)
  from affected_covered[OF p(1,2)] obtain ids where ids: "affected_ids p oper = Some ids"
      "set ids = record_id ` {r \<in> set (transactions p). covered p oper r}" by blast
  have "t \<in> set us" if t: "t \<in> set ts" "trans_id t \<notin> set ids" for t
  proof -
    from materialized_joined(2)[OF ts] t(1) obtain r where r: "r \<in> set (transactions p)" "joined p r t"
      by (metis in_set_conv_nth list_all2_conv_all_nth)
    then have "record_id r = trans_id t" by (auto simp: joined_def join_record_def)
    with t(2) ids(2) r(1) have "\<not> covered p oper r" by force
    with not_covered_kept[OF p(1,2) r(1) _ r(2)]
    have kept: "r \<in> set (transactions q)" "joined q r t"
      using same_rows_sets(5)[OF rows] joined_same_rows[OF rows] by auto
    from materialized_joined(2)[OF us] kept(1) obtain u where "u \<in> set us" "joined q r u"
      by (metis in_set_conv_nth list_all2_conv_all_nth)
    with joined_unique[OF p(3) kept(2)] show ?thesis by metis
  qed
  with ids show ?thesis by auto
qed

text \<open>
  C28. The visit of a valid operation succeeds, visits only transactions of the profile, and misses
  none that changes: a transaction that is not visited appears with exactly the same amount, flags
  and labels after the operation.
\<close>

theorem VisitAffectedByOperation_sound:
  assumes "ApplyOperation casefold p oper = Inr q"
    and "MaterializeTransactions casefold p = Inr ts" and "MaterializeTransactions casefold q = Inr us"
  shows "\<exists>ids. VisitAffectedByOperation p oper (\<lambda>i is. (True, is @ [i])) [] = Some ids
    \<and> set ids \<subseteq> record_id ` set (transactions p)
    \<and> (\<forall>t\<in>set ts. trans_id t \<notin> set ids \<longrightarrow> t \<in> set us)"
  using affected_sound[OF assms] by (simp add: affected_ids_def)

theorem VisitAffectedByOperation_sound_witness:
  "\<exists>q ts us ids. ApplyOperation ascii_fold example_profile (example_journal ! 1) = Inr q
    \<and> MaterializeTransactions ascii_fold example_profile = Inr ts
    \<and> VisitAffectedByOperation example_profile (example_journal ! 1) (\<lambda>i is. (True, is @ [i])) [] = Some ids
    \<and> ids = [''t1''] \<and> (\<forall>t\<in>set ts. trans_id t \<notin> set ids \<longrightarrow> t \<in> set us)"
proof -
  let ?q = "sortCommittedProfile (op_effect (example_journal ! 1) example_profile)"
  have wf: "profile_wf ascii_fold example_profile" using example_profile_valid by (simp add: ValidateProfile_Inr)
  have "accepts ascii_fold example_profile [example_journal ! 1]" by code_simp
  then have "ApplyOperation ascii_fold example_profile (example_journal ! 1) = Inr ?q"
    using reference_replay_accepts[OF wf, of "[example_journal ! 1]"]
    by (auto simp: reference_replay_def bind_result_Inr ApplyOperation_Inr)
  moreover have "is_ok (MaterializeTransactions ascii_fold example_profile)"
      "is_ok (MaterializeTransactions ascii_fold ?q)" by code_simp+
  then obtain ts us where "MaterializeTransactions ascii_fold example_profile = Inr ts"
      "MaterializeTransactions ascii_fold ?q = Inr us" by (auto simp: is_ok_iff)
  moreover have "VisitAffectedByOperation example_profile (example_journal ! 1) (\<lambda>i is. (True, is @ [i])) []
      = Some [''t1'']" by code_simp
  ultimately show ?thesis using VisitAffectedByOperation_sound by fastforce
qed

end
