(* ===== verification/Fold_Tables.thy ===== *)
theory Fold_Tables
  imports Journal_Store
begin

text \<open>
  The committed tables of \<open>schema/profile.sql\<close> and the statements of
  \<open>internal/store/sqlite/fold.go\<close> that turn the committed rows into the effective ones: collision
  keys that a row gives up are released first, then new entities are inserted and changed rows
  updated, and deleted transactions removed.  A row is the record its columns hold.  SQLite checks
  the constraints of a row as each statement runs, including the references to merge destinations.
\<close>

subsection \<open>Constraints\<close>

record 'r table_columns =
  column_id :: "'r \<Rightarrow> entity_id"
  column_key :: "'r \<Rightarrow> string"
  column_retired :: "'r \<Rightarrow> bool"
  column_merged :: "'r \<Rightarrow> entity_id option"
  column_label :: "'r \<Rightarrow> string"
  column_protected :: "'r \<Rightarrow> bool"
  column_refs :: "'r \<Rightarrow> bool"
  with_key :: "string \<Rightarrow> 'r \<Rightarrow> 'r"

text \<open>
  The CHECK constraints of a row and its references to other tables; the columns are those of the
  three entity tables.
\<close>

definition row_checks :: "'r table_columns \<Rightarrow> 'r \<Rightarrow> bool" where
  "row_checks c r \<longleftrightarrow> column_id c r \<noteq> '''' \<and> column_label c r \<noteq> '''' \<and> column_key c r \<noteq> ''''
     \<and> (case column_merged c r of None \<Rightarrow> True
        | Some d \<Rightarrow> column_retired c r \<and> d \<noteq> column_id c r)
     \<and> (column_protected c r \<longrightarrow> \<not> column_retired c r \<and> column_merged c r = None)
     \<and> column_refs c r"

text \<open>
  Whether a row may stand in a table beside the other rows: the partial unique index on the
  collision keys of active rows, and the foreign key of the merge destination.
\<close>

definition row_fits :: "'r table_columns \<Rightarrow> 'r list \<Rightarrow> 'r \<Rightarrow> bool" where
  "row_fits c others r \<longleftrightarrow> row_checks c r
     \<and> (column_retired c r \<or> column_key c r \<notin> column_key c ` {x \<in> set others. \<not> column_retired c x})
     \<and> (case column_merged c r of None \<Rightarrow> True | Some d \<Rightarrow> d \<in> column_id c ` set others)"

definition insert_row ::
    "'r table_columns \<Rightarrow> 'r \<Rightarrow> 'r list \<Rightarrow> driver_error + 'r list" where
  "insert_row c r table =
     (if column_id c r \<in> column_id c ` set table \<or> \<not> row_fits c table r then Inl constraint_failed
      else Inr (table @ [r]))"

text \<open>\<open>UPDATE ... WHERE id = ?\<close>: no row with the identity is no error.\<close>

definition update_row ::
    "'r table_columns \<Rightarrow> entity_id \<Rightarrow> ('r \<Rightarrow> 'r) \<Rightarrow> 'r list \<Rightarrow> driver_error + 'r list" where
  "update_row c ident f table =
     (if \<forall>r\<in>set table. column_id c r = ident \<longrightarrow>
           row_fits c (filter (\<lambda>x. column_id c x \<noteq> ident) table) (f r)
      then Inr (map (\<lambda>r. if column_id c r = ident then f r else r) table)
      else Inl constraint_failed)"

definition merchant_columns :: "merchant table_columns" where
  "merchant_columns = \<lparr>column_id = merchant_id, column_key = merchant_key,
     column_retired = merchant_retired, column_merged = merchant_merged,
     column_label = merchant_label, column_protected = (\<lambda>_. False),
     column_refs = (\<lambda>_. True),
     with_key = (\<lambda>k r. r\<lparr>merchant_key := k\<rparr>)\<rparr>"

definition group_columns :: "category_group table_columns" where
  "group_columns = \<lparr>column_id = group_id, column_key = group_key, column_retired = group_retired,
     column_merged = group_merged, column_label = group_label, column_protected = group_protected, column_refs = (\<lambda>_. True),
     with_key = (\<lambda>k r. r\<lparr>group_key := k\<rparr>)\<rparr>"

text \<open>The rows of categories also reference their group.\<close>

definition category_columns :: "category_group list \<Rightarrow> category table_columns" where
  "category_columns gs = \<lparr>column_id = category_id, column_key = category_key,
     column_retired = category_retired, column_merged = category_merged,
     column_label = category_label, column_protected = category_protected,
     column_refs = (\<lambda>r. category_group_id r \<in> group_id ` set gs),
     with_key = (\<lambda>k r. r\<lparr>category_key := k\<rparr>)\<rparr>"

record ledger_tables =
  table_accounts :: "account list"
  table_merchants :: "merchant list"
  table_groups :: "category_group list"
  table_categories :: "category list"
  table_transactions :: "transaction_record list"
  table_identities :: "external_identity list"
  table_drills :: "drill_identity list"

subsection \<open>The statements of the fold\<close>

datatype fold_call =
    CallRelease string entity_id
  | CallPrepare
  | CallInsert string entity_id
  | CallUpdate string entity_id
  | CallDeleteTransaction entity_id
  | CallPrepareDrills
  | CallInsertDrill drill_identity

type_synonym fold_driver = "fold_call \<Rightarrow> driver_error option"

definition fold_exec :: "fold_driver \<Rightarrow> fold_call \<Rightarrow> driver_error + 'a \<Rightarrow> store_error + 'a" where
  "fold_exec driver c r =
     (case driver c of Some err \<Rightarrow> Inl (mapDriverError err CodeStoreError)
      | None \<Rightarrow> map_error (\<lambda>err. mapDriverError err CodeStoreError) r)"

text \<open>The key a released row holds meanwhile: the unit separator, a marker and the identity.\<close>

definition released_key :: "entity_id \<Rightarrow> string" where
  "released_key ident = char_of (31 :: nat) # ''moneyflow-fold:'' @ ident"

text \<open>A Go map from identities to rows: the last row with the identity.\<close>

definition last_with :: "'r table_columns \<Rightarrow> 'r list \<Rightarrow> entity_id \<Rightarrow> 'r option" where
  "last_with c rows ident = List.find (\<lambda>r. column_id c r = ident) (rev rows)"

definition gives_up_key :: "'r table_columns \<Rightarrow> 'r list \<Rightarrow> 'r \<Rightarrow> bool" where
  "gives_up_key c after r \<longleftrightarrow> \<not> column_retired c r \<and>
     (case last_with c after (column_id c r) of
        None \<Rightarrow> '''' \<noteq> column_key c r
      | Some a \<Rightarrow> column_retired c a \<or> column_key c a \<noteq> column_key c r)"

definition releaseFoldCollisionKey ::
    "'r table_columns \<Rightarrow> fold_driver \<Rightarrow> string \<Rightarrow> 'r list \<Rightarrow> entity_id \<Rightarrow> store_error + 'r list" where
  "releaseFoldCollisionKey c driver name table ident =
     fold_exec driver (CallRelease name ident) (update_row c ident (with_key c (released_key ident)) table)"

definition release_keys ::
    "'r table_columns \<Rightarrow> fold_driver \<Rightarrow> string \<Rightarrow> 'r list \<Rightarrow> 'r list \<Rightarrow> 'r list \<Rightarrow>
     store_error + 'r list" where
  "release_keys c driver name before after table =
     fold_result (\<lambda>table r. if gives_up_key c after r
       then releaseFoldCollisionKey c driver name table (column_id c r) else Inr table) table before"

definition insert_missing ::
    "'r table_columns \<Rightarrow> fold_driver \<Rightarrow> string \<Rightarrow> 'r list \<Rightarrow> 'r list \<Rightarrow> 'r list \<Rightarrow>
     store_error + 'r list" where
  "insert_missing c driver name before after table =
     fold_result (\<lambda>table r. if last_with c before (column_id c r) \<noteq> None then Inr table
       else fold_exec driver (CallInsert name (column_id c r)) (insert_row c r table)) table after"

definition update_changed ::
    "'r table_columns \<Rightarrow> fold_driver \<Rightarrow> string \<Rightarrow> 'r list \<Rightarrow> 'r list \<Rightarrow> 'r list \<Rightarrow>
     store_error + 'r list" where
  "update_changed c driver name before after table =
     fold_result (\<lambda>table r. case last_with c before (column_id c r) of
         None \<Rightarrow> Inr table
       | Some previous \<Rightarrow> if previous = r then Inr table
           else fold_exec driver (CallUpdate name (column_id c r))
             (update_row c (column_id c r) (\<lambda>_. r) table)) table after"

definition releaseFoldCollisionKeys ::
    "fold_driver \<Rightarrow> profile \<Rightarrow> profile \<Rightarrow> ledger_tables \<Rightarrow> store_error + ledger_tables" where
  "releaseFoldCollisionKeys driver before after db =
     bind_result (release_keys merchant_columns driver ''merchants'' (merchants before) (merchants after)
       (table_merchants db)) (\<lambda>ms.
     bind_result (release_keys group_columns driver ''category_groups'' (groups before) (groups after)
       (table_groups db)) (\<lambda>gs.
     bind_result (release_keys (category_columns (table_groups db)) driver ''categories'' (categories before)
       (categories after) (table_categories db)) (\<lambda>cs.
     Inr (db\<lparr>table_merchants := ms, table_groups := gs, table_categories := cs\<rparr>))))"

definition foldMerchants ::
    "fold_driver \<Rightarrow> merchant list \<Rightarrow> merchant list \<Rightarrow> ledger_tables \<Rightarrow> store_error + ledger_tables" where
  "foldMerchants driver before after db =
     bind_result (insert_missing merchant_columns driver ''merchants'' before after (table_merchants db)) (\<lambda>ms.
     bind_result (update_changed merchant_columns driver ''merchants'' before after ms) (\<lambda>ms.
     Inr (db\<lparr>table_merchants := ms\<rparr>)))"

definition foldGroups ::
    "fold_driver \<Rightarrow> category_group list \<Rightarrow> category_group list \<Rightarrow> ledger_tables \<Rightarrow>
     store_error + ledger_tables" where
  "foldGroups driver before after db =
     bind_result (insert_missing group_columns driver ''category_groups'' before after (table_groups db)) (\<lambda>gs.
     bind_result (update_changed group_columns driver ''category_groups'' before after gs) (\<lambda>gs.
     Inr (db\<lparr>table_groups := gs\<rparr>)))"

definition foldCategories ::
    "fold_driver \<Rightarrow> category list \<Rightarrow> category list \<Rightarrow> ledger_tables \<Rightarrow> store_error + ledger_tables" where
  "foldCategories driver before after db =
     (let c = category_columns (table_groups db) in
      bind_result (insert_missing c driver ''categories'' before after (table_categories db)) (\<lambda>cs.
      bind_result (update_changed c driver ''categories'' before after cs) (\<lambda>cs.
      Inr (db\<lparr>table_categories := cs\<rparr>))))"

text \<open>The constraints of a transaction row: its own columns, its references, its provider identity.\<close>

definition date_text :: "string \<Rightarrow> bool" where
  "date_text s \<longleftrightarrow> length s = 10 \<and>
     list_all (\<lambda>i. if i = 4 \<or> i = 7 then s ! i = CHR ''-'' else is_digit (s ! i)) [0 ..< 10]"

definition transaction_checks :: "transaction_record \<Rightarrow> bool" where
  "transaction_checks r \<longleftrightarrow> record_id r \<noteq> '''' \<and> record_provider r \<noteq> '''' \<and> record_provider_id r \<noteq> ''''
     \<and> date_text (date_string (record_date r)) \<and> IsValidCurrency (currency (record_amount r))
     \<and> scale (record_amount r) \<le> 9"

definition transaction_fits :: "ledger_tables \<Rightarrow> transaction_record list \<Rightarrow> transaction_record \<Rightarrow> bool" where
  "transaction_fits db others r \<longleftrightarrow> transaction_checks r
     \<and> record_account r \<in> account_id ` set (table_accounts db)
     \<and> record_merchant r \<in> merchant_id ` set (table_merchants db)
     \<and> record_category r \<in> category_id ` set (table_categories db)
     \<and> \<not> (\<exists>x\<in>set others. record_provider x = record_provider r \<and> record_provider_id x = record_provider_id r)"

definition update_transaction :: "transaction_record \<Rightarrow> ledger_tables \<Rightarrow> driver_error + ledger_tables" where
  "update_transaction r db =
     (let others = filter (\<lambda>x. record_id x \<noteq> record_id r) (table_transactions db) in
      if record_id r \<in> record_id ` set (table_transactions db) \<and> \<not> transaction_fits db others r
      then Inl constraint_failed
      else Inr (db\<lparr>table_transactions :=
        map (\<lambda>x. if record_id x = record_id r then r else x) (table_transactions db)\<rparr>))"

definition last_transaction :: "transaction_record list \<Rightarrow> entity_id \<Rightarrow> transaction_record option" where
  "last_transaction rows ident = List.find (\<lambda>r. record_id r = ident) (rev rows)"

definition delete_missing ::
    "fold_driver \<Rightarrow> transaction_record list \<Rightarrow> transaction_record list \<Rightarrow> ledger_tables \<Rightarrow>
     store_error + ledger_tables" where
  "delete_missing driver before after db =
     fold_result (\<lambda>db r. if record_id r \<in> record_id ` set after then Inr db
       else fold_exec driver (CallDeleteTransaction (record_id r)) (Inr (db\<lparr>table_transactions :=
         filter (\<lambda>x. record_id x \<noteq> record_id r) (table_transactions db)\<rparr>))) db before"

definition foldTransactions ::
    "fold_driver \<Rightarrow> transaction_record list \<Rightarrow> transaction_record list \<Rightarrow> ledger_tables \<Rightarrow>
     store_error + ledger_tables" where
  "foldTransactions driver before after db =
     bind_result (delete_missing driver before after db) (\<lambda>db.
     fold_result (\<lambda>db r. if last_transaction before (record_id r) = Some r then Inr db
       else fold_exec driver (CallUpdate ''transactions'' (record_id r)) (update_transaction r db)) db after)"

definition applyFold ::
    "fold_driver \<Rightarrow> profile \<Rightarrow> profile \<Rightarrow> ledger_tables \<Rightarrow> store_error + ledger_tables" where
  "applyFold driver before after db =
     bind_result (releaseFoldCollisionKeys driver before after db) (\<lambda>db.
     bind_result (fold_exec driver CallPrepare (Inr ())) (\<lambda>_.
     bind_result (foldGroups driver (groups before) (groups after) db) (\<lambda>db.
     bind_result (foldMerchants driver (merchants before) (merchants after) db) (\<lambda>db.
     bind_result (foldCategories driver (categories before) (categories after) db) (\<lambda>db.
     foldTransactions driver (transactions before) (transactions after) db)))))"

text \<open>\<open>INSERT OR IGNORE\<close>: a row that violates a constraint is skipped.\<close>

definition insert_drill :: "drill_identity \<Rightarrow> drill_identity list \<Rightarrow> drill_identity list" where
  "insert_drill d table =
     (if drill_id_dimension d \<in> {DimensionAccount, DimensionMerchant, DimensionGroup, DimensionCategory}
         \<and> IsValidCurrency (drill_id_currency d) \<and> drill_id_scale d \<le> 9 \<and> drill_id_key d \<noteq> ''''
         \<and> d \<notin> set table
      then table @ [d] else table)"

definition insertFoldKnownDrills ::
    "fold_driver \<Rightarrow> drill_identity list \<Rightarrow> drill_identity list \<Rightarrow> ledger_tables \<Rightarrow>
     store_error + ledger_tables" where
  "insertFoldKnownDrills driver existing desired db =
     (let known = key_of ` set existing in
      bind_result (fold_exec driver CallPrepareDrills (Inr ())) (\<lambda>_.
      fold_result (\<lambda>db d. if key_of d \<in> known then Inr db
        else fold_exec driver (CallInsertDrill d)
          (Inr (db\<lparr>table_drills := insert_drill d (table_drills db)\<rparr>))) db desired))"

end
