(* ===== verification/Fold_Correct.thy ===== *)
theory Fold_Correct
  imports Fold_Tables Journal_Steps
begin

text \<open>
  The statements of the fold carry the stored rows into the effective rows: no constraint is violated
  on the way, except by a new entity that is merged into another new one inserted after it.
\<close>

subsection \<open>One entity table\<close>

definition fold_calm :: fold_driver where
  "fold_calm c = None"

lemma fold_exec_calm [simp]: "fold_exec fold_calm k r = map_error (\<lambda>err. mapDriverError err CodeStoreError) r"
  by (simp add: fold_exec_def fold_calm_def)

lemma released_key_inject [simp]: "released_key a = released_key b \<longleftrightarrow> a = b"
  by (simp add: released_key_def)

lemma released_key_not_empty [simp]: "released_key a \<noteq> ''''"
  by (simp add: released_key_def)

definition released :: "'r table_columns \<Rightarrow> 'r list \<Rightarrow> 'r \<Rightarrow> 'r" where
  "released c after r =
     (if gives_up_key c after r then with_key c (released_key (column_id c r)) r else r)"

text \<open>A row whose key, if it is active, is a released one or the one its effective row has.\<close>

definition settled :: "'r table_columns \<Rightarrow> 'r list \<Rightarrow> 'r \<Rightarrow> bool" where
  "settled c after x \<longleftrightarrow> column_retired c x \<or> column_key c x = released_key (column_id c x)
     \<or> (\<exists>a\<in>set after. column_id c a = column_id c x \<and> \<not> column_retired c a \<and> column_key c a = column_key c x)"

text \<open>The rows of a table that satisfies the constraints of the schema.\<close>

definition rows_ok :: "'r table_columns \<Rightarrow> 'r list \<Rightarrow> bool" where
  "rows_ok c rows \<longleftrightarrow> distinct (map (column_id c) rows)
     \<and> distinct (active_keys (column_key c) (column_retired c) rows)
     \<and> (\<forall>r\<in>set rows. row_checks c r)
     \<and> (\<forall>r\<in>set rows. \<forall>d. column_merged c r = Some d \<longrightarrow> d \<in> column_id c ` set rows)
     \<and> (\<forall>r\<in>set rows. \<forall>i. column_key c r \<noteq> released_key i)"

text \<open>A new row is merged only into an old row or into a new one that precedes it.\<close>

definition merge_in_order :: "'r table_columns \<Rightarrow> 'r list \<Rightarrow> 'r list \<Rightarrow> nat \<Rightarrow> bool" where
  "merge_in_order c before after i \<longleftrightarrow> column_id c (after ! i) \<notin> column_id c ` set before \<longrightarrow>
     (case column_merged c (after ! i) of None \<Rightarrow> True
      | Some d \<Rightarrow> d \<in> column_id c ` set before \<union> column_id c ` set (take i after))"

definition merges_in_order :: "'r table_columns \<Rightarrow> 'r list \<Rightarrow> 'r list \<Rightarrow> bool" where
  "merges_in_order c before after \<longleftrightarrow> (\<forall>i<length after. merge_in_order c before after i)"

lemma last_with_distinct:
  assumes "distinct (map (column_id c) rows)"
  shows "last_with c rows k = Some r \<longleftrightarrow> r \<in> set rows \<and> column_id c r = k"
proof -
  have d: "distinct (map (column_id c) (rev rows))" using assms by (simp add: rev_map[symmetric])
  have "List.find (\<lambda>x. column_id c x = k) xs = Some r \<longleftrightarrow> r \<in> set xs \<and> column_id c r = k"
    if "distinct (map (column_id c) xs)" for xs
    using that by (induction xs) auto
  from this[OF d] show ?thesis by (simp add: last_with_def)
qed

lemma last_with_None: "last_with c rows k = None \<longleftrightarrow> k \<notin> column_id c ` set rows"
  by (auto simp: last_with_def find_None_iff)

lemma distinct_active:
  assumes "distinct (active_keys key retired rows)" and "r \<in> set rows" "x \<in> set rows"
    and "\<not> retired r" "\<not> retired x" "key r = key x"
  shows "r = x"
  using assms by (auto simp: active_keys_def distinct_map dest: inj_onD)

text \<open>The table after the updates of a part of the effective rows.\<close>

definition updated_to :: "'r table_columns \<Rightarrow> 'r list \<Rightarrow> 'r list \<Rightarrow> 'r \<Rightarrow> 'r" where
  "updated_to c after seen x = (if column_id c x \<in> column_id c ` set seen
     then the (last_with c after (column_id c x)) else x)"

locale fold_table =
  fixes c :: "'r table_columns"
  assumes with_key_key: "column_key c (with_key c k r) = k"
    and with_key_same: "column_id c (with_key c k r) = column_id c r"
      "column_retired c (with_key c k r) = column_retired c r"
      "column_merged c (with_key c k r) = column_merged c r"
      "column_label c (with_key c k r) = column_label c r"
      "column_protected c (with_key c k r) = column_protected c r"
      "column_refs c (with_key c k r) = column_refs c r"
begin

lemma released_same [simp]:
  "column_id c (released c after r) = column_id c r"
  "column_retired c (released c after r) = column_retired c r"
  by (simp_all add: released_def with_key_same)

lemma released_key_cases:
  "column_key c (released c after r) = (if gives_up_key c after r then released_key (column_id c r)
     else column_key c r)"
  by (simp add: released_def with_key_key)

lemma released_settled:
  assumes a: "rows_ok c after" and sub: "column_id c r \<in> column_id c ` set after"
  shows "settled c after (released c after r)"
proof (cases "column_retired c r \<or> gives_up_key c after r")
  case True
  then show ?thesis by (auto simp: settled_def released_key_cases)
next
  case False
  obtain x where x: "x \<in> set after" "column_id c x = column_id c r" using sub by auto
  then have "last_with c after (column_id c r) = Some x"
    using a by (simp add: last_with_distinct rows_ok_def)
  with False have "\<not> column_retired c x" "column_key c x = column_key c r"
    by (auto simp: gives_up_key_def)
  with x False show ?thesis by (auto simp: settled_def released_def)
qed

lemma after_settled: "x \<in> set after \<Longrightarrow> settled c after x"
  by (auto simp: settled_def)

text \<open>An effective row never meets the key of another row on the way.\<close>

lemma settled_free:
  assumes a: "rows_ok c after" and r: "r \<in> set after"
    and others: "\<forall>x\<in>set others. settled c after x \<and> column_id c x \<noteq> column_id c r"
  shows "column_retired c r \<or> column_key c r \<notin> column_key c ` {x \<in> set others. \<not> column_retired c x}"
proof (rule ccontr)
  assume "\<not> ?thesis"
  then obtain x where x: "x \<in> set others" "\<not> column_retired c x" "column_key c x = column_key c r"
      and act: "\<not> column_retired c r" by auto
  from a r have "\<And>i. column_key c r \<noteq> released_key i" by (simp add: rows_ok_def)
  moreover have "settled c after x" using others x(1) by blast
  ultimately obtain y where y: "y \<in> set after" "column_id c y = column_id c x"
      "\<not> column_retired c y" "column_key c y = column_key c r"
    using x(2,3) unfolding settled_def by metis
  then have "y = r" using distinct_active[of "column_key c" "column_retired c" after y r] a r act
    by (simp add: rows_ok_def)
  with y(2) others x(1) show False by auto
qed

lemma release_step:
  assumes b: "rows_ok c before" and r: "r \<in> set before" "r \<notin> set seen"
    and seen: "set seen \<subseteq> set before" and up: "gives_up_key c after r"
    and t: "set table = set before"
  shows "update_row c (column_id c r) (with_key c (released_key (column_id c r)))
      (map (\<lambda>x. if x \<in> set seen then released c after x else x) table) =
    Inr (map (\<lambda>x. if x \<in> set (seen @ [r]) then released c after x else x) table)"
proof -
  let ?now = "map (\<lambda>x. if x \<in> set seen then released c after x else x) table"
  have inj: "inj_on (column_id c) (set before)" using b by (simp add: rows_ok_def distinct_map)
  have same: "column_id c (if x \<in> set seen then released c after x else x) = column_id c x" for x by simp
  have only: "x = r" if "x \<in> set before" "column_id c x = column_id c r" for x
    using inj that r(1) by (auto dest: inj_onD)
  have act: "\<not> column_retired c r" using up by (simp add: gives_up_key_def)
  have check: "row_checks c r" using b r(1) by (simp add: rows_ok_def)
  then have none: "column_merged c r = None"
    using act by (auto simp: row_checks_def split: option.splits)
  let ?K = "released_key (column_id c r)"
  let ?others = "filter (\<lambda>x. column_id c x \<noteq> column_id c r) ?now"
  have free: "column_key c y \<noteq> ?K" if "y \<in> set ?others" for y
  proof -
    from that t obtain x where x: "x \<in> set before" "y = (if x \<in> set seen then released c after x else x)"
        "column_id c y \<noteq> column_id c r" by auto
    then have "column_id c x \<noteq> column_id c r" using same[of x] by simp
    moreover have "column_key c x \<noteq> ?K" using x(1) b by (simp add: rows_ok_def)
    ultimately show ?thesis using x(2) by (simp add: released_key_cases)
  qed
  have "row_checks c (with_key c ?K r)"
    using check none by (simp add: row_checks_def with_key_key with_key_same)
  moreover have "?K \<notin> column_key c ` {x \<in> set ?others. \<not> column_retired c x}"
  proof
    assume "?K \<in> column_key c ` {x \<in> set ?others. \<not> column_retired c x}"
    then obtain y where "y \<in> set ?others" "?K = column_key c y" by (elim imageE CollectE conjE) blast
    with free[of y] show False by metis
  qed
  ultimately have "row_fits c ?others (with_key c ?K r)"
    using none by (simp add: row_fits_def with_key_key with_key_same)
  moreover have "x = r" if "x \<in> set ?now" "column_id c x = column_id c r" for x
  proof -
    from that(1) obtain y where y: "y \<in> set before" "x = (if y \<in> set seen then released c after y else y)"
      using t by auto
    with that(2) same[of y] only[of y] r(2) show ?thesis by simp
  qed
  ultimately have "update_row c (column_id c r) (with_key c (released_key (column_id c r))) ?now =
      Inr (map (\<lambda>x. if column_id c x = column_id c r then with_key c (released_key (column_id c r)) x
        else x) ?now)"
    unfolding update_row_def by (metis (no_types, lifting))
  moreover have "map (\<lambda>x. if column_id c x = column_id c r then with_key c (released_key (column_id c r)) x
        else x) ?now = map (\<lambda>x. if x \<in> set (seen @ [r]) then released c after x else x) table"
  proof -
    have "(\<lambda>x. if column_id c x = column_id c r then with_key c (released_key (column_id c r)) x else x)
        (if x \<in> set seen then released c after x else x) =
        (if x \<in> set (seen @ [r]) then released c after x else x)" if "x \<in> set table" for x
      using only[of x] that t r(2) up same[of x] by (auto simp: released_def)
    then show ?thesis by simp
  qed
  ultimately show ?thesis by simp
qed

lemma release_run:
  assumes b: "rows_ok c before" and t: "set table = set before"
  shows "release_keys c fold_calm name before after table = Inr (map (released c after) table)"
proof -
  have run: "fold_result (\<lambda>table r. if gives_up_key c after r
       then releaseFoldCollisionKey c fold_calm name table (column_id c r) else Inr table)
      (map (\<lambda>x. if x \<in> set seen then released c after x else x) table) todo =
    Inr (map (\<lambda>x. if x \<in> set (seen @ todo) then released c after x else x) table)"
    if "before = seen @ todo" for seen todo
    using that
  proof (induction todo arbitrary: seen)
    case (Cons r todo)
    have r: "r \<in> set before" "r \<notin> set seen" "set seen \<subseteq> set before"
      using Cons.prems b by (auto simp: rows_ok_def distinct_map)
    have step: "(if gives_up_key c after r then releaseFoldCollisionKey c fold_calm name
        (map (\<lambda>x. if x \<in> set seen then released c after x else x) table) (column_id c r)
        else Inr (map (\<lambda>x. if x \<in> set seen then released c after x else x) table)) =
      Inr (map (\<lambda>x. if x \<in> set (seen @ [r]) then released c after x else x) table)"
    proof (cases "gives_up_key c after r")
      case True
      then show ?thesis
        using release_step[OF b r True t] by (simp add: releaseFoldCollisionKey_def)
    next
      case False
      then have "released c after r = r" by (simp add: released_def)
      with False show ?thesis by auto
    qed
    have next_step: "before = (seen @ [r]) @ todo" using Cons.prems by simp
    show ?case
      unfolding fold_result.simps step bind_result_simps Cons.IH[OF next_step] by simp
  qed simp
  from run[of "[]" before] t show ?thesis
    by (simp add: release_keys_def cong: map_cong)
qed

lemma insert_step:
  assumes a: "rows_ok c after" and split: "after = seen @ r # todo"
    and new: "column_id c r \<notin> column_id c ` set before" and t: "set table = set before"
    and sub: "column_id c ` set before \<subseteq> column_id c ` set after"
    and order: "merge_in_order c before after (length seen)"
  shows "insert_row c r (map (released c after) table @
      filter (\<lambda>x. column_id c x \<notin> column_id c ` set before) seen) =
    Inr (map (released c after) table @ filter (\<lambda>x. column_id c x \<notin> column_id c ` set before) (seen @ [r]))"
proof -
  let ?now = "map (released c after) table @ filter (\<lambda>x. column_id c x \<notin> column_id c ` set before) seen"
  have r: "r \<in> set after" using split by simp
  have ids: "column_id c ` set ?now = column_id c ` set before \<union> column_id c ` set seen"
  proof -
    have "column_id c ` released c after ` set table = column_id c ` set before"
      by (simp add: image_image t)
    then show ?thesis by (auto simp: image_Un)
  qed
  have "column_id c r \<notin> column_id c ` set seen" using a split by (auto simp: rows_ok_def)
  with new ids have fresh: "column_id c r \<notin> column_id c ` set ?now" by simp
  have "settled c after x \<and> column_id c x \<noteq> column_id c r" if "x \<in> set ?now" for x
  proof
    show "column_id c x \<noteq> column_id c r" using fresh imageI[OF that, of "column_id c"] by metis
    show "settled c after x"
      using that released_settled[OF a] sub t split by (auto intro: after_settled)
  qed
  then have free: "column_retired c r \<or>
      column_key c r \<notin> column_key c ` {x \<in> set ?now. \<not> column_retired c x}"
    by (intro settled_free[OF a r]) blast
  have "d \<in> column_id c ` set ?now" if "column_merged c r = Some d" for d
  proof -
    have "after ! length seen = r" "take (length seen) after = seen" using split by simp_all
    then show ?thesis using order new that unfolding ids merge_in_order_def by simp
  qed
  then have "row_fits c ?now r"
    using a r free by (auto simp: row_fits_def rows_ok_def split: option.split)
  with fresh new show ?thesis by (simp add: insert_row_def)
qed

lemma insert_refused:
  assumes split: "after = seen @ r # todo" and t: "set table = set before"
    and order: "\<not> merge_in_order c before after (length seen)"
  shows "insert_row c r (map (released c after) table @
      filter (\<lambda>x. column_id c x \<notin> column_id c ` set before) seen) = Inl constraint_failed"
proof -
  have at: "after ! length seen = r" "take (length seen) after = seen" using split by simp_all
  have "column_id c ` released c after ` set table = column_id c ` set before"
    by (simp add: image_image t)
  then have "column_id c ` set (map (released c after) table @
      filter (\<lambda>x. column_id c x \<notin> column_id c ` set before) seen) \<subseteq>
      column_id c ` set before \<union> column_id c ` set seen"
    by (auto simp: image_Un)
  moreover obtain d where "column_merged c r = Some d" "d \<notin> column_id c ` set before \<union> column_id c ` set seen"
    using order unfolding merge_in_order_def at by (auto split: option.splits)
  ultimately show ?thesis by (auto simp: insert_row_def row_fits_def)
qed

text \<open>Insertion proceeds up to the first row that is merged into a later new one.\<close>

lemma insert_run:
  assumes a: "rows_ok c after" and t: "set table = set before"
    and sub: "column_id c ` set before \<subseteq> column_id c ` set after"
  shows "insert_missing c fold_calm name before after (map (released c after) table) =
    (if merges_in_order c before after
     then Inr (map (released c after) table @ filter (\<lambda>x. column_id c x \<notin> column_id c ` set before) after)
     else Inl (mapDriverError constraint_failed CodeStoreError))"
proof -
  let ?now = "\<lambda>xs. map (released c after) table @ filter (\<lambda>x. column_id c x \<notin> column_id c ` set before) xs"
  let ?f = "\<lambda>table r. if last_with c before (column_id c r) \<noteq> None then Inr table
       else fold_exec fold_calm (CallInsert name (column_id c r)) (insert_row c r table)"
  have run: "fold_result ?f (?now seen) todo =
      (if \<forall>i\<in>{length seen ..< length after}. merge_in_order c before after i then Inr (?now (seen @ todo))
       else Inl (mapDriverError constraint_failed CodeStoreError))"
    if "after = seen @ todo" for seen todo
    using that
  proof (induction todo arbitrary: seen)
    case (Cons r todo)
    have next_step: "after = (seen @ [r]) @ todo" using Cons.prems by simp
    have at: "after ! length seen = r" using Cons.prems by simp
    have range: "{length seen ..< length after} = insert (length seen) {length (seen @ [r]) ..< length after}"
      using Cons.prems by auto
    show ?case
    proof (cases "merge_in_order c before after (length seen)")
      case True
      have step: "?f (?now seen) r = Inr (?now (seen @ [r]))"
        using insert_step[OF a Cons.prems _ t sub True] by (simp add: last_with_None)
      show ?thesis
        unfolding fold_result.simps step bind_result_simps Cons.IH[OF next_step] range using True by simp
    next
      case False
      then have "last_with c before (column_id c r) = None"
        by (simp add: merge_in_order_def at last_with_None)
      then have "?f (?now seen) r = Inl (mapDriverError constraint_failed CodeStoreError)"
        using insert_refused[OF Cons.prems t False] by simp
      with False show ?thesis unfolding fold_result.simps range by simp
    qed
  qed simp
  from run[of "[]" after] show ?thesis
    by (simp add: insert_missing_def merges_in_order_def Ball_def)
qed

lemma updated_to_row:
  assumes "rows_ok c after" and "a \<in> set after" and "column_id c x = column_id c a"
  shows "updated_to c after seen x = (if a \<in> set seen \<or> column_id c a \<in> column_id c ` set seen then a else x)"
proof -
  have "last_with c after (column_id c a) = Some a"
    using assms by (simp add: last_with_distinct rows_ok_def)
  then show ?thesis using assms(3) by (auto simp: updated_to_def)
qed

lemma updated_to_id:
  assumes "rows_ok c after" and "set seen \<subseteq> set after"
  shows "column_id c (updated_to c after seen x) = column_id c x"
proof (cases "column_id c x \<in> column_id c ` set seen")
  case True
  then obtain a where "a \<in> set after" "column_id c x = column_id c a" using assms(2) by auto
  then show ?thesis using updated_to_row[OF assms(1)] by simp
qed (simp add: updated_to_def)

lemma update_step:
  assumes a: "rows_ok c after" and split: "after = seen @ r # todo"
    and ids: "column_id c ` set table = column_id c ` set after"
    and ok: "\<forall>x\<in>set table. settled c after x"
  shows "update_row c (column_id c r) (\<lambda>_. r) (map (updated_to c after seen) table) =
    Inr (map (updated_to c after (seen @ [r])) table)"
proof -
  let ?now = "map (updated_to c after seen) table"
  let ?others = "filter (\<lambda>x. column_id c x \<noteq> column_id c r) ?now"
  have r: "r \<in> set after" and sub: "set seen \<subseteq> set after" using split by auto
  have now_ids: "column_id c ` set ?now = column_id c ` set after"
    using ids by (simp add: image_image updated_to_id[OF a sub])
  have "settled c after (updated_to c after seen y)" if y: "y \<in> set table" for y
  proof (cases "column_id c y \<in> column_id c ` set seen")
    case True
    then obtain x where x: "x \<in> set seen" "column_id c y = column_id c x" by auto
    then have "updated_to c after seen y = x" using updated_to_row[OF a] sub by auto
    with x(1) sub show ?thesis by (auto intro: after_settled)
  next
    case False
    then show ?thesis using ok y by (simp add: updated_to_def)
  qed
  then have free: "column_retired c r \<or>
      column_key c r \<notin> column_key c ` {x \<in> set ?others. \<not> column_retired c x}"
    by (intro settled_free[OF a r]) auto
  have "d \<in> column_id c ` set ?others" if d: "column_merged c r = Some d" for d
  proof -
    have "row_checks c r" "d \<in> column_id c ` set ?now" using a r d now_ids by (auto simp: rows_ok_def)
    then show ?thesis using d by (auto simp: row_checks_def)
  qed
  then have "row_fits c ?others r"
    using a r free by (auto simp: row_fits_def rows_ok_def split: option.split)
  then have "update_row c (column_id c r) (\<lambda>_. r) ?now =
      Inr (map (\<lambda>x. if column_id c x = column_id c r then r else x) ?now)"
    by (simp add: update_row_def)
  moreover have "(if column_id c (updated_to c after seen y) = column_id c r then r
      else updated_to c after seen y) = updated_to c after (seen @ [r]) y" for y
  proof (cases "column_id c y = column_id c r")
    case True
    then show ?thesis using updated_to_row[OF a r True] by (simp add: updated_to_id[OF a sub])
  next
    case False
    then show ?thesis using updated_to_id[OF a sub, of y] by (simp add: updated_to_def)
  qed
  ultimately show ?thesis by simp
qed

lemma update_run:
  assumes a: "rows_ok c after" and ids: "column_id c ` set table = column_id c ` set after"
    and ok: "\<forall>x\<in>set table. settled c after x"
    and same: "\<And>x r. x \<in> set table \<Longrightarrow> r \<in> set after \<Longrightarrow> column_id c x = column_id c r \<Longrightarrow>
      last_with c before (column_id c r) \<in> {None, Some r} \<Longrightarrow> x = r"
  shows "update_changed c fold_calm name before after table = Inr (map (updated_to c after after) table)"
proof -
  have run: "fold_result (\<lambda>table r. case last_with c before (column_id c r) of
         None \<Rightarrow> Inr table
       | Some previous \<Rightarrow> if previous = r then Inr table
           else fold_exec fold_calm (CallUpdate name (column_id c r))
             (update_row c (column_id c r) (\<lambda>_. r) table))
      (map (updated_to c after seen) table) todo = Inr (map (updated_to c after (seen @ todo)) table)"
    if "after = seen @ todo" for seen todo
    using that
  proof (induction todo arbitrary: seen)
    case (Cons r todo)
    have r: "r \<in> set after" using Cons.prems by simp
    have step: "(case last_with c before (column_id c r) of
         None \<Rightarrow> Inr (map (updated_to c after seen) table)
       | Some previous \<Rightarrow> if previous = r then Inr (map (updated_to c after seen) table)
           else fold_exec fold_calm (CallUpdate name (column_id c r))
             (update_row c (column_id c r) (\<lambda>_. r) (map (updated_to c after seen) table))) =
       Inr (map (updated_to c after (seen @ [r])) table)"
    proof (cases "last_with c before (column_id c r) \<in> {None, Some r}")
      case True
      have "updated_to c after seen x = updated_to c after (seen @ [r]) x" if x: "x \<in> set table" for x
      proof (cases "column_id c x = column_id c r")
        case same_id: True
        then show ?thesis
          using same[OF x r same_id True] updated_to_row[OF a r same_id] by simp
      next
        case False
        then show ?thesis by (simp add: updated_to_def)
      qed
      with True show ?thesis by auto
    next
      case False
      then show ?thesis using update_step[OF a Cons.prems ids ok] by (auto split: option.split)
    qed
    have next_step: "after = (seen @ [r]) @ todo" using Cons.prems by simp
    show ?case unfolding fold_result.simps step bind_result_simps Cons.IH[OF next_step] by simp
  qed simp
  have "map (updated_to c after []) table = table" by (simp add: updated_to_def[abs_def])
  with run[of "[]" after] show ?thesis by (simp add: update_changed_def)
qed

text \<open>Insertions and updates leave exactly the effective rows.\<close>

lemma table_run:
  assumes a: "rows_ok c after" and d: "distinct (map (column_id c) before)"
    and t: "mset table = mset before"
    and sub: "column_id c ` set before \<subseteq> column_id c ` set after"
    and order: "merges_in_order c before after"
  shows "\<exists>rows result. insert_missing c fold_calm name before after (map (released c after) table) = Inr rows
    \<and> update_changed c fold_calm name before after rows = Inr result \<and> mset result = mset after"
proof -
  let ?new = "filter (\<lambda>x. column_id c x \<notin> column_id c ` set before) after"
  let ?rows = "map (released c after) table @ ?new"
  have t': "set table = set before" using t by (rule mset_eq_setD)
  have ids: "column_id c ` set ?rows = column_id c ` set after"
  proof -
    have "column_id c ` released c after ` set table = column_id c ` set before"
      by (simp add: image_image t')
    then show ?thesis using sub by (auto simp: image_Un)
  qed
  have ok: "\<forall>x\<in>set ?rows. settled c after x"
    using released_settled[OF a] sub t' by (auto intro: after_settled)
  have same: "x = r" if x: "x \<in> set ?rows" "r \<in> set after" "column_id c x = column_id c r"
      "last_with c before (column_id c r) \<in> {None, Some r}" for x r
  proof (cases "x \<in> set ?new")
    case True
    then show ?thesis using a x(2,3) by (auto simp: rows_ok_def distinct_map dest: inj_onD)
  next
    case False
    with x(1) t' obtain y where y: "y \<in> set before" "x = released c after y" by auto
    then have "last_with c before (column_id c r) = Some y" using x(3) d by (simp add: last_with_distinct)
    with x(4) have "y = r" by simp
    moreover have "last_with c after (column_id c r) = Some r"
      using a x(2) by (simp add: last_with_distinct rows_ok_def)
    ultimately show ?thesis using y(2) by (simp add: released_def gives_up_key_def)
  qed
  let ?result = "map (updated_to c after after) ?rows"
  have row: "updated_to c after after x = y" if "y \<in> set after" "column_id c x = column_id c y" for x y
    using updated_to_row[OF a that] that(1) by simp
  have "set ?result = set after"
  proof
    show "set ?result \<subseteq> set after"
    proof
      fix x assume "x \<in> set ?result"
      then obtain y where y: "y \<in> set ?rows" "x = updated_to c after after y" by auto
      then have "column_id c y \<in> column_id c ` set after" using ids by blast
      with y(2) row show "x \<in> set after" by auto
    qed
    show "set after \<subseteq> set ?result"
    proof
      fix x assume x: "x \<in> set after"
      then have "column_id c x \<in> column_id c ` set ?rows" using ids by blast
      then obtain y where y: "column_id c x = column_id c y" "y \<in> set ?rows" by (rule imageE)
      have "updated_to c after after y = x" by (rule row[OF x y(1)[symmetric]])
      then show "x \<in> set ?result" unfolding set_map using y(2) by blast
    qed
  qed
  moreover have "distinct (map (column_id c) ?rows)"
  proof -
    have "distinct (map (column_id c) table)" using d t distinct_map_mset by blast
    moreover have "distinct (map (column_id c) ?new)"
      using a by (simp add: rows_ok_def distinct_map_filter)
    moreover have "column_id c ` set before \<inter> column_id c ` set ?new = {}"
    proof -
      have "y \<notin> column_id c ` set before" if "y \<in> column_id c ` set ?new" for y
        using that by auto
      then show ?thesis by blast
    qed
    moreover have "map (column_id c) ?rows = map (column_id c) table @ map (column_id c) ?new" by simp
    ultimately show ?thesis by (simp only: distinct_append set_map t')
  qed
  then have "distinct (map (column_id c) ?result)"
    by (simp add: comp_def updated_to_id[OF a order_refl])
  then have "distinct ?result" by (simp only: distinct_map)
  moreover have "distinct after" using a by (simp add: rows_ok_def distinct_map)
  ultimately have "mset ?result = mset after" by (simp only: set_eq_iff_mset_eq_distinct)
  moreover have "insert_missing c fold_calm name before after (map (released c after) table) = Inr ?rows"
    using insert_run[OF a t' sub] order by simp
  moreover have "update_changed c fold_calm name before after ?rows = Inr ?result"
    by (rule update_run[OF a ids ok same])
  ultimately show ?thesis by blast
qed

end

interpretation merchant_fold: fold_table merchant_columns
  by unfold_locales (simp_all add: merchant_columns_def)

interpretation group_fold: fold_table group_columns
  by unfold_locales (simp_all add: group_columns_def)

interpretation category_fold: fold_table "category_columns gs"
  by unfold_locales (simp_all add: category_columns_def)

subsection \<open>The transactions\<close>

text \<open>The columns of a transaction that no operation changes.\<close>

definition record_fixed :: "transaction_record \<Rightarrow> _" where
  "record_fixed r = (record_id r, record_account r, record_provider r, record_provider_id r, record_date r, record_amount r)"

lemma record_fixed_checks:
  "record_fixed x = record_fixed r \<Longrightarrow> transaction_checks x = transaction_checks r"
  by (simp add: record_fixed_def transaction_checks_def)

definition transactions_ok :: "transaction_record list \<Rightarrow> bool" where
  "transactions_ok rows \<longleftrightarrow> distinct (map record_id rows) \<and> (\<forall>r\<in>set rows. transaction_checks r)
     \<and> distinct (map (\<lambda>r. (record_provider r, record_provider_id r)) rows)"

definition references_ok :: "ledger_tables \<Rightarrow> transaction_record \<Rightarrow> bool" where
  "references_ok db r \<longleftrightarrow> record_account r \<in> account_id ` set (table_accounts db)
     \<and> record_merchant r \<in> merchant_id ` set (table_merchants db)
     \<and> record_category r \<in> category_id ` set (table_categories db)"

lemma last_transaction_distinct:
  assumes "distinct (map record_id rows)"
  shows "last_transaction rows k = Some r \<longleftrightarrow> r \<in> set rows \<and> record_id r = k"
proof -
  have d: "distinct (map record_id (rev rows))" using assms by (simp add: rev_map[symmetric])
  have "List.find (\<lambda>x. record_id x = k) xs = Some r \<longleftrightarrow> r \<in> set xs \<and> record_id r = k"
    if "distinct (map record_id xs)" for xs
    using that by (induction xs) auto
  from this[OF d] show ?thesis by (simp add: last_transaction_def)
qed

lemma delete_run:
  "delete_missing fold_calm before after db = Inr (db\<lparr>table_transactions :=
     filter (\<lambda>x. record_id x \<in> record_id ` set after \<or> record_id x \<notin> record_id ` set before)
       (table_transactions db)\<rparr>)"
proof -
  have "fold_result (\<lambda>db r. if record_id r \<in> record_id ` set after then Inr db
       else fold_exec fold_calm (CallDeleteTransaction (record_id r)) (Inr (db\<lparr>table_transactions :=
         filter (\<lambda>x. record_id x \<noteq> record_id r) (table_transactions db)\<rparr>))) db todo =
    Inr (db\<lparr>table_transactions :=
     filter (\<lambda>x. record_id x \<in> record_id ` set after \<or> record_id x \<notin> record_id ` set todo)
       (table_transactions db)\<rparr>)" for todo
    by (induction todo arbitrary: db)
      (auto intro!: filter_cong arg_cong[where f = "\<lambda>rows. table_transactions_update (\<lambda>_. rows) db" for db])
  then show ?thesis by (simp add: delete_missing_def)
qed

definition replaced_by :: "transaction_record list \<Rightarrow> transaction_record list \<Rightarrow> transaction_record \<Rightarrow> transaction_record" where
  "replaced_by after seen x = (if record_id x \<in> record_id ` set seen
     then the (last_transaction after (record_id x)) else x)"

lemma replaced_by_row:
  assumes "distinct (map record_id after)" and "a \<in> set after" and "record_id x = record_id a"
  shows "replaced_by after seen x = (if record_id a \<in> record_id ` set seen then a else x)"
proof -
  have "last_transaction after (record_id a) = Some a" using assms by (simp add: last_transaction_distinct)
  then show ?thesis using assms(3) by (simp add: replaced_by_def)
qed

lemma replaced_by_fixed:
  assumes "distinct (map record_id after)" and "set seen \<subseteq> set after"
    and "\<forall>a\<in>set after. record_id x = record_id a \<longrightarrow> record_fixed x = record_fixed a"
  shows "record_fixed (replaced_by after seen x) = record_fixed x"
proof (cases "record_id x \<in> record_id ` set seen")
  case True
  then obtain a where "a \<in> set after" "record_id x = record_id a" using assms(2) by auto
  then show ?thesis using replaced_by_row[OF assms(1)] assms(3) by simp
qed (simp add: replaced_by_def)

lemma update_transaction_step:
  assumes a: "distinct (map record_id after)" and split: "after = seen @ r # todo"
    and d: "distinct (map (\<lambda>x. (record_provider x, record_provider_id x)) rows)"
    and checks: "\<forall>x\<in>set rows. transaction_checks x" and ids: "record_id r \<in> record_id ` set rows"
    and fixed: "\<forall>x\<in>set rows. \<forall>a\<in>set after. record_id x = record_id a \<longrightarrow> record_fixed x = record_fixed a"
    and refs: "references_ok db r"
  shows "update_transaction r (db\<lparr>table_transactions := map (replaced_by after seen) rows\<rparr>) =
    Inr (db\<lparr>table_transactions := map (replaced_by after (seen @ [r])) rows\<rparr>)"
proof -
  have r: "r \<in> set after" and sub: "set seen \<subseteq> set after" using split by auto
  have same: "record_fixed (replaced_by after seen x) = record_fixed x" if "x \<in> set rows" for x
    using replaced_by_fixed[OF a sub] fixed that by blast
  then have same_id: "record_id (replaced_by after seen x) = record_id x" if "x \<in> set rows" for x
    using that by (simp add: record_fixed_def)
  obtain y where y: "y \<in> set rows" "record_id y = record_id r" using ids by auto
  with fixed r have yr: "record_fixed y = record_fixed r" by blast
  have "transaction_checks r" using record_fixed_checks[OF yr] checks y(1) by simp
  moreover have "\<not> (record_provider x = record_provider r \<and> record_provider_id x = record_provider_id r)"
    if "x \<in> set (map (replaced_by after seen) rows)" "record_id x \<noteq> record_id r" for x
  proof
    assume p: "record_provider x = record_provider r \<and> record_provider_id x = record_provider_id r"
    from that(1) obtain z where z: "z \<in> set rows" "x = replaced_by after seen z" by auto
    then have "(record_provider z, record_provider_id z) = (record_provider y, record_provider_id y)"
      using p same[OF z(1)] yr by (simp add: record_fixed_def)
    then have "z = y" using d z(1) y(1) by (auto simp: distinct_map dest: inj_onD)
    then show False using that(2) same_id[OF z(1)] y(2) z(2) by simp
  qed
  ultimately have "transaction_fits (db\<lparr>table_transactions := map (replaced_by after seen) rows\<rparr>)
      (filter (\<lambda>x. record_id x \<noteq> record_id r) (map (replaced_by after seen) rows)) r"
    using refs by (auto simp: transaction_fits_def references_ok_def)
  then have "update_transaction r (db\<lparr>table_transactions := map (replaced_by after seen) rows\<rparr>) =
      Inr (db\<lparr>table_transactions := map (\<lambda>x. if record_id x = record_id r then r else x)
        (map (replaced_by after seen) rows)\<rparr>)"
    by (simp add: update_transaction_def)
  moreover have "map (\<lambda>x. if record_id x = record_id r then r else x) (map (replaced_by after seen) rows) =
      map (replaced_by after (seen @ [r])) rows"
  proof -
    have "(if record_id (replaced_by after seen x) = record_id r then r else replaced_by after seen x) =
        replaced_by after (seen @ [r]) x" if x: "x \<in> set rows" for x
    proof (cases "record_id x = record_id r")
      case True
      then show ?thesis using replaced_by_row[OF a r True] same_id[OF x] by simp
    next
      case False
      then show ?thesis using same_id[OF x] by (simp add: replaced_by_def)
    qed
    then show ?thesis by simp
  qed
  ultimately show ?thesis by simp
qed

lemma update_transactions_run:
  assumes a: "distinct (map record_id after)" and b: "distinct (map record_id before)"
    and d: "distinct (map (\<lambda>x. (record_provider x, record_provider_id x)) rows)"
    and checks: "\<forall>x\<in>set rows. transaction_checks x"
    and ids: "record_id ` set after \<subseteq> record_id ` set rows" and old: "set rows \<subseteq> set before"
    and fixed: "\<forall>x\<in>set rows. \<forall>a\<in>set after. record_id x = record_id a \<longrightarrow> record_fixed x = record_fixed a"
    and refs: "\<forall>r\<in>set after. references_ok db r"
  shows "fold_result (\<lambda>db r. if last_transaction before (record_id r) = Some r then Inr db
       else fold_exec fold_calm (CallUpdate ''transactions'' (record_id r)) (update_transaction r db))
      (db\<lparr>table_transactions := rows\<rparr>) after = Inr (db\<lparr>table_transactions := map (replaced_by after after) rows\<rparr>)"
proof -
  let ?f = "\<lambda>db r. if last_transaction before (record_id r) = Some r then Inr db
       else fold_exec fold_calm (CallUpdate ''transactions'' (record_id r)) (update_transaction r db)"
  let ?db = "\<lambda>seen. db\<lparr>table_transactions := map (replaced_by after seen) rows\<rparr>"
  have run: "fold_result ?f (?db seen) todo = Inr (?db (seen @ todo))" if "after = seen @ todo" for seen todo
    using that
  proof (induction todo arbitrary: seen)
    case (Cons r todo)
    have r: "r \<in> set after" using Cons.prems by simp
    have step: "?f (?db seen) r = Inr (?db (seen @ [r]))"
    proof (cases "last_transaction before (record_id r) = Some r")
      case True
      have "replaced_by after seen x = replaced_by after (seen @ [r]) x" if x: "x \<in> set rows" for x
      proof (cases "record_id x = record_id r")
        case same_id: True
        have "x = r"
          using b x old same_id True unfolding last_transaction_distinct[OF b]
          by (auto simp: distinct_map dest: inj_onD)
        then show ?thesis using replaced_by_row[OF a r same_id] by simp
      next
        case False
        then show ?thesis by (simp add: replaced_by_def)
      qed
      with True show ?thesis by simp
    next
      case False
      have "record_id r \<in> record_id ` set rows" using ids r by blast
      then show ?thesis
        using update_transaction_step[OF a Cons.prems d checks _ fixed] refs r False by simp
    qed
    have next_step: "after = (seen @ [r]) @ todo" using Cons.prems by simp
    show ?case unfolding fold_result.simps step bind_result_simps Cons.IH[OF next_step] by simp
  qed simp
  have "map (replaced_by after []) rows = rows" by (simp add: replaced_by_def[abs_def])
  with run[of "[]" after] show ?thesis by simp
qed

lemma foldTransactions_run:
  assumes b: "transactions_ok before" and t: "mset (table_transactions db) = mset before"
    and a: "distinct (map record_id after)"
    and kept: "\<forall>r\<in>set after. \<exists>x\<in>set before. record_fixed x = record_fixed r"
    and refs: "\<forall>r\<in>set after. references_ok db r"
  shows "\<exists>rows. foldTransactions fold_calm before after db = Inr (db\<lparr>table_transactions := rows\<rparr>)
    \<and> mset rows = mset after"
proof -
  let ?rows = "filter (\<lambda>x. record_id x \<in> record_id ` set after \<or> record_id x \<notin> record_id ` set before)
    (table_transactions db)"
  let ?result = "map (replaced_by after after) ?rows"
  have t': "set (table_transactions db) = set before" using t by (rule mset_eq_setD)
  have bd: "distinct (map record_id before)" using b by (simp add: transactions_ok_def)
  have fixed: "\<forall>x\<in>set ?rows. \<forall>a\<in>set after. record_id x = record_id a \<longrightarrow> record_fixed x = record_fixed a"
  proof (intro ballI impI)
    fix x r assume x: "x \<in> set ?rows" and r: "r \<in> set after" "record_id x = record_id r"
    from kept r obtain y where y: "y \<in> set before" "record_fixed y = record_fixed r" by blast
    have "record_id y = record_id x" using y(2) r(2) by (simp add: record_fixed_def)
    moreover have "x \<in> set before" using x t' by simp
    ultimately have "y = x" using bd y(1) unfolding distinct_map by (blast dest: inj_onD)
    with y show "record_fixed x = record_fixed r" by simp
  qed
  have ids: "record_id r \<in> record_id ` set ?rows" if r: "r \<in> set after" for r
  proof -
    from kept r obtain y where y: "y \<in> set before" "record_id y = record_id r" by (auto simp: record_fixed_def)
    with r t' have "y \<in> set ?rows" by simp
    then have "record_id y \<in> record_id ` set ?rows" by (rule imageI)
    with y(2) show ?thesis by (simp only:)
  qed
  have pairs: "distinct (map (\<lambda>x. (record_provider x, record_provider_id x)) (table_transactions db))"
      and dist: "distinct (map record_id (table_transactions db))"
    using b distinct_map_mset[OF t, of record_id]
      distinct_map_mset[OF t, of "\<lambda>x. (record_provider x, record_provider_id x)"]
    by (simp_all add: transactions_ok_def)
  have "foldTransactions fold_calm before after db = Inr (db\<lparr>table_transactions := ?result\<rparr>)"
    unfolding foldTransactions_def delete_run bind_result_simps
  proof (rule update_transactions_run[OF a bd _ _ _ _ fixed refs])
    show "distinct (map (\<lambda>x. (record_provider x, record_provider_id x)) ?rows)"
      using pairs by (rule distinct_map_filter)
    show "\<forall>x\<in>set ?rows. transaction_checks x" using b t' by (simp add: transactions_ok_def)
    show "record_id ` set after \<subseteq> record_id ` set ?rows" using ids by blast
    show "set ?rows \<subseteq> set before" using t' by auto
  qed
  moreover have "mset ?result = mset after"
  proof -
    have row: "replaced_by after after x = r" if "r \<in> set after" "record_id x = record_id r" for x r
      using replaced_by_row[OF a that] that(1) by simp
    have "set ?result \<subseteq> set after"
    proof
      fix x assume "x \<in> set ?result"
      then obtain y where y: "y \<in> set ?rows" "x = replaced_by after after y" by auto
      then have "record_id y \<in> record_id ` set after" using t' by auto
      with y(2) row show "x \<in> set after" by auto
    qed
    moreover have "set after \<subseteq> set ?result"
    proof
      fix r assume r: "r \<in> set after"
      from ids[OF r] obtain y where y: "record_id r = record_id y" "y \<in> set ?rows" by (rule imageE)
      have "replaced_by after after y = r" by (rule row[OF r y(1)[symmetric]])
      then show "r \<in> set ?result" unfolding set_map using y(2) by blast
    qed
    moreover have "map record_id ?result = map record_id ?rows"
    proof -
      have "record_id (replaced_by after after x) = record_id x" if "x \<in> set ?rows" for x
        using replaced_by_fixed[OF a order_refl] fixed that by (auto simp: record_fixed_def)
      then show ?thesis by simp
    qed
    then have "distinct (map record_id ?result)"
      using dist by (simp only: distinct_map_filter)
    ultimately show ?thesis using a
      by (intro set_eq_iff_mset_eq_distinct[THEN iffD1]) (auto simp only: distinct_map)
  qed
  ultimately show ?thesis by blast
qed

subsection \<open>The whole fold\<close>

text \<open>
  The tables hold the rows of a profile, in any order, and no row violates a constraint.  The keys
  of stored rows are never keys of the form that released rows hold meanwhile.
\<close>

definition holds_rows :: "profile \<Rightarrow> ledger_tables \<Rightarrow> bool" where
  "holds_rows p db \<longleftrightarrow> mset (table_accounts db) = mset (accounts p)
     \<and> mset (table_merchants db) = mset (merchants p) \<and> mset (table_groups db) = mset (groups p)
     \<and> mset (table_categories db) = mset (categories p)
     \<and> mset (table_transactions db) = mset (transactions p)
     \<and> mset (table_identities db) = mset (identities p)"

definition keys_plain :: "profile \<Rightarrow> bool" where
  "keys_plain p \<longleftrightarrow> (\<forall>k \<in> merchant_key ` set (merchants p) \<union> group_key ` set (groups p)
      \<union> category_key ` set (categories p). \<forall>i. k \<noteq> released_key i)"

text \<open>What a fold may change: no entity disappears, no transaction is new or another one.\<close>

definition fold_shape :: "profile \<Rightarrow> profile \<Rightarrow> bool" where
  "fold_shape p q \<longleftrightarrow> mset (accounts q) = mset (accounts p) \<and> mset (identities q) = mset (identities p)
     \<and> merchant_id ` set (merchants p) \<subseteq> merchant_id ` set (merchants q)
     \<and> group_id ` set (groups p) \<subseteq> group_id ` set (groups q)
     \<and> category_id ` set (categories p) \<subseteq> category_id ` set (categories q)
     \<and> record_fixed ` set (transactions q) \<subseteq> record_fixed ` set (transactions p)"

text \<open>New entities are merged only into entities that come before them.\<close>

definition merges_ordered :: "profile \<Rightarrow> profile \<Rightarrow> bool" where
  "merges_ordered p q \<longleftrightarrow> merges_in_order merchant_columns (merchants p) (merchants q)
     \<and> merges_in_order group_columns (groups p) (groups q)
     \<and> merges_in_order (category_columns []) (categories p) (categories q)"

lemma merge_ok_ids: "merge_ok ident retired merged rows x \<Longrightarrow> merged x = Some d \<Longrightarrow>
    retired x \<and> d \<noteq> ident x \<and> d \<in> ident ` set rows"
  by (auto simp: merge_ok_def has_active_def)

lemma has_active_id: "has_active ident retired rows k \<Longrightarrow> k \<in> ident ` set rows"
  by (auto simp: has_active_def)

lemma label_ok_columns:
  "label_ok casefold ident label key \<Longrightarrow> ident \<noteq> [] \<and> label \<noteq> [] \<and> key \<noteq> []"
  using CollisionKey_label_not_Nil CollisionKey_not_Nil by (fastforce simp: label_ok_def)

lemma merchant_rows_ok:
  assumes "profile_wf casefold p" and "keys_plain p"
  shows "rows_ok merchant_columns (merchants p)"
  using assms
  by (auto simp: rows_ok_def merchant_columns_def row_checks_def profile_wf_def labels_wf_def ids_wf_def
      distinct_entity_kinds collisions_wf_def references_wf_def keys_plain_def
      dest: label_ok_columns merge_ok_ids split: option.split)

lemma group_rows_ok:
  assumes "profile_wf casefold p" and "keys_plain p"
  shows "rows_ok group_columns (groups p)"
  using assms
  by (auto simp: rows_ok_def group_columns_def row_checks_def profile_wf_def labels_wf_def ids_wf_def
      distinct_entity_kinds collisions_wf_def references_wf_def keys_plain_def protection_wf_def
      dest: label_ok_columns merge_ok_ids split: option.split)

lemma category_rows_ok:
  assumes "profile_wf casefold p" and "keys_plain p" and "group_id ` set (groups p) \<subseteq> group_id ` set gs"
  shows "rows_ok (category_columns gs) (categories p)"
proof -
  have "category_group_id r \<in> group_id ` set gs" if "r \<in> set (categories p)" for r
  proof -
    have "active_group p (category_group_id r)"
      using assms(1) that unfolding profile_wf_def references_wf_def by blast
    then have "category_group_id r \<in> group_id ` set (groups p)" by (rule has_active_id)
    with assms(3) show ?thesis by blast
  qed
  with assms(1,2) show ?thesis
  by (auto simp: rows_ok_def category_columns_def row_checks_def profile_wf_def labels_wf_def ids_wf_def
      distinct_entity_kinds collisions_wf_def references_wf_def keys_plain_def protection_wf_def
      dest: label_ok_columns merge_ok_ids split: option.split)
qed

lemma released_categories: "released (category_columns gs) = released (category_columns hs)"
proof -
  have "gives_up_key (category_columns gs) = gives_up_key (category_columns hs)"
    unfolding gives_up_key_def[abs_def] last_with_def category_columns_def by (simp only: table_columns.simps)
  then show ?thesis by (simp add: fun_eq_iff released_def) (simp add: category_columns_def)
qed

lemma merges_categories:
  "merges_in_order (category_columns gs) cs ds \<longleftrightarrow> merges_in_order (category_columns hs) cs ds"
  by (simp only: merges_in_order_def merge_in_order_def category_columns_def table_columns.simps)

lemma columns_id [simp]: "column_id merchant_columns = merchant_id" "column_id group_columns = group_id"
    "column_id (category_columns gs) = category_id"
  by (simp_all add: merchant_columns_def group_columns_def category_columns_def)

abbreviation refused :: "store_error + 'a" where
  "refused \<equiv> Inl (mapDriverError constraint_failed CodeStoreError)"

lemma profile_ids_distinct:
  assumes "profile_wf casefold p"
  shows "distinct (map merchant_id (merchants p))" "distinct (map group_id (groups p))"
    "distinct (map category_id (categories p))" "distinct (map record_id (transactions p))"
  using assms by (auto simp: profile_wf_def ids_wf_def distinct_entity_kinds)

lemma fold_shape_ids:
  assumes "fold_shape p q"
  shows "merchant_id ` set (merchants p) \<subseteq> merchant_id ` set (merchants q)"
    "group_id ` set (groups p) \<subseteq> group_id ` set (groups q)"
    "category_id ` set (categories p) \<subseteq> category_id ` set (categories q)"
  using assms by (simp_all add: fold_shape_def)

lemma holds_rows_tables:
  assumes "holds_rows p db"
  shows "mset (table_merchants db) = mset (merchants p)" "mset (table_groups db) = mset (groups p)"
    "mset (table_categories db) = mset (categories p)"
  using assms by (simp_all add: holds_rows_def)

lemma releaseFold_run:
  assumes wf: "profile_wf casefold p" and keys: "keys_plain p" and db: "holds_rows p db"
  shows "releaseFoldCollisionKeys fold_calm p q db = Inr (db\<lparr>
      table_merchants := map (released merchant_columns (merchants q)) (table_merchants db),
      table_groups := map (released group_columns (groups q)) (table_groups db),
      table_categories := map (released (category_columns gs) (categories q)) (table_categories db)\<rparr>)"
proof -
  note same = holds_rows_tables[OF db, THEN mset_eq_setD]
  have gset: "group_id ` set (groups p) \<subseteq> group_id ` set (table_groups db)" by (simp add: same)
  show ?thesis
    by (simp add: releaseFoldCollisionKeys_def same
      merchant_fold.release_run[OF merchant_rows_ok[OF wf keys]]
      group_fold.release_run[OF group_rows_ok[OF wf keys]]
      category_fold.release_run[OF category_rows_ok[OF wf keys gset]]
      released_categories[of gs "table_groups db"])
qed

lemma foldGroups_run:
  assumes wf: "profile_wf casefold p" "profile_wf casefold q" and keys: "keys_plain q"
    and shape: "fold_shape p q" and t: "mset table = mset (groups p)"
    and db: "table_groups db = map (released group_columns (groups q)) table"
  shows "if merges_in_order group_columns (groups p) (groups q)
    then \<exists>gs. foldGroups fold_calm (groups p) (groups q) db = Inr (db\<lparr>table_groups := gs\<rparr>)
      \<and> mset gs = mset (groups q)
    else foldGroups fold_calm (groups p) (groups q) db = refused"
proof (cases "merges_in_order group_columns (groups p) (groups q)")
  case True
  then show ?thesis
    using group_fold.table_run[OF group_rows_ok[OF wf(2) keys] _ t, of "''category_groups''",
      unfolded columns_id, OF profile_ids_distinct(2)[OF wf(1)] fold_shape_ids(2)[OF shape]]
    by (auto simp: foldGroups_def db)
next
  case False
  then show ?thesis
    using group_fold.insert_run[OF group_rows_ok[OF wf(2) keys] mset_eq_setD[OF t], of "''category_groups''",
      unfolded columns_id, OF fold_shape_ids(2)[OF shape]]
    by (simp add: foldGroups_def db)
qed

lemma foldMerchants_run:
  assumes wf: "profile_wf casefold p" "profile_wf casefold q" and keys: "keys_plain q"
    and shape: "fold_shape p q" and t: "mset table = mset (merchants p)"
    and db: "table_merchants db = map (released merchant_columns (merchants q)) table"
  shows "if merges_in_order merchant_columns (merchants p) (merchants q)
    then \<exists>ms. foldMerchants fold_calm (merchants p) (merchants q) db = Inr (db\<lparr>table_merchants := ms\<rparr>)
      \<and> mset ms = mset (merchants q)
    else foldMerchants fold_calm (merchants p) (merchants q) db = refused"
proof (cases "merges_in_order merchant_columns (merchants p) (merchants q)")
  case True
  then show ?thesis
    using merchant_fold.table_run[OF merchant_rows_ok[OF wf(2) keys] _ t, of "''merchants''",
      unfolded columns_id, OF profile_ids_distinct(1)[OF wf(1)] fold_shape_ids(1)[OF shape]]
    by (auto simp: foldMerchants_def db)
next
  case False
  then show ?thesis
    using merchant_fold.insert_run[OF merchant_rows_ok[OF wf(2) keys] mset_eq_setD[OF t], of "''merchants''",
      unfolded columns_id, OF fold_shape_ids(1)[OF shape]]
    by (simp add: foldMerchants_def db)
qed

lemma foldCategories_run:
  assumes wf: "profile_wf casefold p" "profile_wf casefold q" and keys: "keys_plain q"
    and shape: "fold_shape p q" and t: "mset table = mset (categories p)"
    and gs: "set (table_groups db) = set (groups q)"
    and db: "table_categories db = map (released (category_columns []) (categories q)) table"
  shows "if merges_in_order (category_columns []) (categories p) (categories q)
    then \<exists>cs. foldCategories fold_calm (categories p) (categories q) db = Inr (db\<lparr>table_categories := cs\<rparr>)
      \<and> mset cs = mset (categories q)
    else foldCategories fold_calm (categories p) (categories q) db = refused"
proof -
  let ?c = "category_columns (table_groups db)"
  have ok: "rows_ok ?c (categories q)" using category_rows_ok[OF wf(2) keys] gs by simp
  note eqs = released_categories[of "[]" "table_groups db"]
  show ?thesis
  proof (cases "merges_in_order ?c (categories p) (categories q)")
    case True
    then show ?thesis
      using category_fold.table_run[OF ok _ t, of "''categories''",
        unfolded columns_id, OF profile_ids_distinct(3)[OF wf(1)] fold_shape_ids(3)[OF shape]]
      unfolding merges_categories[of "table_groups db" _ _ "[]"]
      by (auto simp: foldCategories_def db Let_def eqs)
  next
    case False
    then show ?thesis
      using category_fold.insert_run[OF ok mset_eq_setD[OF t], of "''categories''",
        unfolded columns_id, OF fold_shape_ids(3)[OF shape]]
      unfolding merges_categories[of "table_groups db" _ _ "[]"]
      by (simp add: foldCategories_def db Let_def eqs)
  qed
qed

lemma applyFold_run:
  assumes wf: "profile_wf casefold p" "profile_wf casefold q" and keys: "keys_plain p" "keys_plain q"
    and shape: "fold_shape p q" and db: "holds_rows p db" and stored: "transactions_ok (transactions p)"
  shows "if merges_ordered p q
    then \<exists>db'. applyFold fold_calm p q db = Inr db' \<and> holds_rows q db' \<and> table_drills db' = table_drills db
    else applyFold fold_calm p q db = refused"
proof -
  note tables = holds_rows_tables[OF db]
  let ?db1 = "db\<lparr>table_merchants := map (released merchant_columns (merchants q)) (table_merchants db),
      table_groups := map (released group_columns (groups q)) (table_groups db),
      table_categories := map (released (category_columns []) (categories q)) (table_categories db)\<rparr>"
  have release: "releaseFoldCollisionKeys fold_calm p q db = Inr ?db1"
    by (rule releaseFold_run[OF wf(1) keys(1) db])
  have groups: "if merges_in_order group_columns (groups p) (groups q)
    then \<exists>gs. foldGroups fold_calm (groups p) (groups q) ?db1 = Inr (?db1\<lparr>table_groups := gs\<rparr>)
      \<and> mset gs = mset (groups q)
    else foldGroups fold_calm (groups p) (groups q) ?db1 = refused"
    by (rule foldGroups_run[OF wf keys(2) shape tables(2)]) simp
  show ?thesis
  proof (cases "merges_in_order group_columns (groups p) (groups q)")
    case False
    then show ?thesis using groups by (simp add: applyFold_def release merges_ordered_def)
  next
    case g_order: True
    then obtain gs where gs: "foldGroups fold_calm (groups p) (groups q) ?db1 = Inr (?db1\<lparr>table_groups := gs\<rparr>)"
        "mset gs = mset (groups q)" using groups by (simp only: if_True) blast
    let ?db2 = "?db1\<lparr>table_groups := gs\<rparr>"
    have merchants: "if merges_in_order merchant_columns (merchants p) (merchants q)
      then \<exists>ms. foldMerchants fold_calm (merchants p) (merchants q) ?db2 = Inr (?db2\<lparr>table_merchants := ms\<rparr>)
        \<and> mset ms = mset (merchants q)
      else foldMerchants fold_calm (merchants p) (merchants q) ?db2 = refused"
      by (rule foldMerchants_run[OF wf keys(2) shape tables(1)]) simp
    show ?thesis
    proof (cases "merges_in_order merchant_columns (merchants p) (merchants q)")
      case False
      then show ?thesis using merchants gs(1) by (simp add: applyFold_def release merges_ordered_def)
    next
      case m_order: True
      then obtain ms where ms: "foldMerchants fold_calm (merchants p) (merchants q) ?db2 =
          Inr (?db2\<lparr>table_merchants := ms\<rparr>)" "mset ms = mset (merchants q)"
        using merchants by (simp only: if_True) blast
      let ?db3 = "?db2\<lparr>table_merchants := ms\<rparr>"
      have categories: "if merges_in_order (category_columns []) (categories p) (categories q)
        then \<exists>cs. foldCategories fold_calm (categories p) (categories q) ?db3 =
            Inr (?db3\<lparr>table_categories := cs\<rparr>) \<and> mset cs = mset (categories q)
        else foldCategories fold_calm (categories p) (categories q) ?db3 = refused"
        by (rule foldCategories_run[OF wf keys(2) shape tables(3)]) (simp_all add: mset_eq_setD[OF gs(2)])
      show ?thesis
      proof (cases "merges_in_order (category_columns []) (categories p) (categories q)")
        case False
        then show ?thesis using categories gs(1) ms(1) by (simp add: applyFold_def release merges_ordered_def)
      next
        case c_order: True
        then obtain cs where cs: "foldCategories fold_calm (categories p) (categories q) ?db3 =
            Inr (?db3\<lparr>table_categories := cs\<rparr>)" "mset cs = mset (categories q)"
          using categories by (simp only: if_True) blast
        let ?db4 = "?db3\<lparr>table_categories := cs\<rparr>"
        have refs: "references_ok ?db4 r" if r: "r \<in> set (transactions q)" for r
        proof -
          have "record_wf q r" using wf(2) r by (simp add: profile_wf_def)
          moreover have "set (table_accounts db) = set (accounts q)" "set ms = set (merchants q)"
              "set cs = set (categories q)"
            using db shape ms(2) cs(2) by (auto simp: holds_rows_def fold_shape_def dest: mset_eq_setD)
          ultimately show ?thesis by (auto simp: references_ok_def record_wf_def intro: has_active_id)
        qed
        have kept: "\<forall>r\<in>set (transactions q). \<exists>x\<in>set (transactions p). record_fixed x = record_fixed r"
        proof
          fix r assume "r \<in> set (transactions q)"
          then have "record_fixed r \<in> record_fixed ` set (transactions p)"
            using shape by (auto simp: fold_shape_def)
          then show "\<exists>x\<in>set (transactions p). record_fixed x = record_fixed r" by (metis imageE)
        qed
        have rows: "mset (table_transactions ?db4) = mset (transactions p)"
          using db by (simp add: holds_rows_def)
        obtain ts where ts: "foldTransactions fold_calm (transactions p) (transactions q) ?db4 =
            Inr (?db4\<lparr>table_transactions := ts\<rparr>)" "mset ts = mset (transactions q)"
          using foldTransactions_run[OF stored rows profile_ids_distinct(4)[OF wf(2)] kept] refs by blast
        have "applyFold fold_calm p q db = Inr (?db4\<lparr>table_transactions := ts\<rparr>)"
          using gs(1) ms(1) cs(1) ts(1) by (simp add: applyFold_def release)
        moreover have "holds_rows q (?db4\<lparr>table_transactions := ts\<rparr>)"
          using db shape gs(2) ms(2) cs(2) ts(2) by (simp add: holds_rows_def fold_shape_def)
        ultimately show ?thesis using g_order m_order c_order by (simp add: merges_ordered_def)
      qed
    qed
  qed
qed

subsection \<open>Effective profiles\<close>

lemma record_fixed_simps [simp]:
  "record_fixed (r\<lparr>record_merchant := m\<rparr>) = record_fixed r"
  "record_fixed (r\<lparr>record_category := c\<rparr>) = record_fixed r"
  "record_fixed (toggle_hidden r) = record_fixed r"
  "record_fixed (redirect_record_merchant s d r) = record_fixed r"
  "record_fixed (redirect_record_category s d r) = record_fixed r"
  by (simp_all add: record_fixed_def toggle_hidden_def redirect_record_merchant_def
      redirect_record_category_def)

lemma record_fixed_targets:
  "(\<And>r. record_fixed (f r) = record_fixed r) \<Longrightarrow> map record_fixed (on_targets ts f rows) = map record_fixed rows"
  by (simp add: on_targets_def)

lemma op_effect_fixed:
  "record_fixed ` set (transactions (op_effect oper p)) \<subseteq> record_fixed ` set (transactions p)"
proof (cases "op_type oper = OperationTransactionDelete")
  case True
  then show ?thesis by (auto simp: op_effect_def)
next
  case False
  then have "map record_fixed (transactions (op_effect oper p)) = map record_fixed (transactions p)"
    by (cases "op_type oper")
      (simp_all add: op_effect_def record_fixed_targets on_payload_option merge_merchants_effect_def
        merge_categories_effect_def merge_groups_effect_def split: option.split)
  from this[THEN arg_cong[where f = set]] show ?thesis by simp
qed

lemma entity_pairs_members:
  "(k, EntityKindMerchant) \<in> entity_pairs p \<longleftrightarrow> k \<in> merchant_id ` set (merchants p)"
  "(k, EntityKindGroup) \<in> entity_pairs p \<longleftrightarrow> k \<in> group_id ` set (groups p)"
  "(k, EntityKindCategory) \<in> entity_pairs p \<longleftrightarrow> k \<in> category_id ` set (categories p)"
  by (auto simp: entity_pairs_def)

lemma entity_pairs_ids:
  assumes "entity_pairs p \<subseteq> entity_pairs q"
  shows "merchant_id ` set (merchants p) \<subseteq> merchant_id ` set (merchants q)"
    "group_id ` set (groups p) \<subseteq> group_id ` set (groups q)"
    "category_id ` set (categories p) \<subseteq> category_id ` set (categories q)"
proof -
  note * = subsetD[OF assms, of "(k, kind)" for k kind]
  show "merchant_id ` set (merchants p) \<subseteq> merchant_id ` set (merchants q)"
    by (rule subsetI) (rule *[of _ EntityKindMerchant, unfolded entity_pairs_members])
  show "group_id ` set (groups p) \<subseteq> group_id ` set (groups q)"
    by (rule subsetI) (rule *[of _ EntityKindGroup, unfolded entity_pairs_members])
  show "category_id ` set (categories p) \<subseteq> category_id ` set (categories q)"
    by (rule subsetI) (rule *[of _ EntityKindCategory, unfolded entity_pairs_members])
qed

lemma fold_shape_effect: "fold_shape p (op_effect oper p)"
  using op_effect_tables[where oper = oper and p = p] op_effect_fixed[of oper p]
    entity_pairs_ids[of p "op_effect oper p"]
  unfolding fold_shape_def by simp

lemma fold_shape_same_rows: "same_rows q r \<Longrightarrow> fold_shape p q \<Longrightarrow> fold_shape p r"
  using same_rows_sets[of q r] by (simp add: fold_shape_def same_rows_def)

lemma fold_shape_trans: "fold_shape p q \<Longrightarrow> fold_shape q r \<Longrightarrow> fold_shape p r"
  unfolding fold_shape_def by (metis (no_types, lifting) subset_trans)

lemma reference_replay_shape:
  assumes "reference_replay casefold p opers = Inr q"
  shows "fold_shape p q"
  using assms
proof (induction opers arbitrary: p)
  case Nil
  then show ?case by (simp add: reference_replay_def fold_shape_def)
next
  case (Cons oper opers)
  then obtain r where r: "ApplyOperation casefold p oper = Inr r" "reference_replay casefold r opers = Inr q"
    by (auto simp: reference_replay_def bind_result_Inr)
  have "fold_shape p r"
    using r(1) fold_shape_same_rows[OF same_rows_sym[OF sortCommittedProfile_same_rows] fold_shape_effect]
    by (simp add: ApplyOperation_Inr)
  then show ?case using fold_shape_trans Cons.IH[OF r(2)] by blast
qed

lemma effective_fold:
  assumes valid: "ValidateSnapshot casefold s = Inr ()"
    and ref: "reference_replay casefold (snap_committed s)
      (take (nat (snap_cursor s)) (snap_journal s)) = Inr p"
  shows "profile_wf casefold (snap_committed s)" "profile_wf casefold (sortCommittedProfile p)"
    "fold_shape (snap_committed s) (sortCommittedProfile p)"
proof -
  show "profile_wf casefold (snap_committed s)"
    using valid by (simp add: ValidateSnapshot_Inr ValidateProfile_Inr)
  show "profile_wf casefold (sortCommittedProfile p)"
    using replay_effective_wf[OF Replay_reference[OF valid ref]] by simp
  show "fold_shape (snap_committed s) (sortCommittedProfile p)"
    using fold_shape_same_rows[OF same_rows_sym[OF sortCommittedProfile_same_rows]
      reference_replay_shape[OF ref]] .
qed

lemma applyFold_effective:
  assumes "ValidateSnapshot casefold s = Inr ()"
    and "reference_replay casefold (snap_committed s)
      (take (nat (snap_cursor s)) (snap_journal s)) = Inr p"
    and "keys_plain (snap_committed s)" and "keys_plain p"
    and "transactions_ok (transactions (snap_committed s))" and "holds_rows (snap_committed s) db"
  shows "if merges_ordered (snap_committed s) (sortCommittedProfile p)
    then \<exists>db'. applyFold fold_calm (snap_committed s) (sortCommittedProfile p) db = Inr db'
      \<and> holds_rows p db' \<and> table_drills db' = table_drills db
    else applyFold fold_calm (snap_committed s) (sortCommittedProfile p) db =
      Inl (mapDriverError constraint_failed CodeStoreError)"
proof -
  have rows: "same_rows (sortCommittedProfile p) p" by (rule sortCommittedProfile_same_rows)
  have keys: "keys_plain (sortCommittedProfile p)"
    using assms(4) by (simp add: keys_plain_def same_rows_sets[OF rows])
  have held: "holds_rows (sortCommittedProfile p) db' \<longleftrightarrow> holds_rows p db'" for db'
    using rows by (simp add: holds_rows_def same_rows_def)
  show ?thesis
    using applyFold_run[OF effective_fold(1,2)[OF assms(1,2)] assms(3) keys
      effective_fold(3)[OF assms(1,2)] assms(6,5)]
    unfolding held .
qed

subsection \<open>Examples\<close>

definition tables_of :: "profile \<Rightarrow> ledger_tables" where
  "tables_of p = \<lparr>table_accounts = accounts p, table_merchants = merchants p, table_groups = groups p,
     table_categories = categories p, table_transactions = transactions p, table_identities = identities p,
     table_drills = []\<rparr>"

lemma holds_tables_of: "holds_rows p (tables_of p)"
  by (simp add: holds_rows_def tables_of_def)

definition effective_of :: "profile \<Rightarrow> operation list \<Rightarrow> profile" where
  "effective_of p opers = foldl (\<lambda>p oper. sortCommittedProfile (op_effect oper p)) p opers"

lemma reference_replay_effective: "reference_replay casefold p opers = Inr q \<Longrightarrow> q = effective_of p opers"
  by (induction opers arbitrary: p)
    (auto simp: reference_replay_def effective_of_def bind_result_Inr ApplyOperation_Inr)

definition plain_keys :: "profile \<Rightarrow> bool" where
  "plain_keys p \<longleftrightarrow> list_all (\<lambda>k. k \<noteq> [] \<and> hd k \<noteq> char_of (31 :: nat))
     (map merchant_key (merchants p) @ map group_key (groups p) @ map category_key (categories p))"

lemma plain_keys: "plain_keys p \<Longrightarrow> keys_plain p"
proof -
  have "hd (released_key i) = char_of (31 :: nat)" for i by (simp add: released_key_def)
  then show "plain_keys p \<Longrightarrow> keys_plain p"
    unfolding plain_keys_def keys_plain_def list_all_iff set_append set_map Un_assoc by fastforce
qed

definition create_merchant :: "int \<Rightarrow> entity_id \<Rightarrow> entity_id \<Rightarrow> string \<Rightarrow> string \<Rightarrow> operation" where
  "create_merchant n target ident label key = (example_operation n OperationMerchantReassign [target])\<lparr>
     op_reassign := Some \<lparr>reassign_destination = ident, reassign_created = Some \<lparr>merchant_id = ident,
       merchant_label = label, merchant_key = key, merchant_retired = False, merchant_merged = None\<rparr>\<rparr>\<rparr>"

definition two_new_merchants :: "entity_id \<Rightarrow> entity_id \<Rightarrow> operation list" where
  "two_new_merchants source destination =
     [create_merchant 1 ''t1'' ''m5'' ''Diner'' ''diner'', create_merchant 2 ''t2'' ''m6'' ''Grill'' ''grill'',
      (example_operation 3 OperationMerchantMerge [source])\<lparr>op_merge := Some
        \<lparr>merge_source = source, merge_destination = destination\<rparr>\<rparr>]"

definition merge_snapshot :: "entity_id \<Rightarrow> entity_id \<Rightarrow> profile_snapshot" where
  "merge_snapshot source destination = \<lparr>snap_revision = 9, snap_cursor = 3, snap_committed = example_profile,
     snap_journal = two_new_merchants source destination, snap_drills = []\<rparr>"

lemma merge_examples:
  assumes "(source, destination) \<in> {(''m5'', ''m6''), (''m6'', ''m5'')}"
  shows "ValidateSnapshot ascii_fold (merge_snapshot source destination) = Inr ()"
    and "reference_replay ascii_fold example_profile (two_new_merchants source destination) =
      Inr (effective_of example_profile (two_new_merchants source destination))"
    and "plain_keys (effective_of example_profile (two_new_merchants source destination))"
    and "merges_ordered example_profile
        (sortCommittedProfile (effective_of example_profile (two_new_merchants source destination)))
      \<longleftrightarrow> source = ''m6''"
proof -
  have wf: "profile_wf ascii_fold example_profile" using example_profile_valid by (simp add: ValidateProfile_Inr)
  have stored: "list_all (\<lambda>oper. is_ok (ValidateStored ascii_fold oper)) (two_new_merchants ''m5'' ''m6'')"
      "list_all (\<lambda>oper. is_ok (ValidateStored ascii_fold oper)) (two_new_merchants ''m6'' ''m5'')"
    by code_simp+
  have seqs: "sorted_wrt (<) (map op_sequence (two_new_merchants source destination))"
      "length (two_new_merchants source destination) = 3"
    by (simp_all add: two_new_merchants_def create_merchant_def example_operation_def)
  show "ValidateSnapshot ascii_fold (merge_snapshot source destination) = Inr ()"
    using wf stored seqs assms
    by (auto simp: ValidateSnapshot_Inr merge_snapshot_def list_all_iff is_ok_iff)
  have "accepts ascii_fold example_profile (two_new_merchants ''m5'' ''m6'')"
      "accepts ascii_fold example_profile (two_new_merchants ''m6'' ''m5'')"
    by code_simp+
  then obtain p where "reference_replay ascii_fold example_profile (two_new_merchants source destination) = Inr p"
    using reference_replay_accepts[OF wf] assms by blast
  then show "reference_replay ascii_fold example_profile (two_new_merchants source destination) =
      Inr (effective_of example_profile (two_new_merchants source destination))"
    using reference_replay_effective by metis
  have "plain_keys (effective_of example_profile (two_new_merchants ''m5'' ''m6''))"
      "plain_keys (effective_of example_profile (two_new_merchants ''m6'' ''m5''))"
    by code_simp+
  then show "plain_keys (effective_of example_profile (two_new_merchants source destination))"
    using assms by auto
  have "\<not> merges_ordered example_profile
        (sortCommittedProfile (effective_of example_profile (two_new_merchants ''m5'' ''m6'')))"
      "merges_ordered example_profile
        (sortCommittedProfile (effective_of example_profile (two_new_merchants ''m6'' ''m5'')))"
    by code_simp+
  then show "merges_ordered example_profile
        (sortCommittedProfile (effective_of example_profile (two_new_merchants source destination)))
      \<longleftrightarrow> source = ''m6''"
    using assms by auto
qed

lemma example_stored: "plain_keys example_profile" "transactions_ok (transactions example_profile)"
  by code_simp+

text \<open>
  A valid journal whose replay succeeds but that cannot be folded: two merchants are created and
  the first is merged into the second.  The same journal with the merge the other way round folds.
\<close>

lemma new_merge_refused:
  "is_ok (Replay ascii_fold (merge_snapshot ''m5'' ''m6''))
   \<and> applyFold fold_calm example_profile
       (sortCommittedProfile (effective_of example_profile (two_new_merchants ''m5'' ''m6'')))
       (tables_of example_profile) = Inl (mapDriverError constraint_failed CodeStoreError)"
proof -
  note ex = merge_examples[of "''m5''" "''m6''", simplified]
  have ref: "reference_replay ascii_fold (snap_committed (merge_snapshot ''m5'' ''m6''))
      (take (nat (snap_cursor (merge_snapshot ''m5'' ''m6''))) (snap_journal (merge_snapshot ''m5'' ''m6''))) =
    Inr (effective_of example_profile (two_new_merchants ''m5'' ''m6''))"
    using ex(2) by (simp add: merge_snapshot_def two_new_merchants_def)
  show ?thesis
    using Replay_reference[OF ex(1) ref] applyFold_effective[OF ex(1) ref _ plain_keys[OF ex(3)]]
      plain_keys[OF example_stored(1)] example_stored(2) holds_tables_of ex(4)
    by (simp add: merge_snapshot_def is_ok_iff)
qed

text \<open>
  C27. On tables that hold the committed rows, with a driver that fails only on violated constraints,
  the fold succeeds exactly when no new entity is merged into a new entity that is inserted after it;
  then the tables hold exactly the effective rows.  Otherwise the insertion violates the foreign key
  of the merge destination and the fold is refused.
\<close>

theorem applyFold_exact:
  assumes "ValidateSnapshot casefold s = Inr ()"
    and "reference_replay casefold (snap_committed s)
      (take (nat (snap_cursor s)) (snap_journal s)) = Inr p"
    and "keys_plain (snap_committed s)" and "keys_plain p"
    and "transactions_ok (transactions (snap_committed s))" and "holds_rows (snap_committed s) db"
  shows "if merges_ordered (snap_committed s) (sortCommittedProfile p)
    then \<exists>db'. applyFold fold_calm (snap_committed s) (sortCommittedProfile p) db = Inr db'
      \<and> holds_rows p db' \<and> table_drills db' = table_drills db
    else applyFold fold_calm (snap_committed s) (sortCommittedProfile p) db =
      Inl (mapDriverError constraint_failed CodeStoreError)"
  using assms by (rule applyFold_effective)

theorem applyFold_exact_witness:
  "\<exists>db'. applyFold fold_calm example_profile
       (sortCommittedProfile (effective_of example_profile (two_new_merchants ''m6'' ''m5'')))
       (tables_of example_profile) = Inr db'
     \<and> holds_rows (effective_of example_profile (two_new_merchants ''m6'' ''m5'')) db'"
proof -
  note ex = merge_examples[of "''m6''" "''m5''", simplified]
  have ref: "reference_replay ascii_fold (snap_committed (merge_snapshot ''m6'' ''m5''))
      (take (nat (snap_cursor (merge_snapshot ''m6'' ''m5''))) (snap_journal (merge_snapshot ''m6'' ''m5''))) =
    Inr (effective_of example_profile (two_new_merchants ''m6'' ''m5''))"
    using ex(2) by (simp add: merge_snapshot_def two_new_merchants_def)
  show ?thesis
    using applyFold_exact[OF ex(1) ref _ plain_keys[OF ex(3)]]
      plain_keys[OF example_stored(1)] example_stored(2) holds_tables_of ex(4)
    by (auto simp: merge_snapshot_def)
qed

end
