(* ===== verification/Csv_State.thy ===== *)
theory Csv_State
  imports Affected Fold_Correct
begin

text \<open>
  The reconciliation ledger of imported bank CSV files (\<open>internal/store/bankcsv.go\<close>): its rows, the
  invariants that tie them to the committed profile, and the overrides a fold records
  (\<open>foldCSVOverrides\<close> of \<open>internal/store/sqlite/bankcsv_import.go\<close>).
\<close>

subsection \<open>The ledger\<close>

record csv_mapping =
  mapping_name :: string
  mapping_pattern :: string
  mapping_default_account :: string
  mapping_date :: string
  mapping_date_layout :: string
  mapping_merchant :: string
  mapping_amount :: string
  mapping_credit :: string
  mapping_debit :: string
  mapping_category :: string
  mapping_notes :: string
  mapping_metadata :: "string list"
  mapping_currency :: string
  mapping_scale :: uint8

record csv_settings =
  settings_mapping :: string
  settings_currency :: string
  settings_scale :: uint8
  settings_created_ms :: "int option"

record csv_file =
  file_key :: string
  file_account_key :: string
  file_digest :: string
  file_completed_ms :: "int option"
  file_imported :: int
  file_duplicates :: int
  file_skipped :: int

record csv_row =
  csv_source_key :: string
  csv_account_key :: string
  csv_date :: date
  csv_amount :: money
  csv_merchant :: string
  csv_category :: string
  csv_notes :: string
  csv_metadata :: "(string \<times> string) list"
  csv_occurrence :: int
  csv_local_id :: entity_id
  csv_merchant_override :: bool
  csv_category_override :: bool
  csv_disposition :: string

record csv_file_row =
  member_file_key :: string
  member_source_key :: string

record csv_state =
  csv_settings_row :: "csv_settings option"
  csv_files :: "csv_file list"
  csv_rows :: "csv_row list"
  csv_membership :: "csv_file_row list"

text \<open>The mappings: the one built in, and what makes any mapping unambiguous.\<close>

definition Lookup :: "string \<Rightarrow> csv_mapping option" where
  "Lookup name = (if name \<noteq> ''chase_credit'' then None
     else Some \<lparr>mapping_name = name, mapping_pattern = ''Chase*.csv'',
       mapping_default_account = ''Chase Credit Card'', mapping_date = ''Transaction Date'',
       mapping_date_layout = ''01/02/2006'', mapping_merchant = ''Description'',
       mapping_amount = ''Amount'', mapping_credit = '''', mapping_debit = '''',
       mapping_category = ''Category'', mapping_notes = ''Memo'',
       mapping_metadata = [''Post Date'', ''Type''], mapping_currency = ''USD'', mapping_scale = 2\<rparr>)"

datatype mapping_error = MappingIdentity | MappingColumns | MappingColumnRepeated

fun mapping_columns :: "string list \<Rightarrow> string list \<Rightarrow> mapping_error + unit" where
  "mapping_columns seen [] = Inr ()"
| "mapping_columns seen (column # rest) =
     (if column = '''' then mapping_columns seen rest
      else if trim_space column \<noteq> column \<or> column \<in> set seen then Inl MappingColumnRepeated
      else mapping_columns (column # seen) rest)"

definition ValidateMapping :: "csv_mapping \<Rightarrow> mapping_error + unit" where
  "ValidateMapping m =
     (if mapping_name m = '''' \<or> mapping_pattern m = '''' \<or> mapping_date m = '''' \<or> mapping_date_layout m = ''''
        \<or> mapping_merchant m = '''' \<or> mapping_currency m = '''' \<or> mapping_scale m > 9 then Inl MappingIdentity
      else if mapping_amount m \<noteq> '''' \<and> (mapping_credit m \<noteq> '''' \<or> mapping_debit m \<noteq> '''')
        \<or> mapping_amount m = '''' \<and> (mapping_credit m = '''' \<or> mapping_debit m = '''') then Inl MappingColumns
      else mapping_columns [] ([mapping_date m, mapping_merchant m, mapping_amount m, mapping_credit m,
        mapping_debit m, mapping_category m, mapping_notes m] @ mapping_metadata m))"

lemma Lookup_valid: "Lookup name = Some m \<Longrightarrow> ValidateMapping m = Inr ()"
proof -
  have "ValidateMapping (the (Lookup ''chase_credit'')) = Inr ()" by code_simp
  then show "Lookup name = Some m \<Longrightarrow> ?thesis" by (auto simp: Lookup_def split: if_splits)
qed

text \<open>A source key is the hash of a tuple of scalars; the hash is a parameter.\<close>

datatype scalar = TextScalar string | IntScalar int

type_synonym tuple_hash = "scalar list \<Rightarrow> string"

definition SourceKey :: "tuple_hash \<Rightarrow> csv_mapping \<Rightarrow> csv_row \<Rightarrow> string" where
  "SourceKey hash mapping row = hash [TextScalar (mapping_name mapping), TextScalar (csv_account_key row),
     TextScalar (date_string (csv_date row)), IntScalar (sint (minor (csv_amount row))),
     TextScalar (currency (csv_amount row)), IntScalar (uint (scale (csv_amount row))),
     TextScalar (csv_merchant row), IntScalar (csv_occurrence row)]"

definition csvDigest :: "string \<Rightarrow> bool" where
  "csvDigest value \<longleftrightarrow> length value = 64 \<and> (\<forall>c\<in>set (runes value).
     \<not> ((c < 48 \<or> c > 57) \<and> (c < 97 \<or> c > 102)))"

subsection \<open>Validation\<close>

text \<open>
  The Go maps of the committed profile: the last active account of a collision key, the last
  transaction of an identity, the last external identity of a source key, each with its zero value.
\<close>

definition csv_account :: "profile \<Rightarrow> string \<Rightarrow> entity_id" where
  "csv_account p key = (case List.find (\<lambda>a. \<not> account_retired a \<and> account_key a = key) (rev (accounts p)) of
     None \<Rightarrow> '''' | Some a \<Rightarrow> account_id a)"

definition csv_identity_row :: "external_identity \<Rightarrow> bool" where
  "csv_identity_row i \<longleftrightarrow> identity_namespace i = ''csv:transaction'' \<and> identity_kind i = EntityKindTransaction"

definition csv_identity :: "profile \<Rightarrow> string \<Rightarrow> entity_id option" where
  "csv_identity p key = map_option identity_entity
     (List.find (\<lambda>i. csv_identity_row i \<and> identity_external i = key) (rev (identities p)))"

definition csv_file_ok :: "profile \<Rightarrow> csv_file \<Rightarrow> bool" where
  "csv_file_ok p f \<longleftrightarrow> csvDigest (file_key f) \<and> csvDigest (file_digest f) \<and> file_completed_ms f \<noteq> None
     \<and> file_imported f \<ge> 0 \<and> file_duplicates f \<ge> 0 \<and> file_skipped f \<ge> 0
     \<and> csv_account p (file_account_key f) \<noteq> ''''"

text \<open>The checks of a row on its own, in the order of the code; every failure is the same error.\<close>

definition csv_row_ok :: "tuple_hash \<Rightarrow> csv_mapping \<Rightarrow> csv_settings \<Rightarrow> profile \<Rightarrow> csv_row \<Rightarrow> bool" where
  "csv_row_ok hash mapping s p r \<longleftrightarrow> csv_occurrence r \<ge> 1
     \<and> currency (csv_amount r) = settings_currency s \<and> scale (csv_amount r) = settings_scale s
     \<and> csv_account p (csv_account_key r) \<noteq> '''' \<and> csv_local_id r \<noteq> ''''
     \<and> csv_identity p (csv_source_key r) = Some (csv_local_id r)
     \<and> csv_source_key r = SourceKey hash mapping r \<and> trim_space (csv_merchant r) = csv_merchant r
     \<and> is_ok (NormalizeDisplayLabel (csv_merchant r)) \<and> is_ok (NormalizeDisplayLabel (csv_category r))
     \<and> is_ok (ParseDate (date_string (csv_date r))) \<and> valid_utf8 (csv_notes r)
     \<and> list_all (\<lambda>(k, v). valid_utf8 k \<and> valid_utf8 v) (csv_metadata r)"

definition csv_disposition_ok :: "profile \<Rightarrow> csv_row \<Rightarrow> bool" where
  "csv_disposition_ok p r =
     (let found = last_transaction (transactions p) (csv_local_id r) in
      if csv_disposition r = ''present'' then
        (case found of None \<Rightarrow> False
         | Some t \<Rightarrow> record_provider t = ''csv'' \<and> record_provider_id t = csv_source_key r
             \<and> record_account t = csv_account p (csv_account_key r)
             \<and> record_date t = csv_date r \<and> record_amount t = csv_amount r)
      else if csv_disposition r = ''superseded'' \<or> csv_disposition r = ''deleted'' then found = None
      else False)"

datatype csv_error = CsvInvalid

definition csv_require :: "bool \<Rightarrow> csv_error + unit" where
  "csv_require b = (if b then Inr () else Inl CsvInvalid)"

fun csv_files_loop :: "profile \<Rightarrow> csv_file list \<Rightarrow> csv_file list \<Rightarrow> csv_error + unit" where
  "csv_files_loop p seen [] = Inr ()"
| "csv_files_loop p seen (f # fs) =
     (if \<not> csv_file_ok p f \<or> file_key f \<in> file_key ` set seen then Inl CsvInvalid
      else csv_files_loop p (f # seen) fs)"

fun csv_rows_loop ::
    "tuple_hash \<Rightarrow> csv_mapping \<Rightarrow> csv_settings \<Rightarrow> profile \<Rightarrow> csv_row list \<Rightarrow> csv_row list \<Rightarrow> csv_error + unit" where
  "csv_rows_loop hash mapping s p seen [] = Inr ()"
| "csv_rows_loop hash mapping s p seen (r # rs) =
     (if \<not> csv_row_ok hash mapping s p r \<or> csv_local_id r \<in> csv_local_id ` set seen
         \<or> \<not> csv_disposition_ok p r \<or> csv_source_key r \<in> csv_source_key ` set seen then Inl CsvInvalid
      else csv_rows_loop hash mapping s p (r # seen) rs)"

fun csv_members_loop ::
    "csv_file list \<Rightarrow> csv_row list \<Rightarrow> csv_file_row list \<Rightarrow> csv_file_row list \<Rightarrow> csv_error + unit" where
  "csv_members_loop fs rs seen [] = Inr ()"
| "csv_members_loop fs rs seen (m # ms) =
     (case (List.find (\<lambda>f. file_key f = member_file_key m) fs,
            List.find (\<lambda>r. csv_source_key r = member_source_key m) rs) of
        (Some f, Some r) \<Rightarrow>
          if file_account_key f \<noteq> csv_account_key r \<or> csv_disposition r = ''superseded'' \<or> m \<in> set seen
          then Inl CsvInvalid else csv_members_loop fs rs (m # seen) ms
      | _ \<Rightarrow> Inl CsvInvalid)"

definition ValidateCSVState :: "tuple_hash \<Rightarrow> csv_state \<Rightarrow> profile \<Rightarrow> csv_error + unit" where
  "ValidateCSVState hash state p =
     (case csv_settings_row state of
        None \<Rightarrow> csv_require (csv_files state = [] \<and> csv_rows state = [] \<and> csv_membership state = []
          \<and> (\<forall>t\<in>set (transactions p). record_provider t \<noteq> ''csv'')
          \<and> (\<forall>i\<in>set (identities p). take 4 (identity_namespace i) \<noteq> ''csv:''))
      | Some s \<Rightarrow> (case Lookup (settings_mapping s) of
          None \<Rightarrow> Inl CsvInvalid
        | Some mapping \<Rightarrow>
            if mapping_currency mapping \<noteq> settings_currency s \<or> mapping_scale mapping \<noteq> settings_scale s
              \<or> settings_created_ms s = None then Inl CsvInvalid
            else
              bind_result (csv_files_loop p [] (csv_files state)) (\<lambda>_.
              bind_result (csv_rows_loop hash mapping s p [] (csv_rows state)) (\<lambda>_.
              bind_result (csv_require (\<forall>i\<in>set (identities p). csv_identity_row i \<longrightarrow>
                (case List.find (\<lambda>r. csv_source_key r = identity_external i) (csv_rows state) of
                   None \<Rightarrow> csv_identity p (identity_external i) = Some ''''
                 | Some r \<Rightarrow> csv_identity p (identity_external i) = Some (csv_local_id r)))) (\<lambda>_.
              bind_result (csv_members_loop (csv_files state) (csv_rows state) [] (csv_membership state)) (\<lambda>_.
              csv_require (\<forall>t\<in>set (transactions p). record_provider t = ''csv''
                \<and> record_id t \<in> csv_local_id ` set (csv_rows state))))))))"

subsection \<open>Overrides at a fold\<close>

datatype csv_fold_error =
    CsvStore store_error
  | CsvApply replay_error
  | CsvState csv_error
  | CsvPanic

text \<open>What an operation records on the row of a transaction it touches.\<close>

definition csv_mark :: "operation_type \<Rightarrow> csv_row \<Rightarrow> csv_row" where
  "csv_mark kind r =
     (if kind \<in> {OperationMerchantLabel, OperationMerchantMerge, OperationMerchantReassign}
      then r\<lparr>csv_merchant_override := True\<rparr>
      else if kind \<in> {OperationCategoryAssign, OperationCategoryCreate, OperationCategoryLabel,
        OperationCategoryMove, OperationCategoryMerge, OperationCategoryDelete, OperationGroupLabel,
        OperationGroupMerge, OperationGroupDelete}
      then r\<lparr>csv_category_override := True\<rparr>
      else if kind = OperationTransactionDelete then r\<lparr>csv_disposition := ''deleted''\<rparr>
      else r)"

text \<open>The Go map from local identities to positions: the last row of the identity.\<close>

definition csv_position :: "csv_row list \<Rightarrow> entity_id \<Rightarrow> nat option" where
  "csv_position rows ident = List.find (\<lambda>k. csv_local_id (rows ! k) = ident) (rev [0 ..< length rows])"

definition csv_visit :: "csv_row list \<Rightarrow> operation \<Rightarrow> csv_row list visitor" where
  "csv_visit loaded oper ident rows =
     (True, case csv_position loaded ident of None \<Rightarrow> rows
       | Some k \<Rightarrow> rows[k := csv_mark (op_type oper) (rows ! k)])"

definition csv_step ::
    "(string \<Rightarrow> string) \<Rightarrow> csv_row list \<Rightarrow> profile \<times> csv_row list \<Rightarrow> operation \<Rightarrow>
     csv_fold_error + profile \<times> csv_row list" where
  "csv_step casefold loaded s oper =
     (case VisitAffectedByOperation (fst s) oper (csv_visit loaded oper) (snd s) of
        None \<Rightarrow> Inl CsvPanic
      | Some rows \<Rightarrow> bind_result (map_error CsvApply (ApplyOperation casefold (fst s) oper)) (\<lambda>p. Inr (p, rows)))"

datatype csv_call =
    CallCsvSettings | CallCsvFiles | CallCsvRows | CallCsvMembers | CallCsvDelete nat
  | CallCsvInsertSettings | CallCsvPrepare nat | CallCsvInsertFile string | CallCsvInsertRow string
  | CallCsvInsertMember string string

type_synonym csv_driver = "csv_call \<Rightarrow> driver_error option"

definition csv_exec :: "csv_driver \<Rightarrow> csv_call \<Rightarrow> driver_error + 'a \<Rightarrow> csv_fold_error + 'a" where
  "csv_exec driver c r =
     (case driver c of Some err \<Rightarrow> Inl (CsvStore (mapDriverError err CodeStoreError))
      | None \<Rightarrow> map_error (\<lambda>err. CsvStore (mapDriverError err CodeStoreError)) r)"

definition csv_query :: "csv_driver \<Rightarrow> csv_call \<Rightarrow> 'a \<Rightarrow> csv_fold_error + 'a" where
  "csv_query driver c v = (case driver c of Some err \<Rightarrow> Inl (CsvStore (loadFailure err)) | None \<Rightarrow> Inr v)"

text \<open>The tables are read in key order; a stored date that does not parse is a failure.\<close>

definition load_csv_row :: "csv_row \<Rightarrow> csv_fold_error + csv_row" where
  "load_csv_row r = (case ParseDate (date_string (csv_date r)) of
     Inl _ \<Rightarrow> Inl (CsvStore (loadFailure OtherError)) | Inr d \<Rightarrow> Inr (r\<lparr>csv_date := d\<rparr>))"

definition loadCSVState :: "csv_driver \<Rightarrow> csv_state \<Rightarrow> csv_fold_error + csv_state" where
  "loadCSVState driver db =
     bind_result (csv_query driver CallCsvSettings (csv_settings_row db)) (\<lambda>settings.
     bind_result (csv_query driver CallCsvFiles (sort_key file_key (csv_files db))) (\<lambda>fs.
     bind_result (csv_query driver CallCsvRows (sort_key csv_source_key (csv_rows db))) (\<lambda>rs.
     bind_result (map_result load_csv_row rs) (\<lambda>rs.
     bind_result (csv_query driver CallCsvMembers (sort_key member_file_key
         (sort_key member_source_key (csv_membership db)))) (\<lambda>ms.
     Inr \<lparr>csv_settings_row = settings, csv_files = fs, csv_rows = rs, csv_membership = ms\<rparr>)))))"

text \<open>The constraints of the four tables.\<close>

definition settings_fit :: "csv_settings \<Rightarrow> bool" where
  "settings_fit s \<longleftrightarrow> settings_mapping s \<noteq> '''' \<and> length (settings_currency s) = 3 \<and> settings_scale s \<le> 9
     \<and> (case settings_created_ms s of None \<Rightarrow> False | Some t \<Rightarrow> t \<ge> 0)"

definition file_fits :: "csv_file list \<Rightarrow> csv_file \<Rightarrow> bool" where
  "file_fits fs f \<longleftrightarrow> file_key f \<notin> file_key ` set fs \<and> length (file_key f) = 64 \<and> file_account_key f \<noteq> ''''
     \<and> length (file_digest f) = 64 \<and> (case file_completed_ms f of None \<Rightarrow> False | Some t \<Rightarrow> t \<ge> 0)
     \<and> file_imported f \<ge> 0 \<and> file_duplicates f \<ge> 0 \<and> file_skipped f \<ge> 0"

definition csv_row_fits :: "csv_row list \<Rightarrow> csv_row \<Rightarrow> bool" where
  "csv_row_fits rs r \<longleftrightarrow> csv_source_key r \<notin> csv_source_key ` set rs \<and> csv_local_id r \<notin> csv_local_id ` set rs
     \<and> length (csv_source_key r) = 64 \<and> csv_local_id r \<noteq> '''' \<and> csv_account_key r \<noteq> '''' \<and> csv_occurrence r > 0
     \<and> length (date_string (csv_date r)) = 10 \<and> length (currency (csv_amount r)) = 3
     \<and> scale (csv_amount r) \<le> 9 \<and> csv_merchant r \<noteq> '''' \<and> csv_category r \<noteq> ''''
     \<and> csv_disposition r \<in> {''present'', ''superseded'', ''deleted''}"

definition member_fits :: "csv_file list \<Rightarrow> csv_row list \<Rightarrow> csv_file_row list \<Rightarrow> csv_file_row \<Rightarrow> bool" where
  "member_fits fs rs ms m \<longleftrightarrow> m \<notin> set ms \<and> member_file_key m \<in> file_key ` set fs
     \<and> member_source_key m \<in> csv_source_key ` set rs"

definition insert_if :: "('r list \<Rightarrow> 'r \<Rightarrow> bool) \<Rightarrow> 'r list \<Rightarrow> 'r \<Rightarrow> driver_error + 'r list" where
  "insert_if fits table r = (if fits table r then Inr (table @ [r]) else Inl constraint_failed)"

definition replaceCSVState :: "csv_driver \<Rightarrow> csv_state \<Rightarrow> csv_fold_error + csv_state" where
  "replaceCSVState driver state =
     bind_result (fold_result (\<lambda>_ k. csv_exec driver (CallCsvDelete k) (Inr ())) () [0, 1, 2, 3]) (\<lambda>_.
     case csv_settings_row state of
       None \<Rightarrow> Inr \<lparr>csv_settings_row = None, csv_files = [], csv_rows = [], csv_membership = []\<rparr>
     | Some s \<Rightarrow>
         bind_result (csv_exec driver CallCsvInsertSettings
           (if settings_fit s then Inr () else Inl constraint_failed)) (\<lambda>_.
         bind_result (csv_exec driver (CallCsvPrepare 0) (Inr ())) (\<lambda>_.
         bind_result (fold_result (\<lambda>fs f. csv_exec driver (CallCsvInsertFile (file_key f))
           (insert_if file_fits fs f)) [] (csv_files state)) (\<lambda>fs.
         bind_result (csv_exec driver (CallCsvPrepare 1) (Inr ())) (\<lambda>_.
         bind_result (fold_result (\<lambda>rs r. csv_exec driver (CallCsvInsertRow (csv_source_key r))
           (insert_if csv_row_fits rs r)) [] (csv_rows state)) (\<lambda>rs.
         bind_result (csv_exec driver (CallCsvPrepare 2) (Inr ())) (\<lambda>_.
         bind_result (fold_result (\<lambda>ms m. csv_exec driver (CallCsvInsertMember (member_file_key m) (member_source_key m))
           (insert_if (member_fits fs rs) ms m)) [] (csv_membership state)) (\<lambda>ms.
         Inr \<lparr>csv_settings_row = Some s, csv_files = fs, csv_rows = rs, csv_membership = ms\<rparr>))))))))"

definition foldCSVOverrides ::
    "(string \<Rightarrow> string) \<Rightarrow> tuple_hash \<Rightarrow> csv_driver \<Rightarrow> csv_state \<Rightarrow> profile_snapshot \<Rightarrow> profile \<Rightarrow>
     csv_fold_error + csv_state" where
  "foldCSVOverrides casefold hash driver db snapshot effective =
     bind_result (csv_query driver CallCsvSettings (csv_settings_row db)) (\<lambda>settings.
     if settings = None then Inr db
     else bind_result (loadCSVState driver db) (\<lambda>state.
       bind_result (fold_result (csv_step casefold (csv_rows state)) (snap_committed snapshot, csv_rows state)
         (take (nat (snap_cursor snapshot)) (snap_journal snapshot))) (\<lambda>(_, rows).
       let state = state\<lparr>csv_rows := rows\<rparr> in
       bind_result (map_error CsvState (ValidateCSVState hash state effective)) (\<lambda>_.
       replaceCSVState driver state))))"

subsection \<open>What validation means\<close>

lemma csv_require_Inr [simp]: "csv_require b = Inr u \<longleftrightarrow> b"
  by (simp add: csv_require_def)

lemma csv_files_loop_Inr:
  "csv_files_loop p seen fs = Inr () \<longleftrightarrow> (\<forall>f\<in>set fs. csv_file_ok p f) \<and> distinct (map file_key fs)
     \<and> file_key ` set fs \<inter> file_key ` set seen = {}"
  by (induction fs arbitrary: seen) auto

lemma csv_rows_loop_Inr:
  "csv_rows_loop hash mapping s p seen rs = Inr () \<longleftrightarrow>
     (\<forall>r\<in>set rs. csv_row_ok hash mapping s p r \<and> csv_disposition_ok p r)
     \<and> distinct (map csv_local_id rs) \<and> distinct (map csv_source_key rs)
     \<and> csv_local_id ` set rs \<inter> csv_local_id ` set seen = {}
     \<and> csv_source_key ` set rs \<inter> csv_source_key ` set seen = {}"
  by (induction rs arbitrary: seen) auto

lemma find_distinct:
  assumes "distinct (map key xs)"
  shows "List.find (\<lambda>x. key x = k) xs = Some x \<longleftrightarrow> x \<in> set xs \<and> key x = k"
  using assms by (induction xs) auto

definition member_ok :: "csv_file list \<Rightarrow> csv_row list \<Rightarrow> csv_file_row \<Rightarrow> bool" where
  "member_ok fs rs m \<longleftrightarrow> (\<exists>f\<in>set fs. \<exists>r\<in>set rs. file_key f = member_file_key m
     \<and> csv_source_key r = member_source_key m \<and> file_account_key f = csv_account_key r
     \<and> csv_disposition r \<noteq> ''superseded'')"

lemma csv_members_loop_Inr:
  assumes f: "distinct (map file_key fs)" and r: "distinct (map csv_source_key rs)"
  shows "csv_members_loop fs rs seen ms = Inr () \<longleftrightarrow> (\<forall>m\<in>set ms. member_ok fs rs m) \<and> distinct ms
     \<and> set ms \<inter> set seen = {}"
proof (induction ms arbitrary: seen)
  case (Cons m ms)
  let ?f = "List.find (\<lambda>f. file_key f = member_file_key m) fs"
  let ?r = "List.find (\<lambda>r. csv_source_key r = member_source_key m) rs"
  have ok: "member_ok fs rs m \<longleftrightarrow> (\<exists>a b. ?f = Some a \<and> ?r = Some b \<and> file_account_key a = csv_account_key b
      \<and> csv_disposition b \<noteq> ''superseded'')"
    unfolding member_ok_def find_distinct[OF f] find_distinct[OF r] by blast
  show ?case
  proof (cases ?f)
    case None
    then show ?thesis using ok by simp
  next
    case (Some a)
    show ?thesis
    proof (cases ?r)
      case None
      then show ?thesis using ok Some by simp
    next
      case r_found: (Some b)
      show ?thesis using ok Some r_found by (auto simp: Cons.IH)
    qed
  qed
qed simp

definition csv_valid :: "tuple_hash \<Rightarrow> csv_settings \<Rightarrow> csv_state \<Rightarrow> profile \<Rightarrow> bool" where
  "csv_valid hash s state p \<longleftrightarrow> (\<exists>mapping. Lookup (settings_mapping s) = Some mapping
     \<and> mapping_currency mapping = settings_currency s \<and> mapping_scale mapping = settings_scale s
     \<and> settings_created_ms s \<noteq> None
     \<and> (\<forall>f\<in>set (csv_files state). csv_file_ok p f) \<and> distinct (map file_key (csv_files state))
     \<and> (\<forall>r\<in>set (csv_rows state). csv_row_ok hash mapping s p r \<and> csv_disposition_ok p r)
     \<and> distinct (map csv_local_id (csv_rows state)) \<and> distinct (map csv_source_key (csv_rows state))
     \<and> (\<forall>i\<in>set (identities p). csv_identity_row i \<longrightarrow>
          (\<exists>r\<in>set (csv_rows state). csv_source_key r = identity_external i
            \<and> csv_identity p (identity_external i) = Some (csv_local_id r))
          \<or> identity_external i \<notin> csv_source_key ` set (csv_rows state)
            \<and> csv_identity p (identity_external i) = Some '''')
     \<and> (\<forall>m\<in>set (csv_membership state). member_ok (csv_files state) (csv_rows state) m)
     \<and> distinct (csv_membership state)
     \<and> (\<forall>t\<in>set (transactions p). record_provider t = ''csv''
          \<and> record_id t \<in> csv_local_id ` set (csv_rows state)))"

lemma ValidateCSVState_Inr:
  assumes "csv_settings_row state = Some s"
  shows "ValidateCSVState hash state p = Inr () \<longleftrightarrow> csv_valid hash s state p"
proof (cases "Lookup (settings_mapping s)")
  case None
  then show ?thesis by (simp add: ValidateCSVState_def assms csv_valid_def)
next
  case (Some mapping)
  have ids: "(case List.find (\<lambda>r. csv_source_key r = k) rs of None \<Rightarrow> x = Some '''' | Some r \<Rightarrow> x = Some (csv_local_id r))
      \<longleftrightarrow> (\<exists>r\<in>set rs. csv_source_key r = k \<and> x = Some (csv_local_id r))
        \<or> k \<notin> csv_source_key ` set rs \<and> x = Some ''''"
    if "distinct (map csv_source_key rs)" for rs k x
  proof (cases "List.find (\<lambda>r. csv_source_key r = k) rs")
    case None
    then have "k \<notin> csv_source_key ` set rs" by (auto simp: find_None_iff)
    with None show ?thesis by auto
  next
    case (Some r)
    then have r: "r \<in> set rs" "csv_source_key r = k" using find_distinct[OF that] by simp_all
    have inj: "inj_on csv_source_key (set rs)" using that by (simp add: distinct_map)
    have only: "r' = r" if "r' \<in> set rs" "csv_source_key r' = k" for r'
      by (rule inj_onD[OF inj _ that(1) r(1)]) (simp add: that(2) r(2))
    show ?thesis unfolding Some option.case using r only by blast
  qed
  let ?rs = "csv_rows state" and ?fs = "csv_files state"
  have unit: "(\<exists>u::unit. A = Inr u \<and> B) \<longleftrightarrow> A = Inr () \<and> B" for A :: "csv_error + unit" and B
    by auto
  show ?thesis
  proof (cases "distinct (map csv_source_key ?rs) \<and> distinct (map file_key ?fs)")
    case False
    have "csv_valid hash s state p \<Longrightarrow> distinct (map csv_source_key ?rs) \<and> distinct (map file_key ?fs)"
      unfolding csv_valid_def by (elim exE conjE) (intro conjI)
    moreover have "ValidateCSVState hash state p = Inr () \<Longrightarrow>
        distinct (map csv_source_key ?rs) \<and> distinct (map file_key ?fs)"
      unfolding ValidateCSVState_def assms option.case Some bind_result_Inr unit if_result_Inr
        csv_files_loop_Inr csv_rows_loop_Inr
      by (elim conjE) (intro conjI)
    ultimately show ?thesis using False by argo
  next
    case True
    have "(\<forall>i\<in>set (identities p). csv_identity_row i \<longrightarrow>
        (case List.find (\<lambda>r. csv_source_key r = identity_external i) ?rs of
           None \<Rightarrow> csv_identity p (identity_external i) = Some ''''
         | Some r \<Rightarrow> csv_identity p (identity_external i) = Some (csv_local_id r))) \<longleftrightarrow>
      (\<forall>i\<in>set (identities p). csv_identity_row i \<longrightarrow>
          (\<exists>r\<in>set ?rs. csv_source_key r = identity_external i
            \<and> csv_identity p (identity_external i) = Some (csv_local_id r))
          \<or> identity_external i \<notin> csv_source_key ` set ?rs
            \<and> csv_identity p (identity_external i) = Some '''')"
      by (simp only: ids[OF True[THEN conjunct1]])
    then show ?thesis
      unfolding ValidateCSVState_def assms option.case Some csv_valid_def bind_result_Inr unit if_result_Inr
        csv_files_loop_Inr csv_rows_loop_Inr csv_require_Inr
        csv_members_loop_Inr[OF True[THEN conjunct2] True[THEN conjunct1]]
      by simp blast
  qed
qed

lemma find_same_set:
  assumes "set xs = set ys" and "\<And>x y. x \<in> set xs \<Longrightarrow> y \<in> set xs \<Longrightarrow> P x \<Longrightarrow> P y \<Longrightarrow> x = y"
  shows "List.find P xs = List.find P ys"
proof (cases "List.find P xs")
  case None
  then show ?thesis using assms(1) by (metis find_None_iff)
next
  case (Some x)
  then have x: "x \<in> set xs" "P x" by (auto simp: find_Some_iff)
  then obtain y where y: "List.find P ys = Some y" using assms(1) by (metis find_None_iff not_None_eq)
  then have "y \<in> set ys" "P y" by (auto simp: find_Some_iff)
  then show ?thesis using assms x y Some by metis
qed

lemma csv_account_same:
  assumes "profile_wf casefold p" and "mset (accounts q) = mset (accounts p)"
  shows "csv_account q = csv_account p"
proof
  fix key
  have "List.find (\<lambda>a. \<not> account_retired a \<and> account_key a = key) (rev (accounts p)) =
      List.find (\<lambda>a. \<not> account_retired a \<and> account_key a = key) (rev (accounts q))"
  proof (rule find_same_set)
    show "set (rev (accounts p)) = set (rev (accounts q))" using mset_eq_setD[OF assms(2)] by simp
    show "x = y" if "x \<in> set (rev (accounts p))" "y \<in> set (rev (accounts p))"
        "\<not> account_retired x \<and> account_key x = key" "\<not> account_retired y \<and> account_key y = key" for x y
      using distinct_active[of account_key account_retired "accounts p" x y] assms(1) that
      by (simp add: profile_wf_def collisions_wf_def)
  qed
  then show "csv_account q key = csv_account p key" by (simp add: csv_account_def)
qed

lemma csv_identity_same:
  assumes "profile_wf casefold p" and "mset (identities q) = mset (identities p)"
  shows "csv_identity q = csv_identity p"
proof
  fix key
  have "List.find (\<lambda>i. csv_identity_row i \<and> identity_external i = key) (rev (identities p)) =
      List.find (\<lambda>i. csv_identity_row i \<and> identity_external i = key) (rev (identities q))"
  proof (rule find_same_set)
    show "set (rev (identities p)) = set (rev (identities q))" using mset_eq_setD[OF assms(2)] by simp
    have inj: "inj_on (\<lambda>i. (identity_namespace i, identity_external i)) (set (identities p))"
      using assms(1) by (simp add: profile_wf_def identities_wf_def distinct_map)
    show "x = y" if "x \<in> set (rev (identities p))" "y \<in> set (rev (identities p))"
        "csv_identity_row x \<and> identity_external x = key" "csv_identity_row y \<and> identity_external y = key" for x y
      by (rule inj_onD[OF inj]) (use that in \<open>simp_all add: csv_identity_row_def\<close>)
  qed
  then show "csv_identity q key = csv_identity p key" by (simp add: csv_identity_def)
qed

end
