(* ===== verification/Csv_Fold.thy ===== *)
theory Csv_Fold
  imports Csv_State
begin

text \<open>
  What a fold leaves in the ledger of imported CSV rows: the ledger is valid for the effective
  profile, a row whose transaction was deleted is marked deleted, and whatever a transaction shows
  differently from the committed profile is recorded as an override of its row, so that a later
  import of the same file does not undo it.
\<close>

subsection \<open>The rows an operation marks\<close>

definition touch :: "operation_type \<Rightarrow> entity_id set \<Rightarrow> csv_row \<Rightarrow> csv_row" where
  "touch kind ids r = (if csv_local_id r \<in> ids then csv_mark kind r else r)"

lemma csv_mark_simps [simp]: "csv_local_id (csv_mark kind r) = csv_local_id r"
  "csv_mark kind (csv_mark kind r) = csv_mark kind r"
  by (simp_all add: csv_mark_def)

lemma touch_simps [simp]: "csv_local_id (touch kind ids r) = csv_local_id r"
  "touch kind ids (touch kind {i} r) = touch kind (insert i ids) r"
  by (auto simp: touch_def)

lemma csv_position_distinct:
  assumes "distinct (map csv_local_id loaded)"
  shows "csv_position loaded i = Some k \<longleftrightarrow> k < length loaded \<and> csv_local_id (loaded ! k) = i"
    and "csv_position loaded i = None \<longleftrightarrow> i \<notin> csv_local_id ` set loaded"
proof -
  have unique: "j = k" if "j < length loaded" "k < length loaded"
      "csv_local_id (loaded ! j) = csv_local_id (loaded ! k)" for j k
    using assms that nth_eq_iff_index_eq[of "map csv_local_id loaded" j k] by simp
  show none: "csv_position loaded i = None \<longleftrightarrow> i \<notin> csv_local_id ` set loaded"
  proof -
    have "(\<exists>k<length loaded. csv_local_id (loaded ! k) = i) \<longleftrightarrow> i \<in> csv_local_id ` set loaded"
      unfolding set_conv_nth by blast
    then show ?thesis by (auto simp: csv_position_def find_None_iff)
  qed
  show "csv_position loaded i = Some k \<longleftrightarrow> k < length loaded \<and> csv_local_id (loaded ! k) = i"
  proof
    assume "csv_position loaded i = Some k"
    then have "k \<in> set (rev [0 ..< length loaded]) \<and> csv_local_id (loaded ! k) = i"
      unfolding csv_position_def find_Some_iff by (metis nth_mem)
    then show "k < length loaded \<and> csv_local_id (loaded ! k) = i" by simp
  next
    assume k: "k < length loaded \<and> csv_local_id (loaded ! k) = i"
    then have "csv_position loaded i \<noteq> None" using none by (auto simp: image_iff)
    then obtain j where j: "csv_position loaded i = Some j" by blast
    then have "j \<in> set (rev [0 ..< length loaded]) \<and> csv_local_id (loaded ! j) = i"
      unfolding csv_position_def find_Some_iff by (metis nth_mem)
    with k unique j show "csv_position loaded i = Some k" by fastforce
  qed
qed

lemma csv_visit_once:
  assumes d: "distinct (map csv_local_id loaded)" and ids: "map csv_local_id rows = map csv_local_id loaded"
  shows "snd (csv_visit loaded oper i rows) = map (touch (op_type oper) {i}) rows"
proof -
  have len: "length rows = length loaded" using arg_cong[OF ids, of length] by simp
  have same: "csv_local_id (rows ! k) = csv_local_id (loaded ! k)" if "k < length loaded" for k
    using arg_cong[OF ids, of "\<lambda>xs. xs ! k"] that len by simp
  show ?thesis
  proof (cases "csv_position loaded i")
    case None
    then have "i \<notin> csv_local_id ` set rows"
      using csv_position_distinct(2)[OF d] arg_cong[OF ids, of set] by simp
    then have "map (touch (op_type oper) {i}) rows = rows" by (auto simp: touch_def intro!: map_idI)
    with None show ?thesis by (simp add: csv_visit_def)
  next
    case (Some k)
    then have k: "k < length loaded" "csv_local_id (loaded ! k) = i" using csv_position_distinct(1)[OF d] by simp_all
    have "rows[k := csv_mark (op_type oper) (rows ! k)] = map (touch (op_type oper) {i}) rows"
    proof (rule nth_equalityI)
      fix j assume "j < length (rows[k := csv_mark (op_type oper) (rows ! k)])"
      then have j: "j < length rows" by simp
      have "csv_local_id (rows ! j) = i \<longleftrightarrow> j = k"
        using d same[of j] k j len nth_eq_iff_index_eq[of "map csv_local_id loaded" j k] by auto
      then show "rows[k := csv_mark (op_type oper) (rows ! k)] ! j = map (touch (op_type oper) {i}) rows ! j"
        using j by (auto simp: nth_list_update touch_def)
    qed simp
    with Some show ?thesis by (simp add: csv_visit_def)
  qed
qed

lemma csv_visit_fold:
  assumes d: "distinct (map csv_local_id loaded)" and ids: "map csv_local_id rows = map csv_local_id loaded"
  shows "fold (\<lambda>i rows. snd (csv_visit loaded oper i rows)) is rows = map (touch (op_type oper) (set is)) rows"
  using ids
proof (induction "is" arbitrary: rows)
  case Nil
  then show ?case by (simp add: touch_def)
next
  case (Cons i "is")
  have next_ids: "map csv_local_id (map (touch (op_type oper) {i}) rows) = map csv_local_id loaded"
    using Cons.prems by (simp add: comp_def)
  show ?case
    unfolding fold_simps csv_visit_once[OF d Cons.prems] Cons.IH[OF next_ids] by (simp add: comp_def)
qed

definition covered_ids :: "profile \<Rightarrow> operation \<Rightarrow> entity_id set" where
  "covered_ids p oper = record_id ` {r \<in> set (transactions p). covered p oper r}"

lemma csv_step_touch:
  assumes d: "distinct (map csv_local_id loaded)" and ids: "map csv_local_id rows = map csv_local_id loaded"
    and apply_ok: "ApplyOperation casefold c oper = Inr c'"
  shows "csv_step casefold loaded (c, rows) oper =
    Inr (c', map (touch (op_type oper) (covered_ids c oper)) rows)"
proof -
  have stored: "ValidateStored casefold oper = Inr ()" and guard: "op_guard c oper"
    using apply_ok unfolding ApplyOperation_Inr by blast+
  have visitor: "csv_visit loaded oper = (\<lambda>i rows. (True, snd (csv_visit loaded oper i rows)))"
    by (simp add: csv_visit_def fun_eq_iff)
  obtain "is" where "VisitAffectedByOperation c oper (csv_visit loaded oper) rows =
      Some (fold (\<lambda>i rows. snd (csv_visit loaded oper i rows)) is rows)" "set is = covered_ids c oper"
    using Visit_covers[OF stored guard, of "\<lambda>i rows. snd (csv_visit loaded oper i rows)" rows, folded visitor]
    unfolding covered_ids_def by blast
  then show ?thesis by (simp add: csv_step_def csv_visit_fold[OF d ids] apply_ok)
qed

subsection \<open>What the marks record\<close>

definition merchant_types :: "operation_type set" where
  "merchant_types = {OperationMerchantLabel, OperationMerchantMerge, OperationMerchantReassign}"

definition category_types :: "operation_type set" where
  "category_types = {OperationCategoryAssign, OperationCategoryCreate, OperationCategoryLabel,
     OperationCategoryMove, OperationCategoryMerge, OperationCategoryDelete, OperationGroupLabel,
     OperationGroupMerge, OperationGroupDelete}"

lemma csv_mark_flags [simp]:
  "csv_merchant_override (csv_mark kind r) \<longleftrightarrow> kind \<in> merchant_types \<or> csv_merchant_override r"
  "csv_category_override (csv_mark kind r) \<longleftrightarrow> kind \<in> category_types \<or> csv_category_override r"
  "csv_disposition (csv_mark kind r) =
     (if kind = OperationTransactionDelete then ''deleted'' else csv_disposition r)"
  by (auto simp: csv_mark_def merchant_types_def category_types_def)

text \<open>Only these operations change the merchants, or the categories, that transactions show.\<close>

lemma merchants_kept:
  assumes "op_type oper \<notin> merchant_types"
  shows "merchants (op_effect oper p) = merchants p"
    and "x \<in> set (transactions (op_effect oper p)) \<Longrightarrow>
      \<exists>y\<in>set (transactions p). record_id y = record_id x \<and> record_merchant y = record_merchant x"
proof -
  have "merchants (op_effect oper p) = merchants p \<and> (\<lambda>r. (record_id r, record_merchant r)) `
      set (transactions (op_effect oper p)) \<subseteq> (\<lambda>r. (record_id r, record_merchant r)) ` set (transactions p)"
    using assms
    by (cases "op_type oper")
      (auto simp: merchant_types_def op_effect_def on_payload_option merge_categories_effect_def
        merge_groups_effect_def on_targets_def toggle_hidden_def redirect_record_category_def split: option.split)
  then show "merchants (op_effect oper p) = merchants p"
    and "x \<in> set (transactions (op_effect oper p)) \<Longrightarrow>
      \<exists>y\<in>set (transactions p). record_id y = record_id x \<and> record_merchant y = record_merchant x"
    by force+
qed

lemma categories_kept:
  assumes "op_type oper \<notin> category_types"
  shows "categories (op_effect oper p) = categories p" and "set (groups p) \<subseteq> set (groups (op_effect oper p))"
    and "x \<in> set (transactions (op_effect oper p)) \<Longrightarrow>
      \<exists>y\<in>set (transactions p). record_id y = record_id x \<and> record_category y = record_category x"
proof -
  have "categories (op_effect oper p) = categories p \<and> set (groups p) \<subseteq> set (groups (op_effect oper p))
      \<and> (\<lambda>r. (record_id r, record_category r)) ` set (transactions (op_effect oper p))
        \<subseteq> (\<lambda>r. (record_id r, record_category r)) ` set (transactions p)"
    using assms
    by (cases "op_type oper")
      (auto simp: category_types_def op_effect_def on_payload_option merge_merchants_effect_def
        on_targets_def toggle_hidden_def redirect_record_merchant_def split: option.split)
  then show "categories (op_effect oper p) = categories p" "set (groups p) \<subseteq> set (groups (op_effect oper p))"
    and "x \<in> set (transactions (op_effect oper p)) \<Longrightarrow>
      \<exists>y\<in>set (transactions p). record_id y = record_id x \<and> record_category y = record_category x"
    by force+
qed

lemma one_row:
  assumes "distinct (map ident rows)" and "x \<in> set rows" "y \<in> set rows" "ident x = ident y"
  shows "x = y"
  using assms by (auto simp: distinct_map dest: inj_onD)

lemma step_changes:
  assumes applied: "ApplyOperation casefold c oper = Inr c'"
    and x: "x \<in> set (transactions c)" "joined c x u" and y: "y \<in> set (transactions c')" "joined c' y v"
    and same: "record_id x = record_id y"
  shows "trans_merchant u \<noteq> trans_merchant v \<Longrightarrow> record_id x \<in> covered_ids c oper \<and> op_type oper \<in> merchant_types"
    and "trans_category u \<noteq> trans_category v \<Longrightarrow> record_id x \<in> covered_ids c oper \<and> op_type oper \<in> category_types"
proof -
  from applied have op: "ValidateStored casefold oper = Inr ()" "op_guard c oper" "profile_wf casefold c"
      "profile_wf casefold c'" "c' = sortCommittedProfile (op_effect oper c)"
    unfolding ApplyOperation_Inr by blast+
  have rows: "same_rows c' (op_effect oper c)" unfolding op(5) by (rule sortCommittedProfile_same_rows)
  note sets = same_rows_sets[OF rows]
  note ids = profile_wf_distinct[OF op(4)] and c_ids = profile_wf_distinct[OF op(3)]
  have tx: "distinct (map record_id (transactions c))" "distinct (map record_id (transactions c'))"
    by (rule profile_ids_distinct(4)[OF op(3)], rule profile_ids_distinct(4)[OF op(4)])
  have covered: "u = v" if "record_id x \<notin> covered_ids c oper"
  proof -
    have "\<not> covered c oper x" using that x(1) by (auto simp: covered_ids_def)
    from not_covered_kept[OF op(1,2) x(1) this x(2)]
    have "x \<in> set (transactions c')" "joined c' x u" using sets(5) joined_same_rows[OF rows] by auto
    then have "x = y" using one_row[OF tx(2) _ y(1) same] by blast
    then show ?thesis using joined_unique[OF op(4)] \<open>joined c' x u\<close> y(2) by blast
  qed
  obtain m c1 g a where u: "m \<in> set (merchants c)" "c1 \<in> set (categories c)" "g \<in> set (groups c)"
      "merchant_id m = record_merchant x" "category_id c1 = record_category x" "group_id g = category_group_id c1"
      "u = join_record a m c1 g x" using x(2) by (auto simp: joined_def)
  obtain n c2 h b where v: "n \<in> set (merchants c')" "c2 \<in> set (categories c')" "h \<in> set (groups c')"
      "merchant_id n = record_merchant y" "category_id c2 = record_category y" "group_id h = category_group_id c2"
      "v = join_record b n c2 h y" using y(2) by (auto simp: joined_def)
  show "record_id x \<in> covered_ids c oper \<and> op_type oper \<in> merchant_types" if ne: "trans_merchant u \<noteq> trans_merchant v"
  proof (rule ccontr)
    assume no: "\<not> ?thesis"
    then have not_m: "op_type oper \<notin> merchant_types" using covered ne by blast
    have y': "y \<in> set (transactions (op_effect oper c))" using y(1) sets(5) by simp
    from merchants_kept(2)[OF not_m y'] obtain z where z: "z \<in> set (transactions c)"
      "record_id z = record_id y" "record_merchant z = record_merchant y" by blast
    have "z = x" using one_row[OF tx(1) z(1) x(1)] z(2) same by simp
    moreover have "n \<in> set (merchants c)" using v(1) sets(2) merchants_kept(1)[OF not_m, of c] by simp
    ultimately have "n = m" using one_row[OF c_ids(2) _ u(1)] u(4) v(4) z(3) by simp
    with ne u(7) v(7) show False by (simp add: join_record_def)
  qed
  show "record_id x \<in> covered_ids c oper \<and> op_type oper \<in> category_types" if ne: "trans_category u \<noteq> trans_category v"
  proof (rule ccontr)
    assume no: "\<not> ?thesis"
    then have not_c: "op_type oper \<notin> category_types" using covered ne by blast
    have y': "y \<in> set (transactions (op_effect oper c))" using y(1) sets(5) by simp
    from categories_kept(3)[OF not_c y'] obtain z where z: "z \<in> set (transactions c)"
      "record_id z = record_id y" "record_category z = record_category y" by blast
    have "z = x" using one_row[OF tx(1) z(1) x(1)] z(2) same by simp
    moreover have "c2 \<in> set (categories c)" using v(2) sets(4) categories_kept(1)[OF not_c, of c] by simp
    ultimately have c2: "c2 = c1" using one_row[OF c_ids(4) _ u(2)] u(5) v(5) z(3) by simp
    have "g \<in> set (groups c')" using u(3) sets(3) categories_kept(2)[OF not_c, of c] by blast
    then have "h = g" using one_row[OF ids(3) v(3)] u(6) v(6) c2 by simp
    with ne u(7) v(7) c2 show False by (simp add: join_record_def)
  qed
qed

subsection \<open>The rows after a fold\<close>

abbreviation live_ids :: "profile \<Rightarrow> entity_id set" where
  "live_ids p \<equiv> record_id ` set (transactions p)"

definition csv_core :: "csv_row \<Rightarrow> csv_row" where
  "csv_core r = r\<lparr>csv_merchant_override := False, csv_category_override := False, csv_disposition := ''''\<rparr>"

lemma csv_core_mark [simp]: "csv_core (csv_mark kind r) = csv_core r"
  by (simp add: csv_core_def csv_mark_def)

text \<open>
  A row relative to its stored row: the facts are the same, a row whose transaction has gone is
  deleted, and whatever its transaction shows differently is recorded as an override.
\<close>

definition overrides_recorded :: "profile \<Rightarrow> profile \<Rightarrow> csv_row \<Rightarrow> bool" where
  "overrides_recorded p c r \<longleftrightarrow> (\<forall>x\<in>set (transactions p). \<forall>y\<in>set (transactions c). \<forall>t u.
     record_id x = csv_local_id r \<longrightarrow> record_id y = csv_local_id r \<longrightarrow> joined p x t \<longrightarrow> joined c y u \<longrightarrow>
     (trans_merchant t \<noteq> trans_merchant u \<longrightarrow> csv_merchant_override r)
     \<and> (trans_category t \<noteq> trans_category u \<longrightarrow> csv_category_override r))"

definition row_follows :: "profile \<Rightarrow> profile \<Rightarrow> csv_row \<Rightarrow> csv_row \<Rightarrow> bool" where
  "row_follows p c r0 r \<longleftrightarrow> csv_core r = csv_core r0
     \<and> csv_disposition r = (if csv_disposition r0 = ''present'' \<and> csv_local_id r0 \<notin> live_ids c
         then ''deleted'' else csv_disposition r0)
     \<and> overrides_recorded p c r"

lemma csv_core_simps [simp]:
  "csv_source_key (csv_core r) = csv_source_key r" "csv_local_id (csv_core r) = csv_local_id r"
  "csv_account_key (csv_core r) = csv_account_key r" "csv_date (csv_core r) = csv_date r"
  "csv_amount (csv_core r) = csv_amount r"
  by (simp_all add: csv_core_def)

lemma csv_core_fields:
  assumes "csv_core r = csv_core r0"
  shows "csv_source_key r = csv_source_key r0" "csv_local_id r = csv_local_id r0"
    "csv_account_key r = csv_account_key r0" "csv_date r = csv_date r0" "csv_amount r = csv_amount r0"
  using assms csv_core_simps by metis+

lemma row_follows_core: "row_follows p c r0 r \<Longrightarrow> csv_core r = csv_core r0"
  by (simp add: row_follows_def)

lemmas row_follows_fields = csv_core_fields[OF row_follows_core]

lemma joined_total:
  assumes "profile_wf casefold p" and "x \<in> set (transactions p)"
  shows "\<exists>t. joined p x t"
proof -
  have "record_wf p x" using assms by (simp add: profile_wf_def)
  then obtain a m c where "a \<in> set (accounts p)" "account_id a = record_account x" "m \<in> set (merchants p)"
      "merchant_id m = record_merchant x" "c \<in> set (categories p)" "category_id c = record_category x"
    by (auto simp: record_wf_def has_active_def)
  moreover obtain g where "g \<in> set (groups p)" "group_id g = category_group_id c"
    using assms(1) \<open>c \<in> set (categories p)\<close> unfolding profile_wf_def references_wf_def has_active_def by blast
  ultimately show ?thesis unfolding joined_def by blast
qed

lemma live_ids_step:
  assumes "ApplyOperation casefold c oper = Inr c'"
  shows "live_ids c' = (if op_type oper = OperationTransactionDelete then live_ids c - covered_ids c oper
    else live_ids c)"
proof -
  have c': "c' = sortCommittedProfile (op_effect oper c)"
    using assms unfolding ApplyOperation_Inr by blast
  have same: "live_ids c' = live_ids (op_effect oper c)"
    unfolding c' by (simp add: same_rows_sets(5)[OF sortCommittedProfile_same_rows])
  show ?thesis
  proof (cases "op_type oper = OperationTransactionDelete")
    case True
    then show ?thesis unfolding same by (auto simp: op_effect_def covered_ids_def covered_def)
  next
    case False
    then show ?thesis
      unfolding same using arg_cong[OF op_effect_record_ids[OF False, of c], of set] by simp
  qed
qed

lemma row_follows_step:
  assumes applied: "ApplyOperation casefold c oper = Inr c'"
    and live: "csv_disposition r0 = ''present'' \<longleftrightarrow> csv_local_id r0 \<in> live_ids p" "live_ids c \<subseteq> live_ids p"
    and r: "row_follows p c r0 r"
  shows "row_follows p c' r0 (touch (op_type oper) (covered_ids c oper) r)"
proof -
  have id: "csv_local_id r = csv_local_id r0" by (rule row_follows_fields(2)[OF r])
  let ?r = "touch (op_type oper) (covered_ids c oper) r"
  have covered: "covered_ids c oper \<subseteq> live_ids c" by (auto simp: covered_ids_def)
  have "csv_core ?r = csv_core r0" using r by (simp add: touch_def row_follows_def)
  moreover have "csv_disposition ?r = (if csv_disposition r0 = ''present'' \<and> csv_local_id r0 \<notin> live_ids c'
         then ''deleted'' else csv_disposition r0)"
  proof (cases "csv_local_id r0 \<in> covered_ids c oper \<and> op_type oper = OperationTransactionDelete")
    case True
    then have "csv_disposition r0 = ''present''" using live covered by blast
    with True show ?thesis by (simp add: touch_def id live_ids_step[OF applied])
  next
    case False
    then have "csv_local_id r0 \<in> live_ids c' \<longleftrightarrow> csv_local_id r0 \<in> live_ids c"
      by (auto simp: live_ids_step[OF applied])
    moreover have "csv_disposition ?r = csv_disposition r" using False by (auto simp: touch_def id)
    ultimately show ?thesis using r by (simp only: row_follows_def)
  qed
  moreover have "overrides_recorded p c' ?r"
    unfolding overrides_recorded_def
  proof (intro ballI allI impI)
    fix x y t v assume x: "x \<in> set (transactions p)" and y: "y \<in> set (transactions c')"
      and x_id: "record_id x = csv_local_id ?r" and y_id: "record_id y = csv_local_id ?r"
      and t: "joined p x t" and v: "joined c' y v"
    have "record_id y \<in> live_ids c" using y live_ids_step[OF applied] by (auto split: if_splits)
    then obtain z where z: "z \<in> set (transactions c)" "record_id z = record_id y" by auto
    have wf: "profile_wf casefold c" using applied unfolding ApplyOperation_Inr by blast
    then obtain u where u: "joined c z u" using joined_total z(1) by blast
    note old = r[unfolded row_follows_def overrides_recorded_def, THEN conjunct2, THEN conjunct2,
        rule_format, OF x z(1) _ _ t u]
    note change = step_changes[OF applied z(1) u y v z(2)]
    have ids: "record_id x = csv_local_id r" "record_id z = csv_local_id r" using x_id y_id z(2) by simp_all
    show "(trans_merchant t \<noteq> trans_merchant v \<longrightarrow> csv_merchant_override ?r)
        \<and> (trans_category t \<noteq> trans_category v \<longrightarrow> csv_category_override ?r)"
      using old[OF ids] change ids(2) by (auto simp: touch_def)
  qed
  ultimately show ?thesis by (simp add: row_follows_def)
qed

lemma csv_run:
  assumes "reference_replay casefold c opers = Inr q" and d: "distinct (map csv_local_id loaded)"
    and live: "\<forall>r\<in>set loaded. csv_disposition r = ''present'' \<longleftrightarrow> csv_local_id r \<in> live_ids p"
    and "live_ids c \<subseteq> live_ids p" and "list_all2 (row_follows p c) loaded rows"
  shows "\<exists>rows'. fold_result (csv_step casefold loaded) (c, rows) opers = Inr (q, rows')
    \<and> list_all2 (row_follows p q) loaded rows'"
  using assms(1,4,5)
proof (induction opers arbitrary: c rows)
  case Nil
  then show ?case by (simp add: reference_replay_def)
next
  case (Cons oper opers)
  from Cons.prems(1) obtain c' where c': "ApplyOperation casefold c oper = Inr c'"
      "reference_replay casefold c' opers = Inr q" by (auto simp: reference_replay_def bind_result_Inr)
  have ids: "map csv_local_id rows = map csv_local_id loaded"
  proof (rule nth_equalityI)
    show "length (map csv_local_id rows) = length (map csv_local_id loaded)"
      using list_all2_lengthD[OF Cons.prems(3)] by simp
    fix k assume "k < length (map csv_local_id rows)"
    then have "row_follows p c (loaded ! k) (rows ! k)"
      using list_all2_nthD2[OF Cons.prems(3)] by simp
    then have "csv_local_id (rows ! k) = csv_local_id (loaded ! k)" by (rule row_follows_fields(2))
    with \<open>k < length (map csv_local_id rows)\<close> list_all2_lengthD[OF Cons.prems(3)]
    show "map csv_local_id rows ! k = map csv_local_id loaded ! k" by simp
  qed
  let ?rows = "map (touch (op_type oper) (covered_ids c oper)) rows"
  have "list_all2 (row_follows p c') loaded ?rows"
    unfolding list_all2_map2
    by (rule list.rel_mono_strong[OF Cons.prems(3)]) (use row_follows_step[OF c'(1)] live Cons.prems(2) in blast)
  moreover have "live_ids c' \<subseteq> live_ids p" using live_ids_step[OF c'(1)] Cons.prems(2) by auto
  ultimately obtain rows' where "fold_result (csv_step casefold loaded) (c', ?rows) opers = Inr (q, rows')"
      "list_all2 (row_follows p q) loaded rows'" using Cons.IH[OF c'(2)] by blast
  then show ?case using csv_step_touch[OF d ids c'(1)] by simp
qed

subsection \<open>Rows that follow their stored rows stay valid\<close>

lemma row_follows_same_rows:
  assumes "same_rows q e" and "row_follows p q r0 r"
  shows "row_follows p e r0 r"
  using assms(2) same_rows_sets(5)[OF assms(1)] joined_same_rows[OF assms(1)]
  by (simp add: row_follows_def overrides_recorded_def)

lemma csv_row_ok_core:
  assumes "csv_core r = csv_core r0" and "csv_account q = csv_account p" "csv_identity q = csv_identity p"
  shows "csv_row_ok hash mapping s q r = csv_row_ok hash mapping s p r0"
proof -
  have row: "csv_row_ok hash mapping s q r = csv_row_ok hash mapping s q (csv_core r)" for r
    by (simp add: csv_row_ok_def csv_core_def SourceKey_def)
  have "csv_row_ok hash mapping s q r0 = csv_row_ok hash mapping s p r0"
    using assms(2,3) by (simp add: csv_row_ok_def)
  then show ?thesis using row[of r] row[of r0] assms(1) by simp
qed

lemma fold_shape_record:
  assumes "fold_shape p e" and "t \<in> set (transactions e)"
  obtains t0 where "t0 \<in> set (transactions p)" "record_fixed t0 = record_fixed t"
proof -
  have "record_fixed t \<in> record_fixed ` set (transactions p)" using assms unfolding fold_shape_def by blast
  then show thesis using that by (auto elim!: imageE)
qed

lemma last_transaction_live:
  assumes "profile_wf casefold p"
  shows "last_transaction (transactions p) k = None \<longleftrightarrow> k \<notin> live_ids p"
proof -
  note last = last_transaction_distinct[OF profile_ids_distinct(4)[OF assms], of k]
  show ?thesis
  proof
    assume none: "last_transaction (transactions p) k = None"
    have "record_id r \<noteq> k" if "r \<in> set (transactions p)" for r using last[of r] none that by simp
    then show "k \<notin> live_ids p" by blast
  next
    assume gone: "k \<notin> live_ids p"
    show "last_transaction (transactions p) k = None"
    proof (cases "last_transaction (transactions p) k")
      case (Some r)
      then show ?thesis using last[of r] gone by (metis imageI)
    qed
  qed
qed

lemma disposition_follows:
  assumes wf: "profile_wf casefold p" "profile_wf casefold e" and shape: "fold_shape p e"
    and account: "csv_account e = csv_account p"
    and follows: "row_follows p e r0 r" and ok: "csv_disposition_ok p r0"
  shows "csv_disposition_ok e r"
proof -
  note p = last_transaction_distinct[OF profile_ids_distinct(4)[OF wf(1)]]
  note e = last_transaction_distinct[OF profile_ids_distinct(4)[OF wf(2)]]
  have core: "csv_core r = csv_core r0" using follows by (simp add: row_follows_def)
  note fields = csv_core_fields[OF core]
  have disposition: "csv_disposition r = (if csv_disposition r0 = ''present'' \<and> csv_local_id r0 \<notin> live_ids e
      then ''deleted'' else csv_disposition r0)" using follows by (simp add: row_follows_def)
  have old: "\<exists>t0\<in>set (transactions p). record_fixed t0 = record_fixed t" if "t \<in> set (transactions e)" for t
    using fold_shape_record[OF shape that] by blast
  note gone = last_transaction_live[OF wf(2)]
  show ?thesis
  proof (cases "csv_disposition r = ''present''")
    case True
    then have present: "csv_disposition r0 = ''present''" "csv_local_id r0 \<in> live_ids e"
      using disposition by (auto split: if_splits)
    then obtain t where t: "t \<in> set (transactions e)" "record_id t = csv_local_id r0" by auto
    then obtain t0 where t0: "t0 \<in> set (transactions p)" "record_fixed t0 = record_fixed t" using old by blast
    have found: "last_transaction (transactions p) (csv_local_id r0) = Some t0"
      using p t0 t(2) by (simp add: record_fixed_def)
    have found': "last_transaction (transactions e) (csv_local_id r0) = Some t" using e t by simp
    show ?thesis
      using ok t0(2) by (simp add: csv_disposition_ok_def True present(1) found found' fields account record_fixed_def)
  next
    case False
    have kinds: "csv_disposition r0 = ''present'' \<or> csv_disposition r0 = ''superseded'' \<or> csv_disposition r0 = ''deleted''"
      using ok by (auto simp: csv_disposition_ok_def Let_def split: if_splits)
    have none: "csv_local_id r0 \<notin> live_ids e"
    proof (cases "csv_disposition r0 = ''present''")
      case True
      then show ?thesis using False disposition by auto
    next
      case no: False
      then have "last_transaction (transactions p) (csv_local_id r0) = None"
        using ok kinds by (auto simp: csv_disposition_ok_def Let_def split: if_splits)
      then have "csv_local_id r0 \<notin> live_ids p" unfolding last_transaction_live[OF wf(1)] .
      moreover have "live_ids e \<subseteq> live_ids p"
      proof
        fix k assume "k \<in> live_ids e"
        then obtain t where t: "t \<in> set (transactions e)" "record_id t = k" by auto
        then obtain t0 where "t0 \<in> set (transactions p)" "record_fixed t0 = record_fixed t" using old by blast
        with t(2) show "k \<in> live_ids p" by (auto simp: record_fixed_def image_iff intro!: bexI[of _ t0])
      qed
      ultimately show ?thesis by blast
    qed
    have "csv_disposition r = ''superseded'' \<or> csv_disposition r = ''deleted''"
      using kinds disposition none False by (auto split: if_splits)
    then show ?thesis using gone none by (auto simp: csv_disposition_ok_def fields)
  qed
qed

lemma csv_valid_mset:
  assumes "csv_settings_row a = csv_settings_row b" and "mset (csv_files a) = mset (csv_files b)"
    and "mset (csv_rows a) = mset (csv_rows b)" and "mset (csv_membership a) = mset (csv_membership b)"
  shows "csv_valid hash s a p = csv_valid hash s b p"
proof -
  note sets = assms(2-4)[THEN mset_eq_setD]
  have "distinct (map file_key (csv_files a)) = distinct (map file_key (csv_files b))"
      "distinct (map csv_local_id (csv_rows a)) = distinct (map csv_local_id (csv_rows b))"
      "distinct (map csv_source_key (csv_rows a)) = distinct (map csv_source_key (csv_rows b))"
      "distinct (csv_membership a) = distinct (csv_membership b)"
    by (rule distinct_map_mset[OF assms(2)], rule distinct_map_mset[OF assms(3)],
        rule distinct_map_mset[OF assms(3)], rule mset_eq_imp_distinct_iff[OF assms(4)])
  moreover have "member_ok (csv_files a) (csv_rows a) = member_ok (csv_files b) (csv_rows b)"
    by (simp add: member_ok_def fun_eq_iff sets)
  ultimately show ?thesis by (simp only: csv_valid_def sets)
qed

lemma csv_valid_follows:
  assumes wf: "profile_wf casefold p" "profile_wf casefold e" and shape: "fold_shape p e"
    and valid: "csv_valid hash s state p"
    and rows: "list_all2 (row_follows p e) (csv_rows state) rows"
  shows "csv_valid hash s (state\<lparr>csv_rows := rows\<rparr>) e"
proof -
  have account: "csv_account e = csv_account p" by (rule csv_account_same[OF wf(1)]) (use shape in \<open>simp add: fold_shape_def\<close>)
  have identity: "csv_identity e = csv_identity p" by (rule csv_identity_same[OF wf(1)]) (use shape in \<open>simp add: fold_shape_def\<close>)
  have ids_set: "set (identities e) = set (identities p)"
    using shape unfolding fold_shape_def by (metis mset_eq_setD)
  obtain mapping where v: "Lookup (settings_mapping s) = Some mapping"
      "mapping_currency mapping = settings_currency s" "mapping_scale mapping = settings_scale s"
      "settings_created_ms s \<noteq> None"
      "\<forall>f\<in>set (csv_files state). csv_file_ok p f" "distinct (map file_key (csv_files state))"
      "\<forall>r\<in>set (csv_rows state). csv_row_ok hash mapping s p r \<and> csv_disposition_ok p r"
      "distinct (map csv_local_id (csv_rows state))" "distinct (map csv_source_key (csv_rows state))"
      "\<forall>i\<in>set (identities p). csv_identity_row i \<longrightarrow>
          (\<exists>r\<in>set (csv_rows state). csv_source_key r = identity_external i
            \<and> csv_identity p (identity_external i) = Some (csv_local_id r))
          \<or> identity_external i \<notin> csv_source_key ` set (csv_rows state)
            \<and> csv_identity p (identity_external i) = Some ''''"
      "\<forall>m\<in>set (csv_membership state). member_ok (csv_files state) (csv_rows state) m"
      "distinct (csv_membership state)"
      "\<forall>t\<in>set (transactions p). record_provider t = ''csv'' \<and> record_id t \<in> csv_local_id ` set (csv_rows state)"
    using valid unfolding csv_valid_def by blast
  have paired: "map f rows = map f (csv_rows state)" if "\<And>r0 r. row_follows p e r0 r \<Longrightarrow> f r = f r0"
    for f :: "csv_row \<Rightarrow> string"
    using rows by (rule list_all2_induct) (simp_all add: that)
  have source: "map csv_source_key rows = map csv_source_key (csv_rows state)"
    by (rule paired) (rule row_follows_fields(1))
  have local_ids: "map csv_local_id rows = map csv_local_id (csv_rows state)"
    by (rule paired) (rule row_follows_fields(2))
  have origin: "\<exists>r0\<in>set (csv_rows state). row_follows p e r0 r" if "r \<in> set rows" for r
    using rows that unfolding list_all2_conv_all_nth set_conv_nth by fastforce
  have forth: "\<exists>r\<in>set rows. row_follows p e r0 r" if "r0 \<in> set (csv_rows state)" for r0
    using rows that unfolding list_all2_conv_all_nth set_conv_nth by fastforce
  have 1: "\<forall>f\<in>set (csv_files state). csv_file_ok e f" using v(5) by (simp add: csv_file_ok_def account)
  have 2: "\<forall>r\<in>set rows. csv_row_ok hash mapping s e r \<and> csv_disposition_ok e r"
  proof
    fix r assume "r \<in> set rows"
    then obtain r0 where r0: "r0 \<in> set (csv_rows state)" "row_follows p e r0 r" using origin by blast
    then have core: "csv_core r = csv_core r0" by (simp add: row_follows_def)
    show "csv_row_ok hash mapping s e r \<and> csv_disposition_ok e r"
      using v(7) r0(1) csv_row_ok_core[OF core account identity]
        disposition_follows[OF wf shape account r0(2)] by blast
  qed
  have 3: "\<forall>i\<in>set (identities e). csv_identity_row i \<longrightarrow>
          (\<exists>r\<in>set rows. csv_source_key r = identity_external i
            \<and> csv_identity e (identity_external i) = Some (csv_local_id r))
          \<or> identity_external i \<notin> csv_source_key ` set rows
            \<and> csv_identity e (identity_external i) = Some ''''"
  proof (intro ballI impI)
    fix i assume i: "i \<in> set (identities e)" "csv_identity_row i"
    have "csv_source_key ` set rows = csv_source_key ` set (csv_rows state)"
      using arg_cong[OF source, of set] by simp
    moreover have "\<exists>r\<in>set rows. csv_source_key r = k \<and> csv_local_id r = l"
      if "\<exists>r\<in>set (csv_rows state). csv_source_key r = k \<and> csv_local_id r = l" for k l
    proof -
      from that obtain r0 where r0: "r0 \<in> set (csv_rows state)" "csv_source_key r0 = k" "csv_local_id r0 = l" by blast
      obtain r where r: "r \<in> set rows" "row_follows p e r0 r" using forth[OF r0(1)] by blast
      from row_follows_fields(1,2)[OF r(2)] r(1) r0(2,3) show ?thesis by auto
    qed
    ultimately show "(\<exists>r\<in>set rows. csv_source_key r = identity_external i
            \<and> csv_identity e (identity_external i) = Some (csv_local_id r))
          \<or> identity_external i \<notin> csv_source_key ` set rows
            \<and> csv_identity e (identity_external i) = Some ''''"
      using v(10) i ids_set unfolding identity by metis
  qed
  have 4: "\<forall>m\<in>set (csv_membership state). member_ok (csv_files state) rows m"
  proof
    fix m assume "m \<in> set (csv_membership state)"
    then obtain f r0 where m: "f \<in> set (csv_files state)" "r0 \<in> set (csv_rows state)" "file_key f = member_file_key m"
        "csv_source_key r0 = member_source_key m" "file_account_key f = csv_account_key r0"
        "csv_disposition r0 \<noteq> ''superseded''" using v(11) unfolding member_ok_def by blast
    from m(2) obtain r where r: "r \<in> set rows" "row_follows p e r0 r" using forth by blast
    have "csv_disposition r \<noteq> ''superseded''" using r(2) m(6) by (simp add: row_follows_def)
    moreover have core: "csv_core r = csv_core r0" using r(2) by (simp add: row_follows_def)
    ultimately show "member_ok (csv_files state) rows m"
      using m r(1) csv_core_fields(1,3)[OF core] unfolding member_ok_def by metis
  qed
  have 5: "\<forall>t\<in>set (transactions e). record_provider t = ''csv'' \<and> record_id t \<in> csv_local_id ` set rows"
  proof
    fix t assume "t \<in> set (transactions e)"
    then obtain t0 where t0: "t0 \<in> set (transactions p)" "record_fixed t0 = record_fixed t"
      by (rule fold_shape_record[OF shape])
    have "csv_local_id ` set rows = csv_local_id ` set (csv_rows state)"
      using arg_cong[OF local_ids, of set] by simp
    then show "record_provider t = ''csv'' \<and> record_id t \<in> csv_local_id ` set rows"
      using bspec[OF v(13) t0(1)] t0(2) by (simp add: record_fixed_def)
  qed
  show ?thesis
    unfolding csv_valid_def using v(1-4,6,8,9,12) 1 2 3 4 5 by (simp add: source local_ids)
qed

subsection \<open>The fold of the ledger\<close>

text \<open>What a stored ledger satisfies: the constraints of the tables on single rows, and real dates.\<close>

definition csv_stored :: "csv_state \<Rightarrow> bool" where
  "csv_stored db \<longleftrightarrow> (\<forall>s. csv_settings_row db = Some s \<longrightarrow> settings_fit s)
     \<and> (\<forall>f\<in>set (csv_files db). file_fits [] f)
     \<and> (\<forall>r\<in>set (csv_rows db). csv_row_fits [] r \<and> valid_date (csv_date r))"

lemma csv_exec_calm [simp]:
  "csv_exec (\<lambda>_. None) c r = map_error (\<lambda>err. CsvStore (mapDriverError err CodeStoreError)) r"
  by (simp add: csv_exec_def)

lemma csv_query_calm [simp]: "csv_query (\<lambda>_. None) c v = Inr v"
  by (simp add: csv_query_def)

lemma insert_if_run:
  assumes "\<And>ys x zs. xs = ys @ x # zs \<Longrightarrow> fits ys x"
  shows "fold_result (\<lambda>t r. csv_exec (\<lambda>_. None) (c r) (insert_if fits t r)) [] xs = Inr xs"
  using assms
proof (induction xs rule: rev_induct)
  case (snoc x xs)
  have "fits ys y" if "xs = ys @ y # zs" for ys y zs
    using snoc.prems[of ys y "zs @ [x]"] that by simp
  then have "fold_result (\<lambda>t r. csv_exec (\<lambda>_. None) (c r) (insert_if fits t r)) [] xs = Inr xs"
    by (rule snoc.IH)
  then show ?case using snoc.prems[of xs x "[]"] by (simp add: fold_result_append insert_if_def)
qed simp

lemma csv_row_fits_core:
  assumes "csv_core r = csv_core r0" and "csv_row_fits [] r0"
    and "csv_disposition r \<in> {''present'', ''superseded'', ''deleted''}"
  shows "csv_row_fits [] r"
proof -
  have row: "csv_row_fits [] x \<longleftrightarrow> csv_row_fits [] ((csv_core x)\<lparr>csv_disposition := ''present''\<rparr>)
      \<and> csv_disposition x \<in> {''present'', ''superseded'', ''deleted''}" for x
    by (auto simp: csv_row_fits_def csv_core_def)
  show ?thesis using row[of r] row[of r0] assms by simp
qed

lemma replaceCSVState_run:
  assumes valid: "csv_valid hash s state p" and settings: "csv_settings_row state = Some s"
    and stored: "csv_stored state"
  shows "replaceCSVState (\<lambda>_. None) state = Inr state"
proof -
  have d: "distinct (map file_key (csv_files state))" "distinct (map csv_local_id (csv_rows state))"
      "distinct (map csv_source_key (csv_rows state))" "distinct (csv_membership state)"
    and members: "\<forall>m\<in>set (csv_membership state). member_ok (csv_files state) (csv_rows state) m"
    using valid unfolding csv_valid_def by blast+
  have fits: "settings_fit s" "\<forall>f\<in>set (csv_files state). file_fits [] f" "\<forall>r\<in>set (csv_rows state). csv_row_fits [] r"
    using stored settings by (simp_all add: csv_stored_def)
  have files: "fold_result (\<lambda>fs f. csv_exec (\<lambda>_. None) (CallCsvInsertFile (file_key f)) (insert_if file_fits fs f)) []
      (csv_files state) = Inr (csv_files state)"
    by (rule insert_if_run) (use d(1) fits(2) in \<open>auto simp: file_fits_def\<close>)
  have rows: "fold_result (\<lambda>rs r. csv_exec (\<lambda>_. None) (CallCsvInsertRow (csv_source_key r)) (insert_if csv_row_fits rs r)) []
      (csv_rows state) = Inr (csv_rows state)"
    by (rule insert_if_run) (use d(2,3) fits(3) in \<open>auto simp: csv_row_fits_def\<close>)
  have "member_fits (csv_files state) (csv_rows state) ys m" if "csv_membership state = ys @ m # zs" for ys m zs
  proof -
    have "member_ok (csv_files state) (csv_rows state) m" using members that by simp
    then have "member_file_key m \<in> file_key ` set (csv_files state)"
        "member_source_key m \<in> csv_source_key ` set (csv_rows state)"
      unfolding member_ok_def by (metis imageI)+
    then show ?thesis using d(4) that by (simp add: member_fits_def)
  qed
  then have "fold_result (\<lambda>ms m. csv_exec (\<lambda>_. None) (CallCsvInsertMember (member_file_key m) (member_source_key m))
      (insert_if (member_fits (csv_files state) (csv_rows state)) ms m)) [] (csv_membership state) =
      Inr (csv_membership state)" by (rule insert_if_run)
  with files rows show ?thesis using settings fits(1)
    by (simp add: replaceCSVState_def del: csv_exec_calm) (simp add: settings)
qed

definition loaded_csv :: "csv_state \<Rightarrow> csv_state" where
  "loaded_csv db = \<lparr>csv_settings_row = csv_settings_row db, csv_files = sort_key file_key (csv_files db),
     csv_rows = sort_key csv_source_key (csv_rows db),
     csv_membership = sort_key member_file_key (sort_key member_source_key (csv_membership db))\<rparr>"

lemma loadCSVState_run:
  assumes "csv_stored db"
  shows "loadCSVState (\<lambda>_. None) db = Inr (loaded_csv db)"
proof -
  have "load_csv_row r = Inr r" if "r \<in> set (csv_rows db)" for r
    using assms that by (simp add: csv_stored_def load_csv_row_def ParseDate_date_string)
  then have "map_result load_csv_row (sort_key csv_source_key (csv_rows db)) = Inr (sort_key csv_source_key (csv_rows db))"
    by (intro map_result_total[where g = "\<lambda>x. x", simplified]) simp
  then show ?thesis by (simp add: loadCSVState_def loaded_csv_def)
qed

lemma loaded_csv_valid:
  "csv_valid hash s (loaded_csv db) p = csv_valid hash s db p" "csv_stored (loaded_csv db) = csv_stored db"
  by (rule csv_valid_mset) (simp_all add: loaded_csv_def csv_stored_def)

lemma row_follows_start:
  assumes wf: "profile_wf casefold p" and ok: "csv_disposition_ok p r"
  shows "csv_disposition r = ''present'' \<longleftrightarrow> csv_local_id r \<in> live_ids p" "row_follows p p r r"
proof -
  note found = last_transaction_live[OF wf, of "csv_local_id r"]
  show present: "csv_disposition r = ''present'' \<longleftrightarrow> csv_local_id r \<in> live_ids p"
    using ok found by (auto simp: csv_disposition_ok_def Let_def split: if_splits option.splits)
  have "t = u" if "x \<in> set (transactions p)" "y \<in> set (transactions p)" "record_id x = record_id y"
      "joined p x t" "joined p y u" for x y t u
    using one_row[OF profile_ids_distinct(4)[OF wf] that(1,2,3)] joined_unique[OF wf that(4)] that(5) by blast
  then have "overrides_recorded p p r" unfolding overrides_recorded_def by metis
  with present show "row_follows p p r r" by (simp add: row_follows_def)
qed

lemma foldCSVOverrides_run:
  assumes snapshot: "ValidateSnapshot casefold s = Inr ()"
    and ref: "reference_replay casefold (snap_committed s) (take (nat (snap_cursor s)) (snap_journal s)) = Inr p"
    and settings: "csv_settings_row db = Some settings" and stored: "csv_stored db"
    and valid: "ValidateCSVState hash db (snap_committed s) = Inr ()"
  shows "\<exists>rows. foldCSVOverrides casefold hash (\<lambda>_. None) db s (sortCommittedProfile p) =
      Inr ((loaded_csv db)\<lparr>csv_rows := rows\<rparr>)
    \<and> ValidateCSVState hash ((loaded_csv db)\<lparr>csv_rows := rows\<rparr>) (sortCommittedProfile p) = Inr ()
    \<and> csv_stored ((loaded_csv db)\<lparr>csv_rows := rows\<rparr>)
    \<and> list_all2 (row_follows (snap_committed s) (sortCommittedProfile p)) (csv_rows (loaded_csv db)) rows"
proof -
  let ?c = "snap_committed s" and ?e = "sortCommittedProfile p" and ?load = "loaded_csv db"
  note wf = effective_fold[OF snapshot ref]
  have db: "csv_valid hash settings db ?c" using valid by (simp add: ValidateCSVState_Inr[OF settings])
  then have load: "csv_valid hash settings ?load ?c" by (simp add: loaded_csv_valid)
  have loaded: "csv_settings_row ?load = Some settings" by (simp add: loaded_csv_def settings)
  have d: "distinct (map csv_local_id (csv_rows ?load))"
    and ok: "\<forall>r\<in>set (csv_rows ?load). csv_disposition_ok ?c r" using load unfolding csv_valid_def by blast+
  have start: "list_all2 (row_follows ?c ?c) (csv_rows ?load) (csv_rows ?load)"
    using row_follows_start(2)[OF wf(1)] ok by (simp add: list.rel_refl_strong)
  have present: "\<forall>r\<in>set (csv_rows ?load). csv_disposition r = ''present'' \<longleftrightarrow> csv_local_id r \<in> live_ids ?c"
    using row_follows_start(1)[OF wf(1)] ok by blast
  obtain rows where rows: "fold_result (csv_step casefold (csv_rows ?load)) (?c, csv_rows ?load)
      (take (nat (snap_cursor s)) (snap_journal s)) = Inr (p, rows)"
      "list_all2 (row_follows ?c p) (csv_rows ?load) rows"
    using csv_run[OF ref d present subset_refl start] by blast
  have follows: "list_all2 (row_follows ?c ?e) (csv_rows ?load) rows"
    using rows(2) by (rule list_all2_mono)
      (rule row_follows_same_rows[OF same_rows_sym[OF sortCommittedProfile_same_rows]])
  let ?new = "?load\<lparr>csv_rows := rows\<rparr>"
  have new: "csv_valid hash settings ?new ?e" by (rule csv_valid_follows[OF wf load follows])
  have new_settings: "csv_settings_row ?new = Some settings" by (simp add: loaded)
  have "csv_row_fits [] r \<and> valid_date (csv_date r)" if "r \<in> set rows" for r
  proof -
    from follows that obtain r0 where r0: "r0 \<in> set (csv_rows ?load)" "row_follows ?c ?e r0 r"
      unfolding list_all2_conv_all_nth set_conv_nth by fastforce
    have "csv_row_fits [] r0" using stored r0(1) by (simp add: csv_stored_def loaded_csv_def)
    then have "csv_row_fits [] r"
      by (rule csv_row_fits_core[OF row_follows_core[OF r0(2)]])
        (use r0(2) \<open>csv_row_fits [] r0\<close> in \<open>auto simp: row_follows_def csv_row_fits_def\<close>)
    moreover have "valid_date (csv_date r)"
      using stored r0(1) row_follows_fields(4)[OF r0(2)] by (simp add: csv_stored_def loaded_csv_def)
    ultimately show ?thesis by blast
  qed
  then have fits: "csv_stored ?new" using stored by (simp add: csv_stored_def loaded_csv_def)
  then have "replaceCSVState (\<lambda>_. None) ?new = Inr ?new" by (rule replaceCSVState_run[OF new new_settings])
  moreover have "ValidateCSVState hash ?new ?e = Inr ()" using new by (simp add: ValidateCSVState_Inr[OF new_settings])
  ultimately show ?thesis
    using follows rows(1) fits by (auto simp: foldCSVOverrides_def settings loadCSVState_run[OF stored])
qed

text \<open>
  C30. On an idle database, a fold of a valid profile with a valid ledger succeeds on the ledger and
  leaves it valid for the effective profile: the facts of every row are unchanged, a row is marked
  deleted exactly when its transaction has gone, and every merchant or category that a transaction
  shows differently is recorded as an override of its row.
\<close>

theorem foldCSVOverrides_sound:
  assumes "ValidateSnapshot casefold s = Inr ()"
    and "reference_replay casefold (snap_committed s) (take (nat (snap_cursor s)) (snap_journal s)) = Inr p"
    and "csv_settings_row db = Some settings" and "csv_stored db"
    and "ValidateCSVState hash db (snap_committed s) = Inr ()"
  shows "\<exists>rows. foldCSVOverrides casefold hash (\<lambda>_. None) db s (sortCommittedProfile p) =
      Inr ((loaded_csv db)\<lparr>csv_rows := rows\<rparr>)
    \<and> ValidateCSVState hash ((loaded_csv db)\<lparr>csv_rows := rows\<rparr>) (sortCommittedProfile p) = Inr ()
    \<and> csv_stored ((loaded_csv db)\<lparr>csv_rows := rows\<rparr>)
    \<and> list_all2 (row_follows (snap_committed s) (sortCommittedProfile p)) (csv_rows (loaded_csv db)) rows"
  using assms by (rule foldCSVOverrides_run)

subsection \<open>An example\<close>

definition example_hash :: tuple_hash where
  "example_hash values = replicate 63 CHR ''a'' @ (if last values = IntScalar 1 then ''a'' else ''b'')"

definition example_csv_row :: "int \<Rightarrow> string \<Rightarrow> csv_row" where
  "example_csv_row occurrence ident =
     \<lparr>csv_source_key = example_hash [IntScalar occurrence], csv_account_key = ''checking'',
      csv_date = Date 2024 2 29, csv_amount = \<lparr>minor = - 1250, currency = ''USD'', scale = 2\<rparr>,
      csv_merchant = ''CAFE'', csv_category = ''Food'', csv_notes = '''', csv_metadata = [],
      csv_occurrence = occurrence, csv_local_id = ident, csv_merchant_override = False,
      csv_category_override = False, csv_disposition = ''present''\<rparr>"

definition example_ledger :: csv_state where
  "example_ledger =
     \<lparr>csv_settings_row = Some \<lparr>settings_mapping = ''chase_credit'', settings_currency = ''USD'',
        settings_scale = 2, settings_created_ms = Some 1\<rparr>,
      csv_files = [\<lparr>file_key = replicate 64 CHR ''c'', file_account_key = ''checking'',
        file_digest = replicate 64 CHR ''d'', file_completed_ms = Some 1, file_imported = 2,
        file_duplicates = 0, file_skipped = 0\<rparr>],
      csv_rows = [example_csv_row 1 ''t1'', example_csv_row 2 ''t2''],
      csv_membership = [\<lparr>member_file_key = replicate 64 CHR ''c'',
        member_source_key = example_hash [IntScalar 1]\<rparr>]\<rparr>"

definition example_csv_snapshot :: profile_snapshot where
  "example_csv_snapshot = example_snapshot\<lparr>snap_committed := example_profile
     \<lparr>transactions := map (\<lambda>(k, i, m). (example_record i m)\<lparr>record_provider := ''csv'',
        record_provider_id := example_hash [IntScalar k]\<rparr>) [(1, ''t1'', ''m1''), (2, ''t2'', ''m2'')],
      identities := map (\<lambda>(k, i). \<lparr>identity_kind = EntityKindTransaction, identity_entity = i,
        identity_namespace = ''csv:transaction'', identity_external = example_hash [IntScalar k]\<rparr>) [(1, ''t1''), (2, ''t2'')]\<rparr>\<rparr>"

lemma example_csv_snapshot_valid: "ValidateSnapshot ascii_fold example_csv_snapshot = Inr ()"
proof -
  have "ValidateProfile ascii_fold (snap_committed example_csv_snapshot) = Inr ()" by code_simp
  then show ?thesis
    using example_snapshot_valid by (simp add: ValidateSnapshot_Inr ValidateProfile_Inr example_csv_snapshot_def example_snapshot_def)
qed

lemma example_csv_reference:
  "\<exists>p. reference_replay ascii_fold (snap_committed example_csv_snapshot)
      (take (nat (snap_cursor example_csv_snapshot)) (snap_journal example_csv_snapshot)) = Inr p"
proof -
  have "accepts ascii_fold (snap_committed example_csv_snapshot)
      (take (nat (snap_cursor example_csv_snapshot)) (snap_journal example_csv_snapshot))" by code_simp
  moreover have "profile_wf ascii_fold (snap_committed example_csv_snapshot)"
    using example_csv_snapshot_valid by (simp add: ValidateSnapshot_Inr ValidateProfile_Inr)
  ultimately show ?thesis using reference_replay_accepts by blast
qed

theorem foldCSVOverrides_sound_witness:
  "\<exists>p rows. foldCSVOverrides ascii_fold example_hash (\<lambda>_. None) example_ledger example_csv_snapshot
       (sortCommittedProfile p) = Inr ((loaded_csv example_ledger)\<lparr>csv_rows := rows\<rparr>) \<and> length rows = 2"
proof -
  obtain p where p: "reference_replay ascii_fold (snap_committed example_csv_snapshot)
      (take (nat (snap_cursor example_csv_snapshot)) (snap_journal example_csv_snapshot)) = Inr p"
    using example_csv_reference by blast
  have "csv_stored example_ledger"
    by (simp add: csv_stored_def example_ledger_def settings_fit_def file_fits_def csv_row_fits_def
      example_csv_row_def example_hash_def) code_simp
  moreover have "ValidateCSVState example_hash example_ledger (snap_committed example_csv_snapshot) = Inr ()"
    by code_simp
  moreover obtain settings where "csv_settings_row example_ledger = Some settings" by (simp add: example_ledger_def)
  ultimately obtain rows where "foldCSVOverrides ascii_fold example_hash (\<lambda>_. None) example_ledger
        example_csv_snapshot (sortCommittedProfile p) = Inr ((loaded_csv example_ledger)\<lparr>csv_rows := rows\<rparr>)"
      "list_all2 (row_follows (snap_committed example_csv_snapshot) (sortCommittedProfile p))
        (csv_rows (loaded_csv example_ledger)) rows"
    using foldCSVOverrides_sound[OF example_csv_snapshot_valid p] by blast
  moreover have "length (csv_rows (loaded_csv example_ledger)) = 2" by (simp add: loaded_csv_def example_ledger_def)
  ultimately show ?thesis using list_all2_lengthD by fastforce
qed

end
