(* ===== verification/Known_Drills.thy ===== *)
theory Known_Drills
  imports Replay "HOL-Library.AList"
begin

text \<open>
  The registry of drill identities after a fold (\<open>internal/replay/drills.go\<close>): the identities already
  known, and one for every entity an active operation names in every currency and scale in use.
\<close>

subsection \<open>The registry\<close>

datatype known_error =
    KnownDrillInvalid drill_error
  | KnownDrillPanic

type_synonym exposed_identity = "dimension \<times> entity_id"

definition identities_of :: "dimension \<Rightarrow> entity_id list \<Rightarrow> exposed_identity list" where
  "identities_of d ids = map (Pair d) ids"

definition operationIdentities :: "operation \<Rightarrow> exposed_identity list option" where
  "operationIdentities oper =
     (case op_type oper of
        OperationMerchantLabel \<Rightarrow> map_option (\<lambda>l. identities_of DimensionMerchant [label_entity l]) (op_label oper)
      | OperationMerchantMerge \<Rightarrow> map_option (\<lambda>m. identities_of DimensionMerchant
          [merge_source m, merge_destination m]) (op_merge oper)
      | OperationMerchantReassign \<Rightarrow> map_option (\<lambda>r. identities_of DimensionMerchant
          [reassign_destination r]) (op_reassign oper)
      | OperationCategoryAssign \<Rightarrow> map_option (\<lambda>r. identities_of DimensionCategory
          [reassign_destination r]) (op_reassign oper)
      | OperationCategoryCreate \<Rightarrow> map_option (\<lambda>c. identities_of DimensionCategory [create_entity c]) (op_create oper)
      | OperationCategoryLabel \<Rightarrow> map_option (\<lambda>l. identities_of DimensionCategory [label_entity l]) (op_label oper)
      | OperationCategoryMove \<Rightarrow> map_option (\<lambda>m. identities_of DimensionCategory [move_entity m]
          @ [(DimensionGroup, move_destination m)]) (op_move oper)
      | OperationCategoryMerge \<Rightarrow> map_option (\<lambda>m. identities_of DimensionCategory
          [merge_source m, merge_destination m]) (op_merge oper)
      | OperationCategoryDelete \<Rightarrow> map_option (\<lambda>d. identities_of DimensionCategory
          [delete_source d, delete_replacement d]) (op_delete oper)
      | OperationGroupCreate \<Rightarrow> map_option (\<lambda>c. identities_of DimensionGroup [create_entity c]) (op_create oper)
      | OperationGroupLabel \<Rightarrow> map_option (\<lambda>l. identities_of DimensionGroup [label_entity l]) (op_label oper)
      | OperationGroupMerge \<Rightarrow> map_option (\<lambda>m. identities_of DimensionGroup
          [merge_source m, merge_destination m]) (op_merge oper)
      | OperationGroupDelete \<Rightarrow> map_option (\<lambda>d. identities_of DimensionGroup
          [delete_source d, delete_replacement d]) (op_delete oper)
      | OperationTransactionHide \<Rightarrow> Some []
      | OperationTransactionDelete \<Rightarrow> Some []
      | OperationUnknown _ \<Rightarrow> Some [])"

text \<open>The Go map from canonical keys is an association list; the final sort removes its order.\<close>

type_synonym known_drills = "(string \<times> drill_identity) list"

definition drill_in :: "dimension \<Rightarrow> string \<times> uint8 \<Rightarrow> entity_id \<Rightarrow> drill_identity" where
  "drill_in d part ident = \<lparr>drill_id_dimension = d, drill_id_currency = fst part,
     drill_id_scale = snd part, drill_id_key = ident\<rparr>"

definition addDrill :: "known_drills \<Rightarrow> dimension \<Rightarrow> string \<times> uint8 \<Rightarrow> entity_id \<Rightarrow> known_drills" where
  "addDrill known d part ident =
     (let i = drill_in d part ident in AList.update (key_of i) i known)"

definition add_existing :: "known_drills \<Rightarrow> drill_identity \<Rightarrow> known_error + known_drills" where
  "add_existing known i =
     (case CanonicalKey i of Inl e \<Rightarrow> Inl (KnownDrillInvalid e)
      | Inr key \<Rightarrow> Inr (AList.update key i known))"

definition drill_partitions :: "transaction_record list \<Rightarrow> (string \<times> uint8) list" where
  "drill_partitions rows = remdups (map (\<lambda>r. (currency (record_amount r), scale (record_amount r))) rows)"

definition add_operation ::
    "(string \<times> uint8) list \<Rightarrow> known_drills \<Rightarrow> operation \<Rightarrow> known_error + known_drills" where
  "add_operation partitions known oper =
     (case operationIdentities oper of None \<Rightarrow> Inl KnownDrillPanic
      | Some exposed \<Rightarrow> Inr (foldl (\<lambda>known (d, ident).
          foldl (\<lambda>known part. addDrill known d part ident) known partitions) known exposed))"

definition KnownDrillsForFold ::
    "drill_identity list \<Rightarrow> profile \<Rightarrow> operation list \<Rightarrow> known_error + drill_identity list" where
  "KnownDrillsForFold existing p active =
     bind_result (fold_result add_existing [] existing) (\<lambda>known.
     bind_result (fold_result (add_operation (drill_partitions (transactions p))) known active) (\<lambda>known.
     Inr (sort_key key_of (map snd known))))"

subsection \<open>Canonical keys identify\<close>

lemma split_at_nul:
  assumes "a @ nul @ b = a' @ nul @ b'" and "char_of (0 :: nat) \<notin> set a" "char_of (0 :: nat) \<notin> set a'"
  shows "a = a' \<and> b = b'"
  using assms
proof (induction a arbitrary: a')
  case Nil
  then show ?case by (cases a') (auto simp: nul_def)
next
  case (Cons x a)
  then show ?case by (cases a') (auto simp: nul_def)
qed

lemma dimension_string_plain: "dimension_valid d \<Longrightarrow> char_of (0 :: nat) \<notin> set (dimension_string d)"
proof -
  have "char_of (0 :: nat) = CHR 0x00" by code_simp
  then show "dimension_valid d \<Longrightarrow> ?thesis"
    by (cases d) (auto simp: dimension_string_def dimension_valid_def)
qed

lemma dimension_string_inject:
  "dimension_valid d \<Longrightarrow> dimension_valid e \<Longrightarrow> dimension_string d = dimension_string e \<Longrightarrow> d = e"
  by (cases d; cases e) (auto simp: dimension_string_def dimension_valid_def)

lemma CanonicalKey_parts:
  assumes "CanonicalKey i = Inr k"
  shows "dimension_valid (drill_id_dimension i)" "IsValidCurrency (drill_id_currency i)"
    "unat (drill_id_scale i) \<le> 9"
    "k = dimension_string (drill_id_dimension i) @ nul @ drill_id_currency i @ nul
       @ zero_pad 3 (decimal_digits (unat (drill_id_scale i))) @ nul @ drill_id_key i"
  using assms by (auto simp: CanonicalKey_def not_less word_le_nat_alt split: if_splits)

lemma scale_text: "n \<le> 9 \<Longrightarrow> length (zero_pad 3 (decimal_digits n)) = 3"
  using length_decimal_digits[of n 1] by (simp add: length_zero_pad)

lemma CanonicalKey_inject:
  assumes "CanonicalKey i = Inr k" and "CanonicalKey j = Inr k"
  shows "i = j"
proof -
  note a = CanonicalKey_parts[OF assms(1)] and b = CanonicalKey_parts[OF assms(2)]
  let ?rest = "\<lambda>x. drill_id_currency x @ nul
       @ zero_pad 3 (decimal_digits (unat (drill_id_scale x))) @ nul @ drill_id_key x"
  have "dimension_string (drill_id_dimension i) = dimension_string (drill_id_dimension j) \<and> ?rest i = ?rest j"
    by (rule split_at_nul) (use a(4) b(4) dimension_string_plain a(1) b(1) in auto)
  then have dim: "drill_id_dimension i = drill_id_dimension j" and rest: "?rest i = ?rest j"
    using dimension_string_inject a(1) b(1) by blast+
  have "length (drill_id_currency i) = length (drill_id_currency j)"
    using a(2) b(2) by (simp add: IsValidCurrency_def)
  with rest have cur: "drill_id_currency i = drill_id_currency j"
    and "zero_pad 3 (decimal_digits (unat (drill_id_scale i))) @ nul @ drill_id_key i =
      zero_pad 3 (decimal_digits (unat (drill_id_scale j))) @ nul @ drill_id_key j" by auto
  moreover have "length (zero_pad 3 (decimal_digits (unat (drill_id_scale i)))) =
      length (zero_pad 3 (decimal_digits (unat (drill_id_scale j))))"
    using scale_text[OF a(3)] scale_text[OF b(3)] by simp
  ultimately have "zero_pad 3 (decimal_digits (unat (drill_id_scale i))) =
      zero_pad 3 (decimal_digits (unat (drill_id_scale j)))" and key: "drill_id_key i = drill_id_key j"
    by auto
  then have "digits_value (zero_pad 3 (decimal_digits (unat (drill_id_scale i)))) =
      digits_value (zero_pad 3 (decimal_digits (unat (drill_id_scale j))))" by (simp only:)
  then have "drill_id_scale i = drill_id_scale j" by (simp add: word_unat_eq_iff)
  with dim cur key show ?thesis by simp
qed

subsection \<open>The registry after a fold\<close>

definition registry_ok :: "known_drills \<Rightarrow> bool" where
  "registry_ok known \<longleftrightarrow> distinct (map fst known) \<and> (\<forall>e\<in>set known. CanonicalKey (snd e) = Inr (fst e))"

lemma registry_update:
  assumes "registry_ok known" and "CanonicalKey i = Inr k"
  shows "registry_ok (AList.update k i known) \<and> snd ` set (AList.update k i known) = insert i (snd ` set known)"
  using assms(1)
proof (induction known)
  case Nil
  then show ?case using assms(2) by (simp add: registry_ok_def)
next
  case (Cons e known)
  show ?case
  proof (cases "fst e = k")
    case True
    then have "snd e = i" using Cons.prems assms(2) CanonicalKey_inject by (simp add: registry_ok_def)
    with True have "e = (k, i)" by (cases e) simp
    then show ?thesis using Cons.prems by simp
  next
    case False
    have "registry_ok known" using Cons.prems by (simp add: registry_ok_def)
    note IH = Cons.IH[OF this]
    moreover have "fst e \<notin> fst ` set (AList.update k i known)"
      using Cons.prems False by (simp add: dom_update registry_ok_def)
    moreover have "AList.update k i (e # known) = e # AList.update k i known" using False by (cases e) simp
    ultimately show ?thesis using Cons.prems by (auto simp: registry_ok_def)
  qed
qed

definition extends :: "known_drills \<Rightarrow> drill_identity set \<Rightarrow> known_drills \<Rightarrow> bool" where
  "extends known new known' \<longleftrightarrow> registry_ok known' \<and> snd ` set known' = snd ` set known \<union> new"

lemma extends_fold:
  assumes "registry_ok known" and "\<And>known x. registry_ok known \<Longrightarrow> x \<in> set xs \<Longrightarrow> extends known (new x) (f known x)"
  shows "extends known (\<Union>x\<in>set xs. new x) (foldl f known xs)"
  using assms
proof (induction xs arbitrary: known)
  case Nil
  then show ?case by (simp add: extends_def)
next
  case (Cons x xs)
  have step: "extends known (new x) (f known x)" using Cons.prems by simp
  then have "extends (f known x) (\<Union>x\<in>set xs. new x) (foldl f (f known x) xs)"
    using Cons.prems(2) by (intro Cons.IH) (auto simp: extends_def)
  with step show ?case by (auto simp: extends_def)
qed

lemma extends_fold_result:
  assumes "registry_ok known"
    and "\<And>known x. registry_ok known \<Longrightarrow> x \<in> set xs \<Longrightarrow> \<exists>known'. f known x = Inr known' \<and> extends known (new x) known'"
  shows "\<exists>known'. fold_result f known xs = Inr known' \<and> extends known (\<Union>x\<in>set xs. new x) known'"
  using assms
proof (induction xs arbitrary: known)
  case Nil
  then show ?case by (simp add: extends_def)
next
  case (Cons x xs)
  from Cons.prems obtain k where k: "f known x = Inr k" "extends known (new x) k" by fastforce
  have "\<exists>known'. fold_result f k xs = Inr known' \<and> extends k (\<Union>x\<in>set xs. new x) known'"
    using k(2) Cons.prems(2) by (intro Cons.IH) (auto simp: extends_def)
  with k show ?case by (auto simp: extends_def)
qed

lemma add_existing_extends:
  assumes "registry_ok known" and "is_ok (CanonicalKey i)"
  shows "\<exists>known'. add_existing known i = Inr known' \<and> extends known {i} known'"
  using assms registry_update by (auto simp: add_existing_def is_ok_iff extends_def)

text \<open>An exposed identity is a valid drill in every partition that is valid.\<close>

definition part_ok :: "string \<times> uint8 \<Rightarrow> bool" where
  "part_ok part \<longleftrightarrow> IsValidCurrency (fst part) \<and> snd part \<le> 9"

definition exposed_ok :: "exposed_identity \<Rightarrow> bool" where
  "exposed_ok e \<longleftrightarrow> fst e \<in> {DimensionMerchant, DimensionCategory, DimensionGroup} \<and> snd e \<noteq> []"

lemma drill_in_key: "exposed_ok e \<Longrightarrow> part_ok part \<Longrightarrow> is_ok (CanonicalKey (drill_in (fst e) part (snd e)))"
  by (auto simp: exposed_ok_def part_ok_def CanonicalKey_def drill_in_def dimension_valid_def is_ok_iff)

lemma stored_identities:
  assumes "ValidateStored casefold oper = Inr ()"
  shows "\<exists>exposed. operationIdentities oper = Some exposed \<and> (\<forall>e\<in>set exposed. exposed_ok e)"
  using ValidateStored_payload[OF assms]
  by (cases "op_type oper")
    (auto simp: validatePayload_def validate_operation_Inr operationIdentities_def identities_of_def
      exposed_ok_def label_ok_def)

lemma add_operation_extends:
  assumes "registry_ok known" and "ValidateStored casefold oper = Inr ()" and "\<forall>part\<in>set parts. part_ok part"
  shows "\<exists>known'. add_operation parts known oper = Inr known'
    \<and> extends known {drill_in d part ident |d ident part.
        (d, ident) \<in> set (the (operationIdentities oper)) \<and> part \<in> set parts} known'"
proof -
  obtain exposed where e: "operationIdentities oper = Some exposed" "\<forall>e\<in>set exposed. exposed_ok e"
    using stored_identities[OF assms(2)] by blast
  have "extends known (\<Union>e\<in>set exposed. \<Union>part\<in>set parts. {drill_in (fst e) part (snd e)})
      (foldl (\<lambda>known e. foldl (\<lambda>known part. addDrill known (fst e) part (snd e)) known parts) known exposed)"
  proof (rule extends_fold[OF assms(1)])
    fix known e assume k: "registry_ok known" and ee: "e \<in> set exposed"
    show "extends known (\<Union>part\<in>set parts. {drill_in (fst e) part (snd e)})
        (foldl (\<lambda>known part. addDrill known (fst e) part (snd e)) known parts)"
    proof (rule extends_fold[OF k])
      fix known part assume "registry_ok known" "part \<in> set parts"
      moreover from this obtain k where "CanonicalKey (drill_in (fst e) part (snd e)) = Inr k"
        using drill_in_key[of e part] e(2) ee assms(3) by (auto simp: is_ok_iff)
      ultimately show "extends known {drill_in (fst e) part (snd e)} (addDrill known (fst e) part (snd e))"
        using registry_update[of known "drill_in (fst e) part (snd e)"]
        by (simp add: addDrill_def Let_def extends_def key_of_def)
    qed
  qed
  moreover have "(\<Union>e\<in>set exposed. \<Union>part\<in>set parts. {drill_in (fst e) part (snd e)}) =
      {drill_in d part ident |d ident part. (d, ident) \<in> set exposed \<and> part \<in> set parts}" by force
  ultimately show ?thesis by (simp add: add_operation_def e(1) case_prod_unfold)
qed

lemma known_drills_spec:
  assumes existing: "\<forall>i\<in>set existing. is_ok (CanonicalKey i)"
    and stored: "\<forall>oper\<in>set active. ValidateStored casefold oper = Inr ()"
    and parts: "\<forall>part\<in>set (drill_partitions (transactions p)). part_ok part"
  shows "\<exists>ds. KnownDrillsForFold existing p active = Inr ds
    \<and> sorted_wrt (<) (map key_of ds) \<and> (\<forall>i\<in>set ds. is_ok (CanonicalKey i))
    \<and> set ds = set existing \<union> {drill_in d part ident |d ident part oper. oper \<in> set active
        \<and> (d, ident) \<in> set (the (operationIdentities oper)) \<and> part \<in> set (drill_partitions (transactions p))}"
proof -
  let ?parts = "drill_partitions (transactions p)"
  have "registry_ok []" by (simp add: registry_ok_def)
  from extends_fold_result[OF this, where xs = existing and new = "\<lambda>i. {i}" and f = add_existing] add_existing_extends existing
  obtain k1 where k1: "fold_result add_existing [] existing = Inr k1" "extends [] (\<Union>i\<in>set existing. {i}) k1"
    by blast
  then have "registry_ok k1" by (simp add: extends_def)
  from extends_fold_result[OF this, where xs = active and new = "\<lambda>oper. {drill_in d part ident |d ident part.
      (d, ident) \<in> set (the (operationIdentities oper)) \<and> part \<in> set ?parts}" and f = "add_operation ?parts"]
  obtain k2 where k2: "fold_result (add_operation ?parts) k1 active = Inr k2"
      "extends k1 (\<Union>oper\<in>set active. {drill_in d part ident |d ident part.
        (d, ident) \<in> set (the (operationIdentities oper)) \<and> part \<in> set ?parts}) k2"
    using add_operation_extends stored parts by blast
  let ?ds = "sort_key key_of (map snd k2)"
  have ok: "registry_ok k2" using k2(2) by (simp add: extends_def)
  have "map key_of (map snd k2) = map fst k2"
    using ok by (auto simp: registry_ok_def key_of_def)
  then have "distinct (map key_of (map snd k2))" using ok by (simp only: registry_ok_def)
  then have "distinct (map key_of ?ds)" using distinct_map_mset[of ?ds "map snd k2" key_of] by simp
  then have "sorted_wrt (<) (map key_of ?ds)" by (simp add: strict_sorted_iff)
  moreover have "\<forall>i\<in>set ?ds. is_ok (CanonicalKey i)" using ok by (auto simp: registry_ok_def is_ok_iff)
  moreover have "set ?ds = set existing \<union> {drill_in d part ident |d ident part oper. oper \<in> set active
        \<and> (d, ident) \<in> set (the (operationIdentities oper)) \<and> part \<in> set ?parts}"
  proof -
    have "set ?ds = set existing \<union> (\<Union>oper\<in>set active. {drill_in d part ident |d ident part.
        (d, ident) \<in> set (the (operationIdentities oper)) \<and> part \<in> set ?parts})"
      using k1(2) k2(2) by (simp add: extends_def)
    then show ?thesis by blast
  qed
  moreover have "KnownDrillsForFold existing p active = Inr ?ds"
    by (simp add: KnownDrillsForFold_def k1(1) k2(1))
  ultimately show ?thesis by blast
qed

text \<open>
  C29. The registry of a fold always exists when the known identities, the active operations and the
  transactions are valid; it is strictly sorted by canonical key, and holds exactly the identities
  already known and one for each entity an active operation exposes in each partition in use.
\<close>

theorem KnownDrillsForFold_exact:
  assumes "\<forall>i\<in>set existing. is_ok (CanonicalKey i)"
    and "\<forall>oper\<in>set active. ValidateStored casefold oper = Inr ()"
    and "\<forall>r\<in>set (transactions p). IsValidCurrency (currency (record_amount r)) \<and> scale (record_amount r) \<le> 9"
  shows "\<exists>ds. KnownDrillsForFold existing p active = Inr ds
    \<and> sorted_wrt (<) (map key_of ds) \<and> (\<forall>i\<in>set ds. is_ok (CanonicalKey i))
    \<and> (\<forall>i. i \<in> set ds \<longleftrightarrow> i \<in> set existing \<or> (\<exists>oper\<in>set active. \<exists>r\<in>set (transactions p).
        (drill_id_dimension i, drill_id_key i) \<in> set (the (operationIdentities oper))
        \<and> drill_id_currency i = currency (record_amount r) \<and> drill_id_scale i = scale (record_amount r)))"
proof -
  have "\<forall>part\<in>set (drill_partitions (transactions p)). part_ok part"
    using assms(3) by (auto simp: drill_partitions_def part_ok_def)
  from known_drills_spec[OF assms(1,2) this] obtain ds where ds: "KnownDrillsForFold existing p active = Inr ds"
      "sorted_wrt (<) (map key_of ds)" "\<forall>i\<in>set ds. is_ok (CanonicalKey i)"
      "set ds = set existing \<union> {drill_in d part ident |d ident part oper. oper \<in> set active
        \<and> (d, ident) \<in> set (the (operationIdentities oper)) \<and> part \<in> set (drill_partitions (transactions p))}"
    by blast
  have "i \<in> {drill_in d part ident |d ident part oper. oper \<in> set active
        \<and> (d, ident) \<in> set (the (operationIdentities oper)) \<and> part \<in> set (drill_partitions (transactions p))}
      \<longleftrightarrow> (\<exists>oper\<in>set active. \<exists>r\<in>set (transactions p).
        (drill_id_dimension i, drill_id_key i) \<in> set (the (operationIdentities oper))
        \<and> drill_id_currency i = currency (record_amount r) \<and> drill_id_scale i = scale (record_amount r))" for i
    by (cases i) (auto simp: drill_in_def drill_partitions_def)
  with ds show ?thesis by auto
qed

theorem KnownDrillsForFold_exact_witness:
  "\<exists>ds. KnownDrillsForFold [] example_profile (take 3 example_journal) = Inr ds
    \<and> (\<exists>i\<in>set ds. drill_id_dimension i = DimensionMerchant \<and> drill_id_key i = ''m3'')"
proof -
  have stored: "\<forall>oper\<in>set (take 3 example_journal). ValidateStored ascii_fold oper = Inr ()"
    using example_snapshot_valid by (auto simp: ValidateSnapshot_Inr example_snapshot_def dest: in_set_takeD)
  have rows: "\<forall>r\<in>set (transactions example_profile).
      IsValidCurrency (currency (record_amount r)) \<and> scale (record_amount r) \<le> 9" by code_simp
  obtain oper where "oper \<in> set (take 3 example_journal)"
      "(DimensionMerchant, ''m3'') \<in> set (the (operationIdentities oper))"
  proof -
    have "list_ex (\<lambda>oper. (DimensionMerchant, ''m3'') \<in> set (the (operationIdentities oper)))
        (take 3 example_journal)" by code_simp
    then show ?thesis using that by (auto simp: list_ex_iff)
  qed
  moreover obtain r where "r \<in> set (transactions example_profile)" by (auto simp: example_profile_def)
  moreover obtain ds where ds: "KnownDrillsForFold [] example_profile (take 3 example_journal) = Inr ds"
      "\<And>i. i \<in> set ds \<longleftrightarrow> i \<in> set [] \<or> (\<exists>oper\<in>set (take 3 example_journal). \<exists>r\<in>set (transactions example_profile).
        (drill_id_dimension i, drill_id_key i) \<in> set (the (operationIdentities oper))
        \<and> drill_id_currency i = currency (record_amount r) \<and> drill_id_scale i = scale (record_amount r))"
    using KnownDrillsForFold_exact[OF _ stored rows, of "[]"] by auto
  ultimately have "drill_in DimensionMerchant (currency (record_amount r), scale (record_amount r)) ''m3'' \<in> set ds"
    by (auto simp: ds(2) drill_in_def)
  with ds(1) show ?thesis by (auto simp: drill_in_def intro!: bexI)
qed

end
