(* ===== verification/Profile_Load.thy ===== *)
theory Profile_Load
  imports Csv_Fold Journal_Steps Known_Drills "HOL-Library.Product_Lexorder"
begin

text \<open>
  Loading a whole profile (\<open>Load\<close> and \<open>loadSnapshot\<close> of \<open>internal/store/sqlite/load.go\<close>): one
  read transaction over the tables of the journal, the committed rows and the drill registry.
  The main lemma says that what a database stores is what a load returns.
\<close>

subsection \<open>The database\<close>

record store_tables =
  journal_of :: journal_tables
  ledger_of :: ledger_tables
  csv_of :: csv_state

datatype load_call =
    LoadBegin | LoadState | LoadAccounts | LoadMerchants | LoadGroups | LoadCategories
  | LoadTransactionCount | LoadTransactions | LoadIdentityCount | LoadIdentities | LoadDrills | LoadCommit

type_synonym load_driver = "load_call \<Rightarrow> driver_error option"

definition load_query :: "load_driver \<Rightarrow> load_call \<Rightarrow> 'a \<Rightarrow> store_error + 'a" where
  "load_query driver c v = (case driver c of Some err \<Rightarrow> Inl (loadFailure err) | None \<Rightarrow> Inr v)"

definition loadAccounts :: "load_driver \<Rightarrow> ledger_tables \<Rightarrow> store_error + account list" where
  "loadAccounts driver db = load_query driver LoadAccounts (sort_key account_id (table_accounts db))"

definition loadMerchants :: "load_driver \<Rightarrow> ledger_tables \<Rightarrow> store_error + merchant list" where
  "loadMerchants driver db = load_query driver LoadMerchants (sort_key merchant_id (table_merchants db))"

definition loadGroups :: "load_driver \<Rightarrow> ledger_tables \<Rightarrow> store_error + category_group list" where
  "loadGroups driver db = load_query driver LoadGroups (sort_key group_id (table_groups db))"

definition loadCategories :: "load_driver \<Rightarrow> ledger_tables \<Rightarrow> store_error + category list" where
  "loadCategories driver db = load_query driver LoadCategories (sort_key category_id (table_categories db))"

text \<open>A stored scale or date that does not read back is corruption.\<close>

definition load_transaction :: "transaction_record \<Rightarrow> store_error + transaction_record" where
  "load_transaction r =
     (if scale (record_amount r) > 9 then Inl (StoreError CodeStoreCorrupt)
      else case ParseDate (date_string (record_date r)) of
        Inl _ \<Rightarrow> Inl (StoreError CodeStoreCorrupt)
      | Inr d \<Rightarrow> Inr (r\<lparr>record_date := d\<rparr>))"

definition loadTransactions :: "load_driver \<Rightarrow> ledger_tables \<Rightarrow> store_error + transaction_record list" where
  "loadTransactions driver db =
     bind_result (load_query driver LoadTransactionCount ()) (\<lambda>_.
     bind_result (load_query driver LoadTransactions (sort_key record_id (table_transactions db))) (\<lambda>rows.
     map_result load_transaction rows))"

definition loadExternalIdentities :: "load_driver \<Rightarrow> ledger_tables \<Rightarrow> store_error + external_identity list" where
  "loadExternalIdentities driver db =
     bind_result (load_query driver LoadIdentityCount ()) (\<lambda>_.
     load_query driver LoadIdentities
       (sort_key (\<lambda>i. (identity_namespace i, identity_external i)) (table_identities db)))"

definition drill_columns :: "drill_identity \<Rightarrow> string \<times> string \<times> nat \<times> string" where
  "drill_columns d = (dimension_string (drill_id_dimension d), drill_id_currency d,
     unat (drill_id_scale d), drill_id_key d)"

definition loadKnownDrills :: "load_driver \<Rightarrow> ledger_tables \<Rightarrow> store_error + drill_identity list" where
  "loadKnownDrills driver db =
     bind_result (load_query driver LoadDrills (sort_key drill_columns (table_drills db))) (\<lambda>rows.
     if \<exists>d\<in>set rows. drill_id_scale d > 9 then Inl (StoreError CodeStoreCorrupt) else Inr rows)"

definition loadSnapshot ::
    "(string \<Rightarrow> string) \<Rightarrow> driver \<Rightarrow> load_driver \<Rightarrow> store_tables \<Rightarrow> store_error + profile_snapshot" where
  "loadSnapshot casefold journal_driver driver db =
     (let jt = journal_of db; lt = ledger_of db in
      bind_result (load_query driver LoadState (revision_column jt, cursor_column jt)) (\<lambda>(revision, cursor).
      if sint revision < 0 then Inl (loadFailure OtherError)
      else
        bind_result (loadJournal casefold journal_driver jt) (\<lambda>journal.
        bind_result (loadAccounts driver lt) (\<lambda>as.
        bind_result (loadMerchants driver lt) (\<lambda>ms.
        bind_result (loadGroups driver lt) (\<lambda>gs.
        bind_result (loadCategories driver lt) (\<lambda>cs.
        bind_result (loadTransactions driver lt) (\<lambda>ts.
        bind_result (loadExternalIdentities driver lt) (\<lambda>is.
        bind_result (loadKnownDrills driver lt) (\<lambda>ds.
        Inr \<lparr>snap_revision = revision, snap_cursor = cursor,
          snap_committed = \<lparr>accounts = as, merchants = ms, groups = gs, categories = cs,
            transactions = ts, identities = is\<rparr>,
          snap_journal = journal, snap_drills = ds\<rparr>))))))))))"

definition Load ::
    "(string \<Rightarrow> string) \<Rightarrow> driver \<Rightarrow> load_driver \<Rightarrow> store_tables \<Rightarrow> store_error + profile_snapshot" where
  "Load casefold journal_driver driver db =
     (case driver LoadBegin of Some err \<Rightarrow> Inl (mapDriverError err CodeStoreError)
      | None \<Rightarrow>
        bind_result (loadSnapshot casefold journal_driver driver db) (\<lambda>s.
        bind_result (map_error (\<lambda>_. StoreError CodeStoreCorrupt) (ValidateSnapshot casefold s)) (\<lambda>_.
        case driver LoadCommit of Some err \<Rightarrow> Inl (mapDriverError err CodeStoreError)
        | None \<Rightarrow> Inr s)))"

subsection \<open>The order of the drill registry\<close>

text \<open>The order of the columns is the order of the canonical keys.\<close>

lemma append_less:
  "length a = length b \<Longrightarrow> a @ x < b @ y \<longleftrightarrow> a < b \<or> a = b \<and> x < (y :: 'a :: linorder list)"
  by (induction a b rule: list_induct2) auto

lemma padded_less:
  assumes "n < m" "m \<le> 9"
  shows "zero_pad 3 (decimal_digits n) < zero_pad 3 (decimal_digits m)"
proof -
  have "\<forall>m\<in>set [0 ..< 10]. \<forall>n\<in>set [0 ..< m]. zero_pad 3 (decimal_digits n) < zero_pad 3 (decimal_digits m)"
    by code_simp
  then show ?thesis using assms by auto
qed

lemma dimension_less:
  assumes "dimension_valid d" "dimension_valid e" and "dimension_string d < dimension_string e"
  shows "dimension_string d @ x < dimension_string e @ y"
  using assms by (cases d; cases e) (simp_all add: dimension_string_def dimension_valid_def)

lemma drill_columns_less:
  assumes "CanonicalKey i = Inr k" and "CanonicalKey j = Inr l" and "drill_columns i < drill_columns j"
  shows "k < l"
proof -
  note a = CanonicalKey_parts[OF assms(1)] and b = CanonicalKey_parts[OF assms(2)]
  have len: "length (drill_id_currency i) = length (drill_id_currency j)"
    using a(2) b(2) by (simp add: IsValidCurrency_def)
  have pad: "length (zero_pad 3 (decimal_digits (unat (drill_id_scale i)))) =
      length (zero_pad 3 (decimal_digits (unat (drill_id_scale j))))"
    using scale_text[OF a(3)] scale_text[OF b(3)] by simp
  consider "dimension_string (drill_id_dimension i) < dimension_string (drill_id_dimension j)"
    | "dimension_string (drill_id_dimension i) = dimension_string (drill_id_dimension j)"
      "drill_id_currency i < drill_id_currency j"
    | "dimension_string (drill_id_dimension i) = dimension_string (drill_id_dimension j)"
      "drill_id_currency i = drill_id_currency j" "unat (drill_id_scale i) < unat (drill_id_scale j)"
    | "dimension_string (drill_id_dimension i) = dimension_string (drill_id_dimension j)"
      "drill_id_currency i = drill_id_currency j" "unat (drill_id_scale i) = unat (drill_id_scale j)"
      "drill_id_key i < drill_id_key j"
    using assms(3) by (auto simp: drill_columns_def less_prod_def less_le)
  then show ?thesis
  proof cases
    case 1
    then show ?thesis unfolding a(4) b(4) by (rule dimension_less[OF a(1) b(1)])
  next
    case 2
    then show ?thesis unfolding a(4) b(4) by (simp add: append_less len)
  next
    case 3
    then show ?thesis unfolding a(4) b(4) using padded_less b(3) pad by (simp add: append_less)
  next
    case 4
    then show ?thesis unfolding a(4) b(4) by (simp add: append_less)
  qed
qed

lemma drill_columns_inject:
  assumes "CanonicalKey i = Inr k" and "CanonicalKey j = Inr l" and "drill_columns i = drill_columns j"
  shows "i = j"
proof -
  have "k = l" using CanonicalKey_parts(4)[OF assms(1)] CanonicalKey_parts(4)[OF assms(2)] assms(3)
    by (simp add: drill_columns_def)
  then show ?thesis using CanonicalKey_inject assms(1,2) by blast
qed

lemma drills_sorted:
  assumes "\<forall>i\<in>set ds. is_ok (CanonicalKey i)" and "sorted_wrt (<) (map key_of ds)"
    and "mset table = mset ds"
  shows "sort_key drill_columns table = ds"
proof -
  have key: "CanonicalKey i = Inr (key_of i)" if "i \<in> set ds" for i
    using assms(1) that by (auto simp: is_ok_iff key_of_def)
  have d: "distinct ds" using assms(2) by (metis distinct_map strict_sorted_iff)
  have inj: "distinct (map drill_columns ds)"
    using d drill_columns_inject[OF key key] by (auto simp: distinct_map inj_on_def)
  have "sorted_wrt (\<lambda>i j. drill_columns i \<le> drill_columns j) ds"
    using assms(2) unfolding sorted_wrt_map
  proof (rule sorted_wrt_mono_rel[rotated])
    fix i j assume "i \<in> set ds" "j \<in> set ds" "key_of i < key_of j"
    then show "drill_columns i \<le> drill_columns j"
      using drill_columns_less[OF key key, of j i] by (metis linorder_not_less less_asym)
  qed
  then have "sorted (map drill_columns ds)" by (simp add: sorted_wrt_map)
  then have "sort_key drill_columns ds = ds" using inj by (rule sort_key_id)
  moreover have "sort_key drill_columns table = sort_key drill_columns ds"
    using assms(3) distinct_map_mset[OF assms(3), THEN iffD2, OF inj] by (rule sort_key_unique)
  ultimately show ?thesis by simp
qed

subsection \<open>What a database stores\<close>

text \<open>
  A database stores a snapshot: the tables of the journal hold its operations, whose payloads are
  valid UTF-8, the other tables the rows of its profile and of its registry, in any order.
\<close>

definition stores :: "(string \<Rightarrow> string) \<Rightarrow> profile_snapshot \<Rightarrow> store_tables \<Rightarrow> bool" where
  "stores casefold s db \<longleftrightarrow> ValidateSnapshot casefold s = Inr ()
     \<and> sortCommittedProfile (snap_committed s) = snap_committed s
     \<and> journal_state casefold (journal_of db) (snap_journal s) (nat (snap_cursor s))
     \<and> list_all payload_utf8 (snap_journal s)
     \<and> snap_revision s = revision_column (journal_of db)
     \<and> holds_rows (snap_committed s) (ledger_of db)
     \<and> transactions_ok (transactions (snap_committed s))
     \<and> (\<forall>r\<in>set (transactions (snap_committed s)). valid_date (record_date r))
     \<and> mset (table_drills (ledger_of db)) = mset (snap_drills s)"

abbreviation load_calm :: load_driver where
  "load_calm \<equiv> (\<lambda>_. None)"

lemma load_query_calm [simp]: "load_query load_calm c v = Inr v"
  by (simp add: load_query_def)

lemma sorted_profile:
  assumes wf: "profile_wf casefold p" and rows: "holds_rows p db"
  shows "\<lparr>accounts = sort_key account_id (table_accounts db), merchants = sort_key merchant_id (table_merchants db),
      groups = sort_key group_id (table_groups db), categories = sort_key category_id (table_categories db),
      transactions = sort_key record_id (table_transactions db),
      identities = sort_key (\<lambda>i. [identity_namespace i, identity_external i]) (table_identities db)\<rparr> =
    sortCommittedProfile p"
proof -
  let ?q = "\<lparr>accounts = table_accounts db, merchants = table_merchants db, groups = table_groups db,
      categories = table_categories db, transactions = table_transactions db, identities = table_identities db\<rparr>"
  have "same_rows p ?q" using rows by (simp add: same_rows_def holds_rows_def)
  from sortCommittedProfile_eq[OF this wf] show ?thesis by (simp add: sortCommittedProfile_def)
qed

lemma identity_order:
  "sort_key (\<lambda>i :: external_identity. (identity_namespace i, identity_external i)) xs =
   sort_key (\<lambda>i :: external_identity. [identity_namespace i, identity_external i]) xs"
proof -
  have "insort_key (\<lambda>i :: external_identity. (identity_namespace i, identity_external i)) =
      insort_key (\<lambda>i :: external_identity. [identity_namespace i, identity_external i])"
  proof (intro ext)
    show "insort_key (\<lambda>i :: external_identity. (identity_namespace i, identity_external i)) x ys =
        insort_key (\<lambda>i :: external_identity. [identity_namespace i, identity_external i]) x ys" for x ys
      by (induction ys) (auto simp: less_eq_prod_def)
  qed
  then show ?thesis by (simp add: sort_key_def)
qed

lemma loadSnapshot_stored:
  assumes "stores casefold s db"
  shows "loadSnapshot casefold calm load_calm db = Inr s"
proof -
  from assms have valid: "ValidateSnapshot casefold s = Inr ()"
    and sorted: "sortCommittedProfile (snap_committed s) = snap_committed s"
    and journal: "journal_state casefold (journal_of db) (snap_journal s) (nat (snap_cursor s))"
    and utf8: "list_all payload_utf8 (snap_journal s)"
    and revision: "snap_revision s = revision_column (journal_of db)"
    and rows: "holds_rows (snap_committed s) (ledger_of db)"
    and ok: "transactions_ok (transactions (snap_committed s))"
    and dates: "\<forall>r\<in>set (transactions (snap_committed s)). valid_date (record_date r)"
    and drills: "mset (table_drills (ledger_of db)) = mset (snap_drills s)" by (simp_all add: stores_def)
  from valid have snap: "0 \<le> snap_cursor s" "profile_wf casefold (snap_committed s)"
      "\<forall>i\<in>set (snap_drills s). is_ok (CanonicalKey i)" "sorted_wrt (<) (map key_of (snap_drills s))"
    by (simp_all add: ValidateSnapshot_Inr)
  have table: "set (table_transactions (ledger_of db)) = set (transactions (snap_committed s))"
    using rows unfolding holds_rows_def by (metis mset_eq_setD)
  have transactions: "loadTransactions load_calm (ledger_of db) = Inr (sort_key record_id (table_transactions (ledger_of db)))"
  proof -
    have "load_transaction r = Inr r" if "r \<in> set (table_transactions (ledger_of db))" for r
    proof -
      have "transaction_checks r" "valid_date (record_date r)" using ok dates that table by (simp_all add: transactions_ok_def)
      then show ?thesis by (simp add: load_transaction_def transaction_checks_def ParseDate_date_string not_less)
    qed
    then have "map_result load_transaction rows = Inr rows" if "set rows = set (table_transactions (ledger_of db))" for rows
      by (intro map_result_total[where g = "\<lambda>x. x", simplified]) (use that \<open>\<And>r. r \<in> set (table_transactions (ledger_of db)) \<Longrightarrow> load_transaction r = Inr r\<close> in blast)
    then show ?thesis by (simp add: loadTransactions_def)
  qed
  have known: "loadKnownDrills load_calm (ledger_of db) = Inr (snap_drills s)"
  proof -
    have "\<not> drill_id_scale d > 9" if "d \<in> set (snap_drills s)" for d
      using snap(3) that by (auto simp: is_ok_iff CanonicalKey_def split: if_splits)
    then show ?thesis by (auto simp: loadKnownDrills_def drills_sorted[OF snap(3,4) drills])
  qed
  have state: "0 \<le> sint (revision_column (journal_of db))" "cursor_column (journal_of db) = snap_cursor s"
    using journal snap(1) by (simp_all add: journal_state_def)
  note profile = sorted_profile[OF snap(2) rows, unfolded sorted]
  show ?thesis
    using loadJournal_state[OF journal, unfolded load_result_def] utf8 transactions known state
    by (simp add: loadSnapshot_def Let_def loadAccounts_def loadMerchants_def loadGroups_def loadCategories_def
      loadExternalIdentities_def identity_order profile revision[symmetric])
qed

lemma Load_stored:
  assumes "stores casefold s db"
  shows "Load casefold calm load_calm db = Inr s"
  using loadSnapshot_stored[OF assms] assms by (simp add: Load_def stores_def)

end
