(* ===== verification/Commit.thy ===== *)
theory Commit
  imports Profile_Load
begin

text \<open>
  Committing the active operations: the plan an application builds for review (\<open>BuildFoldPlan\<close> of
  \<open>internal/app/commit.go\<close>), its validation (\<open>internal/store/store.go\<close>) and the transaction that
  installs it (\<open>Fold\<close> of \<open>internal/store/sqlite/fold.go\<close>), which composes the journal store, replay,
  the drill registry, the committed tables and the CSV ledger.
\<close>

subsection \<open>The plan\<close>

record fold_plan =
  plan_revision :: uint64
  plan_operations :: "string list"
  plan_effective :: profile
  plan_drills :: "drill_identity list"

datatype fold_plan_error =
    PlanRevision
  | PlanOperationEmpty
  | PlanOperationRepeated
  | PlanProfile profile_error
  | PlanDrills snapshot_error

fun plan_operations_loop :: "string list \<Rightarrow> string list \<Rightarrow> fold_plan_error + unit" where
  "plan_operations_loop seen [] = Inr ()"
| "plan_operations_loop seen (ident # rest) =
     (if ident = '''' then Inl PlanOperationEmpty
      else if ident \<in> set seen then Inl PlanOperationRepeated
      else plan_operations_loop (ident # seen) rest)"

text \<open>The loop over the drills is the one of \<open>ProfileSnapshot.Validate\<close>.\<close>

definition ValidateFoldPlan ::
    "(string \<Rightarrow> string) \<Rightarrow> fold_plan \<Rightarrow> uint64 \<Rightarrow> fold_plan_error + unit" where
  "ValidateFoldPlan casefold plan expected =
     (if plan_revision plan \<noteq> expected then Inl PlanRevision
      else bind_result (plan_operations_loop [] (plan_operations plan)) (\<lambda>_.
           bind_result (map_error PlanProfile (ValidateProfile casefold (plan_effective plan))) (\<lambda>_.
           map_error PlanDrills (validateDrills 0 '''' (plan_drills plan)))))"

datatype build_error =
    BuildStale
  | BuildReplay replay_error
  | BuildNotFresh
  | BuildDrills known_error
  | BuildInvalid fold_plan_error

definition BuildFoldPlan ::
    "(string \<Rightarrow> string) \<Rightarrow> effective_snapshot \<Rightarrow> uint64 \<Rightarrow> build_error + fold_plan" where
  "BuildFoldPlan casefold snapshot reviewed =
     (if reviewed \<noteq> eff_revision snapshot then Inl BuildStale
      else bind_result (map_error BuildReplay (Replay casefold
        \<lparr>snap_revision = eff_revision snapshot, snap_cursor = eff_cursor snapshot,
         snap_committed = eff_committed snapshot, snap_journal = eff_journal snapshot,
         snap_drills = eff_drills snapshot\<rparr>)) (\<lambda>replayed.
      if eff_effective replayed \<noteq> eff_effective snapshot then Inl BuildNotFresh
      else
        let active = take (nat (eff_cursor replayed)) (eff_journal replayed) in
        bind_result (map_error BuildDrills
          (KnownDrillsForFold (eff_drills snapshot) (eff_effective replayed) active)) (\<lambda>drills.
        let plan = \<lparr>plan_revision = reviewed, plan_operations = map op_id active,
          plan_effective = eff_effective replayed, plan_drills = drills\<rparr> in
        bind_result (map_error BuildInvalid (ValidateFoldPlan casefold plan reviewed)) (\<lambda>_. Inr plan))))"

subsection \<open>The transaction\<close>

text \<open>
  What the drivers of every part, and the audit log, may refuse, and what the statements before a
  failure have left in the open transaction.
\<close>

record store_driver =
  on_journal :: driver
  on_load :: load_driver
  on_fold :: fold_driver
  on_csv :: csv_driver
  on_delete :: "driver_error option"
  on_audit :: "store_error option"
  on_record :: "store_error option"
  on_torn :: store_tables

datatype commit_error =
    CommitStore store_error
  | CommitCsv csv_fold_error
  | CommitPanic

text \<open>A commit whose audit completion could not be written is a commit all the same.\<close>

datatype fold_outcome =
    Folded uint64
  | FoldedUnaudited uint64 store_error

abbreviation refuse :: "error_code \<Rightarrow> commit_error + 'a" where
  "refuse code \<equiv> Inl (CommitStore (StoreError code))"

definition requireExistingEntityIDs :: "('a \<Rightarrow> entity_id) \<Rightarrow> 'a list \<Rightarrow> 'a list \<Rightarrow> bool" where
  "requireExistingEntityIDs ident before after \<longleftrightarrow> (\<forall>v\<in>set before. ident v \<in> ident ` set after)"

definition requireTransactionSubset :: "transaction_record list \<Rightarrow> transaction_record list \<Rightarrow> bool" where
  "requireTransactionSubset before after \<longleftrightarrow> (\<forall>t\<in>set after. record_id t \<in> record_id ` set before)"

definition validateFoldShape :: "profile_snapshot \<Rightarrow> fold_plan \<Rightarrow> bool" where
  "validateFoldShape s plan \<longleftrightarrow>
     (let before = snap_committed s; after = plan_effective plan in
      accounts before = accounts after \<and> identities before = identities after
      \<and> requireExistingEntityIDs merchant_id (merchants before) (merchants after)
      \<and> requireExistingEntityIDs group_id (groups before) (groups after)
      \<and> requireExistingEntityIDs category_id (categories before) (categories after)
      \<and> requireTransactionSubset (transactions before) (transactions after)
      \<and> (\<forall>d\<in>set (snap_drills s). key_of d \<in> key_of ` set (plan_drills plan)))"

definition audit_intent :: "store_driver \<Rightarrow> commit_error + unit" where
  "audit_intent d = (case on_audit d of Some e \<Rightarrow> Inl (CommitStore e) | None \<Rightarrow> Inr ())"

definition delete_journal :: "store_driver \<Rightarrow> journal_tables \<Rightarrow> commit_error + journal_tables" where
  "delete_journal d db = (case on_delete d of
     Some err \<Rightarrow> Inl (CommitStore (mapDriverError err CodeStoreError))
   | None \<Rightarrow> Inr (delete_operations (\<lambda>_. True) db))"

text \<open>The checks of \<open>Fold\<close>, up to the audit log: what they let through is the authoritative plan.\<close>

definition fold_checks ::
    "(string \<Rightarrow> string) \<Rightarrow> store_driver \<Rightarrow> uint64 \<Rightarrow> fold_plan \<Rightarrow> store_tables \<Rightarrow>
     commit_error + profile_snapshot" where
  "fold_checks casefold d expected plan db =
     bind_result (map_error CommitStore (loadJournalState (on_journal d) (journal_of db))) (\<lambda>(current, cursor, _).
     if current \<noteq> expected then Inl (CommitStore (revisionConflict expected current))
     else case ValidateFoldPlan casefold plan expected of Inl _ \<Rightarrow> refuse CodeInvalidOperation
     | Inr _ \<Rightarrow>
     bind_result (map_error CommitStore (loadSnapshot casefold (on_journal d) (on_load d) db)) (\<lambda>s.
     case ValidateSnapshot casefold s of Inl _ \<Rightarrow> refuse CodeStoreCorrupt
     | Inr _ \<Rightarrow>
     if nat cursor > length (snap_journal s) then Inl CommitPanic
     else let active = take (nat cursor) (snap_journal s) in
     if map op_id active \<noteq> plan_operations plan then refuse CodeInvalidOperation
     else case Replay casefold s of Inl _ \<Rightarrow> refuse CodeStoreCorrupt
     | Inr replayed \<Rightarrow>
     (case KnownDrillsForFold (snap_drills s) (eff_effective replayed) active of
        Inl KnownDrillPanic \<Rightarrow> Inl CommitPanic
      | Inl (KnownDrillInvalid _) \<Rightarrow> refuse CodeStoreCorrupt
      | Inr drills \<Rightarrow>
     if plan_effective plan \<noteq> eff_effective replayed \<or> plan_drills plan \<noteq> drills
     then refuse CodeInvalidOperation
     else if \<not> validateFoldShape s plan then refuse CodeInvalidOperation
     else bind_result (audit_intent d) (\<lambda>_. Inr s))))"

definition fold_body ::
    "(string \<Rightarrow> string) \<Rightarrow> tuple_hash \<Rightarrow> store_driver \<Rightarrow> uint64 \<Rightarrow> fold_plan \<Rightarrow> store_tables \<Rightarrow>
     commit_error + uint64 \<times> store_tables" where
  "fold_body casefold hash d expected plan db =
     bind_result (fold_checks casefold d expected plan db) (\<lambda>s.
     bind_result (map_error CommitStore (applyFold (on_fold d) (snap_committed s) (plan_effective plan)
       (ledger_of db))) (\<lambda>ledger.
     bind_result (map_error CommitCsv (foldCSVOverrides casefold hash (on_csv d) (csv_of db) s
       (plan_effective plan))) (\<lambda>csv.
     bind_result (map_error CommitStore (insertFoldKnownDrills (on_fold d) (snap_drills s) (plan_drills plan)
       ledger)) (\<lambda>ledger.
     bind_result (delete_journal d (journal_of db)) (\<lambda>journal.
     bind_result (map_error CommitStore (incrementRevision expected)) (\<lambda>advanced.
     bind_result (map_error CommitStore (updateJournalState (on_journal d) expected advanced 0 journal)) (\<lambda>journal.
     Inr (advanced, \<lparr>journal_of = journal, ledger_of = ledger, csv_of = csv\<rparr>))))))))"

definition Fold ::
    "(string \<Rightarrow> string) \<Rightarrow> tuple_hash \<Rightarrow> store_driver \<Rightarrow> uint64 \<Rightarrow> fold_plan \<Rightarrow> store_tables \<Rightarrow>
     (commit_error + fold_outcome) \<times> store_tables" where
  "Fold casefold hash d expected plan db =
     (case immediate_with CommitStore (on_journal d) (on_torn d) (fold_body casefold hash d expected plan) db of
        (Inl e, c) \<Rightarrow> (Inl e, durable c)
      | (Inr advanced, c) \<Rightarrow>
          (Inr (case on_record d of Some e \<Rightarrow> FoldedUnaudited advanced e | None \<Rightarrow> Folded advanced),
           durable c))"

subsection \<open>Only the authoritative plan is written\<close>

lemma fold_checks_Inr:
  assumes "fold_checks casefold d expected plan db = Inr s"
  shows "revision_column (journal_of db) = expected \<and> plan_revision plan = expected
    \<and> loadSnapshot casefold (on_journal d) (on_load d) db = Inr s
    \<and> (\<exists>e. Replay casefold s = Inr e \<and> plan_effective plan = eff_effective e
      \<and> plan_operations plan = map op_id (take (nat (cursor_column (journal_of db))) (snap_journal s))
      \<and> KnownDrillsForFold (snap_drills s) (eff_effective e)
          (take (nat (cursor_column (journal_of db))) (snap_journal s)) = Inr (plan_drills plan))
    \<and> on_audit d = None"
  using assms
  by (auto simp: fold_checks_def audit_intent_def bind_result_Inr map_error_Inr loadJournalState_def exec_def ValidateFoldPlan_def Let_def
      split: if_splits option.splits sum.splits known_error.splits)

lemma immediate_with_changed:
  assumes "immediate_with lift driver torn body db = (r, c)" and "durable c \<noteq> db"
  shows "driver CallCommit = None
    \<and> (\<exists>v. body db = Inr (v, durable c) \<and> (r = Inr v \<or> driver CallClose \<noteq> None))"
  using assms(1)
  by (cases rule: immediate_with_cases) (use assms(2) in \<open>auto split: option.splits\<close>)

lemma Fold_changed:
  assumes "Fold casefold hash d expected plan db = (r, db')" and "db' \<noteq> db"
  shows "on_journal d CallCommit = None \<and> (\<exists>v. fold_body casefold hash d expected plan db = Inr (v, db')
    \<and> (is_ok r \<or> on_journal d CallClose \<noteq> None))"
proof -
  obtain q c where q: "immediate_with CommitStore (on_journal d) (on_torn d)
        (fold_body casefold hash d expected plan) db = (q, c)" "durable c = db'" "is_ok r \<longleftrightarrow> is_ok q"
    using assms(1) by (auto simp: Fold_def is_ok_iff split: prod.splits sum.splits)
  from immediate_with_changed[OF q(1)] q(2,3) assms(2) show ?thesis by (auto simp: is_ok_iff)
qed

text \<open>
  C3. Whatever the drivers refuse, a fold changes the database only at the expected revision, with
  a plan that is exactly the replay, the active operations and the registry of what the database
  holds at that moment, after the intent is in the audit log and with the commit; and then it
  reports success unless the connection fails to close.
\<close>

theorem Fold_only_authoritative:
  assumes "Fold casefold hash d expected plan db = (r, db')" and "db' \<noteq> db"
  shows "\<exists>s e. revision_column (journal_of db) = expected
    \<and> loadSnapshot casefold (on_journal d) (on_load d) db = Inr s \<and> Replay casefold s = Inr e
    \<and> plan_effective plan = eff_effective e
    \<and> plan_operations plan = map op_id (take (nat (cursor_column (journal_of db))) (snap_journal s))
    \<and> KnownDrillsForFold (snap_drills s) (eff_effective e)
        (take (nat (cursor_column (journal_of db))) (snap_journal s)) = Inr (plan_drills plan)
    \<and> on_audit d = None \<and> on_journal d CallCommit = None
    \<and> (is_ok r \<or> on_journal d CallClose \<noteq> None)"
proof -
  from Fold_changed[OF assms] obtain v where v: "on_journal d CallCommit = None"
      "fold_body casefold hash d expected plan db = Inr (v, db')" "is_ok r \<or> on_journal d CallClose \<noteq> None"
    by blast
  from v(2) obtain s where "fold_checks casefold d expected plan db = Inr s"
    by (auto simp: fold_body_def bind_result_Inr)
  from fold_checks_Inr[OF this] v(1,3) show ?thesis by blast
qed

subsection \<open>The plan of a stored profile\<close>

lemma plan_operations_loop_Inr:
  "plan_operations_loop seen ids = Inr () \<longleftrightarrow> '''' \<notin> set ids \<and> distinct ids \<and> set ids \<inter> set seen = {}"
  by (induction ids arbitrary: seen) auto

lemma stored_id: "ValidateStored casefold oper = Inr () \<Longrightarrow> op_id oper \<noteq> ''''"
  by (auto simp: ValidateStored_def validateOperation_def bind_result_Inr split: if_splits)

text \<open>What the plan rests on, for a snapshot in the database whose active operations replay.\<close>

definition foldable :: "(string \<Rightarrow> string) \<Rightarrow> profile_snapshot \<Rightarrow> store_tables \<Rightarrow> profile \<Rightarrow> bool" where
  "foldable casefold s db p \<longleftrightarrow> stores casefold s db \<and>
     reference_replay casefold (snap_committed s) (take (nat (snap_cursor s)) (snap_journal s)) = Inr p"

abbreviation active_of :: "profile_snapshot \<Rightarrow> operation list" where
  "active_of s \<equiv> take (nat (snap_cursor s)) (snap_journal s)"

lemma foldable_utf8: "foldable casefold s db p \<Longrightarrow> list_all payload_utf8 (snap_journal s)"
  by (simp add: foldable_def stores_def)

lemma foldableD:
  assumes "foldable casefold s db p"
  shows "ValidateSnapshot casefold s = Inr ()" "sortCommittedProfile (snap_committed s) = snap_committed s"
    "journal_state casefold (journal_of db) (snap_journal s) (nat (snap_cursor s))"
    "snap_revision s = revision_column (journal_of db)" "holds_rows (snap_committed s) (ledger_of db)"
    "transactions_ok (transactions (snap_committed s))"
    "\<forall>r\<in>set (transactions (snap_committed s)). valid_date (record_date r)"
    "mset (table_drills (ledger_of db)) = mset (snap_drills s)"
    "reference_replay casefold (snap_committed s) (active_of s) = Inr p"
  using assms by (simp_all add: foldable_def stores_def)

lemma foldable_wf:
  assumes fold: "foldable casefold s db p"
  shows "profile_wf casefold (snap_committed s)" "profile_wf casefold (sortCommittedProfile p)"
    "fold_shape (snap_committed s) (sortCommittedProfile p)"
  using effective_fold[OF foldableD(1)[OF fold] foldableD(9)[OF fold]] by blast+

lemma foldable_replay:
  "foldable casefold s db p \<Longrightarrow> Replay casefold s = Inr \<lparr>eff_revision = snap_revision s,
    eff_cursor = snap_cursor s, eff_committed = snap_committed s, eff_effective = sortCommittedProfile p,
    eff_journal = snap_journal s, eff_drills = snap_drills s\<rparr>"
  using Replay_reference[OF foldableD(1) foldableD(9)] by blast

lemma active_stored:
  "foldable casefold s db p \<Longrightarrow> \<forall>oper\<in>set (active_of s). ValidateStored casefold oper = Inr ()"
  using foldableD(1) by (auto simp: ValidateSnapshot_Inr dest: in_set_takeD)

lemma fold_original:
  assumes "foldable casefold s db p" and "t \<in> set (transactions (sortCommittedProfile p))"
  obtains t0 where "t0 \<in> set (transactions (snap_committed s))" "record_fixed t0 = record_fixed t"
  by (rule fold_shape_record[OF foldable_wf(3)[OF assms(1)] assms(2)])

lemma effective_transactions:
  assumes fold: "foldable casefold s db p"
  shows "transactions_ok (transactions (sortCommittedProfile p))"
    "\<forall>r\<in>set (transactions (sortCommittedProfile p)). valid_date (record_date r)"
    "\<forall>part\<in>set (drill_partitions (transactions (sortCommittedProfile p))). part_ok part"
proof -
  have checks: "transaction_checks t \<and> valid_date (record_date t)" if t: "t \<in> set (transactions (sortCommittedProfile p))" for t
  proof -
    obtain t0 where t0: "t0 \<in> set (transactions (snap_committed s))" "record_fixed t0 = record_fixed t"
      by (rule fold_original[OF fold t])
    have "transaction_checks t0" using foldableD(6)[OF fold] t0(1) by (simp add: transactions_ok_def)
    moreover have "record_date t0 = record_date t" using t0(2) by (simp add: record_fixed_def)
    moreover have "valid_date (record_date t0)" using foldableD(7)[OF fold] t0(1) by blast
    ultimately show ?thesis using record_fixed_checks[OF t0(2)] by simp
  qed
  have inj: "inj_on (\<lambda>r. (record_provider r, record_provider_id r)) (set (transactions (snap_committed s)))"
    using foldableD(6)[OF fold] by (simp add: transactions_ok_def distinct_map)
  have ids: "distinct (map record_id (transactions (sortCommittedProfile p)))" by (rule profile_ids_distinct(4)[OF foldable_wf(2)[OF fold]])
  have "x = y" if x: "x \<in> set (transactions (sortCommittedProfile p))" and y: "y \<in> set (transactions (sortCommittedProfile p))"
    and same: "(record_provider x, record_provider_id x) = (record_provider y, record_provider_id y)" for x y
  proof -
    obtain x0 where x0: "x0 \<in> set (transactions (snap_committed s))" "record_fixed x0 = record_fixed x"
      by (rule fold_original[OF fold x])
    obtain y0 where y0: "y0 \<in> set (transactions (snap_committed s))" "record_fixed y0 = record_fixed y"
      by (rule fold_original[OF fold y])
    have "x0 = y0" by (rule inj_onD[OF inj _ x0(1) y0(1)]) (use x0(2) y0(2) same in \<open>simp add: record_fixed_def\<close>)
    then have "record_id x = record_id y" using x0(2) y0(2) by (simp add: record_fixed_def)
    then show ?thesis by (rule one_row[OF ids x y])
  qed
  then have "inj_on (\<lambda>r. (record_provider r, record_provider_id r)) (set (transactions (sortCommittedProfile p)))"
    by (intro inj_onI)
  moreover have "distinct (transactions (sortCommittedProfile p))" using ids by (simp add: distinct_map)
  ultimately show "transactions_ok (transactions (sortCommittedProfile p))"
    using ids checks by (simp add: transactions_ok_def distinct_map)
  show "\<forall>r\<in>set (transactions (sortCommittedProfile p)). valid_date (record_date r)" using checks by blast
  show "\<forall>part\<in>set (drill_partitions (transactions (sortCommittedProfile p))). part_ok part"
    using checks by (auto simp: drill_partitions_def part_ok_def transaction_checks_def)
qed

lemma fold_drills:
  assumes fold: "foldable casefold s db p"
  obtains ds where "KnownDrillsForFold (snap_drills s) (sortCommittedProfile p) (active_of s) = Inr ds"
    "sorted_wrt (<) (map key_of ds)" "\<forall>i\<in>set ds. is_ok (CanonicalKey i)" "set (snap_drills s) \<subseteq> set ds"
proof -
  have "\<forall>i\<in>set (snap_drills s). is_ok (CanonicalKey i)" using foldableD(1)[OF fold] by (simp add: ValidateSnapshot_Inr)
  from known_drills_spec[OF this active_stored[OF fold] effective_transactions(3)[OF fold]] that show thesis by blast
qed

lemma plan_valid:
  assumes fold: "foldable casefold s db p" and "sorted_wrt (<) (map key_of ds)" and "\<forall>i\<in>set ds. is_ok (CanonicalKey i)"
  shows "ValidateFoldPlan casefold \<lparr>plan_revision = n, plan_operations = map op_id (active_of s),
    plan_effective = sortCommittedProfile p, plan_drills = ds\<rparr> n = Inr ()"
proof -
  have "distinct (map op_id (active_of s))" by (rule journal_state_prefix(3)[OF foldableD(3)[OF fold]])
  moreover have "'''' \<notin> set (map op_id (active_of s))" using active_stored[OF fold] stored_id by force
  ultimately have "plan_operations_loop [] (map op_id (active_of s)) = Inr ()" by (simp add: plan_operations_loop_Inr)
  moreover have "ValidateProfile casefold (sortCommittedProfile p) = Inr ()" using foldable_wf(2)[OF fold] by (simp add: ValidateProfile_Inr)
  moreover have "validateDrills 0 '''' ds = Inr ()" using assms by (simp add: validateDrills_Inr)
  ultimately show ?thesis by (simp add: ValidateFoldPlan_def)
qed

lemma plan_shape:
  assumes fold: "foldable casefold s db p" and "set (snap_drills s) \<subseteq> set ds"
  shows "validateFoldShape s \<lparr>plan_revision = n, plan_operations = ids, plan_effective = sortCommittedProfile p, plan_drills = ds\<rparr>"
proof -
  have same: "mset (accounts p) = mset (accounts (snap_committed s))"
      "mset (identities p) = mset (identities (snap_committed s))"
    using foldable_wf(3)[OF fold] by (simp_all add: fold_shape_def sortCommittedProfile_def)
  have wf: "profile_wf casefold p" using foldable_wf(2)[OF fold] by simp
  have "accounts (sortCommittedProfile p) = accounts (sortCommittedProfile (snap_committed s))"
      "identities (sortCommittedProfile p) = identities (sortCommittedProfile (snap_committed s))"
    using sort_key_unique[OF same(1) profile_wf_distinct(1)[OF wf]]
      sort_key_unique[OF same(2) profile_wf_identities_distinct[OF wf]] by (simp_all add: sortCommittedProfile_def)
  then have "accounts (snap_committed s) = accounts (sortCommittedProfile p)"
      "identities (snap_committed s) = identities (sortCommittedProfile p)"
    unfolding foldableD(2)[OF fold] by simp_all
  moreover have "record_id t \<in> record_id ` set (transactions (snap_committed s))" if "t \<in> set (transactions (sortCommittedProfile p))" for t
    by (rule fold_original[OF fold that]) (simp add: record_fixed_def image_iff, metis)
  ultimately show ?thesis
    using fold_shape_ids[OF foldable_wf(3)[OF fold]] assms
    by (auto simp: validateFoldShape_def Let_def requireExistingEntityIDs_def requireTransactionSubset_def)
qed

subsection \<open>The transaction on an idle database\<close>

definition calm_driver :: "store_tables \<Rightarrow> store_driver" where
  "calm_driver torn = \<lparr>on_journal = calm, on_load = load_calm, on_fold = fold_calm, on_csv = (\<lambda>_. None),
     on_delete = None, on_audit = None, on_record = None, on_torn = torn\<rparr>"

lemma calm_driver_simps [simp]:
  "on_journal (calm_driver torn) = calm" "on_load (calm_driver torn) = load_calm"
  "on_fold (calm_driver torn) = fold_calm" "on_csv (calm_driver torn) = (\<lambda>_. None)"
  "on_delete (calm_driver torn) = None" "on_audit (calm_driver torn) = None"
  "on_record (calm_driver torn) = None" "on_torn (calm_driver torn) = torn"
  by (simp_all add: calm_driver_def)

lemma drill_fits:
  assumes "CanonicalKey d = Inr k" and "d \<notin> set table"
  shows "insert_drill d table = table @ [d]"
  using assms by (cases "drill_id_dimension d")
    (auto simp: insert_drill_def CanonicalKey_def dimension_valid_def not_less split: if_splits)

lemma insert_drills_run:
  assumes "\<forall>d\<in>set ds. is_ok (CanonicalKey d)" and "distinct ds" and "\<forall>d\<in>set existing. is_ok (CanonicalKey d)"
    and "set ds \<inter> set (table_drills db) \<subseteq> set existing"
  shows "fold_result (\<lambda>db d. if key_of d \<in> key_of ` set existing then Inr db
        else fold_exec fold_calm (CallInsertDrill d) (Inr (db\<lparr>table_drills := insert_drill d (table_drills db)\<rparr>))) db ds =
    Inr (db\<lparr>table_drills := table_drills db @ filter (\<lambda>d. d \<notin> set existing) ds\<rparr>)"
  using assms
proof (induction ds arbitrary: db)
  case (Cons d ds)
  have known: "key_of d \<in> key_of ` set existing \<longleftrightarrow> d \<in> set existing"
    using Cons.prems(1,3) CanonicalKey_inject CanonicalKey_key_of by (auto simp: is_ok_iff) metis
  show ?case
  proof (cases "d \<in> set existing")
    case True
    moreover have "set ds \<inter> set (table_drills db) \<subseteq> set existing" using Cons.prems(4) by auto
    ultimately show ?thesis using Cons.IH[of db] Cons.prems known by simp
  next
    case False
    then have "insert_drill d (table_drills db) = table_drills db @ [d]"
      using Cons.prems(1,4) by (auto simp: is_ok_iff intro: drill_fits)
    then show ?thesis
      using Cons.IH[of "db\<lparr>table_drills := table_drills db @ [d]\<rparr>"] Cons.prems known False by auto
  qed
qed simp

lemma insertFoldKnownDrills_run:
  assumes fold: "foldable casefold s db p" and ds: "sorted_wrt (<) (map key_of ds)" "\<forall>i\<in>set ds. is_ok (CanonicalKey i)"
    and sub: "set (snap_drills s) \<subseteq> set ds" and table: "table_drills ledger = table_drills (ledger_of db)"
  shows "\<exists>table. insertFoldKnownDrills fold_calm (snap_drills s) ds ledger = Inr (ledger\<lparr>table_drills := table\<rparr>)
    \<and> mset table = mset ds"
proof -
  have old: "mset (table_drills ledger) = mset (snap_drills s)" using foldableD(8)[OF fold] table by simp
  have "\<forall>i\<in>set (snap_drills s). is_ok (CanonicalKey i)" "sorted_wrt (<) (map key_of (snap_drills s))"
    using foldableD(1)[OF fold] by (simp_all add: ValidateSnapshot_Inr)
  moreover have d: "distinct ds" using ds(1) by (metis distinct_map strict_sorted_iff)
  moreover have "distinct (snap_drills s)" using calculation(2) by (metis distinct_map strict_sorted_iff)
  ultimately have "insertFoldKnownDrills fold_calm (snap_drills s) ds ledger =
      Inr (ledger\<lparr>table_drills := table_drills ledger @ filter (\<lambda>d. d \<notin> set (snap_drills s)) ds\<rparr>)"
    using insert_drills_run[of ds "snap_drills s" ledger] ds(2) mset_eq_setD[OF old]
    by (simp add: insertFoldKnownDrills_def)
  moreover have "mset (table_drills ledger @ filter (\<lambda>d. d \<notin> set (snap_drills s)) ds) = mset ds"
  proof -
    have "mset (snap_drills s) = mset (filter (\<lambda>d. d \<in> set (snap_drills s)) ds)"
      using \<open>distinct (snap_drills s)\<close> d sub by (intro set_eq_iff_mset_eq_distinct[THEN iffD1]) auto
    then show ?thesis using old by (simp add: multiset_partition[symmetric])
  qed
  ultimately show ?thesis by blast
qed

lemma fold_checks_run:
  assumes fold: "foldable casefold s db p"
    and ds: "KnownDrillsForFold (snap_drills s) (sortCommittedProfile p) (active_of s) = Inr ds"
      "sorted_wrt (<) (map key_of ds)" "\<forall>i\<in>set ds. is_ok (CanonicalKey i)" "set (snap_drills s) \<subseteq> set ds"
  shows "fold_checks casefold (calm_driver torn) (snap_revision s) \<lparr>plan_revision = snap_revision s,
      plan_operations = map op_id (active_of s), plan_effective = sortCommittedProfile p, plan_drills = ds\<rparr> db = Inr s"
proof -
  have state: "loadJournalState calm (journal_of db) =
      Inr (snap_revision s, snap_cursor s, int (length (snap_journal s)))"
    using loadJournalState_Inr[OF foldableD(3)[OF fold]] foldableD(4)[OF fold] foldableD(1)[OF fold]
    by (simp add: ValidateSnapshot_Inr)
  have load: "loadSnapshot casefold calm load_calm db = Inr s"
    using fold by (simp add: foldable_def loadSnapshot_stored)
  have cursor: "nat (snap_cursor s) \<le> length (snap_journal s)"
    using foldableD(1)[OF fold] by (simp add: ValidateSnapshot_Inr nat_le_iff)
  show ?thesis
    using state load cursor plan_valid[OF fold ds(2,3)] plan_shape[OF fold ds(4)] foldableD(1)[OF fold]
      foldable_replay[OF fold] ds(1)
    by (simp add: fold_checks_def Let_def audit_intent_def)
qed

lemma BuildFoldPlan_run:
  assumes fold: "foldable casefold s db p" and replay: "Replay casefold s = Inr e"
    and ds: "KnownDrillsForFold (snap_drills s) (sortCommittedProfile p) (active_of s) = Inr ds"
      "sorted_wrt (<) (map key_of ds)" "\<forall>i\<in>set ds. is_ok (CanonicalKey i)"
  shows "BuildFoldPlan casefold e (snap_revision s) = Inr \<lparr>plan_revision = snap_revision s,
      plan_operations = map op_id (active_of s), plan_effective = sortCommittedProfile p, plan_drills = ds\<rparr>"
proof -
  have e: "e = \<lparr>eff_revision = snap_revision s, eff_cursor = snap_cursor s,
    eff_committed = snap_committed s, eff_effective = sortCommittedProfile p,
    eff_journal = snap_journal s, eff_drills = snap_drills s\<rparr>"
    using replay foldable_replay[OF fold] by simp
  have "Replay casefold \<lparr>snap_revision = snap_revision s, snap_cursor = snap_cursor s,
      snap_committed = snap_committed s, snap_journal = snap_journal s, snap_drills = snap_drills s\<rparr> = Inr e"
    using replay by (cases s) simp
  then show ?thesis
    using plan_valid[OF fold ds(2,3)] ds(1) by (simp add: BuildFoldPlan_def Let_def e)
qed

text \<open>The ledger of imported rows is valid for the committed profile, if there is one.\<close>

definition csv_ready :: "tuple_hash \<Rightarrow> profile_snapshot \<Rightarrow> store_tables \<Rightarrow> bool" where
  "csv_ready hash s db \<longleftrightarrow> csv_settings_row (csv_of db) = None
     \<or> csv_stored (csv_of db) \<and> ValidateCSVState hash (csv_of db) (snap_committed s) = Inr ()"

definition committed_snapshot :: "profile_snapshot \<Rightarrow> profile \<Rightarrow> drill_identity list \<Rightarrow> profile_snapshot" where
  "committed_snapshot s effective ds = \<lparr>snap_revision = snap_revision s + 1, snap_cursor = 0,
     snap_committed = effective, snap_journal = [], snap_drills = ds\<rparr>"

lemma delete_all [simp]: "delete_operations (\<lambda>_. True) db =
    db\<lparr>journal_operations := [], operation_payloads := [], operation_targets := []\<rparr>"
  by (simp add: delete_operations_def)

lemma csv_fold_ready:
  assumes fold: "foldable casefold s db p" and ready: "csv_ready hash s db"
  shows "\<exists>csv. foldCSVOverrides casefold hash (\<lambda>_. None) (csv_of db) s (sortCommittedProfile p) = Inr csv
    \<and> (csv_settings_row csv = None \<or> csv_stored csv \<and> ValidateCSVState hash csv (sortCommittedProfile p) = Inr ())"
proof (cases "csv_settings_row (csv_of db)")
  case None
  then show ?thesis by (simp add: foldCSVOverrides_def)
next
  case (Some settings)
  then show ?thesis
    using foldCSVOverrides_run[OF foldableD(1)[OF fold] foldableD(9)[OF fold] Some] ready
    by (auto simp: csv_ready_def)
qed

lemma committed_stores:
  assumes fold: "foldable casefold s db p" and revision: "sint (snap_revision s) < 2 ^ 63 - 1"
    and ds: "sorted_wrt (<) (map key_of ds)" "\<forall>i\<in>set ds. is_ok (CanonicalKey i)"
    and ledger: "holds_rows p ledger" "mset (table_drills ledger) = mset ds"
    and journal: "journal = (journal_of db)\<lparr>revision_column := snap_revision s + 1, cursor_column := 0,
      journal_operations := [], operation_payloads := [], operation_targets := []\<rparr>"
  shows "stores casefold (committed_snapshot s (sortCommittedProfile p) ds)
    \<lparr>journal_of = journal, ledger_of = ledger, csv_of = csv\<rparr>"
proof -
  have rows: "same_rows (sortCommittedProfile p) p" by (rule sortCommittedProfile_same_rows)
  have "0 \<le> sint (snap_revision s)" using foldableD(3,4)[OF fold] by (simp add: journal_state_def)
  then have "sint (snap_revision s + 1) = sint (snap_revision s) + 1" "0 \<le> sint (snap_revision s + 1)"
    using sint_increment revision by simp_all
  moreover have "sortCommittedProfile (sortCommittedProfile p) = sortCommittedProfile p"
    by (rule sortCommittedProfile_eq[OF rows foldable_wf(2)[OF fold]])
  moreover have "holds_rows (sortCommittedProfile p) ledger"
    using ledger(1) rows by (simp add: holds_rows_def same_rows_def)
  ultimately show ?thesis
    using foldable_wf(2)[OF fold] ds ledger(2) effective_transactions(1,2)[OF fold]
    by (simp add: stores_def committed_snapshot_def journal journal_state_def rows_match_def ValidateSnapshot_Inr
      maxJournalOperations_def maxJournalTargets_def)
qed

lemma fold_body_run:
  assumes fold: "foldable casefold s db p" and ready: "csv_ready hash s db"
    and keys: "keys_plain (snap_committed s)" "keys_plain p" and revision: "sint (snap_revision s) < 2 ^ 63 - 1"
    and ds: "KnownDrillsForFold (snap_drills s) (sortCommittedProfile p) (active_of s) = Inr ds"
      "sorted_wrt (<) (map key_of ds)" "\<forall>i\<in>set ds. is_ok (CanonicalKey i)" "set (snap_drills s) \<subseteq> set ds"
    and plan: "plan = \<lparr>plan_revision = snap_revision s, plan_operations = map op_id (active_of s),
      plan_effective = sortCommittedProfile p, plan_drills = ds\<rparr>"
  shows "if merges_ordered (snap_committed s) (sortCommittedProfile p)
    then \<exists>db'. fold_body casefold hash (calm_driver torn) (snap_revision s) plan db = Inr (snap_revision s + 1, db')
      \<and> stores casefold (committed_snapshot s (sortCommittedProfile p) ds) db'
      \<and> csv_ready hash (committed_snapshot s (sortCommittedProfile p) ds) db'
    else fold_body casefold hash (calm_driver torn) (snap_revision s) plan db =
      Inl (CommitStore (mapDriverError constraint_failed CodeStoreError))"
proof -
  have checks: "fold_checks casefold (calm_driver torn) (snap_revision s) plan db = Inr s"
    unfolding plan by (rule fold_checks_run[OF fold ds])
  have fields: "plan_effective plan = sortCommittedProfile p" "plan_drills plan = ds" by (simp_all add: plan)
  note apply_fold = applyFold_effective[OF foldableD(1)[OF fold] foldableD(9)[OF fold] keys
    foldableD(6)[OF fold] foldableD(5)[OF fold]]
  show ?thesis
  proof (cases "merges_ordered (snap_committed s) (sortCommittedProfile p)")
    case False
    then show ?thesis using apply_fold by (simp add: fold_body_def checks fields)
  next
    case True
    then obtain ledger where ledger: "applyFold fold_calm (snap_committed s) (sortCommittedProfile p) (ledger_of db) = Inr ledger"
        "holds_rows p ledger" "table_drills ledger = table_drills (ledger_of db)" using apply_fold by auto
    obtain csv where csv: "foldCSVOverrides casefold hash (\<lambda>_. None) (csv_of db) s (sortCommittedProfile p) = Inr csv"
        "csv_settings_row csv = None \<or> csv_stored csv \<and> ValidateCSVState hash csv (sortCommittedProfile p) = Inr ()"
      using csv_fold_ready[OF fold ready] by blast
    obtain table where table: "insertFoldKnownDrills fold_calm (snap_drills s) ds ledger = Inr (ledger\<lparr>table_drills := table\<rparr>)"
        "mset table = mset ds" using insertFoldKnownDrills_run[OF fold ds(2-4) ledger(3)] by blast
    let ?cleared = "(journal_of db)\<lparr>journal_operations := [], operation_payloads := [], operation_targets := []\<rparr>"
    let ?journal = "?cleared\<lparr>revision_column := snap_revision s + 1, cursor_column := 0\<rparr>"
    have nonneg: "0 \<le> sint (snap_revision s)" using foldableD(3,4)[OF fold] by (simp add: journal_state_def)
    have advance: "incrementRevision (snap_revision s) = Inr (snap_revision s + 1)"
      using incrementRevision_Inr[OF nonneg] revision by blast
    have update: "updateJournalState calm (snap_revision s) (snap_revision s + 1) 0 ?cleared = Inr ?journal"
      using updateJournalState_Inr[of ?cleared calm "snap_revision s + 1" 0] foldableD(4)[OF fold] nonneg
        sint_increment[OF nonneg revision] by simp
    let ?db = "\<lparr>journal_of = ?journal, ledger_of = ledger\<lparr>table_drills := table\<rparr>, csv_of = csv\<rparr>"
    have "stores casefold (committed_snapshot s (sortCommittedProfile p) ds) ?db"
      by (rule committed_stores[OF fold revision ds(2,3)])
        (use ledger(2) table(2) in \<open>simp_all add: holds_rows_def\<close>)
    moreover have "csv_ready hash (committed_snapshot s (sortCommittedProfile p) ds) ?db"
      using csv(2) by (simp add: csv_ready_def committed_snapshot_def)
    moreover have "fold_body casefold hash (calm_driver torn) (snap_revision s) plan db = Inr (snap_revision s + 1, ?db)"
      using ledger(1) csv(1) table(1) advance update by (simp add: fold_body_def checks fields delete_journal_def)
    ultimately show ?thesis using True by auto
  qed
qed

lemma Fold_run:
  assumes fold: "foldable casefold s db p" and "csv_ready hash s db"
    and "keys_plain (snap_committed s)" "keys_plain p" and "sint (snap_revision s) < 2 ^ 63 - 1"
  shows "\<exists>e plan. Replay casefold s = Inr e \<and> BuildFoldPlan casefold e (snap_revision s) = Inr plan
    \<and> (if merges_ordered (snap_committed s) (eff_effective e)
       then \<exists>db'. Fold casefold hash (calm_driver torn) (snap_revision s) plan db =
           (Inr (Folded (snap_revision s + 1)), db')
         \<and> stores casefold (committed_snapshot s (eff_effective e) (plan_drills plan)) db'
         \<and> csv_ready hash (committed_snapshot s (eff_effective e) (plan_drills plan)) db'
       else Fold casefold hash (calm_driver torn) (snap_revision s) plan db =
         (Inl (CommitStore (mapDriverError constraint_failed CodeStoreError)), db))"
proof -
  obtain ds where ds: "KnownDrillsForFold (snap_drills s) (sortCommittedProfile p) (active_of s) = Inr ds"
      "sorted_wrt (<) (map key_of ds)" "\<forall>i\<in>set ds. is_ok (CanonicalKey i)" "set (snap_drills s) \<subseteq> set ds"
    by (rule fold_drills[OF fold])
  let ?plan = "\<lparr>plan_revision = snap_revision s, plan_operations = map op_id (active_of s),
      plan_effective = sortCommittedProfile p, plan_drills = ds\<rparr>"
  have immediate: "immediate_with CommitStore calm torn body db =
      (case body db of Inl e \<Rightarrow> (Inl e, idle db) | Inr (v, db') \<Rightarrow> (Inr v, idle db'))"
    for torn and body :: "store_tables \<Rightarrow> commit_error + uint64 \<times> store_tables"
    by (simp add: immediate_with_def beginImmediate_def run_commit_def finish_def run_rollback_def
        split: sum.split)
  note body = fold_body_run[OF fold assms(2-5) ds refl]
  have "if merges_ordered (snap_committed s) (sortCommittedProfile p)
       then \<exists>db'. Fold casefold hash (calm_driver torn) (snap_revision s) ?plan db =
           (Inr (Folded (snap_revision s + 1)), db')
         \<and> stores casefold (committed_snapshot s (sortCommittedProfile p) ds) db'
         \<and> csv_ready hash (committed_snapshot s (sortCommittedProfile p) ds) db'
       else Fold casefold hash (calm_driver torn) (snap_revision s) ?plan db =
         (Inl (CommitStore (mapDriverError constraint_failed CodeStoreError)), db)"
  proof (cases "merges_ordered (snap_committed s) (sortCommittedProfile p)")
    case True
    with body obtain db' where "fold_body casefold hash (calm_driver torn) (snap_revision s) ?plan db =
        Inr (snap_revision s + 1, db')" "stores casefold (committed_snapshot s (sortCommittedProfile p) ds) db'"
      "csv_ready hash (committed_snapshot s (sortCommittedProfile p) ds) db'" by auto
    with True show ?thesis by (simp add: Fold_def immediate)
  next
    case False
    with body show ?thesis by (simp add: Fold_def immediate)
  qed
  then show ?thesis
    using foldable_replay[OF fold] BuildFoldPlan_run[OF fold foldable_replay[OF fold] ds(1-3)] by simp
qed

text \<open>
  C1. On an idle database that stores a valid profile, with an active prefix that replays, the plan
  built from the replay exists, and committing it succeeds exactly when no new entity is merged into
  a later new one.  Then the database stores the effective profile, an empty journal, the extended
  registry and the next revision, which is what the next load returns; otherwise the database is
  unchanged.
\<close>

theorem Fold_commits:
  assumes "stores casefold s db" and "csv_ready hash s db"
    and "reference_replay casefold (snap_committed s) (take (nat (snap_cursor s)) (snap_journal s)) = Inr p"
    and "keys_plain (snap_committed s)" and "keys_plain p" and "sint (snap_revision s) < 2 ^ 63 - 1"
  shows "\<exists>e plan. Load casefold calm load_calm db = Inr s \<and> Replay casefold s = Inr e
    \<and> BuildFoldPlan casefold e (snap_revision s) = Inr plan
    \<and> (if merges_ordered (snap_committed s) (eff_effective e)
       then \<exists>db'. Fold casefold hash (calm_driver torn) (snap_revision s) plan db =
           (Inr (Folded (snap_revision s + 1)), db')
         \<and> Load casefold calm load_calm db' = Inr \<lparr>snap_revision = snap_revision s + 1, snap_cursor = 0,
             snap_committed = eff_effective e, snap_journal = [], snap_drills = plan_drills plan\<rparr>
         \<and> csv_ready hash (committed_snapshot s (eff_effective e) (plan_drills plan)) db'
       else Fold casefold hash (calm_driver torn) (snap_revision s) plan db =
         (Inl (CommitStore (mapDriverError constraint_failed CodeStoreError)), db))"
proof -
  have fold: "foldable casefold s db p" using assms(1,3) by (simp add: foldable_def)
  show ?thesis
    using Fold_run[OF fold assms(2,4,5,6), of torn] Load_stored[OF assms(1)]
      Load_stored[of casefold "committed_snapshot s e ds" db' for e ds db', unfolded committed_snapshot_def]
    by (auto simp: committed_snapshot_def split: if_splits)
qed

subsection \<open>An example\<close>

text \<open>Two active operations and one undone, stored in their tables.\<close>

definition stored_journal :: "operation list" where
  "stored_journal = map (\<lambda>(k, oper). oper\<lparr>op_id := k, op_created_at := from_unix_milli 0\<rparr>)
     (zip [''o1'', ''o2'', ''o3''] (take 3 example_journal))"

definition stored_snapshot :: profile_snapshot where
  "stored_snapshot = \<lparr>snap_revision = 9, snap_cursor = 2, snap_committed = sortCommittedProfile example_profile,
     snap_journal = stored_journal, snap_drills = []\<rparr>"

definition example_database :: store_tables where
  "example_database = \<lparr>journal_of = \<lparr>revision_column = 9, cursor_column = 2,
       journal_operations = map row_for stored_journal, operation_payloads = map payload_for stored_journal,
       operation_targets = concat (map targets_for stored_journal)\<rparr>,
     ledger_of = tables_of (sortCommittedProfile example_profile),
     csv_of = \<lparr>csv_settings_row = None, csv_files = [], csv_rows = [], csv_membership = []\<rparr>\<rparr>"

lemma stored_snapshot_valid: "ValidateSnapshot ascii_fold stored_snapshot = Inr ()"
proof -
  have "profile_wf ascii_fold (sortCommittedProfile example_profile)"
    using example_profile_valid by (simp add: ValidateProfile_Inr)
  moreover have "list_all (\<lambda>oper. is_ok (ValidateStored ascii_fold oper)) stored_journal" by code_simp
  moreover have "sorted_wrt (<) (map op_sequence stored_journal)" "length stored_journal = 3" by code_simp+
  ultimately show ?thesis
    by (auto simp: ValidateSnapshot_Inr stored_snapshot_def list_all_iff is_ok_iff)
qed

lemma example_database_stores: "stores ascii_fold stored_snapshot example_database"
proof -
  have "distinct (map op_id stored_journal)" "sorted_wrt (<) (map op_sequence stored_journal)"
      "length stored_journal = 3" "target_count stored_journal = 4"
      "list_all (\<lambda>oper. op_sequence oper \<le> 9 \<and> op_revision oper = 1 \<and> op_created_at oper = from_unix_milli 0) stored_journal"
    by code_simp+
  moreover have "\<forall>oper\<in>set stored_journal. ValidateStored ascii_fold oper = Inr ()"
    using stored_snapshot_valid by (simp add: ValidateSnapshot_Inr stored_snapshot_def)
  moreover have "(9 :: int64) \<le> max_int64" "unix_milli (from_unix_milli 0) = 0" "(1 :: int64) \<le> max_int64" by code_simp+
  ultimately have "journal_state ascii_fold (journal_of example_database) stored_journal 2"
    by (auto simp: journal_state_def example_database_def rows_match_def storable_def list_all_iff
      maxJournalOperations_def maxJournalTargets_def)
  moreover have "list_all payload_utf8 stored_journal" by code_simp
  moreover have "transactions_ok (transactions (sortCommittedProfile example_profile))"
      "list_all (\<lambda>r. valid_date (record_date r)) (transactions (sortCommittedProfile example_profile))"
    by code_simp+
  moreover have "sortCommittedProfile (sortCommittedProfile example_profile) = sortCommittedProfile example_profile"
    by (rule sortCommittedProfile_eq[where casefold = ascii_fold, OF sortCommittedProfile_same_rows])
      (use stored_snapshot_valid in \<open>simp add: ValidateSnapshot_Inr stored_snapshot_def\<close>)
  ultimately show ?thesis
    using stored_snapshot_valid holds_tables_of
    by (simp add: stores_def stored_snapshot_def list_all_iff) (simp add: example_database_def tables_of_def)
qed

definition stored_effective :: profile where
  "stored_effective = effective_of (sortCommittedProfile example_profile) (take 2 stored_journal)"

lemma stored_example:
  "reference_replay ascii_fold (snap_committed stored_snapshot)
     (take (nat (snap_cursor stored_snapshot)) (snap_journal stored_snapshot)) = Inr stored_effective"
  "keys_plain (snap_committed stored_snapshot)" "keys_plain stored_effective"
  "merges_ordered (snap_committed stored_snapshot) (sortCommittedProfile stored_effective)"
  "csv_ready example_hash stored_snapshot example_database" "sint (snap_revision stored_snapshot) < 2 ^ 63 - 1"
proof -
  have "accepts ascii_fold (sortCommittedProfile example_profile) (take 2 stored_journal)" by code_simp
  then have "\<exists>p. reference_replay ascii_fold (sortCommittedProfile example_profile) (take 2 stored_journal) = Inr p"
    using reference_replay_accepts[of ascii_fold "sortCommittedProfile example_profile"] example_profile_valid
    by (auto simp: ValidateProfile_Inr)
  then show "reference_replay ascii_fold (snap_committed stored_snapshot)
      (take (nat (snap_cursor stored_snapshot)) (snap_journal stored_snapshot)) = Inr stored_effective"
    using reference_replay_effective by (fastforce simp: stored_snapshot_def stored_effective_def)
  have "plain_keys (sortCommittedProfile example_profile)" "plain_keys stored_effective" by code_simp+
  then show "keys_plain (snap_committed stored_snapshot)" "keys_plain stored_effective"
    using plain_keys by (auto simp: stored_snapshot_def)
  have "merges_ordered (sortCommittedProfile example_profile) (sortCommittedProfile stored_effective)" by code_simp
  then show "merges_ordered (snap_committed stored_snapshot) (sortCommittedProfile stored_effective)"
    by (simp add: stored_snapshot_def)
  show "csv_ready example_hash stored_snapshot example_database" by (simp add: csv_ready_def example_database_def)
  show "sint (snap_revision stored_snapshot) < 2 ^ 63 - 1" by (simp add: stored_snapshot_def)
qed

lemmas stored_example_replay = Replay_reference[OF stored_snapshot_valid stored_example(1)]

theorem Fold_commits_witness:
  "\<exists>plan db'. Fold ascii_fold example_hash (calm_driver example_database) 9 plan example_database = (Inr (Folded 10), db')
    \<and> (\<exists>s. Load ascii_fold calm load_calm db' = Inr s \<and> snap_revision s = 10 \<and> snap_journal s = [])"
  using Fold_commits[OF example_database_stores stored_example(5,1,2,3,6), where torn = example_database] stored_example(4) stored_example_replay
  by (fastforce simp: stored_snapshot_def)

theorem Fold_only_authoritative_witness:
  "\<exists>plan db' s e. Fold ascii_fold example_hash (calm_driver example_database) 9 plan example_database = (Inr (Folded 10), db')
    \<and> Replay ascii_fold s = Inr e \<and> plan_effective plan = eff_effective e"
proof -
  have "foldable ascii_fold stored_snapshot example_database stored_effective"
    using example_database_stores stored_example(1) by (simp add: foldable_def)
  from Fold_run[OF this stored_example(5,2,3,6), where torn = example_database] obtain plan db' where
    run: "Fold ascii_fold example_hash (calm_driver example_database) 9 plan example_database = (Inr (Folded 10), db')"
    and "\<exists>e. stores ascii_fold (committed_snapshot stored_snapshot e (plan_drills plan)) db'"
    using stored_example(4) stored_example_replay by (auto simp: stored_snapshot_def)
  then have "revision_column (journal_of db') = 10"
    by (auto simp: stores_def committed_snapshot_def stored_snapshot_def)
  then have "db' \<noteq> example_database" by (auto simp: example_database_def)
  from Fold_only_authoritative[OF run this] run show ?thesis by blast
qed

end
