(* ===== verification/Analytics_Duplicates.thy ===== *)
theory Analytics_Duplicates
  imports Accumulate Ordering Entities
begin

text \<open>
  Likely duplicate transactions (\<open>internal/analytics/duplicates.go\<close>): groups of transactions with
  the same date, amount, account label and lower-cased merchant label.  The Unicode lower-casing is
  a parameter, as is the map of provider labels; the Go map is an association list in first-use
  order, which the final sort removes.
\<close>

subsection \<open>The groups\<close>

record duplicate_group =
  duplicate_date :: date
  duplicate_amount :: money
  duplicate_label :: string
  duplicate_account :: string
  duplicate_ids :: "entity_id list"
  duplicate_matching :: string

record duplicate_key =
  dup_date :: string
  dup_currency :: string
  dup_scale :: uint8
  dup_minor :: int64
  dup_label :: string
  dup_account :: string

record duplicate_accumulator =
  acc_date :: date
  acc_amount :: money
  acc_label :: string
  acc_ids :: "entity_id list"

definition matching_label :: "(entity_id \<rightharpoonup> string) \<Rightarrow> transaction \<Rightarrow> string" where
  "matching_label labels t = (case labels (ref_id (trans_merchant t)) of
     Some label \<Rightarrow> label | None \<Rightarrow> ref_name (trans_merchant t))"

definition duplicate_key_of ::
    "(string \<Rightarrow> string) \<Rightarrow> (entity_id \<rightharpoonup> string) \<Rightarrow> transaction \<Rightarrow> duplicate_key" where
  "duplicate_key_of lower labels t =
     \<lparr>dup_date = date_string (trans_date t), dup_currency = currency (trans_amount t),
      dup_scale = scale (trans_amount t), dup_minor = minor (trans_amount t),
      dup_label = lower (matching_label labels t), dup_account = ref_name (trans_account t)\<rparr>"

definition new_duplicate :: "(entity_id \<rightharpoonup> string) \<Rightarrow> transaction \<Rightarrow> duplicate_accumulator" where
  "new_duplicate labels t = \<lparr>acc_date = trans_date t, acc_amount = trans_amount t,
     acc_label = matching_label labels t, acc_ids = []\<rparr>"

definition relabel_duplicate ::
    "(entity_id \<rightharpoonup> string) \<Rightarrow> duplicate_accumulator \<Rightarrow> transaction \<Rightarrow> duplicate_accumulator" where
  "relabel_duplicate labels v t =
     (if matching_label labels t < acc_label v then v\<lparr>acc_label := matching_label labels t\<rparr> else v)"

definition add_duplicate :: "duplicate_accumulator \<Rightarrow> transaction \<Rightarrow> unit + duplicate_accumulator" where
  "add_duplicate v t = Inr (v\<lparr>acc_ids := acc_ids v @ [trans_id t]\<rparr>)"

definition duplicate_table ::
    "(string \<Rightarrow> string) \<Rightarrow> (entity_id \<rightharpoonup> string) \<Rightarrow> transaction list \<Rightarrow>
     unit + (duplicate_key \<times> duplicate_accumulator) list" where
  "duplicate_table lower labels ts = fold_result (accumulate (duplicate_key_of lower labels)
     (new_duplicate labels) (relabel_duplicate labels) add_duplicate) [] ts"

definition duplicate_group_of :: "duplicate_key \<times> duplicate_accumulator \<Rightarrow> duplicate_group" where
  "duplicate_group_of = (\<lambda>(key, v). \<lparr>duplicate_date = acc_date v, duplicate_amount = acc_amount v,
     duplicate_label = acc_label v, duplicate_account = dup_account key,
     duplicate_ids = sort (acc_ids v), duplicate_matching = dup_label key\<rparr>)"

definition compareOrdered :: "int \<Rightarrow> int \<Rightarrow> int" where
  "compareOrdered left right = (if left < right then - 1 else 1)"

definition compareDuplicateGroups :: "duplicate_group \<Rightarrow> duplicate_group \<Rightarrow> int" where
  "compareDuplicateGroups left right =
     (let l = duplicate_amount left; r = duplicate_amount right;
          dates = date_compare (duplicate_date right) (duplicate_date left);
          currencies = compare_values (currency l) (currency r);
          keys = compare_values (duplicate_matching left) (duplicate_matching right);
          owners = compare_values (duplicate_account left) (duplicate_account right) in
      if dates \<noteq> 0 then dates
      else if currencies \<noteq> 0 then currencies
      else if scale l \<noteq> scale r then compareOrdered (uint (scale l)) (uint (scale r))
      else if minor l \<noteq> minor r then compareOrdered (sint (minor l)) (sint (minor r))
      else if keys \<noteq> 0 then keys
      else if owners \<noteq> 0 then owners
      else compare_values (duplicate_ids left ! 0) (duplicate_ids right ! 0))"

definition FindDuplicates ::
    "(string \<Rightarrow> string) \<Rightarrow> (entity_id \<rightharpoonup> string) \<Rightarrow> transaction list \<Rightarrow> duplicate_group list" where
  "FindDuplicates lower labels ts =
     (case duplicate_table lower labels ts of Inl _ \<Rightarrow> []
      | Inr table \<Rightarrow> stable_sort (\<lambda>l r. compareDuplicateGroups l r < 0)
          (map duplicate_group_of (filter (\<lambda>(_, v). \<not> length (acc_ids v) < 2) table)))"

subsection \<open>The order of the groups\<close>

lemma compareOrdered_values: "a \<noteq> b \<Longrightarrow> compareOrdered a b = compare_values a b"
  by (auto simp: compareOrdered_def compare_values_def)

lemma compareDuplicateGroups_then:
  "compareDuplicateGroups = then_compare (\<lambda>l r. date_compare (duplicate_date r) (duplicate_date l))
     (then_compare (\<lambda>l r. compare_values (currency (duplicate_amount l)) (currency (duplicate_amount r)))
     (then_compare (\<lambda>l r. compare_values (uint (scale (duplicate_amount l))) (uint (scale (duplicate_amount r))))
     (then_compare (\<lambda>l r. compare_values (sint (minor (duplicate_amount l))) (sint (minor (duplicate_amount r))))
     (then_compare (\<lambda>l r. compare_values (duplicate_matching l) (duplicate_matching r))
     (then_compare (\<lambda>l r. compare_values (duplicate_account l) (duplicate_account r))
       (\<lambda>l r. compare_values (duplicate_ids l ! 0) (duplicate_ids r ! 0)))))))"
  by (simp add: fun_eq_iff compareDuplicateGroups_def then_compare_def Let_def compareOrdered_values
    word_uint_eq_iff sint_inject)

lemma comparison_reverse: "comparison c \<Longrightarrow> comparison (\<lambda>l r. c r l)"
  unfolding comparison_def by metis

interpretation duplicate_order: comparison compareDuplicateGroups
  unfolding compareDuplicateGroups_then
  by (intro comparison_then comparison_values comparison_reverse[of "\<lambda>l r. date_compare (duplicate_date l) (duplicate_date r)"]
    comparison_key[OF date_order.comparison_axioms])

subsection \<open>What a group holds\<close>

text \<open>The group of the transactions of one key, however they are ordered.\<close>

definition duplicates_of ::
    "(string \<Rightarrow> string) \<Rightarrow> (entity_id \<rightharpoonup> string) \<Rightarrow> transaction \<Rightarrow> transaction list \<Rightarrow> duplicate_group" where
  "duplicates_of lower labels t ts =
     (let same = filter (\<lambda>u. duplicate_key_of lower labels u = duplicate_key_of lower labels t) ts in
      \<lparr>duplicate_date = trans_date t, duplicate_amount = trans_amount t,
       duplicate_label = Min (matching_label labels ` set same), duplicate_account = ref_name (trans_account t),
       duplicate_ids = sort (map trans_id same), duplicate_matching = lower (matching_label labels t)\<rparr>)"

definition duplicate_value :: "(entity_id \<rightharpoonup> string) \<Rightarrow> transaction list \<Rightarrow> duplicate_accumulator" where
  "duplicate_value labels us = \<lparr>acc_date = trans_date (hd us), acc_amount = trans_amount (hd us),
     acc_label = Min (matching_label labels ` set us), acc_ids = map trans_id us\<rparr>"

lemma duplicate_bucket:
  "bucket (new_duplicate labels) (relabel_duplicate labels) add_duplicate t us =
     Inr (duplicate_value labels (t # us))"
proof (induction us rule: rev_induct)
  case Nil
  show ?case by (simp add: bucket_def add_duplicate_def new_duplicate_def duplicate_value_def)
next
  case (snoc u us)
  let ?label = "matching_label labels"
  have "Min (?label ` set (t # us @ [u])) = min (?label u) (Min (?label ` set (t # us)))"
  proof -
    have "?label ` set (t # us @ [u]) = insert (?label u) (?label ` set (t # us))" by auto
    then show ?thesis by (simp only:) (rule Min_insert, simp_all)
  qed
  moreover have "relabel_duplicate labels v u = v\<lparr>acc_label := min (?label u) (acc_label v)\<rparr>" for v
    by (cases v) (auto simp: relabel_duplicate_def min_def not_less not_le)
  ultimately show ?case
    unfolding bucket_snoc snoc by (simp add: add_duplicate_def duplicate_value_def del: Min_insert set_simps)
qed

lemma duplicate_table_entries:
  obtains table where "duplicate_table lower labels ts = Inr table" "distinct (map fst table)"
    "\<And>k v. (k, v) \<in> set table \<longleftrightarrow> filter (\<lambda>t. duplicate_key_of lower labels t = k) ts \<noteq> []
      \<and> v = duplicate_value labels (filter (\<lambda>t. duplicate_key_of lower labels t = k) ts)"
proof -
  let ?b = "bucket_of (duplicate_key_of lower labels) (new_duplicate labels) (relabel_duplicate labels) add_duplicate ts"
  have b: "?b k = (let us = filter (\<lambda>t. duplicate_key_of lower labels t = k) ts in
      if us = [] then None else Some (Inr (duplicate_value labels us)))" for k
    unfolding bucket_of_def duplicate_bucket Let_def by (simp split: list.split)
  have "\<forall>k r. ?b k = Some r \<longrightarrow> is_ok r" unfolding b by (auto simp: Let_def split: if_splits)
  then have "is_ok (duplicate_table lower labels ts)"
    using accumulate_table unfolding duplicate_table_def by blast
  then obtain table where table: "duplicate_table lower labels ts = Inr table" by (auto simp: is_ok_iff)
  note facts = accumulate_table[THEN conjunct2, rule_format, OF table[unfolded duplicate_table_def]]
  have d: "distinct (map fst table)" by (rule facts[THEN conjunct1])
  have m: "?b k = map_option Inr (map_of table k)" for k by (rule facts[THEN conjunct2, THEN spec])
  have "(k, v) \<in> set table \<longleftrightarrow> ?b k = Some (Inr v)" for k v
    unfolding m by (simp add: map_of_eq_Some_iff[OF d])
  then have "(k, v) \<in> set table \<longleftrightarrow> filter (\<lambda>t. duplicate_key_of lower labels t = k) ts \<noteq> []
      \<and> v = duplicate_value labels (filter (\<lambda>t. duplicate_key_of lower labels t = k) ts)" for k v
    unfolding b Let_def by auto
  with that[OF table d] show thesis by blast
qed

lemma duplicates_of_cong:
  assumes "duplicate_key_of lower labels t = duplicate_key_of lower labels u"
    and "valid_date (trans_date t)" "valid_date (trans_date u)"
  shows "duplicates_of lower labels t ts = duplicates_of lower labels u ts"
proof -
  have "date_string (trans_date t) = date_string (trans_date u)" using assms(1) by (simp add: duplicate_key_of_def)
  then have "Inr (trans_date t) = (Inr (trans_date u) :: date_error + date)"
    unfolding ParseDate_date_string[OF assms(2), symmetric] ParseDate_date_string[OF assms(3), symmetric] by (rule arg_cong)
  then have "trans_date t = trans_date u" by simp
  moreover have "trans_amount t = trans_amount u" using assms(1) by (simp add: duplicate_key_of_def)
  ultimately show ?thesis using assms(1) by (simp add: duplicates_of_def duplicate_key_of_def)
qed

lemma duplicates_of_mset:
  assumes "mset us = mset ts"
  shows "duplicates_of lower labels t us = duplicates_of lower labels t ts"
proof -
  have f: "mset (filter P us) = mset (filter P ts)" for P using assms by simp
  have "sort (map trans_id (filter P us)) = sort (map trans_id (filter P ts))" for P
    by (rule properties_for_sort) (use assms in simp_all)
  then show ?thesis using mset_eq_setD[OF f] by (simp add: duplicates_of_def Let_def)
qed

definition has_duplicate :: "(string \<Rightarrow> string) \<Rightarrow> (entity_id \<rightharpoonup> string) \<Rightarrow> transaction list \<Rightarrow> transaction \<Rightarrow> bool" where
  "has_duplicate lower labels ts t \<longleftrightarrow>
     2 \<le> length (filter (\<lambda>u. duplicate_key_of lower labels u = duplicate_key_of lower labels t) ts)"

text \<open>Groups of different keys differ in the order, so the sort has one result.\<close>

lemma duplicates_of_compare:
  assumes "compareDuplicateGroups (duplicates_of lower labels t ts) (duplicates_of lower labels u ts) = 0"
    and "valid_date (trans_date t)" "valid_date (trans_date u)"
  shows "duplicates_of lower labels t ts = duplicates_of lower labels u ts"
proof -
  note zero = assms(1)[unfolded compareDuplicateGroups_then then_compare_zero]
  have "date_compare (trans_date u) (trans_date t) = 0" using zero by (simp add: duplicates_of_def Let_def)
  then have "trans_date t = trans_date u" using date_compare_valid[OF assms(3,2)] by (simp split: if_splits)
  moreover have "trans_amount t = trans_amount u"
    using zero by (simp add: duplicates_of_def Let_def word_uint_eq_iff sint_inject)
  ultimately have "duplicate_key_of lower labels t = duplicate_key_of lower labels u"
    using zero by (simp add: duplicates_of_def Let_def duplicate_key_of_def)
  then show ?thesis using assms(2,3) by (rule duplicates_of_cong)
qed

definition group_key :: "duplicate_group \<Rightarrow> duplicate_key" where
  "group_key g = \<lparr>dup_date = date_string (duplicate_date g), dup_currency = currency (duplicate_amount g),
     dup_scale = scale (duplicate_amount g), dup_minor = minor (duplicate_amount g),
     dup_label = duplicate_matching g, dup_account = duplicate_account g\<rparr>"

text \<open>The transactions of one key, and the group they make.\<close>

definition same_key :: "(string \<Rightarrow> string) \<Rightarrow> (entity_id \<rightharpoonup> string) \<Rightarrow> transaction list \<Rightarrow> duplicate_key \<Rightarrow> transaction list" where
  "same_key lower labels ts k = filter (\<lambda>t. duplicate_key_of lower labels t = k) ts"

lemma same_key_hd:
  assumes "same_key lower labels ts k \<noteq> []"
  shows "hd (same_key lower labels ts k) \<in> set ts" "duplicate_key_of lower labels (hd (same_key lower labels ts k)) = k"
  using hd_in_set[OF assms] by (simp_all add: same_key_def)

lemma duplicate_group_of_value:
  assumes "same_key lower labels ts k \<noteq> []"
  shows "duplicate_group_of (k, duplicate_value labels (same_key lower labels ts k)) =
    duplicates_of lower labels (hd (same_key lower labels ts k)) ts"
proof -
  let ?t = "hd (same_key lower labels ts k)"
  have k: "duplicate_key_of lower labels ?t = k" by (rule same_key_hd(2)[OF assms])
  have "dup_account k = ref_name (trans_account ?t)" "dup_label k = lower (matching_label labels ?t)"
    using arg_cong[OF k, of dup_account] arg_cong[OF k, of dup_label] by (simp_all add: duplicate_key_of_def)
  moreover have "filter (\<lambda>u. duplicate_key_of lower labels u = duplicate_key_of lower labels ?t) ts =
      same_key lower labels ts k" unfolding k by (simp add: same_key_def)
  ultimately show ?thesis by (simp add: duplicates_of_def Let_def duplicate_group_of_def duplicate_value_def)
qed

lemma group_key_duplicates: "group_key (duplicates_of lower labels t ts) = duplicate_key_of lower labels t"
  by (simp add: group_key_def duplicates_of_def Let_def duplicate_key_of_def)

lemma duplicate_groups:
  obtains groups where
    "FindDuplicates lower labels ts = stable_sort (\<lambda>l r. compareDuplicateGroups l r < 0) groups"
    "distinct groups"
    "\<forall>g. g \<in> set groups \<longleftrightarrow> (\<exists>k. 2 \<le> length (same_key lower labels ts k)
      \<and> g = duplicates_of lower labels (hd (same_key lower labels ts k)) ts)"
proof -
  let ?same = "same_key lower labels ts"
  obtain table where table: "duplicate_table lower labels ts = Inr table" "distinct (map fst table)"
    "\<And>k v. (k, v) \<in> set table \<longleftrightarrow> ?same k \<noteq> [] \<and> v = duplicate_value labels (?same k)"
    using duplicate_table_entries[of lower labels ts] unfolding same_key_def by blast
  let ?some = "filter (\<lambda>(_, v). \<not> length (acc_ids v) < 2) table"
  let ?groups = "map duplicate_group_of ?some"
  have "group_key (duplicate_group_of (k, v)) = k" if "(k, v) \<in> set table" for k v
    using that same_key_hd(2) by (simp add: table(3) duplicate_group_of_value group_key_duplicates)
  then have "map group_key ?groups = map fst ?some" by auto
  moreover have "distinct (map fst ?some)" using table(2) by (rule distinct_map_filter)
  ultimately have "distinct ?groups" by (metis distinct_map)
  moreover have "g \<in> set ?groups \<longleftrightarrow> (\<exists>k. 2 \<le> length (?same k) \<and> g = duplicates_of lower labels (hd (?same k)) ts)" for g
  proof
    assume "g \<in> set ?groups"
    then obtain k v where v: "(k, v) \<in> set table" "\<not> length (acc_ids v) < 2" "g = duplicate_group_of (k, v)" by auto
    then have k: "?same k \<noteq> []" "v = duplicate_value labels (?same k)" by (simp_all add: table(3))
    have "g = duplicates_of lower labels (hd (?same k)) ts" unfolding v(3) k(2) by (rule duplicate_group_of_value[OF k(1)])
    moreover have "2 \<le> length (?same k)" using v(2) by (simp add: k(2) duplicate_value_def not_less)
    ultimately show "\<exists>k. 2 \<le> length (?same k) \<and> g = duplicates_of lower labels (hd (?same k)) ts" by blast
  next
    assume "\<exists>k. 2 \<le> length (?same k) \<and> g = duplicates_of lower labels (hd (?same k)) ts"
    then obtain k where k: "2 \<le> length (?same k)" "g = duplicates_of lower labels (hd (?same k)) ts" by blast
    then have ne: "?same k \<noteq> []" by auto
    then have "(k, duplicate_value labels (?same k)) \<in> set ?some" using k(1) by (simp add: table(3) duplicate_value_def)
    then have "duplicate_group_of (k, duplicate_value labels (?same k)) \<in> set ?groups" by (metis image_eqI list.set_map)
    then show "g \<in> set ?groups" unfolding duplicate_group_of_value[OF ne] k(2) .
  qed
  moreover have "FindDuplicates lower labels ts = stable_sort (\<lambda>l r. compareDuplicateGroups l r < 0) ?groups"
    by (simp add: FindDuplicates_def table(1))
  ultimately show thesis using that by blast
qed

lemma FindDuplicates_groups:
  assumes valid: "\<forall>t\<in>set ts. valid_date (trans_date t)"
  obtains groups where
    "FindDuplicates lower labels ts = stable_sort (\<lambda>l r. compareDuplicateGroups l r < 0) groups" "distinct groups"
    "set groups = (\<lambda>t. duplicates_of lower labels t ts) ` {t \<in> set ts. has_duplicate lower labels ts t}"
proof -
  let ?same = "same_key lower labels ts"
  have has: "has_duplicate lower labels ts t \<longleftrightarrow> 2 \<le> length (?same (duplicate_key_of lower labels t))" for t
    by (simp add: has_duplicate_def same_key_def)
  obtain groups where g: "FindDuplicates lower labels ts = stable_sort (\<lambda>l r. compareDuplicateGroups l r < 0) groups"
    "distinct groups"
    "\<forall>g. g \<in> set groups \<longleftrightarrow> (\<exists>k. 2 \<le> length (?same k) \<and> g = duplicates_of lower labels (hd (?same k)) ts)"
    using duplicate_groups[of lower labels ts] by blast
  have "g \<in> set groups \<longleftrightarrow> g \<in> (\<lambda>t. duplicates_of lower labels t ts) ` {t \<in> set ts. has_duplicate lower labels ts t}" for g
  proof
    assume "g \<in> set groups"
    then obtain k where k: "2 \<le> length (?same k)" "g = duplicates_of lower labels (hd (?same k)) ts"
      using g(3) by blast
    then have "?same k \<noteq> []" by auto
    note hd = same_key_hd[OF this]
    have "has_duplicate lower labels ts (hd (?same k))" unfolding has hd(2) by (rule k(1))
    with k(2) hd(1) show "g \<in> (\<lambda>t. duplicates_of lower labels t ts) ` {t \<in> set ts. has_duplicate lower labels ts t}" by blast
  next
    assume "g \<in> (\<lambda>t. duplicates_of lower labels t ts) ` {t \<in> set ts. has_duplicate lower labels ts t}"
    then obtain t where t: "t \<in> set ts" "has_duplicate lower labels ts t" "g = duplicates_of lower labels t ts" by blast
    let ?k = "duplicate_key_of lower labels t"
    have "2 \<le> length (?same ?k)" using t(2) by (simp add: has)
    moreover from this have "?same ?k \<noteq> []" by auto
    note hd = same_key_hd[OF this]
    have "duplicates_of lower labels (hd (?same ?k)) ts = g"
      unfolding t(3) by (rule duplicates_of_cong[OF hd(2)]) (use hd(1) t(1) valid in blast)+
    ultimately show "g \<in> set groups" using g(3) by blast
  qed
  with g(1,2) that show thesis by blast
qed

lemma FindDuplicates_permuted:
  assumes "mset us = mset ts" and valid: "\<forall>t\<in>set ts. valid_date (trans_date t)"
  shows "FindDuplicates lower labels us = FindDuplicates lower labels ts"
proof -
  note set_us = mset_eq_setD[OF assms(1)]
  have valid_us: "\<forall>t\<in>set us. valid_date (trans_date t)" using valid set_us by simp
  have has: "has_duplicate lower labels us t = has_duplicate lower labels ts t" for t
  proof -
    have "mset (filter P us) = mset (filter P ts)" for P using assms(1) by simp
    then show ?thesis unfolding has_duplicate_def by (metis mset_eq_length)
  qed
  obtain gs where gs: "FindDuplicates lower labels us = stable_sort (\<lambda>l r. compareDuplicateGroups l r < 0) gs" "distinct gs"
    "set gs = (\<lambda>t. duplicates_of lower labels t us) ` {t \<in> set us. has_duplicate lower labels us t}"
    by (rule FindDuplicates_groups[OF valid_us])
  obtain hs where hs: "FindDuplicates lower labels ts = stable_sort (\<lambda>l r. compareDuplicateGroups l r < 0) hs" "distinct hs"
    "set hs = (\<lambda>t. duplicates_of lower labels t ts) ` {t \<in> set ts. has_duplicate lower labels ts t}"
    by (rule FindDuplicates_groups[OF valid])
  have "set gs = set hs" unfolding gs(3) hs(3) set_us has duplicates_of_mset[OF assms(1)] by simp
  then have same: "mset gs = mset hs" using gs(2) hs(2) by (simp add: set_eq_iff_mset_eq_distinct)
  show ?thesis
    unfolding gs(1) hs(1)
  proof (rule duplicate_order.asc.stable_sort_unique[OF same])
    fix a b assume "a \<in> set gs" "b \<in> set gs" "\<not> compareDuplicateGroups a b < 0" "\<not> compareDuplicateGroups b a < 0"
    moreover then have "compareDuplicateGroups a b = 0" using duplicate_order.swap[of b a] by simp
    ultimately show "a = b" using duplicates_of_compare valid_us unfolding gs(3) by blast
  qed
qed

text \<open>
  C31. \<open>FindDuplicates\<close> returns exactly one group for every date, amount, account label and
  lower-cased merchant label that two or more transactions share, with the identities of all of
  them in order and the least of their labels; the groups are in display order, and neither they nor
  their order depend on the order of the transactions.
\<close>

theorem FindDuplicates_exact:
  assumes "\<forall>t\<in>set ts. valid_date (trans_date t)"
  shows "set (FindDuplicates lower labels ts) =
      (\<lambda>t. duplicates_of lower labels t ts) ` {t \<in> set ts. has_duplicate lower labels ts t}
    \<and> distinct (FindDuplicates lower labels ts)
    \<and> sorted_wrt (\<lambda>a b. compareDuplicateGroups a b \<le> 0) (FindDuplicates lower labels ts)
    \<and> (\<forall>us. mset us = mset ts \<longrightarrow> FindDuplicates lower labels us = FindDuplicates lower labels ts)"
proof -
  obtain gs where gs: "FindDuplicates lower labels ts = stable_sort (\<lambda>l r. compareDuplicateGroups l r < 0) gs" "distinct gs"
    "set gs = (\<lambda>t. duplicates_of lower labels t ts) ` {t \<in> set ts. has_duplicate lower labels ts t}"
    by (rule FindDuplicates_groups[OF assms])
  have "sorted_wrt (\<lambda>a b. \<not> compareDuplicateGroups b a < 0) (FindDuplicates lower labels ts)"
    unfolding gs(1) by (rule duplicate_order.asc.sorted_stable_sort)
  then have "sorted_wrt (\<lambda>a b. compareDuplicateGroups a b \<le> 0) (FindDuplicates lower labels ts)"
    by (rule sorted_wrt_mono_rel[rotated]) (metis duplicate_order.swap neg_less_0_iff_less not_less)
  moreover have "distinct (FindDuplicates lower labels ts)"
    unfolding gs(1) using gs(2) mset_eq_imp_distinct_iff[OF mset_stable_sort] by blast
  moreover have "set (FindDuplicates lower labels ts) =
      (\<lambda>t. duplicates_of lower labels t ts) ` {t \<in> set ts. has_duplicate lower labels ts t}"
    unfolding gs(1) using gs(3) by simp
  ultimately show ?thesis using FindDuplicates_permuted assms by blast
qed

definition duplicate_example :: "string \<Rightarrow> string \<Rightarrow> transaction" where
  "duplicate_example ident label = \<lparr>trans_id = ident, trans_provider_id = ident, trans_provider = ''demo'',
     trans_account = \<lparr>ref_id = ''a1'', ref_name = ''Checking''\<rparr>, trans_date = Date 2024 2 29,
     trans_merchant = \<lparr>ref_id = label, ref_name = label\<rparr>,
     trans_category = \<lparr>cref_id = ''c1'', cref_name = ''Food'', cref_group_id = ''g1'', cref_group = ''Food''\<rparr>,
     trans_amount = \<lparr>minor = - 1250, currency = ''USD'', scale = 2\<rparr>, trans_notes = '''',
     trans_hidden = False, trans_pending = False, trans_metadata = []\<rparr>"

theorem FindDuplicates_exact_witness:
  "let ts = [duplicate_example ''t2'' ''CAFE'', duplicate_example ''t1'' ''Cafe'', duplicate_example ''t3'' ''Bar''] in
   duplicates_of (map (\<lambda>c. if c = CHR ''C'' then CHR ''c'' else CHR ''x'')) (\<lambda>_. None) (ts ! 0) ts
     \<in> set (FindDuplicates (map (\<lambda>c. if c = CHR ''C'' then CHR ''c'' else CHR ''x'')) (\<lambda>_. None) ts)"
proof -
  let ?lower = "map (\<lambda>c. if c = CHR ''C'' then CHR ''c'' else CHR ''x'')"
  let ?ts = "[duplicate_example ''t2'' ''CAFE'', duplicate_example ''t1'' ''Cafe'', duplicate_example ''t3'' ''Bar'']"
  have "list_all (\<lambda>t. valid_date (trans_date t)) ?ts" by code_simp
  moreover have "has_duplicate ?lower (\<lambda>_. None) ?ts (?ts ! 0)" by code_simp
  ultimately have "?ts ! 0 \<in> {t \<in> set ?ts. has_duplicate ?lower (\<lambda>_. None) ?ts t}"
    "\<forall>t\<in>set ?ts. valid_date (trans_date t)" unfolding list_all_iff by simp_all
  from imageI[OF this(1), of "\<lambda>t. duplicates_of ?lower (\<lambda>_. None) t ?ts"] FindDuplicates_exact[OF this(2)]
  show ?thesis unfolding Let_def by metis
qed

end
