(* ===== verification/Analytics_Amazon.thy ===== *)
theory Analytics_Amazon
  imports Accumulate Ordering Entities
begin

text \<open>
  Matching bank transactions with Amazon orders (\<open>internal/analytics/amazon_matching.go\<close>).
  \<open>IndexAmazonOrders\<close> groups the items of a source into orders, \<open>MatchAmazonOrders\<close> runs three
  passes over the orders of all compatible sources and returns the candidates of the first pass that
  has any.  Copying items (\<open>cloneAmazonMatchItems\<close>) is the identity on values.  The sorts are stable here;
  Go may order equal elements in any way, which only concerns items with the same identity.
\<close>

subsection \<open>Items, orders and matches\<close>

datatype amazon_class = AmazonMatchExactOrder | AmazonMatchFuzzyOrder | AmazonMatchExactItem

datatype amazon_confidence = AmazonConfidenceHigh | AmazonConfidenceMedium | AmazonConfidenceLikely

record amazon_item =
  item_id :: entity_id
  item_order :: string
  item_product :: string
  item_date :: date
  item_amount :: int64
  item_asin :: string
  item_quantity :: int64
  item_order_status :: string
  item_shipment_status :: string
  item_unit_price :: "int64 option"

record amazon_source =
  source_profile :: string
  source_revision :: uint64
  source_currency :: string
  source_scale :: uint8
  source_items :: "amazon_item list"

record amazon_order =
  order_profile :: string
  order_revision :: uint64
  order_currency :: string
  order_scale :: uint8
  order_id :: string
  order_date :: date
  order_total :: int64
  order_items :: "amazon_item list"

record amazon_index =
  index_profile :: string
  index_revision :: uint64
  index_currency :: string
  index_scale :: uint8
  index_orders :: "amazon_order list"

record amazon_match =
  match_class :: amazon_class
  match_confidence :: amazon_confidence
  match_profile :: string
  match_revision :: uint64
  match_order :: string
  match_date :: date
  match_total :: money
  match_days :: int
  match_difference :: int64
  match_product :: string
  match_items :: "amazon_item list"

record amazon_result =
  result_matches :: "amazon_match list"
  result_total :: int

datatype amazon_error =
    AmazonLimit
  | AmazonTotalOverflow
  | AmazonUnknownPass
  | AmazonFuzzyOverflow
  | AmazonToleranceOverflow
  | AmazonScaleOverflow
  | AmazonDifferenceOverflow
  | AmazonMagnitudeOverflow

definition no_matches :: amazon_result where
  "no_matches = \<lparr>result_matches = [], result_total = 0\<rparr>"

subsection \<open>The index of a source\<close>

definition OrderCount :: "amazon_index \<Rightarrow> nat" where
  "OrderCount index = length (index_orders index)"

text \<open>The Go map from order identities to items, in first-use order.\<close>

definition items_by_order :: "amazon_item list \<Rightarrow> amazon_error + (string \<times> amazon_item list) list" where
  "items_by_order items = fold_result (accumulate item_order (\<lambda>_. []) (\<lambda>v _. v) (\<lambda>v i. Inr (v @ [i]))) []
     (filter (\<lambda>i. item_order i \<noteq> '''') items)"

definition total_step :: "int64 \<times> date \<Rightarrow> amazon_item \<Rightarrow> amazon_error + int64 \<times> date" where
  "total_step = (\<lambda>(total_before, earliest) i.
     if add_overflows total_before (item_amount i) then Inl AmazonTotalOverflow
     else Inr (total_before + item_amount i,
       if date_compare (item_date i) earliest < 0 then item_date i else earliest))"

definition index_order :: "amazon_source \<Rightarrow> string \<times> amazon_item list \<Rightarrow> amazon_error + amazon_order" where
  "index_order source = (\<lambda>(ident, items).
     let items = stable_sort (\<lambda>l r. compare_values (item_id l) (item_id r) < 0) items in
     bind_result (fold_result total_step (0, item_date (items ! 0)) items) (\<lambda>(total_amount, earliest).
       Inr \<lparr>order_profile = source_profile source, order_revision = source_revision source,
         order_currency = source_currency source, order_scale = source_scale source, order_id = ident,
         order_date = earliest, order_total = total_amount, order_items = items\<rparr>))"

definition IndexAmazonOrders :: "amazon_source \<Rightarrow> amazon_error + amazon_index" where
  "IndexAmazonOrders source =
     bind_result (items_by_order (source_items source)) (\<lambda>table.
     bind_result (map_result (\<lambda>ident. index_order source (ident, the (map_of table ident))) (sort (map fst table))) (\<lambda>orders.
     Inr \<lparr>index_profile = source_profile source, index_revision = source_revision source,
       index_currency = source_currency source, index_scale = source_scale source, index_orders = orders\<rparr>))"

subsection \<open>Amounts and days\<close>

fun power10_loop :: "nat \<Rightarrow> int64 \<Rightarrow> amazon_error + int64" where
  "power10_loop 0 value = Inr value"
| "power10_loop (Suc n) value =
     (if max_int64 div 10 <s value then Inl AmazonScaleOverflow else power10_loop n (value * 10))"

definition checkedPower10 :: "uint8 \<Rightarrow> amazon_error + int64" where
  "checkedPower10 places = power10_loop (unat places) 1"

definition absoluteMinor :: "int64 \<Rightarrow> amazon_error + int64" where
  "absoluteMinor value =
     (if value = min_int64 then Inl AmazonMagnitudeOverflow else if value <s 0 then Inr (- value) else Inr value)"

definition absoluteDifference :: "int64 \<Rightarrow> int64 \<Rightarrow> amazon_error + int64" where
  "absoluteDifference left right =
     (if sub_overflows left right then Inl AmazonDifferenceOverflow else absoluteMinor (left - right))"

definition amazonExactTolerance :: "uint8 \<Rightarrow> amazon_error + int64" where
  "amazonExactTolerance places =
     (if places < 2 then Inr 0
      else case checkedPower10 (places - 2) of
        Inl _ \<Rightarrow> Inl AmazonToleranceOverflow
      | Inr value \<Rightarrow> if max_int64 div 2 <s value then Inl AmazonToleranceOverflow else Inr (value * 2))"

definition amazonCentThreshold :: "uint8 \<Rightarrow> amazon_error + int64" where
  "amazonCentThreshold places = (if places \<le> 2 then Inr 1 else checkedPower10 (places - 2))"

definition amazonFuzzyMatch :: "int64 \<Rightarrow> int64 \<Rightarrow> uint8 \<Rightarrow> amazon_error + bool" where
  "amazonFuzzyMatch paid ordered places =
     (if 0 \<le>s paid \<or> 0 \<le>s ordered then Inr False
      else
        bind_result (absoluteMinor paid) (\<lambda>paid.
        bind_result (absoluteMinor ordered) (\<lambda>ordered.
        if ordered \<le>s paid then Inr False
        else
          let difference = ordered - paid in
          case checkedPower10 places of
            Inl _ \<Rightarrow> Inl AmazonFuzzyOverflow
          | Inr unit_value \<Rightarrow>
              if max_int64 div 15 <s unit_value then Inl AmazonFuzzyOverflow
              else if difference \<le>s unit_value * 15 then Inr True
              else Inr (difference \<le>s ordered div 10))))"

text \<open>
  \<open>Time.Sub\<close> saturates at the largest \<open>Duration\<close>, an \<open>int64\<close> of nanoseconds.  \<open>Hours\<close> is a
  floating-point number: whole for a difference of days, so the truncated quotient is exact.
\<close>

definition time_sub :: "int \<Rightarrow> int \<Rightarrow> int" where
  "time_sub left right = max (- (2 ^ 63)) (min (2 ^ 63 - 1) ((left - right) * 1000000000))"

definition amazonDateDistance :: "date \<Rightarrow> date \<Rightarrow> int" where
  "amazonDateDistance left right =
     (let days = go_div (time_sub (unix_time (time_date (year left) (month left) (day left)))
            (unix_time (time_date (year right) (month right) (day right)))) (24 * 3600 * 1000000000)
      in if days < 0 then - days else days)"

subsection \<open>Matching\<close>

definition amazonMatchWindowDays :: int where
  "amazonMatchWindowDays = 7"

definition order_match ::
    "amazon_order \<Rightarrow> amazon_class \<Rightarrow> amazon_confidence \<Rightarrow> int \<Rightarrow> int64 \<Rightarrow> amazon_match" where
  "order_match order class confidence days difference =
     \<lparr>match_class = class, match_confidence = confidence, match_profile = order_profile order,
      match_revision = order_revision order, match_order = order_id order, match_date = order_date order,
      match_total = \<lparr>minor = order_total order, currency = order_currency order, scale = order_scale order\<rparr>,
      match_days = days, match_difference = difference,
      match_product = (if 0 < length (order_items order) then item_product (order_items order ! 0) else ''''),
      match_items = order_items order\<rparr>"

definition matchAmazonOrder ::
    "transaction \<Rightarrow> amazon_order \<Rightarrow> amazon_class \<Rightarrow> amazon_error + amazon_match option" where
  "matchAmazonOrder t order class =
     (let days = amazonDateDistance (trans_date t) (order_date order) in
      if amazonMatchWindowDays < days then Inr None
      else
        bind_result (absoluteDifference (minor (trans_amount t)) (order_total order)) (\<lambda>difference.
        bind_result (amazonExactTolerance (order_scale order)) (\<lambda>tolerance.
        bind_result (case class of
            AmazonMatchExactOrder \<Rightarrow> Inr (difference \<le>s tolerance)
          | AmazonMatchFuzzyOrder \<Rightarrow> amazonFuzzyMatch (minor (trans_amount t)) (order_total order) (order_scale order)
          | _ \<Rightarrow> Inl AmazonUnknownPass) (\<lambda>matched.
        if \<not> matched then Inr None
        else
          bind_result (case class of
              AmazonMatchExactOrder \<Rightarrow>
                bind_result (amazonCentThreshold (order_scale order)) (\<lambda>cent.
                  Inr (if days \<le> 2 \<and> difference <s cent then AmazonConfidenceHigh else AmazonConfidenceMedium))
            | _ \<Rightarrow> Inr AmazonConfidenceLikely) (\<lambda>confidence.
          Inr (Some (order_match order class confidence days difference)))))))"

definition item_match :: "amazon_order \<Rightarrow> amazon_item \<Rightarrow> int \<Rightarrow> int64 \<Rightarrow> amazon_match" where
  "item_match order i days difference =
     \<lparr>match_class = AmazonMatchExactItem,
      match_confidence = (if days \<le> 2 then AmazonConfidenceHigh else AmazonConfidenceMedium),
      match_profile = order_profile order, match_revision = order_revision order,
      match_order = order_id order, match_date = item_date i,
      match_total = \<lparr>minor = item_amount i, currency = order_currency order, scale = order_scale order\<rparr>,
      match_days = days, match_difference = difference, match_product = item_product i, match_items = [i]\<rparr>"

definition matchAmazonItem ::
    "transaction \<Rightarrow> amazon_order \<Rightarrow> int64 \<Rightarrow> amazon_match list \<Rightarrow> amazon_item \<Rightarrow> amazon_error + amazon_match list" where
  "matchAmazonItem t order tolerance found i =
     (let days = amazonDateDistance (trans_date t) (item_date i) in
      if amazonMatchWindowDays < days then Inr found
      else
        bind_result (absoluteDifference (minor (trans_amount t)) (item_amount i)) (\<lambda>difference.
        if tolerance <s difference then Inr found
        else Inr (found @ [item_match order i days difference])))"

definition matchAmazonItems :: "transaction \<Rightarrow> amazon_order \<Rightarrow> amazon_error + amazon_match list" where
  "matchAmazonItems t order =
     bind_result (amazonExactTolerance (order_scale order)) (\<lambda>tolerance.
       fold_result (matchAmazonItem t order tolerance) [] (order_items order))"

text \<open>The identity of the first item, which the comparison falls back to.\<close>

definition first_item :: "amazon_match \<Rightarrow> string" where
  "first_item m = (if 0 < length (match_items m) then item_id (match_items m ! 0) else '''')"

definition compareAmazonMatches :: "amazon_match \<Rightarrow> amazon_match \<Rightarrow> int" where
  "compareAmazonMatches left right =
     (let profiles = compare_values (match_profile left) (match_profile right);
          orders = compare_values (match_order left) (match_order right) in
      if match_days left \<noteq> match_days right then match_days left - match_days right
      else if match_difference left <s match_difference right then - 1
      else if match_difference right <s match_difference left then 1
      else if profiles \<noteq> 0 then profiles
      else if orders \<noteq> 0 then orders
      else compare_values (first_item left) (first_item right))"

definition match_step ::
    "transaction \<Rightarrow> amazon_class \<Rightarrow> amazon_match list \<Rightarrow> amazon_order \<Rightarrow> amazon_error + amazon_match list" where
  "match_step t class found order =
     (if class = AmazonMatchExactItem
      then bind_result (matchAmazonItems t order) (\<lambda>ms. Inr (found @ ms))
      else bind_result (matchAmazonOrder t order class) (\<lambda>m.
        Inr (case m of None \<Rightarrow> found | Some m \<Rightarrow> found @ [m])))"

fun match_passes ::
    "transaction \<Rightarrow> amazon_order list \<Rightarrow> int \<Rightarrow> amazon_class list \<Rightarrow> amazon_error + amazon_result" where
  "match_passes t orders limit [] = Inr no_matches"
| "match_passes t orders limit (class # classes) =
     bind_result (fold_result (match_step t class) [] orders) (\<lambda>found.
     if length found = 0 then match_passes t orders limit classes
     else
       let found = stable_sort (\<lambda>l r. compareAmazonMatches l r < 0) found in
       Inr \<lparr>result_matches = take (nat (min limit (int (length found)))) found,
         result_total = int (length found)\<rparr>)"

definition compatible_orders :: "transaction \<Rightarrow> amazon_index list \<Rightarrow> amazon_order list" where
  "compatible_orders t indexes = concat (map index_orders (filter
     (\<lambda>i. \<not> (index_currency i \<noteq> currency (trans_amount t) \<or> index_scale i \<noteq> scale (trans_amount t))) indexes))"

definition MatchAmazonOrders ::
    "transaction \<Rightarrow> amazon_index list \<Rightarrow> int \<Rightarrow> amazon_error + amazon_result" where
  "MatchAmazonOrders t indexes limit =
     (if limit < 1 then Inl AmazonLimit
      else if 0 \<le>s minor (trans_amount t) then Inr no_matches
      else match_passes t (compatible_orders t indexes) limit
        [AmazonMatchExactOrder, AmazonMatchFuzzyOrder, AmazonMatchExactItem])"

subsection \<open>Arithmetic without overflow\<close>

lemma sint_times: "in_int64 (sint a * sint b) \<Longrightarrow> sint (a * b :: int64) = sint a * sint b"
  by (simp add: in_int64_def sint_word_ariths signed_take_bit_int_eq_self)

lemma sint_div_max:
  "sint (max_int64 div 10) = 922337203685477580" "sint (max_int64 div 2) = 4611686018427387903"
  "sint (max_int64 div 15) = 614891469123651720"
  by (simp_all add: max_int64_def)

lemma power10_loop:
  assumes "sint v = 10 ^ k" and "k + n \<le> 18"
  shows "\<exists>w. power10_loop n v = Inr w \<and> sint w = 10 ^ (k + n)"
  using assms
proof (induction n arbitrary: v k)
  case (Suc n)
  have k: "(10::int) ^ k \<le> 10 ^ 17" by (rule power_increasing) (use Suc.prems in simp_all)
  then have "\<not> max_int64 div 10 <s v" by (simp add: word_sless_alt sint_div_max Suc.prems(1))
  moreover have "sint (v * 10) = 10 ^ Suc k"
    using k zero_less_power[of "10::int" k] by (subst sint_times) (simp_all add: in_int64_def Suc.prems(1) del: zero_less_power)
  ultimately show ?case using Suc.IH[of "v * 10" "Suc k"] Suc.prems(2) by simp
qed simp

lemma checkedPower10_exact:
  assumes "unat places \<le> 18"
  obtains w where "checkedPower10 places = Inr w" "sint w = 10 ^ unat places"
  using power10_loop[of 1 0 "unat places"] assms by (auto simp: checkedPower10_def)

definition exact_tolerance :: "uint8 \<Rightarrow> int" where
  "exact_tolerance places = (if unat places < 2 then 0 else 2 * 10 ^ (unat places - 2))"

definition cent_threshold :: "uint8 \<Rightarrow> int" where
  "cent_threshold places = (if unat places \<le> 2 then 1 else 10 ^ (unat places - 2))"

lemma uint8_less: "(places :: uint8) < 2 \<longleftrightarrow> unat places < 2" "(places :: uint8) \<le> 2 \<longleftrightarrow> unat places \<le> 2"
  by (simp_all add: word_less_nat_alt word_le_nat_alt)

lemma uint8_minus: "\<not> unat (places :: uint8) < 2 \<Longrightarrow> unat (places - 2) = unat places - 2"
  by (subst unat_sub) (simp_all add: word_le_nat_alt)

lemma amazonExactTolerance_exact:
  assumes "unat places \<le> 17"
  obtains w where "amazonExactTolerance places = Inr w" "sint w = exact_tolerance places"
proof (cases "unat places < 2")
  case True
  then show ?thesis using that by (simp add: amazonExactTolerance_def exact_tolerance_def uint8_less)
next
  case False
  note u = uint8_minus[OF False]
  have "unat (places - 2) \<le> 18" using assms by (simp add: u)
  then obtain w where w: "checkedPower10 (places - 2) = Inr w" "sint w = 10 ^ unat (places - 2)"
    by (rule checkedPower10_exact)
  have "(10::int) ^ unat (places - 2) \<le> 10 ^ 15" by (rule power_increasing) (use assms in \<open>simp_all add: u\<close>)
  then have small: "0 < sint w" "sint w \<le> 10 ^ 15" unfolding w(2) by simp_all
  then have "sint (w * 2) = sint w * 2" by (subst sint_times) (simp_all add: in_int64_def)
  then have "\<not> max_int64 div 2 <s w" "sint (w * 2) = exact_tolerance places"
    using False small by (simp_all add: word_sless_alt sint_div_max exact_tolerance_def u w(2))
  then show ?thesis using that False by (simp add: amazonExactTolerance_def uint8_less w(1))
qed

lemma amazonCentThreshold_exact:
  assumes "unat places \<le> 17"
  obtains w where "amazonCentThreshold places = Inr w" "sint w = cent_threshold places"
proof (cases "unat places \<le> 2")
  case True
  then show ?thesis using that by (simp add: amazonCentThreshold_def cent_threshold_def uint8_less)
next
  case False
  then have u: "unat (places - 2) = unat places - 2" by (intro uint8_minus) simp
  have "unat (places - 2) \<le> 18" using assms by (simp add: u)
  then obtain w where "checkedPower10 (places - 2) = Inr w" "sint w = 10 ^ unat (places - 2)"
    by (rule checkedPower10_exact)
  then show ?thesis using that False by (simp add: amazonCentThreshold_def cent_threshold_def uint8_less u)
qed

text \<open>Amounts whose differences cannot overflow.\<close>

definition moderate :: "int64 \<Rightarrow> bool" where
  "moderate v \<longleftrightarrow> \<bar>sint v\<bar> < 2 ^ 62"

definition amount_apart :: "int64 \<Rightarrow> int64 \<Rightarrow> int" where
  "amount_apart left right = \<bar>sint left - sint right\<bar>"

lemma absoluteMinor_exact:
  assumes "sint v \<noteq> - (2 ^ 63)"
  shows "absoluteMinor v = Inr (word_of_int \<bar>sint v\<bar>)"
proof -
  have "v \<noteq> min_int64" using assms by auto
  moreover have "- v = word_of_int (- sint v)" by simp
  ultimately show ?thesis by (simp add: absoluteMinor_def word_sless_alt abs_if)
qed

lemma absoluteDifference_exact:
  assumes "moderate left" and "moderate right"
  shows "absoluteDifference left right = Inr (word_of_int (amount_apart left right))"
proof -
  have fit: "in_int64 (sint left - sint right)" "sint left - sint right \<noteq> - (2 ^ 63)"
    using assms by (auto simp: moderate_def in_int64_def)
  then have "sint (left - right) = sint left - sint right" by (intro sint_minus)
  then show ?thesis using fit absoluteMinor_exact[of "left - right"]
    by (simp add: absoluteDifference_def sub_overflows_iff amount_apart_def)
qed

lemma amount_apart_fits: "moderate left \<Longrightarrow> moderate right \<Longrightarrow> sint (word_of_int (amount_apart left right) :: int64) = amount_apart left right"
  by (rule sint_of_int) (auto simp: moderate_def amount_apart_def in_int64_def)

definition fuzzy_close :: "int64 \<Rightarrow> int64 \<Rightarrow> uint8 \<Rightarrow> bool" where
  "fuzzy_close paid ordered places \<longleftrightarrow> sint ordered < sint paid \<and> sint paid < 0
     \<and> (sint paid - sint ordered \<le> 15 * 10 ^ unat places \<or> sint paid - sint ordered \<le> - sint ordered div 10)"

lemma sint_div_pos: "0 \<le> sint (w :: int64) \<Longrightarrow> sint (w div 10) = sint w div 10"
proof -
  assume w: "0 \<le> sint w"
  have u: "uint w = sint w" using unat_nonneg[OF w] by (metis uint_nat)
  have "uint (10 :: int64) = 10" by simp
  then have "uint (w div 10) = sint w div 10" by (simp only: uint_div u)
  then have "w div 10 = word_of_int (sint w div 10)" by (metis word_of_int_uint)
  moreover have "0 \<le> sint w div 10" "sint w div 10 \<le> sint w" using w by linarith+
  then have "in_int64 (sint w div 10)" using sint_upper[of w] by (simp add: in_int64_def)
  ultimately show ?thesis using sint_of_int by metis
qed

lemma absoluteMinor_moderate:
  assumes "moderate v"
  obtains w where "absoluteMinor v = Inr w" "sint w = \<bar>sint v\<bar>"
proof -
  have "in_int64 \<bar>sint v\<bar>" "sint v \<noteq> - (2 ^ 63)" using assms by (auto simp: moderate_def in_int64_def)
  then show ?thesis using that absoluteMinor_exact sint_of_int by metis
qed

lemma amazonFuzzyMatch_exact:
  assumes "moderate paid" and "moderate ordered" and "unat places \<le> 17"
  shows "amazonFuzzyMatch paid ordered places = Inr (fuzzy_close paid ordered places)"
proof -
  obtain p where p: "absoluteMinor paid = Inr p" "sint p = \<bar>sint paid\<bar>" by (rule absoluteMinor_moderate[OF assms(1)])
  obtain q where q: "absoluteMinor ordered = Inr q" "sint q = \<bar>sint ordered\<bar>" by (rule absoluteMinor_moderate[OF assms(2)])
  have eq: "amazonFuzzyMatch paid ordered places = (if 0 \<le> sint paid \<or> 0 \<le> sint ordered then Inr False
      else if \<bar>sint ordered\<bar> \<le> \<bar>sint paid\<bar> then Inr False
      else case checkedPower10 places of Inl _ \<Rightarrow> Inl AmazonFuzzyOverflow
        | Inr u \<Rightarrow> if max_int64 div 15 <s u then Inl AmazonFuzzyOverflow
            else if sint (q - p) \<le> sint (u * 15) then Inr True else Inr (sint (q - p) \<le> sint (q div 10)))"
    unfolding amazonFuzzyMatch_def Let_def word_sle_eq by (simp add: p q)
  show ?thesis
  proof (cases "sint paid < 0 \<and> sint ordered < sint paid")
    case False
    then show ?thesis unfolding eq by (auto simp: fuzzy_close_def)
  next
    case True
    obtain u where u: "checkedPower10 places = Inr u" "sint u = 10 ^ unat places"
      by (rule checkedPower10_exact[of places]) (use assms(3) in simp_all)
    have "(10::int) ^ unat places \<le> 10 ^ 17" by (rule power_increasing) (use assms(3) in simp_all)
    then have small: "0 < sint u" "sint u \<le> 10 ^ 17" unfolding u(2) by simp_all
    have "sint (q - p) = sint paid - sint ordered"
      using True assms(1,2) by (subst sint_minus) (simp_all add: p q moderate_def in_int64_def)
    moreover have "sint (u * 15) = sint u * 15" using small by (subst sint_times) (simp_all add: in_int64_def)
    then have "sint (u * 15) = 15 * 10 ^ unat places" by (simp add: u(2))
    moreover have "sint (q div 10) = - sint ordered div 10"
      using True by (subst sint_div_pos) (simp_all add: q(2))
    moreover have "\<not> max_int64 div 15 <s u" using small by (simp add: word_sless_alt sint_div_max)
    ultimately show ?thesis using True unfolding eq by (simp add: u(1) fuzzy_close_def)
  qed
qed

subsection \<open>Days\<close>

definition days_apart :: "date \<Rightarrow> date \<Rightarrow> int" where
  "days_apart left right = \<bar>date_number left - date_number right\<bar>"

lemma amazonDateDistance_exact:
  assumes "valid_date left" and "valid_date right"
  shows "amazonDateDistance left right = min (days_apart left right) 106751"
proof -
  let ?n = "date_number left - date_number right"
  have seconds: "unix_time (time_date (year left) (month left) (day left))
      - unix_time (time_date (year right) (month right) (day right)) = ?n * 86400"
    unfolding time_date_valid[OF assms(1)] time_date_valid[OF assms(2)] by (simp add: unix_time_def)
  have sub: "time_sub (unix_time (time_date (year left) (month left) (day left)))
      (unix_time (time_date (year right) (month right) (day right)))
      = max (- (2 ^ 63)) (min (2 ^ 63 - 1) (?n * 86400000000000))" (is "_ = ?t")
    by (simp add: time_sub_def seconds)
  have "\<bar>go_div ?t 86400000000000\<bar> = min \<bar>?n\<bar> 106751"
  proof -
    consider "\<bar>?n\<bar> \<le> 106751" | "?n > 106751" | "?n < - 106751" by linarith
    then show ?thesis
    proof cases
      case 1
      then have "?t = ?n * 86400000000000" by auto
      then show ?thesis using 1 go_div_mult[of 86400000000000 ?n] by simp
    next
      case 2
      then have "?t = 2 ^ 63 - 1" by auto
      then show ?thesis using 2 by (simp add: go_div_def)
    next
      case 3
      then have "?t = - (2 ^ 63)" by auto
      then show ?thesis using 3 by (simp add: go_div_def)
    qed
  qed
  then show ?thesis by (auto simp: amazonDateDistance_def sub days_apart_def Let_def abs_if)
qed

lemma amazonDateDistance_window:
  assumes "valid_date left" and "valid_date right"
  shows "amazonMatchWindowDays < amazonDateDistance left right \<longleftrightarrow> 7 < days_apart left right"
    and "days_apart left right \<le> 7 \<Longrightarrow> amazonDateDistance left right = days_apart left right"
  by (auto simp: amazonMatchWindowDays_def amazonDateDistance_exact[OF assms])

subsection \<open>What the passes find\<close>

definition order_matches :: "transaction \<Rightarrow> amazon_class \<Rightarrow> amazon_order \<Rightarrow> bool" where
  "order_matches t class order \<longleftrightarrow> days_apart (trans_date t) (order_date order) \<le> 7
     \<and> (case class of
          AmazonMatchExactOrder \<Rightarrow>
            amount_apart (minor (trans_amount t)) (order_total order) \<le> exact_tolerance (order_scale order)
        | AmazonMatchFuzzyOrder \<Rightarrow> fuzzy_close (minor (trans_amount t)) (order_total order) (order_scale order)
        | AmazonMatchExactItem \<Rightarrow> False)"

definition matched_order :: "transaction \<Rightarrow> amazon_class \<Rightarrow> amazon_order \<Rightarrow> amazon_match" where
  "matched_order t class order =
     (let days = days_apart (trans_date t) (order_date order);
          difference = amount_apart (minor (trans_amount t)) (order_total order) in
      order_match order class
        (if class = AmazonMatchExactOrder
         then if days \<le> 2 \<and> difference < cent_threshold (order_scale order)
           then AmazonConfidenceHigh else AmazonConfidenceMedium
         else AmazonConfidenceLikely) days (word_of_int difference))"

definition item_matches :: "transaction \<Rightarrow> amazon_order \<Rightarrow> amazon_item \<Rightarrow> bool" where
  "item_matches t order i \<longleftrightarrow> days_apart (trans_date t) (item_date i) \<le> 7
     \<and> amount_apart (minor (trans_amount t)) (item_amount i) \<le> exact_tolerance (order_scale order)"

definition matched_item :: "transaction \<Rightarrow> amazon_order \<Rightarrow> amazon_item \<Rightarrow> amazon_match" where
  "matched_item t order i = item_match order i (days_apart (trans_date t) (item_date i))
     (word_of_int (amount_apart (minor (trans_amount t)) (item_amount i)))"

definition candidates :: "transaction \<Rightarrow> amazon_class \<Rightarrow> amazon_order list \<Rightarrow> amazon_match list" where
  "candidates t class orders =
     (if class = AmazonMatchExactItem
      then concat (map (\<lambda>order. map (matched_item t order) (filter (item_matches t order) (order_items order))) orders)
      else map (matched_order t class) (filter (order_matches t class) orders))"

text \<open>The candidates of the first pass that has any; none for income.\<close>

definition first_found :: "transaction \<Rightarrow> amazon_order list \<Rightarrow> amazon_match list" where
  "first_found t orders =
     (if 0 \<le> sint (minor (trans_amount t)) then []
      else if candidates t AmazonMatchExactOrder orders \<noteq> [] then candidates t AmazonMatchExactOrder orders
      else if candidates t AmazonMatchFuzzyOrder orders \<noteq> [] then candidates t AmazonMatchFuzzyOrder orders
      else candidates t AmazonMatchExactItem orders)"

definition order_ok :: "amazon_order \<Rightarrow> bool" where
  "order_ok order \<longleftrightarrow> valid_date (order_date order) \<and> moderate (order_total order) \<and> unat (order_scale order) \<le> 17
     \<and> (\<forall>i\<in>set (order_items order). valid_date (item_date i) \<and> moderate (item_amount i))"

lemma matchAmazonOrder_exact:
  assumes "valid_date (trans_date t)" "moderate (minor (trans_amount t))" "order_ok order"
    and kind: "class \<noteq> AmazonMatchExactItem"
  shows "matchAmazonOrder t order class =
    Inr (if order_matches t class order then Some (matched_order t class order) else None)"
proof -
  let ?days = "days_apart (trans_date t) (order_date order)"
  let ?apart = "amount_apart (minor (trans_amount t)) (order_total order)"
  have o: "valid_date (order_date order)" "moderate (order_total order)" "unat (order_scale order) \<le> 17"
    using assms(3) by (simp_all add: order_ok_def)
  obtain tol where tol: "amazonExactTolerance (order_scale order) = Inr tol" "sint tol = exact_tolerance (order_scale order)"
    by (rule amazonExactTolerance_exact[OF o(3)])
  obtain cent where cent: "amazonCentThreshold (order_scale order) = Inr cent" "sint cent = cent_threshold (order_scale order)"
    by (rule amazonCentThreshold_exact[OF o(3)])
  note apart = absoluteDifference_exact[OF assms(2) o(2)] amount_apart_fits[OF assms(2) o(2)]
  note window = amazonDateDistance_window[OF assms(1) o(1)]
  show ?thesis
  proof (cases "?days \<le> 7")
    case False
    then show ?thesis by (simp add: matchAmazonOrder_def window(1) order_matches_def Let_def)
  next
    case True
    then show ?thesis using kind
      by (cases "class")
        (auto simp: matchAmazonOrder_def window(2) amazonMatchWindowDays_def order_matches_def matched_order_def Let_def apart tol cent
          amazonFuzzyMatch_exact[OF assms(2) o(2,3)] word_sle_eq word_sless_alt)
  qed
qed

lemma matchAmazonItems_exact:
  assumes "valid_date (trans_date t)" "moderate (minor (trans_amount t))" "order_ok order"
  shows "matchAmazonItems t order = Inr (map (matched_item t order) (filter (item_matches t order) (order_items order)))"
proof -
  have o: "unat (order_scale order) \<le> 17" "\<forall>i\<in>set (order_items order). valid_date (item_date i) \<and> moderate (item_amount i)"
    using assms(3) by (simp_all add: order_ok_def)
  obtain tol where tol: "amazonExactTolerance (order_scale order) = Inr tol" "sint tol = exact_tolerance (order_scale order)"
    by (rule amazonExactTolerance_exact[OF o(1)])
  have step: "matchAmazonItem t order tol found i =
      Inr (found @ (if item_matches t order i then [matched_item t order i] else []))"
    if "valid_date (item_date i)" "moderate (item_amount i)" for i found
    using that amazonDateDistance_window[OF assms(1) that(1)]
    by (auto simp: matchAmazonItem_def Let_def absoluteDifference_exact[OF assms(2)] amount_apart_fits[OF assms(2)]
        word_sless_alt tol(2) item_matches_def matched_item_def)
  have "fold_result (matchAmazonItem t order tol) found xs =
      Inr (found @ map (matched_item t order) (filter (item_matches t order) xs))"
    if "\<forall>i\<in>set xs. valid_date (item_date i) \<and> moderate (item_amount i)" for xs found
    using that by (induction xs arbitrary: found) (simp_all add: step)
  with o(2) show ?thesis by (simp add: matchAmazonItems_def tol(1))
qed

lemma match_step_candidates:
  assumes "valid_date (trans_date t)" "moderate (minor (trans_amount t))" "\<forall>order\<in>set orders. order_ok order"
  shows "fold_result (match_step t class) found orders = Inr (found @ candidates t class orders)"
  using assms(3)
proof (induction orders arbitrary: found)
  case Nil
  then show ?case by (simp add: candidates_def)
next
  case (Cons order orders)
  have "match_step t class found order = Inr (found @ candidates t class [order])"
    using Cons.prems
    by (simp add: match_step_def candidates_def matchAmazonItems_exact[OF assms(1,2)] matchAmazonOrder_exact[OF assms(1,2)])
  moreover have "candidates t class (order # orders) = candidates t class [order] @ candidates t class orders"
    by (simp add: candidates_def)
  ultimately show ?case using Cons by simp
qed

definition best_of :: "int \<Rightarrow> amazon_match list \<Rightarrow> amazon_result" where
  "best_of limit found = \<lparr>result_matches = take (nat limit) (stable_sort (\<lambda>l r. compareAmazonMatches l r < 0) found),
     result_total = int (length found)\<rparr>"

lemma take_limit: "length xs = n \<Longrightarrow> take (nat (min limit (int n))) xs = take (nat limit) xs"
  by (auto simp: min_def)

lemma MatchAmazonOrders_run:
  assumes "valid_date (trans_date t)" "moderate (minor (trans_amount t))" "1 \<le> limit"
    and "\<forall>order\<in>set (compatible_orders t indexes). order_ok order"
  shows "MatchAmazonOrders t indexes limit = Inr (best_of limit (first_found t (compatible_orders t indexes)))"
proof -
  let ?orders = "compatible_orders t indexes"
  have step: "match_passes t ?orders limit (c # cs) =
      (if candidates t c ?orders = [] then match_passes t ?orders limit cs
       else Inr (best_of limit (candidates t c ?orders)))" for c cs
    using assms(3)
    by (simp add: match_step_candidates[OF assms(1,2,4)] best_of_def Let_def take_limit)
  have none: "match_passes t ?orders limit [] = Inr (best_of limit [])" by (simp add: best_of_def no_matches_def)
  show ?thesis
    using assms(3) none by (simp add: MatchAmazonOrders_def step first_found_def word_sle_eq no_matches_def best_of_def del: match_passes.simps)
qed

lemma compareAmazonMatches_then:
  "compareAmazonMatches = then_compare (\<lambda>l r. match_days l - match_days r)
     (then_compare (\<lambda>l r. compare_values (sint (match_difference l)) (sint (match_difference r)))
     (then_compare (\<lambda>l r. compare_values (match_profile l) (match_profile r))
     (then_compare (\<lambda>l r. compare_values (match_order l) (match_order r))
       (\<lambda>l r. compare_values (first_item l) (first_item r)))))"
  by (auto simp: fun_eq_iff compareAmazonMatches_def then_compare_def Let_def word_sless_alt compare_values_def)

lemma comparison_difference: "comparison (\<lambda>l r. f l - f r :: int)"
  by unfold_locales simp_all

interpretation amazon_order: comparison compareAmazonMatches
  unfolding compareAmazonMatches_then by (intro comparison_then comparison_values comparison_difference)

subsection \<open>The orders of a source\<close>

definition order_ids :: "amazon_source \<Rightarrow> string set" where
  "order_ids source = item_order ` set (source_items source) - {''''}"

definition items_of :: "amazon_source \<Rightarrow> string \<Rightarrow> amazon_item list" where
  "items_of source ident = sort_key item_id (filter (\<lambda>i. item_order i = ident) (source_items source))"

definition total_of :: "amazon_item list \<Rightarrow> int" where
  "total_of items = sum_list (map (\<lambda>i. sint (item_amount i)) items)"

definition totals_in_range :: "amazon_item list \<Rightarrow> bool" where
  "totals_in_range items \<longleftrightarrow> (\<forall>n\<le>length items. in_int64 (total_of (take n items)))"

definition order_of :: "amazon_source \<Rightarrow> string \<Rightarrow> amazon_order" where
  "order_of source ident = (let items = items_of source ident in
     \<lparr>order_profile = source_profile source, order_revision = source_revision source,
      order_currency = source_currency source, order_scale = source_scale source, order_id = ident,
      order_date = Min (item_date ` set items), order_total = word_of_int (total_of items), order_items = items\<rparr>)"

lemma total_fold:
  assumes "\<forall>i\<in>set items. valid_date (item_date i)" and "valid_date d"
  shows "fold_result total_step (w, d) items = Inr r \<longleftrightarrow>
    (\<forall>n\<le>length items. in_int64 (sint w + total_of (take n items)))
    \<and> r = (word_of_int (sint w + total_of items), Min (insert d (item_date ` set items)))"
  using assms
proof (induction items arbitrary: w d)
  case Nil
  then show ?case by (auto simp: total_of_def)
next
  case (Cons i items)
  let ?d = "if date_compare (item_date i) d < 0 then item_date i else d"
  have v: "valid_date (item_date i)" "\<forall>i\<in>set items. valid_date (item_date i)" using Cons.prems by simp_all
  have d: "?d = min (item_date i) d" using v(1) Cons.prems(2) by (auto simp: date_compare_valid min_def order.order_iff_strict)
  then have vd: "valid_date ?d" using v(1) Cons.prems(2) by (simp add: min_def)
  have least: "Min (insert ?d (item_date ` set items)) = Min (insert d (item_date ` set (i # items)))"
    unfolding d by (cases items) (simp_all add: min.assoc[symmetric] min.commute)
  have sums: "(\<forall>n\<le>length (i # items). in_int64 (sint w + total_of (take n (i # items)))) \<longleftrightarrow>
      in_int64 (sint w + sint (item_amount i))
      \<and> (\<forall>n\<le>length items. in_int64 (sint w + sint (item_amount i) + total_of (take n items)))" (is "?L \<longleftrightarrow> ?R")
  proof
    assume L: ?L
    have "in_int64 (sint w + sint (item_amount i) + total_of (take n items))" if "n \<le> length items" for n
      using L[rule_format, of "Suc n"] that by (simp add: total_of_def add.assoc)
    from this this[of 0] show ?R by (simp add: total_of_def)
  next
    assume R: ?R
    show ?L
    proof (intro allI impI)
      fix n assume "n \<le> length (i # items)"
      then show "in_int64 (sint w + total_of (take n (i # items)))"
        using R by (cases n) (simp_all add: total_of_def add.assoc)
    qed
  qed
  show ?case
  proof (cases "in_int64 (sint w + sint (item_amount i))")
    case False
    then show ?thesis unfolding sums by (simp add: total_step_def add_overflows_iff)
  next
    case True
    note IH = Cons.IH[OF v(2) vd, of "w + item_amount i", unfolded sint_plus[OF True] least]
    have "fold_result total_step (w, d) (i # items) = fold_result total_step (w + item_amount i, ?d) items"
      using True by (simp add: total_step_def add_overflows_iff)
    with IH True show ?thesis unfolding sums by (simp add: total_of_def add.assoc)
  qed
qed

lemma items_by_order_table:
  obtains table where "items_by_order items = Inr table" "distinct (map fst table)"
    "\<forall>k. map_of table k = (let us = filter (\<lambda>i. item_order i = k) (filter (\<lambda>i. item_order i \<noteq> '''') items) in
       if us = [] then None else Some us)"
proof -
  let ?items = "filter (\<lambda>i. item_order i \<noteq> '''') items"
  have bucket: "bucket (\<lambda>_. []) (\<lambda>v _. v) (\<lambda>v i. Inr (v @ [i])) t us = (Inr (t # us) :: amazon_error + _)" for t us
    by (induction us rule: rev_induct) (simp_all add: bucket_snoc, simp add: bucket_def)
  let ?b = "bucket_of item_order (\<lambda>_. []) (\<lambda>v _. v) (\<lambda>v i. Inr (v @ [i])) ?items :: _ \<Rightarrow> (amazon_error + _) option"
  have b: "?b k = (let us = filter (\<lambda>i. item_order i = k) ?items in if us = [] then None else Some (Inr us))" for k
    unfolding bucket_of_def bucket Let_def by (simp split: list.split)
  have "\<forall>k r. ?b k = Some r \<longrightarrow> is_ok r" unfolding b by (auto simp: Let_def split: if_splits)
  then have "is_ok (items_by_order items)" using accumulate_table unfolding items_by_order_def by blast
  then obtain table where table: "items_by_order items = Inr table" by (auto simp: is_ok_iff)
  note facts = accumulate_table[THEN conjunct2, rule_format, OF table[unfolded items_by_order_def]]
  have m: "?b k = map_option Inr (map_of table k)" for k by (rule facts[THEN conjunct2, THEN spec])
  have "map_of table k = (let us = filter (\<lambda>i. item_order i = k) ?items in if us = [] then None else Some us)" for k
    using m[of k] unfolding b by (cases "map_of table k") (auto simp: Let_def split: if_splits)
  then show thesis using that[OF table facts[THEN conjunct1]] by blast
qed

lemma insert_by_key: "insert_by (\<lambda>l r. compare_values (f l) (f r) < 0) x ys = insort_key f x ys"
  by (induction ys) (auto simp: not_less)

lemma sort_by_key: "stable_sort (\<lambda>l r. compare_values (f l) (f r) < 0) xs = sort_key f xs"
  unfolding stable_sort_def sort_key_def insert_by_key ..

lemma index_order_exact:
  assumes "\<forall>i\<in>set (source_items source). valid_date (item_date i)" and "ident \<in> order_ids source"
    and "us = filter (\<lambda>i. item_order i = ident) (filter (\<lambda>i. item_order i \<noteq> '''') (source_items source))"
  shows "index_order source (ident, us) = Inr ord \<longleftrightarrow>
    totals_in_range (items_of source ident) \<and> ord = order_of source ident"
proof -
  let ?items = "items_of source ident"
  have "us = filter (\<lambda>i. item_order i = ident) (source_items source)"
    unfolding assms(3) using assms(2) by (auto simp: order_ids_def intro: filter_cong)
  then have sorted: "stable_sort (\<lambda>l r. compare_values (item_id l) (item_id r) < 0) us = ?items"
    unfolding items_of_def by (simp only: sort_by_key)
  have set: "set ?items = {i \<in> set (source_items source). item_order i = ident}" by (simp add: items_of_def)
  then have "set ?items \<noteq> {}" using assms(2) by (auto simp: order_ids_def)
  then have hd: "?items ! 0 \<in> set ?items" by (simp add: nth_mem)
  have valid: "\<forall>i\<in>set ?items. valid_date (item_date i)" "valid_date (item_date (?items ! 0))"
    using assms(1) set hd by auto
  have "insert (item_date (?items ! 0)) (item_date ` set ?items) = item_date ` set ?items" using hd by blast
  then have "fold_result total_step (0, item_date (?items ! 0)) ?items = Inr r \<longleftrightarrow> totals_in_range ?items
      \<and> r = (word_of_int (total_of ?items), Min (item_date ` set ?items))" for r
    using total_fold[OF valid, of 0 r] by (simp add: totals_in_range_def)
  then show ?thesis
    unfolding index_order_def prod.case sorted Let_def bind_result_Inr by (auto simp: order_of_def Let_def)
qed

text \<open>
  C32. \<open>IndexAmazonOrders\<close> succeeds exactly when no partial sum of an order's amounts, added in the
  order of the item identities, leaves \<open>int64\<close>.  The index then holds one order for every order
  identity of the source except the empty one, in increasing order; each order holds all its items
  sorted by identity, their exact total and their earliest date.
\<close>

theorem IndexAmazonOrders_exact:
  assumes "\<forall>i\<in>set (source_items source). valid_date (item_date i)"
  shows "IndexAmazonOrders source = Inr index \<longleftrightarrow>
    (\<forall>ident\<in>order_ids source. totals_in_range (items_of source ident))
    \<and> index = \<lparr>index_profile = source_profile source, index_revision = source_revision source,
        index_currency = source_currency source, index_scale = source_scale source,
        index_orders = map (order_of source) (sorted_list_of_set (order_ids source))\<rparr>"
proof -
  obtain table where table: "items_by_order (source_items source) = Inr table" "distinct (map fst table)"
    "\<forall>k. map_of table k = (let us = filter (\<lambda>i. item_order i = k)
       (filter (\<lambda>i. item_order i \<noteq> '''') (source_items source)) in if us = [] then None else Some us)"
    by (rule items_by_order_table[of "source_items source"])
  have "k \<in> set (map fst table) \<longleftrightarrow> k \<in> order_ids source" for k
  proof -
    have "k \<in> set (map fst table) \<longleftrightarrow> map_of table k \<noteq> None" by (simp add: map_of_eq_None_iff)
    then show ?thesis unfolding table(3)[rule_format] by (auto simp: order_ids_def filter_empty_conv Let_def)
  qed
  then have keys: "sort (map fst table) = sorted_list_of_set (order_ids source)"
    using table(2) by (metis sorted_list_of_set_sort_remdups distinct_remdups_id set_eqI)
  let ?us = "\<lambda>k. filter (\<lambda>i. item_order i = k) (filter (\<lambda>i. item_order i \<noteq> '''') (source_items source))"
  have look: "the (map_of table k) = ?us k" if "k \<in> order_ids source" for k
    using that unfolding table(3)[rule_format] by (auto simp: order_ids_def filter_empty_conv Let_def)
  have fin: "finite (order_ids source)" by (simp add: order_ids_def)
  have one: "index_order source (ident, the (map_of table ident)) = Inr ord \<longleftrightarrow>
      totals_in_range (items_of source ident) \<and> ord = order_of source ident" if "ident \<in> order_ids source" for ident ord
    unfolding look[OF that] by (rule index_order_exact[OF assms that refl])
  have "map_result (\<lambda>ident. index_order source (ident, the (map_of table ident))) (sorted_list_of_set (order_ids source)) = Inr orders
      \<longleftrightarrow> (\<forall>ident\<in>order_ids source. totals_in_range (items_of source ident))
        \<and> orders = map (order_of source) (sorted_list_of_set (order_ids source))" for orders
  proof -
    have "list_all2 (\<lambda>k v. index_order source (k, the (map_of table k)) = Inr v) ks orders \<longleftrightarrow>
        (\<forall>k\<in>set ks. totals_in_range (items_of source k)) \<and> orders = map (order_of source) ks"
      if "set ks \<subseteq> order_ids source" for ks
      using that
    proof (induction ks arbitrary: orders)
      case (Cons k ks)
      then show ?case by (cases orders) (auto simp: one)
    qed simp
    then show ?thesis using fin by (simp add: map_result_Inr)
  qed
  then show ?thesis by (auto simp: IndexAmazonOrders_def table(1) keys bind_result_Inr)
qed

definition amazon_example_item :: "string \<Rightarrow> string \<Rightarrow> date \<Rightarrow> int64 \<Rightarrow> amazon_item" where
  "amazon_example_item ident ord d amount = \<lparr>item_id = ident, item_order = ord, item_product = ''Cable'',
     item_date = d, item_amount = amount, item_asin = '''', item_quantity = 1, item_order_status = '''',
     item_shipment_status = '''', item_unit_price = None\<rparr>"

definition amazon_example :: amazon_source where
  "amazon_example = \<lparr>source_profile = ''p'', source_revision = 3, source_currency = ''USD'', source_scale = 2,
     source_items = [amazon_example_item ''i2'' ''o1'' (Date 2024 3 2) (- 500),
       amazon_example_item ''i1'' ''o1'' (Date 2024 3 1) (- 700), amazon_example_item ''i3'' '''' (Date 2024 3 1) (- 1)]\<rparr>"

theorem IndexAmazonOrders_exact_witness:
  "\<exists>index. IndexAmazonOrders amazon_example = Inr index
    \<and> map order_id (index_orders index) = map order_id (map (order_of amazon_example) (sorted_list_of_set (order_ids amazon_example)))"
proof -
  have "list_all (\<lambda>i. valid_date (item_date i)) (source_items amazon_example)" by code_simp
  then have valid: "\<forall>i\<in>set (source_items amazon_example). valid_date (item_date i)" by (simp add: list_all_iff)
  have "is_ok (IndexAmazonOrders amazon_example)" by code_simp
  then obtain index where index: "IndexAmazonOrders amazon_example = Inr index" by (auto simp: is_ok_iff)
  with IndexAmazonOrders_exact[OF valid, of index] show ?thesis by auto
qed

text \<open>
  C33. For an expense and amounts below \<open>2 ^ 62\<close> in currencies of at most 17 decimal places, matching
  never fails.  It returns the \<open>limit\<close> nearest candidates, in order, of the first pass that has any
  candidate among the orders of the same currency and scale, and their total number; a candidate of
  the passes is exactly an order within seven days whose total differs by at most two cents, one
  whose larger total differs by at most 15 units or a tenth, and an item within seven days and two cents.
\<close>

theorem MatchAmazonOrders_exact:
  assumes "valid_date (trans_date t)" "moderate (minor (trans_amount t))" "1 \<le> limit"
    and "\<forall>index\<in>set indexes. \<forall>ord\<in>set (index_orders index). order_ok ord"
  shows "\<exists>r rest. MatchAmazonOrders t indexes limit = Inr r
    \<and> mset (first_found t (compatible_orders t indexes)) = mset (result_matches r) + rest
    \<and> result_total r = int (length (first_found t (compatible_orders t indexes)))
    \<and> length (result_matches r) = min (nat limit) (length (first_found t (compatible_orders t indexes)))
    \<and> sorted_wrt (\<lambda>a b. compareAmazonMatches a b \<le> 0) (result_matches r)
    \<and> (\<forall>a\<in>set (result_matches r). \<forall>b\<in>#rest. compareAmazonMatches a b \<le> 0)"
proof -
  let ?found = "first_found t (compatible_orders t indexes)"
  let ?sorted = "stable_sort (\<lambda>l r. compareAmazonMatches l r < 0) ?found"
  have "\<forall>ord\<in>set (compatible_orders t indexes). order_ok ord"
    using assms(4) by (auto simp: compatible_orders_def)
  note run = MatchAmazonOrders_run[OF assms(1-3) this]
  have "sorted_wrt (\<lambda>a b. \<not> compareAmazonMatches b a < 0) ?sorted" by (rule amazon_order.asc.sorted_stable_sort)
  then have sorted: "sorted_wrt (\<lambda>a b. compareAmazonMatches a b \<le> 0) ?sorted"
    by (rule sorted_wrt_mono_rel[rotated]) (metis amazon_order.swap neg_less_0_iff_less not_less)
  have split: "mset ?found = mset (take (nat limit) ?sorted) + mset (drop (nat limit) ?sorted)"
    by (simp only: mset_append[symmetric] append_take_drop_id mset_stable_sort)
  have parts: "sorted_wrt (\<lambda>a b. compareAmazonMatches a b \<le> 0) (take (nat limit) ?sorted @ drop (nat limit) ?sorted)"
    using sorted by simp
  show ?thesis
    by (rule exI[of _ "best_of limit ?found"], rule exI[of _ "mset (drop (nat limit) ?sorted)"])
      (use run split parts[unfolded sorted_wrt_append] in \<open>simp add: best_of_def min.commute\<close>)
qed

definition amazon_example_expense :: transaction where
  "amazon_example_expense = \<lparr>trans_id = ''t1'', trans_provider_id = ''t1'', trans_provider = ''demo'',
     trans_account = \<lparr>ref_id = ''a1'', ref_name = ''Card''\<rparr>, trans_date = Date 2024 3 4,
     trans_merchant = \<lparr>ref_id = ''m1'', ref_name = ''Amazon''\<rparr>,
     trans_category = \<lparr>cref_id = ''c1'', cref_name = ''Shop'', cref_group_id = ''g1'', cref_group = ''Shop''\<rparr>,
     trans_amount = \<lparr>minor = - 1201, currency = ''USD'', scale = 2\<rparr>, trans_notes = '''',
     trans_hidden = False, trans_pending = False, trans_metadata = []\<rparr>"

definition amazon_example_order :: amazon_order where
  "amazon_example_order = \<lparr>order_profile = ''p'', order_revision = 3, order_currency = ''USD'', order_scale = 2,
     order_id = ''o1'', order_date = Date 2024 3 1, order_total = - 1200, order_items = []\<rparr>"

theorem MatchAmazonOrders_exact_witness:
  "\<exists>r. MatchAmazonOrders amazon_example_expense [\<lparr>index_profile = ''p'', index_revision = 3, index_currency = ''USD'',
     index_scale = 2, index_orders = [amazon_example_order]\<rparr>] 5 = Inr r \<and> result_total r = 1"
proof -
  let ?index = "\<lparr>index_profile = ''p'', index_revision = 3, index_currency = ''USD'',
     index_scale = 2, index_orders = [amazon_example_order]\<rparr>"
  have t: "valid_date (trans_date amazon_example_expense)" "moderate (minor (trans_amount amazon_example_expense))"
    by code_simp+
  have o: "order_ok amazon_example_order" unfolding order_ok_def moderate_def by code_simp
  have "length (first_found amazon_example_expense (compatible_orders amazon_example_expense [?index])) = 1" by code_simp
  with MatchAmazonOrders_exact[of amazon_example_expense 5 "[?index]"] t o show ?thesis by auto
qed

end
