(* ===== verification/View_State.thy ===== *)
theory View_State
  imports Query_Spec
begin

text \<open>
  The durable view of a client (\<open>internal/app/view_state.go\<close>): the analytical state with its query,
  the return frames and their validation.  Copying nested values (\<open>Clone\<close>) is the identity.
\<close>

record navigation_scope =
  nav_mode :: result_mode
  nav_size :: int

record analytical_state =
  an_mode :: result_mode
  an_dimension :: dimension
  an_sub :: "dimension option"
  an_granularity :: time_granularity
  an_drilldowns :: "drilldown list"
  an_range :: "date_range option"
  an_search :: string
  an_anchor :: "navigation_scope option"
  an_hidden :: bool
  an_transfers :: bool
  an_currency :: "currency_scope option"
  an_sort :: sort_spec
  an_chosen :: bool

datatype return_kind = ReturnNavigation | ReturnSubgroup | ReturnUnknown string

record return_frame =
  return_kind :: return_kind
  return_state :: analytical_state

record view_state =
  view_version :: uint8
  view_current :: analytical_state
  view_returns :: "return_frame list"

datatype view_error =
    ViewVersion
  | TooManyReturnFrames
  | ViewDimension
  | ViewSubDimension
  | ViewSearchAnchor
  | ViewDrillLabel
  | ViewAnchorMode
  | ViewAnchorSize
  | ViewQuery query_error
  | ViewReturnKind nat
  | ViewReturn nat view_error

definition ViewStateSchemaVersion :: uint8 where
  "ViewStateSchemaVersion = 1"

definition MaxReturnFrames :: nat where
  "MaxReturnFrames = 6"

definition dimensionOrder :: "dimension list" where
  "dimensionOrder = [DimensionMerchant, DimensionCategory, DimensionGroup, DimensionAccount, DimensionTime]"

text \<open>The durable form of a drill path has no display labels.\<close>

definition stableDrilldowns :: "drilldown list \<Rightarrow> drilldown list" where
  "stableDrilldowns = map (\<lambda>d. d\<lparr>drill_label := ''''\<rparr>)"

definition analyticalQuerySpec :: "analytical_state \<Rightarrow> query_spec" where
  "analyticalQuerySpec state =
     (let mode = (if an_sub state \<noteq> None then ResultModeAggregate else an_mode state);
          group_by = (case an_sub state of None \<Rightarrow> an_dimension state | Some d \<Rightarrow> d) in
      \<lparr>query_range = an_range state, query_search = an_search state, query_show_hidden = an_hidden state,
       query_show_transfers = an_transfers state, query_currency = an_currency state,
       query_drilldowns = stableDrilldowns (an_drilldowns state), query_mode = mode, query_group_by = group_by,
       query_granularity = an_granularity state, query_sort = an_sort state\<rparr>)"

definition ValidateScope :: "navigation_scope \<Rightarrow> view_error + unit" where
  "ValidateScope scope =
     (if \<not> mode_valid (nav_mode scope) then Inl ViewAnchorMode
      else if nav_size scope < 0 \<or> nav_size scope > int (length dimensionOrder) then Inl ViewAnchorSize
      else Inr ())"

definition ValidateAnalytical :: "analytical_state \<Rightarrow> view_error + unit" where
  "ValidateAnalytical state =
     (if \<not> dimension_valid (an_dimension state) then Inl ViewDimension
      else if (case an_sub state of None \<Rightarrow> False | Some d \<Rightarrow> \<not> dimension_valid d) then Inl ViewSubDimension
      else if (an_search state = '''') \<noteq> (an_anchor state = None) then Inl ViewSearchAnchor
      else
        bind_result (check_all (\<lambda>d. if drill_label d \<noteq> '''' then Inl ViewDrillLabel else Inr ()) (an_drilldowns state)) (\<lambda>_.
        bind_result (case an_anchor state of None \<Rightarrow> Inr () | Some scope \<Rightarrow> ValidateScope scope) (\<lambda>_.
        map_error ViewQuery (ValidateQuery (analyticalQuerySpec state)))))"

definition ValidateViewState :: "view_state \<Rightarrow> view_error + unit" where
  "ValidateViewState state =
     (if view_version state \<noteq> ViewStateSchemaVersion then Inl ViewVersion
      else if length (view_returns state) > MaxReturnFrames then Inl TooManyReturnFrames
      else
        bind_result (ValidateAnalytical (view_current state)) (\<lambda>_.
        check_all (\<lambda>(index, frame).
          if return_kind frame \<noteq> ReturnNavigation \<and> return_kind frame \<noteq> ReturnSubgroup then Inl (ViewReturnKind index)
          else map_error (ViewReturn index) (ValidateAnalytical (return_state frame)))
          (enumerate 0 (view_returns state))))"

datatype identity_kind = IdentityTransaction | IdentityAggregate | IdentityUnknown string

definition identityKindForState :: "analytical_state \<Rightarrow> identity_kind" where
  "identityKindForState state =
     (if an_sub state \<noteq> None \<or> an_mode state = ResultModeAggregate then IdentityAggregate else IdentityTransaction)"

lemma stable_stable [simp]: "stableDrilldowns (stableDrilldowns ds) = stableDrilldowns ds"
  by (simp add: stableDrilldowns_def)

lemma stable_unlabelled: "\<forall>d\<in>set ds. drill_label d = '''' \<Longrightarrow> stableDrilldowns ds = ds"
  by (induction ds) (auto simp: stableDrilldowns_def)

lemma stable_simps [simp]:
  "length (stableDrilldowns ds) = length ds" "stableDrilldowns [] = []"
  "d \<in> set (stableDrilldowns ds) \<Longrightarrow> drill_label d = ''''"
  by (auto simp: stableDrilldowns_def)

lemma ValidateAnalytical_Inr:
  "is_ok (ValidateAnalytical state) \<longleftrightarrow> dimension_valid (an_dimension state)
     \<and> (\<forall>d. an_sub state = Some d \<longrightarrow> dimension_valid d)
     \<and> (an_search state = '''' \<longleftrightarrow> an_anchor state = None)
     \<and> (\<forall>d\<in>set (an_drilldowns state). drill_label d = '''')
     \<and> (\<forall>scope. an_anchor state = Some scope \<longrightarrow> is_ok (ValidateScope scope))
     \<and> is_ok (ValidateQuery (analyticalQuerySpec state))"
  by (auto simp: ValidateAnalytical_def is_ok_iff bind_result_Inr check_all_Inr split: option.splits)

lemma ValidateViewState_Inr:
  "is_ok (ValidateViewState state) \<longleftrightarrow> view_version state = ViewStateSchemaVersion
     \<and> length (view_returns state) \<le> MaxReturnFrames \<and> is_ok (ValidateAnalytical (view_current state))
     \<and> (\<forall>frame\<in>set (view_returns state). (return_kind frame = ReturnNavigation \<or> return_kind frame = ReturnSubgroup)
         \<and> is_ok (ValidateAnalytical (return_state frame)))"
proof -
  have each: "is_ok (check_all f (enumerate n xs)) \<longleftrightarrow> (\<forall>x\<in>set xs. P x)"
    if "\<And>i x. is_ok (f (i, x)) \<longleftrightarrow> P x" for f :: "nat \<times> return_frame \<Rightarrow> view_error + unit" and P xs n
  proof (induction xs arbitrary: n)
    case (Cons x xs)
    then show ?case using that[of n x] by (cases "f (n, x)") auto
  qed simp
  have "is_ok (check_all (\<lambda>(index, frame).
          if return_kind frame \<noteq> ReturnNavigation \<and> return_kind frame \<noteq> ReturnSubgroup then Inl (ViewReturnKind index)
          else map_error (ViewReturn index) (ValidateAnalytical (return_state frame)))
          (enumerate 0 (view_returns state))) \<longleftrightarrow>
      (\<forall>frame\<in>set (view_returns state). (return_kind frame = ReturnNavigation \<or> return_kind frame = ReturnSubgroup)
         \<and> is_ok (ValidateAnalytical (return_state frame)))"
    by (rule each) (auto simp: is_ok_iff)
  then show ?thesis by (auto simp: ValidateViewState_def is_ok_iff bind_result_Inr)
qed

end
