(* ===== verification/Session.thy ===== *)
theory Session
  imports View_State Analytics_Periods
begin

text \<open>
  The renderer-neutral session (\<open>internal/app/session.go\<close>, \<open>internal/app/navigation.go\<close>): what is
  visible, the selection and the history that Back returns through.  A session extends the snapshot
  that its history keeps; the history grows at its end.  An instant at midnight UTC is its civil date.
\<close>

record view_position =
  pos_cursor :: int
  pos_scroll :: int

datatype history_kind = HistoryNavigation | HistorySubGrouping

record session_snapshot =
  sn_mode :: result_mode
  sn_dimension :: dimension
  sn_sub :: "dimension option"
  sn_granularity :: time_granularity
  sn_chosen :: bool
  sn_drilldowns :: "drilldown list"
  sn_range :: "date_range option"
  sn_search :: string
  sn_hidden :: bool
  sn_transfers :: bool
  sn_currency :: "currency_scope option"
  sn_sort :: sort_spec
  sn_anchor :: "navigation_scope option"

record history_entry =
  entry_snapshot :: session_snapshot
  entry_position :: view_position
  entry_kind :: history_kind

record session = session_snapshot +
  selected_transactions :: "string set"
  selected_aggregates :: "string set"
  history :: "history_entry list"

record filters =
  filter_range :: "date_range option"
  filter_hidden :: bool
  filter_transfers :: bool

datatype session_error =
    DrillMismatch
  | DrillNoPeriod
  | DrillPeriod
  | FilterRangeInvalid
  | FilterRangeReversed
  | GroupingUnknown
  | SubGroupingNotDrilled
  | SubGroupingUnavailable
  | CurrencyRequired
  | CurrencyInvalid
  | SortUnavailable

subsection \<open>Sorts\<close>

definition amountDescending :: sort_spec where
  "amountDescending = \<lparr>sort_by = SortFieldAmount, sort_order = SortDirectionDesc\<rparr>"

definition dateDescending :: sort_spec where
  "dateDescending = \<lparr>sort_by = SortFieldDate, sort_order = SortDirectionDesc\<rparr>"

definition timeAscending :: sort_spec where
  "timeAscending = \<lparr>sort_by = SortFieldTimePeriod, sort_order = SortDirectionAsc\<rparr>"

definition sortFieldForDimension :: "dimension \<Rightarrow> sort_field" where
  "sortFieldForDimension d =
     (case d of
        DimensionMerchant \<Rightarrow> SortFieldMerchant
      | DimensionCategory \<Rightarrow> SortFieldCategory
      | DimensionGroup \<Rightarrow> SortFieldGroup
      | DimensionAccount \<Rightarrow> SortFieldAccount
      | _ \<Rightarrow> SortFieldTimePeriod)"

definition sortForAggregateTransition :: "dimension \<Rightarrow> sort_spec \<Rightarrow> sort_spec" where
  "sortForAggregateTransition d current =
     (if d = DimensionTime then timeAscending
      else if sort_by current = SortFieldCount \<or> sort_by current = SortFieldAmount then current
      else amountDescending)"

definition sortForTopLevelTransition :: "dimension \<Rightarrow> sort_spec \<Rightarrow> sort_spec" where
  "sortForTopLevelTransition d current =
     (if d = DimensionTime then timeAscending
      else if sort_by current = SortFieldTimePeriod then amountDescending
      else if sort_by current = SortFieldCount \<or> sort_by current = SortFieldAmount then current
      else current\<lparr>sort_by := sortFieldForDimension d\<rparr>)"

definition sortForDetailTransition :: "dimension \<Rightarrow> sort_spec \<Rightarrow> sort_spec" where
  "sortForDetailTransition d current =
     (if d = DimensionTime then amountDescending
      else if sort_by current = SortFieldCount then dateDescending
      else if sort_by current \<in> set [SortFieldDate, SortFieldMerchant, SortFieldCategory, SortFieldAccount, SortFieldAmount]
      then current
      else amountDescending)"

definition topLevelSort :: "dimension \<Rightarrow> sort_spec \<Rightarrow> bool \<Rightarrow> sort_spec" where
  "topLevelSort d current fromDetail =
     sortForTopLevelTransition d
       (if fromDetail \<and> sort_by current \<noteq> SortFieldAmount then amountDescending else current)"

definition sortCycle :: "'a session_snapshot_scheme \<Rightarrow> sort_field list" where
  "sortCycle s =
     (if sn_sub s = None \<and> sn_mode s = ResultModeDetail
      then [SortFieldDate, SortFieldMerchant, SortFieldCategory, SortFieldAccount, SortFieldAmount]
      else
        let d = (case sn_sub s of None \<Rightarrow> sn_dimension s | Some d \<Rightarrow> d) in
        if d = DimensionTime then [SortFieldTimePeriod, SortFieldCount, SortFieldAmount]
        else [sortFieldForDimension d, SortFieldCount, SortFieldAmount])"

definition defaultSortDirection :: "sort_field \<Rightarrow> sort_direction" where
  "defaultSortDirection f =
     (if f \<in> set [SortFieldDate, SortFieldCount, SortFieldAmount] then SortDirectionDesc else SortDirectionAsc)"

subsection \<open>The session\<close>

definition NewSession :: session where
  "NewSession = \<lparr>sn_mode = ResultModeAggregate, sn_dimension = DimensionMerchant, sn_sub = None,
     sn_granularity = TimeGranularityYear, sn_chosen = False, sn_drilldowns = [], sn_range = None,
     sn_search = '''', sn_hidden = True, sn_transfers = False, sn_currency = None, sn_sort = amountDescending,
     sn_anchor = None, selected_transactions = {}, selected_aggregates = {}, history = []\<rparr>"

definition QuerySpec :: "'a session_snapshot_scheme \<Rightarrow> query_spec" where
  "QuerySpec s =
     (let mode = (if sn_sub s \<noteq> None then ResultModeAggregate else sn_mode s);
          group_by = (case sn_sub s of None \<Rightarrow> sn_dimension s | Some d \<Rightarrow> d) in
      \<lparr>query_range = sn_range s, query_search = sn_search s, query_show_hidden = sn_hidden s,
       query_show_transfers = sn_transfers s, query_currency = sn_currency s,
       query_drilldowns = sn_drilldowns s, query_mode = mode, query_group_by = group_by,
       query_granularity = sn_granularity s, query_sort = sn_sort s\<rparr>)"

definition snapshot_of :: "session \<Rightarrow> session_snapshot" where
  "snapshot_of s = session_snapshot.truncate s"

definition restore :: "session \<Rightarrow> session_snapshot \<Rightarrow> session" where
  "restore s snapshot = session_snapshot.extend snapshot
     \<lparr>selected_transactions = selected_transactions s, selected_aggregates = selected_aggregates s,
      history = history s\<rparr>"

definition pushHistory :: "history_kind \<Rightarrow> view_position \<Rightarrow> session \<Rightarrow> session" where
  "pushHistory kind position s = s\<lparr>history := history s @
     [\<lparr>entry_snapshot = snapshot_of s, entry_position = position, entry_kind = kind\<rparr>]\<rparr>"

definition session_marker :: "'a session_snapshot_scheme \<Rightarrow> navigation_scope" where
  "session_marker s = \<lparr>nav_mode = sn_mode s, nav_size = int (length (sn_drilldowns s))\<rparr>"

definition clearSelections :: "session \<Rightarrow> session" where
  "clearSelections s = s\<lparr>selected_transactions := {}, selected_aggregates := {}\<rparr>"

definition hasSelection :: "session \<Rightarrow> bool" where
  "hasSelection s \<longleftrightarrow> selected_transactions s \<noteq> {} \<or> selected_aggregates s \<noteq> {}"

definition no_position :: view_position where
  "no_position = \<lparr>pos_cursor = 0, pos_scroll = 0\<rparr>"

definition popHistory :: "session \<Rightarrow> session \<times> view_position" where
  "popHistory s =
     (let entry = last (history s);
          s = s\<lparr>history := butlast (history s)\<rparr>
      in (clearSelections (restore s (entry_snapshot entry)), entry_position entry))"

definition rebaseSearchAnchor :: "session \<Rightarrow> session" where
  "rebaseSearchAnchor s = s\<lparr>sn_anchor := if sn_search s = '''' then None else Some (session_marker s)\<rparr>"

definition leaveDrillPath :: "session \<Rightarrow> session" where
  "leaveDrillPath s = clearSelections (s\<lparr>sn_drilldowns := [], sn_sub := None, history := []\<rparr>)"

definition fromDetailView :: "session \<Rightarrow> bool" where
  "fromDetailView s \<longleftrightarrow> sn_mode s = ResultModeDetail \<and> sn_sub s = None"

definition availableSubGroupings :: "session \<Rightarrow> dimension list" where
  "availableSubGroupings s = filter (\<lambda>d. d \<notin> drill_dimension ` set (sn_drilldowns s)) dimensionOrder"

definition last_kind :: "session \<Rightarrow> history_kind option" where
  "last_kind s = (if history s = [] then None else Some (entry_kind (last (history s))))"

subsection \<open>Groupings\<close>

definition CycleSubGrouping :: "session \<Rightarrow> session" where
  "CycleSubGrouping s =
     (case availableSubGroupings s of
        [] \<Rightarrow> s
      | first # rest \<Rightarrow>
          (case sn_sub s of
             None \<Rightarrow>
               let s = pushHistory HistorySubGrouping no_position s in
               clearSelections (s\<lparr>sn_sub := Some first, sn_sort := sortForAggregateTransition first (sn_sort s)\<rparr>)
           | Some sub \<Rightarrow>
               (case find_index (\<lambda>d. d = sub) (first # rest) of
                  None \<Rightarrow> clearSelections (let s = s\<lparr>sn_sub := None, sn_sort := sortForDetailTransition (sn_dimension s) (sn_sort s)\<rparr> in
                    if last_kind s = Some HistorySubGrouping then s\<lparr>history := butlast (history s)\<rparr> else s)
                | Some current \<Rightarrow>
                    if current = length (first # rest) - 1
                    then clearSelections (let s = s\<lparr>sn_sub := None, sn_sort := sortForDetailTransition (sn_dimension s) (sn_sort s)\<rparr> in
                      if last_kind s = Some HistorySubGrouping then s\<lparr>history := butlast (history s)\<rparr> else s)
                    else let d = (first # rest) ! (current + 1) in
                      clearSelections (s\<lparr>sn_sub := Some d, sn_sort := sortForAggregateTransition d (sn_sort s)\<rparr>))))"

definition dimensionIndex :: "dimension \<Rightarrow> nat" where
  "dimensionIndex d = (case find_index (\<lambda>c. c = d) dimensionOrder of None \<Rightarrow> 0 | Some i \<Rightarrow> i)"

definition CycleGrouping :: "session \<Rightarrow> session" where
  "CycleGrouping s =
     (if length (sn_drilldowns s) > 0 then CycleSubGrouping s
      else if sn_mode s = ResultModeDetail then
        (if last_kind s = Some HistoryNavigation then fst (popHistory s)
         else (clearSelections (s\<lparr>sn_mode := ResultModeAggregate, sn_dimension := DimensionMerchant, sn_sub := None\<rparr>))
           \<lparr>sn_sort := amountDescending\<rparr>)
      else
        let d = dimensionOrder ! ((dimensionIndex (sn_dimension s) + 1) mod length dimensionOrder);
            s = clearSelections (s\<lparr>sn_dimension := d, sn_sub := None\<rparr>)
        in s\<lparr>sn_sort := sortForTopLevelTransition d (sn_sort s)\<rparr>)"

definition ShowAllDetail :: "session \<Rightarrow> session" where
  "ShowAllDetail s =
     (if sn_mode s = ResultModeDetail \<and> sn_sub s = None \<and> length (sn_drilldowns s) = 0 then s
      else clearSelections ((pushHistory HistoryNavigation no_position s)
        \<lparr>sn_mode := ResultModeDetail, sn_sub := None, sn_drilldowns := [], sn_sort := dateDescending\<rparr>))"

definition SwitchAccounts :: "session \<Rightarrow> session" where
  "SwitchAccounts s = clearSelections (s\<lparr>sn_mode := ResultModeAggregate, sn_dimension := DimensionAccount,
     sn_sub := None, sn_drilldowns := [], history := [],
     sn_sort := sortForAggregateTransition DimensionAccount (sn_sort s)\<rparr>)"

definition SetGrouping :: "dimension \<Rightarrow> session \<Rightarrow> session_error + session" where
  "SetGrouping d s =
     (if d \<notin> set dimensionOrder then Inl GroupingUnknown
      else
        let fromDetail = fromDetailView s;
            s = leaveDrillPath (s\<lparr>sn_mode := ResultModeAggregate, sn_dimension := d\<rparr>)
        in Inr (rebaseSearchAnchor (s\<lparr>sn_sort := topLevelSort d (sn_sort s) fromDetail\<rparr>)))"

definition SetSubGrouping :: "dimension \<Rightarrow> session \<Rightarrow> session_error + session" where
  "SetSubGrouping d s =
     (if length (sn_drilldowns s) = 0 then Inl SubGroupingNotDrilled
      else if d \<notin> set (availableSubGroupings s) then Inl SubGroupingUnavailable
      else
        let s = (if sn_sub s = None then pushHistory HistorySubGrouping no_position s else s)
        in Inr (clearSelections (s\<lparr>sn_sub := Some d, sn_sort := sortForAggregateTransition d (sn_sort s)\<rparr>)))"

definition Drill :: "aggregate_row \<Rightarrow> view_position \<Rightarrow> session \<Rightarrow> session_error + session" where
  "Drill row position s =
     (let d = (case sn_sub s of None \<Rightarrow> sn_dimension s | Some d \<Rightarrow> d);
          target = \<lparr>drill_dimension = row_dimension row, drill_currency = currency (row_total row),
            drill_scale = scale (row_total row), drill_key = '''', drill_label = '''', drill_period = None\<rparr>;
          enter = (\<lambda>target. let s = pushHistory HistoryNavigation position s in
            clearSelections (s\<lparr>sn_drilldowns := sn_drilldowns s @ [target], sn_mode := ResultModeDetail, sn_sub := None,
              sn_sort := sortForDetailTransition (row_dimension row) (sn_sort s)\<rparr>)) in
      if row_dimension row \<noteq> d \<or> row_key row = '''' \<or> row_label row = '''' then Inl DrillMismatch
      else if row_dimension row = DimensionTime then
        (case row_period row of
           None \<Rightarrow> Inl DrillNoPeriod
         | Some p \<Rightarrow>
             if \<not> is_ok (ValidatePeriod p) then Inl DrillPeriod
             else Inr (enter (target\<lparr>drill_period := Some p\<rparr>)))
      else Inr (enter (target\<lparr>drill_key := row_key row, drill_label := row_label row\<rparr>)))"

subsection \<open>Sorting, search and time units\<close>

definition ToggleTimeGranularity :: "session \<Rightarrow> session" where
  "ToggleTimeGranularity s = (clearSelections (s\<lparr>sn_chosen := True\<rparr>))\<lparr>sn_granularity :=
     (case sn_granularity s of
        TimeGranularityYear \<Rightarrow> TimeGranularityMonth
      | TimeGranularityMonth \<Rightarrow> TimeGranularityDay
      | _ \<Rightarrow> TimeGranularityYear)\<rparr>"

definition SetSearch :: "string \<Rightarrow> session \<Rightarrow> session" where
  "SetSearch search s =
     (let s = clearSelections (s\<lparr>sn_search := search\<rparr>) in
      s\<lparr>sn_anchor := if search = '''' then None else Some (session_marker s)\<rparr>)"

definition CycleSort :: "session \<Rightarrow> session" where
  "CycleSort s =
     (let choices = sortCycle s;
          following = (case find_index (\<lambda>f. f = sort_by (sn_sort s)) choices of None \<Rightarrow> 0 | Some i \<Rightarrow> i + 1)
      in s\<lparr>sn_sort := (sn_sort s)\<lparr>sort_by := choices ! (following mod length choices)\<rparr>\<rparr>)"

definition ReverseSort :: "session \<Rightarrow> session" where
  "ReverseSort s = s\<lparr>sn_sort := (sn_sort s)\<lparr>sort_order :=
     if sort_order (sn_sort s) = SortDirectionDesc then SortDirectionAsc else SortDirectionDesc\<rparr>\<rparr>"

definition SetSort :: "sort_field \<Rightarrow> session \<Rightarrow> session_error + session" where
  "SetSort f s =
     (if f \<notin> set (sortCycle s) then Inl SortUnavailable
      else if f = sort_by (sn_sort s) then Inr (ReverseSort s)
      else Inr (s\<lparr>sn_sort := \<lparr>sort_by = f, sort_order = defaultSortDirection f\<rparr>\<rparr>))"

definition TimeContext :: "session \<Rightarrow> bool" where
  "TimeContext s \<longleftrightarrow> (case sn_sub s of Some d \<Rightarrow> d = DimensionTime
     | None \<Rightarrow> sn_mode s = ResultModeAggregate \<and> sn_dimension s = DimensionTime)"

definition isTimeDrilldown :: "drilldown \<Rightarrow> bool" where
  "isTimeDrilldown d \<longleftrightarrow> drill_dimension d = DimensionTime"

text \<open>Whether the view is inside one period; the code returns the explanation for the user.\<close>

definition ToggleTimeUnavailable :: "session \<Rightarrow> bool" where
  "ToggleTimeUnavailable s \<longleftrightarrow> \<not> (TimeContext s \<or> \<not> list_ex isTimeDrilldown (sn_drilldowns s))"

definition JumpToTime :: "view_position \<Rightarrow> session \<Rightarrow> session option" where
  "JumpToTime position s =
     (let finish = (\<lambda>s. clearSelections (s\<lparr>sn_sort := sortForAggregateTransition DimensionTime (sn_sort s)\<rparr>)) in
      if sn_mode s = ResultModeAggregate \<and> length (sn_drilldowns s) = 0 \<and> sn_sub s = None
      then Some (finish (s\<lparr>sn_dimension := DimensionTime, sn_sub := None\<rparr>))
      else if list_ex (\<lambda>d. drill_dimension d = DimensionTime) (sn_drilldowns s) then None
      else
        let s = (if sn_sub s = None then pushHistory HistorySubGrouping position s else s)
        in Some (finish (s\<lparr>sn_sub := Some DimensionTime\<rparr>)))"

definition ToggleTime :: "view_position \<Rightarrow> session \<Rightarrow> session option" where
  "ToggleTime position s =
     (if ToggleTimeUnavailable s then None
      else if TimeContext s then Some (ToggleTimeGranularity s)
      else JumpToTime position s)"

subsection \<open>Currency\<close>

definition drillsIn :: "drilldown list \<Rightarrow> currency_scope \<Rightarrow> bool" where
  "drillsIn ds scope \<longleftrightarrow>
     list_all (\<lambda>d. \<not> (drill_currency d \<noteq> scope_currency scope \<or> drill_scale d \<noteq> scope_scale scope)) ds"

definition adoptFirstCurrency :: "currency_scope \<Rightarrow> session \<Rightarrow> session option" where
  "adoptFirstCurrency scope s =
     (if sn_currency s \<noteq> None \<or> length (sn_drilldowns s) = 0 then None
      else if \<not> drillsIn (sn_drilldowns s) scope then None
      else if list_ex (\<lambda>e. \<not> drillsIn (sn_drilldowns (entry_snapshot e)) scope) (history s) then None
      else Some (clearSelections (s\<lparr>sn_currency := Some scope,
        history := map (\<lambda>e. e\<lparr>entry_snapshot := (entry_snapshot e)\<lparr>sn_currency := Some scope\<rparr>\<rparr>) (history s)\<rparr>)))"

definition SetCurrency :: "currency_scope option \<Rightarrow> session \<Rightarrow> session_error + session" where
  "SetCurrency wanted s =
     (case wanted of
        None \<Rightarrow> Inl CurrencyRequired
      | Some scope \<Rightarrow>
          if \<not> IsValidCurrency (scope_currency scope) then Inl CurrencyInvalid
          else if sn_currency s = Some scope then Inr s
          else
            (case adoptFirstCurrency scope s of
               Some s \<Rightarrow> Inr s
             | None \<Rightarrow>
                 let fromDetail = fromDetailView s;
                     hadDrill = 0 < length (sn_drilldowns s);
                     hadSubGrouping = sn_sub s \<noteq> None;
                     s = leaveDrillPath (s\<lparr>sn_currency := Some scope\<rparr>);
                     s = (if hadDrill
                          then s\<lparr>sn_mode := ResultModeAggregate, sn_sort := topLevelSort (sn_dimension s) (sn_sort s) fromDetail\<rparr>
                          else if hadSubGrouping
                          then s\<lparr>sn_sort := sortForDetailTransition (sn_dimension s) (sn_sort s)\<rparr>
                          else s)
                 in Inr (rebaseSearchAnchor s)))"

subsection \<open>Filters and periods\<close>

definition validateDateRange :: "date_range option \<Rightarrow> session_error + unit" where
  "validateDateRange r =
     (case r of
        None \<Rightarrow> Inr ()
      | Some r \<Rightarrow>
          if year (range_start r) = 0 \<or> year (range_end r) = 0 then Inl FilterRangeInvalid
          else if date_compare (range_start r) (range_end r) > 0 then Inl FilterRangeReversed
          else Inr ())"

definition filter_snapshot :: "filters \<Rightarrow> 'a session_snapshot_scheme \<Rightarrow> 'a session_snapshot_scheme" where
  "filter_snapshot f s = s\<lparr>sn_range := filter_range f, sn_hidden := filter_hidden f, sn_transfers := filter_transfers f\<rparr>"

definition applyFilters :: "filters \<Rightarrow> session \<Rightarrow> session" where
  "applyFilters f s = clearSelections ((filter_snapshot f s)
     \<lparr>history := map (\<lambda>e. e\<lparr>entry_snapshot := filter_snapshot f (entry_snapshot e)\<rparr>) (history s)\<rparr>)"

definition forgetChosenTimeGranularity :: "session \<Rightarrow> session" where
  "forgetChosenTimeGranularity s = s\<lparr>sn_chosen := False,
     history := map (\<lambda>e. e\<lparr>entry_snapshot := (entry_snapshot e)\<lparr>sn_chosen := False\<rparr>\<rparr>) (history s)\<rparr>"

text \<open>The loop walks the indexes downwards, so a removal does not move the indexes to come.\<close>

definition remove_time_at ::
    "nat \<Rightarrow> drilldown list \<times> navigation_scope option \<Rightarrow> drilldown list \<times> navigation_scope option" where
  "remove_time_at i = (\<lambda>(ds, anchor).
     if drill_dimension (ds ! i) \<noteq> DimensionTime then (ds, anchor)
     else (take i ds @ drop (i + 1) ds,
       map_option (\<lambda>a. if int i < nav_size a then a\<lparr>nav_size := nav_size a - 1\<rparr> else a) anchor))"

definition removeTimeDrilldowns ::
    "drilldown list \<Rightarrow> navigation_scope option \<Rightarrow> drilldown list \<times> navigation_scope option" where
  "removeTimeDrilldowns ds anchor = fold remove_time_at (rev [0..<length ds]) (ds, anchor)"

definition dropSnapshotTime :: "session_snapshot \<Rightarrow> session_snapshot \<times> bool" where
  "dropSnapshotTime s =
     (let drilled = 0 < length (sn_drilldowns s);
          (ds, anchor) = removeTimeDrilldowns (sn_drilldowns s) (sn_anchor s);
          s = s\<lparr>sn_drilldowns := ds, sn_anchor := anchor\<rparr> in
      case sn_sub s of
        None \<Rightarrow> (s, False)
      | Some sub \<Rightarrow>
          if \<not> drilled \<or> 0 < length (sn_drilldowns s) then (s, False)
          else (s\<lparr>sn_mode := ResultModeAggregate, sn_dimension := sub, sn_sub := None,
            sn_sort := sortForTopLevelTransition sub (sn_sort s),
            sn_anchor := map_option (\<lambda>_. \<lparr>nav_mode = ResultModeAggregate, nav_size = 0\<rparr>) (sn_anchor s)\<rparr>, True))"

text \<open>The entries from the newest to the oldest.\<close>

fun dropHistoryTime :: "bool \<Rightarrow> history_entry list \<Rightarrow> history_entry list" where
  "dropHistoryTime promoted [] = []"
| "dropHistoryTime promoted (e # es) =
     (if promoted \<and> entry_kind e = HistorySubGrouping then dropHistoryTime False es
      else case dropSnapshotTime (entry_snapshot e) of
        (snapshot, promoted) \<Rightarrow> e\<lparr>entry_snapshot := snapshot\<rparr> # dropHistoryTime promoted es)"

definition dropTimeDrilldowns :: "session \<Rightarrow> session" where
  "dropTimeDrilldowns s =
     (case dropSnapshotTime (snapshot_of s) of
        (current, promoted) \<Rightarrow>
          (restore s current)\<lparr>history := rev (dropHistoryTime promoted (rev (history s)))\<rparr>)"

definition SetFilters :: "filters \<Rightarrow> session \<Rightarrow> session_error + session" where
  "SetFilters f s =
     bind_result (validateDateRange (filter_range f)) (\<lambda>_.
       let periodChanged = sn_range s \<noteq> filter_range f;
           s = applyFilters f s
       in Inr (if periodChanged then forgetChosenTimeGranularity (dropTimeDrilldowns s) else s))"

definition applyTimeRange :: "date_range option \<Rightarrow> session \<Rightarrow> session" where
  "applyTimeRange r s = forgetChosenTimeGranularity (dropTimeDrilldowns (applyFilters
     \<lparr>filter_range = r, filter_hidden = sn_hidden s, filter_transfers = sn_transfers s\<rparr> s))"

definition SetTimeRange :: "date_range option \<Rightarrow> session \<Rightarrow> session_error + session" where
  "SetTimeRange r s = bind_result (validateDateRange r) (\<lambda>_. Inr (applyTimeRange r s))"

definition ClearPeriod :: "session \<Rightarrow> session option" where
  "ClearPeriod s =
     (if sn_range s = None \<and> \<not> list_ex isTimeDrilldown (sn_drilldowns s) then None
      else Some (applyTimeRange None s))"

definition CalendarPeriodRange :: "int \<times> int \<times> int \<Rightarrow> time_granularity \<Rightarrow> date_error + date_range" where
  "CalendarPeriodRange anchor g =
     (case anchor of (y, m, d) \<Rightarrow>
        let (m, d, end_month, end_day) =
          (if g = TimeGranularityYear then (1, 1, 12, 31)
           else if g = TimeGranularityMonth then (m, 1, m, snd (snd (time_date y (m + 1) 0)))
           else (m, d, m, d)) in
        bind_result (NewDate y m d) (\<lambda>start.
        bind_result (NewDate y end_month end_day) (\<lambda>stop.
          Inr \<lparr>range_start = start, range_end = stop\<rparr>)))"

definition CalendarPeriod :: "date_range option \<Rightarrow> ((int \<times> int \<times> int) \<times> time_granularity) option" where
  "CalendarPeriod r =
     (case r of
        None \<Rightarrow> None
      | Some r \<Rightarrow>
          let anchor = time_date (year (range_start r)) (month (range_start r)) (day (range_start r)) in
          map_option (\<lambda>g. (anchor, g)) (find (\<lambda>g. CalendarPeriodRange anchor g = Inr r)
            [TimeGranularityYear, TimeGranularityMonth, TimeGranularityDay]))"

definition ShiftCalendarPeriod :: "int \<times> int \<times> int \<Rightarrow> time_granularity \<Rightarrow> int \<Rightarrow> int \<times> int \<times> int" where
  "ShiftCalendarPeriod anchor g delta =
     (case anchor of (y, m, d) \<Rightarrow>
        if g = TimeGranularityDay then time_date y m (d + delta)
        else
          let (y, m) = (if g = TimeGranularityYear then (y + delta, m) else (y, m + delta));
              lastDay = snd (snd (time_date y (m + 1) 0))
          in time_date y m (min d lastDay))"

definition lastTimeDrillPeriod :: "drilldown list \<Rightarrow> ((int \<times> int \<times> int) \<times> time_granularity) option" where
  "lastTimeDrillPeriod ds =
     map_option (\<lambda>d. let p = the (drill_period d) in
         (time_date (period_year p) (max (period_month p) 1) (max (period_day p) 1), period_granularity p))
       (find (\<lambda>d. isTimeDrilldown d \<and> drill_period d \<noteq> None) (rev ds))"

text \<open>\<open>None\<close> is the code's report that nothing changed.\<close>

definition ShiftPeriod :: "int \<Rightarrow> session \<Rightarrow> session_error + session option" where
  "ShiftPeriod delta s =
     (case (case CalendarPeriod (sn_range s) of None \<Rightarrow> lastTimeDrillPeriod (sn_drilldowns s) | Some p \<Rightarrow> Some p) of
        None \<Rightarrow> Inr None
      | Some (anchor, g) \<Rightarrow>
          (case CalendarPeriodRange (ShiftCalendarPeriod anchor g delta) g of
             Inl _ \<Rightarrow> Inr None
           | Inr r \<Rightarrow> bind_result (SetTimeRange (Some r) s) (\<lambda>s. Inr (Some s))))"

subsection \<open>Selection\<close>

text \<open>The identity of a row: the length of the key makes it readable from the left.\<close>

definition AggregateIdentity :: "aggregate_row \<Rightarrow> string" where
  "AggregateIdentity row = dimension_string (row_dimension row) @ '':'' @ format_int (int (length (row_key row))) @ '':''
     @ row_key row @ '':'' @ format_int (uint (scale (row_total row))) @ '':'' @ currency (row_total row)"

definition toggleSetValue :: "string set \<Rightarrow> string \<Rightarrow> string set" where
  "toggleSetValue values identity =
     (if identity = '''' then values
      else if identity \<in> values then values - {identity}
      else insert identity values)"

definition toggleAll :: "string set \<Rightarrow> string list \<Rightarrow> string set" where
  "toggleAll selected visible =
     (let allSelected = 0 < length visible \<and> list_all (\<lambda>identity. identity \<in> selected) visible in
      fold (\<lambda>identity selected. if allSelected then selected - {identity} else insert identity selected) visible selected)"

definition ToggleTransactionSelection :: "string \<Rightarrow> session \<Rightarrow> session" where
  "ToggleTransactionSelection identity s = s\<lparr>selected_transactions := toggleSetValue (selected_transactions s) identity\<rparr>"

definition ToggleAggregateSelection :: "string \<Rightarrow> session \<Rightarrow> session" where
  "ToggleAggregateSelection key s = s\<lparr>selected_aggregates := toggleSetValue (selected_aggregates s) key\<rparr>"

text \<open>The detail rows of a result are \<open>None\<close> where the code has a nil slice.\<close>

definition ToggleSelectAll :: "detail_row list option \<Rightarrow> aggregate_row list \<Rightarrow> session \<Rightarrow> session" where
  "ToggleSelectAll details aggregates s =
     (case details of
        Some rows \<Rightarrow> s\<lparr>selected_transactions :=
          toggleAll (selected_transactions s) (map (\<lambda>row. trans_id (detail_transaction row)) rows)\<rparr>
      | None \<Rightarrow> s\<lparr>selected_aggregates := toggleAll (selected_aggregates s) (map AggregateIdentity aggregates)\<rparr>)"

text \<open>The keys of the action that sets the grouping are one to five.\<close>

definition GroupingForKey :: "string \<Rightarrow> dimension option" where
  "GroupingForKey key =
     (case find_index (\<lambda>k. k = key) [''1'', ''2'', ''3'', ''4'', ''5''] of
        None \<Rightarrow> None
      | Some i \<Rightarrow> if i \<ge> length dimensionOrder then None else Some (dimensionOrder ! i))"

subsection \<open>Going back\<close>

definition searchAtThisLevel :: "session \<Rightarrow> bool" where
  "searchAtThisLevel s \<longleftrightarrow> (case sn_anchor s of None \<Rightarrow> False
     | Some a \<Rightarrow> nav_size a = int (length (sn_drilldowns s)) \<and> nav_mode a = sn_mode s)"

text \<open>The entries from the newest to the oldest.\<close>

fun clear_level :: "nat \<Rightarrow> result_mode \<Rightarrow> history_entry list \<Rightarrow> history_entry list" where
  "clear_level depth mode [] = []"
| "clear_level depth mode (e # es) =
     (let s = entry_snapshot e in
      if length (sn_drilldowns s) \<noteq> depth \<or> sn_mode s \<noteq> mode then e # es
      else (case sn_anchor s of
          None \<Rightarrow> e
        | Some a \<Rightarrow> if nav_size a = int depth then e\<lparr>entry_snapshot := s\<lparr>sn_search := '''', sn_anchor := None\<rparr>\<rparr> else e)
        # clear_level depth mode es)"

definition clearSearchAtThisLevel :: "session \<Rightarrow> session" where
  "clearSearchAtThisLevel s = s\<lparr>sn_search := '''', sn_anchor := None,
     history := rev (clear_level (length (sn_drilldowns s)) (sn_mode s) (rev (history s)))\<rparr>"

text \<open>\<open>None\<close> is the code's report that there is nothing to undo.\<close>

definition Back :: "session \<Rightarrow> (session \<times> view_position) option" where
  "Back s =
     (if hasSelection s then Some (clearSelections s, no_position)
      else if sn_search s \<noteq> '''' \<and> searchAtThisLevel s then Some (clearSearchAtThisLevel s, no_position)
      else if sn_sub s \<noteq> None then
        (if last_kind s = Some HistorySubGrouping then Some (popHistory s)
         else Some (s\<lparr>sn_sub := None, sn_sort := sortForDetailTransition (sn_dimension s) (sn_sort s)\<rparr>, no_position))
      else if 0 < length (history s) then Some (popHistory s)
      else None)"

text \<open>A depth is a natural number: the web refuses a negative one and the other caller passes zero.\<close>

definition atDrillLevel :: "nat \<Rightarrow> session \<Rightarrow> bool" where
  "atDrillLevel depth s \<longleftrightarrow>
     length (sn_drilldowns s) < depth \<or> length (sn_drilldowns s) = depth \<and> sn_sub s = None"

definition truncateDrillPath :: "nat \<Rightarrow> session \<Rightarrow> session" where
  "truncateDrillPath depth s =
     (let s = (case sn_anchor s of None \<Rightarrow> s
          | Some a \<Rightarrow> if nav_size a > int depth then s\<lparr>sn_search := '''', sn_anchor := None\<rparr> else s);
          s = clearSelections (s\<lparr>sn_drilldowns := take depth (sn_drilldowns s), sn_sub := None\<rparr>) in
      if depth = 0
      then s\<lparr>sn_mode := ResultModeAggregate, sn_sort := sortForTopLevelTransition (sn_dimension s) (sn_sort s)\<rparr>
      else s\<lparr>sn_mode := ResultModeDetail, sn_sort := sortForDetailTransition (sn_dimension s) (sn_sort s)\<rparr>)"

text \<open>Every step back drops a history entry, a sub-grouping, the search or the selection.\<close>

definition back_measure :: "session \<Rightarrow> nat" where
  "back_measure s = 8 * length (history s) + (if sn_sub s \<noteq> None then 4 else 0)
     + (if sn_search s \<noteq> '''' then 2 else 0) + (if hasSelection s then 1 else 0)"

named_theorems session_simps \<open>how the operations on sessions act on the parts\<close>

lemma restore_simps [session_simps]:
  "sn_mode (restore s x) = sn_mode x" "sn_dimension (restore s x) = sn_dimension x" "sn_sub (restore s x) = sn_sub x"
  "sn_granularity (restore s x) = sn_granularity x" "sn_chosen (restore s x) = sn_chosen x"
  "sn_drilldowns (restore s x) = sn_drilldowns x" "sn_range (restore s x) = sn_range x"
  "sn_search (restore s x) = sn_search x" "sn_hidden (restore s x) = sn_hidden x"
  "sn_transfers (restore s x) = sn_transfers x" "sn_currency (restore s x) = sn_currency x"
  "sn_sort (restore s x) = sn_sort x" "sn_anchor (restore s x) = sn_anchor x"
  "selected_transactions (restore s x) = selected_transactions s"
  "selected_aggregates (restore s x) = selected_aggregates s" "history (restore s x) = history s"
  "snapshot_of (restore s x) = x"
  by (cases x, simp add: restore_def snapshot_of_def session_snapshot.defs)+

lemma snapshot_simps [session_simps]:
  "sn_mode (snapshot_of s) = sn_mode s" "sn_dimension (snapshot_of s) = sn_dimension s"
  "sn_sub (snapshot_of s) = sn_sub s" "sn_granularity (snapshot_of s) = sn_granularity s"
  "sn_chosen (snapshot_of s) = sn_chosen s" "sn_drilldowns (snapshot_of s) = sn_drilldowns s"
  "sn_range (snapshot_of s) = sn_range s" "sn_search (snapshot_of s) = sn_search s"
  "sn_hidden (snapshot_of s) = sn_hidden s" "sn_transfers (snapshot_of s) = sn_transfers s"
  "sn_currency (snapshot_of s) = sn_currency s" "sn_sort (snapshot_of s) = sn_sort s"
  "sn_anchor (snapshot_of s) = sn_anchor s"
  by (simp_all add: snapshot_of_def session_snapshot.defs)

lemma restore_snapshot [session_simps]:
  "restore s (snapshot_of t) = t\<lparr>selected_transactions := selected_transactions s,
     selected_aggregates := selected_aggregates s, history := history s\<rparr>"
  by (cases t) (simp add: restore_def snapshot_of_def session_snapshot.defs)

lemma popHistory_simps [session_simps]:
  "fst (popHistory s) = clearSelections (restore (s\<lparr>history := butlast (history s)\<rparr>) (entry_snapshot (last (history s))))"
  "snd (popHistory s) = entry_position (last (history s))"
  by (simp_all add: popHistory_def Let_def)

lemma hasSelection_clear [simp]: "\<not> hasSelection (clearSelections s)"
  by (simp add: hasSelection_def clearSelections_def)

lemma clear_level_length [simp]: "length (clear_level depth mode es) = length es"
  by (induction es) (simp_all add: Let_def)

lemma Back_decreases:
  assumes "Back s = Some (s', p)"
  shows "back_measure s' < back_measure s"
proof -
  have pop: "back_measure (fst (popHistory s)) < back_measure s" if "history s \<noteq> []"
  proof -
    have "length (butlast (history s)) < length (history s)" using that by simp
    then show ?thesis
      by (simp add: back_measure_def popHistory_def Let_def restore_simps clearSelections_def hasSelection_def)
  qed
  from assms show ?thesis
    using pop
    by (auto simp: Back_def last_kind_def split: if_splits)
      (auto simp: back_measure_def clearSelections_def hasSelection_def clearSearchAtThisLevel_def)
qed

function back_loop :: "nat \<Rightarrow> bool \<Rightarrow> session \<Rightarrow> session \<times> bool" where
  "back_loop depth changed s =
     (if atDrillLevel depth s then (s, changed)
      else case Back s of
        None \<Rightarrow> (truncateDrillPath depth s, True)
      | Some (s', _) \<Rightarrow> back_loop depth True s')"
  by pat_completeness auto
termination
  by (relation "measure (\<lambda>(_, _, s). back_measure s)") (auto intro: Back_decreases)

declare back_loop.simps [simp del]

definition BackTo :: "nat \<Rightarrow> session \<Rightarrow> session \<times> bool" where
  "BackTo depth s = back_loop depth False s"

subsection \<open>The durable view of a session\<close>

definition analyticalStateFromSnapshot :: "'a session_snapshot_scheme \<Rightarrow> analytical_state" where
  "analyticalStateFromSnapshot s =
     \<lparr>an_mode = sn_mode s, an_dimension = sn_dimension s, an_sub = sn_sub s, an_granularity = sn_granularity s,
      an_drilldowns = stableDrilldowns (sn_drilldowns s), an_range = sn_range s, an_search = sn_search s,
      an_anchor = sn_anchor s, an_hidden = sn_hidden s, an_transfers = sn_transfers s, an_currency = sn_currency s,
      an_sort = sn_sort s, an_chosen = (sn_chosen s \<and> sn_currency s \<noteq> None)\<rparr>"

definition analyticalStateFromSession :: "session \<Rightarrow> analytical_state" where
  "analyticalStateFromSession s = analyticalStateFromSnapshot s"

definition snapshotFromAnalyticalState :: "analytical_state \<Rightarrow> session_snapshot" where
  "snapshotFromAnalyticalState state =
     \<lparr>sn_mode = an_mode state, sn_dimension = an_dimension state, sn_sub = an_sub state,
      sn_granularity = an_granularity state, sn_chosen = an_chosen state,
      sn_drilldowns = stableDrilldowns (an_drilldowns state), sn_range = an_range state,
      sn_search = an_search state, sn_hidden = an_hidden state, sn_transfers = an_transfers state,
      sn_currency = an_currency state, sn_sort = an_sort state, sn_anchor = an_anchor state\<rparr>"

definition sessionFromAnalyticalState :: "analytical_state \<Rightarrow> session" where
  "sessionFromAnalyticalState state = session_snapshot.extend (snapshotFromAnalyticalState state)
     \<lparr>selected_transactions = {}, selected_aggregates = {}, history = []\<rparr>"

definition returnKind :: "history_kind \<Rightarrow> return_kind" where
  "returnKind kind = (if kind = HistorySubGrouping then ReturnSubgroup else ReturnNavigation)"

definition view_of_session :: "session \<Rightarrow> view_state" where
  "view_of_session s =
     \<lparr>view_version = ViewStateSchemaVersion, view_current = analyticalStateFromSession s,
      view_returns = map (\<lambda>e. \<lparr>return_kind = returnKind (entry_kind e),
        return_state = analyticalStateFromSnapshot (entry_snapshot e)\<rparr>) (history s)\<rparr>"

definition NewSessionFromViewState :: "view_state \<Rightarrow> view_error + session" where
  "NewSessionFromViewState state =
     bind_result (ValidateViewState state) (\<lambda>_.
       Inr ((sessionFromAnalyticalState (view_current state))\<lparr>history :=
         map (\<lambda>frame. \<lparr>entry_snapshot = snapshotFromAnalyticalState (return_state frame),
             entry_position = no_position,
             entry_kind = (if return_kind frame = ReturnSubgroup then HistorySubGrouping else HistoryNavigation)\<rparr>)
           (view_returns state)\<rparr>))"

definition SortFields :: "analytical_state \<Rightarrow> sort_field list" where
  "SortFields state = sortCycle (sessionFromAnalyticalState state)"

definition DefaultViewState :: view_state where
  "DefaultViewState = view_of_session NewSession"

end
