(* ===== verification/Session_Steps.thy ===== *)
theory Session_Steps
  imports Session
begin

text \<open>
  The navigation as a state machine: every request of a client is a step on sessions.  The lemmas
  show that every reachable session has a valid query and a valid durable view, that Back undoes a
  drill and that following a breadcrumb ends.
\<close>

subsection \<open>The invariant of a view\<close>

definition range_ok :: "date_range option \<Rightarrow> bool" where
  "range_ok r \<longleftrightarrow> (\<forall>b. r = Some b \<longrightarrow> year (range_start b) \<noteq> 0 \<and> year (range_end b) \<noteq> 0
     \<and> date_compare (range_start b) (range_end b) \<le> 0)"

definition sort_ok :: "'a session_snapshot_scheme \<Rightarrow> bool" where
  "sort_ok s \<longleftrightarrow> direction_valid (sort_order (sn_sort s)) \<and>
     (case sn_sub s of
        Some d \<Rightarrow> validAggregateSort d (sort_by (sn_sort s))
      | None \<Rightarrow> if sn_mode s = ResultModeAggregate then validAggregateSort (sn_dimension s) (sort_by (sn_sort s))
          else validDetailSort (sort_by (sn_sort s)))"

definition anchor_ok :: "'a session_snapshot_scheme \<Rightarrow> bool" where
  "anchor_ok s \<longleftrightarrow> (sn_search s = '''' \<longleftrightarrow> sn_anchor s = None)
     \<and> (\<forall>a. sn_anchor s = Some a \<longrightarrow> mode_valid (nav_mode a) \<and> 0 \<le> nav_size a \<and> nav_size a \<le> 5)"

text \<open>The drill path is valid, lies in the currency and has dimensions of its own.\<close>

definition drills_ok :: "'a session_snapshot_scheme \<Rightarrow> bool" where
  "drills_ok s \<longleftrightarrow> is_ok (validateDrilldowns {} (sn_drilldowns s))
     \<and> is_ok (validateCurrencyScope (sn_currency s) (sn_drilldowns s))
     \<and> (\<forall>d. sn_sub s = Some d \<longrightarrow> dimension_valid d \<and> d \<notin> drill_dimension ` set (sn_drilldowns s))"

definition view_ok :: "'a session_snapshot_scheme \<Rightarrow> bool" where
  "view_ok s \<longleftrightarrow> mode_valid (sn_mode s) \<and> dimension_valid (sn_dimension s)
     \<and> granularity_valid (sn_granularity s) \<and> range_ok (sn_range s) \<and> drills_ok s \<and> sort_ok s \<and> anchor_ok s
     \<and> (sn_sub s \<noteq> None \<longrightarrow> sn_mode s = ResultModeDetail)
     \<and> (sn_drilldowns s \<noteq> [] \<longrightarrow> sn_mode s = ResultModeDetail)"

definition session_ok :: "session \<Rightarrow> bool" where
  "session_ok s \<longleftrightarrow> view_ok s \<and> (\<forall>e\<in>set (history s). view_ok (entry_snapshot e))"

lemma view_ok_query: "view_ok s \<Longrightarrow> is_ok (ValidateQuery (QuerySpec s))"
  by (auto simp: view_ok_def ValidateQuery_def QuerySpec_def drills_ok_def sort_ok_def range_ok_def is_ok_iff
      bind_result_Inr Let_def mode_valid_def split: option.splits if_splits)

definition drill_ok :: "drilldown \<Rightarrow> bool" where
  "drill_ok d \<longleftrightarrow> is_ok (validateDrilldowns {} [d])"

lemma drills_valid:
  "is_ok (validateDrilldowns seen ds) \<longleftrightarrow> distinct (map drill_dimension ds)
     \<and> drill_dimension ` set ds \<inter> seen = {} \<and> (\<forall>d\<in>set ds. drill_ok d)"
proof (induction seen ds rule: validateDrilldowns.induct)
  case (2 seen d ds)
  show ?case
  proof (cases "drill_ok d \<and> drill_dimension d \<notin> seen")
    case True
    then have "is_ok (validateDrilldowns seen (d # ds)) \<longleftrightarrow> is_ok (validateDrilldowns (insert (drill_dimension d) seen) ds)"
      by (auto simp: drill_ok_def is_ok_iff bind_result_Inr split: if_splits option.splits)
    moreover have "is_ok (validateDrilldowns (insert (drill_dimension d) seen) ds) \<longleftrightarrow> distinct (map drill_dimension ds)
      \<and> drill_dimension ` set ds \<inter> insert (drill_dimension d) seen = {} \<and> (\<forall>d\<in>set ds. drill_ok d)"
      using True by (intro 2) (auto simp: drill_ok_def is_ok_iff bind_result_Inr split: if_splits)
    ultimately show ?thesis using True by auto
  next
    case False
    then have "\<not> is_ok (validateDrilldowns seen (d # ds))"
      by (auto simp: drill_ok_def is_ok_iff bind_result_Inr split: if_splits option.splits)
    with False show ?thesis by auto
  qed
qed simp

lemma scope_valid:
  "is_ok (validateCurrencyScope scope ds) \<longleftrightarrow>
     (\<forall>c. scope = Some c \<longrightarrow> IsValidCurrency (scope_currency c) \<and> drillsIn ds c)"
  by (auto simp: validateCurrencyScope_def is_ok_iff check_all_Inr drillsIn_def list_all_iff split: option.splits)

lemma drills_ok_iff:
  "drills_ok s \<longleftrightarrow> distinct (map drill_dimension (sn_drilldowns s)) \<and> (\<forall>d\<in>set (sn_drilldowns s). drill_ok d)
     \<and> (\<forall>c. sn_currency s = Some c \<longrightarrow> IsValidCurrency (scope_currency c) \<and> drillsIn (sn_drilldowns s) c)
     \<and> (\<forall>d. sn_sub s = Some d \<longrightarrow> dimension_valid d \<and> d \<notin> drill_dimension ` set (sn_drilldowns s))"
  by (simp add: drills_ok_def drills_valid scope_valid)

lemma dimensionOrder_valid: "d \<in> set dimensionOrder \<longleftrightarrow> dimension_valid d"
  by (cases d) (simp_all add: dimensionOrder_def dimension_valid_def)

text \<open>At most five dimensions can be drilled.\<close>

lemma drills_bound: "drills_ok s \<Longrightarrow> length (sn_drilldowns s) \<le> 5"
proof -
  assume ok: "drills_ok s"
  then have "set (map drill_dimension (sn_drilldowns s)) \<subseteq> set dimensionOrder"
    by (auto simp: drills_ok_iff dimensionOrder_valid drill_ok_def is_ok_iff split: if_splits)
  then have "card (set (map drill_dimension (sn_drilldowns s))) \<le> card (set dimensionOrder)" by (intro card_mono) simp_all
  moreover have "card (set (map drill_dimension (sn_drilldowns s))) = length (sn_drilldowns s)"
    using ok by (subst distinct_card) (simp_all add: drills_ok_iff)
  ultimately show ?thesis by (simp add: dimensionOrder_def)
qed

lemma marker_ok: "view_ok s \<Longrightarrow> mode_valid (nav_mode (session_marker s)) \<and> 0 \<le> nav_size (session_marker s)
    \<and> nav_size (session_marker s) \<le> 5"
  using drills_bound[of s] by (auto simp: view_ok_def session_marker_def)

subsection \<open>Sorts of transitions\<close>

lemma amount_sort [simp]:
  "validAggregateSort d SortFieldAmount" "validDetailSort SortFieldAmount" "validAggregateSort d SortFieldCount"
  "sort_by amountDescending = SortFieldAmount" "sort_by dateDescending = SortFieldDate"
  "sort_by timeAscending = SortFieldTimePeriod" "validDetailSort SortFieldDate"
  "validAggregateSort DimensionTime SortFieldTimePeriod"
  "direction_valid (sort_order amountDescending)" "direction_valid (sort_order dateDescending)"
  "direction_valid (sort_order timeAscending)"
  by (simp_all add: validAggregateSort_def validDetailSort_def amountDescending_def dateDescending_def
    timeAscending_def direction_valid_def aggregate_sort_of_def)

lemma transition_sorts [simp]:
  "validAggregateSort d (sort_by (sortForAggregateTransition d current))"
  "dimension_valid d \<Longrightarrow> validAggregateSort d (sort_by (sortForTopLevelTransition d current))"
  "dimension_valid d \<Longrightarrow> validAggregateSort d (sort_by (topLevelSort d current b))"
  "validDetailSort (sort_by (sortForDetailTransition e current))"
  by (auto simp: sortForAggregateTransition_def sortForTopLevelTransition_def topLevelSort_def sortForDetailTransition_def
      validAggregateSort_def validDetailSort_def dimension_valid_def aggregate_sort_of_def sortFieldForDimension_def
      split: dimension.splits)

lemma transition_directions [simp]:
  assumes "direction_valid (sort_order current)"
  shows "direction_valid (sort_order (sortForAggregateTransition d current))"
    "direction_valid (sort_order (sortForTopLevelTransition d current))"
    "direction_valid (sort_order (topLevelSort d current b))"
    "direction_valid (sort_order (sortForDetailTransition d current))"
  using assms by (simp_all add: sortForAggregateTransition_def sortForTopLevelTransition_def topLevelSort_def
    sortForDetailTransition_def)

lemma mode_cases: "mode_valid m \<Longrightarrow> m \<noteq> ResultModeDetail \<longleftrightarrow> m = ResultModeAggregate"
  by (auto simp: mode_valid_def)

lemma modes_valid [simp]: "mode_valid ResultModeDetail" "mode_valid ResultModeAggregate"
  by (simp_all add: mode_valid_def)

subsection \<open>Every operation keeps the invariant\<close>

lemma view_ok_snapshot [simp]: "view_ok (snapshot_of s) \<longleftrightarrow> view_ok s"
  unfolding view_ok_def drills_ok_def sort_ok_def anchor_ok_def session_simps ..

lemma view_ok_restore [simp]: "view_ok (restore s x) \<longleftrightarrow> view_ok x"
  unfolding view_ok_def drills_ok_def sort_ok_def anchor_ok_def session_simps ..

lemma view_ok_unseen [simp]:
  "view_ok (s\<lparr>history := h\<rparr>) = view_ok s" "view_ok (clearSelections s) = view_ok s"
  by (simp_all add: view_ok_def drills_ok_def sort_ok_def anchor_ok_def clearSelections_def cong: option.case_cong)

lemma clear_history [simp]: "history (clearSelections s) = history s"
  by (simp add: clearSelections_def)

lemma session_ok_clear [simp]: "session_ok (clearSelections s) = session_ok s"
  by (simp add: session_ok_def)

lemma push_simps [simp]:
  "sn_mode (pushHistory k p s) = sn_mode s" "sn_sub (pushHistory k p s) = sn_sub s"
  "sn_drilldowns (pushHistory k p s) = sn_drilldowns s" "sn_sort (pushHistory k p s) = sn_sort s"
  "sn_dimension (pushHistory k p s) = sn_dimension s" "view_ok (pushHistory k p s) = view_ok s"
  by (simp_all add: pushHistory_def)

lemma session_ok_push [simp]: "session_ok (pushHistory kind position s) = session_ok s"
  by (auto simp: session_ok_def pushHistory_def)

lemma session_ok_history: "session_ok s \<Longrightarrow> set h \<subseteq> set (history s) \<Longrightarrow> session_ok (s\<lparr>history := h\<rparr>)"
  by (auto simp: session_ok_def)

lemma session_ok_pop: "session_ok s \<Longrightarrow> history s \<noteq> [] \<Longrightarrow> session_ok (fst (popHistory s))"
  using last_in_set[of "history s"] in_set_butlastD[of _ "history s"]
  by (auto simp: session_ok_def session_simps)

lemma session_ok_new: "session_ok NewSession"
  by (simp add: session_ok_def view_ok_def drills_ok_iff sort_ok_def anchor_ok_def range_ok_def NewSession_def
    dimension_valid_def granularity_valid_def)

text \<open>Views of the shapes that the operations build.\<close>

lemma view_ok_shape:
  assumes "view_ok s" and "dimension_valid d"
  shows view_ok_top: "m = ResultModeAggregate \<Longrightarrow> direction_valid (sort_order c) \<Longrightarrow> validAggregateSort d (sort_by c) \<Longrightarrow>
      view_ok (s\<lparr>sn_mode := m, sn_dimension := d, sn_sub := None, sn_drilldowns := [], sn_sort := c\<rparr>)"
    and view_ok_detail: "direction_valid (sort_order c) \<Longrightarrow> validDetailSort (sort_by c) \<Longrightarrow>
      view_ok (s\<lparr>sn_mode := ResultModeDetail, sn_sub := None, sn_drilldowns := [], sn_sort := c\<rparr>)"
    and view_ok_sub: "sn_mode s = ResultModeDetail \<Longrightarrow> d \<notin> drill_dimension ` set (sn_drilldowns s) \<Longrightarrow>
      view_ok (s\<lparr>sn_sub := Some d, sn_sort := sortForAggregateTransition d (sn_sort s)\<rparr>)"
  using assms
  by (auto simp: view_ok_def drills_ok_iff sort_ok_def anchor_ok_def drillsIn_def)

lemma view_ok_direction: "view_ok s \<Longrightarrow> direction_valid (sort_order (sn_sort s))"
  by (simp add: view_ok_def sort_ok_def)

lemma view_ok_unsub: "view_ok s \<Longrightarrow> sn_sub s \<noteq> None \<Longrightarrow>
    view_ok (s\<lparr>sn_sub := None, sn_sort := sortForDetailTransition (sn_dimension s) (sn_sort s)\<rparr>)"
  by (auto simp: view_ok_def drills_ok_iff sort_ok_def anchor_ok_def)

lemma available_sub: "d \<in> set (availableSubGroupings s) \<longleftrightarrow>
    dimension_valid d \<and> d \<notin> drill_dimension ` set (sn_drilldowns s)"
  by (auto simp: availableSubGroupings_def dimensionOrder_valid)

lemma last_kind_Some: "last_kind s = Some k \<Longrightarrow> history s \<noteq> []"
  by (auto simp: last_kind_def split: if_splits)

lemma session_ok_parts: "session_ok s \<longleftrightarrow> view_ok s \<and> (\<forall>e\<in>set (history s). view_ok (entry_snapshot e))"
  by (simp add: session_ok_def)

lemma session_ok_CycleSubGrouping:
  assumes ok: "session_ok s" and "sn_drilldowns s \<noteq> [] \<or> sn_sub s \<noteq> None"
  shows "session_ok (CycleSubGrouping s)"
proof -
  have v: "view_ok s" "sn_mode s = ResultModeDetail" using assms by (auto simp: session_ok_def view_ok_def)
  have sub: "view_ok (s\<lparr>sn_sub := Some d, sn_sort := sortForAggregateTransition d (sn_sort s)\<rparr>)"
    if "d \<in> set (availableSubGroupings s)" for d
    using view_ok_sub[OF v(1) _ v(2)] that by (simp add: available_sub)
  have unsub: "session_ok (clearSelections (let s = s\<lparr>sn_sub := None, sn_sort := sortForDetailTransition (sn_dimension s) (sn_sort s)\<rparr> in
      if last_kind s = Some HistorySubGrouping then s\<lparr>history := butlast (history s)\<rparr> else s))" if "sn_sub s \<noteq> None"
    using view_ok_unsub[OF v(1) that] ok by (auto simp: session_ok_def Let_def dest: in_set_butlastD)
  show ?thesis
  proof (cases "availableSubGroupings s")
    case Nil
    with ok show ?thesis by (simp add: CycleSubGrouping_def)
  next
    case (Cons d ds)
    show ?thesis
    proof (cases "sn_sub s")
      case None
      let ?t = "pushHistory HistorySubGrouping no_position s"
      have "view_ok (?t\<lparr>sn_sub := Some d, sn_sort := sortForAggregateTransition d (sn_sort ?t)\<rparr>)"
        by (rule view_ok_sub) (use v Cons available_sub[of d s] in simp_all)
      with None Cons ok v(1) show ?thesis
        by (simp add: CycleSubGrouping_def Let_def) (auto simp: session_ok_def pushHistory_def)
    next
      case (Some sub)
      show ?thesis
      proof (cases "find_index (\<lambda>d. d = sub) (d # ds)")
        case None
        with unsub Some Cons show ?thesis by (simp add: CycleSubGrouping_def)
      next
        case (Some i)
        then have i: "i < length (d # ds)" using find_index_Some by blast
        show ?thesis
        proof (cases "i = length (d # ds) - 1")
          case True
          with unsub Some Cons \<open>sn_sub s = Some sub\<close> show ?thesis by (simp add: CycleSubGrouping_def del: find_index.simps)
        next
          case False
          then have "i + 1 < length (d # ds)" using i by simp
          then have "(d # ds) ! (i + 1) \<in> set (availableSubGroupings s)" unfolding Cons by (rule nth_mem)
          from sub[OF this] ok show ?thesis
            using False Some Cons \<open>sn_sub s = Some sub\<close>
            by (simp add: CycleSubGrouping_def Let_def session_ok_def del: find_index.simps nth_Cons_Suc)
        qed
      qed
    qed
  qed
qed

lemma session_ok_CycleGrouping:
  assumes ok: "session_ok s"
  shows "session_ok (CycleGrouping s)"
proof -
  have v: "view_ok s" using ok by (simp add: session_ok_def)
  have d: "dimension_valid (dimensionOrder ! ((dimensionIndex (sn_dimension s) + 1) mod length dimensionOrder))" (is "dimension_valid ?d")
    unfolding dimensionOrder_valid[symmetric] by (rule nth_mem) (simp add: dimensionOrder_def)
  consider "sn_drilldowns s \<noteq> []" | "sn_drilldowns s = []" "sn_mode s = ResultModeDetail" "last_kind s = Some HistoryNavigation"
    | "sn_drilldowns s = []" "sn_mode s = ResultModeDetail" "last_kind s \<noteq> Some HistoryNavigation"
    | "sn_drilldowns s = []" "sn_mode s = ResultModeAggregate" "sn_mode s \<noteq> ResultModeDetail"
    using v by (auto simp: view_ok_def mode_valid_def)
  then show ?thesis
  proof cases
    case 1
    with session_ok_CycleSubGrouping[OF ok] show ?thesis by (simp add: CycleGrouping_def)
  next
    case 2
    with session_ok_pop[OF ok] last_kind_Some show ?thesis by (simp add: CycleGrouping_def)
  next
    case 3
    have "view_ok (s\<lparr>sn_mode := ResultModeAggregate, sn_dimension := DimensionMerchant, sn_sub := None,
        sn_drilldowns := [], sn_sort := amountDescending\<rparr>)"
      by (rule view_ok_top[OF v]) (simp_all add: dimension_valid_def)
    with 3 ok show ?thesis by (cases s) (simp add: CycleGrouping_def session_ok_def clearSelections_def view_ok_def drills_ok_def sort_ok_def anchor_ok_def)
  next
    case 4
    have "view_ok (s\<lparr>sn_mode := ResultModeAggregate, sn_dimension := ?d, sn_sub := None,
        sn_drilldowns := [], sn_sort := sortForTopLevelTransition ?d (sn_sort s)\<rparr>)"
      by (rule view_ok_top[OF v d]) (use d view_ok_direction[OF v] in simp_all)
    with 4 ok show ?thesis by (cases s) (simp add: CycleGrouping_def Let_def session_ok_def clearSelections_def view_ok_def drills_ok_def sort_ok_def anchor_ok_def)
  qed
qed

lemma session_ok_ShowAllDetail: "session_ok s \<Longrightarrow> session_ok (ShowAllDetail s)"
proof -
  assume ok: "session_ok s"
  let ?t = "pushHistory HistoryNavigation no_position s"
  have "view_ok ?t" "session_ok ?t" using ok by (simp_all add: session_ok_def[of s])
  moreover from this have "view_ok (?t\<lparr>sn_mode := ResultModeDetail, sn_sub := None, sn_drilldowns := [], sn_sort := dateDescending\<rparr>)"
    by (intro view_ok_detail[of _ DimensionTime]) (simp_all add: dimension_valid_def)
  ultimately have "session_ok (?t\<lparr>sn_mode := ResultModeDetail, sn_sub := None, sn_drilldowns := [], sn_sort := dateDescending\<rparr>)"
    by (simp add: session_ok_def)
  with ok show ?thesis by (simp add: ShowAllDetail_def)
qed

lemma view_ok_search:
  assumes "view_ok s" and "\<forall>b. a = Some b \<longrightarrow> mode_valid (nav_mode b) \<and> 0 \<le> nav_size b \<and> nav_size b \<le> 5"
  shows "k = '''' \<longleftrightarrow> a = None \<Longrightarrow> view_ok (s\<lparr>sn_search := k, sn_anchor := a\<rparr>)"
    and "sn_search s = '''' \<longleftrightarrow> a = None \<Longrightarrow> view_ok (s\<lparr>sn_anchor := a\<rparr>)"
  using assms by (auto simp: view_ok_def drills_ok_def sort_ok_def anchor_ok_def split: option.splits)

lemma session_ok_top:
  assumes ok: "session_ok s" and "dimension_valid d" "direction_valid (sort_order c)" "validAggregateSort d (sort_by c)"
  shows "session_ok (s\<lparr>sn_mode := ResultModeAggregate, sn_dimension := d, sn_sub := None, sn_drilldowns := [],
    history := [], sn_sort := c\<rparr>)"
proof -
  have "view_ok ((s\<lparr>history := []\<rparr>)\<lparr>sn_mode := ResultModeAggregate, sn_dimension := d, sn_sub := None, sn_drilldowns := [], sn_sort := c\<rparr>)"
    by (rule view_ok_top) (use assms in \<open>simp_all add: session_ok_def\<close>)
  then show ?thesis by (cases s) (simp add: session_ok_def)
qed

lemma session_ok_SwitchAccounts: "session_ok s \<Longrightarrow> session_ok (SwitchAccounts s)"
  using session_ok_top[of s DimensionAccount "sortForAggregateTransition DimensionAccount (sn_sort s)"]
    view_ok_direction[of s] by (simp add: SwitchAccounts_def session_ok_parts[of s] dimension_valid_def)

lemma session_ok_rebase: "session_ok s \<Longrightarrow> session_ok (rebaseSearchAnchor s)"
proof -
  assume ok: "session_ok s"
  then have "view_ok (rebaseSearchAnchor s)"
    unfolding rebaseSearchAnchor_def using marker_ok[of s] by (intro view_ok_search(2)) (auto simp: session_ok_def)
  with ok show ?thesis by (simp add: session_ok_def) (simp add: rebaseSearchAnchor_def)
qed

lemma session_ok_SetGrouping: "session_ok s \<Longrightarrow> SetGrouping d s = Inr s' \<Longrightarrow> session_ok s'"
proof -
  assume ok: "session_ok s" and set: "SetGrouping d s = Inr s'"
  have d: "dimension_valid d" using set dimensionOrder_valid[of d] by (simp add: SetGrouping_def split: if_splits)
  let ?c = "topLevelSort d (sn_sort s) (fromDetailView s)"
  have "session_ok (clearSelections (s\<lparr>sn_mode := ResultModeAggregate, sn_dimension := d, sn_sub := None, sn_drilldowns := [],
      history := [], sn_sort := ?c\<rparr>))"
    using session_ok_top[OF ok d] d view_ok_direction[of s] ok by (simp add: session_ok_parts[of s])
  then have "session_ok (rebaseSearchAnchor (clearSelections (s\<lparr>sn_mode := ResultModeAggregate, sn_dimension := d,
      sn_sub := None, sn_drilldowns := [], history := [], sn_sort := ?c\<rparr>)))" by (rule session_ok_rebase)
  with set show ?thesis
    by (cases s) (auto simp: SetGrouping_def leaveDrillPath_def clearSelections_def Let_def split: if_splits)
qed

lemma session_ok_sub:
  assumes "session_ok s" "sn_mode s = ResultModeDetail" "dimension_valid d" "d \<notin> drill_dimension ` set (sn_drilldowns s)"
  shows "session_ok (clearSelections (s\<lparr>sn_sub := Some d, sn_sort := sortForAggregateTransition d (sn_sort s)\<rparr>))"
  using view_ok_sub[of s d] assms by (simp add: session_ok_def)

lemma session_ok_SetSubGrouping: "session_ok s \<Longrightarrow> SetSubGrouping d s = Inr s' \<Longrightarrow> session_ok s'"
proof -
  assume ok: "session_ok s" and set: "SetSubGrouping d s = Inr s'"
  let ?t = "if sn_sub s = None then pushHistory HistorySubGrouping no_position s else s"
  have s': "s' = clearSelections (?t\<lparr>sn_sub := Some d, sn_sort := sortForAggregateTransition d (sn_sort ?t)\<rparr>)"
    "sn_drilldowns s \<noteq> []" "d \<in> set (availableSubGroupings s)"
    using set by (auto simp: SetSubGrouping_def Let_def split: if_splits)
  show ?thesis unfolding s'(1)
    by (rule session_ok_sub) (use ok s' available_sub[of d s] in \<open>auto simp: session_ok_parts[of s] view_ok_def\<close>)
qed

text \<open>A row that the query of the view can list.\<close>

definition visible_row :: "session \<Rightarrow> aggregate_row \<Rightarrow> bool" where
  "visible_row s row \<longleftrightarrow> (sn_sub s \<noteq> None \<or> sn_mode s = ResultModeAggregate) \<and> IsValidCurrency (currency (row_total row))
     \<and> (\<forall>c. sn_currency s = Some c \<longrightarrow> scope_currency c = currency (row_total row) \<and> scope_scale c = scale (row_total row))"

text \<open>What a drill does, for a row of either kind.\<close>

definition drill_target :: "aggregate_row \<Rightarrow> drilldown" where
  "drill_target row = \<lparr>drill_dimension = row_dimension row, drill_currency = currency (row_total row),
     drill_scale = scale (row_total row),
     drill_key = (if row_dimension row = DimensionTime then '''' else row_key row),
     drill_label = (if row_dimension row = DimensionTime then '''' else row_label row),
     drill_period = (if row_dimension row = DimensionTime then row_period row else None)\<rparr>"

lemma Drill_Inr:
  "Drill row position s = Inr s' \<longleftrightarrow>
     row_dimension row = (case sn_sub s of None \<Rightarrow> sn_dimension s | Some d \<Rightarrow> d) \<and> row_key row \<noteq> '''' \<and> row_label row \<noteq> ''''
     \<and> (row_dimension row = DimensionTime \<longrightarrow> (\<exists>p. row_period row = Some p \<and> is_ok (ValidatePeriod p)))
     \<and> s' = clearSelections ((pushHistory HistoryNavigation position s)\<lparr>sn_drilldowns := sn_drilldowns s @ [drill_target row],
         sn_mode := ResultModeDetail, sn_sub := None, sn_sort := sortForDetailTransition (row_dimension row) (sn_sort s)\<rparr>)"
  by (auto simp: Drill_def Let_def drill_target_def split: option.splits if_splits)

lemma session_ok_Drill:
  assumes ok: "session_ok s" and row: "visible_row s row" and drill: "Drill row position s = Inr s'"
  shows "session_ok s'"
proof -
  note s' = drill[unfolded Drill_Inr]
  let ?t = "pushHistory HistoryNavigation position s"
  have v: "view_ok s" using ok by (simp add: session_ok_def)
  have dim: "dimension_valid (row_dimension row) \<and> row_dimension row \<notin> drill_dimension ` set (sn_drilldowns s)"
  proof (cases "sn_sub s")
    case None
    then have "sn_drilldowns s = []" using v row by (auto simp: view_ok_def visible_row_def)
    with None s' v show ?thesis by (simp add: view_ok_def)
  next
    case (Some d)
    with s' v show ?thesis by (simp add: view_ok_def drills_ok_iff)
  qed
  have "drill_ok (drill_target row)"
    using s' row dim by (auto simp: drill_ok_def drill_target_def visible_row_def is_ok_iff)
  moreover have "sn_currency ?t = sn_currency s" by (simp add: pushHistory_def)
  moreover have "view_ok ?t" using v by simp
  ultimately have "view_ok (?t\<lparr>sn_drilldowns := sn_drilldowns s @ [drill_target row], sn_mode := ResultModeDetail, sn_sub := None,
      sn_sort := sortForDetailTransition (row_dimension row) (sn_sort s)\<rparr>)"
    using dim row by (auto simp: view_ok_def drills_ok_iff drillsIn_def drill_target_def visible_row_def sort_ok_def anchor_ok_def)
  moreover have "session_ok ?t" using ok by simp
  ultimately have "session_ok (?t\<lparr>sn_drilldowns := sn_drilldowns s @ [drill_target row], sn_mode := ResultModeDetail, sn_sub := None,
      sn_sort := sortForDetailTransition (row_dimension row) (sn_sort s)\<rparr>)" by (simp add: session_ok_def)
  with s' show ?thesis by simp
qed

lemma session_ok_ToggleTimeGranularity: "session_ok s \<Longrightarrow> session_ok (ToggleTimeGranularity s)"
  by (auto simp: ToggleTimeGranularity_def session_ok_def view_ok_def drills_ok_def sort_ok_def anchor_ok_def
      clearSelections_def granularity_valid_def split: option.splits time_granularity.splits)

lemma session_ok_SetSearch: "session_ok s \<Longrightarrow> session_ok (SetSearch k s)"
proof -
  assume ok: "session_ok s"
  let ?t = "clearSelections s"
  have "view_ok ?t" using ok by (simp add: session_ok_def)
  then have "view_ok (?t\<lparr>sn_search := k, sn_anchor := if k = '''' then None else Some (session_marker s)\<rparr>)"
    using marker_ok[of s] ok by (intro view_ok_search(1)) (auto simp: session_ok_def)
  with ok have "session_ok (?t\<lparr>sn_search := k, sn_anchor := if k = '''' then None else Some (session_marker s)\<rparr>)"
    by (simp add: session_ok_def)
  moreover have "SetSearch k s = ?t\<lparr>sn_search := k, sn_anchor := if k = '''' then None else Some (session_marker s)\<rparr>"
    by (cases s) (simp add: SetSearch_def Let_def clearSelections_def session_marker_def)
  ultimately show ?thesis by simp
qed

lemma session_ok_sort:
  assumes "session_ok s" "direction_valid (sort_order c)"
    and "sort_by c \<in> set (sortCycle s) \<or> sort_by c = sort_by (sn_sort s)"
  shows "session_ok (s\<lparr>sn_sort := c\<rparr>)"
proof -
  have "view_ok s" using assms(1) by (simp add: session_ok_def)
  then have "view_ok (s\<lparr>sn_sort := c\<rparr>)"
    using assms(2,3)
    by (auto simp: view_ok_def sort_ok_def drills_ok_def anchor_ok_def sortCycle_def Let_def validDetailSort_def
        validAggregateSort_def aggregate_sort_of_def sortFieldForDimension_def mode_valid_def dimension_valid_def
        split: option.splits if_splits dimension.splits)
  with assms(1) show ?thesis by (simp add: session_ok_def)
qed

lemma sortCycle_length: "0 < length (sortCycle s)"
  by (simp add: sortCycle_def Let_def)

lemma session_ok_CycleSort: "session_ok s \<Longrightarrow> session_ok (CycleSort s)"
  unfolding CycleSort_def Let_def
  by (rule session_ok_sort) (auto simp: session_ok_def view_ok_direction intro!: nth_mem mod_less_divisor sortCycle_length)

lemma session_ok_ReverseSort: "session_ok s \<Longrightarrow> session_ok (ReverseSort s)"
  unfolding ReverseSort_def
  by (rule session_ok_sort) (simp_all add: direction_valid_def)

lemma session_ok_SetSort: "session_ok s \<Longrightarrow> SetSort f s = Inr s' \<Longrightarrow> session_ok s'"
  using session_ok_ReverseSort[of s] session_ok_sort[of s "\<lparr>sort_by = f, sort_order = defaultSortDirection f\<rparr>"]
  by (auto simp: SetSort_def defaultSortDirection_def direction_valid_def split: if_splits)

lemma session_ok_JumpToTime: "session_ok s \<Longrightarrow> JumpToTime position s = Some s' \<Longrightarrow> session_ok s'"
proof -
  assume ok: "session_ok s" and jump: "JumpToTime position s = Some s'"
  have v: "view_ok s" using ok by (simp add: session_ok_def)
  show ?thesis
  proof (cases "sn_mode s = ResultModeAggregate \<and> length (sn_drilldowns s) = 0 \<and> sn_sub s = None")
    case True
    have "view_ok (s\<lparr>sn_mode := ResultModeAggregate, sn_dimension := DimensionTime, sn_sub := None, sn_drilldowns := [],
        sn_sort := sortForAggregateTransition DimensionTime (sn_sort s)\<rparr>)"
      by (rule view_ok_top[OF v]) (use view_ok_direction[OF v] in \<open>simp_all add: dimension_valid_def\<close>)
    moreover have "s' = clearSelections (s\<lparr>sn_mode := ResultModeAggregate, sn_dimension := DimensionTime, sn_sub := None,
        sn_drilldowns := [], sn_sort := sortForAggregateTransition DimensionTime (sn_sort s)\<rparr>)"
      using jump True by (cases s) (simp add: JumpToTime_def Let_def)
    ultimately show ?thesis using ok by (simp add: session_ok_def)
  next
    case False
    let ?t = "if sn_sub s = None then pushHistory HistorySubGrouping position s else s"
    have s': "s' = clearSelections (?t\<lparr>sn_sub := Some DimensionTime, sn_sort := sortForAggregateTransition DimensionTime (sn_sort ?t)\<rparr>)"
      "DimensionTime \<notin> drill_dimension ` set (sn_drilldowns s)"
      using jump False by (auto simp: JumpToTime_def Let_def list_ex_iff split: if_splits)
    have "sn_mode s = ResultModeDetail" using False v by (auto simp: view_ok_def mode_valid_def)
    then show ?thesis unfolding s'(1)
      by (intro session_ok_sub) (use ok s'(2) in \<open>simp_all add: dimension_valid_def\<close>)
  qed
qed

lemma session_ok_ToggleTime: "session_ok s \<Longrightarrow> ToggleTime position s = Some s' \<Longrightarrow> session_ok s'"
  using session_ok_ToggleTimeGranularity session_ok_JumpToTime by (auto simp: ToggleTime_def split: if_splits)

subsection \<open>Currency, filters and periods\<close>

lemma view_ok_currency: "view_ok x \<Longrightarrow> drillsIn (sn_drilldowns x) scope \<Longrightarrow> IsValidCurrency (scope_currency scope) \<Longrightarrow>
    view_ok (x\<lparr>sn_currency := Some scope\<rparr>)"
  by (auto simp: view_ok_def drills_ok_iff sort_ok_def anchor_ok_def split: option.splits)

lemma session_ok_SetCurrency: "session_ok s \<Longrightarrow> SetCurrency c s = Inr s' \<Longrightarrow> session_ok s'"
proof -
  assume ok: "session_ok s" and set: "SetCurrency c s = Inr s'"
  have v: "view_ok s" using ok by (simp add: session_ok_def)
  obtain scope where c: "c = Some scope" "IsValidCurrency (scope_currency scope)"
    using set by (auto simp: SetCurrency_def split: option.splits if_splits)
  consider "sn_currency s = Some scope" "s' = s" | "adoptFirstCurrency scope s = Some s'"
    | "sn_currency s \<noteq> Some scope" "adoptFirstCurrency scope s = None"
    using set c by (auto simp: SetCurrency_def split: option.splits if_splits)
  then show ?thesis
  proof cases
    case 1
    with ok show ?thesis by simp
  next
    case 2
    then have adopt: "sn_currency s = None" "drillsIn (sn_drilldowns s) scope"
      "\<forall>e\<in>set (history s). drillsIn (sn_drilldowns (entry_snapshot e)) scope"
      "s' = clearSelections (s\<lparr>sn_currency := Some scope,
        history := map (\<lambda>e. e\<lparr>entry_snapshot := (entry_snapshot e)\<lparr>sn_currency := Some scope\<rparr>\<rparr>) (history s)\<rparr>)"
      by (auto simp: adoptFirstCurrency_def list_ex_iff split: if_splits)
    have "view_ok (s\<lparr>sn_currency := Some scope\<rparr>)" by (rule view_ok_currency[OF v adopt(2) c(2)])
    moreover have "\<forall>e\<in>set (history s). view_ok ((entry_snapshot e)\<lparr>sn_currency := Some scope\<rparr>)"
      using ok adopt(3) view_ok_currency[OF _ _ c(2)] unfolding session_ok_def by blast
    ultimately show ?thesis unfolding adopt(4) by (auto simp: session_ok_def)
  next
    case 3
    let ?b = "fromDetailView s" and ?d = "sn_dimension s"
    let ?u = "leaveDrillPath (s\<lparr>sn_currency := Some scope\<rparr>)"
    have s': "s' = rebaseSearchAnchor (if sn_drilldowns s \<noteq> []
        then ?u\<lparr>sn_mode := ResultModeAggregate, sn_sort := topLevelSort (sn_dimension ?u) (sn_sort ?u) ?b\<rparr>
        else if sn_sub s \<noteq> None then ?u\<lparr>sn_sort := sortForDetailTransition (sn_dimension ?u) (sn_sort ?u)\<rparr> else ?u)"
      using set 3 c by (auto simp: SetCurrency_def Let_def split: if_splits)
    have u: "sn_mode ?u = sn_mode s" "sn_dimension ?u = ?d" "sn_sub ?u = None" "sn_drilldowns ?u = []" "sn_currency ?u = Some scope"
      "sn_sort ?u = sn_sort s" "sn_anchor ?u = sn_anchor s" "sn_search ?u = sn_search s" "sn_range ?u = sn_range s"
      "sn_granularity ?u = sn_granularity s" "history ?u = []"
      by (simp_all add: leaveDrillPath_def clearSelections_def)
    have empty: "drillsIn [] scope" by (simp add: drillsIn_def)
    note parts = view_ok_def drills_ok_iff sort_ok_def anchor_ok_def
    have "view_ok (?u\<lparr>sn_mode := ResultModeAggregate, sn_sort := topLevelSort ?d (sn_sort s) ?b\<rparr>)"
      using v c(2) empty by (simp add: parts u)
    moreover have "view_ok (?u\<lparr>sn_sort := sortForDetailTransition ?d (sn_sort s)\<rparr>)" if "sn_sub s \<noteq> None"
      using v c(2) empty that by (auto simp: parts u)
    moreover have "view_ok ?u" if "sn_sub s = None" using v c(2) empty that by (auto simp: parts u)
    ultimately show ?thesis
      unfolding s' by (intro session_ok_rebase) (auto simp: session_ok_def u)
  qed
qed

text \<open>Removing time drill-downs leaves the others in order and keeps the anchor in range.\<close>

lemma removeTime_run:
  assumes "n \<le> length ds"
  shows "\<exists>a'. fold remove_time_at (rev [0..<n]) (ds, anchor) =
      (filter (\<lambda>d. drill_dimension d \<noteq> DimensionTime) (take n ds) @ drop n ds, a')
    \<and> (a' = None \<longleftrightarrow> anchor = None)
    \<and> (\<forall>a b. anchor = Some a \<and> a' = Some b \<longrightarrow> nav_mode b = nav_mode a \<and> nav_size b \<le> nav_size a
        \<and> (0 \<le> nav_size a \<longrightarrow> 0 \<le> nav_size b))"
  using assms
proof (induction n arbitrary: ds anchor)
  case (Suc n)
  have n: "n < length ds" using Suc.prems by simp
  have taken: "take (Suc n) ds = take n ds @ [ds ! n]" using n by (rule take_Suc_conv_app_nth)
  have split: "drop n ds = ds ! n # drop (Suc n) ds" using n by (simp add: Cons_nth_drop_Suc)
  have first: "fold remove_time_at (rev [0..<Suc n]) x = fold remove_time_at (rev [0..<n]) (remove_time_at n x)" for x by simp
  show ?case
  proof (cases "drill_dimension (ds ! n) = DimensionTime")
    case False
    then have "remove_time_at n (ds, anchor) = (ds, anchor)" by (simp add: remove_time_at_def)
    with Suc.IH[of ds anchor] n False show ?thesis unfolding first by (simp add: taken split)
  next
    case True
    let ?ds = "take n ds @ drop (Suc n) ds"
    let ?a = "map_option (\<lambda>a. if int n < nav_size a then a\<lparr>nav_size := nav_size a - 1\<rparr> else a) anchor"
    have step: "remove_time_at n (ds, anchor) = (?ds, ?a)" using True by (simp add: remove_time_at_def)
    have ds: "n \<le> length ?ds" "take n ?ds = take n ds" "drop n ?ds = drop (Suc n) ds" using n by simp_all
    obtain a' where a': "fold remove_time_at (rev [0..<n]) (?ds, ?a) =
        (filter (\<lambda>d. drill_dimension d \<noteq> DimensionTime) (take n ds) @ drop (Suc n) ds, a')" "a' = None \<longleftrightarrow> ?a = None"
      "\<forall>a b. ?a = Some a \<and> a' = Some b \<longrightarrow> nav_mode b = nav_mode a \<and> nav_size b \<le> nav_size a \<and> (0 \<le> nav_size a \<longrightarrow> 0 \<le> nav_size b)"
      using Suc.IH[OF ds(1), of ?a] unfolding ds(2,3) by blast
    have "nav_mode b = nav_mode a \<and> nav_size b \<le> nav_size a \<and> (0 \<le> nav_size a \<longrightarrow> 0 \<le> nav_size b)"
      if "anchor = Some a" "a' = Some b" for a b
      using a'(3)[rule_format, of "if int n < nav_size a then a\<lparr>nav_size := nav_size a - 1\<rparr> else a" b] that
      by (auto split: if_splits)
    moreover have "filter (\<lambda>d. drill_dimension d \<noteq> DimensionTime) (take (Suc n) ds) =
        filter (\<lambda>d. drill_dimension d \<noteq> DimensionTime) (take n ds)" using True by (simp add: taken)
    moreover have "a' = None \<longleftrightarrow> anchor = None" using a'(2) by simp
    ultimately show ?thesis unfolding first step a'(1) by (intro exI[of _ a']) (simp only: simp_thms, blast)
  qed
qed auto

lemma removeTime_spec:
  obtains a' where "removeTimeDrilldowns ds anchor = (filter (\<lambda>d. drill_dimension d \<noteq> DimensionTime) ds, a')"
    "a' = None \<longleftrightarrow> anchor = None"
    "\<forall>a b. anchor = Some a \<and> a' = Some b \<longrightarrow> nav_mode b = nav_mode a \<and> nav_size b \<le> nav_size a
        \<and> (0 \<le> nav_size a \<longrightarrow> 0 \<le> nav_size b)"
  using removeTime_run[of "length ds" ds anchor] unfolding removeTimeDrilldowns_def by auto

lemma drillsIn_filter: "drillsIn ds c \<Longrightarrow> drillsIn (filter P ds) c"
  by (simp add: drillsIn_def list_all_iff)

lemma view_ok_dropTime:
  assumes "view_ok s"
  shows "view_ok (fst (dropSnapshotTime s))"
proof -
  obtain a' where r: "removeTimeDrilldowns (sn_drilldowns s) (sn_anchor s) =
      (filter (\<lambda>d. drill_dimension d \<noteq> DimensionTime) (sn_drilldowns s), a')" "a' = None \<longleftrightarrow> sn_anchor s = None"
    "\<forall>a b. sn_anchor s = Some a \<and> a' = Some b \<longrightarrow> nav_mode b = nav_mode a \<and> nav_size b \<le> nav_size a
        \<and> (0 \<le> nav_size a \<longrightarrow> 0 \<le> nav_size b)" by (rule removeTime_spec)
  let ?ds = "filter (\<lambda>d. drill_dimension d \<noteq> DimensionTime) (sn_drilldowns s)"
  let ?t = "s\<lparr>sn_drilldowns := ?ds, sn_anchor := a'\<rparr>"
  have anchor: "mode_valid (nav_mode b) \<and> 0 \<le> nav_size b \<and> nav_size b \<le> 5" if b: "a' = Some b" for b
  proof -
    obtain a where a: "sn_anchor s = Some a" using r(2) b by auto
    then have "mode_valid (nav_mode a) \<and> 0 \<le> nav_size a \<and> nav_size a \<le> 5" using assms by (simp add: view_ok_def anchor_ok_def)
    with r(3) a b show ?thesis by fastforce
  qed
  have drills: "drills_ok ?t"
    using assms drillsIn_filter by (auto simp: view_ok_def drills_ok_iff intro: distinct_map_filter)
  have t: "view_ok ?t"
    using assms drills anchor r(2) by (auto simp: view_ok_def sort_ok_def anchor_ok_def split: option.splits)
  show ?thesis
  proof (cases "sn_sub s")
    case None
    with t show ?thesis by (simp add: dropSnapshotTime_def r(1) Let_def)
  next
    case (Some sub)
    show ?thesis
    proof (cases "sn_drilldowns s = [] \<or> ?ds \<noteq> []")
      case True
      with t Some show ?thesis by (auto simp: dropSnapshotTime_def r(1) Let_def)
    next
      case False
      have sub: "dimension_valid sub" using assms Some by (simp add: view_ok_def drills_ok_iff)
      have none: "?ds = []" "sn_drilldowns s \<noteq> []" using False by simp_all
      let ?u = "?t\<lparr>sn_mode := ResultModeAggregate, sn_dimension := sub, sn_sub := None, sn_drilldowns := [],
        sn_sort := sortForTopLevelTransition sub (sn_sort s)\<rparr>"
      have "view_ok ?u" by (rule view_ok_top[OF t sub]) (use sub view_ok_direction[OF assms] in simp_all)
      then have "view_ok (?u\<lparr>sn_anchor := map_option (\<lambda>_. \<lparr>nav_mode = ResultModeAggregate, nav_size = 0\<rparr>) a'\<rparr>)"
        using assms r(2) by (intro view_ok_search(2)) (auto simp: view_ok_def anchor_ok_def)
      moreover have "fst (dropSnapshotTime s) = ?u\<lparr>sn_anchor := map_option (\<lambda>_. \<lparr>nav_mode = ResultModeAggregate, nav_size = 0\<rparr>) a'\<rparr>"
        using none(2) Some by (simp add: dropSnapshotTime_def r(1)[unfolded none(1)] Let_def none(1))
      ultimately show ?thesis by simp
    qed
  qed
qed

lemma dropHistoryTime_ok:
  "\<forall>e\<in>set es. view_ok (entry_snapshot e) \<Longrightarrow> \<forall>e\<in>set (dropHistoryTime promoted es). view_ok (entry_snapshot e)"
proof (induction promoted es rule: dropHistoryTime.induct)
  case (2 promoted e es)
  obtain x p where d: "dropSnapshotTime (entry_snapshot e) = (x, p)" by (cases "dropSnapshotTime (entry_snapshot e)") auto
  have "view_ok x" using view_ok_dropTime[of "entry_snapshot e"] 2 d by simp
  with 2 d show ?case by (auto split: if_splits)
qed simp

lemma session_ok_dropTime: "session_ok s \<Longrightarrow> session_ok (dropTimeDrilldowns s)"
proof -
  assume ok: "session_ok s"
  obtain x p where d: "dropSnapshotTime (snapshot_of s) = (x, p)" by (cases "dropSnapshotTime (snapshot_of s)") auto
  have "view_ok x" using view_ok_dropTime[of "snapshot_of s"] ok d by (simp add: session_ok_def)
  moreover have "\<forall>e\<in>set (rev (history s)). view_ok (entry_snapshot e)" using ok by (simp add: session_ok_def)
  from dropHistoryTime_ok[OF this, of p]
  have "\<forall>e\<in>set (rev (dropHistoryTime p (rev (history s)))). view_ok (entry_snapshot e)" by simp
  ultimately show ?thesis unfolding dropTimeDrilldowns_def d prod.case session_ok_def by simp
qed

lemma validateDateRange_ok: "is_ok (validateDateRange r) \<longleftrightarrow> range_ok r"
  by (auto simp: validateDateRange_def range_ok_def split: option.splits)

lemma view_ok_filter: "view_ok x \<Longrightarrow> range_ok (filter_range f) \<Longrightarrow> view_ok (filter_snapshot f x)"
  by (auto simp: filter_snapshot_def view_ok_def drills_ok_def sort_ok_def anchor_ok_def split: option.splits)

lemma view_ok_chosen [simp]: "view_ok (x\<lparr>sn_chosen := b\<rparr>) = view_ok x"
  by (simp add: view_ok_def drills_ok_def sort_ok_def anchor_ok_def cong: option.case_cong)

lemma session_ok_applyFilters: "session_ok s \<Longrightarrow> range_ok (filter_range f) \<Longrightarrow> session_ok (applyFilters f s)"
proof -
  assume ok: "session_ok s" and r: "range_ok (filter_range f)"
  have "\<forall>e\<in>set (history s). view_ok (filter_snapshot f (entry_snapshot e))" "view_ok (filter_snapshot f s)"
    using ok r view_ok_filter by (auto simp: session_ok_def)
  then show ?thesis by (auto simp: applyFilters_def session_ok_def)
qed

lemma session_ok_forget: "session_ok s \<Longrightarrow> session_ok (forgetChosenTimeGranularity s)"
  by (auto simp: forgetChosenTimeGranularity_def session_ok_def)

lemma session_ok_SetFilters: "session_ok s \<Longrightarrow> SetFilters f s = Inr s' \<Longrightarrow> session_ok s'"
  using session_ok_applyFilters[of s f] session_ok_dropTime session_ok_forget validateDateRange_ok[of "filter_range f"]
  by (auto simp: SetFilters_def bind_result_Inr Let_def split: if_splits)

lemma session_ok_applyTimeRange: "session_ok s \<Longrightarrow> range_ok r \<Longrightarrow> session_ok (applyTimeRange r s)"
  unfolding applyTimeRange_def by (intro session_ok_forget session_ok_dropTime session_ok_applyFilters) simp_all

lemma session_ok_SetTimeRange: "session_ok s \<Longrightarrow> SetTimeRange r s = Inr s' \<Longrightarrow> session_ok s'"
  using session_ok_applyTimeRange[of s r] validateDateRange_ok[of r] by (auto simp: SetTimeRange_def bind_result_Inr)

lemma session_ok_ClearPeriod: "session_ok s \<Longrightarrow> ClearPeriod s = Some s' \<Longrightarrow> session_ok s'"
  using session_ok_applyTimeRange[of s None] by (auto simp: ClearPeriod_def range_ok_def split: if_splits)

lemma session_ok_ShiftPeriod: "session_ok s \<Longrightarrow> ShiftPeriod delta s = Inr (Some s') \<Longrightarrow> session_ok s'"
  using session_ok_SetTimeRange by (auto simp: ShiftPeriod_def bind_result_Inr split: option.splits sum.splits prod.splits)

subsection \<open>Going back and reopening\<close>

lemma view_ok_clear_search: "view_ok x \<Longrightarrow> view_ok (x\<lparr>sn_search := '''', sn_anchor := None\<rparr>)"
  by (rule view_ok_search(1)) simp_all

lemma clear_level_ok:
  "\<forall>e\<in>set es. view_ok (entry_snapshot e) \<Longrightarrow> \<forall>e\<in>set (clear_level depth mode es). view_ok (entry_snapshot e)"
  by (induction es) (auto simp: Let_def view_ok_clear_search split: option.splits)

lemma session_ok_Back: "session_ok s \<Longrightarrow> Back s = Some (s', p) \<Longrightarrow> session_ok s'"
proof -
  assume ok: "session_ok s" and step: "Back s = Some (s', p)"
  have v: "view_ok s" using ok by (simp add: session_ok_def)
  have "\<forall>e\<in>set (rev (history s)). view_ok (entry_snapshot e)" using ok by (simp add: session_ok_def)
  from clear_level_ok[OF this] have cleared: "session_ok (clearSearchAtThisLevel s)"
    using view_ok_clear_search[OF v] by (simp add: clearSearchAtThisLevel_def session_ok_def)
  have unsub: "session_ok (s\<lparr>sn_sub := None, sn_sort := sortForDetailTransition (sn_dimension s) (sn_sort s)\<rparr>)"
    if "sn_sub s \<noteq> None" using view_ok_unsub[OF v that] ok by (simp add: session_ok_def)
  consider "s' = clearSelections s" | "s' = clearSearchAtThisLevel s" | "s' = fst (popHistory s)" "history s \<noteq> []"
    | "sn_sub s \<noteq> None" "s' = s\<lparr>sn_sub := None, sn_sort := sortForDetailTransition (sn_dimension s) (sn_sort s)\<rparr>"
    using step last_kind_Some[of s] by (auto simp: Back_def split: if_splits)
  then show ?thesis
    using ok cleared unsub session_ok_pop[OF ok] by cases simp_all
qed

lemma session_ok_truncate: "session_ok s \<Longrightarrow> session_ok (truncateDrillPath depth s)"
proof -
  assume ok: "session_ok s"
  define t where "t = (case sn_anchor s of None \<Rightarrow> s
    | Some a \<Rightarrow> if nav_size a > int depth then s\<lparr>sn_search := '''', sn_anchor := None\<rparr> else s)"
  have t: "view_ok t" "history t = history s" using ok view_ok_clear_search[of s]
    by (auto simp: t_def session_ok_def split: option.splits)
  have same: "dimension_valid (sn_dimension t)" using t(1) by (simp add: view_ok_def)
  define v where "v = clearSelections (t\<lparr>sn_drilldowns := take depth (sn_drilldowns t), sn_sub := None\<rparr>)"
  have u: "truncateDrillPath depth s = (if depth = 0
      then v\<lparr>sn_mode := ResultModeAggregate, sn_sort := sortForTopLevelTransition (sn_dimension v) (sn_sort v)\<rparr>
      else v\<lparr>sn_mode := ResultModeDetail, sn_sort := sortForDetailTransition (sn_dimension v) (sn_sort v)\<rparr>)"
    by (simp only: truncateDrillPath_def Let_def t_def[symmetric] v_def[symmetric])
  have f: "sn_dimension v = sn_dimension t" "sn_sort v = sn_sort t" "sn_drilldowns v = take depth (sn_drilldowns t)"
    "sn_sub v = None" "sn_currency v = sn_currency t" "sn_anchor v = sn_anchor t" "sn_search v = sn_search t"
    "sn_range v = sn_range t" "sn_granularity v = sn_granularity t" "history v = history s"
    by (simp_all add: v_def clearSelections_def t(2))
  note parts = view_ok_def drills_ok_iff sort_ok_def anchor_ok_def
  define ds' where "ds' = sn_drilldowns v"
  have ds: "distinct (map drill_dimension ds')" "\<forall>d\<in>set ds'. drill_ok d"
    "\<forall>c. sn_currency t = Some c \<longrightarrow> IsValidCurrency (scope_currency c) \<and> drillsIn ds' c"
    using t(1) unfolding ds'_def f
    by (auto simp: view_ok_def drills_ok_iff drillsIn_def list_all_iff take_map[symmetric] dest: in_set_takeD)
  have rest: "mode_valid (sn_mode t)" "granularity_valid (sn_granularity t)" "range_ok (sn_range t)" "anchor_ok t"
    "direction_valid (sort_order (sn_sort t))" using t(1) by (simp_all add: view_ok_def sort_ok_def)
  have "view_ok (v\<lparr>sn_mode := ResultModeDetail, sn_sort := sortForDetailTransition (sn_dimension t) (sn_sort t)\<rparr>)"
    using ds rest same by (simp add: parts f(1,2,4-) ds'_def[symmetric])
  moreover have "view_ok (v\<lparr>sn_mode := ResultModeAggregate, sn_sort := sortForTopLevelTransition (sn_dimension t) (sn_sort t)\<rparr>)"
    if "ds' = []" using ds rest same that by (simp add: parts f(1,2,4-) ds'_def[symmetric])
  moreover have "depth = 0 \<Longrightarrow> ds' = []" by (simp add: ds'_def f)
  ultimately have "view_ok (truncateDrillPath depth s)" unfolding u f(1,2) by simp
  then show ?thesis using ok by (simp add: session_ok_def u f(10))
qed

lemma session_ok_back_loop: "session_ok s \<Longrightarrow> session_ok (fst (back_loop depth changed s))"
proof (induction depth changed s rule: back_loop.induct)
  case (1 depth changed s)
  show ?case
  proof (cases "atDrillLevel depth s")
    case True
    with 1 show ?thesis by (simp add: back_loop.simps[of depth changed s])
  next
    case False
    then show ?thesis
      using 1 session_ok_truncate session_ok_Back
      by (cases "Back s") (auto simp: back_loop.simps[of depth changed s])
  qed
qed

lemma session_ok_BackTo: "session_ok s \<Longrightarrow> session_ok (fst (BackTo depth s))"
  by (simp add: BackTo_def session_ok_back_loop)

lemma drill_ok_stable: "drill_ok d \<Longrightarrow> drill_ok (d\<lparr>drill_label := ''''\<rparr>)"
  by (auto simp: drill_ok_def is_ok_iff bind_result_Inr split: if_splits option.splits)

lemma stable_fields:
  shows "map drill_dimension (stableDrilldowns ds) = map drill_dimension ds"
    and "drill_dimension ` set (stableDrilldowns ds) = drill_dimension ` set ds"
    and "drillsIn (stableDrilldowns ds) c = drillsIn ds c"
proof -
  show dims: "map drill_dimension (stableDrilldowns ds) = map drill_dimension ds"
    unfolding stableDrilldowns_def by (induction ds) simp_all
  then show "drill_dimension ` set (stableDrilldowns ds) = drill_dimension ` set ds" by (metis set_map)
  show "drillsIn (stableDrilldowns ds) c = drillsIn ds c"
    unfolding stableDrilldowns_def drillsIn_def by (induction ds) simp_all
qed

lemma stable_drill_ok: "\<forall>d\<in>set ds. drill_ok d \<Longrightarrow> \<forall>d\<in>set (stableDrilldowns ds). drill_ok d"
proof
  fix d
  assume ok: "\<forall>d\<in>set ds. drill_ok d" and "d \<in> set (stableDrilldowns ds)"
  then obtain e where "e \<in> set ds" "d = e\<lparr>drill_label := ''''\<rparr>" unfolding stableDrilldowns_def set_map by (elim imageE)
  with ok show "drill_ok d" by (simp add: drill_ok_stable)
qed

lemma reopen_fields:
  "sn_mode (snapshotFromAnalyticalState (analyticalStateFromSnapshot s)) = sn_mode s"
  "sn_dimension (snapshotFromAnalyticalState (analyticalStateFromSnapshot s)) = sn_dimension s"
  "sn_sub (snapshotFromAnalyticalState (analyticalStateFromSnapshot s)) = sn_sub s"
  "sn_granularity (snapshotFromAnalyticalState (analyticalStateFromSnapshot s)) = sn_granularity s"
  "sn_drilldowns (snapshotFromAnalyticalState (analyticalStateFromSnapshot s)) = stableDrilldowns (sn_drilldowns s)"
  "sn_range (snapshotFromAnalyticalState (analyticalStateFromSnapshot s)) = sn_range s"
  "sn_search (snapshotFromAnalyticalState (analyticalStateFromSnapshot s)) = sn_search s"
  "sn_currency (snapshotFromAnalyticalState (analyticalStateFromSnapshot s)) = sn_currency s"
  "sn_sort (snapshotFromAnalyticalState (analyticalStateFromSnapshot s)) = sn_sort s"
  "sn_anchor (snapshotFromAnalyticalState (analyticalStateFromSnapshot s)) = sn_anchor s"
  by (simp_all add: snapshotFromAnalyticalState_def analyticalStateFromSnapshot_def)

lemma stable_Nil: "stableDrilldowns ds = [] \<longleftrightarrow> ds = []"
  by (simp add: stableDrilldowns_def)

lemma view_ok_reopen: "view_ok s \<Longrightarrow> view_ok (snapshotFromAnalyticalState (analyticalStateFromSnapshot s))"
  unfolding view_ok_def drills_ok_iff sort_ok_def anchor_ok_def reopen_fields stable_fields stable_Nil
  using stable_drill_ok[of "sn_drilldowns s"] by blast

lemma session_of_state_snapshot:
  "snapshot_of ((sessionFromAnalyticalState state)\<lparr>history := h\<rparr>) = snapshotFromAnalyticalState state"
  by (simp add: sessionFromAnalyticalState_def snapshotFromAnalyticalState_def snapshot_of_def session_snapshot.defs)

lemma session_of_state_ok:
  "view_ok ((sessionFromAnalyticalState state)\<lparr>history := h\<rparr>) = view_ok (snapshotFromAnalyticalState state)"
  using view_ok_snapshot[of "(sessionFromAnalyticalState state)\<lparr>history := h\<rparr>"] unfolding session_of_state_snapshot ..

lemma session_ok_reopen:
  assumes "session_ok s" and "NewSessionFromViewState (view_of_session s) = Inr s'"
  shows "session_ok s'"
proof -
  have s': "s' = (sessionFromAnalyticalState (analyticalStateFromSession s))\<lparr>history :=
      map (\<lambda>frame. \<lparr>entry_snapshot = snapshotFromAnalyticalState (return_state frame), entry_position = no_position,
        entry_kind = (if return_kind frame = ReturnSubgroup then HistorySubGrouping else HistoryNavigation)\<rparr>)
      (view_returns (view_of_session s))\<rparr>"
    using assms(2) by (auto simp: NewSessionFromViewState_def bind_result_Inr view_of_session_def)
  have "view_ok s'" unfolding s' session_of_state_ok analyticalStateFromSession_def
    using assms(1) by (intro view_ok_reopen) (simp add: session_ok_def)
  then show ?thesis using assms(1) unfolding session_ok_def by (auto simp: s' view_of_session_def intro: view_ok_reopen)
qed

subsection \<open>The state machine\<close>

lemma view_ok_selected:
  fixes s :: session
  shows "view_ok (s\<lparr>selected_transactions := ts, selected_aggregates := as\<rparr>) \<longleftrightarrow> view_ok s"
proof -
  have "snapshot_of (s\<lparr>selected_transactions := ts, selected_aggregates := as\<rparr>) = snapshot_of s"
    by (simp add: snapshot_of_def session_snapshot.defs)
  then show ?thesis using view_ok_snapshot by metis
qed

lemma session_ok_selected: "session_ok s \<Longrightarrow> session_ok (s\<lparr>selected_transactions := ts, selected_aggregates := as\<rparr>)"
  by (simp add: session_ok_def view_ok_selected)

lemma session_ok_toggles:
  assumes "session_ok s"
  shows "session_ok (ToggleTransactionSelection identity s)" and "session_ok (ToggleAggregateSelection key s)"
    and "session_ok (ToggleSelectAll details aggregates s)"
proof -
  have t: "session_ok (s\<lparr>selected_transactions := ts\<rparr>)" for ts
    using session_ok_selected[OF assms, of "selected_aggregates s" ts] by simp
  moreover have a: "session_ok (s\<lparr>selected_aggregates := as\<rparr>)" for as
    using session_ok_selected[OF assms, of as "selected_transactions s"] by simp
  ultimately show "session_ok (ToggleTransactionSelection identity s)" "session_ok (ToggleAggregateSelection key s)"
    "session_ok (ToggleSelectAll details aggregates s)"
    by (simp_all add: ToggleTransactionSelection_def ToggleAggregateSelection_def ToggleSelectAll_def split: option.splits)
qed

inductive session_step :: "session \<Rightarrow> session \<Rightarrow> bool" where
  step_cycle: "session_step s (CycleGrouping s)"
| step_detail: "session_step s (ShowAllDetail s)"
| step_accounts: "session_step s (SwitchAccounts s)"
| step_time: "ToggleTime p s = Some s' \<Longrightarrow> session_step s s'"
| step_drill: "visible_row s row \<Longrightarrow> Drill row p s = Inr s' \<Longrightarrow> session_step s s'"
| step_back: "Back s = Some (s', p) \<Longrightarrow> session_step s s'"
| step_back_to: "session_step s (fst (BackTo depth s))"
| step_clear_period: "ClearPeriod s = Some s' \<Longrightarrow> session_step s s'"
| step_shift_period: "ShiftPeriod delta s = Inr (Some s') \<Longrightarrow> session_step s s'"
| step_set_period: "SetTimeRange r s = Inr s' \<Longrightarrow> session_step s s'"
| step_cycle_sort: "session_step s (CycleSort s)"
| step_reverse_sort: "session_step s (ReverseSort s)"
| step_search: "session_step s (SetSearch k s)"
| step_filters: "SetFilters f s = Inr s' \<Longrightarrow> session_step s s'"
| step_grouping: "SetGrouping d s = Inr s' \<Longrightarrow> session_step s s'"
| step_sub_grouping: "SetSubGrouping d s = Inr s' \<Longrightarrow> session_step s s'"
| step_currency: "SetCurrency c s = Inr s' \<Longrightarrow> session_step s s'"
| step_sort: "SetSort field s = Inr s' \<Longrightarrow> session_step s s'"
| step_toggle_transaction: "session_step s (ToggleTransactionSelection identity s)"
| step_toggle_aggregate: "session_step s (ToggleAggregateSelection key s)"
| step_toggle_all: "session_step s (ToggleSelectAll details aggregates s)"
| step_select: "session_step s (s\<lparr>selected_transactions := ts, selected_aggregates := as\<rparr>)"
| step_reopen: "NewSessionFromViewState (view_of_session s) = Inr s' \<Longrightarrow> session_step s s'"

text \<open>
  A session begins with the opening view or with a view opened from a link.  Validation of a link
  leaves two things open that the program's own links satisfy: a view below a drill or inside a
  sub-grouping is a detail view, and it is not sub-grouped by a dimension of its drill path.
\<close>

definition coherent_state :: "analytical_state \<Rightarrow> bool" where
  "coherent_state state \<longleftrightarrow>
     (an_sub state \<noteq> None \<or> an_drilldowns state \<noteq> [] \<longrightarrow> an_mode state = ResultModeDetail)
     \<and> (\<forall>d. an_sub state = Some d \<longrightarrow> d \<notin> drill_dimension ` set (an_drilldowns state))"

definition coherent_view :: "view_state \<Rightarrow> bool" where
  "coherent_view state \<longleftrightarrow> coherent_state (view_current state)
     \<and> (\<forall>frame\<in>set (view_returns state). coherent_state (return_state frame))"

lemma ValidateQuery_parts:
  assumes "is_ok (ValidateQuery q)"
  shows "mode_valid (query_mode q)" "granularity_valid (query_granularity q)"
    "direction_valid (sort_order (query_sort q))" "range_ok (query_range q)"
    "is_ok (validateDrilldowns {} (query_drilldowns q))"
    "is_ok (validateCurrencyScope (query_currency q) (query_drilldowns q))"
    "query_mode q = ResultModeAggregate \<Longrightarrow> validAggregateSort (query_group_by q) (sort_by (query_sort q))"
    "query_mode q \<noteq> ResultModeAggregate \<Longrightarrow> validDetailSort (sort_by (query_sort q))"
  using assms unfolding ValidateQuery_def range_ok_def
  by (auto simp: is_ok_iff bind_result_Inr split: option.splits if_splits)

lemma link_fields:
  "sn_mode (snapshotFromAnalyticalState state) = an_mode state"
  "sn_dimension (snapshotFromAnalyticalState state) = an_dimension state"
  "sn_sub (snapshotFromAnalyticalState state) = an_sub state"
  "sn_granularity (snapshotFromAnalyticalState state) = an_granularity state"
  "sn_drilldowns (snapshotFromAnalyticalState state) = stableDrilldowns (an_drilldowns state)"
  "sn_range (snapshotFromAnalyticalState state) = an_range state"
  "sn_search (snapshotFromAnalyticalState state) = an_search state"
  "sn_currency (snapshotFromAnalyticalState state) = an_currency state"
  "sn_sort (snapshotFromAnalyticalState state) = an_sort state"
  "sn_anchor (snapshotFromAnalyticalState state) = an_anchor state"
  by (simp_all add: snapshotFromAnalyticalState_def)

lemma analytical_query_fields:
  "query_mode (analyticalQuerySpec state) = (if an_sub state \<noteq> None then ResultModeAggregate else an_mode state)"
  "query_group_by (analyticalQuerySpec state) = (case an_sub state of None \<Rightarrow> an_dimension state | Some d \<Rightarrow> d)"
  "query_granularity (analyticalQuerySpec state) = an_granularity state"
  "query_sort (analyticalQuerySpec state) = an_sort state" "query_range (analyticalQuerySpec state) = an_range state"
  "query_currency (analyticalQuerySpec state) = an_currency state"
  "query_drilldowns (analyticalQuerySpec state) = stableDrilldowns (an_drilldowns state)"
  by (simp_all add: analyticalQuerySpec_def Let_def)

lemma ValidateScope_ok:
  "is_ok (ValidateScope scope) \<longleftrightarrow> mode_valid (nav_mode scope) \<and> 0 \<le> nav_size scope \<and> nav_size scope \<le> 5"
  by (auto simp: ValidateScope_def dimensionOrder_def)

lemma view_ok_link:
  assumes "is_ok (ValidateAnalytical state)" and "coherent_state state"
  shows "view_ok (snapshotFromAnalyticalState state)"
proof -
  note valid = assms(1)[unfolded ValidateAnalytical_Inr] and c = assms(2)[unfolded coherent_state_def]
  from valid have "is_ok (ValidateQuery (analyticalQuerySpec state))" by simp
  note q = ValidateQuery_parts[OF this, unfolded analytical_query_fields]
  have "mode_valid (an_mode state)" using q(1) c by (cases "an_sub state") simp_all
  moreover have "drills_ok (snapshotFromAnalyticalState state)"
    unfolding drills_ok_def link_fields stable_fields(2) using q(5,6) c valid by blast
  moreover have "sort_ok (snapshotFromAnalyticalState state)"
    unfolding sort_ok_def link_fields using q(3,7,8) by (cases "an_sub state") auto
  moreover have "anchor_ok (snapshotFromAnalyticalState state)"
    unfolding anchor_ok_def link_fields using valid by (auto simp: ValidateScope_ok)
  ultimately show ?thesis
    unfolding view_ok_def link_fields stable_Nil using valid q(2,4) c by blast
qed

lemma session_ok_link:
  assumes "NewSessionFromViewState state = Inr s" and "coherent_view state"
  shows "session_ok s"
proof -
  have valid: "is_ok (ValidateViewState state)" and s: "s = (sessionFromAnalyticalState (view_current state))\<lparr>history :=
      map (\<lambda>frame. \<lparr>entry_snapshot = snapshotFromAnalyticalState (return_state frame), entry_position = no_position,
        entry_kind = (if return_kind frame = ReturnSubgroup then HistorySubGrouping else HistoryNavigation)\<rparr>)
      (view_returns state)\<rparr>"
    using assms(1) by (auto simp: NewSessionFromViewState_def bind_result_Inr is_ok_iff)
  note v = valid[unfolded ValidateViewState_Inr] and c = assms(2)[unfolded coherent_view_def]
  have "view_ok s" unfolding s session_of_state_ok using v c by (simp add: view_ok_link)
  moreover have "view_ok (snapshotFromAnalyticalState (return_state frame))" if "frame \<in> set (view_returns state)" for frame
    using v c that by (simp add: view_ok_link)
  ultimately show ?thesis by (auto simp: session_ok_def s)
qed

inductive session_reach :: "session \<Rightarrow> bool" where
  reach_new: "session_reach NewSession"
| reach_link: "NewSessionFromViewState state = Inr s \<Longrightarrow> coherent_view state \<Longrightarrow> session_reach s"
| reach_step: "session_reach s \<Longrightarrow> session_step s s' \<Longrightarrow> session_reach s'"

lemma session_step_ok: "session_step s s' \<Longrightarrow> session_ok s \<Longrightarrow> session_ok s'"
proof (induction rule: session_step.induct)
  case (step_select s ts as)
  then show ?case by (rule session_ok_selected)
qed (blast intro: session_ok_toggles session_ok_CycleGrouping session_ok_ShowAllDetail session_ok_SwitchAccounts session_ok_ToggleTime
  session_ok_Drill session_ok_Back session_ok_BackTo session_ok_ClearPeriod session_ok_ShiftPeriod session_ok_SetTimeRange
  session_ok_CycleSort session_ok_ReverseSort session_ok_SetSearch session_ok_SetFilters session_ok_SetGrouping
  session_ok_SetSubGrouping session_ok_SetCurrency session_ok_SetSort session_ok_reopen)+

lemma session_reach_ok: "session_reach s \<Longrightarrow> session_ok s"
  by (induction rule: session_reach.induct) (use session_ok_new session_ok_link session_step_ok in blast)+

lemma session_step_star: "session_step\<^sup>*\<^sup>* s s' \<Longrightarrow> session_reach s \<Longrightarrow> session_reach s'"
  by (induction rule: rtranclp_induct) (blast intro: reach_step)+

subsection \<open>Durable views\<close>

lemma analytical_query:
  "analyticalQuerySpec (analyticalStateFromSnapshot s) = QuerySpec (snapshotFromAnalyticalState (analyticalStateFromSnapshot s))"
  unfolding analyticalQuerySpec_def QuerySpec_def reopen_fields
  by (simp add: analyticalStateFromSnapshot_def snapshotFromAnalyticalState_def cong: option.case_cong)

lemma reopened_query:
  "QuerySpec (snapshotFromAnalyticalState (analyticalStateFromSnapshot s))
     = (QuerySpec s)\<lparr>query_drilldowns := stableDrilldowns (query_drilldowns (QuerySpec s))\<rparr>"
  unfolding QuerySpec_def reopen_fields
  by (simp add: analyticalStateFromSnapshot_def snapshotFromAnalyticalState_def)

lemma snapshot_query: "QuerySpec (snapshot_of s) = QuerySpec s"
  unfolding QuerySpec_def session_simps ..

lemma analytical_ok: "view_ok s \<Longrightarrow> is_ok (ValidateAnalytical (analyticalStateFromSnapshot s))"
  unfolding ValidateAnalytical_Inr analytical_query
  using view_ok_query[OF view_ok_reopen[of s]]
  by (auto simp: view_ok_def drills_ok_iff anchor_ok_def analyticalStateFromSnapshot_def ValidateScope_def dimensionOrder_def)

lemma view_of_session_ok:
  "session_ok s \<Longrightarrow> is_ok (ValidateViewState (view_of_session s)) \<longleftrightarrow> length (history s) \<le> MaxReturnFrames"
  unfolding ValidateViewState_Inr
  by (auto simp: view_of_session_def analyticalStateFromSession_def session_ok_def returnKind_def intro: analytical_ok)

lemma reopened_state:
  "analyticalStateFromSnapshot (snapshotFromAnalyticalState (analyticalStateFromSnapshot s)) = analyticalStateFromSnapshot s"
  unfolding analyticalStateFromSnapshot_def[of "snapshotFromAnalyticalState _"] reopen_fields
  by (simp add: analyticalStateFromSnapshot_def snapshotFromAnalyticalState_def)

lemma session_state_snapshot:
  "analyticalStateFromSession ((sessionFromAnalyticalState state)\<lparr>history := h\<rparr>)
     = analyticalStateFromSnapshot (snapshotFromAnalyticalState state)"
  by (simp add: analyticalStateFromSession_def analyticalStateFromSnapshot_def sessionFromAnalyticalState_def
      snapshotFromAnalyticalState_def session_snapshot.defs)

lemma return_kinds [simp]: "returnKind (if returnKind k = ReturnSubgroup then HistorySubGrouping else HistoryNavigation) = returnKind k"
  by (simp add: returnKind_def)

text \<open>C34. Every session a client can reach from the opening view or a link has a query that the analytics accept,
  and so does every view that Back can return to.  Its durable view is valid exactly when the
  history has no more than the six return frames the durable form allows.\<close>

theorem reachable_session_valid:
  assumes "session_reach s"
  shows "is_ok (ValidateQuery (QuerySpec s))
    \<and> (\<forall>e\<in>set (history s). is_ok (ValidateQuery (QuerySpec (entry_snapshot e))))
    \<and> (is_ok (ValidateViewState (view_of_session s)) \<longleftrightarrow> length (history s) \<le> MaxReturnFrames)"
  using session_reach_ok[OF assms] view_of_session_ok[of s] by (auto simp: session_ok_def intro: view_ok_query)

text \<open>C35. A session whose history fits the durable form comes back from it: the view that the reopened
  session reports is the same, its history is as long, and its query differs only in the display
  labels of the drill path.\<close>

theorem durable_view_roundtrip:
  assumes "session_reach s" and "length (history s) \<le> MaxReturnFrames"
  shows "\<exists>s'. NewSessionFromViewState (view_of_session s) = Inr s' \<and> view_of_session s' = view_of_session s
    \<and> length (history s') = length (history s) \<and> \<not> hasSelection s'
    \<and> QuerySpec s' = (QuerySpec s)\<lparr>query_drilldowns := stableDrilldowns (query_drilldowns (QuerySpec s))\<rparr>"
proof -
  define s' where "s' = (sessionFromAnalyticalState (analyticalStateFromSession s))\<lparr>history :=
      map (\<lambda>frame. \<lparr>entry_snapshot = snapshotFromAnalyticalState (return_state frame), entry_position = no_position,
        entry_kind = (if return_kind frame = ReturnSubgroup then HistorySubGrouping else HistoryNavigation)\<rparr>)
      (view_returns (view_of_session s))\<rparr>"
  have "is_ok (ValidateViewState (view_of_session s))"
    using view_of_session_ok[OF session_reach_ok[OF assms(1)]] assms(2) by simp
  then have new: "NewSessionFromViewState (view_of_session s) = Inr s'"
    by (auto simp: NewSessionFromViewState_def is_ok_iff bind_result_Inr s'_def view_of_session_def)
  have current: "analyticalStateFromSession s' = analyticalStateFromSession s"
    unfolding s'_def session_state_snapshot by (simp add: analyticalStateFromSession_def reopened_state)
  have "history s' = map (\<lambda>e. \<lparr>entry_snapshot = snapshotFromAnalyticalState (analyticalStateFromSnapshot (entry_snapshot e)),
      entry_position = no_position, entry_kind = (if returnKind (entry_kind e) = ReturnSubgroup then HistorySubGrouping
        else HistoryNavigation)\<rparr>) (history s)"
    by (simp add: s'_def view_of_session_def)
  then have view: "view_of_session s' = view_of_session s" and len: "length (history s') = length (history s)"
    using current by (simp_all add: view_of_session_def reopened_state)
  have "QuerySpec s' = (QuerySpec s)\<lparr>query_drilldowns := stableDrilldowns (query_drilldowns (QuerySpec s))\<rparr>"
    using snapshot_query[of s'] reopened_query[of s]
    unfolding s'_def session_of_state_snapshot by (simp add: analyticalStateFromSession_def)
  moreover have "\<not> hasSelection s'"
    by (simp add: s'_def sessionFromAnalyticalState_def hasSelection_def session_snapshot.defs)
  ultimately show ?thesis using new view len by blast
qed

lemma truncate_level: "atDrillLevel depth (truncateDrillPath depth t)"
  by (auto simp: atDrillLevel_def truncateDrillPath_def clearSelections_def Let_def min_def)

lemma back_loop_level:
  "atDrillLevel depth (fst (back_loop depth changed t)) \<and> snd (back_loop depth changed t) = (changed \<or> \<not> atDrillLevel depth t)"
proof (induction depth changed t rule: back_loop.induct)
  case (1 depth changed t)
  then show ?case
    by (cases "Back t") (auto simp: back_loop.simps[of depth changed t] truncate_level)
qed

text \<open>C37. Following a breadcrumb always ends, at the asked level or above it, however long the history
  is; it reports a change exactly when the view was not there already, and otherwise changes nothing.\<close>

theorem BackTo_reaches_level:
  "atDrillLevel depth (fst (BackTo depth s)) \<and> snd (BackTo depth s) = (\<not> atDrillLevel depth s)
     \<and> (atDrillLevel depth s \<longrightarrow> fst (BackTo depth s) = s)"
  using back_loop_level[of depth False s] by (simp add: BackTo_def back_loop.simps[of depth False s])

theorem BackTo_reaches_level_witness: "fst (BackTo 0 NewSession) = NewSession \<and> \<not> snd (BackTo 0 NewSession)"
  using BackTo_reaches_level[of 0 NewSession] by (simp add: atDrillLevel_def NewSession_def)

subsection \<open>Going down and back\<close>

definition sample_total :: money where
  "sample_total = \<lparr>minor = 0, currency = ''EUR'', scale = 2\<rparr>"

definition sample_row :: "dimension \<Rightarrow> aggregate_row" where
  "sample_row d = \<lparr>row_dimension = d, row_key = ''tea'', row_label = ''Tea'', row_group = '''', row_count = 1,
     row_in = sample_total, row_out = sample_total, row_total = sample_total, row_period = None, row_top_category = '''',
     row_top_percent = 0, row_share_tenths = 0, row_flags = \<lparr>flag_selected = False, flag_hidden = False, flag_pending = False\<rparr>\<rparr>"

lemma sample_visible: "sn_currency s = None \<Longrightarrow> sn_sub s \<noteq> None \<or> sn_mode s = ResultModeAggregate \<Longrightarrow> visible_row s (sample_row d)"
proof -
  have "IsValidCurrency ''EUR''" by code_simp
  then show "sn_currency s = None \<Longrightarrow> sn_sub s \<noteq> None \<or> sn_mode s = ResultModeAggregate \<Longrightarrow> visible_row s (sample_row d)"
    by (simp add: visible_row_def sample_row_def sample_total_def)
qed

lemma sample_drill:
  assumes "sn_currency s = None" "sn_sub s \<noteq> None \<or> sn_mode s = ResultModeAggregate"
    "d = (case sn_sub s of None \<Rightarrow> sn_dimension s | Some d \<Rightarrow> d)" "d \<noteq> DimensionTime"
  shows "\<exists>t. visible_row s (sample_row d) \<and> Drill (sample_row d) no_position s = Inr t \<and> sn_sub t = None
    \<and> sn_currency t = None \<and> map drill_dimension (sn_drilldowns t) = map drill_dimension (sn_drilldowns s) @ [d]"
proof -
  define t where "t = clearSelections ((pushHistory HistoryNavigation no_position s)\<lparr>sn_drilldowns := sn_drilldowns s @
      [drill_target (sample_row d)], sn_mode := ResultModeDetail, sn_sub := None, sn_sort := sortForDetailTransition d (sn_sort s)\<rparr>)"
  have "Drill (sample_row d) no_position s = Inr t"
    using assms(3,4) by (simp add: Drill_Inr t_def sample_row_def)
  moreover have "sn_currency t = None" using assms(1) by (simp add: t_def clearSelections_def pushHistory_def)
  ultimately show ?thesis using sample_visible[OF assms(1,2)]
    by (intro exI[of _ t]) (simp add: t_def clearSelections_def pushHistory_def drill_target_def sample_row_def)
qed

text \<open>
  A drill path of \<open>n\<close> levels: a first row, and then for each level a sub-grouping and one of its rows.
\<close>

inductive drilled_through :: "session \<Rightarrow> nat \<Rightarrow> session \<Rightarrow> bool" for s where
  drilled_first: "visible_row s row \<Longrightarrow> Drill row p s = Inr t \<Longrightarrow> drilled_through s 1 t"
| drilled_deeper: "drilled_through s n t \<Longrightarrow> SetSubGrouping d t = Inr u \<Longrightarrow> visible_row u row \<Longrightarrow>
    Drill row p u = Inr v \<Longrightarrow> drilled_through s (n + 1) v"

lemma Drill_path:
  "Drill row p s = Inr t \<Longrightarrow> length (history t) = length (history s) + 1
     \<and> length (sn_drilldowns t) = length (sn_drilldowns s) + 1 \<and> sn_sub t = None"
  by (auto simp: Drill_Inr clearSelections_def pushHistory_def)

lemma SetSubGrouping_path:
  "SetSubGrouping d s = Inr t \<Longrightarrow> sn_sub s = None \<Longrightarrow>
     length (history t) = length (history s) + 1 \<and> sn_drilldowns t = sn_drilldowns s"
  by (auto simp: SetSubGrouping_def Let_def clearSelections_def pushHistory_def split: if_splits)

text \<open>The first level leaves one history entry behind, and every further level two.\<close>

lemma drilled_through_path:
  assumes "drilled_through s n t" and "session_reach s" "history s = []" "sn_drilldowns s = []"
  shows "session_reach t \<and> 1 \<le> n \<and> sn_sub t = None \<and> length (sn_drilldowns t) = n
    \<and> length (history t) = 2 * n - 1"
  using assms(1)
proof induction
  case (drilled_first row p t)
  then show ?case
    using assms(2-) Drill_path[OF drilled_first(2)] reach_step[OF assms(2) step_drill[OF drilled_first]] by simp
next
  case (drilled_deeper n t d u row p v)
  have "session_reach v"
    using drilled_deeper.IH drilled_deeper.hyps(2-4) step_drill step_sub_grouping reach_step by metis
  then show ?case
    using drilled_deeper.IH SetSubGrouping_path[OF drilled_deeper.hyps(2)] Drill_path[OF drilled_deeper.hyps(4)] by simp
qed

text \<open>
  C38. A drill path through sub-groupings always has a valid query, but the durable form holds only
  three levels of it: each level below the first costs two return frames, so from the fourth level
  on the view of the session is refused for too many return frames.
\<close>

theorem drill_path_durable:
  assumes "session_reach s" and "history s = []" and "sn_drilldowns s = []" and "drilled_through s n t"
  shows "length (sn_drilldowns t) = n \<and> is_ok (ValidateQuery (QuerySpec t))
    \<and> ValidateViewState (view_of_session t) = (if n \<le> 3 then Inr () else Inl TooManyReturnFrames)"
proof -
  from drilled_through_path[OF assms(4,1-3)] have t: "session_reach t" "length (sn_drilldowns t) = n"
    "length (history t) = 2 * n - 1" "1 \<le> n" by simp_all
  have ok: "session_ok t" using t(1) by (rule session_reach_ok)
  have "ValidateViewState (view_of_session t) = (if n \<le> 3 then Inr () else Inl TooManyReturnFrames)"
  proof (cases "n \<le> 3")
    case True
    then show ?thesis using view_of_session_ok[OF ok] t(3) by (simp add: MaxReturnFrames_def is_ok_iff)
  next
    case False
    then have "6 < length (history t)" unfolding t(3) by linarith
    with False show ?thesis by (simp add: ValidateViewState_def view_of_session_def MaxReturnFrames_def)
  qed
  with t(2) ok show ?thesis by (simp add: session_ok_def view_ok_query)
qed

lemma sample_descend:
  assumes "drilled_through NewSession n t \<and> sn_sub t = None \<and> sn_currency t = None
      \<and> map drill_dimension (sn_drilldowns t) = ds"
    and "ds \<noteq> []" "d \<in> set dimensionOrder" "d \<notin> set ds" "d \<noteq> DimensionTime"
  shows "\<exists>v. drilled_through NewSession (n + 1) v \<and> sn_sub v = None \<and> sn_currency v = None
    \<and> map drill_dimension (sn_drilldowns v) = ds @ [d]"
proof -
  define u where "u = clearSelections ((pushHistory HistorySubGrouping no_position t)\<lparr>sn_sub := Some d,
      sn_sort := sortForAggregateTransition d (sn_sort t)\<rparr>)"
  have u: "SetSubGrouping d t = Inr u"
    using assms by (auto simp: SetSubGrouping_def Let_def u_def available_sub dimensionOrder_valid)
  have "sn_currency u = None" "sn_sub u = Some d" "sn_drilldowns u = sn_drilldowns t"
    using assms(1) by (simp_all add: u_def clearSelections_def pushHistory_def)
  with sample_drill[of u d] assms(5) obtain v where v: "visible_row u (sample_row d)"
      "Drill (sample_row d) no_position u = Inr v" "sn_sub v = None" "sn_currency v = None"
      "map drill_dimension (sn_drilldowns v) = map drill_dimension (sn_drilldowns t) @ [d]" by fastforce
  with drilled_deeper[OF conjunct1[OF assms(1)] u v(1,2)] assms(1) show ?thesis by blast
qed

lemma sample_path:
  "\<exists>t. drilled_through NewSession 4 t \<and> length (sn_drilldowns t) = 4"
proof -
  let ?P = "\<lambda>t n ds. drilled_through NewSession n t \<and> sn_sub t = None \<and> sn_currency t = None
    \<and> map drill_dimension (sn_drilldowns t) = ds"
  have "\<exists>t. ?P t 1 [DimensionMerchant]"
    using sample_drill[of NewSession DimensionMerchant] drilled_first[of NewSession "sample_row DimensionMerchant"]
    by (fastforce simp: NewSession_def)
  then obtain t1 where "?P t1 1 [DimensionMerchant]" ..
  from sample_descend[OF this, of DimensionCategory] obtain t2
    where "?P t2 (1 + 1) ([DimensionMerchant] @ [DimensionCategory])"
    unfolding dimensionOrder_def by fastforce
  from sample_descend[OF this, of DimensionGroup] obtain t3
    where "?P t3 (1 + 1 + 1) (([DimensionMerchant] @ [DimensionCategory]) @ [DimensionGroup])"
    unfolding dimensionOrder_def by fastforce
  from sample_descend[OF this, of DimensionAccount] obtain t4
    where t4: "?P t4 (1 + 1 + 1 + 1) ((([DimensionMerchant] @ [DimensionCategory]) @ [DimensionGroup]) @ [DimensionAccount])"
    unfolding dimensionOrder_def by fastforce
  then have "length (map drill_dimension (sn_drilldowns t4)) = 4" by simp
  moreover from t4 have "drilled_through NewSession 4 t4" by (simp add: numeral_eq_Suc)
  ultimately show ?thesis by auto
qed

theorem drill_path_durable_witness:
  "\<exists>t. drilled_through NewSession 4 t \<and> ValidateViewState (view_of_session t) = Inl TooManyReturnFrames"
proof -
  obtain t where t: "drilled_through NewSession 4 t" using sample_path by blast
  have "ValidateViewState (view_of_session t) = Inl TooManyReturnFrames"
    using drill_path_durable[OF reach_new _ _ t] by (simp add: NewSession_def)
  with t show ?thesis by blast
qed

theorem reachable_session_valid_witness:
  "is_ok (ValidateQuery (QuerySpec (ShowAllDetail NewSession))) \<and> is_ok (ValidateViewState (view_of_session (ShowAllDetail NewSession)))"
  using reachable_session_valid[OF reach_step[OF reach_new step_detail]]
  by (simp add: ShowAllDetail_def NewSession_def MaxReturnFrames_def clearSelections_def pushHistory_def)

theorem durable_view_roundtrip_witness:
  "\<exists>s'. NewSessionFromViewState (view_of_session (ShowAllDetail NewSession)) = Inr s'
     \<and> view_of_session s' = view_of_session (ShowAllDetail NewSession)"
  using durable_view_roundtrip[OF reach_step[OF reach_new step_detail]]
  by (auto simp: ShowAllDetail_def NewSession_def MaxReturnFrames_def clearSelections_def pushHistory_def)

lemma clear_level_above: "length (sn_drilldowns (entry_snapshot e)) \<noteq> depth \<Longrightarrow> clear_level depth mode (e # es) = e # es"
  by (simp add: Let_def)

text \<open>
  C36. Back undoes a drill: the first Back after it returns to the view the drill left, at the
  position it was left at and with the selection cleared.  The one exception is a search that was
  applied in a detail view exactly one level below the view the drill left, which a jump to the
  accounts strands: then the first Back clears that search, and the next one returns.
\<close>

theorem Drill_Back:
  assumes "Drill row position s = Inr s'"
  shows "if sn_search s \<noteq> ''''
      \<and> sn_anchor s = Some \<lparr>nav_mode = ResultModeDetail, nav_size = int (length (sn_drilldowns s)) + 1\<rparr>
    then \<exists>t. Back s' = Some (t, no_position) \<and> QuerySpec t = (QuerySpec s')\<lparr>query_search := ''''\<rparr>
      \<and> Back t = Some (clearSelections s, position)
    else Back s' = Some (clearSelections s, position)"
proof -
  have s': "s' = clearSelections ((pushHistory HistoryNavigation position s)\<lparr>sn_drilldowns := sn_drilldowns s @ [drill_target row],
      sn_mode := ResultModeDetail, sn_sub := None, sn_sort := sortForDetailTransition (row_dimension row) (sn_sort s)\<rparr>)"
    using assms by (simp add: Drill_Inr)
  have f: "sn_search s' = sn_search s" "sn_anchor s' = sn_anchor s" "sn_mode s' = ResultModeDetail" "sn_sub s' = None"
    "length (sn_drilldowns s') = length (sn_drilldowns s) + 1" "\<not> hasSelection s'"
    "history s' = history s @ [\<lparr>entry_snapshot = snapshot_of s, entry_position = position, entry_kind = HistoryNavigation\<rparr>]"
    "selected_transactions s' = {}" "selected_aggregates s' = {}"
    by (simp_all add: s' clearSelections_def pushHistory_def hasSelection_def)
  have level: "searchAtThisLevel s' \<longleftrightarrow>
      sn_anchor s = Some \<lparr>nav_mode = ResultModeDetail, nav_size = int (length (sn_drilldowns s)) + 1\<rparr>"
    by (auto simp: searchAtThisLevel_def f split: option.splits)
  have pop: "popHistory t = (clearSelections s, position)"
    if "history t = history s'" "selected_transactions t = {}" "selected_aggregates t = {}" for t
    using that by (simp add: popHistory_def Let_def f clearSelections_def restore_snapshot)
  have "clear_level (length (sn_drilldowns s')) (sn_mode s') (rev (history s')) = rev (history s')"
    unfolding f rev_append by (simp add: clear_level_above session_simps del: clear_level.simps)
  then have kept: "history (clearSearchAtThisLevel s') = history s'" by (simp add: clearSearchAtThisLevel_def)
  have t: "sn_search (clearSearchAtThisLevel s') = ''''" "sn_sub (clearSearchAtThisLevel s') = None"
    "selected_transactions (clearSearchAtThisLevel s') = {}" "selected_aggregates (clearSearchAtThisLevel s') = {}"
    using f by (simp_all add: clearSearchAtThisLevel_def)
  have "Back (clearSearchAtThisLevel s') = Some (clearSelections s, position)"
    using t f(7) by (simp add: Back_def hasSelection_def kept pop)
  moreover have "QuerySpec (clearSearchAtThisLevel s') = (QuerySpec s')\<lparr>query_search := ''''\<rparr>"
    by (simp add: QuerySpec_def clearSearchAtThisLevel_def Let_def cong: option.case_cong)
  ultimately show ?thesis
    using f pop[OF refl f(8,9)] by (auto simp: Back_def level)
qed

theorem Drill_Back_witness:
  "\<exists>s'. Drill (sample_row DimensionMerchant) no_position (SetSearch ''tea'' NewSession) = Inr s'
     \<and> Back s' = Some (SetSearch ''tea'' NewSession, no_position)"
proof -
  have drill: "\<exists>s'. Drill (sample_row DimensionMerchant) no_position (SetSearch ''tea'' NewSession) = Inr s'"
    by (simp add: Drill_Inr sample_row_def NewSession_def SetSearch_def clearSelections_def Let_def)
  then obtain s' where s': "Drill (sample_row DimensionMerchant) no_position (SetSearch ''tea'' NewSession) = Inr s'" ..
  from Drill_Back[OF s'] s' show ?thesis
    by (simp add: NewSession_def SetSearch_def clearSelections_def Let_def session_marker_def)
qed

text \<open>C39. A search applied inside a drill survives the direct jump to the accounts out of the reach of
  Back, which then reports that there is nothing to undo.  Choosing the account grouping moves the
  search to the level it goes to, and there Back clears it.\<close>

theorem SwitchAccounts_strands_search:
  assumes "sn_drilldowns s \<noteq> []" and "k \<noteq> ''''"
  shows "sn_search (SwitchAccounts (SetSearch k s)) = k \<and> Back (SwitchAccounts (SetSearch k s)) = None
    \<and> (\<exists>t t' position. SetGrouping DimensionAccount (SetSearch k s) = Inr t \<and> sn_search t = k
        \<and> Back t = Some (t', position) \<and> sn_search t' = '''')"
proof -
  have jump: "sn_search (SwitchAccounts (SetSearch k s)) = k \<and> Back (SwitchAccounts (SetSearch k s)) = None"
    using assms by (simp add: SwitchAccounts_def SetSearch_def Let_def Back_def clearSelections_def hasSelection_def
      searchAtThisLevel_def session_marker_def)
  have "\<exists>t. SetGrouping DimensionAccount (SetSearch k s) = Inr t \<and> sn_search t = k \<and> \<not> hasSelection t \<and> searchAtThisLevel t"
    using assms by (simp add: SetGrouping_def SetSearch_def Let_def clearSelections_def hasSelection_def leaveDrillPath_def
      searchAtThisLevel_def session_marker_def rebaseSearchAnchor_def dimensionOrder_def)
  then obtain t where "SetGrouping DimensionAccount (SetSearch k s) = Inr t" "sn_search t = k" "\<not> hasSelection t"
      "searchAtThisLevel t" by blast
  moreover from this have "Back t = Some (clearSearchAtThisLevel t, no_position)" using assms(2) by (simp add: Back_def)
  ultimately show ?thesis using jump by (auto simp: clearSearchAtThisLevel_def)
qed

theorem SwitchAccounts_strands_search_witness:
  "sn_search (SwitchAccounts (SetSearch ''tea'' (NewSession\<lparr>sn_drilldowns := [drill_target (sample_row DimensionMerchant)]\<rparr>))) = ''tea''
     \<and> Back (SwitchAccounts (SetSearch ''tea'' (NewSession\<lparr>sn_drilldowns := [drill_target (sample_row DimensionMerchant)]\<rparr>))) = None"
  using SwitchAccounts_strands_search[of "NewSession\<lparr>sn_drilldowns := [drill_target (sample_row DimensionMerchant)]\<rparr>" "''tea''"]
  by simp

subsection \<open>Selection\<close>

lemma split_at_char:
  assumes "a @ c # b = a' @ c # b'" and "c \<notin> set a" "c \<notin> set a'"
  shows "a = a' \<and> b = b'"
  using assms
proof (induction a arbitrary: a')
  case Nil
  then show ?case by (cases a') auto
next
  case (Cons x a)
  then show ?case by (cases a') auto
qed

lemma natural_text_plain: "0 \<le> i \<Longrightarrow> CHR '':'' \<notin> set (format_int i)"
    using decimal_digits_digits[of "CHR '':''" "nat i"] by (auto simp: format_int_def is_digit_def byte_def)

lemma natural_text_inject:
  assumes "0 \<le> i" "0 \<le> j" "format_int i = format_int j"
  shows "i = j"
proof -
  have "digits_value (decimal_digits (nat i)) = digits_value (decimal_digits (nat j))"
    using assms by (simp add: format_int_def)
  then show "i = j" using assms by simp
qed

lemma AggregateIdentity_inject:
  assumes "dimension_valid (row_dimension r)" "dimension_valid (row_dimension q)"
  shows "AggregateIdentity r = AggregateIdentity q \<longleftrightarrow> row_dimension r = row_dimension q \<and> row_key r = row_key q
    \<and> scale (row_total r) = scale (row_total q) \<and> currency (row_total r) = currency (row_total q)"
proof
  have plain: "CHR '':'' \<notin> set (dimension_string d)" if "dimension_valid d" for d
    using that by (cases d) (auto simp: dimension_string_def dimension_valid_def)
  let ?tail = "\<lambda>x. format_int (uint (scale (row_total x))) @ CHR '':'' # currency (row_total x)"
  let ?mid = "\<lambda>x. format_int (int (length (row_key x))) @ CHR '':'' # row_key x @ CHR '':'' # ?tail x"
  assume same: "AggregateIdentity r = AggregateIdentity q"
  have "dimension_string (row_dimension r) = dimension_string (row_dimension q) \<and> ?mid r = ?mid q"
    by (rule split_at_char[of _ "CHR '':''"]) (use same assms plain in \<open>simp_all add: AggregateIdentity_def\<close>)
  then have dim: "row_dimension r = row_dimension q" and mid: "?mid r = ?mid q"
    using assms by (cases "row_dimension r"; cases "row_dimension q"; auto simp: dimension_string_def dimension_valid_def)+
  from split_at_char[OF mid] have "format_int (int (length (row_key r))) = format_int (int (length (row_key q)))"
    and key: "row_key r @ CHR '':'' # ?tail r = row_key q @ CHR '':'' # ?tail q"
    by (simp_all add: natural_text_plain)
  then have "length (row_key r) = length (row_key q)"
    using natural_text_inject[of "int (length (row_key r))" "int (length (row_key q))"] by simp
  with key have "row_key r = row_key q" and tail: "?tail r = ?tail q" by auto
  from split_at_char[OF tail] have "format_int (uint (scale (row_total r))) = format_int (uint (scale (row_total q)))"
    and "currency (row_total r) = currency (row_total q)" by (simp_all add: natural_text_plain)
  moreover from this have "scale (row_total r) = scale (row_total q)"
    using natural_text_inject[of "uint (scale (row_total r))" "uint (scale (row_total q))"] by (simp add: word_uint_eqI)
  ultimately show "row_dimension r = row_dimension q \<and> row_key r = row_key q
      \<and> scale (row_total r) = scale (row_total q) \<and> currency (row_total r) = currency (row_total q)"
    using dim \<open>row_key r = row_key q\<close> by simp
qed (simp add: AggregateIdentity_def)

lemma toggleAll_set:
  "toggleAll selected visible =
     (if visible \<noteq> [] \<and> set visible \<subseteq> selected then selected - set visible else selected \<union> set visible)"
proof -
  have "fold (\<lambda>x S. S - {x}) xs S = S - set xs" for xs and S :: "string set"
    by (induction xs arbitrary: S) auto
  moreover have "fold insert xs S = S \<union> set xs" for xs and S :: "string set"
    by (induction xs arbitrary: S) auto
  moreover have "(0 < length visible \<and> list_all (\<lambda>x. x \<in> selected) visible) = (visible \<noteq> [] \<and> set visible \<subseteq> selected)"
    by (auto simp: list_all_iff)
  ultimately show ?thesis unfolding toggleAll_def Let_def by (cases "visible \<noteq> [] \<and> set visible \<subseteq> selected") (simp_all only: simp_thms if_True if_False)
qed

text \<open>C40. Select-all on aggregate rows selects exactly the listed rows, or clears exactly them when they
  are all selected already: the row identities tell rows of different dimension, key, currency or
  scale apart, so no other row changes.\<close>

theorem ToggleSelectAll_rows:
  assumes "list_all (\<lambda>r. dimension_valid (row_dimension r)) (row # rows)"
  shows "AggregateIdentity row \<in> selected_aggregates (ToggleSelectAll None rows s) \<longleftrightarrow>
    (if list_ex (\<lambda>r. row_dimension r = row_dimension row \<and> row_key r = row_key row
        \<and> scale (row_total r) = scale (row_total row) \<and> currency (row_total r) = currency (row_total row)) rows
     then list_ex (\<lambda>r. AggregateIdentity r \<notin> selected_aggregates s) rows
     else AggregateIdentity row \<in> selected_aggregates s)"
proof -
  have "AggregateIdentity row \<in> AggregateIdentity ` set rows \<longleftrightarrow>
    list_ex (\<lambda>r. row_dimension r = row_dimension row \<and> row_key r = row_key row
        \<and> scale (row_total r) = scale (row_total row) \<and> currency (row_total r) = currency (row_total row)) rows"
    unfolding list_ex_iff image_iff using assms AggregateIdentity_inject[of _ row] by (metis list_all_iff list.set_intros)
  then show ?thesis by (auto simp: ToggleSelectAll_def toggleAll_set list_ex_iff)
qed

theorem ToggleSelectAll_rows_witness:
  "AggregateIdentity (sample_row DimensionGroup) \<in> selected_aggregates (ToggleSelectAll None [sample_row DimensionGroup] NewSession)"
  using ToggleSelectAll_rows[of "sample_row DimensionGroup" "[sample_row DimensionGroup]" NewSession]
  by (simp add: sample_row_def NewSession_def dimension_valid_def)

end
