(* ===== verification/Spec2Isabelle.thy ===== *)
theory Spec2Isabelle
  imports Replay Apply_Preserves Analytics_Query Analytics_Ranges Analytics_CrossTab Rebase
    Journal_Steps Commit Analytics_Duplicates Analytics_Amazon Session_Steps
begin

text \<open>
  The core of moneyflow: the ledger, its journal of pending operations, the store that keeps both,
  the analytics over the effective ledger, and the session through which a client looks at them.

  \<^bold>\<open>How the program fits together.\<close>  A committed profile (entities and transaction records) and a
  journal of operations with a cursor are kept in an SQLite file.  Replaying the operations before
  the cursor over the committed profile gives the effective profile; every view is computed from
  its materialised transactions by the analytics.  A client asks for a view through a session, whose
  query specification the analytics validate, and edits by appending operations to the journal.
  A commit folds the effective profile into the committed tables and empties the journal.  A refresh
  of the provider's data replaces the committed profile, and the journal is rebased onto it.

  \<^bold>\<open>Values\<close> (\<open>internal/domain\<close>).
  \<^item> \<open>Prelude\<close>, \<open>Text_Utf8\<close>, \<open>Machine_Ints\<close>, \<open>Ordering\<close>: results, loops that stop at the first error,
    strings as lists of bytes, UTF-8, decimal numbers, \<open>int64\<close> and \<open>uint64\<close> as words, and Go's
    sorting functions with the locale \<open>comparison\<close> for a comparator's contract.
  \<^item> \<open>Money\<close> (\<open>money.go\<close>), \<open>Dates\<close> (\<open>date.go\<close>), \<open>Entities\<close> (\<open>labels.go\<close>, \<open>entities.go\<close>,
    \<open>transaction.go\<close>), \<open>Profile\<close> and \<open>Snapshot\<close> (\<open>profile.go\<close>), \<open>Operations\<close> (\<open>operations.go\<close>),
    \<open>Query_Spec\<close> (\<open>query.go\<close>).  Each type is a record or a datatype with the fields and constructors
    of the code; each error is a constructor of an error datatype.

  \<^bold>\<open>Replay\<close> (\<open>internal/replay\<close>).
  \<^item> \<open>Apply_Operation\<close>: \<open>ApplyOperation\<close> with the handler of every operation, shown to be the declared
    effect under the declared guard; \<open>Apply_Preserves\<close>: the profile invariant is kept.
  \<^item> \<open>Replay\<close>: the indexed replay with its positions, deferred deletion and collision indexes, shown
    to refine the repeated reference transition.  The collision index is the locale \<open>key_index\<close>.
  \<^item> \<open>Rebase\<close> (\<open>provider_rebase.go\<close>), \<open>Affected\<close> (\<open>affected.go\<close>), \<open>Known_Drills\<close> (\<open>drills.go\<close>).

  \<^bold>\<open>Store\<close> (\<open>internal/store\<close>, \<open>internal/store/sqlite\<close>, \<open>internal/app/commit.go\<close>).
  \<^item> \<open>Journal_Codec\<close> (\<open>codec.go\<close>): operation payloads as JSON trees, whose strings are written with
    every invalid byte replaced, and their round trip, which holds exactly for valid UTF-8.
  \<^item> \<open>Journal_Store\<close> (\<open>journal.go\<close>, \<open>cancel_hide.go\<close>, \<open>load.go\<close>): the journal's handlers on tables,
    where each driver call may fail.  A connection holds the committed tables and those of its open
    transaction, and \<open>finish\<close> commits or rolls back; what a failed handler had written by then is an
    argument that the theorems quantify over.  \<open>Journal_Steps\<close>: the handlers as steps of a state
    machine, with its invariant, atomicity, refinement to a list of operations, the exact condition
    under which the journal loads, and liveness of undo and redo.
  \<^item> \<open>Fold_Tables\<close> (\<open>fold.go\<close>, \<open>schema/profile.sql\<close>): the statements of a fold under the schema's
    constraints; \<open>Fold_Correct\<close>: they succeed exactly when no new entity is merged into a later new
    one, and then store the effective rows.  A table of entities is the locale \<open>fold_table\<close>.
  \<^item> \<open>Csv_State\<close>, \<open>Csv_Fold\<close> (\<open>bankcsv.go\<close>, \<open>bankcsv_import.go\<close>): the ledger of imported rows and
    what a fold writes to it; \<open>Profile_Load\<close> (\<open>load.go\<close>); \<open>Commit\<close>: the plan, its validation and the
    \<open>Fold\<close> handler, composed with loading and replay.

  \<^bold>\<open>Analytics\<close> (\<open>internal/analytics\<close>).
  \<^item> \<open>Accumulate\<close>: the locales \<open>accumulation\<close> and \<open>incremental_accumulation\<close> of a one-pass grouping into
    a table; they are interpreted for every table the analytics build, and give that the table is the
    grouping of the transactions and that its meaning does not depend on their order.
  \<^item> \<open>Analytics_Ratio\<close>, \<open>Analytics_Totals\<close>, \<open>Analytics_Periods\<close>, \<open>Analytics_Sort\<close>, \<open>Analytics_Shares\<close>,
    \<open>Analytics_Aggregate\<close>, \<open>Analytics_Time\<close>: the steps of a query; \<open>Analytics_Query\<close>: their
    composition, with totals that add up, the exact reasons for an error and independence of the
    input's order.
  \<^item> \<open>Analytics_Ranges\<close> (\<open>ranges.go\<close>), \<open>Analytics_CrossTab\<close> (\<open>crosstab.go\<close>), \<open>Analytics_Duplicates\<close>
    (\<open>duplicates.go\<close>), \<open>Analytics_Amazon\<close> (\<open>amazon_matching.go\<close>).

  \<^bold>\<open>Session\<close> (\<open>internal/app\<close>).
  \<^item> \<open>View_State\<close> (\<open>view_state.go\<close>): the durable view and its validation; \<open>Session\<close> (\<open>session.go\<close>,
    \<open>navigation.go\<close>): every operation on the visible state, the selection and the history.
  \<^item> \<open>Session_Steps\<close>: the requests of a client as a step relation; every reachable session has a valid
    query, whether it was opened afresh or from a link; its durable view round-trips when the history
    fits, which a drill path of up to three levels with sub-groupings does; Back undoes a drill or
    first clears a search left at its level; and following a breadcrumb ends.

  \<^bold>\<open>Conventions.\<close>  A Go function that returns a value and an error returns \<open>Inr\<close> or \<open>Inl\<close>; a panic is
  a constructor of the error type or \<open>None\<close>, never an unspecified value: the handlers read and write
  slices through checked indexes, and a nil scope is dereferenced through a checked one.  \<open>int64\<close>, \<open>uint64\<close> and \<open>uint8\<close> are
  words; \<open>int\<close> indexes and counters, which stay below the length of a slice, are \<open>int\<close> or \<open>nat\<close>.
  Copying a value (\<open>Clone\<close>) is the identity.  A Go map that is only looked up is a partial function; one
  that is iterated is an association list in first-use order, and what the code returns is shown not
  to depend on that order.  Go's unstable sorts are modelled by a stable one; their comparators are
  shown to be total on what is sorted, or the elements they tie to be interchangeable.  Loops are structural recursions
  or have a termination proof, so no fuel is used anywhere: the loop over periods ends because its
  periods advance, the binary search halves its interval, and each step back removes a history
  entry, a sub-grouping, a search or a selection.

  \<^bold>\<open>Parameters.\<close>  Unicode case folding and lower-casing, the compiled search expression, the hash of
  imported rows and the answers of the SQLite driver come from libraries: they are arguments of the
  definitions that use them.  A theorem that relies on a law of one states it as a hypothesis, and
  its witness discharges it for a concrete function.

  SQLite is taken at its documentation: a refused \<open>COMMIT\<close> has not committed, text columns and
  \<open>json_each\<close> give back the strings they were given.

  \<^bold>\<open>What the model showed.\<close>
  \<^item> A fold inserts new entities in the order of their identities, so a journal that merges one new
    entity into a later new one replays but violates a foreign key when it is committed
    (\<open>Fold_Correct\<close>).
  \<^item> A session reaches its fourth drill level through sub-groupings with seven history entries, and
    its durable view, which allows six, is refused (\<open>drill_path_durable\<close> in \<open>Session_Steps\<close>).
  \<^item> Validation accepts identities that are not valid UTF-8.  The journal stores an operation whose
    payload names one, and can then no longer be loaded, because the decoder finds the replaced
    bytes not canonical (\<open>Journal_Codec\<close>, \<open>Journal_Steps\<close>).
  \<^item> The direct jump to the accounts keeps a search that Back can no longer clear (\<open>Session_Steps\<close>).

  \<^bold>\<open>Not modelled.\<close>  The command line, HTTP, MCP and terminal interfaces, rendering and key bindings;
  the clients of the providers, the durable protocol for writing to them and the refresh of a
  profile up to the rebase; the parsers of CSV files and the import planners; files, locks, migrations
  and the credential vault; the summaries of \<open>insights.go\<close>; the edit planners of \<open>internal/app\<close>, which
  build the operations whose effects are modelled here; and the audit log that a commit appends to.
\<close>

end
